(* ===== verification/Prelude.thy ===== *)
theory Prelude
  imports Complex_Main "HOL-Library.AList" "HOL-Library.Word" "HOL-Library.List_Lexorder"
    "HOL-Library.Char_ord" "HOL-Library.Multiset"
begin

text \<open>
  Shared material of the development: the Go values the components use (maps, 64-bit
  integers, byte strings, decimal and hexadecimal text, slices, \<open>sort.Search\<close>) and the
  generic lemmas about them.

  Go maps are association lists with distinct keys: \<open>m[k]\<close> is \<^const>\<open>map_of\<close>,
  assignment is \<^const>\<open>AList.update\<close> and \<open>delete\<close> is \<^const>\<open>AList.delete\<close>. The
  order of the list stands for the iteration order a \<open>range\<close> loop happens to take, so a
  theorem that holds for every list holds for every iteration order.
\<close>

named_theorems go_simps \<open>rewriting facts about Go maps, integers and slices\<close>
named_theorems go_intros \<open>introduction rules for well-formedness of Go maps\<close>

section \<open>Names of the basic types\<close>

type_synonym byte = "8 word"
type_synonym uint16 = "16 word"
type_synonym uint32 = "32 word"
type_synonym uint64 = "64 word"
type_synonym ('k, 'v) gomap = "('k \<times> 'v) list"

section \<open>Maps\<close>

abbreviation go_wf :: "('k, 'v) gomap \<Rightarrow> bool" where
  "go_wf m \<equiv> distinct (map fst m)"

abbreviation go_keys :: "('k, 'v) gomap \<Rightarrow> 'k list" where
  "go_keys m \<equiv> map fst m"

text \<open>\<open>m[k]\<close> with the zero value for a missing key.\<close>

definition go_get :: "'v \<Rightarrow> ('k, 'v) gomap \<Rightarrow> 'k \<Rightarrow> 'v" where
  "go_get zero m k = (case map_of m k of None \<Rightarrow> zero | Some v \<Rightarrow> v)"

lemma map_of_update [simp, go_simps]:
  "map_of (AList.update k v m) = (map_of m)(k \<mapsto> v)"
  by (rule update_conv')

lemma map_of_delete [simp, go_simps]:
  "map_of (AList.delete k m) = (map_of m)(k := None)"
  by (rule delete_conv')

lemma go_wf_update [simp, go_intros]: "go_wf m \<Longrightarrow> go_wf (AList.update k v m)"
  by (rule distinct_update)

lemma go_wf_delete [simp, go_intros]: "go_wf m \<Longrightarrow> go_wf (AList.delete k m)"
  by (rule distinct_delete)

lemma go_keys_update [go_simps]:
  "set (go_keys (AList.update k v m)) = insert k (set (go_keys m))"
  by (induction m) auto

lemma map_of_in_keys: "map_of m k = Some v \<Longrightarrow> k \<in> set (go_keys m)"
  by (metis domI dom_map_of_conv_image_fst image_set)

lemma map_of_None_keys: "map_of m k = None \<longleftrightarrow> k \<notin> set (go_keys m)"
  by (simp add: map_of_eq_None_iff)

lemma map_of_Some_iff_entry: "go_wf m \<Longrightarrow> map_of m k = Some v \<longleftrightarrow> (k, v) \<in> set m"
  by (simp add: map_of_eq_Some_iff)

lemma go_get_update [simp, go_simps]:
  "go_get z (AList.update k v m) = (go_get z m)(k := v)"
  by (auto simp: go_get_def)

lemma go_get_missing: "k \<notin> set (go_keys m) \<Longrightarrow> go_get z m k = z"
  by (metis go_get_def map_of_None_keys option.case(1))

lemma go_get_entry: "go_wf m \<Longrightarrow> (k, v) \<in> set m \<Longrightarrow> go_get z m k = v"
  by (simp add: go_get_def)

lemma length_update_present:
  "k \<in> set (go_keys m) \<Longrightarrow> length (AList.update k v m) = length m"
  by (induction m) auto

lemma length_update_absent:
  "k \<notin> set (go_keys m) \<Longrightarrow> length (AList.update k v m) = Suc (length m)"
  by (induction m) auto

lemma set_update_subset: "set (AList.update k v m) \<subseteq> insert (k, v) (set m)"
  by (induction m) auto

lemma set_delete_subset: "set (AList.delete k m) \<subseteq> set m"
  by (auto simp: AList.delete_eq)

section \<open>Strings, bytes, decimal and hexadecimal text\<close>

text \<open>\<open>[]byte(s)\<close>: a Go string is its bytes.\<close>

definition bytes_of :: "string \<Rightarrow> byte list" where
  "bytes_of s = map (\<lambda>c. word_of_nat (of_char c)) s"

definition string_of :: "byte list \<Rightarrow> string" where
  "string_of bs = map (\<lambda>b. char_of (unat b)) bs"

lemma string_of_bytes_of [simp]: "string_of (bytes_of s) = s"
proof -
  have "char_of (unat (word_of_nat (of_char c) :: byte)) = c" for c :: char
  proof -
    have "(of_char c :: nat) < 256" by simp
    then show ?thesis by (simp add: unat_of_nat)
  qed
  then show ?thesis by (simp add: bytes_of_def string_of_def map_idI)
qed

lemma length_bytes_of [simp]: "length (bytes_of s) = length s"
  by (simp add: bytes_of_def)

lemma length_string_of [simp]: "length (string_of bs) = length bs"
  by (simp add: string_of_def)

lemma bytes_of_inject [simp]: "bytes_of s = bytes_of t \<longleftrightarrow> s = t"
  by (metis string_of_bytes_of)

lemma bytes_of_string_of [simp]: "bytes_of (string_of bs) = bs"
proof -
  have "(word_of_nat (of_char (char_of (unat b) :: char)) :: byte) = b" for b
  proof -
    have "unat b < 256" using unsigned_less [of b] by simp
    then show ?thesis by simp
  qed
  then show ?thesis by (simp add: bytes_of_def string_of_def map_idI)
qed

text \<open>\<open>%d\<close> of a non-negative integer.\<close>

definition digit_char :: "nat \<Rightarrow> char" where
  "digit_char d = char_of (48 + d)"

fun itoa :: "nat \<Rightarrow> string" where
  "itoa n = (if n < 10 then [digit_char n] else itoa (n div 10) @ [digit_char (n mod 10)])"

declare itoa.simps [simp del]

definition is_digit :: "char \<Rightarrow> bool" where
  "is_digit c \<longleftrightarrow> 48 \<le> (of_char c :: nat) \<and> (of_char c :: nat) \<le> 57"

definition digit_val :: "char \<Rightarrow> nat" where
  "digit_val c = of_char c - 48"

definition parse_digits :: "string \<Rightarrow> nat" where
  "parse_digits s = foldl (\<lambda>acc c. 10 * acc + digit_val c) 0 s"

lemma digit_char_digit [simp]: "d < 10 \<Longrightarrow> is_digit (digit_char d)"
  by (simp add: is_digit_def digit_char_def)

lemma digit_val_char [simp]: "d < 10 \<Longrightarrow> digit_val (digit_char d) = d"
  by (simp add: digit_val_def digit_char_def)

lemma itoa_nonempty [simp]: "itoa n \<noteq> []"
  by (subst itoa.simps) simp

lemma itoa_digits: "\<forall>c \<in> set (itoa n). is_digit c"
proof (induction n rule: itoa.induct)
  case (1 n)
  then show ?case by (cases "n < 10") (auto simp: itoa.simps [of n])
qed

lemma parse_itoa [simp]: "parse_digits (itoa n) = n"
proof (induction n rule: itoa.induct)
  case (1 n)
  show ?case
  proof (cases "n < 10")
    case True
    then show ?thesis by (simp add: itoa.simps [of n] parse_digits_def)
  next
    case False
    with "1.IH" show ?thesis by (simp add: itoa.simps [of n] parse_digits_def)
  qed
qed

lemma itoa_inject [simp]: "itoa m = itoa n \<longleftrightarrow> m = n"
  by (metis parse_itoa)

text \<open>\<open>hex.EncodeToString\<close> and \<open>hex.DecodeString\<close> (which also accepts upper case).\<close>

definition hex_digit :: "nat \<Rightarrow> char" where
  "hex_digit d = (if d < 10 then char_of (48 + d) else char_of (87 + d))"

definition unhex_digit :: "char \<Rightarrow> nat option" where
  "unhex_digit c = (let n = (of_char c :: nat) in
     if 48 \<le> n \<and> n \<le> 57 then Some (n - 48)
     else if 97 \<le> n \<and> n \<le> 102 then Some (n - 87)
     else if 65 \<le> n \<and> n \<le> 70 then Some (n - 55)
     else None)"

fun hex_encode :: "byte list \<Rightarrow> string" where
  "hex_encode [] = []"
| "hex_encode (b # bs) = hex_digit (unat b div 16) # hex_digit (unat b mod 16) # hex_encode bs"

fun hex_decode :: "string \<Rightarrow> byte list option" where
  "hex_decode [] = Some []"
| "hex_decode [c] = None"
| "hex_decode (c # d # s) =
     (case (unhex_digit c, unhex_digit d, hex_decode s) of
        (Some x, Some y, Some bs) \<Rightarrow> Some (word_of_nat (16 * x + y) # bs)
      | _ \<Rightarrow> None)"

lemma unhex_hex_digit [simp]: "d < 16 \<Longrightarrow> unhex_digit (hex_digit d) = Some d"
  by (auto simp: unhex_digit_def hex_digit_def Let_def)

lemma unat_byte_less [simp]: "unat (b :: byte) < 256"
  using unsigned_less [of b] by simp

lemma hex_decode_encode [simp]: "hex_decode (hex_encode bs) = Some bs"
proof (induction bs)
  case (Cons b bs)
  have "unat b div 16 < 16" using unat_byte_less [of b] by arith
  moreover have "16 * (unat b div 16) + unat b mod 16 = unat b" by simp
  ultimately show ?case using Cons.IH by simp
qed simp

lemma hex_encode_inject [simp]: "hex_encode bs = hex_encode cs \<longleftrightarrow> bs = cs"
  by (metis hex_decode_encode option.inject)

lemma length_hex_encode [simp]: "length (hex_encode bs) = 2 * length bs"
  by (induction bs) auto

section \<open>Signed 64-bit integers\<close>

text \<open>An \<open>int64\<close> is an \<open>int\<close> kept in range by \<open>i64\<close> after every operation that can wrap.\<close>

definition i64 :: "int \<Rightarrow> int" where
  "i64 x = (x + 2 ^ 63) mod 2 ^ 64 - 2 ^ 63"

definition in_i64 :: "int \<Rightarrow> bool" where
  "in_i64 x \<longleftrightarrow> - (2 ^ 63) \<le> x \<and> x < 2 ^ 63"

lemma i64_id [simp]: "in_i64 x \<Longrightarrow> i64 x = x"
  by (simp add: i64_def in_i64_def)

lemma in_i64_i64 [simp]: "in_i64 (i64 x)"
  by (auto simp: i64_def in_i64_def)

lemma i64_add_left: "i64 (i64 x + y) = i64 (x + y)"
  using mod_add_left_eq [of "x + 2 ^ 63" "2 ^ 64" y] by (simp add: i64_def algebra_simps)

section \<open>Unsigned 64-bit counters\<close>

lemma word_less_plus_one: "w \<noteq> - 1 \<Longrightarrow> (w :: 'a::len word) < w + 1"
proof -
  assume "w \<noteq> - 1"
  then have "1 + w \<noteq> 0" by (metis add.commute add_eq_0_iff2 add.inverse_inverse)
  then show ?thesis by (simp add: word_less_nat_alt unatSuc add.commute)
qed

section \<open>Big-endian integers\<close>

fun be_bytes :: "nat \<Rightarrow> nat \<Rightarrow> byte list" where
  "be_bytes 0 n = []"
| "be_bytes (Suc k) n = be_bytes k (n div 256) @ [word_of_nat (n mod 256)]"

definition be_nat :: "byte list \<Rightarrow> nat" where
  "be_nat bs = foldl (\<lambda>acc b. 256 * acc + unat b) 0 bs"

lemma length_be_bytes [simp]: "length (be_bytes k n) = k"
  by (induction k arbitrary: n) auto

lemma be_nat_snoc [simp]: "be_nat (bs @ [b]) = 256 * be_nat bs + unat b"
  by (simp add: be_nat_def)

lemma be_nat_be_bytes [simp]: "be_nat (be_bytes k n) = n mod 256 ^ k"
proof (induction k arbitrary: n)
  case 0
  then show ?case by (simp add: be_nat_def)
next
  case (Suc k)
  have "unat (word_of_nat (n mod 256) :: byte) = n mod 256" by (simp add: unat_of_nat)
  then show ?case using Suc.IH [of "n div 256"] by (simp add: mod_mult2_eq)
qed

lemma be_nat_less: "be_nat bs < 256 ^ length bs"
proof (induction bs rule: rev_induct)
  case Nil
  then show ?case by (simp add: be_nat_def)
next
  case (snoc b bs)
  have "256 * be_nat bs + unat b < 256 * (be_nat bs + 1)"
    using unat_byte_less [of b] by simp
  also have "\<dots> \<le> 256 * 256 ^ length bs"
    using snoc.IH by (intro mult_le_mono2) simp
  finally show ?case by simp
qed

section \<open>Slices\<close>

text \<open>Go's in-place filter idiom \<open>out := xs[:0]; ... append(out, x)\<close> is \<^const>\<open>filter\<close>.
  \<open>pairwise\<close> is the loop \<open>for i := 0; i < len; i += 2\<close> of the Merkle builders, where a
  missing right neighbour is the left one again.\<close>

fun pairwise :: "('a \<Rightarrow> 'a \<Rightarrow> 'b) \<Rightarrow> 'a list \<Rightarrow> 'b list" where
  "pairwise f [] = []"
| "pairwise f [x] = [f x x]"
| "pairwise f (x # y # zs) = f x y # pairwise f zs"

lemma length_pairwise: "length (pairwise f xs) = (length xs + 1) div 2"
  by (induction f xs rule: pairwise.induct) auto

lemma pairwise_shorter [simp]: "length (pairwise f (x # y # zs)) < length (x # y # zs)"
  by (simp add: length_pairwise)

text \<open>Go's \<open>sort.Search(n, p)\<close>: the smallest index in \<open>[0, n)\<close> where \<open>p\<close> holds, by bisection.\<close>

function sort_search_loop :: "(nat \<Rightarrow> bool) \<Rightarrow> nat \<Rightarrow> nat \<Rightarrow> nat" where
  "sort_search_loop p i j =
     (if i < j then
        (let h = (i + j) div 2 in
           if \<not> p h then sort_search_loop p (h + 1) j else sort_search_loop p i h)
      else i)"
  by pat_completeness auto
termination
  by (relation "measure (\<lambda>(p, i, j). j - i)") auto

declare sort_search_loop.simps [simp del]

definition sort_search :: "nat \<Rightarrow> (nat \<Rightarrow> bool) \<Rightarrow> nat" where
  "sort_search n p = sort_search_loop p 0 n"

text \<open>The bracket the bisection keeps: false below \<open>i\<close>, true from \<open>j\<close> on.\<close>

definition bracketed :: "(nat \<Rightarrow> bool) \<Rightarrow> nat \<Rightarrow> nat \<Rightarrow> nat \<Rightarrow> bool" where
  "bracketed p n i j \<longleftrightarrow> (\<forall>k < i. \<not> p k) \<and> (\<forall>k. j \<le> k \<longrightarrow> k < n \<longrightarrow> p k)"

lemma sort_search_loop_spec:
  assumes "mono_on {..<n} p" and "i \<le> j" and "j \<le> n" and "bracketed p n i j"
  shows "sort_search_loop p i j \<le> n \<and>
         bracketed p n (sort_search_loop p i j) (sort_search_loop p i j)"
  using assms
proof (induction p i j rule: sort_search_loop.induct)
  case (1 p i j)
  have up: "p b" if "a \<le> b" "b < n" "p a" for a b
    using mono_onD [OF "1.prems"(1), of a b] that by simp
  show ?case
  proof (cases "i < j")
    case False
    with "1.prems" show ?thesis by (simp add: sort_search_loop.simps [of p j j])
  next
    case True
    define h where "h = (i + j) div 2"
    have h: "i \<le> h" "h < j" "h < n" using True "1.prems"(3) by (auto simp: h_def)
    have eq: "sort_search_loop p i j =
        (if \<not> p h then sort_search_loop p (h + 1) j else sort_search_loop p i h)"
      using True by (simp add: sort_search_loop.simps [of p i j] h_def)
    show ?thesis
    proof (cases "p h")
      case True
      have "bracketed p n i h" using "1.prems"(4) up [of h] True by (auto simp: bracketed_def)
      then show ?thesis using "1.IH"(2) [OF \<open>i < j\<close> h_def] True h eq "1.prems"(1) by simp
    next
      case False
      have "\<not> p k" if "k < h + 1" for k using up [of k h] that False h by auto
      then have "bracketed p n (h + 1) j" using "1.prems"(4) by (simp add: bracketed_def)
      then show ?thesis using "1.IH"(1) [OF \<open>i < j\<close> h_def] False h eq "1.prems"(1,3) by simp
    qed
  qed
qed

lemma sort_search_spec:
  assumes "mono_on {..<n} p"
  shows "sort_search n p \<le> n" and "k < sort_search n p \<Longrightarrow> \<not> p k"
    and "sort_search n p \<le> k \<Longrightarrow> k < n \<Longrightarrow> p k"
proof -
  have "bracketed p n 0 n" by (simp add: bracketed_def)
  from sort_search_loop_spec [OF assms _ _ this]
  have "sort_search n p \<le> n \<and> bracketed p n (sort_search n p) (sort_search n p)"
    by (simp add: sort_search_def)
  then show "sort_search n p \<le> n" and "k < sort_search n p \<Longrightarrow> \<not> p k"
    and "sort_search n p \<le> k \<Longrightarrow> k < n \<Longrightarrow> p k"
    by (auto simp: bracketed_def)
qed

section \<open>Lists without their duplicates, first occurrence kept\<close>

text \<open>The loops with a \<open>seen\<close> map keep the first occurrence of each element.\<close>

fun dedup :: "'a list \<Rightarrow> 'a list \<Rightarrow> 'a list" where
  "dedup seen [] = []"
| "dedup seen (x # xs) = (if x \<in> set seen then dedup seen xs else x # dedup (x # seen) xs)"

lemma set_dedup [simp]: "set (dedup seen xs) = set xs - set seen"
  by (induction seen xs rule: dedup.induct) auto

lemma distinct_dedup [simp]: "distinct (dedup seen xs)"
  by (induction seen xs rule: dedup.induct) auto

lemma dedup_cong_seen: "set s \<inter> set xs = set t \<inter> set xs \<Longrightarrow> dedup s xs = dedup t xs"
proof (induction xs arbitrary: s t)
  case (Cons x xs)
  have "x \<in> set s \<longleftrightarrow> x \<in> set t" using Cons.prems by auto
  moreover have "dedup s xs = dedup t xs" using Cons.prems by (intro Cons.IH) auto
  moreover have "dedup (x # s) xs = dedup (x # t) xs" using Cons.prems by (intro Cons.IH) auto
  ultimately show ?case by simp
qed simp

lemma filter_dedup: "filter P (dedup seen xs) = dedup seen (filter P xs)"
proof (induction seen xs rule: dedup.induct)
  case (2 seen x xs)
  have "dedup (x # seen) (filter P xs) = dedup seen (filter P xs)" if "\<not> P x"
    using that by (intro dedup_cong_seen) auto
  then show ?case using 2 by simp
qed simp

section \<open>Division\<close>

text \<open>\<open>/\<close> and \<open>%\<close> truncate towards zero.\<close>

definition go_div :: "int \<Rightarrow> int \<Rightarrow> int" where
  "go_div a b = sgn a * sgn b * (\<bar>a\<bar> div \<bar>b\<bar>)"

definition go_mod :: "int \<Rightarrow> int \<Rightarrow> int" where
  "go_mod a b = a - b * go_div a b"

end
