(* ===== verification/Files.thy ===== *)
theory Files
  imports Prelude
begin

text \<open>
  The parts of Go's standard library the on-disk formats rest on: files by path (\<open>os\<close>), line
  scanning (\<open>bufio.Scanner\<close> with its default buffer), \<open>strings.TrimSpace\<close>, \<open>strconv.Atoi\<close> and
  the text \<open>%d\<close> prints. The lemmas give what a scanner returns on an append-only log of short
  lines, and on a prefix of such a log, which is what a crash in the middle of a write leaves.
\<close>

named_theorems file_simps \<open>reads after writes on the file system\<close>

section \<open>Files\<close>

text \<open>\<open>Denied op path\<close>: the operating system answers the operation with an error other than
  \<open>ErrNotExist\<close> (permissions, a directory in the way, a full disk). A path with a zero byte is
  refused before it reaches the system.\<close>

datatype file_op = OpRead | OpWrite | OpTruncate | OpRemove | OpRename

record os =
  Files :: "string \<Rightarrow> byte list option"
  Denied :: "file_op \<Rightarrow> string \<Rightarrow> bool"

datatype os_error = NotExist string | Refused file_op string

definition NUL :: char where
  "NUL = CHR 0x00"

definition refuses :: "os \<Rightarrow> file_op \<Rightarrow> string \<Rightarrow> bool" where
  "refuses s op p \<longleftrightarrow> NUL \<in> set p \<or> Denied s op p"

definition set_file :: "string \<Rightarrow> byte list \<Rightarrow> os \<Rightarrow> os" where
  "set_file p bs s = s\<lparr>Files := (Files s)(p \<mapsto> bs)\<rparr>"

definition drop_file :: "string \<Rightarrow> os \<Rightarrow> os" where
  "drop_file p s = s\<lparr>Files := (Files s)(p := None)\<rparr>"

lemma Files_set_file [simp, file_simps]: "Files (set_file p bs s) = (Files s)(p \<mapsto> bs)"
  by (simp add: set_file_def)

lemma Files_drop_file [simp, file_simps]: "Files (drop_file p s) = (Files s)(p := None)"
  by (simp add: drop_file_def)

lemma Denied_set_file [simp, file_simps]: "Denied (set_file p bs s) = Denied s"
  by (simp add: set_file_def)

lemma Denied_drop_file [simp, file_simps]: "Denied (drop_file p s) = Denied s"
  by (simp add: drop_file_def)

lemma refuses_set_file [simp, file_simps]: "refuses (set_file p bs s) = refuses s"
  by (simp add: refuses_def fun_eq_iff)

lemma refuses_drop_file [simp, file_simps]: "refuses (drop_file p s) = refuses s"
  by (simp add: refuses_def fun_eq_iff)

text \<open>\<open>os.ReadFile\<close>\<close>

definition os_ReadFile :: "string \<Rightarrow> os \<Rightarrow> os_error + byte list" where
  "os_ReadFile p s =
     (if refuses s OpRead p then Inl (Refused OpRead p)
      else case Files s p of None \<Rightarrow> Inl (NotExist p) | Some bs \<Rightarrow> Inr bs)"

text \<open>\<open>os.OpenFile\<close> with \<open>O_CREATE|O_WRONLY|O_TRUNC\<close>, with \<open>O_WRONLY|O_APPEND\<close> and with
  \<open>O_CREATE|O_RDWR\<close>.\<close>

definition os_create_trunc :: "string \<Rightarrow> os \<Rightarrow> os_error option \<times> os" where
  "os_create_trunc p s = (if refuses s OpWrite p then (Some (Refused OpWrite p), s) else (None, set_file p [] s))"

definition os_open_append :: "string \<Rightarrow> os \<Rightarrow> os_error option" where
  "os_open_append p s =
     (if refuses s OpWrite p then Some (Refused OpWrite p)
      else if Files s p = None then Some (NotExist p) else None)"

definition os_open_create :: "string \<Rightarrow> os \<Rightarrow> os_error option \<times> os" where
  "os_open_create p s =
     (if refuses s OpWrite p then (Some (Refused OpWrite p), s)
      else case Files s p of None \<Rightarrow> (None, set_file p [] s) | Some bs \<Rightarrow> (None, s))"

text \<open>A write at the end of an open file. A file removed in the meantime keeps its handle but has no
  path any more.\<close>

definition os_append :: "string \<Rightarrow> byte list \<Rightarrow> os \<Rightarrow> os" where
  "os_append p bs s = (case Files s p of None \<Rightarrow> s | Some old \<Rightarrow> set_file p (old @ bs) s)"

text \<open>\<open>f.Truncate(n)\<close>: cut, or filled with zeros; a negative size is an error.\<close>

definition truncated :: "nat \<Rightarrow> byte list \<Rightarrow> byte list" where
  "truncated n bs = take n bs @ replicate (n - length bs) 0"

definition os_truncate :: "string \<Rightarrow> int \<Rightarrow> os \<Rightarrow> os_error option \<times> os" where
  "os_truncate p n s =
     (if n < 0 \<or> refuses s OpTruncate p then (Some (Refused OpTruncate p), s)
      else case Files s p of None \<Rightarrow> (None, s) | Some bs \<Rightarrow> (None, set_file p (truncated (nat n) bs) s))"

definition os_Remove :: "string \<Rightarrow> os \<Rightarrow> os_error option \<times> os" where
  "os_Remove p s =
     (if refuses s OpRemove p \<and> (NUL \<in> set p \<or> Files s p \<noteq> None) then (Some (Refused OpRemove p), s)
      else case Files s p of None \<Rightarrow> (Some (NotExist p), s) | Some bs \<Rightarrow> (None, drop_file p s))"

text \<open>\<open>os.Rename\<close> replaces an existing destination in one step.\<close>

definition os_Rename :: "string \<Rightarrow> string \<Rightarrow> os \<Rightarrow> os_error option \<times> os" where
  "os_Rename src dst s =
     (if refuses s OpRename src \<or> refuses s OpRename dst then (Some (Refused OpRename src), s)
      else case Files s src of
          None \<Rightarrow> (Some (NotExist src), s)
        | Some bs \<Rightarrow> (None, set_file dst bs (drop_file src s)))"

text \<open>\<open>os.Stat(p)\<close> succeeds.\<close>

definition os_exists :: "string \<Rightarrow> os \<Rightarrow> bool" where
  "os_exists p s \<longleftrightarrow> NUL \<notin> set p \<and> Files s p \<noteq> None"

text \<open>\<open>os.IsNotExist(err)\<close>\<close>

fun os_IsNotExist :: "os_error \<Rightarrow> bool" where
  "os_IsNotExist (NotExist p) = True"
| "os_IsNotExist (Refused op p) = False"

lemma length_truncated [simp]: "length (truncated n bs) = n"
  by (simp add: truncated_def)

lemma nth_truncated: "j < length bs \<Longrightarrow> j < n \<Longrightarrow> truncated n bs ! j = bs ! j"
  by (simp add: truncated_def nth_append)

section \<open>Paths\<close>

text \<open>\<open>strings.Split(s, "/")\<close>\<close>

fun split_at_char :: "char \<Rightarrow> string \<Rightarrow> string list" where
  "split_at_char d [] = [[]]"
| "split_at_char d (c # s) =
     (if c = d then [] # split_at_char d s
      else case split_at_char d s of [] \<Rightarrow> [[c]] | p # ps \<Rightarrow> (c # p) # ps)"

fun join_path :: "string list \<Rightarrow> string" where
  "join_path [] = []"
| "join_path [p] = p"
| "join_path (p # ps) = p @ CHR ''/'' # join_path ps"

text \<open>\<open>filepath.Clean\<close> on Unix: the loop over the elements, with the output reversed in \<open>st\<close>.\<close>

fun clean_parts :: "bool \<Rightarrow> string list \<Rightarrow> string list \<Rightarrow> string list" where
  "clean_parts rooted st [] = rev st"
| "clean_parts rooted st (p # ps) =
     (if p = [] \<or> p = ''.'' then clean_parts rooted st ps
      else if p = ''..'' then
        (if st \<noteq> [] \<and> hd st \<noteq> ''..'' then clean_parts rooted (tl st) ps
         else if rooted then clean_parts rooted st ps
         else clean_parts rooted (p # st) ps)
      else clean_parts rooted (p # st) ps)"

definition path_Clean :: "string \<Rightarrow> string" where
  "path_Clean s =
     (let rooted = (s \<noteq> [] \<and> hd s = CHR ''/'');
          ps = clean_parts rooted [] (split_at_char (CHR ''/'') s)
      in if rooted then CHR ''/'' # join_path ps
         else if ps = [] then ''.'' else join_path ps)"

definition path_IsAbs :: "string \<Rightarrow> bool" where
  "path_IsAbs s \<longleftrightarrow> s \<noteq> [] \<and> hd s = CHR ''/''"

text \<open>\<open>filepath.Join(a, b)\<close>\<close>

definition path_Join :: "string \<Rightarrow> string \<Rightarrow> string" where
  "path_Join a b =
     (if a \<noteq> [] then path_Clean (a @ CHR ''/'' # b) else if b \<noteq> [] then path_Clean b else [])"

text \<open>A name that is an ordinary last element of a path is kept by \<open>filepath.Join\<close>.\<close>

definition plain_name :: "string \<Rightarrow> bool" where
  "plain_name x \<longleftrightarrow> CHR ''/'' \<notin> set x \<and> x \<noteq> [] \<and> x \<noteq> ''.'' \<and> x \<noteq> ''..''"

lemma split_at_char_plain: "d \<notin> set x \<Longrightarrow> split_at_char d x = [x]"
  by (induction x) auto

lemma split_at_char_not_Nil [simp]: "split_at_char d x \<noteq> []"
  by (induction x) (auto split: list.splits)

lemma split_at_char_append: "split_at_char d (s @ d # t) = split_at_char d s @ split_at_char d t"
  by (induction s) (auto split: list.splits)

lemma clean_parts_plain: "plain_name x \<Longrightarrow> clean_parts r st (ps @ [x]) = clean_parts r st ps @ [x]"
  by (induction r st ps rule: clean_parts.induct) (auto simp: plain_name_def)

lemma join_path_snoc: "join_path (ps @ [x]) = (if ps = [] then x else join_path ps @ CHR ''/'' # x)"
  by (induction ps rule: join_path.induct) auto

lemma path_Join_plain:
  assumes "a \<noteq> []"
  obtains pre where "\<And>x. plain_name x \<Longrightarrow> path_Join a x = pre @ x"
proof -
  let ?ps = "clean_parts (hd a = CHR ''/'') [] (split_at_char (CHR ''/'') a)"
  let ?pre = "(if hd a = CHR ''/'' then ''/'' else []) @ (if ?ps = [] then [] else join_path ?ps @ ''/'')"
  have "path_Join a x = ?pre @ x" if "plain_name x" for x
  proof -
    have "split_at_char (CHR ''/'') (a @ CHR ''/'' # x) = split_at_char (CHR ''/'') a @ [x]"
      using that by (simp add: split_at_char_append split_at_char_plain plain_name_def)
    then show ?thesis
      using assms that by (simp add: path_Join_def path_Clean_def clean_parts_plain join_path_snoc Let_def)
  qed
  then show thesis using that by blast
qed

lemma join_path_nonempty: "join_path ps = [] \<Longrightarrow> [] \<notin> set ps \<Longrightarrow> ps = []"
  by (induction ps rule: join_path.induct) auto

lemma clean_parts_nonempty: "[] \<notin> set st \<Longrightarrow> [] \<notin> set (clean_parts r st ps)"
proof (induction r st ps rule: clean_parts.induct)
  case (2 rooted st p ps)
  then have "[] \<notin> set (tl st)" by (cases st) auto
  then show ?case using 2 by auto
qed simp

lemma path_Clean_nonempty [simp]: "path_Clean s \<noteq> []"
  using join_path_nonempty [OF _ clean_parts_nonempty] by (auto simp: path_Clean_def Let_def)

text \<open>Joining a directory with names that contain no separator is injective.\<close>

lemma split_join_path: "ps \<noteq> [] \<Longrightarrow> \<forall>p \<in> set ps. CHR ''/'' \<notin> set p \<Longrightarrow> split_at_char (CHR ''/'') (join_path ps) = ps"
  by (induction ps rule: join_path.induct) (simp_all add: split_at_char_plain split_at_char_append)

definition dir_parts :: "string \<Rightarrow> string list" where
  "dir_parts a = clean_parts (hd a = CHR ''/'') [] (split_at_char (CHR ''/'') a)"

lemma path_Join_names:
  assumes "a \<noteq> []" and "ps \<noteq> []" and "\<forall>p \<in> set ps. plain_name p"
  shows "path_Join a (join_path ps) = (if hd a = CHR ''/'' then ''/'' else []) @ join_path (dir_parts a @ ps)"
proof -
  have "clean_parts r st (qs @ ps) = clean_parts r st qs @ ps" for r st qs
    using assms(3)
  proof (induction ps rule: rev_induct)
    case (snoc p ps)
    then show ?case using clean_parts_plain [of p r st "qs @ ps"] by simp
  qed simp
  moreover have "split_at_char (CHR ''/'') (a @ CHR ''/'' # join_path ps) = split_at_char (CHR ''/'') a @ ps"
    using assms(2,3) by (simp add: split_at_char_append split_join_path plain_name_def)
  ultimately show ?thesis
    using assms(1,2) by (simp add: path_Join_def path_Clean_def Let_def dir_parts_def)
qed

lemma split_no_sep: "p \<in> set (split_at_char d s) \<Longrightarrow> d \<notin> set p"
  by (induction s arbitrary: p) (auto split: if_splits list.splits)

lemma clean_parts_all:
  "\<forall>x \<in> set st. Q x \<Longrightarrow> \<forall>x \<in> set ps. Q x \<Longrightarrow> \<forall>x \<in> set (clean_parts r st ps). Q x"
proof (induction r st ps rule: clean_parts.induct)
  case (2 rooted st p ps)
  have tl: "\<forall>x \<in> set (tl st). Q x" using "2.prems"(1) by (cases st) auto
  have p: "\<forall>x \<in> set (p # st). Q x" and ps: "\<forall>x \<in> set ps. Q x" using "2.prems" by simp_all
  note IH = "2.IH"(1) [OF _ "2.prems"(1) ps] "2.IH"(2) [OF _ _ _ tl ps] "2.IH"(3) [OF _ _ _ _ "2.prems"(1) ps]
      "2.IH"(4) [OF _ _ _ _ p ps] "2.IH"(5) [OF _ _ p ps]
  show ?case
  proof (cases "p = [] \<or> p = ''.''")
    case True
    with IH(1) show ?thesis by simp
  next
    case nd: False
    show ?thesis
    proof (cases "p = ''..''")
      case up: True
      have eq: "clean_parts rooted st (p # ps) =
          (if st \<noteq> [] \<and> hd st \<noteq> ''..'' then clean_parts rooted (tl st) ps
           else if rooted then clean_parts rooted st ps else clean_parts rooted (p # st) ps)"
        using nd up by simp
      show ?thesis unfolding eq using IH(2-4) [OF nd up] by presburger
    next
      case False
      with nd IH(5) show ?thesis by simp
    qed
  qed
qed simp

lemma dir_parts_no_sep: "\<forall>p \<in> set (dir_parts a). CHR ''/'' \<notin> set p"
  unfolding dir_parts_def using split_no_sep by (intro clean_parts_all) auto

lemma join_path_inject:
  assumes "join_path ps = join_path qs" and "ps \<noteq> []" and "qs \<noteq> []"
    and "\<forall>p \<in> set ps \<union> set qs. CHR ''/'' \<notin> set p"
  shows "ps = qs"
proof -
  have "\<forall>p \<in> set ps. CHR ''/'' \<notin> set p" "\<forall>p \<in> set qs. CHR ''/'' \<notin> set p" using assms(4) by blast+
  from split_join_path [OF assms(2) this(1)] split_join_path [OF assms(3) this(2)] assms(1) show ?thesis by metis
qed

section \<open>Lines\<close>

definition NL :: char where
  "NL = CHR 0x0A"

definition CR :: char where
  "CR = CHR 0x0D"

text \<open>\<open>bufio.MaxScanTokenSize\<close>: a line that does not end within the buffer stops the scanner.\<close>

definition MaxScanTokenSize :: nat where
  "MaxScanTokenSize = 64 * 1024"

text \<open>\<open>bufio.ScanLines\<close> drops the line end and one carriage return before it.\<close>

definition dropCR :: "string \<Rightarrow> string" where
  "dropCR l = (if l \<noteq> [] \<and> last l = CR then butlast l else l)"

function scan_lines :: "string \<Rightarrow> string list" where
  "scan_lines s =
     (if s = [] then []
      else (let l = takeWhile (\<lambda>c. c \<noteq> NL) s
            in if MaxScanTokenSize \<le> length l then []
               else dropCR l # scan_lines (drop (length l + 1) s)))"
  by pat_completeness auto
termination
  by (relation "measure length") auto

declare scan_lines.simps [simp del]

lemma scan_lines_Nil [simp]: "scan_lines [] = []"
  by (simp add: scan_lines.simps)

text \<open>A line of a log: short, without line breaks or carriage returns.\<close>

definition log_line :: "string \<Rightarrow> bool" where
  "log_line l \<longleftrightarrow> NL \<notin> set l \<and> CR \<notin> set l \<and> length l < MaxScanTokenSize"

lemma log_line_take: "log_line l \<Longrightarrow> log_line (take m l)"
  by (auto simp: log_line_def dest: in_set_takeD)

lemma takeWhile_line [simp]: "NL \<notin> set l \<Longrightarrow> takeWhile (\<lambda>c. c \<noteq> NL) (l @ NL # s) = l"
  by (induction l) auto

lemma takeWhile_no_NL [simp]: "NL \<notin> set l \<Longrightarrow> takeWhile (\<lambda>c. c \<noteq> NL) l = l"
  by (induction l) auto

lemma scan_lines_line [simp]: "log_line l \<Longrightarrow> scan_lines (l @ NL # s) = l # scan_lines s"
  by (subst scan_lines.simps) (auto simp: log_line_def dropCR_def dest: last_in_set)

text \<open>The last line needs no line end, unless it is empty.\<close>

lemma scan_lines_last: "log_line l \<Longrightarrow> scan_lines l = (if l = [] then [] else [l])"
  by (subst scan_lines.simps) (auto simp: log_line_def dropCR_def dest: last_in_set)

definition log_text :: "string list \<Rightarrow> string" where
  "log_text ls = concat (map (\<lambda>l. l @ [NL]) ls)"

lemma log_text_simps [simp]:
  "log_text [] = []" "log_text (l # ls) = l @ NL # log_text ls"
  "log_text (ls @ ms) = log_text ls @ log_text ms"
  by (simp_all add: log_text_def)

lemma scan_log_text: "\<forall>l \<in> set ls. log_line l \<Longrightarrow> scan_lines (log_text ls @ s) = ls @ scan_lines s"
  by (induction ls) auto

text \<open>A prefix of a log is a number of complete lines and a proper prefix of the next one.\<close>

lemma log_prefix:
  "\<exists>k torn. take n (log_text ls) = log_text (take k ls) @ torn \<and>
     (if k < length ls then \<exists>m. torn = take m (ls ! k) else torn = [])"
proof (induction ls arbitrary: n)
  case Nil
  show ?case by (intro exI [of _ 0] exI [of _ "[]"]) simp
next
  case (Cons l ls)
  show ?case
  proof (cases "n \<le> length l")
    case True
    then show ?thesis by (intro exI [of _ 0] exI [of _ "take n l"]) auto
  next
    case False
    then obtain m where m: "n = Suc (length l + m)" by (metis less_iff_Suc_add not_le)
    obtain k torn where k: "take m (log_text ls) = log_text (take k ls) @ torn"
        "if k < length ls then \<exists>m. torn = take m (ls ! k) else torn = []"
      using Cons.IH [of m] by blast
    show ?thesis using k m by (intro exI [of _ "Suc k"] exI [of _ torn]) (simp add: add.commute)
  qed
qed

section \<open>White space and decimal numbers\<close>

text \<open>The UTF-8 encodings of the runes \<open>unicode.IsSpace\<close> accepts.\<close>

definition space_runes :: "string list" where
  "space_runes = map (map (char_of :: nat \<Rightarrow> char))
     ([[9], [10], [11], [12], [13], [32], [194, 133], [194, 160], [225, 154, 128]] @
      map (\<lambda>b. [226, 128, b]) ([128..<139] @ [168, 169, 175]) @ [[226, 129, 159], [227, 128, 128]])"

definition starts_with :: "string \<Rightarrow> string \<Rightarrow> bool" where
  "starts_with r s \<longleftrightarrow> take (length r) s = r"

function strip_left :: "string list \<Rightarrow> string \<Rightarrow> string" where
  "strip_left rs s =
     (case find (\<lambda>r. r \<noteq> [] \<and> s \<noteq> [] \<and> starts_with r s) rs of
        None \<Rightarrow> s
      | Some r \<Rightarrow> strip_left rs (drop (length r) s))"
  by pat_completeness auto
termination
proof (relation "measure (\<lambda>(rs, s). length s)")
  fix rs :: "string list" and s r
  assume "find (\<lambda>r. r \<noteq> [] \<and> s \<noteq> [] \<and> starts_with r s) rs = Some r"
  then have "r \<noteq> [] \<and> s \<noteq> []" by (auto simp: find_Some_iff)
  then show "((rs, drop (length r) s), rs, s) \<in> measure (\<lambda>(rs, s). length s)" by simp
qed simp

declare strip_left.simps [simp del]

definition TrimSpace :: "string \<Rightarrow> string" where
  "TrimSpace s = rev (strip_left (map rev space_runes) (rev (strip_left space_runes s)))"

text \<open>\<open>strconv.Atoi\<close> on a 64-bit platform: an optional sign, digits only, and a range error outside \<open>int64\<close>.\<close>

definition Atoi :: "string \<Rightarrow> int option" where
  "Atoi s =
     (let neg = (s \<noteq> [] \<and> hd s = CHR ''-'');
          ds = (if s \<noteq> [] \<and> (hd s = CHR ''-'' \<or> hd s = CHR ''+'') then tl s else s)
      in if ds = [] \<or> \<not> (\<forall>c \<in> set ds. is_digit c) then None
         else (let v = (if neg then - int (parse_digits ds) else int (parse_digits ds))
               in if in_i64 v then Some v else None))"

text \<open>\<open>%d\<close> of an \<open>int\<close>.\<close>

definition int_text :: "int \<Rightarrow> string" where
  "int_text i = (if i < 0 then CHR ''-'' # itoa (nat (- i)) else itoa (nat i))"

definition digits :: "string \<Rightarrow> bool" where
  "digits s \<longleftrightarrow> (\<forall>c \<in> set s. is_digit c)"

lemma int_text_nat [simp]: "int_text (int n) = itoa n"
  by (simp add: int_text_def)

lemma digits_itoa [simp]: "digits (itoa n)"
  using itoa_digits by (simp add: digits_def)

lemma digits_take: "digits s \<Longrightarrow> digits (take m s)"
  by (auto simp: digits_def dest: in_set_takeD)

lemma digit_not_special: "is_digit c \<Longrightarrow> c \<noteq> NL \<and> c \<noteq> CR \<and> c \<noteq> CHR ''-'' \<and> c \<noteq> CHR ''+''"
  by (auto simp: is_digit_def NL_def CR_def)

lemma digits_log_line: "digits s \<Longrightarrow> length s < MaxScanTokenSize \<Longrightarrow> log_line s"
  using digit_not_special by (auto simp: digits_def log_line_def dest: last_in_set)

text \<open>Trimming leaves digits alone.\<close>

lemma space_rune_no_digit:
  assumes "r \<in> set space_runes \<union> rev ` set space_runes"
  shows "r \<noteq> [] \<and> \<not> is_digit (hd r)"
proof -
  have "\<forall>r \<in> set space_runes. r \<noteq> [] \<and> \<not> is_digit (hd r) \<and> \<not> is_digit (last r)"
    by (simp add: space_runes_def is_digit_def)
  with assms show ?thesis by (auto simp: hd_rev)
qed

lemma strip_left_digits:
  assumes "digits s" and "set rs \<subseteq> set space_runes \<union> rev ` set space_runes"
  shows "strip_left rs s = s"
proof -
  have "\<not> (r \<noteq> [] \<and> s \<noteq> [] \<and> starts_with r s)" if "r \<in> set rs" for r
  proof
    assume a: "r \<noteq> [] \<and> s \<noteq> [] \<and> starts_with r s"
    then have "hd r = hd s" by (metis starts_with_def hd_take length_greater_0_conv)
    moreover have "is_digit (hd s)" using a assms(1) by (simp add: digits_def)
    ultimately show False using space_rune_no_digit [of r] that assms(2) by auto
  qed
  then have "find (\<lambda>r. r \<noteq> [] \<and> s \<noteq> [] \<and> starts_with r s) rs = None" by (simp add: find_None_iff)
  then show ?thesis by (simp add: strip_left.simps)
qed

lemma TrimSpace_digits [simp]: "digits s \<Longrightarrow> TrimSpace s = s"
  using strip_left_digits [of s space_runes] strip_left_digits [of "rev s" "map rev space_runes"]
  by (simp add: TrimSpace_def digits_def)

lemma Atoi_digits:
  assumes "digits s"
  shows "Atoi s = (if s = [] \<or> 2 ^ 63 \<le> parse_digits s then None else Some (int (parse_digits s)))"
proof (cases s)
  case Nil
  then show ?thesis by (simp add: Atoi_def)
next
  case (Cons c t)
  then have "c \<noteq> CHR ''-'' \<and> c \<noteq> CHR ''+''" using assms digit_not_special [of c] by (simp add: digits_def)
  moreover have "in_i64 (int n) \<longleftrightarrow> n < 2 ^ 63" for n by (simp add: in_i64_def)
  ultimately show ?thesis using Cons assms by (auto simp: Atoi_def digits_def Let_def)
qed

lemma Atoi_itoa: "n < 2 ^ 63 \<Longrightarrow> Atoi (itoa n) = Some (int n)"
  by (simp add: Atoi_digits)

lemma itoa_length: "length (itoa n) \<le> n + 1"
proof (induction n rule: itoa.induct)
  case (1 n)
  then show ?case by (cases "n < 10") (auto simp: itoa.simps [of n])
qed

lemma itoa_length_pow: "n < 10 ^ k \<Longrightarrow> 0 < k \<Longrightarrow> length (itoa n) \<le> k"
proof (induction k arbitrary: n)
  case (Suc k)
  show ?case
  proof (cases "n < 10")
    case False
    then have "k \<noteq> 0" using Suc.prems by (cases k) auto
    moreover have "n div 10 < 10 ^ k" using Suc.prems by (simp add: less_mult_imp_div_less mult.commute)
    ultimately show ?thesis using Suc.IH [of "n div 10"] False by (simp add: itoa.simps [of n])
  qed (simp add: itoa.simps [of n])
qed simp

lemma itoa_log_line: "n < 2 ^ 63 \<Longrightarrow> log_line (itoa n)"
proof -
  assume "n < 2 ^ 63"
  then have "n < 10 ^ 19" by (simp add: less_trans)
  then have "length (itoa n) \<le> 19" by (rule itoa_length_pow) simp
  then show ?thesis by (intro digits_log_line) (simp_all add: MaxScanTokenSize_def)
qed

section \<open>Renaming\<close>

text \<open>\<open>SafeRename\<close> of Storage/rename.go: an existing destination is removed first, so between the two
  steps there is no file under the final name.\<close>

definition SafeRename :: "string \<Rightarrow> string \<Rightarrow> os \<Rightarrow> os_error option \<times> os" where
  "SafeRename src dst s =
     (if os_exists dst s then
        (case os_Remove dst s of
           (Some err, s) \<Rightarrow> (Some err, s)
         | (None, s) \<Rightarrow> os_Rename src dst s)
      else os_Rename src dst s)"

lemma SafeRename_ok:
  assumes "SafeRename src dst s = (None, s')" and "src \<noteq> dst"
  shows "\<exists>bs. Files s src = Some bs \<and> Files s' = (Files s)(src := None, dst \<mapsto> bs) \<and> Denied s' = Denied s"
  using assms by (auto simp: SafeRename_def os_Remove_def os_Rename_def refuses_def fun_eq_iff
      split: if_splits option.splits)

text \<open>When the rename fails after the removal, the old destination is gone and the source is still there.\<close>

lemma SafeRename_failed:
  assumes "SafeRename src dst s = (Some e, s')"
  shows "Files s' = Files s \<or> Files s' = (Files s)(dst := None)"
  using assms by (auto simp: SafeRename_def os_Remove_def os_Rename_def split: if_splits option.splits)

end
