(* ===== verification/Chunker.thy ===== *)
theory Chunker
  imports Prelude
begin

text \<open>
  Splitting and reassembling files, \<open>Storage/chunker/chunker.go\<close>. A reader is the bytes it will
  deliver and whether it then fails with an error other than end of file; the chunks a goroutine
  sends on its channel are a list. Buffer pools only recycle memory and are not modelled.
  \<open>sha256\<close> is a parameter; a 32-byte array is a byte list.
\<close>

definition DefaultChunkSize :: int where
  "DefaultChunkSize = 4 * 1024 * 1024"

record chunk =
  CIndex :: int
  CHash :: "byte list"
  CSize :: int
  CData :: "byte list"

record chunk_info =
  IIndex :: int
  IHash :: string
  ISize :: int
  IEncHash :: string
  ICompressed :: bool

record access_entry =
  RecipientPubKey :: string
  WrappedDEK :: string

record chunk_manifest =
  MFileKey :: string
  MTotalSize :: int
  MChunkSize :: int
  MChunks :: "chunk_info list"
  MMerkleRoot :: string
  MCreatedAt :: int
  MEncrypted :: bool
  MOwnerPubKey :: string
  MOwnerEdPubKey :: string
  MAccessList :: "access_entry list"
  MSignature :: string
  MSeedMode :: bool
  MOriginalSeeder :: string

section \<open>Reading chunks\<close>

definition make_chunk :: "(byte list \<Rightarrow> byte list) \<Rightarrow> int \<Rightarrow> byte list \<Rightarrow> chunk" where
  "make_chunk sha256 index data =
     \<lparr>CIndex = index, CHash = sha256 data, CSize = int (length data), CData = data\<rparr>"

text \<open>The goroutine: \<open>io.ReadFull\<close> fills the buffer or stops at the end of the reader. The result is
  the chunks sent and whether an error is sent.\<close>

function chunk_loop ::
  "(byte list \<Rightarrow> byte list) \<Rightarrow> nat \<Rightarrow> bool \<Rightarrow> int \<Rightarrow> byte list \<Rightarrow> chunk list \<times> bool" where
  "chunk_loop sha256 csize fails index rest =
     (if 0 < csize \<and> csize \<le> length rest then
        (let (cs, err) = chunk_loop sha256 csize fails (index + 1) (drop csize rest)
         in (make_chunk sha256 index (take csize rest) # cs, err))
      else ((if rest \<noteq> [] then [make_chunk sha256 index rest] else []), fails))"
  by pat_completeness auto
termination
  by (relation "measure (\<lambda>(sha256, csize, fails, index, rest). length rest)") auto

declare chunk_loop.simps [simp del]

definition ChunkReader ::
  "(byte list \<Rightarrow> byte list) \<Rightarrow> int \<Rightarrow> byte list \<Rightarrow> bool \<Rightarrow> chunk list \<times> bool" where
  "ChunkReader sha256 chunkSize content fails =
     (let chunkSize = (if chunkSize \<le> 0 then DefaultChunkSize else chunkSize)
      in chunk_loop sha256 (nat chunkSize) fails 0 content)"

section \<open>Reassembly\<close>

datatype reassemble_error = MissingChunk nat int | WriteError int

fun check_gaps :: "nat \<Rightarrow> chunk list \<Rightarrow> reassemble_error option" where
  "check_gaps i [] = None"
| "check_gaps i (c # cs) = (if CIndex c \<noteq> int i then Some (MissingChunk i (CIndex c)) else check_gaps (Suc i) cs)"

text \<open>\<open>wr\<close> says whether the write of a chunk succeeds.\<close>

fun write_chunks :: "(chunk \<Rightarrow> bool) \<Rightarrow> byte list \<Rightarrow> chunk list \<Rightarrow> reassemble_error + byte list" where
  "write_chunks wr dst [] = Inr dst"
| "write_chunks wr dst (c # cs) =
     (if wr c then write_chunks wr (dst @ CData c) cs else Inl (WriteError (CIndex c)))"

text \<open>\<open>sort.Slice\<close> leaves the order of equal indices open; any repeated index fails the check for
  gaps with the same error, so the stable sort stands for it.\<close>

definition Reassemble :: "(chunk \<Rightarrow> bool) \<Rightarrow> chunk list \<Rightarrow> reassemble_error + byte list" where
  "Reassemble wr chunks =
     (if chunks = [] then Inr []
      else
        (let sorted = sort_key CIndex chunks
         in case check_gaps 0 sorted of
              Some e \<Rightarrow> Inl e
            | None \<Rightarrow> write_chunks wr [] sorted))"

definition VerifyChunk :: "(byte list \<Rightarrow> byte list) \<Rightarrow> chunk \<Rightarrow> bool" where
  "VerifyChunk sha256 c \<longleftrightarrow> sha256 (CData c) = CHash c"

definition ChunkStorageKey :: "string \<Rightarrow> string" where
  "ChunkStorageKey encHash = ''chunk:'' @ encHash"

definition ManifestStorageKey :: "string \<Rightarrow> string" where
  "ManifestStorageKey fileKey = ''manifest:'' @ fileKey"

section \<open>Manifests\<close>

definition leaf_hash :: "(byte list \<Rightarrow> byte list) \<Rightarrow> chunk_info \<Rightarrow> byte list" where
  "leaf_hash sha256 c =
     (case hex_decode (IHash c) of
        None \<Rightarrow> sha256 (bytes_of (IHash c))
      | Some b \<Rightarrow> if length b \<noteq> 32 then sha256 (bytes_of (IHash c)) else b)"

text \<open>One round of the loop over the levels.\<close>

definition merkle_level :: "(byte list \<Rightarrow> byte list) \<Rightarrow> byte list list \<Rightarrow> byte list list" where
  "merkle_level sha256 = pairwise (\<lambda>left right. sha256 (left @ right))"

function (sequential) merkle_up :: "(byte list \<Rightarrow> byte list) \<Rightarrow> byte list list \<Rightarrow> byte list" where
  "merkle_up sha256 [] = []"
| "merkle_up sha256 [n] = n"
| "merkle_up sha256 ns = merkle_up sha256 (merkle_level sha256 ns)"
  by pat_completeness auto
termination
  by (relation "measure (\<lambda>(sha256, ns). length ns)") (auto simp: merkle_level_def length_pairwise)

definition computeMerkleRoot :: "(byte list \<Rightarrow> byte list) \<Rightarrow> chunk_info list \<Rightarrow> string" where
  "computeMerkleRoot sha256 chunks =
     (if chunks = [] then hex_encode (replicate 32 0)
      else hex_encode (merkle_up sha256 (map (leaf_hash sha256) chunks)))"

definition BuildManifest :: "(byte list \<Rightarrow> byte list) \<Rightarrow> string \<Rightarrow> chunk_info list \<Rightarrow> int \<Rightarrow> chunk_manifest" where
  "BuildManifest sha256 fileKey chunks createdAt =
     \<lparr>MFileKey = fileKey, MTotalSize = fold (\<lambda>c t. i64 (t + ISize c)) chunks 0,
      MChunkSize = DefaultChunkSize, MChunks = chunks, MMerkleRoot = computeMerkleRoot sha256 chunks,
      MCreatedAt = createdAt, MEncrypted = False, MOwnerPubKey = [], MOwnerEdPubKey = [],
      MAccessList = [], MSignature = [], MSeedMode = False, MOriginalSeeder = []\<rparr>"

text \<open>True when no error is returned.\<close>

definition VerifyMerkleRoot :: "(byte list \<Rightarrow> byte list) \<Rightarrow> chunk_info list \<Rightarrow> string \<Rightarrow> bool" where
  "VerifyMerkleRoot sha256 chunks expectedRoot \<longleftrightarrow> computeMerkleRoot sha256 chunks = expectedRoot"

section \<open>Chunks and their content\<close>

lemma chunk_loop_props:
  assumes "0 < csize" and "chunk_loop sha256 csize fails index rest = (cs, err)"
  shows "concat (map CData cs) = rest \<and> err = fails \<and>
    map CIndex cs = map (\<lambda>i. index + int i) [0..<length cs] \<and>
    (\<forall>c \<in> set cs. VerifyChunk sha256 c \<and> CSize c = int (length (CData c)) \<and> CData c \<noteq> []) \<and>
    (\<forall>c \<in> set (butlast cs). length (CData c) = csize) \<and> (\<forall>c \<in> set cs. length (CData c) \<le> csize)"
  using assms
proof (induction sha256 csize fails index rest arbitrary: cs err rule: chunk_loop.induct)
  case (1 sha256 csize fails index rest)
  show ?case
  proof (cases "csize \<le> length rest")
    case True
    obtain cs' err' where r: "chunk_loop sha256 csize fails (index + 1) (drop csize rest) = (cs', err')"
      by (cases "chunk_loop sha256 csize fails (index + 1) (drop csize rest)")
    let ?c = "make_chunk sha256 index (take csize rest)"
    have cs: "cs = ?c # cs'" "err = err'"
      using "1.prems" True r by (simp_all add: chunk_loop.simps [of sha256 csize fails index rest])
    have IH: "concat (map CData cs') = drop csize rest \<and> err' = fails \<and>
      map CIndex cs' = map (\<lambda>i. index + 1 + int i) [0..<length cs'] \<and>
      (\<forall>c \<in> set cs'. VerifyChunk sha256 c \<and> CSize c = int (length (CData c)) \<and> CData c \<noteq> []) \<and>
      (\<forall>c \<in> set (butlast cs'). length (CData c) = csize) \<and> (\<forall>c \<in> set cs'. length (CData c) \<le> csize)"
      using "1.IH" "1.prems"(1) True r by simp
    have "map CIndex cs = map (\<lambda>i. index + int i) [0..<length cs]"
    proof -
      have "[0..<length cs] = 0 # map Suc [0..<length cs']"
        by (simp add: cs upt_conv_Cons map_Suc_upt del: upt_Suc)
      then show ?thesis using IH by (simp add: cs make_chunk_def add.commute add.left_commute)
    qed
    moreover have "?c \<in> {c. VerifyChunk sha256 c \<and> CSize c = int (length (CData c)) \<and> CData c \<noteq> []}"
      using True "1.prems"(1) by (auto simp: make_chunk_def VerifyChunk_def)
    moreover have "length (CData ?c) = csize" "CData ?c = take csize rest" using True by (simp_all add: make_chunk_def)
    ultimately show ?thesis using IH by (auto simp: cs)
  next
    case False
    then show ?thesis using "1.prems"
      by (auto simp: chunk_loop.simps [of sha256 csize fails index rest] make_chunk_def VerifyChunk_def
          split: if_splits)
  qed
qed

lemma check_gaps_None: "check_gaps i cs = None \<longleftrightarrow> map CIndex cs = map int [i..<i + length cs]"
  by (induction i cs rule: check_gaps.induct) (auto simp: upt_conv_Cons simp del: upt_Suc)

lemma write_chunks_ok: "(\<forall>c \<in> set cs. wr c) \<Longrightarrow> write_chunks wr dst cs = Inr (dst @ concat (map CData cs))"
  by (induction cs arbitrary: dst) auto

lemma sort_key_perm_unique:
  assumes "mset cs = mset ds" and "map CIndex ds = map int [0..<length ds]"
  shows "sort_key CIndex cs = ds"
proof -
  let ?s = "sort_key CIndex cs"
  have d: "distinct (map CIndex ds)" unfolding assms(2) by (simp add: distinct_map)
  have m: "mset ?s = mset ds" using assms(1) by simp
  then have "mset (map CIndex ?s) = mset (map CIndex ds)" by (metis mset_map)
  then have "sort (map CIndex ds) = map CIndex ?s" by (intro properties_for_sort) simp_all
  moreover have "sorted (map CIndex ds)" unfolding assms(2) by (simp add: sorted_map sorted_wrt_mono_rel [OF _ sorted_wrt_upt])
  ultimately have "map CIndex ?s = map CIndex ds" by (simp add: sorted_sort_id)
  moreover have "set ?s = set ds" using m by (rule mset_eq_setD)
  moreover have "inj_on CIndex (set ds)" using d by (simp add: distinct_map)
  ultimately show ?thesis by (metis Un_absorb map_inj_on)
qed

section \<open>What the Merkle root determines\<close>

text \<open>The byte strings hashed above the leaves.\<close>

function (sequential) merkle_inputs :: "(byte list \<Rightarrow> byte list) \<Rightarrow> byte list list \<Rightarrow> byte list set" where
  "merkle_inputs sha256 [] = {}"
| "merkle_inputs sha256 [n] = {}"
| "merkle_inputs sha256 ns = set (pairwise (@) ns) \<union> merkle_inputs sha256 (merkle_level sha256 ns)"
  by pat_completeness auto
termination
  by (relation "measure (\<lambda>(sha256, ns). length ns)") (auto simp: merkle_level_def length_pairwise)

lemma merkle_level_map: "merkle_level sha256 ns = map sha256 (pairwise (@) ns)"
  by (induction "(@) :: byte list \<Rightarrow> _" ns rule: pairwise.induct) (simp_all add: merkle_level_def)

lemma length_merkle_level [simp]: "length (merkle_level sha256 ns) = (length ns + 1) div 2"
  by (simp add: merkle_level_def length_pairwise)

lemma pairwise_append_inject:
  assumes "length xs = length ys" and "\<forall>x \<in> set xs \<union> set ys. length x = n"
    and "pairwise (@) xs = pairwise (@) ys"
  shows "xs = ys"
  using assms
proof (induction "(@) :: 'a list \<Rightarrow> _" xs arbitrary: ys rule: pairwise.induct)
  case (2 x)
  then obtain y where "ys = [y]" by (cases ys) auto
  then show ?case using 2 by auto
next
  case (3 x x' xs)
  then obtain y y' ys' where ys: "ys = y # y' # ys'" by (cases ys; cases "tl ys") auto
  then have "x = y" "x' = y'" using "3.prems" by auto
  then show ?case using "3.hyps" [of ys'] "3.prems" ys by auto
qed simp

lemma merkle_up_inject:
  assumes "length xs = length ys" and "\<forall>x \<in> set xs \<union> set ys. length x = 32"
    and "inj_on sha256 (merkle_inputs sha256 xs \<union> merkle_inputs sha256 ys)"
    and "\<forall>x \<in> merkle_inputs sha256 xs \<union> merkle_inputs sha256 ys. length (sha256 x) = 32"
    and "merkle_up sha256 xs = merkle_up sha256 ys"
  shows "xs = ys"
  using assms
proof (induction sha256 xs arbitrary: ys rule: merkle_up.induct)
  case (2 sha256 n)
  then obtain m where "ys = [m]" by (cases ys) auto
  then show ?case using 2 by simp
next
  case (3 sha256 a b ns)
  obtain c d ms where ys: "ys = c # d # ms" using "3.prems"(1) by (cases ys; cases "tl ys") auto
  let ?xs = "a # b # ns" and ?I = "merkle_inputs sha256 (a # b # ns) \<union> merkle_inputs sha256 ys"
  have sub: "set (pairwise (@) ?xs) \<subseteq> ?I" "set (pairwise (@) ys) \<subseteq> ?I"
      "merkle_inputs sha256 (merkle_level sha256 ?xs) \<union> merkle_inputs sha256 (merkle_level sha256 ys) \<subseteq> ?I"
    by (auto simp: ys)
  have "merkle_level sha256 ?xs = merkle_level sha256 ys"
  proof (rule "3.IH")
    show "length (merkle_level sha256 ?xs) = length (merkle_level sha256 ys)" using "3.prems"(1) by simp
    show "\<forall>x \<in> set (merkle_level sha256 ?xs) \<union> set (merkle_level sha256 ys). length x = 32"
      unfolding merkle_level_map using "3.prems"(4) sub by auto
    show "inj_on sha256 (merkle_inputs sha256 (merkle_level sha256 ?xs) \<union> merkle_inputs sha256 (merkle_level sha256 ys))"
      by (rule inj_on_subset [OF "3.prems"(3) sub(3)])
    show "\<forall>x \<in> merkle_inputs sha256 (merkle_level sha256 ?xs) \<union> merkle_inputs sha256 (merkle_level sha256 ys).
        length (sha256 x) = 32"
      using "3.prems"(4) sub(3) by blast
    show "merkle_up sha256 (merkle_level sha256 ?xs) = merkle_up sha256 (merkle_level sha256 ys)"
      using "3.prems"(5) by (simp add: ys)
  qed
  then have "map sha256 (pairwise (@) ?xs) = map sha256 (pairwise (@) ys)" by (simp only: merkle_level_map)
  moreover have "inj_on sha256 (set (pairwise (@) ?xs) \<union> set (pairwise (@) ys))"
    by (rule inj_on_subset [OF "3.prems"(3)]) (use sub in blast)
  ultimately have "pairwise (@) ?xs = pairwise (@) ys" using inj_on_map_eq_map by blast
  then show ?case by (rule pairwise_append_inject [OF "3.prems"(1,2)])
qed simp

lemma pairwise_duplicate_last: "odd (length xs) \<Longrightarrow> pairwise f (xs @ [last xs]) = pairwise f xs"
  by (induction f xs rule: pairwise.induct) auto

lemma merkle_up_duplicate_last:
  assumes "odd (length xs)" and "1 < length xs"
  shows "merkle_up sha256 (xs @ [last xs]) = merkle_up sha256 xs"
proof -
  obtain a b ys where xs: "xs = a # b # ys" using assms(2) by (cases xs; cases "tl xs") auto
  have "merkle_up sha256 (xs @ [last xs]) = merkle_up sha256 (merkle_level sha256 (xs @ [last xs]))"
    by (simp only: xs append_Cons merkle_up.simps)
  also have "merkle_level sha256 (xs @ [last xs]) = merkle_level sha256 xs"
    unfolding merkle_level_def by (rule pairwise_duplicate_last [OF assms(1)])
  also have "merkle_up sha256 (merkle_level sha256 xs) = merkle_up sha256 xs" by (simp only: xs merkle_up.simps)
  finally show ?thesis .
qed

section \<open>Properties\<close>

text \<open>Splitting and reassembling is the identity: the chunks of a reader, in whatever order they
  arrive, reassemble to exactly the bytes read; every chunk verifies, no chunk is empty or larger
  than the chunk size, and all but the last have that size.\<close>

lemma chunk_roundtrip:
  assumes "ChunkReader sha256 chunkSize content fails = (cs, err)" and "mset ds = mset cs"
    and "\<forall>c \<in> set ds. wr c"
  shows "Reassemble wr ds = Inr content \<and> err = fails \<and>
    (let n = (if chunkSize \<le> 0 then DefaultChunkSize else chunkSize) in
     (\<forall>c \<in> set ds. VerifyChunk sha256 c \<and> CSize c = int (length (CData c)) \<and> 0 < CSize c \<and> CSize c \<le> n) \<and>
     (\<forall>c \<in> set (butlast cs). CSize c = n))"
proof -
  define N where "N = (if chunkSize \<le> 0 then DefaultChunkSize else chunkSize)"
  have pos: "0 < nat N" "0 < N" by (simp_all add: N_def DefaultChunkSize_def)
  have cs: "chunk_loop sha256 (nat N) fails 0 content = (cs, err)"
    using assms(1) by (simp add: ChunkReader_def N_def)
  note props = chunk_loop_props [OF pos(1) cs]
  have idx: "map CIndex cs = map int [0..<length cs]" using props by simp
  have s: "sort_key CIndex ds = cs" by (rule sort_key_perm_unique [OF assms(2) idx])
  have gaps: "check_gaps 0 cs = None" using idx by (simp add: check_gaps_None)
  have set_eq: "set ds = set cs" using assms(2) by (rule mset_eq_setD)
  have "write_chunks wr [] cs = Inr content"
    using write_chunks_ok [of cs wr "[]"] assms(3) props set_eq by simp
  moreover have "content = []" if "ds = []" using that assms(2) props by simp
  ultimately have "Reassemble wr ds = Inr content" using s gaps by (simp add: Reassemble_def)
  moreover have "VerifyChunk sha256 c \<and> CSize c = int (length (CData c)) \<and> 0 < CSize c \<and> CSize c \<le> N"
    if "c \<in> set ds" for c
    using props that set_eq pos by (auto simp: le_nat_iff)
  moreover have "CSize c = N" if "c \<in> set (butlast cs)" for c
    using props that in_set_butlastD [OF that] pos by auto
  ultimately show ?thesis using props unfolding N_def [symmetric] Let_def by blast
qed

theorem chunk_roundtrip_witness:
  "Reassemble (\<lambda>_. True) (rev (fst (ChunkReader (\<lambda>_. []) 2 [1, 2, 3] False))) = Inr [1, 2, 3]"
proof -
  obtain cs err where c: "ChunkReader (\<lambda>_. []) 2 [1, 2, 3] False = (cs, err)" by (meson surj_pair)
  show ?thesis using chunk_roundtrip [OF c, of "rev cs" "\<lambda>_. True"] by (simp add: c)
qed

text \<open>The leaf hashes of well-formed records and the inputs of the levels above them.\<close>

definition info_ok :: "chunk_info \<Rightarrow> bool" where
  "info_ok c \<longleftrightarrow> length (IHash c) = 64 \<and> (case hex_decode (IHash c) of None \<Rightarrow> False | Some b \<Rightarrow> hex_encode b = IHash c)"

definition leaf_nodes :: "(byte list \<Rightarrow> byte list) \<Rightarrow> chunk_info list \<Rightarrow> byte list list" where
  "leaf_nodes sha256 cs = map (leaf_hash sha256) cs"

lemma info_ok_leaf: "info_ok c \<Longrightarrow> length (leaf_hash sha256 c) = 32 \<and> hex_encode (leaf_hash sha256 c) = IHash c"
proof -
  assume ok: "info_ok c"
  then obtain b where b: "hex_decode (IHash c) = Some b" "hex_encode b = IHash c" "length (IHash c) = 64"
    by (auto simp: info_ok_def split: option.splits)
  then have "length b = 32" using length_hex_encode [of b] by simp
  then show ?thesis using b by (simp add: leaf_hash_def)
qed

text \<open>The Merkle root binds the chunk hashes: two manifests with the same number of chunks (whose
  hashes are lower-case hexadecimal SHA-256 values) and the same root list the same hashes in the
  same order, if the hash does not collide on what the two trees hash.\<close>

lemma merkle_root_binds_hashes:
  assumes "\<forall>c \<in> set cs \<union> set ds. info_ok c" and "length cs = length ds"
    and "inj_on sha256 (merkle_inputs sha256 (leaf_nodes sha256 cs) \<union> merkle_inputs sha256 (leaf_nodes sha256 ds))"
    and "\<forall>x \<in> merkle_inputs sha256 (leaf_nodes sha256 cs) \<union> merkle_inputs sha256 (leaf_nodes sha256 ds).
           length (sha256 x) = 32"
    and "VerifyMerkleRoot sha256 ds (MMerkleRoot (BuildManifest sha256 key cs t))"
  shows "map IHash cs = map IHash ds"
proof (cases "cs = []")
  case True
  then show ?thesis using assms(2) by simp
next
  case False
  then have "ds \<noteq> []" using assms(2) by auto
  then have up: "merkle_up sha256 (leaf_nodes sha256 cs) = merkle_up sha256 (leaf_nodes sha256 ds)"
    using assms(5) False by (simp add: VerifyMerkleRoot_def BuildManifest_def computeMerkleRoot_def leaf_nodes_def)
  have "leaf_nodes sha256 cs = leaf_nodes sha256 ds"
    by (rule merkle_up_inject [OF _ _ assms(3,4) up])
       (use assms(1,2) info_ok_leaf in \<open>auto simp: leaf_nodes_def\<close>)
  moreover have "map IHash xs = map hex_encode (leaf_nodes sha256 xs)" if "\<forall>c \<in> set xs. info_ok c" for xs
    using that info_ok_leaf [of _ sha256] by (simp add: leaf_nodes_def)
  ultimately show ?thesis using assms(1) by simp
qed

definition demo_info :: "byte \<Rightarrow> chunk_info" where
  "demo_info b = \<lparr>IIndex = 0, IHash = hex_encode (replicate 32 b), ISize = 1, IEncHash = [], ICompressed = False\<rparr>"

lemma demo_leaf [simp]: "leaf_hash sha256 (demo_info b) = replicate 32 b"
  by (simp add: leaf_hash_def demo_info_def)

lemma demo_info_ok: "info_ok (demo_info b)"
  by (simp add: info_ok_def demo_info_def)

theorem merkle_root_binds_hashes_witness:
  "\<not> VerifyMerkleRoot (take 32 \<circ> rev) [demo_info 1, demo_info 3]
       (MMerkleRoot (BuildManifest (take 32 \<circ> rev) ''f'' [demo_info 1, demo_info 2] 0))"
proof
  let ?sha = "take 32 \<circ> rev :: byte list \<Rightarrow> byte list"
  assume v: "VerifyMerkleRoot ?sha [demo_info 1, demo_info 3]
       (MMerkleRoot (BuildManifest ?sha ''f'' [demo_info 1, demo_info 2] 0))"
  have i: "merkle_inputs ?sha (leaf_nodes ?sha [demo_info 1, demo_info 2]) = {replicate 32 1 @ replicate 32 2}"
    "merkle_inputs ?sha (leaf_nodes ?sha [demo_info 1, demo_info 3]) = {replicate 32 1 @ replicate 32 3}"
    by (simp_all add: leaf_nodes_def merkle_level_def)
  have ok: "\<forall>c \<in> set [demo_info 1, demo_info 2] \<union> set [demo_info 1, demo_info 3]. info_ok c"
    by (simp add: demo_info_ok)
  have inj: "inj_on ?sha (merkle_inputs ?sha (leaf_nodes ?sha [demo_info 1, demo_info 2]) \<union>
      merkle_inputs ?sha (leaf_nodes ?sha [demo_info 1, demo_info 3]))"
    unfolding i by simp
  have len: "\<forall>x \<in> merkle_inputs ?sha (leaf_nodes ?sha [demo_info 1, demo_info 2]) \<union>
      merkle_inputs ?sha (leaf_nodes ?sha [demo_info 1, demo_info 3]). length (?sha x) = 32"
    unfolding i by simp
  from merkle_root_binds_hashes [OF ok _ inj len v]
  have "map IHash [demo_info 1, demo_info 2] = map IHash [demo_info 1, demo_info 3]" by simp
  then show False by (simp add: demo_info_def)
qed

text \<open>The root does not bind the number of chunks: for every odd number of at least three chunks,
  repeating the last one leaves the root unchanged, so a manifest with a duplicated final chunk
  passes the end-to-end check of the original root.\<close>

lemma merkle_root_ignores_duplicate:
  assumes "odd (length cs)" and "1 < length cs"
  shows "VerifyMerkleRoot sha256 (cs @ [last cs]) (MMerkleRoot (BuildManifest sha256 key cs t))"
proof -
  have "cs \<noteq> []" using assms(2) by auto
  then have "map (leaf_hash sha256) (cs @ [last cs])
      = map (leaf_hash sha256) cs @ [last (map (leaf_hash sha256) cs)]" by (simp add: last_map)
  then show ?thesis
    using merkle_up_duplicate_last [of "map (leaf_hash sha256) cs" sha256] assms \<open>cs \<noteq> []\<close>
    by (simp add: VerifyMerkleRoot_def BuildManifest_def computeMerkleRoot_def)
qed

theorem merkle_root_ignores_duplicate_witness:
  "VerifyMerkleRoot (take 32 \<circ> rev) [demo_info 1, demo_info 2, demo_info 3, demo_info 3]
     (MMerkleRoot (BuildManifest (take 32 \<circ> rev) ''f'' [demo_info 1, demo_info 2, demo_info 3] 0))"
  using merkle_root_ignores_duplicate [of "[demo_info 1, demo_info 2, demo_info 3]" "take 32 \<circ> rev" "''f''" 0]
  by simp

end
