(* ===== verification/Sidecars.thy ===== *)
theory Sidecars
  imports Files Chunker
begin

text \<open>
  The append-only sidecars of interrupted transfers: the resume log of a download
  (Storage/resume/resume.go) and the pending log of an upload (Storage/pending/pending.go).

  The sidecar objects are records with the path of their open file; every operation takes the
  file system and returns it. \<open>encoding/json\<close> is a parameter, one printer and one parser per
  document type: what the code relies on is that a printed document is one line of text that
  is parsed back (\<open>json_line\<close>).
\<close>

record 'a json =
  jMarshal :: "'a \<Rightarrow> string"
  jUnmarshal :: "string \<Rightarrow> 'a option"

definition json_line :: "'a json \<Rightarrow> 'a \<Rightarrow> bool" where
  "json_line J x \<longleftrightarrow> log_line (jMarshal J x) \<and> jMarshal J x \<noteq> [] \<and> jUnmarshal J (jMarshal J x) = Some x"

datatype sidecar_error =
    ReadSidecar os_error
  | EmptySidecar
  | ParseHeader
  | Reopen os_error
  | CreateSidecar os_error
  | RemoveSidecar os_error

section \<open>Resume sidecars\<close>

definition PartPath :: "string \<Rightarrow> string" where
  "PartPath outputPath = outputPath @ ''.part''"

definition SidecarPath :: "string \<Rightarrow> string" where
  "SidecarPath outputPath = outputPath @ ''.part.resume''"

record resume_header =
  RStorageKey :: string
  RTotalChunks :: int
  RTotalSize :: int
  RChunkSize :: int
  RMerkleRoot :: string
  RCreatedAt :: int

record resume_sidecar =
  RHeader :: resume_header
  ROutputPath :: string

definition resume_Create ::
  "resume_header json \<Rightarrow> int \<Rightarrow> string \<Rightarrow> string \<Rightarrow> string \<Rightarrow> int \<Rightarrow> int \<Rightarrow> int \<Rightarrow> os
    \<Rightarrow> (sidecar_error + resume_sidecar) \<times> os" where
  "resume_Create J now outputPath storageKey merkleRoot totalChunks totalSize chunkSize s =
     (case os_create_trunc (SidecarPath outputPath) s of
        (Some e, s) \<Rightarrow> (Inl (CreateSidecar e), s)
      | (None, s) \<Rightarrow>
          (let hdr = \<lparr>RStorageKey = storageKey, RTotalChunks = totalChunks, RTotalSize = totalSize,
                      RChunkSize = chunkSize, RMerkleRoot = merkleRoot, RCreatedAt = now\<rparr>
           in (Inr \<lparr>RHeader = hdr, ROutputPath = outputPath\<rparr>,
               os_append (SidecarPath outputPath) (bytes_of (jMarshal J hdr @ [NL])) s)))"

text \<open>The indices the lines after the header claim.\<close>

fun claim_lines :: "int \<Rightarrow> string list \<Rightarrow> nat list" where
  "claim_lines total_chunks [] = []"
| "claim_lines total_chunks (l # ls) =
     (let line = TrimSpace l; rest = claim_lines total_chunks ls
      in if line = [] then rest
         else case Atoi line of
             None \<Rightarrow> rest
           | Some idx \<Rightarrow> if 0 \<le> idx \<and> idx < total_chunks then nat idx # rest else rest)"

definition resume_Open ::
  "resume_header json \<Rightarrow> string \<Rightarrow> os \<Rightarrow> sidecar_error + (resume_sidecar \<times> nat list) option" where
  "resume_Open J outputPath s =
     (let path = SidecarPath outputPath
      in case os_ReadFile path s of
          Inl err \<Rightarrow> if os_IsNotExist err then Inr None else Inl (ReadSidecar err)
        | Inr data \<Rightarrow>
            (case scan_lines (string_of data) of
               [] \<Rightarrow> Inl EmptySidecar
             | first # rest \<Rightarrow>
                 (case jUnmarshal J first of
                    None \<Rightarrow> Inl ParseHeader
                  | Some hdr \<Rightarrow>
                      (let claimed = dedup [] (claim_lines (RTotalChunks hdr) rest)
                       in case os_open_append path s of
                           Some err \<Rightarrow> Inl (Reopen err)
                         | None \<Rightarrow> Inr (Some (\<lparr>RHeader = hdr, ROutputPath = outputPath\<rparr>, claimed))))))"

definition resume_Matches :: "resume_sidecar \<Rightarrow> string \<Rightarrow> string \<Rightarrow> int \<Rightarrow> int \<Rightarrow> bool" where
  "resume_Matches sc storageKey merkleRoot totalChunks totalSize \<longleftrightarrow>
     RStorageKey (RHeader sc) = storageKey \<and> RMerkleRoot (RHeader sc) = merkleRoot \<and>
     RTotalChunks (RHeader sc) = totalChunks \<and> RTotalSize (RHeader sc) = totalSize"

definition resume_RecordChunk :: "resume_sidecar \<Rightarrow> int \<Rightarrow> os \<Rightarrow> os" where
  "resume_RecordChunk sc index s =
     os_append (SidecarPath (ROutputPath sc)) (bytes_of (int_text index @ [NL])) s"

definition resume_Cleanup :: "string \<Rightarrow> os \<Rightarrow> sidecar_error option \<times> os" where
  "resume_Cleanup outputPath s =
     (case os_Remove (SidecarPath outputPath) s of
        (None, s) \<Rightarrow> (None, s)
      | (Some err, s) \<Rightarrow> if os_IsNotExist err then (None, s) else (Some (RemoveSidecar err), s))"

section \<open>Pending sidecars\<close>

record pending_header =
  PStorageKey :: string
  PTotalSize :: int
  PChunkSize :: int
  PMerkleRoot :: string
  PCreatedAt :: int

record chunk_record =
  RecIndex :: int
  RecHash :: string
  RecSize :: int
  RecEncHash :: string
  RecCompressed :: bool

record pending_sidecar =
  PHeader :: pending_header
  PPath :: string

definition pending_Dir :: "string \<Rightarrow> string" where
  "pending_Dir storageRoot = path_Join storageRoot ''.pending_uploads''"

text \<open>\<open>for i := range key\<close> visits the first byte of every rune; the byte slice starts out zeroed.
  The width of a rune is that of \<open>utf8.DecodeRuneInString\<close>: one byte for an invalid encoding.\<close>

definition between :: "nat \<Rightarrow> nat \<Rightarrow> string \<Rightarrow> nat \<Rightarrow> bool" where
  "between lo hi s i \<longleftrightarrow> i < length s \<and> lo \<le> of_char (s ! i) \<and> of_char (s ! i) \<le> hi"

definition rune_width :: "string \<Rightarrow> nat" where
  "rune_width s =
     (if between 194 223 s 0 \<and> between 128 191 s 1 then 2
      else if (between 224 224 s 0 \<and> between 160 191 s 1 \<or> between 225 236 s 0 \<and> between 128 191 s 1 \<or>
               between 237 237 s 0 \<and> between 128 159 s 1 \<or> between 238 239 s 0 \<and> between 128 191 s 1) \<and>
              between 128 191 s 2 then 3
      else if (between 240 240 s 0 \<and> between 144 191 s 1 \<or> between 241 243 s 0 \<and> between 128 191 s 1 \<or>
               between 244 244 s 0 \<and> between 128 143 s 1) \<and> between 128 191 s 2 \<and> between 128 191 s 3 then 4
      else 1)"

definition sanitize_byte :: "char \<Rightarrow> char" where
  "sanitize_byte c = (if c \<in> set (''/:*?<>|'' @ [CHR 0x5C, CHR 0x22]) then CHR ''_'' else c)"

function sanitizeKey :: "string \<Rightarrow> string" where
  "sanitizeKey [] = []"
| "sanitizeKey (c # s) =
     (let w = rune_width (c # s) in sanitize_byte c # replicate (w - 1) NUL @ sanitizeKey (drop (w - 1) s))"
  by pat_completeness auto
termination
  by (relation "measure length") auto

definition pending_sidecarPath :: "string \<Rightarrow> string \<Rightarrow> string" where
  "pending_sidecarPath storageRoot storageKey =
     path_Join (pending_Dir storageRoot) (sanitizeKey storageKey @ ''.pending'')"

definition pending_Create ::
  "pending_header json \<Rightarrow> string \<Rightarrow> pending_header \<Rightarrow> os \<Rightarrow> (sidecar_error + pending_sidecar) \<times> os" where
  "pending_Create J storageRoot h s =
     (if refuses s OpWrite (pending_Dir storageRoot) then (Inl (CreateSidecar (Refused OpWrite (pending_Dir storageRoot))), s)
      else
        (let path = pending_sidecarPath storageRoot (PStorageKey h)
         in case os_create_trunc path s of
             (Some e, s) \<Rightarrow> (Inl (CreateSidecar e), s)
           | (None, s) \<Rightarrow>
               (Inr \<lparr>PHeader = h, PPath = path\<rparr>, os_append path (bytes_of (jMarshal J h @ [NL])) s)))"

definition record_of :: "chunk_info \<Rightarrow> chunk_record" where
  "record_of info =
     \<lparr>RecIndex = IIndex info, RecHash = IHash info, RecSize = ISize info,
      RecEncHash = IEncHash info, RecCompressed = ICompressed info\<rparr>"

definition info_of :: "chunk_record \<Rightarrow> chunk_info" where
  "info_of r =
     \<lparr>IIndex = RecIndex r, IHash = RecHash r, ISize = RecSize r,
      IEncHash = RecEncHash r, ICompressed = RecCompressed r\<rparr>"

definition pending_RecordChunk :: "chunk_record json \<Rightarrow> pending_sidecar \<Rightarrow> chunk_info \<Rightarrow> os \<Rightarrow> os" where
  "pending_RecordChunk J sc info s =
     os_append (PPath sc) (bytes_of (jMarshal J (record_of info) @ [NL])) s"

record load_result =
  LHeader :: pending_header
  Completed :: "int list"
  ChunkInfos :: "chunk_info list"

fun load_lines :: "chunk_record json \<Rightarrow> int list \<Rightarrow> chunk_info list \<Rightarrow> string list \<Rightarrow> int list \<times> chunk_info list" where
  "load_lines J seen infos [] = (seen, infos)"
| "load_lines J seen infos (l # ls) =
     (case jUnmarshal J l of
        None \<Rightarrow> load_lines J seen infos ls
      | Some rec \<Rightarrow>
          if RecIndex rec \<in> set seen then load_lines J seen infos ls
          else load_lines J (RecIndex rec # seen) (infos @ [info_of rec]) ls)"

definition pending_Load ::
  "pending_header json \<Rightarrow> chunk_record json \<Rightarrow> string \<Rightarrow> string \<Rightarrow> os \<Rightarrow> sidecar_error + load_result option" where
  "pending_Load J JR storageRoot storageKey s =
     (case os_ReadFile (pending_sidecarPath storageRoot storageKey) s of
        Inl err \<Rightarrow> if os_IsNotExist err then Inr None else Inl (ReadSidecar err)
      | Inr data \<Rightarrow>
          (case scan_lines (string_of data) of
             [] \<Rightarrow> Inl EmptySidecar
           | first # rest \<Rightarrow>
               (case jUnmarshal J first of
                  None \<Rightarrow> Inl ParseHeader
                | Some h \<Rightarrow>
                    (let (completed, infos) = load_lines JR [] [] rest
                     in Inr (Some \<lparr>LHeader = h, Completed = completed, ChunkInfos = infos\<rparr>)))))"

definition pending_Finalize :: "string \<Rightarrow> string \<Rightarrow> os \<Rightarrow> sidecar_error option \<times> os" where
  "pending_Finalize storageRoot storageKey s =
     (case os_Remove (pending_sidecarPath storageRoot storageKey) s of
        (None, s) \<Rightarrow> (None, s)
      | (Some err, s) \<Rightarrow> if os_IsNotExist err then (None, s) else (Some (RemoveSidecar err), s))"

definition pending_Exists :: "string \<Rightarrow> string \<Rightarrow> os \<Rightarrow> bool" where
  "pending_Exists storageRoot storageKey s = os_exists (pending_sidecarPath storageRoot storageKey) s"

section \<open>The logs\<close>

text \<open>The contract of an append-only log: printed headers and records are single short lines. The
  lemmas say what a scanner sees of a log that was cut off anywhere.\<close>

locale line_log =
  fixes hdr_line :: "'h \<Rightarrow> string" and rec_line :: "'r \<Rightarrow> string"
    and hdr_ok :: "'h \<Rightarrow> bool" and rec_ok :: "'r \<Rightarrow> bool"
  assumes hdr_line: "hdr_ok h \<Longrightarrow> log_line (hdr_line h) \<and> hdr_line h \<noteq> []"
    and rec_line: "rec_ok r \<Longrightarrow> log_line (rec_line r) \<and> rec_line r \<noteq> []"
begin

definition log_of :: "'h \<Rightarrow> 'r list \<Rightarrow> string" where
  "log_of h rs = log_text (hdr_line h # map rec_line rs)"

lemma log_of_snoc: "log_of h (rs @ [r]) = log_of h rs @ rec_line r @ [NL]"
  by (simp add: log_of_def)

lemma scan_whole:
  assumes "hdr_ok h" and "\<forall>r \<in> set rs. rec_ok r"
  shows "scan_lines (log_of h rs) = hdr_line h # map rec_line rs"
proof -
  have "\<forall>l \<in> set (hdr_line h # map rec_line rs). log_line l" using assms hdr_line rec_line by auto
  from scan_log_text [OF this, of "[]"] show ?thesis by (simp add: log_of_def)
qed

lemma scan_cut:
  assumes "hdr_ok h" and "\<forall>r \<in> set rs. rec_ok r"
  obtains (header) m where "scan_lines (take c (log_of h rs)) = (if m = 0 then [] else [take m (hdr_line h)])"
      and "c \<le> length (hdr_line h)"
  | (records) k torn where "scan_lines (take c (log_of h rs)) = hdr_line h # map rec_line (take k rs) @ torn"
      and "k \<le> length rs" and "torn = [] \<or> (\<exists>m. k < length rs \<and> torn = [take m (rec_line (rs ! k))] \<and> 0 < m)"
proof -
  let ?ls = "hdr_line h # map rec_line rs"
  have ok: "\<forall>l \<in> set ?ls. log_line l" using assms hdr_line rec_line by auto
  obtain k torn where k: "take c (log_text ?ls) = log_text (take k ?ls) @ torn"
      "if k < length ?ls then \<exists>m. torn = take m (?ls ! k) else torn = []"
    using log_prefix by blast
  have ok': "\<forall>l \<in> set (take k ?ls). log_line l" using ok by (meson in_set_takeD)
  have t: "log_line torn"
  proof (cases "k < length ?ls")
    case True
    then have "log_line (?ls ! k)" using ok nth_mem by blast
    then show ?thesis using k(2) True log_line_take by auto
  qed (use k(2) in \<open>simp add: log_line_def MaxScanTokenSize_def\<close>)
  have sc: "scan_lines (take c (log_of h rs)) = take k ?ls @ (if torn = [] then [] else [torn])"
    using scan_log_text [OF ok', of torn] k(1) scan_lines_last [OF t] by (simp add: log_of_def)
  show thesis
  proof (cases k)
    case 0
    then obtain m where m: "torn = take m (hdr_line h)" using k(2) by auto
    have "length (take c (log_text ?ls)) \<le> length (hdr_line h)" using k(1) 0 m by simp
    then have "c \<le> length (hdr_line h)" by (simp add: min_def split: if_splits)
    then show thesis using sc 0 m header [of "if torn = [] then 0 else m"] by (auto split: if_splits)
  next
    case (Suc j)
    show thesis
    proof (rule records [of "min j (length rs)" "if torn = [] then [] else [torn]"])
      show "scan_lines (take c (log_of h rs)) =
          hdr_line h # map rec_line (take (min j (length rs)) rs) @ (if torn = [] then [] else [torn])"
        using sc Suc by (simp add: take_map min_def)
      show "(if torn = [] then [] else [torn]) = [] \<or>
          (\<exists>m. min j (length rs) < length rs \<and>
            (if torn = [] then [] else [torn]) = [take m (rec_line (rs ! min j (length rs)))] \<and> 0 < m)"
        using k(2) Suc by (cases "j < length rs") (auto simp: min_def intro!: gr0I)
    qed simp
  qed
qed

end

interpretation resume_log: line_log "jMarshal J" itoa "json_line J" "\<lambda>n. n < 2 ^ 63"
  for J :: "resume_header json"
  by unfold_locales (simp_all add: json_line_def itoa_log_line)

interpretation pending_log: line_log "jMarshal J" "jMarshal JR" "json_line J" "json_line JR"
  for J :: "pending_header json" and JR :: "chunk_record json"
  by unfold_locales (simp_all add: json_line_def)

section \<open>The resume log across a crash\<close>

lemma claim_lines_append: "claim_lines t (ls @ ms) = claim_lines t ls @ claim_lines t ms"
  by (induction ls) (simp_all add: Let_def split: option.splits)

text \<open>A line of digits claims the number it spells, if it is in range.\<close>

lemma claim_lines_digits:
  assumes "digits l" and "n \<le> 2 ^ 63"
  shows "claim_lines (int n) [l] = (if l \<noteq> [] \<and> parse_digits l < n then [parse_digits l] else [])"
  using assms by (auto simp: Atoi_digits Let_def)

lemma claim_lines_recorded:
  assumes "n \<le> 2 ^ 63" and "\<forall>i \<in> set idxs. i < n"
  shows "claim_lines (int n) (map itoa idxs) = idxs"
  using assms(2)
proof (induction idxs)
  case (Cons i idxs)
  then show ?case
    using claim_lines_append [of "int n" "[itoa i]" "map itoa idxs"] claim_lines_digits [of "itoa i" n] assms(1)
    by simp
qed simp

definition record_chunks :: "resume_sidecar \<Rightarrow> nat list \<Rightarrow> os \<Rightarrow> os" where
  "record_chunks sc idxs s = fold (\<lambda>i. resume_RecordChunk sc (int i)) idxs s"

lemma record_chunks_text:
  assumes "Files s (SidecarPath (ROutputPath sc)) = Some (bytes_of (resume_log.log_of J h old))"
  shows "Files (record_chunks sc idxs s) = (Files s)(SidecarPath (ROutputPath sc) \<mapsto> bytes_of (resume_log.log_of J h (old @ idxs)))
    \<and> Denied (record_chunks sc idxs s) = Denied s"
  using assms
proof (induction idxs arbitrary: s old)
  case Nil
  then show ?case by (simp add: record_chunks_def fun_upd_idem)
next
  case (Cons i idxs)
  define t where "t = resume_RecordChunk sc (int i) s"
  have t: "t = set_file (SidecarPath (ROutputPath sc)) (bytes_of (resume_log.log_of J h (old @ [i]))) s"
    using Cons.prems by (simp add: t_def resume_RecordChunk_def os_append_def resume_log.log_of_snoc bytes_of_def)
  then have "Files t (SidecarPath (ROutputPath sc)) = Some (bytes_of (resume_log.log_of J h (old @ [i])))" by simp
  from Cons.IH [OF this] have "Files (record_chunks sc idxs t) =
      (Files t)(SidecarPath (ROutputPath sc) \<mapsto> bytes_of (resume_log.log_of J h ((old @ [i]) @ idxs))) \<and>
      Denied (record_chunks sc idxs t) = Denied t" .
  moreover have "record_chunks sc (i # idxs) s = record_chunks sc idxs t" by (simp add: record_chunks_def t_def)
  ultimately show ?case using t by simp
qed

lemma resume_Create_text:
  assumes "resume_Create J now p key mr n tsize N s = (Inr sc, s')"
  shows "ROutputPath sc = p \<and> Files s' = (Files s)(SidecarPath p \<mapsto> bytes_of (resume_log.log_of J (RHeader sc) []))
    \<and> Denied s' = Denied s \<and> RTotalChunks (RHeader sc) = n \<and> resume_Matches sc key mr n tsize \<and>
    \<not> refuses s OpWrite (SidecarPath p)"
  using assms by (auto simp: resume_Create_def os_create_trunc_def os_append_def resume_log.log_of_def
      resume_Matches_def Let_def split: if_splits)

text \<open>What \<open>Open\<close> makes of a sidecar text.\<close>

lemma resume_Open_text:
  assumes "Files s (SidecarPath p) = Some (bytes_of txt)"
    and "\<not> refuses s OpRead (SidecarPath p)" and "\<not> refuses s OpWrite (SidecarPath p)"
    and "scan_lines txt = first # rest" and "jUnmarshal J first = Some h"
  shows "resume_Open J p s =
    Inr (Some (\<lparr>RHeader = h, ROutputPath = p\<rparr>, dedup [] (claim_lines (RTotalChunks h) rest)))"
  using assms by (simp add: resume_Open_def os_ReadFile_def os_open_append_def Let_def)

text \<open>C20. The resume log survives a crash anywhere in a write. A download creates its sidecar and
  records chunks, and the file is then cut off after any number \<open>c\<close> of bytes. If the header line
  survived, \<open>Open\<close> finds the sidecar of this download and the chunks claimed are those of the lines
  that survived and at most one more, which the digits of a torn line spell; with nothing cut off
  they are exactly the recorded chunks. If the header did not survive, no chunk is claimed.\<close>

theorem resume_log_survives_crash:
  assumes "resume_Create J now p key mr (int n) tsize N s0 = (Inr sc, s1)"
    and "json_line J (RHeader sc)" and "n \<le> 2 ^ 63" and "\<forall>i \<in> set idxs. i < n"
    and "s2 = record_chunks sc idxs s1"
    and "s3 = set_file (SidecarPath p) (take c (the (Files s2 (SidecarPath p)))) s2"
    and "\<not> refuses s0 OpRead (SidecarPath p)"
  shows "(\<exists>k torn. resume_Open J p s3 =
        Inr (Some (sc, dedup [] (take k idxs @ (if torn \<noteq> [] \<and> parse_digits torn < n then [parse_digits torn] else [])))) \<and>
        (torn = [] \<or> k < length idxs \<and> (\<exists>m. torn = take m (itoa (idxs ! k)))) \<and>
        (length (the (Files s2 (SidecarPath p))) \<le> c \<longrightarrow> torn = [] \<and> k = length idxs)) \<or>
     c \<le> length (jMarshal J (RHeader sc)) \<and>
       ((\<exists>e. resume_Open J p s3 = Inl e) \<or> (\<exists>sc'. resume_Open J p s3 = Inr (Some (sc', []))))"
proof -
  let ?h = "RHeader sc" and ?txt = "take c (resume_log.log_of J (RHeader sc) idxs)"
  note cr = resume_Create_text [OF assms(1)]
  have f1: "Files s1 (SidecarPath (ROutputPath sc)) = Some (bytes_of (resume_log.log_of J ?h []))" using cr by simp
  have f2: "Files s2 (SidecarPath p) = Some (bytes_of (resume_log.log_of J ?h idxs))" and d2: "Denied s2 = Denied s0"
    using record_chunks_text [OF f1, of idxs] cr assms(5) by simp_all
  have f3: "Files s3 (SidecarPath p) = Some (bytes_of ?txt)" using f2 assms(6) by (simp add: bytes_of_def take_map)
  have d3: "refuses s3 = refuses s0" using d2 assms(6) by (simp add: refuses_def fun_eq_iff)
  have rd: "\<not> refuses s3 OpRead (SidecarPath p)" and wr: "\<not> refuses s3 OpWrite (SidecarPath p)"
    using cr assms(7) d3 by simp_all
  have sc: "sc = \<lparr>RHeader = ?h, ROutputPath = p\<rparr>" using cr by simp
  have idx: "\<forall>r \<in> set idxs. r < 2 ^ 63" using assms(3,4) by fastforce
  have open_sc: "resume_Open J p s3 = Inr (Some (sc, dedup [] (claim_lines (int n) rest)))"
    if "scan_lines ?txt = jMarshal J ?h # rest" for rest
    using resume_Open_text [OF f3 rd wr that, of J ?h] assms(2) cr sc by (simp add: json_line_def)
  show ?thesis
  proof (cases "length (resume_log.log_of J ?h idxs) \<le> c")
    case True
    then have "scan_lines ?txt = jMarshal J ?h # map itoa idxs"
      using resume_log.scan_whole [OF assms(2) idx] by simp
    from open_sc [OF this] have "resume_Open J p s3 = Inr (Some (sc, dedup [] idxs))"
      using claim_lines_recorded [OF assms(3,4)] by simp
    then show ?thesis by (intro disjI1 exI [of _ "length idxs"] exI [of _ "[]"]) simp
  next
    case False
    then have len: "\<not> length (the (Files s2 (SidecarPath p))) \<le> c" using f2 by simp
    show ?thesis
    proof (cases rule: resume_log.scan_cut [OF assms(2) idx, of c, case_names header records])
      case (header m)
      have "(\<exists>e. resume_Open J p s3 = Inl e) \<or> (\<exists>sc'. resume_Open J p s3 = Inr (Some (sc', [])))"
      proof (cases "m = 0 \<or> jUnmarshal J (take m (jMarshal J ?h)) = None")
        case True
        then show ?thesis
          using header(1) f3 rd by (auto simp: resume_Open_def os_ReadFile_def Let_def)
      next
        case False
        then obtain h' where "jUnmarshal J (take m (jMarshal J ?h)) = Some h'" "m \<noteq> 0" by blast
        then show ?thesis using header(1) resume_Open_text [OF f3 rd wr] by simp
      qed
      with header(2) show ?thesis by blast
    next
      case (records k torn)
      define t where "t = (if torn = [] then [] else hd torn)"
      have t: "torn = (if t = [] then [] else [t])" "t = [] \<or> k < length idxs \<and> (\<exists>m. t = take m (itoa (idxs ! k)))"
        using records(3) by (auto simp: t_def)
      then have "digits t"
      proof (elim disjE conjE exE)
        assume "t = []" then show ?thesis by (simp add: digits_def)
      qed (simp add: digits_take)
      then have "claim_lines (int n) [t] = (if t \<noteq> [] \<and> parse_digits t < n then [parse_digits t] else [])"
        by (rule claim_lines_digits [OF _ assms(3)])
      moreover have "claim_lines (int n) (map itoa (take k idxs)) = take k idxs"
        using assms(4) by (intro claim_lines_recorded [OF assms(3)]) (auto dest: in_set_takeD)
      ultimately have "claim_lines (int n) (map itoa (take k idxs) @ torn) =
          take k idxs @ (if t \<noteq> [] \<and> parse_digits t < n then [parse_digits t] else [])"
        unfolding claim_lines_append using t(1) by (simp del: claim_lines.simps(2))
      with open_sc [OF records(1)] t(2) len show ?thesis by (intro disjI1 exI [of _ k] exI [of _ t]) simp
    qed
  qed
qed

text \<open>A codec for one header, and the log of a download of 20 chunks.\<close>

definition demo_json :: "'a \<Rightarrow> 'a json" where
  "demo_json x = \<lparr>jMarshal = (\<lambda>y. ''{}''), jUnmarshal = (\<lambda>s. if s = ''{}'' then Some x else None)\<rparr>"

lemma demo_json_line: "json_line (demo_json x) x"
  by (simp add: json_line_def demo_json_def log_line_def MaxScanTokenSize_def NL_def CR_def)

definition no_files :: os where
  "no_files = \<lparr>Files = (\<lambda>p. None), Denied = (\<lambda>op p. False)\<rparr>"

lemma no_files_refuses [simp]: "refuses no_files op p \<longleftrightarrow> NUL \<in> set p"
  by (simp add: refuses_def no_files_def)

lemma path_suffix_NUL [simp]: "NUL \<in> set (SidecarPath p) \<longleftrightarrow> NUL \<in> set p"
  by (simp add: SidecarPath_def NUL_def)

theorem resume_log_survives_crash_witness:
  "\<exists>h sc s1. resume_Create (demo_json h) 0 ''v'' ''k'' ''r'' 20 80 4 no_files = (Inr sc, s1) \<and>
     (let s2 = record_chunks sc [3, 12] s1; f = the (Files s2 (SidecarPath ''v''))
      in resume_Open (demo_json h) ''v'' (set_file (SidecarPath ''v'') (take (length f) f) s2) = Inr (Some (sc, [3, 12])))"
proof -
  define h where "h = \<lparr>RStorageKey = ''k'', RTotalChunks = 20, RTotalSize = 80, RChunkSize = 4,
    RMerkleRoot = ''r'', RCreatedAt = 0\<rparr>"
  define sc where "sc = \<lparr>RHeader = h, ROutputPath = ''v''\<rparr>"
  obtain s1 where cr: "resume_Create (demo_json h) 0 ''v'' ''k'' ''r'' (int 20) 80 4 no_files = (Inr sc, s1)"
    by (simp add: resume_Create_def os_create_trunc_def Let_def sc_def h_def NUL_def SidecarPath_def)
  define s2 where "s2 = record_chunks sc [3, 12] s1"
  define f where "f = the (Files s2 (SidecarPath ''v''))"
  have "json_line (demo_json h) (RHeader sc)" by (simp add: sc_def demo_json_line)
  note th = resume_log_survives_crash [OF cr this _ _ s2_def refl, of "length f"]
  have flen: "length f = length (resume_log.log_of (demo_json h) h [3, 12])"
  proof -
    note c = resume_Create_text [OF cr]
    then have f1: "Files s1 (SidecarPath (ROutputPath sc)) = Some (bytes_of (resume_log.log_of (demo_json h) h []))"
      by (simp add: sc_def)
    show ?thesis using record_chunks_text [OF f1, of "[3, 12]"] by (simp add: f_def s2_def sc_def)
  qed
  then have "\<not> length f \<le> 2" unfolding resume_log.log_of_def by (simp add: demo_json_def)
  with th have "resume_Open (demo_json h) ''v'' (set_file (SidecarPath ''v'') (take (length f) f) s2) =
      Inr (Some (sc, [3, 12]))"
    by (auto simp: f_def demo_json_def NUL_def SidecarPath_def)
  with cr show ?thesis by (auto simp: s2_def f_def Let_def)
qed

text \<open>A line torn by a crash is not repaired when the sidecar is opened again: the next index is glued
  to it, and the chunk it stands for is not claimed after the next restart.\<close>

lemma torn_line_swallows_next:
  assumes "digits torn" and "torn \<noteq> []" and "length (torn @ itoa i) < MaxScanTokenSize"
  shows "scan_lines (torn @ itoa i @ [NL]) = [torn @ itoa i]" and "itoa i \<noteq> torn @ itoa i"
proof -
  have "log_line (torn @ itoa i)" using assms digits_itoa by (intro digits_log_line) (auto simp: digits_def)
  from scan_lines_line [OF this, of "[]"] show "scan_lines (torn @ itoa i @ [NL]) = [torn @ itoa i]" by simp
  show "itoa i \<noteq> torn @ itoa i" using assms(2) by simp
qed

section \<open>The pending log across a crash\<close>

text \<open>The first record of every chunk index.\<close>

fun first_records :: "int list \<Rightarrow> chunk_info list \<Rightarrow> chunk_info list" where
  "first_records seen [] = []"
| "first_records seen (i # is) =
     (if IIndex i \<in> set seen then first_records seen is else i # first_records (IIndex i # seen) is)"

lemma first_records_distinct: "distinct (map IIndex is) \<Longrightarrow> IIndex ` set is \<inter> set seen = {} \<Longrightarrow> first_records seen is = is"
  by (induction "is" arbitrary: seen) auto

lemma info_of_record_of [simp]: "info_of (record_of i) = i"
  by (simp add: info_of_def record_of_def)

lemma RecIndex_record_of [simp]: "RecIndex (record_of i) = IIndex i"
  by (simp add: record_of_def)

lemma load_lines_append:
  "load_lines JR seen infos (ls @ ms) = (let (seen', infos') = load_lines JR seen infos ls in load_lines JR seen' infos' ms)"
  by (induction JR seen infos ls rule: load_lines.induct) (simp_all split: option.splits)

lemma load_lines_records:
  assumes "\<forall>i \<in> set is. json_line JR (record_of i)"
  shows "snd (load_lines JR seen infos (map (\<lambda>i. jMarshal JR (record_of i)) is)) = infos @ first_records seen is \<and>
    set (fst (load_lines JR seen infos (map (\<lambda>i. jMarshal JR (record_of i)) is))) = set seen \<union> IIndex ` set is"
  using assms by (induction "is" arbitrary: seen infos) (auto simp: json_line_def)

definition record_pending :: "chunk_record json \<Rightarrow> pending_sidecar \<Rightarrow> chunk_info list \<Rightarrow> os \<Rightarrow> os" where
  "record_pending JR sc infos s = fold (pending_RecordChunk JR sc) infos s"

lemma record_pending_text:
  assumes "Files s (PPath sc) = Some (bytes_of (pending_log.log_of J JR h old))"
  shows "Files (record_pending JR sc infos s) =
      (Files s)(PPath sc \<mapsto> bytes_of (pending_log.log_of J JR h (old @ map record_of infos))) \<and>
    Denied (record_pending JR sc infos s) = Denied s"
  using assms
proof (induction infos arbitrary: s old)
  case Nil
  then show ?case by (simp add: record_pending_def fun_upd_idem)
next
  case (Cons i infos)
  define t where "t = pending_RecordChunk JR sc i s"
  have t: "t = set_file (PPath sc) (bytes_of (pending_log.log_of J JR h (old @ [record_of i]))) s"
    using Cons.prems by (simp add: t_def pending_RecordChunk_def os_append_def pending_log.log_of_snoc bytes_of_def)
  then have "Files t (PPath sc) = Some (bytes_of (pending_log.log_of J JR h (old @ [record_of i])))" by simp
  from Cons.IH [OF this] have "Files (record_pending JR sc infos t) =
      (Files t)(PPath sc \<mapsto> bytes_of (pending_log.log_of J JR h ((old @ [record_of i]) @ map record_of infos))) \<and>
      Denied (record_pending JR sc infos t) = Denied t" .
  moreover have "record_pending JR sc (i # infos) s = record_pending JR sc infos t" by (simp add: record_pending_def t_def)
  ultimately show ?case using t by simp
qed

lemma pending_Create_text:
  assumes "pending_Create J rootdir h s = (Inr sc, s')"
  shows "PPath sc = pending_sidecarPath rootdir (PStorageKey h) \<and>
    Files s' = (Files s)(PPath sc \<mapsto> bytes_of (pending_log.log_of J JR h [])) \<and> Denied s' = Denied s"
  using assms by (auto simp: pending_Create_def os_create_trunc_def os_append_def pending_log.log_of_def Let_def
      split: if_splits)

lemma pending_Load_text:
  assumes "Files s (pending_sidecarPath rootdir key) = Some (bytes_of t)"
    and "\<not> refuses s OpRead (pending_sidecarPath rootdir key)"
    and "scan_lines t = first # rest" and "jUnmarshal J first = Some h"
  shows "pending_Load J JR rootdir key s =
    Inr (Some \<lparr>LHeader = h, Completed = fst (load_lines JR [] [] rest), ChunkInfos = snd (load_lines JR [] [] rest)\<rparr>)"
  using assms by (simp add: pending_Load_def os_ReadFile_def case_prod_beta)

text \<open>The pending log of an upload survives a crash anywhere in a write: \<open>Load\<close> returns the header
  and, in order and without repetitions, exactly the chunks whose lines were written completely; a torn
  record does not count, given that a record cut short is not valid JSON.\<close>

lemma pending_log_survives_crash:
  assumes "pending_Create J rootdir h s0 = (Inr sc, s1)" and "json_line J h"
    and "\<forall>i \<in> set infos. json_line JR (record_of i) \<and>
      (\<forall>m < length (jMarshal JR (record_of i)). jUnmarshal JR (take m (jMarshal JR (record_of i))) = None)"
    and "s2 = record_pending JR sc infos s1"
    and "s3 = set_file (PPath sc) (take c (the (Files s2 (PPath sc)))) s2"
    and "length (jMarshal J h) < c"
    and "\<not> refuses s0 OpRead (PPath sc)"
  shows "\<exists>k \<le> length infos. \<exists>compl. pending_Load J JR rootdir (PStorageKey h) s3 =
      Inr (Some \<lparr>LHeader = h, Completed = compl, ChunkInfos = first_records [] (take k infos)\<rparr>) \<and>
    set compl = IIndex ` set (take k infos) \<and>
    (length (the (Files s2 (PPath sc))) \<le> c \<longrightarrow> k = length infos)"
proof -
  let ?line = "\<lambda>i. jMarshal JR (record_of i)" and ?rs = "map record_of infos"
  let ?log = "pending_log.log_of J JR h ?rs"
  note cr = pending_Create_text [OF assms(1), where JR = JR]
  have f1: "Files s1 (PPath sc) = Some (bytes_of (pending_log.log_of J JR h []))" using cr by simp
  have f2: "Files s2 (PPath sc) = Some (bytes_of ?log)" and d2: "Denied s2 = Denied s0"
    using record_pending_text [OF f1, of infos] cr assms(4) by simp_all
  have f3: "Files s3 (pending_sidecarPath rootdir (PStorageKey h)) = Some (bytes_of (take c ?log))"
    using f2 assms(5) cr by (simp add: bytes_of_def take_map)
  have rd: "\<not> refuses s3 OpRead (pending_sidecarPath rootdir (PStorageKey h))"
    using d2 assms(5,7) cr by (simp add: refuses_def)
  have hp: "jUnmarshal J (jMarshal J h) = Some h" using assms(2) by (simp add: json_line_def)
  have oks: "\<forall>r \<in> set ?rs. json_line JR r" using assms(3) by auto
  have result: ?thesis
    if k: "k \<le> length infos" "scan_lines (take c ?log) = jMarshal J h # map ?line (take k infos) @ torn"
      and torn: "torn = [] \<or> (\<exists>t. torn = [t] \<and> jUnmarshal JR t = None)"
      and full: "length (the (Files s2 (PPath sc))) \<le> c \<longrightarrow> k = length infos" for k torn
  proof -
    have "\<forall>i \<in> set (take k infos). json_line JR (record_of i)" using assms(3) by (auto dest: in_set_takeD)
    note ll = load_lines_records [OF this, of "[]" "[]"]
    have "load_lines JR [] [] (map ?line (take k infos) @ torn) = load_lines JR [] [] (map ?line (take k infos))"
      unfolding load_lines_append using torn by (auto simp: case_prod_beta)
    then show ?thesis using pending_Load_text [OF f3 rd k(2) hp, of JR] ll k(1) full
      by (intro exI [of _ k] conjI exI [of _ "fst (load_lines JR [] [] (map ?line (take k infos)))"]) simp_all
  qed
  show ?thesis
  proof (cases "length ?log \<le> c")
    case True
    then have "scan_lines (take c ?log) = jMarshal J h # map ?line (take (length infos) infos) @ []"
      using pending_log.scan_whole [OF assms(2) oks] by simp
    then show ?thesis using result by blast
  next
    case False
    then have nf: "\<not> length (the (Files s2 (PPath sc))) \<le> c" using f2 by simp
    show ?thesis
    proof (cases rule: pending_log.scan_cut [OF assms(2) oks, of c, case_names header records])
      case (header m)
      then show ?thesis using assms(6) by simp
    next
      case (records k torn)
      have k: "k \<le> length infos" using records(2) by simp
      have sc: "scan_lines (take c ?log) = jMarshal J h # map ?line (take k infos) @ torn"
        using records(1) by (simp add: take_map)
      from records(3) consider "torn = []" | m where "k < length infos" "torn = [take m (?line (infos ! k))]" by auto
      then show ?thesis
      proof cases
        case 1
        then show ?thesis using result [OF k sc] nf by blast
      next
        case 2
        show ?thesis
        proof (cases "m < length (?line (infos ! k))")
          case True
          then have "jUnmarshal JR (take m (?line (infos ! k))) = None" using assms(3) 2(1) nth_mem by blast
          then show ?thesis using result [OF k sc] 2(2) nf by blast
        next
          case False
          then have "scan_lines (take c ?log) = jMarshal J h # map ?line (take (Suc k) infos) @ []"
            using sc 2 by (simp add: take_Suc_conv_app_nth)
          then show ?thesis using result [of "Suc k" "[]"] 2(1) nf by simp
        qed
      qed
    qed
  qed
qed

theorem pending_log_survives_crash_witness:
  "\<exists>h i sc s1. pending_Create (demo_json h) ''r'' h no_files = (Inr sc, s1) \<and>
     (let s2 = record_pending (demo_json (record_of i)) sc [i, i] s1; f = the (Files s2 (PPath sc))
      in \<exists>r. pending_Load (demo_json h) (demo_json (record_of i)) ''r'' (PStorageKey h)
           (set_file (PPath sc) (take (length f) f) s2) = Inr (Some r) \<and> ChunkInfos r = [i])"
proof -
  define h where "h = \<lparr>PStorageKey = ''k'', PTotalSize = 0, PChunkSize = 4, PMerkleRoot = [], PCreatedAt = 0\<rparr>"
  define i where "i = \<lparr>IIndex = 5, IHash = ''aa'', ISize = 4, IEncHash = ''bb'', ICompressed = False\<rparr>"
  let ?JR = "demo_json (record_of i)"
  define sc where "sc = \<lparr>PHeader = h, PPath = pending_sidecarPath ''r'' ''k''\<rparr>"
  have path: "pending_sidecarPath ''r'' ''k'' = ''r/.pending_uploads/k.pending''" by code_simp
  have dir: "pending_Dir ''r'' = ''r/.pending_uploads''" by code_simp
  obtain s1 where cr: "pending_Create (demo_json h) ''r'' h no_files = (Inr sc, s1)"
    by (simp add: pending_Create_def os_create_trunc_def Let_def sc_def h_def NUL_def path dir)
  define s2 where "s2 = record_pending ?JR sc [i, i] s1"
  define f where "f = the (Files s2 (PPath sc))"
  have jr: "\<forall>x \<in> set [i, i]. json_line ?JR (record_of x) \<and>
      (\<forall>m < length (jMarshal ?JR (record_of x)). jUnmarshal ?JR (take m (jMarshal ?JR (record_of x))) = None)"
    using demo_json_line [of "record_of i"] by (auto simp: demo_json_def less_Suc_eq)
  have f1: "Files s1 (PPath sc) = Some (bytes_of (pending_log.log_of (demo_json h) ?JR h []))"
    using pending_Create_text [OF cr, where JR = ?JR] by simp
  have "f = bytes_of (pending_log.log_of (demo_json h) ?JR h [record_of i, record_of i])"
    using record_pending_text [OF f1, of "[i, i]"] by (simp add: f_def s2_def)
  then have len: "length (jMarshal (demo_json h) h) < length f"
    unfolding pending_log.log_of_def by (simp add: demo_json_def)
  have rd: "\<not> refuses no_files OpRead (PPath sc)" by (simp add: sc_def path NUL_def)
  obtain k r where k: "pending_Load (demo_json h) ?JR ''r'' (PStorageKey h) (set_file (PPath sc) (take (length f) f) s2) = Inr (Some r)"
      "ChunkInfos r = first_records [] (take k [i, i])" "length f \<le> length f \<longrightarrow> k = length [i, i]"
    using pending_log_survives_crash [OF cr demo_json_line jr s2_def refl len rd] unfolding f_def
    by (metis load_result.select_convs(3))
  then have "ChunkInfos r = [i]" by simp
  with k(1) cr show ?thesis
    by (intro exI [of _ h] exI [of _ i] exI [of _ sc] exI [of _ s1]) (auto simp: s2_def f_def Let_def)
qed

section \<open>File names of pending sidecars\<close>

lemma sanitizeKey_ascii: "\<forall>c \<in> set s. (of_char c :: nat) < 128 \<Longrightarrow> sanitizeKey (s @ t) = map sanitize_byte s @ sanitizeKey t"
proof (induction s)
  case (Cons c s)
  then have "rune_width (c # s @ t) = 1" by (auto simp: rune_width_def between_def)
  with Cons show ?case by simp
qed simp

lemma sanitize_byte_slash [simp]: "sanitize_byte c \<noteq> CHR ''/''"
  by (simp add: sanitize_byte_def)

lemmas slash_sanitize_byte [simp] = sanitize_byte_slash [symmetric]

lemma sanitizeKey_slash: "CHR ''/'' \<notin> set (sanitizeKey s)"
  by (induction s rule: sanitizeKey.induct) (auto simp: Let_def NUL_def)

lemma pending_name_plain: "plain_name (sanitizeKey key @ ''.pending'')"
  using sanitizeKey_slash [of key] by (auto simp: plain_name_def append_eq_Cons_conv)

lemma pending_Dir_nonempty: "pending_Dir rootdir \<noteq> []"
  by (simp add: pending_Dir_def path_Join_def)

lemma pending_path_prefix:
  obtains pre where "\<And>key. pending_sidecarPath rootdir key = pre @ sanitizeKey key @ ''.pending''"
proof -
  obtain pre where "\<And>x. plain_name x \<Longrightarrow> path_Join (pending_Dir rootdir) x = pre @ x"
    using path_Join_plain [OF pending_Dir_nonempty] by blast
  then show thesis using that pending_name_plain by (simp add: pending_sidecarPath_def)
qed

text \<open>Two keys share their sidecar exactly when they sanitize to the same name.\<close>

lemma pending_path_shared:
  "pending_sidecarPath rootdir k = pending_sidecarPath rootdir k' \<longleftrightarrow> sanitizeKey k = sanitizeKey k'"
proof -
  obtain pre where pre: "\<And>key. pending_sidecarPath rootdir key = pre @ sanitizeKey key @ ''.pending''"
    using pending_path_prefix [of rootdir] by blast
  show ?thesis unfolding pre by simp
qed

lemma separators_collide: "sanitizeKey ''a/b'' = sanitizeKey ''a_b'' \<and> sanitizeKey ''a:b'' = sanitizeKey ''a_b''"
  by (simp add: rune_width_def between_def sanitize_byte_def)

text \<open>\<open>sanitizeKey\<close> zeroes the bytes of a multi-byte rune after the first one, and a path with a
  zero byte is refused: no sidecar can ever be created for a key with a character outside ASCII, whatever
  the file system, so an upload that needs one fails.\<close>

lemma non_ascii_key_refused:
  assumes "\<forall>c \<in> set pre. (of_char c :: nat) < 128" and "2 \<le> rune_width suf"
    and "PStorageKey h = pre @ suf"
  shows "\<exists>e. pending_Create J rootdir h s = (Inl (CreateSidecar e), s)"
proof -
  obtain c t where suf: "suf = c # t" using assms(2) by (cases suf) (auto simp: rune_width_def between_def)
  have "sanitizeKey (pre @ suf) = map sanitize_byte pre @ sanitizeKey suf" by (rule sanitizeKey_ascii [OF assms(1)])
  then have "NUL \<in> set (sanitizeKey (PStorageKey h))"
    using assms(2,3) suf by (simp add: Let_def)
  moreover obtain p0 where "\<And>key. pending_sidecarPath rootdir key = p0 @ sanitizeKey key @ ''.pending''"
    by (rule pending_path_prefix [of rootdir]) blast
  ultimately have "NUL \<in> set (pending_sidecarPath rootdir (PStorageKey h))" by simp
  then have "os_create_trunc (pending_sidecarPath rootdir (PStorageKey h)) s =
      (Some (Refused OpWrite (pending_sidecarPath rootdir (PStorageKey h))), s)"
    by (simp add: os_create_trunc_def refuses_def)
  then show ?thesis by (simp add: pending_Create_def Let_def)
qed

text \<open>The key \<open>caf\<close> followed by the two bytes of an accented e.\<close>

theorem non_ascii_key_refused_witness:
  "\<exists>e. pending_Create (demo_json undefined) ''r'' \<lparr>PStorageKey = ''caf'' @ [CHR 0xC3, CHR 0xA9], PTotalSize = 0,
     PChunkSize = 4, PMerkleRoot = [], PCreatedAt = 0\<rparr> no_files = (Inl (CreateSidecar e), no_files)"
  by (rule non_ascii_key_refused [of "''caf''" "[CHR 0xC3, CHR 0xA9]"]) (simp_all add: rune_width_def between_def)

end
