(* ===== verification/ChunkStore.thy ===== *)
theory ChunkStore
  imports Sidecars
begin

text \<open>
  The local store of Storage/storage.go: chunk files under content-addressed paths (\<open>Store\<close>), and
  the two implementations of the \<open>MetadataStore\<close> interface, a JSON file that is rewritten on every
  change (\<open>MetaFile\<close>) and a bbolt database (\<open>BoltMetaStore\<close>).

  The interface is the record \<open>meta_ops\<close> over the type of the store's state; the locale
  \<open>metadata_store\<close> is its contract, which both implementations satisfy and on which the lemmas about
  \<open>Store\<close> rest. bbolt, the JSON codecs, SHA-256 and MD5 are parameters.
\<close>

named_theorems meta_simps \<open>lookups after an operation of a metadata store\<close>

section \<open>Metadata\<close>

record file_meta =
  MPath :: string
  MVClock :: "(string, uint64) gomap"
  MTimestamp :: int
  MChunked :: bool
  MManifest :: "chunk_manifest option"

definition zero_meta :: file_meta where
  "zero_meta = \<lparr>MPath = [], MVClock = [], MTimestamp = 0, MChunked = False, MManifest = None\<rparr>"

text \<open>The interface \<open>MetadataStore\<close>. A method that changes the store returns its error and the store.\<close>

record 'm meta_ops =
  MGet :: "'m \<Rightarrow> string \<Rightarrow> file_meta option"
  MSet :: "'m \<Rightarrow> string \<Rightarrow> file_meta \<Rightarrow> string option \<times> 'm"
  MGetManifest :: "'m \<Rightarrow> string \<Rightarrow> chunk_manifest option"
  MSetManifest :: "'m \<Rightarrow> string \<Rightarrow> chunk_manifest \<Rightarrow> string option \<times> 'm"
  MGetDirManifest :: "'m \<Rightarrow> string \<Rightarrow> byte list option"
  MSetDirManifest :: "'m \<Rightarrow> string \<Rightarrow> byte list \<Rightarrow> string option \<times> 'm"

definition DirManifestKey :: "string \<Rightarrow> string" where
  "DirManifestKey key = ''dirmanifest:'' @ key"

section \<open>The JSON file\<close>

text \<open>\<open>writes\<close> says which contents the file accepts; the map in memory is changed also when the write
  fails.\<close>

record meta_file =
  MFPath :: string
  MFStore :: "(string, file_meta) gomap"
  MFDisk :: os

definition NewMetaFile :: "(string, file_meta) gomap json \<Rightarrow> string \<Rightarrow> os \<Rightarrow> meta_file" where
  "NewMetaFile J path s =
     (case os_ReadFile path s of
        Inr data \<Rightarrow>
          \<lparr>MFPath = path, MFStore = (case jUnmarshal J (string_of data) of None \<Rightarrow> [] | Some m \<Rightarrow> m), MFDisk = s\<rparr>
      | Inl e \<Rightarrow>
          \<lparr>MFPath = path, MFStore = [],
           MFDisk = (if refuses s OpWrite path then s else set_file path (bytes_of ''{}'') s)\<rparr>)"

definition mf_Get :: "meta_file \<Rightarrow> string \<Rightarrow> file_meta option" where
  "mf_Get m key = map_of (MFStore m) key"

definition mf_Set ::
  "(string, file_meta) gomap json \<Rightarrow> meta_file \<Rightarrow> string \<Rightarrow> file_meta \<Rightarrow> string option \<times> meta_file" where
  "mf_Set J m key meta =
     (let m = m\<lparr>MFStore := AList.update key meta (MFStore m)\<rparr>
      in if refuses (MFDisk m) OpWrite (MFPath m) then (Some (MFPath m), m)
         else (None, m\<lparr>MFDisk := set_file (MFPath m) (bytes_of (jMarshal J (MFStore m))) (MFDisk m)\<rparr>))"

definition mf_Keys :: "meta_file \<Rightarrow> string list" where
  "mf_Keys m = go_keys (MFStore m)"

definition mf_GetManifest :: "meta_file \<Rightarrow> string \<Rightarrow> chunk_manifest option" where
  "mf_GetManifest m fileKey =
     (case mf_Get m (ManifestStorageKey fileKey) of None \<Rightarrow> None | Some fm \<Rightarrow> MManifest fm)"

definition mf_SetManifest ::
  "(string, file_meta) gomap json \<Rightarrow> meta_file \<Rightarrow> string \<Rightarrow> chunk_manifest \<Rightarrow> string option \<times> meta_file" where
  "mf_SetManifest J m fileKey manifest =
     mf_Set J m (ManifestStorageKey fileKey) (zero_meta\<lparr>MManifest := Some manifest\<rparr>)"

definition mf_GetDirManifest :: "meta_file \<Rightarrow> string \<Rightarrow> byte list option" where
  "mf_GetDirManifest m key =
     (case mf_Get m (DirManifestKey key) of
        None \<Rightarrow> None
      | Some fm \<Rightarrow> if MPath fm = [] then None else Some (bytes_of (MPath fm)))"

definition mf_SetDirManifest ::
  "(string, file_meta) gomap json \<Rightarrow> meta_file \<Rightarrow> string \<Rightarrow> byte list \<Rightarrow> string option \<times> meta_file" where
  "mf_SetDirManifest J m key data = mf_Set J m (DirManifestKey key) (zero_meta\<lparr>MPath := string_of data\<rparr>)"

definition mf_ops :: "(string, file_meta) gomap json \<Rightarrow> meta_file meta_ops" where
  "mf_ops J =
     \<lparr>MGet = mf_Get, MSet = mf_Set J, MGetManifest = mf_GetManifest, MSetManifest = mf_SetManifest J,
      MGetDirManifest = mf_GetDirManifest, MSetDirManifest = mf_SetDirManifest J\<rparr>"

section \<open>The bbolt database\<close>

datatype meta_bucket = FileMetaBucket | ManifestsBucket

text \<open>A read-write transaction that puts some pairs and then commits, or fails and changes nothing.\<close>

record 'db kv =
  KGet :: "'db \<Rightarrow> meta_bucket \<Rightarrow> string \<Rightarrow> byte list option"
  KUpdate :: "'db \<Rightarrow> (meta_bucket \<times> string \<times> byte list) list \<Rightarrow> string + 'db"
  KKeys :: "'db \<Rightarrow> meta_bucket \<Rightarrow> string list"

definition put_all ::
  "(meta_bucket \<times> string \<times> byte list) list \<Rightarrow> (meta_bucket \<Rightarrow> string \<Rightarrow> byte list option)
    \<Rightarrow> meta_bucket \<Rightarrow> string \<Rightarrow> byte list option" where
  "put_all = fold (\<lambda>(b, k, v) f. f(b := (f b)(k \<mapsto> v)))"

definition kv_ok :: "'db kv \<Rightarrow> bool" where
  "kv_ok K \<longleftrightarrow> (\<forall>db puts db'. KUpdate K db puts = Inr db' \<longrightarrow> KGet K db' = put_all puts (KGet K db)) \<and>
     (\<forall>db b. set (KKeys K db b) = dom (KGet K db b))"

record 'db bolt_meta =
  BMOps :: "'db kv"
  BMMeta :: "file_meta json"
  BMManifest :: "chunk_manifest json"
  BMData :: 'db

definition bm_update ::
  "'db bolt_meta \<Rightarrow> (meta_bucket \<times> string \<times> byte list) list \<Rightarrow> string option \<times> 'db bolt_meta" where
  "bm_update b puts =
     (case KUpdate (BMOps b) (BMData b) puts of Inl e \<Rightarrow> (Some e, b) | Inr db \<Rightarrow> (None, b\<lparr>BMData := db\<rparr>))"

definition bm_Get :: "'db bolt_meta \<Rightarrow> string \<Rightarrow> file_meta option" where
  "bm_Get b key =
     (case KGet (BMOps b) (BMData b) FileMetaBucket key of
        None \<Rightarrow> None
      | Some v \<Rightarrow> jUnmarshal (BMMeta b) (string_of v))"

definition put_meta :: "'db bolt_meta \<Rightarrow> string \<Rightarrow> file_meta \<Rightarrow> meta_bucket \<times> string \<times> byte list" where
  "put_meta b key meta = (FileMetaBucket, key, bytes_of (jMarshal (BMMeta b) meta))"

definition put_manifest :: "'db bolt_meta \<Rightarrow> string \<Rightarrow> chunk_manifest \<Rightarrow> meta_bucket \<times> string \<times> byte list" where
  "put_manifest b fileKey manifest = (ManifestsBucket, fileKey, bytes_of (jMarshal (BMManifest b) manifest))"

definition put_dir :: "string \<Rightarrow> byte list \<Rightarrow> meta_bucket \<times> string \<times> byte list" where
  "put_dir key data = (ManifestsBucket, DirManifestKey key, data)"

definition bm_Set :: "'db bolt_meta \<Rightarrow> string \<Rightarrow> file_meta \<Rightarrow> string option \<times> 'db bolt_meta" where
  "bm_Set b key meta = bm_update b [put_meta b key meta]"

definition bm_Keys :: "'db bolt_meta \<Rightarrow> string list" where
  "bm_Keys b = KKeys (BMOps b) (BMData b) FileMetaBucket"

definition bm_GetManifest :: "'db bolt_meta \<Rightarrow> string \<Rightarrow> chunk_manifest option" where
  "bm_GetManifest b fileKey =
     (case KGet (BMOps b) (BMData b) ManifestsBucket fileKey of
        None \<Rightarrow> None
      | Some v \<Rightarrow> jUnmarshal (BMManifest b) (string_of v))"

definition bm_SetManifest :: "'db bolt_meta \<Rightarrow> string \<Rightarrow> chunk_manifest \<Rightarrow> string option \<times> 'db bolt_meta" where
  "bm_SetManifest b fileKey manifest = bm_update b [put_manifest b fileKey manifest]"

definition bm_GetDirManifest :: "'db bolt_meta \<Rightarrow> string \<Rightarrow> byte list option" where
  "bm_GetDirManifest b key = KGet (BMOps b) (BMData b) ManifestsBucket (DirManifestKey key)"

definition bm_SetDirManifest :: "'db bolt_meta \<Rightarrow> string \<Rightarrow> byte list \<Rightarrow> string option \<times> 'db bolt_meta" where
  "bm_SetDirManifest b key data = bm_update b [put_dir key data]"

definition bm_ops :: "'db bolt_meta meta_ops" where
  "bm_ops =
     \<lparr>MGet = bm_Get, MSet = bm_Set, MGetManifest = bm_GetManifest, MSetManifest = bm_SetManifest,
      MGetDirManifest = bm_GetDirManifest, MSetDirManifest = bm_SetDirManifest\<rparr>"

section \<open>Batches\<close>

text \<open>What the function passed to \<open>WithBatch\<close> does: calls of the batch, up to an error of its own.\<close>

datatype batch_op =
    BatchSet string file_meta
  | BatchSetManifest string chunk_manifest
  | BatchSetDirManifest string "byte list"

fun batch_put :: "'db bolt_meta \<Rightarrow> batch_op \<Rightarrow> meta_bucket \<times> string \<times> byte list" where
  "batch_put b (BatchSet key meta) = put_meta b key meta"
| "batch_put b (BatchSetManifest fileKey manifest) = put_manifest b fileKey manifest"
| "batch_put b (BatchSetDirManifest key data) = put_dir key data"

definition bm_WithBatch ::
  "'db bolt_meta \<Rightarrow> batch_op list \<Rightarrow> string option \<Rightarrow> string option \<times> 'db bolt_meta" where
  "bm_WithBatch b calls fn_err =
     (case fn_err of Some e \<Rightarrow> (Some e, b) | None \<Rightarrow> bm_update b (map (batch_put b) calls))"

fun meta_call :: "'m meta_ops \<Rightarrow> 'm \<Rightarrow> batch_op \<Rightarrow> string option \<times> 'm" where
  "meta_call ops m (BatchSet key meta) = MSet ops m key meta"
| "meta_call ops m (BatchSetManifest fileKey manifest) = MSetManifest ops m fileKey manifest"
| "meta_call ops m (BatchSetDirManifest key data) = MSetDirManifest ops m key data"

text \<open>\<open>MetaFile.WithBatch\<close> runs the calls one by one; the caller's function stops at the first error.\<close>

fun meta_calls :: "'m meta_ops \<Rightarrow> 'm \<Rightarrow> batch_op list \<Rightarrow> string option \<times> 'm" where
  "meta_calls ops m [] = (None, m)"
| "meta_calls ops m (c # cs) =
     (case meta_call ops m c of (Some e, m) \<Rightarrow> (Some e, m) | (None, m) \<Rightarrow> meta_calls ops m cs)"

definition mf_WithBatch ::
  "(string, file_meta) gomap json \<Rightarrow> meta_file \<Rightarrow> batch_op list \<Rightarrow> string option \<Rightarrow> string option \<times> meta_file" where
  "mf_WithBatch J m calls fn_err =
     (case meta_calls (mf_ops J) m calls of
        (Some e, m) \<Rightarrow> (Some e, m)
      | (None, m) \<Rightarrow> (fn_err, m))"

section \<open>The chunk files\<close>

record path_key =
  pathname :: string
  filename :: string

record 'm chunk_store =
  PathTransformFunc :: "string \<Rightarrow> path_key"
  Metadata :: "'m meta_ops"
  Root :: string

definition DefaultPathTransformFunc :: "string \<Rightarrow> path_key" where
  "DefaultPathTransformFunc key = \<lparr>pathname = key, filename = key\<rparr>"

definition CASPathTransformFunc :: "(byte list \<Rightarrow> byte list) \<Rightarrow> string \<Rightarrow> path_key" where
  "CASPathTransformFunc sha256 key =
     (let hashStr = hex_encode (sha256 (bytes_of key));
          blockSize = 5;
          sliceLen = length hashStr div blockSize;
          paths = map (\<lambda>i. take blockSize (drop (i * blockSize) hashStr)) [0..<sliceLen]
      in \<lparr>pathname = join_path paths, filename = hashStr\<rparr>)"

text \<open>\<open>NewStore\<close> fills in the defaults.\<close>

definition NewStore :: "(string \<Rightarrow> path_key) option \<Rightarrow> 'm meta_ops \<Rightarrow> string \<Rightarrow> 'm chunk_store" where
  "NewStore transform meta r =
     \<lparr>PathTransformFunc = (case transform of None \<Rightarrow> DefaultPathTransformFunc | Some f \<Rightarrow> f),
      Metadata = meta, Root = (if r = [] then ''DFSNetworkRoot'' else r)\<rparr>"

datatype store_error = NoMeta | StoreOs os_error | ReaderFailed | MetaFailed string

definition ReadStream :: "'m chunk_store \<Rightarrow> string \<Rightarrow> 'm \<Rightarrow> os \<Rightarrow> store_error + byte list" where
  "ReadStream st key m s =
     (case MGet (Metadata st) m key of
        None \<Rightarrow> Inl NoMeta
      | Some meta \<Rightarrow> (case os_ReadFile (MPath meta) s of Inl e \<Rightarrow> Inl (StoreOs e) | Inr data \<Rightarrow> Inr data))"

text \<open>\<open>WriteStream\<close>: the content goes to a temporary file of a fresh name first. \<open>reader\<close> is what the reader
  delivers, or its failure; the deferred removal leaves no temporary file behind.\<close>

definition stream_path :: "(byte list \<Rightarrow> byte list) \<Rightarrow> 'm chunk_store \<Rightarrow> string \<Rightarrow> byte list \<Rightarrow> string" where
  "stream_path md5 st key data =
     path_Join (path_Join (Root st) (pathname (PathTransformFunc st key))) (hex_encode (md5 data))"

definition WriteStream ::
  "(byte list \<Rightarrow> byte list) \<Rightarrow> string \<Rightarrow> 'm chunk_store \<Rightarrow> string \<Rightarrow> byte list option \<Rightarrow> 'm \<Rightarrow> os
    \<Rightarrow> (store_error + nat) \<times> 'm \<times> os" where
  "WriteStream md5 rnd st key reader m s =
     (let fullPath = path_Join (Root st) (pathname (PathTransformFunc st key));
          tempPath = path_Join fullPath (''temp-'' @ rnd)
      in if refuses s OpWrite fullPath then (Inl (StoreOs (Refused OpWrite fullPath)), m, s)
         else if refuses s OpWrite tempPath then (Inl (StoreOs (Refused OpWrite tempPath)), m, s)
         else case reader of
             None \<Rightarrow> (Inl ReaderFailed, m, s)
           | Some data \<Rightarrow>
               (let finalPath = stream_path md5 st key data
                in case SafeRename tempPath finalPath (set_file tempPath data s) of
                    (Some e, s) \<Rightarrow> (Inl (StoreOs e), m, snd (os_Remove tempPath s))
                  | (None, s) \<Rightarrow>
                      (let fm = (case MGet (Metadata st) m key of None \<Rightarrow> zero_meta | Some fm \<Rightarrow> fm)
                       in case MSet (Metadata st) m key (fm\<lparr>MPath := finalPath\<rparr>) of
                           (Some e, m) \<Rightarrow> (Inl (MetaFailed e), m, s)
                         | (None, m) \<Rightarrow> (Inr (length data), m, s))))"

definition Remove :: "'m chunk_store \<Rightarrow> string \<Rightarrow> 'm \<Rightarrow> os \<Rightarrow> store_error option \<times> os" where
  "Remove st key m s =
     (case MGet (Metadata st) m key of
        None \<Rightarrow> (Some NoMeta, s)
      | Some meta \<Rightarrow> (case os_Remove (MPath meta) s of (None, s) \<Rightarrow> (None, s) | (Some e, s) \<Rightarrow> (Some (StoreOs e), s)))"

text \<open>\<open>Has\<close>: any answer of \<open>Stat\<close> other than that the file does not exist counts.\<close>

definition Has :: "'m chunk_store \<Rightarrow> string \<Rightarrow> 'm \<Rightarrow> os \<Rightarrow> bool" where
  "Has st key m s =
     (case MGet (Metadata st) m key of
        None \<Rightarrow> False
      | Some meta \<Rightarrow> NUL \<in> set (MPath meta) \<or> Files s (MPath meta) \<noteq> None)"

text \<open>\<open>os.RemoveAll(root)\<close>: the root and everything below it.\<close>

definition TearDown :: "'m chunk_store \<Rightarrow> os \<Rightarrow> os" where
  "TearDown st s = s\<lparr>Files := (\<lambda>p. if p = Root st \<or> take (length (Root st) + 1) p = Root st @ ''/'' then None else Files s p)\<rparr>"

end
