(* ===== verification/StoreLaws.thy ===== *)
theory StoreLaws
  imports ChunkStore
begin

text \<open>
  What the local store promises. The locale \<open>metadata_store\<close> is the contract of the interface
  \<open>MetadataStore\<close>, interpreted on both implementations; the lemmas about chunk files are proved inside
  it. A batch of the bbolt store is compared with the same calls made one by one, and the store with
  content-addressed paths is shown to implement a map from keys to contents.
\<close>

section \<open>The contract of the metadata store\<close>

text \<open>Keys the JSON file keeps manifests under. A store may only promise that manifests and metadata do
  not disturb each other for keys that are not of this form.\<close>

definition reserved :: "string \<Rightarrow> bool" where
  "reserved k \<longleftrightarrow> take 9 k = ''manifest:'' \<or> take 12 k = ''dirmanifest:''"

lemma reserved_keys [simp]: "reserved (ManifestStorageKey k)" "reserved (DirManifestKey k)"
  by (simp_all add: reserved_def ManifestStorageKey_def DirManifestKey_def)

lemma manifest_key_inject [simp]: "ManifestStorageKey a = ManifestStorageKey b \<longleftrightarrow> a = b"
  by (simp add: ManifestStorageKey_def)

lemma dir_key_inject [simp]: "DirManifestKey a = DirManifestKey b \<longleftrightarrow> a = b"
  by (simp add: DirManifestKey_def)

lemma manifest_key_dir [simp]: "ManifestStorageKey a \<noteq> DirManifestKey b" "DirManifestKey b \<noteq> ManifestStorageKey a"
  by (simp_all add: ManifestStorageKey_def DirManifestKey_def)

lemma string_of_Nil [simp]: "string_of d = [] \<longleftrightarrow> d = []"
  by (simp add: string_of_def)

lemma not_reserved_neq: "\<not> reserved k \<Longrightarrow> k \<noteq> ManifestStorageKey f \<and> k \<noteq> DirManifestKey f"
  by auto

locale metadata_store =
  fixes ops :: "'m meta_ops" and inv :: "'m \<Rightarrow> bool"
    and ok_meta :: "'m \<Rightarrow> file_meta \<Rightarrow> bool" and ok_man :: "'m \<Rightarrow> chunk_manifest \<Rightarrow> bool"
  assumes set_inv: "inv m \<Longrightarrow> MSet ops m k v = (e, m') \<Longrightarrow> inv m' \<and> ok_meta m' = ok_meta m \<and> ok_man m' = ok_man m"
    and set_man_inv: "inv m \<Longrightarrow> MSetManifest ops m k x = (e, m') \<Longrightarrow> inv m' \<and> ok_meta m' = ok_meta m \<and> ok_man m' = ok_man m"
    and set_dir_inv: "inv m \<Longrightarrow> MSetDirManifest ops m k d = (e, m') \<Longrightarrow> inv m' \<and> ok_meta m' = ok_meta m \<and> ok_man m' = ok_man m"
    and get_set: "inv m \<Longrightarrow> MSet ops m k v = (None, m') \<Longrightarrow> ok_meta m v \<Longrightarrow> MGet ops m' k = Some v"
    and get_set_other: "inv m \<Longrightarrow> MSet ops m k v = (e, m') \<Longrightarrow> k' \<noteq> k \<Longrightarrow> MGet ops m' k' = MGet ops m k'"
    and man_set: "inv m \<Longrightarrow> MSet ops m k v = (e, m') \<Longrightarrow> \<not> reserved k \<Longrightarrow> MGetManifest ops m' f = MGetManifest ops m f"
    and dir_set: "inv m \<Longrightarrow> MSet ops m k v = (e, m') \<Longrightarrow> \<not> reserved k \<Longrightarrow> MGetDirManifest ops m' f = MGetDirManifest ops m f"
    and man_set_man: "inv m \<Longrightarrow> MSetManifest ops m f x = (None, m') \<Longrightarrow> ok_man m x \<Longrightarrow> MGetManifest ops m' f = Some x"
    and man_set_man_other: "inv m \<Longrightarrow> MSetManifest ops m f x = (e, m') \<Longrightarrow> f' \<noteq> f \<Longrightarrow> MGetManifest ops m' f' = MGetManifest ops m f'"
    and get_set_man: "inv m \<Longrightarrow> MSetManifest ops m f x = (e, m') \<Longrightarrow> \<not> reserved k \<Longrightarrow> MGet ops m' k = MGet ops m k"
    and dir_set_man: "inv m \<Longrightarrow> MSetManifest ops m f x = (e, m') \<Longrightarrow> \<not> reserved f \<Longrightarrow> MGetDirManifest ops m' k = MGetDirManifest ops m k"
    and dir_set_dir: "inv m \<Longrightarrow> MSetDirManifest ops m f d = (None, m') \<Longrightarrow> d \<noteq> [] \<Longrightarrow> MGetDirManifest ops m' f = Some d"
    and man_set_dir: "inv m \<Longrightarrow> MSetDirManifest ops m f d = (e, m') \<Longrightarrow> \<not> reserved k \<Longrightarrow> MGetManifest ops m' k = MGetManifest ops m k"
    and get_set_dir: "inv m \<Longrightarrow> MSetDirManifest ops m f d = (e, m') \<Longrightarrow> \<not> reserved k \<Longrightarrow> MGet ops m' k = MGet ops m k"
begin

text \<open>A stored stream is read back, and nothing stored under another path is touched.\<close>

lemma WriteStream_ok:
  assumes "Metadata st = ops" and "inv m"
    and "WriteStream md5 rnd st key (Some data) m s = (Inr n, m', s')"
    and "ok_meta m ((case MGet ops m key of None \<Rightarrow> zero_meta | Some fm \<Rightarrow> fm)\<lparr>MPath := stream_path md5 st key data\<rparr>)"
    and "path_Join (path_Join (Root st) (pathname (PathTransformFunc st key))) (''temp-'' @ rnd) \<noteq> stream_path md5 st key data"
    and "Files s (path_Join (path_Join (Root st) (pathname (PathTransformFunc st key))) (''temp-'' @ rnd)) = None"
  shows "n = length data \<and> inv m' \<and>
    (\<exists>fm. MGet ops m' key = Some (fm\<lparr>MPath := stream_path md5 st key data\<rparr>)) \<and>
    (\<forall>k. k \<noteq> key \<longrightarrow> MGet ops m' k = MGet ops m k) \<and>
    Files s' = (Files s)(stream_path md5 st key data \<mapsto> data) \<and> Denied s' = Denied s"
proof -
  let ?final = "stream_path md5 st key data"
  let ?temp = "path_Join (path_Join (Root st) (pathname (PathTransformFunc st key))) (''temp-'' @ rnd)"
  obtain s1 where r: "SafeRename ?temp ?final (set_file ?temp data s) = (None, s1)" and
      st: "MSet ops m key ((case MGet ops m key of None \<Rightarrow> zero_meta | Some fm \<Rightarrow> fm)\<lparr>MPath := ?final\<rparr>) = (None, m')"
      and n: "n = length data" and s': "s' = s1"
    using assms(1,3) by (auto simp: WriteStream_def Let_def split: if_splits option.splits prod.splits)
  have "Files s1 = (Files s)(?final \<mapsto> data) \<and> Denied s1 = Denied s"
    using SafeRename_ok [OF r assms(5)] assms(5,6) by (auto simp: fun_eq_iff)
  moreover have "MGet ops m' key = Some ((case MGet ops m key of None \<Rightarrow> zero_meta | Some fm \<Rightarrow> fm)\<lparr>MPath := ?final\<rparr>)"
    by (rule get_set [OF assms(2) st assms(4)])
  ultimately show ?thesis using set_inv [OF assms(2) st] get_set_other [OF assms(2) st] n s' by blast
qed

end

section \<open>Both implementations satisfy it\<close>

interpretation meta_file_store: metadata_store "mf_ops J" "\<lambda>m. True" "\<lambda>m v. True" "\<lambda>m x. True"
  for J :: "(string, file_meta) gomap json"
  by unfold_locales
    (auto simp: mf_ops_def mf_Get_def mf_Set_def mf_GetManifest_def mf_SetManifest_def mf_GetDirManifest_def
      mf_SetDirManifest_def Let_def dest: not_reserved_neq split: if_splits)

text \<open>A value survives the bbolt store when its JSON text is parsed back.\<close>

definition json_ok :: "'a json \<Rightarrow> 'a \<Rightarrow> bool" where
  "json_ok J x \<longleftrightarrow> jUnmarshal J (jMarshal J x) = Some x"

lemma bm_update_ok:
  assumes "bm_update b puts = (e, b')" and "kv_ok (BMOps b)"
  shows "BMOps b' = BMOps b \<and> BMMeta b' = BMMeta b \<and> BMManifest b' = BMManifest b \<and>
    KGet (BMOps b) (BMData b') = (if e = None then put_all puts (KGet (BMOps b) (BMData b)) else KGet (BMOps b) (BMData b))"
  using assms by (auto simp: bm_update_def kv_ok_def split: sum.splits)

lemma put_all_single [simp]: "put_all [(b, k, v)] f = f(b := (f b)(k \<mapsto> v))"
  by (simp add: put_all_def)

lemma put_all_append: "put_all (ps @ qs) f = put_all qs (put_all ps f)"
  by (simp add: put_all_def)

lemmas bm_defs = bm_ops_def bm_Get_def bm_Set_def bm_GetManifest_def bm_SetManifest_def bm_GetDirManifest_def
  bm_SetDirManifest_def put_meta_def put_manifest_def put_dir_def json_ok_def

interpretation bolt_store: metadata_store "bm_ops :: 'db bolt_meta meta_ops" "\<lambda>b. kv_ok (BMOps b)"
    "\<lambda>b. json_ok (BMMeta b)" "\<lambda>b. json_ok (BMManifest b)"
  by unfold_locales
    (auto simp: bm_defs dest!: bm_update_ok dest: not_reserved_neq split: if_splits option.splits)

section \<open>Batches\<close>

text \<open>What can be observed of a bbolt store.\<close>

definition bm_view :: "'db bolt_meta \<Rightarrow> meta_bucket \<Rightarrow> string \<Rightarrow> byte list option" where
  "bm_view b = KGet (BMOps b) (BMData b)"

lemma bm_update_view:
  assumes "kv_ok (BMOps b)" and "bm_update b puts = (e, b')"
  shows "kv_ok (BMOps b') \<and> BMMeta b' = BMMeta b \<and> BMManifest b' = BMManifest b \<and>
    bm_view b' = (if e = None then put_all puts (bm_view b) else bm_view b)"
  using bm_update_ok [OF assms(2,1)] assms(1) by (simp add: bm_view_def)

lemma meta_call_update: "meta_call bm_ops b c = bm_update b [batch_put b c]"
  by (cases c) (simp_all add: bm_ops_def bm_Set_def bm_SetManifest_def bm_SetDirManifest_def)

lemma batch_put_cong: "BMMeta b' = BMMeta b \<Longrightarrow> BMManifest b' = BMManifest b \<Longrightarrow> batch_put b' = batch_put b"
proof (rule ext)
  fix c
  assume "BMMeta b' = BMMeta b" and "BMManifest b' = BMManifest b"
  then show "batch_put b' c = batch_put b c" by (cases c) (simp_all add: put_meta_def put_manifest_def)
qed

lemma meta_calls_view:
  assumes "kv_ok (BMOps b)" and "meta_calls bm_ops b calls = (None, b')"
  shows "bm_view b' = put_all (map (batch_put b) calls) (bm_view b)"
  using assms
proof (induction calls arbitrary: b)
  case Nil
  then show ?case by (simp add: put_all_def)
next
  case (Cons c cs)
  then obtain b1 where b1: "bm_update b [batch_put b c] = (None, b1)" "meta_calls bm_ops b1 cs = (None, b')"
    by (auto simp: meta_call_update split: prod.splits option.splits)
  note v = bm_update_view [OF Cons.prems(1) b1(1)]
  then have "batch_put b1 = batch_put b" by (intro batch_put_cong) simp_all
  with Cons.IH [OF _ b1(2)] v show ?case
    using put_all_append [of "[batch_put b c]" "map (batch_put b) cs"] by simp
qed

text \<open>C22. A batch is atomic and equivalent to its calls: if the transaction fails, or the function passed
  to \<open>WithBatch\<close> returns an error, nothing has changed; if it commits, every lookup of metadata, manifests
  and directory manifests answers as after the same calls made one by one, where these all succeed.\<close>

theorem batch_equals_calls:
  assumes "kv_ok (BMOps b)" and "bm_WithBatch b calls fn_err = (e, b1)"
  shows "(e \<noteq> None \<longrightarrow> b1 = b) \<and> (fn_err \<noteq> None \<longrightarrow> e = fn_err) \<and>
    (\<forall>b2. e = None \<and> meta_calls bm_ops b calls = (None, b2) \<longrightarrow>
      bm_Get b1 = bm_Get b2 \<and> bm_GetManifest b1 = bm_GetManifest b2 \<and> bm_GetDirManifest b1 = bm_GetDirManifest b2)"
proof (cases fn_err)
  case (Some x)
  then show ?thesis using assms(2) by (auto simp: bm_WithBatch_def)
next
  case None
  then have u: "bm_update b (map (batch_put b) calls) = (e, b1)" using assms(2) by (simp add: bm_WithBatch_def)
  have "bm_Get b1 = bm_Get b2 \<and> bm_GetManifest b1 = bm_GetManifest b2 \<and> bm_GetDirManifest b1 = bm_GetDirManifest b2"
    if "e = None" and c: "meta_calls bm_ops b calls = (None, b2)" for b2
  proof -
    have "bm_view b1 = bm_view b2"
      using bm_update_view [OF assms(1) u] meta_calls_view [OF assms(1) c] that(1) by simp
    moreover have "BMMeta b2 = BMMeta b \<and> BMManifest b2 = BMManifest b"
      using c assms(1)
    proof (induction calls arbitrary: b)
      case (Cons a cs)
      then obtain b3 where b3: "bm_update b [batch_put b a] = (None, b3)" "meta_calls bm_ops b3 cs = (None, b2)"
        by (auto simp: meta_call_update split: prod.splits option.splits)
      with Cons.IH [OF b3(2)] bm_update_view [OF Cons.prems(2) b3(1)] show ?case by simp
    qed simp
    ultimately show ?thesis using bm_update_view [OF assms(1) u]
      by (simp add: fun_eq_iff bm_Get_def bm_GetManifest_def bm_GetDirManifest_def flip: bm_view_def split: option.split)
  qed
  moreover have "e \<noteq> None \<longrightarrow> b1 = b" using u by (auto simp: bm_update_def split: sum.splits)
  ultimately show ?thesis using None by blast
qed

text \<open>A store of pairs that refuses the empty key, as bbolt does.\<close>

definition alist_kv :: "((meta_bucket \<times> string) \<times> byte list) list kv" where
  "alist_kv =
     \<lparr>KGet = (\<lambda>db b k. map_of db (b, k)),
      KUpdate = (\<lambda>db puts. if \<exists>(b, k, v) \<in> set puts. k = [] then Inl ''key required''
        else Inr (fold (\<lambda>(b, k, v). AList.update (b, k) v) puts db)),
      KKeys = (\<lambda>db b. map (\<lambda>((b, k), v). k) (filter (\<lambda>((b', k), v). b' = b) db))\<rparr>"

lemma alist_kv_ok: "kv_ok alist_kv"
proof -
  have "(\<lambda>b k. map_of (fold (\<lambda>(b, k, v). AList.update (b, k) v) puts db) (b, k)) = put_all puts (\<lambda>b k. map_of db (b, k))"
    for puts :: "(meta_bucket \<times> string \<times> byte list) list" and db
  proof (induction puts arbitrary: db)
    case (Cons p puts)
    obtain b k v where p: "p = (b, k, v)" by (cases p)
    have "(\<lambda>b' k'. map_of (AList.update (b, k) v db) (b', k')) = (\<lambda>b k. map_of db (b, k))(b := (\<lambda>k. map_of db (b, k))(k \<mapsto> v))"
      by (auto simp: fun_eq_iff)
    with Cons.IH [of "AList.update (b, k) v db"] p show ?case by (simp add: put_all_def)
  qed (simp add: put_all_def)
  moreover have "(\<lambda>((b, k), v). k) ` set (filter (\<lambda>((b', k), v). b' = b) db) = dom (\<lambda>k. map_of db (b, k))"
    for b :: meta_bucket and db :: "((meta_bucket \<times> string) \<times> byte list) list"
  proof (induction db)
    case (Cons e db)
    then show ?case by (cases e; cases "fst (fst e) = b") (auto simp: dom_def)
  qed simp
  ultimately show ?thesis by (auto simp: kv_ok_def alist_kv_def split: if_splits)
qed

definition demo_meta :: file_meta where
  "demo_meta = zero_meta\<lparr>MChunked := True\<rparr>"

definition demo_bolt :: "((meta_bucket \<times> string) \<times> byte list) list bolt_meta" where
  "demo_bolt = \<lparr>BMOps = alist_kv, BMMeta = demo_json demo_meta, BMManifest = demo_json undefined, BMData = []\<rparr>"

theorem batch_equals_calls_witness:
  "\<exists>b1 b2. bm_WithBatch demo_bolt [BatchSet ''k'' demo_meta, BatchSetDirManifest ''d'' [1]] None = (None, b1) \<and>
    meta_calls bm_ops demo_bolt [BatchSet ''k'' demo_meta, BatchSetDirManifest ''d'' [1]] = (None, b2) \<and>
    bm_Get b1 = bm_Get b2 \<and> bm_GetDirManifest b1 = bm_GetDirManifest b2 \<and> bm_GetDirManifest b1 ''d'' = Some [1]"
proof -
  let ?calls = "[BatchSet ''k'' demo_meta, BatchSetDirManifest ''d'' [1]]"
  obtain b1 where b1: "bm_WithBatch demo_bolt ?calls None = (None, b1)" "bm_GetDirManifest b1 ''d'' = Some [1]"
    by (simp add: bm_WithBatch_def bm_update_def demo_bolt_def alist_kv_def put_meta_def put_dir_def
        bm_GetDirManifest_def DirManifestKey_def)
  obtain b2 where b2: "meta_calls bm_ops demo_bolt ?calls = (None, b2)"
    by (simp add: bm_update_def demo_bolt_def alist_kv_def put_meta_def put_dir_def DirManifestKey_def
        bm_ops_def bm_Set_def bm_SetDirManifest_def)
  have "kv_ok (BMOps demo_bolt)" by (simp add: demo_bolt_def alist_kv_ok)
  from batch_equals_calls [OF this b1(1)] b1 b2 show ?thesis by blast
qed

section \<open>Content-addressed paths\<close>

definition cas_names :: "(byte list \<Rightarrow> byte list) \<Rightarrow> string \<Rightarrow> string list" where
  "cas_names sha256 key =
     map (\<lambda>i. take 5 (drop (i * 5) (hex_encode (sha256 (bytes_of key))))) [0..<length (hex_encode (sha256 (bytes_of key))) div 5]"

lemma pathname_CAS: "pathname (CASPathTransformFunc sha256 key) = join_path (cas_names sha256 key)"
  by (simp add: CASPathTransformFunc_def cas_names_def Let_def)

definition hex_char :: "char \<Rightarrow> bool" where
  "hex_char c \<longleftrightarrow> c \<noteq> CHR ''/'' \<and> c \<noteq> CHR ''.'' \<and> c \<noteq> CHR ''t'' \<and> c \<noteq> NUL"

lemma hex_digit_char: "d < 16 \<Longrightarrow> hex_char (hex_digit d)"
proof -
  assume "d < 16"
  moreover have "\<forall>d \<in> set [0..<16]. hex_char (hex_digit d)"
    by code_simp
  ultimately show ?thesis by simp
qed

lemma hex_encode_chars: "\<forall>c \<in> set (hex_encode bs). hex_char c"
proof (induction bs)
  case (Cons b bs)
  have "unat b div 16 < 16" using unat_byte_less [of b] by arith
  with Cons hex_digit_char [of "unat b div 16"] hex_digit_char [of "unat b mod 16"] show ?case by simp
qed simp

lemma hex_plain: "x \<noteq> [] \<Longrightarrow> \<forall>c \<in> set x. hex_char c \<Longrightarrow> plain_name x"
  by (cases x) (auto simp: plain_name_def hex_char_def)

lemma cas_names_plain:
  assumes "p \<in> set (cas_names sha256 key)"
  shows "plain_name p"
proof (rule hex_plain)
  let ?h = "hex_encode (sha256 (bytes_of key))"
  obtain i where i: "i < length ?h div 5" "p = take 5 (drop (i * 5) ?h)" using assms by (auto simp: cas_names_def)
  then have "i * 5 < length ?h" by linarith
  with i(2) show "p \<noteq> []" by simp
  show "\<forall>c \<in> set p. hex_char c"
    using hex_encode_chars [of "sha256 (bytes_of key)"] i(2) by (auto dest!: in_set_takeD in_set_dropD)
qed

definition cas_file :: "'m chunk_store \<Rightarrow> string \<Rightarrow> byte list \<Rightarrow> string" where
  "cas_file st key h = path_Join (path_Join (Root st) (pathname (PathTransformFunc st key))) (hex_encode h)"

lemma cas_path:
  assumes "r \<noteq> []" and "\<And>key. cas_names sha256 key \<noteq> []"
  obtains pre Z where "\<And>key x. plain_name x \<Longrightarrow>
      path_Join (path_Join r (pathname (CASPathTransformFunc sha256 key))) x = pre @ join_path (Z @ cas_names sha256 key @ [x])"
    and "\<forall>p \<in> set Z. CHR ''/'' \<notin> set p"
proof -
  let ?full = "\<lambda>key. path_Join r (pathname (CASPathTransformFunc sha256 key))"
  let ?root = "hd r = CHR ''/''"
  have pl: "\<forall>p \<in> set (cas_names sha256 key). plain_name p" for key using cas_names_plain by blast
  have full: "?full key = (if ?root then ''/'' else []) @ join_path (dir_parts r @ cas_names sha256 key)" for key
    unfolding pathname_CAS by (rule path_Join_names [OF assms(1) assms(2) pl])
  have sep: "\<forall>p \<in> set (dir_parts r @ cas_names sha256 key). CHR ''/'' \<notin> set p" for key
    using dir_parts_no_sep [of r] pl [of key] by (auto simp: plain_name_def)
  have ne: "\<forall>p \<in> set (dir_parts r @ cas_names sha256 key). p \<noteq> []" for key
    using clean_parts_nonempty [of "[]"] pl [of key] by (auto simp: dir_parts_def plain_name_def)
  have split: "split_at_char (CHR ''/'') (?full key) = (if ?root then [[]] else []) @ dir_parts r @ cas_names sha256 key" for key
    using split_join_path [OF _ sep [of key]] assms(2) by (simp add: full)
  have hd: "hd (?full key) = CHR ''/'' \<longleftrightarrow> ?root" for key
  proof (cases "dir_parts r @ cas_names sha256 key")
    case Nil
    then show ?thesis using assms(2) by simp
  next
    case (Cons p ps)
    then have "p \<noteq> [] \<and> CHR ''/'' \<notin> set p" using sep [of key] ne [of key] by simp
    then obtain c q where "p = c # q" "c \<noteq> CHR ''/''" by (cases p) auto
    then show ?thesis unfolding full Cons by (cases ps) simp_all
  qed
  define Z where "Z = clean_parts ?root [] ((if ?root then [[]] else []) @ dir_parts r)"
  have snoc: "clean_parts b st (qs @ ps) = clean_parts b st qs @ ps" if "\<forall>p \<in> set ps. plain_name p" for b st qs ps
    using that by (induction ps rule: rev_induct) (simp_all add: clean_parts_plain flip: append_assoc)
  have Z: "dir_parts (?full key) = Z @ cas_names sha256 key" for key
    using snoc [OF pl [of key]] by (simp add: dir_parts_def [of "?full key"] hd split Z_def flip: append_assoc)
  have "path_Join (?full key) x = (if ?root then ''/'' else []) @ join_path (Z @ cas_names sha256 key @ [x])"
    if "plain_name x" for key x
  proof -
    have "?full key \<noteq> []" by (simp add: path_Join_def assms(1))
    from path_Join_names [OF this, of "[x]"] that show ?thesis by (simp add: hd Z)
  qed
  moreover have "\<forall>p \<in> set Z. CHR ''/'' \<notin> set p"
    unfolding Z_def using dir_parts_no_sep [of r] by (intro clean_parts_all) auto
  ultimately show thesis using that by blast
qed

text \<open>The paths of different names or directories differ.\<close>

lemma cas_path_inject:
  assumes "r \<noteq> []" and "\<And>key. cas_names sha256 key \<noteq> []" and "plain_name x" and "plain_name y"
    and "path_Join (path_Join r (pathname (CASPathTransformFunc sha256 k))) x =
      path_Join (path_Join r (pathname (CASPathTransformFunc sha256 k'))) y"
  shows "x = y \<and> pathname (CASPathTransformFunc sha256 k) = pathname (CASPathTransformFunc sha256 k')"
proof -
  obtain pre Z where p: "\<And>key x. plain_name x \<Longrightarrow>
      path_Join (path_Join r (pathname (CASPathTransformFunc sha256 key))) x = pre @ join_path (Z @ cas_names sha256 key @ [x])"
    and Z: "\<forall>p \<in> set Z. CHR ''/'' \<notin> set p"
    by (rule cas_path [OF assms(1,2)]) blast
  have sep: "\<forall>p \<in> set (Z @ cas_names sha256 j @ [z]). CHR ''/'' \<notin> set p" if "plain_name z" for j z
    using Z cas_names_plain that by (auto simp: plain_name_def)
  have "Z @ cas_names sha256 k @ [x] = Z @ cas_names sha256 k' @ [y]"
    using assms(5) sep [OF assms(3), of k] sep [OF assms(4), of k'] unfolding p [OF assms(3)] p [OF assms(4)]
    by (intro join_path_inject) auto
  then show ?thesis by (simp add: pathname_CAS)
qed

section \<open>The store implements a map\<close>

definition stored_content :: "'m chunk_store \<Rightarrow> 'm \<Rightarrow> os \<Rightarrow> string \<Rightarrow> byte list option" where
  "stored_content st m s key = (case ReadStream st key m s of Inl e \<Rightarrow> None | Inr data \<Rightarrow> Some data)"

text \<open>Every path in the metadata is one \<open>WriteStream\<close> has given to its key.\<close>

definition placed :: "'m chunk_store \<Rightarrow> 'm \<Rightarrow> bool" where
  "placed st m \<longleftrightarrow> (\<forall>k fm. MGet (Metadata st) m k = Some fm \<longrightarrow>
     MPath fm = [] \<or> (\<exists>h. length h = 16 \<and> MPath fm = cas_file st k h))"

lemma length_filter_names: "length (sha256 (bytes_of key)) = 32 \<Longrightarrow> cas_names sha256 key \<noteq> []"
  by (simp add: cas_names_def upt_conv_Cons)

lemma md5_plain: "length h = 16 \<Longrightarrow> plain_name (hex_encode h)"
  using hex_encode_chars [of h] by (intro hex_plain) (cases h, auto)

lemma temp_plain: "CHR ''/'' \<notin> set rnd \<Longrightarrow> plain_name (''temp-'' @ rnd)"
  by (simp add: plain_name_def)

lemma temp_not_hex: "''temp-'' @ rnd \<noteq> hex_encode h"
  using hex_encode_chars [of h] by (metis append_Cons hex_char_def list.set_intros(1))

context metadata_store
begin

lemma store_put:
  assumes ops: "Metadata st = ops" and r: "Root st \<noteq> []" and cas: "PathTransformFunc st = CASPathTransformFunc sha256"
    and sha: "\<And>x. length (sha256 x) = 32" and md: "\<And>x. length (md5 x) = 16" and rnd: "CHR ''/'' \<notin> set rnd"
    and fresh: "Files s (path_Join (path_Join (Root st) (pathname (PathTransformFunc st key))) (''temp-'' @ rnd)) = None"
    and pl: "placed st m"
    and coll: "\<And>k. MGet ops m k \<noteq> None \<Longrightarrow> pathname (CASPathTransformFunc sha256 k) = pathname (CASPathTransformFunc sha256 key) \<Longrightarrow> k = key"
    and inv: "inv m"
    and okm: "ok_meta m ((case MGet ops m key of None \<Rightarrow> zero_meta | Some fm \<Rightarrow> fm)\<lparr>MPath := stream_path md5 st key data\<rparr>)"
    and wr: "WriteStream md5 rnd st key (Some data) m s = (Inr n, m', s')"
    and rd: "\<not> refuses s OpRead (stream_path md5 st key data)"
  shows "n = length data \<and> placed st m' \<and> stored_content st m' s' = (stored_content st m s)(key \<mapsto> data) \<and> inv m'"
proof -
  let ?final = "stream_path md5 st key data"
  have names: "\<And>k. cas_names sha256 k \<noteq> []" using length_filter_names sha by blast
  note inj = cas_path_inject [OF r names]
  have fin: "?final = cas_file st key (md5 data)" by (simp add: stream_path_def cas_file_def)
  have "path_Join (path_Join (Root st) (pathname (PathTransformFunc st key))) (''temp-'' @ rnd) \<noteq> ?final"
    unfolding stream_path_def cas
    using inj [OF temp_plain [OF rnd] md5_plain [OF md]] temp_not_hex by blast
  from WriteStream_ok [OF ops inv wr okm this fresh] obtain fm where
    w: "n = length data" "inv m'" "MGet ops m' key = Some (fm\<lparr>MPath := ?final\<rparr>)"
      "\<And>k. k \<noteq> key \<Longrightarrow> MGet ops m' k = MGet ops m k" "Files s' = (Files s)(?final \<mapsto> data)" "Denied s' = Denied s"
    by blast
  have den: "refuses s' = refuses s" using w(6) by (simp add: refuses_def fun_eq_iff)
  have place: "placed st m'"
    unfolding placed_def ops
  proof (intro allI impI)
    fix k f
    assume g: "MGet ops m' k = Some f"
    show "MPath f = [] \<or> (\<exists>h. length h = 16 \<and> MPath f = cas_file st k h)"
    proof (cases "k = key")
      case True
      then have "MPath f = cas_file st k (md5 data)" using g w(3) fin by auto
      then show ?thesis using md by blast
    next
      case False
      then show ?thesis using g w(4) pl by (simp add: placed_def ops)
    qed
  qed
  have other: "stored_content st m' s' k = stored_content st m s k" if k: "k \<noteq> key" for k
  proof (cases "MGet ops m k")
    case None
    then show ?thesis using w(4) [OF k] by (simp add: stored_content_def ReadStream_def ops)
  next
    case (Some f)
    have "MPath f \<noteq> ?final"
    proof (cases "MPath f = []")
      case True
      moreover have "?final \<noteq> []" by (simp add: stream_path_def path_Join_def r)
      ultimately show ?thesis by simp
    next
      case False
      then obtain h where h: "length h = 16" "MPath f = cas_file st k h" using pl Some by (auto simp: placed_def ops)
      show ?thesis
      proof
        assume "MPath f = ?final"
        then have "pathname (CASPathTransformFunc sha256 k) = pathname (CASPathTransformFunc sha256 key)"
          using inj [OF md5_plain [OF h(1)] md5_plain [OF md]] h(2) by (simp add: stream_path_def cas_file_def cas)
        then show False using coll Some k by blast
      qed
    qed
    then show ?thesis using Some w(4) [OF k] w(5) den by (simp add: stored_content_def ReadStream_def ops os_ReadFile_def)
  qed
  have "stored_content st m' s' key = Some data"
    using w(3,5) rd den by (simp add: stored_content_def ReadStream_def ops os_ReadFile_def)
  with other place w(1,2) show ?thesis by (auto simp: fun_eq_iff)
qed

end

text \<open>C21. The local store over bbolt, with content-addressed paths, implements a map from keys to contents:
  a successful \<open>WriteStream\<close> returns the number of bytes, makes exactly its key read as the content that
  was streamed, and keeps every path where its key expects it. Hypotheses: bbolt and the JSON codec keep
  what they are given, the digests have their lengths, no stored key collides with this one in the first
  sixty digits of SHA-256, and the temporary name is fresh.\<close>

theorem store_refines_map:
  assumes "kv_ok (BMOps m)" and "st = NewStore (Some (CASPathTransformFunc sha256)) bm_ops r"
    and "\<And>x. length (sha256 x) = 32" and "\<And>x. length (md5 x) = 16"
    and "CHR ''/'' \<notin> set rnd"
    and "Files s (path_Join (path_Join (Root st) (pathname (CASPathTransformFunc sha256 key))) (''temp-'' @ rnd)) = None"
    and "placed st m"
    and "\<And>k. bm_Get m k \<noteq> None \<Longrightarrow> pathname (CASPathTransformFunc sha256 k) = pathname (CASPathTransformFunc sha256 key) \<Longrightarrow> k = key"
    and "json_ok (BMMeta m) ((case bm_Get m key of None \<Rightarrow> zero_meta | Some fm \<Rightarrow> fm)\<lparr>MPath := stream_path md5 st key data\<rparr>)"
    and "WriteStream md5 rnd st key (Some data) m s = (Inr n, m', s')"
    and "\<not> refuses s OpRead (stream_path md5 st key data)"
  shows "n = length data \<and> placed st m' \<and> stored_content st m' s' = (stored_content st m s)(key \<mapsto> data)"
  using bolt_store.store_put [of st sha256 md5 rnd s key m data n m' s'] assms
  by (simp add: NewStore_def bm_ops_def)

definition demo_sha :: "byte list \<Rightarrow> byte list" where
  "demo_sha x = replicate 32 0"

definition demo_md5 :: "byte list \<Rightarrow> byte list" where
  "demo_md5 x = replicate 16 0"

lemma demo_paths:
  "stream_path demo_md5 (NewStore (Some (CASPathTransformFunc demo_sha)) bm_ops ''R'') ''k'' [7] =
     ''R/00000/00000/00000/00000/00000/00000/00000/00000/00000/00000/00000/00000/00000000000000000000000000000000''"
  "path_Join ''R'' (pathname (CASPathTransformFunc demo_sha ''k'')) =
     ''R/00000/00000/00000/00000/00000/00000/00000/00000/00000/00000/00000/00000''"
  "path_Join ''R/00000/00000/00000/00000/00000/00000/00000/00000/00000/00000/00000/00000'' ''temp-1'' =
     ''R/00000/00000/00000/00000/00000/00000/00000/00000/00000/00000/00000/00000/temp-1''"
  by (code_simp, code_simp, code_simp)

theorem store_refines_map_witness:
  "\<exists>(m :: ((meta_bucket \<times> string) \<times> byte list) list bolt_meta) m' s'. WriteStream demo_md5 ''1'' (NewStore (Some (CASPathTransformFunc demo_sha)) bm_ops ''R'') ''k'' (Some [7]) m no_files
      = (Inr 1, m', s') \<and>
    stored_content (NewStore (Some (CASPathTransformFunc demo_sha)) (bm_ops :: ((meta_bucket \<times> string) \<times> byte list) list bolt_meta meta_ops) ''R'')
      m' s' ''k'' = Some [7]"
proof -
  let ?st = "NewStore (Some (CASPathTransformFunc demo_sha)) (bm_ops :: ((meta_bucket \<times> string) \<times> byte list) list bolt_meta meta_ops) ''R''"
  define fm where "fm = zero_meta\<lparr>MPath := stream_path demo_md5 ?st ''k'' [7]\<rparr>"
  define m where "m = \<lparr>BMOps = alist_kv, BMMeta = demo_json fm, BMManifest = demo_json undefined, BMData = []\<rparr>"
  have sel: "Root ?st = ''R''" "PathTransformFunc ?st = CASPathTransformFunc demo_sha" "Metadata ?st = bm_ops"
    by (simp_all add: NewStore_def)
  have get: "bm_Get m k = None" for k by (simp add: bm_Get_def m_def alist_kv_def)
  have mg: "MGet bm_ops = bm_Get" "MSet bm_ops = bm_Set" by (simp_all add: bm_ops_def)
  have empty: "MGet bm_ops m k = None" for k using get [of k] by (simp add: bm_ops_def)
  have st: "stream_path demo_md5 ?st ''k'' [7] =
     ''R/00000/00000/00000/00000/00000/00000/00000/00000/00000/00000/00000/00000/00000000000000000000000000000000''"
    by (rule demo_paths(1))
  obtain m' where m': "bm_Set m ''k'' fm = (None, m')"
    by (simp add: bm_Set_def bm_update_def m_def alist_kv_def put_meta_def)
  obtain s' where s': "SafeRename ''R/00000/00000/00000/00000/00000/00000/00000/00000/00000/00000/00000/00000/temp-1''
      (stream_path demo_md5 ?st ''k'' [7])
      (set_file ''R/00000/00000/00000/00000/00000/00000/00000/00000/00000/00000/00000/00000/temp-1'' [7] no_files) = (None, s')"
    unfolding st by (simp add: SafeRename_def os_exists_def no_files_def os_Rename_def refuses_def NUL_def)
  have wr: "WriteStream demo_md5 ''1'' ?st ''k'' (Some [7]) m no_files = (Inr 1, m', s')"
    using s' m' by (simp add: WriteStream_def sel demo_paths(2,3) NUL_def get Let_def fm_def mg)
  have kv: "kv_ok (BMOps m)" by (simp add: m_def alist_kv_ok)
  have fr: "Files no_files (path_Join (path_Join (Root ?st) (pathname (CASPathTransformFunc demo_sha ''k''))) (''temp-'' @ ''1'')) = None"
    by (simp add: no_files_def)
  have "1 = length [7 :: byte] \<and> placed ?st m' \<and> stored_content ?st m' s' = (stored_content ?st m no_files)(''k'' \<mapsto> [7])"
  proof (rule store_refines_map [OF kv refl _ _ _ fr _ _ _ wr])
    show "placed ?st m" by (simp add: placed_def sel empty)
    show "json_ok (BMMeta m) ((case bm_Get m ''k'' of None \<Rightarrow> zero_meta | Some fm \<Rightarrow> fm)\<lparr>MPath := stream_path demo_md5 ?st ''k'' [7]\<rparr>)"
      using demo_json_line [of fm] unfolding get option.case fm_def [symmetric]
      by (simp add: m_def json_ok_def json_line_def)
    show "\<not> refuses no_files OpRead (stream_path demo_md5 ?st ''k'' [7])" unfolding st by (simp add: NUL_def)
  qed (simp_all add: demo_sha_def demo_md5_def get)
  then have "stored_content ?st m' s' ''k'' = Some [7]" by simp
  with wr show ?thesis by blast
qed

text \<open>Manifests and directory manifests share one bucket, so a chunk manifest whose key starts with
  \<open>dirmanifest:\<close> replaces the directory manifest of the rest of that key.\<close>

lemma manifest_replaces_dir_manifest:
  assumes "kv_ok (BMOps b)" and "bm_SetManifest b (DirManifestKey k) x = (None, b')"
  shows "bm_GetDirManifest b' k = Some (bytes_of (jMarshal (BMManifest b) x))"
  using bm_update_view [OF assms(1)] assms(2)
  by (simp add: bm_SetManifest_def put_manifest_def bm_GetDirManifest_def flip: bm_view_def)

end
