(* ===== verification/Selector.thy ===== *)
theory Selector
  imports Prelude
begin

text \<open>
  Peer selection by latency, \<open>Cluster/selector/selector.go\<close>. \<open>float64\<close> values are real numbers.
  \<open>getOrCreate\<close> inserts a default entry for an unknown peer, so every operation that calls it
  returns the changed selector. \<open>BestPeer\<close> is \<open>None\<close> when it reports no peer. The laws the
  downloader relies on are the locale \<open>peer_picker\<close>.
\<close>

record peer_lat =
  ewma :: real
  activeDownloads :: int

record selector =
  peers :: "(string, peer_lat) gomap"

definition alpha :: real where
  "alpha = 1 / 5"

definition initialLatency :: int where
  "initialLatency = 50 * 10 ^ 6"

definition busyPenaltyFactor :: real where
  "busyPenaltyFactor = 1 / 2"

text \<open>\<open>math.MaxFloat64\<close>\<close>

definition maxFloat :: real where
  "maxFloat = (2 - 1 / 2 ^ 52) * 2 ^ 1023"

definition sel_New :: selector where
  "sel_New = \<lparr>peers = []\<rparr>"

definition getOrCreate :: "string \<Rightarrow> selector \<Rightarrow> selector \<times> peer_lat" where
  "getOrCreate addr s =
     (case map_of (peers s) addr of
        Some st \<Rightarrow> (s, st)
      | None \<Rightarrow>
          (let st = \<lparr>ewma = real_of_int initialLatency, activeDownloads = 0\<rparr>
           in (s\<lparr>peers := AList.update addr st (peers s)\<rparr>, st)))"

text \<open>A write through the pointer \<open>getOrCreate\<close> returned.\<close>

definition put_peer :: "string \<Rightarrow> peer_lat \<Rightarrow> selector \<Rightarrow> selector" where
  "put_peer addr st s = s\<lparr>peers := AList.update addr st (peers s)\<rparr>"

definition sel_RecordLatency :: "string \<Rightarrow> int \<Rightarrow> selector \<Rightarrow> selector" where
  "sel_RecordLatency addr d s =
     (let (s, st) = getOrCreate addr s
      in put_peer addr (st\<lparr>ewma := alpha * real_of_int d + (1 - alpha) * ewma st\<rparr>) s)"

definition sel_BeginDownload :: "string \<Rightarrow> selector \<Rightarrow> selector" where
  "sel_BeginDownload addr s =
     (let (s, st) = getOrCreate addr s
      in put_peer addr (st\<lparr>activeDownloads := activeDownloads st + 1\<rparr>) s)"

definition sel_EndDownload :: "string \<Rightarrow> selector \<Rightarrow> selector" where
  "sel_EndDownload addr s =
     (let (s, st) = getOrCreate addr s
      in if activeDownloads st > 0 then put_peer addr (st\<lparr>activeDownloads := activeDownloads st - 1\<rparr>) s
         else s)"

definition sel_score :: "string \<Rightarrow> selector \<Rightarrow> selector \<times> real" where
  "sel_score addr s =
     (let (s, st) = getOrCreate addr s;
          penalty = 1 + busyPenaltyFactor * real_of_int (activeDownloads st)
      in (s, ewma st * penalty))"

fun best_loop :: "string \<Rightarrow> real \<Rightarrow> string list \<Rightarrow> selector \<Rightarrow> selector \<times> string" where
  "best_loop best bestScore [] s = (s, best)"
| "best_loop best bestScore (addr # addrs) s =
     (let (s, sc) = sel_score addr s
      in if sc < bestScore then best_loop addr sc addrs s else best_loop best bestScore addrs s)"

definition sel_BestPeer :: "string list \<Rightarrow> selector \<Rightarrow> selector \<times> string option" where
  "sel_BestPeer candidates s =
     (if candidates = [] then (s, None)
      else
        (let (s, best) = best_loop [] maxFloat candidates s
         in (s, if best \<noteq> [] then Some best else None)))"

text \<open>The conversion to a duration truncates towards zero.\<close>

definition sel_Latency :: "string \<Rightarrow> selector \<Rightarrow> selector \<times> int" where
  "sel_Latency addr s =
     (let (s, st) = getOrCreate addr s
      in (s, if ewma st \<ge> 0 then \<lfloor>ewma st\<rfloor> else \<lceil>ewma st\<rceil>))"

definition sel_ActiveDownloads :: "string \<Rightarrow> selector \<Rightarrow> selector \<times> int" where
  "sel_ActiveDownloads addr s = (let (s, st) = getOrCreate addr s in (s, activeDownloads st))"

section \<open>Scores\<close>

text \<open>The entry of a peer, with the default for an unknown one.\<close>

definition entry_of :: "selector \<Rightarrow> string \<Rightarrow> peer_lat" where
  "entry_of s addr = go_get \<lparr>ewma = real_of_int initialLatency, activeDownloads = 0\<rparr> (peers s) addr"

definition score_of :: "selector \<Rightarrow> string \<Rightarrow> real" where
  "score_of s addr = ewma (entry_of s addr) * (1 + busyPenaltyFactor * real_of_int (activeDownloads (entry_of s addr)))"

lemma getOrCreate_entry:
  "snd (getOrCreate addr s) = entry_of s addr" "entry_of (fst (getOrCreate addr s)) = entry_of s"
  by (auto simp: getOrCreate_def entry_of_def go_get_def Let_def fun_eq_iff split: option.split)

lemma entry_of_put [simp]: "entry_of (put_peer addr st s) = (entry_of s)(addr := st)"
  by (auto simp: put_peer_def entry_of_def)

lemma sel_score_eq: "snd (sel_score addr s) = score_of s addr" "entry_of (fst (sel_score addr s)) = entry_of s"
  using getOrCreate_entry [of addr s] by (auto simp: sel_score_def score_of_def Let_def split: prod.split)

lemma best_loop_spec:
  "entry_of (fst (best_loop b sc addrs s)) = entry_of s \<and>
   (let r = snd (best_loop b sc addrs s) in
      (r = b \<and> (\<forall>a \<in> set addrs. sc \<le> score_of s a)) \<or>
      (r \<in> set addrs \<and> score_of s r < sc \<and> (\<forall>a \<in> set addrs. score_of s r \<le> score_of s a)))"
proof (induction addrs arbitrary: b sc s)
  case (Cons a addrs)
  obtain s' x where sc: "sel_score a s = (s', x)" by (cases "sel_score a s")
  have x: "x = score_of s a" "entry_of s' = entry_of s" using sel_score_eq [of a s] by (simp_all add: sc)
  have same: "score_of s' = score_of s" by (rule ext) (simp add: score_of_def x(2))
  show ?case
    using Cons.IH [of a x s'] Cons.IH [of b sc s'] x same
    by (cases "x < sc") (auto simp: sc Let_def)
qed simp

lemma entry_of_Begin: "entry_of (sel_BeginDownload a s) =
    (entry_of s)(a := (entry_of s a)\<lparr>activeDownloads := activeDownloads (entry_of s a) + 1\<rparr>)"
  using getOrCreate_entry [of a s] by (auto simp: sel_BeginDownload_def split: prod.split)

lemma entry_of_End: "entry_of (sel_EndDownload a s) =
    (if activeDownloads (entry_of s a) > 0
     then (entry_of s)(a := (entry_of s a)\<lparr>activeDownloads := activeDownloads (entry_of s a) - 1\<rparr>)
     else entry_of s)"
  using getOrCreate_entry [of a s] by (auto simp: sel_EndDownload_def split: prod.split)

lemma entry_of_Record: "entry_of (sel_RecordLatency a d s) =
    (entry_of s)(a := (entry_of s a)\<lparr>ewma := alpha * real_of_int d + (1 - alpha) * ewma (entry_of s a)\<rparr>)"
  using getOrCreate_entry [of a s] by (auto simp: sel_RecordLatency_def split: prod.split)

lemma entry_of_Best: "entry_of (fst (sel_BestPeer cs s)) = entry_of s"
  using best_loop_spec [of "[]" maxFloat cs s] by (auto simp: sel_BestPeer_def Let_def split: prod.splits)

section \<open>The picker interface\<close>

text \<open>A picker chooses one of the usable candidates, and finds one when there is one.\<close>

locale peer_picker =
  fixes usable :: "'s \<Rightarrow> string \<Rightarrow> bool"
    and pick :: "string list \<Rightarrow> 's \<Rightarrow> 's \<times> string option"
  assumes pick_member: "snd (pick cs s) = Some p \<Longrightarrow> p \<in> set cs"
    and pick_some: "c \<in> set cs \<Longrightarrow> usable s c \<Longrightarrow> (\<forall>d \<in> set cs. d \<noteq> []) \<Longrightarrow> snd (pick cs s) \<noteq> None"
begin

lemma pick_none: "snd (pick cs s) = None \<Longrightarrow> \<forall>d \<in> set cs. d \<noteq> [] \<Longrightarrow> \<forall>c \<in> set cs. \<not> usable s c"
  using pick_some by blast

lemma pick_removes: "snd (pick cs s) = Some p \<Longrightarrow> length (removeAll p cs) < length cs"
  using pick_member length_removeAll_less by metis

end

lemma BestPeer_spec:
  "snd (sel_BestPeer cs s) = Some p \<Longrightarrow> p \<in> set cs \<and> (\<forall>c \<in> set cs. score_of s p \<le> score_of s c)"
  using best_loop_spec [of "[]" maxFloat cs s]
  by (auto simp: sel_BestPeer_def Let_def split: prod.splits if_splits)

lemma BestPeer_finds:
  "c \<in> set cs \<Longrightarrow> score_of s c < maxFloat \<Longrightarrow> \<forall>d \<in> set cs. d \<noteq> [] \<Longrightarrow> snd (sel_BestPeer cs s) \<noteq> None"
  using best_loop_spec [of "[]" maxFloat cs s]
  by (auto simp: sel_BestPeer_def Let_def split: prod.splits if_splits)

interpretation sel: peer_picker "\<lambda>s c. score_of s c < maxFloat" sel_BestPeer
  by unfold_locales (simp_all add: BestPeer_spec BestPeer_finds)

section \<open>Properties\<close>

text \<open>\<open>BestPeer\<close> returns a candidate of minimal score, the latency average weighted by the number of
  active downloads, without changing any score; with candidates whose names are not empty it fails
  only when no candidate has a score below the largest double.\<close>

lemma BestPeer_minimal:
  assumes "\<forall>c \<in> set cs. c \<noteq> []"
  shows "score_of (fst (sel_BestPeer cs s)) = score_of s \<and>
    (case snd (sel_BestPeer cs s) of
       None \<Rightarrow> \<forall>c \<in> set cs. maxFloat \<le> score_of s c
     | Some p \<Rightarrow> p \<in> set cs \<and> (\<forall>c \<in> set cs. score_of s p \<le> score_of s c))"
proof
  show "score_of (fst (sel_BestPeer cs s)) = score_of s"
    by (rule ext) (simp add: score_of_def entry_of_Best)
  show "case snd (sel_BestPeer cs s) of
       None \<Rightarrow> \<forall>c \<in> set cs. maxFloat \<le> score_of s c
     | Some p \<Rightarrow> p \<in> set cs \<and> (\<forall>c \<in> set cs. score_of s p \<le> score_of s c)"
    using sel.pick_none [of cs s] BestPeer_spec [of cs s] assms
    by (auto simp: not_less split: option.split)
qed

theorem BestPeer_minimal_witness:
  "snd (sel_BestPeer [''a'', ''b''] (sel_RecordLatency ''b'' 0 sel_New)) = Some ''b''"
proof -
  let ?s = "sel_RecordLatency ''b'' 0 sel_New"
  have e: "score_of ?s ''a'' = 50 * 10 ^ 6" "score_of ?s ''b'' = 40 * 10 ^ 6"
    by (simp_all add: score_of_def entry_of_Record) (simp_all add: entry_of_def sel_New_def go_get_def initialLatency_def alpha_def)
  have "\<not> maxFloat \<le> 40 * 10 ^ 6"
  proof -
    have "(40 * 10 ^ 6 :: real) < 2 ^ 64" by simp
    also have "\<dots> \<le> 2 ^ 1023" by (rule power_increasing) simp_all
    also have "\<dots> \<le> maxFloat" by (simp add: maxFloat_def)
    finally show ?thesis by simp
  qed
  then show ?thesis using BestPeer_minimal [of "[''a'', ''b'']" ?s] e by (auto split: option.splits)
qed

end
