(* ===== verification/Downloader.thy ===== *)
theory Downloader
  imports Chunker Selector
begin

text \<open>
  The parallel downloader, \<open>Server/downloader/downloader.go\<close>. The network fetch, the decryption, the
  zstd decompression, the peer lists and the clock are the fields of \<open>dl_env\<close>, and \<open>sha256\<close> is a
  parameter; what they return for an attempt is arbitrary. The peers are chosen by the selector of
  \<open>Selector\<close>, which other goroutines may change between attempts (\<open>others\<close>). Goroutines of a download touch disjoint slots, so
  a download is given the order in which its workers finish.
\<close>

record config =
  MaxParallel :: int
  MaxParallelDir :: int
  ChunkTimeout :: int
  MaxRetries :: int

definition DefaultConfig :: config where
  "DefaultConfig = \<lparr>MaxParallel = 4, MaxParallelDir = 4, ChunkTimeout = 120 * 10 ^ 9, MaxRetries = 3\<rparr>"

text \<open>The configuration \<open>New\<close> stores.\<close>

definition New_cfg :: "config \<Rightarrow> config" where
  "New_cfg cfg =
     \<lparr>MaxParallel = (if MaxParallel cfg \<le> 0 then MaxParallel DefaultConfig else MaxParallel cfg),
      MaxParallelDir = (if MaxParallelDir cfg \<le> 0 then MaxParallelDir DefaultConfig else MaxParallelDir cfg),
      ChunkTimeout = (if ChunkTimeout cfg \<le> 0 then ChunkTimeout DefaultConfig else ChunkTimeout cfg),
      MaxRetries = (if MaxRetries cfg \<le> 0 then MaxRetries DefaultConfig else MaxRetries cfg)\<rparr>"

datatype dl_error =
  FetchFrom string string
| DecryptFrom string string
| DecompressFrom string string
| IntegrityFail int string string string
| NoPeers int string
| WriteAtFail nat int
| WriteFail nat
| ReassembleFail reassemble_error
| ChunkFail nat dl_error
| RootMismatch string

text \<open>\<open>fetch n fileKey index storageKey peer\<close> is what attempt \<open>n\<close> gets and how long it takes; the
  deadline of the attempt is part of it.\<close>

record dl_env =
  fetch :: "nat \<Rightarrow> string \<Rightarrow> int \<Rightarrow> string \<Rightarrow> string \<Rightarrow> int \<times> (string + byte list)"
  decrypt :: "string \<Rightarrow> int \<Rightarrow> byte list \<Rightarrow> byte list option \<Rightarrow> string + byte list"
  decompress :: "byte list \<Rightarrow> string + byte list"
  getPeers :: "string \<Rightarrow> int \<Rightarrow> string \<Rightarrow> string list"
  others :: "nat \<Rightarrow> selector \<Rightarrow> selector"

section \<open>One chunk\<close>

text \<open>Decryption, decompression and the check of the hash, on the bytes a peer sent.\<close>

definition open_chunk ::
  "(byte list \<Rightarrow> byte list) \<Rightarrow> dl_env \<Rightarrow> chunk_info \<Rightarrow> byte list option \<Rightarrow> string \<Rightarrow> byte list \<Rightarrow> dl_error + byte list" where
  "open_chunk sha256 env info dek peer encData =
     (case decrypt env (ChunkStorageKey (IEncHash info)) (IIndex info) encData dek of
        Inl e \<Rightarrow> Inl (DecryptFrom peer e)
      | Inr plain \<Rightarrow>
          (case (if ICompressed info then decompress env plain else Inr plain) of
             Inl e \<Rightarrow> Inl (DecompressFrom peer e)
           | Inr plain \<Rightarrow>
               (let gotHex = hex_encode (sha256 plain)
                in if gotHex \<noteq> IHash info then Inl (IntegrityFail (IIndex info) peer (IHash info) gotHex)
                   else Inr plain)))"

definition is_integrity :: "dl_error \<Rightarrow> bool" where
  "is_integrity e = (case e of IntegrityFail i p w g \<Rightarrow> True | _ \<Rightarrow> False)"

text \<open>One attempt at one peer: the bookkeeping in the selector around the fetch, and the ten minutes a
  peer with bad data is charged.\<close>

definition try_peer ::
  "(byte list \<Rightarrow> byte list) \<Rightarrow> dl_env \<Rightarrow> string \<Rightarrow> chunk_info \<Rightarrow> byte list option \<Rightarrow> nat \<Rightarrow> string \<Rightarrow> selector
    \<Rightarrow> selector \<times> (dl_error + byte list)" where
  "try_peer sha256 env fileKey info dek attempt peer s =
     (let s = sel_BeginDownload peer s;
          (elapsed, res) = fetch env attempt fileKey (IIndex info) (ChunkStorageKey (IEncHash info)) peer;
          s = sel_RecordLatency peer elapsed (sel_EndDownload peer s)
      in case res of
           Inl e \<Rightarrow> (s, Inl (FetchFrom peer e))
         | Inr encData \<Rightarrow>
             (case open_chunk sha256 env info dek peer encData of
                Inl e \<Rightarrow> (if is_integrity e then sel_RecordLatency peer (10 * 60 * 10 ^ 9) s else s, Inl e)
              | Inr plain \<Rightarrow> (s, Inr plain)))"

definition no_result :: "chunk_info \<Rightarrow> dl_error option \<Rightarrow> dl_error + byte list" where
  "no_result info lastErr = (case lastErr of
     Some e \<Rightarrow> Inl e
   | None \<Rightarrow> Inl (NoPeers (IIndex info) (ChunkStorageKey (IEncHash info))))"

text \<open>The retry loop with \<open>left\<close> attempts to go; \<open>tried\<close> holds the peers tried, newest first.\<close>

fun fetch_loop ::
  "(byte list \<Rightarrow> byte list) \<Rightarrow> dl_env \<Rightarrow> string \<Rightarrow> chunk_info \<Rightarrow> byte list option \<Rightarrow> string list \<Rightarrow> nat \<Rightarrow> nat \<Rightarrow> string list
    \<Rightarrow> dl_error option \<Rightarrow> selector \<Rightarrow> (dl_error + byte list) \<times> string list \<times> selector" where
  "fetch_loop sha256 env fileKey info dek candidates 0 attempt tried lastErr s = (no_result info lastErr, tried, s)"
| "fetch_loop sha256 env fileKey info dek candidates (Suc left) attempt tried lastErr s =
     (let avail = filter (\<lambda>p. p \<notin> set tried) candidates
      in if avail = [] then (no_result info lastErr, tried, s)
         else
           (let (s, best) = sel_BestPeer avail (others env attempt s)
            in case best of
                 None \<Rightarrow> (no_result info lastErr, tried, s)
               | Some peer \<Rightarrow>
                   (let (s, res) = try_peer sha256 env fileKey info dek attempt peer s
                    in case res of
                         Inr plain \<Rightarrow> (Inr plain, peer # tried, s)
                       | Inl e \<Rightarrow>
                           fetch_loop sha256 env fileKey info dek candidates left (attempt + 1) (peer # tried)
                             (Some e) s)))"

definition fetchAndVerifyChunk ::
  "config \<Rightarrow> (byte list \<Rightarrow> byte list) \<Rightarrow> dl_env \<Rightarrow> string \<Rightarrow> chunk_info \<Rightarrow> byte list option \<Rightarrow> selector
    \<Rightarrow> (dl_error + byte list) \<times> string list \<times> selector" where
  "fetchAndVerifyChunk cfg sha256 env fileKey info dek s =
     fetch_loop sha256 env fileKey info dek (getPeers env fileKey (IIndex info) (ChunkStorageKey (IEncHash info)))
       (nat (MaxRetries cfg + 1)) 0 [] None s"


section \<open>What an attempt leaves\<close>

text \<open>Attempt \<open>n\<close> at a peer gets the bytes it wants, or an error.\<close>

definition attempt ::
  "(byte list \<Rightarrow> byte list) \<Rightarrow> dl_env \<Rightarrow> string \<Rightarrow> chunk_info \<Rightarrow> byte list option \<Rightarrow> nat \<Rightarrow> string \<Rightarrow> dl_error + byte list" where
  "attempt sha256 env fileKey info dek n peer =
     (case snd (fetch env n fileKey (IIndex info) (ChunkStorageKey (IEncHash info)) peer) of
        Inl e \<Rightarrow> Inl (FetchFrom peer e)
      | Inr encData \<Rightarrow> open_chunk sha256 env info dek peer encData)"

lemma try_peer_result: "snd (try_peer sha256 env fileKey info dek n peer s) = attempt sha256 env fileKey info dek n peer"
  by (simp add: try_peer_def attempt_def Let_def split: prod.split sum.split)

lemma attempt_verified:
  "attempt sha256 env fileKey info dek n peer = Inr plain \<Longrightarrow> hex_encode (sha256 plain) = IHash info"
  by (auto simp: attempt_def open_chunk_def Let_def split: sum.splits if_splits)

text \<open>Latencies fit a \<open>time.Duration\<close> and the download counts are sane: then no score overflows.\<close>

definition sel_sane :: "selector \<Rightarrow> bool" where
  "sel_sane s \<longleftrightarrow> (\<forall>p. ewma (entry_of s p) \<le> 2 ^ 63 \<and> 0 \<le> activeDownloads (entry_of s p) \<and>
     activeDownloads (entry_of s p) \<le> 2 ^ 62)"

lemma sel_sane_score: "sel_sane s \<Longrightarrow> score_of s p < maxFloat"
proof -
  assume "sel_sane s"
  then have e: "ewma (entry_of s p) \<le> 2 ^ 63" and a: "0 \<le> activeDownloads (entry_of s p)"
      "activeDownloads (entry_of s p) \<le> 2 ^ 62"
    by (simp_all add: sel_sane_def)
  define k where "k = 1 + busyPenaltyFactor * real_of_int (activeDownloads (entry_of s p))"
  have "real_of_int (activeDownloads (entry_of s p)) \<le> 2 ^ 62" using a(2) by (simp flip: of_int_le_iff)
  then have k: "0 \<le> k" "k \<le> 2 ^ 62" using a(1) by (simp_all add: k_def busyPenaltyFactor_def)
  have "score_of s p = ewma (entry_of s p) * k" by (simp add: score_of_def k_def)
  also have "\<dots> \<le> 2 ^ 63 * k" using e k(1) by (rule mult_right_mono)
  also have "\<dots> \<le> 2 ^ 63 * 2 ^ 62" using k(2) by simp
  also have "\<dots> < (2 :: real) ^ 1023" unfolding power_add [symmetric] by (rule power_strict_increasing) simp_all
  also have "\<dots> \<le> maxFloat" by (simp add: maxFloat_def)
  finally show ?thesis .
qed

lemma ewma_bound:
  assumes "d \<le> 2 ^ 63" and "x \<le> 2 ^ 63"
  shows "alpha * real_of_int d + (1 - alpha) * x \<le> 2 ^ 63"
proof -
  have "real_of_int d \<le> 2 ^ 63" using assms(1) by (simp flip: of_int_le_iff)
  with assms(2) show ?thesis by (simp add: alpha_def)
qed

lemma sel_sane_Record: "sel_sane s \<Longrightarrow> d \<le> 2 ^ 63 \<Longrightarrow> sel_sane (sel_RecordLatency p d s)"
  using ewma_bound by (auto simp: sel_sane_def entry_of_Record)

lemma entry_of_Begin_End:
  "0 \<le> activeDownloads (entry_of s p) \<Longrightarrow> entry_of (sel_EndDownload p (sel_BeginDownload p s)) = entry_of s"
  by (auto simp: entry_of_End entry_of_Begin)

lemma sel_sane_try:
  assumes "sel_sane s" and "fst (fetch env n fileKey (IIndex info) (ChunkStorageKey (IEncHash info)) p) \<le> 2 ^ 63"
  shows "sel_sane (fst (try_peer sha256 env fileKey info dek n p s))"
proof -
  let ?s = "sel_EndDownload p (sel_BeginDownload p s)"
  have "0 \<le> activeDownloads (entry_of s p)" using assms(1) by (simp add: sel_sane_def)
  then have "sel_sane ?s" using assms(1) by (simp add: sel_sane_def entry_of_Begin_End)
  then show ?thesis using assms(2)
    by (auto simp: try_peer_def Let_def sel_sane_Record split: prod.split sum.split)
qed

lemma try_peer_active:
  assumes "0 \<le> activeDownloads (entry_of s p)"
  shows "activeDownloads (entry_of (fst (try_peer sha256 env fileKey info dek n p s)) q) = activeDownloads (entry_of s q)"
  using entry_of_Begin_End [OF assms]
  by (auto simp: try_peer_def Let_def entry_of_Record split: prod.split sum.split)

section \<open>The retry loop\<close>

text \<open>The peers a loop adds to \<open>tried\<close>, in the order of the attempts.\<close>

lemma fetch_loop_spec:
  assumes "fetch_loop sha256 env fileKey info dek cs left n tried lastErr s = (r, tried', s')"
  shows "\<exists>new. tried' = rev new @ tried \<and> length new \<le> left \<and> distinct new \<and>
    set new \<subseteq> set cs - set tried \<and>
    (case r of
       Inr plain \<Rightarrow> new \<noteq> [] \<and> attempt sha256 env fileKey info dek (n + length new - 1) (last new) = Inr plain \<and>
         (\<forall>i < length new - 1. \<exists>e. attempt sha256 env fileKey info dek (n + i) (new ! i) = Inl e)
     | Inl _ \<Rightarrow> (\<forall>i < length new. \<exists>e. attempt sha256 env fileKey info dek (n + i) (new ! i) = Inl e))"
  using assms
proof (induction left arbitrary: n tried lastErr s)
  case 0
  then show ?case by (auto simp: no_result_def split: option.splits)
next
  case (Suc left)
  define avail where "avail = filter (\<lambda>p. p \<notin> set tried) cs"
  obtain s1 best where b: "sel_BestPeer avail (others env n s) = (s1, best)" by fastforce
  show ?case
  proof (cases "avail = [] \<or> best = None")
    case True
    then have "r = no_result info lastErr" "tried' = tried"
      using Suc.prems b by (cases "avail = []"; auto simp: avail_def [symmetric])+
    then show ?thesis by (auto simp: no_result_def split: option.splits)
  next
    case False
    then obtain p where p: "best = Some p" by auto
    have "p \<in> set avail" using sel.pick_member [of avail "others env n s" p] b p by simp
    then have mem: "p \<in> set cs" "p \<notin> set tried" by (simp_all add: avail_def)
    obtain s2 res where t: "try_peer sha256 env fileKey info dek n p s1 = (s2, res)" by fastforce
    have res: "res = attempt sha256 env fileKey info dek n p"
      using try_peer_result [of sha256 env fileKey info dek n p s1] t by simp
    show ?thesis
    proof (cases res)
      case (Inr plain)
      then have "r = Inr plain" "tried' = p # tried"
        using Suc.prems False b p t by (auto simp: avail_def [symmetric])
      then show ?thesis using mem res [symmetric] Inr by (intro exI [of _ "[p]"]) simp
    next
      case (Inl e)
      then have rec: "fetch_loop sha256 env fileKey info dek cs left (n + 1) (p # tried) (Some e) s2 = (r, tried', s')"
        using Suc.prems False b p t by (auto simp: avail_def [symmetric])
      obtain new where new: "tried' = rev new @ p # tried" "length new \<le> left" "distinct new"
          "set new \<subseteq> set cs - set (p # tried)"
        and ok: "case r of
          Inr plain \<Rightarrow> new \<noteq> [] \<and> attempt sha256 env fileKey info dek (n + 1 + length new - 1) (last new) = Inr plain \<and>
            (\<forall>i < length new - 1. \<exists>e. attempt sha256 env fileKey info dek (n + 1 + i) (new ! i) = Inl e)
        | Inl _ \<Rightarrow> (\<forall>i < length new. \<exists>e. attempt sha256 env fileKey info dek (n + 1 + i) (new ! i) = Inl e)"
        using Suc.IH [OF rec] by blast
      have e: "attempt sha256 env fileKey info dek n p = Inl e" using res Inl by simp
      show ?thesis
        using new ok e mem
        by (intro exI [of _ "p # new"]) (auto simp: nth_Cons split: sum.splits nat.splits)
    qed
  qed
qed


lemma fetch_loop_active:
  assumes "\<And>n s. others env n s = s" and "\<forall>p. 0 \<le> activeDownloads (entry_of s p)"
    and "fetch_loop sha256 env fileKey info dek cs left n tried lastErr s = (r, tried', s')"
  shows "activeDownloads (entry_of s' q) = activeDownloads (entry_of s q)"
  using assms(2,3)
proof (induction left arbitrary: n tried lastErr s)
  case (Suc left)
  define avail where "avail = filter (\<lambda>p. p \<notin> set tried) cs"
  obtain s1 best where b: "sel_BestPeer avail s = (s1, best)" by fastforce
  then have s1: "entry_of s1 = entry_of s" using entry_of_Best [of avail s] by simp
  show ?case
  proof (cases "avail = [] \<or> best = None")
    case True
    then have "entry_of s' = entry_of s"
      using Suc.prems b s1 by (cases "avail = []") (auto simp: avail_def [symmetric] assms(1))
    then show ?thesis by simp
  next
    case False
    then obtain p where p: "best = Some p" by auto
    obtain s2 res where t: "try_peer sha256 env fileKey info dek n p s1 = (s2, res)" by fastforce
    have a: "activeDownloads (entry_of s2 x) = activeDownloads (entry_of s x)" for x
      using try_peer_active [of s1 p sha256 env fileKey info dek n x] Suc.prems(1) t s1 by simp
    show ?thesis
    proof (cases res)
      case (Inr plain)
      then show ?thesis using Suc.prems False b p t a by (auto simp: avail_def [symmetric] assms(1))
    next
      case (Inl e)
      then have "fetch_loop sha256 env fileKey info dek cs left (n + 1) (p # tried) (Some e) s2 = (r, tried', s')"
        using Suc.prems False b p t by (auto simp: avail_def [symmetric] assms(1))
      from Suc.IH [OF _ this] show ?thesis using Suc.prems(1) a by simp
    qed
  qed
qed simp

text \<open>A candidate that serves the chunk is reached, if every other candidate fits in the attempts.\<close>

lemma fetch_loop_succeeds:
  assumes "\<And>n s. sel_sane s \<Longrightarrow> sel_sane (others env n s)" and "\<forall>c \<in> set cs. c \<noteq> []"
    and "\<And>n p. fst (fetch env n fileKey (IIndex info) (ChunkStorageKey (IEncHash info)) p) \<le> 2 ^ 63"
    and "g \<in> set cs" and "\<And>n. \<exists>plain. attempt sha256 env fileKey info dek n g = Inr plain"
    and "sel_sane s" and "g \<notin> set tried" and "card (set cs - set tried) \<le> left"
  shows "\<exists>plain. fst (fetch_loop sha256 env fileKey info dek cs left n tried lastErr s) = Inr plain"
  using assms(6-8)
proof (induction left arbitrary: n tried lastErr s)
  case 0
  then show ?case using assms(4) by (metis DiffI List.finite_set card_0_eq empty_iff finite_Diff le_zero_eq)
next
  case (Suc left)
  define avail where "avail = filter (\<lambda>p. p \<notin> set tried) cs"
  have g: "g \<in> set avail" using assms(4) Suc.prems(2) by (simp add: avail_def)
  have sane: "sel_sane (others env n s)" by (rule assms(1) [OF Suc.prems(1)])
  obtain s1 best where b: "sel_BestPeer avail (others env n s) = (s1, best)" by fastforce
  have "sel_sane s1" using sane entry_of_Best [of avail "others env n s"] b by (simp add: sel_sane_def)
  have "best \<noteq> None"
    using sel.pick_some [of g avail "others env n s"] g sel_sane_score [OF sane] assms(2) b
    by (simp add: avail_def)
  then obtain p where p: "best = Some p" by auto
  have "p \<in> set avail" using sel.pick_member [of avail "others env n s" p] b p by simp
  then have mem: "p \<in> set cs" "p \<notin> set tried" by (simp_all add: avail_def)
  obtain s2 res where t: "try_peer sha256 env fileKey info dek n p s1 = (s2, res)" by fastforce
  have res: "res = attempt sha256 env fileKey info dek n p"
    using try_peer_result [of sha256 env fileKey info dek n p s1] t by simp
  have ne: "avail \<noteq> []" using g by auto
  show ?case
  proof (cases res)
    case (Inr plain)
    then show ?thesis using b p t ne by (simp add: avail_def [symmetric])
  next
    case (Inl e)
    then have "p \<noteq> g" using assms(5) [of n] res by auto
    have "sel_sane s2" using sel_sane_try [OF \<open>sel_sane s1\<close> assms(3)] t by (metis fst_conv)
    moreover have "card (set cs - set (p # tried)) \<le> left"
    proof -
      have "set cs - set (p # tried) \<subset> set cs - set tried" using mem by auto
      then have "card (set cs - set (p # tried)) < card (set cs - set tried)" by (intro psubset_card_mono) simp_all
      then show ?thesis using Suc.prems(3) by simp
    qed
    ultimately show ?thesis using Suc.IH [of s2 "p # tried"] Suc.prems(2) \<open>p \<noteq> g\<close> b p t Inl ne
      by (simp add: avail_def [symmetric])
  qed
qed

lemma fetch_verified:
  assumes "fetchAndVerifyChunk cfg sha256 env fileKey info dek s = (Inr plain, tried, s')"
  shows "hex_encode (sha256 plain) = IHash info"
  using fetch_loop_spec [OF assms [unfolded fetchAndVerifyChunk_def]] attempt_verified by auto

text \<open>C12. For any behaviour of the peers, \<open>fetchAndVerifyChunk\<close> returns only bytes whose SHA-256 is the
  one the manifest lists; it tries at most \<open>MaxRetries + 1\<close> peers, all from the list it was given and
  none twice, and an error is returned only when every attempt failed. While no other download
  runs, the count of active downloads of every peer is what it was.\<close>

theorem fetched_chunk_verified:
  assumes "fetchAndVerifyChunk cfg sha256 env fileKey info dek s = (r, tried, s')"
  shows "distinct tried \<and> length tried \<le> nat (MaxRetries cfg + 1) \<and>
    set tried \<subseteq> set (getPeers env fileKey (IIndex info) (ChunkStorageKey (IEncHash info))) \<and>
    (case r of
       Inr plain \<Rightarrow> hex_encode (sha256 plain) = IHash info \<and>
         attempt sha256 env fileKey info dek (length tried - 1) (hd tried) = Inr plain
     | Inl _ \<Rightarrow> list_all2 (\<lambda>n p. \<exists>e. attempt sha256 env fileKey info dek n p = Inl e) [0..<length tried] (rev tried)) \<and>
    ((\<forall>n s. others env n s = s) \<and> (\<forall>p. 0 \<le> activeDownloads (entry_of s p)) \<longrightarrow>
       (\<forall>p. activeDownloads (entry_of s' p) = activeDownloads (entry_of s p)))"
proof -
  note eq = assms [unfolded fetchAndVerifyChunk_def]
  obtain new where new: "tried = rev new" "length new \<le> nat (MaxRetries cfg + 1)" "distinct new"
      "set new \<subseteq> set (getPeers env fileKey (IIndex info) (ChunkStorageKey (IEncHash info)))"
    and r: "case r of
       Inr plain \<Rightarrow> new \<noteq> [] \<and> attempt sha256 env fileKey info dek (length new - 1) (last new) = Inr plain \<and>
         (\<forall>i < length new - 1. \<exists>e. attempt sha256 env fileKey info dek i (new ! i) = Inl e)
     | Inl _ \<Rightarrow> (\<forall>i < length new. \<exists>e. attempt sha256 env fileKey info dek i (new ! i) = Inl e)"
    using fetch_loop_spec [OF eq, unfolded add_0_left] by fastforce
  have "case r of
       Inr plain \<Rightarrow> hex_encode (sha256 plain) = IHash info \<and>
         attempt sha256 env fileKey info dek (length tried - 1) (hd tried) = Inr plain
     | Inl _ \<Rightarrow> list_all2 (\<lambda>n p. \<exists>e. attempt sha256 env fileKey info dek n p = Inl e) [0..<length tried] (rev tried)"
    using r attempt_verified by (auto simp: new(1) hd_rev list_all2_conv_all_nth split: sum.splits)
  moreover have "\<forall>p. activeDownloads (entry_of s' p) = activeDownloads (entry_of s p)"
    if "(\<forall>n s. others env n s = s) \<and> (\<forall>p. 0 \<le> activeDownloads (entry_of s p))"
    using fetch_loop_active [OF _ _ eq] that by blast
  ultimately show ?thesis using new by simp
qed

text \<open>A chunk \<open>[7]\<close> that the peer \<open>b\<close> serves and the peer \<open>a\<close> does not.\<close>

definition demo_env :: dl_env where
  "demo_env = \<lparr>fetch = (\<lambda>n f i k p. (5, if p = ''b'' then Inr [7] else Inl ''refused'')),
     decrypt = (\<lambda>k i b d. Inr b), decompress = Inr, getPeers = (\<lambda>f i k. [''a'', ''b'']), others = (\<lambda>n s. s)\<rparr>"

definition demo_chunk :: chunk_info where
  "demo_chunk = \<lparr>IIndex = 0, IHash = hex_encode [7], ISize = 1, IEncHash = ''e'', ICompressed = False\<rparr>"

lemma demo_attempt: "\<exists>plain. attempt (\<lambda>b. b) demo_env ''f'' demo_chunk None n ''b'' = Inr plain"
  by (simp add: attempt_def open_chunk_def demo_env_def demo_chunk_def)

lemma sel_sane_New: "sel_sane sel_New"
  by (simp add: sel_sane_def sel_New_def entry_of_def go_get_def initialLatency_def)

lemma demo_fetched: "fst (fetchAndVerifyChunk DefaultConfig (\<lambda>b. b) demo_env f demo_chunk None sel_New) = Inr [7]"
proof -
  have a: "attempt (\<lambda>b. b) demo_env f demo_chunk None n ''b'' = Inr [7]" for n
    by (simp add: attempt_def open_chunk_def demo_env_def demo_chunk_def)
  have "\<exists>plain. fst (fetchAndVerifyChunk DefaultConfig (\<lambda>b. b) demo_env f demo_chunk None sel_New) = Inr plain"
    unfolding fetchAndVerifyChunk_def
    by (rule fetch_loop_succeeds [where g = "''b''"])
      (use a sel_sane_New in \<open>simp_all add: demo_env_def DefaultConfig_def\<close>)
  then obtain plain tried s' where r:
    "fetchAndVerifyChunk DefaultConfig (\<lambda>b. b) demo_env f demo_chunk None sel_New = (Inr plain, tried, s')"
    by (metis prod.collapse)
  then have "hex_encode plain = hex_encode [7]" using fetch_verified [OF r] by (simp add: demo_chunk_def)
  then show ?thesis using r by (simp del: hex_encode.simps)
qed

theorem fetched_chunk_verified_witness:
  "length (fst (snd (fetchAndVerifyChunk DefaultConfig (\<lambda>b. b) demo_env ''f'' demo_chunk None sel_New))) \<le> 4"
proof -
  obtain r tried s' where "fetchAndVerifyChunk DefaultConfig (\<lambda>b. b) demo_env ''f'' demo_chunk None sel_New =
      (r, tried, s')" by (metis prod.exhaust)
  from fetched_chunk_verified [OF this] this show ?thesis by (simp add: DefaultConfig_def)
qed

text \<open>C13. If a listed peer serves the chunk whenever asked and the list has at most \<open>MaxRetries + 1\<close>
  different peers, \<open>fetchAndVerifyChunk\<close> succeeds, whatever the other peers send and however other
  downloads change the selector between attempts (latencies fit a \<open>time.Duration\<close>, download counts
  stay below \<open>2 ^ 62\<close>).\<close>

theorem chunk_fetched_if_served:
  assumes "\<And>n s. sel_sane s \<Longrightarrow> sel_sane (others env n s)" and "sel_sane s"
    and "\<And>n p. fst (fetch env n fileKey (IIndex info) (ChunkStorageKey (IEncHash info)) p) \<le> 2 ^ 63"
    and "\<forall>c \<in> set (getPeers env fileKey (IIndex info) (ChunkStorageKey (IEncHash info))). c \<noteq> []"
    and "g \<in> set (getPeers env fileKey (IIndex info) (ChunkStorageKey (IEncHash info)))"
    and "\<And>n. \<exists>plain. attempt sha256 env fileKey info dek n g = Inr plain"
    and "int (card (set (getPeers env fileKey (IIndex info) (ChunkStorageKey (IEncHash info))))) \<le> MaxRetries cfg + 1"
  shows "\<exists>plain. fst (fetchAndVerifyChunk cfg sha256 env fileKey info dek s) = Inr plain"
  unfolding fetchAndVerifyChunk_def
  by (rule fetch_loop_succeeds [OF assms(1) assms(4) assms(3) assms(5) assms(6) assms(2)])
    (use assms(7) in auto)


theorem chunk_fetched_if_served_witness:
  "\<exists>plain. fst (fetchAndVerifyChunk DefaultConfig (\<lambda>b. b) demo_env ''f'' demo_chunk None sel_New) = Inr plain"
  by (rule chunk_fetched_if_served [of demo_env sel_New "''f''" demo_chunk "''b''"])
    (use demo_attempt sel_sane_New in \<open>simp_all add: demo_env_def DefaultConfig_def\<close>)

end
