(* ===== verification/FileDownload.thy ===== *)
theory FileDownload
  imports Downloader
begin

text \<open>
  Downloads into a file, \<open>DownloadToFile\<close>, \<open>DownloadToFileResumable\<close> and the buffering \<open>Download\<close> of
  \<open>Server/downloader/downloader.go\<close>. One goroutine runs per dispatched chunk; they write disjoint
  slots, and \<open>order\<close> lists the dispatched chunks in the order in which the goroutines finish.
  \<open>cancelled i\<close> is what \<open>ctx.Err() != nil\<close> is when the dispatch loop reaches chunk \<open>i\<close>, and \<open>wr\<close> says
  which writes the destination accepts.
\<close>

section \<open>The destination\<close>

text \<open>\<open>WriteAt\<close> on a file: a gap before the offset reads as zeros.\<close>

definition write_at :: "nat \<Rightarrow> byte list \<Rightarrow> byte list \<Rightarrow> byte list" where
  "write_at off data f =
     take off (f @ replicate (off - length f) 0) @ data @ drop (off + length data) f"

text \<open>\<open>int64(idx) * int64(manifest.ChunkSize)\<close>\<close>

definition chunk_offset :: "chunk_manifest \<Rightarrow> nat \<Rightarrow> int" where
  "chunk_offset m idx = i64 (int idx * MChunkSize m)"

section \<open>The workers\<close>

text \<open>The results of \<open>fetchAndVerifyChunk\<close>: \<open>envs i\<close> and \<open>sels i\<close> are the environment and the selector
  that the goroutine of chunk \<open>i\<close> meets.\<close>

definition chunk_result ::
  "config \<Rightarrow> (byte list \<Rightarrow> byte list) \<Rightarrow> (nat \<Rightarrow> dl_env) \<Rightarrow> (nat \<Rightarrow> selector) \<Rightarrow> string \<Rightarrow>
    chunk_manifest \<Rightarrow> byte list option \<Rightarrow> nat \<Rightarrow> dl_error + byte list" where
  "chunk_result cfg sha256 envs sels fileKey m dek i =
     fst (fetchAndVerifyChunk cfg sha256 (envs i) fileKey (MChunks m ! i) dek (sels i))"

text \<open>What a download leaves: the destination, the error slots, the calls of \<open>progress\<close> and of
  \<open>onChunkDone\<close>.\<close>

record dl_state =
  dst :: "byte list"
  errs :: "dl_error option list"
  completed :: int
  progressed :: "(int \<times> int) list"
  recorded :: "(nat \<times> string) list"

definition finish_chunk ::
  "(nat \<Rightarrow> bool) \<Rightarrow> bool \<Rightarrow> chunk_manifest \<Rightarrow> (nat \<Rightarrow> dl_error + byte list) \<Rightarrow> nat \<Rightarrow> dl_state \<Rightarrow> dl_state" where
  "finish_chunk wr notify m res idx st =
     (case res idx of
        Inl e \<Rightarrow> st\<lparr>errs := (errs st)[idx := Some e]\<rparr>
      | Inr plain \<Rightarrow>
          (let offset = chunk_offset m idx
           in if offset < 0 \<or> \<not> wr idx then st\<lparr>errs := (errs st)[idx := Some (WriteAtFail idx offset)]\<rparr>
              else
                (let n = int (length (MChunks m));
                     st = st\<lparr>dst := write_at (nat offset) plain (dst st)\<rparr>;
                     st = (if notify then st\<lparr>recorded := recorded st @ [(idx, IHash (MChunks m ! idx))]\<rparr> else st)
                 in st\<lparr>completed := completed st + 1, progressed := progressed st @ [(completed st + 1, n)]\<rparr>)))"

text \<open>The chunks the loop starts: it stops at the first cancelled turn and passes over skipped ones.\<close>

definition dispatched :: "(nat \<Rightarrow> bool) \<Rightarrow> (nat \<Rightarrow> bool) \<Rightarrow> nat \<Rightarrow> nat list" where
  "dispatched cancelled skip n = filter (\<lambda>i. \<not> skip i) (takeWhile (\<lambda>i. \<not> cancelled i) [0..<n])"

fun first_error :: "nat \<Rightarrow> dl_error option list \<Rightarrow> dl_error option" where
  "first_error i [] = None"
| "first_error i (None # es) = first_error (Suc i) es"
| "first_error i (Some e # es) = Some (ChunkFail i e)"

text \<open>The end of both functions: the first error, else the check of the root.\<close>

definition finish_download ::
  "(byte list \<Rightarrow> byte list) \<Rightarrow> chunk_manifest \<Rightarrow> dl_state \<Rightarrow> dl_error option \<times> dl_state" where
  "finish_download sha256 m st =
     (case first_error 0 (errs st) of
        Some e \<Rightarrow> (Some e, st)
      | None \<Rightarrow>
          if VerifyMerkleRoot sha256 (MChunks m) (MMerkleRoot m) then (None, st)
          else (Some (RootMismatch (MMerkleRoot m)), st))"

definition start_state :: "byte list \<Rightarrow> nat \<Rightarrow> dl_state" where
  "start_state f n = \<lparr>dst = f, errs = replicate n None, completed = 0, progressed = [], recorded = []\<rparr>"

definition DownloadToFile ::
  "config \<Rightarrow> (byte list \<Rightarrow> byte list) \<Rightarrow> (nat \<Rightarrow> dl_env) \<Rightarrow> (nat \<Rightarrow> selector) \<Rightarrow> (nat \<Rightarrow> bool) \<Rightarrow> (nat \<Rightarrow> bool) \<Rightarrow>
    nat list \<Rightarrow> string \<Rightarrow> chunk_manifest \<Rightarrow> byte list \<Rightarrow> byte list option \<Rightarrow> dl_error option \<times> dl_state" where
  "DownloadToFile cfg sha256 envs sels cancelled wr order fileKey m f dek =
     (let n = length (MChunks m)
      in if n = 0 then (None, start_state f n)
         else finish_download sha256 m
           (fold (finish_chunk wr False m (chunk_result cfg sha256 envs sels fileKey m dek)) order
             (start_state f n)))"

definition DownloadToFileResumable ::
  "config \<Rightarrow> (byte list \<Rightarrow> byte list) \<Rightarrow> (nat \<Rightarrow> dl_env) \<Rightarrow> (nat \<Rightarrow> selector) \<Rightarrow> (nat \<Rightarrow> bool) \<Rightarrow> (nat \<Rightarrow> bool) \<Rightarrow>
    nat list \<Rightarrow> string \<Rightarrow> chunk_manifest \<Rightarrow> byte list \<Rightarrow> (nat \<Rightarrow> bool) \<Rightarrow> byte list option
    \<Rightarrow> dl_error option \<times> dl_state" where
  "DownloadToFileResumable cfg sha256 envs sels cancelled wr order fileKey m f skip dek =
     (let n = length (MChunks m); st = start_state f n
      in if n = 0 then (None, st)
         else
           (let toFetch = length (filter (\<lambda>i. \<not> skip i) [0..<n])
            in if toFetch = 0 then
                 ((if VerifyMerkleRoot sha256 (MChunks m) (MMerkleRoot m) then None
                   else Some (RootMismatch (MMerkleRoot m))), st)
               else
                 (let alreadyDone = int n - int toFetch;
                      st = st\<lparr>completed := alreadyDone, progressed := [(alreadyDone, int n)]\<rparr>
                  in finish_download sha256 m
                       (fold (finish_chunk wr True m (chunk_result cfg sha256 envs sels fileKey m dek)) order st))))"

text \<open>\<open>Download\<close> buffers the chunks and reassembles them. The slot of a failed chunk stays the zero
  \<open>Chunk\<close>, and every finished goroutine reports progress.\<close>

definition buffer_chunk ::
  "(byte list \<Rightarrow> byte list) \<Rightarrow> chunk_info \<Rightarrow> byte list \<Rightarrow> chunk" where
  "buffer_chunk sha256 ci plain =
     \<lparr>CIndex = IIndex ci, CHash = sha256 plain, CSize = int (length plain), CData = plain\<rparr>"

definition zero_chunk :: chunk where
  "zero_chunk = \<lparr>CIndex = 0, CHash = replicate 32 0, CSize = 0, CData = []\<rparr>"

definition buffered ::
  "(byte list \<Rightarrow> byte list) \<Rightarrow> chunk_manifest \<Rightarrow> (nat \<Rightarrow> dl_error + byte list) \<Rightarrow> nat \<Rightarrow> chunk \<times> dl_error option" where
  "buffered sha256 m res i =
     (case res i of Inl e \<Rightarrow> (zero_chunk, Some e) | Inr plain \<Rightarrow> (buffer_chunk sha256 (MChunks m ! i) plain, None))"

definition Download ::
  "config \<Rightarrow> (byte list \<Rightarrow> byte list) \<Rightarrow> (nat \<Rightarrow> dl_env) \<Rightarrow> (nat \<Rightarrow> selector) \<Rightarrow> (chunk \<Rightarrow> bool) \<Rightarrow>
    string \<Rightarrow> chunk_manifest \<Rightarrow> byte list option \<Rightarrow> dl_error + byte list" where
  "Download cfg sha256 envs sels wr fileKey m dek =
     (let n = length (MChunks m);
          slots = map (buffered sha256 m (chunk_result cfg sha256 envs sels fileKey m dek)) [0..<n]
      in if n = 0 then Inr []
         else
           (case first_error 0 (map snd slots) of
              Some e \<Rightarrow> Inl e
            | None \<Rightarrow>
                (case Reassemble wr (map fst slots) of Inl e \<Rightarrow> Inl (ReassembleFail e) | Inr out \<Rightarrow> Inr out)))"


section \<open>Writing slices of a content\<close>

lemma length_write_at [simp]: "length (write_at off data f) = max (length f) (off + length data)"
  by (auto simp: write_at_def)

lemma nth_write_at:
  assumes "j < length (write_at off data f)"
  shows "write_at off data f ! j =
    (if off \<le> j \<and> j < off + length data then data ! (j - off)
     else if j < length f then f ! j else 0)"
proof -
  have l: "length (take off (f @ replicate (off - length f) 0)) = off" by simp
  consider "j < off" | "off \<le> j" "j < off + length data" | "off + length data \<le> j" by linarith
  then show ?thesis
  proof cases
    case 3
    then have "j < length f" using assms by auto
    moreover have "\<not> j < off" "\<not> j - off < length data" using 3 by linarith+
    ultimately show ?thesis using 3 unfolding write_at_def by (simp add: nth_append l min_def)
  qed (use assms in \<open>auto simp: write_at_def nth_append l min_def\<close>)
qed

text \<open>\<open>f\<close> has the bytes of \<open>content\<close> from \<open>a\<close> to \<open>b\<close>.\<close>

definition agrees :: "byte list \<Rightarrow> byte list \<Rightarrow> nat \<Rightarrow> nat \<Rightarrow> bool" where
  "agrees content f a b \<longleftrightarrow> b \<le> length f \<and> (\<forall>j. a \<le> j \<longrightarrow> j < b \<longrightarrow> f ! j = content ! j)"

definition piece :: "nat \<Rightarrow> byte list \<Rightarrow> nat \<Rightarrow> byte list" where
  "piece N content i = take N (drop (i * N) content)"

text \<open>The bytes chunk \<open>i\<close> covers.\<close>

definition chunk_end :: "nat \<Rightarrow> byte list \<Rightarrow> nat \<Rightarrow> nat" where
  "chunk_end N content i = i * N + length (piece N content i)"

lemma write_piece:
  assumes "i * N < length content" and "length f \<le> length content"
  defines "f' \<equiv> write_at (i * N) (piece N content i) f"
  shows "length f' \<le> length content" and "agrees content f' (i * N) (chunk_end N content i)"
    and "agrees content f a b \<Longrightarrow> agrees content f' a b"
proof -
  show len: "length f' \<le> length content" using assms(1,2) by (auto simp: f'_def piece_def)
  have s: "piece N content i ! (j - i * N) = content ! j"
    if "i * N \<le> j" "j < i * N + length (piece N content i)" for j
    using that by (simp add: piece_def)
  show "agrees content f' (i * N) (chunk_end N content i)"
    using s by (simp add: agrees_def chunk_end_def f'_def nth_write_at)
  show "agrees content f' a b" if "agrees content f a b"
    using that s by (auto simp: agrees_def f'_def nth_write_at)
qed

lemma agrees_all:
  assumes "\<forall>i. i * N < length content \<longrightarrow> agrees content f (i * N) (chunk_end N content i)"
    and "length f \<le> length content" and "0 < N"
  shows "f = content"
proof -
  have at: "j < length f \<and> f ! j = content ! j" if j: "j < length content" for j
  proof -
    define i where "i = j div N"
    have i: "i * N \<le> j" "j < i * N + N" using assms(3) mod_less_divisor [of N j] div_mult_mod_eq [of j N]
      unfolding i_def by linarith+
    then have "j < chunk_end N content i" using j by (simp add: chunk_end_def piece_def)
    moreover have "agrees content f (i * N) (chunk_end N content i)" using assms(1) i j by auto
    ultimately show ?thesis using i by (auto simp: agrees_def)
  qed
  have "length f = length content"
  proof (rule ccontr)
    assume "length f \<noteq> length content"
    then have "length f < length content" using assms(2) by simp
    then show False using at [of "length f"] by simp
  qed
  then show ?thesis using at by (intro nth_equalityI) auto
qed

lemma chunk_loop_pieces:
  assumes "0 < csize" and "chunk_loop sha256 csize fails index rest = (cs, err)"
  shows "map CData cs = map (piece csize rest) [0..<length cs] \<and>
    (\<forall>i. i < length cs \<longleftrightarrow> i * csize < length rest)"
  using assms
proof (induction sha256 csize fails index rest arbitrary: cs err rule: chunk_loop.induct)
  case (1 sha256 csize fails index rest)
  show ?case
  proof (cases "csize \<le> length rest")
    case True
    obtain cs' err' where r: "chunk_loop sha256 csize fails (index + 1) (drop csize rest) = (cs', err')"
      by fastforce
    have cs: "cs = make_chunk sha256 index (take csize rest) # cs'"
      using "1.prems" True r by (simp add: chunk_loop.simps [of sha256 csize fails index rest])
    have IH: "map CData cs' = map (piece csize (drop csize rest)) [0..<length cs']"
        "\<forall>i. i < length cs' \<longleftrightarrow> i * csize < length (drop csize rest)"
      using "1.IH" "1.prems"(1) True r by blast+
    have "[0..<length cs] = 0 # map Suc [0..<length cs']"
      by (simp add: cs upt_conv_Cons map_Suc_upt del: upt_Suc)
    moreover have "piece csize (drop csize rest) = piece csize rest \<circ> Suc"
      by (auto simp: piece_def fun_eq_iff add.commute)
    ultimately have "map CData cs = map (piece csize rest) [0..<length cs]"
      using IH(1) by (simp add: cs make_chunk_def piece_def)
    moreover have "i < length cs \<longleftrightarrow> i * csize < length rest" for i
    proof (cases i)
      case (Suc k)
      have "k < length cs' \<longleftrightarrow> k * csize < length rest - csize" using IH(2) by simp
      then show ?thesis unfolding Suc cs mult_Suc by simp linarith
    qed (use "1.prems"(1) True in \<open>auto simp: cs\<close>)
    ultimately show ?thesis by blast
  next
    case False
    then have "cs = (if rest \<noteq> [] then [make_chunk sha256 index rest] else [])"
      using "1.prems" by (simp add: chunk_loop.simps [of sha256 csize fails index rest])
    moreover have "i < Suc 0 \<longleftrightarrow> i * csize < length rest" if "rest \<noteq> []" for i
      using False that "1.prems"(1) by (cases i) auto
    ultimately show ?thesis using False by (cases "rest = []") (simp_all add: make_chunk_def piece_def)
  qed
qed


section \<open>Downloading a described content\<close>

text \<open>The manifest \<open>m\<close> lists the chunks of \<open>content\<close> in pieces of \<open>N\<close> bytes.\<close>

definition describes :: "(byte list \<Rightarrow> byte list) \<Rightarrow> byte list \<Rightarrow> nat \<Rightarrow> chunk_manifest \<Rightarrow> bool" where
  "describes sha256 content N m \<longleftrightarrow> 0 < N \<and> MChunkSize m = int N \<and> int (length content) \<le> 2 ^ 63 \<and>
     map IHash (MChunks m) = map (\<lambda>c. hex_encode (CHash c)) (fst (ChunkReader sha256 (int N) content False))"

lemma describes_chunks:
  assumes "describes sha256 content N m"
  shows "i < length (MChunks m) \<longleftrightarrow> i * N < length content"
    and "i < length (MChunks m) \<Longrightarrow> IHash (MChunks m ! i) = hex_encode (sha256 (piece N content i))"
    and "i < length (MChunks m) \<Longrightarrow> chunk_offset m i = int (i * N)"
proof -
  have N: "0 < N" "MChunkSize m = int N" using assms by (simp_all add: describes_def)
  obtain cs err where c: "chunk_loop sha256 N False 0 content = (cs, err)" by fastforce
  have h: "map IHash (MChunks m) = map (\<lambda>c. hex_encode (CHash c)) cs"
    using assms c N by (simp add: describes_def ChunkReader_def)
  have len: "length (MChunks m) = length cs" using map_eq_imp_length_eq [OF h] .
  note sl = chunk_loop_pieces [OF N(1) c]
  show iff: "i < length (MChunks m) \<longleftrightarrow> i * N < length content" using sl len by simp
  show "IHash (MChunks m ! i) = hex_encode (sha256 (piece N content i))" if i: "i < length (MChunks m)"
  proof -
    have "IHash (MChunks m ! i) = hex_encode (CHash (cs ! i))"
      using arg_cong [OF h, of "\<lambda>xs. xs ! i"] i len by simp
    moreover have "CHash (cs ! i) = sha256 (CData (cs ! i))"
      using chunk_loop_props [OF N(1) c] i len by (simp add: VerifyChunk_def)
    moreover have "CData (cs ! i) = piece N content i"
      using arg_cong [OF conjunct1 [OF sl], of "\<lambda>xs. xs ! i"] i len by simp
    ultimately show ?thesis by simp
  qed
  show "chunk_offset m i = int (i * N)" if "i < length (MChunks m)"
  proof -
    have "int (i * N) < int (length content)" using that iff by linarith
    moreover have "int (length content) \<le> 2 ^ 63" using assms by (simp add: describes_def)
    ultimately have "int i * int N < 2 ^ 63" unfolding of_nat_mult by linarith
    moreover have "- (2 ^ 63) \<le> int i * int N" by (rule order_trans [of _ 0]) simp_all
    ultimately show ?thesis by (simp add: chunk_offset_def N in_i64_def)
  qed
qed

text \<open>What the goroutine of a chunk puts into its error slot.\<close>

definition outcome ::
  "(nat \<Rightarrow> bool) \<Rightarrow> chunk_manifest \<Rightarrow> (nat \<Rightarrow> dl_error + byte list) \<Rightarrow> nat \<Rightarrow> dl_error option" where
  "outcome wr m res i =
     (case res i of
        Inl e \<Rightarrow> Some e
      | Inr plain \<Rightarrow> if wr i then None else Some (WriteAtFail i (chunk_offset m i)))"

text \<open>Every result that arrives without an error is the right piece.\<close>

definition right_results :: "byte list \<Rightarrow> nat \<Rightarrow> chunk_manifest \<Rightarrow> (nat \<Rightarrow> dl_error + byte list) \<Rightarrow> bool" where
  "right_results content N m res \<longleftrightarrow>
     (\<forall>i plain. i < length (MChunks m) \<longrightarrow> res i = Inr plain \<longrightarrow> plain = piece N content i)"

definition dl_inv ::
  "byte list \<Rightarrow> nat \<Rightarrow> (nat \<Rightarrow> bool) \<Rightarrow> chunk_manifest \<Rightarrow> (nat \<Rightarrow> dl_error + byte list) \<Rightarrow> nat set \<Rightarrow> nat set
    \<Rightarrow> dl_state \<Rightarrow> bool" where
  "dl_inv content N wr m res fin have st \<longleftrightarrow>
     length (dst st) \<le> length content \<and>
     errs st = map (\<lambda>i. if i \<in> fin then outcome wr m res i else None) [0..<length (MChunks m)] \<and>
     (\<forall>i \<in> have. agrees content (dst st) (i * N) (chunk_end N content i)) \<and>
     (\<forall>i \<in> fin. outcome wr m res i = None \<longrightarrow> agrees content (dst st) (i * N) (chunk_end N content i)) \<and>
     (\<forall>(i, h) \<in> set (recorded st). i \<in> fin \<and> outcome wr m res i = None \<and> h = IHash (MChunks m ! i))"

lemma dl_inv_step:
  assumes d: "describes sha256 content N m" and rr: "right_results content N m res"
    and inv: "dl_inv content N wr m res fin have st" and i: "i < length (MChunks m)"
  shows "dl_inv content N wr m res (insert i fin) have (finish_chunk wr b m res i st)"
proof -
  have errs': "(map (\<lambda>i. if i \<in> fin then outcome wr m res i else None) [0..<length (MChunks m)])[i := outcome wr m res i]
      = map (\<lambda>j. if j \<in> insert i fin then outcome wr m res j else None) [0..<length (MChunks m)]"
    using i by (intro nth_equalityI) (auto simp: nth_list_update)
  have off: "chunk_offset m i = int (i * N)" "\<not> int i * int N < 0"
    using describes_chunks(3) [OF d i] by (simp_all add: not_less)
  show ?thesis
  proof (cases "outcome wr m res i")
    case (Some e)
    then have "finish_chunk wr b m res i st = st\<lparr>errs := (errs st)[i := outcome wr m res i]\<rparr>"
      by (auto simp: finish_chunk_def outcome_def Let_def off split: sum.splits if_splits)
    then show ?thesis using inv Some errs' by (auto simp: dl_inv_def)
  next
    case None
    then obtain plain where r: "res i = Inr plain" and w: "wr i"
      by (auto simp: outcome_def split: sum.splits if_splits)
    have p: "plain = piece N content i" using rr i r by (simp add: right_results_def)
    let ?f = "write_at (i * N) (piece N content i) (dst st)"
    have st: "dst (finish_chunk wr b m res i st) = ?f" "errs (finish_chunk wr b m res i st) = errs st"
        "set (recorded (finish_chunk wr b m res i st)) \<subseteq> insert (i, IHash (MChunks m ! i)) (set (recorded st))"
      by (auto simp: finish_chunk_def r w p off Let_def nat_mult_distrib not_less)
    have le: "length (dst st) \<le> length content" using inv by (simp add: dl_inv_def)
    have lt: "i * N < length content" using describes_chunks(1) [OF d] i by blast
    note ws = write_piece [OF lt le]
    have e: "errs st = map (\<lambda>j. if j \<in> insert i fin then outcome wr m res j else None) [0..<length (MChunks m)]"
      using inv None by (auto simp: dl_inv_def)
    show ?thesis using inv ws st(3) None unfolding dl_inv_def st(1,2) e by blast
  qed
qed

lemma dl_inv_fold:
  assumes "describes sha256 content N m" and "right_results content N m res"
    and "dl_inv content N wr m res fin have st" and "set order \<subseteq> {..<length (MChunks m)}"
  shows "dl_inv content N wr m res (fin \<union> set order) have (fold (finish_chunk wr b m res) order st)"
  using assms(3,4)
proof (induction order arbitrary: fin st)
  case (Cons i order)
  have "dl_inv content N wr m res (insert i fin) have (finish_chunk wr b m res i st)"
    using Cons.prems by (intro dl_inv_step [OF assms(1,2)]) auto
  from Cons.IH [OF this] show ?case using Cons.prems by simp
qed simp

lemma first_error_None: "first_error k es = None \<longleftrightarrow> (\<forall>e \<in> set es. e = None)"
  by (induction k es rule: first_error.induct) auto

lemma first_error_Some:
  "first_error k es = Some x \<Longrightarrow>
     \<exists>j e. j < length es \<and> es ! j = Some e \<and> x = ChunkFail (k + j) e \<and> (\<forall>i < j. es ! i = None)"
proof (induction k es rule: first_error.induct)
  case (2 k es)
  then obtain j e where "j < length es" "es ! j = Some e" "x = ChunkFail (Suc k + j) e" "\<forall>i < j. es ! i = None"
    by auto
  then show ?case by (intro exI [of _ "Suc j"] exI [of _ e]) (auto simp: less_Suc_eq_0_disj)
qed auto

lemma right_resultsI:
  assumes d: "describes sha256 content N m"
    and coll: "\<forall>i plain. i < length (MChunks m) \<and> chunk_result cfg sha256 envs sels fileKey m dek i = Inr plain \<and>
      sha256 plain = sha256 (piece N content i) \<longrightarrow> plain = piece N content i"
  shows "right_results content N m (chunk_result cfg sha256 envs sels fileKey m dek)"
  unfolding right_results_def
proof (intro allI impI)
  fix i plain
  assume i: "i < length (MChunks m)" and r: "chunk_result cfg sha256 envs sels fileKey m dek i = Inr plain"
  obtain r' tried s' where f: "fetchAndVerifyChunk cfg sha256 (envs i) fileKey (MChunks m ! i) dek (sels i) =
      (r', tried, s')" by (metis prod.exhaust)
  have "r' = Inr plain" using r f by (simp add: chunk_result_def)
  then have "hex_encode (sha256 plain) = IHash (MChunks m ! i)"
    using fetch_verified f by blast
  then have "sha256 plain = sha256 (piece N content i)" using describes_chunks(2) [OF d i] by simp
  then show "plain = piece N content i" using coll i r by blast
qed


lemma dispatched_set: "set (dispatched cancelled skip n) \<subseteq> {i. i < n \<and> \<not> skip i}"
  by (auto simp: dispatched_def dest: set_takeWhileD)

lemma dispatched_all:
  "\<forall>i < n. \<not> cancelled i \<Longrightarrow> dispatched cancelled skip n = filter (\<lambda>i. \<not> skip i) [0..<n]"
proof -
  assume "\<forall>i < n. \<not> cancelled i"
  then have "takeWhile (\<lambda>i. \<not> cancelled i) [0..<n] = [0..<n]" unfolding takeWhile_eq_all_conv by simp
  then show ?thesis unfolding dispatched_def by (simp only:)
qed

text \<open>The end of a download whose goroutines have all finished.\<close>

definition outcome_ok ::
  "(byte list \<Rightarrow> byte list) \<Rightarrow> (nat \<Rightarrow> bool) \<Rightarrow> chunk_manifest \<Rightarrow> (nat \<Rightarrow> dl_error + byte list) \<Rightarrow> nat set
    \<Rightarrow> dl_error option \<Rightarrow> bool" where
  "outcome_ok sha256 wr m res started err \<longleftrightarrow>
     (case err of
        None \<Rightarrow> (\<forall>i \<in> started. outcome wr m res i = None) \<and> VerifyMerkleRoot sha256 (MChunks m) (MMerkleRoot m)
      | Some (ChunkFail i e) \<Rightarrow>
          i \<in> started \<and> outcome wr m res i = Some e \<and> (\<forall>j \<in> started. j < i \<longrightarrow> outcome wr m res j = None)
      | Some (RootMismatch r) \<Rightarrow>
          (\<forall>i \<in> started. outcome wr m res i = None) \<and> \<not> VerifyMerkleRoot sha256 (MChunks m) (MMerkleRoot m)
      | Some _ \<Rightarrow> False)"

lemma finish_fold:
  assumes "describes sha256 content N m" and "right_results content N m res"
    and "dl_inv content N wr m res {} have st0" and "set order \<subseteq> {..<length (MChunks m)}"
    and "finish_download sha256 m (fold (finish_chunk wr b m res) order st0) = (err, st)"
  shows "dl_inv content N wr m res (set order) have st \<and> outcome_ok sha256 wr m res (set order) err"
proof -
  let ?st = "fold (finish_chunk wr b m res) order st0"
  have inv: "dl_inv content N wr m res (set order) have ?st"
    using dl_inv_fold [OF assms(1-4)] by simp
  then have e: "errs ?st = map (\<lambda>i. if i \<in> set order then outcome wr m res i else None) [0..<length (MChunks m)]"
    by (simp add: dl_inv_def)
  have "outcome_ok sha256 wr m res (set order) err"
  proof (cases "first_error 0 (errs ?st)")
    case None
    then have "\<forall>i \<in> set order. outcome wr m res i = None"
      using assms(4) unfolding first_error_None e by auto
    then show ?thesis using assms(5) None by (auto simp: finish_download_def outcome_ok_def split: if_splits)
  next
    case (Some x)
    obtain j e where j: "j < length (errs ?st)" "errs ?st ! j = Some e" "x = ChunkFail j e"
        "\<forall>i < j. errs ?st ! i = None"
      using first_error_Some [OF Some] by auto
    have "j \<in> set order \<and> outcome wr m res j = Some e" using j(1,2) unfolding e by (simp split: if_splits)
    moreover have "\<forall>i \<in> set order. i < j \<longrightarrow> outcome wr m res i = None"
    proof (intro ballI impI)
      fix i
      assume "i \<in> set order" "i < j"
      then show "outcome wr m res i = None" using j(1,4) unfolding e by auto
    qed
    moreover have "err = Some (ChunkFail j e)" using assms(5) Some j(3) by (simp add: finish_download_def)
    ultimately show ?thesis by (simp add: outcome_ok_def)
  qed
  moreover have "st = ?st" using assms(5) by (auto simp: finish_download_def split: option.splits if_splits)
  ultimately show ?thesis using inv by simp
qed

lemma dl_inv_start:
  assumes "length f \<le> length content" and "\<forall>i \<in> have. agrees content f (i * N) (chunk_end N content i)"
  shows "dl_inv content N wr m res {} have ((start_state f (length (MChunks m)))\<lparr>completed := c, progressed := p\<rparr>)"
  using assms by (simp add: dl_inv_def start_state_def map_replicate_const)

lemma dl_inv_complete:
  assumes d: "describes sha256 content N m" and inv: "dl_inv content N wr m res fin have st"
    and "\<forall>i \<in> fin. outcome wr m res i = None" and "{..<length (MChunks m)} \<subseteq> fin \<union> have"
  shows "dst st = content"
proof (rule agrees_all)
  show "\<forall>i. i * N < length content \<longrightarrow> agrees content (dst st) (i * N) (chunk_end N content i)"
    using inv assms(3,4) describes_chunks(1) [OF d] by (auto simp: dl_inv_def subset_iff)
  show "length (dst st) \<le> length content" using inv by (simp add: dl_inv_def)
  show "0 < N" using d by (simp add: describes_def)
qed

text \<open>A resumed download into a \<open>.part\<close> file no longer than the content, in which the skipped
  chunks are right, for a manifest that describes the content, with goroutines that finish in any
  order: what is recorded in the sidecar is on disk and right, also when the download fails; an error
  is the one of the first failing chunk (or of the root), and success means that every started chunk
  was fetched and written and the root matches; if the context was not cancelled while the loop
  started chunks, success means that the file is the content, byte for byte. The hash is assumed to
  have no second preimage among the bytes fetched.\<close>

lemma resumable_download_exact:
  assumes "describes sha256 content N m"
    and "\<forall>i plain. i < length (MChunks m) \<and> chunk_result cfg sha256 envs sels fileKey m dek i = Inr plain \<and>
      sha256 plain = sha256 (piece N content i) \<longrightarrow> plain = piece N content i"
    and "length f \<le> length content"
    and "\<forall>i < length (MChunks m). skip i \<longrightarrow> agrees content f (i * N) (chunk_end N content i)"
    and "mset order = mset (dispatched cancelled skip (length (MChunks m)))"
    and "content \<noteq> []"
    and "DownloadToFileResumable cfg sha256 envs sels cancelled wr order fileKey m f skip dek = (err, st)"
  shows "(\<forall>(i, h) \<in> set (recorded st).
      agrees content (dst st) (i * N) (chunk_end N content i) \<and> h = hex_encode (sha256 (piece N content i))) \<and>
    outcome_ok sha256 wr m (chunk_result cfg sha256 envs sels fileKey m dek) (set order) err \<and>
    (err = None \<and> (\<forall>i < length (MChunks m). \<not> cancelled i) \<longrightarrow> dst st = content)"
proof -
  let ?n = "length (MChunks m)" and ?res = "chunk_result cfg sha256 envs sels fileKey m dek"
  let ?have = "{i. i < ?n \<and> skip i}"
  have rr: "right_results content N m ?res" by (rule right_resultsI [OF assms(1,2)])
  have so: "set order = set (dispatched cancelled skip ?n)" using assms(5) by (rule mset_eq_setD)
  have n: "?n \<noteq> 0" using describes_chunks(1) [OF assms(1), of 0] assms(6) by auto
  have sub: "set order \<subseteq> {..<?n}" using dispatched_set [of cancelled skip ?n] so by auto
  have inv0: "dl_inv content N wr m ?res {} ?have ((start_state f ?n)\<lparr>completed := c, progressed := p\<rparr>)" for c p
    using assms(3,4) by (intro dl_inv_start) auto
  have "dl_inv content N wr m ?res (set order) ?have st \<and> outcome_ok sha256 wr m ?res (set order) err"
  proof (cases "length (filter (\<lambda>i. \<not> skip i) [0..<?n]) = 0")
    case True
    then have "\<forall>i < ?n. skip i" by (simp add: filter_empty_conv)
    moreover have "set order \<subseteq> {i. i < ?n \<and> \<not> skip i}" unfolding so by (rule dispatched_set)
    ultimately have "x \<notin> set order" for x by blast
    then have none: "set order = {}" by (intro equals0I) blast
    moreover have "dl_inv content N wr m ?res {} ?have (start_state f ?n)"
      using inv0 [where c = 0 and p = "[]"] by (simp add: start_state_def)
    moreover have "st = start_state f ?n" and
        "err = (if VerifyMerkleRoot sha256 (MChunks m) (MMerkleRoot m) then None else Some (RootMismatch (MMerkleRoot m)))"
      using assms(7) True n by (simp_all add: DownloadToFileResumable_def Let_def)
    ultimately show ?thesis unfolding none by (simp add: outcome_ok_def)
  next
    case False
    define c where "c = int ?n - int (length (filter (\<lambda>i. \<not> skip i) [0..<?n]))"
    have "finish_download sha256 m (fold (finish_chunk wr True m ?res) order
        ((start_state f ?n)\<lparr>completed := c, progressed := [(c, int ?n)]\<rparr>)) = (err, st)"
      using assms(7) False n by (simp add: DownloadToFileResumable_def Let_def c_def)
    then show ?thesis by (rule finish_fold [OF assms(1) rr inv0 sub])
  qed
  then have inv: "dl_inv content N wr m ?res (set order) ?have st" and oc: "outcome_ok sha256 wr m ?res (set order) err"
    by blast+
  have "dst st = content" if "err = None \<and> (\<forall>i < ?n. \<not> cancelled i)"
  proof (rule dl_inv_complete [OF assms(1) inv])
    show "\<forall>i \<in> set order. outcome wr m ?res i = None" using oc that by (simp add: outcome_ok_def)
    show "{..<?n} \<subseteq> set order \<union> ?have" using dispatched_all [of ?n cancelled skip] that so by auto
  qed
  moreover have "\<forall>(i, h) \<in> set (recorded st).
      agrees content (dst st) (i * N) (chunk_end N content i) \<and> h = hex_encode (sha256 (piece N content i))"
    using inv sub describes_chunks(2) [OF assms(1)] unfolding dl_inv_def by fastforce
  ultimately show ?thesis using oc by blast
qed


text \<open>A file of one byte, fetched from the two peers of \<open>demo_env\<close>.\<close>

definition demo_manifest :: chunk_manifest where
  "demo_manifest = (BuildManifest (\<lambda>b. b) ''f'' [demo_chunk] 0)\<lparr>MChunkSize := 1\<rparr>"

lemma demo_manifest_describes: "describes (\<lambda>b. b) [7] 1 demo_manifest"
  by (simp add: describes_def demo_manifest_def BuildManifest_def demo_chunk_def ChunkReader_def
      chunk_loop.simps [of _ _ _ _ "[7]"] chunk_loop.simps [of _ _ _ _ "[]"] make_chunk_def)

lemma demo_manifest_sel [simp]: "MChunks demo_manifest = [demo_chunk]" "MChunkSize demo_manifest = 1"
  by (simp_all add: demo_manifest_def BuildManifest_def)

lemma demo_result [simp]:
  "chunk_result DefaultConfig (\<lambda>b. b) (\<lambda>i. demo_env) (\<lambda>i. sel_New) f demo_manifest None 0 = Inr [7]"
  by (simp add: chunk_result_def demo_fetched)

theorem resumable_download_exact_witness:
  "\<exists>st. DownloadToFileResumable DefaultConfig (\<lambda>b. b) (\<lambda>i. demo_env) (\<lambda>i. sel_New) (\<lambda>i. False) (\<lambda>i. True) [0]
     ''f'' demo_manifest [] (\<lambda>i. False) None = (None, st) \<and> dst st = [7]"
proof -
  let ?D = "DownloadToFileResumable DefaultConfig (\<lambda>b. b) (\<lambda>i. demo_env) (\<lambda>i. sel_New) (\<lambda>i. False) (\<lambda>i. True) [0]
     ''f'' demo_manifest [] (\<lambda>i. False) None"
  have root: "VerifyMerkleRoot (\<lambda>b. b) [demo_chunk] (MMerkleRoot demo_manifest)"
    by (simp add: VerifyMerkleRoot_def demo_manifest_def BuildManifest_def)
  then have "fst ?D = None"
    by (simp add: DownloadToFileResumable_def finish_download_def finish_chunk_def chunk_offset_def start_state_def in_i64_def Let_def)
  then obtain st where st: "?D = (None, st)" by (metis prod.collapse)
  have coll: "\<forall>i plain. i < length (MChunks demo_manifest) \<and>
      chunk_result DefaultConfig (\<lambda>b. b) (\<lambda>i. demo_env) (\<lambda>i. sel_New) ''f'' demo_manifest None i = Inr plain \<and>
      plain = piece 1 [7] i \<longrightarrow> plain = piece 1 [7] i" by blast
  have "dst st = [7]"
    using resumable_download_exact [OF demo_manifest_describes coll _ _ _ _ st] by (simp add: dispatched_def)
  with st show ?thesis by blast
qed

text \<open>A context cancelled before the first chunk is started: nothing is fetched, nothing is written, and
  the root of the manifest still matches the manifest, so the download reports success.\<close>

lemma cancelled_download_returns_nil:
  assumes "cancelled 0" and "mset order = mset (dispatched cancelled (\<lambda>i. False) (length (MChunks m)))"
    and "VerifyMerkleRoot sha256 (MChunks m) (MMerkleRoot m)"
  shows "DownloadToFile cfg sha256 envs sels cancelled wr order fileKey m f dek =
    (None, start_state f (length (MChunks m)))"
proof -
  have "dispatched cancelled (\<lambda>i. False) (length (MChunks m)) = []"
    using assms(1) by (cases "length (MChunks m)") (simp_all add: dispatched_def upt_conv_Cons del: upt_Suc)
  then have "order = []" using assms(2) by simp
  moreover have "first_error 0 (errs (start_state f n)) = None" for n
    by (simp add: start_state_def first_error_None)
  ultimately show ?thesis using assms(3) by (simp add: DownloadToFile_def finish_download_def Let_def)
qed

section \<open>The other two paths\<close>

lemma DownloadToFile_exact:
  assumes "describes sha256 content N m" and "right_results content N m (chunk_result cfg sha256 envs sels fileKey m dek)"
    and "length f \<le> length content" and "content \<noteq> []"
    and "mset order = mset (dispatched cancelled (\<lambda>i. False) (length (MChunks m)))"
    and "DownloadToFile cfg sha256 envs sels cancelled wr order fileKey m f dek = (err, st)"
  shows "outcome_ok sha256 wr m (chunk_result cfg sha256 envs sels fileKey m dek) (set order) err \<and>
    (err = None \<and> (\<forall>i < length (MChunks m). \<not> cancelled i) \<longrightarrow> dst st = content)"
proof -
  let ?n = "length (MChunks m)" and ?res = "chunk_result cfg sha256 envs sels fileKey m dek"
  have so: "set order = set (dispatched cancelled (\<lambda>i. False) ?n)" using assms(5) by (rule mset_eq_setD)
  have n: "?n \<noteq> 0" using describes_chunks(1) [OF assms(1), of 0] assms(4) by auto
  have sub: "set order \<subseteq> {..<?n}" using dispatched_set [of cancelled "\<lambda>i. False" ?n] so by auto
  have inv0: "dl_inv content N wr m ?res {} {} (start_state f ?n)"
    using dl_inv_start [of f content "{}" N wr m ?res "[]" 0] assms(3) by (simp add: start_state_def)
  have "finish_download sha256 m (fold (finish_chunk wr False m ?res) order (start_state f ?n)) = (err, st)"
    using assms(6) n by (simp add: DownloadToFile_def Let_def)
  from finish_fold [OF assms(1,2) inv0 sub this]
  have inv: "dl_inv content N wr m ?res (set order) {} st" and oc: "outcome_ok sha256 wr m ?res (set order) err"
    by blast+
  have "dst st = content" if "err = None \<and> (\<forall>i < ?n. \<not> cancelled i)"
  proof (rule dl_inv_complete [OF assms(1) inv])
    show "\<forall>i \<in> set order. outcome wr m ?res i = None" using oc that by (simp add: outcome_ok_def)
    show "{..<?n} \<subseteq> set order \<union> {}" using dispatched_all [of ?n cancelled "\<lambda>i. False"] that so by auto
  qed
  with oc show ?thesis by blast
qed

lemma pieces_concat:
  assumes "describes sha256 content N m"
  shows "concat (map (piece N content) [0..<length (MChunks m)]) = content"
proof -
  have N: "0 < N" using assms by (simp add: describes_def)
  obtain cs err where c: "chunk_loop sha256 N False 0 content = (cs, err)" by fastforce
  have "length (MChunks m) = length cs"
    using arg_cong [of _ _ length, of "map IHash (MChunks m)"] assms c N
    by (simp add: describes_def ChunkReader_def) (metis length_map)
  then show ?thesis using chunk_loop_pieces [OF N c] chunk_loop_props [OF N c] by metis
qed

lemma Download_exact:
  assumes "describes sha256 content N m" and "right_results content N m (chunk_result cfg sha256 envs sels fileKey m dek)"
    and "\<forall>i < length (MChunks m). IIndex (MChunks m ! i) = int i" and "\<forall>c. wr c"
    and "\<forall>i < length (MChunks m). \<exists>plain. chunk_result cfg sha256 envs sels fileKey m dek i = Inr plain"
  shows "Download cfg sha256 envs sels wr fileKey m dek = Inr content"
proof -
  let ?n = "length (MChunks m)" and ?res = "chunk_result cfg sha256 envs sels fileKey m dek"
  let ?chunks = "map (\<lambda>i. buffer_chunk sha256 (MChunks m ! i) (piece N content i)) [0..<?n]"
  have "?res i = Inr (piece N content i)" if "i < ?n" for i
    using assms(2,5) that by (auto simp: right_results_def)
  then have slots: "map (buffered sha256 m ?res) [0..<?n] = map (\<lambda>c. (c, None)) ?chunks"
    by (simp add: buffered_def)
  have idx: "map CIndex ?chunks = map int [0..<length ?chunks]"
    using assms(3) by (simp add: buffer_chunk_def)
  have "sort_key CIndex ?chunks = ?chunks" by (rule sort_key_perm_unique [OF refl idx])
  moreover have "check_gaps 0 ?chunks = None" using idx by (simp add: check_gaps_None)
  moreover have "write_chunks wr [] ?chunks = Inr content"
    using write_chunks_ok [of ?chunks wr "[]"] assms(4) pieces_concat [OF assms(1)]
    by (simp add: comp_def buffer_chunk_def)
  moreover have "content = []" if "?n = 0" using pieces_concat [OF assms(1)] that by simp
  ultimately have "Reassemble wr ?chunks = Inr content" by (simp add: Reassemble_def)
  moreover have "first_error 0 (map snd (map (\<lambda>c. (c, None)) ?chunks)) = None" by (simp add: first_error_None)
  ultimately show ?thesis using \<open>?n = 0 \<Longrightarrow> content = []\<close>
    by (simp add: Download_def slots Let_def comp_def)
qed

end
