(* ===== verification/Recovery.thy ===== *)
theory Recovery
  imports FileDownload StoreLaws
begin

text \<open>
  Downloads to a file that survive restarts: \<open>GetDataToFile\<close>, \<open>fastVerifyChunks\<close>,
  \<open>EnsureManifest\<close> and \<open>serialDownloadToFile\<close> of Server/server.go. They compose the resume
  sidecar, the file system, the metadata store, the chunk store and the parallel downloader.
\<close>

section \<open>The manifest\<close>

text \<open>\<open>getman\<close> is \<open>fetchManifestFromPeers\<close>; errors of the two writes are ignored.\<close>

definition EnsureManifest ::
  "'m meta_ops \<Rightarrow> (string \<Rightarrow> string + chunk_manifest) \<Rightarrow> int \<Rightarrow> string \<Rightarrow> 'm \<Rightarrow> (string + chunk_manifest) \<times> 'm" where
  "EnsureManifest ops getman now key m =
     (let fetch = (case getman key of
          Inl e \<Rightarrow> (Inl e, m)
        | Inr manifest \<Rightarrow>
            (let m = snd (MSetManifest ops m key manifest);
                 m = snd (MSet ops m key (zero_meta\<lparr>MChunked := True, MTimestamp := now\<rparr>))
             in (Inr manifest, m)))
      in case MGet ops m key of
           None \<Rightarrow> fetch
         | Some fm \<Rightarrow>
             if MChunked fm then (case MGetManifest ops m key of Some x \<Rightarrow> (Inr x, m) | None \<Rightarrow> fetch) else fetch)"

section \<open>Verification of claimed chunks\<close>

definition chunk_len :: "chunk_manifest \<Rightarrow> nat \<Rightarrow> int" where
  "chunk_len m idx =
     (let remainder = i64 (MTotalSize m - chunk_offset m idx)
      in if int idx = int (length (MChunks m)) - 1 \<and> 0 < remainder \<and> remainder < MChunkSize m then remainder
         else MChunkSize m)"

text \<open>\<open>f.ReadAt\<close> of the whole range, then the hash.\<close>

definition verify_claim :: "(byte list \<Rightarrow> byte list) \<Rightarrow> chunk_manifest \<Rightarrow> byte list \<Rightarrow> nat \<Rightarrow> bool" where
  "verify_claim sha256 m f idx \<longleftrightarrow>
     idx < length (MChunks m) \<and>
     (let offset = chunk_offset m idx; len = chunk_len m idx
      in 0 \<le> offset \<and> nat offset + nat len \<le> length f \<and>
         hex_encode (sha256 (take (nat len) (drop (nat offset) f))) = IHash (MChunks m ! idx))"

text \<open>\<open>None\<close> is the panic of \<open>make\<close> on a negative chunk size.\<close>

definition fastVerifyChunks ::
  "(byte list \<Rightarrow> byte list) \<Rightarrow> string \<Rightarrow> chunk_manifest \<Rightarrow> nat list \<Rightarrow> os \<Rightarrow> nat list option" where
  "fastVerifyChunks sha256 partPath m claimed s =
     (if claimed = [] then Some []
      else case os_ReadFile partPath s of
          Inl e \<Rightarrow> Some []
        | Inr f \<Rightarrow> if MChunkSize m < 0 then None else Some (filter (verify_claim sha256 m f) claimed))"

section \<open>The serial download\<close>

datatype get_error =
    GetManifest string
  | GetPanic
  | GetSidecar sidecar_error
  | GetOs os_error
  | GetDownload dl_error
  | GetCancelled
  | ReadLocal nat store_error
  | FetchChunk nat string
  | DecryptChunk nat string
  | DecompressChunk nat string
  | BadChunk nat
  | WriteChunk nat
  | BadRoot

text \<open>The surroundings of a serial download: the store, the peers, the codecs, and when the context is
  cancelled and writes to the destination fail.\<close>

record 'm serial_env =
  SStore :: "'m chunk_store"
  SMd5 :: "byte list \<Rightarrow> byte list"
  SRnd :: "nat \<Rightarrow> string"
  SFetch :: "nat \<Rightarrow> string \<Rightarrow> string + byte list"
  SDecrypt :: "byte list \<Rightarrow> byte list \<Rightarrow> int \<Rightarrow> string + byte list"
  SDecompress :: "byte list \<Rightarrow> string + byte list"
  SCancelled :: "nat \<Rightarrow> bool"
  SWrites :: "nat \<Rightarrow> bool"

text \<open>The stored bytes of chunk \<open>i\<close>: from the local store, else from the peers (and then kept locally,
  whatever \<open>WriteStream\<close> says).\<close>

definition stored_bytes ::
  "'m serial_env \<Rightarrow> chunk_manifest \<Rightarrow> nat \<Rightarrow> 'm \<Rightarrow> os \<Rightarrow> (get_error + byte list) \<times> 'm \<times> os" where
  "stored_bytes env man i m s =
     (let key = ChunkStorageKey (IEncHash (MChunks man ! i))
      in if Has (SStore env) key m s then
           (case ReadStream (SStore env) key m s of
              Inl e \<Rightarrow> (Inl (ReadLocal i e), m, s)
            | Inr data \<Rightarrow> (Inr data, m, s))
         else case SFetch env i key of
             Inl e \<Rightarrow> (Inl (FetchChunk i e), m, s)
           | Inr data \<Rightarrow>
               (let (_, m, s) = WriteStream (SMd5 env) (SRnd env i) (SStore env) key (Some data) m s
                in (Inr data, m, s)))"

definition open_stored ::
  "(byte list \<Rightarrow> byte list) \<Rightarrow> 'm serial_env \<Rightarrow> chunk_manifest \<Rightarrow> byte list option \<Rightarrow> nat \<Rightarrow> byte list
    \<Rightarrow> get_error + byte list" where
  "open_stored sha256 env man dek i data =
     (let info = MChunks man ! i
      in case (case dek of None \<Rightarrow> Inr data | Some k \<Rightarrow> SDecrypt env data k (IIndex info)) of
           Inl e \<Rightarrow> Inl (DecryptChunk i e)
         | Inr plain \<Rightarrow>
             (case (if ICompressed info then SDecompress env plain else Inr plain) of
                Inl e \<Rightarrow> Inl (DecompressChunk i e)
              | Inr plain \<Rightarrow>
                  if hex_encode (sha256 plain) \<noteq> IHash info then Inl (BadChunk i) else Inr plain))"

definition write_part :: "string \<Rightarrow> nat \<Rightarrow> byte list \<Rightarrow> os \<Rightarrow> os" where
  "write_part p off data s = (case Files s p of None \<Rightarrow> s | Some f \<Rightarrow> set_file p (write_at off data f) s)"

fun serial_loop ::
  "(byte list \<Rightarrow> byte list) \<Rightarrow> 'm serial_env \<Rightarrow> chunk_manifest \<Rightarrow> byte list option \<Rightarrow> string \<Rightarrow> (nat \<Rightarrow> bool)
    \<Rightarrow> resume_sidecar \<Rightarrow> nat list \<Rightarrow> 'm \<Rightarrow> os \<Rightarrow> get_error option \<times> 'm \<times> os" where
  "serial_loop sha256 env man dek part skip sc [] m s = (None, m, s)"
| "serial_loop sha256 env man dek part skip sc (i # is) m s =
     (if SCancelled env i then (Some GetCancelled, m, s)
      else if skip i then serial_loop sha256 env man dek part skip sc is m s
      else (let (res, m, s) = stored_bytes env man i m s
            in case res of
                 Inl e \<Rightarrow> (Some e, m, s)
               | Inr data \<Rightarrow>
                   (case open_stored sha256 env man dek i data of
                      Inl e \<Rightarrow> (Some e, m, s)
                    | Inr plain \<Rightarrow>
                        (let offset = chunk_offset man i
                         in if offset < 0 \<or> \<not> SWrites env i then (Some (WriteChunk i), m, s)
                            else serial_loop sha256 env man dek part skip sc is m
                                   (resume_RecordChunk sc (int i) (write_part part (nat offset) plain s))))))"

definition serialDownloadToFile ::
  "(byte list \<Rightarrow> byte list) \<Rightarrow> 'm serial_env \<Rightarrow> chunk_manifest \<Rightarrow> byte list option \<Rightarrow> string \<Rightarrow> (nat \<Rightarrow> bool)
    \<Rightarrow> resume_sidecar \<Rightarrow> 'm \<Rightarrow> os \<Rightarrow> get_error option \<times> 'm \<times> os" where
  "serialDownloadToFile sha256 env man dek part skip sc m s =
     (case serial_loop sha256 env man dek part skip sc [0..<length (MChunks man)] m s of
        (Some e, m, s) \<Rightarrow> (Some e, m, s)
      | (None, m, s) \<Rightarrow>
          ((if VerifyMerkleRoot sha256 (MChunks man) (MMerkleRoot man) then None else Some BadRoot), m, s))"

section \<open>\<open>GetDataToFile\<close>\<close>

text \<open>The surroundings of the parallel downloader; \<open>POrder\<close> turns the chunks started into the order in
  which their goroutines finish.\<close>

record par_env =
  PCfg :: config
  PEnvs :: "nat \<Rightarrow> dl_env"
  PSels :: "nat \<Rightarrow> selector"
  PCancelled :: "nat \<Rightarrow> bool"
  PWrites :: "nat \<Rightarrow> bool"
  POrder :: "nat list \<Rightarrow> nat list"

text \<open>What happens after a success besides the files: a read repair, and for files in seed mode a seed
  source that is registered with the providers when a state database is open. Progress reports are not
  modelled.\<close>

datatype get_effect = ReadRepair string | RegisterSeed string nat int

text \<open>The boot: the sidecar that is used, the chunks it has verified and the file system.\<close>

definition resume_boot ::
  "resume_header json \<Rightarrow> (byte list \<Rightarrow> byte list) \<Rightarrow> string \<Rightarrow> string \<Rightarrow> chunk_manifest \<Rightarrow> os
    \<Rightarrow> ((resume_sidecar \<times> nat list) option \<times> os) option" where
  "resume_boot J sha256 key filePath man s =
     (case resume_Open J filePath s of
        Inl e \<Rightarrow> Some (None, snd (resume_Cleanup filePath s))
      | Inr None \<Rightarrow> Some (None, s)
      | Inr (Some (existing, claimed)) \<Rightarrow>
          if resume_Matches existing key (MMerkleRoot man) (int (length (MChunks man))) (MTotalSize man) then
            (case fastVerifyChunks sha256 (PartPath filePath) man claimed s of
               None \<Rightarrow> None
             | Some verified \<Rightarrow> Some (Some (existing, verified), s))
          else Some (None, snd (os_Remove (PartPath filePath) (snd (resume_Cleanup filePath s)))))"

text \<open>The download into the open \<open>.part\<close> file.\<close>

definition download_part ::
  "(byte list \<Rightarrow> byte list) \<Rightarrow> par_env option \<Rightarrow> 'm serial_env \<Rightarrow> string \<Rightarrow> chunk_manifest \<Rightarrow> byte list option
    \<Rightarrow> string \<Rightarrow> (nat \<Rightarrow> bool) \<Rightarrow> resume_sidecar \<Rightarrow> 'm \<Rightarrow> os \<Rightarrow> get_error option \<times> 'm \<times> os" where
  "download_part sha256 par ser key man dek part skip sc m s =
     (case par of
        None \<Rightarrow> serialDownloadToFile sha256 ser man dek part skip sc m s
      | Some p \<Rightarrow>
          (let order = POrder p (dispatched (PCancelled p) skip (length (MChunks man)));
               f = (case Files s part of None \<Rightarrow> [] | Some f \<Rightarrow> f);
               (err, st) = DownloadToFileResumable (PCfg p) sha256 (PEnvs p) (PSels p) (PCancelled p) (PWrites p)
                             order key man f skip dek;
               s = record_chunks sc (map fst (recorded st)) (set_file part (dst st) s)
           in (map_option GetDownload err, m, s)))"

definition GetDataToFile ::
  "resume_header json \<Rightarrow> (byte list \<Rightarrow> byte list) \<Rightarrow> 'm meta_ops \<Rightarrow> (string \<Rightarrow> string + chunk_manifest) \<Rightarrow> int
    \<Rightarrow> par_env option \<Rightarrow> 'm serial_env \<Rightarrow> string \<Rightarrow> string \<Rightarrow> byte list option \<Rightarrow> 'm \<Rightarrow> os
    \<Rightarrow> get_error option \<times> get_effect list \<times> 'm \<times> os" where
  "GetDataToFile J sha256 ops getman now par ser key filePath dek m s =
     (case EnsureManifest ops getman now key m of
        (Inl e, m) \<Rightarrow> (Some (GetManifest e), [], m, s)
      | (Inr man, m) \<Rightarrow>
          (let part = PartPath filePath; n = length (MChunks man)
           in case resume_boot J sha256 key filePath man s of
                None \<Rightarrow> (Some GetPanic, [], m, s)
              | Some (boot, s) \<Rightarrow>
                  (case (case boot of
                           Some (sc, verified) \<Rightarrow> (Inr (sc, verified), s)
                         | None \<Rightarrow>
                             (case resume_Create J now filePath key (MMerkleRoot man) (int n) (MTotalSize man) (MChunkSize man) s of
                                (Inl e, s) \<Rightarrow> (Inl e, s)
                              | (Inr sc, s) \<Rightarrow> (Inr (sc, []), s))) of
                     (Inl e, s) \<Rightarrow> (Some (GetSidecar e), [], m, s)
                   | (Inr (sc, verified), s) \<Rightarrow>
                       (case os_open_create part s of
                          (Some e, s) \<Rightarrow> (Some (GetOs e), [], m, s)
                        | (None, s) \<Rightarrow>
                            (case os_truncate part (MTotalSize man) s of
                               (Some e, s) \<Rightarrow> (Some (GetOs e), [], m, s)
                             | (None, s) \<Rightarrow>
                                 (case download_part sha256 par ser key man dek part (\<lambda>i. i \<in> set verified) sc m s of
                                    (Some e, m, s) \<Rightarrow> (Some e, [], m, s)
                                  | (None, m, s) \<Rightarrow>
                                      (let s = snd (resume_Cleanup filePath s)
                                       in case SafeRename part filePath s of
                                            (Some e, s) \<Rightarrow> (Some (GetOs e), [], m, s)
                                          | (None, s) \<Rightarrow>
                                              (None,
                                               ReadRepair key #
                                                 (if MSeedMode man then [RegisterSeed key n (MChunkSize man)] else []),
                                               m, s))))))))"

section \<open>What a verified claim means\<close>

lemma path_distinct [simp]:
  "PartPath p \<noteq> p" "p \<noteq> PartPath p" "SidecarPath p \<noteq> p" "p \<noteq> SidecarPath p"
  "PartPath p \<noteq> SidecarPath p" "SidecarPath p \<noteq> PartPath p"
  by (simp_all add: PartPath_def SidecarPath_def)

lemma chunk_len_piece:
  assumes d: "describes sha256 content N man" and t: "MTotalSize man = int (length content)" "in_i64 (MTotalSize man)"
    and i: "i < length (MChunks man)"
  shows "chunk_len man i = int (length (piece N content i))"
proof -
  have N: "0 < N" "MChunkSize man = int N" using d by (simp_all add: describes_def)
  have off: "chunk_offset man i = int (i * N)" and lt: "i * N < length content"
    using describes_chunks [OF d] i by auto
  have rem: "i64 (int (length content) - int (i * N)) = int (length content) - int (i * N)"
  proof (rule i64_id)
    have "0 < int (length content) - int (i * N)" "int (length content) - int (i * N) \<le> int (length content)"
      using lt by linarith+
    then show "in_i64 (int (length content) - int (i * N))" using t unfolding in_i64_def by linarith
  qed
  show ?thesis
  proof (cases "Suc i = length (MChunks man)")
    case True
    have "\<not> Suc i * N < length content" using describes_chunks(1) [OF d, of "Suc i"] True by simp
    then have le: "length content - i * N \<le> N" by simp
    have pl: "length (piece N content i) = length content - i * N" using le by (simp add: piece_def)
    have "int i = int (length (MChunks man)) - 1" using True by linarith
    then have "chunk_len man i = (if length content - i * N < N then int (length content - i * N) else int N)"
      unfolding chunk_len_def Let_def off t(1) rem N(2) using lt by (auto simp del: of_nat_mult)
    then show ?thesis using pl le by auto
  next
    case False
    then have "Suc i < length (MChunks man)" using i by simp
    then have "Suc i * N < length content" using describes_chunks(1) [OF d] by blast
    then have "length (piece N content i) = N" by (simp add: piece_def)
    moreover have "int i \<noteq> int (length (MChunks man)) - 1" using False by linarith
    ultimately show ?thesis using N by (simp add: chunk_len_def Let_def)
  qed
qed

text \<open>The slice of \<open>f\<close> that chunk \<open>i\<close> covers.\<close>

definition slice_of :: "nat \<Rightarrow> byte list \<Rightarrow> byte list \<Rightarrow> nat \<Rightarrow> byte list" where
  "slice_of N content f i = take (length (piece N content i)) (drop (i * N) f)"

text \<open>\<open>f\<close> holds no second preimage of a chunk hash.\<close>

definition no_forgery :: "(byte list \<Rightarrow> byte list) \<Rightarrow> byte list \<Rightarrow> nat \<Rightarrow> chunk_manifest \<Rightarrow> byte list \<Rightarrow> bool" where
  "no_forgery sha256 content N man f \<longleftrightarrow>
     (\<forall>i < length (MChunks man). sha256 (slice_of N content f i) = sha256 (piece N content i) \<longrightarrow>
        slice_of N content f i = piece N content i)"

lemma chunk_end_le: "i * N < length content \<Longrightarrow> chunk_end N content i \<le> length content"
  by (simp add: chunk_end_def piece_def)

lemma verify_claim_agrees:
  assumes d: "describes sha256 content N man" and t: "MTotalSize man = int (length content)" "in_i64 (MTotalSize man)"
    and nf: "no_forgery sha256 content N man f" and v: "verify_claim sha256 man f i"
  shows "i < length (MChunks man) \<and> agrees content (truncated (length content) f) (i * N) (chunk_end N content i)"
proof -
  have i: "i < length (MChunks man)" using v by (simp add: verify_claim_def)
  note D = describes_chunks [OF d]
  have lt: "i * N < length content" using D(1) i by blast
  have len: "i * N + length (piece N content i) \<le> length f"
      and "hex_encode (sha256 (slice_of N content f i)) = hex_encode (sha256 (piece N content i))"
    using v D(2,3) [OF i] chunk_len_piece [OF d t i]
    by (simp_all add: verify_claim_def slice_of_def Let_def del: of_nat_mult)
  then have eq: "slice_of N content f i = piece N content i" using nf i by (simp add: no_forgery_def)
  have "truncated (length content) f ! j = content ! j" if j: "i * N \<le> j" "j < chunk_end N content i" for j
  proof -
    have k: "j - i * N < length (piece N content i)" using j by (simp add: chunk_end_def)
    have jl: "j < length f" "j < length content"
      using j len chunk_end_le [OF lt] by (simp_all add: chunk_end_def)
    have "f ! j = slice_of N content f i ! (j - i * N)" using k j jl by (simp add: slice_of_def)
    also have "\<dots> = content ! j" unfolding eq using k j jl by (simp add: piece_def)
    finally show ?thesis using nth_truncated [OF jl(1)] jl(2) by simp
  qed
  then show ?thesis using i chunk_end_le [OF lt] by (simp add: agrees_def)
qed

section \<open>Which files a step touches\<close>

lemma RecordChunk_files [simp]:
  "p \<noteq> SidecarPath (ROutputPath sc) \<Longrightarrow> Files (resume_RecordChunk sc i s) p = Files s p"
  "Denied (resume_RecordChunk sc i s) = Denied s"
  by (auto simp: resume_RecordChunk_def os_append_def split: option.split)

lemma record_chunks_Cons [simp]: "record_chunks sc (i # idxs) s = record_chunks sc idxs (resume_RecordChunk sc (int i) s)"
  by (simp add: record_chunks_def)

lemma record_chunks_Nil [simp]: "record_chunks sc [] s = s"
  by (simp add: record_chunks_def)

lemma record_chunks_files [simp]:
  "p \<noteq> SidecarPath (ROutputPath sc) \<Longrightarrow> Files (record_chunks sc idxs s) p = Files s p"
  by (induction idxs arbitrary: s) simp_all

lemma resume_Cleanup_files:
  "p \<noteq> SidecarPath q \<Longrightarrow> Files (snd (resume_Cleanup q s)) p = Files s p"
  "Files (snd (resume_Cleanup q s)) (SidecarPath q) \<noteq> None \<Longrightarrow> refuses s OpRemove (SidecarPath q)"
  by (auto simp: resume_Cleanup_def os_Remove_def split: prod.splits option.splits if_splits)

lemma resume_Open_path: "resume_Open J p s = Inr (Some (sc, claimed)) \<Longrightarrow> ROutputPath sc = p"
  by (auto simp: resume_Open_def Let_def split: sum.splits list.splits option.splits if_splits)

lemma os_Remove_other: "p \<noteq> q \<Longrightarrow> Files (snd (os_Remove q s)) p = Files s p"
  by (simp add: os_Remove_def split: option.split)

text \<open>The boot either verifies claims against the \<open>.part\<close> file as it was, or claims nothing.\<close>

lemma resume_boot_files:
  assumes "resume_boot J sha256 key fp man s = Some (boot, s1)"
  shows "Files s1 fp = Files s fp \<and>
    (\<forall>sc verified. boot = Some (sc, verified) \<longrightarrow> ROutputPath sc = fp \<and> Files s1 (PartPath fp) = Files s (PartPath fp) \<and>
      (\<forall>i \<in> set verified. \<exists>f. Files s (PartPath fp) = Some f \<and> verify_claim sha256 man f i))"
proof (cases "resume_Open J fp s")
  case (Inl e)
  then show ?thesis using assms resume_Cleanup_files(1) [of fp fp s] by (auto simp: resume_boot_def)
next
  case (Inr r)
  show ?thesis
  proof (cases r)
    case None
    then show ?thesis using assms Inr by (auto simp: resume_boot_def)
  next
    case (Some x)
    obtain sc claimed where x: "x = (sc, claimed)" by fastforce
    show ?thesis
    proof (cases "resume_Matches sc key (MMerkleRoot man) (int (length (MChunks man))) (MTotalSize man)")
      case False
      then have "boot = None" "s1 = snd (os_Remove (PartPath fp) (snd (resume_Cleanup fp s)))"
        using assms Inr Some x by (simp_all add: resume_boot_def)
      then show ?thesis using resume_Cleanup_files(1) [of fp fp s] by (simp add: os_Remove_other)
    next
      case True
      then obtain verified where v: "fastVerifyChunks sha256 (PartPath fp) man claimed s = Some verified"
          "boot = Some (sc, verified)" "s1 = s"
        using assms Inr Some x by (auto simp: resume_boot_def split: option.splits)
      have "\<exists>f. Files s (PartPath fp) = Some f \<and> verify_claim sha256 man f i" if "i \<in> set verified" for i
        using v(1) that
        by (auto simp: fastVerifyChunks_def os_ReadFile_def split: if_splits sum.splits option.splits)
      then show ?thesis using v resume_Open_path Inr Some x by auto
    qed
  qed
qed

lemma resume_Create_files:
  assumes "resume_Create J now fp key mr n tsize N s = (r, s')"
  shows "Files s' p = Files s p \<or> p = SidecarPath fp"
    and "\<And>sc. r = Inr sc \<Longrightarrow> ROutputPath sc = fp"
  using assms by (auto simp: resume_Create_def os_create_trunc_def os_append_def Let_def split: if_splits)

text \<open>Opening and truncating the \<open>.part\<close> file.\<close>

lemma open_truncate:
  assumes "os_open_create p s = (None, s1)" and "os_truncate p (int n) s1 = (None, s2)"
  shows "Files s2 = (Files s)(p \<mapsto> truncated n (case Files s p of None \<Rightarrow> [] | Some f \<Rightarrow> f))"
  using assms by (auto simp: os_open_create_def os_truncate_def split: option.splits if_splits)

section \<open>A recovered download\<close>

text \<open>The state in which the download into the \<open>.part\<close> file starts.\<close>

definition ready ::
  "(byte list \<Rightarrow> byte list) \<Rightarrow> string \<Rightarrow> byte list \<Rightarrow> nat \<Rightarrow> chunk_manifest \<Rightarrow> resume_sidecar \<Rightarrow> nat list \<Rightarrow> os \<Rightarrow> os \<Rightarrow> bool" where
  "ready sha256 fp content N man sc verified s s1 \<longleftrightarrow>
     ROutputPath sc = fp \<and> Files s1 fp = Files s fp \<and>
     (\<exists>f. Files s1 (PartPath fp) = Some f \<and> length f = length content \<and>
       (\<forall>i \<in> set verified. i < length (MChunks man) \<and> agrees content f (i * N) (chunk_end N content i)))"

lemma GetDataToFile_ready:
  assumes ens: "EnsureManifest ops getman now key m = (Inr man, m1)"
    and d: "describes sha256 content N man" and t: "MTotalSize man = int (length content)" "in_i64 (MTotalSize man)"
    and nf: "\<forall>f. Files s (PartPath fp) = Some f \<longrightarrow> no_forgery sha256 content N man f"
    and get: "GetDataToFile J sha256 ops getman now par ser key fp dek m s = (err, eff, m', s')"
  shows "(err \<noteq> None \<and> Files s' fp = Files s fp) \<or>
    (\<exists>sc verified s1 err1 m2 s2. ready sha256 fp content N man sc verified s s1 \<and>
      download_part sha256 par ser key man dek (PartPath fp) (\<lambda>i. i \<in> set verified) sc m1 s1 = (err1, m2, s2) \<and>
      (err1 \<noteq> None \<longrightarrow> err = err1 \<and> s' = s2) \<and>
      (err1 = None \<longrightarrow> (\<exists>e. SafeRename (PartPath fp) fp (snd (resume_Cleanup fp s2)) = (e, s') \<and> err = map_option GetOs e)))"
proof (cases "resume_boot J sha256 key fp man s")
  case None
  then have "err = Some GetPanic" "s' = s" using get ens by (simp_all add: GetDataToFile_def)
  then show ?thesis by simp
next
  case (Some b)
  obtain boot s0 where b: "b = (boot, s0)" by fastforce
  note bf = resume_boot_files [OF Some [unfolded b]]
  define made where "made = (case boot of Some (sc, verified) \<Rightarrow> (Inr (sc, verified), s0)
    | None \<Rightarrow> (case resume_Create J now fp key (MMerkleRoot man) (int (length (MChunks man))) (MTotalSize man) (MChunkSize man) s0 of
         (Inl e, s) \<Rightarrow> (Inl e, s) | (Inr sc, s) \<Rightarrow> (Inr (sc, []), s)))"
  have get': "(case made of (Inl e, s) \<Rightarrow> (Some (GetSidecar e), [], m1, s)
     | (Inr (sc, verified), s) \<Rightarrow>
         (case os_open_create (PartPath fp) s of (Some e, s) \<Rightarrow> (Some (GetOs e), [], m1, s)
          | (None, s) \<Rightarrow> (case os_truncate (PartPath fp) (MTotalSize man) s of (Some e, s) \<Rightarrow> (Some (GetOs e), [], m1, s)
             | (None, s) \<Rightarrow> (case download_part sha256 par ser key man dek (PartPath fp) (\<lambda>i. i \<in> set verified) sc m1 s of
                  (Some e, m, s) \<Rightarrow> (Some e, [], m, s)
                | (None, m, s) \<Rightarrow> (let s = snd (resume_Cleanup fp s)
                     in case SafeRename (PartPath fp) fp s of (Some e, s) \<Rightarrow> (Some (GetOs e), [], m, s)
                      | (None, s) \<Rightarrow> (None, ReadRepair key # (if MSeedMode man then [RegisterSeed key (length (MChunks man)) (MChunkSize man)] else []), m, s))))))
     = (err, eff, m', s')"
    using get ens Some b unfolding GetDataToFile_def made_def by (simp add: Let_def)
  obtain r sa where made: "made = (r, sa)" by fastforce
  have fpa: "Files sa fp = Files s fp"
    using made bf resume_Create_files(1) [of J now fp key _ _ _ _ s0 _ sa fp]
    by (auto simp: made_def split: option.splits prod.splits sum.splits)
  show ?thesis
  proof (cases r)
    case (Inl e)
    then show ?thesis using get' made fpa by auto
  next
    case (Inr x)
    obtain sc verified where x: "x = (sc, verified)" by fastforce
    have sc: "ROutputPath sc = fp" and
        ver: "\<forall>i \<in> set verified. \<exists>f. Files s (PartPath fp) = Some f \<and> Files sa (PartPath fp) = Some f \<and> verify_claim sha256 man f i"
      using made Inr x bf resume_Create_files(2) [of J now fp key _ _ _ _ s0 _ sa sc]
      by (auto simp: made_def split: option.splits prod.splits sum.splits)
    obtain oc sb where oc: "os_open_create (PartPath fp) sa = (oc, sb)" by fastforce
    have fpb: "Files sb fp = Files s fp"
      using oc fpa by (auto simp: os_open_create_def split: if_splits option.splits)
    show ?thesis
    proof (cases oc)
      case (Some e)
      then show ?thesis using get' made Inr x oc fpb by auto
    next
      case no_oc: None
      obtain tr s1 where tr: "os_truncate (PartPath fp) (MTotalSize man) sb = (tr, s1)" by fastforce
      have fp1: "Files s1 fp = Files s fp"
        using tr fpb by (auto simp: os_truncate_def split: if_splits option.splits)
      show ?thesis
      proof (cases tr)
        case (Some e)
        then show ?thesis using get' made Inr x oc no_oc tr fp1 by auto
      next
        case None
        let ?f = "truncated (length content) (case Files sa (PartPath fp) of None \<Rightarrow> [] | Some f \<Rightarrow> f)"
        have part: "Files s1 (PartPath fp) = Some ?f"
          using open_truncate [OF oc [unfolded no_oc], of "length content" s1] tr None t(1) by simp
        have "i < length (MChunks man) \<and> agrees content ?f (i * N) (chunk_end N content i)" if i: "i \<in> set verified" for i
        proof -
          obtain f where f: "Files s (PartPath fp) = Some f" "Files sa (PartPath fp) = Some f" "verify_claim sha256 man f i"
            using ver i by blast
          from verify_claim_agrees [OF d t nf [rule_format, OF f(1)] f(3)] show ?thesis using f(2) by simp
        qed
        then have ready: "ready sha256 fp content N man sc verified s s1"
          using sc fp1 part by (simp add: ready_def)
        obtain err1 m2 s2 where dl: "download_part sha256 par ser key man dek (PartPath fp) (\<lambda>i. i \<in> set verified) sc m1 s1
            = (err1, m2, s2)" by (metis prod_cases3)
        obtain e s3 where rn: "SafeRename (PartPath fp) fp (snd (resume_Cleanup fp s2)) = (e, s3)" by fastforce
        have "(err1 \<noteq> None \<longrightarrow> err = err1 \<and> s' = s2) \<and> (err1 = None \<longrightarrow> s' = s3 \<and> err = map_option GetOs e)"
          using get' made Inr x oc no_oc tr None dl rn by (cases err1; cases e) (auto simp: Let_def)
        with ready dl rn show ?thesis by blast
      qed
    qed
  qed
qed

lemma download_part_parallel:
  assumes d: "describes sha256 content N man"
    and coll: "\<forall>i plain. i < length (MChunks man) \<and>
      chunk_result (PCfg p) sha256 (PEnvs p) (PSels p) key man dek i = Inr plain \<and>
      sha256 plain = sha256 (piece N content i) \<longrightarrow> plain = piece N content i"
    and ord: "\<forall>xs. mset (POrder p xs) = mset xs"
    and rdy: "ready sha256 fp content N man sc verified s s1"
    and dl: "download_part sha256 (Some p) ser key man dek (PartPath fp) (\<lambda>i. i \<in> set verified) sc m1 s1 = (err, m2, s2)"
  shows "Files s2 fp = Files s fp \<and>
    (err = None \<and> (\<forall>i < length (MChunks man). \<not> PCancelled p i) \<longrightarrow> Files s2 (PartPath fp) = Some content)"
proof -
  let ?n = "length (MChunks man)" and ?skip = "\<lambda>i. i \<in> set verified"
  obtain f where f: "Files s1 (PartPath fp) = Some f" "length f = length content"
      "\<forall>i \<in> set verified. i < ?n \<and> agrees content f (i * N) (chunk_end N content i)"
    and sc: "ROutputPath sc = fp" "Files s1 fp = Files s fp" using rdy by (auto simp: ready_def)
  define order where "order = POrder p (dispatched (PCancelled p) ?skip ?n)"
  obtain e st where run: "DownloadToFileResumable (PCfg p) sha256 (PEnvs p) (PSels p) (PCancelled p) (PWrites p)
      order key man f ?skip dek = (e, st)" by fastforce
  have eq: "err = map_option GetDownload e" "s2 = record_chunks sc (map fst (recorded st)) (set_file (PartPath fp) (dst st) s1)"
    using dl run f(1) by (simp_all add: download_part_def order_def Let_def)
  have dst: "Files s2 fp = Files s fp" "Files s2 (PartPath fp) = Some (dst st)" using eq(2) sc by simp_all
  have "dst st = content" if "e = None \<and> (\<forall>i < ?n. \<not> PCancelled p i)"
  proof (cases "content = []")
    case True
    then have "?n = 0" using describes_chunks(1) [OF d, of 0] by auto
    then have "st = start_state f 0" using run by (simp add: DownloadToFileResumable_def Let_def)
    then show ?thesis using f(2) True by (simp add: start_state_def)
  next
    case False
    have "\<forall>i < ?n. ?skip i \<longrightarrow> agrees content f (i * N) (chunk_end N content i)" using f(3) by blast
    from resumable_download_exact [OF d coll _ this _ False run] f(2) ord that show ?thesis
      by (simp add: order_def)
  qed
  with dst eq(1) show ?thesis by auto
qed

text \<open>C23. A download to a file that survives restarts. Whatever \<open>.part\<close> file and sidecar text an earlier
  run, a crash or anyone else has left, if \<open>GetDataToFile\<close> returns without an error and its context was not
  cancelled while chunks were started, the file under the final name is the content the manifest
  describes, byte for byte, and the \<open>.part\<close> file is gone; if it returns an error, the file under the final
  name is as it was, unless the final rename failed after it had removed it. The hash is assumed to have no second
  preimage among the bytes fetched and the bytes on disk.\<close>

theorem recovered_download_exact:
  assumes "EnsureManifest ops getman now key m = (Inr man, m1)"
    and "describes sha256 content N man" and "MTotalSize man = int (length content)" and "in_i64 (MTotalSize man)"
    and "\<forall>f. Files s (PartPath fp) = Some f \<longrightarrow> no_forgery sha256 content N man f"
    and "\<forall>i plain. i < length (MChunks man) \<and>
      chunk_result (PCfg p) sha256 (PEnvs p) (PSels p) key man dek i = Inr plain \<and>
      sha256 plain = sha256 (piece N content i) \<longrightarrow> plain = piece N content i"
    and "\<forall>xs. mset (POrder p xs) = mset xs"
    and "GetDataToFile J sha256 ops getman now (Some p) ser key fp dek m s = (err, eff, m', s')"
  shows "(err = None \<and> (\<forall>i < length (MChunks man). \<not> PCancelled p i) \<longrightarrow>
      Files s' fp = Some content \<and> Files s' (PartPath fp) = None) \<and>
    (err \<noteq> None \<longrightarrow> Files s' fp = Files s fp \<or> Files s' fp = None \<and> (\<exists>e. err = Some (GetOs e)))"
  using GetDataToFile_ready [OF assms(1-5,8)]
proof (elim disjE exE conjE)
  fix sc verified s1 err1 m2 s2
  assume rdy: "ready sha256 fp content N man sc verified s s1"
    and dl: "download_part sha256 (Some p) ser key man dek (PartPath fp) (\<lambda>i. i \<in> set verified) sc m1 s1 = (err1, m2, s2)"
    and bad: "err1 \<noteq> None \<longrightarrow> err = err1 \<and> s' = s2"
    and good: "err1 = None \<longrightarrow> (\<exists>e. SafeRename (PartPath fp) fp (snd (resume_Cleanup fp s2)) = (e, s') \<and> err = map_option GetOs e)"
  note dp = download_part_parallel [OF assms(2,6,7) rdy dl]
  show ?thesis
  proof (cases err1)
    case (Some e)
    then show ?thesis using bad dp by simp
  next
    case None
    then obtain e where e: "SafeRename (PartPath fp) fp (snd (resume_Cleanup fp s2)) = (e, s')" "err = map_option GetOs e"
      using good by blast
    have keep: "Files (snd (resume_Cleanup fp s2)) q = Files s2 q" if "q \<in> {fp, PartPath fp}" for q
      using that by (intro resume_Cleanup_files(1)) auto
    show ?thesis
    proof (cases e)
      case (Some x)
      have "Files s' = Files (snd (resume_Cleanup fp s2)) \<or> Files s' = (Files (snd (resume_Cleanup fp s2)))(fp := None)"
        by (rule SafeRename_failed [OF e(1) [unfolded Some]])
      then have "Files s' fp = Files s fp \<or> Files s' fp = None" using keep [of fp] dp by auto
      then show ?thesis using Some e(2) by simp
    next
      case no_err: None
      obtain bs where "Files (snd (resume_Cleanup fp s2)) (PartPath fp) = Some bs"
          "Files s' = (Files (snd (resume_Cleanup fp s2)))(PartPath fp := None, fp \<mapsto> bs)"
        using SafeRename_ok e(1) unfolding no_err by (metis path_distinct(1))
      then show ?thesis using dp None keep e(2) no_err by auto
    qed
  qed
qed auto

text \<open>A \<open>.part\<close> file with two wrong bytes and no sidecar, for the one-byte file of \<open>demo_manifest\<close>.\<close>

definition demo_par :: par_env where
  "demo_par = \<lparr>PCfg = DefaultConfig, PEnvs = (\<lambda>i. demo_env), PSels = (\<lambda>i. sel_New), PCancelled = (\<lambda>i. False),
     PWrites = (\<lambda>i. True), POrder = (\<lambda>xs. xs)\<rparr>"

definition demo_mf :: meta_file where
  "demo_mf = \<lparr>MFPath = ''meta'', MFStore = [], MFDisk = no_files\<rparr>"

lemma demo_total [simp]: "MTotalSize demo_manifest = 1"
  by (simp add: demo_manifest_def BuildManifest_def demo_chunk_def in_i64_def)

lemma demo_download:
  "\<exists>m s2. download_part (\<lambda>b. b) (Some demo_par) ser ''f'' demo_manifest None (PartPath ''v'') (\<lambda>i. False) sc m1
     (set_file (PartPath ''v'') [9] s1) = (None, m, s2) \<and> Files s2 (PartPath ''v'') \<noteq> None \<and> Denied s2 = Denied s1"
proof -
  let ?D = "DownloadToFileResumable DefaultConfig (\<lambda>b. b) (\<lambda>i. demo_env) (\<lambda>i. sel_New) (\<lambda>i. False) (\<lambda>i. True)
    [0] ''f'' demo_manifest [9] (\<lambda>i. False) None"
  have root: "VerifyMerkleRoot (\<lambda>b. b) [demo_chunk] (MMerkleRoot demo_manifest)"
    by (simp add: VerifyMerkleRoot_def demo_manifest_def BuildManifest_def)
  obtain st where st: "?D = (None, st)" and rc: "map fst (recorded st) = [0]"
    using root by (auto simp: DownloadToFileResumable_def finish_download_def finish_chunk_def chunk_offset_def
        start_state_def in_i64_def Let_def)
  show ?thesis using st rc
    by (auto simp: download_part_def demo_par_def dispatched_def Let_def resume_RecordChunk_def os_append_def
        split: option.split)
qed

theorem recovered_download_exact_witness:
  "\<exists>eff m' s'. GetDataToFile (demo_json undefined) (\<lambda>b. b) (mf_ops (demo_json [])) (\<lambda>k. Inr demo_manifest) 0
     (Some demo_par) undefined ''f'' ''v'' None demo_mf (set_file (PartPath ''v'') [9, 9] no_files) = (None, eff, m', s') \<and>
     Files s' ''v'' = Some [7]"
proof -
  let ?s = "set_file (PartPath ''v'') [9, 9] no_files"
  let ?get = "GetDataToFile (demo_json undefined) (\<lambda>b. b) (mf_ops (demo_json [])) (\<lambda>k. Inr demo_manifest) 0
     (Some demo_par) undefined ''f'' ''v'' None demo_mf ?s"
  have nul: "NUL \<notin> set (PartPath ''v'')" "NUL \<notin> set (SidecarPath ''v'')" "NUL \<notin> set ''v''"
    by (simp_all add: PartPath_def SidecarPath_def NUL_def)
  obtain m1 where ens: "EnsureManifest (mf_ops (demo_json [])) (\<lambda>k. Inr demo_manifest) 0 ''f'' demo_mf = (Inr demo_manifest, m1)"
    by (simp add: EnsureManifest_def mf_ops_def mf_Get_def demo_mf_def Let_def)
  have boot: "resume_boot (demo_json undefined) (\<lambda>b. b) ''f'' ''v'' demo_manifest ?s = Some (None, ?s)"
    using nul by (simp add: resume_boot_def resume_Open_def os_ReadFile_def no_files_def refuses_def)
  obtain sc s1 where cr: "resume_Create (demo_json undefined) 0 ''v'' ''f'' (MMerkleRoot demo_manifest) (int (length (MChunks demo_manifest)))
      (MTotalSize demo_manifest) (MChunkSize demo_manifest) ?s = (Inr sc, s1)"
      and s1: "Files s1 (PartPath ''v'') = Some [9, 9]" "Denied s1 = Denied no_files" "Files s1 ''v'' = None"
    using nul by (auto simp: resume_Create_def os_create_trunc_def os_append_def no_files_def refuses_def Let_def)
  have tr: "os_open_create (PartPath ''v'') s1 = (None, s1)"
      "os_truncate (PartPath ''v'') 1 s1 = (None, set_file (PartPath ''v'') [9] s1)"
    using s1 nul by (simp_all add: os_open_create_def os_truncate_def refuses_def no_files_def truncated_def)
  obtain m2 s2 where dl: "download_part (\<lambda>b. b) (Some demo_par) undefined ''f'' demo_manifest None (PartPath ''v'') (\<lambda>i. False) sc m1
     (set_file (PartPath ''v'') [9] s1) = (None, m2, s2)" and s2: "Files s2 (PartPath ''v'') \<noteq> None" "Denied s2 = Denied s1"
    using demo_download [of undefined sc m1 s1] by blast
  have "\<exists>s3. SafeRename (PartPath ''v'') ''v'' (snd (resume_Cleanup ''v'' s2)) = (None, s3)"
  proof -
    define t where "t = snd (resume_Cleanup ''v'' s2)"
    have "Files t (PartPath ''v'') \<noteq> None" using s2(1) resume_Cleanup_files(1) [of "PartPath ''v''" "''v''" s2] by (simp add: t_def)
    moreover have "Denied t = Denied no_files"
      using s2(2) s1(2) by (auto simp: t_def resume_Cleanup_def os_Remove_def split: prod.splits option.splits if_splits)
    ultimately have "\<exists>s3. SafeRename (PartPath ''v'') ''v'' t = (None, s3)" using nul
      by (auto simp: SafeRename_def os_exists_def os_Remove_def os_Rename_def refuses_def no_files_def split: option.splits)
    then show ?thesis by (simp add: t_def)
  qed
  then obtain eff s3 where get: "?get = (None, eff, m2, s3)"
    using ens boot cr tr dl unfolding GetDataToFile_def by (auto simp: Let_def)
  have coll: "\<forall>i plain. i < length (MChunks demo_manifest) \<and>
      chunk_result (PCfg demo_par) (\<lambda>b. b) (PEnvs demo_par) (PSels demo_par) ''f'' demo_manifest None i = Inr plain \<and>
      plain = piece 1 [7] i \<longrightarrow> plain = piece 1 [7] i" by blast
  have nf: "\<forall>f. Files ?s (PartPath ''v'') = Some f \<longrightarrow> no_forgery (\<lambda>b. b) [7] 1 demo_manifest f"
    by (simp add: no_forgery_def)
  have "Files s3 ''v'' = Some [7]"
    using recovered_download_exact [OF ens demo_manifest_describes _ _ nf coll _ get] by (simp add: demo_par_def in_i64_def)
  with get show ?thesis by blast
qed

section \<open>The serial fallback\<close>

text \<open>The store keeps its files away from the path \<open>p\<close>.\<close>

definition store_apart :: "'m serial_env \<Rightarrow> string \<Rightarrow> bool" where
  "store_apart env p \<longleftrightarrow> (\<forall>key data i.
     stream_path (SMd5 env) (SStore env) key data \<noteq> p \<and>
     path_Join (path_Join (Root (SStore env)) (pathname (PathTransformFunc (SStore env) key))) (''temp-'' @ SRnd env i) \<noteq> p)"

lemma SafeRename_other:
  "p \<noteq> a \<Longrightarrow> p \<noteq> b \<Longrightarrow> SafeRename a b s = (e, s') \<Longrightarrow> Files s' p = Files s p"
  by (auto simp: SafeRename_def os_Remove_def os_Rename_def split: if_splits option.splits)

lemma stored_bytes_files:
  assumes "store_apart env p" and "stored_bytes env man i m s = (r, m', s')"
  shows "Files s' p = Files s p"
proof -
  have "Files (snd (snd (WriteStream (SMd5 env) (SRnd env i) (SStore env) key (Some data) m s))) p = Files s p" for key data
  proof -
    let ?t = "path_Join (path_Join (Root (SStore env)) (pathname (PathTransformFunc (SStore env) key))) (''temp-'' @ SRnd env i)"
    have ne: "p \<noteq> ?t" "p \<noteq> stream_path (SMd5 env) (SStore env) key data"
      using assms(1) by (auto simp: store_apart_def)
    obtain e s1 where r: "SafeRename ?t (stream_path (SMd5 env) (SStore env) key data) (set_file ?t data s) = (e, s1)" by fastforce
    have "Files s1 p = Files s p" using SafeRename_other [OF ne r] ne by simp
    then show ?thesis using r ne
      by (auto simp: WriteStream_def Let_def os_Remove_other split: option.splits prod.splits)
  qed
  then show ?thesis using assms(2)
    by (auto simp: stored_bytes_def Let_def split: if_splits sum.splits prod.splits) (metis snd_conv)
qed

lemma serial_loop_agrees:
  assumes d: "describes sha256 content N man"
    and pre: "\<forall>i data plain. i < length (MChunks man) \<and> open_stored sha256 env man dek i data = Inr plain \<and>
      sha256 plain = sha256 (piece N content i) \<longrightarrow> plain = piece N content i"
    and ap: "store_apart env (PartPath fp)" "store_apart env fp" and sc: "ROutputPath sc = fp"
    and "\<forall>i \<in> set is. i < length (MChunks man)"
    and "Files s (PartPath fp) = Some f" and "length f = length content"
    and "\<forall>i \<in> have. agrees content f (i * N) (chunk_end N content i)"
    and "serial_loop sha256 env man dek (PartPath fp) skip sc is m s = (err, m', s')"
  shows "Files s' fp = Files s fp \<and> (\<exists>f'. Files s' (PartPath fp) = Some f' \<and> length f' = length content \<and>
    (err = None \<longrightarrow> (\<forall>i \<in> have \<union> {i \<in> set is. \<not> skip i}. agrees content f' (i * N) (chunk_end N content i))))"
  using assms(6-10)
proof (induction "is" arbitrary: m s f "have")
  case Nil
  then show ?case by auto
next
  case (Cons i "is")
  obtain r m1 s1 where sb: "stored_bytes env man i m s = (r, m1, s1)" by (metis prod_cases3)
  have keep: "Files s1 (PartPath fp) = Some f" "Files s1 fp = Files s fp"
    using stored_bytes_files [OF ap(1) sb] stored_bytes_files [OF ap(2) sb] Cons.prems(2) by simp_all
  have i: "i < length (MChunks man)" "\<forall>i \<in> set is. i < length (MChunks man)" using Cons.prems(1) by simp_all
  show ?case
  proof (cases "SCancelled env i \<or> skip i")
    case True
    then show ?thesis
    proof (cases "SCancelled env i")
      case False
      with True have "skip i" by blast
      with Cons.IH [OF i(2) Cons.prems(2-4)] Cons.prems(5) False
      have "Files s' fp = Files s fp \<and> (\<exists>f'. Files s' (PartPath fp) = Some f' \<and> length f' = length content \<and>
          (err = None \<longrightarrow> (\<forall>i \<in> have \<union> {i \<in> set is. \<not> skip i}. agrees content f' (i * N) (chunk_end N content i))))"
        by simp
      moreover have "{j \<in> set (i # is). \<not> skip j} = {j \<in> set is. \<not> skip j}" using \<open>skip i\<close> by auto
      ultimately show ?thesis by simp
    qed (use Cons.prems in auto)
  next
    case False
    show ?thesis
    proof (cases r)
      case (Inl e)
      then show ?thesis using Cons.prems False sb keep by auto
    next
      case (Inr data)
      show ?thesis
      proof (cases "open_stored sha256 env man dek i data")
        case (Inl e)
        then show ?thesis using Cons.prems False sb keep Inr by auto
      next
        case plain: (Inr plain)
        note D = describes_chunks [OF d]
        have off: "chunk_offset man i = int (i * N)" and lt: "i * N < length content" using D i(1) by auto
        have "hex_encode (sha256 plain) = IHash (MChunks man ! i)"
          using plain by (auto simp: open_stored_def Let_def split: sum.splits if_splits)
        then have "sha256 plain = sha256 (piece N content i)" using D(2) [OF i(1)] by simp
        then have pl: "plain = piece N content i" using pre plain i(1) by blast
        define s2 where "s2 = resume_RecordChunk sc (int i) (write_part (PartPath fp) (i * N) plain s1)"
        show ?thesis
        proof (cases "SWrites env i")
          case no_write: False
          then show ?thesis using Cons.prems False sb keep Inr plain off by auto
        next
          case True
          then have rest: "serial_loop sha256 env man dek (PartPath fp) skip sc is m1 s2 = (err, m', s')"
            using Cons.prems(5) False sb Inr plain off by (simp add: s2_def Let_def del: of_nat_mult)
          have f2: "Files s2 (PartPath fp) = Some (write_at (i * N) plain f)" "Files s2 fp = Files s fp"
            using keep sc by (simp_all add: s2_def write_part_def)
          have "length f \<le> length content" using Cons.prems(3) by simp
          note wp = write_piece [OF lt this]
          have len: "length (write_at (i * N) plain f) = length content"
            using Cons.prems(3) lt unfolding pl by (simp add: piece_def)
          have ag: "\<forall>j \<in> insert i have. agrees content (write_at (i * N) plain f) (j * N) (chunk_end N content j)"
            using wp(2,3) Cons.prems(4) unfolding pl by blast
          from Cons.IH [OF i(2) f2(1) len ag rest] f2(2) show ?thesis by auto
        qed
      qed
    qed
  qed
qed

text \<open>Without a downloader the same holds, and success even when the context was cancelled: the serial loop
  returns the error of a cancelled context.\<close>

lemma serial_recovered_download_exact:
  assumes "EnsureManifest ops getman now key m = (Inr man, m1)"
    and d: "describes sha256 content N man" and "MTotalSize man = int (length content)" and "in_i64 (MTotalSize man)"
    and "\<forall>f. Files s (PartPath fp) = Some f \<longrightarrow> no_forgery sha256 content N man f"
    and pre: "\<forall>i data plain. i < length (MChunks man) \<and> open_stored sha256 env man dek i data = Inr plain \<and>
      sha256 plain = sha256 (piece N content i) \<longrightarrow> plain = piece N content i"
    and ap: "store_apart env (PartPath fp)" "store_apart env fp"
    and "GetDataToFile J sha256 ops getman now None env key fp dek m s = (None, eff, m', s')"
  shows "Files s' fp = Some content \<and> Files s' (PartPath fp) = None"
proof -
  obtain sc verified s1 m2 s2 where rdy: "ready sha256 fp content N man sc verified s s1"
    and dl: "download_part sha256 None env key man dek (PartPath fp) (\<lambda>i. i \<in> set verified) sc m1 s1 = (None, m2, s2)"
    and rn: "SafeRename (PartPath fp) fp (snd (resume_Cleanup fp s2)) = (None, s')"
    using GetDataToFile_ready [OF assms(1-5,9)] by fastforce
  obtain f where f: "Files s1 (PartPath fp) = Some f" "length f = length content"
      "\<forall>i \<in> set verified. agrees content f (i * N) (chunk_end N content i)" and sc: "ROutputPath sc = fp"
    using rdy by (auto simp: ready_def)
  have loop: "serial_loop sha256 env man dek (PartPath fp) (\<lambda>i. i \<in> set verified) sc [0..<length (MChunks man)] m1 s1 = (None, m2, s2)"
    using dl by (auto simp: download_part_def serialDownloadToFile_def split: prod.splits option.splits if_splits)
  have "\<forall>i \<in> set [0..<length (MChunks man)]. i < length (MChunks man)" by simp
  from serial_loop_agrees [OF d pre ap sc this f(1,2,3) loop]
  obtain f' where f': "Files s2 (PartPath fp) = Some f'" "length f' = length content"
      "\<forall>i \<in> set verified \<union> {i \<in> set [0..<length (MChunks man)]. i \<notin> set verified}. agrees content f' (i * N) (chunk_end N content i)"
    by blast
  have "f' = content"
  proof (rule agrees_all)
    show "\<forall>i. i * N < length content \<longrightarrow> agrees content f' (i * N) (chunk_end N content i)"
      using f'(3) describes_chunks(1) [OF d] by auto
  qed (use f'(2) d in \<open>simp_all add: describes_def\<close>)
  moreover have "Files (snd (resume_Cleanup fp s2)) (PartPath fp) = Files s2 (PartPath fp)"
    by (rule resume_Cleanup_files(1)) simp
  ultimately show ?thesis using SafeRename_ok [OF rn] f'(1) by auto
qed

text \<open>With the parallel downloader a context cancelled before the first chunk yields a success, and a file of
  zeros under the final name: pausing a download can publish an incomplete file.\<close>

lemma cancelled_download_is_published:
  assumes "PCancelled p 0" and "\<forall>xs. mset (POrder p xs) = mset xs" and "0 < length (MChunks man)"
    and "VerifyMerkleRoot sha256 (MChunks man) (MMerkleRoot man)"
    and "Files s1 part = Some f"
  shows "\<exists>s2. download_part sha256 (Some p) ser key man dek part (\<lambda>i. False) sc m1 s1 = (None, m1, s2) \<and>
    (part \<noteq> SidecarPath (ROutputPath sc) \<longrightarrow> Files s2 part = Some f)"
proof -
  let ?n = "length (MChunks man)"
  have "dispatched (PCancelled p) (\<lambda>i. False) ?n = []"
    using assms(1,3) by (cases ?n) (simp_all add: dispatched_def upt_conv_Cons del: upt_Suc)
  moreover have "POrder p [] = []" using assms(2) by (metis mset.simps(1) mset_zero_iff)
  moreover have "first_error 0 (replicate ?n None) = None" by (simp add: first_error_None)
  then have "\<exists>st. DownloadToFileResumable cfg sha256 envs sels c wr [] key man f (\<lambda>i. False) dek = (None, st) \<and>
      dst st = f \<and> recorded st = []" for cfg envs sels c wr
    using assms(3,4) by (simp add: DownloadToFileResumable_def finish_download_def start_state_def Let_def)
  ultimately show ?thesis using assms(5)
    by (auto simp: download_part_def Let_def split: prod.splits) (metis Pair_inject)+
qed

end
