(* ===== verification/Crypto.thy ===== *)
theory Crypto
  imports Files
begin

text \<open>
  The encryption of chunks (Crypto/crypto.go), the wrapping of data encryption keys and the
  signatures of manifests (Crypto/envelope/envelope.go).

  AES-GCM, X25519, HKDF, Ed25519, SHA-256 and the JSON printer are the parameters; the code relies
  on the laws \<open>aead_ok\<close> of AES-GCM: a ciphertext opens exactly to the plaintext it is the seal of, and
  is 16 bytes longer. A buffer written to never fails; the source of a stream is its bytes and
  whether it then fails with an error other than end of file.
\<close>

section \<open>AES-GCM\<close>

record aead =
  Seal :: "byte list \<Rightarrow> byte list \<Rightarrow> byte list \<Rightarrow> byte list"
  Open :: "byte list \<Rightarrow> byte list \<Rightarrow> byte list \<Rightarrow> byte list option"

text \<open>\<open>aes.NewCipher\<close> takes keys of these lengths, and \<open>cipher.NewGCM\<close> then succeeds.\<close>

definition key_ok :: "byte list \<Rightarrow> bool" where
  "key_ok k \<longleftrightarrow> length k = 16 \<or> length k = 24 \<or> length k = 32"

definition NonceSize :: nat where
  "NonceSize = 12"

definition aead_ok :: "aead \<Rightarrow> bool" where
  "aead_ok A \<longleftrightarrow> (\<forall>k n p c. key_ok k \<longrightarrow> length n = NonceSize \<longrightarrow>
     length (Seal A k n p) = length p + 16 \<and> (Open A k n c = Some p \<longleftrightarrow> c = Seal A k n p))"

datatype crypto_error =
    BadKey nat
  | ReadFailed
  | ShortHeader
  | ChunkTooSmall
  | ShortChunk
  | NonceMismatch
  | OpenFailed
  | BadRecipientHex
  | BadRecipientLength
  | BadWrappedHex
  | WrappedTooShort
  | ECDHFailed
  | HKDFFailed
  | RandFailed
  | BadEdHex
  | BadEdLength
  | BadSigHex
  | BadSigLength

section \<open>Streams\<close>

definition ChunkSize :: nat where
  "ChunkSize = 4 * 1024 * 1024"

text \<open>\<open>binary.LittleEndian\<close>\<close>

definition le_bytes :: "nat \<Rightarrow> nat \<Rightarrow> byte list" where
  "le_bytes k n = rev (be_bytes k n)"

definition le_nat :: "byte list \<Rightarrow> nat" where
  "le_nat bs = be_nat (rev bs)"

lemma length_le_bytes [simp]: "length (le_bytes k n) = k"
  by (simp add: le_bytes_def)

lemma le_nat_le_bytes [simp]: "le_nat (le_bytes k n) = n mod 256 ^ k"
  by (simp add: le_nat_def le_bytes_def)

lemma be_bytes_be_nat: "be_bytes (length bs) (be_nat bs) = bs"
proof (induction bs rule: rev_induct)
  case (snoc b bs)
  have "(256 * be_nat bs + unat b) div 256 = be_nat bs" "(256 * be_nat bs + unat b) mod 256 = unat b"
    by (simp_all add: div_mult_self3)
  then show ?case using snoc.IH by simp
qed simp

lemma le_bytes_le_nat: "le_bytes (length bs) (le_nat bs) = bs"
  using be_bytes_be_nat [of "rev bs"] by (simp add: le_bytes_def le_nat_def)

text \<open>The nonce of the internal chunk \<open>idx\<close>: its counter in the first eight of twelve bytes.\<close>

definition nonce_of :: "uint64 \<Rightarrow> byte list" where
  "nonce_of idx = le_bytes 8 (unat idx) @ replicate (NonceSize - 8) 0"

definition frame :: "aead \<Rightarrow> byte list \<Rightarrow> uint64 \<Rightarrow> byte list \<Rightarrow> byte list" where
  "frame A dek idx plain =
     (let nonce = nonce_of idx;
          ciphertext = Seal A dek nonce plain;
          chunkSize = (word_of_nat (NonceSize + length ciphertext) :: uint32)
      in le_bytes 4 (unat chunkSize) @ nonce @ ciphertext)"

text \<open>The loop of \<open>EncryptStreamWithDEK\<close>: \<open>io.ReadFull\<close> fills the buffer or stops at the end of the source.
  The result is the error and what was written.\<close>

function encrypt_loop ::
  "aead \<Rightarrow> byte list \<Rightarrow> bool \<Rightarrow> uint64 \<Rightarrow> byte list \<Rightarrow> crypto_error option \<times> byte list" where
  "encrypt_loop A dek fails idx rest =
     (if ChunkSize \<le> length rest then
        (let (err, out) = encrypt_loop A dek fails (idx + 1) (drop ChunkSize rest)
         in (err, frame A dek idx (take ChunkSize rest) @ out))
      else ((if fails then Some ReadFailed else None), if rest \<noteq> [] then frame A dek idx rest else []))"
  by pat_completeness auto
termination
  by (relation "measure (\<lambda>(A, dek, fails, idx, rest). length rest)") (auto simp: ChunkSize_def)

declare encrypt_loop.simps [simp del]

definition EncryptStreamWithDEK ::
  "aead \<Rightarrow> byte list \<Rightarrow> bool \<Rightarrow> byte list \<Rightarrow> uint64 \<Rightarrow> crypto_error option \<times> byte list" where
  "EncryptStreamWithDEK A src fails dek nonceOffset =
     (if \<not> key_ok dek then (Some (BadKey (length dek)), [])
      else encrypt_loop A dek fails nonceOffset src)"

text \<open>The loop of \<open>DecryptStreamWithDEK\<close>.\<close>

function decrypt_loop :: "aead \<Rightarrow> byte list \<Rightarrow> uint64 \<Rightarrow> byte list \<Rightarrow> crypto_error option \<times> byte list" where
  "decrypt_loop A dek idx src =
     (if src = [] then (None, [])
      else if length src < 4 then (Some ShortHeader, [])
      else
        (let chunkSize = le_nat (take 4 src); chunkData = take chunkSize (drop 4 src)
         in if chunkSize < NonceSize then (Some ChunkTooSmall, [])
            else if length chunkData < chunkSize then (Some ShortChunk, [])
            else
              (let nonce = take NonceSize chunkData; ciphertext = drop NonceSize chunkData
               in if nonce \<noteq> nonce_of idx then (Some NonceMismatch, [])
                  else case Open A dek nonce ciphertext of
                      None \<Rightarrow> (Some OpenFailed, [])
                    | Some plaintext \<Rightarrow>
                        (let (err, out) = decrypt_loop A dek (idx + 1) (drop (4 + chunkSize) src)
                         in (err, plaintext @ out)))))"
  by pat_completeness auto
termination
  by (relation "measure (\<lambda>(A, dek, idx, src). length src)") auto

declare decrypt_loop.simps [simp del]

definition DecryptStreamWithDEK ::
  "aead \<Rightarrow> byte list \<Rightarrow> byte list \<Rightarrow> uint64 \<Rightarrow> crypto_error option \<times> byte list" where
  "DecryptStreamWithDEK A src dek nonceOffset =
     (if \<not> key_ok dek then (Some (BadKey (length dek)), []) else decrypt_loop A dek nonceOffset src)"

text \<open>\<open>EncryptStreamWithDEKPool\<close>: each seal is appended to a borrowed slab that was cut to length zero.
  \<open>None\<close> is a nil pool. The contents a slab comes with (\<open>slab\<close>) do not matter.\<close>

definition seal_into :: "aead \<Rightarrow> byte list \<Rightarrow> byte list \<Rightarrow> byte list \<Rightarrow> byte list \<Rightarrow> byte list" where
  "seal_into A slab dek nonce plain = take 0 slab @ Seal A dek nonce plain"

function pool_loop ::
  "aead \<Rightarrow> byte list \<Rightarrow> bool \<Rightarrow> byte list \<Rightarrow> uint64 \<Rightarrow> byte list \<Rightarrow> crypto_error option \<times> byte list" where
  "pool_loop A dek fails slab idx rest =
     (let n = min ChunkSize (length rest);
          nonce = nonce_of idx;
          ciphertext = seal_into A slab dek nonce (take n rest);
          chunkSize = (word_of_nat (NonceSize + length ciphertext) :: uint32);
          out = (if 0 < n then le_bytes 4 (unat chunkSize) @ nonce @ ciphertext else [])
      in if n < ChunkSize then ((if fails then Some ReadFailed else None), out)
         else (let (err, more) = pool_loop A dek fails ciphertext (idx + 1) (drop n rest) in (err, out @ more)))"
  by pat_completeness auto
termination
  by (relation "measure (\<lambda>(A, dek, fails, slab, idx, rest). length rest)") (auto simp: ChunkSize_def)

declare pool_loop.simps [simp del]

definition EncryptStreamWithDEKPool ::
  "aead \<Rightarrow> byte list option \<Rightarrow> byte list \<Rightarrow> bool \<Rightarrow> byte list \<Rightarrow> uint64 \<Rightarrow> crypto_error option \<times> byte list" where
  "EncryptStreamWithDEKPool A pool src fails dek nonceOffset =
     (case pool of
        None \<Rightarrow> EncryptStreamWithDEK A src fails dek nonceOffset
      | Some slab \<Rightarrow>
          if \<not> key_ok dek then (Some (BadKey (length dek)), []) else pool_loop A dek fails slab nonceOffset src)"

section \<open>Envelopes\<close>

record access_key =
  KRecipientPubKey :: string
  KWrappedDEK :: string

text \<open>The key agreement and derivation of \<open>golang.org/x/crypto\<close>: \<open>X25519 priv pub\<close> fails on points of
  small order, \<open>HKDF secret info n\<close> is the \<open>n\<close> bytes read.\<close>

record kdf =
  X25519 :: "byte list \<Rightarrow> byte list \<Rightarrow> byte list option"
  HKDF :: "byte list \<Rightarrow> string \<Rightarrow> nat \<Rightarrow> byte list option"

definition deriveWrapKey :: "kdf \<Rightarrow> byte list \<Rightarrow> crypto_error + byte list" where
  "deriveWrapKey K shared = (case HKDF K shared ''dfs-dek-wrap'' 32 of None \<Rightarrow> Inl HKDFFailed | Some k \<Rightarrow> Inr k)"

text \<open>The steps both directions share: agreement, derivation and the construction of the cipher.\<close>

definition agree :: "kdf \<Rightarrow> byte list \<Rightarrow> byte list \<Rightarrow> crypto_error + byte list" where
  "agree K priv pub =
     (case X25519 K priv pub of
        None \<Rightarrow> Inl ECDHFailed
      | Some shared \<Rightarrow>
          (case deriveWrapKey K shared of
             Inl e \<Rightarrow> Inl e
           | Inr wrapKey \<Rightarrow> if key_ok wrapKey then Inr wrapKey else Inl (BadKey (length wrapKey))))"

text \<open>\<open>rnd\<close> is the nonce \<open>rand.Read\<close> delivers.\<close>

definition WrapDEKForRecipient ::
  "kdf \<Rightarrow> aead \<Rightarrow> byte list option \<Rightarrow> byte list \<Rightarrow> string \<Rightarrow> byte list \<Rightarrow> crypto_error + access_key" where
  "WrapDEKForRecipient K A rnd senderPriv recipientPubHex dek =
     (case hex_decode recipientPubHex of
        None \<Rightarrow> Inl BadRecipientHex
      | Some recipientPub \<Rightarrow>
          if length recipientPub \<noteq> 32 then Inl BadRecipientLength
          else (case agree K senderPriv recipientPub of
              Inl e \<Rightarrow> Inl e
            | Inr wrapKey \<Rightarrow>
                (case rnd of
                   None \<Rightarrow> Inl RandFailed
                 | Some nonce \<Rightarrow>
                     (let wrapped = nonce @ Seal A wrapKey nonce dek
                      in Inr \<lparr>KRecipientPubKey = recipientPubHex, KWrappedDEK = hex_encode wrapped\<rparr>))))"

definition UnwrapDEK ::
  "kdf \<Rightarrow> aead \<Rightarrow> byte list \<Rightarrow> string \<Rightarrow> string \<Rightarrow> crypto_error + byte list" where
  "UnwrapDEK K A recipientPriv senderPubHex wrappedDEKHex =
     (case hex_decode senderPubHex of
        None \<Rightarrow> Inl BadRecipientHex
      | Some senderPub \<Rightarrow>
          if length senderPub \<noteq> 32 then Inl BadRecipientLength
          else (case hex_decode wrappedDEKHex of
              None \<Rightarrow> Inl BadWrappedHex
            | Some wrappedDEK \<Rightarrow>
                (case agree K recipientPriv senderPub of
                   Inl e \<Rightarrow> Inl e
                 | Inr wrapKey \<Rightarrow>
                     if length wrappedDEK < NonceSize then Inl WrappedTooShort
                     else (case Open A wrapKey (take NonceSize wrappedDEK) (drop NonceSize wrappedDEK) of
                         None \<Rightarrow> Inl OpenFailed
                       | Some dek \<Rightarrow> Inr dek))))"

section \<open>Signatures\<close>

record signing_payload =
  PAccessList :: "access_key list"
  PEncrypted :: bool
  PFileKey :: string
  POwnerPubKey :: string

text \<open>\<open>payload_json\<close> is \<open>json.Marshal\<close>, which cannot fail on this struct.\<close>

record signer =
  payload_json :: "signing_payload \<Rightarrow> string"
  sha :: "byte list \<Rightarrow> byte list"
  ed_Sign :: "byte list \<Rightarrow> byte list \<Rightarrow> byte list"
  ed_Verify :: "byte list \<Rightarrow> byte list \<Rightarrow> byte list \<Rightarrow> bool"

definition SignManifest :: "signer \<Rightarrow> byte list \<Rightarrow> signing_payload \<Rightarrow> string" where
  "SignManifest S edPriv payload = hex_encode (ed_Sign S edPriv (sha S (bytes_of (payload_json S payload))))"

definition VerifyManifest :: "signer \<Rightarrow> string \<Rightarrow> signing_payload \<Rightarrow> string \<Rightarrow> crypto_error + bool" where
  "VerifyManifest S edPubHex payload sigHex =
     (case hex_decode edPubHex of
        None \<Rightarrow> Inl BadEdHex
      | Some edPub \<Rightarrow>
          if length edPub \<noteq> 32 then Inl BadEdLength
          else (case hex_decode sigHex of
              None \<Rightarrow> Inl BadSigHex
            | Some sig \<Rightarrow>
                if length sig \<noteq> 64 then Inl BadSigLength
                else Inr (ed_Verify S edPub (sha S (bytes_of (payload_json S payload))) sig)))"

section \<open>What decryption accepts\<close>

lemma length_nonce_of [simp]: "length (nonce_of idx) = NonceSize"
  by (simp add: nonce_of_def NonceSize_def)

lemma nonce_of_inject [simp]: "nonce_of i = nonce_of j \<longleftrightarrow> i = j"
proof
  assume "nonce_of i = nonce_of j"
  then have "le_bytes 8 (unat i) = le_bytes 8 (unat j)" by (simp add: nonce_of_def)
  then have "le_nat (le_bytes 8 (unat i)) = le_nat (le_bytes 8 (unat j))" by simp
  moreover have "unat k < 18446744073709551616" for k :: uint64 using unsigned_less [of k, where ?'a = nat] by simp
  ultimately show "i = j" by (simp add: word_unat_eq_iff)
qed simp

lemma aead_okD:
  assumes "aead_ok A" and "key_ok k" and "length n = NonceSize"
  shows "length (Seal A k n p) = length p + 16" and "Open A k n c = Some p \<longleftrightarrow> c = Seal A k n p"
  using assms by (simp_all add: aead_ok_def)

text \<open>The longest plaintext whose frame has a size that fits its four bytes.\<close>

definition fits_frame :: "byte list \<Rightarrow> bool" where
  "fits_frame p \<longleftrightarrow> length p + 28 < 2 ^ 32"

fun frames :: "aead \<Rightarrow> byte list \<Rightarrow> uint64 \<Rightarrow> byte list list \<Rightarrow> byte list" where
  "frames A dek idx [] = []"
| "frames A dek idx (p # ps) = frame A dek idx p @ frames A dek (idx + 1) ps"

lemma frame_layout:
  assumes "aead_ok A" and "key_ok dek" and "fits_frame p"
  shows "frame A dek idx p = le_bytes 4 (length p + 28) @ nonce_of idx @ Seal A dek (nonce_of idx) p"
proof -
  have "unat (word_of_nat (NonceSize + length (Seal A dek (nonce_of idx) p)) :: uint32) = length p + 28"
    using aead_okD(1) [OF assms(1,2) length_nonce_of] assms(3)
    by (simp add: fits_frame_def NonceSize_def unat_of_nat del: of_nat_add)
  then show ?thesis by (simp only: frame_def Let_def)
qed

lemma decrypt_frame:
  assumes A: "aead_ok A" "key_ok dek" and p: "fits_frame p"
  shows "decrypt_loop A dek idx (frame A dek idx p @ rest) =
    (let (err, out) = decrypt_loop A dek (idx + 1) rest in (err, p @ out))"
proof -
  let ?ct = "Seal A dek (nonce_of idx) p"
  have len: "length ?ct = length p + 16" by (rule aead_okD(1) [OF A length_nonce_of])
  let ?src = "frame A dek idx p @ rest"
  have src: "?src = le_bytes 4 (length p + 28) @ (nonce_of idx @ ?ct) @ rest" by (simp add: frame_layout [OF A p])
  have "le_nat (take 4 ?src) = (length p + 28) mod 256 ^ 4" unfolding src by simp
  then have size: "le_nat (take 4 ?src) = length p + 28" using p by (simp add: fits_frame_def)
  have long: "length ?src = 4 + (length p + 28) + length rest" unfolding src by (simp add: len NonceSize_def)
  then have "?src \<noteq> []" "\<not> length ?src < 4" by (auto simp only: length_0_conv [symmetric])
  moreover have "take (length p + 28) (drop 4 ?src) = nonce_of idx @ ?ct" "drop (4 + (length p + 28)) ?src = rest"
    unfolding src by (simp_all add: len NonceSize_def)
  moreover have "Open A dek (nonce_of idx) ?ct = Some p" using aead_okD(2) [OF A length_nonce_of] by simp
  moreover have "\<not> length p + 28 < NonceSize" "length (nonce_of idx @ ?ct) = length p + 28"
      "take NonceSize (nonce_of idx @ ?ct) = nonce_of idx" "drop NonceSize (nonce_of idx @ ?ct) = ?ct"
    by (simp_all add: len NonceSize_def)
  ultimately show ?thesis
    by (subst decrypt_loop.simps) (simp only: Let_def size if_False less_irrefl refl option.case not_True_eq_False)
qed

lemma decrypt_frames:
  assumes "aead_ok A" and "key_ok dek" and "\<forall>p \<in> set ps. fits_frame p"
  shows "decrypt_loop A dek idx (frames A dek idx ps) = (None, concat ps)"
  using assms(3)
proof (induction ps arbitrary: idx)
  case Nil
  show ?case by (simp add: decrypt_loop.simps [of A dek idx "[]"])
next
  case (Cons p ps)
  then show ?case using decrypt_frame [OF assms(1,2), of p idx "frames A dek (idx + 1) ps"] by simp
qed

lemma decrypt_accepts:
  assumes "aead_ok A" and "key_ok dek" and "decrypt_loop A dek idx src = (None, out)"
  shows "\<exists>ps. src = frames A dek idx ps \<and> out = concat ps \<and> (\<forall>p \<in> set ps. fits_frame p)"
  using assms
proof (induction A dek idx src arbitrary: out rule: decrypt_loop.induct)
  case (1 A dek idx src)
  show ?case
  proof (cases "src = []")
    case True
    then have "out = []" using "1.prems"(3) by (simp add: decrypt_loop.simps [of A dek idx "[]"])
    then show ?thesis using True by (intro exI [of _ "[]"]) simp
  next
    case False
    define n where "n = le_nat (take 4 src)"
    define d where "d = take n (drop 4 src)"
    note step = "1.prems"(3) [unfolded decrypt_loop.simps [of A dek idx src], folded n_def, unfolded Let_def, folded n_def d_def]
    have len: "4 \<le> length src" and n: "NonceSize \<le> n" and d: "length d = n" and nonce: "take NonceSize d = nonce_of idx"
      using step False unfolding d_def by (simp_all split: if_splits option.splits prod.splits)
    obtain p more where p: "Open A dek (nonce_of idx) (drop NonceSize d) = Some p"
        and more: "decrypt_loop A dek (idx + 1) (drop (4 + n) src) = (None, more)" "out = p @ more"
      using step False len n d nonce by (auto split: option.splits prod.splits)
    obtain ps where ps: "drop (4 + n) src = frames A dek (idx + 1) ps" "more = concat ps" "\<forall>p \<in> set ps. fits_frame p"
      using "1.IH" [OF False _ n_def d_def] len n d nonce p more "1.prems"(1,2) by fastforce
    have ct: "drop NonceSize d = Seal A dek (nonce_of idx) p"
      using aead_okD(2) [OF "1.prems"(1,2) length_nonce_of] p by simp
    then have lp: "n = length p + 28"
      using aead_okD(1) [OF "1.prems"(1,2) length_nonce_of [of idx], of p] d n length_drop [of NonceSize d]
      by (simp add: NonceSize_def)
    have "n < 256 ^ 4" using be_nat_less [of "rev (take 4 src)"] len by (simp add: n_def le_nat_def)
    then have fits: "fits_frame p" by (simp add: fits_frame_def lp)
    have "d = nonce_of idx @ Seal A dek (nonce_of idx) p" by (metis append_take_drop_id ct nonce)
    moreover have "take 4 src = le_bytes 4 (length p + 28)"
      using le_bytes_le_nat [of "take 4 src"] len by (simp add: lp [symmetric] n_def min_absorb2)
    ultimately have "take 4 src @ d = frame A dek idx p" by (simp add: frame_layout [OF "1.prems"(1,2) fits])
    moreover have "src = take 4 src @ d @ drop (4 + n) src"
      by (metis add.commute append.assoc append_take_drop_id d_def drop_drop)
    ultimately have "src = frame A dek idx p @ frames A dek (idx + 1) ps" using ps(1) by (metis append.assoc)
    then show ?thesis using ps(2,3) more(2) fits by (intro exI [of _ "p # ps"]) simp
  qed
qed

lemma truncated_stream_accepted:
  assumes "aead_ok A" and "key_ok dek" and "\<forall>p \<in> set ps. fits_frame p"
  shows "DecryptStreamWithDEK A (frames A dek off (take k ps)) dek off = (None, concat (take k ps))"
  using assms decrypt_frames [OF assms(1,2), of "take k ps" off] set_take_subset [of k ps]
  by (auto simp: DecryptStreamWithDEK_def)

section \<open>What encryption writes\<close>

function stream_pieces :: "byte list \<Rightarrow> byte list list" where
  "stream_pieces rest =
     (if ChunkSize \<le> length rest then take ChunkSize rest # stream_pieces (drop ChunkSize rest)
      else if rest = [] then [] else [rest])"
  by pat_completeness auto
termination
  by (relation "measure length") (auto simp: ChunkSize_def)

declare stream_pieces.simps [simp del]

lemma stream_pieces_props: "concat (stream_pieces rest) = rest \<and> (\<forall>p \<in> set (stream_pieces rest). length p \<le> ChunkSize)"
proof (induction rest rule: stream_pieces.induct)
  case (1 rest)
  then show ?case
    by (cases "ChunkSize \<le> length rest") (auto simp: stream_pieces.simps [of rest])
qed

lemma stream_pieces_fit: "\<forall>p \<in> set (stream_pieces rest). fits_frame p"
  using stream_pieces_props [of rest] by (fastforce simp: fits_frame_def ChunkSize_def)

lemma encrypt_frames:
  "encrypt_loop A dek fails idx rest = ((if fails then Some ReadFailed else None), frames A dek idx (stream_pieces rest))"
proof (induction A dek fails idx rest rule: encrypt_loop.induct)
  case (1 A dek fails idx rest)
  then show ?case
    by (cases "ChunkSize \<le> length rest")
      (auto simp: encrypt_loop.simps [of A dek fails idx rest] stream_pieces.simps [of rest])
qed

lemma pool_frames: "pool_loop A dek fails slab idx rest = encrypt_loop A dek fails idx rest"
proof (induction A dek fails slab idx rest rule: pool_loop.induct)
  case (1 A dek fails slab idx rest)
  show ?case
  proof (cases "ChunkSize \<le> length rest")
    case True
    then have n: "min ChunkSize (length rest) = ChunkSize" "0 < ChunkSize" by (simp_all add: ChunkSize_def)
    then show ?thesis
      using "1.IH" [OF refl refl refl refl refl] True
      by (simp add: pool_loop.simps [of A dek fails slab idx rest] encrypt_loop.simps [of A dek fails idx rest]
          Let_def seal_into_def frame_def del: of_nat_add)
  next
    case False
    then show ?thesis
      by (simp add: pool_loop.simps [of A dek fails slab idx rest] encrypt_loop.simps [of A dek fails idx rest]
          Let_def seal_into_def frame_def del: of_nat_add)
  qed
qed

lemma EncryptStreamWithDEK_frames:
  "key_ok dek \<Longrightarrow> EncryptStreamWithDEK A src fails dek off =
    ((if fails then Some ReadFailed else None), frames A dek off (stream_pieces src))"
  by (simp add: EncryptStreamWithDEK_def encrypt_frames)

lemma EncryptStreamWithDEKPool_eq:
  "EncryptStreamWithDEKPool A pool src fails dek off = EncryptStreamWithDEK A src fails dek off"
  by (simp add: EncryptStreamWithDEKPool_def EncryptStreamWithDEK_def pool_frames split: option.split)

section \<open>Properties\<close>

text \<open>A cipher with the laws of AES-GCM, and no secrecy: the tag is the nonce and a part of the key.\<close>

definition demo_aead :: aead where
  "demo_aead =
     \<lparr>Seal = (\<lambda>k n p. p @ n @ take 4 k),
      Open = (\<lambda>k n c. if 16 \<le> length c \<and> drop (length c - 16) c = n @ take 4 k then Some (take (length c - 16) c) else None)\<rparr>"

lemma demo_aead_ok: "aead_ok demo_aead"
  unfolding aead_ok_def
proof (intro allI impI)
  fix k n p c :: "byte list" assume k: "key_ok k" and n: "length n = NonceSize"
  have l: "length (n @ take 4 k) = 16" using k n by (auto simp: key_ok_def NonceSize_def)
  then have "Open demo_aead k n c = Some p \<longleftrightarrow> c = p @ n @ take 4 k"
    unfolding demo_aead_def by (auto simp del: append_assoc length_append take_append drop_append)
      (metis append_take_drop_id, simp_all)
  then show "length (Seal demo_aead k n p) = length p + 16 \<and> (Open demo_aead k n c = Some p \<longleftrightarrow> c = Seal demo_aead k n p)"
    using l by (simp add: demo_aead_def)
qed

text \<open>C24. Encrypting a chunk and decrypting it with the same key and chunk index gives the chunk back, with
  or without a pool of slabs, whatever its size; and decryption succeeds on nothing but a sequence of
  frames sealed under that key with consecutive nonces that start at the index: it accepts no
  reordered, repeated or altered frame and no other index, and what it returns is the plaintext of the
  frames.\<close>

theorem encrypted_stream_exact:
  assumes "aead_ok A" and "key_ok dek"
  shows "(\<exists>out. EncryptStreamWithDEKPool A pool src False dek off = (None, out) \<and>
      DecryptStreamWithDEK A out dek off = (None, src)) \<and>
    (DecryptStreamWithDEK A d dek off = (None, p) \<longleftrightarrow>
      (\<exists>ps. d = frames A dek off ps \<and> p = concat ps \<and> (\<forall>x \<in> set ps. fits_frame x)))"
proof (intro conjI)
  show "\<exists>out. EncryptStreamWithDEKPool A pool src False dek off = (None, out) \<and>
      DecryptStreamWithDEK A out dek off = (None, src)"
    using decrypt_frames [OF assms stream_pieces_fit, of off src] assms(2) stream_pieces_props [of src]
    by (simp add: EncryptStreamWithDEKPool_eq EncryptStreamWithDEK_frames DecryptStreamWithDEK_def)
  show "DecryptStreamWithDEK A d dek off = (None, p) \<longleftrightarrow>
      (\<exists>ps. d = frames A dek off ps \<and> p = concat ps \<and> (\<forall>x \<in> set ps. fits_frame x))"
    using decrypt_accepts [OF assms, of off d p] decrypt_frames [OF assms] assms(2)
    by (auto simp: DecryptStreamWithDEK_def)
qed

theorem encrypted_stream_exact_witness:
  "(\<exists>out. EncryptStreamWithDEKPool demo_aead (Some [1, 2]) [1, 2, 3] False (replicate 32 7) 5 = (None, out) \<and>
      DecryptStreamWithDEK demo_aead out (replicate 32 7) 5 = (None, [1, 2, 3])) \<and>
    DecryptStreamWithDEK demo_aead (frames demo_aead (replicate 32 7) 5 [[9], [8]]) (replicate 32 7) 5 = (None, [9, 8])"
proof -
  have "key_ok (replicate 32 7)" by (simp add: key_ok_def)
  note E = encrypted_stream_exact [OF demo_aead_ok this]
  show ?thesis
    using E [of "Some [1, 2]" "[1, 2, 3]" 5 "frames demo_aead (replicate 32 7) 5 [[9], [8]]" "[9, 8]"]
    by (auto intro!: exI [of _ "[[9], [8 :: byte]]"] simp: fits_frame_def)
qed

text \<open>The two sides of a key agreement.\<close>

definition kdf_ok :: "kdf \<Rightarrow> byte list \<Rightarrow> byte list \<Rightarrow> byte list \<Rightarrow> byte list \<Rightarrow> bool" where
  "kdf_ok K a A' b B' \<longleftrightarrow> length A' = 32 \<and> length B' = 32 \<and> X25519 K a B' \<noteq> None \<and> X25519 K a B' = X25519 K b A' \<and>
     (\<forall>shared info n. \<exists>k. HKDF K shared info n = Some k \<and> length k = n)"

lemma agree_Inr: "kdf_ok K a A' b B' \<Longrightarrow> \<exists>w. agree K a B' = Inr w \<and> agree K b A' = Inr w \<and> key_ok w"
proof -
  assume K: "kdf_ok K a A' b B'"
  then obtain sh w where "X25519 K a B' = Some sh" "X25519 K b A' = Some sh" "HKDF K sh ''dfs-dek-wrap'' 32 = Some w" "length w = 32"
    unfolding kdf_ok_def by (metis option.exhaust)
  then show ?thesis by (simp add: agree_def deriveWrapKey_def key_ok_def)
qed

text \<open>A recipient unwraps exactly the data encryption key the sender wrapped for it; and whatever
  hex string it is given with the sender's public key, it unwraps a key only from a nonce followed by
  the seal of that key under the agreed wrapping key.\<close>

lemma wrapped_key_exact:
  assumes "aead_ok A" and "kdf_ok K a pubA b pubB" and "length nonce = NonceSize"
  shows "(\<exists>e. WrapDEKForRecipient K A (Some nonce) a (hex_encode pubB) dek = Inr e \<and> KRecipientPubKey e = hex_encode pubB \<and>
      UnwrapDEK K A b (hex_encode pubA) (KWrappedDEK e) = Inr dek) \<and>
    (UnwrapDEK K A b (hex_encode pubA) w = Inr dek' \<longleftrightarrow>
      (\<exists>n k. hex_decode w = Some (n @ Seal A k n dek') \<and> length n = NonceSize \<and> agree K a pubB = Inr k))"
proof -
  obtain k where k: "agree K a pubB = Inr k" "agree K b pubA = Inr k" "key_ok k" using agree_Inr [OF assms(2)] by blast
  have len: "length pubA = 32" "length pubB = 32" using assms(2) by (simp_all add: kdf_ok_def)
  note A = aead_okD [OF assms(1) k(3)]
  have "UnwrapDEK K A b (hex_encode pubA) w = Inr dek' \<longleftrightarrow>
      (\<exists>n. hex_decode w = Some (n @ Seal A k n dek') \<and> length n = NonceSize)"
  proof (cases "hex_decode w")
    case None
    then show ?thesis by (simp add: UnwrapDEK_def len)
  next
    case (Some d)
    have "UnwrapDEK K A b (hex_encode pubA) w = Inr dek' \<longleftrightarrow>
        NonceSize \<le> length d \<and> Open A k (take NonceSize d) (drop NonceSize d) = Some dek'"
      by (auto simp: UnwrapDEK_def len Some k split: option.splits)
    also have "\<dots> \<longleftrightarrow> NonceSize \<le> length d \<and> d = take NonceSize d @ Seal A k (take NonceSize d) dek'"
    proof (intro conj_cong refl)
      assume "NonceSize \<le> length d"
      then have "Open A k (take NonceSize d) (drop NonceSize d) = Some dek' \<longleftrightarrow>
          drop NonceSize d = Seal A k (take NonceSize d) dek'"
        by (intro A(2)) simp
      also have "\<dots> \<longleftrightarrow> d = take NonceSize d @ Seal A k (take NonceSize d) dek'"
        by (metis append_take_drop_id same_append_eq)
      finally show "Open A k (take NonceSize d) (drop NonceSize d) = Some dek' \<longleftrightarrow>
          d = take NonceSize d @ Seal A k (take NonceSize d) dek'" .
    qed
    also have "\<dots> \<longleftrightarrow> (\<exists>n. d = n @ Seal A k n dek' \<and> length n = NonceSize)"
      by (auto simp: min_absorb2 intro: exI [of _ "take NonceSize d"])
    finally show ?thesis by (simp add: Some)
  qed
  moreover have "\<exists>e. WrapDEKForRecipient K A (Some nonce) a (hex_encode pubB) dek = Inr e \<and> KRecipientPubKey e = hex_encode pubB \<and>
      UnwrapDEK K A b (hex_encode pubA) (KWrappedDEK e) = Inr dek"
  proof -
    have "Open A k nonce (Seal A k nonce dek) = Some dek" using A(2) [OF assms(3)] by simp
    then show ?thesis using assms(3) by (simp add: WrapDEKForRecipient_def UnwrapDEK_def len k)
  qed
  ultimately show ?thesis by (simp add: k)
qed

definition demo_kdf :: kdf where
  "demo_kdf = \<lparr>X25519 = (\<lambda>a B. Some (map2 (+) a B)), HKDF = (\<lambda>s info n. Some (take n (s @ replicate n 0)))\<rparr>"

theorem wrapped_key_exact_witness:
  "\<exists>e. WrapDEKForRecipient demo_kdf demo_aead (Some (replicate 12 1)) (replicate 32 3) (hex_encode (replicate 32 4)) [5, 6] = Inr e \<and>
    KRecipientPubKey e = hex_encode (replicate 32 4) \<and>
    UnwrapDEK demo_kdf demo_aead (replicate 32 4) (hex_encode (replicate 32 3)) (KWrappedDEK e) = Inr [5, 6]"
proof -
  have "kdf_ok demo_kdf (replicate 32 3) (replicate 32 3) (replicate 32 4) (replicate 32 4)"
    by (auto simp: kdf_ok_def demo_kdf_def)
  from wrapped_key_exact [OF demo_aead_ok this, of "replicate 12 1" "[5, 6]"]
  show ?thesis by (simp add: NonceSize_def del: ex_simps) blast
qed

text \<open>A signature by the matching key verifies.\<close>

lemma SignManifest_verifies:
  assumes "length edPub = 32" and "\<forall>m. length (ed_Sign S edPriv m) = 64 \<and> ed_Verify S edPub m (ed_Sign S edPriv m)"
  shows "VerifyManifest S (hex_encode edPub) payload (SignManifest S edPriv payload) = Inr True"
  using assms by (simp add: VerifyManifest_def SignManifest_def)

end
