(* ===== verification/Compression.thy ===== *)
theory Compression
  imports Prelude
begin

text \<open>
  Compression of chunks, Storage/compression/compression.go. The zstd encoder and decoder of
  klauspost/compress are the parameters; what the code relies on is that a frame decodes to what was
  encoded (\<open>codec_ok\<close>). The Shannon entropy, a \<open>float64\<close> in the code, is a real number. The pool of
  output buffers only recycles memory.
\<close>

datatype level = LevelFastest | LevelDefault | LevelBest

datatype encoder_level = SpeedFastest | SpeedDefault | SpeedBestCompression

record codec =
  EncodeAll :: "encoder_level \<Rightarrow> byte list \<Rightarrow> byte list"
  NewWriterFails :: bool
  Decode :: "byte list \<Rightarrow> byte list option"

definition codec_ok :: "codec \<Rightarrow> bool" where
  "codec_ok Z \<longleftrightarrow> (\<forall>l data. Decode Z (EncodeAll Z l data) = Some data)"

definition minCompressSize :: nat where
  "minCompressSize = 1024"

section \<open>Which chunks are compressed\<close>

definition has_prefix :: "byte list \<Rightarrow> byte list \<Rightarrow> bool" where
  "has_prefix s p \<longleftrightarrow> take (length p) s = p"

text \<open>The magic bytes of JPEG, PNG, ZIP, gzip, zstd, MP4 and MKV.\<close>

definition isAlreadyCompressed :: "byte list \<Rightarrow> bool" where
  "isAlreadyCompressed data =
     (if length data < 4 then False
      else
        (let magic = take 4 data
         in if has_prefix magic [0xFF, 0xD8, 0xFF] then True
            else if magic = [0x89, 0x50, 0x4E, 0x47] then True
            else if has_prefix magic [0x50, 0x4B] then True
            else if has_prefix magic [0x1F, 0x8B] then True
            else if magic = [0x28, 0xB5, 0x2F, 0xFD] then True
            else if has_prefix magic [0x00, 0x00, 0x00] \<and> 7 < length data \<and> (data ! 4 = 0x66 \<or> data ! 4 = 0x6D) then True
            else has_prefix magic [0x1A, 0x45, 0xDF, 0xA3]))"

definition freq :: "byte list \<Rightarrow> byte \<Rightarrow> nat" where
  "freq data b = length (filter (\<lambda>x. x = b) data)"

definition shannonEntropy :: "byte list \<Rightarrow> real" where
  "shannonEntropy data =
     (if data = [] then 0
      else fold (\<lambda>b h. let f = freq data b in
                    if f = 0 then h else h - (real f / real (length data)) * log 2 (real f / real (length data)))
             (map word_of_nat [0..<256]) 0)"

definition ShouldCompress :: "byte list \<Rightarrow> bool" where
  "ShouldCompress data =
     (if length data < minCompressSize then False
      else if isAlreadyCompressed data then False
      else shannonEntropy (if 4096 < length data then take 4096 data else data) < 7)"

section \<open>Compression\<close>

definition encoder_of :: "level \<Rightarrow> encoder_level" where
  "encoder_of l = (case l of LevelFastest \<Rightarrow> SpeedFastest | LevelDefault \<Rightarrow> SpeedDefault | LevelBest \<Rightarrow> SpeedBestCompression)"

text \<open>\<open>None\<close> is the error of \<open>zstd.NewWriter\<close>, with which the data itself is returned.\<close>

definition CompressChunk :: "codec \<Rightarrow> byte list \<Rightarrow> level \<Rightarrow> byte list \<times> bool \<times> bool" where
  "CompressChunk Z data l =
     (if NewWriterFails Z then (data, False, True)
      else
        (let compressed = EncodeAll Z (encoder_of l) data
         in if length data \<le> length compressed then (data, False, False) else (compressed, True, False)))"

definition CompressChunkWithPool :: "codec \<Rightarrow> byte list option \<Rightarrow> byte list \<Rightarrow> level \<Rightarrow> byte list \<times> bool \<times> bool" where
  "CompressChunkWithPool Z pool data l =
     (case pool of
        None \<Rightarrow> CompressChunk Z data l
      | Some pb \<Rightarrow>
          if NewWriterFails Z then (data, False, True)
          else
            (let compressed = take 0 pb @ EncodeAll Z (encoder_of l) data
             in if length data \<le> length compressed then (data, False, False) else (compressed, True, False)))"

definition DecompressChunk :: "codec \<Rightarrow> byte list \<Rightarrow> byte list option" where
  "DecompressChunk Z data = Decode Z data"

lemma CompressChunkWithPool_eq: "CompressChunkWithPool Z pool data l = CompressChunk Z data l"
  by (simp add: CompressChunkWithPool_def CompressChunk_def split: option.split)

lemma CompressChunk_result:
  assumes "codec_ok Z" and "CompressChunk Z data l = (out, was, err)"
  shows "length out \<le> length data" and "was \<Longrightarrow> DecompressChunk Z out = Some data \<and> length out < length data"
    and "\<not> was \<Longrightarrow> out = data"
  using assms by (auto simp: CompressChunk_def DecompressChunk_def codec_ok_def Let_def split: if_splits)

section \<open>The entropy estimate\<close>

text \<open>A sample of one repeated byte has entropy zero, so long runs are compressed.\<close>

lemma entropy_fold:
  "fold (\<lambda>b h. let f = freq data b in
       if f = 0 then h else h - (real f / real (length data)) * log 2 (real f / real (length data))) bs h =
   h - (\<Sum>b\<leftarrow>bs. (real (freq data b) / real (length data)) * log 2 (real (freq data b) / real (length data)))"
  by (induction bs arbitrary: h) (simp_all add: Let_def)

lemma entropy_constant:
  assumes "0 < n"
  shows "shannonEntropy (replicate n b) = 0"
proof -
  have f: "real (freq (replicate n b) c) / real (length (replicate n b)) = (if c = b then 1 else 0)" for c
    using assms by (simp add: freq_def filter_replicate)
  have "shannonEntropy (replicate n b) =
      0 - (\<Sum>c\<leftarrow>map word_of_nat [0..<256]. (if c = b then 1 else 0) * log 2 (if c = b then 1 else 0))"
    using assms unfolding shannonEntropy_def entropy_fold f by simp
  also have "\<dots> = 0" by (simp add: sum_list_0 if_distrib comp_def cong: if_cong)
  finally show ?thesis .
qed

text \<open>Data that starts with the magic bytes of a compressed format is never compressed.\<close>

lemma magic_not_compressed: "isAlreadyCompressed data \<Longrightarrow> \<not> ShouldCompress data"
  by (simp add: ShouldCompress_def)

end
