(* ===== verification/DirManifest.thy ===== *)
theory DirManifest
  imports Files Chunker
begin

text \<open>
  Directory manifests, Storage/dirmanifest/dirmanifest.go: the walk over a directory that is uploaded,
  the Merkle root over its files and the check that keeps a downloaded path inside the output
  directory. The paths are those of Unix, as in \<open>Files\<close>; SHA-256 is a parameter, and the working directory
  is an argument where \<open>filepath.Abs\<close> asks for it. \<open>Marshal\<close> and \<open>Unmarshal\<close> only call
  \<open>encoding/json\<close>.
\<close>

record file_entry =
  FRelativePath :: string
  FSize :: int
  FMode :: uint32
  FManifestKey :: string
  FFileHash :: string

record directory_manifest =
  DStorageKey :: string
  DTotalSize :: int
  DFileCount :: int
  DFiles :: "file_entry list"
  DMerkleRoot :: string
  DCreatedAt :: int
  DIsDirectory :: bool
  DEncrypted :: bool
  DOwnerPubKey :: string
  DOwnerEdPubKey :: string
  DAccessList :: "access_entry list"
  DSignature :: string

section \<open>Output paths\<close>

definition path_Abs :: "string \<Rightarrow> string \<Rightarrow> string" where
  "path_Abs cwd p = (if path_IsAbs p then path_Clean p else path_Join cwd p)"

datatype path_error = AbsoluteRejected string | TraversalRejected string

definition SafeOutputPath :: "string \<Rightarrow> string \<Rightarrow> string \<Rightarrow> path_error + string" where
  "SafeOutputPath cwd outputDir relativePath =
     (let cleaned = path_Clean relativePath
      in if path_IsAbs cleaned then Inl (AbsoluteRejected relativePath)
         else if take 2 cleaned = ''..'' then Inl (TraversalRejected relativePath)
         else
           (let full = path_Join outputDir cleaned;
                absOut = path_Abs cwd outputDir;
                absFull = path_Abs cwd full
            in if take (length absOut + 1) absFull \<noteq> absOut @ ''/'' \<and> absFull \<noteq> absOut
               then Inl (TraversalRejected relativePath) else Inr full))"

section \<open>Cleaned paths\<close>

lemma clean_parts_skip:
  "p = [] \<or> p = ''.'' \<Longrightarrow> clean_parts r st (xs @ p # ys) = clean_parts r st (xs @ ys)"
  by (induction r st xs rule: clean_parts.induct) auto

lemma clean_parts_cancel:
  "q \<noteq> [] \<Longrightarrow> q \<noteq> ''.'' \<Longrightarrow> q \<noteq> ''..'' \<Longrightarrow>
    clean_parts r st (xs @ q # ''..'' # ys) = clean_parts r st (xs @ ys)"
  by (induction r st xs rule: clean_parts.induct) auto

lemma clean_parts_up: "st = [] \<or> hd st = ''..'' \<Longrightarrow> clean_parts True st (''..'' # ys) = clean_parts True st ys"
  by (cases st) auto

text \<open>Cleaning the last part of a path first changes nothing.\<close>

lemma clean_parts_inner:
  assumes "\<forall>x \<in> set st'. x \<noteq> [] \<and> x \<noteq> ''.''"
  shows "clean_parts r st (pre @ clean_parts False st' ps) = clean_parts r st (pre @ rev st' @ ps)"
  using assms
proof (induction False st' ps arbitrary: rule: clean_parts.induct)
  case (2 st' p ps)
  consider (skip) "p = [] \<or> p = ''.''" | (up) "p = ''..''" "st' \<noteq> []" "hd st' \<noteq> ''..''"
    | (top) "p = ''..''" "st' = [] \<or> hd st' = ''..''" | (name) "p \<noteq> []" "p \<noteq> ''.''" "p \<noteq> ''..''"
    by blast
  then show ?case
  proof cases
    case skip
    then show ?thesis using "2.hyps"(1) "2.prems" clean_parts_skip [OF skip, of r st "pre @ rev st'" ps] by simp
  next
    case up
    then obtain q t where st': "st' = q # t" by (cases st') auto
    have q: "q \<noteq> []" "q \<noteq> ''.''" "q \<noteq> ''..''" using 2 up st' by auto
    have "clean_parts r st (pre @ clean_parts False t ps) = clean_parts r st (pre @ rev t @ ps)"
      using "2.hyps"(2) up "2.prems" st' by simp
    moreover have "clean_parts False st' (p # ps) = clean_parts False t ps" using up st' by simp
    ultimately show ?thesis using clean_parts_cancel [OF q, of r st "pre @ rev t" ps] by (simp add: st' up(1))
  next
    case top
    then have "clean_parts False st' (p # ps) = clean_parts False (p # st') ps" by auto
    then show ?thesis using "2.hyps"(4) "2.prems" top by auto
  next
    case name
    then show ?thesis using "2.hyps"(5) "2.prems" by simp
  qed
qed simp

lemma clean_parts_append_plain: "\<forall>x \<in> set ns. plain_name x \<Longrightarrow> clean_parts r st (ps @ ns) = clean_parts r st ps @ ns"
proof (induction ns rule: rev_induct)
  case (snoc n ns)
  then show ?case using clean_parts_plain [of n r st "ps @ ns"] by simp
qed simp

lemma rooted_plain:
  "\<forall>x \<in> set st. plain_name x \<Longrightarrow> \<forall>x \<in> set ps. CHR ''/'' \<notin> set x \<Longrightarrow> \<forall>x \<in> set (clean_parts True st ps). plain_name x"
proof (induction True st ps rule: clean_parts.induct)
  case (2 st p ps)
  have tl: "\<forall>x \<in> set (tl st). plain_name x" using "2.prems"(1) by (cases st) auto
  have hd: "hd st \<noteq> ''..''" if "st \<noteq> []" using that "2.prems"(1) by (cases st) (auto simp: plain_name_def)
  have ps: "\<forall>x \<in> set ps. CHR ''/'' \<notin> set x" and p: "CHR ''/'' \<notin> set p" using "2.prems"(2) by simp_all
  consider (skip) "p = [] \<or> p = ''.''" | (up) "p = ''..''" "st \<noteq> []" | (top) "p = ''..''" "st = []" | (name) "plain_name p"
    using p unfolding plain_name_def by blast
  then show ?case
  proof cases
    case skip
    then show ?thesis using "2.hyps"(1) [OF skip "2.prems"(1) ps] by auto
  next
    case up
    then show ?thesis using "2.hyps"(2) [OF _ _ _ tl ps] hd by simp
  next
    case top
    then show ?thesis using "2.hyps"(3) [OF _ _ _ _ "2.prems"(1) ps] by simp
  next
    case name
    then have "\<forall>x \<in> set (p # st). plain_name x" using "2.prems"(1) by simp
    then show ?thesis using "2.hyps"(5) [OF _ _ _ ps] name by (simp add: plain_name_def)
  qed
qed simp

lemma clean_parts_no_sep: "\<forall>x \<in> set ps. CHR ''/'' \<notin> set x \<Longrightarrow> \<forall>x \<in> set (clean_parts r [] ps). CHR ''/'' \<notin> set x"
  by (rule clean_parts_all) auto

lemma split_no_seps: "\<forall>x \<in> set (split_at_char (CHR ''/'') s). CHR ''/'' \<notin> set x"
  using split_no_sep by blast

lemma split_Clean_relative:
  assumes "\<not> path_IsAbs s"
  shows "clean_parts r st (pre @ split_at_char (CHR ''/'') (path_Clean s)) =
    clean_parts r st (pre @ split_at_char (CHR ''/'') s)"
proof -
  define ps where "ps = clean_parts False [] (split_at_char (CHR ''/'') s)"
  have C: "path_Clean s = (if ps = [] then ''.'' else join_path ps)"
    using assms by (auto simp: path_Clean_def path_IsAbs_def ps_def Let_def)
  have "clean_parts r st (pre @ split_at_char (CHR ''/'') (path_Clean s)) = clean_parts r st (pre @ ps)"
  proof (cases "ps = []")
    case True
    then show ?thesis using clean_parts_skip [of "''.''" r st pre "[]"] by (simp add: C)
  next
    case False
    then show ?thesis using split_join_path [OF False] clean_parts_no_sep [OF split_no_seps] by (simp add: C ps_def)
  qed
  also have "\<dots> = clean_parts r st (pre @ split_at_char (CHR ''/'') s)"
    using clean_parts_inner [of "[]" r st pre] by (simp add: ps_def)
  finally show ?thesis .
qed

lemma IsAbs_Clean [simp]: "path_IsAbs (path_Clean s) = path_IsAbs s"
proof -
  have "CHR ''/'' \<notin> set (hd ps)" if "ps = clean_parts False [] (split_at_char (CHR ''/'') s)" "ps \<noteq> []" for ps
    using that clean_parts_no_sep [OF split_no_seps, of False s] hd_in_set by metis
  moreover have "hd (join_path ps) = CHR ''/'' \<Longrightarrow> ps \<noteq> [] \<Longrightarrow> [] \<notin> set ps \<Longrightarrow> CHR ''/'' \<in> set (hd ps)" for ps
  proof (induction ps rule: join_path.induct)
    case (2 p)
    then show ?case using hd_in_set [of p] by auto
  next
    case (3 p q qs)
    then have "p \<noteq> []" "hd p = CHR ''/''" by auto
    then show ?case using hd_in_set [of p] by simp
  qed simp
  ultimately show ?thesis
    using clean_parts_nonempty [of "[]" False "split_at_char (CHR ''/'') s"]
    by (auto simp: path_Clean_def path_IsAbs_def Let_def)
qed

text \<open>The elements of the absolute form of a path.\<close>

definition anchored :: "string \<Rightarrow> string \<Rightarrow> string list" where
  "anchored cwd p =
     (if path_IsAbs p then split_at_char (CHR ''/'') p
      else split_at_char (CHR ''/'') cwd @ split_at_char (CHR ''/'') p)"

definition abs_parts :: "string \<Rightarrow> string \<Rightarrow> string list" where
  "abs_parts cwd p = clean_parts True [] (anchored cwd p)"

lemma abs_parts_plain: "\<forall>x \<in> set (abs_parts cwd p). plain_name x"
  unfolding abs_parts_def by (rule rooted_plain) (auto simp: anchored_def dest: split_no_sep)

lemma path_Abs_parts:
  assumes "path_IsAbs cwd"
  shows "path_Abs cwd p = ''/'' @ join_path (abs_parts cwd p)"
  using assms
  by (auto simp: path_Abs_def path_Join_def path_Clean_def path_IsAbs_def abs_parts_def anchored_def split_at_char_append Let_def)

lemma dir_parts_Abs:
  assumes "path_IsAbs cwd"
  shows "dir_parts (path_Abs cwd p) = abs_parts cwd p"
proof -
  have no: "\<forall>x \<in> set (abs_parts cwd p). CHR ''/'' \<notin> set x" using abs_parts_plain by (simp add: plain_name_def)
  have id: "clean_parts True [] (abs_parts cwd p) = abs_parts cwd p"
    using clean_parts_append_plain [OF abs_parts_plain [of cwd p], of True "[]" "[]"] by simp
  show ?thesis
  proof (cases "abs_parts cwd p = []")
    case True
    then show ?thesis by (simp add: dir_parts_def path_Abs_parts [OF assms])
  next
    case False
    then show ?thesis using split_join_path [OF False no] id by (simp add: dir_parts_def path_Abs_parts [OF assms])
  qed
qed

text \<open>The file that is joined to the output directory stays below it.\<close>

lemma abs_parts_Join:
  assumes ns: "clean_parts False [] (split_at_char (CHR ''/'') rel) = ns" "\<forall>n \<in> set ns. plain_name n"
    and rel: "\<not> path_IsAbs rel"
  shows "abs_parts cwd (path_Join out (path_Clean rel)) = abs_parts cwd out @ ns"
proof -
  let ?sp = "split_at_char (CHR ''/'')" and ?c = "path_Clean rel"
  have c: "\<not> path_IsAbs ?c" "?c \<noteq> []" using rel by simp_all
  have tail: "clean_parts True [] (pre @ ?sp ?c) = clean_parts True [] pre @ ns" for pre
  proof -
    have "clean_parts True [] (pre @ ?sp ?c) = clean_parts True [] (pre @ ?sp rel)" by (rule split_Clean_relative [OF rel])
    also have "\<dots> = clean_parts True [] (pre @ ns)" using clean_parts_inner [of "[]" True "[]" pre "?sp rel"] ns(1) by simp
    also have "\<dots> = clean_parts True [] pre @ ns" by (rule clean_parts_append_plain [OF ns(2)])
    finally show ?thesis .
  qed
  show ?thesis
  proof (cases "out = []")
    case True
    have J: "path_Join out ?c = path_Clean ?c" using c(2) by (simp add: True path_Join_def)
    have "abs_parts cwd (path_Join out ?c) = clean_parts True [] (?sp cwd @ ?sp ?c)"
      unfolding J abs_parts_def using split_Clean_relative [OF c(1)] c(1) by (simp add: anchored_def)
    moreover have "abs_parts cwd out = clean_parts True [] (?sp cwd)"
      using clean_parts_skip [of "[]" True "[]" "?sp cwd" "[]"] by (simp add: abs_parts_def anchored_def True path_IsAbs_def)
    ultimately show ?thesis using tail by simp
  next
    case out: False
    let ?s = "out @ CHR ''/'' # ?c"
    have J: "path_Join out ?c = path_Clean ?s" and sp: "?sp ?s = ?sp out @ ?sp ?c"
      using out by (simp_all add: path_Join_def split_at_char_append)
    show ?thesis
    proof (cases "path_IsAbs out")
      case True
      then have abs: "path_IsAbs ?s" using out by (simp add: path_IsAbs_def)
      define ps where "ps = clean_parts True [] (?sp ?s)"
      have ps: "\<forall>x \<in> set ps. plain_name x" unfolding ps_def using split_no_sep by (intro rooted_plain) auto
      have "path_Clean ?s = CHR ''/'' # join_path ps" using abs by (simp add: path_Clean_def path_IsAbs_def ps_def Let_def)
      moreover have "clean_parts True [] (?sp (join_path ps)) = ps"
        using split_join_path [of ps] ps clean_parts_append_plain [OF ps, of True "[]" "[]"]
        by (cases "ps = []") (auto simp: plain_name_def)
      ultimately have "abs_parts cwd (path_Join out ?c) = ps"
        unfolding J abs_parts_def by (simp add: anchored_def path_IsAbs_def)
      then show ?thesis using tail [of "?sp out"] True unfolding ps_def sp abs_parts_def anchored_def by simp
    next
      case False
      then have rels: "\<not> path_IsAbs ?s" using out by (simp add: path_IsAbs_def)
      then have "abs_parts cwd (path_Join out ?c) = clean_parts True [] (?sp cwd @ ?sp ?s)"
        unfolding J abs_parts_def using split_Clean_relative [OF rels] by (simp add: anchored_def)
      then show ?thesis using tail [of "?sp cwd @ ?sp out"] False unfolding sp abs_parts_def anchored_def by simp
    qed
  qed
qed

section \<open>The walk\<close>

text \<open>What \<open>filepath.WalkDir\<close> sees below a directory: regular (or other non-directory) files with their size and
  mode, symbolic links, directories, and names it cannot inspect.\<close>

datatype fs_node = NFile int uint32 | NLink | NDir "(string \<times> fs_node) list" | NBroken

datatype walk_error = StatFailed | NotADirectory | WalkFailed string

text \<open>The callback on a node at a relative path; an error stops the walk.\<close>

fun walk_node :: "string \<Rightarrow> fs_node \<Rightarrow> walk_error + file_entry list"
  and walk_dir :: "string \<Rightarrow> (string \<times> fs_node) list \<Rightarrow> walk_error + file_entry list" where
  "walk_node rel (NFile sz mode) =
     Inr [\<lparr>FRelativePath = rel, FSize = sz, FMode = mode, FManifestKey = [], FFileHash = []\<rparr>]"
| "walk_node rel NLink = Inr []"
| "walk_node rel NBroken = Inl (WalkFailed rel)"
| "walk_node rel (NDir entries) = walk_dir rel entries"
| "walk_dir rel [] = Inr []"
| "walk_dir rel ((name, n) # rest) =
     (case walk_node (if rel = [] then name else rel @ ''/'' @ name) n of
        Inl e \<Rightarrow> Inl e
      | Inr es \<Rightarrow> (case walk_dir rel rest of Inl e \<Rightarrow> Inl e | Inr fs \<Rightarrow> Inr (es @ fs)))"

text \<open>The paths of a walk differ from each other, so \<open>sort.Slice\<close> has one result.\<close>

definition Walk :: "fs_node option \<Rightarrow> walk_error + file_entry list" where
  "Walk root_dir =
     (case root_dir of
        None \<Rightarrow> Inl StatFailed
      | Some (NDir entries) \<Rightarrow>
          (case walk_dir [] entries of Inl e \<Rightarrow> Inl e | Inr es \<Rightarrow> Inr (sort_key FRelativePath es))
      | Some NBroken \<Rightarrow> Inl StatFailed
      | Some n \<Rightarrow> Inl NotADirectory)"

section \<open>The Merkle root over the files\<close>

definition file_leaf :: "(byte list \<Rightarrow> byte list) \<Rightarrow> file_entry \<Rightarrow> byte list" where
  "file_leaf sha256 f =
     (case hex_decode (FFileHash f) of
        None \<Rightarrow> sha256 (bytes_of (FFileHash f))
      | Some b \<Rightarrow> if length b \<noteq> 32 then sha256 (bytes_of (FFileHash f)) else b)"

definition dir_MerkleRoot :: "(byte list \<Rightarrow> byte list) \<Rightarrow> file_entry list \<Rightarrow> string" where
  "dir_MerkleRoot sha256 files =
     (if files = [] then hex_encode (replicate 32 0)
      else hex_encode (merkle_up sha256 (map (file_leaf sha256) files)))"

text \<open>It is the root the chunker computes over chunks with these hashes.\<close>

lemma dir_MerkleRoot_chunks:
  "dir_MerkleRoot sha256 files =
    computeMerkleRoot sha256 (map (\<lambda>f. \<lparr>IIndex = 0, IHash = FFileHash f, ISize = 0, IEncHash = [], ICompressed = False\<rparr>) files)"
proof -
  have "file_leaf sha256 = (\<lambda>f. leaf_hash sha256 \<lparr>IIndex = 0, IHash = FFileHash f, ISize = 0, IEncHash = [], ICompressed = False\<rparr>)"
    by (auto simp: file_leaf_def leaf_hash_def fun_eq_iff split: option.split)
  then show ?thesis by (simp add: dir_MerkleRoot_def computeMerkleRoot_def comp_def)
qed

definition StorageKeyPrefix :: string where
  "StorageKeyPrefix = ''dirmanifest:''"

definition dir_StorageKey :: "string \<Rightarrow> string" where
  "dir_StorageKey key = StorageKeyPrefix @ key"

section \<open>Properties\<close>

text \<open>The shape of a cleaned relative path: steps up, then names.\<close>

definition ups_then_names :: "string list \<Rightarrow> bool" where
  "ups_then_names xs \<longleftrightarrow>
     (\<exists>k ns. xs = replicate k ''..'' @ ns \<and> (\<forall>n \<in> set ns. n \<noteq> [] \<and> n \<noteq> ''.'' \<and> n \<noteq> ''..''))"

lemma ups_then_names_Nil [simp]: "ups_then_names []"
  by (simp add: ups_then_names_def)

lemma ups_then_names_name:
  "ups_then_names xs \<Longrightarrow> p \<noteq> [] \<Longrightarrow> p \<noteq> ''.'' \<Longrightarrow> p \<noteq> ''..'' \<Longrightarrow> ups_then_names (xs @ [p])"
  unfolding ups_then_names_def
proof (elim exE conjE)
  fix k ns assume "p \<noteq> []" "p \<noteq> ''.''" "p \<noteq> ''..''" "xs = replicate k ''..'' @ ns"
    "\<forall>n \<in> set ns. n \<noteq> [] \<and> n \<noteq> ''.'' \<and> n \<noteq> ''..''"
  then show "\<exists>k ns. xs @ [p] = replicate k ''..'' @ ns \<and> (\<forall>n \<in> set ns. n \<noteq> [] \<and> n \<noteq> ''.'' \<and> n \<noteq> ''..'')"
    by (intro exI [of _ k] exI [of _ "ns @ [p]"]) auto
qed

lemma ups_then_names_up: "ups_then_names xs \<Longrightarrow> xs = [] \<or> last xs = ''..'' \<Longrightarrow> ups_then_names (xs @ [''..''])"
  unfolding ups_then_names_def
proof (elim exE conjE)
  fix k ns assume top: "xs = [] \<or> last xs = ''..''" and xs: "xs = replicate k ''..'' @ ns"
    and ns: "\<forall>n \<in> set ns. n \<noteq> [] \<and> n \<noteq> ''.'' \<and> n \<noteq> ''..''"
  have "ns = []" using top xs ns last_in_set [of ns] by (cases "ns = []") auto
  then show "\<exists>k ns. xs @ [''..''] = replicate k ''..'' @ ns \<and> (\<forall>n \<in> set ns. n \<noteq> [] \<and> n \<noteq> ''.'' \<and> n \<noteq> ''..'')"
    using xs by (intro exI [of _ "Suc k"] exI [of _ "[]"]) (simp add: replicate_append_same)
qed

lemma ups_then_names_butlast: "ups_then_names xs \<Longrightarrow> ups_then_names (butlast xs)"
  unfolding ups_then_names_def
proof (elim exE conjE)
  fix k ns assume xs: "xs = replicate k ''..'' @ ns" and ns: "\<forall>n \<in> set ns. n \<noteq> [] \<and> n \<noteq> ''.'' \<and> n \<noteq> ''..''"
  show "\<exists>k ns. butlast xs = replicate k ''..'' @ ns \<and> (\<forall>n \<in> set ns. n \<noteq> [] \<and> n \<noteq> ''.'' \<and> n \<noteq> ''..'')"
  proof (cases "ns = []")
    case True
    then show ?thesis using xs by (intro exI [of _ "k - 1"] exI [of _ "[]"]) (simp add: butlast_conv_take)
  next
    case False
    then show ?thesis using xs ns
      by (intro exI [of _ k] exI [of _ "butlast ns"]) (auto simp: butlast_append dest: in_set_butlastD)
  qed
qed

lemma clean_relative_form: "ups_then_names (rev st) \<Longrightarrow> ups_then_names (clean_parts False st qs)"
proof (induction False st qs rule: clean_parts.induct)
  case (2 st p qs)
  consider (skip) "p = [] \<or> p = ''.''" | (up) "p = ''..''" "st \<noteq> []" "hd st \<noteq> ''..''"
    | (top) "p = ''..''" "st = [] \<or> hd st = ''..''" | (name) "p \<noteq> []" "p \<noteq> ''.''" "p \<noteq> ''..''"
    by blast
  then show ?case
  proof cases
    case skip
    then show ?thesis using "2.hyps"(1) "2.prems" by auto
  next
    case up
    then show ?thesis using "2.hyps"(2) ups_then_names_butlast [OF "2.prems"] by (simp add: butlast_rev)
  next
    case top
    then have "rev st = [] \<or> last (rev st) = ''..''" by (auto simp: last_rev)
    then show ?thesis using "2.hyps"(4) top ups_then_names_up [OF "2.prems"] by auto
  next
    case name
    then show ?thesis using "2.hyps"(5) ups_then_names_name [OF "2.prems" name] by simp
  qed
qed simp

lemma clean_relative_plain:
  assumes "\<not> path_IsAbs s" and "take 2 (path_Clean s) \<noteq> ''..''"
  shows "\<forall>n \<in> set (clean_parts False [] (split_at_char (CHR ''/'') s)). plain_name n"
proof -
  define ps where "ps = clean_parts False [] (split_at_char (CHR ''/'') s)"
  have C: "path_Clean s = (if ps = [] then ''.'' else join_path ps)"
    using assms(1) by (auto simp: path_Clean_def path_IsAbs_def ps_def Let_def)
  have no: "\<forall>x \<in> set ps. CHR ''/'' \<notin> set x" unfolding ps_def by (rule clean_parts_no_sep [OF split_no_seps])
  have hd: "ps = [] \<or> hd ps \<noteq> ''..''" using assms(2) by (cases ps rule: join_path.cases) (auto simp: C)
  obtain k ns where ps: "ps = replicate k ''..'' @ ns" "\<forall>n \<in> set ns. n \<noteq> [] \<and> n \<noteq> ''.'' \<and> n \<noteq> ''..''"
    using clean_relative_form [of "[]" "split_at_char (CHR ''/'') s"] by (auto simp: ps_def ups_then_names_def)
  with hd have "k = 0" by (cases k) auto
  then show ?thesis using no ps by (auto simp: plain_name_def ps_def)
qed

lemma SafeOutputPath_form:
  assumes "path_IsAbs cwd" and "\<not> path_IsAbs rel" and "take 2 (path_Clean rel) \<noteq> ''..''"
  defines "ns \<equiv> clean_parts False [] (split_at_char (CHR ''/'') rel)"
  shows "SafeOutputPath cwd out rel =
      (if abs_parts cwd out = [] \<and> ns \<noteq> [] then Inl (TraversalRejected rel) else Inr (path_Join out (path_Clean rel)))"
    and "abs_parts cwd (path_Join out (path_Clean rel)) = abs_parts cwd out @ ns"
proof -
  have plain: "\<forall>n \<in> set ns. plain_name n" unfolding ns_def by (rule clean_relative_plain [OF assms(2,3)])
  show parts: "abs_parts cwd (path_Join out (path_Clean rel)) = abs_parts cwd out @ ns"
    using abs_parts_Join [OF ns_def [symmetric, THEN meta_eq_to_obj_eq] plain assms(2)] by simp
  let ?full = "path_Join out (path_Clean rel)" and ?A = "abs_parts cwd out"
  have out: "path_Abs cwd out = ''/'' @ join_path ?A" and full: "path_Abs cwd ?full = ''/'' @ join_path (?A @ ns)"
    using path_Abs_parts [OF assms(1)] parts by simp_all
  have same: "path_Abs cwd ?full = path_Abs cwd out \<longleftrightarrow> ns = []"
  proof
    assume eq: "path_Abs cwd ?full = path_Abs cwd out"
    show "ns = []"
    proof (rule ccontr)
      assume ne: "ns \<noteq> []"
      have "dir_parts (path_Abs cwd ?full) = dir_parts (path_Abs cwd out)" using eq by simp
      then show False using dir_parts_Abs [OF assms(1)] parts ne by simp
    qed
  qed (simp add: out full)
  have join: "join_path (xs @ ys) = join_path xs @ ''/'' @ join_path ys" if "xs \<noteq> []" "ys \<noteq> []" for xs ys
    using that by (induction xs rule: join_path.induct) (auto simp: neq_Nil_conv)
  have under: "take (length (path_Abs cwd out) + 1) (path_Abs cwd ?full) = path_Abs cwd out @ ''/'' \<longleftrightarrow> ?A \<noteq> []" if ne: "ns \<noteq> []"
  proof (cases "?A = []")
    case True
    obtain n ms where n: "ns = n # ms" using ne by (cases ns) auto
    have "plain_name n" using plain n by simp
    then have "n \<noteq> []" "CHR ''/'' \<notin> set n" by (simp_all add: plain_name_def)
    then obtain c cs where "n = c # cs" "c \<noteq> CHR ''/''" by (cases n) auto
    then have "\<exists>d ds. join_path ns = d # ds \<and> d \<noteq> CHR ''/''" using n by (cases ms) auto
    then show ?thesis using True by (auto simp: out full)
  next
    case False
    then show ?thesis using join [OF False ne] by (simp add: out full)
  qed
  show "SafeOutputPath cwd out rel =
      (if ?A = [] \<and> ns \<noteq> [] then Inl (TraversalRejected rel) else Inr ?full)"
    using same under assms(2,3) by (cases "ns = []") (simp_all add: SafeOutputPath_def Let_def)
qed

lemma SafeOutputPath_confined:
  assumes "path_IsAbs cwd" and "SafeOutputPath cwd out rel = Inr full"
  shows "\<exists>ns. (\<forall>n \<in> set ns. plain_name n) \<and> dir_parts (path_Abs cwd full) = dir_parts (path_Abs cwd out) @ ns"
proof -
  have c: "\<not> path_IsAbs rel" "take 2 (path_Clean rel) \<noteq> ''..''"
    using assms(2) by (auto simp: SafeOutputPath_def Let_def split: if_splits)
  have "full = path_Join out (path_Clean rel)" using assms(2) SafeOutputPath_form(1) [OF assms(1) c] by (auto split: if_splits)
  then show ?thesis using SafeOutputPath_form(2) [OF assms(1) c] clean_relative_plain [OF c] dir_parts_Abs [OF assms(1)] by auto
qed

text \<open>Path traversal is impossible: whatever relative path a downloaded directory manifest names, the
  path \<open>SafeOutputPath\<close> returns is, once made absolute, the output directory followed by ordinary names
  (no parent steps). Conversely it accepts every path of ordinary names below an output directory other
  than the file system root, as long as the first name does not start with two dots.\<close>

lemma output_path_confined:
  assumes "path_IsAbs cwd"
  shows "(SafeOutputPath cwd out rel = Inr full \<longrightarrow>
      (\<exists>ns. (\<forall>n \<in> set ns. plain_name n) \<and> dir_parts (path_Abs cwd full) = dir_parts (path_Abs cwd out) @ ns)) \<and>
    (dir_parts (path_Abs cwd out) \<noteq> [] \<and> ps \<noteq> [] \<and> (\<forall>p \<in> set ps. plain_name p) \<and> take 2 (hd ps) \<noteq> ''..'' \<longrightarrow>
      (\<exists>f. SafeOutputPath cwd out (join_path ps) = Inr f \<and>
         dir_parts (path_Abs cwd f) = dir_parts (path_Abs cwd out) @ ps))"
proof (intro conjI impI)
  show "\<exists>ns. (\<forall>n \<in> set ns. plain_name n) \<and> dir_parts (path_Abs cwd full) = dir_parts (path_Abs cwd out) @ ns"
    if "SafeOutputPath cwd out rel = Inr full" by (rule SafeOutputPath_confined [OF assms that])
next
  assume a: "dir_parts (path_Abs cwd out) \<noteq> [] \<and> ps \<noteq> [] \<and> (\<forall>p \<in> set ps. plain_name p) \<and> take 2 (hd ps) \<noteq> ''..''"
  then obtain p qs where ps: "ps = p # qs" and p: "plain_name p" by (cases ps) auto
  have split: "split_at_char (CHR ''/'') (join_path ps) = ps" using a split_join_path [of ps] by (simp add: plain_name_def)
  have clean: "clean_parts False [] ps = ps" using clean_parts_append_plain [of ps False "[]" "[]"] a by simp
  have p_ne: "p \<noteq> []" using p by (simp add: plain_name_def)
  moreover from this have "hd p \<noteq> CHR ''/''" using p hd_in_set [of p] unfolding plain_name_def by metis
  ultimately have rel: "\<not> path_IsAbs (join_path ps)" by (cases qs) (auto simp: ps path_IsAbs_def)
  then have C: "path_Clean (join_path ps) = join_path ps"
    using a by (auto simp: path_Clean_def path_IsAbs_def split clean Let_def)
  have "take 2 (join_path ps) \<noteq> ''..''"
  proof (cases "length p = 1")
    case True
    then obtain c where "p = [c]" by (cases p) auto
    then show ?thesis using p by (cases qs) (auto simp: ps plain_name_def)
  next
    case False
    then have "2 \<le> length p" using p_ne by (cases p; cases "tl p") auto
    then show ?thesis using a by (cases qs) (auto simp: ps)
  qed
  then have c: "take 2 (path_Clean (join_path ps)) \<noteq> ''..''" by (simp add: C)
  show "\<exists>f. SafeOutputPath cwd out (join_path ps) = Inr f \<and> dir_parts (path_Abs cwd f) = dir_parts (path_Abs cwd out) @ ps"
    using SafeOutputPath_form [OF assms rel c, of out] a dir_parts_Abs [OF assms] by (simp add: split clean)
qed

theorem output_path_confined_witness:
  "SafeOutputPath ''/home/u'' ''out'' ''../../etc/passwd'' = Inl (TraversalRejected ''../../etc/passwd'') \<and>
    (\<exists>f. SafeOutputPath ''/home/u'' ''out'' ''a/b'' = Inr f \<and>
       dir_parts (path_Abs ''/home/u'' f) = dir_parts (path_Abs ''/home/u'' ''out'') @ [''a'', ''b''])"
proof -
  have "path_IsAbs ''/home/u''" by (simp add: path_IsAbs_def)
  moreover have "dir_parts (path_Abs ''/home/u'' ''out'') \<noteq> []"
    by (simp add: dir_parts_def path_Abs_def path_IsAbs_def path_Join_def path_Clean_def Let_def)
  moreover have "SafeOutputPath ''/home/u'' ''out'' ''../../etc/passwd'' = Inl (TraversalRejected ''../../etc/passwd'')"
    by (simp add: SafeOutputPath_def path_IsAbs_def path_Clean_def Let_def)
  ultimately show ?thesis
    using output_path_confined [of "''/home/u''" "''out''" "[]" "[]" "[''a'', ''b'']"] by (simp add: plain_name_def)
qed

text \<open>Names that only start with two dots are refused too, and so is every file of a directory that is
  downloaded to the root of the file system.\<close>

lemma dotted_name_refused: "SafeOutputPath cwd out ''..data/x'' = Inl (TraversalRejected ''..data/x'')"
  by (simp add: SafeOutputPath_def path_IsAbs_def path_Clean_def Let_def)

lemma root_output_refused: "SafeOutputPath cwd ''/'' ''a'' = Inl (TraversalRejected ''a'')"
  by (simp add: SafeOutputPath_def path_IsAbs_def path_Clean_def path_Join_def path_Abs_def Let_def)

end
