(* ===== verification/Upload.thy ===== *)
theory Upload
  imports Recovery Crypto Compression DirManifest
begin

text \<open>
  Uploads in Server/server.go: \<open>storeDataInternal\<close> with its three entry points. The first stage (split, compress, encrypt) is a function of the content; the second
  stage threads the metadata store and the file system through the processed chunks.

  What the server does besides its local state is the list of effects: replication of chunks and
  manifests, progress reports, seed sources and provider registrations. \<open>ctx\<close> says before which chunk
  of the second stage the context is cancelled, and \<open>now\<close> gives the successive readings of the clock.
  A first stage whose second stage has returned early only blocks, which has no effect here.
\<close>

section \<open>Parameters\<close>

record 'm upload_env =
  USha :: "byte list \<Rightarrow> byte list"
  UMd5 :: "byte list \<Rightarrow> byte list"
  URnd :: "nat \<Rightarrow> string"
  UAead :: aead
  UCodec :: codec
  UStore :: "'m chunk_store"
  UTargets :: "string \<Rightarrow> string list"
  UNow :: "nat \<Rightarrow> int"
  USelf :: string
  URoot :: string
  UHeaders :: "pending_header json"
  URecords :: "chunk_record json"

record encryption_meta =
  EDEK :: "byte list"
  EOwnerPubKey :: string
  EOwnerEdPubKey :: string
  EAccessList :: "access_entry list"
  ESignature :: string

record processed_chunk =
  PCInfo :: chunk_info
  PCData :: "byte list"
  PCKey :: string
  PCTargets :: "string list"

record stored_file_result =
  SChunkMetas :: "(string \<times> file_meta) list"
  SManifest :: chunk_manifest
  SFileKey :: string
  SFileMeta :: file_meta

datatype upload_error =
    CreatePending sidecar_error
  | UploadCancelled
  | LocalStore int store_error
  | ChunkMeta int string
  | EncryptFailed int crypto_error
  | ReadSource
  | StoreManifest string
  | UpdateFileMeta string
  | OpenSource os_error

datatype up_effect =
    UpProgress int int
  | ReplicateChunk string string "byte list" "string list"
  | ReplicateManifest string string chunk_manifest
  | SetSeedSource string string int int "byte list option"
  | RegisterProvider string int int
  | UpDirProgress int int int int

section \<open>Stage 1\<close>

text \<open>Compression when it is worth trying and pays off.\<close>

definition compress_stage :: "codec \<Rightarrow> byte list \<Rightarrow> byte list \<times> bool" where
  "compress_stage Z data =
     (if ShouldCompress data then
        (let (c, wc, err) = CompressChunkWithPool Z (Some []) data LevelFastest
         in if \<not> err \<and> wc then (c, True) else (data, False))
      else (data, False))"

definition process_data ::
  "aead \<Rightarrow> codec \<Rightarrow> encryption_meta option \<Rightarrow> int \<Rightarrow> byte list \<Rightarrow> crypto_error + byte list \<times> bool" where
  "process_data A Z enc idx data =
     (let (processed, was) = compress_stage Z data
      in case enc of
           None \<Rightarrow> Inr (processed, was)
         | Some e \<Rightarrow>
             (case EncryptStreamWithDEKPool A (Some []) processed False (EDEK e) (word_of_int idx) of
                (Some err, _) \<Rightarrow> Inl err
              | (None, out) \<Rightarrow> Inr (out, was)))"

definition process_chunk :: "'m upload_env \<Rightarrow> encryption_meta option \<Rightarrow> chunk \<Rightarrow> upload_error + processed_chunk" where
  "process_chunk env enc c =
     (case process_data (UAead env) (UCodec env) enc (CIndex c) (CData c) of
        Inl e \<Rightarrow> Inl (EncryptFailed (CIndex c) e)
      | Inr (processed, was) \<Rightarrow>
          (let hashHex = hex_encode (USha env processed); storageKey = ChunkStorageKey hashHex
           in Inr \<lparr>PCInfo = \<lparr>IIndex = CIndex c, IHash = hex_encode (CHash c), ISize = CSize c, IEncHash = hashHex,
                              ICompressed = was\<rparr>,
                   PCData = processed, PCKey = storageKey, PCTargets = UTargets env storageKey\<rparr>))"

text \<open>The chunks sent to the second stage, up to the first one that cannot be encrypted, and the error of
  the stage.\<close>

fun stage1 ::
  "'m upload_env \<Rightarrow> encryption_meta option \<Rightarrow> int list \<Rightarrow> bool \<Rightarrow> chunk list \<Rightarrow> processed_chunk list \<times> upload_error option" where
  "stage1 env enc skip err [] = ([], if err then Some ReadSource else None)"
| "stage1 env enc skip err (c # cs) =
     (if CIndex c \<in> set skip then stage1 env enc skip err cs
      else (case process_chunk env enc c of
          Inl e \<Rightarrow> ([], Some e)
        | Inr pc \<Rightarrow> (let (pcs, e) = stage1 env enc skip err cs in (pc # pcs, e))))"

section \<open>Stage 2\<close>

record 'm up_state =
  UMeta :: 'm
  UOs :: os
  UInfos :: "chunk_info list"
  UCompleted :: int
  UMetas :: "(string \<times> file_meta) list"
  UEffects :: "up_effect list"

definition meta_or_zero :: "'m meta_ops \<Rightarrow> 'm \<Rightarrow> string \<Rightarrow> file_meta" where
  "meta_or_zero ops m k = (case MGet ops m k of None \<Rightarrow> zero_meta | Some fm \<Rightarrow> fm)"

text \<open>The local copy of chunk number \<open>n\<close> of the stage.\<close>

definition store_chunk ::
  "'m upload_env \<Rightarrow> bool \<Rightarrow> nat \<Rightarrow> processed_chunk \<Rightarrow> 'm up_state \<Rightarrow> upload_error option \<times> 'm up_state" where
  "store_chunk env defer n pc st =
     (let cs = UStore env; ops = Metadata cs; key = PCKey pc
      in if Has cs key (UMeta st) (UOs st) then (None, st)
         else case WriteStream (UMd5 env) (URnd env n) cs key (Some (PCData pc)) (UMeta st) (UOs st) of
             (Inl e, m, s) \<Rightarrow> (Some (LocalStore (IIndex (PCInfo pc)) e), st\<lparr>UMeta := m, UOs := s\<rparr>)
           | (Inr _, m, s) \<Rightarrow>
               (let fm = (meta_or_zero ops m key)\<lparr>MTimestamp := UNow env (n + 1)\<rparr>
                in if defer then (None, st\<lparr>UMeta := m, UOs := s, UMetas := UMetas st @ [(key, fm)]\<rparr>)
                   else case MSet ops m key fm of
                       (Some e, m) \<Rightarrow> (Some (ChunkMeta (IIndex (PCInfo pc)) e), st\<lparr>UMeta := m, UOs := s\<rparr>)
                     | (None, m) \<Rightarrow> (None, st\<lparr>UMeta := m, UOs := s\<rparr>)))"

text \<open>The bookkeeping after the local copy.\<close>

definition finish_stored ::
  "'m upload_env \<Rightarrow> pending_sidecar option \<Rightarrow> bool \<Rightarrow> int \<Rightarrow> processed_chunk \<Rightarrow> 'm up_state \<Rightarrow> 'm up_state" where
  "finish_stored env sidecar progress est pc st =
     (let st = st\<lparr>UEffects := UEffects st @ [ReplicateChunk (USelf env) (PCKey pc) (PCData pc) (PCTargets pc)],
                  UInfos := UInfos st @ [PCInfo pc], UCompleted := UCompleted st + 1\<rparr>;
          st = (case sidecar of
                  None \<Rightarrow> st
                | Some sc \<Rightarrow> st\<lparr>UOs := pending_RecordChunk (URecords env) sc (PCInfo pc) (UOs st)\<rparr>)
      in if progress then st\<lparr>UEffects := UEffects st @ [UpProgress (UCompleted st) est]\<rparr> else st)"

fun stage2 ::
  "'m upload_env \<Rightarrow> (nat \<Rightarrow> bool) \<Rightarrow> bool \<Rightarrow> pending_sidecar option \<Rightarrow> bool \<Rightarrow> int \<Rightarrow> nat \<Rightarrow> processed_chunk list
    \<Rightarrow> 'm up_state \<Rightarrow> upload_error option \<times> 'm up_state" where
  "stage2 env ctx defer sidecar progress est n [] st = (None, st)"
| "stage2 env ctx defer sidecar progress est n (pc # pcs) st =
     (if ctx n then (Some UploadCancelled, st)
      else (case store_chunk env defer n pc st of
          (Some e, st) \<Rightarrow> (Some e, st)
        | (None, st) \<Rightarrow>
            stage2 env ctx defer sidecar progress est (n + 1) pcs (finish_stored env sidecar progress est pc st)))"

section \<open>\<open>storeDataInternal\<close>\<close>

text \<open>The pending log of an interrupted upload is loaded and started again; a log that cannot be read counts
  as none. The header of the old log is not looked at.\<close>

definition begin_pending ::
  "'m upload_env \<Rightarrow> string \<Rightarrow> bool \<Rightarrow> os \<Rightarrow> (upload_error + int list \<times> chunk_info list \<times> pending_sidecar option) \<times> os" where
  "begin_pending env key useSidecar s =
     (if \<not> useSidecar then (Inr ([], [], None), s)
      else
        (let (skip, infos) = (case pending_Load (UHeaders env) (URecords env) (URoot env) key s of
               Inl e \<Rightarrow> ([], [])
             | Inr None \<Rightarrow> ([], [])
             | Inr (Some r) \<Rightarrow> (Completed r, ChunkInfos r));
             h = \<lparr>PStorageKey = key, PTotalSize = 0, PChunkSize = DefaultChunkSize, PMerkleRoot = [],
                  PCreatedAt = UNow env 0\<rparr>
         in case pending_Create (UHeaders env) (URoot env) h s of
              (Inl e, s) \<Rightarrow> (Inl (CreatePending e), s)
            | (Inr sc, s) \<Rightarrow> (Inr (skip, infos, Some sc), record_pending (URecords env) sc infos s)))"

definition upload_manifest ::
  "'m upload_env \<Rightarrow> encryption_meta option \<Rightarrow> string \<Rightarrow> chunk_info list \<Rightarrow> int \<Rightarrow> chunk_manifest" where
  "upload_manifest env enc key infos created =
     (let man = BuildManifest (USha env) key infos created
      in case enc of
           None \<Rightarrow> man
         | Some e \<Rightarrow> man\<lparr>MEncrypted := True, MOwnerPubKey := EOwnerPubKey e, MOwnerEdPubKey := EOwnerEdPubKey e,
                        MAccessList := EAccessList e, MSignature := ESignature e\<rparr>)"

definition top_meta :: "'m meta_ops \<Rightarrow> 'm \<Rightarrow> string \<Rightarrow> string \<Rightarrow> int \<Rightarrow> file_meta" where
  "top_meta ops m key self now =
     (let fm = meta_or_zero ops m key
      in fm\<lparr>MVClock := AList.update self (go_get 0 (MVClock fm) self + 1) (MVClock fm), MChunked := True, MTimestamp := now\<rparr>)"

definition chunk_estimate :: "int \<Rightarrow> int" where
  "chunk_estimate fileSize = go_div (i64 (i64 (fileSize + DefaultChunkSize) - 1)) DefaultChunkSize"

definition finalize_pending :: "'m upload_env \<Rightarrow> pending_sidecar option \<Rightarrow> string \<Rightarrow> os \<Rightarrow> os" where
  "finalize_pending env sidecar key s =
     (case sidecar of None \<Rightarrow> s | Some sc \<Rightarrow> snd (pending_Finalize (URoot env) key s))"

text \<open>The end of an upload whose two stages succeeded with \<open>n\<close> chunks processed.\<close>

definition finish_upload ::
  "'m upload_env \<Rightarrow> string \<Rightarrow> encryption_meta option \<Rightarrow> bool \<Rightarrow> pending_sidecar option \<Rightarrow> nat \<Rightarrow> 'm up_state
    \<Rightarrow> (upload_error + stored_file_result option) \<times> up_effect list \<times> 'm \<times> os" where
  "finish_upload env key enc defer sidecar n st =
     (let ops = Metadata (UStore env); m = UMeta st; s = UOs st;
          man = upload_manifest env enc key (UInfos st) (UNow env (n + 1));
          eff = UEffects st @ [ReplicateManifest key (USelf env) man];
          topFm = top_meta ops m key (USelf env) (UNow env (n + 2))
      in if defer then
           (Inr (Some \<lparr>SChunkMetas = UMetas st, SManifest = man, SFileKey = key, SFileMeta = topFm\<rparr>), eff, m,
            finalize_pending env sidecar key s)
         else case MSetManifest ops m key man of
             (Some e, m) \<Rightarrow> (Inl (StoreManifest e), eff, m, s)
           | (None, m) \<Rightarrow>
               (case MSet ops m key topFm of
                  (Some e, m) \<Rightarrow> (Inl (UpdateFileMeta e), eff, m, s)
                | (None, m) \<Rightarrow> (Inr None, eff, m, finalize_pending env sidecar key s)))"

definition storeDataInternal ::
  "'m upload_env \<Rightarrow> (nat \<Rightarrow> bool) \<Rightarrow> string \<Rightarrow> byte list \<Rightarrow> bool \<Rightarrow> encryption_meta option \<Rightarrow> int \<Rightarrow> bool \<Rightarrow> bool
    \<Rightarrow> 'm \<Rightarrow> os \<Rightarrow> (upload_error + stored_file_result option) \<times> up_effect list \<times> 'm \<times> os" where
  "storeDataInternal env ctx key content fails enc fileSize progress defer m s =
     (case begin_pending env key (fileSize = 0 \<or> DefaultChunkSize < fileSize) s of
        (Inl e, s) \<Rightarrow> (Inl e, [], m, s)
      | (Inr (skip, resumed, sidecar), s) \<Rightarrow>
          (let est = (if 0 < fileSize then chunk_estimate fileSize else 0);
               (chunks, rerr) = ChunkReader (USha env) DefaultChunkSize content fails;
               (pcs, serr) = stage1 env enc skip rerr chunks;
               done_before = int (length resumed);
               st = \<lparr>UMeta = m, UOs = s, UInfos = resumed, UCompleted = done_before, UMetas = [],
                     UEffects = (if progress \<and> 0 < done_before then [UpProgress done_before est] else [])\<rparr>
           in case stage2 env ctx defer sidecar progress est 0 pcs st of
                (Some e, st) \<Rightarrow> (Inl e, UEffects st, UMeta st, UOs st)
              | (None, st) \<Rightarrow>
                  (case serr of
                     Some e \<Rightarrow> (Inl e, UEffects st, UMeta st, UOs st)
                   | None \<Rightarrow> finish_upload env key enc defer sidecar (length pcs) st)))"

definition StoreData ::
  "'m upload_env \<Rightarrow> string \<Rightarrow> byte list \<Rightarrow> bool \<Rightarrow> encryption_meta option \<Rightarrow> 'm \<Rightarrow> os
    \<Rightarrow> upload_error option \<times> up_effect list \<times> 'm \<times> os" where
  "StoreData env key content fails enc m s =
     (let (r, rest) = storeDataInternal env (\<lambda>n. False) key content fails enc 0 False False m s
      in (case r of Inl e \<Rightarrow> Some e | Inr x \<Rightarrow> None, rest))"

definition StoreDataWithProgress ::
  "'m upload_env \<Rightarrow> (nat \<Rightarrow> bool) \<Rightarrow> string \<Rightarrow> byte list \<Rightarrow> bool \<Rightarrow> encryption_meta option \<Rightarrow> int \<Rightarrow> bool \<Rightarrow> 'm \<Rightarrow> os
    \<Rightarrow> upload_error option \<times> up_effect list \<times> 'm \<times> os" where
  "StoreDataWithProgress env ctx key content fails enc fileSize progress m s =
     (let (r, rest) = storeDataInternal env ctx key content fails enc fileSize progress False m s
      in (case r of Inl e \<Rightarrow> Some e | Inr x \<Rightarrow> None, rest))"

definition StoreDataCollectMeta ::
  "'m upload_env \<Rightarrow> (nat \<Rightarrow> bool) \<Rightarrow> string \<Rightarrow> byte list \<Rightarrow> bool \<Rightarrow> encryption_meta option \<Rightarrow> int \<Rightarrow> bool \<Rightarrow> 'm \<Rightarrow> os
    \<Rightarrow> (upload_error + stored_file_result option) \<times> up_effect list \<times> 'm \<times> os" where
  "StoreDataCollectMeta env ctx key content fails enc fileSize progress m s =
     storeDataInternal env ctx key content fails enc fileSize progress True m s"

end
