(* ===== verification/ChunkCas.thy ===== *)
theory ChunkCas
  imports StoreLaws Upload
begin

text \<open>
  The local store as uploads use it. The locale \<open>cas_store\<close> is the contract between the upload and the
  store: on good states a present chunk can be read, a written chunk is read back and changes no other,
  and neither time stamps nor the pending log touch contents. It is interpreted on the content-addressed
  store over bbolt, whose good states are \<open>cas_ready\<close>.
\<close>

section \<open>Where the files are\<close>

text \<open>The random part of a temporary name is a decimal number.\<close>

definition rnd_ok :: "string \<Rightarrow> bool" where
  "rnd_ok rnd \<longleftrightarrow> rnd \<noteq> [] \<and> digits rnd"

definition temp_path :: "'m chunk_store \<Rightarrow> string \<Rightarrow> string \<Rightarrow> string" where
  "temp_path st key rnd = path_Join (path_Join (Root st) (pathname (PathTransformFunc st key))) (''temp-'' @ rnd)"

lemma last_split_join:
  assumes "ps \<noteq> []" and "\<forall>p \<in> set ps. CHR ''/'' \<notin> set p"
  shows "last (split_at_char (CHR ''/'') (''/'' @ join_path ps)) = last ps"
    and "last (split_at_char (CHR ''/'') (join_path ps)) = last ps"
  using split_join_path [OF assms] assms(1) by simp_all

lemma last_Join:
  assumes "a \<noteq> []" and "plain_name x"
  shows "last (split_at_char (CHR ''/'') (path_Join a x)) = x"
proof -
  have J: "path_Join a x = (if hd a = CHR ''/'' then ''/'' else []) @ join_path (dir_parts a @ [x])"
    using path_Join_names [OF assms(1), of "[x]"] assms(2) by simp
  have "\<forall>p \<in> set (dir_parts a @ [x]). CHR ''/'' \<notin> set p" using dir_parts_no_sep assms(2) by (auto simp: plain_name_def)
  then show ?thesis using last_split_join [of "dir_parts a @ [x]"] by (simp add: J)
qed

lemma rnd_plain: "rnd_ok rnd \<Longrightarrow> plain_name (''temp-'' @ rnd)"
  by (rule temp_plain) (auto simp: rnd_ok_def digits_def is_digit_def)

lemma full_nonempty: "Root st \<noteq> [] \<Longrightarrow> path_Join (Root st) p \<noteq> []"
  by (simp add: path_Join_def)

lemma last_cas_file: "Root st \<noteq> [] \<Longrightarrow> length h = 16 \<Longrightarrow> last (split_at_char (CHR ''/'') (cas_file st k h)) = hex_encode h"
  unfolding cas_file_def by (intro last_Join full_nonempty md5_plain)

lemma last_temp_path: "Root st \<noteq> [] \<Longrightarrow> rnd_ok rnd \<Longrightarrow> last (split_at_char (CHR ''/'') (temp_path st k rnd)) = ''temp-'' @ rnd"
  unfolding temp_path_def by (intro last_Join full_nonempty rnd_plain)

lemma last_pending: "last (split_at_char (CHR ''/'') (pending_sidecarPath r key)) = sanitizeKey key @ ''.pending''"
  unfolding pending_sidecarPath_def by (intro last_Join pending_Dir_nonempty pending_name_plain)

lemma pending_not_cas:
  assumes "Root st \<noteq> []" and "length h = 16"
  shows "cas_file st k h \<noteq> pending_sidecarPath r key"
proof
  assume "cas_file st k h = pending_sidecarPath r key"
  then have "hex_encode h = sanitizeKey key @ ''.pending''" using last_cas_file [OF assms] last_pending by metis
  then have "CHR ''.'' \<in> set (hex_encode h)" by simp
  then show False using hex_encode_chars [of h] by (auto simp: hex_char_def)
qed

lemma pending_not_temp:
  assumes "Root st \<noteq> []" and "rnd_ok rnd"
  shows "temp_path st k rnd \<noteq> pending_sidecarPath r key"
proof
  assume "temp_path st k rnd = pending_sidecarPath r key"
  then have "''temp-'' @ rnd = sanitizeKey key @ ''.pending''" using last_temp_path [OF assms] last_pending by metis
  then have "last (''temp-'' @ rnd) = last (sanitizeKey key @ ''.pending'')" by (rule arg_cong)
  then have "last rnd = CHR ''g''" using assms(2) by (simp add: rnd_ok_def)
  moreover have "is_digit (last rnd)" using assms(2) by (simp add: rnd_ok_def digits_def)
  ultimately show False by (simp add: is_digit_def)
qed

lemma temp_not_cas:
  assumes "Root st \<noteq> []" and "rnd_ok rnd" and "length h = 16"
  shows "temp_path st k rnd \<noteq> cas_file st k' h"
  using last_temp_path [OF assms(1,2), of k] last_cas_file [OF assms(1,3), of k'] temp_not_hex by metis

lemma pending_nonempty: "pending_sidecarPath r key \<noteq> []"
  using pending_Dir_nonempty by (simp add: pending_sidecarPath_def path_Join_def)

text \<open>No path of the store has a zero byte when its root has none.\<close>

lemma join_path_chars: "set (join_path ps) \<subseteq> (\<Union>p \<in> set ps. set p) \<union> {CHR ''/''}"
  by (induction ps rule: join_path.induct) auto

lemma split_chars: "\<forall>p \<in> set (split_at_char d s). set p \<subseteq> set s"
  by (induction s) (auto split: list.splits if_splits)

lemma path_Clean_chars: "set (path_Clean s) \<subseteq> set s \<union> {CHR ''/'', CHR ''.''}"
proof -
  have "\<forall>p \<in> set (clean_parts r [] (split_at_char (CHR ''/'') s)). set p \<subseteq> set s" for r
    by (intro clean_parts_all) (simp_all add: split_chars)
  then have "set (join_path (clean_parts r [] (split_at_char (CHR ''/'') s))) \<subseteq> set s \<union> {CHR ''/''}" for r
    using join_path_chars [of "clean_parts r [] (split_at_char (CHR ''/'') s)"] by blast
  then show ?thesis by (auto simp: path_Clean_def Let_def)
qed

lemma path_Join_chars: "set (path_Join a b) \<subseteq> set a \<union> set b \<union> {CHR ''/'', CHR ''.''}"
  using path_Clean_chars [of "a @ CHR ''/'' # b"] path_Clean_chars [of b] by (auto simp: path_Join_def)

lemma cas_file_no_NUL:
  assumes "NUL \<notin> set (Root st)" and "PathTransformFunc st = CASPathTransformFunc sha256"
  shows "NUL \<notin> set (cas_file st k h)"
proof -
  have n: "NUL \<notin> {CHR ''/'', CHR ''.''}" by (simp add: NUL_def)
  have "NUL \<notin> set p" if "p \<in> set (cas_names sha256 k)" for p
    using that hex_encode_chars [of "sha256 (bytes_of k)"]
    by (auto simp: cas_names_def hex_char_def dest!: in_set_takeD in_set_dropD)
  then have "NUL \<notin> set (pathname (PathTransformFunc st k))"
    unfolding assms(2) pathname_CAS using join_path_chars [of "cas_names sha256 k"] n by auto
  then have "NUL \<notin> set (path_Join (Root st) (pathname (PathTransformFunc st k)))"
    using path_Join_chars [of "Root st" "pathname (PathTransformFunc st k)"] assms(1) n by blast
  moreover have "NUL \<notin> set (hex_encode h)" using hex_encode_chars [of h] by (auto simp: hex_char_def)
  ultimately show ?thesis unfolding cas_file_def
    using path_Join_chars [of "path_Join (Root st) (pathname (PathTransformFunc st k))" "hex_encode h"] n by blast
qed

section \<open>The contract\<close>

locale cas_store =
  fixes st :: "'m chunk_store" and md5 :: "byte list \<Rightarrow> byte list" and good :: "'m \<Rightarrow> os \<Rightarrow> bool" and keys :: "string set"
  assumes has_content: "good m s \<Longrightarrow> k \<in> keys \<Longrightarrow> Has st k m s \<Longrightarrow> stored_content st m s k \<noteq> None"
    and put: "good m s \<Longrightarrow> k \<in> keys \<Longrightarrow> rnd_ok rnd \<Longrightarrow> WriteStream md5 rnd st k (Some d) m s = (Inr n, m', s') \<Longrightarrow>
      good m' s' \<and> stored_content st m' s' = (stored_content st m s)(k \<mapsto> d)"
    and touch: "good m s \<Longrightarrow> k \<in> keys \<Longrightarrow>
      MSet (Metadata st) m k ((meta_or_zero (Metadata st) m k)\<lparr>MTimestamp := t\<rparr>) = (None, m') \<Longrightarrow>
      good m' s \<and> stored_content st m' s = stored_content st m s"
    and pending_log: "good m s \<Longrightarrow> Files s' = (Files s)(pending_sidecarPath r key := f) \<Longrightarrow> Denied s' = Denied s \<Longrightarrow>
      good m s' \<and> stored_content st m s' = stored_content st m s"
begin

text \<open>The local copy of a chunk can be read afterwards and no other content changes.\<close>

lemma store_chunk_content:
  assumes u: "UStore env = st" "UMd5 env = md5" and g: "good (UMeta u) (UOs u)" and k: "PCKey pc \<in> keys" and r: "rnd_ok (URnd env n)"
    and c: "stored_content st (UMeta u) (UOs u) (PCKey pc) \<in> {None, Some (PCData pc)}"
    and ok: "store_chunk env defer n pc u = (None, v)"
  shows "good (UMeta v) (UOs v) \<and>
    stored_content st (UMeta v) (UOs v) = (stored_content st (UMeta u) (UOs u))(PCKey pc \<mapsto> PCData pc) \<and>
    UInfos v = UInfos u \<and> UCompleted v = UCompleted u \<and> UEffects v = UEffects u"
proof (cases "Has st (PCKey pc) (UMeta u) (UOs u)")
  case True
  then have "v = u" using ok by (simp add: store_chunk_def u Let_def)
  moreover have "stored_content st (UMeta u) (UOs u) (PCKey pc) = Some (PCData pc)" using has_content [OF g k True] c by auto
  ultimately show ?thesis using g by (simp add: fun_upd_idem)
next
  case False
  obtain w m s where w: "WriteStream md5 (URnd env n) st (PCKey pc) (Some (PCData pc)) (UMeta u) (UOs u) = (Inr w, m, s)"
    using ok False by (auto simp: store_chunk_def u Let_def split: sum.splits prod.splits)
  note p = put [OF g k r w]
  let ?fm = "(meta_or_zero (Metadata st) m (PCKey pc))\<lparr>MTimestamp := UNow env (n + 1)\<rparr>"
  show ?thesis
  proof (cases "defer")
    case True
    then show ?thesis using ok False p by (auto simp: store_chunk_def u w Let_def)
  next
    case nodefer: False
    obtain m' where m': "MSet (Metadata st) m (PCKey pc) ?fm = (None, m')" "v = u\<lparr>UMeta := m', UOs := s\<rparr>"
      using ok False nodefer by (auto simp: store_chunk_def u w Let_def split: prod.splits option.splits)
    show ?thesis using touch [OF conjunct1 [OF p] k m'(1)] p by (simp add: m'(2))
  qed
qed

lemma pending_record_content:
  assumes "good m s" and "PPath sc = pending_sidecarPath r key"
  shows "good m (pending_RecordChunk JR sc info s) \<and>
    stored_content st m (pending_RecordChunk JR sc info s) = stored_content st m s"
proof (cases "Files s (PPath sc)")
  case None
  then show ?thesis using assms(1) by (simp add: pending_RecordChunk_def os_append_def)
next
  case (Some old)
  show ?thesis
    using pending_log [OF assms(1), of "pending_RecordChunk JR sc info s" r key] assms(2) Some
    by (simp add: pending_RecordChunk_def os_append_def)
qed

lemma stage2_content:
  assumes u: "UStore env = st" "UMd5 env = md5" and r: "\<And>i. rnd_ok (URnd env i)"
    and sc: "\<And>x. sidecar = Some x \<Longrightarrow> PPath x = pending_sidecarPath r key"
    and "stage2 env ctx defer sidecar progress est n pcs a = (None, b)"
    and "good (UMeta a) (UOs a)" and "\<forall>pc \<in> set pcs. PCKey pc \<in> keys"
    and "\<forall>pc \<in> set pcs. stored_content st (UMeta a) (UOs a) (PCKey pc) \<in> {None, Some (PCData pc)}"
    and "\<forall>pc \<in> set pcs. \<forall>pc' \<in> set pcs. PCKey pc = PCKey pc' \<longrightarrow> PCData pc = PCData pc'"
  shows "good (UMeta b) (UOs b) \<and> UInfos b = UInfos a @ map PCInfo pcs \<and>
    (\<forall>pc \<in> set pcs. stored_content st (UMeta b) (UOs b) (PCKey pc) = Some (PCData pc)) \<and>
    (\<forall>k. k \<notin> PCKey ` set pcs \<longrightarrow> stored_content st (UMeta b) (UOs b) k = stored_content st (UMeta a) (UOs a) k)"
  using assms(5-9)
proof (induction pcs arbitrary: a n)
  case Nil
  then have "b = a" by (metis Pair_inject stage2.simps(1))
  with Nil.prems(2) show ?case by simp
next
  case (Cons pc pcs)
  obtain v where v: "store_chunk env defer n pc a = (None, v)"
      and rest: "stage2 env ctx defer sidecar progress est (n + 1) pcs (finish_stored env sidecar progress est pc v) = (None, b)"
    using Cons.prems(1) by (auto split: if_splits prod.splits option.splits)
  define w where "w = finish_stored env sidecar progress est pc v"
  have c: "good (UMeta v) (UOs v)"
      "stored_content st (UMeta v) (UOs v) = (stored_content st (UMeta a) (UOs a))(PCKey pc \<mapsto> PCData pc)"
      "UInfos v = UInfos a"
    using store_chunk_content [OF u Cons.prems(2) _ r _ v] Cons.prems(3,4) by auto
  have w1: "UMeta w = UMeta v" "UInfos w = UInfos v @ [PCInfo pc]"
      "UOs w = (case sidecar of None \<Rightarrow> UOs v | Some sc \<Rightarrow> pending_RecordChunk (URecords env) sc (PCInfo pc) (UOs v))"
    by (simp_all add: w_def finish_stored_def Let_def split: option.split)
  have w2: "good (UMeta w) (UOs w) \<and> stored_content st (UMeta w) (UOs w) = stored_content st (UMeta v) (UOs v)"
  proof (cases sidecar)
    case None
    then show ?thesis using c(1) by (simp add: w1)
  next
    case (Some x)
    then show ?thesis using pending_record_content [OF c(1) sc [OF Some], of "URecords env" "PCInfo pc"] by (simp add: w1)
  qed
  have "\<forall>pc' \<in> set pcs. stored_content st (UMeta w) (UOs w) (PCKey pc') \<in> {None, Some (PCData pc')}"
  proof
    fix pc' assume "pc' \<in> set pcs"
    then have "stored_content st (UMeta a) (UOs a) (PCKey pc') \<in> {None, Some (PCData pc')}"
        "PCKey pc = PCKey pc' \<Longrightarrow> PCData pc = PCData pc'"
      using Cons.prems(4,5) by (meson list.set_intros)+
    then show "stored_content st (UMeta w) (UOs w) (PCKey pc') \<in> {None, Some (PCData pc')}"
      using w2 c(2) by simp
  qed
  moreover have "\<forall>pc \<in> set pcs. PCKey pc \<in> keys" "\<forall>pc \<in> set pcs. \<forall>pc' \<in> set pcs. PCKey pc = PCKey pc' \<longrightarrow> PCData pc = PCData pc'"
    using Cons.prems(3,5) by (meson list.set_intros)+
  ultimately
  have IH: "good (UMeta b) (UOs b)" "UInfos b = UInfos w @ map PCInfo pcs"
      "\<forall>pc \<in> set pcs. stored_content st (UMeta b) (UOs b) (PCKey pc) = Some (PCData pc)"
      "\<forall>k. k \<notin> PCKey ` set pcs \<longrightarrow> stored_content st (UMeta b) (UOs b) k = stored_content st (UMeta w) (UOs w) k"
    using Cons.IH [OF rest [folded w_def] conjunct1 [OF w2]] by blast+
  have "stored_content st (UMeta b) (UOs b) (PCKey pc) = Some (PCData pc)"
  proof (cases "PCKey pc \<in> PCKey ` set pcs")
    case True
    then obtain pc' where "pc' \<in> set pcs" "PCKey pc' = PCKey pc" by auto
    then show ?thesis using IH(3) Cons.prems(5) by (metis list.set_intros)
  next
    case False
    then show ?thesis using IH(4) w2 c(2) by simp
  qed
  moreover have "\<forall>k. k \<notin> PCKey ` set (pc # pcs) \<longrightarrow>
      stored_content st (UMeta b) (UOs b) k = stored_content st (UMeta a) (UOs a) k"
    using IH(4) w2 c(2) by simp
  ultimately show ?case using IH(1,2,3) w1(2) c(3) by simp
qed

end

section \<open>The store over bbolt\<close>

text \<open>The file metadata that survive the JSON codec are closed under what the store changes in them.\<close>

definition meta_closed :: "(byte list \<Rightarrow> byte list) \<Rightarrow> 'm chunk_store \<Rightarrow> file_meta set \<Rightarrow> bool" where
  "meta_closed md5 st V \<longleftrightarrow>
     (\<forall>x \<in> V. \<forall>k d t. x\<lparr>MPath := stream_path md5 st k d\<rparr> \<in> V \<and> x\<lparr>MTimestamp := t\<rparr> \<in> V)"

text \<open>A store in use: digests of the right lengths, a codec that keeps the metadata in \<open>V\<close>, every path where
  its key belongs, no two stored keys and keys in \<open>keys\<close> that agree in the first sixty digits of their
  digest, and a file system without temporary leftovers that denies nothing.\<close>

definition cas_ready ::
  "(byte list \<Rightarrow> byte list) \<Rightarrow> (byte list \<Rightarrow> byte list) \<Rightarrow> string set \<Rightarrow> file_meta set \<Rightarrow> 'db bolt_meta chunk_store
    \<Rightarrow> 'db bolt_meta \<Rightarrow> os \<Rightarrow> bool" where
  "cas_ready sha256 md5 keys V st m s \<longleftrightarrow>
     Metadata st = bm_ops \<and> PathTransformFunc st = CASPathTransformFunc sha256 \<and> Root st \<noteq> [] \<and> NUL \<notin> set (Root st) \<and>
     (\<forall>x. length (sha256 x) = 32) \<and> (\<forall>x. length (md5 x) = 16) \<and>
     kv_ok (BMOps m) \<and> (\<forall>x \<in> V. json_ok (BMMeta m) x) \<and> meta_closed md5 st V \<and>
     (\<forall>k \<in> keys. \<not> reserved k \<and> meta_or_zero bm_ops m k \<in> V) \<and> placed st m \<and>
     (\<forall>k. \<forall>k' \<in> keys. bm_Get m k \<noteq> None \<or> k \<in> keys \<longrightarrow>
        pathname (CASPathTransformFunc sha256 k) = pathname (CASPathTransformFunc sha256 k') \<longrightarrow> k = k') \<and>
     Denied s = (\<lambda>op p. False) \<and> Files s [] = None \<and> (\<forall>k rnd. rnd_ok rnd \<longrightarrow> Files s (temp_path st k rnd) = None)"

lemma cas_readyD:
  assumes "cas_ready sha256 md5 keys V st m s"
  shows "Metadata st = bm_ops" and "PathTransformFunc st = CASPathTransformFunc sha256" and "Root st \<noteq> []"
    and "NUL \<notin> set (Root st)" and "\<And>x. length (sha256 x) = 32" and "\<And>x. length (md5 x) = 16"
    and "kv_ok (BMOps m)" and "\<And>x. x \<in> V \<Longrightarrow> json_ok (BMMeta m) x" and "meta_closed md5 st V"
    and "\<And>k. k \<in> keys \<Longrightarrow> \<not> reserved k \<and> meta_or_zero bm_ops m k \<in> V" and "placed st m"
    and "\<And>k k'. k' \<in> keys \<Longrightarrow> bm_Get m k \<noteq> None \<or> k \<in> keys \<Longrightarrow>
        pathname (CASPathTransformFunc sha256 k) = pathname (CASPathTransformFunc sha256 k') \<Longrightarrow> k = k'"
    and "Denied s = (\<lambda>op p. False)" and "Files s [] = None"
    and "\<And>k rnd. rnd_ok rnd \<Longrightarrow> Files s (temp_path st k rnd) = None"
  using assms unfolding cas_ready_def by blast+

lemma bm_ops_sel [simp]:
  "MGet bm_ops = bm_Get" "MSet bm_ops = bm_Set" "MGetManifest bm_ops = bm_GetManifest" "MSetManifest bm_ops = bm_SetManifest"
  by (simp_all add: bm_ops_def)

lemma stored_content_meta: "MGet (Metadata st) m' k = MGet (Metadata st) m k \<Longrightarrow> stored_content st m' s k = stored_content st m s k"
  by (simp add: stored_content_def ReadStream_def)

lemma bolt_has:
  assumes g: "cas_ready sha256 md5 keys V st m s" and "Has st k m s"
  shows "stored_content st m s k \<noteq> None"
proof -
  note G = cas_readyD [OF g]
  obtain fm where fm: "MGet (Metadata st) m k = Some fm" "NUL \<in> set (MPath fm) \<or> Files s (MPath fm) \<noteq> None"
    using assms(2) by (auto simp: Has_def split: option.splits)
  have "NUL \<notin> set (MPath fm)"
    using G(11) fm(1) cas_file_no_NUL [OF G(4) G(2)] unfolding placed_def by (metis empty_iff empty_set)
  then show ?thesis using fm G(13)
    by (auto simp: stored_content_def ReadStream_def os_ReadFile_def refuses_def split: option.splits)
qed

lemma bolt_touch:
  assumes g: "cas_ready sha256 md5 keys V st m s" and k: "k \<in> keys"
    and set: "bm_Set m k ((meta_or_zero bm_ops m k)\<lparr>MTimestamp := t\<rparr>) = (None, m')"
  shows "cas_ready sha256 md5 keys V st m' s \<and> stored_content st m' s = stored_content st m s"
proof -
  note G = cas_readyD [OF g]
  let ?fm = "(meta_or_zero bm_ops m k)\<lparr>MTimestamp := t\<rparr>"
  have V: "?fm \<in> V" using G(9,10) k by (auto simp: meta_closed_def)
  have set': "MSet bm_ops m k ?fm = (None, m')" using set by simp
  have get: "bm_Get m' k = Some ?fm" using bolt_store.get_set [OF G(7) set' G(8) [OF V]] by simp
  have other: "bm_Get m' k' = bm_Get m k'" if "k' \<noteq> k" for k' using bolt_store.get_set_other [OF G(7) set' that] by simp
  have inv: "kv_ok (BMOps m')" "json_ok (BMMeta m') = json_ok (BMMeta m)" using bolt_store.set_inv [OF G(7) set'] by simp_all
  have path: "MPath ?fm = MPath (meta_or_zero bm_ops m k)" by simp
  have cont: "stored_content st m' s k' = stored_content st m s k'" for k'
  proof (cases "k' = k")
    case False
    then show ?thesis using other by (intro stored_content_meta) (simp add: G(1))
  next
    case True
    show ?thesis
    proof (cases "bm_Get m k")
      case None
      then show ?thesis using get True G(14,13)
        by (simp add: stored_content_def ReadStream_def G(1) meta_or_zero_def zero_meta_def os_ReadFile_def refuses_def split: option.split)
    next
      case (Some fm)
      then show ?thesis using get True by (simp add: stored_content_def ReadStream_def G(1) meta_or_zero_def)
    qed
  qed
  have pl: "placed st m'"
    unfolding placed_def G(1)
  proof (intro allI impI)
    fix k' fm assume f: "MGet bm_ops m' k' = Some fm"
    show "MPath fm = [] \<or> (\<exists>h. length h = 16 \<and> MPath fm = cas_file st k' h)"
    proof (cases "k' = k")
      case True
      then have "MPath fm = MPath (meta_or_zero bm_ops m k)" using f get by auto
      then show ?thesis using G(11) True
        by (cases "bm_Get m k") (auto simp: placed_def G(1) meta_or_zero_def zero_meta_def)
    next
      case False
      then show ?thesis using G(11) f other by (simp add: placed_def G(1))
    qed
  qed
  have mz: "meta_or_zero bm_ops m' k' \<in> V" if "k' \<in> keys" for k'
    using G(10) [OF that] V get other [of k'] by (cases "k' = k") (simp_all add: meta_or_zero_def)
  have coll: "\<forall>k1. \<forall>k2 \<in> keys. bm_Get m' k1 \<noteq> None \<or> k1 \<in> keys \<longrightarrow>
        pathname (CASPathTransformFunc sha256 k1) = pathname (CASPathTransformFunc sha256 k2) \<longrightarrow> k1 = k2"
    using G(12) other k by metis
  have "cas_ready sha256 md5 keys V st m' s"
    unfolding cas_ready_def using G(1-6,9,13-15) G(8) G(10) inv pl coll mz by auto
  then show ?thesis using cont by (simp add: fun_eq_iff)
qed

lemma bolt_pending:
  assumes g: "cas_ready sha256 md5 keys V st m s" and f: "Files s' = (Files s)(pending_sidecarPath r key := f)"
    and d: "Denied s' = Denied s"
  shows "cas_ready sha256 md5 keys V st m s' \<and> stored_content st m s' = stored_content st m s"
proof -
  note G = cas_readyD [OF g]
  let ?p = "pending_sidecarPath r key"
  have cont: "stored_content st m s' k = stored_content st m s k" for k
  proof (cases "MGet (Metadata st) m k")
    case None
    then show ?thesis by (simp add: stored_content_def ReadStream_def)
  next
    case (Some fm)
    then have "MPath fm \<noteq> ?p"
      using G(11) pending_not_cas [OF G(3)] pending_nonempty [of r key] unfolding placed_def by metis
    then show ?thesis using Some f d by (simp add: stored_content_def ReadStream_def os_ReadFile_def refuses_def)
  qed
  have "Files s' [] = None" using f G(14) pending_nonempty [of r key] by auto
  moreover have "Files s' (temp_path st k rnd) = None" if "rnd_ok rnd" for k rnd
    using f G(15) [OF that] pending_not_temp [OF G(3) that] by simp
  ultimately have "cas_ready sha256 md5 keys V st m s'"
    using g d unfolding cas_ready_def by simp
  then show ?thesis using cont by (simp add: fun_eq_iff)
qed

lemma WriteStream_steps:
  assumes "WriteStream md5 rnd st key (Some data) m s = (Inr n, m', s')"
    and "temp_path st key rnd \<noteq> stream_path md5 st key data" and "Files s (temp_path st key rnd) = None"
  shows "MSet (Metadata st) m key ((meta_or_zero (Metadata st) m key)\<lparr>MPath := stream_path md5 st key data\<rparr>) = (None, m')"
    and "Files s' = (Files s)(stream_path md5 st key data \<mapsto> data)" and "Denied s' = Denied s"
proof -
  let ?t = "temp_path st key rnd" and ?f = "stream_path md5 st key data"
  obtain s1 where r: "SafeRename ?t ?f (set_file ?t data s) = (None, s1)" and s': "s' = s1"
      and m: "MSet (Metadata st) m key ((meta_or_zero (Metadata st) m key)\<lparr>MPath := ?f\<rparr>) = (None, m')"
    using assms(1) by (auto simp: WriteStream_def Let_def temp_path_def meta_or_zero_def split: if_splits option.splits prod.splits)
  show "MSet (Metadata st) m key ((meta_or_zero (Metadata st) m key)\<lparr>MPath := ?f\<rparr>) = (None, m')" by (rule m)
  show "Files s' = (Files s)(?f \<mapsto> data)" "Denied s' = Denied s"
    using SafeRename_ok [OF r assms(2)] assms(2,3) s' by (auto simp: fun_eq_iff)
qed

lemma stream_path_cas: "stream_path md5 st k d = cas_file st k (md5 d)"
  by (simp add: stream_path_def cas_file_def)

lemma bolt_put:
  assumes g: "cas_ready sha256 md5 keys V st m s" and k: "k \<in> keys" and r: "rnd_ok rnd"
    and w: "WriteStream md5 rnd st k (Some d) m s = (Inr n, m', s')"
  shows "cas_ready sha256 md5 keys V st m' s' \<and> stored_content st m' s' = (stored_content st m s)(k \<mapsto> d)"
proof -
  note G = cas_readyD [OF g]
  let ?f = "stream_path md5 st k d" and ?fm = "(meta_or_zero bm_ops m k)\<lparr>MPath := stream_path md5 st k d\<rparr>"
  have tf: "temp_path st j rnd' \<noteq> ?f" if "rnd_ok rnd'" for j rnd'
    unfolding stream_path_cas by (rule temp_not_cas [OF G(3) that G(6)])
  have V: "?fm \<in> V" using G(9,10) k by (auto simp: meta_closed_def)
  note st = WriteStream_steps [OF w tf [OF r] G(15) [OF r], unfolded G(1)]
  have set: "MSet bm_ops m k ?fm = (None, m')" using st(1) by simp
  have get: "bm_Get m' k = Some ?fm" using bolt_store.get_set [OF G(7) set G(8) [OF V]] by simp
  have other: "bm_Get m' j = bm_Get m j" if "j \<noteq> k" for j using bolt_store.get_set_other [OF G(7) set that] by simp
  have inv: "kv_ok (BMOps m')" "json_ok (BMMeta m') = json_ok (BMMeta m)" using bolt_store.set_inv [OF G(7) set] by simp_all
  have nul: "NUL \<notin> set ?f" unfolding stream_path_cas by (rule cas_file_no_NUL [OF G(4) G(2)])
  have sp: "placed st m' \<and> stored_content st m' s' = (stored_content st m s)(k \<mapsto> d)"
  proof -
    have "n = length d \<and> placed st m' \<and> stored_content st m' s' = (stored_content st m s)(k \<mapsto> d) \<and> kv_ok (BMOps m')"
    proof (rule bolt_store.store_put [OF G(1,3,2,5,6) _ _ G(11) _ G(7) _ w])
      show "CHR ''/'' \<notin> set rnd" using r by (auto simp: rnd_ok_def digits_def is_digit_def)
      show "Files s (path_Join (path_Join (Root st) (pathname (PathTransformFunc st k))) (''temp-'' @ rnd)) = None"
        using G(15) [OF r, of k] by (simp add: temp_path_def)
      show "j = k" if "MGet bm_ops m j \<noteq> None" "pathname (CASPathTransformFunc sha256 j) = pathname (CASPathTransformFunc sha256 k)" for j
        using G(12) [OF k] that by simp
      show "json_ok (BMMeta m) ((case MGet bm_ops m k of None \<Rightarrow> zero_meta | Some fm \<Rightarrow> fm)\<lparr>MPath := ?f\<rparr>)"
        using G(8) [OF V] by (simp add: meta_or_zero_def)
      show "\<not> refuses s OpRead ?f" using nul G(13) by (simp add: refuses_def)
    qed
    then show ?thesis by simp
  qed
  have fne: "?f \<noteq> []" unfolding stream_path_cas cas_file_def using full_nonempty [OF G(3)] by (simp add: path_Join_def)
  have mz: "meta_or_zero bm_ops m' j \<in> V" if "j \<in> keys" for j
    using G(10) [OF that] V get other [of j] by (cases "j = k") (simp_all add: meta_or_zero_def)
  have coll: "\<forall>k1. \<forall>k2 \<in> keys. bm_Get m' k1 \<noteq> None \<or> k1 \<in> keys \<longrightarrow>
        pathname (CASPathTransformFunc sha256 k1) = pathname (CASPathTransformFunc sha256 k2) \<longrightarrow> k1 = k2"
    using G(12) other k by metis
  have fl: "Files s' [] = None" "\<forall>j rnd'. rnd_ok rnd' \<longrightarrow> Files s' (temp_path st j rnd') = None"
    using st(2) fne G(14,15) tf by auto
  have "cas_ready sha256 md5 keys V st m' s'"
    unfolding cas_ready_def using G(1-6,9,13) G(8) G(10) inv sp coll mz fl st(3) by auto
  with sp show ?thesis by simp
qed

interpretation bolt_cas: cas_store st md5 "cas_ready sha256 md5 keys V st" keys
  for st :: "'db bolt_meta chunk_store" and md5 and sha256 and keys and V
proof unfold_locales
  fix m s k assume "cas_ready sha256 md5 keys V st m s" "k \<in> keys" "Has st k m s"
  then show "stored_content st m s k \<noteq> None" using bolt_has by blast
next
  fix m s k rnd d n m' s'
  assume "cas_ready sha256 md5 keys V st m s" "k \<in> keys" "rnd_ok rnd" "WriteStream md5 rnd st k (Some d) m s = (Inr n, m', s')"
  then show "cas_ready sha256 md5 keys V st m' s' \<and> stored_content st m' s' = (stored_content st m s)(k \<mapsto> d)" by (rule bolt_put)
next
  fix m s k t m'
  assume g: "cas_ready sha256 md5 keys V st m s" "k \<in> keys"
    and "MSet (Metadata st) m k ((meta_or_zero (Metadata st) m k)\<lparr>MTimestamp := t\<rparr>) = (None, m')"
  then have "bm_Set m k ((meta_or_zero bm_ops m k)\<lparr>MTimestamp := t\<rparr>) = (None, m')" using cas_readyD(1) [OF g(1)] by simp
  then show "cas_ready sha256 md5 keys V st m' s \<and> stored_content st m' s = stored_content st m s" by (rule bolt_touch [OF g])
next
  fix m :: "'db bolt_meta" and s s' :: os and r key f
  assume "cas_ready sha256 md5 keys V st m s" "Files s' = (Files s)(pending_sidecarPath r key := f)" "Denied s' = Denied s"
  then show "cas_ready sha256 md5 keys V st m s' \<and> stored_content st m s' = stored_content st m s" by (rule bolt_pending)
qed

end
