(* ===== verification/ReadBack.thy ===== *)
theory ReadBack
  imports ChunkCas "HOL-Library.Countable"
begin

text \<open>
  Reading files, \<open>GetData\<close>, \<open>getChunked\<close> and \<open>ContentLength\<close> of Server/server.go, and what an upload
  leaves to be read: the manifest describes the content, and every chunk it lists opens to its piece of
  the content. \<open>io.Pipe\<close> is the bytes written to it and the error it is closed with; what the parallel
  downloader writes to it is the argument \<open>par\<close> (\<open>StreamBack\<close> gives it).
\<close>

section \<open>Reading\<close>

definition ContentLength :: "'m meta_ops \<Rightarrow> 'm \<Rightarrow> string \<Rightarrow> int" where
  "ContentLength ops m key =
     (case MGet ops m key of
        None \<Rightarrow> 0
      | Some fm \<Rightarrow>
          (case MManifest fm of
             Some man \<Rightarrow> MTotalSize man
           | None \<Rightarrow>
               if MChunked fm then (case MGetManifest ops m key of None \<Rightarrow> 0 | Some man \<Rightarrow> MTotalSize man) else 0))"

text \<open>The serial loop of \<open>getChunked\<close>.\<close>

fun serial_stream ::
  "(byte list \<Rightarrow> byte list) \<Rightarrow> 'm serial_env \<Rightarrow> chunk_manifest \<Rightarrow> byte list option \<Rightarrow> nat list \<Rightarrow> byte list \<Rightarrow> 'm \<Rightarrow> os
    \<Rightarrow> (byte list \<times> get_error option) \<times> 'm \<times> os" where
  "serial_stream sha256 env man dek [] out m s = ((out, None), m, s)"
| "serial_stream sha256 env man dek (i # is) out m s =
     (case stored_bytes env man i m s of
        (Inl e, m, s) \<Rightarrow> ((out, Some e), m, s)
      | (Inr data, m, s) \<Rightarrow>
          (case open_stored sha256 env man dek i data of
             Inl e \<Rightarrow> ((out, Some e), m, s)
           | Inr plain \<Rightarrow>
               if SWrites env i then serial_stream sha256 env man dek is (out @ plain) m s
               else ((out, Some (WriteChunk i)), m, s)))"

definition getChunked ::
  "(byte list \<Rightarrow> byte list) \<Rightarrow> 'm meta_ops \<Rightarrow> 'm serial_env \<Rightarrow>
    (string \<Rightarrow> chunk_manifest \<Rightarrow> byte list option \<Rightarrow> byte list \<times> dl_error option) option \<Rightarrow> string \<Rightarrow> byte list option
    \<Rightarrow> 'm \<Rightarrow> os \<Rightarrow> (string + byte list \<times> get_error option) \<times> get_effect list \<times> 'm \<times> os" where
  "getChunked sha256 ops env par key dek m s =
     (case MGetManifest ops m key of
        None \<Rightarrow> (Inl key, [], m, s)
      | Some man \<Rightarrow>
          (let ((out, err), m, s) = (case par of
                 Some p \<Rightarrow> (case p key man dek of (out, err) \<Rightarrow> ((out, map_option GetDownload err), m, s))
               | None \<Rightarrow> serial_stream sha256 env man dek [0..<length (MChunks man)] [] m s)
           in (Inr (out, err), if err = None then [ReadRepair key] else [], m, s)))"

text \<open>\<open>getman\<close> is \<open>fetchManifestFromPeers\<close>.\<close>

definition GetData ::
  "(byte list \<Rightarrow> byte list) \<Rightarrow> 'm meta_ops \<Rightarrow> 'm serial_env \<Rightarrow>
    (string \<Rightarrow> chunk_manifest \<Rightarrow> byte list option \<Rightarrow> byte list \<times> dl_error option) option \<Rightarrow> (string \<Rightarrow> string + chunk_manifest)
    \<Rightarrow> int \<Rightarrow> string \<Rightarrow> byte list option \<Rightarrow> 'm \<Rightarrow> os \<Rightarrow> (string + byte list \<times> get_error option) \<times> get_effect list \<times> 'm \<times> os" where
  "GetData sha256 ops env par getman now key dek m s =
     (if (case MGet ops m key of None \<Rightarrow> False | Some fm \<Rightarrow> MChunked fm) then getChunked sha256 ops env par key dek m s
      else case getman key of
          Inl e \<Rightarrow> (Inl e, [], m, s)
        | Inr man \<Rightarrow>
            (let m = snd (MSetManifest ops m key man);
                 m = snd (MSet ops m key (zero_meta\<lparr>MChunked := True, MTimestamp := now\<rparr>))
             in getChunked sha256 ops env par key dek m s))"

definition InspectManifest ::
  "'m meta_ops \<Rightarrow> (string \<Rightarrow> string + chunk_manifest) \<Rightarrow> string \<Rightarrow> 'm \<Rightarrow> chunk_manifest option \<times> 'm" where
  "InspectManifest ops getman key m =
     (case MGetManifest ops m key of
        Some man \<Rightarrow> (Some man, m)
      | None \<Rightarrow> (case getman key of Inl e \<Rightarrow> (None, m) | Inr man \<Rightarrow> (Some man, snd (MSetManifest ops m key man))))"

definition InspectMeta :: "'m meta_ops \<Rightarrow> 'm \<Rightarrow> string \<Rightarrow> ((string, uint64) gomap \<times> int) option" where
  "InspectMeta ops m key = (case MGet ops m key of None \<Rightarrow> None | Some fm \<Rightarrow> Some (MVClock fm, MTimestamp fm))"

section \<open>The codecs of the server\<close>

definition server_decrypt :: "aead \<Rightarrow> byte list \<Rightarrow> byte list \<Rightarrow> int \<Rightarrow> string + byte list" where
  "server_decrypt A data dek idx =
     (case DecryptStreamWithDEK A data dek (word_of_int idx) of (None, p) \<Rightarrow> Inr p | (Some e, p) \<Rightarrow> Inl ''decrypt'')"

definition server_decompress :: "codec \<Rightarrow> byte list \<Rightarrow> string + byte list" where
  "server_decompress Z data = (case DecompressChunk Z data of None \<Rightarrow> Inl ''decompress'' | Some p \<Rightarrow> Inr p)"

definition dek_of :: "encryption_meta option \<Rightarrow> byte list option" where
  "dek_of enc = (case enc of None \<Rightarrow> None | Some e \<Rightarrow> Some (EDEK e))"

lemma compress_stage_back:
  assumes "codec_ok Z" and "compress_stage Z data = (p, was)"
  shows "(if was then server_decompress Z p else Inr p) = Inr data"
proof -
  obtain c wc err where c: "CompressChunk Z data LevelFastest = (c, wc, err)" by (cases "CompressChunk Z data LevelFastest")
  show ?thesis
    using assms(2) CompressChunk_result [OF assms(1) c]
    by (auto simp: compress_stage_def CompressChunkWithPool_eq c server_decompress_def split: if_splits)
qed

text \<open>What the first stage makes of the bytes of a chunk is undone by decryption and decompression.\<close>

lemma process_data_back:
  assumes "aead_ok A" and "codec_ok Z" and "process_data A Z enc idx data = Inr (p, was)"
  shows "(case (case dek_of enc of None \<Rightarrow> Inr p | Some k \<Rightarrow> server_decrypt A p k idx) of
            Inl e \<Rightarrow> Inl e | Inr q \<Rightarrow> if was then server_decompress Z q else Inr q) = Inr data"
proof -
  obtain q w where q: "compress_stage Z data = (q, w)" by (cases "compress_stage Z data")
  show ?thesis
  proof (cases enc)
    case None
    then have "p = q" "was = w" using assms(3) q by (simp_all add: process_data_def)
    then show ?thesis using compress_stage_back [OF assms(2) q] None by (simp add: dek_of_def)
  next
    case (Some e)
    have key: "key_ok (EDEK e)" and p: "p = frames A (EDEK e) (word_of_int idx) (stream_pieces q)" and w: "was = w"
      using assms(3) q Some
      by (auto simp: process_data_def EncryptStreamWithDEKPool_eq EncryptStreamWithDEK_def encrypt_frames split: if_splits)
    have "decrypt_loop A (EDEK e) (word_of_int idx) p = (None, q)"
      using decrypt_frames [OF assms(1) key stream_pieces_fit, of "word_of_int idx" q] stream_pieces_props [of q] by (simp add: p)
    then have "server_decrypt A p (EDEK e) idx = Inr q" using key by (simp add: server_decrypt_def DecryptStreamWithDEK_def)
    then show ?thesis using compress_stage_back [OF assms(2) q] Some w by (simp add: dek_of_def)
  qed
qed

section \<open>What the first stage sends\<close>

lemma stage1_all:
  assumes "stage1 env enc [] err cs = (pcs, None)"
  shows "\<not> err \<and> list_all2 (\<lambda>c pc. process_chunk env enc c = Inr pc) cs pcs"
  using assms by (induction cs arbitrary: pcs) (auto split: sum.splits prod.splits if_splits)

lemma process_chunk_props:
  assumes "process_chunk env enc c = Inr pc"
  shows "IIndex (PCInfo pc) = CIndex c" and "IHash (PCInfo pc) = hex_encode (CHash c)" and "ISize (PCInfo pc) = CSize c"
    and "IEncHash (PCInfo pc) = hex_encode (USha env (PCData pc))" and "PCKey pc = ChunkStorageKey (IEncHash (PCInfo pc))"
    and "process_data (UAead env) (UCodec env) enc (CIndex c) (CData c) = Inr (PCData pc, ICompressed (PCInfo pc))"
  using assms by (auto simp: process_chunk_def Let_def split: sum.splits prod.splits)

section \<open>Reading what was stored\<close>

lemma serial_stream_ok:
  assumes "\<forall>i \<in> set is. stored_bytes env man i m s = (Inr (d i), m, s) \<and> open_stored sha256 env man dek i (d i) = Inr (p i) \<and> SWrites env i"
  shows "serial_stream sha256 env man dek is out m s = ((out @ concat (map p is), None), m, s)"
  using assms by (induction "is" arbitrary: out) simp_all

lemma stored_bytes_local:
  assumes "stored_content (SStore env) m s (ChunkStorageKey (IEncHash (MChunks man ! i))) = Some data"
  shows "stored_bytes env man i m s = (Inr data, m, s)"
proof -
  let ?k = "ChunkStorageKey (IEncHash (MChunks man ! i))"
  have r: "ReadStream (SStore env) ?k m s = Inr data" using assms by (auto simp: stored_content_def split: sum.splits)
  then obtain fm where fm: "MGet (Metadata (SStore env)) m ?k = Some fm" "os_ReadFile (MPath fm) s = Inr data"
    by (auto simp: ReadStream_def split: option.splits sum.splits)
  then have "Has (SStore env) ?k m s" by (auto simp: Has_def os_ReadFile_def split: if_splits option.splits)
  then show ?thesis using r by (simp add: stored_bytes_def)
qed

text \<open>The beginning of an upload without a readable pending log.\<close>

lemma begin_pending_fresh:
  assumes "\<forall>res. pending_Load (UHeaders env) (URecords env) (URoot env) key s \<noteq> Inr (Some res)"
    and "begin_pending env key use s = (Inr (skip, infos, sidecar), s1)"
  shows "skip = [] \<and> infos = [] \<and> (\<forall>x. sidecar = Some x \<longrightarrow> PPath x = pending_sidecarPath (URoot env) key) \<and>
    (\<exists>f. Files s1 = (Files s)(pending_sidecarPath (URoot env) key := f)) \<and> Denied s1 = Denied s"
proof (cases "use")
  case False
  then show ?thesis using assms(2) by (auto simp: begin_pending_def intro: exI [of _ "Files s (pending_sidecarPath (URoot env) key)"])
next
  case True
  let ?h = "\<lparr>PStorageKey = key, PTotalSize = 0, PChunkSize = DefaultChunkSize, PMerkleRoot = [], PCreatedAt = UNow env 0\<rparr>"
  have load: "(case pending_Load (UHeaders env) (URecords env) (URoot env) key s of
      Inl e \<Rightarrow> ([], []) | Inr None \<Rightarrow> ([], []) | Inr (Some r) \<Rightarrow> (Completed r, ChunkInfos r)) = ([], [])"
    using assms(1) by (auto split: sum.splits option.splits)
  obtain sc where sc: "pending_Create (UHeaders env) (URoot env) ?h s = (Inr sc, s1)" "skip = []" "infos = []" "sidecar = Some sc"
    using assms(2) True load by (auto simp: begin_pending_def record_pending_def Let_def split: sum.splits prod.splits)
  show ?thesis using pending_Create_text [OF sc(1), where JR = "URecords env"] sc(2-4) by auto
qed

lemma finalize_pending_files:
  "(\<exists>f. Files (finalize_pending env sidecar key s) = (Files s)(pending_sidecarPath (URoot env) key := f)) \<and>
    Denied (finalize_pending env sidecar key s) = Denied s"
proof -
  have "\<exists>f. Files s = (Files s)(p := f)" for p by (metis fun_upd_triv)
  then show ?thesis
    by (auto simp: finalize_pending_def pending_Finalize_def os_Remove_def split: option.splits)
qed

lemma upload_manifest_sel [simp]:
  "MChunks (upload_manifest env enc key infos t) = infos"
  "MChunkSize (upload_manifest env enc key infos t) = DefaultChunkSize"
  "MMerkleRoot (upload_manifest env enc key infos t) = computeMerkleRoot (USha env) infos"
  by (simp_all add: upload_manifest_def BuildManifest_def Let_def split: option.splits)

text \<open>The chunks an upload of \<open>content\<close> processes.\<close>

definition upload_chunks :: "'m upload_env \<Rightarrow> encryption_meta option \<Rightarrow> byte list \<Rightarrow> processed_chunk list" where
  "upload_chunks env enc content =
     fst (stage1 env enc [] False (fst (ChunkReader (USha env) DefaultChunkSize content False)))"

lemma ChunkReader_fails: "fst (ChunkReader sha256 n content fails) = fst (ChunkReader sha256 n content False)"
proof -
  have "fst (chunk_loop sha256 k fails i rest) = fst (chunk_loop sha256 k False i rest)" for k i rest
  proof (induction sha256 k fails i rest rule: chunk_loop.induct)
    case (1 sha256 csize fails index rest)
    then show ?case
      by (simp add: chunk_loop.simps [of sha256 csize fails index rest] chunk_loop.simps [of sha256 csize False index rest]
          case_prod_beta)
  qed
  then show ?thesis by (simp add: ChunkReader_def Let_def)
qed

lemma upload_chunks_props:
  assumes "stage1 env enc [] err (fst (ChunkReader (USha env) DefaultChunkSize content False)) = (pcs, None)"
  shows "upload_chunks env enc content = pcs"
  using stage1_all [OF assms] assms by (simp add: upload_chunks_def)

section \<open>Properties\<close>

text \<open>What an upload of \<open>content\<close> under \<open>key\<close> meets: codecs that are undone by their inverses, a store in
  use whose chunks lie under their hashes, no collision of SHA-256 among the chunks involved (\<open>D\<close>), and
  JSON that keeps the manifest and the metadata of the file.\<close>

text \<open>The hashes of a manifest that an upload writes are hexadecimal, so its JSON keeps them.\<close>

definition hex_info :: "chunk_info \<Rightarrow> bool" where
  "hex_info i \<longleftrightarrow> (\<exists>a b. IHash i = hex_encode a \<and> IEncHash i = hex_encode b)"

lemma process_chunk_hex: "process_chunk env enc c = Inr pc \<Longrightarrow> hex_info (PCInfo pc)"
  by (auto simp: process_chunk_def hex_info_def Let_def split: sum.splits)

lemma processed_hex: "list_all2 (\<lambda>c pc. process_chunk env enc c = Inr pc) cs pcs \<Longrightarrow> \<forall>i \<in> set (map PCInfo pcs). hex_info i"
  by (auto simp: list_all2_conv_all_nth in_set_conv_nth dest!: process_chunk_hex)

definition upload_ready ::
  "'db bolt_meta upload_env \<Rightarrow> encryption_meta option \<Rightarrow> byte list \<Rightarrow> string \<Rightarrow> string set \<Rightarrow> file_meta set
    \<Rightarrow> byte list set \<Rightarrow> 'db bolt_meta \<Rightarrow> os \<Rightarrow> bool" where
  "upload_ready env enc content key keys V D m s \<longleftrightarrow>
     aead_ok (UAead env) \<and> codec_ok (UCodec env) \<and> (\<forall>n. rnd_ok (URnd env n)) \<and>
     cas_ready (USha env) (UMd5 env) keys V (UStore env) m s \<and> key \<notin> keys \<and> \<not> reserved key \<and>
     (\<forall>pc \<in> set (upload_chunks env enc content). PCKey pc \<in> keys \<and> PCData pc \<in> D) \<and> inj_on (USha env) D \<and>
     (\<forall>k \<in> keys. \<forall>d. stored_content (UStore env) m s k = Some d \<longrightarrow> d \<in> D \<and> k = ChunkStorageKey (hex_encode (USha env d))) \<and>
     (\<forall>infos t. (\<forall>i \<in> set infos. hex_info i) \<longrightarrow> json_ok (BMManifest m) (upload_manifest env enc key infos t)) \<and>
     (\<forall>t. top_meta bm_ops m key (USelf env) t \<in> V)"

lemma chunk_key_inject [simp]: "ChunkStorageKey a = ChunkStorageKey b \<longleftrightarrow> a = b"
  by (simp add: ChunkStorageKey_def)

lemma process_key:
  "process_chunk env enc c = Inr pc \<Longrightarrow> PCKey pc = ChunkStorageKey (hex_encode (USha env (PCData pc)))"
  using process_chunk_props by metis

text \<open>The two stages of a fresh upload: every chunk is in the store, and listed in order.\<close>

lemma stages_content:
  assumes rdy: "upload_ready env enc content key keys V D m s"
    and f1: "Files s1 = (Files s)(pending_sidecarPath (URoot env) key := f)" "Denied s1 = Denied s"
    and s1: "stage1 env enc [] err (fst (ChunkReader (USha env) DefaultChunkSize content False)) = (pcs, None)"
    and s2: "stage2 env ctx df sidecar progress est 0 pcs
        \<lparr>UMeta = m, UOs = s1, UInfos = [], UCompleted = 0, UMetas = [], UEffects = []\<rparr> = (None, b)"
    and sc: "\<forall>x. sidecar = Some x \<longrightarrow> PPath x = pending_sidecarPath (URoot env) key"
  shows "cas_ready (USha env) (UMd5 env) keys V (UStore env) (UMeta b) (UOs b) \<and> UInfos b = map PCInfo pcs \<and>
    (\<forall>pc \<in> set pcs. stored_content (UStore env) (UMeta b) (UOs b) (PCKey pc) = Some (PCData pc))"
proof -
  let ?a = "\<lparr>UMeta = m, UOs = s1, UInfos = [], UCompleted = 0, UMetas = [], UEffects = []\<rparr>"
  note R = rdy [unfolded upload_ready_def]
  have up: "upload_chunks env enc content = pcs" by (rule upload_chunks_props [OF s1])
  have pcs: "\<forall>pc \<in> set pcs. PCKey pc \<in> keys \<and> PCData pc \<in> D" and inj: "inj_on (USha env) D" using R up by auto
  have key: "PCKey pc = ChunkStorageKey (hex_encode (USha env (PCData pc)))" if "pc \<in> set pcs" for pc
  proof -
    obtain j where "j < length pcs" "pcs ! j = pc" using \<open>pc \<in> set pcs\<close> by (auto simp: in_set_conv_nth)
    then have "\<exists>c. process_chunk env enc c = Inr pc" using stage1_all [OF s1] by (auto simp: list_all2_conv_all_nth)
    then show ?thesis using process_key by blast
  qed
  have g: "cas_ready (USha env) (UMd5 env) keys V (UStore env) m s1 \<and>
      stored_content (UStore env) m s1 = stored_content (UStore env) m s"
    using bolt_cas.pending_log [OF _ f1] R by blast
  have old: "\<forall>pc \<in> set pcs. stored_content (UStore env) (UMeta ?a) (UOs ?a) (PCKey pc) \<in> {None, Some (PCData pc)}"
  proof
    fix pc assume pc: "pc \<in> set pcs"
    show "stored_content (UStore env) (UMeta ?a) (UOs ?a) (PCKey pc) \<in> {None, Some (PCData pc)}"
    proof (cases "stored_content (UStore env) m s (PCKey pc)")
      case None
      then show ?thesis using g by simp
    next
      case (Some d)
      have "PCKey pc \<in> keys" using pcs pc by blast
      then have "d \<in> D \<and> PCKey pc = ChunkStorageKey (hex_encode (USha env d))" using R Some by blast
      then have "USha env d = USha env (PCData pc)" using key [OF pc] by simp
      then have "d = PCData pc" using inj \<open>d \<in> D \<and> _\<close> pcs pc by (auto dest: inj_onD)
      then show ?thesis using Some g by simp
    qed
  qed
  have same: "\<forall>pc \<in> set pcs. \<forall>pc' \<in> set pcs. PCKey pc = PCKey pc' \<longrightarrow> PCData pc = PCData pc'"
    using key pcs inj by (auto dest: inj_onD)
  have ga: "cas_ready (USha env) (UMd5 env) keys V (UStore env) (UMeta ?a) (UOs ?a)" using g by simp
  have ks: "\<forall>pc \<in> set pcs. PCKey pc \<in> keys" using pcs by blast
  have rnd: "\<And>i. rnd_ok (URnd env i)" using R by blast
  have sc': "\<And>x. sidecar = Some x \<Longrightarrow> PPath x = pending_sidecarPath (URoot env) key" using sc by blast
  show ?thesis using bolt_cas.stage2_content [OF refl refl rnd _ s2 ga ks old same] sc' by simp
qed

text \<open>The second stage writes metadata of chunks only.\<close>

lemma WriteStream_meta:
  assumes "WriteStream md5 rnd st key reader m s = (r, m', s')"
  shows "m' = m \<or> (\<exists>v e. MSet (Metadata st) m key v = (e, m'))"
  using assms by (auto simp: WriteStream_def Let_def split: if_splits option.splits prod.splits)

lemma store_chunk_meta:
  assumes P: "\<And>m v e m'. P m \<Longrightarrow> MSet (Metadata (UStore env)) m (PCKey pc) v = (e, m') \<Longrightarrow> P m'"
    and a: "P (UMeta a)" and ok: "store_chunk env df n pc a = (None, b)"
  shows "P (UMeta b)"
proof (cases "Has (UStore env) (PCKey pc) (UMeta a) (UOs a)")
  case True
  then show ?thesis using a ok by (simp add: store_chunk_def Let_def)
next
  case False
  obtain r m s where w: "WriteStream (UMd5 env) (URnd env n) (UStore env) (PCKey pc) (Some (PCData pc)) (UMeta a) (UOs a) = (r, m, s)"
    by (metis prod_cases3)
  have "P m" using WriteStream_meta [OF w] P a by blast
  then show ?thesis using ok False P by (auto simp: store_chunk_def Let_def w split: sum.splits if_splits prod.splits option.splits)
qed

lemma stage2_meta:
  assumes P: "\<And>k m v e m'. k \<in> PCKey ` set pcs \<Longrightarrow> P m \<Longrightarrow> MSet (Metadata (UStore env)) m k v = (e, m') \<Longrightarrow> P m'"
    and "P (UMeta a)" and "stage2 env ctx df sidecar progress est n pcs a = (None, b)"
  shows "P (UMeta b)"
  using assms
proof (induction pcs arbitrary: a n)
  case (Cons pc pcs)
  obtain v where v: "store_chunk env df n pc a = (None, v)"
      and rest: "stage2 env ctx df sidecar progress est (n + 1) pcs (finish_stored env sidecar progress est pc v) = (None, b)"
    using Cons.prems(3) by (auto split: if_splits prod.splits option.splits)
  have "P (UMeta v)" by (rule store_chunk_meta [of P, OF _ Cons.prems(2) v]) (rule Cons.prems(1) [of "PCKey pc"], simp_all)
  then have "P (UMeta (finish_stored env sidecar progress est pc v))"
    by (simp add: finish_stored_def Let_def split: option.split)
  from Cons.IH [OF _ this rest] show ?case using Cons.prems(1) by (meson list.set_intros(2) image_mono set_subset_Cons subsetD)
qed simp

text \<open>Every listed chunk is read from the store and opens to its piece.\<close>

lemma listed_chunk_opens:
  assumes A: "aead_ok (UAead env)" "codec_ok (UCodec env)"
    and pc: "process_chunk env enc c = Inr pc" and v: "VerifyChunk (USha env) c"
    and i: "MChunks man ! i = PCInfo pc"
    and rd: "SDecrypt rd = server_decrypt (UAead env)" "SDecompress rd = server_decompress (UCodec env)"
  shows "open_stored (USha env) rd man (dek_of enc) i (PCData pc) = Inr (CData c)"
proof -
  note P = process_chunk_props [OF pc]
  let ?X = "case dek_of enc of None \<Rightarrow> Inr (PCData pc) | Some k \<Rightarrow> server_decrypt (UAead env) (PCData pc) k (CIndex c)"
  have h: "IHash (PCInfo pc) = hex_encode (USha env (CData c))" using P(2) v by (simp add: VerifyChunk_def)
  from process_data_back [OF A P(6)] obtain q where q: "?X = Inr q"
      "(if ICompressed (PCInfo pc) then server_decompress (UCodec env) q else Inr q) = Inr (CData c)"
    by (cases ?X) simp_all
  have "(case dek_of enc of None \<Rightarrow> Inr (PCData pc) | Some k \<Rightarrow> SDecrypt rd (PCData pc) k (IIndex (PCInfo pc))) = Inr q"
    using q(1) by (simp add: rd(1) i P(1) split: option.splits)
  with q(2) h show ?thesis
    by (cases "ICompressed (PCInfo pc)") (simp_all add: open_stored_def Let_def i rd(2))
qed

lemma uploaded_manifest_describes:
  assumes "int (length content) \<le> 2 ^ 63"
    and "list_all2 (\<lambda>c pc. process_chunk env enc c = Inr pc) (fst (ChunkReader (USha env) DefaultChunkSize content False)) pcs"
  shows "describes (USha env) content (nat DefaultChunkSize) (upload_manifest env enc key (map PCInfo pcs) t)"
proof -
  let ?cs = "fst (ChunkReader (USha env) DefaultChunkSize content False)"
  have "map IHash (map PCInfo pcs) = map (\<lambda>c. hex_encode (CHash c)) ?cs"
  proof (rule nth_equalityI)
    fix i assume "i < length (map IHash (map PCInfo pcs))"
    then have "i < length pcs" "process_chunk env enc (?cs ! i) = Inr (pcs ! i)" "length ?cs = length pcs"
      using assms(2) by (simp_all add: list_all2_conv_all_nth)
    then show "map IHash (map PCInfo pcs) ! i = map (\<lambda>c. hex_encode (CHash c)) ?cs ! i"
      using process_chunk_props(2) by fastforce
  qed (use assms(2) in \<open>simp add: list_all2_conv_all_nth\<close>)
  moreover have "0 < DefaultChunkSize" by (simp add: DefaultChunkSize_def)
  ultimately show ?thesis using assms(1) by (simp add: describes_def)
qed

lemma ChunkReader_props:
  shows "concat (map CData (fst (ChunkReader sha256 DefaultChunkSize content False))) = content"
    and "\<forall>c \<in> set (fst (ChunkReader sha256 DefaultChunkSize content False)). VerifyChunk sha256 c"
proof -
  have p: "0 < nat DefaultChunkSize" by (simp add: DefaultChunkSize_def)
  obtain cs err where c: "chunk_loop sha256 (nat DefaultChunkSize) False 0 content = (cs, err)" by fastforce
  have "ChunkReader sha256 DefaultChunkSize content False = (cs, err)"
    using c by (simp add: ChunkReader_def DefaultChunkSize_def)
  then show "concat (map CData (fst (ChunkReader sha256 DefaultChunkSize content False))) = content"
      "\<forall>c \<in> set (fst (ChunkReader sha256 DefaultChunkSize content False)). VerifyChunk sha256 c"
    using chunk_loop_props [OF p c] by simp_all
qed

text \<open>What an upload leaves: the manifest, whose root is that of its chunks, chunked metadata, and each
  chunk of the content under its key as the first stage made it.\<close>

definition left_by_upload ::
  "'db bolt_meta upload_env \<Rightarrow> encryption_meta option \<Rightarrow> byte list \<Rightarrow> string \<Rightarrow> 'db bolt_meta \<Rightarrow> os \<Rightarrow> chunk_manifest
    \<Rightarrow> chunk list \<Rightarrow> processed_chunk list \<Rightarrow> bool" where
  "left_by_upload env enc content key m s man cs pcs \<longleftrightarrow>
     aead_ok (UAead env) \<and> codec_ok (UCodec env) \<and>
     bm_GetManifest m key = Some man \<and> (\<exists>fm. bm_Get m key = Some fm \<and> MChunked fm) \<and>
     describes (USha env) content (nat DefaultChunkSize) man \<and> VerifyMerkleRoot (USha env) (MChunks man) (MMerkleRoot man) \<and>
     concat (map CData cs) = content \<and> length (MChunks man) = length cs \<and>
     (\<forall>i < length cs. MChunks man ! i = PCInfo (pcs ! i) \<and> process_chunk env enc (cs ! i) = Inr (pcs ! i) \<and>
        VerifyChunk (USha env) (cs ! i) \<and>
        stored_content (UStore env) m s (ChunkStorageKey (IEncHash (MChunks man ! i))) = Some (PCData (pcs ! i)))"

lemma uploaded_left:
  assumes rdy: "upload_ready env enc content key keys V D m s"
    and fresh: "\<forall>res. pending_Load (UHeaders env) (URecords env) (URoot env) key s \<noteq> Inr (Some res)"
    and up: "storeDataInternal env ctx key content fails enc fileSize progress False m s = (Inr r, eff, m', s')"
    and len: "int (length content) \<le> 2 ^ 63"
  shows "\<exists>man cs pcs. left_by_upload env enc content key m' s' man cs pcs"
proof -
  note R = rdy [unfolded upload_ready_def]
  let ?cs = "fst (ChunkReader (USha env) DefaultChunkSize content False)"
  obtain skip resumed sidecar s1 where b: "begin_pending env key (fileSize = 0 \<or> DefaultChunkSize < fileSize) s =
      (Inr (skip, resumed, sidecar), s1)"
    using up by (auto simp: storeDataInternal_def split: sum.splits prod.splits)
  note B = begin_pending_fresh [OF fresh b]
  then obtain f where f1: "Files s1 = (Files s)(pending_sidecarPath (URoot env) key := f)" "Denied s1 = Denied s"
      and sc: "\<forall>x. sidecar = Some x \<longrightarrow> PPath x = pending_sidecarPath (URoot env) key"
      and e: "skip = []" "resumed = []" by blast
  obtain rerr where cr: "ChunkReader (USha env) DefaultChunkSize content fails = (?cs, rerr)"
    using ChunkReader_fails by (metis prod.collapse)
  define est where "est = (if 0 < fileSize then chunk_estimate fileSize else 0)"
  let ?a = "\<lparr>UMeta = m, UOs = s1, UInfos = [], UCompleted = 0, UMetas = [], UEffects = []\<rparr>"
  obtain pcs x where s1x: "stage1 env enc [] rerr ?cs = (pcs, x)" by fastforce
  obtain b where s2: "stage2 env ctx False sidecar progress est 0 pcs ?a = (None, b)" and x: "x = None"
      and fin: "finish_upload env key enc False sidecar (length pcs) b = (Inr r, eff, m', s')"
    using up by (auto simp: storeDataInternal_def b e cr s1x est_def Let_def split: prod.splits option.splits)
  note st = stages_content [OF rdy f1 s1x [unfolded x] s2 sc]
  note all = conjunct2 [OF stage1_all [OF s1x [unfolded x]]]
  define man where "man = upload_manifest env enc key (map PCInfo pcs) (UNow env (length pcs + 1))"
  define top where "top = top_meta bm_ops (UMeta b) key (USelf env) (UNow env (length pcs + 2))"
  note G = cas_readyD [OF conjunct1 [OF st]]
  obtain m1 where m1: "bm_SetManifest (UMeta b) key man = (None, m1)" and m': "bm_Set m1 key top = (None, m')"
      and s': "s' = finalize_pending env sidecar key (UOs b)"
    using fin st by (auto simp: finish_upload_def Let_def G(1) man_def top_def split: prod.splits option.splits)
  have keep: "kv_ok (BMOps (UMeta b)) \<and> json_ok (BMManifest (UMeta b)) = json_ok (BMManifest m) \<and> bm_Get (UMeta b) key = bm_Get m key"
  proof (rule stage2_meta [OF _ _ s2, where P = "\<lambda>x. kv_ok (BMOps x) \<and> json_ok (BMManifest x) = json_ok (BMManifest m) \<and> bm_Get x key = bm_Get m key"])
    fix k mm v e mm'
    assume k: "k \<in> PCKey ` set pcs" and mm: "kv_ok (BMOps mm) \<and> json_ok (BMManifest mm) = json_ok (BMManifest m) \<and> bm_Get mm key = bm_Get m key"
      and "MSet (Metadata (UStore env)) mm k v = (e, mm')"
    then have set: "MSet bm_ops mm k v = (e, mm')" by (simp only: G(1))
    have "key \<noteq> k" using k R upload_chunks_props [OF s1x [unfolded x]] by auto
    then show "kv_ok (BMOps mm') \<and> json_ok (BMManifest mm') = json_ok (BMManifest m) \<and> bm_Get mm' key = bm_Get m key"
      using bolt_store.set_inv [OF _ set] bolt_store.get_set_other [OF _ set] mm by simp
  qed (use R cas_readyD(7) in auto)
  have md: "json_ok (BMManifest (UMeta b)) man" using keep R processed_hex [OF all] by (simp add: man_def)
  have tv: "top \<in> V" using keep R by (simp add: top_def top_meta_def meta_or_zero_def)
  have kv: "kv_ok (BMOps (UMeta b))" using keep by blast
  have m1': "MSetManifest bm_ops (UMeta b) key man = (None, m1)" and m'': "MSet bm_ops m1 key top = (None, m')" using m1 m' by simp_all
  note I1 = bolt_store.set_man_inv [OF kv m1']
  then have kv1: "kv_ok (BMOps m1)" by blast
  have res: "\<not> reserved key" and nk: "key \<notin> keys" using R by blast+
  have gm: "bm_GetManifest m' key = Some man"
    using bolt_store.man_set_man [OF kv m1' md] bolt_store.man_set [OF kv1 m'' res] by simp
  have "json_ok (BMMeta m1) top" using I1 G(8) [OF tv] by simp
  then have gt: "bm_Get m' key = Some top" using bolt_store.get_set [OF kv1 m''] by simp
  have cont: "stored_content (UStore env) m' s' k = stored_content (UStore env) (UMeta b) (UOs b) k" if "k \<in> keys" for k
  proof -
    have "\<not> reserved k" "k \<noteq> key" using G(10) [OF that] nk that by auto
    then have "bm_Get m' k = bm_Get (UMeta b) k"
      using bolt_store.get_set_other [OF kv1 m''] bolt_store.get_set_man [OF kv m1'] by simp
    then have "stored_content (UStore env) m' s' k = stored_content (UStore env) (UMeta b) s' k"
      by (intro stored_content_meta) (simp add: G(1))
    also have "\<dots> = stored_content (UStore env) (UMeta b) (UOs b) k"
      using finalize_pending_files [of env sidecar key "UOs b"] bolt_cas.pending_log [OF conjunct1 [OF st]] s' by metis
    finally show ?thesis .
  qed
  have des: "describes (USha env) content (nat DefaultChunkSize) man"
    unfolding man_def by (rule uploaded_manifest_describes [OF len all])
  have A: "aead_ok (UAead env)" "codec_ok (UCodec env)" using R by blast+
  have n: "length (MChunks man) = length ?cs" "length pcs = length ?cs"
    using all by (simp_all add: man_def list_all2_lengthD)
  have each: "MChunks man ! i = PCInfo (pcs ! i) \<and> process_chunk env enc (?cs ! i) = Inr (pcs ! i) \<and> VerifyChunk (USha env) (?cs ! i) \<and>
      stored_content (UStore env) m' s' (ChunkStorageKey (IEncHash (MChunks man ! i))) = Some (PCData (pcs ! i))"
    if "i < length ?cs" for i
  proof -
    have i: "i < length pcs" "i < length ?cs" using n that by simp_all
    have pc: "process_chunk env enc (?cs ! i) = Inr (pcs ! i)" using all i by (simp add: list_all2_conv_all_nth)
    have mi: "MChunks man ! i = PCInfo (pcs ! i)" using i by (simp add: man_def)
    have "pcs ! i \<in> set pcs" using i by simp
    then have "PCKey (pcs ! i) \<in> keys" "stored_content (UStore env) (UMeta b) (UOs b) (PCKey (pcs ! i)) = Some (PCData (pcs ! i))"
      using R st upload_chunks_props [OF s1x [unfolded x]] by auto
    moreover have "VerifyChunk (USha env) (?cs ! i)" using ChunkReader_props(2) i(2) nth_mem by blast
    ultimately show ?thesis using cont process_chunk_props(5) [OF pc] pc by (simp add: mi)
  qed
  have top: "MChunked top" by (simp add: top_def top_meta_def Let_def)
  have "left_by_upload env enc content key m' s' man ?cs pcs"
    unfolding left_by_upload_def using A gm gt top des n each ChunkReader_props(1) [of "USha env" content]
    by (intro conjI allI impI exI [of _ top]) (simp_all add: man_def VerifyMerkleRoot_def)
  then show ?thesis by blast
qed

section \<open>An upload that succeeds\<close>

text \<open>The data of the JSON documents are countable, which gives a codec without loss.\<close>

lemma countable_word: "\<exists>f :: 'a::len word \<Rightarrow> nat. inj f"
  by (rule exI [of _ unat]) (simp add: inj_on_def word_unat_eq_iff)

instance word :: (len) countable
  by standard (rule countable_word)

instance access_entry_ext :: (countable) countable
  by (rule countable_classI [of "\<lambda>x. to_nat (RecipientPubKey x, WrappedDEK x, access_entry.more x)"]) simp

instance chunk_info_ext :: (countable) countable
  by (rule countable_classI [of "\<lambda>x. to_nat (IIndex x, IHash x, ISize x, IEncHash x, ICompressed x, chunk_info.more x)"]) simp

instance chunk_manifest_ext :: (countable) countable
  by (rule countable_classI [of "\<lambda>x. to_nat (MFileKey x, MTotalSize x, MChunkSize x, MChunks x, MMerkleRoot x, MCreatedAt x,
      MEncrypted x, MOwnerPubKey x, MOwnerEdPubKey x, MAccessList x, MSignature x, MSeedMode x, MOriginalSeeder x,
      chunk_manifest.more x)"]) simp

instance file_meta_ext :: (countable) countable
  by (rule countable_classI [of "\<lambda>x. to_nat (MPath x, MVClock x, MTimestamp x, MChunked x, MManifest x, file_meta.more x)"]) simp

definition lossless_json :: "'a::countable json" where
  "lossless_json = \<lparr>jMarshal = (\<lambda>x. itoa (to_nat x)), jUnmarshal = (\<lambda>s. Some (from_nat (parse_digits s)))\<rparr>"

lemma lossless_ok [simp]: "json_ok lossless_json x"
  by (simp add: json_ok_def lossless_json_def del: itoa.simps)

definition demo_codec :: codec where
  "demo_codec = \<lparr>EncodeAll = (\<lambda>l d. d), NewWriterFails = False, Decode = Some\<rparr>"

definition demo_store :: "((meta_bucket \<times> string) \<times> byte list) list bolt_meta chunk_store" where
  "demo_store = NewStore (Some (CASPathTransformFunc demo_sha)) bm_ops ''R''"

definition demo_upload :: "((meta_bucket \<times> string) \<times> byte list) list bolt_meta upload_env" where
  "demo_upload =
     \<lparr>USha = demo_sha, UMd5 = demo_md5, URnd = (\<lambda>n. ''1''), UAead = demo_aead, UCodec = demo_codec, UStore = demo_store,
      UTargets = (\<lambda>k. []), UNow = (\<lambda>n. 0), USelf = ''n'', URoot = ''R'', UHeaders = demo_json undefined,
      URecords = demo_json undefined\<rparr>"

definition demo_enc :: encryption_meta where
  "demo_enc = \<lparr>EDEK = replicate 32 7, EOwnerPubKey = [], EOwnerEdPubKey = [], EAccessList = [], ESignature = []\<rparr>"

definition demo_meta_store :: "((meta_bucket \<times> string) \<times> byte list) list bolt_meta" where
  "demo_meta_store = \<lparr>BMOps = alist_kv, BMMeta = lossless_json, BMManifest = lossless_json, BMData = []\<rparr>"

lemma demo_upload_sel [simp]:
  "USha demo_upload = demo_sha" "UMd5 demo_upload = demo_md5" "URnd demo_upload n = ''1''" "UAead demo_upload = demo_aead"
  "UCodec demo_upload = demo_codec" "UStore demo_upload = demo_store" "UNow demo_upload n = 0" "USelf demo_upload = ''n''"
  "URoot demo_upload = ''R''"
  by (simp_all add: demo_upload_def)

lemma demo_store_sel [simp]:
  "Root demo_store = ''R''" "PathTransformFunc demo_store = CASPathTransformFunc demo_sha" "Metadata demo_store = bm_ops"
  by (simp_all add: demo_store_def NewStore_def)

lemma alist_set:
  assumes "BMOps m = alist_kv" and "k \<noteq> []"
  shows "\<exists>m'. bm_Set m k v = (None, m') \<and> BMOps m' = alist_kv" and "\<exists>m'. bm_SetManifest m k x = (None, m') \<and> BMOps m' = alist_kv"
  using assms by (simp_all add: bm_Set_def bm_SetManifest_def bm_update_def put_meta_def put_manifest_def alist_kv_def)

text \<open>One chunk, of a file small enough to need no sidecar.\<close>

definition demo_chunk_of :: "byte list \<Rightarrow> chunk" where
  "demo_chunk_of content = \<lparr>CIndex = 0, CHash = demo_sha content, CSize = int (length content), CData = content\<rparr>"

lemma demo_reader: "ChunkReader demo_sha DefaultChunkSize [1, 2, 3] False = ([demo_chunk_of [1, 2, 3]], False)"
  by (simp add: ChunkReader_def DefaultChunkSize_def chunk_loop.simps [of demo_sha] demo_chunk_of_def make_chunk_def Let_def)

lemma demo_process: "\<exists>pc. process_chunk demo_upload (Some demo_enc) (demo_chunk_of [1, 2, 3]) = Inr pc"
  by (auto simp: process_chunk_def process_data_def EncryptStreamWithDEKPool_eq EncryptStreamWithDEK_def encrypt_frames
      demo_enc_def key_ok_def Let_def split: prod.split)

lemma demo_key_path: "CASPathTransformFunc demo_sha key = CASPathTransformFunc demo_sha ''k''"
  unfolding CASPathTransformFunc_def demo_sha_def ..

lemma demo_stream_path:
  "stream_path demo_md5 demo_store key d =
    ''R/00000/00000/00000/00000/00000/00000/00000/00000/00000/00000/00000/00000/00000000000000000000000000000000''"
  using demo_paths(1) demo_key_path [of key] by (simp add: stream_path_def demo_store_def NewStore_def demo_md5_def)

lemma demo_empty [simp]: "bm_Get demo_meta_store k = None"
  by (simp add: bm_Get_def demo_meta_store_def alist_kv_def)

lemma demo_write:
  assumes "k \<noteq> []"
  shows "\<exists>m s. WriteStream demo_md5 ''1'' demo_store k (Some d) demo_meta_store no_files = (Inr (length d), m, s) \<and> BMOps m = alist_kv"
proof -
  obtain s where s: "SafeRename ''R/00000/00000/00000/00000/00000/00000/00000/00000/00000/00000/00000/00000/temp-1''
      (stream_path demo_md5 demo_store k d)
      (set_file ''R/00000/00000/00000/00000/00000/00000/00000/00000/00000/00000/00000/00000/temp-1'' d no_files) = (None, s)"
    unfolding demo_stream_path by (simp add: SafeRename_def os_exists_def no_files_def os_Rename_def refuses_def NUL_def)
  have "BMOps demo_meta_store = alist_kv" by (simp add: demo_meta_store_def)
  from alist_set(1) [OF this assms, of "zero_meta\<lparr>MPath := stream_path demo_md5 demo_store k d\<rparr>"]
  obtain m where "bm_Set demo_meta_store k (zero_meta\<lparr>MPath := stream_path demo_md5 demo_store k d\<rparr>) = (None, m)" "BMOps m = alist_kv"
    by blast
  then show ?thesis using s by (simp add: WriteStream_def demo_key_path [of k] demo_paths(2,3) NUL_def Let_def)
qed

lemma demo_upload_ready:
  assumes pc: "process_chunk demo_upload (Some demo_enc) (demo_chunk_of [1, 2, 3]) = Inr pc"
  shows "upload_ready demo_upload (Some demo_enc) [1, 2, 3] ''f'' {PCKey pc} UNIV {PCData pc} demo_meta_store no_files"
proof -
  have c: "upload_chunks demo_upload (Some demo_enc) [1, 2, 3] = [pc]"
    using pc by (simp add: upload_chunks_def demo_reader demo_chunk_of_def)
  have k: "PCKey pc \<noteq> ''f''" "\<not> reserved (PCKey pc)" "\<not> reserved ''f''"
    using process_chunk_props(5) [OF pc] by (simp_all add: ChunkStorageKey_def reserved_def)
  have "codec_ok demo_codec" by (simp add: codec_ok_def demo_codec_def)
  moreover have "rnd_ok ''1''" by (simp add: rnd_ok_def digits_def is_digit_def)
  moreover have "cas_ready demo_sha demo_md5 {PCKey pc} UNIV demo_store demo_meta_store no_files"
    using k by (simp add: cas_ready_def demo_sha_def demo_md5_def meta_closed_def placed_def NUL_def no_files_def)
      (auto simp: demo_meta_store_def alist_kv_ok)
  ultimately show ?thesis
    using k by (auto simp: upload_ready_def demo_aead_ok c stored_content_def ReadStream_def) (simp_all add: demo_meta_store_def)
qed

lemma demo_upload_succeeds:
  assumes pc: "process_chunk demo_upload (Some demo_enc) (demo_chunk_of [1, 2, 3]) = Inr pc"
  shows "\<exists>eff m s. storeDataInternal demo_upload (\<lambda>n. False) ''f'' [1, 2, 3] False (Some demo_enc) 3 False False demo_meta_store no_files =
    (Inr None, eff, m, s)"
proof -
  have k: "PCKey pc \<noteq> []" using process_chunk_props(5) [OF pc] by (simp add: ChunkStorageKey_def)
  obtain m s where w: "WriteStream demo_md5 ''1'' demo_store (PCKey pc) (Some (PCData pc)) demo_meta_store no_files =
      (Inr (length (PCData pc)), m, s)" and m: "BMOps m = alist_kv" using demo_write [OF k] by blast
  obtain m1 where m1: "bm_Set m (PCKey pc) ((meta_or_zero bm_ops m (PCKey pc))\<lparr>MTimestamp := 0\<rparr>) = (None, m1)" "BMOps m1 = alist_kv"
    using alist_set(1) [OF m k] by blast
  define man where "man = upload_manifest demo_upload (Some demo_enc) ''f'' [PCInfo pc] 0"
  obtain m2 where m2: "bm_SetManifest m1 ''f'' man = (None, m2)" "BMOps m2 = alist_kv"
    using alist_set(2) [OF m1(2)] by blast
  obtain m3 where m3: "bm_Set m2 ''f'' (top_meta bm_ops m1 ''f'' ''n'' 0) = (None, m3)"
    using alist_set(1) [OF m2(2)] by blast
  have "\<not> Has demo_store (PCKey pc) demo_meta_store no_files" "\<not> DefaultChunkSize < 3" by (simp_all add: Has_def DefaultChunkSize_def)
  then show ?thesis
    using pc w m1 m2 m3
    by (simp add: storeDataInternal_def begin_pending_def demo_reader demo_chunk_of_def store_chunk_def finish_stored_def
        finish_upload_def finalize_pending_def man_def [symmetric] Let_def)
qed

end
