(* ===== verification/StreamDownload.thy ===== *)
theory StreamDownload
  imports FileDownload
begin

text \<open>
  \<open>DownloadToStream\<close> of \<open>Server/downloader/downloader.go\<close>: chunks are fetched in parallel and written
  in order through a sliding window. \<open>inflight\<close> lists the dispatched chunks whose result has not been
  received; \<open>results\<close> has room for all of them, so a goroutine never blocks on it. The results arrive
  in any order: the list \<open>arrivals\<close>. \<open>wr i\<close> is the fate of the write of chunk \<open>i\<close>: \<open>None\<close> when it succeeds,
  \<open>Some k\<close> when \<open>Write\<close> returns an error after \<open>k\<close> bytes.
\<close>

type_synonym writer = "nat \<Rightarrow> nat option"

record stream =
  nextDispatch :: nat
  nextExpected :: nat
  window :: "(nat, byte list) gomap"
  out :: "byte list"
  received :: nat
  inflight :: "nat list"
  reports :: "(nat \<times> nat) list"

definition stream_init :: stream where
  "stream_init = \<lparr>nextDispatch = 0, nextExpected = 0, window = [], out = [], received = 0,
     inflight = [], reports = []\<rparr>"

text \<open>\<open>dispatchChunks\<close>\<close>

function dispatchChunks :: "nat \<Rightarrow> nat \<Rightarrow> stream \<Rightarrow> stream" where
  "dispatchChunks n windowSize st =
     (if nextDispatch st < n \<and> nextDispatch st < nextExpected st + windowSize then
        dispatchChunks n windowSize
          (st\<lparr>nextDispatch := nextDispatch st + 1, inflight := inflight st @ [nextDispatch st]\<rparr>)
      else st)"
  by pat_completeness auto
termination
  by (relation "measure (\<lambda>(n, w, st). n - nextDispatch st)") auto

declare dispatchChunks.simps [simp del]

text \<open>The inner loop over the consecutive chunks already in the window.\<close>

function flush :: "writer \<Rightarrow> stream \<Rightarrow> stream \<times> dl_error option" where
  "flush wr st =
     (case map_of (window st) (nextExpected st) of
        None \<Rightarrow> (st, None)
      | Some data \<Rightarrow>
          (case wr (nextExpected st) of
             Some k \<Rightarrow> (st\<lparr>out := out st @ take k data\<rparr>, Some (WriteFail (nextExpected st)))
           | None \<Rightarrow> flush wr (st\<lparr>nextExpected := nextExpected st + 1,
                 window := AList.delete (nextExpected st) (window st), out := out st @ data\<rparr>)))"
  by pat_completeness auto

lemma length_delete: "go_wf m \<Longrightarrow> k \<in> set (go_keys m) \<Longrightarrow> Suc (length (AList.delete k m)) = length m"
  using arg_cong [OF AList.delete_keys [of k m], of length]
  by (simp add: distinct_remove1_removeAll [symmetric] length_remove1) (metis Suc_pred length_map length_pos_if_in_set list.set_map)

lemma length_delete_less: "map_of m k = Some v \<Longrightarrow> length (AList.delete k m) < length m"
  using arg_cong [OF AList.delete_keys [of k m], of length] length_removeAll_less [of k "go_keys m"]
  by (auto dest: map_of_in_keys)

termination flush
  by (relation "measure (\<lambda>(wr, st). length (window st))") (auto simp: length_delete_less)

declare flush.simps [simp del]

text \<open>One turn of the main loop, for the result of chunk \<open>i\<close>.\<close>

definition receive ::
  "nat \<Rightarrow> nat \<Rightarrow> writer \<Rightarrow> (nat \<Rightarrow> dl_error + byte list) \<Rightarrow> nat \<Rightarrow> stream \<Rightarrow> stream \<times> dl_error option" where
  "receive n windowSize wr res i st =
     (let st = st\<lparr>inflight := remove1 i (inflight st)\<rparr>
      in case res i of
           Inl e \<Rightarrow> (st, Some (ChunkFail i e))
         | Inr data \<Rightarrow>
             (let st = st\<lparr>received := received st + 1\<rparr>;
                  report = (\<lambda>st. st\<lparr>reports := reports st @ [(received st, n)]\<rparr>)
              in if i = nextExpected st then
                   (case wr i of
                      Some k \<Rightarrow> (st\<lparr>out := out st @ take k data\<rparr>, Some (WriteFail i))
                    | None \<Rightarrow>
                      (case flush wr (st\<lparr>nextExpected := nextExpected st + 1, out := out st @ data\<rparr>) of
                         (st, Some e) \<Rightarrow> (st, Some e)
                       | (st, None) \<Rightarrow> (report (dispatchChunks n windowSize st), None)))
                 else (report (st\<lparr>window := AList.update i data (window st)\<rparr>), None)))"

text \<open>The main loop over the arrivals: it waits when they run out before all chunks are written.\<close>

datatype stream_result = Waiting stream | Returned "dl_error option" stream

fun stream_loop ::
  "nat \<Rightarrow> nat \<Rightarrow> writer \<Rightarrow> (nat \<Rightarrow> dl_error + byte list) \<Rightarrow> bool \<Rightarrow> string \<Rightarrow> nat list \<Rightarrow> stream
    \<Rightarrow> stream_result" where
  "stream_loop n windowSize wr res root_ok mroot arrivals st =
     (if nextExpected st \<ge> n then
        Returned (if root_ok then None else Some (RootMismatch mroot)) st
      else
        (case arrivals of
           [] \<Rightarrow> Waiting st
         | i # is \<Rightarrow>
             (case receive n windowSize wr res i st of
                (st, Some e) \<Rightarrow> Returned (Some e) st
              | (st, None) \<Rightarrow> stream_loop n windowSize wr res root_ok mroot is st)))"

declare stream_loop.simps [simp del]

definition DownloadToStream ::
  "config \<Rightarrow> (byte list \<Rightarrow> byte list) \<Rightarrow> (nat \<Rightarrow> dl_env) \<Rightarrow> (nat \<Rightarrow> selector) \<Rightarrow> writer \<Rightarrow> nat list \<Rightarrow>
    string \<Rightarrow> chunk_manifest \<Rightarrow> byte list option \<Rightarrow> stream_result" where
  "DownloadToStream cfg sha256 envs sels wr arrivals fileKey m dek =
     (let n = length (MChunks m); windowSize = nat (MaxParallel cfg)
      in if n = 0 then Returned None stream_init
         else stream_loop n windowSize wr (chunk_result cfg sha256 envs sels fileKey m dek)
           (VerifyMerkleRoot sha256 (MChunks m) (MMerkleRoot m)) (MMerkleRoot m) arrivals
           (dispatchChunks n windowSize stream_init))"

section \<open>The window\<close>

definition chunk_of :: "(nat \<Rightarrow> dl_error + byte list) \<Rightarrow> nat \<Rightarrow> byte list" where
  "chunk_of res i = (case res i of Inl e \<Rightarrow> [] | Inr d \<Rightarrow> d)"

text \<open>What holds in any state of the loop; \<open>lim\<close> bounds the dispatched chunks, it is
  \<open>nextExpected + windowSize\<close> when the loop waits and the former value while it flushes.\<close>

definition stream_inv ::
  "nat \<Rightarrow> (nat \<Rightarrow> dl_error + byte list) \<Rightarrow> stream \<Rightarrow> bool" where
  "stream_inv n res st \<longleftrightarrow>
     nextExpected st \<le> nextDispatch st \<and> nextDispatch st \<le> n \<and>
     distinct (inflight st) \<and> go_wf (window st) \<and>
     set (inflight st) \<inter> set (go_keys (window st)) = {} \<and>
     set (inflight st) \<union> set (go_keys (window st)) = {nextExpected st..<nextDispatch st} \<and>
     (\<forall>i d. map_of (window st) i = Some d \<longrightarrow> res i = Inr d) \<and>
     (\<forall>i < nextExpected st. \<exists>d. res i = Inr d) \<and>
     out st = concat (map (chunk_of res) [0..<nextExpected st]) \<and>
     received st = nextExpected st + length (window st)"

definition waiting_inv ::
  "nat \<Rightarrow> nat \<Rightarrow> (nat \<Rightarrow> dl_error + byte list) \<Rightarrow> stream \<Rightarrow> bool" where
  "waiting_inv n w res st \<longleftrightarrow> stream_inv n res st \<and> nextExpected st \<notin> set (go_keys (window st)) \<and>
     nextDispatch st = min n (nextExpected st + w)"

lemma stream_inv_dispatch:
  assumes "stream_inv n res st" and "nextExpected st \<notin> set (go_keys (window st))"
    and "nextDispatch st \<le> nextExpected st + w"
  shows "waiting_inv n w res (dispatchChunks n w st) \<and> nextExpected (dispatchChunks n w st) = nextExpected st \<and>
    received (dispatchChunks n w st) = received st"
  using assms
proof (induction n w st rule: dispatchChunks.induct)
  case (1 n w st)
  show ?case
  proof (cases "nextDispatch st < n \<and> nextDispatch st < nextExpected st + w")
    case True
    let ?st = "st\<lparr>nextDispatch := nextDispatch st + 1, inflight := inflight st @ [nextDispatch st]\<rparr>"
    have new: "nextDispatch st \<notin> set (inflight st)" "nextDispatch st \<notin> set (go_keys (window st))"
      using "1.prems"(1) by (auto simp: stream_inv_def)
    have rng: "{nextExpected st..<nextDispatch st + 1} = insert (nextDispatch st) {nextExpected st..<nextDispatch st}"
      using "1.prems"(1) by (auto simp: stream_inv_def)
    have "stream_inv n res ?st" using "1.prems"(1) True new rng by (simp add: stream_inv_def)
    from "1.IH" [OF True this] "1.prems" True show ?thesis by (simp add: dispatchChunks.simps [of n w st])
  next
    case False
    moreover have "nextDispatch st \<le> n" using "1.prems"(1) by (simp add: stream_inv_def)
    ultimately show ?thesis using "1.prems"
      by (auto simp: dispatchChunks.simps [of n w st] waiting_inv_def)
  qed
qed

text \<open>After a failed write: whole chunks, and the part of the next one that was written.\<close>

definition torn_prefix :: "nat \<Rightarrow> writer \<Rightarrow> (nat \<Rightarrow> dl_error + byte list) \<Rightarrow> stream \<Rightarrow> bool" where
  "torn_prefix n wr res st \<longleftrightarrow> nextExpected st < n \<and> (\<forall>i < nextExpected st. \<exists>d. res i = Inr d) \<and>
     (\<exists>k d. wr (nextExpected st) = Some k \<and> res (nextExpected st) = Inr d \<and>
        out st = concat (map (chunk_of res) [0..<nextExpected st]) @ take k d)"

lemma torn_prefixI:
  assumes "stream_inv n res st" and "nextExpected st < n" and "res (nextExpected st) = Inr d" and "wr (nextExpected st) = Some k"
    and "nextExpected st' = nextExpected st" and "out st' = out st @ take k d"
  shows "torn_prefix n wr res st'"
  using assms by (simp add: torn_prefix_def stream_inv_def)

lemma flush_spec:
  assumes "stream_inv n res st" and "flush wr st = (st', e)"
  shows "case e of
      None \<Rightarrow> stream_inv n res st' \<and> nextExpected st \<le> nextExpected st' \<and> nextDispatch st' = nextDispatch st \<and>
        received st' = received st \<and> nextExpected st' \<notin> set (go_keys (window st'))
    | Some x \<Rightarrow> x = WriteFail (nextExpected st') \<and> torn_prefix n wr res st'"
  using assms
proof (induction wr st rule: flush.induct)
  case (1 wr st)
  show ?case
  proof (cases "map_of (window st) (nextExpected st)")
    case None
    then have "flush wr st = (st, None)" by (simp add: flush.simps [of wr st])
    then show ?thesis using "1.prems" None unfolding map_of_None_keys by simp
  next
    case (Some d)
    show ?thesis
    proof (cases "wr (nextExpected st)")
      case k: (Some k)
      then have f: "flush wr st = (st\<lparr>out := out st @ take k d\<rparr>, Some (WriteFail (nextExpected st)))"
        using Some by (simp add: flush.simps [of wr st])
      have "nextExpected st \<in> {nextExpected st..<nextDispatch st}" "nextDispatch st \<le> n"
        using "1.prems"(1) map_of_in_keys [OF Some] by (auto simp: stream_inv_def)
      moreover have "res (nextExpected st) = Inr d" using "1.prems"(1) Some by (simp add: stream_inv_def)
      ultimately have "torn_prefix n wr res (st\<lparr>out := out st @ take k d\<rparr>)"
        using torn_prefixI [OF "1.prems"(1), of d wr k] k by simp
      then show ?thesis using "1.prems"(2) f by auto
    next
      case True: None
      let ?k = "nextExpected st"
      let ?st = "st\<lparr>nextExpected := ?k + 1, window := AList.delete ?k (window st), out := out st @ d\<rparr>"
      have k: "?k \<in> set (go_keys (window st))" using Some by (rule map_of_in_keys)
      have res: "res ?k = Inr d" using "1.prems"(1) Some by (simp add: stream_inv_def)
      have keys: "set (go_keys (AList.delete ?k (window st))) = set (go_keys (window st)) - {?k}"
        by (simp add: AList.delete_keys)
      have len: "Suc (length (AList.delete ?k (window st))) = length (window st)"
        using "1.prems"(1) k by (intro length_delete) (simp_all add: stream_inv_def)
      have "?k \<notin> set (inflight st)" "?k < nextDispatch st" using "1.prems"(1) k by (auto simp: stream_inv_def)
      moreover have "{?k + 1..<nextDispatch st} = {?k..<nextDispatch st} - {?k}" by auto
      ultimately have "stream_inv n res ?st" using "1.prems"(1) res keys len
        unfolding stream_inv_def by (simp add: less_Suc_eq chunk_of_def) blast
      moreover have "flush wr ?st = (st', e)" using "1.prems"(2) Some True by (simp add: flush.simps [of wr st])
      ultimately show ?thesis using "1.IH" [OF Some True] by (cases e) fastforce+
    qed
  qed
qed


text \<open>One result received: the loop goes on in its invariant, one result further, or ends with an error;
  what is written is a row of whole chunks, followed by a part of the next one when its write failed.\<close>

definition written_prefix :: "nat \<Rightarrow> (nat \<Rightarrow> dl_error + byte list) \<Rightarrow> stream \<Rightarrow> bool" where
  "written_prefix n res st \<longleftrightarrow> nextExpected st \<le> n \<and> (\<forall>i < nextExpected st. \<exists>d. res i = Inr d) \<and>
     out st = concat (map (chunk_of res) [0..<nextExpected st])"

lemma stream_inv_prefix: "stream_inv n res st \<Longrightarrow> written_prefix n res st"
  by (auto simp: stream_inv_def written_prefix_def)

lemma receive_spec:
  assumes inv: "waiting_inv n w res st" and i: "i \<in> set (inflight st)"
    and r: "receive n w wr res i st = (st', e)"
  shows "case e of
       None \<Rightarrow> written_prefix n res st' \<and> waiting_inv n w res st' \<and> received st' = received st + 1
     | Some (ChunkFail j x) \<Rightarrow> written_prefix n res st' \<and> j = i \<and> res i = Inl x
     | Some (WriteFail j) \<Rightarrow> j = nextExpected st' \<and> torn_prefix n wr res st'
     | Some _ \<Rightarrow> False"
proof (cases "res i")
  case (Inl x)
  then show ?thesis using r stream_inv_prefix [of n res st] inv
    by (auto simp: receive_def waiting_inv_def written_prefix_def Let_def)
next
  case (Inr d)
  let ?st = "st\<lparr>inflight := remove1 i (inflight st), received := received st + 1\<rparr>"
  have si: "stream_inv n res st" using inv by (simp add: waiting_inv_def)
  have ni: "i \<notin> set (go_keys (window st))" "nextExpected st \<le> i" "i < nextDispatch st" "distinct (inflight st)"
    using si i by (auto simp: stream_inv_def)
  show ?thesis
  proof (cases "i = nextExpected st")
    case False
    let ?new = "?st\<lparr>window := AList.update i d (window st)\<rparr>"
    have e: "e = None" and st': "st' = ?new\<lparr>reports := reports st @ [(received st + 1, n)]\<rparr>"
      using r Inr False by (simp_all add: receive_def Let_def)
    moreover have "stream_inv n res ?new"
    proof -
      have "set (go_keys (AList.update i d (window st))) = insert i (set (go_keys (window st)))"
        by (rule go_keys_update)
      moreover have "length (AList.update i d (window st)) = Suc (length (window st))"
        by (rule length_update_absent [OF ni(1)])
      moreover have "set (remove1 i (inflight st)) = set (inflight st) - {i}" using ni(4) by simp
      moreover have "(A - {i}) \<union> insert i B = C \<and> (A - {i}) \<inter> insert i B = {}"
        if "A \<union> B = C" "A \<inter> B = {}" "i \<in> A" for A B C :: "nat set"
        using that by blast
      ultimately show ?thesis using si i Inr unfolding stream_inv_def by (simp del: set_map)
    qed
    moreover have "nextExpected st \<notin> set (go_keys (AList.update i d (window st)))"
      using inv False unfolding waiting_inv_def by (simp add: go_keys_update del: set_map)
    ultimately have "waiting_inv n w res st'"
      using inv unfolding waiting_inv_def stream_inv_def by (simp del: set_map)
    with e st' show ?thesis using stream_inv_prefix [of n res st'] by (simp add: waiting_inv_def)
  next
    case True
    let ?new = "?st\<lparr>nextExpected := nextExpected st + 1, out := out st @ d\<rparr>"
    show ?thesis
    proof (cases "wr i")
      case k: (Some k)
      have "nextExpected st < n" using ni True si by (simp add: stream_inv_def)
      then have "torn_prefix n wr res (?st\<lparr>out := out st @ take k d\<rparr>)"
        using torn_prefixI [OF si, of d wr k] True Inr k by simp
      then show ?thesis using r Inr True k by (auto simp: receive_def Let_def)
    next
      case w: None
      have "{nextExpected st + 1..<nextDispatch st} = {nextExpected st..<nextDispatch st} - {i}"
        using True by auto
      then have new: "stream_inv n res ?new"
        using si ni i Inr True unfolding stream_inv_def
        by (simp add: less_Suc_eq chunk_of_def) blast
      obtain st1 e1 where f: "flush wr ?new = (st1, e1)" by fastforce
      note fs = flush_spec [OF new f]
      show ?thesis
      proof (cases e1)
        case (Some x)
        then have "st' = st1" "e = Some x" using r Inr True w f by (auto simp: receive_def Let_def)
        then show ?thesis using fs Some stream_inv_prefix by auto
      next
        case None
        then have e: "e = None" and st': "st' = (let s = dispatchChunks n w st1 in s\<lparr>reports := reports s @ [(received s, n)]\<rparr>)"
          using r Inr True w f by (auto simp: receive_def Let_def)
        have "nextDispatch st1 \<le> nextExpected st1 + w" using fs None inv by (auto simp: waiting_inv_def)
        from stream_inv_dispatch [OF _ _ this] fs None
        have "waiting_inv n w res (dispatchChunks n w st1)" "received (dispatchChunks n w st1) = received st + 1"
          by auto
        then show ?thesis using e st' stream_inv_prefix [of n res st']
          by (simp add: waiting_inv_def stream_inv_def Let_def)
      qed
    qed
  qed
qed


lemma stream_counts:
  assumes "stream_inv n res st"
  shows "received st + length (inflight st) = nextDispatch st"
    and "length (inflight st) + length (window st) = nextDispatch st - nextExpected st"
proof -
  have "card (set (inflight st) \<union> set (go_keys (window st))) = length (inflight st) + length (window st)"
    using assms by (subst card_Un_disjoint) (auto simp: stream_inv_def distinct_card simp del: set_map
        dest: distinct_card [of "go_keys _"])
  moreover have "set (inflight st) \<union> set (go_keys (window st)) = {nextExpected st..<nextDispatch st}"
    using assms by (simp add: stream_inv_def)
  ultimately show "length (inflight st) + length (window st) = nextDispatch st - nextExpected st" by simp
  then show "received st + length (inflight st) = nextDispatch st" using assms by (auto simp: stream_inv_def)
qed

text \<open>The chunk the stream waits for is always in flight.\<close>

lemma waiting_progress:
  assumes "waiting_inv n w res st" and "0 < w" and "nextExpected st < n"
  shows "nextExpected st \<in> set (inflight st)"
proof -
  have "nextExpected st \<in> {nextExpected st..<nextDispatch st}" using assms by (simp add: waiting_inv_def)
  then have "nextExpected st \<in> set (inflight st) \<union> set (go_keys (window st))"
    using assms(1) by (simp add: waiting_inv_def stream_inv_def)
  then show ?thesis using assms(1) by (simp add: waiting_inv_def)
qed

text \<open>Arrivals that can happen: each is a chunk in flight, and none follows an error.\<close>

fun arrivals_ok ::
  "nat \<Rightarrow> nat \<Rightarrow> writer \<Rightarrow> (nat \<Rightarrow> dl_error + byte list) \<Rightarrow> nat list \<Rightarrow> stream \<Rightarrow> bool" where
  "arrivals_ok n w wr res [] st \<longleftrightarrow> True"
| "arrivals_ok n w wr res (i # is) st \<longleftrightarrow> i \<in> set (inflight st) \<and>
     (case receive n w wr res i st of
        (st', None) \<Rightarrow> arrivals_ok n w wr res is st'
      | (st', Some e) \<Rightarrow> is = [])"

definition stream_result_ok ::
  "nat \<Rightarrow> nat \<Rightarrow> writer \<Rightarrow> (nat \<Rightarrow> dl_error + byte list) \<Rightarrow> bool \<Rightarrow> nat \<Rightarrow> stream_result \<Rightarrow> bool" where
  "stream_result_ok n w wr res root_ok k r \<longleftrightarrow> k \<le> n \<and>
     (case r of
        Waiting st \<Rightarrow> written_prefix n res st \<and> k < n \<and> nextExpected st \<in> set (inflight st) \<and>
          length (inflight st) + length (window st) \<le> w
      | Returned e st \<Rightarrow>
          (case e of
             None \<Rightarrow> written_prefix n res st \<and> root_ok \<and> k = n \<and> nextExpected st = n
           | Some (ChunkFail j x) \<Rightarrow> written_prefix n res st \<and> res j = Inl x \<and> j < n
           | Some (WriteFail j) \<Rightarrow> torn_prefix n wr res st \<and> j = nextExpected st
           | Some (RootMismatch x) \<Rightarrow> written_prefix n res st \<and> \<not> root_ok \<and> nextExpected st = n
           | Some _ \<Rightarrow> False))"

lemma stream_loop_spec:
  assumes "waiting_inv n w res st" and "0 < w" and "arrivals_ok n w wr res is st"
  shows "stream_result_ok n w wr res root_ok (received st + length is) (stream_loop n w wr res root_ok mroot is st)"
  using assms(1,3)
proof (induction "is" arbitrary: st)
  case Nil
  have si: "stream_inv n res st" using Nil by (simp add: waiting_inv_def)
  note c = stream_counts [OF si]
  have le: "nextExpected st \<le> received st" "nextDispatch st \<le> n" using si by (simp_all add: stream_inv_def)
  show ?case
  proof (cases "nextExpected st \<ge> n")
    case True
    then show ?thesis using stream_inv_prefix [OF si] c le
      by (auto simp: stream_loop.simps [of n w wr res root_ok mroot "[]" st] stream_result_ok_def written_prefix_def)
  next
    case False
    then have i: "nextExpected st \<in> set (inflight st)" using waiting_progress [OF Nil(1) assms(2)] by simp
    then have "0 < length (inflight st)" by (rule length_pos_if_in_set)
    then have "received st < n" using c(1) le(2) by linarith
    moreover have "nextDispatch st - nextExpected st \<le> w" using Nil(1) by (auto simp: waiting_inv_def)
    ultimately show ?thesis using stream_inv_prefix [OF si] c le i False
      by (simp add: stream_loop.simps [of n w wr res root_ok mroot "[]" st] stream_result_ok_def)
  qed
next
  case (Cons i "is")
  obtain st' e where r: "receive n w wr res i st = (st', e)" by fastforce
  have i: "i \<in> set (inflight st)" using Cons.prems(2) by simp
  have si: "stream_inv n res st" using Cons.prems(1) by (simp add: waiting_inv_def)
  have "i \<in> {nextExpected st..<nextDispatch st}" "nextDispatch st \<le> n" using si i by (auto simp: stream_inv_def)
  then have lt: "\<not> nextExpected st \<ge> n" and ilt: "i < n" by simp_all
  note rs = receive_spec [OF Cons.prems(1) i r]
  show ?case
  proof (cases e)
    case None
    then have "stream_loop n w wr res root_ok mroot (i # is) st = stream_loop n w wr res root_ok mroot is st'"
      using lt r by (simp add: stream_loop.simps [of n w wr res root_ok mroot "i # is" st])
    then show ?thesis using Cons.IH [of st'] rs None Cons.prems(2) r by simp
  next
    case (Some x)
    then have "stream_loop n w wr res root_ok mroot (i # is) st = Returned (Some x) st'"
      using lt r by (simp add: stream_loop.simps [of n w wr res root_ok mroot "i # is" st])
    moreover have "received st < n"
      using stream_counts(1) [OF si] length_pos_if_in_set [OF i] \<open>nextDispatch st \<le> n\<close> by linarith
    ultimately show ?thesis using rs Some Cons.prems(2) r ilt
      by (cases x) (auto simp: stream_result_ok_def)
  qed
qed

lemma waiting_inv_init: "waiting_inv n w res (dispatchChunks n w stream_init) \<and> received (dispatchChunks n w stream_init) = 0"
  using stream_inv_dispatch [of n res stream_init w] by (simp add: stream_init_def stream_inv_def)

lemma prefix_of_content:
  assumes d: "describes sha256 content N m" and rr: "right_results content N m res"
    and le: "k \<le> length (MChunks m)" and got: "\<forall>i < k. \<exists>d. res i = Inr d"
  shows "concat (map (chunk_of res) [0..<k]) = take (k * N) content"
proof -
  have "chunk_of res i = piece N content i" if "i < k" for i
    using le got rr that by (auto simp: right_results_def chunk_of_def)
  then have o: "concat (map (chunk_of res) [0..<k]) = concat (map (piece N content) [0..<k])"
    using arg_cong [OF map_cong [OF refl], of "[0..<k]" "chunk_of res" "piece N content" concat] by simp
  have "concat (map (piece N content) [0..<k]) = take (k * N) content" for k
    by (induction k) (simp_all add: piece_def take_add [symmetric] add.commute)
  then show ?thesis using o by simp
qed

lemma written_content:
  assumes "describes sha256 content N m" and rr: "right_results content N m res"
  shows "written_prefix (length (MChunks m)) res st \<Longrightarrow> out st = take (nextExpected st * N) content"
    and "torn_prefix (length (MChunks m)) wr res st \<Longrightarrow> \<exists>k. wr (nextExpected st) = Some k \<and>
      out st = take (nextExpected st * N) content @ take k (piece N content (nextExpected st))"
proof -
  show "written_prefix (length (MChunks m)) res st \<Longrightarrow> out st = take (nextExpected st * N) content"
    using prefix_of_content [OF assms] by (simp add: written_prefix_def)
  assume t: "torn_prefix (length (MChunks m)) wr res st"
  then obtain k d where k: "wr (nextExpected st) = Some k" "res (nextExpected st) = Inr d" "nextExpected st < length (MChunks m)"
    "out st = concat (map (chunk_of res) [0..<nextExpected st]) @ take k d" by (auto simp: torn_prefix_def)
  have "d = piece N content (nextExpected st)" using rr k(2,3) by (simp add: right_results_def)
  then show "\<exists>k. wr (nextExpected st) = Some k \<and>
      out st = take (nextExpected st * N) content @ take k (piece N content (nextExpected st))"
    using k t prefix_of_content [OF assms, of "nextExpected st"] by (auto simp: torn_prefix_def)
qed



end
