(* ===== verification/StreamBack.thy ===== *)
theory StreamBack
  imports ReadBack StreamDownload
begin

text \<open>
  The deployed reader: the closures \<open>MakeServer\<close> (Server/server.go) gives the parallel downloader, which take
  a chunk from the local store first, and what \<open>GetData\<close> returns for an uploaded file when it reads
  through \<open>DownloadToStream\<close> and when it reads serially.
\<close>

section \<open>The closures of the downloader\<close>

text \<open>\<open>net\<close> is the rest of the environment: \<open>fetch net\<close> is what the swarm and the ring give for a chunk that
  is not stored here, \<open>getPeers net\<close> the candidates. The node's own store is \<open>st\<close>, with metadata \<open>m\<close> and
  files \<open>s\<close>.\<close>

definition server_downloader :: "aead \<Rightarrow> codec \<Rightarrow> 'm chunk_store \<Rightarrow> 'm \<Rightarrow> os \<Rightarrow> dl_env \<Rightarrow> dl_env" where
  "server_downloader A Z st m s net = net\<lparr>
     fetch := (\<lambda>n fileKey idx storageKey peer.
       case (if Has st storageKey m s then ReadStream st storageKey m s else Inl NoMeta) of
         Inr data \<Rightarrow> (fst (fetch net n fileKey idx storageKey peer), Inr data)
       | Inl e \<Rightarrow> fetch net n fileKey idx storageKey peer),
     decrypt := (\<lambda>storageKey idx data dek. case dek of None \<Rightarrow> Inr data | Some k \<Rightarrow> server_decrypt A data k idx),
     decompress := server_decompress Z\<rparr>"

text \<open>What \<open>fetchAndVerifyChunk\<close> needs even when the chunk is stored here: an attempt, and a candidate to make
  it with. The candidates come from the providers and the ring, and may be none.\<close>

definition downloader_ready :: "config \<Rightarrow> (nat \<Rightarrow> dl_env) \<Rightarrow> (nat \<Rightarrow> selector) \<Rightarrow> string \<Rightarrow> bool" where
  "downloader_ready cfg nets sels key \<longleftrightarrow> 0 < MaxParallel cfg \<and> 0 \<le> MaxRetries cfg \<and>
     (\<forall>i idx storageKey. sel_sane (others (nets i) 0 (sels i)) \<and> getPeers (nets i) key idx storageKey \<noteq> [] \<and>
        [] \<notin> set (getPeers (nets i) key idx storageKey))"

section \<open>One chunk\<close>

lemma fetch_loop_first:
  assumes cs: "cs \<noteq> []" "[] \<notin> set cs" and sane: "sel_sane (others env 0 s)"
    and ok: "\<And>p. attempt sha256 env fileKey info dek 0 p = Inr plain"
  shows "fst (fetch_loop sha256 env fileKey info dek cs (Suc left) 0 [] lastErr s) = Inr plain"
proof -
  obtain s1 best where b: "sel_BestPeer cs (others env 0 s) = (s1, best)" by fastforce
  have "hd cs \<in> set cs" "\<forall>d \<in> set cs. d \<noteq> []" using cs by auto
  then have "best \<noteq> None"
    using sel.pick_some [of "hd cs" cs "others env 0 s"] sel_sane_score [OF sane] b by simp
  then obtain p where p: "best = Some p" by auto
  obtain s2 res where t: "try_peer sha256 env fileKey info dek 0 p s1 = (s2, res)" by fastforce
  have "res = Inr plain" using try_peer_result [of sha256 env fileKey info dek 0 p s1] ok t by simp
  then show ?thesis using cs(1) b p t by simp
qed

lemma stored_has: "stored_content st m s k = Some d \<Longrightarrow> Has st k m s \<and> ReadStream st k m s = Inr d"
proof -
  assume a: "stored_content st m s k = Some d"
  then have r: "ReadStream st k m s = Inr d" by (auto simp: stored_content_def split: sum.splits)
  then obtain fm where "MGet (Metadata st) m k = Some fm" "os_ReadFile (MPath fm) s = Inr d"
    by (auto simp: ReadStream_def split: option.splits sum.splits)
  with r show ?thesis by (auto simp: Has_def os_ReadFile_def split: if_splits option.splits)
qed

lemma local_chunk_result:
  assumes L: "left_by_upload env enc content key m s man cs pcs" and i: "i < length cs"
    and rdy: "downloader_ready cfg nets sels key"
    and envs: "envs = (\<lambda>i. server_downloader (UAead env) (UCodec env) (UStore env) m s (nets i))"
  shows "chunk_result cfg (USha env) envs sels key man (dek_of enc) i = Inr (CData (cs ! i))"
proof -
  note L' = L [unfolded left_by_upload_def]
  let ?info = "PCInfo (pcs ! i)" and ?e = "envs i"
  have mi: "MChunks man ! i = ?info" and pc: "process_chunk env enc (cs ! i) = Inr (pcs ! i)"
    and v: "VerifyChunk (USha env) (cs ! i)"
    and st: "stored_content (UStore env) m s (ChunkStorageKey (IEncHash ?info)) = Some (PCData (pcs ! i))"
    using L' i by auto
  note P = process_chunk_props [OF pc]
  have h: "IHash ?info = hex_encode (USha env (CData (cs ! i)))" using P(2) v by (simp add: VerifyChunk_def)
  let ?X = "case dek_of enc of None \<Rightarrow> Inr (PCData (pcs ! i)) | Some k \<Rightarrow> server_decrypt (UAead env) (PCData (pcs ! i)) k (CIndex (cs ! i))"
  from process_data_back [OF _ _ P(6)] L' obtain q where q: "?X = Inr q"
      "(if ICompressed ?info then server_decompress (UCodec env) q else Inr q) = Inr (CData (cs ! i))"
    by (cases ?X) auto
  have dec: "decrypt ?e sk (IIndex ?info) (PCData (pcs ! i)) (dek_of enc) = Inr q" for sk
    using q(1) by (simp add: envs server_downloader_def P(1))
  have dz: "decompress ?e = server_decompress (UCodec env)" by (simp add: envs server_downloader_def)
  have "open_chunk (USha env) ?e ?info (dek_of enc) p (PCData (pcs ! i)) = Inr (CData (cs ! i))" for p
    using q(2) h by (cases "ICompressed ?info") (simp_all add: open_chunk_def dec dz Let_def)
  then have att: "attempt (USha env) ?e key ?info (dek_of enc) 0 p = Inr (CData (cs ! i))" for p
    using stored_has [OF st] by (simp add: attempt_def envs server_downloader_def)
  have o: "others ?e = others (nets i)" "getPeers ?e = getPeers (nets i)" by (simp_all add: envs server_downloader_def)
  obtain left where l: "nat (MaxRetries cfg + 1) = Suc left" using rdy by (cases "nat (MaxRetries cfg + 1)") (auto simp: downloader_ready_def)
  show ?thesis
    unfolding chunk_result_def fetchAndVerifyChunk_def mi l
    using rdy att by (intro fetch_loop_first) (auto simp: downloader_ready_def o)
qed

section \<open>The stream\<close>

lemma local_stream:
  assumes L: "left_by_upload env enc content key m s man cs pcs" and rdy: "downloader_ready cfg nets sels key"
    and envs: "envs = (\<lambda>i. server_downloader (UAead env) (UCodec env) (UStore env) m s (nets i))"
    and arr: "arrivals_ok (length (MChunks man)) (nat (MaxParallel cfg)) (\<lambda>i. None)
      (chunk_result cfg (USha env) envs sels key man (dek_of enc)) arrivals
      (dispatchChunks (length (MChunks man)) (nat (MaxParallel cfg)) stream_init)"
  shows "(\<exists>st. DownloadToStream cfg (USha env) envs sels (\<lambda>i. None) arrivals key man (dek_of enc) = Returned None st \<and>
      out st = content \<and> (content \<noteq> [] \<longrightarrow> length arrivals = length (MChunks man))) \<or>
    (\<exists>st. DownloadToStream cfg (USha env) envs sels (\<lambda>i. None) arrivals key man (dek_of enc) = Waiting st \<and>
      length arrivals < length (MChunks man) \<and> nextExpected st \<in> set (inflight st))"
proof -
  let ?n = "length (MChunks man)" and ?w = "nat (MaxParallel cfg)"
  let ?res = "chunk_result cfg (USha env) envs sels key man (dek_of enc)"
  let ?root = "VerifyMerkleRoot (USha env) (MChunks man) (MMerkleRoot man)"
  note L' = L [unfolded left_by_upload_def]
  have n: "?n = length cs" and root: ?root and cat: "concat (map CData cs) = content" using L' by auto
  have res: "?res i = Inr (CData (cs ! i))" if "i < ?n" for i
    using local_chunk_result [OF L _ rdy envs] that n by simp
  have full: "concat (map (chunk_of ?res) [0..<?n]) = content"
  proof -
    have "map (chunk_of ?res) [0..<?n] = map CData cs" by (rule nth_equalityI) (simp_all add: n chunk_of_def res)
    then show ?thesis using cat by simp
  qed
  show ?thesis
  proof (cases "?n = 0")
    case True
    then have "content = []" using cat n by simp
    then show ?thesis using True by (simp add: DownloadToStream_def stream_init_def)
  next
    case False
    have "stream_result_ok ?n ?w (\<lambda>i. None) ?res ?root (length arrivals)
        (DownloadToStream cfg (USha env) envs sels (\<lambda>i. None) arrivals key man (dek_of enc))"
      using stream_loop_spec [OF conjunct1 [OF waiting_inv_init] _ arr] rdy False waiting_inv_init [of ?n ?w ?res]
      by (simp add: DownloadToStream_def Let_def downloader_ready_def)
    moreover have False if "?res j = Inl x" "j < ?n" for j x using res that by simp
    ultimately show ?thesis using full root
      by (cases "DownloadToStream cfg (USha env) envs sels (\<lambda>i. None) arrivals key man (dek_of enc)")
        (auto simp: stream_result_ok_def written_prefix_def torn_prefix_def split: option.splits dl_error.splits)
  qed
qed

section \<open>Reading an upload\<close>

text \<open>What \<open>getChunked\<close> pipes when it reads through the downloader: the bytes written and the error the pipe
  is closed with, once \<open>DownloadToStream\<close> has returned. The reader takes everything, so no write fails.\<close>

definition piped ::
  "config \<Rightarrow> (byte list \<Rightarrow> byte list) \<Rightarrow> (nat \<Rightarrow> dl_env) \<Rightarrow> (nat \<Rightarrow> selector) \<Rightarrow> nat list \<Rightarrow> string \<Rightarrow> chunk_manifest
    \<Rightarrow> byte list option \<Rightarrow> (byte list \<times> dl_error option) option" where
  "piped cfg sha256 envs sels arrivals key man dek =
     (case DownloadToStream cfg sha256 envs sels (\<lambda>i. None) arrivals key man dek of
        Waiting st \<Rightarrow> None
      | Returned err st \<Rightarrow> Some (out st, err))"

lemma serial_reads_back:
  assumes L: "left_by_upload env enc content key m s man cs pcs"
    and rd: "SStore rd = UStore env" "SDecrypt rd = server_decrypt (UAead env)"
      "SDecompress rd = server_decompress (UCodec env)" "\<forall>i. SWrites rd i"
  shows "serial_stream (USha env) rd man (dek_of enc) [0..<length (MChunks man)] [] m s = ((content, None), m, s)"
proof -
  note L' = L [unfolded left_by_upload_def]
  have n: "length (MChunks man) = length cs" using L' by blast
  have read: "\<forall>i \<in> set [0..<length (MChunks man)]. stored_bytes rd man i m s = (Inr (PCData (pcs ! i)), m, s) \<and>
      open_stored (USha env) rd man (dek_of enc) i (PCData (pcs ! i)) = Inr (CData (cs ! i)) \<and> SWrites rd i"
  proof
    fix i assume "i \<in> set [0..<length (MChunks man)]"
    then have i: "i < length cs" using n by simp
    have c: "MChunks man ! i = PCInfo (pcs ! i)" "process_chunk env enc (cs ! i) = Inr (pcs ! i)" "VerifyChunk (USha env) (cs ! i)"
      "stored_content (SStore rd) m s (ChunkStorageKey (IEncHash (MChunks man ! i))) = Some (PCData (pcs ! i))"
      using L' i by (auto simp: rd(1))
    show "stored_bytes rd man i m s = (Inr (PCData (pcs ! i)), m, s) \<and>
        open_stored (USha env) rd man (dek_of enc) i (PCData (pcs ! i)) = Inr (CData (cs ! i)) \<and> SWrites rd i"
      using stored_bytes_local [OF c(4)] listed_chunk_opens [OF _ _ c(2,3,1) rd(2,3)] L' rd(4) by blast
  qed
  have "map (\<lambda>i. CData (cs ! i)) [0..<length cs] = map CData cs" by (rule nth_equalityI) simp_all
  then have "concat (map (\<lambda>i. CData (cs ! i)) [0..<length (MChunks man)]) = content" using L' by (simp only: n)
  then show ?thesis using serial_stream_ok [OF read, of "[]"] by simp
qed

text \<open>C25. What is stored is what is read: after a successful upload of a file that did not continue an earlier
  one, the manifest under the key describes exactly the content. \<open>GetData\<close> with the same data encryption key
  then returns exactly the content, without an error, whatever was compressed and whether or not it was
  encrypted: when it reads serially, and when it reads through the parallel downloader of the server. With
  the downloader no chunk fails and no chunk comes from a peer, in whatever order the workers finish: the download
  either still has workers running, among them that of the chunk it writes next, or has piped the content. But the
  downloader must find a candidate for each chunk, although it asks none (\<open>downloader_ready\<close>).\<close>

theorem uploaded_file_reads_back:
  assumes "upload_ready env enc content key keys V D m s"
    and "\<forall>res. pending_Load (UHeaders env) (URecords env) (URoot env) key s \<noteq> Inr (Some res)"
    and "storeDataInternal env ctx key content fails enc fileSize progress False m s = (Inr r, eff, m', s')"
    and rd: "SStore rd = UStore env" "SDecrypt rd = server_decrypt (UAead env)"
      "SDecompress rd = server_decompress (UCodec env)" "\<forall>i. SWrites rd i"
    and dl: "downloader_ready cfg nets sels key"
      "envs = (\<lambda>i. server_downloader (UAead env) (UCodec env) (UStore env) m' s' (nets i))"
    and "int (length content) \<le> 2 ^ 63"
  shows "\<exists>man. bm_GetManifest m' key = Some man \<and> describes (USha env) content (nat DefaultChunkSize) man \<and>
    GetData (USha env) bm_ops rd None getman now key (dek_of enc) m' s' = (Inr (content, None), [ReadRepair key], m', s') \<and>
    (\<forall>arrivals. arrivals_ok (length (MChunks man)) (nat (MaxParallel cfg)) (\<lambda>i. None)
        (chunk_result cfg (USha env) envs sels key man (dek_of enc)) arrivals
        (dispatchChunks (length (MChunks man)) (nat (MaxParallel cfg)) stream_init) \<longrightarrow>
      (case DownloadToStream cfg (USha env) envs sels (\<lambda>i. None) arrivals key man (dek_of enc) of
         Waiting st \<Rightarrow> length arrivals < length (MChunks man) \<and> nextExpected st \<in> set (inflight st)
       | Returned err st \<Rightarrow>
           GetData (USha env) bm_ops rd (Some (\<lambda>k mn d. the (piped cfg (USha env) envs sels arrivals k mn d))) getman now key
             (dek_of enc) m' s' = (Inr (content, None), [ReadRepair key], m', s')))"
proof -
  obtain man cs pcs where L: "left_by_upload env enc content key m' s' man cs pcs"
    using uploaded_left [OF assms(1,2,3)] assms(10) by blast
  then obtain fm where g: "bm_GetManifest m' key = Some man" "bm_Get m' key = Some fm" "MChunked fm"
      "describes (USha env) content (nat DefaultChunkSize) man" by (auto simp: left_by_upload_def)
  have ser: "GetData (USha env) bm_ops rd None getman now key (dek_of enc) m' s' = (Inr (content, None), [ReadRepair key], m', s')"
    using serial_reads_back [OF L rd] g by (simp add: GetData_def getChunked_def)
  have par: "GetData (USha env) bm_ops rd (Some p) getman now key (dek_of enc) m' s' = (Inr (content, None), [ReadRepair key], m', s')"
    if "p key man (dek_of enc) = (content, None)" for p
    using g that by (simp add: GetData_def getChunked_def)
  show ?thesis
  proof (intro exI [of _ man] conjI allI impI g ser)
    fix arrivals
    assume "arrivals_ok (length (MChunks man)) (nat (MaxParallel cfg)) (\<lambda>i. None)
        (chunk_result cfg (USha env) envs sels key man (dek_of enc)) arrivals
        (dispatchChunks (length (MChunks man)) (nat (MaxParallel cfg)) stream_init)"
    from local_stream [OF L dl this]
    show "case DownloadToStream cfg (USha env) envs sels (\<lambda>i. None) arrivals key man (dek_of enc) of
        Waiting st \<Rightarrow> length arrivals < length (MChunks man) \<and> nextExpected st \<in> set (inflight st)
      | Returned err st \<Rightarrow>
          GetData (USha env) bm_ops rd (Some (\<lambda>k mn d. the (piped cfg (USha env) envs sels arrivals k mn d))) getman now key
            (dek_of enc) m' s' = (Inr (content, None), [ReadRepair key], m', s')"
      by (elim disjE exE conjE) (simp_all add: piped_def par)
  qed
qed

text \<open>The demonstration upload, read through four workers; one chunk, whose result arrives.\<close>

definition demo_nets :: "nat \<Rightarrow> dl_env" where
  "demo_nets = (\<lambda>i. \<lparr>fetch = (\<lambda>n f idx k p. (0, Inl ''down'')), decrypt = (\<lambda>k idx d dek. Inr d), decompress = Inr,
     getPeers = (\<lambda>f idx k. [''n2'']), others = (\<lambda>n s. s)\<rparr>)"

theorem uploaded_file_reads_back_witness:
  "\<exists>eff m s rd envs. storeDataInternal demo_upload (\<lambda>n. False) ''f'' [1, 2, 3] False (Some demo_enc) 3 False False demo_meta_store no_files
      = (Inr None, eff, m, s) \<and>
    GetData demo_sha bm_ops rd None (\<lambda>k. Inl ''no peer'') 0 ''f'' (Some (replicate 32 7)) m s =
      (Inr ([1, 2, 3], None), [ReadRepair ''f''], m, s) \<and>
    GetData demo_sha bm_ops rd (Some (\<lambda>k mn d. the (piped DefaultConfig demo_sha envs (\<lambda>i. sel_New) [0] k mn d)))
        (\<lambda>k. Inl ''no peer'') 0 ''f'' (Some (replicate 32 7)) m s =
      (Inr ([1, 2, 3], None), [ReadRepair ''f''], m, s)"
proof -
  obtain pc where pc: "process_chunk demo_upload (Some demo_enc) (demo_chunk_of [1, 2, 3]) = Inr pc" using demo_process by blast
  obtain eff m s where up: "storeDataInternal demo_upload (\<lambda>n. False) ''f'' [1, 2, 3] False (Some demo_enc) 3 False False
      demo_meta_store no_files = (Inr None, eff, m, s)" using demo_upload_succeeds [OF pc] by blast
  define rd :: "((meta_bucket \<times> string) \<times> byte list) list bolt_meta serial_env" where
    "rd = \<lparr>SStore = demo_store, SMd5 = demo_md5, SRnd = (\<lambda>n. ''1''), SFetch = (\<lambda>n k. Inl ''no peer''),
        SDecrypt = server_decrypt demo_aead, SDecompress = server_decompress demo_codec, SCancelled = (\<lambda>n. False),
        SWrites = (\<lambda>i. True)\<rparr>"
  define envs where "envs = (\<lambda>i. server_downloader (UAead demo_upload) (UCodec demo_upload) (UStore demo_upload) m s (demo_nets i))"
  have fresh: "\<forall>res. pending_Load (UHeaders demo_upload) (URecords demo_upload) (URoot demo_upload) ''f'' no_files \<noteq> Inr (Some res)"
    by (simp add: pending_Load_def no_files_def os_ReadFile_def split: sum.split)
  have r: "SStore rd = UStore demo_upload" "SDecrypt rd = server_decrypt (UAead demo_upload)"
      "SDecompress rd = server_decompress (UCodec demo_upload)" "\<forall>i. SWrites rd i" by (simp_all add: rd_def)
  have len: "int (length [1, 2, 3 :: byte]) \<le> 2 ^ 63" by simp
  have dek: "dek_of (Some demo_enc) = Some (replicate 32 7)" by (simp add: dek_of_def demo_enc_def)
  have rdy: "downloader_ready DefaultConfig demo_nets (\<lambda>i. sel_New) ''f''"
    by (simp add: downloader_ready_def DefaultConfig_def demo_nets_def sel_sane_New)
  obtain man where man: "describes demo_sha [1, 2, 3] (nat DefaultChunkSize) man"
    and ser: "GetData demo_sha bm_ops rd None (\<lambda>k. Inl ''no peer'') 0 ''f'' (Some (replicate 32 7)) m s =
      (Inr ([1, 2, 3], None), [ReadRepair ''f''], m, s)"
    and par: "\<forall>arrivals. arrivals_ok (length (MChunks man)) (nat (MaxParallel DefaultConfig)) (\<lambda>i. None)
        (chunk_result DefaultConfig demo_sha envs (\<lambda>i. sel_New) ''f'' man (Some (replicate 32 7))) arrivals
        (dispatchChunks (length (MChunks man)) (nat (MaxParallel DefaultConfig)) stream_init) \<longrightarrow>
      (case DownloadToStream DefaultConfig demo_sha envs (\<lambda>i. sel_New) (\<lambda>i. None) arrivals ''f'' man (Some (replicate 32 7)) of
         Waiting st \<Rightarrow> length arrivals < length (MChunks man) \<and> nextExpected st \<in> set (inflight st)
       | Returned err st \<Rightarrow>
           GetData demo_sha bm_ops rd (Some (\<lambda>k mn d. the (piped DefaultConfig demo_sha envs (\<lambda>i. sel_New) arrivals k mn d)))
             (\<lambda>k. Inl ''no peer'') 0 ''f'' (Some (replicate 32 7)) m s = (Inr ([1, 2, 3], None), [ReadRepair ''f''], m, s))"
    using uploaded_file_reads_back [OF demo_upload_ready [OF pc] fresh up r rdy envs_def len, of "\<lambda>k. Inl ''no peer''" 0]
    unfolding dek by (elim exE conjE) (simp only: demo_upload_sel)
  have "0 < length (MChunks man)" "\<not> 1 < length (MChunks man)"
    using describes_chunks(1) [OF man, of 0] describes_chunks(1) [OF man, of 1] by (simp_all add: DefaultChunkSize_def)
  then have n: "length (MChunks man) = 1" by linarith
  have "0 \<in> set (inflight (dispatchChunks 1 4 stream_init))"
    by (simp add: dispatchChunks.simps [of "Suc 0" 4] stream_init_def)
  then have ok: "arrivals_ok (length (MChunks man)) (nat (MaxParallel DefaultConfig)) (\<lambda>i. None)
        (chunk_result DefaultConfig demo_sha envs (\<lambda>i. sel_New) ''f'' man (Some (replicate 32 7))) [0]
        (dispatchChunks (length (MChunks man)) (nat (MaxParallel DefaultConfig)) stream_init)"
    by (simp add: n DefaultConfig_def split: prod.split option.split)
  from mp [OF spec [OF par, of "[0]"] ok]
  have "GetData demo_sha bm_ops rd (Some (\<lambda>k mn d. the (piped DefaultConfig demo_sha envs (\<lambda>i. sel_New) [0] k mn d)))
      (\<lambda>k. Inl ''no peer'') 0 ''f'' (Some (replicate 32 7)) m s = (Inr ([1, 2, 3], None), [ReadRepair ''f''], m, s)"
    by (cases "DownloadToStream DefaultConfig demo_sha envs (\<lambda>i. sel_New) (\<lambda>i. None) [0] ''f'' man (Some (replicate 32 7))")
      (simp_all add: n)
  with up ser show ?thesis by blast
qed

end
