(* ===== verification/VClock.thy ===== *)
theory VClock
  imports Prelude
begin

text \<open>
  Vector clocks, \<open>Cluster/vclock/vclock.go\<close>. A clock is a Go map from node addresses to
  64-bit counters; a missing entry reads as 0. The reference semantics of a clock is the
  function \<open>vc_get\<close>, ordered pointwise: \<open>Compare_refines\<close> shows that the loop over the
  union of the keys, with its early return, decides that order, and \<open>vc_get_Merge\<close> that
  \<open>Merge\<close> is its least upper bound. Counters keep their width, so the wrap-around of
  \<open>Increment\<close> is visible.
\<close>

type_synonym vclock = "(string, uint64) gomap"

datatype relation = Before | After | Concurrent | Equal

fun relation_String :: "relation \<Rightarrow> string" where
  "relation_String Before = ''Before''"
| "relation_String After = ''After''"
| "relation_String Concurrent = ''Concurrent''"
| "relation_String Equal = ''Equal''"

definition vc_New :: vclock where
  "vc_New = []"

definition vc_get :: "vclock \<Rightarrow> string \<Rightarrow> uint64" where
  "vc_get = go_get 0"

text \<open>\<open>Copy\<close> ranges over the clock and stores every entry into a fresh map.\<close>

fun vc_copy_loop :: "vclock \<Rightarrow> vclock \<Rightarrow> vclock" where
  "vc_copy_loop c [] = c"
| "vc_copy_loop c ((k, v) # vc) = vc_copy_loop (AList.update k v c) vc"

definition vc_Copy :: "vclock \<Rightarrow> vclock" where
  "vc_Copy vc = vc_copy_loop [] vc"

definition vc_Increment :: "vclock \<Rightarrow> string \<Rightarrow> vclock" where
  "vc_Increment vc nodeAddr =
     (let c = vc_Copy vc in AList.update nodeAddr (vc_get c nodeAddr + 1) c)"

fun vc_merge_loop :: "vclock \<Rightarrow> vclock \<Rightarrow> vclock" where
  "vc_merge_loop result [] = result"
| "vc_merge_loop result ((k, v) # other) =
     vc_merge_loop (if v > vc_get result k then AList.update k v result else result) other"

definition vc_Merge :: "vclock \<Rightarrow> vclock \<Rightarrow> vclock" where
  "vc_Merge vc other = vc_merge_loop (vc_Copy vc) other"

fun vc_compare_loop :: "vclock \<Rightarrow> vclock \<Rightarrow> string list \<Rightarrow> bool \<Rightarrow> bool \<Rightarrow> relation" where
  "vc_compare_loop vc other [] thisGreater otherGreater =
     (if \<not> thisGreater \<and> \<not> otherGreater then Equal
      else if thisGreater then After
      else Before)"
| "vc_compare_loop vc other (k # keys) thisGreater otherGreater =
     (let a = vc_get vc k;
          b = vc_get other k;
          thisGreater' = (if a > b then True else thisGreater);
          otherGreater' = (if a > b then otherGreater else if b > a then True else otherGreater)
      in if thisGreater' \<and> otherGreater' then Concurrent
         else vc_compare_loop vc other keys thisGreater' otherGreater')"

text \<open>Go ranges over the set of keys in any order: \<open>order\<close> is the one a call happens to get. \<open>vc_Compare\<close> is the call
  with one such order; \<open>Compare_decides_causal_order\<close> shows that all orders give the same answer.\<close>

definition key_order :: "vclock \<Rightarrow> vclock \<Rightarrow> string list \<Rightarrow> bool" where
  "key_order vc other order \<longleftrightarrow> distinct order \<and> set order = set (go_keys vc) \<union> set (go_keys other)"

definition vc_Compare_in :: "string list \<Rightarrow> vclock \<Rightarrow> vclock \<Rightarrow> relation" where
  "vc_Compare_in order vc other = vc_compare_loop vc other order False False"

definition vc_Compare :: "vclock \<Rightarrow> vclock \<Rightarrow> relation" where
  "vc_Compare vc other = vc_Compare_in (dedup [] (go_keys vc @ go_keys other)) vc other"

section \<open>Copies\<close>

lemma map_of_vc_copy_loop:
  "go_wf vc \<Longrightarrow> map_of (vc_copy_loop c vc) = map_of c ++ map_of vc"
proof (induction c vc rule: vc_copy_loop.induct)
  case (2 c k v vc)
  then have "map_of vc k = None" by (simp add: map_of_None_keys)
  with 2 show ?case by (auto simp: fun_eq_iff map_add_def split: option.splits)
qed simp

lemma vc_get_Copy [simp]: "go_wf vc \<Longrightarrow> vc_get (vc_Copy vc) = vc_get vc"
  by (simp add: vc_get_def vc_Copy_def go_get_def map_of_vc_copy_loop fun_eq_iff)

lemma go_wf_vc_copy_loop [go_intros]: "go_wf c \<Longrightarrow> go_wf (vc_copy_loop c vc)"
  by (induction c vc rule: vc_copy_loop.induct) simp_all

lemma go_wf_Copy [simp, go_intros]: "go_wf (vc_Copy vc)"
  by (simp add: vc_Copy_def go_wf_vc_copy_loop)

section \<open>Increment\<close>

lemma vc_get_update [simp]: "vc_get (AList.update k v c) = (vc_get c)(k := v)"
  by (simp add: vc_get_def)

lemma vc_get_Increment [simp]:
  "go_wf vc \<Longrightarrow> vc_get (vc_Increment vc n) = (vc_get vc)(n := vc_get vc n + 1)"
  by (simp add: vc_Increment_def Let_def)

lemma go_wf_Increment [simp, go_intros]: "go_wf (vc_Increment vc n)"
  by (simp add: vc_Increment_def Let_def)

section \<open>Merge\<close>

lemma vc_get_merge_loop:
  "go_wf other \<Longrightarrow> vc_get (vc_merge_loop r other) k = max (vc_get r k) (vc_get other k)"
proof (induction r other arbitrary: k rule: vc_merge_loop.induct)
  case (1 r)
  then show ?case by (simp add: vc_get_def go_get_def max_def)
next
  case (2 r k0 v other)
  have z: "vc_get other k0 = 0" using "2.prems" by (simp add: vc_get_def go_get_missing)
  have h: "vc_get ((k0, v) # other) k = (if k = k0 then v else vc_get other k)"
    by (simp add: vc_get_def go_get_def)
  show ?case using "2.IH" "2.prems" z by (auto simp: h max_def word_gt_0)
qed

lemma vc_get_Merge [simp]:
  "go_wf vc \<Longrightarrow> go_wf other \<Longrightarrow> vc_get (vc_Merge vc other) k = max (vc_get vc k) (vc_get other k)"
  by (simp add: vc_Merge_def vc_get_merge_loop)

lemma go_wf_vc_merge_loop [go_intros]: "go_wf r \<Longrightarrow> go_wf (vc_merge_loop r other)"
  by (induction r other rule: vc_merge_loop.induct) simp_all

lemma go_wf_Merge [simp, go_intros]: "go_wf (vc_Merge vc other)"
  by (simp add: vc_Merge_def go_wf_vc_merge_loop)

section \<open>Compare\<close>

text \<open>What the loop has found when it has seen \<open>keys\<close>.\<close>

lemma vc_compare_loop_spec:
  assumes "\<not> (tg \<and> og)"
  shows "vc_compare_loop vc other keys tg og =
    (let g = tg \<or> (\<exists>k \<in> set keys. vc_get vc k > vc_get other k);
         l = og \<or> (\<exists>k \<in> set keys. vc_get other k > vc_get vc k)
     in if g \<and> l then Concurrent else if g then After else if l then Before else Equal)"
  using assms
proof (induction vc other keys tg og rule: vc_compare_loop.induct)
  case (1 vc other tg og)
  then show ?case by auto
next
  case (2 vc other k keys tg og)
  consider "vc_get vc k > vc_get other k" | "vc_get vc k < vc_get other k"
    | "vc_get vc k = vc_get other k" by fastforce
  then show ?case
  proof cases
    case 1
    then show ?thesis using "2.IH" "2.prems" by (cases tg; cases og) (auto simp: Let_def)
  next
    case 2
    then show ?thesis using "2.IH" "2.prems" by (cases tg; cases og) (auto simp: Let_def)
  next
    case 3
    then show ?thesis using "2.IH" "2.prems" by (cases tg; cases og) (auto simp: Let_def)
  qed
qed

lemma vc_get_outside_keys:
  "k \<notin> set (go_keys vc @ go_keys other) \<Longrightarrow> vc_get vc k = 0 \<and> vc_get other k = 0"
  by (simp add: vc_get_def go_get_missing)

lemma ex_union_key:
  assumes "set order = set (go_keys vc @ go_keys other)"
  shows "(\<exists>k \<in> set order. vc_get vc k < vc_get other k) \<longleftrightarrow> \<not> vc_get other \<le> vc_get vc"
    and "(\<exists>k \<in> set order. vc_get other k < vc_get vc k) \<longleftrightarrow> \<not> vc_get vc \<le> vc_get other"
  unfolding assms using vc_get_outside_keys [of _ vc other]
  by (force simp: le_fun_def not_le)+

lemma key_order_dedup: "key_order vc other (dedup [] (go_keys vc @ go_keys other))"
  by (simp add: key_order_def)

lemma Compare_in_refines:
  assumes "key_order vc other order"
  shows "vc_Compare_in order vc other =
     (if vc_get vc = vc_get other then Equal
      else if vc_get vc < vc_get other then Before
      else if vc_get other < vc_get vc then After
      else Concurrent)"
proof -
  have order: "set order = set (go_keys vc @ go_keys other)" using assms by (simp add: key_order_def)
  have "vc_Compare_in order vc other =
    (if \<not> vc_get vc \<le> vc_get other \<and> \<not> vc_get other \<le> vc_get vc then Concurrent
     else if \<not> vc_get vc \<le> vc_get other then After
     else if \<not> vc_get other \<le> vc_get vc then Before else Equal)"
    unfolding vc_Compare_in_def
    by (subst vc_compare_loop_spec) (simp_all only: ex_union_key [OF order] Let_def simp_thms)
  then show ?thesis by (auto simp: less_le_not_le)
qed

lemmas Compare_refines = Compare_in_refines [OF key_order_dedup, folded vc_Compare_def]

lemma Compare_simps [go_simps]:
  "vc_Compare v w = Equal \<longleftrightarrow> vc_get v = vc_get w"
  "vc_Compare v w = Before \<longleftrightarrow> vc_get v < vc_get w"
  "vc_Compare v w = After \<longleftrightarrow> vc_get w < vc_get v"
  "vc_Compare v w = Concurrent \<longleftrightarrow> \<not> vc_get v \<le> vc_get w \<and> \<not> vc_get w \<le> vc_get v"
  by (auto simp: Compare_refines less_le_not_le)

section \<open>Properties\<close>

text \<open>C1. \<open>Compare\<close> decides the causal order: for every order in which the range over the key set visits the keys of
  the two clocks, and wherever the early return fires, the answer is the pointwise order of the counters, a missing
  entry counting as 0.\<close>

theorem Compare_decides_causal_order:
  assumes "key_order vc other order"
  shows "vc_Compare_in order vc other =
     (if \<forall>k. vc_get vc k = vc_get other k then Equal
      else if \<forall>k. vc_get vc k \<le> vc_get other k then Before
      else if \<forall>k. vc_get other k \<le> vc_get vc k then After
      else Concurrent)"
  by (auto simp: Compare_in_refines [OF assms] less_le_not_le le_fun_def fun_eq_iff intro: antisym)

theorem Compare_decides_causal_order_witness:
  "vc_Compare_in [''b'', ''a''] [(''a'', 2), (''b'', 1)] [(''b'', 3)] = Concurrent"
proof -
  have "key_order [(''a'', 2), (''b'', 1)] [(''b'', 3)] [''b'', ''a'']" by (auto simp: key_order_def)
  note C = Compare_decides_causal_order [OF this]
  have "vc_get [(''a'', 2), (''b'', 1)] ''a'' = 2" "vc_get [(''b'', 3)] ''a'' = 0"
    "vc_get [(''a'', 2), (''b'', 1)] ''b'' = 1" "vc_get [(''b'', 3)] ''b'' = 3" by (simp_all add: vc_get_def go_get_def)
  then have ne: "vc_get [(''a'', 2), (''b'', 1)] ''a'' \<noteq> vc_get [(''b'', 3)] ''a''"
    "\<not> vc_get [(''a'', 2), (''b'', 1)] ''a'' \<le> vc_get [(''b'', 3)] ''a''"
    "\<not> vc_get [(''b'', 3)] ''b'' \<le> vc_get [(''a'', 2), (''b'', 1)] ''b''" by (simp_all add: word_le_nat_alt)
  then have "\<not> (\<forall>k. vc_get [(''a'', 2), (''b'', 1)] k = vc_get [(''b'', 3)] k)"
    "\<not> (\<forall>k. vc_get [(''a'', 2), (''b'', 1)] k \<le> vc_get [(''b'', 3)] k)"
    "\<not> (\<forall>k. vc_get [(''b'', 3)] k \<le> vc_get [(''a'', 2), (''b'', 1)] k)"
    by blast+
  then show ?thesis unfolding C by (simp only: if_False)
qed

text \<open>\<open>Merge\<close> is the least upper bound of its two clocks: a clock is at or after the merge
  exactly when it is at or after both inputs.\<close>

lemma Merge_least_upper_bound:
  assumes "go_wf a" and "go_wf b"
  shows "vc_Compare (vc_Merge a b) c \<in> {Before, Equal} \<longleftrightarrow>
         vc_Compare a c \<in> {Before, Equal} \<and> vc_Compare b c \<in> {Before, Equal}"
proof -
  have le: "vc_Compare x y \<in> {Before, Equal} \<longleftrightarrow> vc_get x \<le> vc_get y" for x y
    by (auto simp: Compare_simps less_le_not_le)
  show ?thesis unfolding le using assms by (auto simp: le_fun_def)
qed

theorem Merge_least_upper_bound_witness:
  "vc_Compare (vc_Merge [(''a'', 2), (''b'', 1)] [(''b'', 3)]) [(''a'', 2), (''b'', 3)] \<in> {Before, Equal}"
proof -
  have "go_wf [(''a'', 2 :: uint64), (''b'', 1)]" and "go_wf [(''b'', 3 :: uint64)]" by simp_all
  note Merge_least_upper_bound [OF this, of "[(''a'', 2), (''b'', 3)]"]
  moreover have "vc_Compare [(''a'', 2), (''b'', 1)] [(''a'', 2), (''b'', 3)] = Before" by code_simp
  moreover have "vc_Compare [(''b'', 3)] [(''a'', 2), (''b'', 3)] = Before" by code_simp
  ultimately show ?thesis by simp
qed

text \<open>\<open>Increment\<close> moves a clock strictly forward in the causal order unless the counter is at
  its 64-bit maximum, where it wraps to 0 and the new clock is causally before the old one.\<close>

theorem Increment_advances_or_wraps:
  assumes "go_wf vc"
  shows "vc_Compare vc (vc_Increment vc n) = (if vc_get vc n = - 1 then After else Before)"
proof (cases "vc_get vc n = - 1")
  case True
  then have "vc_get vc n + 1 < vc_get vc n" by (simp add: word_gt_0)
  then show ?thesis using True assms
    by (auto simp: Compare_simps less_fun_def le_fun_def)
next
  case False
  then have "vc_get vc n < vc_get vc n + 1" by (rule word_less_plus_one)
  then show ?thesis using False assms
    by (auto simp: Compare_simps less_fun_def le_fun_def not_le)
qed

theorem Increment_advances_or_wraps_witness:
  "vc_Compare [(''a'', - 1)] (vc_Increment [(''a'', - 1)] ''a'') = After"
proof -
  have "go_wf [(''a'', - 1 :: uint64)]" by simp
  from Increment_advances_or_wraps [OF this, of "''a''"] show ?thesis
    by (simp add: vc_get_def go_get_def)
qed

end
