(* ===== verification/Conflict.thy ===== *)
theory Conflict
  imports VClock
begin

text \<open>
  Conflict resolution, \<open>Cluster/conflict/conflict.go\<close>. \<open>LWW_Resolve\<close> is
  \<open>LWWResolver.Resolve\<close>; its panic on an empty slice is \<open>None\<close>. What the resolver relies
  on in the clocks is the locale \<open>causal_clock\<close>, proved of \<open>vc_Compare\<close> at the end of the
  first section. The properties say when the winner is causally maximal, and that without
  clock-synchronised timestamps it need not be.
\<close>

record version =
  NodeAddr :: string
  Clock :: vclock
  Timestamp :: int

text \<open>One turn of the loop: the \<open>switch\<close> on how the best version so far relates to the candidate.\<close>

definition resolve_step :: "(vclock \<Rightarrow> vclock \<Rightarrow> relation) \<Rightarrow> version \<Rightarrow> version \<Rightarrow> version" where
  "resolve_step cmp best candidate =
     (case cmp (Clock best) (Clock candidate) of
        Before \<Rightarrow> candidate
      | After \<Rightarrow> best
      | Equal \<Rightarrow> best
      | Concurrent \<Rightarrow> if Timestamp candidate > Timestamp best then candidate else best)"

fun resolve_loop :: "(vclock \<Rightarrow> vclock \<Rightarrow> relation) \<Rightarrow> version \<Rightarrow> version list \<Rightarrow> version" where
  "resolve_loop cmp best [] = best"
| "resolve_loop cmp best (candidate # vs) = resolve_loop cmp (resolve_step cmp best candidate) vs"

definition LWW_Resolve :: "version list \<Rightarrow> version option" where
  "LWW_Resolve versions =
     (case versions of
        [] \<Rightarrow> None
      | v # vs \<Rightarrow> Some (resolve_loop vc_Compare v vs))"

text \<open>Timestamps agree with causality on a set of versions: a causally later write carries a
  strictly later timestamp, and equal clocks (the same write) carry the same one.\<close>

definition causal_stamps :: "(vclock \<Rightarrow> vclock \<Rightarrow> relation) \<Rightarrow> version set \<Rightarrow> bool" where
  "causal_stamps cmp S \<longleftrightarrow>
     (\<forall>x \<in> S. \<forall>y \<in> S.
        (cmp (Clock x) (Clock y) = Before \<longrightarrow> Timestamp x < Timestamp y) \<and>
        (cmp (Clock x) (Clock y) = Equal \<longrightarrow> Timestamp x = Timestamp y))"

section \<open>The interface between clocks and the resolver\<close>

locale causal_clock =
  fixes cmp :: "vclock \<Rightarrow> vclock \<Rightarrow> relation"
  assumes cmp_refl: "cmp x x = Equal"
    and cmp_flip: "cmp x y = Before \<longleftrightarrow> cmp y x = After"
    and cmp_trans: "cmp x y = Before \<Longrightarrow> cmp y z = Before \<Longrightarrow> cmp x z = Before"
    and cmp_cong: "cmp x y = Equal \<Longrightarrow> cmp x z = cmp y z"
begin

text \<open>\<open>x\<close> is at or after \<open>y\<close>.\<close>

definition dominates :: "vclock \<Rightarrow> vclock \<Rightarrow> bool" where
  "dominates x y \<longleftrightarrow> cmp x y \<in> {After, Equal}"

lemma cmp_equal_sym: "cmp x y = Equal \<Longrightarrow> cmp y x = Equal"
  by (metis cmp_cong cmp_refl)

lemma dominates_refl: "dominates x x"
  by (simp add: dominates_def cmp_refl)

lemma dominates_trans:
  assumes "dominates x y" and "dominates y z"
  shows "dominates x z"
proof (cases "cmp x y = Equal")
  case True
  with assms(2) show ?thesis using cmp_cong [of x y z] by (simp add: dominates_def)
next
  case False
  with assms(1) have yx: "cmp y x = Before" by (simp add: dominates_def cmp_flip)
  show ?thesis
  proof (cases "cmp y z = Equal")
    case True
    then have "cmp z x = Before" using cmp_cong [of y z x] yx by simp
    then show ?thesis by (simp add: dominates_def cmp_flip)
  next
    case False
    with assms(2) have "cmp z y = Before" by (simp add: dominates_def cmp_flip)
    from cmp_trans [OF this yx] show ?thesis by (simp add: dominates_def cmp_flip)
  qed
qed

lemma after_before: "cmp x y = After \<Longrightarrow> cmp y x = Before"
  by (simp add: cmp_flip)

lemma step_choice: "resolve_step cmp b c = b \<or> resolve_step cmp b c = c"
  by (auto simp: resolve_step_def split: relation.splits)

lemma loop_member: "resolve_loop cmp b vs \<in> insert b (set vs)"
proof (induction vs arbitrary: b)
  case (Cons c vs)
  have "resolve_loop cmp (resolve_step cmp b c) vs \<in> insert (resolve_step cmp b c) (set vs)"
    by (rule Cons.IH)
  then show ?case using step_choice [of b c] by auto
qed simp

lemma step_stamp:
  assumes "causal_stamps cmp S" and "b \<in> S" and "c \<in> S"
  shows "Timestamp b \<le> Timestamp (resolve_step cmp b c)"
    and "Timestamp c \<le> Timestamp (resolve_step cmp b c)"
proof -
  have fwd: "cmp (Clock b) (Clock c) = Before \<Longrightarrow> Timestamp b < Timestamp c"
    and eq: "cmp (Clock b) (Clock c) = Equal \<Longrightarrow> Timestamp b = Timestamp c"
    and bwd: "cmp (Clock c) (Clock b) = Before \<Longrightarrow> Timestamp c < Timestamp b"
    using assms unfolding causal_stamps_def by blast+
  note after = after_before [of "Clock b" "Clock c"]
  show "Timestamp b \<le> Timestamp (resolve_step cmp b c)"
    by (cases "cmp (Clock b) (Clock c)") (use fwd in \<open>simp_all add: resolve_step_def\<close>)
  show "Timestamp c \<le> Timestamp (resolve_step cmp b c)"
    by (cases "cmp (Clock b) (Clock c)") (use eq bwd [OF after] in \<open>simp_all add: resolve_step_def\<close>)
qed

lemma loop_max_stamp:
  assumes "causal_stamps cmp S" and "insert b (set vs) \<subseteq> S" and "y \<in> insert b (set vs)"
  shows "Timestamp y \<le> Timestamp (resolve_loop cmp b vs)"
  using assms(2,3)
proof (induction vs arbitrary: b y)
  case (Cons c vs)
  let ?b = "resolve_step cmp b c"
  have sub: "insert ?b (set vs) \<subseteq> S" using Cons.prems(1) step_choice [of b c] by auto
  note top = Cons.IH [OF sub]
  have "Timestamp b \<le> Timestamp ?b" and "Timestamp c \<le> Timestamp ?b"
    using step_stamp [OF assms(1), of b c] Cons.prems(1) by auto
  then show ?case using Cons.prems(2) top [of ?b] top [of y] by auto
qed simp

lemma loop_undominated:
  assumes "causal_stamps cmp (insert b (set vs))" and "y \<in> insert b (set vs)"
  shows "cmp (Clock (resolve_loop cmp b vs)) (Clock y) \<noteq> Before"
proof
  assume "cmp (Clock (resolve_loop cmp b vs)) (Clock y) = Before"
  then have "Timestamp (resolve_loop cmp b vs) < Timestamp y"
    using assms loop_member [of b vs] unfolding causal_stamps_def by blast
  then show False using loop_max_stamp [OF assms(1) subset_refl assms(2)] by simp
qed

text \<open>When the candidates form a chain, causality alone decides: no assumption on timestamps.\<close>

lemma step_dominates:
  assumes "cmp (Clock b) (Clock c) \<noteq> Concurrent" and "z \<in> {b, c}"
  shows "dominates (Clock (resolve_step cmp b c)) (Clock z)"
  using assms cmp_flip [of "Clock b" "Clock c"]
  by (cases "cmp (Clock b) (Clock c)") (auto simp: resolve_step_def dominates_def cmp_refl)

lemma loop_chain:
  assumes "\<forall>x \<in> insert b (set vs). \<forall>y \<in> insert b (set vs). cmp (Clock x) (Clock y) \<noteq> Concurrent"
    and "y \<in> insert b (set vs)"
  shows "dominates (Clock (resolve_loop cmp b vs)) (Clock y)"
  using assms
proof (induction vs arbitrary: b y)
  case Nil
  then show ?case by (simp add: dominates_refl)
next
  case (Cons c vs)
  let ?b = "resolve_step cmp b c" and ?w = "resolve_loop cmp (resolve_step cmp b c) vs"
  have top: "dominates (Clock ?w) (Clock z)" if "z \<in> insert ?b (set vs)" for z
    using that Cons.prems(1) step_choice [of b c] by (intro Cons.IH) auto
  have "dominates (Clock ?w) (Clock z)" if "z \<in> {b, c}" for z
    using dominates_trans [OF top [of ?b] step_dominates [of b c z]] that Cons.prems(1) by simp
  then show ?case using top Cons.prems(2) by auto
qed

end

lemma Compare_Equal_cong: "vc_Compare x y = Equal \<Longrightarrow> vc_Compare x z = vc_Compare y z"
  by (simp add: Compare_refines split: if_splits)

interpretation vc: causal_clock vc_Compare
  by unfold_locales (auto simp: Compare_simps intro: Compare_Equal_cong)

section \<open>Properties\<close>

text \<open>When timestamps respect causality, the winner is one of the candidates, no candidate is
  causally after it, and none has a later timestamp.\<close>

lemma Resolve_causally_maximal:
  assumes "versions \<noteq> []" and "causal_stamps vc_Compare (set versions)"
  shows "\<exists>w. LWW_Resolve versions = Some w \<and> w \<in> set versions \<and>
           (\<forall>y \<in> set versions. vc_Compare (Clock w) (Clock y) \<noteq> Before \<and> Timestamp y \<le> Timestamp w)"
proof -
  obtain v vs where v: "versions = v # vs" using assms(1) by (cases versions) auto
  let ?w = "resolve_loop vc_Compare v vs"
  have "?w \<in> set versions" using vc.loop_member [of v vs] v by simp
  moreover have "vc_Compare (Clock ?w) (Clock y) \<noteq> Before \<and> Timestamp y \<le> Timestamp ?w"
    if "y \<in> set versions" for y
    using vc.loop_undominated [of v vs y] vc.loop_max_stamp [of "set versions" v vs y] assms(2) that v by simp
  ultimately show ?thesis using v by (auto simp: LWW_Resolve_def)
qed

definition ver :: "vclock \<Rightarrow> int \<Rightarrow> version" where
  "ver c t = \<lparr>NodeAddr = ''n'', Clock = c, Timestamp = t\<rparr>"

theorem Resolve_causally_maximal_witness:
  "\<exists>w. LWW_Resolve [ver [(''a'', 1)] 10, ver [(''b'', 1)] 20, ver [(''a'', 2)] 15] = Some w \<and>
       w \<in> set [ver [(''a'', 1)] 10, ver [(''b'', 1)] 20, ver [(''a'', 2)] 15] \<and>
       (\<forall>y \<in> set [ver [(''a'', 1)] 10, ver [(''b'', 1)] 20, ver [(''a'', 2)] 15].
          vc_Compare (Clock w) (Clock y) \<noteq> Before \<and> Timestamp y \<le> Timestamp w)"
proof -
  have "causal_stamps vc_Compare (set [ver [(''a'', 1)] 10, ver [(''b'', 1)] 20, ver [(''a'', 2)] 15])"
    by code_simp
  then show ?thesis by (intro Resolve_causally_maximal) simp_all
qed

text \<open>Without that, rule 1 of the resolver (a causally later version always wins) fails: the
  pairwise scan is not transitive across a concurrent version, and an outdated version with a
  fast wall clock wins over the version that overwrote it.\<close>

lemma Resolve_loses_causally_later_version:
  "\<exists>old concurrent new.
     vc_Compare (Clock old) (Clock new) = Before \<and>
     LWW_Resolve [old, new] = Some new \<and>
     LWW_Resolve [new, old] = Some new \<and>
     LWW_Resolve [new, concurrent, old] = Some old"
proof -
  let ?old = "ver [(''a'', 1)] 10" and ?c = "ver [(''b'', 1)] 5" and ?new = "ver [(''a'', 2)] 1"
  have "vc_Compare (Clock ?old) (Clock ?new) = Before" by code_simp
  moreover have "LWW_Resolve [?old, ?new] = Some ?new" by code_simp
  moreover have "LWW_Resolve [?new, ?old] = Some ?new" by code_simp
  moreover have "LWW_Resolve [?new, ?c, ?old] = Some ?old" by code_simp
  ultimately show ?thesis by blast
qed

text \<open>Among causally comparable candidates the winner dominates all of them, whatever their
  timestamps and their order in the slice.\<close>

theorem Resolve_chain_takes_newest:
  assumes "versions \<noteq> []"
    and "\<forall>x \<in> set versions. \<forall>y \<in> set versions. vc_Compare (Clock x) (Clock y) \<noteq> Concurrent"
  shows "\<exists>w. LWW_Resolve versions = Some w \<and> w \<in> set versions \<and>
           (\<forall>y \<in> set versions. vc_Compare (Clock w) (Clock y) \<in> {After, Equal})"
proof -
  obtain v vs where v: "versions = v # vs" using assms(1) by (cases versions) auto
  let ?w = "resolve_loop vc_Compare v vs"
  have "?w \<in> set versions" using vc.loop_member [of v vs] v by simp
  moreover have "vc_Compare (Clock ?w) (Clock y) \<in> {After, Equal}" if "y \<in> set versions" for y
    using vc.loop_chain [of v vs y] assms(2) that v by (simp add: vc.dominates_def)
  ultimately show ?thesis using v by (auto simp: LWW_Resolve_def)
qed

theorem Resolve_chain_takes_newest_witness:
  "\<exists>w. LWW_Resolve [ver [(''a'', 2)] 1, ver [(''a'', 1)] 10] = Some w \<and>
       w \<in> set [ver [(''a'', 2)] 1, ver [(''a'', 1)] 10] \<and>
       (\<forall>y \<in> set [ver [(''a'', 2)] 1, ver [(''a'', 1)] 10]. vc_Compare (Clock w) (Clock y) \<in> {After, Equal})"
proof -
  have "\<forall>x \<in> set [ver [(''a'', 2)] 1, ver [(''a'', 1)] 10].
        \<forall>y \<in> set [ver [(''a'', 2)] 1, ver [(''a'', 1)] 10]. vc_Compare (Clock x) (Clock y) \<noteq> Concurrent"
    by code_simp
  then show ?thesis by (intro Resolve_chain_takes_newest) simp_all
qed

end
