(* ===== verification/Quorum.thy ===== *)
theory Quorum
  imports Conflict
begin

text \<open>
  Quorum reads and writes, \<open>Cluster/quorum/quorum.go\<close>. A write in progress is a \<open>write_op\<close> with
  the buffered channel its acknowledgements go through; \<open>writeAcks\<close> maps a key to the channel that
  receives the acknowledgements for it. The coordinator reacts to events: the start of a write, the
  result of its own goroutines (the local write, or a failed send), an acknowledgement from the
  network, the next turn of the waiting loop, and the timer. Every order of events is a list, so
  the theorems cover every interleaving. \<open>wseen\<close> is a history of what entered the channel.
\<close>

record quorum_config =
  cfg_N :: int
  cfg_W :: int
  cfg_R :: int
  cfg_Timeout :: int

definition quorum_DefaultConfig :: quorum_config where
  "quorum_DefaultConfig = \<lparr>cfg_N = 3, cfg_W = 2, cfg_R = 2, cfg_Timeout = 5 * 10 ^ 9\<rparr>"

record write_ack =
  ANode :: string
  AKey :: string
  ASuccess :: bool

record read_response =
  RNode :: string
  RKey :: string
  RFound :: bool
  RClock :: vclock
  RTimestamp :: int

datatype write_status = Waiting | Returned | TimedOut

record write_op =
  wkey :: string
  wcap :: nat
  wqueue :: "write_ack list"
  wacks :: int
  wstatus :: write_status
  wseen :: "write_ack list"

record coordinator =
  qcfg :: quorum_config
  qself :: string
  writeAcks :: "(string, nat) gomap"
  wops :: "(nat, write_op) gomap"

definition quorum_New :: "quorum_config \<Rightarrow> string \<Rightarrow> coordinator" where
  "quorum_New cfg self = \<lparr>qcfg = cfg, qself = self, writeAcks = [], wops = []\<rparr>"

text \<open>What \<open>Write\<close> does before it waits: the addresses a message is sent to, and whether the local
  write is started, follow the same order of targets.\<close>

definition write_targets :: "string \<Rightarrow> string list \<Rightarrow> string list" where
  "write_targets self targets = filter (\<lambda>addr. addr \<noteq> self) targets"

definition write_start :: "nat \<Rightarrow> string \<Rightarrow> string list \<Rightarrow> coordinator \<Rightarrow> coordinator" where
  "write_start i key targets c =
     c\<lparr>writeAcks := AList.update key i (writeAcks c),
       wops := AList.update i \<lparr>wkey = key, wcap = length targets + 1, wqueue = [], wacks = 0,
                              wstatus = Waiting, wseen = []\<rparr> (wops c)\<rparr>"

text \<open>A send on the buffered channel of operation \<open>i\<close>; when the buffer is full the value is not
  enqueued (the \<open>default\<close> branch of \<open>HandleWriteAck\<close>, or a goroutine that stays blocked).\<close>

definition channel_send :: "nat \<Rightarrow> write_ack \<Rightarrow> coordinator \<Rightarrow> coordinator" where
  "channel_send i ack c =
     (case map_of (wops c) i of
        None \<Rightarrow> c
      | Some op \<Rightarrow>
          if length (wqueue op) < wcap op
          then c\<lparr>wops := AList.update i (op\<lparr>wqueue := wqueue op @ [ack], wseen := wseen op @ [ack]\<rparr>) (wops c)\<rparr>
          else c)"

definition HandleWriteAck :: "write_ack \<Rightarrow> coordinator \<Rightarrow> coordinator" where
  "HandleWriteAck ack c =
     (case map_of (writeAcks c) (AKey ack) of None \<Rightarrow> c | Some i \<Rightarrow> channel_send i ack c)"

text \<open>The goroutine of a target: the local write, or a send that failed.\<close>

definition write_goroutine :: "nat \<Rightarrow> string \<Rightarrow> bool \<Rightarrow> coordinator \<Rightarrow> coordinator" where
  "write_goroutine i addr success c =
     (case map_of (wops c) i of
        None \<Rightarrow> c
      | Some op \<Rightarrow>
          if addr = qself c \<or> \<not> success
          then channel_send i \<lparr>ANode = addr, AKey = wkey op, ASuccess = success\<rparr> c else c)"

text \<open>Returning runs the deferred \<open>writeAcks.Delete(key)\<close>.\<close>

definition write_return :: "nat \<Rightarrow> write_op \<Rightarrow> write_status \<Rightarrow> coordinator \<Rightarrow> coordinator" where
  "write_return i op st c =
     c\<lparr>writeAcks := AList.delete (wkey op) (writeAcks c),
       wops := AList.update i (op\<lparr>wstatus := st\<rparr>) (wops c)\<rparr>"

definition write_recv :: "nat \<Rightarrow> coordinator \<Rightarrow> coordinator" where
  "write_recv i c =
     (case map_of (wops c) i of
        None \<Rightarrow> c
      | Some op \<Rightarrow>
          (case (wstatus op, wqueue op) of
             (Waiting, ack # q) \<Rightarrow>
               (if ASuccess ack then
                  (let op' = op\<lparr>wqueue := q, wacks := wacks op + 1\<rparr>
                   in if wacks op' \<ge> cfg_W (qcfg c) then write_return i op' Returned c
                      else c\<lparr>wops := AList.update i op' (wops c)\<rparr>)
                else c\<lparr>wops := AList.update i (op\<lparr>wqueue := q\<rparr>) (wops c)\<rparr>)
           | _ \<Rightarrow> c))"

definition write_timer :: "nat \<Rightarrow> coordinator \<Rightarrow> coordinator" where
  "write_timer i c =
     (case map_of (wops c) i of
        None \<Rightarrow> c
      | Some op \<Rightarrow> if wstatus op = Waiting then write_return i op TimedOut c else c)"

datatype quorum_event =
    EvWrite nat string "string list"
  | EvGoroutine nat string bool
  | EvAck write_ack
  | EvRecv nat
  | EvTimer nat

text \<open>A new write uses a channel identity that is not in use.\<close>

fun quorum_step :: "quorum_event \<Rightarrow> coordinator \<Rightarrow> coordinator" where
  "quorum_step (EvWrite i key targets) c =
     (if map_of (wops c) i = None then write_start i key targets c else c)"
| "quorum_step (EvGoroutine i addr success) c = write_goroutine i addr success c"
| "quorum_step (EvAck ack) c = HandleWriteAck ack c"
| "quorum_step (EvRecv i) c = write_recv i c"
| "quorum_step (EvTimer i) c = write_timer i c"

definition quorum_run :: "quorum_event list \<Rightarrow> coordinator \<Rightarrow> coordinator" where
  "quorum_run evs c = fold quorum_step evs c"

section \<open>Reads\<close>

datatype read_event = EvResp read_response | EvReadTimer

datatype read_result = ReadWaiting | ReadError | ReadPanic | ReadClock vclock

definition resolveRead :: "read_response list \<Rightarrow> read_result" where
  "resolveRead responses =
     (case LWW_Resolve (map (\<lambda>r. \<lparr>NodeAddr = RNode r, Clock = RClock r, Timestamp = RTimestamp r\<rparr>) responses) of
        None \<Rightarrow> ReadPanic
      | Some winner \<Rightarrow> ReadClock (Clock winner))"

text \<open>The waiting loop of \<open>Read\<close> with the responses so far and the events still to come.\<close>

fun read_loop :: "int \<Rightarrow> read_response list \<Rightarrow> read_event list \<Rightarrow> read_result" where
  "read_loop R responses [] = ReadWaiting"
| "read_loop R responses (EvResp resp # evs) =
     (let responses = (if RFound resp then responses @ [resp] else responses)
      in if int (length responses) \<ge> R then resolveRead responses else read_loop R responses evs)"
| "read_loop R responses (EvReadTimer # evs) =
     (if responses = [] then ReadError else resolveRead responses)"

definition quorum_Read :: "quorum_config \<Rightarrow> read_event list \<Rightarrow> read_result" where
  "quorum_Read cfg evs = read_loop (cfg_R cfg) [] evs"

section \<open>The invariant of a write\<close>

definition successes :: "write_ack list \<Rightarrow> int" where
  "successes acks = int (length (filter ASuccess acks))"

lemma successes_simps [simp]:
  "successes [] = 0" "successes (a # as) = (if ASuccess a then 1 else 0) + successes as"
  "successes (as @ bs) = successes as + successes bs"
  by (auto simp: successes_def)

text \<open>What was counted and what still waits in the channel is what entered it; the operation has
  returned exactly when it counted a quorum.\<close>

definition op_ok :: "int \<Rightarrow> write_op \<Rightarrow> bool" where
  "op_ok W op \<longleftrightarrow> wacks op + successes (wqueue op) = successes (wseen op) \<and> 0 \<le> wacks op \<and>
     (\<forall>a \<in> set (wseen op). AKey a = wkey op) \<and>
     (wstatus op = Returned \<longrightarrow> W \<le> wacks op \<and> 1 \<le> wacks op) \<and>
     (wstatus op = Waiting \<and> 1 \<le> wacks op \<longrightarrow> wacks op < W)"

definition coord_ok :: "coordinator \<Rightarrow> bool" where
  "coord_ok c \<longleftrightarrow> (\<forall>i op. map_of (wops c) i = Some op \<longrightarrow> op_ok (cfg_W (qcfg c)) op) \<and>
     (\<forall>k i. map_of (writeAcks c) k = Some i \<longrightarrow> (\<exists>op. map_of (wops c) i = Some op \<and> wkey op = k))"

lemma coord_ok_set:
  assumes "coord_ok c" and "map_of (wops c) i = Some old" and "wkey op = wkey old" and "op_ok (cfg_W (qcfg c)) op"
  shows "coord_ok (c\<lparr>wops := AList.update i op (wops c)\<rparr>)"
  using assms unfolding coord_ok_def by (auto split: if_splits) (metis option.inject)

lemma coord_ok_unregister: "coord_ok c \<Longrightarrow> coord_ok (c\<lparr>writeAcks := AList.delete k (writeAcks c)\<rparr>)"
  unfolding coord_ok_def by (auto split: if_splits)

lemma coord_ok_op: "coord_ok c \<Longrightarrow> map_of (wops c) i = Some op \<Longrightarrow> op_ok (cfg_W (qcfg c)) op"
  unfolding coord_ok_def by blast

lemma coord_ok_send:
  assumes "coord_ok c" and "map_of (wops c) i = Some op" and "AKey ack = wkey op"
  shows "coord_ok (channel_send i ack c)"
proof -
  let ?op = "op\<lparr>wqueue := wqueue op @ [ack], wseen := wseen op @ [ack]\<rparr>"
  have "op_ok (cfg_W (qcfg c)) ?op" using coord_ok_op [OF assms(1,2)] assms(3) by (auto simp: op_ok_def)
  then have "coord_ok (c\<lparr>wops := AList.update i ?op (wops c)\<rparr>)" by (intro coord_ok_set [OF assms(1,2)]) simp
  then show ?thesis using assms(1,2) by (simp add: channel_send_def)
qed

lemma coord_ok_return:
  assumes "coord_ok c" and "map_of (wops c) i = Some old" and "wkey op = wkey old"
    and "op_ok (cfg_W (qcfg c)) (op\<lparr>wstatus := st\<rparr>)"
  shows "coord_ok (write_return i op st c)"
proof -
  let ?c = "c\<lparr>writeAcks := AList.delete (wkey op) (writeAcks c)\<rparr>"
  have "coord_ok (?c\<lparr>wops := AList.update i (op\<lparr>wstatus := st\<rparr>) (wops ?c)\<rparr>)"
    by (rule coord_ok_set [OF coord_ok_unregister [OF assms(1)], where i = i and old = old])
       (use assms(2-4) in simp_all)
  then show ?thesis by (simp add: write_return_def)
qed

lemma coord_ok_recv: "coord_ok c \<Longrightarrow> coord_ok (write_recv i c)"
proof (cases "map_of (wops c) i")
  case (Some op)
  assume ok: "coord_ok c"
  have op: "op_ok (cfg_W (qcfg c)) op" by (rule coord_ok_op [OF ok Some])
  show ?thesis
  proof (cases "wstatus op = Waiting \<and> wqueue op \<noteq> []")
    case True
    then obtain ack q where q: "wqueue op = ack # q" "wstatus op = Waiting" by (cases "wqueue op") auto
    let ?a = "op\<lparr>wqueue := q, wacks := wacks op + 1\<rparr>" and ?b = "op\<lparr>wqueue := q\<rparr>"
    have b: "coord_ok (c\<lparr>wops := AList.update i ?b (wops c)\<rparr>)" if "\<not> ASuccess ack"
      by (rule coord_ok_set [OF ok Some]) (use op q that in \<open>auto simp: op_ok_def\<close>)
    have r: "coord_ok (write_return i ?a Returned c)" if "ASuccess ack" "cfg_W (qcfg c) \<le> wacks op + 1"
      by (rule coord_ok_return [OF ok Some]) (use op q that in \<open>auto simp: op_ok_def\<close>)
    have a: "coord_ok (c\<lparr>wops := AList.update i ?a (wops c)\<rparr>)" if "ASuccess ack" "\<not> cfg_W (qcfg c) \<le> wacks op + 1"
      by (rule coord_ok_set [OF ok Some]) (use op q that in \<open>auto simp: op_ok_def\<close>)
    show ?thesis using q Some a b r by (simp add: write_recv_def Let_def)
  next
    case False
    then have "write_recv i c = c"
      using Some by (auto simp: write_recv_def split: write_status.split list.split)
    then show ?thesis using ok by simp
  qed
qed (simp add: write_recv_def)

lemma coord_ok_timer: "coord_ok c \<Longrightarrow> coord_ok (write_timer i c)"
proof (cases "map_of (wops c) i")
  case (Some op)
  assume ok: "coord_ok c"
  have "coord_ok (write_return i op TimedOut c)"
    by (rule coord_ok_return [OF ok Some]) (use coord_ok_op [OF ok Some] in \<open>auto simp: op_ok_def\<close>)
  then show ?thesis using ok Some by (simp add: write_timer_def)
qed (simp add: write_timer_def)

lemma coord_ok_start:
  assumes "coord_ok c" and "map_of (wops c) i = None"
  shows "coord_ok (write_start i key targets c)"
  using assms unfolding coord_ok_def write_start_def
  by (auto simp: op_ok_def split: if_splits) (metis option.distinct(1))

lemma coord_ok_step: "coord_ok c \<Longrightarrow> coord_ok (quorum_step ev c)"
proof (induction ev c rule: quorum_step.induct)
  case (3 ack c)
  show ?case
  proof (cases "map_of (writeAcks c) (AKey ack)")
    case (Some i)
    then obtain op where "map_of (wops c) i = Some op" "wkey op = AKey ack"
      using 3 unfolding coord_ok_def by blast
    then show ?thesis using 3 Some coord_ok_send by (simp add: HandleWriteAck_def)
  qed (use 3 in \<open>simp add: HandleWriteAck_def\<close>)
qed (auto simp: coord_ok_start write_goroutine_def coord_ok_send coord_ok_recv coord_ok_timer split: option.split)

lemma coord_ok_run: "coord_ok c \<Longrightarrow> coord_ok (quorum_run evs c)"
  unfolding quorum_run_def
  by (rule fold_invariant [where Q = "\<lambda>_. True"]) (simp_all add: coord_ok_step)

lemma qcfg_step [simp]: "qcfg (quorum_step ev c) = qcfg c"
  by (induction ev c rule: quorum_step.induct)
     (auto simp: write_start_def write_goroutine_def channel_send_def HandleWriteAck_def write_recv_def
        write_return_def write_timer_def Let_def split: option.split write_status.split list.split)

lemma qcfg_run [simp]: "qcfg (quorum_run evs c) = qcfg c"
  unfolding quorum_run_def by (induction evs arbitrary: c) simp_all

section \<open>A quorum that has arrived is found\<close>

text \<open>Receiving once when the operation waits and its channel is not empty.\<close>

lemma recv_drains:
  assumes "coord_ok c" and "map_of (wops c) i = Some op" and "wstatus op = Waiting"
    and "max 1 (cfg_W (qcfg c)) \<le> successes (wseen op)"
  shows "\<exists>op'. map_of (wops (quorum_run (replicate (length (wqueue op)) (EvRecv i)) c)) i = Some op' \<and>
               wstatus op' = Returned"
  using assms
proof (induction "length (wqueue op)" arbitrary: c op)
  case 0
  then show ?case using coord_ok_op [OF 0(2,3)] by (auto simp: op_ok_def)
next
  case (Suc n)
  then obtain ack q where q: "wqueue op = ack # q" by (cases "wqueue op") auto
  have stay: "map_of (wops (quorum_run (replicate m (EvRecv i)) c')) i = Some op' "
    if "map_of (wops c') i = Some op'" "wstatus op' = Returned" for m c' op'
  proof -
    have "write_recv i c' = c'" using that by (simp add: write_recv_def)
    then have "quorum_run (replicate m (EvRecv i)) c' = c'" by (induction m) (simp_all add: quorum_run_def)
    then show ?thesis using that by simp
  qed
  let ?c = "write_recv i c"
  have run: "quorum_run (replicate (length (wqueue op)) (EvRecv i)) c
      = quorum_run (replicate (length q) (EvRecv i)) ?c" by (simp add: q quorum_run_def)
  have ok: "coord_ok ?c" by (rule coord_ok_recv [OF Suc.prems(1)])
  have cfg: "qcfg ?c = qcfg c" using qcfg_step [of "EvRecv i" c] by simp
  consider (finished) op' where "map_of (wops ?c) i = Some op'" "wstatus op' = Returned"
    | (more) op' where "map_of (wops ?c) i = Some op'" "wstatus op' = Waiting" "wqueue op' = q" "wseen op' = wseen op"
    using Suc.prems(2,3) q
    by (cases "ASuccess ack"; cases "cfg_W (qcfg c) \<le> wacks op + 1")
       (auto simp: write_recv_def write_return_def Let_def)
  then show ?case
  proof cases
    case finished
    then show ?thesis unfolding run using stay by blast
  next
    case more
    have "n = length (wqueue op')" using Suc.hyps(2) q more(3) by simp
    from Suc.hyps(1) [OF this ok more(1,2)] show ?thesis unfolding run
      using Suc.prems(4) more(3,4) cfg by simp
  qed
qed

section \<open>Reads resolve to a causally maximal answer\<close>

lemma resolveRead_maximal:
  assumes "responses \<noteq> []"
    and "causal_stamps vc_Compare
           (set (map (\<lambda>r. \<lparr>NodeAddr = RNode r, Clock = RClock r, Timestamp = RTimestamp r\<rparr>) responses))"
  shows "\<exists>w \<in> set responses. resolveRead responses = ReadClock (RClock w) \<and>
           (\<forall>r \<in> set responses. vc_Compare (RClock w) (RClock r) \<noteq> Before)"
proof -
  let ?f = "\<lambda>r. \<lparr>NodeAddr = RNode r, Clock = RClock r, Timestamp = RTimestamp r\<rparr>"
  obtain r rs where r: "responses = r # rs" using assms(1) by (cases responses) auto
  let ?w = "resolve_loop vc_Compare (?f r) (map ?f rs)"
  have cs: "causal_stamps vc_Compare (insert (?f r) (set (map ?f rs)))" using assms(2) r by simp
  have "?w \<in> ?f ` set responses" using vc.loop_member [of "?f r" "map ?f rs"] r by auto
  then obtain w where w: "w \<in> set responses" "?w = ?f w" by blast
  have "vc_Compare (RClock w) (RClock x) \<noteq> Before" if "x \<in> set responses" for x
    using vc.loop_undominated [OF cs, of "?f x"] that r w by auto
  moreover have "resolveRead responses = ReadClock (RClock w)"
    using w by (simp add: resolveRead_def LWW_Resolve_def r)
  ultimately show ?thesis using w(1) by blast
qed

text \<open>The responses the loop ends with: the ones that were found, up to the first that completes the
  read quorum or to the timer.\<close>

fun read_taken :: "int \<Rightarrow> read_response list \<Rightarrow> read_event list \<Rightarrow> read_response list option" where
  "read_taken R responses [] = None"
| "read_taken R responses (EvResp resp # evs) =
     (let responses = (if RFound resp then responses @ [resp] else responses)
      in if int (length responses) \<ge> R then Some responses else read_taken R responses evs)"
| "read_taken R responses (EvReadTimer # evs) = Some responses"

lemma read_loop_taken:
  "0 < R \<Longrightarrow> read_loop R rs evs = (case read_taken R rs evs of None \<Rightarrow> ReadWaiting
     | Some taken \<Rightarrow> if taken = [] then ReadError else resolveRead taken)"
  by (induction R rs evs rule: read_taken.induct) (auto simp: Let_def)

lemma read_taken_quorum:
  "read_taken R rs evs = Some taken \<Longrightarrow> EvReadTimer \<notin> set evs \<Longrightarrow> R \<le> int (length taken)"
  by (induction R rs evs rule: read_taken.induct) (auto simp: Let_def split: if_splits)

lemma read_taken_found:
  "read_taken R rs evs = Some taken \<Longrightarrow>
   set taken \<subseteq> set rs \<union> {r. EvResp r \<in> set evs \<and> RFound r}"
proof (induction R rs evs rule: read_taken.induct)
  case (2 R rs resp evs)
  let ?rs = "if RFound resp then rs @ [resp] else rs"
  have "set ?rs \<subseteq> set rs \<union> {r. EvResp r \<in> set (EvResp resp # evs) \<and> RFound r}" by auto
  then show ?case using "2.IH" [OF refl] "2.prems"
    by (cases "int (length ?rs) \<ge> R") (auto simp: Let_def split: if_splits)
qed auto

section \<open>Properties\<close>

lemma coord_ok_New: "coord_ok (quorum_New cfg self)"
  by (simp add: coord_ok_def quorum_New_def)

lemma qcfg_New [simp]: "qcfg (quorum_New cfg self) = cfg"
  by (simp add: quorum_New_def)

text \<open>C10. In every interleaving of writes, acknowledgements and timers, a write that has returned without
  error received at least \<open>W\<close> (and at least one) successful acknowledgements for its key; and a
  write that still waits and whose channel has received that many returns once the loop has
  taken what is in the channel.\<close>

theorem write_returns_on_quorum:
  assumes "map_of (wops (quorum_run evs (quorum_New cfg self))) i = Some op"
  shows "(wstatus op = Returned \<longrightarrow>
            max 1 (cfg_W cfg) \<le> successes (wseen op) \<and> (\<forall>a \<in> set (wseen op). AKey a = wkey op)) \<and>
         (wstatus op = Waiting \<and> max 1 (cfg_W cfg) \<le> successes (wseen op) \<longrightarrow>
            (\<exists>op'. map_of (wops (quorum_run (evs @ replicate (length (wqueue op)) (EvRecv i))
                                   (quorum_New cfg self))) i = Some op' \<and> wstatus op' = Returned))"
proof -
  let ?c = "quorum_run evs (quorum_New cfg self)"
  have ok: "coord_ok ?c" by (rule coord_ok_run [OF coord_ok_New])
  have o: "op_ok (cfg_W cfg) op" using coord_ok_op [OF ok assms] by simp
  have nn: "0 \<le> successes (wqueue op)" by (simp add: successes_def)
  have app: "quorum_run (evs @ fs) (quorum_New cfg self) = quorum_run fs ?c" for fs
    by (simp add: quorum_run_def)
  show ?thesis unfolding app using o nn recv_drains [OF ok assms] by (auto simp: op_ok_def)
qed

definition demo_quorum :: "quorum_event list" where
  "demo_quorum = [EvWrite 1 ''k'' [''a'', ''b'', ''c''], EvGoroutine 1 ''a'' True,
     EvAck \<lparr>ANode = ''b'', AKey = ''k'', ASuccess = True\<rparr>, EvRecv 1, EvRecv 1]"

lemma demo_quorum_op:
  "\<exists>op. map_of (wops (quorum_run demo_quorum (quorum_New quorum_DefaultConfig ''a''))) 1 = Some op \<and>
     wstatus op = Returned \<and> length (wseen op) = 2"
  by (simp add: demo_quorum_def quorum_run_def quorum_New_def quorum_DefaultConfig_def write_start_def
      write_goroutine_def channel_send_def HandleWriteAck_def write_recv_def write_return_def Let_def)

theorem write_returns_on_quorum_witness:
  "\<exists>op. map_of (wops (quorum_run demo_quorum (quorum_New quorum_DefaultConfig ''a''))) 1 = Some op \<and>
     2 \<le> successes (wseen op)"
proof -
  obtain op where op: "map_of (wops (quorum_run demo_quorum (quorum_New quorum_DefaultConfig ''a''))) 1 = Some op"
      "wstatus op = Returned"
    using demo_quorum_op by blast
  from write_returns_on_quorum [OF op(1)] op show ?thesis by (simp add: quorum_DefaultConfig_def)
qed

text \<open>Two writes of one key at a time disturb each other: once the first of them ends, the
  acknowledgements of the second are no longer routed to it, so a second write that has not
  reached its quorum by then can only succeed through its own local write.\<close>

lemma concurrent_write_loses_acks:
  assumes "map_of (wops c) i = Some op" and "wstatus op = Waiting" and "AKey ack = wkey op"
  shows "HandleWriteAck ack (write_timer i c) = write_timer i c"
  using assms by (simp add: write_timer_def write_return_def HandleWriteAck_def)

theorem concurrent_write_loses_acks_witness:
  "let c = quorum_run [EvWrite 1 ''k'' [''a''], EvWrite 2 ''k'' [''a'', ''b'']] (quorum_New quorum_DefaultConfig ''s'')
   in HandleWriteAck \<lparr>ANode = ''b'', AKey = ''k'', ASuccess = True\<rparr> (write_timer 1 c) = write_timer 1 c \<and>
      (\<exists>op. map_of (wops (write_timer 1 c)) 2 = Some op \<and> wstatus op = Waiting)"
proof -
  let ?c = "quorum_run [EvWrite 1 ''k'' [''a''], EvWrite 2 ''k'' [''a'', ''b'']] (quorum_New quorum_DefaultConfig ''s'')"
  let ?op = "\<lparr>wkey = ''k'', wcap = 2, wqueue = [], wacks = 0, wstatus = Waiting, wseen = []\<rparr>"
  have op: "map_of (wops ?c) 1 = Some ?op"
    by (simp add: quorum_run_def quorum_New_def write_start_def)
  have "\<exists>op. map_of (wops (write_timer 1 ?c)) 2 = Some op \<and> wstatus op = Waiting"
    by (simp add: quorum_run_def quorum_New_def write_start_def write_timer_def write_return_def)
  then show ?thesis
    using concurrent_write_loses_acks [OF op, of "\<lparr>ANode = ''b'', AKey = ''k'', ASuccess = True\<rparr>"]
    by (simp add: Let_def)
qed

text \<open>A read with a positive quorum never panics, and the clock it returns is that of a response
  that was found; when no timer fired it is the outcome of at least \<open>R\<close> such responses, and if
  timestamps respect causality none of them is causally after it.\<close>

lemma read_returns_maximal:
  assumes "0 < cfg_R cfg"
    and "causal_stamps vc_Compare {\<lparr>NodeAddr = RNode r, Clock = RClock r, Timestamp = RTimestamp r\<rparr> | r.
           EvResp r \<in> set evs \<and> RFound r}"
  shows "quorum_Read cfg evs \<in> {ReadWaiting, ReadError} \<or>
    (\<exists>rs. \<exists>w \<in> set rs. quorum_Read cfg evs = ReadClock (RClock w) \<and>
       (\<forall>r \<in> set rs. EvResp r \<in> set evs \<and> RFound r \<and> vc_Compare (RClock w) (RClock r) \<noteq> Before) \<and>
       (EvReadTimer \<notin> set evs \<longrightarrow> cfg_R cfg \<le> int (length rs)))"
proof (cases "read_taken (cfg_R cfg) [] evs")
  case None
  then show ?thesis by (simp add: quorum_Read_def read_loop_taken [OF assms(1)])
next
  case (Some rs)
  let ?f = "\<lambda>r. \<lparr>NodeAddr = RNode r, Clock = RClock r, Timestamp = RTimestamp r\<rparr>"
  show ?thesis
  proof (cases "rs = []")
    case True
    then show ?thesis using Some by (simp add: quorum_Read_def read_loop_taken [OF assms(1)])
  next
    case False
    have found: "\<And>r. r \<in> set rs \<Longrightarrow> EvResp r \<in> set evs \<and> RFound r" using read_taken_found [OF Some] by auto
    have "set (map ?f rs) \<subseteq> {?f r | r. EvResp r \<in> set evs \<and> RFound r}" using found by auto
    then have "causal_stamps vc_Compare (set (map ?f rs))"
      using assms(2) unfolding causal_stamps_def by blast
    from resolveRead_maximal [OF False this] obtain w where w: "w \<in> set rs"
        "resolveRead rs = ReadClock (RClock w)" "\<forall>r \<in> set rs. vc_Compare (RClock w) (RClock r) \<noteq> Before"
      by blast
    have "quorum_Read cfg evs = ReadClock (RClock w)"
      using Some False w(2) by (simp add: quorum_Read_def read_loop_taken [OF assms(1)])
    then show ?thesis using w found read_taken_quorum [OF Some] by blast
  qed
qed

definition demo_resp :: "string \<Rightarrow> vclock \<Rightarrow> int \<Rightarrow> read_response" where
  "demo_resp n clk t = \<lparr>RNode = n, RKey = ''k'', RFound = True, RClock = clk, RTimestamp = t\<rparr>"

theorem read_returns_maximal_witness:
  "quorum_Read quorum_DefaultConfig
     [EvResp (demo_resp ''a'' [(''a'', 1)] 10), EvResp (demo_resp ''b'' [(''a'', 2)] 20)] \<noteq> ReadPanic"
proof -
  let ?evs = "[EvResp (demo_resp ''a'' [(''a'', 1)] 10), EvResp (demo_resp ''b'' [(''a'', 2)] 20)]"
  have r: "0 < cfg_R quorum_DefaultConfig" by (simp add: quorum_DefaultConfig_def)
  have "{\<lparr>NodeAddr = RNode r, Clock = RClock r, Timestamp = RTimestamp r\<rparr> | r. EvResp r \<in> set ?evs \<and> RFound r}
      \<subseteq> set [\<lparr>NodeAddr = ''a'', Clock = [(''a'', 1)], Timestamp = 10\<rparr>,
             \<lparr>NodeAddr = ''b'', Clock = [(''a'', 2)], Timestamp = 20\<rparr>]"
    by (auto simp: demo_resp_def)
  moreover have "causal_stamps vc_Compare (set [\<lparr>NodeAddr = ''a'', Clock = [(''a'', 1)], Timestamp = 10\<rparr>,
             \<lparr>NodeAddr = ''b'', Clock = [(''a'', 2)], Timestamp = 20\<rparr>])"
    by code_simp
  ultimately have "causal_stamps vc_Compare
      {\<lparr>NodeAddr = RNode r, Clock = RClock r, Timestamp = RTimestamp r\<rparr> | r. EvResp r \<in> set ?evs \<and> RFound r}"
    unfolding causal_stamps_def by blast
  from read_returns_maximal [OF r this] show ?thesis by auto
qed

text \<open>Acknowledgements are counted, not replicas: two from one node make a quorum of two.\<close>

lemma duplicate_acks_reach_quorum:
  "\<exists>op. map_of (wops (quorum_run
      [EvWrite 1 ''k'' [''a'', ''b'', ''c''], EvAck \<lparr>ANode = ''b'', AKey = ''k'', ASuccess = True\<rparr>,
       EvAck \<lparr>ANode = ''b'', AKey = ''k'', ASuccess = True\<rparr>, EvRecv 1, EvRecv 1]
      (quorum_New quorum_DefaultConfig ''s''))) 1 = Some op \<and> wstatus op = Returned \<and>
     (\<forall>a \<in> set (wseen op). ANode a = ''b'')"
  by (simp add: quorum_run_def quorum_New_def quorum_DefaultConfig_def write_start_def
      write_goroutine_def channel_send_def HandleWriteAck_def write_recv_def write_return_def Let_def)

end
