(* ===== verification/HashRing.thy ===== *)
theory HashRing
  imports Prelude
begin

text \<open>
  Consistent hashing, \<open>Cluster/hashring/hashring.go\<close>. The ring keeps the sorted positions, the
  owner of each position and the positions of each node; \<open>sha256\<close> is a parameter of the model,
  a function on byte strings. \<open>GetNodes\<close> panics (\<open>None\<close>) when a negative count reaches the
  allocation of the result. \<open>ring_ok\<close> is the representation invariant: it holds of every
  reachable ring as long as no two nodes hash to the same position (\<open>collision_free\<close>), and it
  gives the placement laws of the locale \<open>replica_placement\<close> that the rebalancer relies on.
\<close>

record hashring =
  sortedHashes :: "uint64 list"
  hashToNode :: "(uint64, string) gomap"
  nodeToHashes :: "(string, uint64 list) gomap"
  virtualNodes :: int
  replFactor :: int

record ring_config =
  VirtualNodes :: int
  ReplicationFactor :: int

definition DefaultVirtualNodes :: int where
  "DefaultVirtualNodes = 150"

definition DefaultReplicationFactor :: int where
  "DefaultReplicationFactor = 3"

definition ring_New :: "ring_config option \<Rightarrow> hashring" where
  "ring_New cfg =
     (let vn = (case cfg of None \<Rightarrow> DefaultVirtualNodes
                | Some c \<Rightarrow> if VirtualNodes c > 0 then VirtualNodes c else DefaultVirtualNodes);
          rf = (case cfg of None \<Rightarrow> DefaultReplicationFactor
                | Some c \<Rightarrow> if ReplicationFactor c > 0 then ReplicationFactor c
                            else DefaultReplicationFactor)
      in \<lparr>sortedHashes = [], hashToNode = [], nodeToHashes = [],
          virtualNodes = vn, replFactor = rf\<rparr>)"

definition hashKey :: "(byte list \<Rightarrow> byte list) \<Rightarrow> string \<Rightarrow> uint64" where
  "hashKey sha256 key = word_of_nat (be_nat (take 8 (sha256 (bytes_of key))))"

text \<open>\<open>fmt.Sprintf("%s:vnode:%d", addr, i)\<close>\<close>

definition vnode_key :: "string \<Rightarrow> nat \<Rightarrow> string" where
  "vnode_key addr i = addr @ '':vnode:'' @ itoa i"

text \<open>The loop of \<open>AddNode\<close>: the ring and the positions collected so far, then the remaining
  values of the loop counter.\<close>

fun add_vnodes ::
  "(byte list \<Rightarrow> byte list) \<Rightarrow> string \<Rightarrow> hashring \<Rightarrow> uint64 list \<Rightarrow> nat list \<Rightarrow> hashring \<times> uint64 list" where
  "add_vnodes sha256 addr hr hashes [] = (hr, hashes)"
| "add_vnodes sha256 addr hr hashes (i # is) =
     (let h = hashKey sha256 (vnode_key addr i)
      in add_vnodes sha256 addr
           (hr\<lparr>sortedHashes := sortedHashes hr @ [h],
               hashToNode := AList.update h addr (hashToNode hr)\<rparr>)
           (hashes @ [h]) is)"

definition ring_AddNode :: "(byte list \<Rightarrow> byte list) \<Rightarrow> string \<Rightarrow> hashring \<Rightarrow> hashring" where
  "ring_AddNode sha256 addr hr =
     (if map_of (nodeToHashes hr) addr \<noteq> None then hr
      else
        (let (hr1, hashes) = add_vnodes sha256 addr hr [] [0..<nat (virtualNodes hr)]
         in hr1\<lparr>nodeToHashes := AList.update addr hashes (nodeToHashes hr1),
                sortedHashes := sort (sortedHashes hr1)\<rparr>))"

fun delete_all :: "'k list \<Rightarrow> ('k, 'v) gomap \<Rightarrow> ('k, 'v) gomap" where
  "delete_all [] m = m"
| "delete_all (k # ks) m = delete_all ks (AList.delete k m)"

text \<open>The new slice is made with the capacity \<open>len(sortedHashes) - len(removeSet)\<close>; on a ring in the state \<open>ring_ok\<close> every
  removed position is in \<open>sortedHashes\<close>, so it is not negative and \<open>make\<close> does not panic.\<close>

definition ring_RemoveNode :: "string \<Rightarrow> hashring \<Rightarrow> hashring" where
  "ring_RemoveNode addr hr =
     (case map_of (nodeToHashes hr) addr of
        None \<Rightarrow> hr
      | Some hashes \<Rightarrow>
          hr\<lparr>hashToNode := delete_all hashes (hashToNode hr),
             nodeToHashes := AList.delete addr (nodeToHashes hr),
             sortedHashes := filter (\<lambda>h. h \<notin> set hashes) (sortedHashes hr)\<rparr>)"

definition ring_search :: "hashring \<Rightarrow> uint64 \<Rightarrow> nat" where
  "ring_search hr hash =
     (let idx = sort_search (length (sortedHashes hr)) (\<lambda>i. sortedHashes hr ! i \<ge> hash)
      in if idx \<ge> length (sortedHashes hr) then 0 else idx)"

text \<open>\<open>hr.hashToNode[h]\<close>, the empty string for a position without an owner.\<close>

definition owner :: "hashring \<Rightarrow> uint64 \<Rightarrow> string" where
  "owner hr h = go_get [] (hashToNode hr) h"

fun get_nodes_loop ::
  "hashring \<Rightarrow> nat \<Rightarrow> nat \<Rightarrow> nat list \<Rightarrow> string list \<Rightarrow> string list \<Rightarrow> string list" where
  "get_nodes_loop hr n startIdx [] seen nodes = nodes"
| "get_nodes_loop hr n startIdx (i # is) seen nodes =
     (if length nodes < n then
        (let idx = (startIdx + i) mod length (sortedHashes hr);
             addr = owner hr (sortedHashes hr ! idx)
         in if addr \<in> set seen then get_nodes_loop hr n startIdx is seen nodes
            else get_nodes_loop hr n startIdx is (addr # seen) (nodes @ [addr]))
      else nodes)"

definition ring_GetNodes :: "(byte list \<Rightarrow> byte list) \<Rightarrow> hashring \<Rightarrow> string \<Rightarrow> int \<Rightarrow> string list option" where
  "ring_GetNodes sha256 hr key n =
     (if sortedHashes hr = [] then Some []
      else
        (let totalPhysical = int (length (nodeToHashes hr));
             n' = (if n > totalPhysical then totalPhysical else n);
             startIdx = ring_search hr (hashKey sha256 key)
         in if n' < 0 then None
            else Some (get_nodes_loop hr (nat n') startIdx [0..<length (sortedHashes hr)] [] [])))"

text \<open>The result is the empty string when the ring is empty; \<open>GetNodes(key, 1)\<close> never panics.\<close>

definition ring_GetPrimaryNode :: "(byte list \<Rightarrow> byte list) \<Rightarrow> hashring \<Rightarrow> string \<Rightarrow> string option" where
  "ring_GetPrimaryNode sha256 hr key =
     (case ring_GetNodes sha256 hr key 1 of
        None \<Rightarrow> None
      | Some [] \<Rightarrow> Some []
      | Some (node # _) \<Rightarrow> Some node)"

definition ring_HasNode :: "hashring \<Rightarrow> string \<Rightarrow> bool" where
  "ring_HasNode hr addr \<longleftrightarrow> map_of (nodeToHashes hr) addr \<noteq> None"

definition ring_Members :: "hashring \<Rightarrow> string list" where
  "ring_Members hr = go_keys (nodeToHashes hr)"

definition ring_Size :: "hashring \<Rightarrow> nat" where
  "ring_Size hr = length (nodeToHashes hr)"

definition ring_ReplicationFactor :: "hashring \<Rightarrow> int" where
  "ring_ReplicationFactor hr = replFactor hr"

section \<open>The representation invariant\<close>

definition vnode_hashes :: "(byte list \<Rightarrow> byte list) \<Rightarrow> int \<Rightarrow> string \<Rightarrow> uint64 list" where
  "vnode_hashes sha256 vn addr = map (\<lambda>i. hashKey sha256 (vnode_key addr i)) [0..<nat vn]"

text \<open>No position belongs to two of the nodes \<open>A\<close>.\<close>

definition collision_free :: "(byte list \<Rightarrow> byte list) \<Rightarrow> int \<Rightarrow> string set \<Rightarrow> bool" where
  "collision_free sha256 vn A \<longleftrightarrow>
     (\<forall>a \<in> A. \<forall>b \<in> A. a \<noteq> b \<longrightarrow>
        set (vnode_hashes sha256 vn a) \<inter> set (vnode_hashes sha256 vn b) = {})"

definition ring_ok :: "(byte list \<Rightarrow> byte list) \<Rightarrow> hashring \<Rightarrow> bool" where
  "ring_ok sha256 hr \<longleftrightarrow>
     sorted (sortedHashes hr) \<and> go_wf (nodeToHashes hr) \<and> 0 < virtualNodes hr \<and>
     (\<forall>(a, hs) \<in> set (nodeToHashes hr). hs = vnode_hashes sha256 (virtualNodes hr) a) \<and>
     set (sortedHashes hr) = (\<Union>(a, hs) \<in> set (nodeToHashes hr). set hs) \<and>
     (\<forall>(a, hs) \<in> set (nodeToHashes hr). \<forall>h \<in> set hs. map_of (hashToNode hr) h = Some a)"

lemma ring_okD:
  assumes "ring_ok sha256 hr"
  shows "sorted (sortedHashes hr)" and "go_wf (nodeToHashes hr)" and "0 < virtualNodes hr"
  using assms by (simp_all add: ring_ok_def)

lemma ring_ok_entry:
  assumes "ring_ok sha256 hr" and "map_of (nodeToHashes hr) a = Some hs"
  shows "hs = vnode_hashes sha256 (virtualNodes hr) a"
    and "h \<in> set hs \<Longrightarrow> map_of (hashToNode hr) h = Some a"
    and "h \<in> set hs \<Longrightarrow> h \<in> set (sortedHashes hr)"
proof -
  have m: "(a, hs) \<in> set (nodeToHashes hr)" using assms(2) by (rule map_of_SomeD)
  show "hs = vnode_hashes sha256 (virtualNodes hr) a"
    using assms(1) m unfolding ring_ok_def by blast
  show "h \<in> set hs \<Longrightarrow> map_of (hashToNode hr) h = Some a"
    using assms(1) m unfolding ring_ok_def by blast
  have "set (sortedHashes hr) = (\<Union>(a, hs) \<in> set (nodeToHashes hr). set hs)"
    using assms(1) by (simp add: ring_ok_def)
  then show "h \<in> set hs \<Longrightarrow> h \<in> set (sortedHashes hr)" using m by blast
qed

lemma vnode_hashes_nonempty: "0 < vn \<Longrightarrow> vnode_hashes sha256 vn a \<noteq> []"
  by (simp add: vnode_hashes_def)

lemma ring_ok_owner:
  assumes "ring_ok sha256 hr" and "h \<in> set (sortedHashes hr)"
  shows "\<exists>hs. map_of (nodeToHashes hr) (owner hr h) = Some hs \<and> h \<in> set hs"
proof -
  obtain a hs where a: "(a, hs) \<in> set (nodeToHashes hr)" "h \<in> set hs"
    using assms by (auto simp: ring_ok_def)
  have "map_of (nodeToHashes hr) a = Some hs" using a ring_okD(2) [OF assms(1)] by simp
  moreover have "owner hr h = a"
    using ring_ok_entry(2) [OF assms(1) calculation a(2)] by (simp add: owner_def go_get_def)
  ultimately show ?thesis using a(2) by simp
qed

lemma ring_ok_owner_member:
  "ring_ok sha256 hr \<Longrightarrow> h \<in> set (sortedHashes hr) \<Longrightarrow> owner hr h \<in> set (ring_Members hr)"
  unfolding ring_Members_def by (metis map_of_in_keys ring_ok_owner)

lemma ring_ok_position:
  assumes "ring_ok sha256 hr" and "map_of (nodeToHashes hr) a = Some hs"
  shows "h \<in> set hs \<longleftrightarrow> h \<in> set (sortedHashes hr) \<and> owner hr h = a"
  using ring_ok_owner [OF assms(1), of h] ring_ok_entry(2,3) [OF assms, of h] assms(2)
  by (auto simp: owner_def go_get_def)

lemma ring_New_ok: "ring_ok sha256 (ring_New cfg)"
  by (cases cfg) (auto simp: ring_New_def ring_ok_def Let_def DefaultVirtualNodes_def)

subsection \<open>AddNode\<close>

lemma add_vnodes_spec:
  "add_vnodes sha256 addr hr hs is =
     (let new = map (\<lambda>i. hashKey sha256 (vnode_key addr i)) is
      in (hr\<lparr>sortedHashes := sortedHashes hr @ new,
             hashToNode := fold (\<lambda>h. AList.update h addr) new (hashToNode hr)\<rparr>, hs @ new))"
  by (induction sha256 addr hr hs "is" rule: add_vnodes.induct) (simp_all add: Let_def)

lemma map_of_fold_update:
  "map_of (fold (\<lambda>h. AList.update h a) new m) h = (if h \<in> set new then Some a else map_of m h)"
  by (induction new arbitrary: m) auto

lemma ring_AddNode_new:
  assumes "map_of (nodeToHashes hr) addr = None"
  shows "ring_AddNode sha256 addr hr =
    (let new = vnode_hashes sha256 (virtualNodes hr) addr in
     hr\<lparr>sortedHashes := sort (sortedHashes hr @ new),
        hashToNode := fold (\<lambda>h. AList.update h addr) new (hashToNode hr),
        nodeToHashes := AList.update addr new (nodeToHashes hr)\<rparr>)"
  using assms by (simp add: ring_AddNode_def add_vnodes_spec vnode_hashes_def Let_def)

lemma update_absent: "map_of m k = None \<Longrightarrow> AList.update k v m = m @ [(k, v)]"
  by (induction m) (auto split: if_splits)

lemma ring_AddNode_ok:
  assumes ok: "ring_ok sha256 hr"
    and cf: "collision_free sha256 (virtualNodes hr) (insert addr (set (ring_Members hr)))"
  shows "ring_ok sha256 (ring_AddNode sha256 addr hr)"
proof (cases "map_of (nodeToHashes hr) addr")
  case (Some hs)
  then show ?thesis using ok by (simp add: ring_AddNode_def)
next
  case None
  let ?new = "vnode_hashes sha256 (virtualNodes hr) addr"
  have disj: "set hs \<inter> set ?new = {}" if "(a, hs) \<in> set (nodeToHashes hr)" for a hs
  proof -
    have "a \<noteq> addr" using None that by (auto simp: map_of_None_keys image_iff)
    moreover have "a \<in> set (ring_Members hr)" using that by (force simp: ring_Members_def)
    moreover have "hs = vnode_hashes sha256 (virtualNodes hr) a" using ok that by (auto simp: ring_ok_def)
    ultimately show ?thesis using cf by (auto simp: collision_free_def)
  qed
  have own: "map_of (fold (\<lambda>h. AList.update h addr) ?new (hashToNode hr)) h = Some a"
    if "(a, hs) \<in> set (nodeToHashes hr)" "h \<in> set hs" for a hs h
    using disj [OF that(1)] that ok by (auto simp: map_of_fold_update ring_ok_def)
  have own_new: "h \<in> set ?new \<Longrightarrow>
      map_of (fold (\<lambda>h. AList.update h addr) ?new (hashToNode hr)) h = Some addr" for h
    by (simp add: map_of_fold_update)
  have all: "set (sortedHashes hr) = (\<Union>(a, hs) \<in> set (nodeToHashes hr). set hs)"
    and vals: "\<forall>(a, hs) \<in> set (nodeToHashes hr). hs = vnode_hashes sha256 (virtualNodes hr) a"
    using ok by (simp_all add: ring_ok_def)
  let ?hr = "ring_AddNode sha256 addr hr"
  have eq: "sortedHashes ?hr = sort (sortedHashes hr @ ?new)"
    "nodeToHashes ?hr = nodeToHashes hr @ [(addr, ?new)]"
    "hashToNode ?hr = fold (\<lambda>h. AList.update h addr) ?new (hashToNode hr)"
    "virtualNodes ?hr = virtualNodes hr"
    using None by (simp_all add: ring_AddNode_new Let_def update_absent)
  have "set (sortedHashes ?hr) = (\<Union>(a, hs) \<in> set (nodeToHashes ?hr). set hs)"
    unfolding eq using all by auto
  moreover have "\<forall>(a, hs) \<in> set (nodeToHashes ?hr). hs = vnode_hashes sha256 (virtualNodes ?hr) a"
    unfolding eq using vals by auto
  moreover have "\<forall>(a, hs) \<in> set (nodeToHashes ?hr). \<forall>h \<in> set hs. map_of (hashToNode ?hr) h = Some a"
    unfolding eq using own own_new by auto
  moreover have "go_wf (nodeToHashes ?hr)" and "sorted (sortedHashes ?hr)"
    unfolding eq using ok None by (simp_all add: ring_ok_def map_of_None_keys)
  moreover have "0 < virtualNodes ?hr" unfolding eq using ok by (simp add: ring_ok_def)
  ultimately show ?thesis unfolding ring_ok_def by blast
qed

lemma ring_AddNode_present [simp]:
  "map_of (nodeToHashes hr) addr = Some hs \<Longrightarrow> ring_AddNode sha256 addr hr = hr"
  by (simp add: ring_AddNode_def)

lemma ring_AddNode_frame [simp]:
  shows "virtualNodes (ring_AddNode sha256 addr hr) = virtualNodes hr"
    and "replFactor (ring_AddNode sha256 addr hr) = replFactor hr"
proof -
  have "virtualNodes (ring_AddNode sha256 addr hr) = virtualNodes hr \<and>
        replFactor (ring_AddNode sha256 addr hr) = replFactor hr"
    by (cases "map_of (nodeToHashes hr) addr") (simp_all add: ring_AddNode_new Let_def)
  then show "virtualNodes (ring_AddNode sha256 addr hr) = virtualNodes hr"
    and "replFactor (ring_AddNode sha256 addr hr) = replFactor hr" by simp_all
qed

lemma ring_AddNode_Members [simp]:
  "set (ring_Members (ring_AddNode sha256 addr hr)) = insert addr (set (ring_Members hr))"
proof (cases "map_of (nodeToHashes hr) addr")
  case None
  then show ?thesis by (simp add: ring_AddNode_new Let_def ring_Members_def update_absent)
next
  case (Some hs)
  then show ?thesis using map_of_in_keys [OF Some] by (simp add: ring_Members_def insert_absorb)
qed

subsection \<open>RemoveNode\<close>

lemma map_of_delete_all: "map_of (delete_all ks m) k = (if k \<in> set ks then None else map_of m k)"
  by (induction ks m rule: delete_all.induct) auto

lemma ring_RemoveNode_frame [simp]:
  "virtualNodes (ring_RemoveNode addr hr) = virtualNodes hr"
  "replFactor (ring_RemoveNode addr hr) = replFactor hr"
  by (simp_all add: ring_RemoveNode_def split: option.splits)

lemma ring_RemoveNode_absent [simp]:
  "map_of (nodeToHashes hr) addr = None \<Longrightarrow> ring_RemoveNode addr hr = hr"
  by (simp add: ring_RemoveNode_def)

lemma ring_RemoveNode_Members [simp]:
  "set (ring_Members (ring_RemoveNode addr hr)) = set (ring_Members hr) - {addr}"
proof (cases "map_of (nodeToHashes hr) addr")
  case None
  then have "addr \<notin> set (ring_Members hr)" by (simp add: ring_Members_def map_of_None_keys)
  then show ?thesis using None by simp
next
  case (Some hs)
  then show ?thesis by (force simp: ring_RemoveNode_def ring_Members_def AList.delete_eq)
qed

lemma in_delete: "e \<in> set (AList.delete k m) \<longleftrightarrow> e \<in> set m \<and> fst e \<noteq> k"
  by (auto simp: AList.delete_eq)

lemma ring_RemoveNode_ok:
  assumes ok: "ring_ok sha256 hr"
  shows "ring_ok sha256 (ring_RemoveNode addr hr)"
proof (cases "map_of (nodeToHashes hr) addr")
  case None
  then show ?thesis using ok by simp
next
  case (Some hs)
  have wf: "go_wf (nodeToHashes hr)" using ring_okD(2) [OF ok] .
  have other: "h \<notin> set hs" if "(a, hs') \<in> set (nodeToHashes hr)" "a \<noteq> addr" "h \<in> set hs'" for a hs' h
  proof
    assume "h \<in> set hs"
    have "map_of (nodeToHashes hr) a = Some hs'" using that(1) wf by simp
    from ring_ok_entry(2) [OF ok this that(3)] ring_ok_entry(2) [OF ok Some \<open>h \<in> set hs\<close>] that(2)
    show False by simp
  qed
  have gone: "(addr, hs') \<in> set (nodeToHashes hr) \<Longrightarrow> hs' = hs" for hs'
    using Some wf by simp
  have vals: "\<forall>(a, hs) \<in> set (nodeToHashes hr). hs = vnode_hashes sha256 (virtualNodes hr) a"
    and all: "set (sortedHashes hr) = (\<Union>(a, hs) \<in> set (nodeToHashes hr). set hs)"
    and own: "\<forall>(a, hs) \<in> set (nodeToHashes hr). \<forall>h \<in> set hs. map_of (hashToNode hr) h = Some a"
    using ok by (simp_all add: ring_ok_def)
  have "set (filter (\<lambda>h. h \<notin> set hs) (sortedHashes hr))
      = (\<Union>(a, hs) \<in> set (AList.delete addr (nodeToHashes hr)). set hs)"
    unfolding set_filter all using other gone by (fastforce simp: in_delete)
  moreover have "\<forall>(a, hs') \<in> set (AList.delete addr (nodeToHashes hr)). \<forall>h \<in> set hs'.
      map_of (delete_all hs (hashToNode hr)) h = Some a"
    using other own by (fastforce simp: in_delete map_of_delete_all)
  moreover have "\<forall>(a, hs) \<in> set (AList.delete addr (nodeToHashes hr)).
      hs = vnode_hashes sha256 (virtualNodes hr) a"
    using vals by (auto simp: in_delete)
  ultimately show ?thesis using ok Some
    by (simp add: ring_RemoveNode_def ring_ok_def sorted_wrt_filter)
qed

section \<open>The clockwise walk\<close>

text \<open>The positions met when walking from \<open>h\<close>, and the distinct owners in that order.\<close>

definition clockwise :: "uint64 \<Rightarrow> uint64 list \<Rightarrow> uint64 list" where
  "clockwise h xs = filter (\<lambda>x. h \<le> x) xs @ filter (\<lambda>x. \<not> h \<le> x) xs"

definition preference :: "hashring \<Rightarrow> uint64 \<Rightarrow> string list" where
  "preference hr h = dedup [] (map (owner hr) (clockwise h (sortedHashes hr)))"

lemma set_clockwise [simp]: "set (clockwise h xs) = set xs"
  by (auto simp: clockwise_def)

lemma filter_clockwise: "filter P (clockwise h xs) = clockwise h (filter P xs)"
  by (simp add: clockwise_def conj_commute)

lemma filter_sorted_split:
  assumes "n \<le> length xs" and "\<And>k. k < n \<Longrightarrow> \<not> P (xs ! k)" and "\<And>k. n \<le> k \<Longrightarrow> k < length xs \<Longrightarrow> P (xs ! k)"
  shows "filter P xs = drop n xs" and "filter (\<lambda>x. \<not> P x) xs = take n xs"
proof -
  have 1: "\<forall>x \<in> set (take n xs). \<not> P x" using assms(1,2) by (auto simp: in_set_conv_nth)
  have 2: "\<forall>x \<in> set (drop n xs). P x" using assms(3) by (auto simp: in_set_conv_nth)
  have split: "filter Q xs = filter Q (take n xs) @ filter Q (drop n xs)" for Q
    by (metis append_take_drop_id filter_append)
  show "filter P xs = drop n xs"
    unfolding split using 1 2 by (simp add: filter_id_conv filter_empty_conv)
  show "filter (\<lambda>x. \<not> P x) xs = take n xs"
    unfolding split using 1 2 by (simp add: filter_id_conv filter_empty_conv)
qed

lemma sorted_ge_mono: "sorted xs \<Longrightarrow> mono_on {..<length xs} (\<lambda>i. h \<le> xs ! i)"
  by (intro mono_onI) (auto dest: sorted_nth_mono order_trans)

lemma clockwise_search:
  assumes "sorted (sortedHashes hr)"
  shows "clockwise h (sortedHashes hr) = rotate (ring_search hr h) (sortedHashes hr)"
proof -
  let ?xs = "sortedHashes hr" and ?n = "sort_search (length (sortedHashes hr)) (\<lambda>i. h \<le> sortedHashes hr ! i)"
  note spec = sort_search_spec [OF sorted_ge_mono [OF assms, of h]]
  have "filter (\<lambda>x. h \<le> x) ?xs = drop ?n ?xs" and "filter (\<lambda>x. \<not> h \<le> x) ?xs = take ?n ?xs"
    using filter_sorted_split [of ?n ?xs "\<lambda>x. h \<le> x", OF spec] by blast+
  then have "clockwise h ?xs = drop ?n ?xs @ take ?n ?xs" by (simp only: clockwise_def)
  moreover have "rotate (ring_search hr h) ?xs = drop ?n ?xs @ take ?n ?xs"
  proof (cases "?n \<ge> length ?xs")
    case True
    then show ?thesis by (simp add: ring_search_def)
  next
    case False
    then show ?thesis by (simp add: ring_search_def rotate_drop_take)
  qed
  ultimately show ?thesis by (simp only:)
qed

lemma get_nodes_loop_spec:
  assumes "length nodes \<le> n" and "set seen = set nodes"
  shows "get_nodes_loop hr n s is seen nodes =
    take n (nodes @ dedup nodes (map (\<lambda>i. owner hr (sortedHashes hr ! ((s + i) mod length (sortedHashes hr)))) is))"
  using assms
proof (induction hr n s "is" seen nodes rule: get_nodes_loop.induct)
  case (1 hr n s seen nodes)
  then show ?case by simp
next
  case (2 hr n s i "is" seen nodes)
  let ?a = "owner hr (sortedHashes hr ! ((s + i) mod length (sortedHashes hr)))"
  let ?f = "\<lambda>i. owner hr (sortedHashes hr ! ((s + i) mod length (sortedHashes hr)))"
  have cong: "dedup (?a # nodes) (map ?f is) = dedup (nodes @ [?a]) (map ?f is)"
    by (rule dedup_cong_seen) auto
  show ?case
  proof (cases "length nodes < n")
    case False
    then show ?thesis using "2.prems" by simp
  next
    case True
    then show ?thesis using 2 by (auto simp: Let_def cong)
  qed
qed

lemma walk_eq_rotate:
  "map (\<lambda>i. f (xs ! ((s + i) mod length xs))) [0..<length xs] = map f (rotate s xs)"
  by (rule nth_equalityI) (simp_all add: nth_rotate)

lemma ring_GetNodes_preference:
  assumes "sorted (sortedHashes hr)" and "0 \<le> n"
  shows "ring_GetNodes sha256 hr key n =
    Some (take (nat (min n (int (length (nodeToHashes hr))))) (preference hr (hashKey sha256 key)))"
proof (cases "sortedHashes hr = []")
  case True
  then show ?thesis by (simp add: ring_GetNodes_def preference_def clockwise_def)
next
  case False
  then show ?thesis using assms
    by (auto simp: ring_GetNodes_def Let_def get_nodes_loop_spec walk_eq_rotate preference_def
        clockwise_search min_def)
qed

lemma distinct_preference [simp]: "distinct (preference hr h)"
  by (simp add: preference_def)

lemma set_preference:
  assumes "ring_ok sha256 hr"
  shows "set (preference hr h) = set (ring_Members hr)"
proof
  show "set (preference hr h) \<subseteq> set (ring_Members hr)"
    using ring_ok_owner_member [OF assms] by (auto simp: preference_def)
  show "set (ring_Members hr) \<subseteq> set (preference hr h)"
  proof
    fix a assume "a \<in> set (ring_Members hr)"
    then obtain hs where a: "map_of (nodeToHashes hr) a = Some hs"
      using map_of_None_keys [of "nodeToHashes hr" a] by (auto simp: ring_Members_def)
    obtain x where "x \<in> set hs"
      using ring_ok_entry(1) [OF assms a] vnode_hashes_nonempty [OF ring_okD(3) [OF assms]]
      by (metis list.set_intros(1) neq_Nil_conv)
    then show "a \<in> set (preference hr h)"
      using ring_ok_position [OF assms a, of x] by (force simp: preference_def)
  qed
qed

lemma length_preference:
  assumes "ring_ok sha256 hr"
  shows "length (preference hr h) = ring_Size hr"
proof -
  have "length (preference hr h) = card (set (ring_Members hr))"
    using distinct_card [OF distinct_preference, of hr h] set_preference [OF assms, of h] by simp
  also have "\<dots> = ring_Size hr"
    using ring_okD(2) [OF assms] by (simp add: ring_Members_def ring_Size_def distinct_card del: set_map)
  finally show ?thesis .
qed

lemma ring_GetNodes_ok:
  assumes "ring_ok sha256 hr" and "0 \<le> n"
  shows "ring_GetNodes sha256 hr key n = Some (take (nat n) (preference hr (hashKey sha256 key)))"
proof -
  have "length (preference hr (hashKey sha256 key)) = length (nodeToHashes hr)"
    using length_preference [OF assms(1)] by (simp add: ring_Size_def)
  then show ?thesis
    using ring_GetNodes_preference [OF ring_okD(1) [OF assms(1)] assms(2)]
    by (auto simp: min_def nat_le_iff)
qed

text \<open>Removing a node takes it out of every preference list and leaves the rest in order.\<close>

lemma preference_RemoveNode:
  assumes ok: "ring_ok sha256 hr"
  shows "preference (ring_RemoveNode addr hr) h = filter (\<lambda>a. a \<noteq> addr) (preference hr h)"
proof (cases "map_of (nodeToHashes hr) addr")
  case None
  then have "addr \<notin> set (preference hr h)"
    unfolding set_preference [OF ok] by (simp add: ring_Members_def map_of_None_keys)
  then have "filter (\<lambda>a. a \<noteq> addr) (preference hr h) = preference hr h"
    by (auto simp: filter_id_conv)
  then show ?thesis using None by simp
next
  case (Some hs)
  let ?hr = "ring_RemoveNode addr hr"
  have mem: "x \<in> set hs \<longleftrightarrow> owner hr x = addr" if "x \<in> set (sortedHashes hr)" for x
    using ring_ok_position [OF ok Some, of x] that by simp
  have own: "owner ?hr x = owner hr x" if "x \<notin> set hs" for x
    using Some that by (simp add: owner_def go_get_def ring_RemoveNode_def map_of_delete_all)
  have s: "sortedHashes ?hr = filter (\<lambda>x. owner hr x \<noteq> addr) (sortedHashes hr)"
    using Some mem by (auto simp: ring_RemoveNode_def intro: filter_cong)
  have "map (owner ?hr) (clockwise h (sortedHashes ?hr)) =
        map (owner hr) (filter (\<lambda>x. owner hr x \<noteq> addr) (clockwise h (sortedHashes hr)))"
    unfolding s filter_clockwise using own mem by (intro map_cong) auto
  also have "\<dots> = filter (\<lambda>a. a \<noteq> addr) (map (owner hr) (clockwise h (sortedHashes hr)))"
    by (simp add: filter_map comp_def)
  finally show ?thesis by (simp add: preference_def filter_dedup)
qed

text \<open>Adding a node inserts it somewhere into every preference list.\<close>

lemma preference_AddNode:
  assumes ok: "ring_ok sha256 hr" and new: "addr \<notin> set (ring_Members hr)"
    and cf: "collision_free sha256 (virtualNodes hr) (insert addr (set (ring_Members hr)))"
  shows "filter (\<lambda>a. a \<noteq> addr) (preference (ring_AddNode sha256 addr hr) h) = preference hr h"
proof -
  let ?hr = "ring_AddNode sha256 addr hr" and ?new = "vnode_hashes sha256 (virtualNodes hr) addr"
  have None: "map_of (nodeToHashes hr) addr = None"
    using new by (simp add: ring_Members_def map_of_None_keys)
  have ok': "ring_ok sha256 ?hr" using ring_AddNode_ok [OF ok cf] .
  have entry: "map_of (nodeToHashes ?hr) addr = Some ?new"
    using None by (simp add: ring_AddNode_new Let_def)
  have mem: "x \<in> set ?new \<longleftrightarrow> owner ?hr x = addr" if "x \<in> set (sortedHashes ?hr)" for x
    using ring_ok_position [OF ok' entry, of x] that by simp
  have old: "x \<notin> set ?new" if "x \<in> set (sortedHashes hr)" for x
  proof -
    obtain hs where hs: "map_of (nodeToHashes hr) (owner hr x) = Some hs" "x \<in> set hs"
      using ring_ok_owner [OF ok] \<open>x \<in> set (sortedHashes hr)\<close> by blast
    have m: "owner hr x \<in> set (ring_Members hr)"
      using ring_ok_owner_member [OF ok] \<open>x \<in> set (sortedHashes hr)\<close> by blast
    then have "owner hr x \<noteq> addr" using new by auto
    with cf m have "set (vnode_hashes sha256 (virtualNodes hr) (owner hr x)) \<inter> set ?new = {}"
      unfolding collision_free_def by (meson insertI1 insertI2)
    then show ?thesis using hs(2) ring_ok_entry(1) [OF ok hs(1)] by auto
  qed
  have own: "owner ?hr x = owner hr x" if "x \<notin> set ?new" for x
    using None that by (simp add: owner_def go_get_def ring_AddNode_new Let_def map_of_fold_update)
  have s: "filter (\<lambda>x. x \<notin> set ?new) (sortedHashes ?hr) = sortedHashes hr"
  proof -
    have "filter (\<lambda>x. x \<notin> set ?new) (sortedHashes hr @ ?new) = sortedHashes hr"
      using old by (simp add: filter_id_conv filter_empty_conv)
    then show ?thesis using None ring_okD(1) [OF ok]
      by (simp add: ring_AddNode_new Let_def filter_sort sorted_sort_id)
  qed
  have "filter (\<lambda>a. a \<noteq> addr) (map (owner ?hr) (clockwise h (sortedHashes ?hr)))
      = map (owner ?hr) (filter (\<lambda>x. owner ?hr x \<noteq> addr) (clockwise h (sortedHashes ?hr)))"
    by (simp add: filter_map comp_def)
  also have "\<dots> = map (owner ?hr) (filter (\<lambda>x. x \<notin> set ?new) (clockwise h (sortedHashes ?hr)))"
    using mem by (intro arg_cong [of _ _ "map (owner ?hr)"] filter_cong) auto
  also have "\<dots> = map (owner hr) (clockwise h (sortedHashes hr))"
    unfolding filter_clockwise s using own old by (intro map_cong) auto
  finally show ?thesis by (simp add: preference_def filter_dedup)
qed

lemma clockwise_head:
  assumes "sorted xs" and "clockwise h xs = p # ps"
  shows "if \<exists>q \<in> set xs. h \<le> q then h \<le> p \<and> (\<forall>q \<in> set xs. h \<le> q \<longrightarrow> p \<le> q) else \<forall>q \<in> set xs. p \<le> q"
proof (cases "filter (\<lambda>x. h \<le> x) xs")
  case Nil
  then have "filter (\<lambda>x. \<not> h \<le> x) xs = xs" by (auto simp: filter_empty_conv filter_id_conv)
  then have "xs = p # ps" using Nil assms(2) by (simp add: clockwise_def)
  moreover have "\<not> (\<exists>q \<in> set xs. h \<le> q)" using Nil by (auto simp: filter_empty_conv)
  ultimately show ?thesis using assms(1) by auto
next
  case (Cons q qs)
  then have q: "q = p" using assms(2) by (simp add: clockwise_def)
  have s: "sorted (p # qs)" using Cons q assms(1) by (metis sorted_wrt_filter)
  have eq: "set (p # qs) = {x \<in> set xs. h \<le> x}" using Cons q by (metis set_filter)
  then have "h \<le> p" "\<forall>x \<in> set xs. h \<le> x \<longrightarrow> p \<le> x" "p \<in> set xs"
    using s by auto
  then show ?thesis by auto
qed

lemma take_Cons_take: "k \<le> Suc n \<Longrightarrow> take k (x # take n xs) = take k (x # xs)"
  by (cases k) (simp_all add: min_absorb1)

lemma take_filter_neq:
  assumes "distinct xs"
  shows "if a \<in> set (take n xs)
         then filter (\<lambda>x. x \<noteq> a) (take n xs) = take (length (take n xs) - 1) (take n (filter (\<lambda>x. x \<noteq> a) xs))
         else take n (filter (\<lambda>x. x \<noteq> a) xs) = take n xs"
  using assms
proof (induction xs arbitrary: n)
  case (Cons x xs)
  show ?case
  proof (cases n)
    case (Suc m)
    have id: "filter (\<lambda>y. y \<noteq> a) xs = xs" if "x = a"
      using Cons.prems that by (auto simp: filter_id_conv)
    show ?thesis
    proof (cases "x = a")
      case True
      then show ?thesis using Suc id Cons.prems
        by (auto simp: filter_id_conv min_def dest: in_set_takeD)
    next
      case False
      have "0 < m" if "a \<in> set (take m xs)" using that by (cases m) auto
      then show ?thesis using False Suc Cons.IH [of m] Cons.prems
        by (cases xs; cases m) (auto simp: take_Cons_take)
    qed
  qed simp
qed simp

section \<open>Reachable rings\<close>

datatype ring_op = RingAdd string | RingRemove string

fun ring_apply :: "(byte list \<Rightarrow> byte list) \<Rightarrow> ring_op \<Rightarrow> hashring \<Rightarrow> hashring" where
  "ring_apply sha256 (RingAdd addr) hr = ring_AddNode sha256 addr hr"
| "ring_apply sha256 (RingRemove addr) hr = ring_RemoveNode addr hr"

fun ring_op_addr :: "ring_op \<Rightarrow> string" where
  "ring_op_addr (RingAdd a) = a"
| "ring_op_addr (RingRemove a) = a"

definition ring_run :: "(byte list \<Rightarrow> byte list) \<Rightarrow> ring_op list \<Rightarrow> hashring \<Rightarrow> hashring" where
  "ring_run sha256 ops hr = fold (ring_apply sha256) ops hr"

lemma collision_free_mono: "collision_free sha256 vn A \<Longrightarrow> B \<subseteq> A \<Longrightarrow> collision_free sha256 vn B"
  unfolding collision_free_def by blast

lemma ring_apply_ok:
  assumes "ring_ok sha256 hr" and "collision_free sha256 (virtualNodes hr) A"
    and "set (ring_Members hr) \<subseteq> A" and "ring_op_addr op \<in> A"
  shows "ring_ok sha256 (ring_apply sha256 op hr) \<and> set (ring_Members (ring_apply sha256 op hr)) \<subseteq> A \<and>
         virtualNodes (ring_apply sha256 op hr) = virtualNodes hr"
proof (cases op)
  case (RingAdd a)
  then have "collision_free sha256 (virtualNodes hr) (insert a (set (ring_Members hr)))"
    using collision_free_mono [OF assms(2)] assms(3,4) by simp
  then show ?thesis using RingAdd assms ring_AddNode_ok by simp
next
  case (RingRemove a)
  then show ?thesis using assms ring_RemoveNode_ok by auto
qed

lemma ring_run_ok:
  assumes "ring_ok sha256 hr" and "collision_free sha256 (virtualNodes hr) A"
    and "set (ring_Members hr) \<subseteq> A" and "ring_op_addr ` set ops \<subseteq> A"
  shows "ring_ok sha256 (ring_run sha256 ops hr)"
  using assms
proof (induction ops arbitrary: hr)
  case Nil
  then show ?case by (simp add: ring_run_def)
next
  case (Cons op ops)
  then show ?case using ring_apply_ok [OF Cons.prems(1-3), of op] by (simp add: ring_run_def)
qed

section \<open>The placement interface\<close>

text \<open>What the rebalancer and the replication code rely on: a ring in a good state answers every
  request for \<open>n \<ge> 0\<close> nodes with distinct members, as many as there are up to \<open>n\<close>, and a
  smaller request is a prefix of a larger one.\<close>

locale replica_placement =
  fixes good :: "'ring \<Rightarrow> bool"
    and members :: "'ring \<Rightarrow> string list"
    and nodes_for :: "'ring \<Rightarrow> string \<Rightarrow> int \<Rightarrow> string list option"
  assumes nodes_total: "good r \<Longrightarrow> 0 \<le> n \<Longrightarrow> \<exists>ns. nodes_for r key n = Some ns"
    and nodes_members: "good r \<Longrightarrow> 0 \<le> n \<Longrightarrow> nodes_for r key n = Some ns \<Longrightarrow> set ns \<subseteq> set (members r)"
    and nodes_distinct: "good r \<Longrightarrow> 0 \<le> n \<Longrightarrow> nodes_for r key n = Some ns \<Longrightarrow> distinct ns"
    and nodes_length: "good r \<Longrightarrow> 0 \<le> n \<Longrightarrow> nodes_for r key n = Some ns \<Longrightarrow>
          int (length ns) = min n (int (card (set (members r))))"
    and nodes_prefix: "good r \<Longrightarrow> 0 \<le> m \<Longrightarrow> m \<le> n \<Longrightarrow> nodes_for r key n = Some ns \<Longrightarrow>
          nodes_for r key m = Some (take (nat m) ns)"
begin

lemma all_members_when_few:
  assumes "good r" and "int (card (set (members r))) \<le> n" and "nodes_for r key n = Some ns"
  shows "set ns = set (members r)"
proof -
  have n: "0 \<le> n" using assms(2) by simp
  have "card (set ns) = card (set (members r))"
    using nodes_length [OF assms(1) n assms(3)] nodes_distinct [OF assms(1) n assms(3)] assms(2)
    by (simp add: distinct_card)
  then show ?thesis
    using nodes_members [OF assms(1) n assms(3)] by (simp add: card_subset_eq)
qed

lemma nodes_empty_iff:
  assumes "good r" and "0 < n" and "nodes_for r key n = Some ns"
  shows "ns = [] \<longleftrightarrow> members r = []"
proof -
  have n: "0 \<le> n" using assms(2) by simp
  have "ns = [] \<longleftrightarrow> int (length ns) = 0" by simp
  also have "\<dots> \<longleftrightarrow> card (set (members r)) = 0"
    unfolding nodes_length [OF assms(1) n assms(3)] using assms(2) by (auto simp: min_def)
  finally show ?thesis by simp
qed

end

lemma card_ring_Members: "ring_ok sha256 hr \<Longrightarrow> card (set (ring_Members hr)) = ring_Size hr"
  using ring_okD(2) [of sha256 hr] by (simp add: ring_Members_def ring_Size_def distinct_card del: set_map)

interpretation ring: replica_placement "ring_ok sha256" ring_Members "ring_GetNodes sha256"
  for sha256
proof (unfold_locales, goal_cases)
  case (1 r n key)
  then show ?case by (simp add: ring_GetNodes_ok)
next
  case (2 r n key ns)
  then show ?case using set_preference [of sha256 r "hashKey sha256 key"]
    by (auto simp: ring_GetNodes_ok dest: in_set_takeD)
next
  case (3 r n key ns)
  then show ?case by (auto simp: ring_GetNodes_ok intro: distinct_take)
next
  case (4 r n key ns)
  then show ?case by (auto simp: ring_GetNodes_ok length_preference card_ring_Members)
next
  case (5 r m n key ns)
  then show ?case by (auto simp: ring_GetNodes_ok min_def nat_le_iff)
qed

section \<open>Properties\<close>

text \<open>Every sequence of joins and leaves of nodes whose virtual nodes do not collide keeps the
  ring consistent: positions sorted, every position owned by the node that lists it, no position
  of a departed node left.\<close>

lemma ring_invariant:
  assumes "collision_free sha256 (virtualNodes (ring_New cfg)) A" and "ring_op_addr ` set ops \<subseteq> A"
  shows "ring_ok sha256 (ring_run sha256 ops (ring_New cfg))"
  using ring_run_ok [OF ring_New_ok assms(1) _ assms(2)] by (simp add: ring_New_def ring_Members_def Let_def)

text \<open>A concrete digest and ring for the witnesses: the digest puts a string at the position of
  its first byte, and every node has one virtual node.\<close>

definition demo_sha :: "byte list \<Rightarrow> byte list" where
  "demo_sha bs = replicate 7 0 @ [hd bs]"

definition demo_cfg :: "ring_config option" where
  "demo_cfg = Some \<lparr>VirtualNodes = 1, ReplicationFactor = 2\<rparr>"

definition demo_ops :: "ring_op list" where
  "demo_ops = [RingAdd ''a'', RingAdd ''e'', RingRemove ''a'', RingAdd ''c'']"

definition demo_ring :: hashring where
  "demo_ring = ring_run demo_sha demo_ops (ring_New demo_cfg)"

lemma be_nat_zeros: "be_nat (replicate n 0) = 0"
  by (induction n) (auto simp: replicate_append_same [symmetric] be_nat_def)

lemma demo_hashKey [simp]: "hashKey demo_sha (c # s) = word_of_nat (of_char c)"
proof -
  have "(of_char c :: nat) < 256" by simp
  then show ?thesis
    by (simp add: hashKey_def demo_sha_def bytes_of_def be_nat_zeros unat_of_nat)
qed

lemma demo_vnode_hashes [simp]: "vnode_hashes demo_sha 1 (c # s) = [word_of_nat (of_char c)]"
  by (simp add: vnode_hashes_def vnode_key_def)

lemma demo_ring_eq:
  "demo_ring = \<lparr>sortedHashes = [99, 101], hashToNode = [(101, ''e''), (99, ''c'')],
     nodeToHashes = [(''e'', [101]), (''c'', [99])], virtualNodes = 1, replFactor = 2\<rparr>"
  by (simp add: demo_ring_def ring_run_def demo_ops_def ring_New_def demo_cfg_def ring_AddNode_def
      vnode_key_def ring_RemoveNode_def Let_def)

lemma demo_collision_free: "collision_free demo_sha 1 {''a'', ''c'', ''e''}"
  by (simp add: collision_free_def)

lemma demo_ring_ok: "ring_ok demo_sha demo_ring"
  by (simp add: demo_ring_eq ring_ok_def)

lemma demo_GetNodes: "ring_GetNodes demo_sha demo_ring ''d'' 1 = Some [''e'']"
  by (simp add: demo_ring_eq ring_GetNodes_def ring_search_def sort_search_def sort_search_loop.simps
      owner_def go_get_def Let_def)

theorem ring_invariant_witness:
  "ring_ok demo_sha (ring_run demo_sha demo_ops (ring_New demo_cfg))"
proof (rule ring_invariant)
  show "collision_free demo_sha (virtualNodes (ring_New demo_cfg)) {''a'', ''c'', ''e''}"
    using demo_collision_free by (simp add: ring_New_def demo_cfg_def)
  show "ring_op_addr ` set demo_ops \<subseteq> {''a'', ''c'', ''e''}"
    by (simp add: demo_ops_def)
qed

text \<open>C2. On a consistent ring \<open>GetNodes\<close> returns distinct members, exactly \<open>n\<close> of them or all when
  there are fewer.\<close>

theorem GetNodes_replicas:
  assumes "ring_ok sha256 hr" and "0 \<le> n"
  shows "\<exists>ns. ring_GetNodes sha256 hr key n = Some ns \<and> distinct ns \<and> set ns \<subseteq> set (ring_Members hr) \<and>
           int (length ns) = min n (int (ring_Size hr))"
proof -
  obtain ns where ns: "ring_GetNodes sha256 hr key n = Some ns"
    using ring.nodes_total [OF assms] by blast
  then show ?thesis
    using ring.nodes_members [OF assms ns] ring.nodes_distinct [OF assms ns] ring.nodes_length [OF assms ns]
    by (simp add: card_ring_Members [OF assms(1)])
qed

theorem GetNodes_replicas_witness:
  "\<exists>ns. ring_GetNodes demo_sha demo_ring ''k'' 2 = Some ns \<and> distinct ns \<and>
     set ns \<subseteq> set (ring_Members demo_ring) \<and> int (length ns) = min 2 (int (ring_Size demo_ring))"
  using GetNodes_replicas [OF demo_ring_ok, of 2 "''k''"] by simp

text \<open>The primary node of a key owns the first position at or after the hash of the key, and the
  smallest position of all when the hash lies beyond the last one.\<close>

theorem GetPrimaryNode_successor:
  assumes "ring_ok sha256 hr" and "sortedHashes hr \<noteq> []"
  shows "\<exists>p \<in> set (sortedHashes hr). ring_GetPrimaryNode sha256 hr key = Some (owner hr p) \<and>
    (if \<exists>q \<in> set (sortedHashes hr). hashKey sha256 key \<le> q
     then hashKey sha256 key \<le> p \<and> (\<forall>q \<in> set (sortedHashes hr). hashKey sha256 key \<le> q \<longrightarrow> p \<le> q)
     else \<forall>q \<in> set (sortedHashes hr). p \<le> q)"
proof -
  let ?h = "hashKey sha256 key" and ?xs = "sortedHashes hr"
  obtain p ps where cw: "clockwise ?h ?xs = p # ps"
    using assms(2) by (metis list.exhaust set_clockwise set_empty)
  then have "preference hr ?h = owner hr p # dedup [owner hr p] (map (owner hr) ps)"
    by (simp add: preference_def)
  then have "ring_GetPrimaryNode sha256 hr key = Some (owner hr p)"
    using assms(1) by (simp add: ring_GetPrimaryNode_def ring_GetNodes_ok)
  moreover have "p \<in> set ?xs" using cw by (metis list.set_intros(1) set_clockwise)
  moreover have "if \<exists>q \<in> set ?xs. ?h \<le> q then ?h \<le> p \<and> (\<forall>q \<in> set ?xs. ?h \<le> q \<longrightarrow> p \<le> q)
    else \<forall>q \<in> set ?xs. p \<le> q"
    using clockwise_head [OF ring_okD(1) [OF assms(1)] cw] .
  ultimately show ?thesis by blast
qed

theorem GetPrimaryNode_successor_witness:
  "\<exists>p \<in> set (sortedHashes demo_ring). ring_GetPrimaryNode demo_sha demo_ring ''k'' = Some (owner demo_ring p)"
proof -
  have "sortedHashes demo_ring \<noteq> []" by (simp add: demo_ring_eq)
  from GetPrimaryNode_successor [OF demo_ring_ok this, of "''k''"] show ?thesis by blast
qed

text \<open>C3. A leaving node disturbs only the keys it served: its removal keeps the replica set of every
  key it was not a replica of, and for the others it drops out while the order of the remaining
  replicas is kept.\<close>

theorem RemoveNode_minimal_disruption:
  assumes "ring_ok sha256 hr" and "0 \<le> n" and "ring_GetNodes sha256 hr key n = Some ns"
  shows "\<exists>ns'. ring_GetNodes sha256 (ring_RemoveNode addr hr) key n = Some ns' \<and>
           (if addr \<in> set ns then filter (\<lambda>a. a \<noteq> addr) ns = take (length ns - 1) ns' else ns' = ns)"
proof -
  let ?p = "preference hr (hashKey sha256 key)"
  have ns: "ns = take (nat n) ?p" using assms by (simp add: ring_GetNodes_ok)
  have "ring_GetNodes sha256 (ring_RemoveNode addr hr) key n = Some (take (nat n) (filter (\<lambda>a. a \<noteq> addr) ?p))"
    using ring_RemoveNode_ok [OF assms(1)] assms by (simp add: ring_GetNodes_ok preference_RemoveNode)
  moreover have "if addr \<in> set ns
      then filter (\<lambda>a. a \<noteq> addr) ns = take (length ns - 1) (take (nat n) (filter (\<lambda>a. a \<noteq> addr) ?p))
      else take (nat n) (filter (\<lambda>a. a \<noteq> addr) ?p) = ns"
    unfolding ns by (rule take_filter_neq) simp
  ultimately show ?thesis by blast
qed

theorem RemoveNode_minimal_disruption_witness:
  "\<exists>ns'. ring_GetNodes demo_sha (ring_RemoveNode ''e'' demo_ring) ''d'' 1 = Some ns' \<and>
     filter (\<lambda>a. a \<noteq> ''e'') [''e''] = take 0 ns'"
  using RemoveNode_minimal_disruption [OF demo_ring_ok _ demo_GetNodes, of "''e''"] by simp

text \<open>A joining node only takes over keys, it never reshuffles the others: the replica list of any
  key, with the new node taken out, is the beginning of the list from before the join.\<close>

lemma AddNode_minimal_disruption:
  assumes "ring_ok sha256 hr" and "0 \<le> n" and "addr \<notin> set (ring_Members hr)"
    and "collision_free sha256 (virtualNodes hr) (insert addr (set (ring_Members hr)))"
    and "ring_GetNodes sha256 hr key n = Some ns"
  shows "\<exists>ns'. ring_GetNodes sha256 (ring_AddNode sha256 addr hr) key n = Some ns' \<and>
           (if addr \<in> set ns' then filter (\<lambda>a. a \<noteq> addr) ns' = take (length ns' - 1) ns else ns' = ns)"
proof -
  let ?hr = "ring_AddNode sha256 addr hr" and ?h = "hashKey sha256 key"
  have ok: "ring_ok sha256 ?hr" using ring_AddNode_ok [OF assms(1,4)] .
  have ns: "ns = take (nat n) (filter (\<lambda>a. a \<noteq> addr) (preference ?hr ?h))"
    using assms by (simp add: ring_GetNodes_ok preference_AddNode)
  have "ring_GetNodes sha256 ?hr key n = Some (take (nat n) (preference ?hr ?h))"
    using ok assms(2) by (simp add: ring_GetNodes_ok)
  moreover have "if addr \<in> set (take (nat n) (preference ?hr ?h))
      then filter (\<lambda>a. a \<noteq> addr) (take (nat n) (preference ?hr ?h))
         = take (length (take (nat n) (preference ?hr ?h)) - 1) ns
      else take (nat n) (preference ?hr ?h) = ns"
    unfolding ns using take_filter_neq [OF distinct_preference, of addr "nat n" ?hr ?h] by presburger
  ultimately show ?thesis by blast
qed

theorem AddNode_minimal_disruption_witness:
  "\<exists>ns'. ring_GetNodes demo_sha (ring_AddNode demo_sha ''a'' demo_ring) ''d'' 1 = Some ns' \<and>
     (if ''a'' \<in> set ns' then filter (\<lambda>a. a \<noteq> ''a'') ns' = take (length ns' - 1) [''e''] else ns' = [''e''])"
proof -
  have m: "''a'' \<notin> set (ring_Members demo_ring)"
    by (simp add: demo_ring_eq ring_Members_def)
  have c: "collision_free demo_sha (virtualNodes demo_ring) (insert ''a'' (set (ring_Members demo_ring)))"
    using demo_collision_free by (simp add: demo_ring_eq ring_Members_def insert_commute)
  from AddNode_minimal_disruption [OF demo_ring_ok _ m c demo_GetNodes] show ?thesis by simp
qed

end
