(* ===== verification/Rebalance.thy ===== *)
theory Rebalance
  imports HashRing
begin

text \<open>
  Data migration after ring changes, \<open>Cluster/rebalance/rebalance.go\<close>. The closures wired by the
  server are arguments: what a local file or manifest reads as (\<open>None\<close> on an error or a missing
  entry), whether a send succeeds, and at which keys the throttle finds the stop channel closed.
  A run returns the attempted sends in order; \<open>None\<close> stands for a panic of \<open>GetNodes\<close>.
  The proofs use the ring only through the locale \<open>replica_placement\<close>.
\<close>

record rebalancer =
  rb_selfAddr :: string
  rb_hasManifests :: bool
  rb_delay :: int
  rb_inProgress :: bool

definition DefaultMigrationDelay :: int where
  "DefaultMigrationDelay = 50 * 10 ^ 6"

definition rb_New :: "string \<Rightarrow> rebalancer" where
  "rb_New self = \<lparr>rb_selfAddr = self, rb_hasManifests = False, rb_delay = DefaultMigrationDelay,
                  rb_inProgress = False\<rparr>"

definition rb_SetManifestFuncs :: "rebalancer \<Rightarrow> rebalancer" where
  "rb_SetManifestFuncs r = r\<lparr>rb_hasManifests := True\<rparr>"

record rb_env =
  readFile :: "string \<Rightarrow> byte list option"
  readManifest :: "string \<Rightarrow> byte list option"
  sendOk :: "string \<Rightarrow> string \<Rightarrow> bool"
  stopped :: "string \<Rightarrow> bool"

datatype rb_send = SentFile string string "byte list" | SentManifest string string "byte list"

text \<open>The keys of the metadata store without those the filter, when set, excludes.\<close>

definition localKeys :: "(string \<Rightarrow> bool) option \<Rightarrow> string list \<Rightarrow> string list" where
  "localKeys shouldSkip all =
     (case shouldSkip of None \<Rightarrow> all | Some skip \<Rightarrow> filter (\<lambda>key. \<not> skip key) all)"

definition manifest_prefix :: string where
  "manifest_prefix = ''manifest:''"

definition has_prefix :: "string \<Rightarrow> string \<Rightarrow> bool" where
  "has_prefix p s \<longleftrightarrow> take (length p) s = p"

definition trim_prefix :: "string \<Rightarrow> string \<Rightarrow> string" where
  "trim_prefix p s = (if has_prefix p s then drop (length p) s else s)"

text \<open>What one key makes the loop of \<open>migrateToNewNode\<close> send, and whether the loop goes on.\<close>

definition migrate_key ::
  "rebalancer \<Rightarrow> rb_env \<Rightarrow> string list \<Rightarrow> string \<Rightarrow> string \<Rightarrow> rb_send list \<times> bool" where
  "migrate_key r env responsible newAddr key =
     (if newAddr \<notin> set responsible then ([], True)
      else if rb_selfAddr r \<notin> set responsible then ([], True)
      else if has_prefix manifest_prefix key then
        (let fileKey = trim_prefix manifest_prefix key
         in if rb_hasManifests r then
              (case readManifest env fileKey of
                 None \<Rightarrow> ([], True)
               | Some data \<Rightarrow> ([SentManifest newAddr fileKey data], True))
            else ([], True))
      else
        (case readFile env key of
           None \<Rightarrow> ([], True)
         | Some data \<Rightarrow>
             ([SentFile newAddr key data],
              \<not> (sendOk env newAddr key \<and> rb_delay r > 0 \<and> stopped env key))))"

fun migrate_loop ::
  "(byte list \<Rightarrow> byte list) \<Rightarrow> hashring \<Rightarrow> rebalancer \<Rightarrow> rb_env \<Rightarrow> string \<Rightarrow> string list \<Rightarrow> rb_send list option" where
  "migrate_loop sha256 ring r env newAddr [] = Some []"
| "migrate_loop sha256 ring r env newAddr (key # keys) =
     (case ring_GetNodes sha256 ring key (ring_ReplicationFactor ring) of
        None \<Rightarrow> None
      | Some responsible \<Rightarrow>
          (let (sent, go_on) = migrate_key r env responsible newAddr key
           in if go_on then map_option ((@) sent) (migrate_loop sha256 ring r env newAddr keys)
              else Some sent))"

text \<open>Nothing is done while another rebalance is in progress; the flag is cleared at the end.\<close>

definition migrateToNewNode ::
  "(byte list \<Rightarrow> byte list) \<Rightarrow> hashring \<Rightarrow> rebalancer \<Rightarrow> rb_env \<Rightarrow> string list \<Rightarrow> string \<Rightarrow> rb_send list option" where
  "migrateToNewNode sha256 ring r env keys newAddr =
     (if rb_inProgress r then Some [] else migrate_loop sha256 ring r env newAddr keys)"

definition rereplicate_key ::
  "rebalancer \<Rightarrow> rb_env \<Rightarrow> int \<Rightarrow> string list \<Rightarrow> string \<Rightarrow> string \<Rightarrow> rb_send list" where
  "rereplicate_key r env n responsible deadAddr key =
     (if int (length responsible) \<ge> n then []
      else if rb_selfAddr r \<notin> set responsible then []
      else
        (case readFile env key of
           None \<Rightarrow> []
         | Some data \<Rightarrow>
             map (\<lambda>target. SentFile target key data)
               (filter (\<lambda>target. \<not> (target = rb_selfAddr r \<or> target = deadAddr)) responsible)))"

fun rereplicate_loop ::
  "(byte list \<Rightarrow> byte list) \<Rightarrow> hashring \<Rightarrow> rebalancer \<Rightarrow> rb_env \<Rightarrow> string \<Rightarrow> string list \<Rightarrow> rb_send list option" where
  "rereplicate_loop sha256 ring r env deadAddr [] = Some []"
| "rereplicate_loop sha256 ring r env deadAddr (key # keys) =
     (let n = ring_ReplicationFactor ring
      in case ring_GetNodes sha256 ring key n of
           None \<Rightarrow> None
         | Some responsible \<Rightarrow>
             map_option ((@) (rereplicate_key r env n responsible deadAddr key))
               (rereplicate_loop sha256 ring r env deadAddr keys))"

definition rereplicate ::
  "(byte list \<Rightarrow> byte list) \<Rightarrow> hashring \<Rightarrow> rebalancer \<Rightarrow> rb_env \<Rightarrow> string list \<Rightarrow> string \<Rightarrow> rb_send list option" where
  "rereplicate sha256 ring r env keys deadAddr =
     (if rb_inProgress r then Some [] else rereplicate_loop sha256 ring r env deadAddr keys)"

section \<open>Lemmas\<close>

text \<open>The replica list of a key, as the rebalancer asks for it.\<close>

definition replicas :: "(byte list \<Rightarrow> byte list) \<Rightarrow> hashring \<Rightarrow> string \<Rightarrow> string list" where
  "replicas sha256 ring key =
     (case ring_GetNodes sha256 ring key (ring_ReplicationFactor ring) of None \<Rightarrow> [] | Some ns \<Rightarrow> ns)"

lemma replicas_Some:
  "ring_ok sha256 ring \<Longrightarrow> 0 \<le> ring_ReplicationFactor ring \<Longrightarrow>
   ring_GetNodes sha256 ring key (ring_ReplicationFactor ring) = Some (replicas sha256 ring key)"
  using ring.nodes_total [of sha256 ring "ring_ReplicationFactor ring" key] by (auto simp: replicas_def)

lemma migrate_loop_concat:
  assumes "ring_ok sha256 ring" and "0 \<le> ring_ReplicationFactor ring"
    and "\<forall>key \<in> set keys. \<not> stopped env key"
  shows "migrate_loop sha256 ring r env newAddr keys
       = Some (concat (map (\<lambda>key. fst (migrate_key r env (replicas sha256 ring key) newAddr key)) keys))"
  using assms(3)
proof (induction keys)
  case (Cons key keys)
  have "snd (migrate_key r env rs newAddr key)" for rs
    using Cons.prems by (auto simp: migrate_key_def Let_def split: option.split)
  then show ?case
    using Cons by (simp add: replicas_Some [OF assms(1,2)] Let_def split: prod.split) (metis snd_conv)
qed simp

lemma rereplicate_loop_concat:
  assumes "ring_ok sha256 ring" and "0 \<le> ring_ReplicationFactor ring"
  shows "rereplicate_loop sha256 ring r env deadAddr keys
       = Some (concat (map (\<lambda>key. rereplicate_key r env (ring_ReplicationFactor ring)
                 (replicas sha256 ring key) deadAddr key) keys))"
  by (induction keys) (simp_all add: replicas_Some [OF assms] Let_def)

section \<open>Properties\<close>

text \<open>On a consistent ring, and unless it is interrupted, a migration offers the new node exactly the
  readable local keys for which both it and this node are replicas, with the bytes read locally;
  manifests go through their own path.\<close>

lemma migrate_exact:
  assumes "ring_ok sha256 ring" and "0 \<le> ring_ReplicationFactor ring"
    and "\<forall>key \<in> set keys. \<not> stopped env key" and "\<not> rb_inProgress r"
  shows "\<exists>sent. migrateToNewNode sha256 ring r env keys newAddr = Some sent \<and>
    set sent =
      {SentFile newAddr key data | key data. key \<in> set keys \<and> \<not> has_prefix manifest_prefix key \<and>
         readFile env key = Some data \<and> {newAddr, rb_selfAddr r} \<subseteq> set (replicas sha256 ring key)} \<union>
      {SentManifest newAddr (trim_prefix manifest_prefix key) data | key data. key \<in> set keys \<and> has_prefix manifest_prefix key \<and>
         rb_hasManifests r \<and> readManifest env (trim_prefix manifest_prefix key) = Some data \<and>
         {newAddr, rb_selfAddr r} \<subseteq> set (replicas sha256 ring key)}"
proof -
  let ?sent = "concat (map (\<lambda>key. fst (migrate_key r env (replicas sha256 ring key) newAddr key)) keys)"
  have one: "set (fst (migrate_key r env rs newAddr key)) =
      {SentFile newAddr key data | data. \<not> has_prefix manifest_prefix key \<and>
         readFile env key = Some data \<and> {newAddr, rb_selfAddr r} \<subseteq> set rs} \<union>
      {SentManifest newAddr (trim_prefix manifest_prefix key) data | data. has_prefix manifest_prefix key \<and>
         rb_hasManifests r \<and> readManifest env (trim_prefix manifest_prefix key) = Some data \<and> {newAddr, rb_selfAddr r} \<subseteq> set rs}"
    for rs key
    by (auto simp: migrate_key_def Let_def split: option.split)
  have "migrateToNewNode sha256 ring r env keys newAddr = Some ?sent"
    using migrate_loop_concat [OF assms(1-3)] assms(4) by (simp add: migrateToNewNode_def)
  moreover have "set ?sent =
      {SentFile newAddr key data | key data. key \<in> set keys \<and> \<not> has_prefix manifest_prefix key \<and>
         readFile env key = Some data \<and> {newAddr, rb_selfAddr r} \<subseteq> set (replicas sha256 ring key)} \<union>
      {SentManifest newAddr (trim_prefix manifest_prefix key) data | key data. key \<in> set keys \<and> has_prefix manifest_prefix key \<and>
         rb_hasManifests r \<and> readManifest env (trim_prefix manifest_prefix key) = Some data \<and>
         {newAddr, rb_selfAddr r} \<subseteq> set (replicas sha256 ring key)}"
    unfolding set_concat set_map image_image one by blast
  ultimately show ?thesis by blast
qed

definition demo_env :: rb_env where
  "demo_env = \<lparr>readFile = (\<lambda>k. if k = ''d'' then Some [1, 2] else None), readManifest = (\<lambda>_. None),
     sendOk = (\<lambda>_ _. True), stopped = (\<lambda>_. False)\<rparr>"

lemma demo_replicas: "set (replicas demo_sha demo_ring ''d'') = {''c'', ''e''}"
  by (auto simp: replicas_def demo_ring_eq ring_ReplicationFactor_def ring_GetNodes_def ring_search_def
      sort_search_def sort_search_loop.simps owner_def go_get_def Let_def)

theorem migrate_exact_witness:
  "\<exists>sent. migrateToNewNode demo_sha demo_ring (rb_New ''e'') demo_env [''d''] ''c'' = Some sent \<and>
     SentFile ''c'' ''d'' [1, 2] \<in> set sent"
proof -
  have rf: "0 \<le> ring_ReplicationFactor demo_ring" by (simp add: demo_ring_eq ring_ReplicationFactor_def)
  have st: "\<forall>key \<in> set [''d'']. \<not> stopped demo_env key" by (simp add: demo_env_def)
  have ip: "\<not> rb_inProgress (rb_New ''e'')" by (simp add: rb_New_def)
  have mem: "\<not> has_prefix manifest_prefix ''d''" "readFile demo_env ''d'' = Some [1, 2]"
      "{''c'', rb_selfAddr (rb_New ''e'')} \<subseteq> set (replicas demo_sha demo_ring ''d'')"
    by (simp_all add: demo_replicas demo_env_def rb_New_def has_prefix_def manifest_prefix_def)
  from migrate_exact [OF demo_ring_ok rf st ip, of "''c''"] show ?thesis
  proof (elim exE conjE, goal_cases)
    case (1 sent)
    have "SentFile ''c'' ''d'' [1, 2] \<in> set sent"
      unfolding 1(2)
      by (rule UnI1, rule CollectI, rule exI [of _ "''d''"], rule exI [of _ "[1, 2]"]) (use mem in simp)
    then show ?case using 1(1) by (intro exI conjI)
  qed
qed

text \<open>Re-replication after a node has left only acts in a cluster smaller than the replication factor:
  with at least that many nodes left in the ring nothing is sent, although the new replica of a
  key of the dead node holds no copy; with fewer, every readable key goes to all other members.\<close>

lemma rereplicate_exact:
  assumes "ring_ok sha256 ring" and "0 \<le> ring_ReplicationFactor ring" and "\<not> rb_inProgress r"
    and "rb_selfAddr r \<in> set (ring_Members ring)" and "dead \<notin> set (ring_Members ring)"
  shows "\<exists>sent. rereplicate sha256 ring r env keys dead = Some sent \<and>
    (if ring_ReplicationFactor ring \<le> int (ring_Size ring) then sent = []
     else set sent = {SentFile target key data | target key data. key \<in> set keys \<and>
            readFile env key = Some data \<and> target \<in> set (ring_Members ring) - {rb_selfAddr r}})"
proof -
  let ?n = "ring_ReplicationFactor ring"
  let ?sent = "concat (map (\<lambda>key. rereplicate_key r env ?n (replicas sha256 ring key) dead key) keys)"
  have run: "rereplicate sha256 ring r env keys dead = Some ?sent"
    using rereplicate_loop_concat [OF assms(1,2)] assms(3) by (simp add: rereplicate_def)
  have len: "int (length (replicas sha256 ring key)) = min ?n (int (ring_Size ring))" for key
    using ring.nodes_length [OF assms(1,2) replicas_Some [OF assms(1,2)]] by (simp add: card_ring_Members [OF assms(1)])
  show ?thesis
  proof (cases "?n \<le> int (ring_Size ring)")
    case True
    then have "rereplicate_key r env ?n (replicas sha256 ring key) dead key = []" for key
      using len [of key] by (simp add: rereplicate_key_def)
    then show ?thesis using run True by simp
  next
    case False
    then have all: "set (replicas sha256 ring key) = set (ring_Members ring)" for key
      using ring.all_members_when_few [OF assms(1) _ replicas_Some [OF assms(1,2)]]
      by (simp add: card_ring_Members [OF assms(1)])
    have one: "set (rereplicate_key r env ?n (replicas sha256 ring key) dead key)
        = {SentFile target key data | target data. readFile env key = Some data \<and>
             target \<in> set (ring_Members ring) - {rb_selfAddr r}}" for key
      using False len [of key] all [of key] assms(4,5)
      by (auto simp: rereplicate_key_def split: option.split)
    have "set ?sent = {SentFile target key data | target key data. key \<in> set keys \<and>
            readFile env key = Some data \<and> target \<in> set (ring_Members ring) - {rb_selfAddr r}}"
      unfolding set_concat set_map image_image one by blast
    then show ?thesis using run False by auto
  qed
qed

theorem rereplicate_exact_witness:
  "rereplicate demo_sha demo_ring (rb_New ''e'') demo_env [''d''] ''a'' = Some []"
proof -
  have rf: "0 \<le> ring_ReplicationFactor demo_ring" by (simp add: demo_ring_eq ring_ReplicationFactor_def)
  have ip: "\<not> rb_inProgress (rb_New ''e'')" by (simp add: rb_New_def)
  have m: "rb_selfAddr (rb_New ''e'') \<in> set (ring_Members demo_ring)" "''a'' \<notin> set (ring_Members demo_ring)"
    by (simp_all add: demo_ring_eq ring_Members_def rb_New_def)
  show ?thesis
    using rereplicate_exact [OF demo_ring_ok rf ip m, of demo_env "[''d'']"]
    by (simp add: demo_ring_eq ring_ReplicationFactor_def ring_Size_def)
qed

end
