(* ===== verification/Membership.thy ===== *)
theory Membership
  imports Prelude
begin

text \<open>
  The membership table, \<open>Cluster/membership/membership.go\<close>. Every operation of
  \<open>ClusterState\<close> is a function on the record \<open>cluster_state\<close>; the clock reading
  \<open>time.Now().UnixNano()\<close> is the argument \<open>now\<close>. Listeners are identified by numbers and
  \<open>fired\<close> logs the calls \<open>fireChange\<close> makes, in order. Node states are the four declared
  constants in their declared order. The mutex makes each operation atomic, so a concurrent
  execution is a sequence of these functions.

  \<open>cs_view\<close> is the abstraction: the generation and state of every known address. The laws of the
  operations on the view form the locale \<open>membership_table\<close>, the interface gossip uses.
\<close>

section \<open>Data\<close>

text \<open>\<open>NodeState\<close> is an \<open>int32\<close> with these four constants. A message of gossip could carry another number; the code
  compares and stores it like the others, the model has only the constants.\<close>

datatype node_state = StateAlive | StateSuspect | StateDead | StateLeft

fun state_num :: "node_state \<Rightarrow> nat" where
  "state_num StateAlive = 0"
| "state_num StateSuspect = 1"
| "state_num StateDead = 2"
| "state_num StateLeft = 3"

lemma state_num_inject [simp]: "state_num s = state_num t \<longleftrightarrow> s = t"
  by (cases s; cases t) auto

instantiation node_state :: linorder
begin

definition less_eq_node_state :: "node_state \<Rightarrow> node_state \<Rightarrow> bool" where
  "less_eq_node_state s t \<longleftrightarrow> state_num s \<le> state_num t"

definition less_node_state :: "node_state \<Rightarrow> node_state \<Rightarrow> bool" where
  "less_node_state s t \<longleftrightarrow> state_num s < state_num t"

instance
  by standard (auto simp: less_eq_node_state_def less_node_state_def)

end

definition state_String :: "node_state \<Rightarrow> string" where
  "state_String s = (case s of StateAlive \<Rightarrow> ''Alive'' | StateSuspect \<Rightarrow> ''Suspect''
     | StateDead \<Rightarrow> ''Dead'' | StateLeft \<Rightarrow> ''Left'')"

record node_info =
  Addr :: string
  State :: node_state
  Generation :: uint64
  LastUpdated :: int
  Metadata :: "(string, string) gomap option"

record gossip_digest =
  DAddr :: string
  DState :: node_state
  DGeneration :: uint64

record cluster_state =
  selfAddr :: string
  nodes :: "(string, node_info) gomap"
  onChange :: "nat list"
  fired :: "(nat \<times> string \<times> node_state \<times> node_state) list"

section \<open>Operations\<close>

definition cs_New :: "string \<Rightarrow> int \<Rightarrow> cluster_state" where
  "cs_New self now =
     (let gen = (word_of_int now :: uint64);
          gen = (if gen < 2 then 2 else gen)
      in \<lparr>selfAddr = self,
          nodes = [(self, \<lparr>Addr = self, State = StateAlive, Generation = gen, LastUpdated = now,
                          Metadata = Some []\<rparr>)],
          onChange = [], fired = []\<rparr>)"

definition cs_OnChange :: "nat \<Rightarrow> cluster_state \<Rightarrow> cluster_state" where
  "cs_OnChange fn cs = cs\<lparr>onChange := onChange cs @ [fn]\<rparr>"

definition fireChange :: "string \<Rightarrow> node_state \<Rightarrow> node_state \<Rightarrow> cluster_state \<Rightarrow> cluster_state" where
  "fireChange addr oldState newState cs =
     cs\<lparr>fired := fired cs @ map (\<lambda>fn. (fn, addr, oldState, newState)) (onChange cs)\<rparr>"

text \<open>A write through the pointer \<open>cs.nodes[addr]\<close>, or the insertion of a fresh entry.\<close>

definition set_node :: "string \<Rightarrow> node_info \<Rightarrow> cluster_state \<Rightarrow> cluster_state" where
  "set_node addr n cs = cs\<lparr>nodes := AList.update addr n (nodes cs)\<rparr>"

definition cs_AddNode ::
  "int \<Rightarrow> string \<Rightarrow> (string, string) gomap option \<Rightarrow> cluster_state \<Rightarrow> cluster_state" where
  "cs_AddNode now addr meta cs =
     (case map_of (nodes cs) addr of
        Some _ \<Rightarrow> cs
      | None \<Rightarrow>
          (let meta = (case meta of None \<Rightarrow> [] | Some m \<Rightarrow> m)
           in fireChange addr StateAlive StateAlive
                (set_node addr \<lparr>Addr = addr, State = StateAlive, Generation = 1, LastUpdated = now,
                                Metadata = Some meta\<rparr> cs)))"

definition cs_RemoveNode :: "string \<Rightarrow> cluster_state \<Rightarrow> cluster_state" where
  "cs_RemoveNode addr cs = cs\<lparr>nodes := AList.delete addr (nodes cs)\<rparr>"

definition cs_UpdateState ::
  "int \<Rightarrow> string \<Rightarrow> node_state \<Rightarrow> uint64 \<Rightarrow> cluster_state \<Rightarrow> cluster_state \<times> bool" where
  "cs_UpdateState now addr newState generation cs =
     (case map_of (nodes cs) addr of
        None \<Rightarrow>
          (fireChange addr StateAlive newState
             (set_node addr \<lparr>Addr = addr, State = newState, Generation = generation,
                             LastUpdated = now, Metadata = Some []\<rparr> cs), True)
      | Some existing \<Rightarrow>
          if generation \<le> Generation existing then (cs, False)
          else
            (fireChange addr (State existing) newState
               (set_node addr (existing\<lparr>State := newState, Generation := generation,
                                        LastUpdated := now\<rparr>) cs), True))"

text \<open>The wall clock as a generation, one past the current generation when the clock is behind.\<close>

definition clock_generation :: "int \<Rightarrow> uint64 \<Rightarrow> uint64" where
  "clock_generation now current =
     (let newGen = word_of_int now in if newGen \<le> current then current + 1 else newGen)"

definition cs_ForceLocalState :: "int \<Rightarrow> string \<Rightarrow> node_state \<Rightarrow> cluster_state \<Rightarrow> cluster_state" where
  "cs_ForceLocalState now addr newState cs =
     (case map_of (nodes cs) addr of
        None \<Rightarrow> cs
      | Some existing \<Rightarrow>
          fireChange addr (State existing) newState
            (set_node addr (existing\<lparr>State := newState,
                                     Generation := clock_generation now (Generation existing),
                                     LastUpdated := now\<rparr>) cs))"

definition cs_SetMetadata :: "string \<Rightarrow> (string, string) gomap \<Rightarrow> cluster_state \<Rightarrow> cluster_state" where
  "cs_SetMetadata addr meta cs =
     (case map_of (nodes cs) addr of
        None \<Rightarrow> cs
      | Some node \<Rightarrow>
          (let m = (case Metadata node of None \<Rightarrow> [] | Some m \<Rightarrow> m)
           in set_node addr (node\<lparr>Metadata := Some (fold (\<lambda>(k, v). AList.update k v) meta m)\<rparr>) cs))"

definition cs_GetNode :: "string \<Rightarrow> cluster_state \<Rightarrow> node_info option" where
  "cs_GetNode addr cs = map_of (nodes cs) addr"

definition cs_GetNodes :: "string list \<Rightarrow> cluster_state \<Rightarrow> node_info list" where
  "cs_GetNodes addrs cs = List.map_filter (map_of (nodes cs)) addrs"

definition cs_AliveNodes :: "cluster_state \<Rightarrow> string list" where
  "cs_AliveNodes cs = map fst (filter (\<lambda>(addr, n). State n = StateAlive) (nodes cs))"

definition cs_AllNodes :: "cluster_state \<Rightarrow> node_info list" where
  "cs_AllNodes cs = map snd (nodes cs)"

definition cs_Digest :: "cluster_state \<Rightarrow> gossip_digest list" where
  "cs_Digest cs =
     map (\<lambda>(_, n). \<lparr>DAddr = Addr n, DState = State n, DGeneration = Generation n\<rparr>) (nodes cs)"

text \<open>One iteration of the loop of \<open>Merge\<close>: the table and the addresses to request.\<close>

definition merge_step :: "int \<Rightarrow> gossip_digest \<Rightarrow> cluster_state \<times> string list \<Rightarrow> cluster_state \<times> string list" where
  "merge_step now d = (\<lambda>(cs, needFull).
     (case map_of (nodes cs) (DAddr d) of
        None \<Rightarrow> (cs, needFull @ [DAddr d])
      | Some local \<Rightarrow>
          if DGeneration d > Generation local then (cs, needFull @ [DAddr d])
          else if DGeneration d = Generation local \<and> DState d > State local then
            (fireChange (DAddr d) (State local) (DState d)
               (set_node (DAddr d) (local\<lparr>State := DState d, LastUpdated := now\<rparr>) cs), needFull)
          else (cs, needFull)))"

definition cs_Merge :: "int \<Rightarrow> gossip_digest list \<Rightarrow> cluster_state \<Rightarrow> cluster_state \<times> string list" where
  "cs_Merge now digests cs = fold (merge_step now) digests (cs, [])"

definition cs_NextGeneration :: "string \<Rightarrow> cluster_state \<Rightarrow> uint64" where
  "cs_NextGeneration addr cs =
     (case map_of (nodes cs) addr of Some n \<Rightarrow> Generation n + 1 | None \<Rightarrow> 2)"

definition cs_BumpSelfGeneration :: "int \<Rightarrow> cluster_state \<Rightarrow> cluster_state" where
  "cs_BumpSelfGeneration now cs =
     (case map_of (nodes cs) (selfAddr cs) of
        None \<Rightarrow> cs
      | Some self \<Rightarrow>
          set_node (selfAddr cs) (self\<lparr>Generation := clock_generation now (Generation self),
                                       LastUpdated := now\<rparr>) cs)"

definition cs_SelfAddr :: "cluster_state \<Rightarrow> string" where
  "cs_SelfAddr cs = selfAddr cs"

section \<open>Well-formed tables\<close>

definition cs_ok :: "cluster_state \<Rightarrow> bool" where
  "cs_ok cs \<longleftrightarrow> go_wf (nodes cs) \<and> (\<forall>(a, n) \<in> set (nodes cs). Addr n = a)"

lemma cs_okD:
  assumes "cs_ok cs"
  shows "go_wf (nodes cs)" and "map_of (nodes cs) a = Some n \<Longrightarrow> Addr n = a"
  using assms by (auto simp: cs_ok_def dest: map_of_SomeD)

lemma fireChange_simps [simp]:
  "nodes (fireChange a s t cs) = nodes cs" "selfAddr (fireChange a s t cs) = selfAddr cs"
  "onChange (fireChange a s t cs) = onChange cs"
  by (simp_all add: fireChange_def)

lemma set_node_simps [simp]:
  "nodes (set_node a n cs) = AList.update a n (nodes cs)" "selfAddr (set_node a n cs) = selfAddr cs"
  "onChange (set_node a n cs) = onChange cs" "fired (set_node a n cs) = fired cs"
  by (simp_all add: set_node_def)

lemma cs_ok_fireChange [simp]: "cs_ok (fireChange a s t cs) \<longleftrightarrow> cs_ok cs"
  by (simp add: cs_ok_def)

lemma cs_ok_set_node [simp]: "cs_ok cs \<Longrightarrow> Addr n = a \<Longrightarrow> cs_ok (set_node a n cs)"
  using set_update_subset [of a n "nodes cs"] unfolding cs_ok_def by auto

lemma cs_ok_New [simp]: "cs_ok (cs_New self now)"
  by (simp add: cs_ok_def cs_New_def Let_def)

lemma cs_ok_OnChange [simp]: "cs_ok (cs_OnChange fn cs) \<longleftrightarrow> cs_ok cs"
  by (simp add: cs_ok_def cs_OnChange_def)

lemma cs_ok_AddNode [simp]: "cs_ok cs \<Longrightarrow> cs_ok (cs_AddNode now addr meta cs)"
  by (simp add: cs_AddNode_def split: option.split)

lemma cs_ok_RemoveNode [simp]: "cs_ok cs \<Longrightarrow> cs_ok (cs_RemoveNode addr cs)"
  using set_delete_subset [of addr "nodes cs"] by (auto simp: cs_ok_def cs_RemoveNode_def)

lemma cs_ok_UpdateState [simp]: "cs_ok cs \<Longrightarrow> cs_ok (fst (cs_UpdateState now addr s g cs))"
  by (auto simp: cs_UpdateState_def cs_okD split: option.split)

lemma cs_ok_ForceLocalState [simp]: "cs_ok cs \<Longrightarrow> cs_ok (cs_ForceLocalState now addr s cs)"
  by (auto simp: cs_ForceLocalState_def cs_okD split: option.split)

lemma cs_ok_SetMetadata [simp]: "cs_ok cs \<Longrightarrow> cs_ok (cs_SetMetadata addr meta cs)"
  by (auto simp: cs_SetMetadata_def cs_okD Let_def split: option.split)

lemma cs_ok_BumpSelfGeneration [simp]: "cs_ok cs \<Longrightarrow> cs_ok (cs_BumpSelfGeneration now cs)"
  by (auto simp: cs_BumpSelfGeneration_def cs_okD split: option.split)

lemma cs_ok_merge_step: "cs_ok (fst p) \<Longrightarrow> cs_ok (fst (merge_step now d p))"
  by (cases p) (auto simp: merge_step_def cs_okD split: option.split)

lemma cs_ok_Merge [simp]: "cs_ok cs \<Longrightarrow> cs_ok (fst (cs_Merge now ds cs))"
  unfolding cs_Merge_def by (rule fold_invariant [where Q = "\<lambda>_. True"]) (auto simp: cs_ok_merge_step)

lemma selfAddr_AddNode [simp]: "selfAddr (cs_AddNode now a meta cs) = selfAddr cs"
  by (simp add: cs_AddNode_def Let_def split: option.split)

lemma selfAddr_UpdateState [simp]: "selfAddr (fst (cs_UpdateState now a s g cs)) = selfAddr cs"
  by (simp add: cs_UpdateState_def split: option.split)

lemma selfAddr_merge_step [simp]: "selfAddr (fst (merge_step now d p)) = selfAddr (fst p)"
  by (cases p) (simp add: merge_step_def split: option.split)

lemma selfAddr_Merge [simp]: "selfAddr (fst (cs_Merge now ds cs)) = selfAddr cs"
proof -
  have "selfAddr (fst (fold (merge_step now) ds p)) = selfAddr (fst p)" for p
    by (induction ds arbitrary: p) simp_all
  then show ?thesis by (simp add: cs_Merge_def)
qed

section \<open>The abstract view\<close>

type_synonym view = "string \<Rightarrow> (uint64 \<times> node_state) option"

definition cs_view :: "cluster_state \<Rightarrow> view" where
  "cs_view cs a = map_option (\<lambda>n. (Generation n, State n)) (map_of (nodes cs) a)"

definition view_add :: "string \<Rightarrow> view \<Rightarrow> view" where
  "view_add a v = (if v a = None then v(a \<mapsto> (1, StateAlive)) else v)"

definition view_update :: "string \<Rightarrow> node_state \<Rightarrow> uint64 \<Rightarrow> view \<Rightarrow> view" where
  "view_update a s g v =
     (case v a of None \<Rightarrow> v(a \<mapsto> (g, s))
      | Some (g0, s0) \<Rightarrow> if g \<le> g0 then v else v(a \<mapsto> (g, s)))"

text \<open>The states a list of digests reports for address \<open>a\<close> at generation \<open>g\<close>.\<close>

definition reported :: "gossip_digest list \<Rightarrow> string \<Rightarrow> uint64 \<Rightarrow> node_state list" where
  "reported ds a g = map DState (filter (\<lambda>d. DAddr d = a \<and> DGeneration d = g) ds)"

definition view_merge :: "gossip_digest list \<Rightarrow> view \<Rightarrow> view" where
  "view_merge ds v = (\<lambda>a. map_option (\<lambda>(g, s). (g, fold max (reported ds a g) s)) (v a))"

definition newer_in :: "view \<Rightarrow> gossip_digest \<Rightarrow> bool" where
  "newer_in v d \<longleftrightarrow> (case v (DAddr d) of None \<Rightarrow> True | Some (g, s) \<Rightarrow> g < DGeneration d)"

lemma cs_view_fireChange [simp]: "cs_view (fireChange a s t cs) = cs_view cs"
  by (rule ext) (simp add: cs_view_def)

lemma cs_view_set_node [simp]: "cs_view (set_node a n cs) = (cs_view cs)(a \<mapsto> (Generation n, State n))"
  by (rule ext) (simp add: cs_view_def)

lemma cs_view_AddNode: "cs_view (cs_AddNode now a meta cs) = view_add a (cs_view cs)"
  by (auto simp: cs_AddNode_def view_add_def cs_view_def Let_def split: option.splits)

lemma cs_view_UpdateState: "cs_view (fst (cs_UpdateState now a s g cs)) = view_update a s g (cs_view cs)"
  by (auto simp: cs_UpdateState_def view_update_def cs_view_def [of cs] split: option.splits)

lemma cs_UpdateState_applied:
  "snd (cs_UpdateState now a s g cs)
   \<longleftrightarrow> (case cs_view cs a of None \<Rightarrow> True | Some (g0, s0) \<Rightarrow> g0 < g)"
  by (auto simp: cs_UpdateState_def cs_view_def split: option.splits)

lemma cs_view_SetMetadata [simp]: "cs_view (cs_SetMetadata a meta cs) = cs_view cs"
proof (cases "map_of (nodes cs) a")
  case (Some n)
  then have "cs_view cs a = Some (Generation n, State n)" by (simp add: cs_view_def)
  then show ?thesis using Some by (simp add: cs_SetMetadata_def Let_def fun_upd_idem)
qed (simp add: cs_SetMetadata_def)

lemma cs_view_RemoveNode: "cs_view (cs_RemoveNode a cs) = (cs_view cs)(a := None)"
  by (rule ext) (simp add: cs_view_def cs_RemoveNode_def)

lemma cs_view_OnChange [simp]: "cs_view (cs_OnChange fn cs) = cs_view cs"
  by (rule ext) (simp add: cs_view_def cs_OnChange_def)

lemma cs_view_merge_step:
  "cs_view (fst (merge_step now d p)) = view_merge [d] (cs_view (fst p))"
  "snd (merge_step now d p) = snd p @ (if newer_in (cs_view (fst p)) d then [DAddr d] else [])"
proof -
  obtain cs need where p: "p = (cs, need)" by (cases p)
  show "snd (merge_step now d p) = snd p @ (if newer_in (cs_view (fst p)) d then [DAddr d] else [])"
    by (auto simp: p merge_step_def newer_in_def cs_view_def split: option.splits)
  show "cs_view (fst (merge_step now d p)) = view_merge [d] (cs_view (fst p))"
  proof
    fix a
    show "cs_view (fst (merge_step now d p)) a = view_merge [d] (cs_view (fst p)) a"
      by (cases "map_of (nodes cs) a"; cases "a = DAddr d")
        (auto simp: p merge_step_def view_merge_def reported_def cs_view_def [of cs] max_def
          split: option.splits)
  qed
qed

lemma newer_in_merge: "newer_in (view_merge ds v) d = newer_in v d"
  by (auto simp: newer_in_def view_merge_def split: option.splits)

lemma view_merge_Cons: "view_merge ds (view_merge [d] v) = view_merge (d # ds) v"
proof
  fix a
  show "view_merge ds (view_merge [d] v) a = view_merge (d # ds) v a"
    by (cases "v a") (auto simp: view_merge_def reported_def)
qed

lemma cs_view_merge_fold:
  "cs_view (fst (fold (merge_step now) ds p)) = view_merge ds (cs_view (fst p)) \<and>
   snd (fold (merge_step now) ds p) = snd p @ map DAddr (filter (newer_in (cs_view (fst p))) ds)"
proof (induction ds arbitrary: p)
  case Nil
  have "view_merge [] v = v" for v
  proof
    fix a
    show "view_merge [] v a = v a" by (cases "v a") (auto simp: view_merge_def reported_def)
  qed
  then show ?case by simp
next
  case (Cons d ds)
  show ?case
    using Cons.IH [of "merge_step now d p"]
    by (simp add: cs_view_merge_step view_merge_Cons newer_in_merge [abs_def])
qed

lemma cs_view_Merge: "cs_view (fst (cs_Merge now ds cs)) = view_merge ds (cs_view cs)"
  using cs_view_merge_fold [of now ds "(cs, [])"] by (simp add: cs_Merge_def)

lemma cs_Merge_need: "snd (cs_Merge now ds cs) = map DAddr (filter (newer_in (cs_view cs)) ds)"
  using cs_view_merge_fold [of now ds "(cs, [])"] by (simp add: cs_Merge_def)

section \<open>Generations only grow\<close>

text \<open>\<open>v\<close> is no newer than \<open>w\<close>: what is known stays known, and generation and state only move up
  in the order in which the table resolves conflicts.\<close>

definition not_newer :: "uint64 \<times> node_state \<Rightarrow> uint64 \<times> node_state \<Rightarrow> bool" where
  "not_newer p q \<longleftrightarrow> fst p < fst q \<or> fst p = fst q \<and> snd p \<le> snd q"

definition view_le :: "view \<Rightarrow> view \<Rightarrow> bool" where
  "view_le v w \<longleftrightarrow> (\<forall>a p. v a = Some p \<longrightarrow> (\<exists>q. w a = Some q \<and> not_newer p q))"

lemma not_newer_refl [simp]: "not_newer p p"
  by (simp add: not_newer_def)

lemma not_newer_trans: "not_newer p q \<Longrightarrow> not_newer q r \<Longrightarrow> not_newer p r"
  by (auto simp: not_newer_def)

lemma view_le_refl [simp]: "view_le v v"
  by (simp add: view_le_def)

lemma view_le_trans [trans]:
  assumes "view_le u v" and "view_le v w"
  shows "view_le u w"
  unfolding view_le_def
proof (intro allI impI)
  fix a p assume "u a = Some p"
  then obtain q where q: "v a = Some q" "not_newer p q" using assms(1) unfolding view_le_def by blast
  then obtain r where "w a = Some r" "not_newer q r" using assms(2) unfolding view_le_def by blast
  then show "\<exists>r. w a = Some r \<and> not_newer p r" using q not_newer_trans by blast
qed

lemma view_le_upd: "(\<And>p. v a = Some p \<Longrightarrow> not_newer p q) \<Longrightarrow> view_le v (v(a \<mapsto> q))"
  by (auto simp del: split_paired_All split_paired_Ex simp: view_le_def)

lemma view_le_add [simp]: "view_le v (view_add a v)"
  by (auto simp: view_add_def intro!: view_le_upd)

lemma view_le_update [simp]: "view_le v (view_update a s g v)"
  by (auto simp: view_update_def not_newer_def intro!: view_le_upd split: option.split)

lemma fold_max_ge: "(s :: 'a::linorder) \<le> fold max xs s"
proof (induction xs arbitrary: s)
  case (Cons x xs)
  have "s \<le> max x s" by simp
  also have "\<dots> \<le> fold max xs (max x s)" by (rule Cons.IH)
  finally show ?case by simp
qed simp

lemma view_le_merge [simp]: "view_le v (view_merge ds v)"
  by (auto simp: view_le_def view_merge_def not_newer_def fold_max_ge)

lemma clock_generation_grows: "g \<noteq> - 1 \<Longrightarrow> g < clock_generation now g"
  using word_less_plus_one [of g] by (auto simp: clock_generation_def Let_def not_le)

lemma clock_generation_last: "clock_generation now (- 1) = 0"
  by (simp add: clock_generation_def Let_def)

section \<open>The interface of the table\<close>

text \<open>The laws gossip relies on. \<open>view_of\<close> is what a table promises; updates are last-writer-wins
  by generation, and a merge reports exactly the digests that are newer.\<close>

locale membership_table =
  fixes view_of :: "'cs \<Rightarrow> view"
    and update :: "int \<Rightarrow> string \<Rightarrow> node_state \<Rightarrow> uint64 \<Rightarrow> 'cs \<Rightarrow> 'cs"
    and add :: "int \<Rightarrow> string \<Rightarrow> 'cs \<Rightarrow> 'cs"
    and merge :: "int \<Rightarrow> gossip_digest list \<Rightarrow> 'cs \<Rightarrow> 'cs \<times> string list"
  assumes update_law: "view_of (update now a s g c) = view_update a s g (view_of c)"
    and add_law: "view_of (add now a c) = view_add a (view_of c)"
    and merge_law: "view_of (fst (merge now ds c)) = view_merge ds (view_of c)"
    and need_law: "snd (merge now ds c) = map DAddr (filter (newer_in (view_of c)) ds)"
begin

definition updates :: "int \<Rightarrow> (string \<times> node_state \<times> uint64) list \<Rightarrow> 'cs \<Rightarrow> 'cs" where
  "updates now us c = fold (\<lambda>(a, s, g). update now a s g) us c"

lemma updates_view: "view_of (updates now us c) = fold (\<lambda>(a, s, g). view_update a s g) us (view_of c)"
  by (induction us arbitrary: c) (auto simp: updates_def update_law split: prod.split)

lemma update_twice:
  assumes "a \<noteq> b \<or> g \<noteq> h \<or> s = t"
  shows "view_update a s g (view_update b t h v) = view_update b t h (view_update a s g v)"
  using assms by (cases "v a"; cases "v b")
    (auto simp: view_update_def fun_upd_twist split: option.splits prod.splits)

lemma updates_order_independent:
  assumes "mset us = mset vs" and "inj_on (\<lambda>(a, s, g). (a, g)) (set us)"
  shows "view_of (updates now us c) = view_of (updates now vs c)"
proof -
  have comm: "(\<lambda>(a, s, g). view_update a s g) x ((\<lambda>(a, s, g). view_update a s g) y v)
      = (\<lambda>(a, s, g). view_update a s g) y ((\<lambda>(a, s, g). view_update a s g) x v)"
    if "x \<in> set us" "y \<in> set us" for x y v
  proof -
    obtain a s g b t h where xy: "x = (a, s, g)" "y = (b, t, h)" by (cases x; cases y)
    then have "a \<noteq> b \<or> g \<noteq> h \<or> s = t" using inj_onD [OF assms(2) _ that] by auto
    then show ?thesis by (simp add: xy update_twice)
  qed
  show ?thesis unfolding updates_view
    by (rule fold_permuted_eq [where P = "\<lambda>_. True", OF assms(1)]) (simp_all add: comm)
qed

lemma update_mono: "view_le (view_of c) (view_of (update now a s g c))"
  by (simp add: update_law)

lemma merge_mono: "view_le (view_of c) (view_of (fst (merge now ds c)))"
  by (simp add: merge_law)

end

interpretation table: membership_table cs_view
  "\<lambda>now a s g cs. fst (cs_UpdateState now a s g cs)" "\<lambda>now a cs. cs_AddNode now a None cs" cs_Merge
  by unfold_locales (simp_all add: cs_view_UpdateState cs_view_AddNode cs_view_Merge cs_Merge_need)

section \<open>Sequences of operations\<close>

datatype cs_op =
    OpOnChange nat
  | OpAdd string "(string, string) gomap option"
  | OpRemove string
  | OpUpdate string node_state uint64
  | OpForce string node_state
  | OpSetMetadata string "(string, string) gomap"
  | OpMerge "gossip_digest list"
  | OpBump

text \<open>One call at clock reading \<open>now\<close>.\<close>

fun cs_apply :: "int \<times> cs_op \<Rightarrow> cluster_state \<Rightarrow> cluster_state" where
  "cs_apply (now, OpOnChange fn) cs = cs_OnChange fn cs"
| "cs_apply (now, OpAdd a meta) cs = cs_AddNode now a meta cs"
| "cs_apply (now, OpRemove a) cs = cs_RemoveNode a cs"
| "cs_apply (now, OpUpdate a s g) cs = fst (cs_UpdateState now a s g cs)"
| "cs_apply (now, OpForce a s) cs = cs_ForceLocalState now a s cs"
| "cs_apply (now, OpSetMetadata a meta) cs = cs_SetMetadata a meta cs"
| "cs_apply (now, OpMerge ds) cs = fst (cs_Merge now ds cs)"
| "cs_apply (now, OpBump) cs = cs_BumpSelfGeneration now cs"

definition cs_run :: "(int \<times> cs_op) list \<Rightarrow> cluster_state \<Rightarrow> cluster_state" where
  "cs_run ops cs = fold cs_apply ops cs"

fun removed :: "int \<times> cs_op \<Rightarrow> string option" where
  "removed (_, OpRemove a) = Some a"
| "removed _ = None"

text \<open>The address whose generation an operation moves by the clock rather than by a message.\<close>

fun bumped :: "cluster_state \<Rightarrow> int \<times> cs_op \<Rightarrow> string option" where
  "bumped cs (_, OpForce a _) = Some a"
| "bumped cs (_, OpBump) = Some (selfAddr cs)"
| "bumped cs _ = None"

lemma cs_ok_apply: "cs_ok cs \<Longrightarrow> cs_ok (cs_apply op cs)"
  by (induction op cs rule: cs_apply.induct) simp_all

lemma cs_ok_run: "cs_ok cs \<Longrightarrow> cs_ok (cs_run ops cs)"
  unfolding cs_run_def
  by (rule fold_invariant [where Q = "\<lambda>_. True"]) (simp_all add: cs_ok_apply)

lemma view_ForceLocalState:
  "cs_view (cs_ForceLocalState now a s cs) =
     (case cs_view cs a of None \<Rightarrow> cs_view cs
      | Some (g, t) \<Rightarrow> (cs_view cs)(a \<mapsto> (clock_generation now g, s)))"
  by (auto simp: cs_ForceLocalState_def cs_view_def [of cs] split: option.split)

lemma view_BumpSelfGeneration:
  "cs_view (cs_BumpSelfGeneration now cs) =
     (case cs_view cs (selfAddr cs) of None \<Rightarrow> cs_view cs
      | Some (g, t) \<Rightarrow> (cs_view cs)(selfAddr cs \<mapsto> (clock_generation now g, t)))"
  by (auto simp: cs_BumpSelfGeneration_def cs_view_def [of cs] split: option.split)

text \<open>What one operation does to the entry of a known address: it stays the same or moves up, it is
  removed, or its generation was the largest 64-bit value and wraps to zero.\<close>

definition entry_step :: "uint64 \<times> node_state \<Rightarrow> (uint64 \<times> node_state) option \<Rightarrow> bool" where
  "entry_step p q \<longleftrightarrow> (\<exists>r. q = Some r \<and> (not_newer p r \<or> fst p = - 1 \<and> fst r = 0))"

lemma entry_step_le: "view_le v w \<Longrightarrow> v a = Some p \<Longrightarrow> entry_step p (w a)"
  unfolding view_le_def entry_step_def by blast

lemma entry_step_clock: "entry_step (g, t) (Some (clock_generation now g, s))"
  using clock_generation_grows [of g now] clock_generation_last [of now]
  by (cases "g = - 1") (auto simp: entry_step_def not_newer_def)

lemma entry_step_refl [simp]: "entry_step p (Some p)"
  unfolding entry_step_def by (blast intro: not_newer_refl)

lemma cs_apply_entry:
  assumes "cs_view cs a = Some p" and "removed op \<noteq> Some a"
  shows "entry_step p (cs_view (cs_apply op cs) a)"
proof -
  obtain g t where p: "p = (g, t)" by (cases p)
  show ?thesis
  proof (cases "(op, cs)" rule: cs_apply.cases)
    case (5 now b s cs)
    then show ?thesis using assms p by (auto simp: view_ForceLocalState entry_step_clock split: option.split)
  next
    case (8 now cs)
    then show ?thesis using assms p by (auto simp: view_BumpSelfGeneration entry_step_clock split: option.split)
  qed (use assms in \<open>auto simp: cs_view_AddNode cs_view_UpdateState cs_view_Merge cs_view_RemoveNode
        intro: entry_step_le [OF view_le_add] entry_step_le [OF view_le_update] entry_step_le [OF view_le_merge]\<close>)
qed

section \<open>Listeners\<close>

text \<open>The state a listener \<open>f\<close> last heard of for address \<open>a\<close>.\<close>

definition last_heard ::
  "nat \<Rightarrow> (nat \<times> string \<times> node_state \<times> node_state) list \<Rightarrow> string \<Rightarrow> node_state option" where
  "last_heard f calls a = fold (\<lambda>(fn, b, old, new) acc. if fn = f \<and> b = a then Some new else acc) calls None"

lemma last_heard_fire:
  "f \<in> set (onChange cs) \<Longrightarrow>
   last_heard f (fired (fireChange b old new cs)) = (last_heard f (fired cs))(b \<mapsto> new)"
proof
  fix a
  assume f: "f \<in> set (onChange cs)"
  have "fold (\<lambda>(fn, b, old, new) acc. if fn = f \<and> b = a then Some new else acc)
          (map (\<lambda>fn. (fn, b, old, new)) fns) z = (if b = a \<and> f \<in> set fns then Some new else z)" for fns z
    by (induction fns arbitrary: z) auto
  then show "last_heard f (fired (fireChange b old new cs)) a = ((last_heard f (fired cs))(b \<mapsto> new)) a"
    using f by (simp add: last_heard_def fireChange_def)
qed

definition mirrors :: "nat \<Rightarrow> string \<Rightarrow> cluster_state \<Rightarrow> bool" where
  "mirrors f a cs \<longleftrightarrow> f \<in> set (onChange cs) \<and> a \<noteq> selfAddr cs \<and>
     last_heard f (fired cs) a = map_option State (map_of (nodes cs) a)"

lemma mirrors_fire_set:
  assumes "mirrors f a cs" and "State n = s"
  shows "mirrors f a (fireChange b old s (set_node b n cs))"
proof -
  have f: "f \<in> set (onChange (set_node b n cs))" using assms by (simp add: mirrors_def)
  show ?thesis using assms by (simp add: mirrors_def last_heard_fire [OF f])
qed

lemma mirrors_set_same:
  "mirrors f a cs \<Longrightarrow> map_of (nodes cs) b = Some n \<Longrightarrow> State m = State n \<Longrightarrow> mirrors f a (set_node b m cs)"
  by (auto simp: mirrors_def)

lemma mirrors_merge_step:
  assumes "mirrors f a (fst p)"
  shows "mirrors f a (fst (merge_step now d p))"
proof -
  obtain cs need where p: "p = (cs, need)" by (cases p)
  show ?thesis
    using assms by (auto simp: p merge_step_def mirrors_fire_set split: option.split)
qed

lemma mirrors_Merge: "mirrors f a cs \<Longrightarrow> mirrors f a (fst (cs_Merge now ds cs))"
  unfolding cs_Merge_def
  by (rule fold_invariant [where Q = "\<lambda>_. True"]) (simp_all add: mirrors_merge_step)

lemma mirrors_apply:
  assumes "mirrors f a cs" and "removed op \<noteq> Some a"
  shows "mirrors f a (cs_apply op cs)"
proof (cases "(op, cs)" rule: cs_apply.cases)
  case (1 now fn cs')
  then show ?thesis using assms by (simp add: cs_OnChange_def mirrors_def)
next
  case (3 now b cs')
  then show ?thesis using assms by (auto simp: cs_RemoveNode_def mirrors_def)
next
  case (6 now b meta cs')
  then show ?thesis using assms by (auto simp: cs_SetMetadata_def Let_def mirrors_set_same split: option.split)
next
  case (8 now cs')
  then show ?thesis using assms by (auto simp: cs_BumpSelfGeneration_def mirrors_set_same split: option.split)
qed (use assms in \<open>auto simp: cs_AddNode_def cs_UpdateState_def cs_ForceLocalState_def mirrors_fire_set
      mirrors_Merge Let_def split: option.split\<close>)

lemma mirrors_run:
  "mirrors f a cs \<Longrightarrow> Some a \<notin> removed ` set ops \<Longrightarrow> mirrors f a (cs_run ops cs)"
proof (induction ops arbitrary: cs)
  case (Cons op ops)
  then show ?case using mirrors_apply [of f a cs op] by (auto simp: cs_run_def)
qed (simp add: cs_run_def)

section \<open>Properties\<close>

text \<open>C4. After any sequence of operations a listener registered at the start has been told the current
  state of every address other than the node's own: the last call it received for the address
  carries the state in the table, unless the address was removed, which notifies nobody.\<close>

theorem listeners_mirror_table:
  assumes "a \<noteq> self" and "Some a \<notin> removed ` set ops"
  shows "last_heard f (fired (cs_run ops (cs_OnChange f (cs_New self now)))) a
       = map_option State (map_of (nodes (cs_run ops (cs_OnChange f (cs_New self now)))) a)"
proof -
  have "mirrors f a (cs_OnChange f (cs_New self now))"
    using assms(1) by (auto simp: mirrors_def cs_OnChange_def cs_New_def Let_def last_heard_def)
  from mirrors_run [OF this assms(2)] show ?thesis by (simp add: mirrors_def)
qed

theorem listeners_mirror_table_witness:
  "last_heard 7 (fired (cs_run [(5, OpAdd ''b'' None), (6, OpUpdate ''b'' StateDead 4), (7, OpRemove ''c'')]
       (cs_OnChange 7 (cs_New ''a'' 3)))) ''b'' = Some StateDead"
  using listeners_mirror_table [of "''b''" "''a''"
      "[(5, OpAdd ''b'' None), (6, OpUpdate ''b'' StateDead 4), (7, OpRemove ''c'')]" 7 3]
  by (simp add: cs_run_def cs_OnChange_def cs_New_def cs_AddNode_def cs_UpdateState_def cs_RemoveNode_def
      fireChange_def set_node_def Let_def word_le_nat_alt)

text \<open>C5. No operation moves what is known of an address backwards: except for \<open>RemoveNode\<close>, the pair
  of generation and state grows lexicographically, or the generation was \<open>2^64 - 1\<close> and wraps
  to zero, which only \<open>ForceLocalState\<close> and \<open>BumpSelfGeneration\<close> do.\<close>

theorem entries_never_go_back:
  assumes "map_of (nodes cs) a = Some n" and "removed op \<noteq> Some a"
  shows "\<exists>m. map_of (nodes (cs_apply op cs)) a = Some m \<and>
    (Generation n < Generation m \<or> Generation n = Generation m \<and> State n \<le> State m \<or>
     bumped cs op = Some a \<and> Generation n = - 1 \<and> Generation m = 0)"
proof -
  have v: "cs_view cs a = Some (Generation n, State n)" using assms(1) by (simp add: cs_view_def)
  obtain q where q: "cs_view (cs_apply op cs) a = Some q"
    and le: "not_newer (Generation n, State n) q \<or> Generation n = - 1 \<and> fst q = 0"
    using cs_apply_entry [OF v assms(2)] unfolding entry_step_def by auto
  obtain m where m: "map_of (nodes (cs_apply op cs)) a = Some m" "q = (Generation m, State m)"
    using q by (auto simp: cs_view_def)
  have "not_newer (Generation n, State n) q" if "bumped cs op \<noteq> Some a"
  proof -
    have "view_le (cs_view cs) (cs_view (cs_apply op cs)) \<or> cs_view (cs_apply op cs) a = cs_view cs a"
      using that assms(2)
      by (cases "(op, cs)" rule: cs_apply.cases)
         (auto simp: cs_view_AddNode cs_view_UpdateState cs_view_Merge cs_view_RemoveNode
           view_ForceLocalState view_BumpSelfGeneration split: option.split)
    then show ?thesis
    proof
      assume "view_le (cs_view cs) (cs_view (cs_apply op cs))"
      then obtain r where "cs_view (cs_apply op cs) a = Some r" "not_newer (Generation n, State n) r"
        using v unfolding view_le_def by blast
      then show ?thesis using q by simp
    qed (use v q in simp)
  qed
  then show ?thesis using m le by (auto simp: not_newer_def)
qed

definition demo_table :: cluster_state where
  "demo_table = cs_run [(5, OpAdd ''b'' None), (6, OpUpdate ''b'' StateDead 4)] (cs_New ''a'' 3)"

lemma demo_table_b: "\<exists>n. map_of (nodes demo_table) ''b'' = Some n \<and> Generation n = 4 \<and> State n = StateDead"
  by (simp add: demo_table_def cs_run_def cs_New_def cs_AddNode_def cs_UpdateState_def fireChange_def
      set_node_def Let_def word_le_nat_alt)

theorem entries_never_go_back_witness:
  "\<exists>m. map_of (nodes (cs_apply (9, OpUpdate ''b'' StateAlive 4) demo_table)) ''b'' = Some m \<and>
     (4 < Generation m \<or> 4 = Generation m \<and> StateDead \<le> State m)"
proof -
  obtain n where n: "map_of (nodes demo_table) ''b'' = Some n" "Generation n = 4" "State n = StateDead"
    using demo_table_b by blast
  show ?thesis
    using entries_never_go_back [OF n(1), of "(9, OpUpdate ''b'' StateAlive 4)"] n by auto
qed

text \<open>\<open>Merge\<close> requests exactly the addresses whose digest is unknown or carries a larger generation,
  in the order of the digests; it changes no generation and adds no address, and the state of a
  known address becomes the highest one reported for its current generation.\<close>

lemma Merge_exact:
  "snd (cs_Merge now ds cs)
     = map DAddr (filter (\<lambda>d. case map_of (nodes cs) (DAddr d) of
         None \<Rightarrow> True | Some n \<Rightarrow> Generation n < DGeneration d) ds) \<and>
   (\<forall>a. cs_view (fst (cs_Merge now ds cs)) a =
      (case map_of (nodes cs) a of None \<Rightarrow> None
       | Some n \<Rightarrow> Some (Generation n, Max (insert (State n)
           {DState d | d. d \<in> set ds \<and> DAddr d = a \<and> DGeneration d = Generation n}))))"
proof (intro conjI allI)
  have "newer_in (cs_view cs) = (\<lambda>d. case map_of (nodes cs) (DAddr d) of
         None \<Rightarrow> True | Some n \<Rightarrow> Generation n < DGeneration d)"
    by (rule ext) (auto simp: newer_in_def cs_view_def split: option.split)
  then show "snd (cs_Merge now ds cs)
     = map DAddr (filter (\<lambda>d. case map_of (nodes cs) (DAddr d) of
         None \<Rightarrow> True | Some n \<Rightarrow> Generation n < DGeneration d) ds)"
    by (simp add: cs_Merge_need)
next
  fix a
  have "fold max xs s = Max (insert s (set xs))" for xs and s :: node_state
    using Max.set_eq_fold [of s xs] by simp
  moreover have "set (reported ds a g) = {DState d | d. d \<in> set ds \<and> DAddr d = a \<and> DGeneration d = g}" for g
    by (auto simp: reported_def)
  ultimately show "cs_view (fst (cs_Merge now ds cs)) a =
      (case map_of (nodes cs) a of None \<Rightarrow> None
       | Some n \<Rightarrow> Some (Generation n, Max (insert (State n)
           {DState d | d. d \<in> set ds \<and> DAddr d = a \<and> DGeneration d = Generation n})))"
    by (simp add: cs_view_Merge view_merge_def cs_view_def split: option.split)
qed

text \<open>Updates are last-writer-wins: when no two of them give different states to one address at one
  generation, the table they lead to does not depend on the order in which they arrive.\<close>

lemma updates_converge:
  assumes "mset us = mset vs" and "inj_on (\<lambda>(a, s, g). (a, g)) (set us)"
  shows "cs_view (fold (\<lambda>(a, s, g) cs. fst (cs_UpdateState now a s g cs)) us cs)
       = cs_view (fold (\<lambda>(a, s, g) cs. fst (cs_UpdateState now a s g cs)) vs cs)"
  using table.updates_order_independent [OF assms, of now cs] unfolding table.updates_def .

theorem updates_converge_witness:
  "cs_view (fold (\<lambda>(a, s, g) cs. fst (cs_UpdateState 9 a s g cs))
       [(''b'', StateAlive, 6), (''b'', StateDead, 7)] demo_table)
   = cs_view (fold (\<lambda>(a, s, g) cs. fst (cs_UpdateState 9 a s g cs))
       [(''b'', StateDead, 7), (''b'', StateAlive, 6)] demo_table)"
  by (rule updates_converge) simp_all

end
