(* ===== verification/Gossip.thy ===== *)
theory Gossip
  imports Membership
begin

text \<open>
  The gossip handlers, \<open>Cluster/gossip/gossip.go\<close>. A handler takes the membership table and the
  result of \<open>getPeers\<close>, and returns the new table with what it sends: the digests of a round, the
  addresses passed to \<open>onNewPeer\<close> and the reply. \<open>rand.Shuffle\<close> is the argument \<open>shuffle\<close>; a
  send error is only logged, so delivery is not part of the model. The list of peers is taken to
  be the same for the whole handler. The handlers use the table through the laws of
  \<open>membership_table\<close> only.
\<close>

record gossip_config =
  FanOut :: int
  Interval :: int

definition gossip_DefaultConfig :: gossip_config where
  "gossip_DefaultConfig = \<lparr>FanOut = 2, Interval = 3 * 10 ^ 9\<rparr>"

record gossip_digest_msg =
  GFrom :: string
  GDigests :: "gossip_digest list"

record gossip_response_msg =
  RFrom :: string
  RFull :: "node_info list"
  RMyDigest :: "gossip_digest list"

text \<open>\<open>gs_onNewPeer\<close> says whether the callback is set.\<close>

record gossip_service =
  gs_cfg :: gossip_config
  gs_selfAddr :: string
  gs_selfFingerprint :: string
  gs_onNewPeer :: bool

definition gs_New :: "gossip_config \<Rightarrow> string \<Rightarrow> bool \<Rightarrow> gossip_service" where
  "gs_New cfg self onNewPeer =
     \<lparr>gs_cfg = cfg, gs_selfAddr = self, gs_selfFingerprint = [], gs_onNewPeer = onNewPeer\<rparr>"

definition gs_SetSelfAddr :: "string \<Rightarrow> gossip_service \<Rightarrow> gossip_service" where
  "gs_SetSelfAddr addr gs = gs\<lparr>gs_selfAddr := addr\<rparr>"

definition gs_SetSelfFingerprint :: "string \<Rightarrow> gossip_service \<Rightarrow> gossip_service" where
  "gs_SetSelfFingerprint fp gs = gs\<lparr>gs_selfFingerprint := fp\<rparr>"

definition isConnected :: "string list \<Rightarrow> string \<Rightarrow> bool" where
  "isConnected peers addr \<longleftrightarrow> addr \<in> set peers"

text \<open>One round: the messages sent, \<open>None\<close> when slicing by a negative fan-out panics.\<close>

definition doGossipRound ::
  "(string list \<Rightarrow> string list) \<Rightarrow> gossip_service \<Rightarrow> string list \<Rightarrow> cluster_state
   \<Rightarrow> (string \<times> gossip_digest_msg) list option" where
  "doGossipRound shuffle gs allPeers cs =
     (let self = gs_selfAddr gs;
          peers = filter (\<lambda>p. p \<noteq> self) allPeers
      in if peers = [] then Some []
         else
           (let peers = shuffle peers;
                fanOut = (if FanOut (gs_cfg gs) > int (length peers) then int (length peers)
                          else FanOut (gs_cfg gs))
            in if fanOut < 0 then None
               else
                 (let targets = take (nat fanOut) peers;
                      filtered = filter (\<lambda>d. DAddr d \<in> set (self # peers)) (cs_Digest cs);
                      msg = \<lparr>GFrom = self, GDigests = filtered\<rparr>
                  in Some (map (\<lambda>target. (target, msg)) targets))))"

text \<open>\<open>digestMap[d.Addr] = d\<close> for every digest, so a later digest of an address wins.\<close>

definition digest_map :: "gossip_digest list \<Rightarrow> (string, gossip_digest) gomap" where
  "digest_map ds = fold (\<lambda>d. AList.update (DAddr d) d) ds []"

text \<open>The zero value of \<open>GossipDigest\<close>.\<close>

definition zero_digest :: gossip_digest where
  "zero_digest = \<lparr>DAddr = [], DState = StateAlive, DGeneration = 0\<rparr>"

text \<open>\<open>toDialSet[addr] = struct{}{}\<close>\<close>

definition queue_dial :: "string \<Rightarrow> string list \<Rightarrow> string list" where
  "queue_dial addr toDial = (if addr \<in> set toDial then toDial else toDial @ [addr])"

text \<open>The loop over \<open>needFull\<close>, one address at a time.\<close>

definition need_full_step ::
  "gossip_service \<Rightarrow> string list \<Rightarrow> string list \<Rightarrow> gossip_digest list \<Rightarrow> cluster_state
   \<Rightarrow> string \<Rightarrow> string list \<Rightarrow> string list" where
  "need_full_step gs peers knownBefore ds cs addr toDial =
     (if addr = gs_selfAddr gs then toDial
      else if isConnected peers addr then toDial
      else if addr \<notin> set knownBefore then queue_dial addr toDial
      else if DState (go_get zero_digest (digest_map ds) addr) = StateAlive then
        (case cs_GetNode addr cs of
           Some local \<Rightarrow> if State local \<noteq> StateAlive then queue_dial addr toDial else toDial
         | None \<Rightarrow> toDial)
      else toDial)"

text \<open>The loop over the digests, which registers unknown addresses.\<close>

definition digest_scan_step ::
  "int \<Rightarrow> gossip_service \<Rightarrow> string list \<Rightarrow> string list \<Rightarrow> gossip_digest
   \<Rightarrow> cluster_state \<times> string list \<Rightarrow> cluster_state \<times> string list" where
  "digest_scan_step now gs peers knownBefore d = (\<lambda>(cs, toDial).
     (if DAddr d = gs_selfAddr gs then (cs, toDial)
      else if DState d = StateAlive \<and> \<not> isConnected peers (DAddr d) then
        (if DAddr d \<notin> set knownBefore then
           (fst (cs_UpdateState now (DAddr d) (DState d) (DGeneration d)
                   (cs_AddNode now (DAddr d) None cs)),
            queue_dial (DAddr d) toDial)
         else
           (case cs_GetNode (DAddr d) cs of
              Some local \<Rightarrow>
                if State local \<noteq> StateAlive \<and> DGeneration d > Generation local
                then (cs, queue_dial (DAddr d) toDial) else (cs, toDial)
            | None \<Rightarrow> (cs, toDial)))
      else (cs, toDial)))"

definition HandleDigest ::
  "int \<Rightarrow> gossip_service \<Rightarrow> string list \<Rightarrow> gossip_digest_msg \<Rightarrow> cluster_state
   \<Rightarrow> cluster_state \<times> string list \<times> gossip_response_msg" where
  "HandleDigest now gs peers msg cs =
     (let knownBefore = map Addr (cs_AllNodes cs);
          (cs1, needFull) = cs_Merge now (GDigests msg) cs;
          (cs2, toDial) =
            (if gs_onNewPeer gs then
               fold (digest_scan_step now gs peers knownBefore) (GDigests msg)
                 (cs1, fold (need_full_step gs peers knownBefore (GDigests msg) cs1) needFull [])
             else (cs1, []))
      in (cs2, toDial,
          \<lparr>RFrom = gs_selfAddr gs, RFull = cs_GetNodes needFull cs2, RMyDigest = cs_Digest cs2\<rparr>))"

definition fingerprint_key :: string where
  "fingerprint_key = ''fingerprint''"

text \<open>The test \<open>selfFP != "" && m != nil && m["fingerprint"] == selfFP\<close>.\<close>

definition is_self_fp :: "gossip_service \<Rightarrow> (string, string) gomap option \<Rightarrow> bool" where
  "is_self_fp gs meta \<longleftrightarrow> gs_selfFingerprint gs \<noteq> [] \<and>
     (case meta of None \<Rightarrow> False
      | Some m \<Rightarrow> go_get [] m fingerprint_key = gs_selfFingerprint gs)"

definition response_full_step ::
  "int \<Rightarrow> gossip_service \<Rightarrow> string list \<Rightarrow> node_info
   \<Rightarrow> cluster_state \<times> string list \<Rightarrow> cluster_state \<times> string list" where
  "response_full_step now gs knownBefore info = (\<lambda>(cs, dials).
     (if Addr info = gs_selfAddr gs then (cs, dials)
      else if is_self_fp gs (Metadata info) then (cs, dials)
      else
        (let cs = fst (cs_UpdateState now (Addr info) (State info) (Generation info) cs);
             cs = (case Metadata info of None \<Rightarrow> cs | Some m \<Rightarrow> cs_SetMetadata (Addr info) m cs)
         in if Addr info \<notin> set knownBefore \<and> State info = StateAlive \<and> gs_onNewPeer gs
            then (cs, dials @ [Addr info]) else (cs, dials))))"

definition response_digest_step ::
  "int \<Rightarrow> gossip_service \<Rightarrow> gossip_digest list \<Rightarrow> string \<Rightarrow> cluster_state \<Rightarrow> cluster_state" where
  "response_digest_step now gs ds addr cs =
     (if addr = gs_selfAddr gs then cs
      else if (case cs_GetNode addr cs of None \<Rightarrow> False | Some node \<Rightarrow> is_self_fp gs (Metadata node)) then cs
      else
        (case map_of (digest_map ds) addr of
           None \<Rightarrow> cs
         | Some d \<Rightarrow> fst (cs_UpdateState now (DAddr d) (DState d) (DGeneration d) cs)))"

definition HandleResponse ::
  "int \<Rightarrow> gossip_service \<Rightarrow> gossip_response_msg \<Rightarrow> cluster_state \<Rightarrow> cluster_state \<times> string list" where
  "HandleResponse now gs msg cs =
     (let knownBefore = map Addr (cs_AllNodes cs);
          (cs1, dials) = fold (response_full_step now gs knownBefore) (RFull msg) (cs, []);
          (cs2, needFromDigest) = cs_Merge now (RMyDigest msg) cs1
      in (fold (response_digest_step now gs (RMyDigest msg)) needFromDigest cs2, dials))"

section \<open>Lemmas\<close>

lemma map_of_digest_map:
  assumes "distinct (map DAddr ds)" and "d \<in> set ds"
  shows "map_of (digest_map ds) (DAddr d) = Some d"
proof -
  have "map_of (fold (\<lambda>d. AList.update (DAddr d) d) ds m) (DAddr d) = Some d" for m
    using assms
  proof (induction ds arbitrary: m)
    case (Cons e ds)
    have keep: "map_of (fold (\<lambda>d. AList.update (DAddr d) d) ds m) a = map_of m a"
      if "a \<notin> DAddr ` set ds" for a m
      using that by (induction ds arbitrary: m) auto
    show ?case
    proof (cases "d = e")
      case True
      then show ?thesis using Cons.prems keep by simp
    qed (use Cons in auto)
  qed simp
  then show ?thesis by (simp add: digest_map_def)
qed

lemma known_iff: "cs_ok cs \<Longrightarrow> a \<in> set (map Addr (cs_AllNodes cs)) \<longleftrightarrow> cs_view cs a \<noteq> None"
proof -
  assume ok: "cs_ok cs"
  have "map Addr (cs_AllNodes cs) = go_keys (nodes cs)"
    using ok by (auto simp: cs_AllNodes_def cs_ok_def)
  then show ?thesis using map_of_None_keys [of "nodes cs" a] by (auto simp: cs_view_def)
qed

lemma map_of_Digest:
  assumes "cs_ok cs"
  shows "map DAddr (cs_Digest cs) = go_keys (nodes cs)" and "distinct (map DAddr (cs_Digest cs))"
    and "map_of (nodes cs) a = Some n \<Longrightarrow>
         \<lparr>DAddr = a, DState = State n, DGeneration = Generation n\<rparr> \<in> set (cs_Digest cs)"
proof -
  show eq: "map DAddr (cs_Digest cs) = go_keys (nodes cs)"
    using assms by (auto simp: cs_Digest_def cs_ok_def)
  show "distinct (map DAddr (cs_Digest cs))" unfolding eq by (rule cs_okD(1) [OF assms])
  show "\<lparr>DAddr = a, DState = State n, DGeneration = Generation n\<rparr> \<in> set (cs_Digest cs)"
    if "map_of (nodes cs) a = Some n"
    using map_of_SomeD [OF that] cs_okD(2) [OF assms that]
    by (force simp: cs_Digest_def)
qed

lemma set_queue_dial [simp]: "set (queue_dial a t) = insert a (set t)"
  by (auto simp: queue_dial_def)

lemma distinct_queue_dial [simp]: "distinct t \<Longrightarrow> distinct (queue_dial a t)"
  by (auto simp: queue_dial_def)

text \<open>When the loop over \<open>needFull\<close> queues an address.\<close>

definition wants_dial ::
  "gossip_service \<Rightarrow> string list \<Rightarrow> string list \<Rightarrow> gossip_digest list \<Rightarrow> view \<Rightarrow> string \<Rightarrow> bool" where
  "wants_dial gs peers known ds v a \<longleftrightarrow> a \<noteq> gs_selfAddr gs \<and> a \<notin> set peers \<and>
     (a \<notin> set known \<or> DState (go_get zero_digest (digest_map ds) a) = StateAlive \<and>
        (\<exists>g s. v a = Some (g, s) \<and> s \<noteq> StateAlive))"

lemma need_full_fold:
  "set (fold (need_full_step gs peers known ds cs) addrs t)
     = set t \<union> {a \<in> set addrs. wants_dial gs peers known ds (cs_view cs) a}"
  "distinct t \<Longrightarrow> distinct (fold (need_full_step gs peers known ds cs) addrs t)"
proof -
  have step: "set (need_full_step gs peers known ds cs a t)
      = set t \<union> {b. b = a \<and> wants_dial gs peers known ds (cs_view cs) a}" for a t
    by (auto simp: need_full_step_def wants_dial_def isConnected_def cs_GetNode_def cs_view_def
        split: option.split)
  have dist: "distinct t \<Longrightarrow> distinct (need_full_step gs peers known ds cs a t)" for a t
    by (auto simp: need_full_step_def split: option.split)
  show "set (fold (need_full_step gs peers known ds cs) addrs t)
     = set t \<union> {a \<in> set addrs. wants_dial gs peers known ds (cs_view cs) a}"
    by (induction addrs arbitrary: t) (auto simp: step)
  show "distinct t \<Longrightarrow> distinct (fold (need_full_step gs peers known ds cs) addrs t)"
    by (induction addrs arbitrary: t) (auto simp: dist)
qed

text \<open>When the scan of the digests queues the address of a digest.\<close>

definition scan_dials :: "gossip_service \<Rightarrow> string list \<Rightarrow> string list \<Rightarrow> view \<Rightarrow> gossip_digest \<Rightarrow> bool" where
  "scan_dials gs peers known v d \<longleftrightarrow> DAddr d \<noteq> gs_selfAddr gs \<and> DAddr d \<notin> set peers \<and>
     DState d = StateAlive \<and>
     (DAddr d \<notin> set known \<or> (\<exists>g s. v (DAddr d) = Some (g, s) \<and> s \<noteq> StateAlive \<and> g < DGeneration d))"

lemma scan_step_view_known:
  "a \<in> set known \<Longrightarrow> cs_view (fst (digest_scan_step now gs peers known d p)) a = cs_view (fst p) a"
  by (cases p) (auto simp: digest_scan_step_def cs_view_UpdateState cs_view_AddNode view_update_def
      view_add_def split: option.split)

lemma scan_step_dial:
  "set (snd (digest_scan_step now gs peers known d p)) =
     set (snd p) \<union> (if scan_dials gs peers known (cs_view (fst p)) d then {DAddr d} else {})"
  by (cases p) (auto simp: digest_scan_step_def scan_dials_def isConnected_def cs_GetNode_def cs_view_def
      split: option.split)

lemma scan_step_distinct:
  "distinct (snd p) \<Longrightarrow> distinct (snd (digest_scan_step now gs peers known d p))"
  by (cases p) (auto simp: digest_scan_step_def split: option.split)

lemma scan_dials_cong:
  assumes "\<And>a. a \<in> set known \<Longrightarrow> v a = w a"
  shows "scan_dials gs peers known v d \<longleftrightarrow> scan_dials gs peers known w d"
  using assms [of "DAddr d"] by (auto simp: scan_dials_def)

lemma scan_fold_dial:
  "set (snd (fold (digest_scan_step now gs peers known) ds p))
     = set (snd p) \<union> DAddr ` {d \<in> set ds. scan_dials gs peers known (cs_view (fst p)) d}"
proof (induction ds arbitrary: p)
  case (Cons d ds)
  let ?q = "digest_scan_step now gs peers known d p"
  have "scan_dials gs peers known (cs_view (fst ?q)) = scan_dials gs peers known (cs_view (fst p))"
    by (rule ext, rule scan_dials_cong) (rule scan_step_view_known)
  then show ?case using Cons.IH [of ?q] by (auto simp: scan_step_dial)
qed simp

lemma scan_fold_distinct:
  "distinct (snd p) \<Longrightarrow> distinct (snd (fold (digest_scan_step now gs peers known) ds p))"
  by (induction ds arbitrary: p) (auto simp: scan_step_distinct)

lemma scan_fold_view_known:
  "a \<in> set known \<Longrightarrow> cs_view (fst (fold (digest_scan_step now gs peers known) ds p)) a = cs_view (fst p) a"
  by (induction ds arbitrary: p) (auto simp: scan_step_view_known)

text \<open>The entries the scan creates are not newer than the digests they come from.\<close>

definition from_digests :: "gossip_digest list \<Rightarrow> view \<Rightarrow> string \<Rightarrow> bool" where
  "from_digests ds v a \<longleftrightarrow>
     (\<forall>g s. v a = Some (g, s) \<longrightarrow> (\<exists>d \<in> set ds. DAddr d = a \<and> g \<le> max 1 (DGeneration d)))"

lemma scan_step_from:
  assumes "a \<notin> set known" and "d \<in> set ds" and "from_digests ds (cs_view (fst p)) a"
  shows "from_digests ds (cs_view (fst (digest_scan_step now gs peers known d p))) a"
  using assms
  by (cases p; cases "a = DAddr d")
     (auto simp: digest_scan_step_def cs_view_UpdateState cs_view_AddNode view_update_def
        view_add_def from_digests_def split: option.split)

lemma scan_fold_from:
  assumes "a \<notin> set known" and "from_digests ds (cs_view (fst p)) a" and "set es \<subseteq> set ds"
  shows "from_digests ds (cs_view (fst (fold (digest_scan_step now gs peers known) es p))) a"
  using assms by (induction es arbitrary: p) (auto simp: scan_step_from)

lemma cs_ok_scan_step: "cs_ok (fst p) \<Longrightarrow> cs_ok (fst (digest_scan_step now gs peers known d p))"
  by (cases p) (auto simp: digest_scan_step_def split: option.split)

lemma cs_ok_scan_fold: "cs_ok (fst p) \<Longrightarrow> cs_ok (fst (fold (digest_scan_step now gs peers known) ds p))"
  by (induction ds arbitrary: p) (auto simp: cs_ok_scan_step)

lemma scan_step_mono: "view_le (cs_view (fst p)) (cs_view (fst (digest_scan_step now gs peers known d p)))"
  by (cases p) (auto simp: digest_scan_step_def cs_view_UpdateState cs_view_AddNode
      intro: view_le_trans [OF view_le_add view_le_update] split: option.split)

text \<open>A handler is a fold of steps; each of them only moves the view up.\<close>

lemma fold_view_le:
  assumes "\<And>x p. view_le (cs_view (sel p)) (cs_view (sel (f x p)))"
  shows "view_le (cs_view (sel p)) (cs_view (sel (fold f xs p)))"
proof (induction xs arbitrary: p)
  case (Cons x xs)
  then show ?case using view_le_trans [OF assms Cons.IH] by simp
qed simp

lemma scan_fold_mono: "view_le (cs_view (fst p)) (cs_view (fst (fold (digest_scan_step now gs peers known) ds p)))"
  by (rule fold_view_le) (rule scan_step_mono)

text \<open>The table and the dial set before the callbacks are started.\<close>

definition digest_scan ::
  "int \<Rightarrow> gossip_service \<Rightarrow> string list \<Rightarrow> gossip_digest list \<Rightarrow> cluster_state \<Rightarrow> cluster_state \<times> string list" where
  "digest_scan now gs peers ds cs =
     (let known = map Addr (cs_AllNodes cs); q = cs_Merge now ds cs
      in fold (digest_scan_step now gs peers known) ds
           (fst q, fold (need_full_step gs peers known ds (fst q)) (snd q) []))"

lemma HandleDigest_split:
  assumes "HandleDigest now gs peers msg cs = (cs', dials, resp)"
  shows "cs' = (if gs_onNewPeer gs then fst (digest_scan now gs peers (GDigests msg) cs)
                else fst (cs_Merge now (GDigests msg) cs))"
    and "dials = (if gs_onNewPeer gs then snd (digest_scan now gs peers (GDigests msg) cs) else [])"
    and "RFull resp = cs_GetNodes (snd (cs_Merge now (GDigests msg) cs)) cs'"
    and "RMyDigest resp = cs_Digest cs'"
  using assms
  by (simp_all add: HandleDigest_def digest_scan_def Let_def case_prod_unfold split: if_splits) auto

lemma digest_scan_ok: "cs_ok cs \<Longrightarrow> cs_ok (fst (digest_scan now gs peers ds cs))"
  by (simp add: digest_scan_def Let_def cs_ok_scan_fold)

lemma HandleDigest_ok:
  "cs_ok cs \<Longrightarrow> HandleDigest now gs peers msg cs = (cs', dials, resp) \<Longrightarrow> cs_ok cs'"
  using HandleDigest_split(1) [of now gs peers msg cs cs' dials resp] by (simp add: digest_scan_ok)

lemma digest_scan_view:
  assumes "cs_ok cs"
  shows "cs_view cs a \<noteq> None \<Longrightarrow>
         cs_view (fst (digest_scan now gs peers ds cs)) a = view_merge ds (cs_view cs) a"
    and "cs_view cs a = None \<Longrightarrow> from_digests ds (cs_view (fst (digest_scan now gs peers ds cs))) a"
    and "view_le (cs_view cs) (cs_view (fst (digest_scan now gs peers ds cs)))"
proof -
  let ?known = "map Addr (cs_AllNodes cs)" and ?q = "cs_Merge now ds cs"
  let ?p = "(fst ?q, fold (need_full_step gs peers ?known ds (fst ?q)) (snd ?q) [])"
  show "cs_view (fst (digest_scan now gs peers ds cs)) a = view_merge ds (cs_view cs) a"
    if "cs_view cs a \<noteq> None"
    using scan_fold_view_known [of a ?known now gs peers ds ?p] known_iff [OF assms, of a] that
    by (simp add: digest_scan_def Let_def cs_view_Merge)
  show "from_digests ds (cs_view (fst (digest_scan now gs peers ds cs))) a" if "cs_view cs a = None"
  proof -
    have "from_digests ds (cs_view (fst ?p)) a"
      using that by (simp add: from_digests_def view_merge_def cs_view_Merge)
    then show ?thesis
      using scan_fold_from [of a ?known ds ?p ds now gs peers] known_iff [OF assms, of a] that
      by (simp add: digest_scan_def Let_def)
  qed
  have "view_le (cs_view cs) (cs_view (fst ?p))" by (simp add: cs_view_Merge)
  also have "view_le (cs_view (fst ?p)) (cs_view (fst (digest_scan now gs peers ds cs)))"
    using scan_fold_mono [of ?p now gs peers ?known ds] by (simp add: digest_scan_def Let_def)
  finally show "view_le (cs_view cs) (cs_view (fst (digest_scan now gs peers ds cs)))" .
qed

lemma selfAddr_scan_step [simp]: "selfAddr (fst (digest_scan_step now gs peers known d p)) = selfAddr (fst p)"
  by (cases p) (simp add: digest_scan_step_def split: option.split)

lemma selfAddr_HandleDigest:
  assumes "HandleDigest now gs peers msg cs = (cs', dials, resp)"
  shows "selfAddr cs' = selfAddr cs"
proof -
  have "selfAddr (fst (fold (digest_scan_step now gs peers known) ds p)) = selfAddr (fst p)" for ds known p
    by (induction ds arbitrary: p) simp_all
  then show ?thesis using HandleDigest_split(1) [OF assms] by (simp add: digest_scan_def Let_def)
qed

lemma HandleDigest_view:
  assumes "cs_ok cs" and "HandleDigest now gs peers msg cs = (cs', dials, resp)"
  shows "cs_view cs a \<noteq> None \<Longrightarrow> cs_view cs' a = view_merge (GDigests msg) (cs_view cs) a"
    and "cs_view cs a = None \<Longrightarrow> from_digests (GDigests msg) (cs_view cs') a"
    and "view_le (cs_view cs) (cs_view cs')"
proof -
  have split: "cs' = fst (digest_scan now gs peers (GDigests msg) cs) \<or> cs' = fst (cs_Merge now (GDigests msg) cs)"
    using HandleDigest_split(1) [OF assms(2)] by auto
  show "cs_view cs' a = view_merge (GDigests msg) (cs_view cs) a" if "cs_view cs a \<noteq> None"
    using split digest_scan_view(1) [OF assms(1) that] by (auto simp: cs_view_Merge)
  show "from_digests (GDigests msg) (cs_view cs') a" if "cs_view cs a = None"
    using split
  proof
    assume "cs' = fst (cs_Merge now (GDigests msg) cs)"
    then show ?thesis using that by (simp add: cs_view_Merge from_digests_def view_merge_def)
  qed (use digest_scan_view(2) [OF assms(1) that] in simp)
  show "view_le (cs_view cs) (cs_view cs')"
    using split digest_scan_view(3) [OF assms(1)] by (auto simp: cs_view_Merge)
qed

lemma response_full_step_mono:
  "view_le (cs_view (fst p)) (cs_view (fst (response_full_step now gs known info p)))"
  by (cases p) (auto simp: response_full_step_def cs_view_UpdateState Let_def split: option.split)

lemma response_digest_step_mono:
  "view_le (cs_view cs) (cs_view (response_digest_step now gs ds a cs))"
  by (auto simp: response_digest_step_def cs_view_UpdateState split: option.split)

text \<open>The table of a peer dominates a digest when its entry for the address is not older.\<close>

definition dominates :: "cluster_state \<Rightarrow> gossip_digest \<Rightarrow> bool" where
  "dominates cs d \<longleftrightarrow> (\<exists>q. cs_view cs (DAddr d) = Some q \<and> not_newer (DGeneration d, DState d) q)"

lemma dominates_mono: "view_le (cs_view cs) (cs_view cs') \<Longrightarrow> dominates cs d \<Longrightarrow> dominates cs' d"
  unfolding view_le_def dominates_def using not_newer_trans by blast

lemma dominates_merge:
  assumes "d \<in> set ds" and "\<not> newer_in (cs_view cs) d"
  shows "dominates (fst (cs_Merge now ds cs)) d"
proof -
  obtain g s where v: "cs_view cs (DAddr d) = Some (g, s)" "DGeneration d \<le> g"
    using assms(2) by (auto simp: newer_in_def split: option.splits)
  have "DState d \<le> fold max xs t" if "DState d \<in> set xs" for xs t
  proof -
    have "DState d \<le> Max (set (t # xs))" by (rule Max_ge) (use that in auto)
    then show ?thesis by (simp only: Max.set_eq_fold)
  qed
  then have "DState d \<le> fold max (reported ds (DAddr d) (DGeneration d)) s"
    using assms(1) by (force simp: reported_def)
  then show ?thesis using v by (auto simp: dominates_def cs_view_Merge view_merge_def not_newer_def)
qed

lemma digest_map_addr: "map_of (digest_map ds) a = Some e \<Longrightarrow> DAddr e = a"
proof -
  let ?P = "\<lambda>m. \<forall>a e. map_of m a = Some e \<longrightarrow> DAddr e = a"
  have "?P (AList.update (DAddr d) d m)" if "?P m" for d m
  proof (intro allI impI)
    fix a e assume "map_of (AList.update (DAddr d) d m) a = Some e"
    then show "DAddr e = a" using that by (cases "a = DAddr d") (simp, metis fun_upd_other map_of_update)
  qed
  moreover have "?P []" by simp
  ultimately have "?P (fold (\<lambda>d. AList.update (DAddr d) d) ds [])"
    by (intro fold_invariant [where Q = "\<lambda>_. True" and P = ?P]) (rule TrueI, assumption, blast)
  then show "map_of (digest_map ds) a = Some e \<Longrightarrow> DAddr e = a" unfolding digest_map_def by blast
qed

lemma response_digest_step_other:
  "b \<noteq> a \<Longrightarrow> cs_view (response_digest_step now gs ds a cs) b = cs_view cs b"
proof (cases "map_of (digest_map ds) a")
  case (Some d)
  assume "b \<noteq> a"
  then have "DAddr d \<noteq> b" using digest_map_addr [OF Some] by simp
  then have "cs_view (fst (cs_UpdateState now (DAddr d) (DState d) (DGeneration d) cs)) b = cs_view cs b"
    by (simp add: cs_view_UpdateState view_update_def split: option.split)
  then show ?thesis using Some by (simp add: response_digest_step_def)
qed (simp add: response_digest_step_def)

text \<open>The addresses under which a table holds the fingerprint of the node itself. The loop over the digest neither adds
  nor removes one of an address it has an entry for.\<close>

definition own_entry :: "gossip_service \<Rightarrow> cluster_state \<Rightarrow> string \<Rightarrow> bool" where
  "own_entry gs cs a \<longleftrightarrow> (\<exists>n. map_of (nodes cs) a = Some n \<and> is_self_fp gs (Metadata n))"

lemma own_entry_update: "own_entry gs cs a \<Longrightarrow> own_entry gs (fst (cs_UpdateState now b st g cs)) a"
  by (auto simp: own_entry_def cs_UpdateState_def fireChange_def set_node_def Let_def split: option.split)

lemma own_entry_digest_step: "own_entry gs cs a \<Longrightarrow> own_entry gs (response_digest_step now gs ds b cs) a"
  by (auto simp: response_digest_step_def own_entry_update split: option.split)

lemma own_entry_digest_fold: "own_entry gs cs a \<Longrightarrow> own_entry gs (fold (response_digest_step now gs ds) addrs cs) a"
  by (induction addrs arbitrary: cs) (simp_all add: own_entry_digest_step)

lemma response_digest_step_newer:
  assumes "\<not> own_entry gs cs (DAddr d)" and "DAddr d \<noteq> gs_selfAddr gs"
    and "map_of (digest_map ds) (DAddr d) = Some d" and "newer_in (cs_view cs) d"
  shows "dominates (response_digest_step now gs ds (DAddr d) cs) d"
  using assms
  by (auto simp: response_digest_step_def own_entry_def cs_GetNode_def dominates_def cs_view_UpdateState
      view_update_def newer_in_def not_newer_def split: option.splits dest: leD)

lemma response_fold_dominates:
  assumes "\<not> own_entry gs (fold (response_digest_step now gs ds) addrs cs) (DAddr d)" and "DAddr d \<noteq> gs_selfAddr gs"
    and "map_of (digest_map ds) (DAddr d) = Some d"
    and "newer_in (cs_view cs) d" and "DAddr d \<in> set addrs"
  shows "dominates (fold (response_digest_step now gs ds) addrs cs) d"
  using assms(1,4,5)
proof (induction addrs arbitrary: cs)
  case (Cons a addrs)
  show ?case
  proof (cases "a = DAddr d")
    case True
    have not_own: "\<not> own_entry gs cs (DAddr d)" using Cons.prems(1) own_entry_digest_fold own_entry_digest_step by fastforce
    have "view_le (cs_view cs') (cs_view (fold (response_digest_step now gs ds) addrs cs'))" for cs'
      using fold_view_le [where sel = id and f = "response_digest_step now gs ds"]
        response_digest_step_mono by simp
    then have "dominates (fold (response_digest_step now gs ds) addrs
        (response_digest_step now gs ds (DAddr d) cs)) d"
      by (rule dominates_mono) (rule response_digest_step_newer [OF not_own assms(2,3) Cons.prems(2)])
    then show ?thesis using True by simp
  next
    case False
    then have "cs_view (response_digest_step now gs ds a cs) (DAddr d) = cs_view cs (DAddr d)"
      by (simp add: response_digest_step_other)
    then show ?thesis using Cons False by (simp add: newer_in_def)
  qed
qed simp

lemma fst_HandleResponse:
  "fst (HandleResponse now gs msg cs) =
     (let p = fold (response_full_step now gs (map Addr (cs_AllNodes cs))) (RFull msg) (cs, []);
          q = cs_Merge now (RMyDigest msg) (fst p)
      in fold (response_digest_step now gs (RMyDigest msg)) (snd q) (fst q))"
  by (simp add: HandleResponse_def Let_def case_prod_unfold)

lemma HandleResponse_mono: "view_le (cs_view cs) (cs_view (fst (HandleResponse now gs msg cs)))"
proof -
  let ?p = "fold (response_full_step now gs (map Addr (cs_AllNodes cs))) (RFull msg) (cs, [])"
  let ?q = "cs_Merge now (RMyDigest msg) (fst ?p)"
  have "view_le (cs_view cs) (cs_view (fst ?p))"
    using fold_view_le [where sel = fst and p = "(cs, [])"] response_full_step_mono by fastforce
  also have "view_le (cs_view (fst ?p)) (cs_view (fst ?q))" by (simp add: cs_view_Merge)
  also have "view_le (cs_view (fst ?q))
      (cs_view (fold (response_digest_step now gs (RMyDigest msg)) (snd ?q) (fst ?q)))"
    using fold_view_le [where sel = id] response_digest_step_mono by fastforce
  finally show ?thesis by (simp add: fst_HandleResponse Let_def)
qed

lemma HandleResponse_dominates:
  assumes "\<not> own_entry gs (fst (HandleResponse now gs msg cs)) (DAddr d)" and "DAddr d \<noteq> gs_selfAddr gs"
    and "distinct (map DAddr (RMyDigest msg))" and "d \<in> set (RMyDigest msg)"
  shows "dominates (fst (HandleResponse now gs msg cs)) d"
proof -
  let ?p = "fold (response_full_step now gs (map Addr (cs_AllNodes cs))) (RFull msg) (cs, [])"
  let ?q = "cs_Merge now (RMyDigest msg) (fst ?p)"
  have eq: "fst (HandleResponse now gs msg cs)
      = fold (response_digest_step now gs (RMyDigest msg)) (snd ?q) (fst ?q)"
    by (simp add: fst_HandleResponse Let_def)
  show ?thesis
  proof (cases "newer_in (cs_view (fst ?p)) d")
    case True
    then have "DAddr d \<in> set (snd ?q)" using assms(4) by (auto simp: cs_Merge_need)
    moreover have "newer_in (cs_view (fst ?q)) d" using True by (simp add: cs_view_Merge newer_in_merge)
    ultimately show ?thesis unfolding eq
      using response_fold_dominates [OF assms(1) [unfolded eq] assms(2) map_of_digest_map [OF assms(3,4)]] by blast
  next
    case False
    have "view_le (cs_view (fst ?q)) (cs_view (fold (response_digest_step now gs (RMyDigest msg)) (snd ?q) (fst ?q)))"
      using fold_view_le [where sel = id] response_digest_step_mono by fastforce
    then show ?thesis unfolding eq using dominates_merge [OF assms(4) False] dominates_mono by blast
  qed
qed

section \<open>Properties\<close>

text \<open>A gossip round sends one and the same digest to \<open>min fanOut (number of peers)\<close> different
  peers, never to the node itself, and the digest holds exactly the table entries of the node and
  of the peers it is connected to.\<close>

theorem doGossipRound_messages:
  assumes "\<And>ps. mset (shuffle ps) = mset ps" and "0 \<le> FanOut (gs_cfg gs)" and "distinct peers"
  shows "\<exists>targets. doGossipRound shuffle gs peers cs = Some (map (\<lambda>t. (t,
        \<lparr>GFrom = gs_selfAddr gs,
         GDigests = filter (\<lambda>d. DAddr d \<in> insert (gs_selfAddr gs) (set peers)) (cs_Digest cs)\<rparr>)) targets) \<and>
      distinct targets \<and> set targets \<subseteq> set peers - {gs_selfAddr gs} \<and>
      int (length targets) = min (FanOut (gs_cfg gs)) (int (card (set peers - {gs_selfAddr gs})))"
proof -
  let ?self = "gs_selfAddr gs" and ?f = "FanOut (gs_cfg gs)"
  let ?ps = "filter (\<lambda>p. p \<noteq> ?self) peers"
  let ?qs = "shuffle ?ps" and ?n = "if ?f > int (length ?ps) then int (length ?ps) else ?f"
  have qs: "set ?qs = set peers - {?self}" "length ?qs = length ?ps" "distinct ?qs"
    using mset_eq_setD [OF assms(1) [of ?ps]] mset_eq_length [OF assms(1) [of ?ps]]
      mset_eq_imp_distinct_iff [OF assms(1) [of ?ps]] assms(3) by auto
  have card: "card (set peers - {?self}) = length ?ps"
    using distinct_card [of ?qs] qs by simp
  show ?thesis
  proof (cases "?ps = []")
    case True
    then have "card (set peers - {?self}) = 0" using card by simp
    have "doGossipRound shuffle gs peers cs = Some []" using True by (simp add: doGossipRound_def Let_def)
    moreover have "min ?f (int (card (set peers - {?self}))) = 0"
      unfolding \<open>card (set peers - {?self}) = 0\<close> using assms(2) by simp
    ultimately show ?thesis by (intro exI [of _ "[]"]) simp
  next
    case False
    have eq: "doGossipRound shuffle gs peers cs = Some (map (\<lambda>t. (t,
        \<lparr>GFrom = ?self, GDigests = filter (\<lambda>d. DAddr d \<in> insert ?self (set peers)) (cs_Digest cs)\<rparr>))
        (take (nat ?n) ?qs))"
      using False assms(2) qs by (simp add: doGossipRound_def Let_def)
    have sub: "set (take (nat ?n) ?qs) \<subseteq> set peers - {?self}" using set_take_subset qs(1) by metis
    have len: "int (length (take (nat ?n) ?qs)) = min ?f (int (card (set peers - {?self})))"
      unfolding card using assms(2) qs(2) by auto
    show ?thesis
      by (intro exI [of _ "take (nat ?n) ?qs"] conjI eq sub len distinct_take qs(3))
  qed
qed

theorem doGossipRound_messages_witness:
  "\<exists>targets. doGossipRound rev (gs_New gossip_DefaultConfig ''a'' True) [''b'', ''a'', ''c''] demo_table
      = Some (map (\<lambda>t. (t, \<lparr>GFrom = ''a'',
          GDigests = filter (\<lambda>d. DAddr d \<in> {''a'', ''b'', ''c''}) (cs_Digest demo_table)\<rparr>)) targets) \<and>
     set targets \<subseteq> {''b'', ''c''} \<and> length targets = 2"
proof -
  have e: "insert ''a'' (set [''b'', ''a'', ''c'']) = {''a'', ''b'', ''c''}" by auto
  have d: "set [''b'', ''a'', ''c''] - {''a''} = {''b'', ''c''}" by auto
  show ?thesis
    using doGossipRound_messages [of rev "gs_New gossip_DefaultConfig ''a'' True"
        "[''b'', ''a'', ''c'']" demo_table]
    unfolding gs_New_def gossip_DefaultConfig_def gossip_service.simps gossip_config.simps e d by force
qed

text \<open>The addresses a digest makes the node dial: each at most once, never itself nor a connected
  peer, and exactly those it has never heard of and those it holds for not alive that the digest
  reports alive with a larger generation.\<close>

lemma HandleDigest_dials_exact:
  assumes "cs_ok cs" and "distinct (map DAddr (GDigests msg))" and "gs_onNewPeer gs"
    and "HandleDigest now gs peers msg cs = (cs', dials, resp)"
  shows "distinct dials \<and> set dials = {DAddr d | d. d \<in> set (GDigests msg) \<and>
     DAddr d \<noteq> gs_selfAddr gs \<and> DAddr d \<notin> set peers \<and>
     (case map_of (nodes cs) (DAddr d) of None \<Rightarrow> True
      | Some n \<Rightarrow> DState d = StateAlive \<and> State n \<noteq> StateAlive \<and> Generation n < DGeneration d)}"
proof
  let ?ds = "GDigests msg" and ?known = "map Addr (cs_AllNodes cs)"
  let ?cs1 = "fst (cs_Merge now ?ds cs)" and ?need = "snd (cs_Merge now ?ds cs)"
  have dials: "dials = snd (fold (digest_scan_step now gs peers ?known) ?ds
      (?cs1, fold (need_full_step gs peers ?known ?ds ?cs1) ?need []))"
    using HandleDigest_split(2) [OF assms(4)] assms(3) by (simp add: digest_scan_def Let_def)
  show "distinct dials" unfolding dials by (rule scan_fold_distinct) (simp add: need_full_fold(2))
  let ?R = "\<lambda>d. DAddr d \<noteq> gs_selfAddr gs \<and> DAddr d \<notin> set peers \<and>
     (case map_of (nodes cs) (DAddr d) of None \<Rightarrow> True
      | Some n \<Rightarrow> DState d = StateAlive \<and> State n \<noteq> StateAlive \<and> Generation n < DGeneration d)"
  have R: "(newer_in (cs_view cs) d \<and> wants_dial gs peers ?known ?ds (cs_view ?cs1) (DAddr d)
      \<or> scan_dials gs peers ?known (cs_view ?cs1) d) \<longleftrightarrow> ?R d" if d: "d \<in> set ?ds" for d
  proof -
    have m: "go_get zero_digest (digest_map ?ds) (DAddr d) = d"
      using map_of_digest_map [OF assms(2) d] by (simp add: go_get_def)
    have same: "reported ?ds (DAddr d) g = []" if "g \<noteq> DGeneration d" for g
      using assms(2) d that by (auto simp: reported_def filter_empty_conv distinct_map inj_on_def)
    show ?thesis
    proof (cases "map_of (nodes cs) (DAddr d)")
      case None
      then have "cs_view cs (DAddr d) = None" by (simp add: cs_view_def)
      then show ?thesis
        using None known_iff [OF assms(1), of "DAddr d"]
        by (auto simp: newer_in_def wants_dial_def scan_dials_def)
    next
      case (Some n)
      then have v: "cs_view cs (DAddr d) = Some (Generation n, State n)" by (simp add: cs_view_def)
      then have k: "DAddr d \<in> set ?known" using known_iff [OF assms(1), of "DAddr d"] by simp
      show ?thesis
      proof (cases "Generation n < DGeneration d")
        case True
        then have "cs_view ?cs1 (DAddr d) = Some (Generation n, State n)"
          using v same [of "Generation n"] by (simp add: cs_view_Merge view_merge_def)
        then show ?thesis using k v Some True m
          by (auto simp: newer_in_def wants_dial_def scan_dials_def)
      next
        case False
        then show ?thesis using k v Some
          by (auto simp: newer_in_def wants_dial_def scan_dials_def cs_view_Merge view_merge_def)
      qed
    qed
  qed
  have "set dials = DAddr ` {d \<in> set ?ds. newer_in (cs_view cs) d \<and>
        wants_dial gs peers ?known ?ds (cs_view ?cs1) (DAddr d)}
      \<union> DAddr ` {d \<in> set ?ds. scan_dials gs peers ?known (cs_view ?cs1) d}"
    unfolding dials scan_fold_dial snd_conv fst_conv need_full_fold(1) by (auto simp: cs_Merge_need)
  also have "\<dots> = DAddr ` {d \<in> set ?ds. newer_in (cs_view cs) d \<and>
        wants_dial gs peers ?known ?ds (cs_view ?cs1) (DAddr d) \<or> scan_dials gs peers ?known (cs_view ?cs1) d}"
    by blast
  also have "\<dots> = DAddr ` {d \<in> set ?ds. ?R d}" using R by blast
  finally show "set dials = {DAddr d | d. d \<in> set ?ds \<and> ?R d}" by blast
qed

definition demo_gossip :: gossip_service where
  "demo_gossip = gs_New gossip_DefaultConfig ''a'' True"

definition demo_msg :: gossip_digest_msg where
  "demo_msg = \<lparr>GFrom = ''d'', GDigests =
     [\<lparr>DAddr = ''b'', DState = StateAlive, DGeneration = 9\<rparr>,
      \<lparr>DAddr = ''d'', DState = StateAlive, DGeneration = 5\<rparr>,
      \<lparr>DAddr = ''a'', DState = StateDead, DGeneration = 3\<rparr>]\<rparr>"

lemma demo_table_ok: "cs_ok demo_table"
  unfolding demo_table_def by (rule cs_ok_run) simp

definition demo_handled :: cluster_state where
  "demo_handled = \<lparr>selfAddr = ''a'',
     nodes = [(''a'', \<lparr>Addr = ''a'', State = StateDead, Generation = 3, LastUpdated = 7, Metadata = Some []\<rparr>),
              (''b'', \<lparr>Addr = ''b'', State = StateDead, Generation = 4, LastUpdated = 6, Metadata = Some []\<rparr>),
              (''d'', \<lparr>Addr = ''d'', State = StateAlive, Generation = 5, LastUpdated = 7, Metadata = Some []\<rparr>)],
     onChange = [], fired = []\<rparr>"

lemma demo_table_eq:
  "demo_table = \<lparr>selfAddr = ''a'',
     nodes = [(''a'', \<lparr>Addr = ''a'', State = StateAlive, Generation = 3, LastUpdated = 3, Metadata = Some []\<rparr>),
              (''b'', \<lparr>Addr = ''b'', State = StateDead, Generation = 4, LastUpdated = 6, Metadata = Some []\<rparr>)],
     onChange = [], fired = []\<rparr>"
  by (simp add: demo_table_def cs_run_def cs_New_def cs_AddNode_def cs_UpdateState_def fireChange_def
      set_node_def Let_def word_le_nat_alt)

lemma demo_handled_eq:
  "HandleDigest 7 demo_gossip [] demo_msg demo_table
   = (demo_handled, [''b'', ''d''],
      \<lparr>RFrom = ''a'', RFull = cs_GetNodes [''b'', ''d''] demo_handled, RMyDigest = cs_Digest demo_handled\<rparr>)"
  unfolding HandleDigest_def cs_Merge_def
  by (simp add: demo_table_eq demo_gossip_def demo_msg_def gs_New_def merge_step_def
      digest_scan_step_def need_full_step_def cs_GetNode_def cs_AllNodes_def isConnected_def digest_map_def
      go_get_def queue_dial_def cs_UpdateState_def cs_AddNode_def fireChange_def set_node_def Let_def
      word_le_nat_alt word_less_nat_alt less_node_state_def demo_handled_def)

theorem HandleDigest_dials_exact_witness:
  "distinct [''b'', ''d''] \<and> set [''b'', ''d''] = {DAddr d | d. d \<in> set (GDigests demo_msg) \<and>
     DAddr d \<noteq> ''a'' \<and>
     (case map_of (nodes demo_table) (DAddr d) of None \<Rightarrow> True
      | Some n \<Rightarrow> DState d = StateAlive \<and> State n \<noteq> StateAlive \<and> Generation n < DGeneration d)}"
  using HandleDigest_dials_exact [OF demo_table_ok _ _ demo_handled_eq]
  by (simp add: demo_msg_def demo_gossip_def gs_New_def)

text \<open>The full records a node replies with to a digest are never newer than what the sender of the
  digest has: for every address whose record is sent, some digest of the sender carries at least
  its generation, so \<open>UpdateState\<close> discards the record on the other side and only the digest of
  the reply can carry news. (Generations start at 1.)\<close>

lemma HandleDigest_full_records_stale:
  assumes "cs_ok cs" and "\<And>d. d \<in> set (GDigests msg) \<Longrightarrow> 1 \<le> DGeneration d"
    and "HandleDigest now gs peers msg cs = (cs', dials, resp)" and "n \<in> set (RFull resp)"
    and "\<And>d. d \<in> set (GDigests msg) \<Longrightarrow> dominates sender d"
  shows "\<not> snd (cs_UpdateState now' (Addr n) (State n) (Generation n) sender)"
proof -
  let ?ds = "GDigests msg"
  obtain a where a: "a \<in> set (snd (cs_Merge now ?ds cs))" "map_of (nodes cs') a = Some n"
    using assms(4) HandleDigest_split(3) [OF assms(3)]
    by (auto simp: cs_GetNodes_def List.map_filter_def)
  have n: "Addr n = a" using cs_okD(2) [OF HandleDigest_ok [OF assms(1,3)] a(2)] .
  have v: "cs_view cs' a = Some (Generation n, State n)" using a(2) by (simp add: cs_view_def)
  have "\<exists>d \<in> set ?ds. DAddr d = a \<and> Generation n \<le> DGeneration d"
  proof (cases "cs_view cs a")
    case None
    then obtain d where d: "d \<in> set ?ds" "DAddr d = a" "Generation n \<le> max 1 (DGeneration d)"
      using HandleDigest_view(2) [OF assms(1,3), of a] v by (auto simp: from_digests_def)
    then show ?thesis using assms(2) [OF d(1)] by (auto simp: max_def)
  next
    case (Some p)
    then obtain g s where p: "cs_view cs a = Some (g, s)" by (cases p) auto
    obtain d where d: "d \<in> set ?ds" "DAddr d = a" "newer_in (cs_view cs) d"
      using a(1) by (auto simp: cs_Merge_need)
    have "Generation n = g"
      using HandleDigest_view(1) [OF assms(1,3), of a] v p by (simp add: view_merge_def)
    then show ?thesis using d p by (auto simp: newer_in_def intro!: bexI [of _ d])
  qed
  then obtain d where d: "d \<in> set ?ds" "DAddr d = a" "Generation n \<le> DGeneration d" by blast
  obtain q where "cs_view sender a = Some q" "not_newer (DGeneration d, DState d) q"
    using assms(5) [OF d(1)] d(2) unfolding dominates_def by auto
  then show ?thesis using d(3) n
    by (auto simp: cs_UpdateState_applied not_newer_def not_less)
qed

definition demo_sender :: cluster_state where
  "demo_sender = cs_run [(1, OpUpdate ''b'' StateAlive 9), (2, OpUpdate ''a'' StateDead 3)] (cs_New ''d'' 5)"

lemma demo_sender_view:
  "cs_view demo_sender = [''d'' \<mapsto> (5, StateAlive), ''b'' \<mapsto> (9, StateAlive), ''a'' \<mapsto> (3, StateDead)]"
  by (rule ext) (simp add: demo_sender_def cs_run_def cs_New_def cs_UpdateState_def fireChange_def
      set_node_def cs_view_def Let_def)

theorem HandleDigest_full_records_stale_witness:
  "\<not> snd (cs_UpdateState 8 ''b'' StateDead 4 demo_sender)"
proof -
  let ?n = "\<lparr>Addr = ''b'', State = StateDead, Generation = 4, LastUpdated = 6, Metadata = Some []\<rparr>"
  have d: "1 \<le> DGeneration d" if "d \<in> set (GDigests demo_msg)" for d
    using that by (auto simp: demo_msg_def word_le_nat_alt)
  have s: "dominates demo_sender d" if "d \<in> set (GDigests demo_msg)" for d
    using that by (auto simp: demo_msg_def dominates_def demo_sender_view not_newer_def)
  have n: "?n \<in> set (RFull \<lparr>RFrom = ''a'', RFull = cs_GetNodes [''b'', ''d''] demo_handled,
      RMyDigest = cs_Digest demo_handled\<rparr>)"
    by (simp add: cs_GetNodes_def List.map_filter_def demo_handled_def)
  from HandleDigest_full_records_stale [OF demo_table_ok d demo_handled_eq n s, of 8] show ?thesis by simp
qed

text \<open>C6. After a full exchange the initiator knows everything the responder knows: for every address but
  its own and those under which its table holds its own fingerprint, its entry is at least as new as the one in
  the responder's table after handling the digest, and none of its entries moved back.\<close>

theorem gossip_exchange_dominates:
  assumes "cs_ok csB"
    and "HandleDigest now gsB peersB msg csB = (csB', dials, resp)"
    and "HandleResponse now' gsA resp csA = (csA', dials')"
    and "map_of (nodes csB') a = Some m" and "a \<noteq> gs_selfAddr gsA"
    and "\<And>n. map_of (nodes csA') a = Some n \<Longrightarrow> \<not> is_self_fp gsA (Metadata n)"
  shows "(\<exists>n. map_of (nodes csA') a = Some n \<and>
            (Generation m < Generation n \<or> Generation m = Generation n \<and> State m \<le> State n)) \<and>
         view_le (cs_view csA) (cs_view csA')"
proof
  let ?d = "\<lparr>DAddr = a, DState = State m, DGeneration = Generation m\<rparr>"
  have ok: "cs_ok csB'" by (rule HandleDigest_ok [OF assms(1,2)])
  have r: "RMyDigest resp = cs_Digest csB'" by (rule HandleDigest_split(4) [OF assms(2)])
  have "dominates csA' ?d"
    using HandleResponse_dominates [of gsA now' resp csA ?d] assms(3,5,6) map_of_Digest(2) [OF ok] map_of_Digest(3) [OF ok assms(4)] r
    by (auto simp: own_entry_def)
  then show "\<exists>n. map_of (nodes csA') a = Some n \<and>
            (Generation m < Generation n \<or> Generation m = Generation n \<and> State m \<le> State n)"
    by (auto simp: dominates_def cs_view_def not_newer_def)
  show "view_le (cs_view csA) (cs_view csA')"
    using HandleResponse_mono [of csA now' gsA resp] assms(3) by simp
qed

theorem gossip_exchange_dominates_witness:
  "\<exists>n. map_of (nodes (fst (HandleResponse 9 (gs_SetSelfFingerprint ''F'' (gs_New gossip_DefaultConfig ''d'' True))
          \<lparr>RFrom = ''a'', RFull = cs_GetNodes [''b'', ''d''] demo_handled, RMyDigest = cs_Digest demo_handled\<rparr>
          demo_sender))) ''a'' = Some n \<and> (3 < Generation n \<or> 3 = Generation n \<and> StateDead \<le> State n)"
proof -
  let ?gs = "gs_SetSelfFingerprint ''F'' (gs_New gossip_DefaultConfig ''d'' True)"
  let ?resp = "\<lparr>RFrom = ''a'', RFull = cs_GetNodes [''b'', ''d''] demo_handled, RMyDigest = cs_Digest demo_handled\<rparr>"
  obtain cs' dials where h: "HandleResponse 9 ?gs ?resp demo_sender = (cs', dials)" by (meson surj_pair)
  have m: "map_of (nodes demo_handled) ''a'' = Some \<lparr>Addr = ''a'', State = StateDead, Generation = 3,
      LastUpdated = 7, Metadata = Some []\<rparr>" by (simp add: demo_handled_def)
  have a: "''a'' \<noteq> gs_selfAddr ?gs" by (simp add: gs_New_def gs_SetSelfFingerprint_def)
  have fp: "\<not> is_self_fp ?gs (Metadata n)" if "map_of (nodes cs') ''a'' = Some n" for n
    using that h unfolding HandleResponse_def cs_Merge_def
    by (auto simp: demo_handled_def demo_sender_def cs_run_def cs_New_def cs_UpdateState_def fireChange_def set_node_def
        cs_GetNodes_def cs_Digest_def cs_AllNodes_def List.map_filter_def response_full_step_def response_digest_step_def
        gs_New_def gs_SetSelfFingerprint_def is_self_fp_def go_get_def merge_step_def cs_SetMetadata_def digest_map_def Let_def
        word_le_nat_alt word_less_nat_alt less_node_state_def fingerprint_key_def)
  from gossip_exchange_dominates [OF demo_table_ok demo_handled_eq h m a fp] show ?thesis
    unfolding h by simp
qed

text \<open>The table does not protect the node's own entry from its peers: a digest that reports the node
  itself dead at its current generation is adopted, and \<open>BumpSelfGeneration\<close>, meant to refute
  such a report, keeps the state, so that the node then advertises itself as dead with a newer
  generation.\<close>

lemma self_reported_dead_is_advertised:
  assumes "cs_ok cs" and "map_of (nodes cs) (selfAddr cs) = Some n" and "Generation n \<noteq> - 1"
    and "d \<in> set (GDigests msg)" and "DAddr d = selfAddr cs" and "DGeneration d = Generation n"
    and "HandleDigest now gs peers msg cs = (cs', dials, resp)"
  shows "\<exists>e \<in> set (cs_Digest (cs_BumpSelfGeneration now' cs')).
           DAddr e = selfAddr cs \<and> DState d \<le> DState e \<and> Generation n < DGeneration e"
proof -
  let ?self = "selfAddr cs" and ?bumped = "cs_BumpSelfGeneration now' cs'"
  have v: "cs_view cs ?self = Some (Generation n, State n)" using assms(2) by (simp add: cs_view_def)
  define s where "s = fold max (reported (GDigests msg) ?self (Generation n)) (State n)"
  have v': "cs_view cs' ?self = Some (Generation n, s)"
    using HandleDigest_view(1) [OF assms(1,7), of ?self] v by (simp add: view_merge_def s_def)
  have "DState d \<in> set (reported (GDigests msg) ?self (Generation n))"
    using assms(4-6) by (force simp: reported_def)
  then have s: "DState d \<le> s"
    using Max_ge [of "set (State n # reported (GDigests msg) ?self (Generation n))" "DState d"]
    unfolding s_def Max.set_eq_fold by simp
  have "cs_view ?bumped ?self = Some (clock_generation now' (Generation n), s)"
    using v' selfAddr_HandleDigest [OF assms(7)] by (simp add: view_BumpSelfGeneration)
  then obtain m where m: "map_of (nodes ?bumped) ?self = Some m"
      "Generation m = clock_generation now' (Generation n)" "State m = s"
    by (auto simp: cs_view_def)
  have "cs_ok ?bumped" using HandleDigest_ok [OF assms(1,7)] by simp
  from map_of_Digest(3) [OF this m(1)] show ?thesis
    using s m clock_generation_grows [OF assms(3), of now'] by (intro bexI) auto
qed

theorem self_reported_dead_is_advertised_witness:
  "\<exists>e \<in> set (cs_Digest (cs_BumpSelfGeneration 9 demo_handled)).
     DAddr e = ''a'' \<and> StateDead \<le> DState e \<and> 3 < DGeneration e"
proof -
  have n: "map_of (nodes demo_table) (selfAddr demo_table)
      = Some \<lparr>Addr = ''a'', State = StateAlive, Generation = 3, LastUpdated = 3, Metadata = Some []\<rparr>"
    by (simp add: demo_table_eq)
  have d: "\<lparr>DAddr = ''a'', DState = StateDead, DGeneration = 3\<rparr> \<in> set (GDigests demo_msg)"
    by (simp add: demo_msg_def)
  from self_reported_dead_is_advertised [OF demo_table_ok n _ d _ _ demo_handled_eq, of 9] show ?thesis
    by (simp add: demo_table_eq)
qed

end
