(* ===== verification/Failure.thy ===== *)
theory Failure
  imports Prelude
begin

text \<open>
  The phi-accrual failure detector, \<open>Cluster/failure/detector.go\<close>. Times are nanoseconds as
  integers, \<open>float64\<close> values are real numbers and \<open>math.Erf\<close> is the parameter \<open>erf\<close>; a theorem
  that depends on the rounding of doubles near one says so in a hypothesis. An allocation with a
  negative capacity and a write to an empty ring buffer panic and give \<open>None\<close>.

  \<open>reap\<close> is one sequential pass of the reaper. The relation \<open>reaper_step\<close> splits the pass over one
  entry into its atomic loads, stores and compare-and-swaps, interleaved with any number of calls of
  \<open>RecordHeartbeat\<close>, each of them split at its locks too.
\<close>

section \<open>Configuration\<close>

record detector_config =
  HeartbeatInterval :: int
  SuspectThreshold :: real
  DeadTimeout :: int
  WindowSize :: int

definition second :: int where
  "second = 10 ^ 9"

definition DefaultHeartbeatInterval :: int where
  "DefaultHeartbeatInterval = 5 * second"

definition DefaultSuspectThreshold :: real where
  "DefaultSuspectThreshold = 8"

definition DefaultDeadTimeout :: int where
  "DefaultDeadTimeout = 30 * second"

definition DefaultWindowSize :: int where
  "DefaultWindowSize = 200"

definition failure_DefaultConfig :: detector_config where
  "failure_DefaultConfig = \<lparr>HeartbeatInterval = DefaultHeartbeatInterval,
     SuspectThreshold = DefaultSuspectThreshold, DeadTimeout = DefaultDeadTimeout,
     WindowSize = DefaultWindowSize\<rparr>"

section \<open>The window of one peer\<close>

text \<open>\<open>lastArrival\<close> is \<open>None\<close> for the zero time.\<close>

record peer_window =
  intervals :: "real list"
  head :: nat
  count :: nat
  lastArrival :: "int option"
  capacity :: nat

definition newPeerWindow :: "int \<Rightarrow> peer_window option" where
  "newPeerWindow cap =
     (if cap < 0 then None
      else Some \<lparr>intervals = replicate (nat cap) 0, head = 0, count = 0, lastArrival = None,
                 capacity = nat cap\<rparr>)"

text \<open>\<open>Duration.Milliseconds\<close> truncates towards zero.\<close>

definition milliseconds :: "int \<Rightarrow> int" where
  "milliseconds d = sgn d * (\<bar>d\<bar> div 10 ^ 6)"

definition sample :: "int \<Rightarrow> int \<Rightarrow> real" where
  "sample prev now = (let interval = real_of_int (milliseconds (now - prev))
                      in if interval < 0 then 0 else interval)"

definition window_record :: "int \<Rightarrow> peer_window \<Rightarrow> peer_window option" where
  "window_record now w =
     (case lastArrival w of
        None \<Rightarrow> Some (w\<lparr>lastArrival := Some now\<rparr>)
      | Some prev \<Rightarrow>
          if head w < length (intervals w) then
            Some (w\<lparr>intervals := (intervals w)[head w := sample prev now],
                    head := (head w + 1) mod capacity w,
                    count := (if count w < capacity w then count w + 1 else count w),
                    lastArrival := Some now\<rparr>)
          else None)"

definition window_mean :: "peer_window \<Rightarrow> real" where
  "window_mean w = (\<Sum>x\<leftarrow>take (count w) (intervals w). x) / real (count w)"

definition window_stddev :: "peer_window \<Rightarrow> real" where
  "window_stddev w =
     (let mean = window_mean w;
          variance = (\<Sum>x\<leftarrow>take (count w) (intervals w). (x - mean) * (x - mean)) / real (count w);
          stddev = sqrt variance;
          stddev = (if stddev < mean * (1 / 10) then mean * (1 / 10) else stddev)
      in if stddev < 1 then 1 else stddev)"

definition window_phi :: "(real \<Rightarrow> real) \<Rightarrow> int \<Rightarrow> peer_window \<Rightarrow> real" where
  "window_phi erf now w =
     (if count w < 2 then 0
      else
        (let elapsed = real_of_int (milliseconds (now - (case lastArrival w of None \<Rightarrow> 0 | Some t \<Rightarrow> t)));
             y = (elapsed - window_mean w) / (window_stddev w * sqrt 2);
             cdf = 1 / 2 * (1 + erf y)
         in if cdf \<ge> 1 then 16
            else if cdf \<le> 0 then 0
            else - log 10 (1 - cdf)))"

section \<open>The detector\<close>

record detector =
  windows :: "(string, peer_window) gomap"
  dcfg :: detector_config

definition NewPhiAccrualDetector :: "detector_config \<Rightarrow> detector" where
  "NewPhiAccrualDetector cfg = \<lparr>windows = [], dcfg = cfg\<rparr>"

definition det_RecordHeartbeat :: "string \<Rightarrow> int \<Rightarrow> detector \<Rightarrow> detector option" where
  "det_RecordHeartbeat addr arrivedAt d =
     (case (case map_of (windows d) addr of Some w \<Rightarrow> Some w | None \<Rightarrow> newPeerWindow (WindowSize (dcfg d))) of
        None \<Rightarrow> None
      | Some w \<Rightarrow>
          (case window_record arrivedAt w of
             None \<Rightarrow> None
           | Some w' \<Rightarrow> Some (d\<lparr>windows := AList.update addr w' (windows d)\<rparr>)))"

definition det_Phi :: "(real \<Rightarrow> real) \<Rightarrow> int \<Rightarrow> string \<Rightarrow> detector \<Rightarrow> real" where
  "det_Phi erf now addr d =
     (case map_of (windows d) addr of None \<Rightarrow> 0 | Some w \<Rightarrow> window_phi erf now w)"

definition det_IsAlive :: "(real \<Rightarrow> real) \<Rightarrow> int \<Rightarrow> string \<Rightarrow> detector \<Rightarrow> bool" where
  "det_IsAlive erf now addr d \<longleftrightarrow> det_Phi erf now addr d < SuspectThreshold (dcfg d)"

definition det_Remove :: "string \<Rightarrow> detector \<Rightarrow> detector" where
  "det_Remove addr d = d\<lparr>windows := AList.delete addr (windows d)\<rparr>"

section \<open>The heartbeat service\<close>

datatype peer_state_val = PeerAlive | PeerSuspect | PeerDead

record peer_entry =
  pstate :: peer_state_val
  suspectSince :: int

record heartbeat_service =
  hcfg :: detector_config
  hselfAddr :: string
  hdetector :: detector
  states :: "(string, peer_entry) gomap"

definition NewHeartbeatService :: "detector_config \<Rightarrow> string \<Rightarrow> heartbeat_service" where
  "NewHeartbeatService cfg self =
     \<lparr>hcfg = cfg, hselfAddr = self, hdetector = NewPhiAccrualDetector cfg, states = []\<rparr>"

definition zero_entry :: peer_entry where
  "zero_entry = \<lparr>pstate = PeerAlive, suspectSince = 0\<rparr>"

definition hs_RecordHeartbeat :: "int \<Rightarrow> string \<Rightarrow> heartbeat_service \<Rightarrow> heartbeat_service option" where
  "hs_RecordHeartbeat now addr hs =
     (case det_RecordHeartbeat addr now (hdetector hs) of
        None \<Rightarrow> None
      | Some d \<Rightarrow>
          (let e = go_get zero_entry (states hs) addr
           in Some (hs\<lparr>hdetector := d,
                       states := AList.update addr (e\<lparr>pstate := PeerAlive\<rparr>) (states hs)\<rparr>)))"

definition hs_RemovePeer :: "string \<Rightarrow> heartbeat_service \<Rightarrow> heartbeat_service" where
  "hs_RemovePeer addr hs =
     hs\<lparr>hdetector := det_Remove addr (hdetector hs), states := AList.delete addr (states hs)\<rparr>"

text \<open>The addresses one tick of \<open>senderLoop\<close> sends a heartbeat to.\<close>

definition sender_tick :: "string list \<Rightarrow> heartbeat_service \<Rightarrow> string list" where
  "sender_tick peers hs = filter (\<lambda>addr. addr \<noteq> hselfAddr hs) peers"

datatype reap_event = OnSuspect string | OnDead string

definition reap_entry ::
  "detector_config \<Rightarrow> int \<Rightarrow> string \<Rightarrow> real \<Rightarrow> peer_entry \<Rightarrow> peer_entry \<times> reap_event list" where
  "reap_entry cfg now addr phi e =
     (if phi \<ge> SuspectThreshold cfg \<and> pstate e = PeerAlive then
        (\<lparr>pstate = PeerSuspect, suspectSince = now\<rparr>, [OnSuspect addr])
      else if pstate e = PeerSuspect then
        (if now - suspectSince e \<ge> DeadTimeout cfg
         then (e\<lparr>pstate := PeerDead\<rparr>, [OnDead addr]) else (e, []))
      else (e, []))"

definition reap_step ::
  "(real \<Rightarrow> real) \<Rightarrow> int \<Rightarrow> string \<Rightarrow> heartbeat_service \<times> reap_event list \<Rightarrow> heartbeat_service \<times> reap_event list" where
  "reap_step erf now addr = (\<lambda>(hs, events).
     (if addr = hselfAddr hs then (hs, events)
      else
        (let phi = det_Phi erf now addr (hdetector hs);
             (e, ev) = reap_entry (hcfg hs) now addr phi (go_get zero_entry (states hs) addr)
         in (hs\<lparr>states := AList.update addr e (states hs)\<rparr>, events @ ev))))"

definition reap ::
  "(real \<Rightarrow> real) \<Rightarrow> int \<Rightarrow> string list \<Rightarrow> heartbeat_service \<Rightarrow> heartbeat_service \<times> reap_event list" where
  "reap erf now peers hs = fold (reap_step erf now) peers (hs, [])"

section \<open>The ring buffer holds the last samples\<close>

text \<open>The samples in the window, oldest first.\<close>

definition samples :: "peer_window \<Rightarrow> real list" where
  "samples w = (if count w < capacity w then take (count w) (intervals w)
                else drop (head w) (intervals w) @ take (head w) (intervals w))"

definition window_ok :: "peer_window \<Rightarrow> bool" where
  "window_ok w \<longleftrightarrow> 0 < capacity w \<and> length (intervals w) = capacity w \<and> head w < capacity w \<and>
     count w \<le> capacity w \<and> (count w < capacity w \<longrightarrow> head w = count w)"

text \<open>The last \<open>n\<close> elements.\<close>

definition last_n :: "nat \<Rightarrow> 'a list \<Rightarrow> 'a list" where
  "last_n n xs = drop (length xs - n) xs"

lemma last_n_snoc:
  assumes "0 < n"
  shows "last_n n (last_n n xs @ [x]) = last_n n (xs @ [x])"
proof -
  have "length xs - n + (length (drop (length xs - n) xs) + 1 - n) = length xs + 1 - n" using assms by auto
  then show ?thesis using assms
    by (cases "n \<le> length xs") (auto simp: last_n_def)
qed

lemma window_record_first:
  "lastArrival w = None \<Longrightarrow> window_record now w = Some (w\<lparr>lastArrival := Some now\<rparr>)"
  by (simp add: window_record_def)

lemma samples_record:
  assumes ok: "window_ok w" and prev: "lastArrival w = Some prev"
  shows "\<exists>w'. window_record now w = Some w' \<and> window_ok w' \<and> capacity w' = capacity w \<and>
    lastArrival w' = Some now \<and> samples w' = last_n (capacity w) (samples w @ [sample prev now])"
proof -
  let ?x = "sample prev now" and ?c = "capacity w"
  let ?w = "w\<lparr>intervals := (intervals w)[head w := ?x], head := (head w + 1) mod ?c,
    count := (if count w < ?c then count w + 1 else count w), lastArrival := Some now\<rparr>"
  have o: "0 < ?c" "length (intervals w) = ?c" "head w < ?c" "count w \<le> ?c"
      "count w < ?c \<Longrightarrow> head w = count w" using ok by (auto simp: window_ok_def)
  have eq: "window_record now w = Some ?w" using o prev by (simp add: window_record_def)
  have "samples ?w = last_n ?c (samples w @ [?x])"
  proof (cases "count w < ?c")
    case True
    then have h: "head w = count w" by (rule o(5))
    have t: "take (Suc (count w)) ((intervals w)[count w := ?x]) = take (count w) (intervals w) @ [?x]"
      using True o(2) by (simp add: take_Suc_conv_app_nth)
    show ?thesis
    proof (cases "count w + 1 < ?c")
      case True
      then show ?thesis using h o t by (simp add: samples_def last_n_def)
    next
      case False
      then have c: "Suc (count w) = ?c" using True by simp
      then have "(intervals w)[count w := ?x] = take (count w) (intervals w) @ [?x]"
        using t o(2) by simp
      then show ?thesis using h o c by (simp add: samples_def last_n_def)
    qed
  next
    case False
    then have c: "count w = ?c" using o(4) by simp
    have split: "intervals w = take (head w) (intervals w) @ intervals w ! head w # drop (Suc (head w)) (intervals w)"
      using o(2,3) by (simp add: id_take_nth_drop)
    have d: "drop (head w) (intervals w) = intervals w ! head w # drop (Suc (head w)) (intervals w)"
      using o(2,3) by (simp add: Cons_nth_drop_Suc)
    have upd: "(intervals w)[head w := ?x] = take (head w) (intervals w) @ ?x # drop (Suc (head w)) (intervals w)"
      using o(2,3) by (simp add: upd_conv_take_nth_drop)
    have rhs: "last_n ?c (samples w @ [?x]) = drop (Suc (head w)) (intervals w) @ take (head w) (intervals w) @ [?x]"
      using c d o by (simp add: samples_def last_n_def)
    show ?thesis
    proof (cases "Suc (head w) < ?c")
      case True
      then show ?thesis unfolding rhs using c o by (simp add: samples_def upd)
    next
      case False
      then have "Suc (head w) = ?c" using o(3) by simp
      then show ?thesis unfolding rhs using c o by (simp add: samples_def upd)
    qed
  qed
  moreover have "window_ok ?w" using o by (auto simp: window_ok_def mod_Suc)
  ultimately show ?thesis using eq by simp
qed

fun window_run :: "int list \<Rightarrow> peer_window \<Rightarrow> peer_window option" where
  "window_run [] w = Some w"
| "window_run (t # ts) w = (case window_record t w of None \<Rightarrow> None | Some w' \<Rightarrow> window_run ts w')"

lemma window_run_samples:
  assumes "window_ok w" and "lastArrival w = Some t" and "samples w = last_n (capacity w) ds"
  shows "\<exists>w'. window_run ts w = Some w' \<and> samples w' = last_n (capacity w) (ds @ map2 sample (t # ts) ts)"
  using assms
proof (induction ts arbitrary: w t ds)
  case Nil
  then show ?case by simp
next
  case (Cons u ts)
  obtain w' where w': "window_record u w = Some w'" "window_ok w'" "capacity w' = capacity w"
      "lastArrival w' = Some u" "samples w' = last_n (capacity w) (samples w @ [sample t u])"
    using samples_record [OF Cons.prems(1,2), of u] by blast
  have "samples w' = last_n (capacity w') (ds @ [sample t u])"
    using Cons.prems(1,3) w'(3,5) by (simp add: last_n_snoc window_ok_def)
  from Cons.IH [OF w'(2,4) this] show ?case using w'(1,3) by simp
qed

section \<open>Phi\<close>

lemma milliseconds_mono: "d \<le> e \<Longrightarrow> milliseconds d \<le> milliseconds e"
proof -
  have up: "milliseconds d = d div 10 ^ 6" if "0 \<le> d" for d
    using that by (cases "d = 0") (simp_all add: milliseconds_def)
  have down: "milliseconds d = - (- d div 10 ^ 6)" if "d \<le> 0" for d
    using that by (cases "d = 0") (simp_all add: milliseconds_def)
  assume "d \<le> e"
  consider "0 \<le> d" | "d \<le> 0" "0 \<le> e" | "e \<le> 0" using \<open>d \<le> e\<close> by linarith
  then show ?thesis
  proof cases
    case 1
    then show ?thesis using \<open>d \<le> e\<close> by (simp add: up zdiv_mono1)
  next
    case 2
    then have "milliseconds d \<le> 0" "0 \<le> milliseconds e"
      by (simp_all add: up down pos_imp_zdiv_nonneg_iff)
    then show ?thesis by linarith
  next
    case 3
    then show ?thesis using \<open>d \<le> e\<close> by (simp add: down zdiv_mono1)
  qed
qed

lemma window_stddev_ge: "1 \<le> window_stddev w"
  by (simp add: window_stddev_def Let_def)

text \<open>The value computed from the cumulative distribution.\<close>

definition phi_of_cdf :: "real \<Rightarrow> real" where
  "phi_of_cdf cdf = (if cdf \<ge> 1 then 16 else if cdf \<le> 0 then 0 else - log 10 (1 - cdf))"

lemma phi_of_cdf_bounds:
  assumes "cdf \<ge> 1 \<or> cdf \<le> 1 - 1 / 2 ^ 53"
  shows "0 \<le> phi_of_cdf cdf" and "phi_of_cdf cdf \<le> 16"
proof -
  show "0 \<le> phi_of_cdf cdf" by (simp add: phi_of_cdf_def)
  show "phi_of_cdf cdf \<le> 16"
  proof (cases "0 < cdf \<and> cdf < 1")
    case True
    have "(1 :: real) / 10 ^ 16 \<le> 1 / 2 ^ 53" by simp
    also have "\<dots> \<le> 1 - cdf" using True assms by linarith
    finally have "log 10 (1 / 10 ^ 16) \<le> log 10 (1 - cdf)" using True by (intro log_mono) auto
    moreover have "log 10 (1 / 10 ^ 16) = (-16 :: real)" 
      using log_pow_cancel [of "10::real" 16] by (simp add: log_divide)
    ultimately have "- log 10 (1 - cdf) \<le> 16" by linarith
    then show ?thesis using True by (simp add: phi_of_cdf_def)
  qed (auto simp: phi_of_cdf_def)
qed

lemma phi_of_cdf_mono:
  assumes "c \<le> d" and "d \<ge> 1 \<or> d \<le> 1 - 1 / 2 ^ 53" and "c \<ge> 1 \<or> c \<le> 1 - 1 / 2 ^ 53"
  shows "phi_of_cdf c \<le> phi_of_cdf d"
proof (cases "0 < c \<and> d < 1")
  case True
  then have "log 10 (1 - d) \<le> log 10 (1 - c)" using assms(1) by (intro log_mono) auto
  then show ?thesis using True assms(1) by (simp add: phi_of_cdf_def)
next
  case False
  then consider "c \<le> 0" | "d \<ge> 1" by linarith
  then show ?thesis
  proof cases
    case 1
    then show ?thesis using phi_of_cdf_bounds(1) [OF assms(2)] by (simp add: phi_of_cdf_def)
  next
    case 2
    then show ?thesis using phi_of_cdf_bounds(2) [OF assms(3)] by (simp add: phi_of_cdf_def)
  qed
qed

section \<open>The reaper interleaved with heartbeats\<close>

text \<open>Where the reaper is in its pass over one entry: it has loaded phi, then the state, then won the
  compare-and-swap to Suspect and is about to stamp \<open>suspectSince\<close>, or it has loaded
  \<open>suspectSince\<close>, or found the timeout expired and is about to compare-and-swap to Dead.\<close>

datatype reaper_pc = RIdle | RPhi real | RLoaded real peer_state_val | RStamp | RSince int | RExpired

text \<open>A call of \<open>RecordHeartbeat\<close> has read the clock and fed the window, or it also has the entry from the map and is
  about to swap the state; \<open>flights\<close> are the calls under way, with the time each of them read. \<open>beats\<close> (arrival and
  swap of every finished call) and \<open>deaths\<close> (time of the call of \<open>onDead\<close>, heartbeats finished by then) are history
  variables. The entry is the one the map holds throughout: \<open>RemovePeer\<close> is not part of the relation.\<close>

datatype flight = Fed int | Found int

record reaper_state =
  entry :: peer_entry
  pc :: reaper_pc
  clock :: int
  flights :: "flight list"
  beats :: "(int \<times> int) list"
  deaths :: "(int \<times> (int \<times> int) list) list"

inductive reaper_step :: "detector_config \<Rightarrow> reaper_state \<Rightarrow> reaper_state \<Rightarrow> bool"
  for cfg :: detector_config where
  tick: "clock s \<le> t \<Longrightarrow> reaper_step cfg s (s\<lparr>clock := t\<rparr>)"
| beat_fed: "reaper_step cfg s (s\<lparr>flights := Fed (clock s) # flights s\<rparr>)"
| beat_found: "flights s = xs @ Fed a # ys \<Longrightarrow> reaper_step cfg s (s\<lparr>flights := xs @ Found a # ys\<rparr>)"
| beat_swapped: "flights s = xs @ Found a # ys \<Longrightarrow>
    reaper_step cfg s (s\<lparr>entry := (entry s)\<lparr>pstate := PeerAlive\<rparr>, flights := xs @ ys, beats := (a, clock s) # beats s\<rparr>)"
| load_phi: "pc s = RIdle \<Longrightarrow> reaper_step cfg s (s\<lparr>pc := RPhi p\<rparr>)"
| load_state: "pc s = RPhi p \<Longrightarrow> reaper_step cfg s (s\<lparr>pc := RLoaded p (pstate (entry s))\<rparr>)"
| suspect_won: "pc s = RLoaded p PeerAlive \<Longrightarrow> SuspectThreshold cfg \<le> p \<Longrightarrow> pstate (entry s) = PeerAlive \<Longrightarrow>
    reaper_step cfg s (s\<lparr>entry := (entry s)\<lparr>pstate := PeerSuspect\<rparr>, pc := RStamp\<rparr>)"
| suspect_lost: "pc s = RLoaded p PeerAlive \<Longrightarrow> SuspectThreshold cfg \<le> p \<Longrightarrow> pstate (entry s) \<noteq> PeerAlive \<Longrightarrow>
    reaper_step cfg s (s\<lparr>pc := RIdle\<rparr>)"
| stamp: "pc s = RStamp \<Longrightarrow>
    reaper_step cfg s (s\<lparr>entry := (entry s)\<lparr>suspectSince := clock s\<rparr>, pc := RIdle\<rparr>)"
| load_since: "pc s = RLoaded p PeerSuspect \<Longrightarrow>
    reaper_step cfg s (s\<lparr>pc := RSince (suspectSince (entry s))\<rparr>)"
| expired: "pc s = RSince u \<Longrightarrow> DeadTimeout cfg \<le> clock s - u \<Longrightarrow> reaper_step cfg s (s\<lparr>pc := RExpired\<rparr>)"
| not_expired: "pc s = RSince u \<Longrightarrow> clock s - u < DeadTimeout cfg \<Longrightarrow> reaper_step cfg s (s\<lparr>pc := RIdle\<rparr>)"
| dead_won: "pc s = RExpired \<Longrightarrow> pstate (entry s) = PeerSuspect \<Longrightarrow>
    reaper_step cfg s (s\<lparr>entry := (entry s)\<lparr>pstate := PeerDead\<rparr>, pc := RIdle,
                         deaths := deaths s @ [(clock s, beats s)]\<rparr>)"
| dead_lost: "pc s = RExpired \<Longrightarrow> pstate (entry s) \<noteq> PeerSuspect \<Longrightarrow> reaper_step cfg s (s\<lparr>pc := RIdle\<rparr>)"
| nothing: "pc s = RLoaded p c \<Longrightarrow> c = PeerDead \<or> c = PeerAlive \<and> p < SuspectThreshold cfg \<Longrightarrow>
    reaper_step cfg s (s\<lparr>pc := RIdle\<rparr>)"

text \<open>A fresh entry.\<close>

definition reaper_init :: "reaper_state \<Rightarrow> bool" where
  "reaper_init s \<longleftrightarrow> entry s = zero_entry \<and> pc s = RIdle \<and> flights s = [] \<and> beats s = [] \<and> deaths s = [] \<and>
     0 \<le> clock s"

inductive reaper_reachable :: "detector_config \<Rightarrow> reaper_state \<Rightarrow> bool" for cfg :: detector_config where
  start: "reaper_init s \<Longrightarrow> reaper_reachable cfg s"
| step: "reaper_reachable cfg s \<Longrightarrow> reaper_step cfg s s' \<Longrightarrow> reaper_reachable cfg s'"

inductive_cases reaper_stepE: "reaper_step cfg s s'"

text \<open>While an entry is not alive, every finished heartbeat is no later than its time stamp (once written).\<close>

definition flight_time :: "flight \<Rightarrow> int" where
  "flight_time f = (case f of Fed a \<Rightarrow> a | Found a \<Rightarrow> a)"

definition reaper_inv :: "detector_config \<Rightarrow> reaper_state \<Rightarrow> bool" where
  "reaper_inv cfg s \<longleftrightarrow> suspectSince (entry s) \<le> clock s \<and>
     (\<forall>f \<in> set (flights s). flight_time f \<le> clock s) \<and>
     (\<forall>(a, b) \<in> set (beats s). a \<le> b \<and> b \<le> clock s) \<and>
     (pstate (entry s) \<noteq> PeerAlive \<and> pc s \<noteq> RStamp \<longrightarrow> (\<forall>(a, b) \<in> set (beats s). b \<le> suspectSince (entry s))) \<and>
     (\<forall>u. pc s = RSince u \<longrightarrow> u = suspectSince (entry s)) \<and>
     (pc s = RExpired \<longrightarrow> DeadTimeout cfg \<le> clock s - suspectSince (entry s)) \<and>
     (\<forall>(t, hs) \<in> set (deaths s). \<forall>(a, b) \<in> set hs. a \<le> b \<and> DeadTimeout cfg \<le> t - b)"

lemma reaper_inv_init: "reaper_init s \<Longrightarrow> reaper_inv cfg s"
  by (simp add: reaper_init_def reaper_inv_def zero_entry_def)

lemma reaper_inv_step: "reaper_step cfg s s' \<Longrightarrow> reaper_inv cfg s \<Longrightarrow> reaper_inv cfg s'"
proof (induction rule: reaper_step.induct)
  case (beat_found s xs a ys)
  then show ?case by (auto simp: reaper_inv_def flight_time_def)
next
  case (beat_swapped s xs a ys)
  then show ?case by (auto simp: reaper_inv_def flight_time_def)
qed (auto simp: reaper_inv_def flight_time_def split: flight.splits prod.splits)

lemma reaper_inv_reachable: "reaper_reachable cfg s \<Longrightarrow> reaper_inv cfg s"
  by (induction rule: reaper_reachable.induct) (auto simp: reaper_inv_init reaper_inv_step)

text \<open>The sequential pass over one entry is a run of the relation in which nothing intervenes.\<close>

lemma reap_entry_run:
  assumes "pc s = RIdle"
  shows "\<exists>s'. (reaper_step cfg)\<^sup>*\<^sup>* s s' \<and> pc s' = RIdle \<and>
           entry s' = fst (reap_entry cfg (clock s) addr phi (entry s))"
proof -
  let ?l = "s\<lparr>pc := RLoaded phi (pstate (entry s))\<rparr>"
  have l: "(reaper_step cfg)\<^sup>*\<^sup>* s ?l"
    using load_phi [OF assms, of cfg phi] load_state [of "s\<lparr>pc := RPhi phi\<rparr>" phi cfg]
    by (simp add: converse_rtranclp_into_rtranclp)
  consider (suspect) "phi \<ge> SuspectThreshold cfg" "pstate (entry s) = PeerAlive"
    | (check) "pstate (entry s) = PeerSuspect"
    | (other) "pstate (entry s) = PeerDead \<or> pstate (entry s) = PeerAlive \<and> phi < SuspectThreshold cfg"
    by (cases "pstate (entry s)"; cases "SuspectThreshold cfg \<le> phi") auto
  then show ?thesis
  proof cases
    case suspect
    let ?a = "s\<lparr>entry := (entry s)\<lparr>pstate := PeerSuspect\<rparr>, pc := RStamp\<rparr>"
    have "reaper_step cfg ?l ?a" using suspect_won [of ?l phi cfg] suspect by simp
    moreover have "reaper_step cfg ?a (?a\<lparr>entry := (entry ?a)\<lparr>suspectSince := clock ?a\<rparr>, pc := RIdle\<rparr>)"
      by (rule stamp) simp
    ultimately have "(reaper_step cfg)\<^sup>*\<^sup>* s (?a\<lparr>entry := (entry ?a)\<lparr>suspectSince := clock ?a\<rparr>, pc := RIdle\<rparr>)"
      using l by (meson rtranclp.rtrancl_into_rtrancl)
    then show ?thesis by (intro exI conjI) (assumption, (simp add: reap_entry_def suspect)+)
  next
    case check
    let ?b = "s\<lparr>pc := RSince (suspectSince (entry s))\<rparr>"
    have b: "reaper_step cfg ?l ?b" using load_since [of ?l phi cfg] check by simp
    show ?thesis
    proof (cases "DeadTimeout cfg \<le> clock s - suspectSince (entry s)")
      case True
      let ?c = "s\<lparr>pc := RExpired\<rparr>"
      let ?d = "?c\<lparr>entry := (entry ?c)\<lparr>pstate := PeerDead\<rparr>, pc := RIdle, deaths := deaths ?c @ [(clock ?c, beats ?c)]\<rparr>"
      have "reaper_step cfg ?b ?c" using expired [of ?b _ cfg] True by simp
      moreover have "reaper_step cfg ?c ?d" using dead_won [of ?c cfg] check by simp
      ultimately have "(reaper_step cfg)\<^sup>*\<^sup>* s ?d" using l b by (meson rtranclp.rtrancl_into_rtrancl)
      then show ?thesis by (intro exI conjI) (assumption, (simp add: reap_entry_def check True)+)
    next
      case False
      have "reaper_step cfg ?b (?b\<lparr>pc := RIdle\<rparr>)" using not_expired [of ?b _ cfg] False by simp
      then have "(reaper_step cfg)\<^sup>*\<^sup>* s (?b\<lparr>pc := RIdle\<rparr>)" using l b by (meson rtranclp.rtrancl_into_rtrancl)
      then show ?thesis by (intro exI conjI) (assumption, (use False in \<open>simp add: reap_entry_def check\<close>)+)
    qed
  next
    case other
    have "reaper_step cfg ?l (?l\<lparr>pc := RIdle\<rparr>)"
      by (rule nothing [of _ phi "pstate (entry s)"]) (use other in auto)
    then have "(reaper_step cfg)\<^sup>*\<^sup>* s (?l\<lparr>pc := RIdle\<rparr>)" using l by (meson rtranclp.rtrancl_into_rtrancl)
    then show ?thesis by (intro exI conjI) (assumption, (use other in \<open>auto simp: reap_entry_def\<close>)+)
  qed
qed

section \<open>Properties\<close>

text \<open>The ring buffer refines a list: after heartbeats at times \<open>t\<close>, \<open>ts\<close> a window of positive
  capacity holds the last \<open>capacity\<close> inter-arrival times, oldest first, and never panics.\<close>

lemma window_holds_last_intervals:
  assumes "0 < cap"
  shows "\<exists>w0 w. newPeerWindow cap = Some w0 \<and> window_run (t # ts) w0 = Some w \<and>
           samples w = last_n (nat cap) (map2 sample (t # ts) ts)"
proof -
  obtain w0 where w0: "newPeerWindow cap = Some w0" "window_ok w0" "lastArrival w0 = None"
      "capacity w0 = nat cap" "samples w0 = []"
    using assms by (simp add: newPeerWindow_def window_ok_def samples_def)
  let ?w = "w0\<lparr>lastArrival := Some t\<rparr>"
  have "samples ?w = samples w0" by (simp add: samples_def)
  moreover have "window_ok ?w" using w0(2) by (simp add: window_ok_def)
  ultimately show ?thesis
    using window_run_samples [of ?w t "[]" ts] w0 window_record_first [OF w0(3), of t]
    by (simp add: last_n_def)
qed

theorem window_holds_last_intervals_witness:
  "\<exists>w0 w. newPeerWindow 2 = Some w0 \<and> window_run [0, 10 ^ 6, 3 * 10 ^ 6, 6 * 10 ^ 6] w0 = Some w \<and>
     samples w = [2, 3]"
  using window_holds_last_intervals [of 2 0 "[10 ^ 6, 3 * 10 ^ 6, 6 * 10 ^ 6]"]
  by (simp add: last_n_def sample_def milliseconds_def)

text \<open>While no heartbeat arrives the suspicion of a peer never falls and stays between 0 and 16, when
  \<open>erf\<close> is monotone and a value below one is at least one unit in the last place below it.\<close>

lemma phi_grows_with_silence:
  assumes "mono erf" and "\<And>y. erf y \<ge> 1 \<or> erf y \<le> 1 - 1 / 2 ^ 52" and "t \<le> t'"
  shows "0 \<le> window_phi erf t w \<and> window_phi erf t w \<le> window_phi erf t' w \<and> window_phi erf t' w \<le> 16"
proof (cases "count w < 2")
  case False
  let ?last = "case lastArrival w of None \<Rightarrow> 0 | Some t \<Rightarrow> t"
  define y where "y = (\<lambda>t. (real_of_int (milliseconds (t - ?last)) - window_mean w) / (window_stddev w * sqrt 2))"
  define cdf where "cdf = (\<lambda>t. 1 / 2 * (1 + erf (y t)))"
  have phi: "window_phi erf t w = phi_of_cdf (cdf t)" for t
    using False by (simp add: window_phi_def phi_of_cdf_def cdf_def y_def Let_def)
  have gap: "cdf t \<ge> 1 \<or> cdf t \<le> 1 - 1 / 2 ^ 53" for t
    using assms(2) [of "y t"] by (auto simp: cdf_def)
  have "milliseconds (t - ?last) \<le> milliseconds (t' - ?last)" using assms(3) by (intro milliseconds_mono) simp
  then have "y t \<le> y t'" using window_stddev_ge [of w]
    by (auto simp: y_def intro!: divide_right_mono)
  then have "cdf t \<le> cdf t'" using monoD [OF assms(1)] by (simp add: cdf_def)
  then show ?thesis unfolding phi
    using phi_of_cdf_mono gap phi_of_cdf_bounds by blast
qed (simp add: window_phi_def)

definition demo_erf :: "real \<Rightarrow> real" where
  "demo_erf y = (if y < 0 then - 1 else if y < 2 then 0 else 1)"

theorem phi_grows_with_silence_witness:
  "window_phi demo_erf (5 * 10 ^ 6) \<lparr>intervals = [1, 1], head = 0, count = 2, lastArrival = Some 0, capacity = 2\<rparr>
   \<le> window_phi demo_erf (9 * 10 ^ 6) \<lparr>intervals = [1, 1], head = 0, count = 2, lastArrival = Some 0, capacity = 2\<rparr>"
proof -
  have m: "mono demo_erf" by (auto intro!: monoI simp: demo_erf_def)
  have g: "demo_erf y \<ge> 1 \<or> demo_erf y \<le> 1 - 1 / 2 ^ 52" for y by (simp add: demo_erf_def)
  show ?thesis using phi_grows_with_silence [OF m g, of "5 * 10 ^ 6" "9 * 10 ^ 6"] by simp
qed

text \<open>C7. Whatever the interleaving of the reaper with calls of \<open>RecordHeartbeat\<close>, each of which reads the clock, looks
  the entry up and swaps its state in separate steps: \<open>onDead\<close> is called for an entry that is not removed meanwhile
  only when every call that has swapped the state did so, and hence read the clock, at least \<open>DeadTimeout\<close> ago. A
  heartbeat that arrived later has not reached the swap yet.\<close>

theorem dead_only_after_timeout:
  assumes "reaper_reachable cfg s" and "(t, hs) \<in> set (deaths s)" and "(arrived, swapped) \<in> set hs"
  shows "DeadTimeout cfg \<le> t - swapped \<and> DeadTimeout cfg \<le> t - arrived"
  using reaper_inv_reachable [OF assms(1)] assms(2,3) by (fastforce simp: reaper_inv_def)

definition demo_reaper :: "peer_entry \<Rightarrow> reaper_pc \<Rightarrow> int \<Rightarrow> (int \<times> (int \<times> int) list) list \<Rightarrow> reaper_state" where
  "demo_reaper e p t ds = \<lparr>entry = e, pc = p, clock = t, flights = [], beats = [(0, 0)], deaths = ds\<rparr>"

lemma demo_reaper_dead:
  "reaper_reachable failure_DefaultConfig
     (demo_reaper \<lparr>pstate = PeerDead, suspectSince = 0\<rparr> RIdle (40 * second) [(40 * second, [(0, 0)])])"
proof -
  let ?c = failure_DefaultConfig and ?R = "reaper_reachable failure_DefaultConfig"
  note d = demo_reaper_def failure_DefaultConfig_def DefaultSuspectThreshold_def DefaultDeadTimeout_def second_def
  let ?i = "\<lparr>entry = zero_entry, pc = RIdle, clock = 0, flights = [], beats = [], deaths = []\<rparr>"
  have "?R ?i" by (rule reaper_reachable.start) (simp add: reaper_init_def)
  from reaper_reachable.step [OF this beat_fed] have "?R (?i\<lparr>flights := [Fed 0]\<rparr>)" by simp
  from reaper_reachable.step [OF this beat_found [where xs = "[]" and ys = "[]" and a = 0]]
  have "?R (?i\<lparr>flights := [Found 0]\<rparr>)" by simp
  from reaper_reachable.step [OF this beat_swapped [where xs = "[]" and ys = "[]" and a = 0]]
  have "?R (demo_reaper zero_entry RIdle 0 [])" by (simp add: d zero_entry_def)
  from reaper_reachable.step [OF this load_phi [where p = 9]]
  have "?R (demo_reaper zero_entry (RPhi 9) 0 [])" by (simp add: d)
  from reaper_reachable.step [OF this load_state [where p = 9]]
  have "?R (demo_reaper zero_entry (RLoaded 9 PeerAlive) 0 [])" by (simp add: d zero_entry_def)
  from reaper_reachable.step [OF this suspect_won [where p = 9]]
  have "?R (demo_reaper \<lparr>pstate = PeerSuspect, suspectSince = 0\<rparr> RStamp 0 [])" by (simp add: d zero_entry_def)
  from reaper_reachable.step [OF this stamp]
  have "?R (demo_reaper \<lparr>pstate = PeerSuspect, suspectSince = 0\<rparr> RIdle 0 [])" by (simp add: d)
  from reaper_reachable.step [OF this tick [where t = "40 * second"]]
  have "?R (demo_reaper \<lparr>pstate = PeerSuspect, suspectSince = 0\<rparr> RIdle (40 * second) [])" by (simp add: d)
  from reaper_reachable.step [OF this load_phi [where p = 9]]
  have "?R (demo_reaper \<lparr>pstate = PeerSuspect, suspectSince = 0\<rparr> (RPhi 9) (40 * second) [])" by (simp add: d)
  from reaper_reachable.step [OF this load_state [where p = 9]]
  have "?R (demo_reaper \<lparr>pstate = PeerSuspect, suspectSince = 0\<rparr> (RLoaded 9 PeerSuspect) (40 * second) [])"
    by (simp add: d)
  from reaper_reachable.step [OF this load_since [where p = 9]]
  have "?R (demo_reaper \<lparr>pstate = PeerSuspect, suspectSince = 0\<rparr> (RSince 0) (40 * second) [])" by (simp add: d)
  from reaper_reachable.step [OF this expired [where u = 0]]
  have "?R (demo_reaper \<lparr>pstate = PeerSuspect, suspectSince = 0\<rparr> RExpired (40 * second) [])" by (simp add: d)
  from reaper_reachable.step [OF this dead_won] show ?thesis by (simp add: d)
qed

theorem dead_only_after_timeout_witness: "DeadTimeout failure_DefaultConfig \<le> 40 * second - 0"
  using dead_only_after_timeout [OF demo_reaper_dead, of "40 * second" "[(0, 0)]" 0 0] by (simp add: demo_reaper_def)

end
