(* ===== verification/Handoff.thy ===== *)
theory Handoff
  imports Prelude
begin

text \<open>
  Hinted handoff, \<open>Cluster/handoff/handoff.go\<close>. The store keeps the hints of each target in memory
  and mirrors them in one file per target; \<open>disk\<close> maps a file name to the hints its JSON text holds,
  \<open>None\<close> when it cannot be read or parsed. \<open>wr\<close> says how the write of a file ends: \<open>os.WriteFile\<close>
  truncates the file first, so a failed write is reported and may leave anything. Sizes and the running total are
  \<open>int64\<close> values, wrapped by \<open>i64\<close>. \<open>deliverPending\<close> is one delivery that nothing interrupts; in the sequences of
  operations each attempt is an operation of its own, on a copy of the hint that may be out of date.
\<close>

record hint =
  HKey :: string
  HTarget :: string
  HSize :: int
  HCreated :: int
  HAttempts :: int

record hint_store =
  hints :: "(string, hint list) gomap"
  maxHints :: int
  maxAge :: int
  totalDataSize :: int
  maxDataSize :: int
  disk :: "(string, hint list option) gomap"

definition DefaultMaxHints :: int where
  "DefaultMaxHints = 200"

definition DefaultMaxAge :: int where
  "DefaultMaxAge = 24 * 3600 * 10 ^ 9"

definition DefaultMaxDataSize :: int where
  "DefaultMaxDataSize = 512 * 2 ^ 20"

definition maxDeliveryAttempts :: int where
  "maxDeliveryAttempts = 5"

definition sanitiseAddr :: "string \<Rightarrow> string" where
  "sanitiseAddr addr = map (\<lambda>c. if c = CHR '':'' \<or> c = CHR ''/'' \<or> c = CHR ''.'' then CHR ''_'' else c) addr"

definition hints_suffix :: string where
  "hints_suffix = ''.hints.json''"

definition hintFile :: "string \<Rightarrow> string" where
  "hintFile targetAddr = sanitiseAddr targetAddr @ hints_suffix"

text \<open>\<open>s.hints[addr]\<close>, empty for a missing target.\<close>

definition target_hints :: "hint_store \<Rightarrow> string \<Rightarrow> hint list" where
  "target_hints s addr = go_get [] (hints s) addr"

text \<open>How a write ends: \<open>WriteLeaves x\<close> is an error after which there is no file (\<open>None\<close>) or one with this text, which
  may be unreadable (\<open>Some None\<close>).\<close>

datatype write_outcome = WriteOk | WriteLeaves "hint list option option"

type_synonym writes = "string \<Rightarrow> write_outcome"

text \<open>The second component says whether an error is returned.\<close>

definition persistLocked :: "writes \<Rightarrow> string \<Rightarrow> hint_store \<Rightarrow> hint_store \<times> bool" where
  "persistLocked wr targetAddr s =
     (let filename = hintFile targetAddr; hs = target_hints s targetAddr
      in if hs = [] then (s\<lparr>disk := AList.delete filename (disk s)\<rparr>, False)
         else (case wr filename of
             WriteOk \<Rightarrow> (s\<lparr>disk := AList.update filename (Some hs) (disk s)\<rparr>, False)
           | WriteLeaves None \<Rightarrow> (s\<lparr>disk := AList.delete filename (disk s)\<rparr>, True)
           | WriteLeaves (Some text) \<Rightarrow> (s\<lparr>disk := AList.update filename text (disk s)\<rparr>, True)))"

definition AddHint :: "writes \<Rightarrow> hint \<Rightarrow> hint_store \<Rightarrow> hint_store \<times> bool" where
  "AddHint wr h s =
     (if maxDataSize s > 0 \<and> i64 (totalDataSize s + HSize h) > maxDataSize s then (s, False)
      else
        (let hs = target_hints s (HTarget h);
             (hs, tot) = (if int (length hs) \<ge> maxHints s
                            then (tl hs, i64 (totalDataSize s - HSize (hd hs)))
                            else (hs, totalDataSize s))
         in persistLocked wr (HTarget h)
              (s\<lparr>hints := AList.update (HTarget h) (hs @ [h]) (hints s),
                 totalDataSize := i64 (tot + HSize h)\<rparr>)))"

definition GetHints :: "string \<Rightarrow> hint_store \<Rightarrow> hint list" where
  "GetHints targetAddr s = target_hints s targetAddr"

text \<open>\<open>s.totalDataSize -= h.DataSize\<close> for every hint of a list.\<close>

definition subtract_sizes :: "hint list \<Rightarrow> int \<Rightarrow> int" where
  "subtract_sizes hs tot = fold (\<lambda>h t. i64 (t - HSize h)) hs tot"

definition DeleteHint :: "writes \<Rightarrow> string \<Rightarrow> string \<Rightarrow> hint_store \<Rightarrow> hint_store \<times> bool" where
  "DeleteHint wr targetAddr key s =
     (let hs = target_hints s targetAddr
      in persistLocked wr targetAddr
           (s\<lparr>hints := AList.update targetAddr (filter (\<lambda>h. HKey h \<noteq> key) hs) (hints s),
              totalDataSize := subtract_sizes (filter (\<lambda>h. HKey h = key) hs) (totalDataSize s)\<rparr>))"

text \<open>The loop of \<open>UpdateHint\<close>: the first hint with the key is replaced, \<open>None\<close> when there is none.\<close>

fun replace_hint :: "hint \<Rightarrow> hint list \<Rightarrow> hint list option" where
  "replace_hint h [] = None"
| "replace_hint h (existing # hs) =
     (if HKey existing = HKey h then Some (h # hs)
      else map_option ((#) existing) (replace_hint h hs))"

definition UpdateHint :: "writes \<Rightarrow> hint \<Rightarrow> hint_store \<Rightarrow> hint_store \<times> bool" where
  "UpdateHint wr h s =
     (case replace_hint h (target_hints s (HTarget h)) of
        None \<Rightarrow> (s, False)
      | Some hs \<Rightarrow> persistLocked wr (HTarget h) (s\<lparr>hints := AList.update (HTarget h) hs (hints s)\<rparr>))"

definition purge_step :: "writes \<Rightarrow> int \<Rightarrow> string \<Rightarrow> hint_store \<Rightarrow> hint_store" where
  "purge_step wr cutoff addr s =
     (let hs = target_hints s addr;
          fresh = filter (\<lambda>h. HCreated h > cutoff) hs;
          tot = subtract_sizes (filter (\<lambda>h. \<not> HCreated h > cutoff) hs) (totalDataSize s)
      in if length fresh \<noteq> length hs
         then fst (persistLocked wr addr
                (s\<lparr>hints := AList.update addr fresh (hints s), totalDataSize := tot\<rparr>))
         else s\<lparr>totalDataSize := tot\<rparr>)"

definition PurgeExpired :: "writes \<Rightarrow> int \<Rightarrow> hint_store \<Rightarrow> hint_store" where
  "PurgeExpired wr now s = fold (purge_step wr (now - maxAge s)) (go_keys (hints s)) s"

definition HasPending :: "string \<Rightarrow> hint_store \<Rightarrow> bool" where
  "HasPending targetAddr s \<longleftrightarrow> length (target_hints s targetAddr) > 0"

definition TotalDataSize :: "hint_store \<Rightarrow> int" where
  "TotalDataSize s = totalDataSize s"

definition has_suffix :: "string \<Rightarrow> string \<Rightarrow> bool" where
  "has_suffix suffix s \<longleftrightarrow> length suffix \<le> length s \<and> drop (length s - length suffix) s = suffix"

text \<open>One directory entry of \<open>load\<close>.\<close>

definition load_step :: "string \<times> hint list option \<Rightarrow> hint_store \<Rightarrow> hint_store" where
  "load_step e s =
     (if \<not> has_suffix hints_suffix (fst e) then s
      else
        (case snd e of
           None \<Rightarrow> s
         | Some [] \<Rightarrow> s
         | Some (h # hs) \<Rightarrow>
             s\<lparr>hints := AList.update (HTarget h) (h # hs) (hints s),
               totalDataSize := fold (\<lambda>h t. i64 (t + HSize h)) (h # hs) (totalDataSize s)\<rparr>))"

definition load :: "hint_store \<Rightarrow> hint_store" where
  "load s = fold load_step (disk s) s"

text \<open>\<open>None\<close> when the directory cannot be created or listed.\<close>

definition NewStore ::
  "bool \<Rightarrow> writes \<Rightarrow> int \<Rightarrow> (string, hint list option) gomap \<Rightarrow> int \<Rightarrow> int \<Rightarrow> int \<Rightarrow> hint_store option" where
  "NewStore dir_ok wr now files mh ma md =
     (let mh = (if mh \<le> 0 then DefaultMaxHints else mh);
          ma = (if ma \<le> 0 then DefaultMaxAge else ma);
          md = (if md \<le> 0 then DefaultMaxDataSize else md)
      in if dir_ok then
           Some (PurgeExpired wr now (load \<lparr>hints = [], maxHints = mh, maxAge = ma, totalDataSize = 0,
                                            maxDataSize = md, disk = files\<rparr>))
         else None)"

section \<open>Delivery\<close>

text \<open>\<open>deliver\<close> is the callback, true when it returns no error.\<close>

definition deliver_step ::
  "writes \<Rightarrow> (hint \<Rightarrow> bool) \<Rightarrow> string \<Rightarrow> hint \<Rightarrow> hint_store \<Rightarrow> hint_store" where
  "deliver_step wr deliver addr h s =
     (if \<not> deliver h then
        (let h' = h\<lparr>HAttempts := HAttempts h + 1\<rparr>
         in if HAttempts h' \<ge> maxDeliveryAttempts then fst (DeleteHint wr addr (HKey h') s)
            else fst (UpdateHint wr h' s))
      else fst (DeleteHint wr addr (HKey h) s))"

definition deliverPending ::
  "writes \<Rightarrow> (hint \<Rightarrow> bool) \<Rightarrow> string \<Rightarrow> hint_store \<Rightarrow> hint_store" where
  "deliverPending wr deliver addr s = fold (deliver_step wr deliver addr) (GetHints addr s) s"

text \<open>\<open>active\<close> are the addresses with a delivery in progress; the result says whether one is started.\<close>

definition OnPeerReconnect :: "string list \<Rightarrow> string \<Rightarrow> hint_store \<Rightarrow> string list \<times> bool" where
  "OnPeerReconnect active addr s =
     (if \<not> HasPending addr s then (active, False)
      else if addr \<in> set active then (active, False)
      else (addr # active, True))"

definition StoreHint :: "writes \<Rightarrow> hint \<Rightarrow> hint_store \<Rightarrow> hint_store" where
  "StoreHint wr h s = fst (AddHint wr h s)"

section \<open>Accounting\<close>

definition sizes :: "hint list \<Rightarrow> int" where
  "sizes hs = (\<Sum>h\<leftarrow>hs. HSize h)"

definition stored_size :: "(string, hint list) gomap \<Rightarrow> int" where
  "stored_size m = (\<Sum>e\<leftarrow>m. sizes (snd e))"

lemma sizes_simps [simp]: "sizes [] = 0" "sizes (h # hs) = HSize h + sizes hs" "sizes (xs @ ys) = sizes xs + sizes ys"
  by (simp_all add: sizes_def)

lemma stored_size_update:
  "go_wf m \<Longrightarrow> stored_size (AList.update k hs m) = stored_size m - sizes (go_get [] m k) + sizes hs"
proof (induction m)
  case Nil
  then show ?case by (simp add: stored_size_def go_get_def)
next
  case (Cons e m)
  obtain k' hs' where e: "e = (k', hs')" by (cases e)
  show ?case
  proof (cases "k = k'")
    case True
    then show ?thesis using Cons.prems by (simp add: e stored_size_def go_get_def)
  next
    case False
    then have "go_get [] (e # m) k = go_get [] m k" by (simp add: e go_get_def)
    then show ?thesis using Cons False by (simp add: e stored_size_def)
  qed
qed

lemma sizes_filter_split: "sizes (filter P hs) + sizes (filter (\<lambda>h. \<not> P h) hs) = sizes hs"
  by (induction hs) auto

text \<open>The sizes of the hints are determined by their keys, as in a content-addressed store.\<close>

definition hint_ok :: "(string \<Rightarrow> int) \<Rightarrow> hint \<Rightarrow> bool" where
  "hint_ok sz h \<longleftrightarrow> HSize h = sz (HKey h)"

definition store_ok :: "(string \<Rightarrow> int) \<Rightarrow> hint_store \<Rightarrow> bool" where
  "store_ok sz s \<longleftrightarrow> go_wf (hints s) \<and> 0 < maxHints s \<and> 0 < maxDataSize s \<and> maxDataSize s < 2 ^ 62 \<and>
     (\<forall>(a, hs) \<in> set (hints s). int (length hs) \<le> maxHints s \<and> (\<forall>h \<in> set hs. HTarget h = a \<and> hint_ok sz h)) \<and>
     totalDataSize s = stored_size (hints s) \<and> totalDataSize s \<le> maxDataSize s"

definition small_sizes :: "(string \<Rightarrow> int) \<Rightarrow> bool" where
  "small_sizes sz \<longleftrightarrow> (\<forall>k. 0 \<le> sz k \<and> sz k < 2 ^ 62)"

lemma sizes_nonneg: "small_sizes sz \<Longrightarrow> \<forall>h \<in> set hs. hint_ok sz h \<Longrightarrow> 0 \<le> sizes hs"
  by (induction hs) (auto simp: small_sizes_def hint_ok_def)

lemma subtract_sizes_i64: "in_i64 t \<Longrightarrow> subtract_sizes hs t = i64 (t - sizes hs)"
proof (induction hs arbitrary: t)
  case (Cons h hs)
  have "subtract_sizes (h # hs) t = subtract_sizes hs (i64 (t - HSize h))" by (simp add: subtract_sizes_def)
  also have "\<dots> = i64 (i64 (t - HSize h) + - sizes hs)" using Cons.IH [of "i64 (t - HSize h)"] by simp
  also have "\<dots> = i64 (t - HSize h + - sizes hs)" by (rule i64_add_left)
  finally show ?case by (simp add: diff_diff_eq)
qed (simp add: subtract_sizes_def)

lemma persistLocked_simps [simp]:
  "hints (fst (persistLocked wr a s)) = hints s" "totalDataSize (fst (persistLocked wr a s)) = totalDataSize s"
  "maxHints (fst (persistLocked wr a s)) = maxHints s" "maxAge (fst (persistLocked wr a s)) = maxAge s"
  "maxDataSize (fst (persistLocked wr a s)) = maxDataSize s"
  by (simp_all add: persistLocked_def Let_def split: write_outcome.split option.split)

lemma store_ok_persist [simp]: "store_ok sz (fst (persistLocked wr a s)) \<longleftrightarrow> store_ok sz s"
  by (simp add: store_ok_def)

lemma target_hints_persist [simp]: "target_hints (fst (persistLocked wr a s)) b = target_hints s b"
  by (simp add: target_hints_def)

lemma stored_size_nonneg:
  assumes "small_sizes sz" and "\<forall>(a, hs) \<in> set m. \<forall>h \<in> set hs. hint_ok sz h"
  shows "0 \<le> stored_size m"
  unfolding stored_size_def
  by (rule sum_list_nonneg) (use assms(2) sizes_nonneg [OF assms(1)] in fastforce)

lemma store_okD:
  assumes "store_ok sz s"
  shows "go_wf (hints s)" and "h \<in> set (target_hints s a) \<Longrightarrow> HTarget h = a \<and> hint_ok sz h"
    and "int (length (target_hints s a)) \<le> maxHints s"
    and "small_sizes sz \<Longrightarrow> 0 \<le> totalDataSize s" and "in_i64 (totalDataSize s) \<or> \<not> small_sizes sz"
proof -
  show "go_wf (hints s)" using assms by (simp add: store_ok_def)
  have e: "target_hints s a = [] \<or> (a, target_hints s a) \<in> set (hints s)"
    by (auto simp: target_hints_def go_get_def dest: map_of_SomeD split: option.split)
  show "h \<in> set (target_hints s a) \<Longrightarrow> HTarget h = a \<and> hint_ok sz h"
    using e assms unfolding store_ok_def by auto
  show "int (length (target_hints s a)) \<le> maxHints s"
    using e assms unfolding store_ok_def by auto
  show nn: "0 \<le> totalDataSize s" if "small_sizes sz"
    using stored_size_nonneg [OF that, of "hints s"] assms by (auto simp: store_ok_def)
  show "in_i64 (totalDataSize s) \<or> \<not> small_sizes sz"
    using nn assms by (auto simp: store_ok_def in_i64_def)
qed

text \<open>One target's list is replaced and the total adjusted by the difference.\<close>

lemma store_ok_replace:
  assumes "store_ok sz s" and "small_sizes sz"
    and "int (length hs) \<le> maxHints s" and "\<And>h. h \<in> set hs \<Longrightarrow> HTarget h = a \<and> hint_ok sz h"
    and "d = sizes hs - sizes (target_hints s a)" and "totalDataSize s + d \<le> maxDataSize s"
  shows "store_ok sz (s\<lparr>hints := AList.update a hs (hints s), totalDataSize := i64 (totalDataSize s + d)\<rparr>)"
proof -
  let ?m = "AList.update a hs (hints s)"
  have all: "\<forall>(b, gs) \<in> set ?m. int (length gs) \<le> maxHints s \<and> (\<forall>h \<in> set gs. HTarget h = b \<and> hint_ok sz h)"
  proof clarify
    fix b gs assume "(b, gs) \<in> set ?m"
    then consider "b = a" "gs = hs" | "(b, gs) \<in> set (hints s)"
      using set_update_subset [of a hs "hints s"] by auto
    then show "int (length gs) \<le> maxHints s \<and> (\<forall>h \<in> set gs. HTarget h = b \<and> hint_ok sz h)"
      by cases (use assms(1,3,4) in \<open>auto simp: store_ok_def\<close>)
  qed
  have eq: "totalDataSize s + d = stored_size ?m"
    using stored_size_update [OF store_okD(1) [OF assms(1)], of a hs] assms(1,5)
    by (simp add: store_ok_def target_hints_def)
  moreover have "0 \<le> stored_size ?m"
    by (rule stored_size_nonneg [OF assms(2)]) (use all in auto)
  ultimately have "in_i64 (totalDataSize s + d)"
    using assms(1,6) by (auto simp: store_ok_def in_i64_def)
  then show ?thesis using assms(1,6) all eq by (simp add: store_ok_def)
qed

lemma store_ok_AddHint:
  assumes ok: "store_ok sz s" and sz: "small_sizes sz" and h: "hint_ok sz h"
  shows "store_ok sz (fst (AddHint wr h s))"
proof (cases "maxDataSize s > 0 \<and> i64 (totalDataSize s + HSize h) > maxDataSize s")
  case True
  then show ?thesis using ok by (simp add: AddHint_def)
next
  case False
  note budget = False
  let ?hs = "target_hints s (HTarget h)"
  have range: "in_i64 (totalDataSize s)" "0 \<le> totalDataSize s" using store_okD(4,5) [OF ok] sz by auto
  have size: "0 \<le> HSize h" "HSize h < 2 ^ 62" using h sz by (auto simp: hint_ok_def small_sizes_def)
  have pos: "0 < maxHints s" "0 < maxDataSize s" "maxDataSize s < 2 ^ 62" "totalDataSize s \<le> maxDataSize s"
    using ok by (auto simp: store_ok_def)
  have "in_i64 (totalDataSize s + HSize h)" using range size pos by (auto simp: in_i64_def)
  then have fits: "totalDataSize s + HSize h \<le> maxDataSize s" using False pos(2) by auto
  have keep: "HTarget g = HTarget h \<and> hint_ok sz g" if "g \<in> set ?hs" for g
    by (rule store_okD(2) [OF ok that])
  show ?thesis
  proof (cases "int (length ?hs) \<ge> maxHints s")
    case True
    then obtain g gs where g: "?hs = g # gs" using pos(1) by (cases ?hs) auto
    have "0 \<le> HSize g" using keep [of g] sz by (auto simp: g hint_ok_def small_sizes_def)
    then have "store_ok sz (s\<lparr>hints := AList.update (HTarget h) (gs @ [h]) (hints s),
        totalDataSize := i64 (totalDataSize s + (HSize h - HSize g))\<rparr>)"
      using keep h fits store_okD(3) [OF ok, of "HTarget h"]
      by (intro store_ok_replace [OF ok sz]) (auto simp: g)
    moreover have "i64 (totalDataSize s + (HSize h - HSize g)) = i64 (i64 (totalDataSize s - HSize g) + HSize h)"
      using i64_add_left [of "totalDataSize s - HSize g" "HSize h"] by (simp add: algebra_simps)
    ultimately show ?thesis using budget True g by (auto simp: AddHint_def Let_def)
  next
    case small: False
    have "store_ok sz (s\<lparr>hints := AList.update (HTarget h) (?hs @ [h]) (hints s),
        totalDataSize := i64 (totalDataSize s + HSize h)\<rparr>)"
      using keep h fits small by (intro store_ok_replace [OF ok sz]) auto
    then show ?thesis using budget small by (auto simp: AddHint_def Let_def)
  qed
qed

text \<open>Dropping the hints that fail a test from one target.\<close>

lemma store_ok_drop:
  assumes ok: "store_ok sz s" and sz: "small_sizes sz"
  shows "store_ok sz (s\<lparr>hints := AList.update a (filter P (target_hints s a)) (hints s),
     totalDataSize := subtract_sizes (filter (\<lambda>h. \<not> P h) (target_hints s a)) (totalDataSize s)\<rparr>)"
proof -
  let ?hs = "target_hints s a"
  have nn: "0 \<le> sizes (filter (\<lambda>h. \<not> P h) ?hs)"
    using store_okD(2) [OF ok] by (intro sizes_nonneg [OF sz]) auto
  have "subtract_sizes (filter (\<lambda>h. \<not> P h) ?hs) (totalDataSize s)
      = i64 (totalDataSize s + - sizes (filter (\<lambda>h. \<not> P h) ?hs))"
    using store_okD(5) [OF ok] sz by (simp add: subtract_sizes_i64)
  moreover have "store_ok sz (s\<lparr>hints := AList.update a (filter P ?hs) (hints s),
     totalDataSize := i64 (totalDataSize s + - sizes (filter (\<lambda>h. \<not> P h) ?hs))\<rparr>)"
    using store_okD(2,3) [OF ok, where a = a] sizes_filter_split [of P ?hs] nn ok
    by (intro store_ok_replace [OF ok sz])
       (auto simp: store_ok_def intro: order_trans [OF of_nat_mono [OF length_filter_le]])
  ultimately show ?thesis by simp
qed

lemma store_ok_DeleteHint: "store_ok sz s \<Longrightarrow> small_sizes sz \<Longrightarrow> store_ok sz (fst (DeleteHint wr a k s))"
  using store_ok_drop [where P = "\<lambda>h. HKey h \<noteq> k"] by (simp add: DeleteHint_def Let_def)

lemma store_ok_purge_step: "store_ok sz s \<Longrightarrow> small_sizes sz \<Longrightarrow> store_ok sz (purge_step wr cutoff a s)"
proof -
  assume a: "store_ok sz s" "small_sizes sz"
  let ?hs = "target_hints s a" and ?P = "\<lambda>h. cutoff < HCreated h"
  show ?thesis
  proof (cases "filter ?P ?hs = ?hs")
    case True
    then have "filter (\<lambda>h. \<not> ?P h) ?hs = []" by (auto simp: filter_id_conv filter_empty_conv)
    then show ?thesis using a(1) True by (simp add: purge_step_def Let_def subtract_sizes_def)
  next
    case False
    then have "length (filter ?P ?hs) \<noteq> length ?hs"
      by (metis filter_id_conv length_filter_less less_irrefl)
    then show ?thesis using store_ok_drop [OF a, where a = a and P = ?P] by (simp add: purge_step_def Let_def)
  qed
qed

lemma store_ok_PurgeExpired: "store_ok sz s \<Longrightarrow> small_sizes sz \<Longrightarrow> store_ok sz (PurgeExpired wr now s)"
  unfolding PurgeExpired_def
  by (rule fold_invariant [where Q = "\<lambda>_. True"]) (auto simp: store_ok_purge_step)

lemma replace_hint_props:
  "replace_hint h hs = Some gs \<Longrightarrow> length gs = length hs \<and> set gs \<subseteq> insert h (set hs) \<and>
     (\<forall>sz. hint_ok sz h \<longrightarrow> (\<forall>g \<in> set hs. hint_ok sz g) \<longrightarrow> sizes gs = sizes hs)"
proof (induction h hs arbitrary: gs rule: replace_hint.induct)
  case (2 h e hs)
  show ?case
  proof (cases "HKey e = HKey h")
    case True
    then show ?thesis using "2.prems" by (auto simp: hint_ok_def)
  next
    case False
    then obtain gs' where "replace_hint h hs = Some gs'" "gs = e # gs'" using "2.prems" by auto
    then show ?thesis using "2.IH" [OF False] by auto
  qed
qed simp

lemma store_ok_UpdateHint:
  assumes ok: "store_ok sz s" and sz: "small_sizes sz" and h: "hint_ok sz h"
  shows "store_ok sz (fst (UpdateHint wr h s))"
proof (cases "replace_hint h (target_hints s (HTarget h))")
  case None
  then show ?thesis using ok by (simp add: UpdateHint_def)
next
  case (Some gs)
  let ?hs = "target_hints s (HTarget h)"
  have g: "length gs = length ?hs" "set gs \<subseteq> insert h (set ?hs)" "sizes gs = sizes ?hs"
    using replace_hint_props [OF Some] h store_okD(2) [OF ok] by auto
  have "in_i64 (totalDataSize s)" using store_okD(5) [OF ok] sz by blast
  moreover have "store_ok sz (s\<lparr>hints := AList.update (HTarget h) gs (hints s), totalDataSize := i64 (totalDataSize s + 0)\<rparr>)"
    using g h store_okD(2,3) [OF ok, where a = "HTarget h"] ok
    by (intro store_ok_replace [OF ok sz]) (auto simp: store_ok_def)
  ultimately show ?thesis using Some by (simp add: UpdateHint_def)
qed

lemma store_ok_deliver_step:
  assumes "store_ok sz s" and "small_sizes sz" and "hint_ok sz h"
  shows "store_ok sz (deliver_step wr deliver a h s)"
  using assms by (auto simp: deliver_step_def Let_def hint_ok_def intro!: store_ok_DeleteHint store_ok_UpdateHint)

lemma store_ok_deliverPending:
  assumes "store_ok sz s" and "small_sizes sz"
  shows "store_ok sz (deliverPending wr deliver a s)"
  unfolding deliverPending_def GetHints_def
  by (rule fold_invariant [where Q = "hint_ok sz"])
     (use assms store_okD(2) [OF assms(1)] in \<open>auto simp: store_ok_deliver_step\<close>)

section \<open>Delivery removes or ages every hint\<close>

text \<open>What a delivery makes of a hint: nothing when it succeeds or the attempts are used up.\<close>

definition outcome :: "(hint \<Rightarrow> bool) \<Rightarrow> hint \<Rightarrow> hint option" where
  "outcome deliver h =
     (if deliver h \<or> HAttempts h + 1 \<ge> maxDeliveryAttempts then None
      else Some (h\<lparr>HAttempts := HAttempts h + 1\<rparr>))"

lemma target_hints_update [simp]:
  "target_hints (s\<lparr>hints := AList.update a hs (hints s), totalDataSize := t\<rparr>) b
   = (if b = a then hs else target_hints s b)"
  "target_hints (s\<lparr>hints := AList.update a hs (hints s)\<rparr>) b = (if b = a then hs else target_hints s b)"
  by (simp_all add: target_hints_def)

lemma target_hints_DeleteHint:
  "target_hints (fst (DeleteHint wr a k s)) b
   = (if b = a then filter (\<lambda>h. HKey h \<noteq> k) (target_hints s a) else target_hints s b)"
  by (simp add: DeleteHint_def Let_def)

lemma replace_hint_middle:
  "HKey h' = HKey h \<Longrightarrow> HKey h \<notin> HKey ` set xs \<Longrightarrow> replace_hint h' (xs @ h # ys) = Some (xs @ h' # ys)"
  by (induction xs) auto

lemma target_hints_UpdateHint:
  assumes "target_hints s (HTarget h') = xs @ h # ys" and "HKey h' = HKey h" and "HKey h \<notin> HKey ` set xs"
  shows "target_hints (fst (UpdateHint wr h' s)) b
       = (if b = HTarget h' then xs @ h' # ys else target_hints s b)"
  by (simp add: UpdateHint_def assms(1) replace_hint_middle [OF assms(2,3)])

lemma deliver_step_target:
  assumes "target_hints s a = xs @ h # ys" and "HTarget h = a" and "distinct (map HKey (xs @ h # ys))"
  shows "target_hints (deliver_step wr deliver a h s) b
       = (if b = a then xs @ (case outcome deliver h of None \<Rightarrow> [] | Some h' \<Rightarrow> [h']) @ ys
          else target_hints s b)"
proof -
  have drop: "filter (\<lambda>g. HKey g \<noteq> HKey h) (xs @ h # ys) = xs @ ys"
  proof -
    have "filter (\<lambda>g. HKey g \<noteq> HKey h) zs = zs" if "HKey h \<notin> HKey ` set zs" for zs
      using that by (induction zs) auto
    from this [of xs] this [of ys] show ?thesis using assms(3) by simp
  qed
  let ?h = "h\<lparr>HAttempts := HAttempts h + 1\<rparr>"
  have upd: "target_hints (fst (UpdateHint wr ?h s)) b = (if b = a then xs @ ?h # ys else target_hints s b)"
    using target_hints_UpdateHint [of s ?h xs h ys wr b] assms by simp
  show ?thesis
    using assms(1) drop upd
    by (auto simp: deliver_step_def outcome_def Let_def target_hints_DeleteHint)
qed

lemma deliver_fold_target:
  assumes "target_hints s a = xs @ hs" and "\<forall>h \<in> set hs. HTarget h = a" and "distinct (map HKey (xs @ hs))"
  shows "target_hints (fold (deliver_step wr deliver a) hs s) b
       = (if b = a then xs @ List.map_filter (outcome deliver) hs else target_hints s b)"
  using assms
proof (induction hs arbitrary: s xs)
  case Nil
  then show ?case by (simp add: map_filter_simps)
next
  case (Cons h hs)
  let ?zs = "case outcome deliver h of None \<Rightarrow> [] | Some h' \<Rightarrow> [h']"
  let ?s = "deliver_step wr deliver a h s"
  have t: "target_hints ?s c = (if c = a then xs @ ?zs @ hs else target_hints s c)" for c
    using deliver_step_target [OF Cons.prems(1) _ Cons.prems(3)] Cons.prems(2) by simp
  have "distinct (map HKey ((xs @ ?zs) @ hs))"
    using Cons.prems(3) by (auto simp: outcome_def)
  then show ?case
    using Cons.IH [of ?s "xs @ ?zs"] Cons.prems(2) t
    by (auto simp: map_filter_simps split: option.split)
qed

section \<open>The files mirror the memory\<close>

definition mirrored :: "string set \<Rightarrow> hint_store \<Rightarrow> bool" where
  "mirrored A s \<longleftrightarrow> go_wf (disk s) \<and> set (go_keys (hints s)) \<subseteq> A \<and>
     (\<forall>f x. map_of (disk s) f = Some x \<longrightarrow>
        (\<exists>a \<in> A. f = hintFile a \<and> x = Some (target_hints s a) \<and> target_hints s a \<noteq> [])) \<and>
     (\<forall>a \<in> A. target_hints s a \<noteq> [] \<longrightarrow> map_of (disk s) (hintFile a) = Some (Some (target_hints s a)))"

lemma hintFile_inject: "inj_on sanitiseAddr A \<Longrightarrow> a \<in> A \<Longrightarrow> b \<in> A \<Longrightarrow> hintFile a = hintFile b \<longleftrightarrow> a = b"
  by (auto simp: hintFile_def dest: inj_onD)

lemma target_hints_absent: "a \<notin> set (go_keys (hints s)) \<Longrightarrow> target_hints s a = []"
  by (simp add: target_hints_def go_get_missing)

lemma mirrored_replace:
  assumes m: "mirrored A s" and inj: "inj_on sanitiseAddr A" and a: "a \<in> A"
    and s': "hints s' = AList.update a hs (hints s)" "disk s' = disk s"
  shows "mirrored A (fst (persistLocked (\<lambda>_. WriteOk) a s'))"
proof -
  let ?p = "fst (persistLocked (\<lambda>_. WriteOk) a s')"
  have th': "target_hints s' b = (if b = a then hs else target_hints s b)" for b
    by (simp add: target_hints_def s')
  have d: "map_of (disk ?p) f = (if f = hintFile a then (if hs = [] then None else Some (Some hs))
      else map_of (disk s) f)" for f
    by (simp add: persistLocked_def Let_def s' th')
  have th: "target_hints ?p b = (if b = a then hs else target_hints s b)" for b by (simp add: th')
  have wf: "go_wf (disk ?p)" using m by (simp add: mirrored_def persistLocked_def Let_def s')
  have keys: "set (go_keys (hints ?p)) \<subseteq> A"
    using m a by (simp add: mirrored_def s' go_keys_update del: set_map)
  have files: "\<exists>b \<in> A. f = hintFile b \<and> x = Some (target_hints ?p b) \<and> target_hints ?p b \<noteq> []"
    if f: "map_of (disk ?p) f = Some x" for f x
  proof (cases "f = hintFile a")
    case True
    then show ?thesis using f d [of f] a by (intro bexI [of _ a]) (auto simp: th th' split: if_splits)
  next
    case False
    then have "map_of (disk s) f = Some x" using f d [of f] by simp
    then obtain b where b: "b \<in> A" "f = hintFile b" "x = Some (target_hints s b)" "target_hints s b \<noteq> []"
      using m unfolding mirrored_def by blast
    then show ?thesis using False by (intro bexI [of _ b]) (auto simp: th')
  qed
  have present: "map_of (disk ?p) (hintFile b) = Some (Some (target_hints ?p b))"
    if b: "b \<in> A" "target_hints ?p b \<noteq> []" for b
  proof (cases "b = a")
    case True
    then show ?thesis using b(2) by (simp add: d th')
  next
    case False
    then have "hintFile b \<noteq> hintFile a" using hintFile_inject [OF inj b(1) a] by simp
    then show ?thesis using False b m unfolding mirrored_def by (simp add: d th')
  qed
  show ?thesis unfolding mirrored_def using wf keys files present by blast
qed

lemma mirrored_total [simp]: "mirrored A (s\<lparr>totalDataSize := t\<rparr>) = mirrored A s"
  by (simp add: mirrored_def target_hints_def)

lemma mirrored_AddHint:
  "mirrored A s \<Longrightarrow> inj_on sanitiseAddr A \<Longrightarrow> HTarget h \<in> A \<Longrightarrow> mirrored A (fst (AddHint (\<lambda>_. WriteOk) h s))"
  by (auto simp: AddHint_def Let_def mirrored_replace)

lemma mirrored_DeleteHint:
  "mirrored A s \<Longrightarrow> inj_on sanitiseAddr A \<Longrightarrow> a \<in> A \<Longrightarrow> mirrored A (fst (DeleteHint (\<lambda>_. WriteOk) a k s))"
  by (auto simp: DeleteHint_def Let_def mirrored_replace)

lemma mirrored_UpdateHint:
  "mirrored A s \<Longrightarrow> inj_on sanitiseAddr A \<Longrightarrow> HTarget h \<in> A \<Longrightarrow> mirrored A (fst (UpdateHint (\<lambda>_. WriteOk) h s))"
  by (auto simp: UpdateHint_def mirrored_replace split: option.split)

lemma mirrored_purge_step:
  "mirrored A s \<Longrightarrow> inj_on sanitiseAddr A \<Longrightarrow> a \<in> A \<Longrightarrow> mirrored A (purge_step (\<lambda>_. WriteOk) cutoff a s)"
  by (auto simp: purge_step_def Let_def mirrored_replace)

lemma mirrored_PurgeExpired:
  assumes "mirrored A s" and "inj_on sanitiseAddr A"
  shows "mirrored A (PurgeExpired (\<lambda>_. WriteOk) now s)"
proof -
  have "set (go_keys (hints s)) \<subseteq> A" using assms(1) by (simp add: mirrored_def del: set_map)
  then show ?thesis unfolding PurgeExpired_def
    by (intro fold_invariant [where Q = "\<lambda>a. a \<in> A" and P = "mirrored A"])
       (auto simp: assms mirrored_purge_step simp del: set_map)
qed

lemma mirrored_deliver_step:
  "mirrored A s \<Longrightarrow> inj_on sanitiseAddr A \<Longrightarrow> a \<in> A \<Longrightarrow> HTarget h = a \<Longrightarrow>
   mirrored A (deliver_step (\<lambda>_. WriteOk) deliver a h s)"
  by (auto simp: deliver_step_def Let_def mirrored_DeleteHint mirrored_UpdateHint)

section \<open>Sequences of operations\<close>

datatype hint_op =
    HAdd hint
  | HDelete string string
  | HPurge int
  | HAttempt string hint bool
  | HDeliver string "hint \<Rightarrow> bool"

text \<open>\<open>HAttempt\<close> is one turn of the loop of \<open>deliverPending\<close>, on the copy of the hint that was taken when the loop began:
  other operations may have come in between.\<close>

fun hint_apply :: "writes \<Rightarrow> hint_op \<Rightarrow> hint_store \<Rightarrow> hint_store" where
  "hint_apply wr (HAdd h) s = StoreHint wr h s"
| "hint_apply wr (HDelete a k) s = fst (DeleteHint wr a k s)"
| "hint_apply wr (HPurge now) s = PurgeExpired wr now s"
| "hint_apply wr (HAttempt a h delivered) s = deliver_step wr (\<lambda>_. delivered) a h s"
| "hint_apply wr (HDeliver a deliver) s = deliverPending wr deliver a s"

definition hint_run :: "(writes \<times> hint_op) list \<Rightarrow> hint_store \<Rightarrow> hint_store" where
  "hint_run ops s = fold (\<lambda>(wr, op). hint_apply wr op) ops s"

abbreviation written :: "hint_op list \<Rightarrow> (writes \<times> hint_op) list" where
  "written ops \<equiv> map (Pair (\<lambda>_. WriteOk)) ops"

text \<open>The addresses and hints an operation names are those of \<open>A\<close> and \<open>sz\<close>.\<close>

fun hint_op_ok :: "string set \<Rightarrow> (string \<Rightarrow> int) \<Rightarrow> hint_op \<Rightarrow> bool" where
  "hint_op_ok A sz (HAdd h) \<longleftrightarrow> HTarget h \<in> A \<and> hint_ok sz h"
| "hint_op_ok A sz (HDelete a k) \<longleftrightarrow> a \<in> A"
| "hint_op_ok A sz (HPurge now) \<longleftrightarrow> True"
| "hint_op_ok A sz (HAttempt a h delivered) \<longleftrightarrow> a \<in> A \<and> HTarget h = a \<and> hint_ok sz h"
| "hint_op_ok A sz (HDeliver a deliver) \<longleftrightarrow> a \<in> A"

lemma store_ok_apply:
  "store_ok sz s \<Longrightarrow> small_sizes sz \<Longrightarrow> hint_op_ok A sz op \<Longrightarrow> store_ok sz (hint_apply wr op s)"
  by (cases op) (auto simp: StoreHint_def store_ok_AddHint store_ok_DeleteHint store_ok_PurgeExpired
      store_ok_deliverPending store_ok_deliver_step)

lemma store_ok_run:
  "store_ok sz s \<Longrightarrow> small_sizes sz \<Longrightarrow> \<forall>(wr, op) \<in> set ops. hint_op_ok A sz op \<Longrightarrow> store_ok sz (hint_run ops s)"
  unfolding hint_run_def
  by (rule fold_invariant [where Q = "\<lambda>(wr, op). hint_op_ok A sz op"]) (auto simp: store_ok_apply)

lemma mirrored_deliverPending:
  assumes "store_ok sz s" and "mirrored A s" and "inj_on sanitiseAddr A" and "a \<in> A"
  shows "mirrored A (deliverPending (\<lambda>_. WriteOk) deliver a s)"
  unfolding deliverPending_def GetHints_def
  by (rule fold_invariant [where Q = "\<lambda>h. HTarget h = a"])
     (use assms store_okD(2) [OF assms(1)] in \<open>auto simp: mirrored_deliver_step\<close>)

lemma mirrored_apply:
  "store_ok sz s \<Longrightarrow> mirrored A s \<Longrightarrow> inj_on sanitiseAddr A \<Longrightarrow> hint_op_ok A sz op \<Longrightarrow>
   mirrored A (hint_apply (\<lambda>_. WriteOk) op s)"
  by (cases op) (auto simp: StoreHint_def mirrored_AddHint mirrored_DeleteHint mirrored_PurgeExpired
      mirrored_deliverPending mirrored_deliver_step)

lemma run_ok_mirrored:
  assumes "store_ok sz s" and "mirrored A s" and "small_sizes sz" and "inj_on sanitiseAddr A"
    and "\<forall>op \<in> set ops. hint_op_ok A sz op"
  shows "store_ok sz (hint_run (written ops) s) \<and> mirrored A (hint_run (written ops) s)"
  unfolding hint_run_def
  by (rule fold_invariant [where Q = "\<lambda>(wr, op). wr = (\<lambda>_. WriteOk) \<and> hint_op_ok A sz op" and P = "\<lambda>s. store_ok sz s \<and> mirrored A s"])
     (use assms in \<open>auto simp: store_ok_apply mirrored_apply\<close>)

section \<open>Loading\<close>

lemma has_suffix_hintFile [simp]: "has_suffix hints_suffix (hintFile a)"
  by (simp add: has_suffix_def hintFile_def)

lemma fold_add_sizes: "fold (\<lambda>h t. i64 (t + HSize h)) hs (i64 t) = i64 (t + sizes hs)"
  by (induction hs arbitrary: t) (simp_all add: i64_add_left add.assoc)

text \<open>The state after loading the files \<open>es\<close>, each of which holds the hints of one address.\<close>

lemma load_fold:
  assumes "\<And>f x. (f, x) \<in> set es \<Longrightarrow> \<exists>a. f = hintFile a \<and> (\<exists>hs. x = Some hs \<and> hs \<noteq> [] \<and> HTarget (hd hs) = a)"
    and "go_wf es" and "go_wf (hints s)" and "\<forall>a \<in> set (go_keys (hints s)). hintFile a \<notin> set (go_keys es)"
  shows "go_wf (hints (fold load_step es s)) \<and>
    (\<forall>a. target_hints (fold load_step es s) a
       = (case map_of es (hintFile a) of
            Some (Some hs) \<Rightarrow> if HTarget (hd hs) = a then hs else target_hints s a | _ \<Rightarrow> target_hints s a)) \<and>
    (totalDataSize s = i64 (stored_size (hints s)) \<longrightarrow>
     totalDataSize (fold load_step es s) = i64 (stored_size (hints (fold load_step es s))))"
  using assms
proof (induction es arbitrary: s)
  case (Cons e es)
  obtain f x where e: "e = (f, x)" by (cases e)
  obtain a h hs where x: "f = hintFile a" "x = Some (h # hs)" "HTarget h = a"
    using Cons.prems(1) [of f x] by (auto simp: e neq_Nil_conv)
  let ?s = "load_step e s"
  have st: "?s = s\<lparr>hints := AList.update a (h # hs) (hints s),
      totalDataSize := fold (\<lambda>h t. i64 (t + HSize h)) (h # hs) (totalDataSize s)\<rparr>"
    by (simp add: load_step_def e x)
  have new: "a \<notin> set (go_keys (hints s))" using Cons.prems(4) by (auto simp: e x)
  have tot: "totalDataSize ?s = i64 (stored_size (hints ?s))" if "totalDataSize s = i64 (stored_size (hints s))"
  proof -
    have g: "go_get [] (hints s) a = []" using new by (rule go_get_missing)
    have "totalDataSize ?s = fold (\<lambda>h t. i64 (t + HSize h)) (h # hs) (i64 (stored_size (hints s)))"
      unfolding st that [symmetric] by simp
    also have "\<dots> = i64 (stored_size (hints s) + sizes (h # hs))" by (rule fold_add_sizes)
    also have "\<dots> = i64 (stored_size (hints ?s))"
      using stored_size_update [OF Cons.prems(3), of a "h # hs"] by (simp add: st g)
    finally show ?thesis .
  qed
  have IH: "go_wf (hints (fold load_step es ?s)) \<and>
    (\<forall>a. target_hints (fold load_step es ?s) a
       = (case map_of es (hintFile a) of
            Some (Some hs) \<Rightarrow> if HTarget (hd hs) = a then hs else target_hints ?s a | _ \<Rightarrow> target_hints ?s a)) \<and>
    (totalDataSize ?s = i64 (stored_size (hints ?s)) \<longrightarrow>
     totalDataSize (fold load_step es ?s) = i64 (stored_size (hints (fold load_step es ?s))))"
  proof (rule Cons.IH)
    show "\<exists>a. g = hintFile a \<and> (\<exists>hs. y = Some hs \<and> hs \<noteq> [] \<and> HTarget (hd hs) = a)" if "(g, y) \<in> set es" for g y
      using Cons.prems(1) [of g y] that by simp
    show "go_wf es" using Cons.prems(2) by simp
    show "go_wf (hints ?s)" using Cons.prems(3) by (simp add: st)
    show "\<forall>b \<in> set (go_keys (hints ?s)). hintFile b \<notin> set (go_keys es)"
      unfolding st using Cons.prems(2,4) by (auto simp: e x go_keys_update simp del: set_map)
  qed
  have "target_hints (fold load_step (e # es) s) b
       = (case map_of (e # es) (hintFile b) of
            Some (Some hs) \<Rightarrow> if HTarget (hd hs) = b then hs else target_hints s b | _ \<Rightarrow> target_hints s b)" for b
  proof (cases "hintFile b = f")
    case True
    then have "map_of es (hintFile b) = None" using Cons.prems(2) by (simp add: e map_of_eq_None_iff)
    then have "target_hints (fold load_step es ?s) b = target_hints ?s b" using IH by auto
    also have "\<dots> = (if b = a then h # hs else target_hints s b)" unfolding st by simp
    finally show ?thesis using True x by (simp add: e)
  next
    case False
    then have "b \<noteq> a" using x by auto
    then have t: "target_hints ?s b = target_hints s b" unfolding st by simp
    have m: "map_of (e # es) (hintFile b) = map_of es (hintFile b)" using False by (simp add: e)
    have "target_hints (fold load_step es ?s) b
       = (case map_of es (hintFile b) of
            Some (Some hs) \<Rightarrow> if HTarget (hd hs) = b then hs else target_hints ?s b | _ \<Rightarrow> target_hints ?s b)"
      using IH by blast
    then show ?thesis unfolding t m by simp
  qed
  then show ?case using IH tot by simp
qed simp

lemma stored_size_sum:
  "go_wf m \<Longrightarrow> finite A \<Longrightarrow> set (go_keys m) \<subseteq> A \<Longrightarrow> stored_size m = (\<Sum>a\<in>A. sizes (go_get [] m a))"
proof (induction m)
  case Nil
  then show ?case by (simp add: stored_size_def go_get_def)
next
  case (Cons e m)
  obtain k hs where e: "e = (k, hs)" by (cases e)
  have k: "k \<in> A" "k \<notin> set (go_keys m)" using Cons.prems by (auto simp: e)
  have g: "go_get [] (e # m) a = (if a = k then hs else go_get [] m a)" for a by (simp add: e go_get_def)
  have z: "go_get [] m k = []" using k(2) by (rule go_get_missing)
  have "stored_size (e # m) = sizes hs + (\<Sum>a\<in>A. sizes (go_get [] m a))"
    using Cons by (simp add: e stored_size_def)
  also have "(\<Sum>a\<in>A. sizes (go_get [] m a)) = (\<Sum>a\<in>A - {k}. sizes (go_get [] m a))"
    using z k(1) Cons.prems(2) by (simp add: sum.remove)
  also have "sizes hs + \<dots> = (\<Sum>a\<in>A. sizes (go_get [] (e # m) a))"
    using k(1) Cons.prems(2) by (simp add: sum.remove [of A k] g)
  finally show ?case .
qed

lemma load_mirrored:
  assumes m: "mirrored A s" and ok: "store_ok sz s" and inj: "inj_on sanitiseAddr A" and fin: "finite A"
    and s0: "hints s0 = []" "totalDataSize s0 = 0" "disk s0 = disk s"
  shows "(\<forall>a. target_hints (load s0) a = target_hints s a) \<and>
         totalDataSize (load s0) = i64 (totalDataSize s) \<and> go_wf (hints (load s0))"
proof -
  have files: "\<exists>a. f = hintFile a \<and> (\<exists>hs. x = Some hs \<and> hs \<noteq> [] \<and> HTarget (hd hs) = a)"
    if "(f, x) \<in> set (disk s0)" for f x
  proof -
    have "map_of (disk s) f = Some x" using that m by (simp add: mirrored_def s0(3))
    then obtain a where "a \<in> A" "f = hintFile a" "x = Some (target_hints s a)" "target_hints s a \<noteq> []"
      using m unfolding mirrored_def by blast
    then show ?thesis using store_okD(2) [OF ok, of "hd (target_hints s a)" a] by auto
  qed
  have wf: "go_wf (disk s0)" using m by (simp add: mirrored_def s0(3))
  from load_fold [OF files wf, of s0] s0 have L: "go_wf (hints (load s0))"
    "\<And>a. target_hints (load s0) a = (case map_of (disk s) (hintFile a) of
            Some (Some hs) \<Rightarrow> if HTarget (hd hs) = a then hs else target_hints s0 a | _ \<Rightarrow> target_hints s0 a)"
    "totalDataSize (load s0) = i64 (stored_size (hints (load s0)))"
    by (simp_all add: load_def stored_size_def i64_def)
  have empty: "target_hints s0 a = []" for a by (simp add: target_hints_def s0(1) go_get_def)
  have keys: "set (go_keys (hints s)) \<subseteq> A" using m by (simp add: mirrored_def del: set_map)
  have th: "target_hints (load s0) a = target_hints s a" for a
  proof (cases "target_hints s a = []")
    case True
    have "HTarget (hd hs) \<noteq> a" if f: "map_of (disk s) (hintFile a) = Some (Some hs)" for hs
    proof
      assume a: "HTarget (hd hs) = a"
      obtain b where b: "hs = target_hints s b" "target_hints s b \<noteq> []"
        using m f unfolding mirrored_def by blast
      then show False using a True store_okD(2) [OF ok, of "hd hs" b] by auto
    qed
    then show ?thesis using True by (auto simp: L(2) empty split: option.split)
  next
    case False
    then have "a \<in> set (go_keys (hints s))" using target_hints_absent by blast
    then have "map_of (disk s) (hintFile a) = Some (Some (target_hints s a))"
      using m False keys unfolding mirrored_def by blast
    then show ?thesis using store_okD(2) [OF ok, of "hd (target_hints s a)" a] False by (simp add: L(2))
  qed
  have sub: "set (go_keys (hints (load s0))) \<subseteq> A \<union> set (go_keys (hints (load s0)))" by blast
  let ?B = "A \<union> set (go_keys (hints (load s0)))"
  have "stored_size (hints (load s0)) = (\<Sum>a\<in>?B. sizes (target_hints (load s0) a))"
    using stored_size_sum [OF L(1) _ sub] fin by (simp add: target_hints_def)
  also have "\<dots> = (\<Sum>a\<in>?B. sizes (target_hints s a))" by (simp add: th)
  also have "\<dots> = stored_size (hints s)"
  proof -
    have "set (go_keys (hints s)) \<subseteq> ?B" using keys by blast
    from stored_size_sum [OF store_okD(1) [OF ok] _ this] fin show ?thesis by (simp add: target_hints_def)
  qed
  finally have "totalDataSize (load s0) = i64 (totalDataSize s)" using L(3) ok by (simp add: store_ok_def)
  then show ?thesis using th L(1) by blast
qed

lemma purge_step_fresh:
  assumes "\<forall>h \<in> set (target_hints s a). cutoff < HCreated h"
  shows "purge_step wr cutoff a s = s"
proof -
  have "filter (\<lambda>h. cutoff < HCreated h) (target_hints s a) = target_hints s a"
    using assms by (simp add: filter_id_conv)
  moreover have "filter (\<lambda>h. \<not> cutoff < HCreated h) (target_hints s a) = []"
    using assms by (simp add: filter_empty_conv)
  ultimately show ?thesis by (simp add: purge_step_def Let_def subtract_sizes_def)
qed

lemma PurgeExpired_fresh:
  assumes "\<And>a h. h \<in> set (target_hints s a) \<Longrightarrow> now - maxAge s < HCreated h"
  shows "PurgeExpired wr now s = s"
  unfolding PurgeExpired_def
  by (rule fold_invariant [where Q = "\<lambda>_. True" and P = "\<lambda>t. t = s"]) (auto simp: purge_step_fresh assms)

lemma load_config [simp]: "maxHints (load s) = maxHints s" "maxAge (load s) = maxAge s" "maxDataSize (load s) = maxDataSize s"
proof -
  have "maxHints (fold load_step es s) = maxHints s \<and> maxAge (fold load_step es s) = maxAge s \<and>
      maxDataSize (fold load_step es s) = maxDataSize s" for es and s :: hint_store
    by (induction es arbitrary: s) (auto simp: load_step_def split: option.split list.split)
  then show "maxHints (load s) = maxHints s" "maxAge (load s) = maxAge s" "maxDataSize (load s) = maxDataSize s"
    by (simp_all add: load_def)
qed

section \<open>Properties\<close>

text \<open>An empty store with given limits.\<close>

definition empty_store :: "int \<Rightarrow> int \<Rightarrow> int \<Rightarrow> hint_store" where
  "empty_store mh ma md =
     \<lparr>hints = [], maxHints = mh, maxAge = ma, totalDataSize = 0, maxDataSize = md, disk = []\<rparr>"

lemma NewStore_empty:
  "0 < mh \<Longrightarrow> 0 < ma \<Longrightarrow> 0 < md \<Longrightarrow> NewStore True wr now [] mh ma md = Some (empty_store mh ma md)"
  by (simp add: NewStore_def empty_store_def load_def PurgeExpired_def)

lemma empty_store_ok:
  "0 < mh \<Longrightarrow> 0 < md \<Longrightarrow> md < 2 ^ 62 \<Longrightarrow> store_ok sz (empty_store mh ma md) \<and> mirrored A (empty_store mh ma md)"
  by (auto simp: store_ok_def mirrored_def empty_store_def stored_size_def target_hints_def go_get_def)

text \<open>C8. The byte budget is accounted exactly. Take a store opened on an empty directory and any sequence of
  additions, deletions, purges, deliveries and single delivery attempts on copies of hints, with writes that may fail.
  If a hint's size is a function of its key, as the store does not check it, and sizes and budget are below \<open>2^62\<close>, then the
  running total is the sum of the sizes of the stored hints and within the budget, and no target has more hints
  than the cap.\<close>

theorem hint_accounting:
  assumes "NewStore True wr now [] mh ma md = Some s0" and "md < 2 ^ 62"
    and "\<forall>k. 0 \<le> sz k \<and> sz k < 2 ^ 62" and "\<forall>(wr, op) \<in> set ops. hint_op_ok UNIV sz op"
  shows "let s = hint_run ops s0 in
           TotalDataSize s = stored_size (hints s) \<and> TotalDataSize s \<le> maxDataSize s0 \<and>
           (\<forall>a. int (length (GetHints a s)) \<le> maxHints s0)"
proof -
  let ?s = "hint_run ops s0"
  have small: "small_sizes sz" using assms(3) by (simp add: small_sizes_def)
  have "store_ok sz s0"
    using assms(1,2) by (auto simp: NewStore_def load_def PurgeExpired_def Let_def store_ok_def stored_size_def
        DefaultMaxHints_def DefaultMaxDataSize_def split: if_splits)
  then have ok: "store_ok sz ?s" by (rule store_ok_run [OF _ small assms(4)])
  have cfg: "maxHints (hint_apply wr op s) = maxHints s \<and> maxDataSize (hint_apply wr op s) = maxDataSize s" for wr op s
  proof (cases op)
    case (HPurge now)
    have "maxHints (fold (purge_step wr c) as s) = maxHints s \<and>
        maxDataSize (fold (purge_step wr c) as s) = maxDataSize s" for c as
      by (induction as arbitrary: s) (auto simp: purge_step_def Let_def)
    then show ?thesis using HPurge by (simp add: PurgeExpired_def)
  next
    case (HDeliver a deliver)
    have "maxHints (fold (deliver_step wr deliver a) hs s) = maxHints s \<and>
        maxDataSize (fold (deliver_step wr deliver a) hs s) = maxDataSize s" for hs
      by (induction hs arbitrary: s)
         (auto simp: deliver_step_def DeleteHint_def UpdateHint_def Let_def split: option.split)
    then show ?thesis using HDeliver by (simp add: deliverPending_def)
  qed (auto simp: StoreHint_def AddHint_def deliver_step_def DeleteHint_def UpdateHint_def Let_def split: option.split)
  have "maxHints (fold (\<lambda>(wr, op). hint_apply wr op) ops s) = maxHints s \<and>
      maxDataSize (fold (\<lambda>(wr, op). hint_apply wr op) ops s) = maxDataSize s" for s
    by (induction ops arbitrary: s) (auto simp: cfg)
  then have "maxHints ?s = maxHints s0" "maxDataSize ?s = maxDataSize s0" by (simp_all add: hint_run_def)
  then show ?thesis using ok store_okD(3) [OF ok]
    by (simp add: Let_def TotalDataSize_def GetHints_def store_ok_def)
qed

definition demo_hint :: "string \<Rightarrow> string \<Rightarrow> int \<Rightarrow> hint" where
  "demo_hint k a n = \<lparr>HKey = k, HTarget = a, HSize = 10, HCreated = n, HAttempts = 0\<rparr>"

definition demo_hints :: "hint_op list" where
  "demo_hints = [HAdd (demo_hint ''k1'' ''n1:3000'' 5), HAdd (demo_hint ''k2'' ''n1:3000'' 6),
     HAdd (demo_hint ''k1'' ''n2:3000'' 7), HDelete ''n1:3000'' ''k1'']"

lemma demo_hints_ok: "\<forall>op \<in> set demo_hints. hint_op_ok {''n1:3000'', ''n2:3000''} (\<lambda>_. 10) op"
  by (simp add: demo_hints_def demo_hint_def hint_ok_def)

lemma hint_op_ok_UNIV: "hint_op_ok A sz op \<Longrightarrow> hint_op_ok UNIV sz op"
  by (cases op) auto

lemma demo_small: "small_sizes (\<lambda>_. 10)"
  by (simp add: small_sizes_def)

theorem hint_accounting_witness:
  "TotalDataSize (hint_run ((\<lambda>_. WriteLeaves None, HAttempt ''n1:3000'' (demo_hint ''k1'' ''n1:3000'' 5) False) # written demo_hints)
     (empty_store 5 100 1000)) \<le> 1000"
proof -
  let ?ops = "(\<lambda>_. WriteLeaves None, HAttempt ''n1:3000'' (demo_hint ''k1'' ''n1:3000'' 5) False) # written demo_hints"
  have ok: "\<forall>(wr, op) \<in> set ?ops. hint_op_ok UNIV (\<lambda>_. 10) op"
    using demo_hints_ok hint_op_ok_UNIV by (auto simp: demo_hint_def hint_ok_def)
  have new: "NewStore True (\<lambda>_. WriteOk) 0 [] 5 100 1000 = Some (empty_store 5 100 1000)" by (rule NewStore_empty) simp_all
  have m: "maxDataSize (empty_store 5 100 1000) = 1000" by (simp add: empty_store_def)
  show ?thesis using hint_accounting [OF new _ _ ok] unfolding m by (simp add: Let_def)
qed

text \<open>One delivery round settles every pending hint of an address whose hints have different keys:
  delivered hints and those out of attempts are gone, the others keep their order with one more
  attempt, and no other address is touched.\<close>

lemma deliverPending_outcomes:
  assumes "\<forall>h \<in> set (GetHints a s). HTarget h = a" and "distinct (map HKey (GetHints a s))"
  shows "GetHints b (deliverPending wr deliver a s) =
    (if b = a then map (\<lambda>h. h\<lparr>HAttempts := HAttempts h + 1\<rparr>)
       (filter (\<lambda>h. \<not> deliver h \<and> HAttempts h + 1 < maxDeliveryAttempts) (GetHints a s))
     else GetHints b s)"
proof -
  have "List.map_filter (outcome deliver) hs = map (\<lambda>h. h\<lparr>HAttempts := HAttempts h + 1\<rparr>)
       (filter (\<lambda>h. \<not> deliver h \<and> HAttempts h + 1 < maxDeliveryAttempts) hs)" for hs
    by (induction hs) (auto simp: map_filter_simps outcome_def)
  then show ?thesis
    using deliver_fold_target [of s a "[]" "GetHints a s" wr deliver b] assms
    by (simp add: GetHints_def deliverPending_def)
qed

theorem deliverPending_outcomes_witness:
  "let s = empty_store 5 100 1000\<lparr>hints := [(''n1'', [demo_hint ''k1'' ''n1'' 5, demo_hint ''k2'' ''n1'' 6])]\<rparr>
   in GetHints ''n1'' (deliverPending (\<lambda>_. WriteOk) (\<lambda>h. HKey h = ''k1'') ''n1'' s)
      = [(demo_hint ''k2'' ''n1'' 6)\<lparr>HAttempts := 1\<rparr>]"
  using deliverPending_outcomes [of "''n1''"
      "empty_store 5 100 1000\<lparr>hints := [(''n1'', [demo_hint ''k1'' ''n1'' 5, demo_hint ''k2'' ''n1'' 6])]\<rparr>"
      "''n1''" "\<lambda>_. WriteOk" "\<lambda>h. HKey h = ''k1''"]
  by (simp add: GetHints_def target_hints_def go_get_def demo_hint_def maxDeliveryAttempts_def empty_store_def)

text \<open>A restart loses nothing: when the addresses in use have different file names and all writes
  succeed, a store opened on the files left by any run of operations has the same hints for every
  address and the same total, as long as none of them has expired meanwhile.\<close>

lemma restart_recovers_hints:
  assumes "small_sizes sz" and "\<forall>op \<in> set ops. hint_op_ok A sz op"
    and "inj_on sanitiseAddr A" and "finite A" and "0 < mh" and "0 < ma" and "0 < md" and "md < 2 ^ 62"
    and "s = hint_run (written ops) (empty_store mh ma md)"
    and "\<And>a h. h \<in> set (GetHints a s) \<Longrightarrow> now - ma < HCreated h"
  shows "\<exists>s'. NewStore True wr now (disk s) mh ma md = Some s' \<and>
    (\<forall>a. GetHints a s' = GetHints a s) \<and> TotalDataSize s' = TotalDataSize s"
proof -
  have ok: "store_ok sz s" "mirrored A s"
    using run_ok_mirrored [OF _ _ assms(1,3,2), of "empty_store mh ma md"]
      empty_store_ok [OF assms(5,7,8)] assms(9) by auto
  let ?s0 = "\<lparr>hints = [], maxHints = mh, maxAge = ma, totalDataSize = 0, maxDataSize = md, disk = disk s\<rparr>"
  have L: "\<And>a. target_hints (load ?s0) a = target_hints s a" "totalDataSize (load ?s0) = totalDataSize s"
    using load_mirrored [OF ok(2,1) assms(3,4), of ?s0] store_okD(5) [OF ok(1)] assms(1) by auto
  have "PurgeExpired wr now (load ?s0) = load ?s0"
    by (rule PurgeExpired_fresh) (use assms(10) L(1) in \<open>simp add: GetHints_def\<close>)
  then have "NewStore True wr now (disk s) mh ma md = Some (load ?s0)"
    using assms(5-7) by (simp add: NewStore_def)
  then show ?thesis using L by (simp add: GetHints_def TotalDataSize_def)
qed

theorem restart_recovers_hints_witness:
  "\<exists>s'. NewStore True (\<lambda>_. WriteOk) 50 (disk (hint_run (written demo_hints) (empty_store 5 100 1000))) 5 100 1000 = Some s' \<and>
     GetHints ''n1:3000'' s' = [demo_hint ''k2'' ''n1:3000'' 6]"
proof -
  let ?s = "hint_run (written demo_hints) (empty_store 5 100 1000)"
  have h: "GetHints a ?s = (if a = ''n1:3000'' then [demo_hint ''k2'' ''n1:3000'' 6]
      else if a = ''n2:3000'' then [demo_hint ''k1'' ''n2:3000'' 7] else [])" for a
    by (simp add: hint_run_def demo_hints_def empty_store_def StoreHint_def AddHint_def DeleteHint_def
        persistLocked_def GetHints_def target_hints_def go_get_def demo_hint_def Let_def i64_def)
  have fresh: "50 - 100 < HCreated g" if "g \<in> set (GetHints a ?s)" for a g
    using that by (auto simp: h demo_hint_def split: if_splits)
  have inj: "inj_on sanitiseAddr {''n1:3000'', ''n2:3000''}" by (simp add: sanitiseAddr_def)
  from restart_recovers_hints [OF demo_small demo_hints_ok inj _ _ _ _ _ refl, of 5 100 1000 50 "\<lambda>_. WriteOk"]
  show ?thesis using fresh h by auto
qed

text \<open>Addresses that differ only in the replaced characters share a file, and the last one written wins.\<close>

lemma colliding_targets_lose_hints:
  "let s = hint_run (written [HAdd (demo_hint ''k1'' ''a.b:1'' 5), HAdd (demo_hint ''k2'' ''a_b:1'' 6)]) (empty_store 5 100 1000)
   in GetHints ''a.b:1'' s \<noteq> [] \<and>
      map_option (GetHints ''a.b:1'') (NewStore True (\<lambda>_. WriteOk) 50 (disk s) 5 100 1000) = Some []"
  by (simp add: hint_run_def empty_store_def StoreHint_def AddHint_def persistLocked_def GetHints_def
      target_hints_def go_get_def demo_hint_def Let_def i64_def NewStore_def load_def load_step_def
      has_suffix_def hintFile_def sanitiseAddr_def hints_suffix_def PurgeExpired_def purge_step_def
      subtract_sizes_def)

end
