(* ===== verification/Merkle.thy ===== *)
theory Merkle
  imports Prelude
begin

text \<open>
  Merkle trees over key sets and the anti-entropy exchange, \<open>Cluster/merkle/merkle.go\<close>. \<open>sha256\<close> is
  a parameter. A node is a leaf or has two children, so a \<open>nil\<close> pointer occurs only as the root of
  the empty tree. Theorems that rely on the hash name the inputs on which it must not collide;
  \<open>tree_digest\<close> is the contract of a digest of a key list that the exchange rests on.
\<close>

datatype mnode = MLeaf "byte list" string | MNode "byte list" mnode mnode

fun mhash :: "mnode \<Rightarrow> byte list" where
  "mhash (MLeaf h k) = h"
| "mhash (MNode h l r) = h"

record mtree =
  Root :: "mnode option"
  leaves :: "mnode list"

definition mparent :: "(byte list \<Rightarrow> byte list) \<Rightarrow> mnode \<Rightarrow> mnode \<Rightarrow> mnode" where
  "mparent sha256 left right = MNode (sha256 (mhash left @ mhash right)) left right"

text \<open>\<open>None\<close> for the empty layer, on which the recursion of the code would not end; \<open>Build\<close> never
  passes it.\<close>

function (sequential) buildLevel :: "(byte list \<Rightarrow> byte list) \<Rightarrow> mnode list \<Rightarrow> mnode option" where
  "buildLevel sha256 [] = None"
| "buildLevel sha256 [n] = Some n"
| "buildLevel sha256 layer = buildLevel sha256 (pairwise (mparent sha256) layer)"
  by pat_completeness auto
termination
  by (relation "measure (\<lambda>(sha256, layer). length layer)") (auto simp: length_pairwise)

definition mleaf :: "(byte list \<Rightarrow> byte list) \<Rightarrow> string \<Rightarrow> mnode" where
  "mleaf sha256 k = MLeaf (sha256 (bytes_of k)) k"

text \<open>\<open>sort.Strings\<close> orders strings by their bytes.\<close>

definition Build :: "(byte list \<Rightarrow> byte list) \<Rightarrow> string list \<Rightarrow> mtree" where
  "Build sha256 keys =
     (if keys = [] then \<lparr>Root = None, leaves = []\<rparr>
      else
        (let ls = map (mleaf sha256) (sort keys)
         in \<lparr>Root = buildLevel sha256 ls, leaves = ls\<rparr>))"

definition RootHash :: "mtree \<Rightarrow> byte list" where
  "RootHash t = (case Root t of None \<Rightarrow> replicate 32 0 | Some n \<Rightarrow> mhash n)"

fun collectKeys :: "mnode \<Rightarrow> string list" where
  "collectKeys (MLeaf h k) = [k]"
| "collectKeys (MNode h l r) = collectKeys l @ collectKeys r"

fun diff_nodes :: "mnode \<Rightarrow> mnode \<Rightarrow> string list" where
  "diff_nodes (MLeaf h k) (MLeaf h' k') =
     (if h = h' then [] else [k] @ (if k' \<noteq> k then [k'] else []))"
| "diff_nodes (MLeaf h k) b = (if h = mhash b then [] else k # collectKeys b)"
| "diff_nodes a (MLeaf h k) = (if mhash a = h then [] else collectKeys a @ [k])"
| "diff_nodes (MNode h l r) (MNode h' l' r') =
     (if h = h' then [] else diff_nodes l l' @ diff_nodes r r')"

fun diffNodes :: "mnode option \<Rightarrow> mnode option \<Rightarrow> string list" where
  "diffNodes None None = []"
| "diffNodes None (Some b) = collectKeys b"
| "diffNodes (Some a) None = collectKeys a"
| "diffNodes (Some a) (Some b) = diff_nodes a b"

definition Diff :: "mtree \<Rightarrow> mtree \<Rightarrow> string list" where
  "Diff t other =
     (if RootHash t = RootHash other then [] else dedup [] (diffNodes (Root t) (Root other)))"

definition tree_Keys :: "mtree \<Rightarrow> string list" where
  "tree_Keys t = map (\<lambda>n. case n of MLeaf h k \<Rightarrow> k | MNode h l r \<Rightarrow> []) (leaves t)"

section \<open>Anti-entropy\<close>

record sync_msg =
  SFrom :: string
  SRootHash :: "byte list"

record diff_response =
  DFrom :: string
  AllKeys :: "string list"

text \<open>\<open>pending\<close> maps a peer to the keys its waiting goroutine was started with.\<close>

record anti_entropy =
  ae_selfAddr :: string
  ae_interval :: int
  pending :: "(string, string list) gomap"

definition NewAntiEntropyService :: "string \<Rightarrow> int \<Rightarrow> anti_entropy" where
  "NewAntiEntropyService self interval =
     \<lparr>ae_selfAddr = self, ae_interval = (if interval = 0 then 10 * 60 * 10 ^ 9 else interval), pending = []\<rparr>"

text \<open>One peer of \<open>doSync\<close>; \<open>send_ok\<close> says whether the message could be sent.\<close>

definition sync_step ::
  "(string \<Rightarrow> bool) \<Rightarrow> string list \<Rightarrow> sync_msg \<Rightarrow> string
   \<Rightarrow> anti_entropy \<times> (string \<times> sync_msg) list \<Rightarrow> anti_entropy \<times> (string \<times> sync_msg) list" where
  "sync_step send_ok myKeys msg peer = (\<lambda>(ae, sent).
     (if peer = ae_selfAddr ae then (ae, sent)
      else if send_ok peer then
        (ae\<lparr>pending := AList.update peer myKeys (pending ae)\<rparr>, sent @ [(peer, msg)])
      else (ae\<lparr>pending := AList.delete peer (pending ae)\<rparr>, sent)))"

definition doSync ::
  "(byte list \<Rightarrow> byte list) \<Rightarrow> (string \<Rightarrow> bool) \<Rightarrow> string list \<Rightarrow> string list \<Rightarrow> anti_entropy
   \<Rightarrow> anti_entropy \<times> (string \<times> sync_msg) list" where
  "doSync sha256 send_ok myKeys peers ae =
     fold (sync_step send_ok myKeys
             \<lparr>SFrom = ae_selfAddr ae, SRootHash = RootHash (Build sha256 myKeys)\<rparr>) peers (ae, [])"

text \<open>The 10 second timer of a waiting goroutine.\<close>

definition sync_timeout :: "string \<Rightarrow> anti_entropy \<Rightarrow> anti_entropy" where
  "sync_timeout peer ae = ae\<lparr>pending := AList.delete peer (pending ae)\<rparr>"

definition HandleSync ::
  "(byte list \<Rightarrow> byte list) \<Rightarrow> string list \<Rightarrow> anti_entropy \<Rightarrow> sync_msg \<Rightarrow> diff_response option" where
  "HandleSync sha256 myKeys ae msg =
     (if RootHash (Build sha256 myKeys) = SRootHash msg then None
      else Some \<lparr>DFrom = ae_selfAddr ae, AllKeys = myKeys\<rparr>)"

datatype repair_action = SendKey string string | NeedKey string string

definition repair_key :: "string \<Rightarrow> string list \<Rightarrow> string list \<Rightarrow> string \<Rightarrow> repair_action list" where
  "repair_key peer myKeys theirKeys key =
     (if key \<in> set myKeys \<and> key \<notin> set theirKeys then [SendKey peer key]
      else if key \<notin> set myKeys \<and> key \<in> set theirKeys then [NeedKey peer key]
      else [])"

definition repair ::
  "(byte list \<Rightarrow> byte list) \<Rightarrow> string \<Rightarrow> string list \<Rightarrow> string list \<Rightarrow> repair_action list" where
  "repair sha256 peer myKeys theirKeys =
     concat (map (repair_key peer myKeys theirKeys) (Diff (Build sha256 myKeys) (Build sha256 theirKeys)))"

text \<open>A pending waiter receives the keys and repairs with the keys it was started with; the handler
  then repairs with the current keys.\<close>

definition HandleDiffResponse ::
  "(byte list \<Rightarrow> byte list) \<Rightarrow> string list \<Rightarrow> string \<Rightarrow> diff_response \<Rightarrow> anti_entropy
   \<Rightarrow> anti_entropy \<times> repair_action list" where
  "HandleDiffResponse sha256 myKeys from msg ae =
     (case map_of (pending ae) from of
        Some myK \<Rightarrow>
          (ae\<lparr>pending := AList.delete from (pending ae)\<rparr>,
           repair sha256 from myK (AllKeys msg) @ repair sha256 from myKeys (AllKeys msg))
      | None \<Rightarrow> (ae, repair sha256 from myKeys (AllKeys msg)))"

section \<open>Keys of a tree\<close>

text \<open>Hash values are those the code computes, and the byte strings that were hashed.\<close>

fun hashes_ok :: "(byte list \<Rightarrow> byte list) \<Rightarrow> mnode \<Rightarrow> bool" where
  "hashes_ok sha256 (MLeaf h k) \<longleftrightarrow> h = sha256 (bytes_of k)"
| "hashes_ok sha256 (MNode h l r) \<longleftrightarrow> h = sha256 (mhash l @ mhash r) \<and> hashes_ok sha256 l \<and> hashes_ok sha256 r"

fun leaf_inputs :: "mnode \<Rightarrow> byte list set" where
  "leaf_inputs (MLeaf h k) = {bytes_of k}"
| "leaf_inputs (MNode h l r) = leaf_inputs l \<union> leaf_inputs r"

fun node_inputs :: "mnode \<Rightarrow> byte list set" where
  "node_inputs (MLeaf h k) = {}"
| "node_inputs (MNode h l r) = insert (mhash l @ mhash r) (node_inputs l \<union> node_inputs r)"

lemma set_pairwise_nodes:
  assumes "\<And>x y. P x \<Longrightarrow> P y \<Longrightarrow> P (mparent sha256 x y)" and "\<forall>n \<in> set ns. P n"
  shows "\<forall>n \<in> set (pairwise (mparent sha256) ns). P n"
  using assms(2) by (induction "mparent sha256" ns rule: pairwise.induct) (auto intro: assms(1))

lemma keys_pairwise:
  "(\<Union>n \<in> set (pairwise (mparent sha256) ns). set (collectKeys n)) = (\<Union>n \<in> set ns. set (collectKeys n))"
  by (induction "mparent sha256" ns rule: pairwise.induct) (auto simp: mparent_def)

lemma pairwise_nonempty: "pairwise f (x # xs) \<noteq> []"
  by (cases xs) auto

lemma buildLevel_props:
  assumes "ns \<noteq> []" and "\<forall>n \<in> set ns. hashes_ok sha256 n"
  shows "\<exists>n. buildLevel sha256 ns = Some n \<and> hashes_ok sha256 n \<and>
             set (collectKeys n) = (\<Union>n \<in> set ns. set (collectKeys n))"
  using assms
proof (induction sha256 ns rule: buildLevel.induct)
  case (3 sha256 a b ns)
  let ?p = "pairwise (mparent sha256) (a # b # ns)"
  have "\<forall>n \<in> set ?p. hashes_ok sha256 n"
    by (rule set_pairwise_nodes) (use "3.prems" in \<open>auto simp: mparent_def\<close>)
  then show ?case using "3.IH" pairwise_nonempty [of "mparent sha256" a "b # ns"]
      keys_pairwise [of sha256 "a # b # ns"] by simp
qed auto

lemma Build_props:
  assumes "keys \<noteq> []"
  shows "\<exists>n. Root (Build sha256 keys) = Some n \<and> hashes_ok sha256 n \<and> set (collectKeys n) = set keys"
proof -
  let ?ls = "map (mleaf sha256) (sort keys)"
  have "sort keys \<noteq> []" using assms by (metis length_0_conv length_sort)
  then obtain n where "buildLevel sha256 ?ls = Some n" "hashes_ok sha256 n"
      "set (collectKeys n) = (\<Union>n \<in> set ?ls. set (collectKeys n))"
    using buildLevel_props [of ?ls sha256] by (auto simp: mleaf_def)
  then show ?thesis using assms by (simp add: Build_def Let_def mleaf_def)
qed

section \<open>Equal hashes mean equal keys\<close>

text \<open>\<open>sha256\<close> has 32-byte results and does not collide on the inputs hashed for the key lists, no key
  is itself the concatenation of two of the hashes, and no root is the all-zero hash that stands
  for the empty tree.\<close>

definition root_inputs :: "(byte list \<Rightarrow> byte list) \<Rightarrow> string list \<Rightarrow> byte list set \<times> byte list set" where
  "root_inputs sha256 keys =
     (case Root (Build sha256 keys) of None \<Rightarrow> ({}, {}) | Some n \<Rightarrow> (leaf_inputs n, node_inputs n))"

definition digest_secure :: "(byte list \<Rightarrow> byte list) \<Rightarrow> string list \<Rightarrow> string list \<Rightarrow> bool" where
  "digest_secure sha256 ks ks' \<longleftrightarrow>
     (let L = fst (root_inputs sha256 ks) \<union> fst (root_inputs sha256 ks');
          N = snd (root_inputs sha256 ks) \<union> snd (root_inputs sha256 ks')
      in inj_on sha256 (L \<union> N) \<and> L \<inter> N = {} \<and>
         (\<forall>x \<in> L \<union> N. length (sha256 x) = 32 \<and> sha256 x \<noteq> replicate 32 0))"

lemma mhash_input:
  "hashes_ok sha256 n \<Longrightarrow> \<exists>x \<in> leaf_inputs n \<union> node_inputs n. mhash n = sha256 x"
  by (cases n) auto

lemma mhash_length:
  assumes "\<forall>x \<in> L \<union> N. length (sha256 x) = 32" and "hashes_ok sha256 n"
    and "leaf_inputs n \<subseteq> L" and "node_inputs n \<subseteq> N"
  shows "length (mhash n) = 32"
  using assms by (cases n) auto

lemma same_hash_same_keys:
  assumes "inj_on sha256 (L \<union> N)" and "L \<inter> N = {}" and "\<forall>x \<in> L \<union> N. length (sha256 x) = 32"
    and "hashes_ok sha256 a" and "hashes_ok sha256 b"
    and "leaf_inputs a \<union> leaf_inputs b \<subseteq> L" and "node_inputs a \<union> node_inputs b \<subseteq> N"
    and "mhash a = mhash b"
  shows "collectKeys a = collectKeys b"
  using assms(4-8)
proof (induction a arbitrary: b)
  case (MLeaf h k)
  show ?case
  proof (cases b)
    case (MLeaf h' k')
    then have "bytes_of k = bytes_of k'"
      using inj_onD [OF assms(1), of "bytes_of k" "bytes_of k'"] MLeaf.prems by auto
    then show ?thesis using MLeaf by simp
  next
    case (MNode h' l r)
    then have "bytes_of k = mhash l @ mhash r"
      using inj_onD [OF assms(1), of "bytes_of k" "mhash l @ mhash r"] MLeaf.prems by auto
    then show ?thesis using MNode MLeaf.prems assms(2) by auto
  qed
next
  case (MNode h l r)
  show ?case
  proof (cases b)
    case (MLeaf h' k')
    have e: "sha256 (bytes_of k') = sha256 (mhash l @ mhash r)" using MNode.prems MLeaf by simp
    have "bytes_of k' = mhash l @ mhash r"
      by (rule inj_onD [OF assms(1) e]) (use MNode.prems MLeaf in auto)
    then show ?thesis using MLeaf MNode.prems assms(2) by auto
  next
    case b: (MNode h' l' r')
    have eq: "mhash l @ mhash r = mhash l' @ mhash r'"
      using inj_onD [OF assms(1), of "mhash l @ mhash r" "mhash l' @ mhash r'"] MNode.prems b by auto
    have "length (mhash l) = 32" "length (mhash l') = 32"
      using mhash_length [OF assms(3), of l] mhash_length [OF assms(3), of l'] MNode.prems b by auto
    then have "mhash l = mhash l'" "mhash r = mhash r'"
      using eq append_eq_append_conv [of "mhash l" "mhash l'" "mhash r" "mhash r'"] by metis+
    then show ?thesis using MNode.IH(1) [of l'] MNode.IH(2) [of r'] MNode.prems b by simp
  qed
qed

section \<open>The difference of two trees\<close>

lemma diff_nodes_subset: "set (diff_nodes a b) \<subseteq> set (collectKeys a) \<union> set (collectKeys b)"
  by (induction a b rule: diff_nodes.induct) auto

text \<open>A key on one side only is found, because the subtree it lies in has different hashes all the
  way down to a leaf.\<close>

lemma diff_nodes_complete:
  assumes "inj_on sha256 (L \<union> N)" and "L \<inter> N = {}" and "\<forall>x \<in> L \<union> N. length (sha256 x) = 32"
    and "hashes_ok sha256 a" and "hashes_ok sha256 b"
    and "leaf_inputs a \<union> leaf_inputs b \<subseteq> L" and "node_inputs a \<union> node_inputs b \<subseteq> N"
  shows "sym_diff (set (collectKeys a)) (set (collectKeys b)) \<subseteq> set (diff_nodes a b)"
proof (cases "mhash a = mhash b")
  case True
  then have "collectKeys a = collectKeys b" using same_hash_same_keys [OF assms] by blast
  then show ?thesis by simp
next
  case False
  then show ?thesis using assms(4-7)
  proof (induction a b rule: diff_nodes.induct)
    case (4 h l r h' l' r')
    have sub: "sym_diff (set (collectKeys x)) (set (collectKeys y)) \<subseteq> set (diff_nodes x y)"
      if "mhash x \<noteq> mhash y \<Longrightarrow> sym_diff (set (collectKeys x)) (set (collectKeys y)) \<subseteq> set (diff_nodes x y)"
        and "hashes_ok sha256 x" "hashes_ok sha256 y"
        and "leaf_inputs x \<union> leaf_inputs y \<subseteq> L" "node_inputs x \<union> node_inputs y \<subseteq> N" for x y
      using that same_hash_same_keys [OF assms(1-3) that(2-5)] by (cases "mhash x = mhash y") auto
    have "sym_diff (set (collectKeys l)) (set (collectKeys l')) \<subseteq> set (diff_nodes l l')"
      by (rule sub) (use "4.IH"(1) "4.prems" in auto)
    moreover have "sym_diff (set (collectKeys r)) (set (collectKeys r')) \<subseteq> set (diff_nodes r r')"
      by (rule sub) (use "4.IH"(2) "4.prems" in auto)
    ultimately show ?case using "4.prems"(1) by auto
  qed auto
qed

lemma digest_secureD:
  assumes "digest_secure sha256 ks ks'" and "Root (Build sha256 ks) = Some a" and "Root (Build sha256 ks') = Some b"
  defines "L \<equiv> leaf_inputs a \<union> leaf_inputs b" and "N \<equiv> node_inputs a \<union> node_inputs b"
  shows "inj_on sha256 (L \<union> N)" and "L \<inter> N = {}" and "\<forall>x \<in> L \<union> N. length (sha256 x) = 32"
  using assms by (auto simp: digest_secure_def root_inputs_def Let_def)

lemma root_not_zero:
  assumes "digest_secure sha256 ks ks'" and "ks \<noteq> []"
  shows "RootHash (Build sha256 ks) \<noteq> replicate 32 0"
proof -
  obtain n where n: "Root (Build sha256 ks) = Some n" "hashes_ok sha256 n" using Build_props [OF assms(2)] by blast
  then obtain x where "x \<in> leaf_inputs n \<union> node_inputs n" "mhash n = sha256 x" using mhash_input by blast
  then show ?thesis using assms(1) n by (auto simp: digest_secure_def root_inputs_def Let_def RootHash_def)
qed

lemma digest_secure_sym: "digest_secure sha256 ks ks' \<Longrightarrow> digest_secure sha256 ks' ks"
  by (simp add: digest_secure_def Let_def Un_commute)

lemma RootHash_Nil: "RootHash (Build sha256 []) = replicate 32 0"
  by (simp add: Build_def RootHash_def)

lemma equal_roots_equal_keys:
  assumes "digest_secure sha256 ks ks'" and "RootHash (Build sha256 ks) = RootHash (Build sha256 ks')"
  shows "set ks = set ks'"
proof (cases "ks = [] \<or> ks' = []")
  case True
  then show ?thesis
    using root_not_zero [OF assms(1)] root_not_zero [OF digest_secure_sym [OF assms(1)]] assms(2) RootHash_Nil
    by (metis set_empty)
next
  case False
  then obtain a b where a: "Root (Build sha256 ks) = Some a" "hashes_ok sha256 a" "set (collectKeys a) = set ks"
    and b: "Root (Build sha256 ks') = Some b" "hashes_ok sha256 b" "set (collectKeys b) = set ks'"
    using Build_props by meson
  have "mhash a = mhash b" using assms(2) a(1) b(1) by (simp add: RootHash_def)
  then have "collectKeys a = collectKeys b"
    using same_hash_same_keys [OF digest_secureD [OF assms(1) a(1) b(1)] a(2) b(2)] by blast
  then show ?thesis using a(3) b(3) by simp
qed

lemma Build_cong: "mset ks = mset ks' \<Longrightarrow> Build sha256 ks = Build sha256 ks'"
proof -
  assume m: "mset ks = mset ks'"
  have "sort ks' = sort ks" by (rule properties_for_sort) (simp_all add: m)
  moreover have "ks = [] \<longleftrightarrow> ks' = []" using m by (metis mset_zero_iff)
  ultimately show ?thesis by (simp add: Build_def)
qed

lemma Diff_complete:
  assumes "digest_secure sha256 ks ks'"
  shows "sym_diff (set ks) (set ks') \<subseteq> set (Diff (Build sha256 ks) (Build sha256 ks'))"
    and "set (Diff (Build sha256 ks) (Build sha256 ks')) \<subseteq> set ks \<union> set ks'"
    and "distinct (Diff (Build sha256 ks) (Build sha256 ks'))"
proof -
  let ?t = "Build sha256 ks" and ?u = "Build sha256 ks'"
  have root: "Root (Build sha256 xs) = None \<longleftrightarrow> xs = []" for xs
    using Build_props [of xs sha256] by (cases "xs = []") (auto simp: Build_def)
  show "distinct (Diff ?t ?u)" by (simp add: Diff_def)
  have "sym_diff (set ks) (set ks') \<subseteq> set (diffNodes (Root ?t) (Root ?u)) \<and>
      set (diffNodes (Root ?t) (Root ?u)) \<subseteq> set ks \<union> set ks'"
  proof (cases "ks = []"; cases "ks' = []")
    assume "ks \<noteq> []" "ks' \<noteq> []"
    then obtain a b where a: "Root ?t = Some a" "hashes_ok sha256 a" "set (collectKeys a) = set ks"
      and b: "Root ?u = Some b" "hashes_ok sha256 b" "set (collectKeys b) = set ks'"
      using Build_props by meson
    show ?thesis
      using diff_nodes_complete [OF digest_secureD [OF assms a(1) b(1)] a(2) b(2)] diff_nodes_subset [of a b] a b
      by auto
  next
    assume "ks = []" "ks' \<noteq> []"
    then obtain b where "Root ?u = Some b" "set (collectKeys b) = set ks'" using Build_props by meson
    then show ?thesis using \<open>ks = []\<close> by (simp add: Build_def)
  next
    assume "ks \<noteq> []" "ks' = []"
    then obtain a where "Root ?t = Some a" "set (collectKeys a) = set ks" using Build_props by meson
    then show ?thesis using \<open>ks' = []\<close> by (simp add: Build_def)
  qed (simp add: Build_def)
  then show "sym_diff (set ks) (set ks') \<subseteq> set (Diff ?t ?u)" "set (Diff ?t ?u) \<subseteq> set ks \<union> set ks'"
    using equal_roots_equal_keys [OF assms] by (auto simp: Diff_def)
qed

section \<open>The digest interface\<close>

text \<open>What the exchange needs from a digest of key lists and from the comparison of two of them.\<close>

locale tree_digest =
  fixes secure :: "string list \<Rightarrow> string list \<Rightarrow> bool"
    and digest :: "string list \<Rightarrow> 'd"
    and differing :: "string list \<Rightarrow> string list \<Rightarrow> string list"
  assumes digest_perm: "mset ks = mset ks' \<Longrightarrow> digest ks = digest ks'"
    and digest_keys: "secure ks ks' \<Longrightarrow> digest ks = digest ks' \<Longrightarrow> set ks = set ks'"
    and differing_complete: "secure ks ks' \<Longrightarrow> sym_diff (set ks) (set ks') \<subseteq> set (differing ks ks')"
    and differing_distinct: "distinct (differing ks ks')"
begin

lemma digest_iff_keys:
  assumes "secure ks ks'" and "distinct ks" and "distinct ks'"
  shows "digest ks = digest ks' \<longleftrightarrow> set ks = set ks'"
  using assms digest_perm [of ks ks'] digest_keys set_eq_iff_mset_eq_distinct by blast

lemma actions_exact:
  assumes "secure ks ks'"
  shows "set (concat (map (repair_key p ks ks') (differing ks ks')))
       = SendKey p ` (set ks - set ks') \<union> NeedKey p ` (set ks' - set ks)"
    and "distinct (concat (map (repair_key p ks ks') (differing ks ks')))"
proof -
  show "set (concat (map (repair_key p ks ks') (differing ks ks')))
       = SendKey p ` (set ks - set ks') \<union> NeedKey p ` (set ks' - set ks)"
    using differing_complete [OF assms] by (auto simp: repair_key_def split: if_splits)
  have "distinct (concat (map (repair_key p ks ks') xs))" if "distinct xs" for xs
    using that by (induction xs) (auto simp: repair_key_def)
  then show "distinct (concat (map (repair_key p ks ks') (differing ks ks')))"
    using differing_distinct by blast
qed

end

interpretation mt: tree_digest "digest_secure sha256" "\<lambda>ks. RootHash (Build sha256 ks)"
  "\<lambda>ks ks'. Diff (Build sha256 ks) (Build sha256 ks')" for sha256
proof (unfold_locales, goal_cases)
  case (1 ks ks')
  then show ?case by (simp add: Build_cong [OF 1])
next
  case (2 ks ks')
  then show ?case by (rule equal_roots_equal_keys)
next
  case (3 ks ks')
  then show ?case by (rule Diff_complete(1))
next
  case (4 ks ks')
  then show ?case by (simp add: Diff_def)
qed

section \<open>Properties\<close>

text \<open>C9. Repair moves exactly the missing keys: with a digest that does not collide on the inputs of the
  two trees, it sends every key the peer lacks and requests every key we lack, each once, and
  nothing else, whatever the shapes of the two trees.\<close>

theorem repair_exact:
  assumes "digest_secure sha256 myKeys theirKeys"
  shows "set (repair sha256 peer myKeys theirKeys)
       = SendKey peer ` (set myKeys - set theirKeys) \<union> NeedKey peer ` (set theirKeys - set myKeys) \<and>
         distinct (repair sha256 peer myKeys theirKeys)"
  unfolding repair_def using mt.actions_exact [OF assms] by blast

text \<open>A digest for the witnesses: the length of the input, then its first bytes.\<close>

definition demo_digest :: "byte list \<Rightarrow> byte list" where
  "demo_digest bs = word_of_nat (length bs) # take 31 (bs @ replicate 31 0)"

lemma length_demo_digest [simp]: "length (demo_digest bs) = 32"
  by (simp add: demo_digest_def)

lemma demo_secure: "digest_secure demo_digest [''b'', ''a''] [''b'']"
proof -
  let ?a = "bytes_of ''a''" and ?b = "bytes_of ''b''"
  have roots: "root_inputs demo_digest [''b'', ''a''] = ({?a, ?b}, {demo_digest ?a @ demo_digest ?b})"
      "root_inputs demo_digest [''b''] = ({?b}, {})"
    by (simp_all add: root_inputs_def Build_def Let_def mleaf_def mparent_def insert_commute)
  have "demo_digest ?a \<noteq> demo_digest ?b" by (simp add: demo_digest_def bytes_of_def numeral_eq_Suc)
  moreover have "demo_digest (demo_digest ?a @ demo_digest ?b) \<noteq> demo_digest ?a"
      "demo_digest (demo_digest ?a @ demo_digest ?b) \<noteq> demo_digest ?b"
  proof -
    have h: "hd (demo_digest x) = word_of_nat (length x)" for x by (simp add: demo_digest_def)
    have "hd (demo_digest (demo_digest ?a @ demo_digest ?b)) = 64" "hd (demo_digest ?a) = 1" "hd (demo_digest ?b) = 1"
      by (simp_all add: h)
    then show "demo_digest (demo_digest ?a @ demo_digest ?b) \<noteq> demo_digest ?a"
        "demo_digest (demo_digest ?a @ demo_digest ?b) \<noteq> demo_digest ?b" by auto
  qed
  moreover have "?a \<noteq> demo_digest ?a @ demo_digest ?b" "?b \<noteq> demo_digest ?a @ demo_digest ?b"
    by (auto dest: arg_cong [where f = length])
  moreover have "demo_digest ?a \<noteq> replicate 32 0" "demo_digest ?b \<noteq> replicate 32 0"
      "demo_digest (demo_digest ?a @ demo_digest ?b) \<noteq> replicate 32 0"
    by (simp_all add: demo_digest_def numeral_eq_Suc)
  ultimately show ?thesis
    unfolding digest_secure_def roots Let_def fst_conv snd_conv
    by (auto simp: inj_on_def)
qed

theorem repair_exact_witness:
  "set (repair demo_digest ''p'' [''b'', ''a''] [''b'']) = {SendKey ''p'' ''a''}"
  using repair_exact [OF demo_secure, of "''p''"] by simp

text \<open>A node stays silent on a sync message exactly when both sides hold the same keys, in whatever
  order each of them lists its keys.\<close>

lemma HandleSync_silent_iff_same_keys:
  assumes "digest_secure sha256 myKeys theirKeys" and "distinct myKeys" and "distinct theirKeys"
  shows "HandleSync sha256 myKeys ae \<lparr>SFrom = peer, SRootHash = RootHash (Build sha256 theirKeys)\<rparr> = None
     \<longleftrightarrow> set myKeys = set theirKeys"
  using mt.digest_iff_keys [OF assms] by (auto simp: HandleSync_def)

theorem HandleSync_silent_iff_same_keys_witness:
  "HandleSync demo_digest [''b'', ''a''] (NewAntiEntropyService ''n'' 0)
     \<lparr>SFrom = ''p'', SRootHash = RootHash (Build demo_digest [''b''])\<rparr> \<noteq> None"
  using HandleSync_silent_iff_same_keys [OF demo_secure, of "NewAntiEntropyService ''n'' 0" "''p''"] by auto

text \<open>The response to a sync the node initiated itself is repaired twice.\<close>

lemma HandleDiffResponse_repairs_twice:
  "map_of (pending ae) from = Some myKeys \<Longrightarrow>
   snd (HandleDiffResponse sha256 myKeys from msg ae)
   = repair sha256 from myKeys (AllKeys msg) @ repair sha256 from myKeys (AllKeys msg)"
  by (simp add: HandleDiffResponse_def)

end
