(* ===== verification/Swarm.thy ===== *)
theory Swarm
  imports Prelude
begin

unbundle bit_operations_syntax

text \<open>
  The chunk bitfields of the swarm, \<open>Storage/swarm/swarm.go\<close>: byte slices in which chunk \<open>i\<close> is bit
  \<open>i mod 8\<close> of byte \<open>i div 8\<close>. Integer division truncates as in Go, and the allocation with a
  negative length, the index and the shift that panic give \<open>None\<close>. \<open>available\<close> abstracts a bitfield to
  the set of its chunks.
\<close>

record seed_source =
  OriginalPath :: string
  CASBacked :: bool
  SChunkSize :: int
  STotalChunks :: int
  SBitfield :: "byte list"

record provider_record =
  PAddr :: string
  PChunkCount :: int
  PTotalChunks :: int
  PRegisteredAt :: int

definition ProviderTTL :: int where
  "ProviderTTL = 24 * 3600 * 10 ^ 9"

definition ReregistrationInterval :: int where
  "ReregistrationInterval = 10 * 60 * 10 ^ 9"

definition NewBitfield :: "int \<Rightarrow> byte list option" where
  "NewBitfield totalChunks =
     (let n = go_div (totalChunks + 7) 8 in if n < 0 then None else Some (replicate (nat n) 0))"

definition NewFullBitfield :: "int \<Rightarrow> byte list option" where
  "NewFullBitfield totalChunks =
     (let n = go_div (totalChunks + 7) 8; rem = go_mod totalChunks 8
      in if n < 0 then None
         else
           (let bf = replicate (nat n) 0xFF
            in if rem = 0 then Some bf
               else if rem < 0 \<or> bf = [] then None
               else Some (bf[length bf - 1 := push_bit (nat rem) 1 - 1])))"

definition SetBit :: "byte list \<Rightarrow> int \<Rightarrow> byte list" where
  "SetBit bf index =
     (if index < 0 \<or> index div 8 \<ge> int (length bf) then bf
      else (let j = nat (index div 8) in bf[j := (bf ! j) OR push_bit (nat (index mod 8)) 1]))"

definition ClearBit :: "byte list \<Rightarrow> int \<Rightarrow> byte list" where
  "ClearBit bf index =
     (if index < 0 \<or> index div 8 \<ge> int (length bf) then bf
      else (let j = nat (index div 8) in bf[j := (bf ! j) AND NOT (push_bit (nat (index mod 8)) 1)]))"

definition HasBit :: "byte list \<Rightarrow> int \<Rightarrow> bool" where
  "HasBit bf index =
     (if index < 0 \<or> index div 8 \<ge> int (length bf) then False
      else (bf ! nat (index div 8)) AND push_bit (nat (index mod 8)) 1 \<noteq> 0)"

function popcount :: "byte \<Rightarrow> int" where
  "popcount b = (if b \<noteq> 0 then 1 + popcount (b AND (b - 1)) else 0)"
  by pat_completeness auto
termination
proof (relation "measure unat")
  fix b :: byte
  assume "b \<noteq> 0"
  have "b AND (b - 1) \<le> b - 1" by (rule word_and_le1)
  then have "unat (b AND (b - 1)) \<le> unat (b - 1)" by (simp add: word_le_nat_alt)
  also have "\<dots> < unat b" using \<open>b \<noteq> 0\<close> by (metis measure_unat)
  finally show "(b AND (b - 1), b) \<in> measure unat" by simp
qed simp

declare popcount.simps [simp del]

definition CountBits :: "byte list \<Rightarrow> int" where
  "CountBits bf = fold (\<lambda>b n. n + popcount b) bf 0"

definition AllSet :: "byte list \<Rightarrow> int \<Rightarrow> bool" where
  "AllSet bf totalChunks =
     (if bf = [] \<and> totalChunks > 0 then False else CountBits bf \<ge> totalChunks)"

section \<open>Bitfields as sets\<close>

definition available :: "byte list \<Rightarrow> nat set" where
  "available bf = {i. i div 8 < length bf \<and> bit (bf ! (i div 8)) (i mod 8)}"

lemma and_push_one: "(b AND push_bit n 1 \<noteq> (0 :: byte)) \<longleftrightarrow> bit b n"
  unfolding push_bit_of_1 by (simp add: and_exp_eq_0_iff_not_bit)

lemma nat_byte_index [simp]: "nat (int n div 8) = n div 8" "nat (int n mod 8) = n mod 8"
  by (simp_all add: nat_div_distrib nat_mod_distrib)

lemma byte_index_in_range [simp]: "int (length bf) \<le> int n div 8 \<longleftrightarrow> length bf \<le> n div 8"
  by (metis of_nat_le_iff of_nat_numeral zdiv_int)

lemma SetBit_nat: "SetBit bf (int n) =
    (if n div 8 < length bf then bf[n div 8 := (bf ! (n div 8)) OR push_bit (n mod 8) 1] else bf)"
  by (simp add: SetBit_def Let_def)

lemma ClearBit_nat: "ClearBit bf (int n) =
    (if n div 8 < length bf then bf[n div 8 := (bf ! (n div 8)) AND NOT (push_bit (n mod 8) 1)] else bf)"
  by (simp add: ClearBit_def Let_def)

lemma length_SetBit [simp]: "length (SetBit bf i) = length bf"
  by (simp add: SetBit_def Let_def)

lemma length_ClearBit [simp]: "length (ClearBit bf i) = length bf"
  by (simp add: ClearBit_def Let_def)

lemma HasBit_available: "HasBit bf i \<longleftrightarrow> 0 \<le> i \<and> nat i \<in> available bf"
proof (cases "0 \<le> i")
  case True
  then obtain n where n: "i = int n" by (metis nonneg_int_cases)
  show ?thesis unfolding n HasBit_def and_push_one by (auto simp: available_def)
qed (simp add: HasBit_def)

lemma available_update:
  assumes "n div 8 < length bf"
  shows "available (bf[n div 8 := b]) =
    {i. i div 8 \<noteq> n div 8 \<and> i \<in> available bf} \<union> {i. i div 8 = n div 8 \<and> bit b (i mod 8)}"
  using assms by (auto simp: available_def nth_list_update)

lemma eq_div_mod: "i div 8 = n div 8 \<Longrightarrow> i mod 8 = n mod 8 \<Longrightarrow> i = (n :: nat)"
  by (metis div_mult_mod_eq)

lemma bit_or_one: "bit ((b :: byte) OR push_bit (n mod 8) 1) (i mod 8) \<longleftrightarrow>
    bit b (i mod 8) \<or> i mod 8 = n mod 8"
  by (auto simp: bit_simps)

lemma bit_and_not_one: "bit ((b :: byte) AND NOT (push_bit (n mod 8) 1)) (i mod 8) \<longleftrightarrow>
    bit b (i mod 8) \<and> i mod 8 \<noteq> n mod 8"
  by (auto simp: bit_simps)

lemma available_SetBit:
  "available (SetBit bf (int n)) = (if n div 8 < length bf then insert n (available bf) else available bf)"
proof (cases "n div 8 < length bf")
  case True
  then show ?thesis unfolding SetBit_nat if_P [OF True] available_update [OF True] bit_or_one
    by (auto simp: available_def dest: eq_div_mod)
qed (simp add: SetBit_nat)

lemma available_ClearBit: "available (ClearBit bf (int n)) = available bf - {n}"
proof (cases "n div 8 < length bf")
  case True
  then show ?thesis unfolding ClearBit_nat if_P [OF True] available_update [OF True] bit_and_not_one
    by (auto simp: available_def dest: eq_div_mod)
qed (auto simp: ClearBit_nat available_def)

section \<open>Counting\<close>

lemma popcount_table:
  "list_all (\<lambda>n. popcount (word_of_nat n) =
     sum_list (map (\<lambda>i. of_bool (bit (word_of_nat n :: byte) i)) [0..<8])) [0..<256]"
  by code_simp

lemma popcount_card: "popcount b = int (card {i. i < 8 \<and> bit b i})"
proof -
  have "unat b \<in> set [0..<256]" unfolding set_upt atLeastLessThan_iff by simp
  with popcount_table have "popcount (word_of_nat (unat b)) =
      sum_list (map (\<lambda>i. of_bool (bit (word_of_nat (unat b) :: byte) i)) [0..<8])"
    unfolding list_all_iff by (rule bspec)
  moreover have "(word_of_nat (unat b) :: byte) = b" by simp
  ultimately have "popcount b = sum_list (map (\<lambda>i. of_bool (bit b i)) [0..<8])" by (simp only:)
  also have "\<dots> = (\<Sum>i<8. of_bool (bit b i))"
    by (simp add: interv_sum_list_conv_sum_set_nat lessThan_atLeast0)
  also have "\<dots> = int (card ({..<8} \<inter> {i. bit b i}))" by (simp add: sum.If_cases of_bool_def)
  also have "{..<8} \<inter> {i. bit b i} = {i. i < 8 \<and> bit b i}" by auto
  finally show ?thesis .
qed

lemma CountBits_snoc: "CountBits (bf @ [b]) = CountBits bf + popcount b"
  by (simp add: CountBits_def)

lemma available_snoc:
  "available (bf @ [b]) = available bf \<union> (\<lambda>i. 8 * length bf + i) ` {i. i < 8 \<and> bit b i}"
proof -
  have "i \<in> available (bf @ [b]) \<longleftrightarrow> i \<in> available bf \<or> i div 8 = length bf \<and> bit b (i mod 8)" for i
    by (auto simp: available_def nth_append less_Suc_eq)
  moreover have "i div 8 = length bf \<and> bit b (i mod 8) \<longleftrightarrow>
      i \<in> (\<lambda>i. 8 * length bf + i) ` {i. i < 8 \<and> bit b i}" for i
  proof
    assume "i div 8 = length bf \<and> bit b (i mod 8)"
    then show "i \<in> (\<lambda>i. 8 * length bf + i) ` {i. i < 8 \<and> bit b i}"
      using mult_div_mod_eq [of 8 i] by (intro image_eqI [of _ _ "i mod 8"]) auto
  qed auto
  ultimately show ?thesis by auto
qed

lemma available_bounded: "available bf \<subseteq> {..<8 * length bf}"
  by (auto simp: available_def)

lemma CountBits_card: "CountBits bf = int (card (available bf))"
proof (induction bf rule: rev_induct)
  case Nil
  show ?case by (simp add: CountBits_def available_def)
next
  case (snoc b bf)
  let ?B = "{i. i < 8 \<and> bit b i}" and ?f = "\<lambda>i. 8 * length bf + i"
  have "card (available (bf @ [b])) = card (available bf) + card (?f ` ?B)"
    unfolding available_snoc
    by (rule card_Un_disjoint) (use available_bounded [of bf] in \<open>auto intro: finite_subset\<close>)
  moreover have "card (?f ` ?B) = card ?B" by (rule card_image) (simp add: inj_on_def)
  ultimately show ?case by (simp add: CountBits_snoc snoc.IH popcount_card)
qed

section \<open>A bitfield in use\<close>

text \<open>The bitfield of a download: \<open>NewBitfield\<close> or \<open>NewFullBitfield\<close>, then \<open>SetBit\<close> and \<open>ClearBit\<close>
  as chunks arrive and are lost; \<open>set_step\<close> is the same history on the abstract set.\<close>

datatype bit_op = Got int | Lost int

primrec bit_step :: "bit_op \<Rightarrow> byte list \<Rightarrow> byte list" where
  "bit_step (Got i) bf = SetBit bf i"
| "bit_step (Lost i) bf = ClearBit bf i"

primrec set_step :: "bit_op \<Rightarrow> int set \<Rightarrow> int set" where
  "set_step (Got i) A = insert i A"
| "set_step (Lost i) A = A - {i}"

primrec op_index :: "bit_op \<Rightarrow> int" where
  "op_index (Got i) = i"
| "op_index (Lost i) = i"

definition tracks :: "int \<Rightarrow> byte list \<Rightarrow> int set \<Rightarrow> bool" where
  "tracks tot bf A \<longleftrightarrow>
     A \<subseteq> {0..<tot} \<and> int ` available bf = A \<and> int (length bf) = (tot + 7) div 8"

lemma tracks_step:
  assumes "tracks tot bf A" and "0 \<le> op_index x" and "op_index x < tot"
  shows "tracks tot (bit_step x bf) (set_step x A)"
proof -
  obtain n where n: "op_index x = int n" using assms(2) by (metis nonneg_int_cases)
  have len: "length (bit_step x bf) = length bf" by (cases x) simp_all
  have A: "A \<subseteq> {0..<tot}" "int ` available bf = A" "int (length bf) = (tot + 7) div 8"
    using assms(1) by (simp_all add: tracks_def)
  have "int n div 8 < (tot + 7) div 8" using assms(3) unfolding n by linarith
  then have lt: "n div 8 < length bf" unfolding A(3) [symmetric] by (simp flip: zdiv_int)
  have "int ` available (bit_step x bf) = set_step x A"
  proof (cases x)
    case (Got j)
    then show ?thesis using n lt A(2) by (simp add: available_SetBit)
  next
    case (Lost j)
    then show ?thesis using n A(2) by (simp add: available_ClearBit image_set_diff)
  qed
  moreover have "set_step x A \<subseteq> {0..<tot}" using A(1) assms(2,3) by (cases x) auto
  ultimately show ?thesis using A(3) len by (simp add: tracks_def)
qed

lemma tracks_fold:
  assumes "tracks tot bf A" and "\<forall>x \<in> set ops. 0 \<le> op_index x \<and> op_index x < tot"
  shows "tracks tot (fold bit_step ops bf) (fold set_step ops A)"
  using assms by (induction ops arbitrary: bf A) (simp_all add: tracks_step)

lemma tracks_New:
  assumes "0 \<le> tot" and "NewBitfield tot = Some bf"
  shows "tracks tot bf {}"
  using assms by (auto simp: NewBitfield_def go_div_def Let_def tracks_def available_def split: if_splits)

lemma tracks_NewFull:
  assumes "0 \<le> tot" and "NewFullBitfield tot = Some bf"
  shows "tracks tot bf {0..<tot}"
proof -
  obtain n where n: "tot = int n" using assms(1) by (metis nonneg_int_cases)
  define k where "k = (n + 7) div 8"
  have k: "go_div (tot + 7) 8 = int k" by (simp add: n go_div_def k_def zdiv_int)
  have r: "go_mod tot 8 = int (n mod 8)"
    by (simp add: n go_mod_def go_div_def zmod_int minus_mult_div_eq_mod)
  have keq: "k = n div 8 + of_bool (n mod 8 \<noteq> 0)"
  proof (cases "n mod 8 = 0")
    case False
    have "n = 8 * (n div 8) + n mod 8" "n mod 8 < 8" by simp_all
    then have "(n + 7) div 8 = n div 8 + 1" using False by linarith
    then show ?thesis using False by (simp add: k_def)
  next
    case True
    have "n = 8 * (n div 8) + n mod 8" by simp
    then have "(n + 7) div 8 = n div 8" using True by linarith
    then show ?thesis using True by (simp add: k_def)
  qed
  have "i < n \<longleftrightarrow> i div 8 < n div 8 \<or> i div 8 = n div 8 \<and> i mod 8 < n mod 8" for i
    using mult_div_mod_eq [of 8 i] mult_div_mod_eq [of 8 n] by linarith
  then have lt: "i < n \<longleftrightarrow> i div 8 < k \<and> (n mod 8 = 0 \<or> i div 8 < k - 1 \<or> i mod 8 < n mod 8)" for i
    unfolding keq by (auto simp: less_Suc_eq)
  have full: "bit (0xFF :: byte) (i mod 8)" for i :: nat
    using bit_mask_iff [where 'a = "8 word", of 8 "i mod 8"] by (simp add: mask_eq_exp_minus_1)
  have part: "bit (push_bit r 1 - 1 :: byte) (i mod 8) \<longleftrightarrow> i mod 8 < r" if "r < 8" for i r :: nat
    using bit_mask_iff [where 'a = "8 word", of r "i mod 8"] that by (auto simp: mask_eq_exp_minus_1)
  have bf: "bf = (if n mod 8 = 0 then replicate k 0xFF
      else (replicate k 0xFF)[k - 1 := push_bit (n mod 8) 1 - 1])"
    using assms(2) unfolding NewFullBitfield_def Let_def k r by (auto split: if_splits)
  have "available bf = {..<n}"
  proof (intro set_eqI)
    fix i
    show "i \<in> available bf \<longleftrightarrow> i \<in> {..<n}"
      unfolding lessThan_iff lt bf available_def mem_Collect_eq using full [of i] part [of "n mod 8" i]
      by (cases "n mod 8 = 0"; cases "i div 8 = k - 1"; cases "i div 8 < k"; simp del: push_bit_of_1)
        linarith?
  qed
  moreover have "int ` {..<n} = {0..<tot}" unfolding n
    using image_int_atLeastLessThan [of 0 n] by (simp add: lessThan_atLeast0)
  moreover have "length bf = k" by (simp add: bf)
  ultimately show ?thesis by (simp add: tracks_def n k_def zdiv_int)
qed

lemma tracks_HasBit: "tracks tot bf A \<Longrightarrow> HasBit bf i \<longleftrightarrow> i \<in> A"
  unfolding HasBit_available
proof -
  assume "tracks tot bf A"
  then have "A = int ` available bf" by (simp add: tracks_def)
  then show "0 \<le> i \<and> nat i \<in> available bf \<longleftrightarrow> i \<in> A"
    by (cases "0 \<le> i") (auto simp: image_iff intro: bexI [of _ "nat i"])
qed

lemma tracks_CountBits: "tracks tot bf A \<Longrightarrow> CountBits bf = int (card A)"
  by (auto simp: tracks_def CountBits_card card_image)

lemma tracks_AllSet:
  assumes "tracks tot bf A" and "0 \<le> tot"
  shows "AllSet bf tot \<longleftrightarrow> A = {0..<tot}"
proof -
  have sub: "A \<subseteq> {0..<tot}" using assms(1) by (simp add: tracks_def)
  have "AllSet bf tot \<longleftrightarrow> tot \<le> int (card A)"
  proof (cases "bf = []")
    case True
    then have "A = {}" using assms(1) by (simp add: tracks_def available_def)
    with True show ?thesis using assms(2) by (auto simp: AllSet_def CountBits_def)
  qed (simp add: AllSet_def tracks_CountBits [OF assms(1)])
  also have "\<dots> \<longleftrightarrow> A = {0..<tot}"
  proof
    assume "tot \<le> int (card A)"
    then have "card {0..<tot} \<le> card A" by simp
    then show "A = {0..<tot}" using sub card_seteq [of "{0..<tot}" A] by simp
  next
    assume "A = {0..<tot}"
    then show "tot \<le> int (card A)" by simp
  qed
  finally show ?thesis .
qed


text \<open>A bitfield started by \<open>NewBitfield\<close> (or \<open>NewFullBitfield\<close>) for a file of \<open>tot\<close> chunks and
  then updated by \<open>SetBit\<close> and \<open>ClearBit\<close> for chunks of the file, in any order, is exactly the set of
  chunks the history leaves: \<open>HasBit\<close> answers membership for every integer index, \<open>CountBits\<close> is the
  number of chunks, and \<open>AllSet\<close> holds when no chunk is missing and only then.\<close>

lemma bitfield_tracks_chunks:
  assumes "0 \<le> tot" and "\<forall>x \<in> set ops. 0 \<le> op_index x \<and> op_index x < tot"
    and "NewBitfield tot = Some bf0 \<and> A0 = {} \<or> NewFullBitfield tot = Some bf0 \<and> A0 = {0..<tot}"
  shows "(HasBit (fold bit_step ops bf0) i \<longleftrightarrow> i \<in> fold set_step ops A0) \<and>
    CountBits (fold bit_step ops bf0) = int (card (fold set_step ops A0)) \<and>
    (AllSet (fold bit_step ops bf0) tot \<longleftrightarrow> fold set_step ops A0 = {0..<tot})"
proof -
  have "tracks tot bf0 A0" using assms(1,3) tracks_New tracks_NewFull by blast
  then have t: "tracks tot (fold bit_step ops bf0) (fold set_step ops A0)"
    by (rule tracks_fold [OF _ assms(2)])
  show ?thesis using tracks_HasBit [OF t] tracks_CountBits [OF t] tracks_AllSet [OF t assms(1)] by blast
qed

theorem bitfield_tracks_chunks_witness:
  "\<exists>bf. NewBitfield 10 = Some bf \<and>
     (HasBit (fold bit_step [Got 9, Got 2, Lost 9] bf) 2 \<longleftrightarrow> 2 \<in> ({2} :: int set)) \<and>
     CountBits (fold bit_step [Got 9, Got 2, Lost 9] bf) = int (card ({2} :: int set))"
proof -
  have n: "NewBitfield 10 = Some [0, 0]" by (simp add: NewBitfield_def go_div_def numeral_eq_Suc)
  have s: "fold set_step [Got 9, Got 2, Lost 9] {} = {2}" by auto
  show ?thesis
    using bitfield_tracks_chunks [of 10 "[Got 9, Got 2, Lost 9]" "[0, 0]" "{}" 2] n
    unfolding s by (intro exI [of _ "[0, 0]"]) simp
qed

text \<open>\<open>AllSet\<close> counts bits without looking at which: a bit past the last chunk stands for a missing
  chunk, so a bitfield received from elsewhere with padding bits set can pass for complete.\<close>

lemma AllSet_counts_padding: "AllSet [0xFD] 7 \<and> \<not> HasBit [0xFD] 1"
  by code_simp

end
