(* ===== verification/Transfers.thy ===== *)
theory Transfers
  imports Prelude
begin

text \<open>
  The registry of active transfers, \<open>Server/transfer/transfer.go\<close>. A method runs under the locks of
  the manager and of the entry it finds, so it is one step on \<open>manager\<close>; the contexts that
  \<open>context.WithCancel\<close> hands out are numbered by \<open>NextCtx\<close> and \<open>Cancelled\<close> lists those whose cancel
  function has been called. The clock reading of a method is an argument (nanoseconds), the zero
  \<open>time.Time\<close> of \<open>lastTime\<close> is \<^const>\<open>None\<close>, \<open>float64\<close> speeds are reals, and byte counts are not negative, so that their
  difference does not wrap.
\<close>

datatype Direction = Upload | Download

primrec Direction_String :: "Direction \<Rightarrow> string" where
  "Direction_String Upload = ''upload''"
| "Direction_String Download = ''download''"

datatype Status = Queued | Active | Paused | Completed | Failed

primrec Status_String :: "Status \<Rightarrow> string" where
  "Status_String Queued = ''queued''"
| "Status_String Active = ''active''"
| "Status_String Paused = ''paused''"
| "Status_String Completed = ''completed''"
| "Status_String Failed = ''failed''"

record transfer_info =
  TID :: string
  TDirection :: Direction
  TStatus :: Status
  TKey :: string
  TName :: string
  TSize :: int
  TIsDir :: bool
  TEncrypted :: bool
  TPublic :: bool
  TCompleted :: int
  TTotal :: int
  BytesDone :: int
  Speed :: real
  StartedAt :: int
  TError :: string
  FilePath :: string
  OutputDir :: string
  DEK :: "byte list"

record tracked_transfer =
  Info :: transfer_info
  cancel :: nat
  lastBytes :: int
  lastTime :: "int option"

record manager =
  Transfers :: "(string, tracked_transfer) gomap"
  counter :: uint32
  NextCtx :: nat
  Cancelled :: "nat list"

datatype transfer_error = NotFound string | NotPaused string string

definition NewManager :: manager where
  "NewManager = \<lparr>Transfers = [], counter = 0, NextCtx = 0, Cancelled = []\<rparr>"

text \<open>\<open>context.WithCancel(context.Background())\<close>: a context not handed out before.\<close>

definition WithCancel :: "manager \<Rightarrow> nat \<times> manager" where
  "WithCancel m = (NextCtx m, m\<lparr>NextCtx := NextCtx m + 1\<rparr>)"

definition fire :: "nat \<Rightarrow> manager \<Rightarrow> manager" where
  "fire ctx m = m\<lparr>Cancelled := ctx # Cancelled m\<rparr>"

text \<open>\<open>%08x\<close> of a \<open>uint32\<close>.\<close>

definition format_id :: "uint32 \<Rightarrow> string" where
  "format_id n = hex_encode (be_bytes 4 (unat n))"

definition Register ::
  "int \<Rightarrow> Direction \<Rightarrow> string \<Rightarrow> string \<Rightarrow> string \<Rightarrow> int \<Rightarrow> bool \<Rightarrow> bool \<Rightarrow> bool \<Rightarrow> manager
    \<Rightarrow> string \<times> nat \<times> manager" where
  "Register now dir key name filePath sz isDir encrypted public m =
     (let c = counter m + 1;
          tid = format_id c;
          (ctx, m1) = WithCancel (m\<lparr>counter := c\<rparr>);
          t = \<lparr>Info = \<lparr>TID = tid, TDirection = dir, TStatus = Queued, TKey = key, TName = name,
                 TSize = sz, TIsDir = isDir, TEncrypted = encrypted, TPublic = public,
                 TCompleted = 0, TTotal = 0, BytesDone = 0, Speed = 0, StartedAt = now, TError = [],
                 FilePath = filePath, OutputDir = [], DEK = []\<rparr>,
               cancel = ctx, lastBytes = 0, lastTime = None\<rparr>
      in (tid, ctx, m1\<lparr>Transfers := AList.update tid t (Transfers m1)\<rparr>))"

text \<open>The lookup and locked update that most methods share: nothing happens for an unknown id.\<close>

definition with_entry :: "string \<Rightarrow> (tracked_transfer \<Rightarrow> tracked_transfer) \<Rightarrow> manager \<Rightarrow> manager" where
  "with_entry tid f m = (case map_of (Transfers m) tid of
     None \<Rightarrow> m
   | Some t \<Rightarrow> m\<lparr>Transfers := AList.update tid (f t) (Transfers m)\<rparr>)"

definition with_info :: "string \<Rightarrow> (transfer_info \<Rightarrow> transfer_info) \<Rightarrow> manager \<Rightarrow> manager" where
  "with_info tid f = with_entry tid (\<lambda>t. t\<lparr>Info := f (Info t)\<rparr>)"

definition SetStatus :: "string \<Rightarrow> Status \<Rightarrow> string \<Rightarrow> manager \<Rightarrow> manager" where
  "SetStatus tid status errMsg = with_info tid (\<lambda>i. i\<lparr>TStatus := status, TError := errMsg\<rparr>)"

text \<open>\<open>now.Sub(lastTime).Seconds()\<close>.\<close>

definition seconds :: "int \<Rightarrow> real" where
  "seconds d = of_int d / 10 ^ 9"

definition update_speed :: "int \<Rightarrow> int \<Rightarrow> tracked_transfer \<Rightarrow> tracked_transfer" where
  "update_speed now bytesDone t =
     (case lastTime t of
        None \<Rightarrow>
          (let dt = seconds (now - StartedAt (Info t));
               sp = (if dt > 0 \<and> bytesDone > 0 then of_int bytesDone / dt else Speed (Info t))
           in t\<lparr>Info := (Info t)\<lparr>Speed := sp\<rparr>, lastBytes := bytesDone, lastTime := Some now\<rparr>)
      | Some lt \<Rightarrow>
          (let dt = seconds (now - lt)
           in if dt > 1 / 2 then
                (let instantSpeed = of_int (bytesDone - lastBytes t) / dt;
                     alpha = 3 / 10;
                     sp = (if Speed (Info t) \<le> 0 then instantSpeed
                           else alpha * instantSpeed + (1 - alpha) * Speed (Info t))
                 in t\<lparr>Info := (Info t)\<lparr>Speed := sp\<rparr>, lastBytes := bytesDone, lastTime := Some now\<rparr>)
              else t))"

definition set_progress :: "int \<Rightarrow> int \<Rightarrow> int \<Rightarrow> int \<Rightarrow> tracked_transfer \<Rightarrow> tracked_transfer" where
  "set_progress now compl tot bytesDone t =
     update_speed now bytesDone
       (t\<lparr>Info := (Info t)\<lparr>TCompleted := compl, TTotal := tot, BytesDone := bytesDone\<rparr>\<rparr>)"

definition UpdateProgress :: "int \<Rightarrow> string \<Rightarrow> int \<Rightarrow> int \<Rightarrow> int \<Rightarrow> manager \<Rightarrow> manager" where
  "UpdateProgress now tid compl tot bytesDone = with_entry tid (set_progress now compl tot bytesDone)"

text \<open>\<open>Cancel\<close> also marks the entry it has just taken out of the registry as failed; nothing reads that
  entry any more, so only the fired context is kept.\<close>

definition Cancel :: "string \<Rightarrow> manager \<Rightarrow> (transfer_error + unit) \<times> manager" where
  "Cancel tid m = (case map_of (Transfers m) tid of
     None \<Rightarrow> (Inl (NotFound tid), m)
   | Some t \<Rightarrow> (Inr (), fire (cancel t) (m\<lparr>Transfers := AList.delete tid (Transfers m)\<rparr>)))"

definition Pause :: "string \<Rightarrow> manager \<Rightarrow> (transfer_error + unit) \<times> manager" where
  "Pause tid m = (case map_of (Transfers m) tid of
     None \<Rightarrow> (Inl (NotFound tid), m)
   | Some t \<Rightarrow>
       (Inr (), fire (cancel t) (m\<lparr>Transfers :=
          AList.update tid (t\<lparr>Info := (Info t)\<lparr>TStatus := Paused\<rparr>\<rparr>) (Transfers m)\<rparr>)))"

definition Resume :: "string \<Rightarrow> manager \<Rightarrow> (transfer_error + nat) \<times> manager" where
  "Resume tid m = (case map_of (Transfers m) tid of
     None \<Rightarrow> (Inl (NotFound tid), m)
   | Some t \<Rightarrow>
       if TStatus (Info t) \<noteq> Paused then (Inl (NotPaused tid (Status_String (TStatus (Info t)))), m)
       else (let (ctx, m1) = WithCancel m;
                 t' = t\<lparr>Info := (Info t)\<lparr>TStatus := Active, TError := []\<rparr>, cancel := ctx\<rparr>
             in (Inr ctx, m1\<lparr>Transfers := AList.update tid t' (Transfers m1)\<rparr>)))"

definition SetOutputDir :: "string \<Rightarrow> string \<Rightarrow> manager \<Rightarrow> manager" where
  "SetOutputDir tid dir = with_info tid (\<lambda>i. i\<lparr>OutputDir := dir\<rparr>)"

definition SetSize :: "string \<Rightarrow> int \<Rightarrow> manager \<Rightarrow> manager" where
  "SetSize tid sz = with_info tid (\<lambda>i. i\<lparr>TSize := sz\<rparr>)"

definition SetDEK :: "string \<Rightarrow> byte list \<Rightarrow> manager \<Rightarrow> manager" where
  "SetDEK tid dek = with_info tid (\<lambda>i. i\<lparr>DEK := dek\<rparr>)"

definition Complete :: "string \<Rightarrow> manager \<Rightarrow> manager" where
  "Complete tid = with_info tid (\<lambda>i. i\<lparr>TStatus := Completed\<rparr>)"

definition Remove :: "string \<Rightarrow> manager \<Rightarrow> manager" where
  "Remove tid m = m\<lparr>Transfers := AList.delete tid (Transfers m)\<rparr>"

definition Get :: "string \<Rightarrow> manager \<Rightarrow> transfer_info option" where
  "Get tid m = map_option Info (map_of (Transfers m) tid)"

definition List :: "manager \<Rightarrow> transfer_info list" where
  "List m = map (Info \<circ> snd) (Transfers m)"

section \<open>Histories of the manager\<close>

text \<open>Every method that changes the manager, as a call; \<open>mgr_step\<close> forgets the result and
  \<open>registered\<close> is the id a \<open>Register\<close> returns.\<close>

datatype call =
  CRegister int Direction string string string int bool bool bool
| CSetStatus string Status string
| CUpdateProgress int string int int int
| CCancel string
| CPause string
| CResume string
| CSetOutputDir string string
| CSetSize string int
| CSetDEK string "byte list"
| CComplete string
| CRemove string

primrec mgr_step :: "call \<Rightarrow> manager \<Rightarrow> manager" where
  "mgr_step (CRegister now d k n p s i e pub) m = snd (snd (Register now d k n p s i e pub m))"
| "mgr_step (CSetStatus tid st e) m = SetStatus tid st e m"
| "mgr_step (CUpdateProgress now tid c t b) m = UpdateProgress now tid c t b m"
| "mgr_step (CCancel tid) m = snd (Cancel tid m)"
| "mgr_step (CPause tid) m = snd (Pause tid m)"
| "mgr_step (CResume tid) m = snd (Resume tid m)"
| "mgr_step (CSetOutputDir tid d) m = SetOutputDir tid d m"
| "mgr_step (CSetSize tid s) m = SetSize tid s m"
| "mgr_step (CSetDEK tid k) m = SetDEK tid k m"
| "mgr_step (CComplete tid) m = Complete tid m"
| "mgr_step (CRemove tid) m = Remove tid m"

fun is_register :: "call \<Rightarrow> bool" where
  "is_register (CRegister now d k n p s i e pub) \<longleftrightarrow> True"
| "is_register _ \<longleftrightarrow> False"

definition runs :: "call list \<Rightarrow> manager" where
  "runs cs = fold mgr_step cs NewManager"


text \<open>The ids handed out along a history.\<close>

fun ids_from :: "call list \<Rightarrow> manager \<Rightarrow> string list" where
  "ids_from [] m = []"
| "ids_from (CRegister now d k n p s i e pub # cs) m =
     (let (tid, ctx, m') = Register now d k n p s i e pub m in tid # ids_from cs m')"
| "ids_from (c # cs) m = ids_from cs (mgr_step c m)"

section \<open>The invariant\<close>

lemma format_id_inject [simp]: "format_id a = format_id b \<longleftrightarrow> a = b"
proof -
  have "unat c < 256 ^ 4" for c :: uint32 using unsigned_less [of c] by simp
  then have "be_nat (be_bytes 4 (unat c)) = unat c" for c :: uint32
    by (subst be_nat_be_bytes) simp
  then show ?thesis unfolding format_id_def hex_encode_inject by (metis word_unat_eq_iff)
qed

text \<open>After \<open>n\<close> registrations: an entry is filed under its own id, which is one of the \<open>n\<close> ids handed
  out, and the contexts of the entries are distinct and were handed out before.\<close>

definition entry_ok :: "nat \<Rightarrow> nat \<Rightarrow> string \<Rightarrow> tracked_transfer \<Rightarrow> bool" where
  "entry_ok n c tid t \<longleftrightarrow>
     TID (Info t) = tid \<and> cancel t < c \<and> (\<exists>k. 1 \<le> k \<and> k \<le> n \<and> tid = format_id (word_of_nat k))"

definition mgr_ok :: "nat \<Rightarrow> manager \<Rightarrow> bool" where
  "mgr_ok n m \<longleftrightarrow> counter m = word_of_nat n \<and> go_wf (Transfers m) \<and>
     (\<forall>c \<in> set (Cancelled m). c < NextCtx m) \<and>
     (\<forall>tid t. map_of (Transfers m) tid = Some t \<longrightarrow> entry_ok n (NextCtx m) tid t) \<and>
     (\<forall>tid t tid' t'. map_of (Transfers m) tid = Some t \<longrightarrow> map_of (Transfers m) tid' = Some t' \<longrightarrow>
        tid \<noteq> tid' \<longrightarrow> cancel t \<noteq> cancel t')"

lemma mgr_okD:
  assumes "mgr_ok n m" and "map_of (Transfers m) tid = Some t"
  shows "TID (Info t) = tid" and "cancel t < NextCtx m"
    and "map_of (Transfers m) tid' = Some t' \<Longrightarrow> tid' \<noteq> tid \<Longrightarrow> cancel t' \<noteq> cancel t"
  using assms by (auto simp: mgr_ok_def entry_ok_def)

lemma mgr_ok_entry: "mgr_ok n m \<Longrightarrow> map_of (Transfers m) tid = Some t \<Longrightarrow> entry_ok n (NextCtx m) tid t"
  by (simp add: mgr_ok_def)

lemma entry_ok_mono: "entry_ok n c tid t \<Longrightarrow> n \<le> n' \<Longrightarrow> c \<le> c' \<Longrightarrow> entry_ok n' c' tid t"
  unfolding entry_ok_def by (meson le_trans less_le_trans)

lemma mgr_ok_New: "mgr_ok 0 NewManager"
  by (simp add: mgr_ok_def NewManager_def)

lemma mgr_ok_with_entry:
  assumes "mgr_ok n m" and "\<And>t. TID (Info (f t)) = TID (Info t) \<and> cancel (f t) = cancel t"
  shows "mgr_ok n (with_entry tid f m)"
proof (cases "map_of (Transfers m) tid")
  case (Some t)
  then show ?thesis using assms by (auto simp: with_entry_def mgr_ok_def entry_ok_def)
qed (use assms in \<open>simp add: with_entry_def\<close>)

lemma mgr_ok_with_info:
  "mgr_ok n m \<Longrightarrow> (\<And>i. TID (f i) = TID i) \<Longrightarrow> mgr_ok n (with_info tid f m)"
  unfolding with_info_def by (rule mgr_ok_with_entry) simp_all

lemma mgr_ok_fire: "mgr_ok n m \<Longrightarrow> c < NextCtx m \<Longrightarrow> mgr_ok n (fire c m)"
  by (simp add: mgr_ok_def fire_def)

lemma mgr_ok_Remove: "mgr_ok n m \<Longrightarrow> mgr_ok n (Remove tid m)"
  by (auto simp: mgr_ok_def Remove_def)

lemma Register_eq:
  "Register now d k nm p s i e pub m =
    (format_id (counter m + 1), NextCtx m,
     m\<lparr>counter := counter m + 1, NextCtx := NextCtx m + 1, Transfers :=
       AList.update (format_id (counter m + 1))
         \<lparr>Info = \<lparr>TID = format_id (counter m + 1), TDirection = d, TStatus = Queued, TKey = k,
            TName = nm, TSize = s, TIsDir = i, TEncrypted = e, TPublic = pub, TCompleted = 0, TTotal = 0,
            BytesDone = 0, Speed = 0, StartedAt = now, TError = [], FilePath = p, OutputDir = [],
            DEK = []\<rparr>,
          cancel = NextCtx m, lastBytes = 0, lastTime = None\<rparr> (Transfers m)\<rparr>)"
  by (simp add: Register_def WithCancel_def Let_def)

lemma mgr_ok_put:
  assumes "mgr_ok n m" and "n \<le> n'" and "cancel t = NextCtx m" and "entry_ok n' (NextCtx m + 1) tid t"
  shows "mgr_ok n' (m\<lparr>counter := word_of_nat n', NextCtx := NextCtx m + 1,
    Transfers := AList.update tid t (Transfers m)\<rparr>)"
proof -
  have old: "entry_ok n' (NextCtx m + 1) i u" "cancel u \<noteq> NextCtx m"
    if "map_of (Transfers m) i = Some u" for i u
    using entry_ok_mono [OF mgr_ok_entry [OF assms(1) that] assms(2), of "NextCtx m + 1"]
      mgr_okD(2) [OF assms(1) that] by simp_all
  have "\<forall>c \<in> set (Cancelled m). c < NextCtx m + 1" using assms(1) by (auto simp: mgr_ok_def)
  moreover have "cancel u \<noteq> cancel v"
    if "((map_of (Transfers m))(tid \<mapsto> t)) i = Some u" "((map_of (Transfers m))(tid \<mapsto> t)) j = Some v" "i \<noteq> j"
    for i u j v
    using that old(2) [of i u] old(2) [of j v] mgr_okD(3) [OF assms(1), of j v i u] assms(3)
    by (auto split: if_splits)
  ultimately show ?thesis using assms(1,4) old(1) unfolding mgr_ok_def
    by (simp del: One_nat_def)
qed

lemma mgr_ok_Register:
  assumes "mgr_ok n m"
  shows "mgr_ok (Suc n) (snd (snd (Register now d k nm p s i e pub m)))"
proof -
  have c: "counter m + 1 = word_of_nat (Suc n)" using assms by (simp add: mgr_ok_def)
  show ?thesis unfolding Register_eq c snd_conv
    by (rule mgr_ok_put [OF assms]) (auto simp: entry_ok_def simp del: of_nat_Suc)
qed

lemma mgr_ok_Resume: assumes "mgr_ok n m" shows "mgr_ok n (snd (Resume tid m))"
proof (cases "map_of (Transfers m) tid")
  case (Some t)
  define t' where "t' = t\<lparr>Info := (Info t)\<lparr>TStatus := Active, TError := []\<rparr>, cancel := NextCtx m\<rparr>"
  have "entry_ok n (NextCtx m + 1) tid t'"
    using mgr_ok_entry [OF assms Some] by (simp add: entry_ok_def t'_def)
  from mgr_ok_put [OF assms le_refl _ this] assms
  have "mgr_ok n (m\<lparr>NextCtx := NextCtx m + 1, Transfers := AList.update tid t' (Transfers m)\<rparr>)"
    by (simp add: t'_def mgr_ok_def)
  then show ?thesis using assms Some by (simp add: Resume_def WithCancel_def t'_def)
qed (use assms in \<open>simp add: Resume_def\<close>)

lemma mgr_ok_Cancel: "mgr_ok n m \<Longrightarrow> mgr_ok n (snd (Cancel tid m))"
  using mgr_ok_fire [OF mgr_ok_Remove, of n m _ tid] mgr_okD(2) [of n m tid]
  by (auto simp: Cancel_def Remove_def split: option.split)

lemma mgr_ok_Pause: "mgr_ok n m \<Longrightarrow> mgr_ok n (snd (Pause tid m))"
  using mgr_ok_fire [OF mgr_ok_with_info [of n m "\<lambda>i. i\<lparr>TStatus := Paused\<rparr>" tid]] mgr_okD(2) [of n m tid]
  by (auto simp: Pause_def with_info_def with_entry_def split: option.split)

lemma set_progress_keeps [simp]:
  "TID (Info (set_progress now c tt b t)) = TID (Info t)"
  "cancel (set_progress now c tt b t) = cancel t"
  by (simp_all add: set_progress_def update_speed_def Let_def split: option.split)

lemma mgr_ok_step:
  assumes "mgr_ok n m"
  shows "mgr_ok (if is_register c then Suc n else n) (mgr_step c m)"
  using assms
  by (cases c) (simp_all add: mgr_ok_Register mgr_ok_Cancel mgr_ok_Pause mgr_ok_Resume mgr_ok_Remove
      SetStatus_def SetOutputDir_def SetSize_def SetDEK_def Complete_def mgr_ok_with_info
      UpdateProgress_def mgr_ok_with_entry)

lemma mgr_ok_fold:
  "mgr_ok n m \<Longrightarrow> mgr_ok (n + length (filter is_register cs)) (fold mgr_step cs m)"
proof (induction cs arbitrary: n m)
  case (Cons c cs)
  then show ?case using Cons.IH [OF mgr_ok_step [OF Cons.prems, of c]] by (cases "is_register c") simp_all
qed simp

lemma mgr_ok_runs: "mgr_ok (length (filter is_register cs)) (runs cs)"
  using mgr_ok_fold [OF mgr_ok_New, of cs] by (simp add: runs_def)


section \<open>Ids\<close>

lemma ids_from_eq:
  "mgr_ok n m \<Longrightarrow> ids_from cs m =
     map (\<lambda>k. format_id (word_of_nat k)) [Suc n..<Suc (n + length (filter is_register cs))]"
proof (induction cs arbitrary: n m)
  case (Cons c cs)
  note ih = Cons.IH [OF mgr_ok_step [OF Cons.prems, of c]]
  show ?case
  proof (cases "is_register c")
    case True
    then obtain now d k nm p s i e pub where c: "c = CRegister now d k nm p s i e pub"
      by (cases c) auto
    have "counter m + 1 = word_of_nat (Suc n)" using Cons.prems by (simp add: mgr_ok_def)
    then have "ids_from (c # cs) m = format_id (word_of_nat (Suc n)) # ids_from cs (mgr_step c m)"
      by (simp add: c Register_eq del: of_nat_Suc)
    moreover have "[Suc n..<Suc (n + length (filter is_register (c # cs)))] =
        Suc n # [Suc (Suc n)..<Suc (Suc n + length (filter is_register cs))]"
      using True by (simp add: upt_conv_Cons del: upt_Suc)
    ultimately show ?thesis using ih True by (simp del: upt_Suc of_nat_Suc)
  next
    case False
    then have "ids_from (c # cs) m = ids_from cs (mgr_step c m)" by (cases c) simp_all
    then show ?thesis using ih False by simp
  qed
qed simp

lemma word_of_nat_mod: "(word_of_nat j :: uint32) = word_of_nat k \<longleftrightarrow> j mod 2 ^ 32 = k mod 2 ^ 32"
  by (simp add: take_bit_eq_mod word_of_nat_eq_iff)

lemma ids_inj_on: "inj_on (\<lambda>k. word_of_nat k :: uint32) {Suc 0..<Suc n} \<longleftrightarrow> n \<le> 2 ^ 32"
proof
  assume inj: "inj_on (\<lambda>k. word_of_nat k :: uint32) {Suc 0..<Suc n}"
  show "n \<le> 2 ^ 32"
  proof (rule ccontr)
    assume "\<not> n \<le> 2 ^ 32"
    then have "Suc 0 = 2 ^ 32 + Suc 0"
      by (intro inj_onD [OF inj]) (simp_all add: word_of_nat_mod)
    then show False by simp
  qed
next
  assume n: "n \<le> 2 ^ 32"
  show "inj_on (\<lambda>k. word_of_nat k :: uint32) {Suc 0..<Suc n}"
  proof (rule inj_onI)
    fix j k :: nat
    assume jk: "j \<in> {Suc 0..<Suc n}" "k \<in> {Suc 0..<Suc n}"
      and "(word_of_nat j :: uint32) = word_of_nat k"
    then have "j mod 2 ^ 32 = k mod 2 ^ 32" by (simp only: word_of_nat_mod)
    with n jk show "j = k" by (cases "j = 2 ^ 32"; cases "k = 2 ^ 32") auto
  qed
qed

text \<open>The ids \<open>Register\<close> returns along any history of the manager are distinct exactly as long as
  at most \<open>2 ^ 32\<close> transfers have been registered (the counter is a \<open>uint32\<close>); the registry holds
  entries only under ids it has returned, each entry under its own id.\<close>

lemma transfer_ids_unique:
  "(distinct (ids_from cs NewManager) \<longleftrightarrow> length (filter is_register cs) \<le> 2 ^ 32) \<and>
   set (go_keys (Transfers (runs cs))) \<subseteq> set (ids_from cs NewManager) \<and>
   {(tid, t). map_of (Transfers (runs cs)) tid = Some t} \<subseteq> {(tid, t). TID (Info t) = tid}"
proof (intro conjI)
  define n where "n = length (filter is_register cs)"
  have ids: "ids_from cs NewManager = map (\<lambda>k. format_id (word_of_nat k)) [Suc 0..<Suc n]"
    using ids_from_eq [OF mgr_ok_New] by (simp add: n_def del: upt_Suc)
  have "inj_on (\<lambda>k. format_id (word_of_nat k)) {Suc 0..<Suc n} \<longleftrightarrow> n \<le> 2 ^ 32"
    using ids_inj_on [of n] by (simp add: inj_on_def)
  then show "distinct (ids_from cs NewManager) \<longleftrightarrow> length (filter is_register cs) \<le> 2 ^ 32"
    unfolding ids n_def [symmetric] by (simp add: distinct_map del: upt_Suc)
  show "set (go_keys (Transfers (runs cs))) \<subseteq> set (ids_from cs NewManager)"
  proof
    fix tid
    assume "tid \<in> set (go_keys (Transfers (runs cs)))"
    then obtain t where "map_of (Transfers (runs cs)) tid = Some t"
      by (metis map_of_None_keys not_None_eq)
    from mgr_ok_entry [OF mgr_ok_runs this]
    show "tid \<in> set (ids_from cs NewManager)" unfolding ids n_def by (auto simp: entry_ok_def simp del: upt_Suc)
  qed
  show "{(tid, t). map_of (Transfers (runs cs)) tid = Some t} \<subseteq> {(tid, t). TID (Info t) = tid}"
    using mgr_okD(1) [OF mgr_ok_runs] by auto
qed

section \<open>Pausing, resuming and cancelling\<close>

text \<open>C11. In every reachable registry, for a registered transfer: \<open>Cancel\<close> and \<open>Pause\<close> cancel its context
  and leave the context of every other registered transfer as it was; \<open>Resume\<close> succeeds exactly when
  the transfer is paused, and then files it as active, its error cleared, with a context that is not
  cancelled and that no registered transfer has; when it fails nothing changes.\<close>

theorem contexts_follow_lifecycle:
  fixes cs tid
  defines "m \<equiv> runs cs"
  assumes "map_of (Transfers m) tid = Some t"
  shows "cancel t \<in> set (Cancelled (snd (Pause tid m))) \<and> cancel t \<in> set (Cancelled (snd (Cancel tid m))) \<and>
    (\<forall>tid' t'. map_of (Transfers m) tid' = Some t' \<and> tid' \<noteq> tid \<longrightarrow>
      (cancel t' \<in> set (Cancelled (snd (Pause tid m))) \<longleftrightarrow> cancel t' \<in> set (Cancelled m)) \<and>
      (cancel t' \<in> set (Cancelled (snd (Cancel tid m))) \<longleftrightarrow> cancel t' \<in> set (Cancelled m))) \<and>
    (if TStatus (Info t) = Paused then
       \<exists>ctx u. Resume tid m = (Inr ctx, m\<lparr>NextCtx := NextCtx m + 1, Transfers := AList.update tid u (Transfers m)\<rparr>) \<and>
         cancel u = ctx \<and> TStatus (Info u) = Active \<and> TError (Info u) = [] \<and>
         ctx \<notin> set (Cancelled m) \<and> ctx \<notin> cancel ` snd ` set (Transfers m)
     else Resume tid m = (Inl (NotPaused tid (Status_String (TStatus (Info t)))), m))"
proof (intro conjI allI impI)
  have ok: "mgr_ok (length (filter is_register cs)) m" unfolding m_def by (rule mgr_ok_runs)
  show "cancel t \<in> set (Cancelled (snd (Pause tid m)))" and "cancel t \<in> set (Cancelled (snd (Cancel tid m)))"
    using assms(2) by (simp_all add: Pause_def Cancel_def fire_def)
  fix tid' t'
  assume other: "map_of (Transfers m) tid' = Some t' \<and> tid' \<noteq> tid"
  then have "cancel t' \<noteq> cancel t" using mgr_okD(3) [OF ok assms(2)] by blast
  then show "cancel t' \<in> set (Cancelled (snd (Pause tid m))) \<longleftrightarrow> cancel t' \<in> set (Cancelled m)"
    and "cancel t' \<in> set (Cancelled (snd (Cancel tid m))) \<longleftrightarrow> cancel t' \<in> set (Cancelled m)"
    using assms(2) by (simp_all add: Pause_def Cancel_def fire_def)
next
  have ok: "mgr_ok (length (filter is_register cs)) m" unfolding m_def by (rule mgr_ok_runs)
  then have fresh: "NextCtx m \<notin> set (Cancelled m)" by (auto simp: mgr_ok_def)
  have "NextCtx m \<notin> cancel ` snd ` set (Transfers m)"
  proof
    assume "NextCtx m \<in> cancel ` snd ` set (Transfers m)"
    then obtain i u where "(i, u) \<in> set (Transfers m)" and u: "cancel u = NextCtx m" by auto
    then have "map_of (Transfers m) i = Some u" using ok by (simp add: mgr_ok_def)
    from mgr_okD(2) [OF ok this] u show False by simp
  qed
  with fresh assms(2) show "if TStatus (Info t) = Paused then
       \<exists>ctx u. Resume tid m = (Inr ctx, m\<lparr>NextCtx := NextCtx m + 1, Transfers := AList.update tid u (Transfers m)\<rparr>) \<and>
         cancel u = ctx \<and> TStatus (Info u) = Active \<and> TError (Info u) = [] \<and>
         ctx \<notin> set (Cancelled m) \<and> ctx \<notin> cancel ` snd ` set (Transfers m)
     else Resume tid m = (Inl (NotPaused tid (Status_String (TStatus (Info t)))), m)"
    by (auto simp: Resume_def WithCancel_def
        intro!: exI [of _ "t\<lparr>Info := (Info t)\<lparr>TStatus := Active, TError := []\<rparr>, cancel := NextCtx m\<rparr>"])
qed

theorem contexts_follow_lifecycle_witness:
  "\<exists>ctx (u :: tracked_transfer). fst (Resume ''00000001'' (runs [CRegister 0 Download ''k'' ''n'' ''p'' 5 False False False,
     CPause ''00000001''])) = Inr ctx \<and> cancel u = ctx \<and> TStatus (Info u) = Active"
proof -
  let ?m = "runs [CRegister 0 Download ''k'' ''n'' ''p'' 5 False False False, CPause ''00000001'']"
  have id1: "format_id 1 = ''00000001''" by code_simp
  have "\<exists>t. map_of (Transfers ?m) ''00000001'' = Some t \<and> TStatus (Info t) = Paused"
    by (simp add: runs_def Register_eq NewManager_def Pause_def fire_def id1)
  then obtain t where t: "map_of (Transfers ?m) ''00000001'' = Some t" "TStatus (Info t) = Paused" by blast
  obtain ctx u where "Resume ''00000001'' ?m =
      (Inr ctx, ?m\<lparr>NextCtx := NextCtx ?m + 1, Transfers := AList.update ''00000001'' u (Transfers ?m)\<rparr>)"
      and u: "cancel u = ctx" "TStatus (Info u) = Active"
    using contexts_follow_lifecycle [OF t(1)] unfolding if_P [OF t(2)] by blast
  then have "fst (Resume ''00000001'' ?m) = Inr ctx" by (simp only: fst_conv)
  with u show ?thesis by blast
qed

text \<open>\<open>Pause\<close> does not look at the status, so a transfer that has completed can be paused and resumed.\<close>

lemma completed_can_be_resumed:
  assumes "map_of (Transfers m) tid = Some t"
  shows "\<exists>ctx m'. Resume tid (snd (Pause tid (Complete tid m))) = (Inr ctx, m')"
  using assms by (simp add: Complete_def with_info_def with_entry_def Pause_def fire_def Resume_def WithCancel_def)


section \<open>The displayed speed\<close>

text \<open>One progress report \<open>(now, completed, total, bytesDone)\<close> per element; \<open>steady R t0 b0\<close> says that
  between any two reports, from time \<open>t0\<close> with \<open>b0\<close> bytes on, the clock and the byte count do not go
  back and the throughput is at most \<open>R\<close> bytes per second.\<close>

type_synonym report = "int \<times> int \<times> int \<times> int"

fun steady :: "real \<Rightarrow> int \<Rightarrow> int \<Rightarrow> report list \<Rightarrow> bool" where
  "steady R t0 b0 [] \<longleftrightarrow> True"
| "steady R t0 b0 ((now, c, tt, b) # rs) \<longleftrightarrow>
     t0 \<le> now \<and> b0 \<le> b \<and> of_int (b - b0) \<le> R * seconds (now - t0) \<and> steady R now b rs"

fun reports :: "string \<Rightarrow> report list \<Rightarrow> manager \<Rightarrow> manager" where
  "reports tid [] m = m"
| "reports tid ((now, c, tt, b) # rs) m = reports tid rs (UpdateProgress now tid c tt b m)"

definition speed_ok :: "real \<Rightarrow> int \<Rightarrow> int \<Rightarrow> tracked_transfer \<Rightarrow> bool" where
  "speed_ok R now b t \<longleftrightarrow> BytesDone (Info t) = b \<and> 0 \<le> Speed (Info t) \<and> Speed (Info t) \<le> R \<and>
     (case lastTime t of
        None \<Rightarrow> StartedAt (Info t) \<le> now \<and> 0 \<le> b \<and> of_int b \<le> R * seconds (now - StartedAt (Info t))
      | Some lt \<Rightarrow> lt \<le> now \<and> lastBytes t \<le> b \<and> of_int (b - lastBytes t) \<le> R * seconds (now - lt))"

lemma seconds_add: "R * seconds (a - b) + R * seconds (c - a) = R * seconds (c - b)"
  by (simp add: seconds_def algebra_simps add_divide_distrib diff_divide_distrib)

lemma seconds_mono: "a \<le> b \<Longrightarrow> seconds a \<le> seconds b"
  by (simp add: seconds_def divide_right_mono)

text \<open>An instant rate over an interval with at most \<open>R\<close> bytes per second lies in \<open>[0, R]\<close>, and the
  moving average of two such rates does too.\<close>

lemma instant_rate:
  assumes "0 < dt" and "0 \<le> d" and "d \<le> R * dt"
  shows "0 \<le> d / dt \<and> d / dt \<le> (R :: real)"
  using assms by (simp add: pos_divide_le_eq)

lemma ewma_between:
  assumes "0 \<le> x" and "x \<le> R" and "0 \<le> y" and "y \<le> (R :: real)"
  shows "0 \<le> 3 / 10 * x + (1 - 3 / 10) * y \<and> 3 / 10 * x + (1 - 3 / 10) * y \<le> R"
  using assms by (simp add: field_simps)

lemma speed_ok_step:
  assumes "speed_ok R t0 b0 t" and "t0 \<le> now" and "b0 \<le> b" and "of_int (b - b0) \<le> R * seconds (now - t0)"
  shows "speed_ok R now b (set_progress now c tt b t)"
proof (cases "lastTime t")
  case None
  let ?dt = "seconds (now - StartedAt (Info t))"
  have "0 \<le> b" "of_int b \<le> R * ?dt" "StartedAt (Info t) \<le> now"
    using assms None seconds_add [of R t0 "StartedAt (Info t)" now] by (simp_all add: speed_ok_def)
  then have "0 < ?dt \<Longrightarrow> 0 \<le> of_int b / ?dt \<and> of_int b / ?dt \<le> R" by (intro instant_rate) simp_all
  then show ?thesis using assms(1) None
    by (simp add: speed_ok_def set_progress_def update_speed_def Let_def seconds_def)
next
  case (Some lt)
  let ?dt = "seconds (now - lt)" and ?d = "of_int (b - lastBytes t) :: real"
  have d: "0 \<le> ?d" "?d \<le> R * ?dt" "lt \<le> now"
    using assms Some seconds_add [of R t0 lt now] by (simp_all add: speed_ok_def)
  show ?thesis
  proof (cases "?dt > 1 / 2")
    case True
    with d have r: "0 \<le> ?d / ?dt \<and> ?d / ?dt \<le> R" by (intro instant_rate) simp_all
    then show ?thesis
      using assms(1) Some True ewma_between [of "?d / ?dt" R "Speed (Info t)"]
      by (auto simp: speed_ok_def set_progress_def update_speed_def Let_def seconds_def [of 0])
  next
    case False
    then show ?thesis using assms(1) Some d
      by (simp add: speed_ok_def set_progress_def update_speed_def Let_def)
  qed
qed

lemma reports_speed:
  assumes "map_of (Transfers m) tid = Some t" and "speed_ok R t0 b0 t" and "steady R t0 b0 rs"
  shows "\<exists>i. Get tid (reports tid rs m) = Some i \<and> 0 \<le> Speed i \<and> Speed i \<le> R \<and>
    BytesDone i = last (b0 # map (\<lambda>(now, c, tt, b). b) rs)"
  using assms
proof (induction rs arbitrary: m t t0 b0)
  case Nil
  then show ?case by (simp add: Get_def speed_ok_def)
next
  case (Cons r rs)
  obtain now c tt b where r: "r = (now, c, tt, b)" by (metis prod.exhaust)
  have "map_of (Transfers (UpdateProgress now tid c tt b m)) tid = Some (set_progress now c tt b t)"
    using Cons.prems(1) by (simp add: UpdateProgress_def with_entry_def)
  moreover have "speed_ok R now b (set_progress now c tt b t)"
    using Cons.prems(2,3) by (intro speed_ok_step [of R t0 b0]) (simp_all add: r)
  ultimately show ?case using Cons.IH [of "UpdateProgress now tid c tt b m"] Cons.prems(3) by (simp add: r)
qed

text \<open>The speed shown for a transfer that is registered at \<open>t0\<close> and reports its progress, with a
  clock and byte counts that do not go back and a throughput of at most \<open>R\<close> bytes per second, is never
  negative and never above \<open>R\<close>, whichever reports the half-second rule skips; the bytes shown are those
  of the last report.\<close>

lemma speed_within_observed_rates:
  assumes "0 \<le> R" and "steady R t0 0 rs" and "Register t0 d k nm p s i e pub m = (tid, ctx, m1)"
  shows "\<exists>info. Get tid (reports tid rs m1) = Some info \<and> 0 \<le> Speed info \<and> Speed info \<le> R \<and>
    BytesDone info = last (0 # map (\<lambda>(now, c, tt, b). b) rs)"
proof -
  have "\<exists>t. map_of (Transfers m1) tid = Some t \<and> speed_ok R t0 0 t"
    using assms(1,3) by (auto simp: Register_eq speed_ok_def seconds_def)
  then obtain t where t: "map_of (Transfers m1) tid = Some t" "speed_ok R t0 0 t" by blast
  show ?thesis by (rule reports_speed [OF t assms(2)])
qed

theorem speed_within_observed_rates_witness:
  "\<exists>tid ctx m1 info. Register 0 Upload [] [] [] 9 False False False NewManager = (tid, ctx, m1) \<and>
     Get tid (reports tid [(10 ^ 9, 1, 3, 100), (2 * 10 ^ 9, 2, 3, 150)] m1) = Some info \<and>
     0 \<le> Speed info \<and> Speed info \<le> 100 \<and> BytesDone info = 150"
proof -
  obtain tid ctx m1 where r: "Register 0 Upload [] [] [] 9 False False False NewManager = (tid, ctx, m1)"
    by (metis prod.exhaust)
  have "steady 100 0 0 [(10 ^ 9, 1, 3, 100), (2 * 10 ^ 9, 2, 3, 150)]" by (simp add: seconds_def)
  from speed_within_observed_rates [OF _ this r] r show ?thesis by simp
qed

end
