(* ===== verification/DirDownload.thy ===== *)
theory DirDownload
  imports FileDownload
begin

text \<open>
  \<open>DownloadDirectory\<close> of \<open>Server/downloader/downloader.go\<close>: the chunks of all files form one queue that
  workers drain, and failed chunks are retried in further rounds. A round is given the order in which
  its tasks finish (\<open>order\<close>); \<open>res r i ci\<close> is what \<open>fetchAndVerifyChunk\<close> returns in round \<open>r\<close> for chunk
  \<open>ci\<close> of file \<open>i\<close>, \<open>wr\<close> says which writes succeed, \<open>finalize i\<close> whether the callback \<open>OnFinalize\<close> of
  file \<open>i\<close> does, and \<open>cancelled r\<close> whether the context is cancelled before round \<open>r\<close>.
\<close>

record file_context =
  FFileKey :: string
  FRelativePath :: string
  FChunkSize :: int
  FChunks :: "chunk_info list"
  FWriter :: "byte list"
  FSkipSet :: "int list"
  FTotalChunks :: int
  FRemaining :: int
  FErrors :: "dl_error option list"
  FFinalizeOnce :: bool
  FFinalizeErr :: bool
  FRecorded :: "(int \<times> string) list"

record chunk_task =
  tfile :: nat
  tinfo :: chunk_info
  tattempt :: nat

record dir_result =
  Succeeded :: nat
  FailedCount :: nat
  FailedFiles :: "string list"

record dir_state =
  files :: "file_context list"
  failedTasks :: "chunk_task list"
  chunksCompleted :: int
  filesCompleted :: int
  dir_progress :: "(int \<times> int \<times> int \<times> int) list"

definition recordError :: "int \<Rightarrow> dl_error option \<Rightarrow> file_context \<Rightarrow> file_context" where
  "recordError idx e fc =
     (if 0 \<le> idx \<and> idx < int (length (FErrors fc)) then fc\<lparr>FErrors := (FErrors fc)[nat idx := e]\<rparr> else fc)"

definition InitErrors :: "nat \<Rightarrow> file_context \<Rightarrow> file_context" where
  "InitErrors n fc = fc\<lparr>FErrors := replicate n None\<rparr>"

definition on_file :: "nat \<Rightarrow> (file_context \<Rightarrow> file_context) \<Rightarrow> dir_state \<Rightarrow> dir_state" where
  "on_file i f st = st\<lparr>files := (files st)[i := f (files st ! i)]\<rparr>"

definition task_failed :: "chunk_task \<Rightarrow> dl_error \<Rightarrow> dir_state \<Rightarrow> dir_state" where
  "task_failed t e st =
     (let st = on_file (tfile t) (recordError (IIndex (tinfo t)) (Some e)) st
      in st\<lparr>failedTasks := failedTasks st @ [t\<lparr>tattempt := tattempt t + 1\<rparr>]\<rparr>)"

text \<open>What happens to the file of a chunk that has been fetched and written.\<close>

definition chunk_done :: "chunk_info \<Rightarrow> nat \<Rightarrow> byte list \<Rightarrow> bool \<Rightarrow> file_context \<Rightarrow> file_context" where
  "chunk_done ci offset plain fin_ok fc =
     (let fc = fc\<lparr>FWriter := write_at offset plain (FWriter fc)\<rparr>;
          fc = recordError (IIndex ci) None fc;
          fc = fc\<lparr>FRecorded := FRecorded fc @ [(IIndex ci, IHash ci)], FRemaining := FRemaining fc - 1\<rparr>
      in if FRemaining fc = 0 \<and> \<not> FFinalizeOnce fc then fc\<lparr>FFinalizeOnce := True, FFinalizeErr := \<not> fin_ok\<rparr>
         else fc)"

definition run_task ::
  "(nat \<Rightarrow> nat \<Rightarrow> chunk_info \<Rightarrow> dl_error + byte list) \<Rightarrow> (nat \<Rightarrow> nat \<Rightarrow> chunk_info \<Rightarrow> bool) \<Rightarrow> (nat \<Rightarrow> bool)
    \<Rightarrow> int \<Rightarrow> nat \<Rightarrow> chunk_task \<Rightarrow> dir_state \<Rightarrow> dir_state" where
  "run_task res wr finalize totalChunks rnd t st =
     (let i = tfile t; ci = tinfo t; fc = files st ! i
      in case res rnd i ci of
           Inl e \<Rightarrow> task_failed t e st
         | Inr plain \<Rightarrow>
             (let offset = i64 (IIndex ci * FChunkSize fc)
              in if offset < 0 \<or> \<not> wr rnd i ci then task_failed t (WriteAtFail i offset) st
                 else
                   (let last_chunk = (FRemaining fc - 1 = 0 \<and> \<not> FFinalizeOnce fc);
                        st = on_file i (chunk_done ci (nat offset) plain (finalize i)) st;
                        st = st\<lparr>chunksCompleted := chunksCompleted st + 1,
                                filesCompleted := filesCompleted st + (if last_chunk \<and> finalize i then 1 else 0)\<rparr>
                    in st\<lparr>dir_progress := dir_progress st @
                           [(filesCompleted st, int (length (files st)), chunksCompleted st, totalChunks)]\<rparr>)))"

fun dir_rounds ::
  "(nat \<Rightarrow> nat \<Rightarrow> chunk_info \<Rightarrow> dl_error + byte list) \<Rightarrow> (nat \<Rightarrow> nat \<Rightarrow> chunk_info \<Rightarrow> bool) \<Rightarrow> (nat \<Rightarrow> bool)
    \<Rightarrow> (nat \<Rightarrow> bool) \<Rightarrow> (nat \<Rightarrow> chunk_task list \<Rightarrow> chunk_task list) \<Rightarrow> int \<Rightarrow> nat \<Rightarrow> nat \<Rightarrow> chunk_task list
    \<Rightarrow> dir_state \<Rightarrow> dir_state" where
  "dir_rounds res wr finalize cancelled order totalChunks 0 rnd tasks st = st"
| "dir_rounds res wr finalize cancelled order totalChunks (Suc left) rnd tasks st =
     (if tasks = [] \<or> cancelled rnd then st
      else
        (let st = fold (run_task res wr finalize totalChunks rnd) (order rnd tasks) (st\<lparr>failedTasks := []\<rparr>)
         in dir_rounds res wr finalize cancelled order totalChunks left (rnd + 1) (failedTasks st) st))"

definition file_tasks :: "nat \<Rightarrow> file_context \<Rightarrow> chunk_task list" where
  "file_tasks i fc =
     map (\<lambda>ci. \<lparr>tfile = i, tinfo = ci, tattempt = 0\<rparr>) (filter (\<lambda>ci. IIndex ci \<notin> set (FSkipSet fc)) (FChunks fc))"

definition all_tasks :: "file_context list \<Rightarrow> chunk_task list" where
  "all_tasks fcs = concat (map (\<lambda>(i, fc). file_tasks i fc) (enumerate 0 fcs))"

definition file_failed :: "file_context \<Rightarrow> bool" where
  "file_failed fc \<longleftrightarrow> FRemaining fc > 0 \<or> FFinalizeErr fc"

definition collect_results :: "file_context list \<Rightarrow> dir_result" where
  "collect_results fcs =
     \<lparr>Succeeded = length (filter (\<lambda>fc. \<not> file_failed fc) fcs), FailedCount = length (filter file_failed fcs),
      FailedFiles = map FRelativePath (filter file_failed fcs)\<rparr>"

text \<open>The counters of finished files and chunks are \<open>int32\<close> in the code; here they do not wrap. The result is
  counted from the file contexts and does not use them.\<close>

definition DownloadDirectory ::
  "config \<Rightarrow> (byte list \<Rightarrow> byte list) \<Rightarrow> (nat \<Rightarrow> nat \<Rightarrow> chunk_info \<Rightarrow> dl_env \<times> selector) \<Rightarrow>
    (nat \<Rightarrow> nat \<Rightarrow> chunk_info \<Rightarrow> bool) \<Rightarrow> (nat \<Rightarrow> bool) \<Rightarrow> (nat \<Rightarrow> bool) \<Rightarrow>
    (nat \<Rightarrow> chunk_task list \<Rightarrow> chunk_task list) \<Rightarrow> file_context list \<Rightarrow> byte list option \<Rightarrow> dir_result \<times> dir_state" where
  "DownloadDirectory cfg sha256 meet wr finalize cancelled order fcs dek =
     (let totalChunks = sum_list (map FTotalChunks fcs);
          alreadyDone = sum_list (map (\<lambda>fc. int (length (FSkipSet fc))) fcs);
          filesTotal = int (length fcs);
          res = (\<lambda>r i ci. fst (fetchAndVerifyChunk cfg sha256 (fst (meet r i ci)) (FFileKey (fcs ! i)) ci dek
                   (snd (meet r i ci))));
          st = \<lparr>files = fcs, failedTasks = [], chunksCompleted = alreadyDone, filesCompleted = 0,
                dir_progress = (if alreadyDone > 0 then [(0, filesTotal, alreadyDone, totalChunks)] else [])\<rparr>;
          st = dir_rounds res wr finalize cancelled order totalChunks (nat (MaxRetries cfg + 1)) 0 (all_tasks fcs) st
      in (collect_results (files st),
          st\<lparr>dir_progress := dir_progress st @ [(filesCompleted st, filesTotal, chunksCompleted st, totalChunks)]\<rparr>))"

section \<open>Counting the chunks that are left\<close>

definition pend :: "nat \<Rightarrow> chunk_task list \<Rightarrow> nat" where
  "pend i ts = length (filter (\<lambda>t. tfile t = i) ts)"

lemma pend_simps [simp]:
  "pend i [] = 0" "pend i (t # ts) = of_bool (tfile t = i) + pend i ts" "pend i (ts @ us) = pend i ts + pend i us"
  by (simp_all add: pend_def)

lemma pend_mset: "mset ts = mset us \<Longrightarrow> pend i ts = pend i us"
  unfolding pend_def by (metis mset_filter size_mset)

text \<open>The fate of a chunk in one round.\<close>

definition task_ok ::
  "(nat \<Rightarrow> nat \<Rightarrow> chunk_info \<Rightarrow> dl_error + byte list) \<Rightarrow> (nat \<Rightarrow> nat \<Rightarrow> chunk_info \<Rightarrow> bool) \<Rightarrow> file_context list
    \<Rightarrow> nat \<Rightarrow> nat \<Rightarrow> chunk_info \<Rightarrow> bool" where
  "task_ok res wr fcs r i ci \<longleftrightarrow>
     (\<exists>plain. res r i ci = Inr plain) \<and> 0 \<le> i64 (IIndex ci * FChunkSize (fcs ! i)) \<and> wr r i ci"

text \<open>With the tasks \<open>todo\<close> still to run in this round, a file has as many chunks left as it has tasks to
  do or failed, and it has been finalized exactly if it had tasks and has none left.\<close>

definition file_inv :: "(nat \<Rightarrow> bool) \<Rightarrow> file_context list \<Rightarrow> chunk_task list \<Rightarrow> nat \<Rightarrow> file_context \<Rightarrow> bool" where
  "file_inv finalize fcs left i fc \<longleftrightarrow>
     FRelativePath fc = FRelativePath (fcs ! i) \<and> FChunkSize fc = FChunkSize (fcs ! i) \<and>
     FRemaining fc = int (pend i left) \<and>
     (FFinalizeOnce fc \<longleftrightarrow> pend i left = 0 \<and> pend i (all_tasks fcs) \<noteq> 0) \<and>
     (FFinalizeErr fc \<longleftrightarrow> FFinalizeOnce fc \<and> \<not> finalize i)"

definition dir_inv :: "(nat \<Rightarrow> bool) \<Rightarrow> file_context list \<Rightarrow> chunk_task list \<Rightarrow> dir_state \<Rightarrow> bool" where
  "dir_inv finalize fcs todo st \<longleftrightarrow> length (files st) = length fcs \<and>
     (\<forall>i < length fcs. file_inv finalize fcs (todo @ failedTasks st) i (files st ! i)) \<and>
     (\<forall>t \<in> set (todo @ failedTasks st). tfile t < length fcs \<and> pend (tfile t) (all_tasks fcs) \<noteq> 0)"

lemma file_inv_cong:
  "file_inv finalize fcs ts i fc \<Longrightarrow> pend i us = pend i ts \<Longrightarrow> file_inv finalize fcs us i fc"
  by (simp add: file_inv_def)

lemma recordError_sel [simp]:
  "FRelativePath (recordError k e fc) = FRelativePath fc" "FChunkSize (recordError k e fc) = FChunkSize fc"
  "FRemaining (recordError k e fc) = FRemaining fc" "FFinalizeOnce (recordError k e fc) = FFinalizeOnce fc"
  "FFinalizeErr (recordError k e fc) = FFinalizeErr fc" "FWriter (recordError k e fc) = FWriter fc"
  by (simp_all add: recordError_def)

lemma file_inv_error: "file_inv finalize fcs ts i (recordError k e fc) = file_inv finalize fcs ts i fc"
  by (simp add: file_inv_def)

lemma file_inv_done:
  assumes "file_inv finalize fcs (t # ts) i fc" and "tfile t = i" and "pend i (all_tasks fcs) \<noteq> 0"
  shows "file_inv finalize fcs ts i (chunk_done ci off plain (finalize i) fc)"
  using assms by (auto simp: file_inv_def chunk_done_def Let_def)

lemma dir_inv_step:
  assumes inv: "dir_inv finalize fcs (t # todo) st"
  shows "dir_inv finalize fcs todo (run_task res wr finalize total_chunks r t st) \<and>
    failedTasks (run_task res wr finalize total_chunks r t st) = failedTasks st @
      (if task_ok res wr fcs r (tfile t) (tinfo t) then [] else [t\<lparr>tattempt := tattempt t + 1\<rparr>])"
proof -
  let ?i = "tfile t" and ?fc = "files st ! tfile t"
  let ?t = "t\<lparr>tattempt := tattempt t + 1\<rparr>"
  have i: "?i < length fcs" "pend ?i (all_tasks fcs) \<noteq> 0" "length (files st) = length fcs"
    using inv by (auto simp: dir_inv_def)
  have fi: "file_inv finalize fcs (t # todo @ failedTasks st) j (files st ! j)" if "j < length fcs" for j
    using inv that by (simp add: dir_inv_def)
  have size: "FChunkSize ?fc = FChunkSize (fcs ! ?i)" using fi [OF i(1)] by (simp add: file_inv_def)
  have fail: "dir_inv finalize fcs todo (task_failed t e st) \<and>
      failedTasks (task_failed t e st) = failedTasks st @ [?t]" for e
  proof -
    have "file_inv finalize fcs (todo @ failedTasks st @ [?t]) j
        ((files st)[?i := recordError (IIndex (tinfo t)) (Some e) ?fc] ! j)" if "j < length fcs" for j
      using file_inv_cong [OF fi [OF that], of "todo @ failedTasks st @ [?t]"] that i(3)
      by (cases "j = ?i") (simp_all add: file_inv_error)
    then show ?thesis using inv by (auto simp: dir_inv_def task_failed_def on_file_def Let_def)
  qed
  show ?thesis
  proof (cases "task_ok res wr fcs r ?i (tinfo t)")
    case False
    then have "\<exists>e. run_task res wr finalize total_chunks r t st = task_failed t e st"
      by (auto simp: run_task_def task_ok_def size Let_def split: sum.split)
    then show ?thesis using fail False by auto
  next
    case True
    then obtain plain where p: "res r ?i (tinfo t) = Inr plain" "wr r ?i (tinfo t)"
        "\<not> i64 (IIndex (tinfo t) * FChunkSize (fcs ! ?i)) < 0"
      by (auto simp: task_ok_def)
    define off where "off = nat (i64 (IIndex (tinfo t) * FChunkSize (fcs ! ?i)))"
    let ?st = "run_task res wr finalize total_chunks r t st"
    have st: "files ?st = (files st)[?i := chunk_done (tinfo t) off plain (finalize ?i) ?fc]"
        "failedTasks ?st = failedTasks st"
      using p by (simp_all add: run_task_def size on_file_def Let_def off_def)
    have "file_inv finalize fcs (todo @ failedTasks st) j (files ?st ! j)" if j: "j < length fcs" for j
    proof (cases "j = ?i")
      case True
      then show ?thesis using file_inv_done [OF fi [OF j]] i st by simp
    next
      case False
      then show ?thesis using file_inv_cong [OF fi [OF j], of "todo @ failedTasks st"] st by simp
    qed
    then show ?thesis using inv st True by (simp add: dir_inv_def)
  qed
qed


definition retry :: "chunk_task \<Rightarrow> chunk_task" where
  "retry t = t\<lparr>tattempt := tattempt t + 1\<rparr>"

lemma retry_sel [simp]: "tfile (retry t) = tfile t" "tinfo (retry t) = tinfo t"
  by (simp_all add: retry_def)

lemma dir_inv_round:
  assumes "dir_inv finalize fcs (ts @ todo) st"
  shows "dir_inv finalize fcs todo (fold (run_task res wr finalize total_chunks r) ts st) \<and>
    failedTasks (fold (run_task res wr finalize total_chunks r) ts st) =
      failedTasks st @ map retry (filter (\<lambda>t. \<not> task_ok res wr fcs r (tfile t) (tinfo t)) ts)"
  using assms
proof (induction ts arbitrary: st)
  case (Cons t ts)
  have "dir_inv finalize fcs (t # (ts @ todo)) st" using Cons.prems by simp
  from dir_inv_step [OF this, of res wr total_chunks r] Cons.IH
  show ?case by (auto simp: retry_def)
qed simp

text \<open>A chunk still fails after the rounds from \<open>r\<close> to \<open>r + k\<close>.\<close>

definition fails_all ::
  "(nat \<Rightarrow> nat \<Rightarrow> chunk_info \<Rightarrow> dl_error + byte list) \<Rightarrow> (nat \<Rightarrow> nat \<Rightarrow> chunk_info \<Rightarrow> bool) \<Rightarrow> file_context list
    \<Rightarrow> nat \<Rightarrow> nat \<Rightarrow> chunk_task \<Rightarrow> bool" where
  "fails_all res wr fcs r k t \<longleftrightarrow> (\<forall>j. r \<le> j \<longrightarrow> j < r + k \<longrightarrow> \<not> task_ok res wr fcs j (tfile t) (tinfo t))"

lemma fails_all_Suc:
  "fails_all res wr fcs r (Suc k) t \<longleftrightarrow>
     \<not> task_ok res wr fcs r (tfile t) (tinfo t) \<and> fails_all res wr fcs (Suc r) k t"
proof -
  have "r \<le> j \<and> j < r + Suc k \<longleftrightarrow> j = r \<or> Suc r \<le> j \<and> j < Suc r + k" for j by auto
  then have "fails_all res wr fcs r (Suc k) t \<longleftrightarrow>
      (\<forall>j. j = r \<or> Suc r \<le> j \<and> j < Suc r + k \<longrightarrow> \<not> task_ok res wr fcs j (tfile t) (tinfo t))"
    unfolding fails_all_def by (metis (no_types))
  then show ?thesis unfolding fails_all_def by auto
qed

lemma fails_all_retry [simp]: "fails_all res wr fcs r k (retry t) = fails_all res wr fcs r k t"
  by (simp add: fails_all_def)

lemma pend_filter_map_retry: "pend i (filter (fails_all res wr fcs r k) (map retry ts)) = pend i (filter (fails_all res wr fcs r k) ts)"
  by (induction ts) auto

lemma dir_rounds_spec:
  assumes "\<And>r ts. mset (order r ts) = mset ts" and "\<And>r. \<not> cancelled r"
    and "dir_inv finalize fcs tasks (st\<lparr>failedTasks := []\<rparr>)"
  shows "length (files (dir_rounds res wr finalize cancelled order total_chunks k r tasks st)) = length fcs \<and>
    (\<forall>i < length fcs. file_inv finalize fcs (filter (fails_all res wr fcs r k) tasks) i
       (files (dir_rounds res wr finalize cancelled order total_chunks k r tasks st) ! i))"
  using assms(3)
proof (induction k arbitrary: r tasks st)
  case 0
  then show ?case by (simp add: dir_inv_def fails_all_def)
next
  case (Suc k)
  show ?case
  proof (cases "tasks = []")
    case True
    then show ?thesis using Suc.prems by (simp add: dir_inv_def)
  next
    case False
    let ?st = "fold (run_task res wr finalize total_chunks r) (order r tasks) (st\<lparr>failedTasks := []\<rparr>)"
    have perm: "mset (order r tasks) = mset tasks" by (rule assms(1))
    have "dir_inv finalize fcs (order r tasks @ []) (st\<lparr>failedTasks := []\<rparr>)"
      using Suc.prems pend_mset [OF perm] mset_eq_setD [OF perm]
      by (auto simp: dir_inv_def intro: file_inv_cong)
    from dir_inv_round [OF this, of res wr total_chunks r]
    have inv: "dir_inv finalize fcs [] ?st"
      and ft: "failedTasks ?st = map retry (filter (\<lambda>t. \<not> task_ok res wr fcs r (tfile t) (tinfo t)) (order r tasks))"
      by simp_all
    have "dir_inv finalize fcs (failedTasks ?st) (?st\<lparr>failedTasks := []\<rparr>)" using inv by (simp add: dir_inv_def)
    note IH = Suc.IH [OF this, of "Suc r"]
    have eq: "dir_rounds res wr finalize cancelled order total_chunks (Suc k) r tasks st =
        dir_rounds res wr finalize cancelled order total_chunks k (Suc r) (failedTasks ?st) ?st"
      using False assms(2) by (simp add: Let_def)
    have "pend i (filter (fails_all res wr fcs (Suc r) k) (failedTasks ?st)) =
        pend i (filter (fails_all res wr fcs r (Suc k)) tasks)" for i
    proof -
      have "filter (fails_all res wr fcs (Suc r) k) (filter (\<lambda>t. \<not> task_ok res wr fcs r (tfile t) (tinfo t)) (order r tasks))
          = filter (fails_all res wr fcs r (Suc k)) (order r tasks)"
        by (auto simp: fails_all_Suc intro: filter_cong)
      moreover have "mset (filter (fails_all res wr fcs r (Suc k)) (order r tasks)) =
          mset (filter (fails_all res wr fcs r (Suc k)) tasks)"
        by (simp add: perm mset_filter)
      ultimately show ?thesis unfolding ft pend_filter_map_retry by (metis pend_mset)
    qed
    then show ?thesis using IH unfolding eq by (auto intro: file_inv_cong)
  qed
qed

lemma all_tasks_file: "t \<in> set (all_tasks fcs) \<Longrightarrow> tfile t < length fcs"
  by (auto simp: all_tasks_def file_tasks_def in_set_enumerate_eq)

lemma all_tasks_of_file:
  assumes "i < length fcs"
  shows "filter (\<lambda>t. tfile t = i) (all_tasks fcs) = file_tasks i (fcs ! i)"
proof -
  have *: "filter (\<lambda>t. tfile t = i) (concat (map (\<lambda>(j, fc). file_tasks j fc) (enumerate k xs))) =
      (if k \<le> i \<and> i < k + length xs then file_tasks i (xs ! (i - k)) else [])" for k xs
  proof (induction xs arbitrary: k)
    case (Cons x xs)
    have "filter (\<lambda>t. tfile t = i) (file_tasks k x) = (if k = i then file_tasks k x else [])"
      by (auto simp: file_tasks_def filter_map comp_def)
    moreover have "(x # xs) ! (i - k) = xs ! (i - Suc k)" if "k < i" using that by (simp add: Suc_diff_Suc [symmetric])
    ultimately show ?case using Cons.IH [of "Suc k"] by (auto simp: le_less)
  qed auto
  show ?thesis using *[of 0 fcs] assms by (simp add: all_tasks_def)
qed


section \<open>The report of a directory download\<close>

text \<open>The file contexts as the caller hands them over: as many chunks remaining as are not skipped.\<close>

definition prepared :: "file_context list \<Rightarrow> bool" where
  "prepared fcs \<longleftrightarrow> (\<forall>i < length fcs. FRemaining (fcs ! i) = int (length (file_tasks i (fcs ! i))) \<and>
     \<not> FFinalizeOnce (fcs ! i) \<and> \<not> FFinalizeErr (fcs ! i))"

definition dir_chunk_result ::
  "config \<Rightarrow> (byte list \<Rightarrow> byte list) \<Rightarrow> (nat \<Rightarrow> nat \<Rightarrow> chunk_info \<Rightarrow> dl_env \<times> selector) \<Rightarrow> file_context list
    \<Rightarrow> byte list option \<Rightarrow> nat \<Rightarrow> nat \<Rightarrow> chunk_info \<Rightarrow> dl_error + byte list" where
  "dir_chunk_result cfg sha256 meet fcs dek r i ci =
     fst (fetchAndVerifyChunk cfg sha256 (fst (meet r i ci)) (FFileKey (fcs ! i)) ci dek (snd (meet r i ci)))"

text \<open>File \<open>i\<close> fails: a chunk fails in every round, or all chunks arrive and \<open>OnFinalize\<close> fails.\<close>

definition file_lost ::
  "config \<Rightarrow> (nat \<Rightarrow> nat \<Rightarrow> chunk_info \<Rightarrow> dl_error + byte list) \<Rightarrow> (nat \<Rightarrow> nat \<Rightarrow> chunk_info \<Rightarrow> bool) \<Rightarrow>
    (nat \<Rightarrow> bool) \<Rightarrow> file_context list \<Rightarrow> nat \<Rightarrow> bool" where
  "file_lost cfg res wr finalize fcs i \<longleftrightarrow>
     (\<exists>ci \<in> set (FChunks (fcs ! i)). IIndex ci \<notin> set (FSkipSet (fcs ! i)) \<and>
        ((\<forall>r. int r \<le> MaxRetries cfg \<longrightarrow> \<not> task_ok res wr fcs r i ci) \<or> \<not> finalize i))"

lemma file_tasks_iff:
  "(\<exists>t \<in> set (file_tasks i fc). P (tfile t) (tinfo t)) \<longleftrightarrow>
     (\<exists>ci \<in> set (FChunks fc). IIndex ci \<notin> set (FSkipSet fc) \<and> P i ci)"
  by (auto simp: file_tasks_def)

lemma pend_all_tasks: "i < length fcs \<Longrightarrow> pend i (filter P (all_tasks fcs)) = length (filter P (file_tasks i (fcs ! i)))"
  using arg_cong [OF all_tasks_of_file [of i fcs], of "\<lambda>ts. length (filter P ts)"]
  by (simp add: pend_def conj_commute)

lemma file_failed_iff:
  assumes inv: "file_inv finalize fcs (filter (fails_all res wr fcs 0 (nat (MaxRetries cfg + 1))) (all_tasks fcs)) i fc"
    and i: "i < length fcs"
  shows "file_failed fc \<longleftrightarrow> file_lost cfg res wr finalize fcs i"
proof -
  let ?F = "fails_all res wr fcs 0 (nat (MaxRetries cfg + 1))" and ?ts = "file_tasks i (fcs ! i)"
  have F: "?F t \<longleftrightarrow> (\<forall>r. int r \<le> MaxRetries cfg \<longrightarrow> \<not> task_ok res wr fcs r (tfile t) (tinfo t))" for t
  proof -
    have "r < 0 + nat (MaxRetries cfg + 1) \<longleftrightarrow> int r \<le> MaxRetries cfg" for r by linarith
    then show ?thesis by (simp add: fails_all_def)
  qed
  have p: "pend i (filter ?F (all_tasks fcs)) = length (filter ?F ?ts)" "pend i (all_tasks fcs) = length ?ts"
    using pend_all_tasks [OF i, of ?F] pend_all_tasks [OF i, of "\<lambda>t. True"] by simp_all
  have "file_failed fc \<longleftrightarrow> (\<exists>t \<in> set ?ts. ?F t) \<or> ?ts \<noteq> [] \<and> \<not> finalize i"
    using inv by (auto simp: file_failed_def file_inv_def p filter_empty_conv)
  also have "\<dots> \<longleftrightarrow> (\<exists>t \<in> set ?ts. ?F t \<or> \<not> finalize i)" by (metis list.set_intros(1) list.exhaust emptyE list.set(1))
  also have "\<dots> \<longleftrightarrow> file_lost cfg res wr finalize fcs i"
    unfolding F file_lost_def by (rule file_tasks_iff)
  finally show ?thesis .
qed

text \<open>C15. A directory download that is not cancelled, with tasks of a round finishing in any order: the
  files reported as failed are exactly those with a chunk that was neither skipped nor fetched and
  written in any of the \<open>MaxRetries + 1\<close> rounds, and those with chunks to fetch whose \<open>OnFinalize\<close>
  fails, in the order of the directory; the two counts add up to the number of files.\<close>

theorem directory_report_exact:
  assumes "prepared fcs" and "\<And>r ts. mset (order r ts) = mset ts" and "\<And>r. \<not> cancelled r"
  shows "\<exists>result st. DownloadDirectory cfg sha256 meet wr finalize cancelled order fcs dek = (result, st) \<and>
    FailedFiles result = map (\<lambda>i. FRelativePath (fcs ! i))
      (filter (file_lost cfg (dir_chunk_result cfg sha256 meet fcs dek) wr finalize fcs) [0..<length fcs]) \<and>
    FailedCount result = length (FailedFiles result) \<and> Succeeded result + FailedCount result = length fcs"
proof -
  let ?res = "dir_chunk_result cfg sha256 meet fcs dek" and ?k = "nat (MaxRetries cfg + 1)"
  let ?left = "filter (fails_all ?res wr fcs 0 ?k) (all_tasks fcs)"
  define total_chunks where "total_chunks = sum_list (map FTotalChunks fcs)"
  define done0 where "done0 = sum_list (map (\<lambda>fc. int (length (FSkipSet fc))) fcs)"
  define st0 where "st0 = \<lparr>files = fcs, failedTasks = [], chunksCompleted = done0, filesCompleted = 0,
    dir_progress = (if done0 > 0 then [(0, int (length fcs), done0, total_chunks)] else [])\<rparr>"
  define st where "st = dir_rounds ?res wr finalize cancelled order total_chunks ?k 0 (all_tasks fcs) st0"
  have D: "\<exists>st'. DownloadDirectory cfg sha256 meet wr finalize cancelled order fcs dek = (collect_results (files st), st')"
    unfolding DownloadDirectory_def Let_def st_def st0_def total_chunks_def done0_def dir_chunk_result_def [abs_def]
    by blast
  have n: "pend i (all_tasks fcs) = length (file_tasks i (fcs ! i))" if "i < length fcs" for i
    using pend_all_tasks [OF that, of "\<lambda>t. True"] by simp
  have "file_tasks (tfile t) (fcs ! tfile t) \<noteq> []" if "t \<in> set (all_tasks fcs)" for t
    using that all_tasks_of_file [OF all_tasks_file [OF that]] by (auto simp: filter_empty_conv)
  then have "dir_inv finalize fcs (all_tasks fcs) (st0\<lparr>failedTasks := []\<rparr>)"
    using assms(1) n all_tasks_file by (auto simp: dir_inv_def st0_def file_inv_def prepared_def)
  from dir_rounds_spec [where order = order and cancelled = cancelled and res = ?res and wr = wr and k = ?k
      and r = 0 and total_chunks = total_chunks, OF assms(2,3) this, folded st_def]
  have len: "length (files st) = length fcs"
    and inv: "i < length fcs \<Longrightarrow> file_inv finalize fcs ?left i (files st ! i)" for i
    by simp_all
  have failed: "file_failed (files st ! i) \<longleftrightarrow> file_lost cfg ?res wr finalize fcs i" if "i < length fcs" for i
    by (rule file_failed_iff [OF inv [OF that] that])
  have "filter file_failed (files st) = map ((!) (files st)) (filter (\<lambda>i. file_failed (files st ! i)) [0..<length fcs])"
    using filter_map [of file_failed "(!) (files st)" "[0..<length fcs]"] map_nth [of "files st"] len
    by (simp add: comp_def)
  also have "filter (\<lambda>i. file_failed (files st ! i)) [0..<length fcs] =
      filter (file_lost cfg ?res wr finalize fcs) [0..<length fcs]"
    using failed by (intro filter_cong) auto
  finally have "map FRelativePath (filter file_failed (files st)) =
      map (\<lambda>i. FRelativePath (files st ! i)) (filter (file_lost cfg ?res wr finalize fcs) [0..<length fcs])"
    by simp
  also have "\<dots> = map (\<lambda>i. FRelativePath (fcs ! i)) (filter (file_lost cfg ?res wr finalize fcs) [0..<length fcs])"
    using inv by (auto simp: file_inv_def)
  finally have names: "map FRelativePath (filter file_failed (files st)) =
      map (\<lambda>i. FRelativePath (fcs ! i)) (filter (file_lost cfg ?res wr finalize fcs) [0..<length fcs])" .
  from D obtain st' where "DownloadDirectory cfg sha256 meet wr finalize cancelled order fcs dek =
      (collect_results (files st), st')" by blast
  moreover have "FailedCount (collect_results (files st)) = length (FailedFiles (collect_results (files st)))"
    by (simp add: collect_results_def)
  moreover have "Succeeded (collect_results (files st)) + FailedCount (collect_results (files st)) = length fcs"
    using sum_length_filter_compl [of file_failed "files st"] len by (simp add: collect_results_def add.commute)
  moreover have "FailedFiles (collect_results (files st)) =
      map (\<lambda>i. FRelativePath (fcs ! i)) (filter (file_lost cfg ?res wr finalize fcs) [0..<length fcs])"
    using names by (simp add: collect_results_def)
  ultimately show ?thesis by blast
qed

definition demo_file :: file_context where
  "demo_file = \<lparr>FFileKey = ''f'', FRelativePath = ''d/f'', FChunkSize = 1, FChunks = [demo_chunk], FWriter = [],
     FSkipSet = [], FTotalChunks = 1, FRemaining = 1, FErrors = [None], FFinalizeOnce = False,
     FFinalizeErr = False, FRecorded = []\<rparr>"

theorem directory_report_exact_witness:
  "\<exists>result st. DownloadDirectory DefaultConfig (\<lambda>b. b) (\<lambda>r i ci. (demo_env, sel_New)) (\<lambda>r i ci. i = 0) (\<lambda>i. True)
     (\<lambda>r. False) (\<lambda>r ts. rev ts) [demo_file, demo_file\<lparr>FRelativePath := ''d/g''\<rparr>] None = (result, st) \<and>
     FailedFiles result = [''d/g''] \<and> Succeeded result = 1"
proof -
  let ?fcs = "[demo_file, demo_file\<lparr>FRelativePath := ''d/g''\<rparr>]"
  let ?res = "dir_chunk_result DefaultConfig (\<lambda>b. b) (\<lambda>r i ci. (demo_env, sel_New)) ?fcs None"
  have p: "prepared ?fcs" by (auto simp: prepared_def file_tasks_def demo_file_def less_Suc_eq)
  have res: "?res r 0 demo_chunk = Inr [7]" for r by (simp add: dir_chunk_result_def demo_fetched)
  have idx: "IIndex demo_chunk = 0" by (simp add: demo_chunk_def)
  have "\<not> file_lost DefaultConfig ?res (\<lambda>r i ci. i = 0) (\<lambda>i. True) ?fcs 0"
    using res [of 0] by (auto simp: file_lost_def demo_file_def DefaultConfig_def task_ok_def idx in_i64_def intro!: exI [of _ 0])
  moreover have "file_lost DefaultConfig ?res (\<lambda>r i ci. i = 0) (\<lambda>i. True) ?fcs 1"
    by (simp add: file_lost_def demo_file_def task_ok_def)
  ultimately have "filter (file_lost DefaultConfig ?res (\<lambda>r i ci. i = 0) (\<lambda>i. True) ?fcs) [0..<length ?fcs] = [1]"
    by (simp add: upt_rec)
  then show ?thesis
    using directory_report_exact [OF p, of "\<lambda>r ts. rev ts" "\<lambda>r. False" DefaultConfig "\<lambda>b. b"
        "\<lambda>r i ci. (demo_env, sel_New)" "\<lambda>r i ci. i = 0" "\<lambda>i. True" None] by auto
qed

end
