(* ===== verification/Wire.thy ===== *)
theory Wire
  imports Prelude
begin

text \<open>
  The wire primitives of the daemon's local protocol (src/ipc/wire.go, src/ipc/opcodes.go):
  length-prefixed strings, status frames, JSON frames, download headers, progress frames.

  A writer returns the bytes it puts on the connection and the error it returns (the NoErr
  writers and the status writers have no error).  A reader takes the bytes the connection
  still delivers and returns its error or its value with the bytes left over; a connection
  that is cut is a stream that stops early.  Buffers the readers allocate are assumed to fit.
  The locale \<open>codec\<close> is the contract of a message format: what the writer produced is read
  back with nothing lost, and a reader never looks past the message it returns.
\<close>

named_theorems wire_reads \<open>what a reader returns on the bytes its writer wrote\<close>
named_theorems stable_intros \<open>readers that do not look past their message\<close>

section \<open>Readers\<close>

datatype rd_error = EOF | UnexpectedEOF | Remote string | Labelled string rd_error

type_synonym 'a reader = "byte list \<Rightarrow> rd_error + 'a \<times> byte list"

definition rret :: "'a \<Rightarrow> 'a reader" where
  "rret x = (\<lambda>bs. Inr (x, bs))"

definition rfail :: "rd_error \<Rightarrow> 'a reader" where
  "rfail e = (\<lambda>bs. Inl e)"

definition rbind :: "'a reader \<Rightarrow> ('a \<Rightarrow> 'b reader) \<Rightarrow> 'b reader" where
  "rbind m f = (\<lambda>bs. case m bs of Inl e \<Rightarrow> Inl e | Inr (x, rest) \<Rightarrow> f x rest)"

definition rlabel :: "string \<Rightarrow> 'a reader \<Rightarrow> 'a reader" where
  "rlabel l m = (\<lambda>bs. case m bs of Inl e \<Rightarrow> Inl (Labelled l e) | Inr r \<Rightarrow> Inr r)"

text \<open>\<open>io.ReadFull(conn, buf)\<close> with a buffer of \<open>n\<close> bytes.\<close>

definition read_full :: "nat \<Rightarrow> byte list reader" where
  "read_full n bs =
     (if n \<le> length bs then Inr (take n bs, drop n bs)
      else if bs = [] then Inl EOF else Inl UnexpectedEOF)"

definition read_byte :: "byte reader" where
  "read_byte = rbind (read_full 1) (\<lambda>b. rret (b ! 0))"

text \<open>\<open>binary.BigEndian.Uint16/32/64\<close> of a buffer of \<open>k\<close> bytes.\<close>

definition read_be :: "nat \<Rightarrow> nat reader" where
  "read_be k = rbind (read_full k) (\<lambda>b. rret (be_nat b))"

definition read_int64 :: "int reader" where
  "read_int64 = rbind (read_be 8) (\<lambda>n. rret (i64 (int n)))"

text \<open>\<open>for i := 0; i < n; i++\<close> over the elements of a list, from index \<open>i\<close> on.\<close>

fun rd_times :: "nat \<Rightarrow> nat \<Rightarrow> (nat \<Rightarrow> 'a reader) \<Rightarrow> 'a list reader" where
  "rd_times i 0 m = rret []"
| "rd_times i (Suc n) m = rbind (m i) (\<lambda>x. rbind (rd_times (Suc i) n m) (\<lambda>xs. rret (x # xs)))"

section \<open>Writers\<close>

datatype wr_error = TooLong | BadDEK

type_synonym written = "byte list \<times> wr_error option"

definition put :: "byte list \<Rightarrow> written" where
  "put bs = (bs, None)"

text \<open>A sequence of writes stops at the first error, with the earlier bytes on the wire.\<close>

definition w_then :: "written \<Rightarrow> written \<Rightarrow> written" where
  "w_then v w = (case snd v of None \<Rightarrow> (fst v @ fst w, snd w) | Some e \<Rightarrow> v)"

fun w_all :: "written list \<Rightarrow> written" where
  "w_all [] = put []"
| "w_all (w # ws) = w_then w (w_all ws)"

text \<open>\<open>uint16(n)\<close>, \<open>uint32(n)\<close> and \<open>uint64(n)\<close> of an \<open>int\<close>, most significant byte first.\<close>

definition be_int :: "nat \<Rightarrow> int \<Rightarrow> byte list" where
  "be_int k x = be_bytes k (nat (x mod 256 ^ k))"

lemma length_be_int [simp]: "length (be_int k x) = k"
  by (simp add: be_int_def)

lemma be_int_Nil [simp]: "be_int k x = [] \<longleftrightarrow> k = 0"
  by (metis length_0_conv length_be_int)

lemma be_nat_be_int [simp]: "be_nat (be_int k x) = nat (x mod 256 ^ k)"
proof -
  have "nat (x mod 256 ^ k) < 256 ^ k"
    by (metis mod_pos_pos_trivial nat_less_iff of_nat_numeral of_nat_power pos_mod_bound
        pos_mod_sign zero_less_numeral zero_less_power)
  then show ?thesis by (simp add: be_int_def)
qed

section \<open>Running readers on written bytes\<close>

lemma rbind_Inr [simp]: "m bs = Inr (x, rest) \<Longrightarrow> rbind m f bs = f x rest"
  by (simp add: rbind_def)

lemma rbind_Inl [simp]: "m bs = Inl e \<Longrightarrow> rbind m f bs = Inl e"
  by (simp add: rbind_def)

lemma rret_apply [simp]: "rret x bs = Inr (x, bs)"
  by (simp add: rret_def)

lemma rlabel_Inr [simp]: "m bs = Inr r \<Longrightarrow> rlabel l m bs = Inr r"
  by (simp add: rlabel_def)

lemma read_full_append [wire_reads]: "length b = n \<Longrightarrow> read_full n (b @ rest) = Inr (b, rest)"
  by (auto simp: read_full_def)

lemma read_byte_Cons [wire_reads]: "read_byte (b # rest) = Inr (b, rest)"
  by (simp add: read_byte_def read_full_def)

lemma read_be_bytes [wire_reads]: "read_be k (be_bytes k n @ rest) = Inr (n mod 256 ^ k, rest)"
  by (simp add: read_be_def read_full_append)

lemma read_be_int [wire_reads]:
  "read_be k (be_int k x @ rest) = Inr (nat (x mod 256 ^ k), rest)"
  by (simp add: read_be_def read_full_append)

lemma read_int64_be_int [wire_reads]:
  assumes "in_i64 x"
  shows "read_int64 (be_int 8 x @ rest) = Inr (x, rest)"
proof -
  have "i64 (int (nat (x mod 18446744073709551616))) = i64 x"
    by (simp add: i64_def mod_simps)
  with assms show ?thesis by (simp add: read_int64_def read_be_int)
qed

lemma rd_times_concat:
  assumes "\<And>i x r. x \<in> set xs \<Longrightarrow> m i (enc x @ r) = Inr (x, r)"
  shows "rd_times i (length xs) m (concat (map enc xs) @ rest) = Inr (xs, rest)"
  using assms by (induction xs arbitrary: i) auto

section \<open>Readers that do not look ahead\<close>

definition stable :: "'a reader \<Rightarrow> bool" where
  "stable m \<longleftrightarrow> (\<forall>bs x rest more. m bs = Inr (x, rest) \<longrightarrow> m (bs @ more) = Inr (x, rest @ more))"

lemma stableI:
  "(\<And>bs x rest more. m bs = Inr (x, rest) \<Longrightarrow> m (bs @ more) = Inr (x, rest @ more)) \<Longrightarrow> stable m"
  by (simp add: stable_def)

lemma stableD: "stable m \<Longrightarrow> m bs = Inr (x, rest) \<Longrightarrow> m (bs @ more) = Inr (x, rest @ more)"
  by (simp add: stable_def)

lemma stable_rret [stable_intros]: "stable (rret x)"
  by (simp add: stable_def rret_def)

lemma stable_rfail [stable_intros]: "stable (rfail e)"
  by (simp add: stable_def rfail_def)

lemma stable_rbind [stable_intros]:
  assumes "stable m" and "\<And>x. stable (f x)"
  shows "stable (rbind m f)"
proof (rule stableI)
  fix bs y rest more
  assume "rbind m f bs = Inr (y, rest)"
  then obtain x mid where m: "m bs = Inr (x, mid)" and f: "f x mid = Inr (y, rest)"
    by (auto simp: rbind_def split: sum.splits)
  from stableD [OF assms(1) m] stableD [OF assms(2) f]
  show "rbind m f (bs @ more) = Inr (y, rest @ more)" by simp
qed

lemma stable_rlabel [stable_intros]: "stable m \<Longrightarrow> stable (rlabel l m)"
  unfolding stable_def rlabel_def by (auto split: sum.splits)

lemma stable_read_full [stable_intros]: "stable (read_full n)"
  by (rule stableI) (auto simp: read_full_def split: if_splits)

lemma stable_if [stable_intros]: "stable m \<Longrightarrow> stable m' \<Longrightarrow> stable (if b then m else m')"
  by simp

lemma stable_read_byte [stable_intros]: "stable read_byte"
  unfolding read_byte_def by (intro stable_intros)

lemma stable_read_be [stable_intros]: "stable (read_be k)"
  unfolding read_be_def by (intro stable_intros)

lemma stable_read_int64 [stable_intros]: "stable read_int64"
  unfolding read_int64_def by (intro stable_intros)

lemma stable_rd_times [stable_intros]: "(\<And>i. stable (m i)) \<Longrightarrow> stable (rd_times i n m)"
  by (induction n arbitrary: i) (auto intro!: stable_intros)

section \<open>The contract of a message format\<close>

locale codec =
  fixes enc :: "'a \<Rightarrow> byte list" and dec :: "'a reader" and valid :: "'a \<Rightarrow> bool"
  assumes decodes: "valid x \<Longrightarrow> dec (enc x @ rest) = Inr (x, rest)"
    and no_lookahead: "stable dec"
begin

lemma decodes_exactly: "valid x \<Longrightarrow> dec (enc x) = Inr (x, [])"
  using decodes [of x "[]"] by simp

text \<open>What one side frames the other side unframes, whatever follows on the connection.\<close>

lemma unambiguous:
  assumes "valid x" and "valid y" and "enc x @ r = enc y @ s"
  shows "x = y \<and> r = s"
proof -
  have "Inr (x, r) = dec (enc y @ s)" using decodes [OF assms(1), of r] assms(3) by metis
  then show ?thesis using decodes [OF assms(2), of s] by simp
qed

text \<open>A message cut anywhere before its end is an error of the reader, never another message.\<close>

lemma truncated_fails:
  assumes "valid x" and "enc x = p @ q" and "q \<noteq> []"
  shows "\<exists>e. dec p = Inl e"
proof (cases "dec p")
  case (Inr r)
  obtain y rest where r: "r = (y, rest)" by (cases r)
  from stableD [OF no_lookahead, of p y rest q] Inr r
  have "dec (p @ q) = Inr (y, rest @ q)" by simp
  with decodes_exactly [OF assms(1)] assms(2,3) show ?thesis by simp
qed simp

text \<open>Messages sent back to back are read back in order.\<close>

lemma sequence:
  assumes "\<forall>x \<in> set xs. valid x"
  shows "rd_times i (length xs) (\<lambda>_. dec) (concat (map enc xs) @ rest) = Inr (xs, rest)"
  using assms decodes by (intro rd_times_concat) auto

end

section \<open>Strings\<close>

definition WriteString16 :: "string \<Rightarrow> written" where
  "WriteString16 s =
     (let b = bytes_of s in
      if 0xFFFF < length b then ([], Some TooLong)
      else w_then (put (be_int 2 (int (length b)))) (put b))"

definition WriteString16NoErr :: "string \<Rightarrow> byte list" where
  "WriteString16NoErr s = fst (WriteString16 s)"

definition ReadString16 :: "string reader" where
  "ReadString16 = rbind (read_be 2) (\<lambda>slen. rbind (read_full slen) (\<lambda>buf. rret (string_of buf)))"

definition short :: "string \<Rightarrow> bool" where
  "short s \<longleftrightarrow> length s \<le> 0xFFFF"

text \<open>The bytes of a short string.\<close>

abbreviation str16 :: "string \<Rightarrow> byte list" where
  "str16 s \<equiv> WriteString16NoErr s"

lemma WriteString16_short: "short s \<Longrightarrow> WriteString16 s = (str16 s, None)"
  by (simp add: WriteString16_def WriteString16NoErr_def short_def Let_def put_def w_then_def)

lemma WriteString16_long: "\<not> short s \<Longrightarrow> WriteString16 s = ([], Some TooLong)"
  by (simp add: WriteString16_def short_def Let_def)

lemma str16_long: "\<not> short s \<Longrightarrow> str16 s = []"
  by (simp add: WriteString16NoErr_def WriteString16_long)

lemma str16_bytes: "short s \<Longrightarrow> str16 s = be_int 2 (int (length s)) @ bytes_of s"
  by (simp add: WriteString16_def WriteString16NoErr_def short_def Let_def put_def w_then_def)

lemma read_str16 [wire_reads]: "short s \<Longrightarrow> ReadString16 (str16 s @ rest) = Inr (s, rest)"
  by (simp add: str16_bytes ReadString16_def wire_reads short_def nat_mod_distrib)

lemma stable_ReadString16 [stable_intros]: "stable ReadString16"
  unfolding ReadString16_def by (intro stable_intros)

interpretation str: codec str16 ReadString16 short
  by unfold_locales (auto intro: wire_reads stable_intros)

definition WriteTransferID :: "string \<Rightarrow> byte list" where
  "WriteTransferID tid = WriteString16NoErr tid"

definition ReadTransferID :: "string reader" where
  "ReadTransferID = ReadString16"

section \<open>Status frames\<close>

definition StatusOK :: byte where "StatusOK = 0x00"
definition StatusError :: byte where "StatusError = 0x01"
definition StatusProgress :: byte where "StatusProgress = 0x02"

lemmas status_defs = StatusOK_def StatusError_def StatusProgress_def

text \<open>The length of a slice is an \<open>int\<close>, so an in-memory message is shorter than \<open>2 ^ 63\<close>;
  the 32-bit length of a frame holds messages below 4 GiB.\<close>

definition fits32 :: "string \<Rightarrow> bool" where
  "fits32 s \<longleftrightarrow> length s < 2 ^ 32"

definition WriteStatus :: "byte \<Rightarrow> string \<Rightarrow> byte list" where
  "WriteStatus status msg = [status] @ be_int 4 (int (length (bytes_of msg))) @ bytes_of msg"

definition ReadStatus :: "(bool \<times> string) reader" where
  "ReadStatus =
     rbind read_byte (\<lambda>status. rbind (read_be 4) (\<lambda>mlen. rbind (read_full mlen) (\<lambda>msg.
       rret (status = StatusOK, string_of msg))))"

lemma fits32_mod [wire_reads]: "fits32 s \<Longrightarrow> nat (int (length s) mod 4294967296) = length s"
  by (simp add: fits32_def nat_mod_distrib)

lemma read_status [wire_reads]:
  "fits32 msg \<Longrightarrow> ReadStatus (WriteStatus status msg @ rest) = Inr ((status = StatusOK, msg), rest)"
  by (simp add: ReadStatus_def WriteStatus_def wire_reads)

lemma stable_ReadStatus [stable_intros]: "stable ReadStatus"
  unfolding ReadStatus_def by (intro stable_intros)

interpretation status: codec "\<lambda>(ok, msg). WriteStatus (if ok then StatusOK else StatusError) msg"
    ReadStatus "\<lambda>(ok, msg). fits32 msg"
  by unfold_locales (auto simp: read_status status_defs intro: stable_intros)

section \<open>JSON frames\<close>

text \<open>\<open>json.Marshal(data)\<close> is the argument: the error's text or the document.\<close>

definition WriteJSONResponse :: "string + byte list \<Rightarrow> byte list" where
  "WriteJSONResponse marshalled =
     (case marshalled of
        Inl err \<Rightarrow> WriteStatus StatusError (''json marshal: '' @ err)
      | Inr jsonBytes \<Rightarrow> [StatusOK] @ be_int 4 (int (length jsonBytes)) @ jsonBytes)"

definition ReadJSONResponse :: "byte list reader" where
  "ReadJSONResponse =
     rbind read_byte (\<lambda>status. rbind (read_be 4) (\<lambda>mlen. rbind (read_full mlen) (\<lambda>data.
       if status \<noteq> StatusOK then rfail (Remote (string_of data)) else rret data)))"

lemma read_json [wire_reads]:
  assumes "length doc < 2 ^ 32"
  shows "ReadJSONResponse (WriteJSONResponse (Inr doc) @ rest) = Inr (doc, rest)"
  using assms by (simp add: ReadJSONResponse_def WriteJSONResponse_def wire_reads nat_mod_distrib)

lemma read_json_status:
  assumes "fits32 msg" and "st \<noteq> StatusOK"
  shows "ReadJSONResponse (WriteStatus st msg @ rest) = Inl (Remote msg)"
  using assms by (simp add: ReadJSONResponse_def WriteStatus_def wire_reads rfail_def)

lemma read_json_marshal_error:
  assumes "fits32 (''json marshal: '' @ err)"
  shows "ReadJSONResponse (WriteJSONResponse (Inl err) @ rest) =
         Inl (Remote (''json marshal: '' @ err))"
  unfolding WriteJSONResponse_def sum.case
  by (rule read_json_status [OF assms]) (simp add: status_defs)

lemma stable_ReadJSONResponse [stable_intros]: "stable ReadJSONResponse"
  unfolding ReadJSONResponse_def by (intro stable_intros)

interpretation json: codec "\<lambda>doc. WriteJSONResponse (Inr doc)" ReadJSONResponse
    "\<lambda>doc. length doc < 2 ^ 32"
  by unfold_locales (auto intro: wire_reads stable_intros)

section \<open>Download headers\<close>

definition WriteDownloadResponse :: "int \<Rightarrow> byte list" where
  "WriteDownloadResponse contentLen = [StatusOK] @ be_int 8 contentLen"

definition WriteDownloadError :: "string \<Rightarrow> byte list" where
  "WriteDownloadError errMsg =
     [StatusError] @ be_int 8 (int (length (bytes_of errMsg))) @ bytes_of errMsg"

definition ReadDownloadResponseHeader :: "(bool \<times> int) reader" where
  "ReadDownloadResponseHeader =
     rbind read_byte (\<lambda>status. rbind read_int64 (\<lambda>contentLen. rret (status = StatusOK, contentLen)))"

lemma read_download_response [wire_reads]:
  "in_i64 n \<Longrightarrow> ReadDownloadResponseHeader (WriteDownloadResponse n @ rest) = Inr ((True, n), rest)"
  by (simp add: ReadDownloadResponseHeader_def WriteDownloadResponse_def wire_reads)

lemma read_download_error [wire_reads]:
  "in_i64 (int (length msg)) \<Longrightarrow>
   ReadDownloadResponseHeader (WriteDownloadError msg @ rest) =
   Inr ((False, int (length msg)), bytes_of msg @ rest)"
  by (simp add: ReadDownloadResponseHeader_def WriteDownloadError_def wire_reads status_defs)

lemma stable_ReadDownloadResponseHeader [stable_intros]: "stable ReadDownloadResponseHeader"
  unfolding ReadDownloadResponseHeader_def by (intro stable_intros)

interpretation download_header: codec WriteDownloadResponse
    "rbind ReadDownloadResponseHeader (\<lambda>(ok, n). if ok then rret n else rfail EOF)" in_i64
  by unfold_locales
    (auto simp: wire_reads split: prod.splits intro!: stable_intros)

section \<open>Progress frames\<close>

definition WriteProgressUpdate :: "int \<Rightarrow> int \<Rightarrow> byte list" where
  "WriteProgressUpdate completed tot = [StatusProgress] @ be_int 4 completed @ be_int 4 tot"

definition WriteDirProgressUpdate :: "int \<Rightarrow> int \<Rightarrow> int \<Rightarrow> int \<Rightarrow> byte list" where
  "WriteDirProgressUpdate fileIdx fileTotal chunkIdx chunkTotal =
     [StatusProgress] @ be_int 4 fileIdx @ be_int 4 fileTotal @ be_int 4 chunkIdx
       @ be_int 4 chunkTotal"

text \<open>The values the two readers return: the counters of a progress frame, or the final status.\<close>

datatype progress_or_status = Progress nat nat | FinalStatus bool string

datatype dir_progress_or_status = DirProgress nat nat nat nat | DirFinalStatus bool string

definition ReadProgressOrStatus :: "progress_or_status reader" where
  "ReadProgressOrStatus =
     rbind read_byte (\<lambda>status.
       if status = StatusProgress then
         rbind (read_full 8) (\<lambda>buf. rret (Progress (be_nat (take 4 buf)) (be_nat (drop 4 buf))))
       else
         rbind (read_be 4) (\<lambda>mlen. rbind (read_full mlen) (\<lambda>msg.
           rret (FinalStatus (status = StatusOK) (string_of msg)))))"

definition ReadDirProgressOrStatus :: "dir_progress_or_status reader" where
  "ReadDirProgressOrStatus =
     rbind read_byte (\<lambda>status.
       if status = StatusProgress then
         rbind (read_full 16) (\<lambda>buf. rret (DirProgress
           (be_nat (take 4 buf)) (be_nat (take 4 (drop 4 buf)))
           (be_nat (take 4 (drop 8 buf))) (be_nat (drop 12 buf))))
       else
         rbind (read_be 4) (\<lambda>mlen. rbind (read_full mlen) (\<lambda>msg.
           rret (DirFinalStatus (status = StatusOK) (string_of msg)))))"

text \<open>The daemon's side of the stream: the frames it writes while a transfer runs and the
  status that ends it.\<close>

primrec write_progress :: "progress_or_status \<Rightarrow> byte list" where
  "write_progress (Progress c t) = WriteProgressUpdate (int c) (int t)"
| "write_progress (FinalStatus ok msg) = WriteStatus (if ok then StatusOK else StatusError) msg"

primrec progress_ok :: "progress_or_status \<Rightarrow> bool" where
  "progress_ok (Progress c t) \<longleftrightarrow> c < 2 ^ 32 \<and> t < 2 ^ 32"
| "progress_ok (FinalStatus ok msg) \<longleftrightarrow> fits32 msg"

primrec write_dir_progress :: "dir_progress_or_status \<Rightarrow> byte list" where
  "write_dir_progress (DirProgress a b c d) =
     WriteDirProgressUpdate (int a) (int b) (int c) (int d)"
| "write_dir_progress (DirFinalStatus ok msg) =
     WriteStatus (if ok then StatusOK else StatusError) msg"

primrec dir_progress_ok :: "dir_progress_or_status \<Rightarrow> bool" where
  "dir_progress_ok (DirProgress a b c d) \<longleftrightarrow> (\<forall>n \<in> {a, b, c, d}. n < 2 ^ 32)"
| "dir_progress_ok (DirFinalStatus ok msg) \<longleftrightarrow> fits32 msg"

lemma be_int_small: "n < 2 ^ 32 \<Longrightarrow> be_nat (be_int 4 (int n)) = n"
  by (simp add: nat_mod_distrib)

lemma read_progress [wire_reads]:
  "progress_ok p \<Longrightarrow> ReadProgressOrStatus (write_progress p @ rest) = Inr (p, rest)"
proof (cases p)
  case (Progress c t)
  assume "progress_ok p"
  then have "c < 2 ^ 32" "t < 2 ^ 32" using Progress by auto
  moreover have "read_full 8 ((be_int 4 (int c) @ be_int 4 (int t)) @ rest)
      = Inr (be_int 4 (int c) @ be_int 4 (int t), rest)"
    by (rule read_full_append) simp
  ultimately show ?thesis
    using Progress be_int_small [of c] be_int_small [of t]
    by (simp add: ReadProgressOrStatus_def WriteProgressUpdate_def wire_reads)
next
  case (FinalStatus ok msg)
  assume "progress_ok p"
  then show ?thesis using FinalStatus
    by (simp add: ReadProgressOrStatus_def WriteStatus_def wire_reads status_defs)
qed

lemma read_dir_progress [wire_reads]:
  "dir_progress_ok p \<Longrightarrow> ReadDirProgressOrStatus (write_dir_progress p @ rest) = Inr (p, rest)"
proof (cases p)
  case (DirProgress a b c d)
  assume "dir_progress_ok p"
  then have "a < 2 ^ 32" "b < 2 ^ 32" "c < 2 ^ 32" "d < 2 ^ 32" using DirProgress by auto
  moreover have "read_full 16
      ((be_int 4 (int a) @ be_int 4 (int b) @ be_int 4 (int c) @ be_int 4 (int d)) @ rest)
      = Inr (be_int 4 (int a) @ be_int 4 (int b) @ be_int 4 (int c) @ be_int 4 (int d), rest)"
    by (rule read_full_append) simp
  ultimately show ?thesis
    using DirProgress be_int_small [of a] be_int_small [of b] be_int_small [of c] be_int_small [of d]
    by (simp add: ReadDirProgressOrStatus_def WriteDirProgressUpdate_def wire_reads)
next
  case (DirFinalStatus ok msg)
  assume "dir_progress_ok p"
  then show ?thesis using DirFinalStatus
    by (simp add: ReadDirProgressOrStatus_def WriteStatus_def wire_reads status_defs)
qed

lemma stable_ReadProgressOrStatus [stable_intros]: "stable ReadProgressOrStatus"
  unfolding ReadProgressOrStatus_def by (intro stable_intros)

lemma stable_ReadDirProgressOrStatus [stable_intros]: "stable ReadDirProgressOrStatus"
  unfolding ReadDirProgressOrStatus_def by (intro stable_intros)

interpretation progress: codec write_progress ReadProgressOrStatus progress_ok
  by unfold_locales (auto intro: wire_reads stable_intros)

interpretation dir_progress: codec write_dir_progress ReadDirProgressOrStatus dir_progress_ok
  by unfold_locales (auto intro: wire_reads stable_intros)

end
