(* ===== verification/Ipc.thy ===== *)
theory Ipc
  imports Wire Chunker
begin

text \<open>
  The messages of the daemon's local protocol (src/cmd/ipc.go, the opcodes of
  src/ipc/opcodes.go): what the command line and the terminal client write, what the daemon
  reads after the opcode, and the two binary responses.  A request is a value of
  \<open>ipc_request\<close>; \<open>write_request\<close> is the writer the client uses for it (no client writes the
  two streaming uploads any more) and \<open>read_request\<close> is the dispatch of \<open>HandleClient\<close>
  composed with the reader each handler starts with.
\<close>

section \<open>Opcodes\<close>

definition OpUpload :: byte where "OpUpload = 0x01"
definition OpDownload :: byte where "OpDownload = 0x02"
definition OpECDHUpload :: byte where "OpECDHUpload = 0x03"
definition OpECDHDownload :: byte where "OpECDHDownload = 0x04"
definition OpGetManifest :: byte where "OpGetManifest = 0x05"
definition OpResolveAlias :: byte where "OpResolveAlias = 0x06"
definition OpDownloadToFile :: byte where "OpDownloadToFile = 0x07"
definition OpECDHDownloadToFile :: byte where "OpECDHDownloadToFile = 0x08"
definition OpDirUpload :: byte where "OpDirUpload = 0x09"
definition OpDirDownload :: byte where "OpDirDownload = 0x0A"
definition OpECDHDirUpload :: byte where "OpECDHDirUpload = 0x0B"
definition OpECDHDirDownload :: byte where "OpECDHDirDownload = 0x0C"
definition OpListUploads :: byte where "OpListUploads = 0x0D"
definition OpListDownloads :: byte where "OpListDownloads = 0x0E"
definition OpBrowsePeer :: byte where "OpBrowsePeer = 0x0F"
definition OpListPeers :: byte where "OpListPeers = 0x10"
definition OpNodeStatus :: byte where "OpNodeStatus = 0x11"
definition OpListTransfers :: byte where "OpListTransfers = 0x12"
definition OpCancelTransfer :: byte where "OpCancelTransfer = 0x13"
definition OpPauseTransfer :: byte where "OpPauseTransfer = 0x14"
definition OpResumeTransfer :: byte where "OpResumeTransfer = 0x15"
definition OpRemoveFile :: byte where "OpRemoveFile = 0x17"
definition OpSearch :: byte where "OpSearch = 0x18"
definition OpConnectPeer :: byte where "OpConnectPeer = 0x19"
definition OpDisconnectPeer :: byte where "OpDisconnectPeer = 0x1A"
definition OpFullBrowse :: byte where "OpFullBrowse = 0x1B"
definition OpSendToPeer :: byte where "OpSendToPeer = 0x1C"
definition OpListInbox :: byte where "OpListInbox = 0x1D"
definition OpUnblockPeer :: byte where "OpUnblockPeer = 0x1E"
definition OpScanLAN :: byte where "OpScanLAN = 0x1F"
definition OpSeedUpload :: byte where "OpSeedUpload = 0x20"
definition OpSeedECDHUpload :: byte where "OpSeedECDHUpload = 0x21"
definition OpShutdown :: byte where "OpShutdown = 0x24"

lemmas opcode_defs =
  OpUpload_def OpDownload_def OpECDHUpload_def OpECDHDownload_def OpGetManifest_def
  OpResolveAlias_def OpDownloadToFile_def OpECDHDownloadToFile_def OpDirUpload_def
  OpDirDownload_def OpECDHDirUpload_def OpECDHDirDownload_def OpListUploads_def
  OpListDownloads_def OpBrowsePeer_def OpListPeers_def OpNodeStatus_def OpListTransfers_def
  OpCancelTransfer_def OpPauseTransfer_def OpResumeTransfer_def OpRemoveFile_def OpSearch_def
  OpConnectPeer_def OpDisconnectPeer_def OpFullBrowse_def OpSendToPeer_def OpListInbox_def
  OpUnblockPeer_def OpScanLAN_def OpSeedUpload_def OpSeedECDHUpload_def OpShutdown_def

section \<open>Message types\<close>

record ecdh_upload_request =
  UStorageKey :: string
  UDEK :: "byte list"
  UOwnerPubKey :: string
  UOwnerEdPubKey :: string
  UAccessList :: "access_entry list"
  USignature :: string
  UFileSize :: int
  UPublic :: bool

record ecdh_dir_upload_request =
  DStorageKey :: string
  DDirPath :: string
  DDEK :: "byte list"
  DOwnerPubKey :: string
  DOwnerEdPubKey :: string
  DAccessList :: "access_entry list"
  DSignature :: string
  DPublic :: bool

record seed_ecdh_upload_request =
  SKey :: string
  SFilePath :: string
  SFileSize :: int
  SDEK :: "byte list"
  SOwnerPubKey :: string
  SOwnerEdPubKey :: string
  SAccessList :: "access_entry list"
  SSignature :: string
  SPublic :: bool

record manifest_info_response =
  REncrypted :: bool
  RIsDirectory :: bool
  ROwnerPub :: string
  RAccessList :: "access_entry list"

record alias_result =
  AFingerprint :: string
  AX25519PubHex :: string
  AEd25519PubHex :: string
  ANodeAddr :: string

section \<open>Shared parts of the messages\<close>

definition pub_byte :: "bool \<Rightarrow> byte" where
  "pub_byte p = (if p then 0x01 else 0x00)"

definition read_bool :: "bool reader" where
  "read_bool = rbind read_byte (\<lambda>b. rret (b = 0x01))"

text \<open>\<open>[2B len][bytes]\<close>, the length taken modulo \<open>2 ^ 16\<close>.\<close>

definition write_bytes16 :: "byte list \<Rightarrow> written list" where
  "write_bytes16 b = [put (be_int 2 (int (length b))), put b]"

definition read_bytes16 :: "byte list reader" where
  "read_bytes16 = rbind (read_be 2) read_full"

text \<open>\<open>[2B count]\<close> and two strings for every entry, the count taken modulo \<open>2 ^ 16\<close>.\<close>

definition write_access_list :: "access_entry list \<Rightarrow> written list" where
  "write_access_list al =
     put (be_int 2 (int (length al))) #
     concat (map (\<lambda>e. [WriteString16 (RecipientPubKey e), WriteString16 (WrappedDEK e)]) al)"

text \<open>The field labels of the errors: \<open>accessList[%d].recipPub\<close> and \<open>accessList[%d].wrappedDEK\<close>.\<close>

definition entry_label :: "nat \<Rightarrow> string \<Rightarrow> string" where
  "entry_label i field = ''accessList['' @ itoa i @ ''].'' @ field"

definition read_entry_labelled :: "nat \<Rightarrow> access_entry reader" where
  "read_entry_labelled i =
     rbind (rlabel (entry_label i ''recipPub'') ReadString16) (\<lambda>recipPub.
     rbind (rlabel (entry_label i ''wrappedDEK'') ReadString16) (\<lambda>wrappedDEK.
       rret \<lparr>RecipientPubKey = recipPub, WrappedDEK = wrappedDEK\<rparr>))"

definition read_entry :: "nat \<Rightarrow> access_entry reader" where
  "read_entry i =
     rbind ReadString16 (\<lambda>recipPub. rbind ReadString16 (\<lambda>wrappedDEK.
       rret \<lparr>RecipientPubKey = recipPub, WrappedDEK = wrappedDEK\<rparr>))"

section \<open>Upload requests\<close>

definition readUploadRequest :: "(string \<times> int \<times> bool) reader" where
  "readUploadRequest =
     rbind (read_be 2) (\<lambda>klen. rbind (read_full klen) (\<lambda>key.
     rbind read_int64 (\<lambda>fileSize. rbind read_bool (\<lambda>public.
       rret (string_of key, fileSize, public)))))"

definition readECDHUploadRequest :: "ecdh_upload_request reader" where
  "readECDHUploadRequest =
     rbind (rlabel ''storageKey'' ReadString16) (\<lambda>storageKey.
     rbind (rlabel ''dek'' (read_full 32)) (\<lambda>dek.
     rbind (rlabel ''ownerPub'' ReadString16) (\<lambda>ownerPub.
     rbind (rlabel ''ownerEdPub'' ReadString16) (\<lambda>ownerEdPub.
     rbind (rlabel ''accessCount'' (read_be 2)) (\<lambda>count.
     rbind (rd_times 0 count read_entry_labelled) (\<lambda>accessList.
     rbind (rlabel ''signature'' ReadString16) (\<lambda>sig.
     rbind (rlabel ''fileSize'' read_int64) (\<lambda>fileSize.
     rbind (rlabel ''public'' read_bool) (\<lambda>public.
       rret \<lparr>UStorageKey = storageKey, UDEK = dek, UOwnerPubKey = ownerPub,
              UOwnerEdPubKey = ownerEdPub, UAccessList = accessList, USignature = sig,
              UFileSize = fileSize, UPublic = public\<rparr>)))))))))"

definition writeDirUploadRequest :: "string \<Rightarrow> string \<Rightarrow> bool \<Rightarrow> written" where
  "writeDirUploadRequest key dirPath public =
     w_all [put [OpDirUpload], WriteString16 key, WriteString16 dirPath, put [pub_byte public]]"

definition readDirUploadRequest :: "(string \<times> string \<times> bool) reader" where
  "readDirUploadRequest =
     rbind ReadString16 (\<lambda>key. rbind ReadString16 (\<lambda>dirPath. rbind read_bool (\<lambda>public.
       rret (key, dirPath, public))))"

definition writeECDHDirUploadRequest :: "ecdh_dir_upload_request \<Rightarrow> written" where
  "writeECDHDirUploadRequest req =
     w_all ([put [OpECDHDirUpload], WriteString16 (DStorageKey req), WriteString16 (DDirPath req),
             (if length (DDEK req) \<noteq> 32 then ([], Some BadDEK) else put (DDEK req)),
             WriteString16 (DOwnerPubKey req), WriteString16 (DOwnerEdPubKey req)]
            @ write_access_list (DAccessList req)
            @ [WriteString16 (DSignature req), put [pub_byte (DPublic req)]])"

definition readECDHDirUploadRequest :: "ecdh_dir_upload_request reader" where
  "readECDHDirUploadRequest =
     rbind (rlabel ''storageKey'' ReadString16) (\<lambda>storageKey.
     rbind (rlabel ''dirPath'' ReadString16) (\<lambda>dirPath.
     rbind (rlabel ''dek'' (read_full 32)) (\<lambda>dek.
     rbind (rlabel ''ownerPub'' ReadString16) (\<lambda>ownerPub.
     rbind (rlabel ''ownerEdPub'' ReadString16) (\<lambda>ownerEdPub.
     rbind (rlabel ''accessCount'' (read_be 2)) (\<lambda>count.
     rbind (rd_times 0 count read_entry) (\<lambda>accessList.
     rbind (rlabel ''signature'' ReadString16) (\<lambda>sig.
     rbind (rlabel ''public'' read_bool) (\<lambda>public.
       rret \<lparr>DStorageKey = storageKey, DDirPath = dirPath, DDEK = dek, DOwnerPubKey = ownerPub,
              DOwnerEdPubKey = ownerEdPub, DAccessList = accessList, DSignature = sig,
              DPublic = public\<rparr>)))))))))"

definition writeSeedUploadRequest :: "string \<Rightarrow> string \<Rightarrow> int \<Rightarrow> bool \<Rightarrow> written" where
  "writeSeedUploadRequest key filePath fileSize public =
     w_all [put [OpSeedUpload], WriteString16 key, WriteString16 filePath,
            put (be_int 8 fileSize), put [pub_byte public]]"

definition readSeedUploadRequest :: "(string \<times> string \<times> int \<times> bool) reader" where
  "readSeedUploadRequest =
     rbind ReadString16 (\<lambda>key. rbind ReadString16 (\<lambda>filePath.
     rbind read_int64 (\<lambda>fileSize. rbind read_bool (\<lambda>public.
       rret (key, filePath, fileSize, public)))))"

text \<open>The key encryption key goes out as it is; only the directory request checks its length.\<close>

definition writeSeedECDHUploadRequest :: "seed_ecdh_upload_request \<Rightarrow> written" where
  "writeSeedECDHUploadRequest req =
     w_all ([put [OpSeedECDHUpload], WriteString16 (SKey req), WriteString16 (SFilePath req),
             put (be_int 8 (SFileSize req)), put [pub_byte (SPublic req)], put (SDEK req),
             WriteString16 (SOwnerPubKey req), WriteString16 (SOwnerEdPubKey req),
             WriteString16 (SSignature req)]
            @ write_access_list (SAccessList req))"

definition readSeedECDHUploadRequest :: "seed_ecdh_upload_request reader" where
  "readSeedECDHUploadRequest =
     rbind ReadString16 (\<lambda>key. rbind ReadString16 (\<lambda>filePath.
     rbind read_int64 (\<lambda>fileSize. rbind read_bool (\<lambda>public.
     rbind (read_full 32) (\<lambda>dek.
     rbind ReadString16 (\<lambda>ownerPub. rbind ReadString16 (\<lambda>ownerEdPub.
     rbind ReadString16 (\<lambda>sig.
     rbind (read_be 2) (\<lambda>acLen. rbind (rd_times 0 acLen read_entry) (\<lambda>accessList.
       rret \<lparr>SKey = key, SFilePath = filePath, SFileSize = fileSize, SDEK = dek,
              SOwnerPubKey = ownerPub, SOwnerEdPubKey = ownerEdPub, SAccessList = accessList,
              SSignature = sig, SPublic = public\<rparr>))))))))))"

section \<open>Download requests\<close>

text \<open>Three of the writers test the length before they write the opcode.\<close>

definition write_checked :: "byte \<Rightarrow> string \<Rightarrow> written list \<Rightarrow> written" where
  "write_checked opcode s tail =
     (let b = bytes_of s in
      if 0xFFFF < length b then ([], Some TooLong)
      else w_all ([put [opcode], put (be_int 2 (int (length b))), put b] @ tail))"

definition writeDownloadRequest :: "string \<Rightarrow> written" where
  "writeDownloadRequest key = write_checked OpDownload key []"

definition readDownloadRequest :: "string reader" where
  "readDownloadRequest =
     rbind (read_be 2) (\<lambda>klen. rbind (read_full klen) (\<lambda>key. rret (string_of key)))"

definition writeECDHDownloadRequest :: "string \<Rightarrow> byte list \<Rightarrow> written" where
  "writeECDHDownloadRequest name dek = write_checked OpECDHDownload name (write_bytes16 dek)"

definition readECDHDownloadRequest :: "(string \<times> byte list) reader" where
  "readECDHDownloadRequest =
     rbind (read_be 2) (\<lambda>nlen. rbind (read_full nlen) (\<lambda>name.
     rbind read_bytes16 (\<lambda>dek. rret (string_of name, dek))))"

definition writeGetManifestRequest :: "string \<Rightarrow> written" where
  "writeGetManifestRequest name = write_checked OpGetManifest name []"

definition writeDownloadToFileRequest :: "string \<Rightarrow> string \<Rightarrow> written" where
  "writeDownloadToFileRequest key filePath =
     w_all [put [OpDownloadToFile], WriteString16 key, WriteString16 filePath]"

definition readDownloadToFileRequest :: "(string \<times> string) reader" where
  "readDownloadToFileRequest =
     rbind ReadString16 (\<lambda>key. rbind ReadString16 (\<lambda>filePath. rret (key, filePath)))"

definition writeECDHDownloadToFileRequest :: "string \<Rightarrow> string \<Rightarrow> byte list \<Rightarrow> written" where
  "writeECDHDownloadToFileRequest key filePath dek =
     w_all ([put [OpECDHDownloadToFile], WriteString16 key, WriteString16 filePath]
            @ write_bytes16 dek)"

definition readECDHDownloadToFileRequest :: "(string \<times> string \<times> byte list) reader" where
  "readECDHDownloadToFileRequest =
     rbind ReadString16 (\<lambda>key. rbind ReadString16 (\<lambda>filePath. rbind read_bytes16 (\<lambda>dek.
       rret (key, filePath, dek))))"

definition writeDirDownloadRequest :: "string \<Rightarrow> string \<Rightarrow> written" where
  "writeDirDownloadRequest key outputDir =
     w_all [put [OpDirDownload], WriteString16 key, WriteString16 outputDir]"

definition readDirDownloadRequest :: "(string \<times> string) reader" where
  "readDirDownloadRequest =
     rbind ReadString16 (\<lambda>key. rbind ReadString16 (\<lambda>outputDir. rret (key, outputDir)))"

definition writeECDHDirDownloadRequest :: "string \<Rightarrow> string \<Rightarrow> byte list \<Rightarrow> written" where
  "writeECDHDirDownloadRequest key outputDir dek =
     w_all ([put [OpECDHDirDownload], WriteString16 key, WriteString16 outputDir]
            @ write_bytes16 dek)"

definition readECDHDirDownloadRequest :: "(string \<times> string \<times> byte list) reader" where
  "readECDHDirDownloadRequest =
     rbind ReadString16 (\<lambda>key. rbind ReadString16 (\<lambda>outputDir. rbind read_bytes16 (\<lambda>dek.
       rret (key, outputDir, dek))))"

section \<open>Requests of one string\<close>

definition writeResolveAliasRequest :: "string \<Rightarrow> written" where
  "writeResolveAliasRequest alias = w_all [put [OpResolveAlias], WriteString16 alias]"

definition readResolveAliasRequest :: "string reader" where
  "readResolveAliasRequest = ReadString16"

definition writeBrowsePeerRequest :: "string \<Rightarrow> written" where
  "writeBrowsePeerRequest peerAddr = w_all [put [OpBrowsePeer], WriteString16 peerAddr]"

definition readBrowsePeerRequest :: "string reader" where
  "readBrowsePeerRequest = ReadString16"

definition writeListTransfersRequest :: written where
  "writeListTransfersRequest = put [OpListTransfers]"

definition writeCancelTransferRequest :: "string \<Rightarrow> written" where
  "writeCancelTransferRequest tid = w_all [put [OpCancelTransfer], WriteString16 tid]"

definition readTransferIDRequest :: "string reader" where
  "readTransferIDRequest = ReadString16"

definition writePauseTransferRequest :: "string \<Rightarrow> written" where
  "writePauseTransferRequest tid = w_all [put [OpPauseTransfer], WriteString16 tid]"

definition writeResumeTransferRequest :: "string \<Rightarrow> written" where
  "writeResumeTransferRequest tid = w_all [put [OpResumeTransfer], WriteString16 tid]"

definition writeRemoveFileRequest :: "string \<Rightarrow> written" where
  "writeRemoveFileRequest key = w_all [put [OpRemoveFile], WriteString16 key]"

definition writeSearchRequest :: "string \<Rightarrow> written" where
  "writeSearchRequest query = w_all [put [OpSearch], WriteString16 query]"

text \<open>\<open>DaemonClient.peerAction\<close> and \<open>DaemonClient.transferAction\<close> of the terminal client and
  \<open>connect\<close>, \<open>disconnect\<close> and \<open>unblock\<close> of the command line write an opcode and a string.\<close>

definition write_action :: "byte \<Rightarrow> string \<Rightarrow> written" where
  "write_action opcode s = w_all [put [opcode], WriteString16 s]"

definition write_send :: "string \<Rightarrow> string \<Rightarrow> written" where
  "write_send fileKey peer = w_all [put [OpSendToPeer], WriteString16 fileKey, WriteString16 peer]"

section \<open>Responses\<close>

definition writeManifestInfoResponse :: "chunk_manifest \<Rightarrow> bool \<Rightarrow> byte list" where
  "writeManifestInfoResponse manifest isDirectory =
     [StatusOK, pub_byte (MEncrypted manifest), pub_byte isDirectory] @
     (if \<not> MEncrypted manifest then []
      else WriteString16NoErr (MOwnerPubKey manifest)
        @ be_int 2 (int (length (MAccessList manifest)))
        @ concat (map (\<lambda>e. WriteString16NoErr (RecipientPubKey e)
                          @ WriteString16NoErr (WrappedDEK e)) (MAccessList manifest)))"

definition readManifestInfoResponse :: "manifest_info_response reader" where
  "readManifestInfoResponse =
     rbind (read_full 3) (\<lambda>hdr.
       if hdr ! 0 \<noteq> StatusOK then
         rbind (read_full 6) (\<lambda>cl.
         rbind (rlabel ''server error (message unreadable)'' (read_full (be_nat (drop 1 hdr @ cl))))
           (\<lambda>errMsg. rfail (Remote (string_of errMsg))))
       else if hdr ! 1 \<noteq> 0x01 then
         rret \<lparr>REncrypted = False, RIsDirectory = (hdr ! 2 = 0x01), ROwnerPub = [],
                RAccessList = []\<rparr>
       else
         rbind (rlabel ''ownerPub'' ReadString16) (\<lambda>ownerPub.
         rbind (rlabel ''accessCount'' (read_be 2)) (\<lambda>count.
         rbind (rd_times 0 count read_entry_labelled) (\<lambda>accessList.
           rret \<lparr>REncrypted = True, RIsDirectory = (hdr ! 2 = 0x01), ROwnerPub = ownerPub,
                  RAccessList = accessList\<rparr>))))"

definition write_alias :: "alias_result \<Rightarrow> byte list" where
  "write_alias r = WriteString16NoErr (AFingerprint r) @ WriteString16NoErr (AX25519PubHex r)
     @ WriteString16NoErr (AEd25519PubHex r) @ WriteString16NoErr (ANodeAddr r)"

definition read_alias :: "alias_result reader" where
  "read_alias =
     rbind ReadString16 (\<lambda>fp. rbind ReadString16 (\<lambda>x25519. rbind ReadString16 (\<lambda>ed25519.
     rbind ReadString16 (\<lambda>addr.
       rret \<lparr>AFingerprint = fp, AX25519PubHex = x25519, AEd25519PubHex = ed25519,
              ANodeAddr = addr\<rparr>))))"

definition writeResolveAliasResponse :: "alias_result list \<Rightarrow> byte list" where
  "writeResolveAliasResponse results =
     [StatusOK] @ be_int 2 (int (length results)) @ concat (map write_alias results)"

definition readResolveAliasResponse :: "alias_result list reader" where
  "readResolveAliasResponse =
     rbind read_byte (\<lambda>status.
       if status \<noteq> StatusOK then
         rbind (rlabel ''server error (length unreadable)'' (read_be 4)) (\<lambda>mlen.
         rbind (rlabel ''server error (message unreadable)'' (read_full mlen)) (\<lambda>msg.
           rfail (Remote (string_of msg))))
       else rbind (read_be 2) (\<lambda>count. rd_times 0 count (\<lambda>_. read_alias)))"

section \<open>Requests and the dispatch\<close>

datatype ipc_request =
    Upload string int bool
  | Download string
  | ECDHUpload ecdh_upload_request
  | ECDHDownload string "byte list"
  | GetManifest string
  | ResolveAlias string
  | DownloadToFile string string
  | ECDHDownloadToFile string string "byte list"
  | DirUpload string string bool
  | DirDownload string string
  | ECDHDirUpload ecdh_dir_upload_request
  | ECDHDirDownload string string "byte list"
  | ListUploads
  | ListDownloads
  | BrowsePeer string
  | ListPeers
  | NodeStatus
  | ListTransfers
  | CancelTransfer string
  | PauseTransfer string
  | ResumeTransfer string
  | RemoveFile string
  | SearchFiles string
  | ConnectPeer string
  | DisconnectPeer string
  | FullBrowse string
  | SendToPeer string string
  | ListInbox
  | UnblockPeer string
  | ScanLAN
  | SeedUpload string string int bool
  | SeedECDHUpload seed_ecdh_upload_request
  | Shutdown

text \<open>The writer a client uses; \<open>None\<close> for the two requests no client writes.\<close>

fun write_request :: "ipc_request \<Rightarrow> written option" where
  "write_request (Upload key fileSize public) = None"
| "write_request (Download key) = Some (writeDownloadRequest key)"
| "write_request (ECDHUpload req) = None"
| "write_request (ECDHDownload name dek) = Some (writeECDHDownloadRequest name dek)"
| "write_request (GetManifest name) = Some (writeGetManifestRequest name)"
| "write_request (ResolveAlias alias) = Some (writeResolveAliasRequest alias)"
| "write_request (DownloadToFile key path) = Some (writeDownloadToFileRequest key path)"
| "write_request (ECDHDownloadToFile key path dek) = Some (writeECDHDownloadToFileRequest key path dek)"
| "write_request (DirUpload key path public) = Some (writeDirUploadRequest key path public)"
| "write_request (DirDownload key out) = Some (writeDirDownloadRequest key out)"
| "write_request (ECDHDirUpload req) = Some (writeECDHDirUploadRequest req)"
| "write_request (ECDHDirDownload key out dek) = Some (writeECDHDirDownloadRequest key out dek)"
| "write_request ListUploads = Some (put [OpListUploads])"
| "write_request ListDownloads = Some (put [OpListDownloads])"
| "write_request (BrowsePeer addr) = Some (writeBrowsePeerRequest addr)"
| "write_request ListPeers = Some (put [OpListPeers])"
| "write_request NodeStatus = Some (put [OpNodeStatus])"
| "write_request ListTransfers = Some writeListTransfersRequest"
| "write_request (CancelTransfer tid) = Some (writeCancelTransferRequest tid)"
| "write_request (PauseTransfer tid) = Some (writePauseTransferRequest tid)"
| "write_request (ResumeTransfer tid) = Some (writeResumeTransferRequest tid)"
| "write_request (RemoveFile key) = Some (writeRemoveFileRequest key)"
| "write_request (SearchFiles q) = Some (writeSearchRequest q)"
| "write_request (ConnectPeer addr) = Some (write_action OpConnectPeer addr)"
| "write_request (DisconnectPeer addr) = Some (write_action OpDisconnectPeer addr)"
| "write_request (FullBrowse addr) = Some (write_action OpFullBrowse addr)"
| "write_request (SendToPeer key peer) = Some (write_send key peer)"
| "write_request ListInbox = Some (put [OpListInbox])"
| "write_request (UnblockPeer addr) = Some (write_action OpUnblockPeer addr)"
| "write_request ScanLAN = Some (put [OpScanLAN])"
| "write_request (SeedUpload key path fileSize public) =
     Some (writeSeedUploadRequest key path fileSize public)"
| "write_request (SeedECDHUpload req) = Some (writeSeedECDHUploadRequest req)"
| "write_request Shutdown = Some (put [OpShutdown])"

definition rmap :: "('a \<Rightarrow> 'b) \<Rightarrow> 'a reader \<Rightarrow> 'b reader" where
  "rmap f m = rbind m (\<lambda>x. rret (f x))"

text \<open>The handler an opcode selects, up to the end of its request; an unknown opcode selects none.\<close>

definition read_body :: "byte \<Rightarrow> ipc_request reader option" where
  "read_body opcode =
    (if opcode = OpUpload then Some (rmap (\<lambda>(k, n, p). Upload k n p) readUploadRequest)
     else if opcode = OpDownload then Some (rmap Download readDownloadRequest)
     else if opcode = OpECDHUpload then Some (rmap ECDHUpload readECDHUploadRequest)
     else if opcode = OpECDHDownload then Some (rmap (\<lambda>(k, d). ECDHDownload k d) readECDHDownloadRequest)
     else if opcode = OpGetManifest then Some (rmap GetManifest readDownloadRequest)
     else if opcode = OpResolveAlias then Some (rmap ResolveAlias readResolveAliasRequest)
     else if opcode = OpDownloadToFile then Some (rmap (\<lambda>(k, f). DownloadToFile k f) readDownloadToFileRequest)
     else if opcode = OpECDHDownloadToFile then
       Some (rmap (\<lambda>(k, f, d). ECDHDownloadToFile k f d) readECDHDownloadToFileRequest)
     else if opcode = OpDirUpload then Some (rmap (\<lambda>(k, d, p). DirUpload k d p) readDirUploadRequest)
     else if opcode = OpDirDownload then Some (rmap (\<lambda>(k, d). DirDownload k d) readDirDownloadRequest)
     else if opcode = OpECDHDirUpload then Some (rmap ECDHDirUpload readECDHDirUploadRequest)
     else if opcode = OpECDHDirDownload then
       Some (rmap (\<lambda>(k, out, d). ECDHDirDownload k out d) readECDHDirDownloadRequest)
     else if opcode = OpListUploads then Some (rret ListUploads)
     else if opcode = OpListDownloads then Some (rret ListDownloads)
     else if opcode = OpBrowsePeer then Some (rmap BrowsePeer readBrowsePeerRequest)
     else if opcode = OpListPeers then Some (rret ListPeers)
     else if opcode = OpNodeStatus then Some (rret NodeStatus)
     else if opcode = OpListTransfers then Some (rret ListTransfers)
     else if opcode = OpCancelTransfer then Some (rmap CancelTransfer readTransferIDRequest)
     else if opcode = OpPauseTransfer then Some (rmap PauseTransfer readTransferIDRequest)
     else if opcode = OpResumeTransfer then Some (rmap ResumeTransfer readTransferIDRequest)
     else if opcode = OpRemoveFile then Some (rmap RemoveFile ReadString16)
     else if opcode = OpSearch then Some (rmap SearchFiles ReadString16)
     else if opcode = OpConnectPeer then Some (rmap ConnectPeer ReadString16)
     else if opcode = OpDisconnectPeer then Some (rmap DisconnectPeer ReadString16)
     else if opcode = OpFullBrowse then Some (rmap FullBrowse ReadString16)
     else if opcode = OpSendToPeer then
       Some (rbind ReadString16 (\<lambda>fileKey. rmap (SendToPeer fileKey) ReadString16))
     else if opcode = OpListInbox then Some (rret ListInbox)
     else if opcode = OpUnblockPeer then Some (rmap UnblockPeer ReadString16)
     else if opcode = OpScanLAN then Some (rret ScanLAN)
     else if opcode = OpSeedUpload then
       Some (rmap (\<lambda>(k, f, n, p). SeedUpload k f n p) readSeedUploadRequest)
     else if opcode = OpSeedECDHUpload then Some (rmap SeedECDHUpload readSeedECDHUploadRequest)
     else if opcode = OpShutdown then Some (rret Shutdown)
     else None)"

text \<open>A connection is dropped without a reply on an unknown opcode, as on a missing one.\<close>

definition read_request :: "ipc_request reader" where
  "read_request =
     rbind read_byte (\<lambda>opcode.
       case read_body opcode of None \<Rightarrow> rfail (Remote ''unknown opcode'') | Some m \<Rightarrow> m)"

section \<open>Proofs about requests\<close>

lemma w_then_ok [simp]: "snd (w_then v w) = None \<longleftrightarrow> snd v = None \<and> snd w = None"
  by (auto simp: w_then_def split: option.splits)

lemma w_all_ok: "snd (w_all ws) = None \<longleftrightarrow> (\<forall>w \<in> set ws. snd w = None)"
  by (induction ws) (auto simp: put_def w_then_def split: option.splits)

lemma w_all_bytes: "snd (w_all ws) = None \<Longrightarrow> fst (w_all ws) = concat (map fst ws)"
  by (induction ws) (auto simp: put_def w_then_def split: option.splits)

lemma put_simps [simp]: "fst (put b) = b" "snd (put b) = None"
  by (simp_all add: put_def)

lemma WriteString16_simps [simp]:
  "fst (WriteString16 s) = str16 s" "snd (WriteString16 s) = None \<longleftrightarrow> short s"
  by (cases "short s"; simp add: WriteString16_short WriteString16_long str16_long)+

lemma read_body_simps:
  "read_body OpUpload = Some (rmap (\<lambda>(k, n, p). Upload k n p) readUploadRequest)"
  "read_body OpDownload = Some (rmap Download readDownloadRequest)"
  "read_body OpECDHUpload = Some (rmap ECDHUpload readECDHUploadRequest)"
  "read_body OpECDHDownload = Some (rmap (\<lambda>(k, d). ECDHDownload k d) readECDHDownloadRequest)"
  "read_body OpGetManifest = Some (rmap GetManifest readDownloadRequest)"
  "read_body OpResolveAlias = Some (rmap ResolveAlias readResolveAliasRequest)"
  "read_body OpDownloadToFile = Some (rmap (\<lambda>(k, f). DownloadToFile k f) readDownloadToFileRequest)"
  "read_body OpECDHDownloadToFile = Some (rmap (\<lambda>(k, f, d). ECDHDownloadToFile k f d) readECDHDownloadToFileRequest)"
  "read_body OpDirUpload = Some (rmap (\<lambda>(k, d, p). DirUpload k d p) readDirUploadRequest)"
  "read_body OpDirDownload = Some (rmap (\<lambda>(k, d). DirDownload k d) readDirDownloadRequest)"
  "read_body OpECDHDirUpload = Some (rmap ECDHDirUpload readECDHDirUploadRequest)"
  "read_body OpECDHDirDownload = Some (rmap (\<lambda>(k, out, d). ECDHDirDownload k out d) readECDHDirDownloadRequest)"
  "read_body OpListUploads = Some (rret ListUploads)"
  "read_body OpListDownloads = Some (rret ListDownloads)"
  "read_body OpBrowsePeer = Some (rmap BrowsePeer readBrowsePeerRequest)"
  "read_body OpListPeers = Some (rret ListPeers)"
  "read_body OpNodeStatus = Some (rret NodeStatus)"
  "read_body OpListTransfers = Some (rret ListTransfers)"
  "read_body OpCancelTransfer = Some (rmap CancelTransfer readTransferIDRequest)"
  "read_body OpPauseTransfer = Some (rmap PauseTransfer readTransferIDRequest)"
  "read_body OpResumeTransfer = Some (rmap ResumeTransfer readTransferIDRequest)"
  "read_body OpRemoveFile = Some (rmap RemoveFile ReadString16)"
  "read_body OpSearch = Some (rmap SearchFiles ReadString16)"
  "read_body OpConnectPeer = Some (rmap ConnectPeer ReadString16)"
  "read_body OpDisconnectPeer = Some (rmap DisconnectPeer ReadString16)"
  "read_body OpFullBrowse = Some (rmap FullBrowse ReadString16)"
  "read_body OpSendToPeer = Some (rbind ReadString16 (\<lambda>fileKey. rmap (SendToPeer fileKey) ReadString16))"
  "read_body OpListInbox = Some (rret ListInbox)"
  "read_body OpUnblockPeer = Some (rmap UnblockPeer ReadString16)"
  "read_body OpScanLAN = Some (rret ScanLAN)"
  "read_body OpSeedUpload = Some (rmap (\<lambda>(k, f, n, p). SeedUpload k f n p) readSeedUploadRequest)"
  "read_body OpSeedECDHUpload = Some (rmap SeedECDHUpload readSeedECDHUploadRequest)"
  "read_body OpShutdown = Some (rret Shutdown)"
  by (simp_all add: read_body_def opcode_defs)

definition entry_ok :: "access_entry \<Rightarrow> bool" where
  "entry_ok e \<longleftrightarrow> short (RecipientPubKey e) \<and> short (WrappedDEK e)"

definition entry_bytes :: "access_entry \<Rightarrow> byte list" where
  "entry_bytes e = str16 (RecipientPubKey e) @ str16 (WrappedDEK e)"

lemma read_entry_bytes [wire_reads]:
  "entry_ok e \<Longrightarrow> read_entry i (entry_bytes e @ rest) = Inr (e, rest)"
  by (simp add: read_entry_def entry_bytes_def entry_ok_def wire_reads)

lemma read_entry_labelled_bytes [wire_reads]:
  "entry_ok e \<Longrightarrow> read_entry_labelled i (entry_bytes e @ rest) = Inr (e, rest)"
  by (simp add: read_entry_labelled_def entry_bytes_def entry_ok_def wire_reads)

lemma access_list_bytes:
  "concat (map fst (write_access_list al)) =
   be_int 2 (int (length al)) @ concat (map entry_bytes al)"
  by (induction al) (simp_all add: write_access_list_def entry_bytes_def)

lemma access_list_ok:
  "(\<forall>w \<in> set (write_access_list al). snd w = None) \<longleftrightarrow> (\<forall>e \<in> set al. entry_ok e)"
  by (auto simp: write_access_list_def entry_ok_def)

lemma read_entries [wire_reads]:
  "\<forall>e \<in> set al. entry_ok e \<Longrightarrow>
   rd_times i (length al) read_entry (concat (map entry_bytes al) @ rest) = Inr (al, rest)"
  by (rule rd_times_concat) (simp add: wire_reads)

lemma read_entries_labelled [wire_reads]:
  "\<forall>e \<in> set al. entry_ok e \<Longrightarrow>
   rd_times i (length al) read_entry_labelled (concat (map entry_bytes al) @ rest) = Inr (al, rest)"
  by (rule rd_times_concat) (simp add: wire_reads)

lemma count16 [wire_reads]: "n \<le> 65535 \<Longrightarrow> nat (int n mod 65536) = n"
  by (simp add: nat_mod_distrib)

lemma short_count16 [wire_reads]: "short s \<Longrightarrow> nat (int (length s) mod 65536) = length s"
  by (simp add: short_def nat_mod_distrib)

lemma read_bool_pub [wire_reads]: "read_bool (pub_byte p # rest) = Inr (p, rest)"
  by (simp add: read_bool_def pub_byte_def wire_reads)

lemma read_bytes16_bytes [wire_reads]:
  "length b \<le> 65535 \<Longrightarrow> read_bytes16 (be_int 2 (int (length b)) @ b @ rest) = Inr (b, rest)"
  by (simp add: read_bytes16_def wire_reads)

text \<open>What the writers leave to their callers: lengths and counts that fit their fields.\<close>

fun request_ok :: "ipc_request \<Rightarrow> bool" where
  "request_ok (ECDHDownload name dek) \<longleftrightarrow> length dek \<le> 0xFFFF"
| "request_ok (ECDHDownloadToFile key path dek) \<longleftrightarrow> length dek \<le> 0xFFFF"
| "request_ok (ECDHDirDownload key out dek) \<longleftrightarrow> length dek \<le> 0xFFFF"
| "request_ok (ECDHDirUpload req) \<longleftrightarrow> length (DAccessList req) \<le> 0xFFFF"
| "request_ok (SeedUpload key path fileSize public) \<longleftrightarrow> in_i64 fileSize"
| "request_ok (SeedECDHUpload req) \<longleftrightarrow>
     in_i64 (SFileSize req) \<and> length (SDEK req) = 32 \<and> length (SAccessList req) \<le> 0xFFFF"
| "request_ok r \<longleftrightarrow> True"

lemma written_sequence:
  assumes "w_all ws = (bs, None)"
  shows "bs = concat (map fst ws)" and "\<forall>w \<in> set ws. snd w = None"
  using assms w_all_ok [of ws] w_all_bytes [of ws] by auto

lemma read_request_body:
  "read_body opcode = Some m \<Longrightarrow> read_request (opcode # bs) = m bs"
  by (simp add: read_request_def wire_reads)


lemmas request_writers =
  writeDownloadRequest_def writeECDHDownloadRequest_def writeGetManifestRequest_def
  writeResolveAliasRequest_def writeDownloadToFileRequest_def writeECDHDownloadToFileRequest_def
  writeDirUploadRequest_def writeDirDownloadRequest_def writeECDHDirUploadRequest_def
  writeECDHDirDownloadRequest_def writeBrowsePeerRequest_def writeListTransfersRequest_def
  writeCancelTransferRequest_def writePauseTransferRequest_def writeResumeTransferRequest_def
  writeRemoveFileRequest_def writeSearchRequest_def write_action_def write_send_def
  writeSeedUploadRequest_def writeSeedECDHUploadRequest_def

lemma readDownloadRequest_string: "readDownloadRequest = ReadString16"
  by (simp add: readDownloadRequest_def ReadString16_def)

lemma readECDHDownloadRequest_string:
  "readECDHDownloadRequest =
   rbind ReadString16 (\<lambda>name. rbind read_bytes16 (\<lambda>dek. rret (name, dek)))"
  by (rule ext) (simp add: readECDHDownloadRequest_def ReadString16_def rbind_def rret_def
      split: sum.splits)

lemmas request_readers =
  readDownloadRequest_string readECDHDownloadRequest_string readDownloadToFileRequest_def
  readECDHDownloadToFileRequest_def readDirUploadRequest_def readDirDownloadRequest_def
  readECDHDirUploadRequest_def readECDHDirDownloadRequest_def readResolveAliasRequest_def
  readBrowsePeerRequest_def readTransferIDRequest_def readSeedUploadRequest_def
  readSeedECDHUploadRequest_def

text \<open>The writes of a request after its opcode.\<close>

fun request_fields :: "ipc_request \<Rightarrow> byte \<times> written list" where
  "request_fields (Download key) = (OpDownload, [WriteString16 key])"
| "request_fields (ECDHDownload name dek) =
     (OpECDHDownload, WriteString16 name # write_bytes16 dek)"
| "request_fields (GetManifest name) = (OpGetManifest, [WriteString16 name])"
| "request_fields (ResolveAlias alias) = (OpResolveAlias, [WriteString16 alias])"
| "request_fields (DownloadToFile key path) =
     (OpDownloadToFile, [WriteString16 key, WriteString16 path])"
| "request_fields (ECDHDownloadToFile key path dek) =
     (OpECDHDownloadToFile, WriteString16 key # WriteString16 path # write_bytes16 dek)"
| "request_fields (DirUpload key path public) =
     (OpDirUpload, [WriteString16 key, WriteString16 path, put [pub_byte public]])"
| "request_fields (DirDownload key out) =
     (OpDirDownload, [WriteString16 key, WriteString16 out])"
| "request_fields (ECDHDirUpload req) =
     (OpECDHDirUpload,
      [WriteString16 (DStorageKey req), WriteString16 (DDirPath req),
       (if length (DDEK req) \<noteq> 32 then ([], Some BadDEK) else put (DDEK req)),
       WriteString16 (DOwnerPubKey req), WriteString16 (DOwnerEdPubKey req)]
      @ write_access_list (DAccessList req)
      @ [WriteString16 (DSignature req), put [pub_byte (DPublic req)]])"
| "request_fields (ECDHDirDownload key out dek) =
     (OpECDHDirDownload, WriteString16 key # WriteString16 out # write_bytes16 dek)"
| "request_fields (BrowsePeer addr) = (OpBrowsePeer, [WriteString16 addr])"
| "request_fields (CancelTransfer tid) = (OpCancelTransfer, [WriteString16 tid])"
| "request_fields (PauseTransfer tid) = (OpPauseTransfer, [WriteString16 tid])"
| "request_fields (ResumeTransfer tid) = (OpResumeTransfer, [WriteString16 tid])"
| "request_fields (RemoveFile key) = (OpRemoveFile, [WriteString16 key])"
| "request_fields (SearchFiles q) = (OpSearch, [WriteString16 q])"
| "request_fields (ConnectPeer addr) = (OpConnectPeer, [WriteString16 addr])"
| "request_fields (DisconnectPeer addr) = (OpDisconnectPeer, [WriteString16 addr])"
| "request_fields (FullBrowse addr) = (OpFullBrowse, [WriteString16 addr])"
| "request_fields (SendToPeer key peer) =
     (OpSendToPeer, [WriteString16 key, WriteString16 peer])"
| "request_fields (UnblockPeer addr) = (OpUnblockPeer, [WriteString16 addr])"
| "request_fields (SeedUpload key path fileSize public) =
     (OpSeedUpload, [WriteString16 key, WriteString16 path, put (be_int 8 fileSize),
                     put [pub_byte public]])"
| "request_fields (SeedECDHUpload req) =
     (OpSeedECDHUpload,
      [WriteString16 (SKey req), WriteString16 (SFilePath req), put (be_int 8 (SFileSize req)),
       put [pub_byte (SPublic req)], put (SDEK req), WriteString16 (SOwnerPubKey req),
       WriteString16 (SOwnerEdPubKey req), WriteString16 (SSignature req)]
      @ write_access_list (SAccessList req))"
| "request_fields ListUploads = (OpListUploads, [])"
| "request_fields ListDownloads = (OpListDownloads, [])"
| "request_fields ListPeers = (OpListPeers, [])"
| "request_fields NodeStatus = (OpNodeStatus, [])"
| "request_fields ListTransfers = (OpListTransfers, [])"
| "request_fields ListInbox = (OpListInbox, [])"
| "request_fields ScanLAN = (OpScanLAN, [])"
| "request_fields Shutdown = (OpShutdown, [])"
| "request_fields (Upload key fileSize public) = (OpUpload, [])"
| "request_fields (ECDHUpload req) = (OpECDHUpload, [])"

text \<open>Without an error, the writers that test the length first write what the others write.\<close>

lemma w_all_single: "snd w = None \<Longrightarrow> w_all [w] = w"
  by (cases w) (simp add: put_def w_then_def)

lemma write_checked_ok:
  "write_checked opcode s ws = (bs, None) \<Longrightarrow>
   w_all (put [opcode] # WriteString16 s # ws) = (bs, None)"
  by (auto simp: write_checked_def WriteString16_def Let_def put_def w_then_def
      split: if_splits option.splits)

lemma request_written:
  assumes "write_request r = Some (bs, None)"
  shows "bs = fst (request_fields r) # concat (map fst (snd (request_fields r)))"
    and "\<forall>w \<in> set (snd (request_fields r)). snd w = None"
proof -
  have "w_all (put [fst (request_fields r)] # snd (request_fields r)) = (bs, None)"
    using assms
    by (cases r) (auto simp: request_writers w_all_single simp del: w_all.simps intro: write_checked_ok)
  then show "bs = fst (request_fields r) # concat (map fst (snd (request_fields r)))"
    and "\<forall>w \<in> set (snd (request_fields r)). snd w = None"
    using written_sequence by fastforce+
qed


lemma request_roundtrip_bytes:
  assumes "write_request r = Some (bs, None)" and "request_ok r"
  shows "read_request (bs @ rest) = Inr (r, rest)"
proof -
  define ws where "ws = snd (request_fields r)"
  define m where "m = the (read_body (fst (request_fields r)))"
  have ok: "\<forall>w \<in> set ws. snd w = None" and bs: "bs = fst (request_fields r) # concat (map fst ws)"
    using request_written [OF assms(1)] by (simp_all add: ws_def)
  have m: "read_body (fst (request_fields r)) = Some m"
    by (cases r) (simp_all add: m_def read_body_simps)
  have "m (concat (map fst ws) @ rest) = Inr (r, rest)"
    using assms ok
    by (cases r)
      (simp_all add: ws_def m_def read_body_simps rmap_def request_readers wire_reads
        write_bytes16_def access_list_bytes access_list_ok ball_Un split: if_splits)
  then show ?thesis using read_request_body [OF m] bs by simp
qed


lemma stable_choice:
  "stable m \<Longrightarrow> pred_option stable e \<Longrightarrow> pred_option stable (if c then Some m else e)"
  by simp

lemma stable_None: "pred_option stable None"
  by simp

lemma stable_rmap [stable_intros]: "stable m \<Longrightarrow> stable (rmap f m)"
  unfolding rmap_def by (intro stable_intros)

lemma stable_read_bool [stable_intros]: "stable read_bool"
  unfolding read_bool_def by (intro stable_intros)

lemma stable_read_bytes16 [stable_intros]: "stable read_bytes16"
  unfolding read_bytes16_def by (intro stable_intros)

lemma stable_read_entry [stable_intros]: "stable (read_entry i)"
  unfolding read_entry_def by (intro stable_intros)

lemma stable_read_entry_labelled [stable_intros]: "stable (read_entry_labelled i)"
  unfolding read_entry_labelled_def by (intro stable_intros)

lemma stable_read_body: "pred_option stable (read_body opcode)"
  unfolding read_body_def request_readers readUploadRequest_def readECDHUploadRequest_def
  by (intro stable_choice stable_None stable_intros)

lemma stable_read_request [stable_intros]: "stable read_request"
proof -
  have "stable (case read_body opcode of None \<Rightarrow> rfail (Remote ''unknown opcode'') | Some m \<Rightarrow> m)"
    for opcode
    using stable_read_body [of opcode] by (cases "read_body opcode") (auto intro: stable_intros)
  then show ?thesis unfolding read_request_def by (intro stable_intros)
qed

definition request_bytes :: "ipc_request \<Rightarrow> byte list" where
  "request_bytes r = (case write_request r of Some (bs, None) \<Rightarrow> bs | _ \<Rightarrow> [])"

definition sendable :: "ipc_request \<Rightarrow> bool" where
  "sendable r \<longleftrightarrow> request_ok r \<and> (\<exists>bs. write_request r = Some (bs, None))"

lemma sendable_bytes: "sendable r \<Longrightarrow> write_request r = Some (request_bytes r, None)"
  by (auto simp: sendable_def request_bytes_def)

interpretation request: codec request_bytes read_request sendable
  by unfold_locales
    (auto intro: request_roundtrip_bytes sendable_bytes stable_intros simp: sendable_def request_bytes_def)

section \<open>Proofs about responses\<close>

text \<open>The manifest \<open>handleGetManifestInfo\<close> builds for a directory.\<close>

definition synth_manifest :: "bool \<Rightarrow> string \<Rightarrow> access_entry list \<Rightarrow> chunk_manifest" where
  "synth_manifest encrypted owner al =
     \<lparr>MFileKey = [], MTotalSize = 0, MChunkSize = 0, MChunks = [], MMerkleRoot = [],
      MCreatedAt = 0, MEncrypted = encrypted, MOwnerPubKey = owner, MOwnerEdPubKey = [],
      MAccessList = al, MSignature = [], MSeedMode = False, MOriginalSeeder = []\<rparr>"

text \<open>What a client learns of a manifest.\<close>

definition manifest_info :: "chunk_manifest \<Rightarrow> bool \<Rightarrow> manifest_info_response" where
  "manifest_info m isDirectory =
     \<lparr>REncrypted = MEncrypted m, RIsDirectory = isDirectory,
      ROwnerPub = (if MEncrypted m then MOwnerPubKey m else []),
      RAccessList = (if MEncrypted m then MAccessList m else [])\<rparr>"

definition manifest_fits :: "chunk_manifest \<Rightarrow> bool" where
  "manifest_fits m \<longleftrightarrow> MEncrypted m \<longrightarrow>
     short (MOwnerPubKey m) \<and> length (MAccessList m) \<le> 0xFFFF \<and>
     (\<forall>e \<in> set (MAccessList m). entry_ok e)"

lemma entry_bytes_concat:
  "concat (map (\<lambda>e. str16 (RecipientPubKey e) @ str16 (WrappedDEK e)) al) = concat (map entry_bytes al)"
  by (induction al) (simp_all add: entry_bytes_def)

lemma read_header3 [wire_reads]: "read_full 3 (a # b # c # rest) = Inr ([a, b, c], rest)"
  by (simp add: read_full_def)

lemma read_manifest_info [wire_reads]:
  "manifest_fits m \<Longrightarrow>
   readManifestInfoResponse (writeManifestInfoResponse m d @ rest) = Inr (manifest_info m d, rest)"
  by (simp add: readManifestInfoResponse_def writeManifestInfoResponse_def manifest_info_def
      manifest_fits_def wire_reads status_defs entry_bytes_concat pub_byte_def)

lemma read_manifest_error:
  assumes "length msg < 2 ^ 63"
  shows "readManifestInfoResponse (WriteDownloadError msg @ rest) = Inl (Remote msg)"
proof -
  obtain a b cl where len: "be_int 8 (int (length msg)) = a # b # cl" and cl: "length cl = 6"
    using length_be_int [of 8 "int (length msg)"]
    by (cases "be_int 8 (int (length msg))" rule: remdups_adj.cases) auto
  have "be_nat (a # b # cl) = length msg"
    using assms be_nat_be_int [of 8 "int (length msg)"] by (simp add: len nat_mod_distrib)
  then show ?thesis
    by (simp add: readManifestInfoResponse_def WriteDownloadError_def len wire_reads cl status_defs
        rfail_def)
qed

definition info_ok :: "manifest_info_response \<Rightarrow> bool" where
  "info_ok r \<longleftrightarrow>
     (let m = synth_manifest (REncrypted r) (ROwnerPub r) (RAccessList r) in
      manifest_fits m \<and> manifest_info m (RIsDirectory r) = r)"

lemma stable_readManifestInfoResponse [stable_intros]: "stable readManifestInfoResponse"
  unfolding readManifestInfoResponse_def by (intro stable_intros)

interpretation manifest_info: codec
    "\<lambda>r. writeManifestInfoResponse (synth_manifest (REncrypted r) (ROwnerPub r) (RAccessList r))
        (RIsDirectory r)"
    readManifestInfoResponse info_ok
  by unfold_locales (auto simp: info_ok_def Let_def read_manifest_info intro: stable_intros)

definition alias_ok :: "alias_result \<Rightarrow> bool" where
  "alias_ok r \<longleftrightarrow> short (AFingerprint r) \<and> short (AX25519PubHex r) \<and> short (AEd25519PubHex r) \<and>
     short (ANodeAddr r)"

lemma read_alias_bytes [wire_reads]:
  "alias_ok r \<Longrightarrow> read_alias (write_alias r @ rest) = Inr (r, rest)"
  by (simp add: read_alias_def write_alias_def alias_ok_def wire_reads)

lemma stable_read_alias [stable_intros]: "stable read_alias"
  unfolding read_alias_def by (intro stable_intros)

interpretation one_alias: codec write_alias read_alias alias_ok
  by unfold_locales (auto intro: wire_reads stable_intros)

lemma read_aliases [wire_reads]:
  "length rs \<le> 65535 \<Longrightarrow> \<forall>r \<in> set rs. alias_ok r \<Longrightarrow>
   readResolveAliasResponse (writeResolveAliasResponse rs @ rest) = Inr (rs, rest)"
  by (simp add: readResolveAliasResponse_def writeResolveAliasResponse_def wire_reads one_alias.sequence)

lemma stable_readResolveAliasResponse [stable_intros]: "stable readResolveAliasResponse"
  unfolding readResolveAliasResponse_def by (intro stable_intros)

interpretation aliases: codec writeResolveAliasResponse readResolveAliasResponse
    "\<lambda>rs. length rs \<le> 65535 \<and> (\<forall>r \<in> set rs. alias_ok r)"
  by unfold_locales (auto intro: wire_reads stable_intros)

section \<open>Limits of the messages\<close>

text \<open>A manifest with more than 65535 recipients: the count wraps while every entry is written, so
  the client sees the first \<open>n mod 65536\<close> of them and the others stay on the connection.\<close>

lemma read_entries_prefix:
  assumes "\<forall>e \<in> set al. entry_ok e" and "n \<le> length al"
  shows "rd_times i n read_entry_labelled (concat (map entry_bytes al) @ rest) =
         Inr (take n al, concat (map entry_bytes (drop n al)) @ rest)"
proof -
  have "\<forall>e \<in> set (take n al). entry_ok e" using assms(1) by (meson in_set_takeD)
  moreover have "concat (map entry_bytes al) =
      concat (map entry_bytes (take n al)) @ concat (map entry_bytes (drop n al))"
    by (metis append_take_drop_id concat_append map_append)
  moreover have "length (take n al) = n" using assms(2) by simp
  ultimately show ?thesis
    using read_entries_labelled [of "take n al" i "concat (map entry_bytes (drop n al)) @ rest"]
    by simp
qed

lemma manifest_count_wraps_bytes:
  assumes "MEncrypted m" and "short (MOwnerPubKey m)" and "\<forall>e \<in> set (MAccessList m). entry_ok e"
  shows "readManifestInfoResponse (writeManifestInfoResponse m d @ rest) =
         Inr ((manifest_info m d)
                \<lparr>RAccessList := take (length (MAccessList m) mod 65536) (MAccessList m)\<rparr>,
              concat (map entry_bytes (drop (length (MAccessList m) mod 65536) (MAccessList m))) @ rest)"
proof -
  have "nat (int (length (MAccessList m)) mod 65536) = length (MAccessList m) mod 65536"
    by (simp add: nat_mod_distrib)
  then show ?thesis
    using assms
    by (simp add: readManifestInfoResponse_def writeManifestInfoResponse_def manifest_info_def
        wire_reads status_defs entry_bytes_concat pub_byte_def read_entries_prefix)
qed

text \<open>\<open>WriteString16NoErr\<close> writes nothing for a long string, so the reader takes the following
  field for it and runs off the end of the message.\<close>

lemma long_alias_field_lost:
  assumes "\<not> short (AX25519PubHex r)" and "short (AFingerprint r)" and "short (AEd25519PubHex r)"
    and "short (ANodeAddr r)"
  shows "readResolveAliasResponse (writeResolveAliasResponse [r]) = Inl EOF"
proof -
  have eof: "ReadString16 [] = Inl EOF"
    by (simp add: ReadString16_def read_be_def read_full_def)
  have "ReadString16 (str16 (ANodeAddr r)) = Inr (ANodeAddr r, [])"
    using read_str16 [OF assms(4), of "[]"] by simp
  then have "read_alias (write_alias r) = Inl EOF"
    using assms by (simp add: read_alias_def write_alias_def str16_long wire_reads eof)
  then have "rd_times 0 (Suc 0) (\<lambda>_. read_alias) (write_alias r) = Inl EOF"
    by simp
  then show ?thesis
    by (simp add: readResolveAliasResponse_def writeResolveAliasResponse_def wire_reads)
qed

text \<open>The seed request sends whatever key it is given: with 31 bytes the daemon reads the first
  byte of the next field into the key and loses the framing.\<close>

definition short_dek_request :: seed_ecdh_upload_request where
  "short_dek_request = \<lparr>SKey = ''k'', SFilePath = ''p'', SFileSize = 0, SDEK = replicate 31 7,
     SOwnerPubKey = ''a'', SOwnerEdPubKey = ''b'', SAccessList = [], SSignature = ''s'',
     SPublic = False\<rparr>"

lemma seed_dek_unchecked:
  "\<exists>bs. writeSeedECDHUploadRequest short_dek_request = (bs, None) \<and>
        read_request bs = Inl UnexpectedEOF"
proof -
  let ?r = "SeedECDHUpload short_dek_request"
  have w: "snd (writeSeedECDHUploadRequest short_dek_request) = None"
    by (simp add: request_writers short_dek_request_def w_all_ok write_access_list_def short_def)
  then obtain bs where bs: "writeSeedECDHUploadRequest short_dek_request = (bs, None)"
    by (metis prod.collapse)
  have two: "be_bytes 2 n = [word_of_nat (n div 256 mod 256), word_of_nat (n mod 256)]" for n
    by (simp add: numeral_2_eq_2)
  have a: "str16 ''a'' = [0, 1, 97]"
    by (simp add: str16_bytes short_def be_int_def bytes_of_def two)
  define tl where "tl = [1, 97] @ str16 ''b'' @ str16 ''s'' @ be_int 2 0"
  define dk :: "byte list" where "dk = replicate 31 7 @ [0]"
  have "bs = OpSeedECDHUpload # str16 ''k'' @ str16 ''p'' @ be_int 8 0 @ pub_byte False # dk @ tl"
    using request_written(1) [of ?r bs] bs
    by (simp add: short_dek_request_def tl_def dk_def a write_access_list_def)
  moreover have "length dk = 32" by (simp add: dk_def)
  moreover have "ReadString16 tl = Inl UnexpectedEOF"
    by (simp add: tl_def ReadString16_def read_be_def read_full_def be_nat_def str16_bytes short_def)
  ultimately have "read_request bs = Inl UnexpectedEOF"
    by (simp add: read_request_body [OF read_body_simps(32)] rmap_def request_readers wire_reads
        short_def in_i64_def rbind_def)
  with bs show ?thesis by blast
qed

section \<open>Properties\<close>

text \<open>C16. Every request a client manages to write is the request the daemon reads, whatever bytes
  follow it on the connection (the body of an upload): the opcode selects the right reader and
  no field is lost or shifted. The writers themselves refuse strings that do not fit their
  length field; what they leave to their callers is the hypothesis \<open>request_ok\<close>: key material and access
  lists whose length fits 16 bits, a 32-byte key in a seed upload and sizes that fit \<open>int64\<close>. Requests that break it
  are written without an error and misread (\<open>seed_dek_unchecked\<close>).\<close>

theorem request_roundtrip:
  assumes "write_request r = Some (bs, None)" and "request_ok r"
  shows "read_request (bs @ rest) = Inr (r, rest)"
  using assms by (rule request_roundtrip_bytes)

definition demo_request :: ipc_request where
  "demo_request = SeedECDHUpload
     \<lparr>SKey = ''fp/name'', SFilePath = ''/tmp/f'', SFileSize = 300, SDEK = replicate 32 7,
      SOwnerPubKey = ''aa'', SOwnerEdPubKey = ''bb'',
      SAccessList = [\<lparr>RecipientPubKey = ''cc'', WrappedDEK = ''dd''\<rparr>], SSignature = ''ee'',
      SPublic = True\<rparr>"

lemma demo_request_written: "write_request demo_request = Some (request_bytes demo_request, None)"
proof -
  have "map_option snd (write_request demo_request) = Some None"
    by (simp add: demo_request_def request_writers w_all_ok write_access_list_def short_def)
  then show ?thesis by (auto simp: request_bytes_def split: option.splits prod.splits)
qed

lemma demo_request_ok: "request_ok demo_request"
  by (simp add: demo_request_def in_i64_def)

theorem request_roundtrip_witness:
  "read_request (request_bytes demo_request @ [1, 2, 3]) = Inr (demo_request, [1, 2, 3])"
  by (rule request_roundtrip [OF demo_request_written demo_request_ok])

text \<open>C17. A request within the limits of \<open>request_ok\<close> whose connection is cut before its last byte is an error of
  the daemon's reader, never a shorter request: no handler acts on part of such a message. Beyond the limits the
  16-bit count of an access list wraps, and a cut after the counted entries is accepted.\<close>

theorem truncated_request_rejected:
  assumes "write_request r = Some (p @ q, None)" and "request_ok r" and "q \<noteq> []"
  shows "\<exists>e. read_request p = Inl e"
proof -
  have "sendable r" and "request_bytes r = p @ q"
    using assms by (auto simp: sendable_def request_bytes_def)
  then show ?thesis using request.truncated_fails assms(3) by blast
qed

theorem truncated_request_rejected_witness:
  "\<exists>e. read_request (butlast (request_bytes demo_request)) = Inl e"
proof -
  have "request_bytes demo_request \<noteq> []"
    using request_written(1) [OF demo_request_written] by (metis list.distinct(1))
  then have "write_request demo_request =
      Some (butlast (request_bytes demo_request) @ [last (request_bytes demo_request)], None)"
    using demo_request_written by simp
  from truncated_request_rejected [OF this demo_request_ok] show ?thesis by simp
qed

text \<open>The manifest response carries every recipient up to 65535 of them; beyond that its count is
  taken modulo 65536 and the client is left with the first entries only, the rest of them being
  read as whatever comes next.\<close>

lemma manifest_response_recipients:
  assumes "MEncrypted m" and "short (MOwnerPubKey m)" and "\<forall>e \<in> set (MAccessList m). entry_ok e"
  shows "\<exists>info left. readManifestInfoResponse (writeManifestInfoResponse m d @ rest) = Inr (info, left) \<and>
           ROwnerPub info = MOwnerPubKey m \<and> RIsDirectory info = d \<and>
           RAccessList info = take (length (MAccessList m) mod 65536) (MAccessList m) \<and>
           (left = rest \<longleftrightarrow> length (MAccessList m) \<le> 65535)"
proof -
  have ne: "entry_bytes e \<noteq> []" if "entry_ok e" for e
    using that by (simp add: entry_bytes_def entry_ok_def str16_bytes flip: length_0_conv)
  let ?n = "length (MAccessList m)"
  have "drop (?n mod 65536) (MAccessList m) = [] \<longleftrightarrow> ?n \<le> 65535"
    using mod_less_divisor [of 65536 ?n] by (cases "?n \<le> 65535") auto
  moreover have "concat (map entry_bytes (drop k (MAccessList m))) = [] \<longleftrightarrow> drop k (MAccessList m) = []" for k
    using assms(3) ne by (cases "drop k (MAccessList m)") (auto dest: in_set_dropD, metis in_set_dropD list.set_intros(1))
  ultimately show ?thesis
    using manifest_count_wraps_bytes [OF assms, of d rest] assms(1)
    by (simp add: manifest_info_def)
qed

theorem manifest_response_recipients_witness:
  "\<exists>info left. readManifestInfoResponse
     (writeManifestInfoResponse (synth_manifest True ''aa'' [\<lparr>RecipientPubKey = ''cc'', WrappedDEK = ''dd''\<rparr>]) True
      @ []) = Inr (info, left) \<and>
     ROwnerPub info = ''aa'' \<and> RIsDirectory info = True \<and>
     RAccessList info = [\<lparr>RecipientPubKey = ''cc'', WrappedDEK = ''dd''\<rparr>] \<and> left = []"
  using manifest_response_recipients
    [of "synth_manifest True ''aa'' [\<lparr>RecipientPubKey = ''cc'', WrappedDEK = ''dd''\<rparr>]" True "[]"]
  by (auto simp: synth_manifest_def entry_ok_def short_def)

end
