(* ===== verification/StateDB.thy ===== *)
theory StateDB
  imports Swarm
begin

text \<open>
  The persistent local state of the daemon (src/State/state.go).  bbolt is not part of the
  repository: \<open>'db bolt\<close> is the interface the code uses of it, and \<open>bolt_ok\<close> names the documented
  behaviour the proofs rely on (a bucket is a map from keys to values, visited in key order).
  A bucket's value is the JSON document the code stores: the value that was marshalled, or bytes
  that are not JSON of the expected type.  A transaction that returns an error leaves the
  database as it was, so an operation returns its error or the new state.
\<close>

named_theorems state_simps \<open>lookups after an operation of the state database\<close>

section \<open>Entries\<close>

record tombstone_entry =
  TSKey :: string
  TSDeletedAt :: int
  TSFingerprint :: string

record upload_entry =
  UEKey :: string
  UEName :: string
  UEPath :: string
  UESize :: int
  UEEncrypted :: bool
  UEPublic :: bool
  UEIsDir :: bool
  UETimestamp :: int

record download_entry =
  DEKey :: string
  DEName :: string
  DEOutputPath :: string
  DESize :: int
  DEEncrypted :: bool
  DEIsDir :: bool
  DETimestamp :: int

record transfer_history_entry =
  HID :: string
  HDirection :: int
  HKey :: string
  HName :: string
  HSize :: int
  HIsDir :: bool
  HEncrypted :: bool
  HPublic :: bool
  HSpeed :: real
  HStartedAt :: int
  HDoneAt :: int
  HStatus :: int
  HError :: string

record public_file_entry =
  PFKey :: string
  PFName :: string
  PFSize :: int
  PFIsDir :: bool
  PFTimestamp :: int

record known_peer_entry =
  KPAddr :: string
  KPAlias :: string
  KPAddedAt :: int

record ignored_peer_entry =
  IPAddr :: string
  IPFingerprint :: string
  IPIgnoredAt :: int

record inbox_entry =
  IBKey :: string
  IBName :: string
  IBSize :: int
  IBIsDir :: bool
  IBSenderAlias :: string
  IBSenderFP :: string
  IBReceivedAt :: int

record outbox_entry =
  OBID :: string
  OBRecipientFP :: string
  OBRecipientHint :: string
  OBFileKey :: string
  OBFileName :: string
  OBFileSize :: int
  OBIsDir :: bool
  OBCreatedAt :: int

record cache_entry =
  CEFileKey :: string
  CESize :: int
  CELastAccessed :: int

section \<open>The database\<close>

datatype bucket =
    Uploads | Downloads | PublicFiles | Config | Tombstones | KnownPeers | Inbox | IgnoredPeers
  | TransferHistory | Outbox | SeedSources | Providers | CacheUsage

datatype doc =
    DUpload upload_entry | DDownload download_entry | DPublic public_file_entry
  | DTombstone tombstone_entry | DKnownPeer known_peer_entry | DInbox inbox_entry
  | DIgnored ignored_peer_entry | DHistory transfer_history_entry | DOutbox outbox_entry
  | DSeed seed_source | DProviders "provider_record list" | DCache cache_entry | DOther "byte list"

record 'db bolt =
  BGet :: "'db \<Rightarrow> bucket \<Rightarrow> string \<Rightarrow> doc option"
  BPut :: "'db \<Rightarrow> bucket \<Rightarrow> string \<Rightarrow> doc \<Rightarrow> string + 'db"
  BDelete :: "'db \<Rightarrow> bucket \<Rightarrow> string \<Rightarrow> string + 'db"
  BForEach :: "'db \<Rightarrow> bucket \<Rightarrow> (string \<times> doc) list"

record 'db state_db =
  Ops :: "'db bolt"
  Data :: 'db

datatype state_error = BoltError string | JsonError | StateNotFound

definition db_get :: "'db state_db \<Rightarrow> bucket \<Rightarrow> string \<Rightarrow> doc option" where
  "db_get s b k = BGet (Ops s) (Data s) b k"

definition db_each :: "'db state_db \<Rightarrow> bucket \<Rightarrow> (string \<times> doc) list" where
  "db_each s b = BForEach (Ops s) (Data s) b"

definition db_put :: "bucket \<Rightarrow> string \<Rightarrow> doc \<Rightarrow> 'db state_db \<Rightarrow> state_error + 'db state_db" where
  "db_put b k d s =
     (case BPut (Ops s) (Data s) b k d of Inl e \<Rightarrow> Inl (BoltError e) | Inr db \<Rightarrow> Inr (s\<lparr>Data := db\<rparr>))"

definition db_delete :: "bucket \<Rightarrow> string \<Rightarrow> 'db state_db \<Rightarrow> state_error + 'db state_db" where
  "db_delete b k s =
     (case BDelete (Ops s) (Data s) b k of Inl e \<Rightarrow> Inl (BoltError e) | Inr db \<Rightarrow> Inr (s\<lparr>Data := db\<rparr>))"

text \<open>The deletions a transaction makes after its scan.\<close>

fun delete_keys :: "bucket \<Rightarrow> string list \<Rightarrow> 'db state_db \<Rightarrow> state_error + 'db state_db" where
  "delete_keys b [] s = Inr s"
| "delete_keys b (k # ks) s = (case db_delete b k s of Inl e \<Rightarrow> Inl e | Inr s' \<Rightarrow> delete_keys b ks s')"

text \<open>\<open>json.Unmarshal\<close> into the type of each bucket.\<close>

fun as_upload :: "doc \<Rightarrow> upload_entry option" where
  "as_upload (DUpload e) = Some e" | "as_upload _ = None"
fun as_download :: "doc \<Rightarrow> download_entry option" where
  "as_download (DDownload e) = Some e" | "as_download _ = None"
fun as_public :: "doc \<Rightarrow> public_file_entry option" where
  "as_public (DPublic e) = Some e" | "as_public _ = None"
fun as_tombstone :: "doc \<Rightarrow> tombstone_entry option" where
  "as_tombstone (DTombstone e) = Some e" | "as_tombstone _ = None"
fun as_known :: "doc \<Rightarrow> known_peer_entry option" where
  "as_known (DKnownPeer e) = Some e" | "as_known _ = None"
fun as_inbox :: "doc \<Rightarrow> inbox_entry option" where
  "as_inbox (DInbox e) = Some e" | "as_inbox _ = None"
fun as_ignored :: "doc \<Rightarrow> ignored_peer_entry option" where
  "as_ignored (DIgnored e) = Some e" | "as_ignored _ = None"
fun as_history :: "doc \<Rightarrow> transfer_history_entry option" where
  "as_history (DHistory e) = Some e" | "as_history _ = None"
fun as_outbox :: "doc \<Rightarrow> outbox_entry option" where
  "as_outbox (DOutbox e) = Some e" | "as_outbox _ = None"
fun as_seed :: "doc \<Rightarrow> seed_source option" where
  "as_seed (DSeed e) = Some e" | "as_seed _ = None"
fun as_providers :: "doc \<Rightarrow> provider_record list option" where
  "as_providers (DProviders e) = Some e" | "as_providers _ = None"
fun as_cache :: "doc \<Rightarrow> cache_entry option" where
  "as_cache (DCache e) = Some e" | "as_cache _ = None"

text \<open>The scan all the list methods share: the first value that does not decode ends it with an
  error (the entries found before it are then not used by any caller).\<close>

fun decode_all :: "(doc \<Rightarrow> 'e option) \<Rightarrow> (string \<times> doc) list \<Rightarrow> state_error + 'e list" where
  "decode_all dec [] = Inr []"
| "decode_all dec ((k, v) # kvs) =
     (case dec v of
        None \<Rightarrow> Inl JsonError
      | Some e \<Rightarrow> (case decode_all dec kvs of Inl err \<Rightarrow> Inl err | Inr es \<Rightarrow> Inr (e # es)))"

definition list_all_of :: "(doc \<Rightarrow> 'e option) \<Rightarrow> bucket \<Rightarrow> 'db state_db \<Rightarrow> state_error + 'e list" where
  "list_all_of dec b s = decode_all dec (db_each s b)"

text \<open>The lookup with \<open>Get\<close> and \<open>Unmarshal\<close>: nothing for a missing or undecodable value.\<close>

definition get_as :: "(doc \<Rightarrow> 'e option) \<Rightarrow> bucket \<Rightarrow> string \<Rightarrow> 'db state_db \<Rightarrow> 'e option" where
  "get_as dec b k s = Option.bind (db_get s b k) dec"

text \<open>A zero time is replaced by the current one.\<close>

definition stamp :: "int \<Rightarrow> int \<Rightarrow> int" where
  "stamp now t = (if t = 0 then now else t)"

section \<open>Uploads, downloads and the public catalog\<close>

definition RecordUpload :: "int \<Rightarrow> upload_entry \<Rightarrow> 'db state_db \<Rightarrow> state_error + 'db state_db" where
  "RecordUpload now entry =
     (let e = entry\<lparr>UETimestamp := stamp now (UETimestamp entry)\<rparr> in db_put Uploads (UEKey e) (DUpload e))"

definition ListUploads :: "'db state_db \<Rightarrow> state_error + upload_entry list" where
  "ListUploads = list_all_of as_upload Uploads"

definition RecordDownload :: "int \<Rightarrow> download_entry \<Rightarrow> 'db state_db \<Rightarrow> state_error + 'db state_db" where
  "RecordDownload now entry =
     (let e = entry\<lparr>DETimestamp := stamp now (DETimestamp entry)\<rparr>
      in db_put Downloads (DEKey e) (DDownload e))"

definition ListDownloads :: "'db state_db \<Rightarrow> state_error + download_entry list" where
  "ListDownloads = list_all_of as_download Downloads"

definition AddPublicFile :: "public_file_entry \<Rightarrow> 'db state_db \<Rightarrow> state_error + 'db state_db" where
  "AddPublicFile entry = db_put PublicFiles (PFKey entry) (DPublic entry)"

definition RemovePublicFile :: "string \<Rightarrow> 'db state_db \<Rightarrow> state_error + 'db state_db" where
  "RemovePublicFile key = db_delete PublicFiles key"

definition ListPublicFiles :: "'db state_db \<Rightarrow> state_error + public_file_entry list" where
  "ListPublicFiles = list_all_of as_public PublicFiles"

definition sum_sizes :: "int list \<Rightarrow> int" where
  "sum_sizes ns = foldl (\<lambda>acc n. i64 (acc + n)) 0 ns"

definition PublicCatalogSummary ::
  "(byte list \<Rightarrow> byte list) \<Rightarrow> 'db state_db \<Rightarrow> nat \<times> int \<times> string" where
  "PublicCatalogSummary sha256 s =
     (let kvs = db_each s PublicFiles;
          total = sum_sizes (map PFSize (List.map_filter as_public (map snd kvs)));
          hash = take 16 (hex_encode (sha256 (concat (map bytes_of (sort (map fst kvs))))))
      in (length kvs, total, hash))"

definition filter_result :: "('e \<Rightarrow> bool) \<Rightarrow> state_error + 'e list \<Rightarrow> state_error + 'e list" where
  "filter_result P r = (case r of Inl e \<Rightarrow> Inl e | Inr es \<Rightarrow> Inr (filter P es))"

definition ListPublicUploads :: "'db state_db \<Rightarrow> state_error + upload_entry list" where
  "ListPublicUploads s = filter_result UEPublic (ListUploads s)"

definition ListPrivateUploads :: "'db state_db \<Rightarrow> state_error + upload_entry list" where
  "ListPrivateUploads s = filter_result UEEncrypted (ListUploads s)"

definition RemoveUpload :: "string \<Rightarrow> 'db state_db \<Rightarrow> state_error + 'db state_db" where
  "RemoveUpload key = db_delete Uploads key"

definition RemoveDownload :: "string \<Rightarrow> 'db state_db \<Rightarrow> state_error + 'db state_db" where
  "RemoveDownload key = db_delete Downloads key"

section \<open>Tombstones\<close>

definition AddTombstone :: "int \<Rightarrow> tombstone_entry \<Rightarrow> 'db state_db \<Rightarrow> state_error + 'db state_db" where
  "AddTombstone now entry =
     (let e = entry\<lparr>TSDeletedAt := stamp now (TSDeletedAt entry)\<rparr>
      in db_put Tombstones (TSKey e) (DTombstone e))"

definition ListTombstones :: "'db state_db \<Rightarrow> state_error + tombstone_entry list" where
  "ListTombstones = list_all_of as_tombstone Tombstones"

definition IsTombstoned :: "string \<Rightarrow> 'db state_db \<Rightarrow> bool" where
  "IsTombstoned key s \<longleftrightarrow> db_get s Tombstones key \<noteq> None"

definition RemoveTombstone :: "string \<Rightarrow> 'db state_db \<Rightarrow> state_error + 'db state_db" where
  "RemoveTombstone key = db_delete Tombstones key"

section \<open>Known and ignored peers\<close>

definition getKnownPeer :: "string \<Rightarrow> 'db state_db \<Rightarrow> known_peer_entry option" where
  "getKnownPeer addr = get_as as_known KnownPeers addr"

definition AddKnownPeer :: "int \<Rightarrow> string \<Rightarrow> 'db state_db \<Rightarrow> state_error + 'db state_db" where
  "AddKnownPeer now addr s =
     (case getKnownPeer addr s of
        Some _ \<Rightarrow> Inr s
      | None \<Rightarrow> db_put KnownPeers addr
                  (DKnownPeer \<lparr>KPAddr = addr, KPAlias = [], KPAddedAt = now\<rparr>) s)"

definition RemoveKnownPeer :: "string \<Rightarrow> 'db state_db \<Rightarrow> state_error + 'db state_db" where
  "RemoveKnownPeer addr = db_delete KnownPeers addr"

definition ListKnownPeers :: "'db state_db \<Rightarrow> string list" where
  "ListKnownPeers s = map fst (db_each s KnownPeers)"

definition AddIgnoredPeer :: "int \<Rightarrow> ignored_peer_entry \<Rightarrow> 'db state_db \<Rightarrow> state_error + 'db state_db" where
  "AddIgnoredPeer now entry =
     (let e = entry\<lparr>IPIgnoredAt := stamp now (IPIgnoredAt entry)\<rparr>
      in db_put IgnoredPeers (IPAddr e) (DIgnored e))"

definition RemoveIgnoredPeer :: "string \<Rightarrow> 'db state_db \<Rightarrow> state_error + 'db state_db" where
  "RemoveIgnoredPeer addr = db_delete IgnoredPeers addr"

definition IsIgnoredPeer :: "string \<Rightarrow> 'db state_db \<Rightarrow> bool" where
  "IsIgnoredPeer addr s \<longleftrightarrow> db_get s IgnoredPeers addr \<noteq> None"

text \<open>The scan skips values it cannot decode.\<close>

definition has_fingerprint :: "string \<Rightarrow> doc \<Rightarrow> bool" where
  "has_fingerprint fp v = (case as_ignored v of Some e \<Rightarrow> IPFingerprint e = fp | None \<Rightarrow> False)"

definition RemoveIgnoredByFingerprint :: "string \<Rightarrow> 'db state_db \<Rightarrow> state_error + 'db state_db" where
  "RemoveIgnoredByFingerprint fp s =
     (if fp = [] then Inr s
      else delete_keys IgnoredPeers
             (map fst (filter (\<lambda>(k, v). has_fingerprint fp v) (db_each s IgnoredPeers))) s)"

definition IsIgnoredFingerprint :: "string \<Rightarrow> 'db state_db \<Rightarrow> bool" where
  "IsIgnoredFingerprint fp s =
     (if fp = [] then False else list_ex (\<lambda>(k, v). has_fingerprint fp v) (db_each s IgnoredPeers))"

definition ListIgnoredPeers :: "'db state_db \<Rightarrow> state_error + ignored_peer_entry list" where
  "ListIgnoredPeers = list_all_of as_ignored IgnoredPeers"

section \<open>Inbox and outbox\<close>

definition AddInboxEntry :: "int \<Rightarrow> inbox_entry \<Rightarrow> 'db state_db \<Rightarrow> state_error + 'db state_db" where
  "AddInboxEntry now entry =
     (let e = entry\<lparr>IBReceivedAt := stamp now (IBReceivedAt entry)\<rparr> in db_put Inbox (IBKey e) (DInbox e))"

definition ListInbox :: "'db state_db \<Rightarrow> state_error + inbox_entry list" where
  "ListInbox = list_all_of as_inbox Inbox"

definition RemoveInboxEntry :: "string \<Rightarrow> 'db state_db \<Rightarrow> state_error + 'db state_db" where
  "RemoveInboxEntry key = db_delete Inbox key"

definition AddOutboxEntry :: "int \<Rightarrow> outbox_entry \<Rightarrow> 'db state_db \<Rightarrow> state_error + 'db state_db" where
  "AddOutboxEntry now entry =
     (let e = entry\<lparr>OBCreatedAt := stamp now (OBCreatedAt entry)\<rparr> in db_put Outbox (OBID e) (DOutbox e))"

definition ListOutboxForPeer :: "string \<Rightarrow> 'db state_db \<Rightarrow> state_error + outbox_entry list" where
  "ListOutboxForPeer recipientFP s =
     filter_result (\<lambda>e. OBRecipientFP e = recipientFP) (list_all_of as_outbox Outbox s)"

definition RemoveOutboxEntry :: "string \<Rightarrow> 'db state_db \<Rightarrow> state_error + 'db state_db" where
  "RemoveOutboxEntry id0 = db_delete Outbox id0"

definition ListOutbox :: "'db state_db \<Rightarrow> state_error + outbox_entry list" where
  "ListOutbox = list_all_of as_outbox Outbox"

section \<open>Transfer history\<close>

text \<open>\<open>%020d\<close>: zeros between the sign and the digits, up to a width of 20.\<close>

definition fmt020d :: "int \<Rightarrow> string" where
  "fmt020d n =
     (let ds = itoa (nat \<bar>n\<bar>); sg = (if n < 0 then ''-'' else [])
      in sg @ replicate (20 - length sg - length ds) (digit_char 0) @ ds)"

definition history_key :: "transfer_history_entry \<Rightarrow> string" where
  "history_key e = fmt020d (HDoneAt e) @ ''_'' @ HID e"

definition RecordTransfer :: "int \<Rightarrow> transfer_history_entry \<Rightarrow> 'db state_db \<Rightarrow> state_error + 'db state_db" where
  "RecordTransfer now entry =
     (let e = entry\<lparr>HDoneAt := stamp now (HDoneAt entry)\<rparr>
      in db_put TransferHistory (history_key e) (DHistory e))"

definition ListTransferHistory :: "'db state_db \<Rightarrow> state_error + transfer_history_entry list" where
  "ListTransferHistory = list_all_of as_history TransferHistory"

fun migrate_downloads ::
  "(string \<Rightarrow> bool \<Rightarrow> int) \<Rightarrow> int \<Rightarrow> download_entry list \<Rightarrow> nat \<Rightarrow> 'db state_db \<Rightarrow> nat \<times> 'db state_db" where
  "migrate_downloads getSize now [] fixed s = (fixed, s)"
| "migrate_downloads getSize now (d # ds) fixed s =
     (let newSize = getSize (DEKey d) (DEIsDir d) in
      if DESize d \<noteq> 0 then migrate_downloads getSize now ds fixed s
      else if newSize > 0 then
        (case RecordDownload now (d\<lparr>DESize := newSize\<rparr>) s of
           Inl e \<Rightarrow> migrate_downloads getSize now ds fixed s
         | Inr s' \<Rightarrow> migrate_downloads getSize now ds (fixed + 1) s')
      else migrate_downloads getSize now ds fixed s)"

fun migrate_history ::
  "(string \<Rightarrow> bool \<Rightarrow> int) \<Rightarrow> int \<Rightarrow> transfer_history_entry list \<Rightarrow> nat \<Rightarrow> 'db state_db
    \<Rightarrow> nat \<times> 'db state_db" where
  "migrate_history getSize now [] fixed s = (fixed, s)"
| "migrate_history getSize now (h # hs) fixed s =
     (let newSize = getSize (HKey h) (HIsDir h) in
      if HSize h \<noteq> 0 \<or> HDirection h \<noteq> 1 then migrate_history getSize now hs fixed s
      else if newSize > 0 then
        (case RecordTransfer now (h\<lparr>HSize := newSize\<rparr>) s of
           Inl e \<Rightarrow> migrate_history getSize now hs fixed s
         | Inr s' \<Rightarrow> migrate_history getSize now hs (fixed + 1) s')
      else migrate_history getSize now hs fixed s)"

definition MigrateZeroSizes ::
  "(string \<Rightarrow> bool \<Rightarrow> int) \<Rightarrow> int \<Rightarrow> 'db state_db \<Rightarrow> nat \<times> state_error option \<times> 'db state_db" where
  "MigrateZeroSizes getSize now s =
     (case ListDownloads s of
        Inl e \<Rightarrow> (0, Some e, s)
      | Inr downloads \<Rightarrow>
          (let (fixed, s1) = migrate_downloads getSize now downloads 0 s in
           case ListTransferHistory s1 of
             Inl e \<Rightarrow> (fixed, Some e, s1)
           | Inr hist \<Rightarrow>
               (let (fixed', s2) = migrate_history getSize now hist fixed s1 in (fixed', None, s2))))"

section \<open>Seed sources and providers\<close>

definition SetSeedSource :: "string \<Rightarrow> seed_source \<Rightarrow> 'db state_db \<Rightarrow> state_error + 'db state_db" where
  "SetSeedSource key src = db_put SeedSources key (DSeed src)"

definition GetSeedSource :: "string \<Rightarrow> 'db state_db \<Rightarrow> seed_source option" where
  "GetSeedSource key = get_as as_seed SeedSources key"

definition RemoveSeedSource :: "string \<Rightarrow> 'db state_db \<Rightarrow> state_error + 'db state_db" where
  "RemoveSeedSource key = db_delete SeedSources key"

definition AllSeedSources :: "'db state_db \<Rightarrow> state_error + (string, seed_source) gomap" where
  "AllSeedSources s =
     (case list_all_of as_seed SeedSources s of
        Inl e \<Rightarrow> Inl e
      | Inr srcs \<Rightarrow> Inr (zip (map fst (db_each s SeedSources)) srcs))"

definition SetProviders :: "string \<Rightarrow> provider_record list \<Rightarrow> 'db state_db \<Rightarrow> state_error + 'db state_db" where
  "SetProviders fileKey ps = db_put Providers fileKey (DProviders ps)"

definition GetProviders :: "string \<Rightarrow> 'db state_db \<Rightarrow> provider_record list" where
  "GetProviders fileKey s =
     (case get_as as_providers Providers fileKey s of None \<Rightarrow> [] | Some ps \<Rightarrow> ps)"

text \<open>The loop that replaces the first record of the same address, or appends.\<close>

fun upsert_provider :: "provider_record \<Rightarrow> provider_record list \<Rightarrow> provider_record list" where
  "upsert_provider r [] = [r]"
| "upsert_provider r (p # ps) = (if PAddr p = PAddr r then r # ps else p # upsert_provider r ps)"

definition AddProvider :: "string \<Rightarrow> provider_record \<Rightarrow> 'db state_db \<Rightarrow> state_error + 'db state_db" where
  "AddProvider fileKey r s =
     db_put Providers fileKey (DProviders (upsert_provider r (GetProviders fileKey s))) s"

definition RemoveProvider :: "string \<Rightarrow> string \<Rightarrow> 'db state_db \<Rightarrow> state_error + 'db state_db" where
  "RemoveProvider fileKey addr s =
     (let filtered = filter (\<lambda>p. PAddr p \<noteq> addr) (GetProviders fileKey s) in
      if filtered = [] then db_delete Providers fileKey s
      else db_put Providers fileKey (DProviders filtered) s)"

text \<open>The scan of \<open>ExpireProviders\<close>, over the pairs the bucket had when it started; it yields the
  keys to delete and the state with the shortened lists. The code writes the shortened lists inside \<open>ForEach\<close>, which
  bbolt leaves undefined; the snapshot is the run in which the cursor is not disturbed by the writes, which
  replace values under keys already in the bucket.\<close>

fun expire_loop ::
  "int \<Rightarrow> (string \<times> doc) list \<Rightarrow> string list \<Rightarrow> 'db state_db \<Rightarrow> state_error + string list \<times> 'db state_db"
where
  "expire_loop cutoff [] toDelete s = Inr (toDelete, s)"
| "expire_loop cutoff ((k, v) # kvs) toDelete s =
     (case as_providers v of
        None \<Rightarrow> expire_loop cutoff kvs toDelete s
      | Some ps \<Rightarrow>
          (let filtered = filter (\<lambda>p. PRegisteredAt p > cutoff) ps in
           if filtered = [] then expire_loop cutoff kvs (toDelete @ [k]) s
           else if length filtered < length ps then
             (case db_put Providers k (DProviders filtered) s of
                Inl e \<Rightarrow> Inl e
              | Inr s' \<Rightarrow> expire_loop cutoff kvs toDelete s')
           else expire_loop cutoff kvs toDelete s))"

definition ExpireProviders :: "int \<Rightarrow> int \<Rightarrow> 'db state_db \<Rightarrow> state_error + 'db state_db" where
  "ExpireProviders now ttl s =
     (case expire_loop (i64 (now - ttl)) (db_each s Providers) [] s of
        Inl e \<Rightarrow> Inl e
      | Inr (toDelete, s') \<Rightarrow> delete_keys Providers toDelete s')"

section \<open>Cache usage\<close>

definition SetCacheEntry :: "cache_entry \<Rightarrow> 'db state_db \<Rightarrow> state_error + 'db state_db" where
  "SetCacheEntry entry = db_put CacheUsage (CEFileKey entry) (DCache entry)"

definition GetCacheEntry :: "string \<Rightarrow> 'db state_db \<Rightarrow> cache_entry option" where
  "GetCacheEntry fileKey = get_as as_cache CacheUsage fileKey"

definition TouchCache :: "int \<Rightarrow> string \<Rightarrow> 'db state_db \<Rightarrow> 'db state_db" where
  "TouchCache now fileKey s =
     (case GetCacheEntry fileKey s of
        None \<Rightarrow> s
      | Some e \<Rightarrow> (case SetCacheEntry (e\<lparr>CELastAccessed := now\<rparr>) s of Inl _ \<Rightarrow> s | Inr s' \<Rightarrow> s'))"

definition RemoveCacheEntry :: "string \<Rightarrow> 'db state_db \<Rightarrow> state_error + 'db state_db" where
  "RemoveCacheEntry fileKey = db_delete CacheUsage fileKey"

text \<open>\<open>sort.Slice\<close> is not stable: the entries come out in some order by last access.\<close>

definition ListCacheEntries ::
  "(cache_entry list \<Rightarrow> cache_entry list) \<Rightarrow> 'db state_db \<Rightarrow> state_error + cache_entry list" where
  "ListCacheEntries srt s =
     (case list_all_of as_cache CacheUsage s of Inl e \<Rightarrow> Inl e | Inr es \<Rightarrow> Inr (srt es))"

definition TotalCacheSize :: "'db state_db \<Rightarrow> int" where
  "TotalCacheSize s = sum_sizes (map CESize (List.map_filter as_cache (map snd (db_each s CacheUsage))))"

section \<open>The documented behaviour of bbolt\<close>

definition bolt_ok :: "'db bolt \<Rightarrow> bool" where
  "bolt_ok B \<longleftrightarrow>
     (\<forall>db b k d db'. BPut B db b k d = Inr db' \<longrightarrow>
        (\<forall>b' k'. BGet B db' b' k' = (if b' = b \<and> k' = k then Some d else BGet B db b' k'))) \<and>
     (\<forall>db b k db'. BDelete B db b k = Inr db' \<longrightarrow>
        (\<forall>b' k'. BGet B db' b' k' = (if b' = b \<and> k' = k then None else BGet B db b' k'))) \<and>
     (\<forall>db b. sorted_wrt (<) (map fst (BForEach B db b)) \<and>
        (\<forall>k. map_of (BForEach B db b) k = BGet B db b k))"

text \<open>A database that accepts every write, for statements about what an operation achieves.\<close>

definition bolt_writable :: "'db bolt \<Rightarrow> bool" where
  "bolt_writable B \<longleftrightarrow>
     (\<forall>db b k d. \<exists>db'. BPut B db b k d = Inr db') \<and> (\<forall>db b k. \<exists>db'. BDelete B db b k = Inr db')"

text \<open>An instance of the interface: one association list per bucket, visited in key order.\<close>

definition alist_bolt :: "(bucket \<Rightarrow> (string \<times> doc) list) bolt" where
  "alist_bolt =
     \<lparr>BGet = (\<lambda>db b k. map_of (db b) k),
      BPut = (\<lambda>db b k d. Inr (db(b := (k, d) # db b))),
      BDelete = (\<lambda>db b k. Inr (db(b := filter (\<lambda>(k', d). k' \<noteq> k) (db b)))),
      BForEach = (\<lambda>db b. map (\<lambda>k. (k, the (map_of (db b) k))) (sort (remdups (map fst (db b)))))\<rparr>"

lemma map_of_filter_key: "map_of (filter (\<lambda>(k', d). k' \<noteq> k) xs) k' = (if k' = k then None else map_of xs k')"
  by (induction xs) auto

lemma map_of_map_keys: "map_of (map (\<lambda>k. (k, f k)) ks) k = (if k \<in> set ks then Some (f k) else None)"
  by (induction ks) auto

lemma alist_bolt_ok: "bolt_ok alist_bolt"
proof -
  have "sorted_wrt (<) (sort (remdups ks))" for ks :: "string list"
    using sorted_sort [of "remdups ks"] by (simp add: strict_sorted_iff)
  moreover have "(if k \<in> set (map fst xs) then Some (the (map_of xs k)) else None) = map_of xs k"
    for k and xs :: "(string \<times> doc) list"
    using map_of_None_keys [of xs k] by (cases "map_of xs k") (simp_all del: set_map)
  ultimately have "sorted_wrt (<) (map fst (BForEach alist_bolt db b)) \<and>
      (\<forall>k. map_of (BForEach alist_bolt db b) k = BGet alist_bolt db b k)" for db b
    by (simp add: alist_bolt_def comp_def map_of_map_keys)
  then show ?thesis
    unfolding bolt_ok_def by (intro conjI allI impI) (auto simp: alist_bolt_def map_of_filter_key)
qed

lemma alist_bolt_writable: "bolt_writable alist_bolt"
  by (simp add: bolt_writable_def alist_bolt_def)

definition alist_db :: "(bucket \<Rightarrow> (string \<times> doc) list) state_db" where
  "alist_db = \<lparr>Ops = alist_bolt, Data = (\<lambda>_. [])\<rparr>"

lemma alist_db_simps [simp]: "Ops alist_db = alist_bolt" "db_get alist_db b k = None"
  by (simp_all add: alist_db_def db_get_def alist_bolt_def)

section \<open>What an operation leaves in the buckets\<close>

definition db_ok :: "'db state_db \<Rightarrow> bool" where
  "db_ok s \<longleftrightarrow> bolt_ok (Ops s)"

lemma db_put_ops: "db_put b k d s = Inr s' \<Longrightarrow> Ops s' = Ops s"
  by (auto simp: db_put_def split: sum.splits)

lemma db_delete_ops: "db_delete b k s = Inr s' \<Longrightarrow> Ops s' = Ops s"
  by (auto simp: db_delete_def split: sum.splits)

lemma db_put_ok: "db_put b k d s = Inr s' \<Longrightarrow> db_ok s \<Longrightarrow> db_ok s'"
  by (simp add: db_ok_def db_put_ops)

lemma db_delete_ok: "db_delete b k s = Inr s' \<Longrightarrow> db_ok s \<Longrightarrow> db_ok s'"
  by (simp add: db_ok_def db_delete_ops)

lemma db_put_get:
  "db_put b k d s = Inr s' \<Longrightarrow> db_ok s \<Longrightarrow>
   db_get s' b' k' = (if b' = b \<and> k' = k then Some d else db_get s b' k')"
  by (auto simp: db_put_def db_get_def db_ok_def bolt_ok_def split: sum.splits)

lemma db_delete_get:
  "db_delete b k s = Inr s' \<Longrightarrow> db_ok s \<Longrightarrow>
   db_get s' b' k' = (if b' = b \<and> k' = k then None else db_get s b' k')"
  by (auto simp: db_delete_def db_get_def db_ok_def bolt_ok_def split: sum.splits)

lemma db_each_sorted: "db_ok s \<Longrightarrow> sorted_wrt (<) (map fst (db_each s b))"
  by (simp add: db_ok_def bolt_ok_def db_each_def)

lemma db_each_distinct: "db_ok s \<Longrightarrow> distinct (map fst (db_each s b))"
  using db_each_sorted [of s b] by (simp add: strict_sorted_iff)

lemma db_each_map: "db_ok s \<Longrightarrow> map_of (db_each s b) k = db_get s b k"
  by (simp add: db_ok_def bolt_ok_def db_each_def db_get_def)

lemma db_each_iff: "db_ok s \<Longrightarrow> (k, v) \<in> set (db_each s b) \<longleftrightarrow> db_get s b k = Some v"
  using db_each_distinct [of s b] db_each_map [of s b k] by (metis map_of_eq_Some_iff)

lemma delete_keys_get:
  assumes "delete_keys b ks s = Inr s'" and "db_ok s"
  shows "db_ok s' \<and> Ops s' = Ops s \<and>
         (\<forall>b' k'. db_get s' b' k' = (if b' = b \<and> k' \<in> set ks then None else db_get s b' k'))"
  using assms
proof (induction b ks s rule: delete_keys.induct)
  case (2 b k ks s)
  from "2.prems"(1) obtain s1 where d: "db_delete b k s = Inr s1" and r: "delete_keys b ks s1 = Inr s'"
    by (cases "db_delete b k s") auto
  have ok: "db_ok s1" using db_delete_ok [OF d "2.prems"(2)] .
  have "db_get s1 b' k' = (if b' = b \<and> k' = k then None else db_get s b' k')" for b' k'
    by (rule db_delete_get [OF d "2.prems"(2)])
  with "2.IH" [OF d r ok] db_delete_ops [OF d] show ?case by simp
qed auto

lemma db_put_writable: "bolt_writable (Ops s) \<Longrightarrow> \<exists>s'. db_put b k d s = Inr s'"
  unfolding bolt_writable_def db_put_def by (metis old.sum.simps(6))

lemma db_delete_writable: "bolt_writable (Ops s) \<Longrightarrow> \<exists>s'. db_delete b k s = Inr s'"
  unfolding bolt_writable_def db_delete_def by (metis old.sum.simps(6))

lemma delete_keys_writable: "bolt_writable (Ops s) \<Longrightarrow> \<exists>s'. delete_keys b ks s = Inr s'"
proof (induction ks arbitrary: s)
  case (Cons k ks)
  obtain s1 where d: "db_delete b k s = Inr s1" using db_delete_writable [OF Cons.prems] by blast
  with Cons.IH [of s1] Cons.prems db_delete_ops [OF d] show ?case by simp
qed simp

lemma decode_all_Some:
  assumes "\<forall>(k, v) \<in> set kvs. dec v \<noteq> None"
  shows "decode_all dec kvs = Inr (map (\<lambda>(k, v). the (dec v)) kvs)"
  using assms by (induction kvs) auto

section \<open>Every bucket holds its own documents under their own keys\<close>

primrec doc_ok :: "bucket \<Rightarrow> string \<Rightarrow> doc \<Rightarrow> bool" where
  "doc_ok Uploads k d \<longleftrightarrow> (\<exists>e. d = DUpload e \<and> k = UEKey e)"
| "doc_ok Downloads k d \<longleftrightarrow> (\<exists>e. d = DDownload e \<and> k = DEKey e \<and> DETimestamp e \<noteq> 0)"
| "doc_ok PublicFiles k d \<longleftrightarrow> (\<exists>e. d = DPublic e \<and> k = PFKey e)"
| "doc_ok Config k d \<longleftrightarrow> False"
| "doc_ok Tombstones k d \<longleftrightarrow> (\<exists>e. d = DTombstone e \<and> k = TSKey e)"
| "doc_ok KnownPeers k d \<longleftrightarrow> (\<exists>e. d = DKnownPeer e \<and> k = KPAddr e)"
| "doc_ok Inbox k d \<longleftrightarrow> (\<exists>e. d = DInbox e \<and> k = IBKey e)"
| "doc_ok IgnoredPeers k d \<longleftrightarrow> (\<exists>e. d = DIgnored e \<and> k = IPAddr e)"
| "doc_ok TransferHistory k d \<longleftrightarrow> (\<exists>e. d = DHistory e \<and> k = history_key e \<and> HDoneAt e \<noteq> 0)"
| "doc_ok Outbox k d \<longleftrightarrow> (\<exists>e. d = DOutbox e \<and> k = OBID e)"
| "doc_ok SeedSources k d \<longleftrightarrow> (\<exists>e. d = DSeed e)"
| "doc_ok Providers k d \<longleftrightarrow> (\<exists>ps. d = DProviders ps)"
| "doc_ok CacheUsage k d \<longleftrightarrow> (\<exists>e. d = DCache e \<and> k = CEFileKey e)"

definition well_typed :: "'db state_db \<Rightarrow> bool" where
  "well_typed s \<longleftrightarrow> db_ok s \<and> (\<forall>b k v. db_get s b k = Some v \<longrightarrow> doc_ok b k v)"

lemma well_typed_put:
  "well_typed s \<Longrightarrow> doc_ok b k d \<Longrightarrow> db_put b k d s = Inr s' \<Longrightarrow> well_typed s'"
  by (auto simp: well_typed_def db_put_get db_put_ok split: if_splits)

lemma well_typed_delete: "well_typed s \<Longrightarrow> db_delete b k s = Inr s' \<Longrightarrow> well_typed s'"
  by (auto simp: well_typed_def db_delete_get db_delete_ok split: if_splits)

lemma well_typed_delete_keys: "well_typed s \<Longrightarrow> delete_keys b ks s = Inr s' \<Longrightarrow> well_typed s'"
  using delete_keys_get [of b ks s s'] by (auto simp: well_typed_def split: if_splits)

text \<open>Every operation that changes the database, as a value; an operation that returns an error
  changes nothing.\<close>

datatype db_op =
    ORecordUpload int upload_entry | ORecordDownload int download_entry
  | OAddPublicFile public_file_entry | ORemovePublicFile string | ORemoveUpload string
  | ORemoveDownload string | OAddTombstone int tombstone_entry | ORemoveTombstone string
  | OAddKnownPeer int string | ORemoveKnownPeer string | OAddIgnoredPeer int ignored_peer_entry
  | ORemoveIgnoredPeer string | ORemoveIgnoredByFingerprint string | OAddInbox int inbox_entry
  | ORemoveInbox string | ORecordTransfer int transfer_history_entry
  | OMigrate "string \<Rightarrow> bool \<Rightarrow> int" int | OAddOutbox int outbox_entry | ORemoveOutbox string
  | OSetSeedSource string seed_source | ORemoveSeedSource string
  | OSetProviders string "provider_record list" | OAddProvider string provider_record
  | ORemoveProvider string string | OExpireProviders int int | OSetCache cache_entry
  | OTouchCache int string | ORemoveCache string

definition keep_old :: "'db state_db \<Rightarrow> state_error + 'db state_db \<Rightarrow> 'db state_db" where
  "keep_old s r = (case r of Inl e \<Rightarrow> s | Inr s' \<Rightarrow> s')"

primrec apply_op :: "db_op \<Rightarrow> 'db state_db \<Rightarrow> 'db state_db" where
  "apply_op (ORecordUpload now e) s = keep_old s (RecordUpload now e s)"
| "apply_op (ORecordDownload now e) s = keep_old s (RecordDownload now e s)"
| "apply_op (OAddPublicFile e) s = keep_old s (AddPublicFile e s)"
| "apply_op (ORemovePublicFile k) s = keep_old s (RemovePublicFile k s)"
| "apply_op (ORemoveUpload k) s = keep_old s (RemoveUpload k s)"
| "apply_op (ORemoveDownload k) s = keep_old s (RemoveDownload k s)"
| "apply_op (OAddTombstone now e) s = keep_old s (AddTombstone now e s)"
| "apply_op (ORemoveTombstone k) s = keep_old s (RemoveTombstone k s)"
| "apply_op (OAddKnownPeer now a) s = keep_old s (AddKnownPeer now a s)"
| "apply_op (ORemoveKnownPeer a) s = keep_old s (RemoveKnownPeer a s)"
| "apply_op (OAddIgnoredPeer now e) s = keep_old s (AddIgnoredPeer now e s)"
| "apply_op (ORemoveIgnoredPeer a) s = keep_old s (RemoveIgnoredPeer a s)"
| "apply_op (ORemoveIgnoredByFingerprint fp) s = keep_old s (RemoveIgnoredByFingerprint fp s)"
| "apply_op (OAddInbox now e) s = keep_old s (AddInboxEntry now e s)"
| "apply_op (ORemoveInbox k) s = keep_old s (RemoveInboxEntry k s)"
| "apply_op (ORecordTransfer now e) s = keep_old s (RecordTransfer now e s)"
| "apply_op (OMigrate getSize now) s = snd (snd (MigrateZeroSizes getSize now s))"
| "apply_op (OAddOutbox now e) s = keep_old s (AddOutboxEntry now e s)"
| "apply_op (ORemoveOutbox k) s = keep_old s (RemoveOutboxEntry k s)"
| "apply_op (OSetSeedSource k e) s = keep_old s (SetSeedSource k e s)"
| "apply_op (ORemoveSeedSource k) s = keep_old s (RemoveSeedSource k s)"
| "apply_op (OSetProviders k ps) s = keep_old s (SetProviders k ps s)"
| "apply_op (OAddProvider k r) s = keep_old s (AddProvider k r s)"
| "apply_op (ORemoveProvider k a) s = keep_old s (RemoveProvider k a s)"
| "apply_op (OExpireProviders now ttl) s = keep_old s (ExpireProviders now ttl s)"
| "apply_op (OSetCache e) s = keep_old s (SetCacheEntry e s)"
| "apply_op (OTouchCache now k) s = TouchCache now k s"
| "apply_op (ORemoveCache k) s = keep_old s (RemoveCacheEntry k s)"

text \<open>The clock of an operation is not the zero time.\<close>

fun op_clock :: "db_op \<Rightarrow> bool" where
  "op_clock (ORecordDownload now e) \<longleftrightarrow> now \<noteq> 0"
| "op_clock (ORecordTransfer now e) \<longleftrightarrow> now \<noteq> 0"
| "op_clock (OMigrate getSize now) \<longleftrightarrow> now \<noteq> 0"
| "op_clock _ \<longleftrightarrow> True"

lemma well_typed_keep_put:
  "well_typed s \<Longrightarrow> doc_ok b k d \<Longrightarrow> well_typed (keep_old s (db_put b k d s))"
  by (auto simp: keep_old_def split: sum.splits intro: well_typed_put)

lemma well_typed_keep_delete: "well_typed s \<Longrightarrow> well_typed (keep_old s (db_delete b k s))"
  by (auto simp: keep_old_def split: sum.splits intro: well_typed_delete)

lemma well_typed_RecordDownload:
  assumes "well_typed s" and "now \<noteq> 0" and "RecordDownload now e s = Inr s'"
  shows "well_typed s'"
proof -
  let ?e = "e\<lparr>DETimestamp := stamp now (DETimestamp e)\<rparr>"
  have "doc_ok Downloads (DEKey ?e) (DDownload ?e)" using assms(2) by (simp add: stamp_def)
  from well_typed_put [OF assms(1) this] assms(3) show ?thesis
    by (simp add: RecordDownload_def Let_def)
qed

lemma well_typed_RecordTransfer:
  assumes "well_typed s" and "now \<noteq> 0" and "RecordTransfer now e s = Inr s'"
  shows "well_typed s'"
proof -
  let ?e = "e\<lparr>HDoneAt := stamp now (HDoneAt e)\<rparr>"
  have "doc_ok TransferHistory (history_key ?e) (DHistory ?e)" using assms(2) by (simp add: stamp_def)
  from well_typed_put [OF assms(1) this] assms(3) show ?thesis
    by (simp add: RecordTransfer_def Let_def)
qed

lemma well_typed_migrate_downloads:
  "well_typed s \<Longrightarrow> now \<noteq> 0 \<Longrightarrow> well_typed (snd (migrate_downloads getSize now ds n s))"
  by (induction getSize now ds n s rule: migrate_downloads.induct)
    (auto simp: Let_def split: sum.splits dest: well_typed_RecordDownload)

lemma well_typed_migrate_history:
  "well_typed s \<Longrightarrow> now \<noteq> 0 \<Longrightarrow> well_typed (snd (migrate_history getSize now hs n s))"
  by (induction getSize now hs n s rule: migrate_history.induct)
    (auto simp: Let_def split: sum.splits dest: well_typed_RecordTransfer)

lemma well_typed_migrate:
  assumes "well_typed s" and "now \<noteq> 0"
  shows "well_typed (snd (snd (MigrateZeroSizes getSize now s)))"
proof (cases "ListDownloads s")
  case (Inr ds)
  obtain n s1 where 1: "migrate_downloads getSize now ds 0 s = (n, s1)" by (metis surj_pair)
  have s1: "well_typed s1" using well_typed_migrate_downloads [OF assms, of getSize ds 0] 1 by simp
  show ?thesis
  proof (cases "ListTransferHistory s1")
    case hs: (Inr hs)
    show ?thesis
      using well_typed_migrate_history [OF s1 assms(2), of getSize hs n]
      by (cases "migrate_history getSize now hs n s1") (simp add: MigrateZeroSizes_def Inr hs 1)
  qed (simp add: MigrateZeroSizes_def Inr 1 s1)
qed (simp add: MigrateZeroSizes_def assms)

lemma well_typed_put_cache:
  "well_typed s \<Longrightarrow> db_put CacheUsage k (DCache e) s = Inr s' \<Longrightarrow> k = CEFileKey e \<Longrightarrow> well_typed s'"
  by (rule well_typed_put [of s CacheUsage k "DCache e"]) auto

lemma well_typed_put_providers:
  "well_typed s \<Longrightarrow> db_put Providers k (DProviders ps) s = Inr s' \<Longrightarrow> well_typed s'"
  by (rule well_typed_put [of s Providers k "DProviders ps"]) auto

lemma well_typed_expire_loop:
  "well_typed s \<Longrightarrow> expire_loop cutoff kvs del s = Inr (del', s') \<Longrightarrow> well_typed s'"
  by (induction cutoff kvs del s rule: expire_loop.induct)
    (auto simp: Let_def split: option.splits if_splits sum.splits dest: well_typed_put_providers)

lemma well_typed_expire:
  "well_typed s \<Longrightarrow> ExpireProviders now ttl s = Inr s' \<Longrightarrow> well_typed s'"
  unfolding ExpireProviders_def
  by (auto split: sum.splits intro: well_typed_delete_keys well_typed_expire_loop)

lemmas state_op_defs =
  RecordUpload_def RecordDownload_def AddPublicFile_def RemovePublicFile_def RemoveUpload_def
  RemoveDownload_def AddTombstone_def RemoveTombstone_def RemoveKnownPeer_def AddIgnoredPeer_def
  RemoveIgnoredPeer_def AddInboxEntry_def RemoveInboxEntry_def RecordTransfer_def
  AddOutboxEntry_def RemoveOutboxEntry_def SetSeedSource_def RemoveSeedSource_def SetProviders_def
  AddProvider_def SetCacheEntry_def RemoveCacheEntry_def

lemma well_typed_apply:
  assumes "well_typed s" and "op_clock p"
  shows "well_typed (apply_op p s)"
proof (cases p)
  case (OAddKnownPeer now a)
  then show ?thesis using assms(1) well_typed_keep_put [OF assms(1), of KnownPeers]
    by (auto simp: AddKnownPeer_def keep_old_def split: option.splits)
next
  case (ORemoveIgnoredByFingerprint fp)
  then show ?thesis using assms(1)
    by (auto simp: RemoveIgnoredByFingerprint_def keep_old_def split: sum.splits
        intro: well_typed_delete_keys)
next
  case (OTouchCache now k)
  then show ?thesis using assms(1)
    by (auto simp: TouchCache_def SetCacheEntry_def split: option.splits sum.splits
        elim: well_typed_put_cache)
next
  case (OExpireProviders now ttl)
  then show ?thesis using assms(1)
    by (auto simp: keep_old_def split: sum.splits intro: well_typed_expire)
next
  case (ORemoveProvider k a)
  then show ?thesis using assms(1)
    by (auto simp: RemoveProvider_def Let_def intro: well_typed_keep_put well_typed_keep_delete)
next
  case (OMigrate getSize now)
  then show ?thesis using well_typed_migrate assms by simp
qed (use assms in \<open>auto simp: state_op_defs stamp_def Let_def
      intro!: well_typed_keep_put well_typed_keep_delete\<close>)

text \<open>The state after a sequence of operations on a fresh database.\<close>

definition fresh :: "'db state_db \<Rightarrow> bool" where
  "fresh s \<longleftrightarrow> db_ok s \<and> (\<forall>b k. db_get s b k = None)"

definition after :: "db_op list \<Rightarrow> 'db state_db \<Rightarrow> 'db state_db" where
  "after ops s = fold apply_op ops s"

lemma well_typed_after:
  "well_typed s \<Longrightarrow> \<forall>p \<in> set ops. op_clock p \<Longrightarrow> well_typed (after ops s)"
  unfolding after_def by (induction ops arbitrary: s) (auto intro: well_typed_apply)

lemma fresh_well_typed: "fresh s \<Longrightarrow> well_typed s"
  by (simp add: fresh_def well_typed_def)

lemma fresh_alist_db: "fresh alist_db"
  by (simp add: fresh_def db_ok_def alist_bolt_ok)

lemma list_all_of_typed:
  assumes "well_typed s" and "\<And>k d. doc_ok b k d \<Longrightarrow> dec d \<noteq> None"
  shows "list_all_of dec b s = Inr (map (\<lambda>(k, v). the (dec v)) (db_each s b))"
proof -
  have "db_ok s" using assms(1) by (simp add: well_typed_def)
  have "\<forall>(k, v) \<in> set (db_each s b). dec v \<noteq> None"
    using assms db_each_iff [OF \<open>db_ok s\<close>] unfolding well_typed_def by blast
  then show ?thesis unfolding list_all_of_def by (rule decode_all_Some)
qed

text \<open>A listing of a well-typed database: one entry for every key, in key order.\<close>

definition lists_bucket :: "('e \<Rightarrow> doc) \<Rightarrow> bucket \<Rightarrow> 'db state_db \<Rightarrow> state_error + 'e list \<Rightarrow> bool" where
  "lists_bucket con b s r \<longleftrightarrow> (\<exists>es. r = Inr es \<and> map con es = map snd (db_each s b))"

lemma lists_bucketI:
  assumes "well_typed s" and "\<And>k d. doc_ok b k d \<Longrightarrow> \<exists>e. d = con e" and "\<And>e. dec (con e) = Some e"
  shows "lists_bucket con b s (list_all_of dec b s)"
proof -
  have ok: "db_ok s" using assms(1) by (simp add: well_typed_def)
  have "con (the (dec v)) = v" if "(k, v) \<in> set (db_each s b)" for k v
    using that assms db_each_iff [OF ok] unfolding well_typed_def by (metis option.sel)
  then have "map con (map (\<lambda>(k, v). the (dec v)) (db_each s b)) = map snd (db_each s b)"
    by (auto simp: comp_def)
  moreover have "list_all_of dec b s = Inr (map (\<lambda>(k, v). the (dec v)) (db_each s b))"
  proof (rule list_all_of_typed [OF assms(1)])
    fix k d assume "doc_ok b k d"
    then obtain e where "d = con e" using assms(2) by blast
    then show "dec d \<noteq> None" using assms(3) by simp
  qed
  ultimately show ?thesis by (auto simp: lists_bucket_def)
qed

end
