(* ===== verification/StateLaws.thy ===== *)
theory StateLaws
  imports StateDB
begin

text \<open>
  What the state database guarantees its callers: listings that cannot fail on the daemon's own
  data, the order of the transfer history, the size migration, the block list and the provider
  records.  Statements about what an operation achieves assume a database that accepts writes
  (\<open>bolt_writable\<close>); all of them hold for every database with the documented behaviour of bbolt
  (\<open>bolt_ok\<close>), and their witnesses run on \<open>alist_bolt\<close>.
\<close>

section \<open>Numbers padded with zeros\<close>

lemma parse_digits_snoc: "parse_digits (s @ [c]) = 10 * parse_digits s + digit_val c"
  by (simp add: parse_digits_def)

lemma parse_digits_Cons: "parse_digits (c # s) = digit_val c * 10 ^ length s + parse_digits s"
proof (induction s rule: rev_induct)
  case (snoc d s)
  have "parse_digits (c # s @ [d]) = 10 * parse_digits (c # s) + digit_val d"
    using parse_digits_snoc [of "c # s" d] by simp
  then show ?case using snoc.IH parse_digits_snoc [of s d] by simp
qed (simp add: parse_digits_def)

lemma digit_val_bound: "is_digit c \<Longrightarrow> digit_val c \<le> 9"
  by (auto simp: is_digit_def digit_val_def)

lemma digit_val_order: "is_digit c \<Longrightarrow> is_digit d \<Longrightarrow> digit_val c < digit_val d \<Longrightarrow> c < d"
  by (auto simp: is_digit_def digit_val_def less_char_def)

lemma digit_val_inject: "is_digit c \<Longrightarrow> is_digit d \<Longrightarrow> digit_val c = digit_val d \<Longrightarrow> c = d"
  unfolding is_digit_def digit_val_def
  by (metis (no_types, lifting) eq_diff_iff of_char_eq_iff)

lemma parse_digits_bound: "\<forall>c \<in> set s. is_digit c \<Longrightarrow> parse_digits s < 10 ^ length s"
proof (induction s)
  case (Cons c s)
  have "digit_val c * 10 ^ length s \<le> 9 * 10 ^ length s"
    using digit_val_bound Cons.prems by (intro mult_right_mono) auto
  moreover have "parse_digits s < 10 ^ length s" using Cons by simp
  ultimately have "parse_digits (c # s) < 9 * 10 ^ length s + 10 ^ length s"
    unfolding parse_digits_Cons by (rule add_le_less_mono)
  then show ?case by simp
qed (simp add: parse_digits_def)

text \<open>Digit strings of one width are ordered as their numbers are.\<close>

lemma digits_less:
  assumes "length xs = length ys" and "\<forall>c \<in> set (xs @ ys). is_digit c"
    and "parse_digits xs < parse_digits ys"
  shows "xs @ a < ys @ b"
  using assms
proof (induction xs ys rule: list_induct2)
  case (Cons x xs y ys)
  have bounds: "parse_digits xs < 10 ^ length xs" "parse_digits ys < 10 ^ length ys"
    using Cons.prems by (auto intro: parse_digits_bound)
  have d: "is_digit x" "is_digit y" using Cons.prems by auto
  consider "digit_val x < digit_val y" | "digit_val x = digit_val y" | "digit_val y < digit_val x"
    by linarith
  then show ?case
  proof cases
    case 1
    then show ?thesis using digit_val_order [OF d] by simp
  next
    case 2
    then show ?thesis using Cons digit_val_inject [OF d] by (simp add: parse_digits_Cons)
  next
    case 3
    then have "(digit_val y + 1) * 10 ^ length ys \<le> digit_val x * 10 ^ length ys"
      by (intro mult_right_mono) auto
    then show ?thesis using Cons.prems(2) Cons.hyps bounds by (simp add: parse_digits_Cons)
  qed
qed (simp add: parse_digits_def)

lemma length_itoa: "n < 10 ^ k \<Longrightarrow> 0 < k \<Longrightarrow> length (itoa n) \<le> k"
proof (induction n arbitrary: k rule: itoa.induct)
  case (1 n)
  show ?case
  proof (cases "n < 10")
    case False
    obtain j where k: "k = Suc j" using "1.prems"(2) by (cases k) auto
    then have j: "k = Suc j" "0 < j" using "1.prems"(1) False by (cases j; simp)+
    then have "n div 10 < 10 ^ j" using "1.prems" by (simp add: less_mult_imp_div_less)
    then show ?thesis using "1.IH" [OF False, of j] j False by (simp add: itoa.simps [of n])
  qed (use "1.prems" in \<open>simp add: itoa.simps [of n]\<close>)
qed

lemma fmt020d_digits:
  assumes "0 \<le> n" and "n < 2 ^ 63"
  shows "length (fmt020d n) = 20" and "\<forall>c \<in> set (fmt020d n). is_digit c"
    and "parse_digits (fmt020d n) = nat n"
proof -
  have z: "parse_digits (replicate k (digit_char 0) @ s) = parse_digits s" for k s
    by (induction k) (simp_all add: parse_digits_Cons)
  have "nat n < 10 ^ 20" using assms by simp
  then have "length (itoa (nat n)) \<le> 20" by (rule length_itoa) simp
  then show "length (fmt020d n) = 20" using assms by (simp add: fmt020d_def Let_def)
  show "\<forall>c \<in> set (fmt020d n). is_digit c"
    using assms itoa_digits [of "nat n"] by (auto simp: fmt020d_def Let_def)
  show "parse_digits (fmt020d n) = nat n" using assms by (simp add: fmt020d_def Let_def z)
qed

lemma history_key_order:
  assumes "0 \<le> HDoneAt g" "HDoneAt g < 2 ^ 63" "0 \<le> HDoneAt h" "HDoneAt h < 2 ^ 63"
    and "history_key g < history_key h"
  shows "HDoneAt g \<le> HDoneAt h"
proof (rule ccontr)
  assume "\<not> ?thesis"
  then have "nat (HDoneAt h) < nat (HDoneAt g)" using assms by simp
  then have "history_key h < history_key g"
    unfolding history_key_def using fmt020d_digits [OF assms(1,2)] fmt020d_digits [OF assms(3,4)]
    by (intro digits_less) auto
  with assms(5) show False by simp
qed

section \<open>Listings\<close>

text \<open>The entries of a listing are the bucket's documents, each under its key.\<close>

lemma listed_keys:
  assumes "well_typed s" and "lists_bucket con b s (Inr es)"
    and "\<And>k e. doc_ok b k (con e) \<Longrightarrow> k = key e"
  shows "db_each s b = map (\<lambda>e. (key e, con e)) es" and "\<forall>e \<in> set es. doc_ok b (key e) (con e)"
proof -
  have ok: "db_ok s" using assms(1) by (simp add: well_typed_def)
  have eq: "map con es = map snd (db_each s b)" using assms(2) by (simp add: lists_bucket_def)
  then have len: "length es = length (db_each s b)" by (metis length_map)
  have each: "db_each s b ! i = (key (es ! i), con (es ! i)) \<and> doc_ok b (key (es ! i)) (con (es ! i))"
    if "i < length es" for i
  proof -
    obtain k v where kv: "db_each s b ! i = (k, v)" by (cases "db_each s b ! i")
    then have "v = con (es ! i)" using that eq len by (metis nth_map snd_conv)
    moreover have "doc_ok b k v"
      using kv that len nth_mem [of i "db_each s b"] db_each_iff [OF ok] assms(1)
      unfolding well_typed_def by metis
    ultimately show ?thesis using assms(3) kv by blast
  qed
  show "db_each s b = map (\<lambda>e. (key e, con e)) es" using each len by (intro nth_equalityI) auto
  show "\<forall>e \<in> set es. doc_ok b (key e) (con e)" using each by (metis in_set_conv_nth)
qed

text \<open>A listing of a bucket: it succeeds with the bucket's documents, each once and under the key its own fields
  name, in key order; nothing is missing and nothing is foreign.\<close>

definition listing_exact :: "('e \<Rightarrow> string) \<Rightarrow> ('e \<Rightarrow> doc) \<Rightarrow> bucket \<Rightarrow> 'db state_db \<Rightarrow> state_error + 'e list \<Rightarrow> bool" where
  "listing_exact key con b s r \<longleftrightarrow> (\<exists>es. r = Inr es \<and> sorted_wrt (<) (map key es) \<and>
     (\<forall>k d. db_get s b k = Some d \<longleftrightarrow> (\<exists>e \<in> set es. k = key e \<and> d = con e)))"

lemma listing_exactI:
  assumes "well_typed s" and "lists_bucket con b s r" and "\<And>k e. doc_ok b k (con e) \<Longrightarrow> k = key e"
  shows "listing_exact key con b s r"
proof -
  have ok: "db_ok s" using assms(1) by (simp add: well_typed_def)
  obtain es where r: "r = Inr es" using assms(2) by (auto simp: lists_bucket_def split: sum.splits)
  have each: "db_each s b = map (\<lambda>e. (key e, con e)) es"
    by (rule listed_keys(1) [OF assms(1) assms(2) [unfolded r] assms(3)])
  have "sorted_wrt (<) (map key es)" using db_each_sorted [OF ok, of b] by (simp add: each comp_def)
  moreover have "db_get s b k = Some d \<longleftrightarrow> (\<exists>e \<in> set es. k = key e \<and> d = con e)" for k d
    using db_each_iff [OF ok, of k d b] by (auto simp: each)
  ultimately show ?thesis using r by (simp add: listing_exact_def)
qed

text \<open>C18. The buckets of the database are never confused: from a fresh database, whatever was recorded, removed,
  migrated or expired, every list method succeeds and returns exactly the documents of its bucket, each under the
  key its own fields name and in key order (the cache entries as the sort arranges them, the seed sources as the map from
  their keys), and the lists of public and private uploads and of a peer's outbox are the matching entries. The documents are typed values: encoding one as
  JSON and decoding it as the same type gives it back.\<close>

theorem listings_never_fail:
  assumes "fresh s0" and "\<forall>p \<in> set ops. op_clock p" and "s = after ops s0"
  shows "listing_exact UEKey DUpload Uploads s (ListUploads s) \<and>
         listing_exact DEKey DDownload Downloads s (ListDownloads s) \<and>
         listing_exact PFKey DPublic PublicFiles s (ListPublicFiles s) \<and>
         listing_exact TSKey DTombstone Tombstones s (ListTombstones s) \<and>
         listing_exact IPAddr DIgnored IgnoredPeers s (ListIgnoredPeers s) \<and>
         listing_exact IBKey DInbox Inbox s (ListInbox s) \<and>
         listing_exact history_key DHistory TransferHistory s (ListTransferHistory s) \<and>
         listing_exact OBID DOutbox Outbox s (ListOutbox s) \<and>
         (\<exists>es. ListCacheEntries srt s = Inr (srt es) \<and> listing_exact CEFileKey DCache CacheUsage s (Inr es)) \<and>
         (\<exists>m. AllSeedSources s = Inr m \<and> (\<forall>k d. db_get s SeedSources k = Some d \<longleftrightarrow> (\<exists>e. map_of m k = Some e \<and> d = DSeed e))) \<and>
         sorted_wrt (<) (ListKnownPeers s) \<and> (\<forall>a. a \<in> set (ListKnownPeers s) \<longleftrightarrow> db_get s KnownPeers a \<noteq> None) \<and>
         (\<exists>us. ListUploads s = Inr us \<and> ListPublicUploads s = Inr (filter UEPublic us) \<and>
            ListPrivateUploads s = Inr (filter UEEncrypted us)) \<and>
         (\<exists>os. ListOutbox s = Inr os \<and> ListOutboxForPeer fp s = Inr (filter (\<lambda>e. OBRecipientFP e = fp) os))"
proof -
  have wt: "well_typed s"
    unfolding assms(3) using fresh_well_typed [OF assms(1)] assms(2) by (rule well_typed_after)
  then have ok: "db_ok s" by (simp add: well_typed_def)
  note L = listing_exactI [OF wt lists_bucketI [OF wt]]
  have up: "lists_bucket DUpload Uploads s (ListUploads s)" unfolding ListUploads_def by (rule lists_bucketI [OF wt]) auto
  have ob: "lists_bucket DOutbox Outbox s (ListOutbox s)" unfolding ListOutbox_def by (rule lists_bucketI [OF wt]) auto
  have ca: "lists_bucket DCache CacheUsage s (list_all_of as_cache CacheUsage s)" by (rule lists_bucketI [OF wt]) auto
  have se: "lists_bucket DSeed SeedSources s (list_all_of as_seed SeedSources s)" by (rule lists_bucketI [OF wt]) auto
  have 1: "listing_exact UEKey DUpload Uploads s (ListUploads s)" "listing_exact DEKey DDownload Downloads s (ListDownloads s)"
    "listing_exact PFKey DPublic PublicFiles s (ListPublicFiles s)" "listing_exact TSKey DTombstone Tombstones s (ListTombstones s)"
    "listing_exact IPAddr DIgnored IgnoredPeers s (ListIgnoredPeers s)" "listing_exact IBKey DInbox Inbox s (ListInbox s)"
    "listing_exact history_key DHistory TransferHistory s (ListTransferHistory s)" "listing_exact OBID DOutbox Outbox s (ListOutbox s)"
    unfolding ListUploads_def ListDownloads_def ListPublicFiles_def ListTombstones_def ListIgnoredPeers_def ListInbox_def
      ListTransferHistory_def ListOutbox_def
    by (rule L; auto)+
  obtain es where es: "list_all_of as_cache CacheUsage s = Inr es" using ca by (auto simp: lists_bucket_def split: sum.splits)
  have 2: "ListCacheEntries srt s = Inr (srt es) \<and> listing_exact CEFileKey DCache CacheUsage s (Inr es)"
    using listing_exactI [OF wt ca [unfolded es], of CEFileKey] by (simp add: ListCacheEntries_def es)
  obtain ss where ss: "list_all_of as_seed SeedSources s = Inr ss" "map DSeed ss = map snd (db_each s SeedSources)"
    using se by (auto simp: lists_bucket_def split: sum.splits)
  let ?m = "zip (map fst (db_each s SeedSources)) ss"
  have len: "length ss = length (db_each s SeedSources)" using arg_cong [OF ss(2), of length] by simp
  have "map (\<lambda>(k, e). (k, DSeed e)) ?m = db_each s SeedSources"
  proof (rule nth_equalityI)
    fix i assume "i < length (map (\<lambda>(k, e). (k, DSeed e)) ?m)"
    then have i: "i < length ss" "i < length (db_each s SeedSources)" using len by simp_all
    then have "DSeed (ss ! i) = snd (db_each s SeedSources ! i)" using arg_cong [OF ss(2), of "\<lambda>xs. xs ! i"] by simp
    then show "map (\<lambda>(k, e). (k, DSeed e)) ?m ! i = db_each s SeedSources ! i" using i by simp
  qed (simp add: len)
  then have m: "map_of (db_each s SeedSources) k = map_option DSeed (map_of ?m k)" for k
    using fun_cong [OF map_of_map [of DSeed ?m], of k] by (simp only: comp_apply)
  have 3: "AllSeedSources s = Inr ?m \<and> (\<forall>k d. db_get s SeedSources k = Some d \<longleftrightarrow> (\<exists>e. map_of ?m k = Some e \<and> d = DSeed e))"
    using m db_each_map [OF ok, of SeedSources] by (auto simp: AllSeedSources_def ss(1))
  have 4: "sorted_wrt (<) (ListKnownPeers s)" "a \<in> set (ListKnownPeers s) \<longleftrightarrow> db_get s KnownPeers a \<noteq> None" for a
    using db_each_sorted [OF ok] db_each_iff [OF ok, of a _ KnownPeers]
    by (auto simp: ListKnownPeers_def image_iff intro: bexI [of _ "(a, _)"])
  obtain us where us: "ListUploads s = Inr us" using up by (auto simp: lists_bucket_def split: sum.splits)
  obtain os where os: "ListOutbox s = Inr os" using ob by (auto simp: lists_bucket_def split: sum.splits)
  have 5: "ListPublicUploads s = Inr (filter UEPublic us)" "ListPrivateUploads s = Inr (filter UEEncrypted us)"
    "ListOutboxForPeer fp s = Inr (filter (\<lambda>e. OBRecipientFP e = fp) os)"
    using us os by (simp_all add: ListPublicUploads_def ListPrivateUploads_def ListOutboxForPeer_def ListOutbox_def filter_result_def)
  show ?thesis using 1 2 3 4 5 us os by blast
qed

definition demo_upload :: upload_entry where
  "demo_upload = \<lparr>UEKey = ''fp/a'', UEName = ''a'', UEPath = ''/a'', UESize = 3, UEEncrypted = False,
     UEPublic = True, UEIsDir = False, UETimestamp = 0\<rparr>"

theorem listings_never_fail_witness:
  "listing_exact UEKey DUpload Uploads (after [ORecordUpload 5 demo_upload, ORemoveUpload ''x''] alist_db)
     (ListUploads (after [ORecordUpload 5 demo_upload, ORemoveUpload ''x''] alist_db))"
  using listings_never_fail [OF fresh_alist_db, of "[ORecordUpload 5 demo_upload, ORemoveUpload ''x'']"]
  by simp

lemma listed_entries:
  assumes "db_ok s" and "db_each s b = map (\<lambda>e. (key e, con e)) es"
  shows "distinct (map key es)" and "\<forall>e \<in> set es. db_get s b (key e) = Some (con e)"
    and "db_get s b k \<noteq> None \<longleftrightarrow> k \<in> key ` set es"
proof -
  show "distinct (map key es)"
    using db_each_distinct [OF assms(1), of b] by (simp add: assms(2) comp_def)
  show "\<forall>e \<in> set es. db_get s b (key e) = Some (con e)"
    using db_each_iff [OF assms(1), of _ _ b] by (auto simp: assms(2))
  show "db_get s b k \<noteq> None \<longleftrightarrow> k \<in> key ` set es"
    using db_each_iff [OF assms(1), of k _ b] by (force simp: assms(2))
qed

lemma listed_history:
  assumes "well_typed s" and "ListTransferHistory s = Inr hs"
  shows "db_each s TransferHistory = map (\<lambda>h. (history_key h, DHistory h)) hs"
    and "\<forall>h \<in> set hs. HDoneAt h \<noteq> 0"
proof -
  have l: "lists_bucket DHistory TransferHistory s (Inr hs)"
    unfolding assms(2) [symmetric] ListTransferHistory_def by (rule lists_bucketI [OF assms(1)]) auto
  show "db_each s TransferHistory = map (\<lambda>h. (history_key h, DHistory h)) hs"
    by (rule listed_keys(1) [OF assms(1) l]) simp
  show "\<forall>h \<in> set hs. HDoneAt h \<noteq> 0"
    using listed_keys(2) [OF assms(1) l, of history_key] by simp
qed

lemma listed_downloads:
  assumes "well_typed s" and "ListDownloads s = Inr ds"
  shows "db_each s Downloads = map (\<lambda>d. (DEKey d, DDownload d)) ds"
    and "\<forall>d \<in> set ds. DETimestamp d \<noteq> 0"
proof -
  have l: "lists_bucket DDownload Downloads s (Inr ds)"
    unfolding assms(2) [symmetric] ListDownloads_def by (rule lists_bucketI [OF assms(1)]) auto
  show "db_each s Downloads = map (\<lambda>d. (DEKey d, DDownload d)) ds"
    by (rule listed_keys(1) [OF assms(1) l]) simp
  show "\<forall>d \<in> set ds. DETimestamp d \<noteq> 0"
    using listed_keys(2) [OF assms(1) l, of DEKey] by simp
qed

text \<open>The transfer history comes out oldest first: the padded decimal keys make the byte order of
  the bucket the order of the completion times.\<close>

lemma history_oldest_first:
  assumes "well_typed s" and "ListTransferHistory s = Inr hs"
    and "\<forall>h \<in> set hs. 0 \<le> HDoneAt h \<and> HDoneAt h < 2 ^ 63"
  shows "sorted (map HDoneAt hs)"
proof -
  have ok: "db_ok s" using assms(1) by (simp add: well_typed_def)
  have "sorted_wrt (<) (map history_key hs)"
    using db_each_sorted [OF ok, of TransferHistory]
    by (simp add: listed_history(1) [OF assms(1,2)] comp_def)
  then have "sorted_wrt (\<lambda>g h. history_key g < history_key h) hs" by (simp add: sorted_wrt_map)
  then have "sorted_wrt (\<lambda>g h. HDoneAt g \<le> HDoneAt h) hs"
    by (rule sorted_wrt_mono_rel [rotated]) (use assms(3) history_key_order in blast)
  then show ?thesis by (simp add: sorted_map)
qed

definition demo_transfer :: "string \<Rightarrow> int \<Rightarrow> transfer_history_entry" where
  "demo_transfer tid done_at = \<lparr>HID = tid, HDirection = 1, HKey = ''fp/a'', HName = ''a'', HSize = 0,
     HIsDir = False, HEncrypted = False, HPublic = False, HSpeed = 0, HStartedAt = 1,
     HDoneAt = done_at, HStatus = 3, HError = []\<rparr>"

definition demo_history :: "(bucket \<Rightarrow> (string \<times> doc) list) state_db" where
  "demo_history =
     after [ORecordTransfer 7 (demo_transfer ''b'' 12), ORecordTransfer 7 (demo_transfer ''a'' 9)] alist_db"

lemma demo_history_typed: "well_typed demo_history"
  unfolding demo_history_def by (rule well_typed_after [OF fresh_well_typed [OF fresh_alist_db]]) simp

lemma demo_history_list:
  "ListTransferHistory demo_history = Inr [demo_transfer ''a'' 9, demo_transfer ''b'' 12]"
proof -
  let ?k = history_key
  let ?a = "demo_transfer ''a'' 9" let ?b = "demo_transfer ''b'' 12"
  have lt: "?k ?a < ?k ?b"
    unfolding history_key_def demo_transfer_def using fmt020d_digits [of 9] fmt020d_digits [of 12]
    by (auto intro!: digits_less)
  then have ne: "?k ?a \<noteq> ?k ?b" by simp
  have st: "(?a\<lparr>HDoneAt := 9\<rparr>) = ?a" "(?b\<lparr>HDoneAt := 12\<rparr>) = ?b" "HDoneAt ?a = 9" "HDoneAt ?b = 12"
    by (simp_all add: demo_transfer_def)
  have "db_each demo_history TransferHistory = [(?k ?a, DHistory ?a), (?k ?b, DHistory ?b)]"
    using lt ne by (simp add: demo_history_def after_def RecordTransfer_def keep_old_def db_put_def
        db_each_def alist_db_def alist_bolt_def stamp_def st Let_def)
  then show ?thesis by (simp add: ListTransferHistory_def list_all_of_def)
qed

theorem history_oldest_first_witness:
  "sorted (map HDoneAt [demo_transfer ''a'' 9, demo_transfer ''b'' 12])"
  by (rule history_oldest_first [OF demo_history_typed demo_history_list]) (simp add: demo_transfer_def)

section \<open>The block list\<close>

lemma IsIgnoredFingerprint_iff:
  assumes "db_ok s" and "fp \<noteq> []"
  shows "IsIgnoredFingerprint fp s \<longleftrightarrow>
         (\<exists>addr e. db_get s IgnoredPeers addr = Some (DIgnored e) \<and> IPFingerprint e = fp)"
proof -
  have "has_fingerprint fp v \<longleftrightarrow> (\<exists>e. v = DIgnored e \<and> IPFingerprint e = fp)" for v
    by (cases v) (auto simp: has_fingerprint_def)
  then show ?thesis
    using assms db_each_iff [OF assms(1), of _ _ IgnoredPeers]
    by (auto simp: IsIgnoredFingerprint_def list_ex_iff) blast+
qed

text \<open>Unblocking a fingerprint removes every entry of that identity, under whatever address it was
  blocked, and nothing else; the empty fingerprint is never blocked and unblocks nothing.\<close>

lemma unblock_fingerprint_exact:
  assumes "db_ok s" and "RemoveIgnoredByFingerprint fp s = Inr s'"
  shows "\<not> IsIgnoredFingerprint fp s' \<and>
         (\<forall>b k. db_get s' b k =
            (if b = IgnoredPeers \<and> fp \<noteq> [] \<and>
                (\<exists>e. db_get s b k = Some (DIgnored e) \<and> IPFingerprint e = fp)
             then None else db_get s b k))"
proof (cases "fp = []")
  case True
  then show ?thesis using assms(2) by (simp add: RemoveIgnoredByFingerprint_def IsIgnoredFingerprint_def)
next
  case False
  define ks where "ks = map fst (filter (\<lambda>(k, v). has_fingerprint fp v) (db_each s IgnoredPeers))"
  have del: "delete_keys IgnoredPeers ks s = Inr s'"
    using assms(2) False by (simp add: RemoveIgnoredByFingerprint_def ks_def)
  have fpd: "has_fingerprint fp v \<longleftrightarrow> (\<exists>e. v = DIgnored e \<and> IPFingerprint e = fp)" for v
    by (cases v) (auto simp: has_fingerprint_def)
  have ks: "k \<in> set ks \<longleftrightarrow> (\<exists>e. db_get s IgnoredPeers k = Some (DIgnored e) \<and> IPFingerprint e = fp)" for k
  proof -
    have "k \<in> set ks \<longleftrightarrow> (\<exists>v. (k, v) \<in> set (db_each s IgnoredPeers) \<and> has_fingerprint fp v)"
      by (force simp: ks_def)
    then show ?thesis unfolding db_each_iff [OF assms(1)] fpd by blast
  qed
  have get: "db_get s' b k = (if b = IgnoredPeers \<and> k \<in> set ks then None else db_get s b k)" for b k
    using delete_keys_get [OF del assms(1)] by simp
  have "db_ok s'" using delete_keys_get [OF del assms(1)] by simp
  then have "\<not> IsIgnoredFingerprint fp s'"
    using IsIgnoredFingerprint_iff [of s' fp] False get ks by auto
  moreover have "db_get s' b k =
      (if b = IgnoredPeers \<and> fp \<noteq> [] \<and> (\<exists>e. db_get s b k = Some (DIgnored e) \<and> IPFingerprint e = fp)
       then None else db_get s b k)" for b k
    using get [of b k] ks [of k] False by (cases "b = IgnoredPeers") auto
  ultimately show ?thesis by blast
qed

definition demo_blocked :: "(bucket \<Rightarrow> (string \<times> doc) list) state_db" where
  "demo_blocked = after [OAddIgnoredPeer 7 \<lparr>IPAddr = ''a:1'', IPFingerprint = ''f'', IPIgnoredAt = 0\<rparr>] alist_db"

lemma after_ok: "fresh s \<Longrightarrow> \<forall>p \<in> set ops. op_clock p \<Longrightarrow> db_ok (after ops s)"
  using well_typed_after [OF fresh_well_typed, of s ops] unfolding well_typed_def by blast

theorem unblock_fingerprint_exact_witness:
  "\<exists>s'. RemoveIgnoredByFingerprint ''f'' demo_blocked = Inr s' \<and> \<not> IsIgnoredFingerprint ''f'' s' \<and>
        IsIgnoredFingerprint ''f'' demo_blocked"
proof -
  have w: "bolt_writable (Ops demo_blocked)"
    by (simp add: demo_blocked_def after_def keep_old_def AddIgnoredPeer_def db_put_def Let_def
        alist_bolt_writable split: sum.splits)
  obtain s' where s': "RemoveIgnoredByFingerprint ''f'' demo_blocked = Inr s'"
    using delete_keys_writable [OF w] by (auto simp: RemoveIgnoredByFingerprint_def)
  have "db_ok demo_blocked" unfolding demo_blocked_def by (rule after_ok [OF fresh_alist_db]) simp
  from unblock_fingerprint_exact [OF this s'] have "\<not> IsIgnoredFingerprint ''f'' s'" by blast
  moreover have "IsIgnoredFingerprint ''f'' demo_blocked"
    by (simp add: IsIgnoredFingerprint_def demo_blocked_def after_def keep_old_def AddIgnoredPeer_def
        db_put_def Let_def db_each_def alist_db_def alist_bolt_def has_fingerprint_def)
  ultimately show ?thesis using s' by blast
qed

section \<open>The size migration\<close>

definition sized :: "(string \<Rightarrow> bool \<Rightarrow> int) \<Rightarrow> download_entry \<Rightarrow> bool" where
  "sized getSize d \<longleftrightarrow> DESize d = 0 \<and> 0 < getSize (DEKey d) (DEIsDir d)"

definition hsized :: "(string \<Rightarrow> bool \<Rightarrow> int) \<Rightarrow> transfer_history_entry \<Rightarrow> bool" where
  "hsized getSize h \<longleftrightarrow> HSize h = 0 \<and> HDirection h = 1 \<and> 0 < getSize (HKey h) (HIsDir h)"

text \<open>What the migration is meant to do to each document.\<close>

fun resized :: "(string \<Rightarrow> bool \<Rightarrow> int) \<Rightarrow> doc \<Rightarrow> doc" where
  "resized g (DDownload d) = DDownload (if sized g d then d\<lparr>DESize := g (DEKey d) (DEIsDir d)\<rparr> else d)"
| "resized g (DHistory h) = DHistory (if hsized g h then h\<lparr>HSize := g (HKey h) (HIsDir h)\<rparr> else h)"
| "resized g d = d"

lemma resized_twice [simp]: "resized g (resized g d) = resized g d"
  by (cases d) (auto simp: sized_def hsized_def)

text \<open>The two loops of the migration have one shape: the entries that need it are recorded again, and
  an entry that cannot be recorded is left alone.\<close>

fun migrate_loop ::
  "('e \<Rightarrow> bool) \<Rightarrow> ('e \<Rightarrow> 'db state_db \<Rightarrow> state_error + 'db state_db) \<Rightarrow> 'e list \<Rightarrow> nat \<Rightarrow> 'db state_db
    \<Rightarrow> nat \<times> 'db state_db" where
  "migrate_loop need rec [] n s = (n, s)"
| "migrate_loop need rec (e # es) n s =
     (if need e then
        (case rec e s of Inl _ \<Rightarrow> migrate_loop need rec es n s
                       | Inr s' \<Rightarrow> migrate_loop need rec es (n + 1) s')
      else migrate_loop need rec es n s)"

lemma migrate_downloads_loop:
  "migrate_downloads g now ds n s =
   migrate_loop (sized g) (\<lambda>d. RecordDownload now (d\<lparr>DESize := g (DEKey d) (DEIsDir d)\<rparr>)) ds n s"
  by (induction g now ds n s rule: migrate_downloads.induct) (auto simp: sized_def Let_def split: sum.splits)

lemma migrate_history_loop:
  "migrate_history g now hs n s =
   migrate_loop (hsized g) (\<lambda>h. RecordTransfer now (h\<lparr>HSize := g (HKey h) (HIsDir h)\<rparr>)) hs n s"
  by (induction g now hs n s rule: migrate_history.induct) (auto simp: hsized_def Let_def split: sum.splits)

lemma migrate_loop_exact:
  assumes "db_ok s" and "bolt_writable (Ops s)" and "distinct (map key es)"
    and "\<And>e s. e \<in> set es \<Longrightarrow> need e \<Longrightarrow> rec e s = db_put b0 (key e) (f (con e)) s"
    and "\<And>e. e \<in> set es \<Longrightarrow> \<not> need e \<Longrightarrow> f (con e) = con e"
    and "\<forall>e \<in> set es. db_get s b0 (key e) = Some (con e)"
  shows "\<exists>s'. migrate_loop need rec es n s = (n + length (filter need es), s') \<and> db_ok s' \<and> Ops s' = Ops s \<and>
           (\<forall>b k. db_get s' b k = (if b = b0 \<and> k \<in> key ` set es
                                then map_option f (db_get s b k) else db_get s b k))"
  using assms
proof (induction es arbitrary: n s)
  case (Cons e es)
  have stored: "db_get s b0 (key e) = Some (con e)" using Cons.prems(6) by simp
  have fresh: "key e \<notin> key ` set es" and dist: "distinct (map key es)"
    using Cons.prems(3) by auto
  have rec: "\<And>x s. x \<in> set es \<Longrightarrow> need x \<Longrightarrow> rec x s = db_put b0 (key x) (f (con x)) s"
    and same: "\<And>x. x \<in> set es \<Longrightarrow> \<not> need x \<Longrightarrow> f (con x) = con x"
    using Cons.prems(4,5) by auto
  show ?case
  proof (cases "need e")
    case True
    obtain s1 where put: "db_put b0 (key e) (f (con e)) s = Inr s1"
      using db_put_writable [OF Cons.prems(2)] by blast
    note get = db_put_get [OF put Cons.prems(1)]
    have "key x \<noteq> key e" if "x \<in> set es" for x using that fresh by (metis imageI)
    then have keep: "\<forall>x \<in> set es. db_get s1 b0 (key x) = Some (con x)"
      using Cons.prems(6) get by simp
    have w: "bolt_writable (Ops s1)" using db_put_ops [OF put] Cons.prems(2) by simp
    obtain s' where s': "migrate_loop need rec es (n + 1) s1 = (n + 1 + length (filter need es), s')"
        "db_ok s'" "Ops s' = Ops s1"
        "\<And>b k. db_get s' b k = (if b = b0 \<and> k \<in> key ` set es
            then map_option f (db_get s1 b k) else db_get s1 b k)"
      using Cons.IH [OF db_put_ok [OF put Cons.prems(1)] w dist rec same keep, of "n + 1"] by auto
    have "db_get s' b k = (if b = b0 \<and> k \<in> key ` set (e # es)
        then map_option f (db_get s b k) else db_get s b k)" for b k
      using s'(4) [of b k] get [of b k] stored fresh by auto
    moreover have "migrate_loop need rec (e # es) n s = (n + length (filter need (e # es)), s')"
      using True put s'(1) Cons.prems(4) [of e s] by simp
    ultimately show ?thesis using s'(2,3) db_put_ops [OF put] by metis
  next
    case False
    obtain s' where s': "migrate_loop need rec es n s = (n + length (filter need es), s')"
        "db_ok s'" "Ops s' = Ops s"
        "\<And>b k. db_get s' b k = (if b = b0 \<and> k \<in> key ` set es
            then map_option f (db_get s b k) else db_get s b k)"
      using Cons.IH [OF Cons.prems(1,2) dist rec same, of n] Cons.prems(6) by auto
    have "db_get s' b k = (if b = b0 \<and> k \<in> key ` set (e # es)
        then map_option f (db_get s b k) else db_get s b k)" for b k
      using s'(4) [of b k] stored False Cons.prems(5) [of e] fresh by auto
    moreover have "migrate_loop need rec (e # es) n s = (n + length (filter need (e # es)), s')"
      using False s'(1) by simp
    ultimately show ?thesis using s'(2,3) by metis
  qed
qed simp

lemma db_each_cong:
  assumes "db_ok s" and "db_ok s'" and "\<And>k. db_get s b k = db_get s' b k"
  shows "db_each s b = db_each s' b"
proof (rule map_sorted_distinct_set_unique [where f = fst])
  have "(k, v) \<in> set (db_each s b) \<longleftrightarrow> (k, v) \<in> set (db_each s' b)" for k v
    using db_each_iff [OF assms(1)] db_each_iff [OF assms(2)] assms(3) by simp
  then show eq: "set (db_each s b) = set (db_each s' b)" by auto
  show "inj_on fst (set (db_each s b) \<union> set (db_each s' b))"
    unfolding eq using db_each_distinct [OF assms(2), of b] by (simp add: distinct_map)
qed (use db_each_sorted [OF assms(1), of b] db_each_sorted [OF assms(2), of b] in
    \<open>simp_all add: strict_sorted_iff\<close>)

lemma migrate_run:
  assumes "well_typed s" and "bolt_writable (Ops s)"
    and "ListDownloads s = Inr ds" and "ListTransferHistory s = Inr hs"
  shows "\<exists>s'. MigrateZeroSizes g now s =
           (length (filter (sized g) ds) + length (filter (hsized g) hs), None, s') \<and>
         db_ok s' \<and> Ops s' = Ops s \<and> (\<forall>b k. db_get s' b k = map_option (resized g) (db_get s b k))"
proof -
  have ok: "db_ok s" using assms(1) by (simp add: well_typed_def)
  note D = listed_downloads [OF assms(1,3)] and H = listed_history [OF assms(1,4)]
  note De = listed_entries [OF ok D(1)] and He = listed_entries [OF ok H(1)]
  have "RecordDownload now (d\<lparr>DESize := g (DEKey d) (DEIsDir d)\<rparr>) u =
      db_put Downloads (DEKey d) (resized g (DDownload d)) u" if "d \<in> set ds" "sized g d" for d u
    using that D(2) by (simp add: RecordDownload_def stamp_def Let_def)
  from migrate_loop_exact [where f = "resized g" and con = DDownload and key = DEKey and n = 0
      and need = "sized g",
      OF ok assms(2) De(1) this _ De(2)]
  obtain s1 where s1: "migrate_downloads g now ds 0 s = (length (filter (sized g) ds), s1)" "db_ok s1"
      "Ops s1 = Ops s"
      "\<And>b k. db_get s1 b k = (if b = Downloads \<and> k \<in> DEKey ` set ds
          then map_option (resized g) (db_get s b k) else db_get s b k)"
    by (auto simp: migrate_downloads_loop)
  have same: "db_each s1 TransferHistory = db_each s TransferHistory"
    using s1(4) by (intro db_each_cong [OF s1(2) ok]) simp
  then have "ListTransferHistory s1 = Inr hs"
    using assms(4) by (simp add: ListTransferHistory_def list_all_of_def)
  have w1: "bolt_writable (Ops s1)" using s1(3) assms(2) by simp
  have "RecordTransfer now (h\<lparr>HSize := g (HKey h) (HIsDir h)\<rparr>) u =
      db_put TransferHistory (history_key h) (resized g (DHistory h)) u" if "h \<in> set hs" "hsized g h" for h u
    using that H(2) by (simp add: RecordTransfer_def stamp_def Let_def history_key_def)
  from migrate_loop_exact [where f = "resized g" and con = DHistory and key = history_key
      and need = "hsized g"
      and n = "length (filter (sized g) ds)", OF s1(2) w1 He(1) this _
      listed_entries(2) [OF s1(2) same [unfolded H(1)]]]
  obtain s' where s': "migrate_history g now hs (length (filter (sized g) ds)) s1 =
        (length (filter (sized g) ds) + length (filter (hsized g) hs), s')" "db_ok s'" "Ops s' = Ops s1"
      "\<And>b k. db_get s' b k = (if b = TransferHistory \<and> k \<in> history_key ` set hs
          then map_option (resized g) (db_get s1 b k) else db_get s1 b k)"
    by (auto simp: migrate_history_loop)
  have "db_get s' b k = map_option (resized g) (db_get s b k)" for b k
  proof (cases "db_get s b k")
    case None
    then show ?thesis using s'(4) [of b k] s1(4) [of b k] by auto
  next
    case (Some v)
    then have "doc_ok b k v" using assms(1) by (simp add: well_typed_def)
    then have "b \<noteq> Downloads \<Longrightarrow> b \<noteq> TransferHistory \<Longrightarrow> resized g v = v" by (cases b) auto
    moreover have "b = Downloads \<Longrightarrow> k \<in> DEKey ` set ds" using De(3) [of k] Some by blast
    moreover have "b = TransferHistory \<Longrightarrow> k \<in> history_key ` set hs" using He(3) [of k] Some by blast
    ultimately show ?thesis using s'(4) [of b k] s1(4) [of b k] Some by auto
  qed
  moreover have "MigrateZeroSizes g now s =
      (length (filter (sized g) ds) + length (filter (hsized g) hs), None, s')"
    using s'(1) \<open>ListTransferHistory s1 = Inr hs\<close> by (simp add: MigrateZeroSizes_def assms(3) s1(1))
  ultimately show ?thesis using s'(2,3) s1(3) by auto
qed

text \<open>The size migration gives every download, and every download in the history, whose size was
  zero the size its manifest has, changes nothing else, counts what it changed, and has nothing
  left to do when it runs again.\<close>

lemma migration_exact_and_idempotent:
  assumes "well_typed s" and "bolt_writable (Ops s)"
    and "ListDownloads s = Inr ds" and "ListTransferHistory s = Inr hs"
  shows "\<exists>s'. MigrateZeroSizes g now s =
           (length (filter (sized g) ds) + length (filter (hsized g) hs), None, s') \<and>
         (\<forall>b k. db_get s' b k = map_option (resized g) (db_get s b k)) \<and>
         (now' \<noteq> 0 \<longrightarrow> now \<noteq> 0 \<longrightarrow> (\<exists>s''. MigrateZeroSizes g now' s' = (0, None, s'') \<and>
            (\<forall>b k. db_get s'' b k = db_get s' b k)))"
proof -
  obtain s' where s': "MigrateZeroSizes g now s =
        (length (filter (sized g) ds) + length (filter (hsized g) hs), None, s')" "Ops s' = Ops s"
      "\<And>b k. db_get s' b k = map_option (resized g) (db_get s b k)"
    using migrate_run [OF assms, of g now] by auto
  have "\<exists>s''. MigrateZeroSizes g now' s' = (0, None, s'') \<and> (\<forall>b k. db_get s'' b k = db_get s' b k)"
    if "now \<noteq> 0"
  proof -
    have wt: "well_typed s'" using well_typed_migrate [OF assms(1) that, of g] s'(1) by simp
    have ok: "db_ok s'" using wt by (simp add: well_typed_def)
    have l: "lists_bucket DDownload Downloads s' (ListDownloads s')"
        "lists_bucket DHistory TransferHistory s' (ListTransferHistory s')"
      unfolding ListDownloads_def ListTransferHistory_def by (rule lists_bucketI [OF wt]; auto)+
    then obtain ds' hs' where r: "ListDownloads s' = Inr ds'" "ListTransferHistory s' = Inr hs'"
      by (auto simp: lists_bucket_def)
    have "\<not> sized g d" if "d \<in> set ds'" for d
    proof -
      have "map_option (resized g) (db_get s Downloads (DEKey d)) = Some (DDownload d)"
        using listed_entries(2) [OF ok listed_downloads(1) [OF wt r(1)]] that s'(3) by metis
      then obtain v where "resized g v = DDownload d" by auto
      then have "resized g (DDownload d) = DDownload d" using resized_twice [of g v] by simp
      then show ?thesis by (auto simp: sized_def dest: arg_cong [where f = DESize])
    qed
    moreover have "\<not> hsized g h" if "h \<in> set hs'" for h
    proof -
      have "map_option (resized g) (db_get s TransferHistory (history_key h)) = Some (DHistory h)"
        using listed_entries(2) [OF ok listed_history(1) [OF wt r(2)]] that s'(3) by metis
      then obtain v where "resized g v = DHistory h" by auto
      then have "resized g (DHistory h) = DHistory h" using resized_twice [of g v] by simp
      then show ?thesis by (auto simp: hsized_def dest: arg_cong [where f = HSize])
    qed
    ultimately have "length (filter (sized g) ds') + length (filter (hsized g) hs') = 0" by simp
    moreover have "map_option (resized g) (db_get s' b k) = db_get s' b k" for b k
      using s'(3) [of b k] by (simp add: option.map_comp comp_def)
    ultimately show ?thesis
      using migrate_run [OF wt _ r, of g now'] s'(2) assms(2) by auto
  qed
  with s' show ?thesis by blast
qed

theorem migration_exact_and_idempotent_witness:
  "\<exists>s' s''. MigrateZeroSizes (\<lambda>_ _. 8) 7 demo_history = (2, None, s') \<and>
            MigrateZeroSizes (\<lambda>_ _. 8) 9 s' = (0, None, s'')"
proof -
  have "db_each demo_history Downloads = []"
    by (simp add: demo_history_def after_def RecordTransfer_def keep_old_def db_put_def db_each_def
        alist_db_def alist_bolt_def Let_def)
  then have d: "ListDownloads demo_history = Inr []" by (simp add: ListDownloads_def list_all_of_def)
  have w: "bolt_writable (Ops demo_history)"
    by (simp add: demo_history_def after_def keep_old_def RecordTransfer_def db_put_def Let_def
        alist_bolt_writable split: sum.splits)
  have "length (filter (hsized (\<lambda>_ _. 8)) [demo_transfer ''a'' 9, demo_transfer ''b'' 12]) = 2"
    by (simp add: hsized_def demo_transfer_def)
  with migration_exact_and_idempotent [OF demo_history_typed w d demo_history_list, of "\<lambda>_ _. 8" 7 9]
  show ?thesis by auto
qed

section \<open>Provider records\<close>

text \<open>The abstract value of a provider list: the record of each address.\<close>

definition provider_map :: "provider_record list \<Rightarrow> string \<rightharpoonup> provider_record" where
  "provider_map ps = map_of (map (\<lambda>p. (PAddr p, p)) ps)"

lemma provider_map_upsert: "provider_map (upsert_provider r ps) = (provider_map ps)(PAddr r \<mapsto> r)"
  by (induction ps) (auto simp: provider_map_def fun_eq_iff)

lemma provider_map_filter:
  "provider_map (filter (\<lambda>p. PAddr p \<noteq> addr) ps) = (provider_map ps)(addr := None)"
  by (induction ps) (auto simp: provider_map_def fun_eq_iff)

lemma upsert_distinct:
  "distinct (map PAddr ps) \<Longrightarrow> distinct (map PAddr (upsert_provider r ps)) \<and>
   set (map PAddr (upsert_provider r ps)) = insert (PAddr r) (set (map PAddr ps))"
  by (induction ps) auto

lemma GetProviders_get:
  "GetProviders k s = (case db_get s Providers k of Some (DProviders ps) \<Rightarrow> ps | _ \<Rightarrow> [])"
  by (cases "db_get s Providers k") (auto simp: GetProviders_def get_as_def split: doc.splits)

text \<open>The provider table of a file is a map from addresses to their latest record: adding updates
  the address, removing clears it, both leave every other file's providers alone, and the list
  never holds two records of one address.\<close>

lemma providers_refine_map:
  assumes "db_ok s"
  shows "(AddProvider key r s = Inr s' \<longrightarrow>
            provider_map (GetProviders key s') = (provider_map (GetProviders key s))(PAddr r \<mapsto> r) \<and>
            (distinct (map PAddr (GetProviders key s)) \<longrightarrow> distinct (map PAddr (GetProviders key s'))) \<and>
            (\<forall>k. k \<noteq> key \<longrightarrow> GetProviders k s' = GetProviders k s)) \<and>
         (RemoveProvider key addr s = Inr s' \<longrightarrow>
            provider_map (GetProviders key s') = (provider_map (GetProviders key s))(addr := None) \<and>
            (\<forall>k. k \<noteq> key \<longrightarrow> GetProviders k s' = GetProviders k s))"
proof (intro conjI impI)
  assume "AddProvider key r s = Inr s'"
  then have put: "db_put Providers key (DProviders (upsert_provider r (GetProviders key s))) s = Inr s'"
    by (simp add: AddProvider_def)
  note get = db_put_get [OF put assms]
  have new: "GetProviders key s' = upsert_provider r (GetProviders key s)"
    by (simp add: GetProviders_get [of key s'] get)
  show "provider_map (GetProviders key s') = (provider_map (GetProviders key s))(PAddr r \<mapsto> r)"
    by (simp add: new provider_map_upsert)
  show "distinct (map PAddr (GetProviders key s'))" if "distinct (map PAddr (GetProviders key s))"
    using upsert_distinct [OF that] by (simp add: new)
  show "\<forall>k. k \<noteq> key \<longrightarrow> GetProviders k s' = GetProviders k s" by (simp add: GetProviders_get get)
next
  assume rm: "RemoveProvider key addr s = Inr s'"
  let ?f = "filter (\<lambda>p. PAddr p \<noteq> addr) (GetProviders key s)"
  have get: "db_get s' b k =
      (if b = Providers \<and> k = key then (if ?f = [] then None else Some (DProviders ?f)) else db_get s b k)" for b k
    using rm db_put_get [of Providers key "DProviders ?f" s s' b k] db_delete_get [of Providers key s s' b k] assms
    by (auto simp: RemoveProvider_def Let_def split: if_splits)
  have new: "GetProviders key s' = ?f" by (simp add: GetProviders_get [of key s'] get)
  show "provider_map (GetProviders key s') = (provider_map (GetProviders key s))(addr := None)"
    by (simp add: new provider_map_filter)
  show "\<forall>k. k \<noteq> key \<longrightarrow> GetProviders k s' = GetProviders k s" by (simp add: GetProviders_get get)
qed

definition demo_provider :: "string \<Rightarrow> int \<Rightarrow> provider_record" where
  "demo_provider addr reg = \<lparr>PAddr = addr, PChunkCount = 1, PTotalChunks = 2, PRegisteredAt = reg\<rparr>"

theorem providers_refine_map_witness:
  "\<exists>s'. AddProvider ''k'' (demo_provider ''a'' 5) alist_db = Inr s' \<and>
        provider_map (GetProviders ''k'' s') ''a'' = Some (demo_provider ''a'' 5)"
proof -
  obtain s' :: "(bucket \<Rightarrow> (string \<times> doc) list) state_db"
    where s': "AddProvider ''k'' (demo_provider ''a'' 5) alist_db = Inr s'"
    using db_put_writable [of alist_db] alist_bolt_writable unfolding AddProvider_def alist_db_simps by blast
  have "db_ok alist_db" by (simp add: db_ok_def alist_bolt_ok)
  from providers_refine_map [OF this, of "''k''" "demo_provider ''a'' 5" s' "''a''"] s'
  show ?thesis by (auto simp: demo_provider_def)
qed

definition live :: "int \<Rightarrow> provider_record list \<Rightarrow> provider_record list" where
  "live cutoff ps = filter (\<lambda>p. PRegisteredAt p > cutoff) ps"

text \<open>The scan shortens the lists that keep a record, and marks the keys of those that keep none.\<close>

definition dead :: "int \<Rightarrow> doc \<Rightarrow> bool" where
  "dead cutoff v \<longleftrightarrow> (\<exists>ps. as_providers v = Some ps \<and> live cutoff ps = [])"

definition shrink :: "int \<Rightarrow> doc \<Rightarrow> doc" where
  "shrink cutoff v = (case as_providers v of
     Some ps \<Rightarrow> if live cutoff ps = [] then v else DProviders (live cutoff ps) | None \<Rightarrow> v)"

lemma as_providers_Some: "as_providers v = Some ps \<longleftrightarrow> v = DProviders ps"
  by (cases v) auto

lemma live_all: "\<not> length (live cutoff ps) < length ps \<Longrightarrow> live cutoff ps = ps"
  unfolding live_def by (metis filter_True length_filter_less)

lemma expire_step:
  assumes "expire_loop cutoff ((k, v) # kvs) del s = Inr r" and "db_ok s" and "db_get s Providers k = Some v"
  shows "\<exists>s1. expire_loop cutoff kvs (del @ (if dead cutoff v then [k] else [])) s1 = Inr r \<and> db_ok s1 \<and>
           Ops s1 = Ops s \<and>
           (\<forall>b k'. db_get s1 b k' = (if b = Providers \<and> k' = k then Some (shrink cutoff v) else db_get s b k'))"
proof (cases "as_providers v")
  case None
  then show ?thesis using assms by (intro exI [of _ s]) (auto simp: dead_def shrink_def)
next
  case (Some ps)
  then have v: "v = DProviders ps" by (simp add: as_providers_Some)
  consider (gone) "live cutoff ps = []"
    | (shrunk) "live cutoff ps \<noteq> []" "length (live cutoff ps) < length ps"
    | (same) "live cutoff ps \<noteq> []" "\<not> length (live cutoff ps) < length ps"
    by blast
  then show ?thesis
  proof cases
    case gone
    then show ?thesis using assms Some
      by (intro exI [of _ s]) (auto simp: dead_def shrink_def live_def)
  next
    case shrunk
    then obtain s1 where put: "db_put Providers k (DProviders (live cutoff ps)) s = Inr s1"
        and r: "expire_loop cutoff kvs del s1 = Inr r"
      using assms(1) Some by (auto simp: live_def Let_def split: sum.splits)
    show ?thesis
      using shrunk r Some db_put_get [OF put assms(2)] db_put_ok [OF put assms(2)] db_put_ops [OF put]
      by (intro exI [of _ s1]) (auto simp: dead_def shrink_def)
  next
    case same
    then have "expire_loop cutoff kvs del s = Inr r" using assms(1) Some by (simp add: live_def Let_def)
    then show ?thesis using same live_all [OF same(2)] assms Some v
      by (intro exI [of _ s]) (auto simp: dead_def shrink_def)
  qed
qed

lemma expire_loop_exact:
  assumes "expire_loop cutoff kvs del s = Inr (del', s')" and "db_ok s" and "distinct (map fst kvs)"
    and "\<forall>(k, v) \<in> set kvs. db_get s Providers k = Some v"
  shows "del' = del @ map fst (filter (\<lambda>(k, v). dead cutoff v) kvs) \<and> db_ok s' \<and>
         (\<forall>b k. db_get s' b k = (if b = Providers \<and> k \<in> fst ` set kvs
            then map_option (shrink cutoff) (db_get s b k) else db_get s b k))"
  using assms
proof (induction kvs arbitrary: del s)
  case (Cons kv kvs)
  obtain k v where kv: "kv = (k, v)" by (cases kv)
  have here: "db_get s Providers k = Some v" using Cons.prems(4) kv by simp
  obtain s1 where s1: "expire_loop cutoff kvs (del @ (if dead cutoff v then [k] else [])) s1 = Inr (del', s')"
      "db_ok s1"
      "\<And>b k'. db_get s1 b k' = (if b = Providers \<and> k' = k then Some (shrink cutoff v) else db_get s b k')"
    using expire_step [OF Cons.prems(1) [unfolded kv] Cons.prems(2) here] by auto
  have k: "k \<notin> fst ` set kvs" and d: "distinct (map fst kvs)" using Cons.prems(3) kv by auto
  have rest: "\<forall>(k, v) \<in> set kvs. db_get s1 Providers k = Some v"
  proof (intro ballI, unfold split_paired_all, simp only: prod.case)
    fix a w assume "(a, w) \<in> set kvs"
    moreover from this have "a \<noteq> k" using k by force
    ultimately show "db_get s1 Providers a = Some w" using Cons.prems(4) s1(3) by auto
  qed
  have IH: "del' = (del @ (if dead cutoff v then [k] else [])) @ map fst (filter (\<lambda>(k, v). dead cutoff v) kvs)"
      "db_ok s'"
      "\<And>b k'. db_get s' b k' = (if b = Providers \<and> k' \<in> fst ` set kvs
            then map_option (shrink cutoff) (db_get s1 b k') else db_get s1 b k')"
    using Cons.IH [OF s1(1,2) d rest] by auto
  have "db_get s' b k' = (if b = Providers \<and> k' \<in> fst ` set (kv # kvs)
      then map_option (shrink cutoff) (db_get s b k') else db_get s b k')" for b k'
    using IH(3) [of b k'] s1(3) [of b k'] k kv here by auto
  then show ?case using IH(1,2) kv by auto
qed simp

text \<open>After an expiry every file keeps exactly its provider records registered after the cutoff, in
  their order, no empty list is kept, and no other bucket has changed.\<close>

lemma expiry_keeps_live_providers:
  assumes "db_ok s" and "ExpireProviders now ttl s = Inr s'"
  shows "(\<forall>k. GetProviders k s' = filter (\<lambda>p. PRegisteredAt p > i64 (now - ttl)) (GetProviders k s)) \<and>
         (\<forall>k. db_get s' Providers k \<noteq> Some (DProviders [])) \<and>
         (\<forall>b k. b \<noteq> Providers \<longrightarrow> db_get s' b k = db_get s b k)"
proof -
  let ?c = "i64 (now - ttl)"
  let ?kvs = "db_each s Providers"
  obtain del s1 where loop: "expire_loop ?c ?kvs [] s = Inr (del, s1)" and dels: "delete_keys Providers del s1 = Inr s'"
    using assms(2) by (auto simp: ExpireProviders_def split: sum.splits)
  have stored: "\<forall>(k, v) \<in> set ?kvs. db_get s Providers k = Some v"
    using db_each_iff [OF assms(1)] by auto
  note L = expire_loop_exact [OF loop assms(1) db_each_distinct [OF assms(1)] stored]
  have key: "k \<in> fst ` set ?kvs \<longleftrightarrow> db_get s Providers k \<noteq> None" for k
    using db_each_iff [OF assms(1), of k _ Providers] by force
  have del: "k \<in> set del \<longleftrightarrow> (\<exists>v. db_get s Providers k = Some v \<and> dead ?c v)" for k
    using L db_each_iff [OF assms(1), of k _ Providers] by (force simp: image_iff)
  have get: "db_get s' b k = (if b = Providers \<and> k \<in> set del then None else db_get s1 b k)" for b k
    using delete_keys_get [OF dels] L by simp
  have get1: "db_get s1 b k = (if b = Providers then map_option (shrink ?c) (db_get s b k) else db_get s b k)" for b k
    using L key [of k] by (cases "db_get s b k") auto
  have final: "db_get s' Providers k = (case db_get s Providers k of None \<Rightarrow> None
      | Some v \<Rightarrow> if dead ?c v then None else Some (shrink ?c v))" for k
    using get [of Providers k] get1 [of Providers k] del [of k] by (cases "db_get s Providers k") auto
  have "GetProviders k s' = live ?c (GetProviders k s)" for k
  proof (cases "db_get s Providers k")
    case (Some v)
    then show ?thesis using final [of k]
      by (cases "as_providers v")
        (auto simp: GetProviders_def get_as_def dead_def shrink_def live_def split: if_splits)
  qed (use final [of k] in \<open>simp add: GetProviders_def get_as_def live_def\<close>)
  moreover have "db_get s' Providers k \<noteq> Some (DProviders [])" for k
    using final [of k] by (cases "db_get s Providers k")
      (auto simp: dead_def shrink_def live_def split: option.splits if_splits)
  moreover have "b \<noteq> Providers \<Longrightarrow> db_get s' b k = db_get s b k" for b k using get get1 by simp
  ultimately show ?thesis unfolding live_def by blast
qed

theorem expiry_keeps_live_providers_witness:
  "\<exists>s'. ExpireProviders 100 50 (after [OAddProvider ''k'' (demo_provider ''a'' 5)] alist_db) = Inr s' \<and>
        GetProviders ''k'' s' = []"
proof -
  let ?s = "after [OAddProvider ''k'' (demo_provider ''a'' 5)] alist_db"
  have ok: "db_ok ?s" by (rule after_ok [OF fresh_alist_db]) simp
  have get: "db_get ?s Providers ''k'' = Some (DProviders [demo_provider ''a'' 5])"
    by (simp add: after_def AddProvider_def keep_old_def db_put_def db_get_def GetProviders_def get_as_def
        alist_db_def alist_bolt_def)
  have "isl (ExpireProviders 100 50 ?s) = False"
    by (simp add: after_def AddProvider_def keep_old_def db_put_def db_get_def GetProviders_def get_as_def
        alist_db_def alist_bolt_def ExpireProviders_def db_each_def demo_provider_def i64_def db_delete_def)
  then obtain s' where s': "ExpireProviders 100 50 ?s = Inr s'"
    by (cases "ExpireProviders 100 50 ?s") auto
  have "GetProviders ''k'' ?s = [demo_provider ''a'' 5]" by (simp add: GetProviders_get get)
  then have "GetProviders ''k'' s' = []"
    using expiry_keeps_live_providers [OF ok s'] by (simp add: demo_provider_def i64_def)
  with s' show ?thesis by blast
qed

end
