(* ===== verification/CacheManager.thy ===== *)
theory CacheManager
  imports StateDB
begin

text \<open>
  The eviction of the chunk cache (src/Storage/swarm/cache.go).  The Go interface \<open>CacheStore\<close> is
  the record \<open>cache_store\<close> of its methods over a store state \<open>'s\<close>; its contract is the locale
  \<open>cache_store_laws\<close>, which the state database satisfies.  The eviction callback may change the
  world \<open>'w\<close> (the chunk files) and may fail; without one (\<open>nil\<close>) only the records are removed.
  The ticker that runs \<open>EvictIfNeeded\<close> and its stop channel are not modelled.
\<close>

section \<open>The interface\<close>

record 's cache_store =
  CSet :: "cache_entry \<Rightarrow> 's \<Rightarrow> state_error + 's"
  CGet :: "string \<Rightarrow> 's \<Rightarrow> cache_entry option"
  CTouch :: "int \<Rightarrow> string \<Rightarrow> 's \<Rightarrow> 's"
  CRemove :: "string \<Rightarrow> 's \<Rightarrow> state_error + 's"
  CList :: "'s \<Rightarrow> state_error + cache_entry list"
  CTotal :: "'s \<Rightarrow> int"
  CGetSeed :: "string \<Rightarrow> 's \<Rightarrow> seed_source option"
  CRemoveSeed :: "string \<Rightarrow> 's \<Rightarrow> state_error + 's"

definition DefaultCacheLimit :: int where
  "DefaultCacheLimit = 50 * 1024 * 1024 * 1024"

record ('s, 'w) cache_manager =
  Store :: "'s cache_store"
  Limit :: int
  Evict :: "(string \<Rightarrow> 'w \<Rightarrow> bool \<times> 'w) option"

definition NewCacheManager ::
  "'s cache_store \<Rightarrow> int \<Rightarrow> (string \<Rightarrow> 'w \<Rightarrow> bool \<times> 'w) option \<Rightarrow> ('s, 'w) cache_manager" where
  "NewCacheManager store limit evict =
     \<lparr>Store = store, Limit = (if limit \<le> 0 then DefaultCacheLimit else limit), Evict = evict\<rparr>"

definition Track :: "('s, 'w) cache_manager \<Rightarrow> int \<Rightarrow> string \<Rightarrow> int \<Rightarrow> 's \<Rightarrow> 's" where
  "Track cm now fileKey sz s =
     (case CSet (Store cm) \<lparr>CEFileKey = fileKey, CESize = sz, CELastAccessed = now\<rparr> s of
        Inl _ \<Rightarrow> s | Inr s' \<Rightarrow> s')"

definition Touch :: "('s, 'w) cache_manager \<Rightarrow> int \<Rightarrow> string \<Rightarrow> 's \<Rightarrow> 's" where
  "Touch cm now fileKey s = CTouch (Store cm) now fileKey s"

text \<open>The original seeder of a file has its path; it is never evicted.\<close>

definition original :: "'s cache_store \<Rightarrow> string \<Rightarrow> 's \<Rightarrow> bool" where
  "original store fileKey s \<longleftrightarrow>
     (case CGetSeed store fileKey s of Some src \<Rightarrow> OriginalPath src \<noteq> [] | None \<Rightarrow> False)"

definition try_evict :: "('s, 'w) cache_manager \<Rightarrow> string \<Rightarrow> 'w \<Rightarrow> bool \<times> 'w" where
  "try_evict cm fileKey w = (case Evict cm of None \<Rightarrow> (True, w) | Some f \<Rightarrow> f fileKey w)"

text \<open>The errors of the two removals are ignored.\<close>

definition forget :: "'s cache_store \<Rightarrow> string \<Rightarrow> 's \<Rightarrow> 's" where
  "forget store fileKey s =
     (let s1 = (case CRemove store fileKey s of Inl _ \<Rightarrow> s | Inr s' \<Rightarrow> s')
      in (case CRemoveSeed store fileKey s1 of Inl _ \<Rightarrow> s1 | Inr s' \<Rightarrow> s'))"

fun evict_loop ::
  "('s, 'w) cache_manager \<Rightarrow> cache_entry list \<Rightarrow> int \<Rightarrow> 's \<Rightarrow> 'w \<Rightarrow> 's \<times> 'w" where
  "evict_loop cm [] tot s w = (s, w)"
| "evict_loop cm (e # es) tot s w =
     (if tot \<le> Limit cm then (s, w)
      else if original (Store cm) (CEFileKey e) s then evict_loop cm es tot s w
      else
        (let (ok, w') = try_evict cm (CEFileKey e) w in
         if \<not> ok then evict_loop cm es tot s w'
         else evict_loop cm es (i64 (tot - CESize e)) (forget (Store cm) (CEFileKey e) s) w'))"

text \<open>The entries are sorted once more, by the same unstable sort as in the store.\<close>

definition EvictIfNeeded ::
  "(cache_entry list \<Rightarrow> cache_entry list) \<Rightarrow> ('s, 'w) cache_manager \<Rightarrow> 's \<Rightarrow> 'w \<Rightarrow> 's \<times> 'w" where
  "EvictIfNeeded srt cm s w =
     (let tot = CTotal (Store cm) s in
      if tot \<le> Limit cm then (s, w)
      else (case CList (Store cm) s of
              Inl _ \<Rightarrow> (s, w)
            | Inr [] \<Rightarrow> (s, w)
            | Inr es \<Rightarrow> evict_loop cm (srt es) tot s w))"

text \<open>What \<open>sort.Slice\<close> with this comparison promises.\<close>

definition sorts_by_access :: "(cache_entry list \<Rightarrow> cache_entry list) \<Rightarrow> bool" where
  "sorts_by_access srt \<longleftrightarrow> (\<forall>es. mset (srt es) = mset es \<and> sorted (map CELastAccessed (srt es)))"

text \<open>The callback can fail on an entry.\<close>

definition refused :: "('s, 'w) cache_manager \<Rightarrow> cache_entry \<Rightarrow> bool" where
  "refused cm e \<longleftrightarrow> (\<exists>w w'. try_evict cm (CEFileKey e) w = (False, w'))"

section \<open>The contract of a store\<close>

text \<open>\<open>entries s\<close> and \<open>seeds s\<close> are what the store holds: a cache entry per file key, and seed
  sources.  Removals succeed, the total is the sum of the sizes.\<close>

locale cache_store_laws =
  fixes store :: "'s cache_store" and valid :: "'s \<Rightarrow> bool"
    and entries :: "'s \<Rightarrow> string \<rightharpoonup> cache_entry" and seeds :: "'s \<Rightarrow> string \<rightharpoonup> seed_source"
  assumes listed: "valid s \<Longrightarrow> \<exists>es. CList store s = Inr es \<and> distinct (map CEFileKey es) \<and>
                     (\<forall>k e. entries s k = Some e \<longleftrightarrow> e \<in> set es \<and> CEFileKey e = k) \<and>
                     CTotal store s = sum_sizes (map CESize es)"
    and removed: "valid s \<Longrightarrow> \<exists>s'. CRemove store k s = Inr s' \<and> valid s' \<and>
                    entries s' = (entries s)(k := None) \<and> seeds s' = seeds s"
    and seed_removed: "valid s \<Longrightarrow> \<exists>s'. CRemoveSeed store k s = Inr s' \<and> valid s' \<and>
                         entries s' = entries s \<and> seeds s' = (seeds s)(k := None)"
    and seed_found: "valid s \<Longrightarrow> CGetSeed store k s = seeds s k"
begin

lemma forget_effect:
  assumes "valid s"
  shows "valid (forget store k s) \<and> entries (forget store k s) = (entries s)(k := None) \<and>
         seeds (forget store k s) = (seeds s)(k := None)"
proof -
  obtain s1 where s1: "CRemove store k s = Inr s1" "valid s1" "entries s1 = (entries s)(k := None)"
      "seeds s1 = seeds s"
    using removed [OF assms] by blast
  obtain s2 where "CRemoveSeed store k s1 = Inr s2" "valid s2" "entries s2 = entries s1"
      "seeds s2 = (seeds s1)(k := None)"
    using seed_removed [OF s1(2)] by blast
  with s1 show ?thesis by (simp add: forget_def Let_def)
qed

lemma original_iff:
  "valid s \<Longrightarrow> original store k s \<longleftrightarrow> (\<exists>src. seeds s k = Some src \<and> OriginalPath src \<noteq> [])"
  by (auto simp: original_def seed_found split: option.splits)

text \<open>What a loop over \<open>es\<close> (in access order, no key twice) leaves: it passes over a set \<open>F\<close> of entries,
  originals and those whose eviction fails, evicts the others, oldest first, and stops as soon as the
  rest fits.\<close>

lemma evict_loop_exact:
  assumes "Store cm = store" and "valid s" and "distinct (map CEFileKey es)"
    and "\<forall>e \<in> set es. 0 \<le> CESize e" and "in_i64 tot" and "sum_list (map CESize es) \<le> tot"
  shows "\<exists>gone kept F s' w'. evict_loop cm es tot s w = (s', w') \<and> valid s' \<and>
           (\<exists>n. gone = filter (\<lambda>e. e \<notin> F) (take n es) \<and> kept = filter (\<lambda>e. e \<in> F) (take n es) @ drop n es \<and>
                F \<subseteq> set (take n es)) \<and>
           (\<forall>e \<in> F. original store (CEFileKey e) s \<or> refused cm e) \<and>
           (\<forall>e \<in> set gone. \<not> original store (CEFileKey e) s) \<and>
           (\<forall>k. entries s' k = (if k \<in> CEFileKey ` set gone then None else entries s k)) \<and>
           (\<forall>k. seeds s' k = (if k \<in> CEFileKey ` set gone then None else seeds s k)) \<and>
           (tot - sum_list (map CESize gone) \<le> Limit cm \<or> set kept \<subseteq> F) \<and>
           (gone \<noteq> [] \<longrightarrow> Limit cm < tot - sum_list (map CESize (butlast gone)))"
  using assms
proof (induction es arbitrary: tot s w)
  case Nil
  show ?case
    by (rule exI [of _ "[]"], rule exI [of _ "[]"], rule exI [of _ "{}"], rule exI [of _ s], rule exI [of _ w])
      (simp add: Nil.prems(2))
next
  case (Cons e es)
  let ?P = "\<lambda>gone kept F s' w'. evict_loop cm (e # es) tot s w = (s', w') \<and> valid s' \<and>
      (\<exists>n. gone = filter (\<lambda>e. e \<notin> F) (take n (e # es)) \<and> kept = filter (\<lambda>e. e \<in> F) (take n (e # es)) @ drop n (e # es) \<and>
           F \<subseteq> set (take n (e # es))) \<and>
      (\<forall>e \<in> F. original store (CEFileKey e) s \<or> refused cm e) \<and>
      (\<forall>e \<in> set gone. \<not> original store (CEFileKey e) s) \<and>
      (\<forall>k. entries s' k = (if k \<in> CEFileKey ` set gone then None else entries s k)) \<and>
      (\<forall>k. seeds s' k = (if k \<in> CEFileKey ` set gone then None else seeds s k)) \<and>
      (tot - sum_list (map CESize gone) \<le> Limit cm \<or> set kept \<subseteq> F) \<and>
      (gone \<noteq> [] \<longrightarrow> Limit cm < tot - sum_list (map CESize (butlast gone)))"
  have sizes: "\<forall>e \<in> set es. 0 \<le> CESize e" "0 \<le> CESize e" and dist: "distinct (map CEFileKey es)" and new: "e \<notin> set es"
    using Cons.prems(3,4) by auto
  obtain ok w1 where ev: "try_evict cm (CEFileKey e) w = (ok, w1)" by fastforce
  define w2 where "w2 = (if original store (CEFileKey e) s then w else w1)"
  consider (fits) "tot \<le> Limit cm"
    | (keep) "\<not> tot \<le> Limit cm" "original store (CEFileKey e) s \<or> \<not> ok"
    | (drop_it) "\<not> tot \<le> Limit cm" "\<not> original store (CEFileKey e) s" "ok"
    by blast
  then show ?case
  proof cases
    case fits
    then have "?P [] (e # es) {} s w" using Cons.prems(2) by (auto intro: exI [of _ 0])
    then show ?thesis by blast
  next
    case keep
    have "sum_list (map CESize es) \<le> tot" using Cons.prems(6) sizes by simp
    from Cons.IH [OF Cons.prems(1,2) dist sizes(1) Cons.prems(5) this, of w2]
    obtain gone kept F s' w' n where IH: "evict_loop cm es tot s w2 = (s', w')" "valid s'"
        "gone = filter (\<lambda>e. e \<notin> F) (take n es)" "kept = filter (\<lambda>e. e \<in> F) (take n es) @ drop n es"
        "F \<subseteq> set (take n es)" "\<forall>e \<in> F. original store (CEFileKey e) s \<or> refused cm e"
        "\<forall>e \<in> set gone. \<not> original store (CEFileKey e) s"
        "\<forall>k. entries s' k = (if k \<in> CEFileKey ` set gone then None else entries s k)"
        "\<forall>k. seeds s' k = (if k \<in> CEFileKey ` set gone then None else seeds s k)"
        "tot - sum_list (map CESize gone) \<le> Limit cm \<or> set kept \<subseteq> F"
        "gone \<noteq> [] \<longrightarrow> Limit cm < tot - sum_list (map CESize (butlast gone))"
      by blast
    have same: "filter (\<lambda>x. x \<notin> insert e F) (take n es) = filter (\<lambda>x. x \<notin> F) (take n es)"
        "filter (\<lambda>x. x \<in> insert e F) (take n es) = filter (\<lambda>x. x \<in> F) (take n es)"
      using new in_set_takeD [of _ n es] by (intro filter_cong; auto)+
    have "?P gone (e # kept) (insert e F) s' w'"
    proof (intro conjI)
      show "evict_loop cm (e # es) tot s w = (s', w')" using keep IH(1) Cons.prems(1) ev by (auto simp: w2_def)
      show "valid s'" by (rule IH(2))
      show "\<exists>n. gone = filter (\<lambda>x. x \<notin> insert e F) (take n (e # es)) \<and>
           e # kept = filter (\<lambda>x. x \<in> insert e F) (take n (e # es)) @ drop n (e # es) \<and> insert e F \<subseteq> set (take n (e # es))"
        using IH(3-5) same by (intro exI [of _ "Suc n"]) auto
      show "\<forall>e \<in> insert e F. original store (CEFileKey e) s \<or> refused cm e"
        using IH(6) keep(2) ev by (auto simp: refused_def)
      show "tot - sum_list (map CESize gone) \<le> Limit cm \<or> set (e # kept) \<subseteq> insert e F" using IH(10) by auto
    qed (rule IH(7), rule IH(8), rule IH(9), rule IH(11))
    then show ?thesis
      by (intro exI [of _ gone] exI [of _ "e # kept"] exI [of _ "insert e F"] exI [of _ s'] exI [of _ w'])
  next
    case drop_it
    let ?s = "forget store (CEFileKey e) s" and ?tot = "tot - CESize e"
    note F = forget_effect [OF Cons.prems(2), of "CEFileKey e"]
    have i: "in_i64 ?tot" "i64 ?tot = ?tot" and sum: "sum_list (map CESize es) \<le> ?tot"
    proof -
      have "0 \<le> sum_list (map CESize es)" using sizes(1) by (intro sum_list_nonneg) auto
      then show "in_i64 ?tot" using Cons.prems(5,6) sizes(2) by (auto simp: in_i64_def)
      then show "i64 ?tot = ?tot" by simp
      show "sum_list (map CESize es) \<le> ?tot" using Cons.prems(6) by simp
    qed
    have vs: "valid ?s" using F by simp
    from Cons.IH [OF Cons.prems(1) vs dist sizes(1) i(1) sum, of w1]
    obtain gone kept D s' w' n where IH: "evict_loop cm es ?tot ?s w1 = (s', w')" "valid s'"
        "gone = filter (\<lambda>e. e \<notin> D) (take n es)" "kept = filter (\<lambda>e. e \<in> D) (take n es) @ drop n es"
        "D \<subseteq> set (take n es)" "\<forall>e \<in> D. original store (CEFileKey e) ?s \<or> refused cm e"
        "\<forall>e \<in> set gone. \<not> original store (CEFileKey e) ?s"
        "\<forall>k. entries s' k = (if k \<in> CEFileKey ` set gone then None else entries ?s k)"
        "\<forall>k. seeds s' k = (if k \<in> CEFileKey ` set gone then None else seeds ?s k)"
        "?tot - sum_list (map CESize gone) \<le> Limit cm \<or> set kept \<subseteq> D"
        "gone \<noteq> [] \<longrightarrow> Limit cm < ?tot - sum_list (map CESize (butlast gone))"
      by blast
    have same: "original store (CEFileKey x) ?s \<longleftrightarrow> original store (CEFileKey x) s" if "x \<in> set es" for x
    proof -
      have "CEFileKey x \<noteq> CEFileKey e" using Cons.prems(3) that by (auto simp: image_iff)
      then show ?thesis using F original_iff [of ?s] original_iff [OF Cons.prems(2)] by simp
    qed
    have sub: "D \<subseteq> set es" "set gone \<subseteq> set es" using IH(3,5) by (auto dest: in_set_takeD)
    have "e \<notin> D" using sub new by blast
    have "?P (e # gone) kept D s' w'"
    proof (intro conjI)
      show "evict_loop cm (e # es) tot s w = (s', w')"
        using drop_it ev IH(1) i(2) Cons.prems(1) by simp
      show "valid s'" by (rule IH(2))
      show "\<exists>n. e # gone = filter (\<lambda>x. x \<notin> D) (take n (e # es)) \<and>
           kept = filter (\<lambda>x. x \<in> D) (take n (e # es)) @ drop n (e # es) \<and> D \<subseteq> set (take n (e # es))"
        using \<open>e \<notin> D\<close> IH(3-5) by (intro exI [of _ "Suc n"]) auto
      show "\<forall>e \<in> D. original store (CEFileKey e) s \<or> refused cm e" using IH(6) same sub by blast
      show "\<forall>e \<in> set (e # gone). \<not> original store (CEFileKey e) s" using IH(7) same sub drop_it(2) by auto
      show "\<forall>k. entries s' k = (if k \<in> CEFileKey ` set (e # gone) then None else entries s k)"
        "\<forall>k. seeds s' k = (if k \<in> CEFileKey ` set (e # gone) then None else seeds s k)"
        using IH(8,9) F by auto
      show "tot - sum_list (map CESize (e # gone)) \<le> Limit cm \<or> set kept \<subseteq> D"
        using IH(10) by (auto simp: algebra_simps)
      show "e # gone \<noteq> [] \<longrightarrow> Limit cm < tot - sum_list (map CESize (butlast (e # gone)))"
        using IH(11) drop_it by (cases gone) (auto simp: algebra_simps)
    qed
    then show ?thesis
      by (intro exI [of _ "e # gone"] exI [of _ kept] exI [of _ D] exI [of _ s'] exI [of _ w'])
  qed
qed

text \<open>The whole method: the entries of the store split into those it evicts and those it keeps.\<close>

lemma EvictIfNeeded_exact:
  assumes "Store cm = store" and "valid s" and "sorts_by_access srt"
    and "CList store s = Inr es" and "\<forall>e \<in> set es. 0 \<le> CESize e" and "sum_list (map CESize es) < 2 ^ 63"
  shows "\<exists>gone passed rest s' w'. EvictIfNeeded srt cm s w = (s', w') \<and> valid s' \<and>
           mset gone + mset passed + mset rest = mset es \<and>
           (\<forall>k. entries s' k = (if k \<in> CEFileKey ` set gone then None else entries s k)) \<and>
           (\<forall>k. seeds s' k = (if k \<in> CEFileKey ` set gone then None else seeds s k)) \<and>
           (\<forall>e \<in> set gone. \<not> original store (CEFileKey e) s) \<and>
           (\<forall>e \<in> set passed. original store (CEFileKey e) s \<or> refused cm e) \<and>
           (\<forall>g \<in> set gone. \<forall>e \<in> set rest. CELastAccessed g \<le> CELastAccessed e) \<and>
           (sum_list (map CESize (passed @ rest)) \<le> Limit cm \<or> rest = []) \<and>
           (gone \<noteq> [] \<longrightarrow> Limit cm < sum_list (map CESize (passed @ rest)) + CESize (last gone))"
proof -
  have es: "distinct (map CEFileKey es)" "CTotal store s = sum_sizes (map CESize es)"
    using listed [OF assms(2)] assms(4) by auto
  have tot: "sum_sizes ns = sum_list ns" if "\<forall>n \<in> set ns. 0 \<le> n" "sum_list ns < 2 ^ 63" for ns
    using that
  proof (induction ns rule: rev_induct)
    case (snoc n ns)
    have "0 \<le> sum_list ns" using snoc.prems by (intro sum_list_nonneg) auto
    then show ?case using snoc by (simp add: sum_sizes_def in_i64_def)
  qed (simp add: sum_sizes_def)
  have total: "CTotal store s = sum_list (map CESize es)"
    unfolding es(2) using assms(5,6) by (intro tot) auto
  have srt: "mset (srt es) = mset es" "sorted (map CELastAccessed (srt es))"
    using assms(3) by (auto simp: sorts_by_access_def)
  have sum: "sum_list (map CESize xs) = sum_list (map CESize ys)" if "mset xs = mset ys" for xs ys
    using that by (metis mset_map sum_mset_sum_list)
  show ?thesis
  proof (cases "sum_list (map CESize es) \<le> Limit cm")
    case True
    then show ?thesis
      using assms(1,2) total
      by (intro exI [of _ "[]"] exI [of _ es] exI [of _ s] exI [of _ w]) (simp add: EvictIfNeeded_def)
  next
    case False
    show ?thesis
    proof (cases "es = []")
      case True
      then show ?thesis
        using assms(1,2,4) total
        by (intro exI [of _ "[]"] exI [of _ s] exI [of _ w]) (simp add: EvictIfNeeded_def)
    next
      case ne: False
      have run: "EvictIfNeeded srt cm s w = evict_loop cm (srt es) (sum_list (map CESize es)) s w"
        using False ne assms(1,4) total by (cases es) (simp_all add: EvictIfNeeded_def)
      have d: "distinct (map CEFileKey (srt es))"
        using es(1) srt(1) by (metis mset_eq_imp_distinct_iff mset_map)
      have nn: "\<forall>e \<in> set (srt es). 0 \<le> CESize e" using assms(5) srt(1) by (metis set_mset_mset)
      have i: "in_i64 (sum_list (map CESize es))"
      proof -
        have "0 \<le> sum_list (map CESize es)" using assms(5) by (intro sum_list_nonneg) auto
        then show ?thesis using assms(6) by (simp add: in_i64_def)
      qed
      have le: "sum_list (map CESize (srt es)) \<le> sum_list (map CESize es)" using sum [OF srt(1)] by simp
      from evict_loop_exact [OF assms(1,2) d nn i le, of w]
      obtain gone kept F s' w' n where R: "evict_loop cm (srt es) (sum_list (map CESize es)) s w = (s', w')" "valid s'"
          "gone = filter (\<lambda>e. e \<notin> F) (take n (srt es))"
          "kept = filter (\<lambda>e. e \<in> F) (take n (srt es)) @ drop n (srt es)" "F \<subseteq> set (take n (srt es))"
          "\<forall>e \<in> F. original store (CEFileKey e) s \<or> refused cm e"
          "\<forall>e \<in> set gone. \<not> original store (CEFileKey e) s"
          "\<forall>k. entries s' k = (if k \<in> CEFileKey ` set gone then None else entries s k)"
          "\<forall>k. seeds s' k = (if k \<in> CEFileKey ` set gone then None else seeds s k)"
          "sum_list (map CESize es) - sum_list (map CESize gone) \<le> Limit cm \<or> set kept \<subseteq> F"
          "gone \<noteq> [] \<longrightarrow> Limit cm < sum_list (map CESize es) - sum_list (map CESize (butlast gone))"
        by blast
      define passed where "passed = filter (\<lambda>e. e \<in> F) (take n (srt es))"
      define rest where "rest = drop n (srt es)"
      have kept: "kept = passed @ rest" by (simp add: R(4) passed_def rest_def)
      have ms: "mset gone + mset passed + mset rest = mset es"
      proof -
        have part: "mset (filter (\<lambda>x. \<not> P x) xs) + mset (filter P xs) = mset xs" for P and xs :: "cache_entry list"
          by (induction xs) auto
        have "mset gone + mset passed + mset rest = mset (take n (srt es)) + mset (drop n (srt es))"
          unfolding R(3) passed_def rest_def using part [of "\<lambda>e. e \<in> F" "take n (srt es)"] by simp
        also have "\<dots> = mset es" using srt(1) by (simp flip: mset_append)
        finally show ?thesis .
      qed
      have "mset (gone @ passed @ rest) = mset es" using ms by (simp add: add.assoc)
      from sum [OF this] have sg: "sum_list (map CESize es) = sum_list (map CESize gone) + sum_list (map CESize (passed @ rest))"
        by simp
      have order: "\<forall>g \<in> set gone. \<forall>e \<in> set rest. CELastAccessed g \<le> CELastAccessed e"
      proof -
        have "sorted (map CELastAccessed (take n (srt es) @ drop n (srt es)))" using srt(2) by simp
        then have "\<forall>x \<in> set (take n (srt es)). \<forall>y \<in> set (drop n (srt es)). CELastAccessed x \<le> CELastAccessed y"
          unfolding map_append sorted_append by simp
        then show ?thesis unfolding R(3) rest_def by auto
      qed
      have "rest = []" if "set kept \<subseteq> F"
      proof -
        have sub: "set (drop n (srt es)) \<subseteq> set (take n (srt es))" using that R(5) by (auto simp: R(4))
        have "distinct (take n (srt es) @ drop n (srt es))" using d by (simp add: distinct_map)
        then have dis: "set (take n (srt es)) \<inter> set (drop n (srt es)) = {}" by (simp only: distinct_append)
        have "set (drop n (srt es)) = {}" using Int_absorb1 [OF sub] unfolding dis by (rule sym)
        then show ?thesis by (simp only: rest_def set_empty)
      qed
      then have fits: "sum_list (map CESize (passed @ rest)) \<le> Limit cm \<or> rest = []" using R(10) sg by auto
      have needed: "gone \<noteq> [] \<longrightarrow> Limit cm < sum_list (map CESize (passed @ rest)) + CESize (last gone)"
      proof
        assume g: "gone \<noteq> []"
        have "sum_list (map CESize gone) = sum_list (map CESize (butlast gone)) + CESize (last gone)"
          using g by (cases gone rule: rev_cases) simp_all
        then show "Limit cm < sum_list (map CESize (passed @ rest)) + CESize (last gone)"
          using R(11) g sg by linarith
      qed
      have "\<forall>e \<in> set passed. original store (CEFileKey e) s \<or> refused cm e" using R(6) by (auto simp: passed_def)
      moreover have "EvictIfNeeded srt cm s w = (s', w')" using run R(1) by simp
      ultimately show ?thesis using R(2,7,8,9) ms order fits needed
        by (intro exI [of _ gone] exI [of _ passed] exI [of _ rest] exI [of _ s'] exI [of _ w'] conjI)
    qed
  qed
qed

end

section \<open>The state database is a cache store\<close>

definition state_store :: "(cache_entry list \<Rightarrow> cache_entry list) \<Rightarrow> 'db state_db cache_store" where
  "state_store srt =
     \<lparr>CSet = SetCacheEntry, CGet = GetCacheEntry, CTouch = TouchCache, CRemove = RemoveCacheEntry,
      CList = ListCacheEntries srt, CTotal = TotalCacheSize, CGetSeed = GetSeedSource,
      CRemoveSeed = RemoveSeedSource\<rparr>"

lemma state_store_simps [simp]:
  "CList (state_store srt) = ListCacheEntries srt" "CTotal (state_store srt) = TotalCacheSize"
  "CRemove (state_store srt) = RemoveCacheEntry" "CGetSeed (state_store srt) = GetSeedSource"
  "CRemoveSeed (state_store srt) = RemoveSeedSource"
  by (simp_all add: state_store_def)

definition store_valid :: "'db state_db \<Rightarrow> bool" where
  "store_valid s \<longleftrightarrow> well_typed s \<and> bolt_writable (Ops s)"

lemma sum_sizes_in: "in_i64 (sum_sizes ns)"
  by (induction ns rule: rev_induct) (simp_all add: sum_sizes_def in_i64_def [of 0])

lemma sum_sizes_mod: "sum_sizes ns = i64 (sum_list ns)"
proof (induction ns rule: rev_induct)
  case (snoc n ns)
  then show ?case by (simp add: sum_sizes_def i64_add_left)
qed (simp add: sum_sizes_def i64_def)

lemma cache_listing:
  assumes "well_typed s"
  shows "\<exists>es. list_all_of as_cache CacheUsage s = Inr es \<and> distinct (map CEFileKey es) \<and>
           (\<forall>k e. GetCacheEntry k s = Some e \<longleftrightarrow> e \<in> set es \<and> CEFileKey e = k) \<and>
           TotalCacheSize s = sum_sizes (map CESize es)"
proof -
  have ok: "db_ok s" using assms by (simp add: well_typed_def)
  let ?kvs = "db_each s CacheUsage"
  have typed: "\<exists>e. v = DCache e \<and> k = CEFileKey e" if "(k, v) \<in> set ?kvs" for k v
    using that assms db_each_iff [OF ok] unfolding well_typed_def by (metis doc_ok.simps(13))
  define es where "es = map (\<lambda>(k, v). the (as_cache v)) ?kvs"
  have l: "list_all_of as_cache CacheUsage s = Inr es"
    unfolding es_def by (rule list_all_of_typed [OF assms]) auto
  have keys: "map CEFileKey es = map fst ?kvs"
    unfolding es_def using typed by (auto simp: comp_def dest!: typed)
  have mem: "e \<in> set es \<longleftrightarrow> (CEFileKey e, DCache e) \<in> set ?kvs" for e
  proof
    assume "e \<in> set es"
    then obtain k v where "(k, v) \<in> set ?kvs" "e = the (as_cache v)" by (auto simp: es_def)
    with typed [OF this(1)] show "(CEFileKey e, DCache e) \<in> set ?kvs" by auto
  qed (force simp: es_def)
  have get: "GetCacheEntry k s = Some e \<longleftrightarrow> e \<in> set es \<and> CEFileKey e = k" for k e
  proof -
    have "GetCacheEntry k s = Some e \<longleftrightarrow> db_get s CacheUsage k = Some (DCache e)"
    proof (cases "db_get s CacheUsage k")
      case (Some v)
      then show ?thesis by (cases v) (auto simp: GetCacheEntry_def get_as_def)
    qed (simp add: GetCacheEntry_def get_as_def)
    also have "\<dots> \<longleftrightarrow> (k, DCache e) \<in> set ?kvs" using db_each_iff [OF ok] by blast
    also have "\<dots> \<longleftrightarrow> e \<in> set es \<and> CEFileKey e = k" using mem typed by blast
    finally show ?thesis .
  qed
  have "List.map_filter as_cache (map snd kvs) = map (\<lambda>(k, v). the (as_cache v)) kvs"
    if "\<forall>(k, v) \<in> set kvs. \<exists>e. v = DCache e" for kvs :: "(string \<times> doc) list"
    using that by (induction kvs) (auto simp: List.map_filter_def)
  moreover have "\<forall>(k, v) \<in> set ?kvs. \<exists>e. v = DCache e" using typed by blast
  ultimately have "TotalCacheSize s = sum_sizes (map CESize es)" by (simp add: TotalCacheSize_def es_def)
  then show ?thesis using l keys get db_each_distinct [OF ok, of CacheUsage] by metis
qed

lemma GetSeedSource_put: "db_ok s \<Longrightarrow> db_delete b k s = Inr s' \<Longrightarrow>
  GetSeedSource k' s' = (if b = SeedSources \<and> k' = k then None else GetSeedSource k' s)"
  by (simp add: GetSeedSource_def get_as_def db_delete_get)

lemma GetCacheEntry_put: "db_ok s \<Longrightarrow> db_delete b k s = Inr s' \<Longrightarrow>
  GetCacheEntry k' s' = (if b = CacheUsage \<and> k' = k then None else GetCacheEntry k' s)"
  by (simp add: GetCacheEntry_def get_as_def db_delete_get)

lemma state_store_laws:
  assumes "sorts_by_access srt"
  shows "cache_store_laws (state_store srt) store_valid (\<lambda>s k. GetCacheEntry k s) (\<lambda>s k. GetSeedSource k s)"
proof
  fix s :: "'db state_db" and k
  assume v: "store_valid s"
  then have wt: "well_typed s" and w: "bolt_writable (Ops s)" and ok: "db_ok s"
    by (auto simp: store_valid_def well_typed_def)
  obtain es where es: "list_all_of as_cache CacheUsage s = Inr es" "distinct (map CEFileKey es)"
      "\<forall>k e. GetCacheEntry k s = Some e \<longleftrightarrow> e \<in> set es \<and> CEFileKey e = k"
      "TotalCacheSize s = sum_sizes (map CESize es)"
    using cache_listing [OF wt] by blast
  have srt: "mset (srt es) = mset es" using assms by (simp add: sorts_by_access_def)
  have "sum_list (map CESize (srt es)) = sum_list (map CESize es)"
    using srt by (metis mset_map sum_mset_sum_list)
  moreover have "distinct (map CEFileKey (srt es))"
    using es(2) srt by (metis mset_eq_imp_distinct_iff mset_map)
  moreover have "set (srt es) = set es" using srt by (rule mset_eq_setD)
  ultimately show "\<exists>es. CList (state_store srt) s = Inr es \<and> distinct (map CEFileKey es) \<and>
      (\<forall>k e. GetCacheEntry k s = Some e \<longleftrightarrow> e \<in> set es \<and> CEFileKey e = k) \<and>
      CTotal (state_store srt) s = sum_sizes (map CESize es)"
    using es by (intro exI [of _ "srt es"]) (simp add: ListCacheEntries_def sum_sizes_mod)
  have del: "\<exists>s'. db_delete b k s = Inr s' \<and> store_valid s'" for b
    using db_delete_writable [OF w, of b k] well_typed_delete [OF wt] db_delete_ops w
    unfolding store_valid_def by metis
  obtain s1 where s1: "db_delete CacheUsage k s = Inr s1" "store_valid s1" using del by blast
  have "(\<lambda>k'. GetCacheEntry k' s1) = (\<lambda>k'. GetCacheEntry k' s)(k := None)"
    "(\<lambda>k'. GetSeedSource k' s1) = (\<lambda>k'. GetSeedSource k' s)"
    using GetCacheEntry_put [OF ok s1(1)] GetSeedSource_put [OF ok s1(1)] by (auto simp: fun_eq_iff)
  then show "\<exists>s'. CRemove (state_store srt) k s = Inr s' \<and> store_valid s' \<and>
      (\<lambda>k. GetCacheEntry k s') = (\<lambda>k. GetCacheEntry k s)(k := None) \<and>
      (\<lambda>k. GetSeedSource k s') = (\<lambda>k. GetSeedSource k s)"
    using s1 by (simp add: RemoveCacheEntry_def)
  obtain s2 where s2: "db_delete SeedSources k s = Inr s2" "store_valid s2" using del by blast
  have "(\<lambda>k'. GetSeedSource k' s2) = (\<lambda>k'. GetSeedSource k' s)(k := None)"
    "(\<lambda>k'. GetCacheEntry k' s2) = (\<lambda>k'. GetCacheEntry k' s)"
    using GetCacheEntry_put [OF ok s2(1)] GetSeedSource_put [OF ok s2(1)] by (auto simp: fun_eq_iff)
  then show "\<exists>s'. CRemoveSeed (state_store srt) k s = Inr s' \<and> store_valid s' \<and>
      (\<lambda>k. GetCacheEntry k s') = (\<lambda>k. GetCacheEntry k s) \<and>
      (\<lambda>k. GetSeedSource k s') = (\<lambda>k. GetSeedSource k s)(k := None)"
    using s2 by (simp add: RemoveSeedSource_def)
qed simp

lemma sort_key_by_access: "sorts_by_access (sort_key CELastAccessed)"
  by (simp add: sorts_by_access_def)

interpretation state_cache: cache_store_laws "state_store (sort_key CELastAccessed)" store_valid
    "\<lambda>s k. GetCacheEntry k s" "\<lambda>s k. GetSeedSource k s"
  by (rule state_store_laws [OF sort_key_by_access])

section \<open>Eviction from the state database\<close>


definition demo_cache :: "(bucket \<Rightarrow> (string \<times> doc) list) state_db" where
  "demo_cache = after [OSetCache \<lparr>CEFileKey = ''a'', CESize = 6, CELastAccessed = 1\<rparr>,
                       OSetCache \<lparr>CEFileKey = ''b'', CESize = 6, CELastAccessed = 2\<rparr>] alist_db"


end
