(* ===== verification/Addr.thy ===== *)
theory Addr
  imports Files
begin

text \<open>
  Addresses in Server/server.go: the host and port functions of package net, the normal form of
  addresses that key the ring and the peer maps, the ports derived from one another and the choice of
  the outbound address. IPv4 literals are parsed here; the parser of IPv6 literals is the parameter
  \<open>P6\<close>, and what the operating system says about its interfaces is an argument.
\<close>

section \<open>\<open>net\<close>\<close>

definition SplitHostPort :: "string \<Rightarrow> (string \<times> string) option" where
  "SplitHostPort s =
     (if CHR '':'' \<notin> set s then None
      else
        (let port = rev (takeWhile (\<lambda>c. c \<noteq> CHR '':'') (rev s)); i = length s - length port - 1
         in if hd s = CHR ''['' then
              (if CHR '']'' \<notin> set s then None
               else
                 (let e = length (takeWhile (\<lambda>c. c \<noteq> CHR '']'') s)
                  in if e + 1 \<noteq> i then None
                     else if CHR ''['' \<in> set (tl s) \<or> CHR '']'' \<in> set (drop (e + 1) s) then None
                     else Some (drop 1 (take e s), port)))
            else
              (let host = take i s
               in if CHR '':'' \<in> set host then None
                  else if CHR ''['' \<in> set s \<or> CHR '']'' \<in> set s then None
                  else Some (host, port))))"

definition JoinHostPort :: "string \<Rightarrow> string \<Rightarrow> string" where
  "JoinHostPort host port = (if CHR '':'' \<in> set host then ''['' @ host @ '']:'' @ port else host @ '':'' @ port)"

text \<open>IP addresses; for IPv6 its text and whether it is the loopback, unspecified or link-local one.\<close>

datatype ip = IPv4 nat nat nat nat | IPv6 string bool bool bool

definition octet :: "string \<Rightarrow> nat option" where
  "octet f =
     (if f \<noteq> [] \<and> digits f \<and> (length f = 1 \<or> hd f \<noteq> CHR ''0'') \<and> length f \<le> 3 \<and> parse_digits f \<le> 255
      then Some (parse_digits f) else None)"

definition parse_ipv4 :: "string \<Rightarrow> ip option" where
  "parse_ipv4 s =
     (case map octet (split_at_char (CHR ''.'') s) of
        [Some a, Some b, Some c, Some d] \<Rightarrow> Some (IPv4 a b c d)
      | _ \<Rightarrow> None)"

definition ParseIP :: "(string \<Rightarrow> ip option) \<Rightarrow> string \<Rightarrow> ip option" where
  "ParseIP P6 s =
     (case find (\<lambda>c. c \<in> set ''.:%'') s of
        None \<Rightarrow> None
      | Some c \<Rightarrow> if c = CHR ''.'' then parse_ipv4 s else if c = CHR '':'' then P6 s else None)"

fun IsLoopback :: "ip \<Rightarrow> bool" where
  "IsLoopback (IPv4 a b c d) \<longleftrightarrow> a = 127"
| "IsLoopback (IPv6 t l u k) \<longleftrightarrow> l"

fun IsUnspecified :: "ip \<Rightarrow> bool" where
  "IsUnspecified (IPv4 a b c d) \<longleftrightarrow> a = 0 \<and> b = 0 \<and> c = 0 \<and> d = 0"
| "IsUnspecified (IPv6 t l u k) \<longleftrightarrow> u"

fun IsLinkLocalUnicast :: "ip \<Rightarrow> bool" where
  "IsLinkLocalUnicast (IPv4 a b c d) \<longleftrightarrow> a = 169 \<and> b = 254"
| "IsLinkLocalUnicast (IPv6 t l u k) \<longleftrightarrow> k"

fun ip_String :: "ip \<Rightarrow> string" where
  "ip_String (IPv4 a b c d) = itoa a @ ''.'' @ itoa b @ ''.'' @ itoa c @ ''.'' @ itoa d"
| "ip_String (IPv6 t l u k) = t"

section \<open>The addresses of the server\<close>

definition normalizeAddr :: "(string \<Rightarrow> ip option) \<Rightarrow> string \<Rightarrow> string" where
  "normalizeAddr P6 addr =
     (case SplitHostPort addr of
        None \<Rightarrow> addr
      | Some (host, port) \<Rightarrow>
          if host = [] \<or> (case ParseIP P6 host of None \<Rightarrow> False | Some x \<Rightarrow> IsLoopback x \<or> IsUnspecified x)
          then JoinHostPort ''127.0.0.1'' port else addr)"

definition DefaultPort :: string where
  "DefaultPort = ''3000''"

definition NormalizeUserAddr :: "(string \<Rightarrow> ip option) \<Rightarrow> string \<Rightarrow> string" where
  "NormalizeUserAddr P6 addr =
     (if SplitHostPort addr \<noteq> None then addr
      else if ParseIP P6 addr \<noteq> None then JoinHostPort addr DefaultPort
      else addr)"

text \<open>\<open>port*10 + int(ch-'0')\<close> on an \<open>int\<close>; \<open>None\<close> is a byte that is not a digit.\<close>

fun port_digits :: "int \<Rightarrow> string \<Rightarrow> int option" where
  "port_digits port [] = Some port"
| "port_digits port (c # cs) = (if is_digit c then port_digits (i64 (port * 10 + int (digit_val c))) cs else None)"

definition deriveHealthPort :: "string \<Rightarrow> string" where
  "deriveHealthPort listenAddr =
     (if CHR '':'' \<notin> set listenAddr then '':14000''
      else
        (let host = takeWhile (\<lambda>c. c \<noteq> CHR '':'') listenAddr; portStr = drop (length host + 1) listenAddr
         in case port_digits 0 portStr of
              None \<Rightarrow> '':14000''
            | Some port \<Rightarrow>
                (let healthPort = i64 (port + 1000)
                 in if host = [] then '':'' @ int_text healthPort else host @ '':'' @ int_text healthPort)))"

definition isSwarmCacheKey :: "string \<Rightarrow> bool" where
  "isSwarmCacheKey key \<longleftrightarrow> take 6 key = ''chunk:''"

definition dataAddrToControlAddr :: "string \<Rightarrow> string" where
  "dataAddrToControlAddr dataAddr =
     (case SplitHostPort dataAddr of
        None \<Rightarrow> dataAddr
      | Some (host, portStr) \<Rightarrow>
          (case Atoi portStr of
             None \<Rightarrow> dataAddr
           | Some port \<Rightarrow> if port \<le> 1 then dataAddr else JoinHostPort host (int_text (port - 1))))"

definition sanitizePathAddr :: "string \<Rightarrow> string" where
  "sanitizePathAddr addr = map (\<lambda>c. if c = CHR '':'' then CHR ''_'' else c) addr"

section \<open>Interfaces\<close>

record iface =
  IfName :: string
  IfUp :: bool
  IfLoopback :: bool
  IfPointToPoint :: bool
  IfAddrs :: "ip list option"

text \<open>\<open>net.Interfaces()\<close> is \<open>None\<close> on an error.\<close>

definition isLocalAddr :: "iface list option \<Rightarrow> string \<Rightarrow> bool" where
  "isLocalAddr ifaces host \<longleftrightarrow>
     (case ifaces of
        None \<Rightarrow> False
      | Some is \<Rightarrow> (\<exists>i \<in> set is. case IfAddrs i of None \<Rightarrow> False | Some as \<Rightarrow> (\<exists>a \<in> set as. ip_String a = host)))"

definition ascii_lower :: "char \<Rightarrow> char" where
  "ascii_lower c = (let n = of_char c :: nat in if 65 \<le> n \<and> n \<le> 90 then char_of (n + 32) else c)"

definition virtual_prefixes :: "string list" where
  "virtual_prefixes =
     [''docker'', ''veth'', ''br-'', ''vmnet'', ''vmware'', ''virbr'', ''vnet'', ''vboxnet'', ''lxcbr'', ''lxdbr'',
      ''flannel'', ''cni'', ''calico'', ''podman'', ''tailscale'', ''wg'']"

text \<open>Interface names are ASCII, where \<open>strings.ToLower\<close> maps byte by byte.\<close>

definition isVirtualInterface :: "string \<Rightarrow> bool" where
  "isVirtualInterface name \<longleftrightarrow> (\<exists>p \<in> set virtual_prefixes. take (length p) (map ascii_lower name) = p)"

fun private_ip :: "ip \<Rightarrow> bool" where
  "private_ip (IPv4 a b c d) \<longleftrightarrow> a = 10 \<or> (a = 172 \<and> 16 \<le> b \<and> b \<le> 31) \<or> (a = 192 \<and> b = 168)"
| "private_ip (IPv6 t l u k) \<longleftrightarrow> False"

text \<open>The addresses of one interface: \<open>Inl\<close> is a private address that is returned at once, \<open>Inr\<close> the
  fallback so far.\<close>

fun scan_addrs :: "string \<Rightarrow> ip list \<Rightarrow> string + string" where
  "scan_addrs fallback [] = Inr fallback"
| "scan_addrs fallback (a # as) =
     (case a of
        IPv6 t l u k \<Rightarrow> scan_addrs fallback as
      | IPv4 p q r s \<Rightarrow>
          if IsLoopback a \<or> IsLinkLocalUnicast a then scan_addrs fallback as
          else if private_ip a then Inl (ip_String a)
          else scan_addrs (if fallback = [] then ip_String a else fallback) as)"

fun scan_ifaces :: "string \<Rightarrow> iface list \<Rightarrow> string + string" where
  "scan_ifaces fallback [] = Inr fallback"
| "scan_ifaces fallback (i # is) =
     (if \<not> IfUp i \<or> IfLoopback i \<or> IfPointToPoint i then scan_ifaces fallback is
      else if isVirtualInterface (IfName i) then scan_ifaces fallback is
      else (case scan_addrs fallback (case IfAddrs i of None \<Rightarrow> [] | Some as \<Rightarrow> as) of
          Inl x \<Rightarrow> Inl x
        | Inr f \<Rightarrow> scan_ifaces f is))"

text \<open>\<open>dialed\<close> is the local address of the UDP socket, when the dial succeeds.\<close>

definition resolveOutboundIP :: "string option \<Rightarrow> iface list option \<Rightarrow> string" where
  "resolveOutboundIP dialed ifaces =
     (let tier2 = (case ifaces of
          None \<Rightarrow> ''127.0.0.1''
        | Some is \<Rightarrow> (case scan_ifaces [] is of
              Inl x \<Rightarrow> x
            | Inr f \<Rightarrow> if f \<noteq> [] then f else ''127.0.0.1''))
      in case dialed of
           None \<Rightarrow> tier2
         | Some x \<Rightarrow> if x \<noteq> [] \<and> x \<noteq> ''0.0.0.0'' then x else tier2)"

text \<open>\<open>outbound\<close> is what \<open>resolveOutboundIP\<close> returns.\<close>

definition effectiveSelfAddr :: "(string \<Rightarrow> ip option) \<Rightarrow> string \<Rightarrow> string \<Rightarrow> string \<Rightarrow> string" where
  "effectiveSelfAddr P6 outbound externalAddr addr =
     (if externalAddr \<noteq> [] then externalAddr
      else case SplitHostPort addr of
          None \<Rightarrow> normalizeAddr P6 addr
        | Some (host, port) \<Rightarrow>
            if host = [] \<or> (case ParseIP P6 host of None \<Rightarrow> False | Some x \<Rightarrow> IsUnspecified x)
            then JoinHostPort outbound port else normalizeAddr P6 addr)"

section \<open>Splitting and joining\<close>

definition no_brackets :: "string \<Rightarrow> bool" where
  "no_brackets s \<longleftrightarrow> CHR ''['' \<notin> set s \<and> CHR '']'' \<notin> set s"

lemma takeWhile_rev_snoc: "c \<notin> set p \<Longrightarrow> takeWhile (\<lambda>x. x \<noteq> c) (rev (s @ c # p)) = rev p"
proof -
  assume "c \<notin> set p"
  then have "\<And>x. x \<in> set (rev p) \<Longrightarrow> x \<noteq> c" by auto
  from takeWhile_append2 [of "rev p" "\<lambda>x. x \<noteq> c", OF this] show ?thesis by simp
qed

lemma SplitHostPort_Join:
  assumes "no_brackets host" and "no_brackets port" and "CHR '':'' \<notin> set port"
  shows "SplitHostPort (JoinHostPort host port) = Some (host, port)"
proof (cases "CHR '':'' \<in> set host")
  case True
  let ?s = "(CHR ''['' # host @ [CHR '']'']) @ CHR '':'' # port"
  have j: "JoinHostPort host port = ?s" using True by (simp add: JoinHostPort_def)
  have p: "rev (takeWhile (\<lambda>c. c \<noteq> CHR '':'') (rev ?s)) = port" unfolding takeWhile_rev_snoc [OF assms(3)] by simp
  have "takeWhile (\<lambda>c. c \<noteq> CHR '']'') ?s = CHR ''['' # host"
  proof -
    have "\<And>x. x \<in> set host \<Longrightarrow> x \<noteq> CHR '']''" using assms(1) by (auto simp: no_brackets_def)
    from takeWhile_append2 [of host "\<lambda>c. c \<noteq> CHR '']''", OF this] show ?thesis by simp
  qed
  then show ?thesis
    unfolding j SplitHostPort_def p Let_def using assms by (auto simp: no_brackets_def)
next
  case False
  let ?s = "host @ CHR '':'' # port"
  have j: "JoinHostPort host port = ?s" using False by (simp add: JoinHostPort_def)
  have p: "rev (takeWhile (\<lambda>c. c \<noteq> CHR '':'') (rev ?s)) = port" unfolding takeWhile_rev_snoc [OF assms(3)] by simp
  have "hd ?s \<noteq> CHR ''[''" using assms(1) by (cases host) (auto simp: no_brackets_def)
  then show ?thesis
    unfolding j SplitHostPort_def p Let_def using assms False by (auto simp: no_brackets_def)
qed

lemma SplitHostPort_parts:
  assumes "SplitHostPort s = Some (host, port)"
  shows "no_brackets port" and "CHR '':'' \<notin> set port"
proof -
  define p where "p = rev (takeWhile (\<lambda>c. c \<noteq> CHR '':'') (rev s))"
  define i where "i = length s - length p - 1"
  have col: "CHR '':'' \<in> set s" and port: "port = p"
    using assms by (auto simp: SplitHostPort_def Let_def p_def split: if_splits)
  show "CHR '':'' \<notin> set port" unfolding port p_def using set_takeWhileD by fastforce
  have "rev s = takeWhile (\<lambda>c. c \<noteq> CHR '':'') (rev s) @ dropWhile (\<lambda>c. c \<noteq> CHR '':'') (rev s)" by simp
  then have s: "s = rev (dropWhile (\<lambda>c. c \<noteq> CHR '':'') (rev s)) @ p" unfolding p_def by (metis rev_append rev_rev_ident)
  then have len: "length (rev (dropWhile (\<lambda>c. c \<noteq> CHR '':'') (rev s))) = length s - length p"
    by (metis add_diff_cancel_right' length_append)
  have p_drop: "p = drop (length s - length p) s" using s len by (metis append_eq_conv_conj)
  have sub: "set p \<subseteq> set (drop k s)" if "k \<le> length s - length p" for k
    using that p_drop set_drop_subset_set_drop [of k "length s - length p" s] by simp
  show "no_brackets port"
  proof (cases "hd s = CHR ''[''")
    case True
    let ?e = "length (takeWhile (\<lambda>c. c \<noteq> CHR '']'') s)"
    have e: "?e + 1 = i" "CHR ''['' \<notin> set (tl s)" "CHR '']'' \<notin> set (drop (?e + 1) s)"
      using assms True col by (auto simp: SplitHostPort_def Let_def i_def p_def split: if_splits)
    have "?e + 1 \<le> length s - length p" using e(1) by (simp add: i_def)
    then have "set p \<subseteq> set (drop (?e + 1) s)" by (rule sub)
    moreover have "set p \<subseteq> set (tl s)" using sub [of 1] \<open>?e + 1 \<le> length s - length p\<close> by (simp add: drop_Suc)
    ultimately show ?thesis using e(2,3) by (auto simp: no_brackets_def port)
  next
    case False
    then have "CHR ''['' \<notin> set s" "CHR '']'' \<notin> set s"
      using assms col by (auto simp: SplitHostPort_def Let_def split: if_splits)
    then show ?thesis using sub [of 0] by (auto simp: no_brackets_def port)
  qed
qed

section \<open>Properties\<close>

text \<open>The hosts that stand for this machine.\<close>

definition loopback_host :: "(string \<Rightarrow> ip option) \<Rightarrow> string \<Rightarrow> bool" where
  "loopback_host P6 host \<longleftrightarrow>
     host = [] \<or> (case ParseIP P6 host of None \<Rightarrow> False | Some x \<Rightarrow> IsLoopback x \<or> IsUnspecified x)"

lemma loopback_127: "loopback_host P6 ''127.0.0.1''"
  by (simp add: loopback_host_def ParseIP_def parse_ipv4_def octet_def digits_def is_digit_def parse_digits_def digit_val_def)

lemma normalizeAddr_local:
  assumes "SplitHostPort a = Some (host, port)"
  shows "normalizeAddr P6 a = (if loopback_host P6 host then ''127.0.0.1:'' @ port else a)"
  using assms by (simp add: normalizeAddr_def loopback_host_def JoinHostPort_def)

lemma Split_127: "SplitHostPort a = Some (host, port) \<Longrightarrow> SplitHostPort (''127.0.0.1:'' @ port) = Some (''127.0.0.1'', port)"
  using SplitHostPort_Join [of "''127.0.0.1''" port] SplitHostPort_parts [of a host port]
  by (simp add: JoinHostPort_def no_brackets_def)

lemma normalizeAddr_idem [simp]: "normalizeAddr P6 (normalizeAddr P6 a) = normalizeAddr P6 a"
proof (cases "SplitHostPort a")
  case None
  then show ?thesis by (simp add: normalizeAddr_def)
next
  case (Some hp)
  then obtain h p where hp: "SplitHostPort a = Some (h, p)" by (cases hp) auto
  show ?thesis
    using normalizeAddr_local [OF hp, of P6] normalizeAddr_local [OF Split_127 [OF hp], of P6] loopback_127 by auto
qed

text \<open>Normal forms of addresses identify a node on a machine: normalising twice changes nothing, and two
  addresses with a port get the same normal form exactly when they are the same text or both name this
  machine (no host, a loopback or an unspecified address) on the same port. So two machines never
  share a ring position because of their ports.\<close>

lemma normalizeAddr_canonical:
  "normalizeAddr P6 (normalizeAddr P6 a) = normalizeAddr P6 a \<and>
    (SplitHostPort a = Some (host, port) \<and> SplitHostPort b = Some (host', port') \<longrightarrow>
      (normalizeAddr P6 a = normalizeAddr P6 b \<longleftrightarrow>
        a = b \<or> loopback_host P6 host \<and> loopback_host P6 host' \<and> port = port'))"
proof (intro conjI impI)
  show "normalizeAddr P6 (normalizeAddr P6 a) = normalizeAddr P6 a" by (rule normalizeAddr_idem)
next
  assume s: "SplitHostPort a = Some (host, port) \<and> SplitHostPort b = Some (host', port')"
  then have a: "SplitHostPort a = Some (host, port)" and b: "SplitHostPort b = Some (host', port')" by simp_all
  note na = normalizeAddr_local [OF a, of P6] and nb = normalizeAddr_local [OF b, of P6]
  have "a \<noteq> ''127.0.0.1:'' @ p" if "\<not> loopback_host P6 host" "SplitHostPort (''127.0.0.1:'' @ p) = Some (''127.0.0.1'', p)" for p
    using that a loopback_127 by auto
  moreover have "b \<noteq> ''127.0.0.1:'' @ p" if "\<not> loopback_host P6 host'" "SplitHostPort (''127.0.0.1:'' @ p) = Some (''127.0.0.1'', p)" for p
    using that b loopback_127 by auto
  ultimately show "normalizeAddr P6 a = normalizeAddr P6 b \<longleftrightarrow>
      a = b \<or> loopback_host P6 host \<and> loopback_host P6 host' \<and> port = port'"
    using na nb Split_127 [OF a] Split_127 [OF b] a b by (cases "loopback_host P6 host"; cases "loopback_host P6 host'") auto
qed

theorem normalizeAddr_canonical_witness:
  "normalizeAddr (\<lambda>s. None) '':3011'' = normalizeAddr (\<lambda>s. None) ''127.8.0.1:3011'' \<and>
    normalizeAddr (\<lambda>s. None) ''10.0.0.1:3011'' \<noteq> normalizeAddr (\<lambda>s. None) ''10.0.0.2:3011''"
proof -
  have lb: "loopback_host (\<lambda>s. None) ''127.8.0.1''"
    by (simp add: loopback_host_def ParseIP_def parse_ipv4_def octet_def digits_def is_digit_def parse_digits_def digit_val_def)
  have nl: "\<not> loopback_host (\<lambda>s. None) ''10.0.0.1''"
    by (simp add: loopback_host_def ParseIP_def parse_ipv4_def octet_def digits_def is_digit_def parse_digits_def digit_val_def)
  have "SplitHostPort '':3011'' = Some ([], ''3011'')" "SplitHostPort ''127.8.0.1:3011'' = Some (''127.8.0.1'', ''3011'')"
      "SplitHostPort ''10.0.0.1:3011'' = Some (''10.0.0.1'', ''3011'')" "SplitHostPort ''10.0.0.2:3011'' = Some (''10.0.0.2'', ''3011'')"
    by (simp_all add: SplitHostPort_def Let_def)
  then show ?thesis
    using normalizeAddr_canonical [of "\<lambda>s. None" "'':3011''" "[]" "''3011''" "''127.8.0.1:3011''" "''127.8.0.1''" "''3011''"]
      normalizeAddr_canonical [of "\<lambda>s. None" "''10.0.0.1:3011''" "''10.0.0.1''" "''3011''" "''10.0.0.2:3011''" "''10.0.0.2''" "''3011''"]
      lb nl by (simp add: loopback_host_def)
qed

text \<open>The control address of a data address one port up.\<close>

lemma control_of_data:
  assumes "no_brackets host" and "0 < p" and "p < 2 ^ 62"
  shows "dataAddrToControlAddr (JoinHostPort host (itoa (p + 1))) = JoinHostPort host (itoa p)"
proof -
  have d: "is_digit c \<Longrightarrow> c \<noteq> CHR '':'' \<and> c \<noteq> CHR ''['' \<and> c \<noteq> CHR '']''" for c by (auto simp: is_digit_def)
  then have "no_brackets (itoa (p + 1))" "CHR '':'' \<notin> set (itoa (p + 1))"
    using itoa_digits [of "p + 1"] by (auto simp: no_brackets_def simp del: itoa.simps)
  then have "SplitHostPort (JoinHostPort host (itoa (p + 1))) = Some (host, itoa (p + 1))"
    by (rule SplitHostPort_Join [OF assms(1)])
  moreover have "Atoi (itoa (p + 1)) = Some (int (p + 1))" using assms(3) by (intro Atoi_itoa) simp
  ultimately show ?thesis using assms(2) int_text_nat [of p] by (simp add: dataAddrToControlAddr_def del: itoa.simps)
qed

text \<open>The health port may leave the range of ports.\<close>

lemma health_port_out_of_range: "deriveHealthPort '':65000'' = '':66000''"
proof -
  have "int_text 66000 = ''66000''" by (simp add: int_text_def itoa.simps [of "66000"] itoa.simps [of "6600"] itoa.simps [of "660"] itoa.simps [of "66"] itoa.simps [of "6"] digit_char_def char_of_def bit_iff_odd)
  then show ?thesis by (simp add: deriveHealthPort_def is_digit_def digit_val_def i64_def Let_def)
qed

end
