(* ===== verification/Network.thy ===== *)
theory Network
  imports HashRing Membership StateDB Addr
begin

text \<open>
  The state of a server that concerns other nodes (Server/server.go): the maps \<open>peers\<close>, \<open>announceAdded\<close> and
  \<open>dataPeers\<close>, the hash ring, the membership table and the state database of the theories of these names,
  the messages, sending, data connections and the dial backoff.

  A connection is its identity, its remote address and its direction. \<open>NSends\<close> says which sends succeed;
  what a step does outside this state (sends, closes, calls of other services, started goroutines) is
  appended to \<open>SvOut\<close>. A goroutine is a step of its own. The order of a Go map is the order of its list.
  Encoding a registered message with gob does not fail.
\<close>

section \<open>Messages\<close>

record search_result =
  SRKey :: string
  SRName :: string
  SRSize :: int
  SRIsDir :: bool
  SROwnerAlias :: string
  SROwnerFP :: string
  SRNodeAddr :: string

record provider_info =
  PIAddr :: string
  PIChunkCount :: int
  PITotalChunks :: int

datatype message =
    MsgStoreFile string int
  | MsgGetFile string
  | MsgLocalFile string int
  | MsgAnnounce string
  | MsgAnnounceAck string
  | MsgHeartbeat string int
  | MsgHeartbeatAck string int
  | MsgGossipDigest string "gossip_digest list"
  | MsgGossipResponse string "node_info list" "gossip_digest list"
  | MsgQuorumWrite string "byte list" "(string, uint64) gomap"
  | MsgQuorumWriteAck string string bool string
  | MsgQuorumRead string
  | MsgQuorumReadResponse string string bool "(string, uint64) gomap" int
  | MsgMerkleSync string "byte list"
  | MsgMerkleDiffResponse string "string list"
  | MsgLeaving string uint64
  | MsgStoreManifest string "byte list"
  | MsgGetManifest string
  | MsgManifestResponse string "byte list" bool
  | MsgIdentityMeta string "(string, string) gomap option"
  | MsgChunkOffer "string list"
  | MsgChunkNeed "string list"
  | MsgGetPublicCatalog
  | MsgPublicCatalogResponse "byte list"
  | MsgDirectShare string string int bool string string
  | MsgDeleteFile string string
  | MsgSearchRequest string string string int
  | MsgSearchResponse string "search_result list" string
  | MsgGetChunkSwarm string int string
  | MsgRegisterProvider string string int int
  | MsgGetProviders string
  | MsgProvidersResponse string "provider_info list"

section \<open>State\<close>

record conn =
  CId :: nat
  CRemote :: string
  COutbound :: bool

datatype net_event =
    ESent conn message bool
  | EClosed conn
  | EHeartbeat string
  | EHeartbeatGone string
  | EHints string
  | ENodeJoined string
  | ESpawnAnnounce string
  | ESpawnFlush string
  | EDial string bool

record 'db server =
  SvPeers :: "(string, conn) gomap"
  SvAnnounced :: "(string, string) gomap"
  SvData :: "(string, conn) gomap"
  SvRing :: hashring
  SvTable :: "cluster_state option"
  SvDb :: "'db state_db option"
  SvBackoff :: "(string, int) gomap"
  SvBackoffExp :: "(string, nat) gomap"
  SvExternal :: string
  SvGossipSelf :: "string option"
  SvSeen :: "(string, int) gomap"
  SvOut :: "net_event list"

text \<open>The fixed surroundings: SHA-256, the IPv6 parser, the address of the transport, the outbound IP, the
  interfaces, the identity metadata, which sends succeed, and which services were started.\<close>

record net_env =
  NSha :: "byte list \<Rightarrow> byte list"
  NP6 :: "string \<Rightarrow> ip option"
  NAddr :: string
  NOutIP :: string
  NIfaces :: "iface list option"
  NIdentity :: "(string, string) gomap option"
  NSends :: "conn \<Rightarrow> message \<Rightarrow> bool"
  NHeartbeat :: bool
  NHandoff :: bool
  NRebalancer :: bool

definition log_event :: "net_event \<Rightarrow> 'db server \<Rightarrow> 'db server" where
  "log_event e sv = sv\<lparr>SvOut := SvOut sv @ [e]\<rparr>"

definition log_if :: "bool \<Rightarrow> net_event \<Rightarrow> 'db server \<Rightarrow> 'db server" where
  "log_if b e sv = (if b then log_event e sv else sv)"

definition on_table :: "(cluster_state \<Rightarrow> cluster_state) \<Rightarrow> 'db server \<Rightarrow> 'db server" where
  "on_table f sv = sv\<lparr>SvTable := map_option f (SvTable sv)\<rparr>"

definition on_ring :: "(hashring \<Rightarrow> hashring) \<Rightarrow> 'db server \<Rightarrow> 'db server" where
  "on_ring f sv = sv\<lparr>SvRing := f (SvRing sv)\<rparr>"

text \<open>A call of the state database whose error is dropped.\<close>

definition on_db :: "('db state_db \<Rightarrow> state_error + 'db state_db) \<Rightarrow> 'db server \<Rightarrow> 'db server" where
  "on_db f sv = sv\<lparr>SvDb := map_option (\<lambda>d. keep_old d (f d)) (SvDb sv)\<rparr>"

definition db_asks :: "('db state_db \<Rightarrow> bool) \<Rightarrow> 'db server \<Rightarrow> bool" where
  "db_asks q sv = (case SvDb sv of None \<Rightarrow> False | Some d \<Rightarrow> q d)"

lemma log_event_sel [simp]:
  "SvPeers (log_event e sv) = SvPeers sv" "SvAnnounced (log_event e sv) = SvAnnounced sv"
  "SvData (log_event e sv) = SvData sv" "SvRing (log_event e sv) = SvRing sv" "SvTable (log_event e sv) = SvTable sv"
  "SvDb (log_event e sv) = SvDb sv" "SvBackoff (log_event e sv) = SvBackoff sv"
  "SvBackoffExp (log_event e sv) = SvBackoffExp sv" "SvExternal (log_event e sv) = SvExternal sv"
  "SvGossipSelf (log_event e sv) = SvGossipSelf sv" "SvSeen (log_event e sv) = SvSeen sv"
  by (simp_all add: log_event_def)

lemma log_if_sel [simp]:
  "SvPeers (log_if b e sv) = SvPeers sv" "SvAnnounced (log_if b e sv) = SvAnnounced sv"
  "SvData (log_if b e sv) = SvData sv" "SvRing (log_if b e sv) = SvRing sv" "SvTable (log_if b e sv) = SvTable sv"
  "SvDb (log_if b e sv) = SvDb sv" "SvBackoff (log_if b e sv) = SvBackoff sv"
  "SvBackoffExp (log_if b e sv) = SvBackoffExp sv" "SvExternal (log_if b e sv) = SvExternal sv"
  "SvGossipSelf (log_if b e sv) = SvGossipSelf sv" "SvSeen (log_if b e sv) = SvSeen sv"
  by (simp_all add: log_if_def)

lemma on_table_sel [simp]:
  "SvPeers (on_table f sv) = SvPeers sv" "SvAnnounced (on_table f sv) = SvAnnounced sv"
  "SvData (on_table f sv) = SvData sv" "SvRing (on_table f sv) = SvRing sv" "SvDb (on_table f sv) = SvDb sv"
  "SvBackoff (on_table f sv) = SvBackoff sv" "SvBackoffExp (on_table f sv) = SvBackoffExp sv"
  "SvExternal (on_table f sv) = SvExternal sv" "SvGossipSelf (on_table f sv) = SvGossipSelf sv"
  "SvSeen (on_table f sv) = SvSeen sv"
  by (simp_all add: on_table_def)

lemma on_ring_sel [simp]:
  "SvPeers (on_ring f sv) = SvPeers sv" "SvAnnounced (on_ring f sv) = SvAnnounced sv"
  "SvData (on_ring f sv) = SvData sv" "SvTable (on_ring f sv) = SvTable sv" "SvDb (on_ring f sv) = SvDb sv"
  "SvBackoff (on_ring f sv) = SvBackoff sv" "SvBackoffExp (on_ring f sv) = SvBackoffExp sv"
  "SvExternal (on_ring f sv) = SvExternal sv" "SvGossipSelf (on_ring f sv) = SvGossipSelf sv"
  "SvSeen (on_ring f sv) = SvSeen sv"
  by (simp_all add: on_ring_def)

lemma on_db_sel [simp]:
  "SvPeers (on_db f sv) = SvPeers sv" "SvAnnounced (on_db f sv) = SvAnnounced sv" "SvData (on_db f sv) = SvData sv"
  "SvRing (on_db f sv) = SvRing sv" "SvTable (on_db f sv) = SvTable sv" "SvBackoff (on_db f sv) = SvBackoff sv"
  "SvBackoffExp (on_db f sv) = SvBackoffExp sv" "SvExternal (on_db f sv) = SvExternal sv"
  "SvGossipSelf (on_db f sv) = SvGossipSelf sv" "SvSeen (on_db f sv) = SvSeen sv"
  by (simp_all add: on_db_def)

lemma changed_sel [simp]:
  "SvTable (on_table f sv) = map_option f (SvTable sv)" "SvRing (on_ring r sv) = r (SvRing sv)"
  "SvDb (on_db g sv) = map_option (\<lambda>d. keep_old d (g d)) (SvDb sv)"
  "SvOut (log_event e sv) = SvOut sv @ [e]" "SvOut (on_table f sv) = SvOut sv" "SvOut (on_ring r sv) = SvOut sv"
  "SvOut (on_db g sv) = SvOut sv"
  by (simp_all add: on_table_def on_ring_def on_db_def log_event_def)

section \<open>Sending\<close>

datatype net_error = NotConnected string | SendFailed string | PeerNotFound string | NoStateDB | DialFailed string | DbFailed state_error

definition send_msg :: "net_env \<Rightarrow> conn \<Rightarrow> message \<Rightarrow> 'db server \<Rightarrow> bool \<times> 'db server" where
  "send_msg env p msg sv = (NSends env p msg, log_event (ESent p msg (NSends env p msg)) sv)"

lemma send_msg_snd [simp]: "snd (send_msg env p m sv) = log_event (ESent p m (NSends env p m)) sv"
  by (simp add: send_msg_def)

text \<open>The canonical address an ephemeral address was remapped to.\<close>

definition canonical_of :: "'db server \<Rightarrow> string \<Rightarrow> string option" where
  "canonical_of sv addr = map_option fst (find (\<lambda>(canonical, ephemeral). ephemeral = addr) (SvAnnounced sv))"

definition peer_for :: "'db server \<Rightarrow> string \<Rightarrow> conn option" where
  "peer_for sv addr =
     (case map_of (SvPeers sv) addr of
        Some p \<Rightarrow> Some p
      | None \<Rightarrow>
          (case (case map_of (SvAnnounced sv) addr of None \<Rightarrow> None | Some eph \<Rightarrow> map_of (SvPeers sv) eph) of
             Some p \<Rightarrow> Some p
           | None \<Rightarrow> (case canonical_of sv addr of None \<Rightarrow> None | Some c \<Rightarrow> map_of (SvPeers sv) c)))"

definition sendToAddr :: "net_env \<Rightarrow> string \<Rightarrow> message \<Rightarrow> 'db server \<Rightarrow> net_error option \<times> 'db server" where
  "sendToAddr env addr msg sv =
     (case peer_for sv addr of
        None \<Rightarrow> (Some (NotConnected addr), sv)
      | Some p \<Rightarrow> (let (ok, sv) = send_msg env p msg sv in (if ok then None else Some (SendFailed addr), sv)))"

text \<open>\<open>Broadcast\<close> returns the addresses it failed for.\<close>

fun send_all :: "net_env \<Rightarrow> message \<Rightarrow> (string \<times> conn) list \<Rightarrow> 'db server \<Rightarrow> string list \<times> 'db server" where
  "send_all env msg [] sv = ([], sv)"
| "send_all env msg ((addr, p) # ps) sv =
     (let (ok, sv) = send_msg env p msg sv; (errs, sv) = send_all env msg ps sv
      in (if ok then errs else addr # errs, sv))"

definition Broadcast :: "net_env \<Rightarrow> message \<Rightarrow> 'db server \<Rightarrow> string list \<times> 'db server" where
  "Broadcast env msg sv = send_all env msg (SvPeers sv) sv"

definition self_address :: "net_env \<Rightarrow> 'db server \<Rightarrow> string" where
  "self_address env sv = effectiveSelfAddr (NP6 env) (NOutIP env) (SvExternal sv) (NAddr env)"

definition IsPeerConnected :: "'db server \<Rightarrow> string \<Rightarrow> bool" where
  "IsPeerConnected sv addr \<longleftrightarrow> map_of (SvPeers sv) addr \<noteq> None"

definition outboundPeerCount :: "'db server \<Rightarrow> nat" where
  "outboundPeerCount sv = length (filter (\<lambda>(a, p). COutbound p) (SvPeers sv))"

section \<open>Data connections\<close>

definition OnDataPeer :: "conn \<Rightarrow> 'db server \<Rightarrow> 'db server" where
  "OnDataPeer p sv = sv\<lparr>SvData := AList.update (dataAddrToControlAddr (CRemote p)) p (SvData sv)\<rparr>"

definition OnDataPeerDisconnect :: "conn \<Rightarrow> 'db server \<Rightarrow> 'db server" where
  "OnDataPeerDisconnect p sv =
     (let addr = dataAddrToControlAddr (CRemote p)
      in if map_of (SvData sv) addr = Some p then sv\<lparr>SvData := AList.delete addr (SvData sv)\<rparr> else sv)"

definition getDataPeer :: "'db server \<Rightarrow> string \<Rightarrow> conn option" where
  "getDataPeer sv addr = (case map_of (SvData sv) addr of Some dp \<Rightarrow> Some dp | None \<Rightarrow> map_of (SvPeers sv) addr)"

section \<open>Backoff\<close>

definition minute :: int where
  "minute = 60000000000"

definition backoff_duration :: "nat \<Rightarrow> int" where
  "backoff_duration k = (if k = 0 then minute else if k = 1 then 5 * minute else 60 * minute)"

definition recordDialFailure :: "int \<Rightarrow> string \<Rightarrow> 'db server \<Rightarrow> 'db server" where
  "recordDialFailure now addr sv =
     (let k = go_get 0 (SvBackoffExp sv) addr;
          sv = sv\<lparr>SvBackoff := AList.update addr (now + backoff_duration k) (SvBackoff sv)\<rparr>
      in if k < 2 then sv\<lparr>SvBackoffExp := AList.update addr (k + 1) (SvBackoffExp sv)\<rparr> else sv)"

definition clearBackoff :: "string \<Rightarrow> 'db server \<Rightarrow> 'db server" where
  "clearBackoff addr sv =
     sv\<lparr>SvBackoff := AList.delete addr (SvBackoff sv), SvBackoffExp := AList.delete addr (SvBackoffExp sv)\<rparr>"

lemma clearBackoff_sel [simp]:
  "SvPeers (clearBackoff a sv) = SvPeers sv" "SvAnnounced (clearBackoff a sv) = SvAnnounced sv"
  "SvData (clearBackoff a sv) = SvData sv" "SvRing (clearBackoff a sv) = SvRing sv"
  "SvTable (clearBackoff a sv) = SvTable sv" "SvDb (clearBackoff a sv) = SvDb sv"
  "SvExternal (clearBackoff a sv) = SvExternal sv" "SvGossipSelf (clearBackoff a sv) = SvGossipSelf sv"
  "SvSeen (clearBackoff a sv) = SvSeen sv"
  by (simp_all add: clearBackoff_def)

definition isBackedOff :: "int \<Rightarrow> string \<Rightarrow> 'db server \<Rightarrow> bool \<times> 'db server" where
  "isBackedOff now addr sv =
     (case map_of (SvBackoff sv) addr of
        None \<Rightarrow> (False, sv)
      | Some earliest \<Rightarrow>
          if earliest < now then (False, sv\<lparr>SvBackoff := AList.delete addr (SvBackoff sv)\<rparr>) else (True, sv))"

end
