(* ===== verification/Peers.thy ===== *)
theory Peers
  imports Network
begin

text \<open>
  Connections of a server (Server/server.go): what a new connection, an announcement, a disconnect and a
  leaving message do to the peers, the ring and the membership table; the blocklist; the connection manager.
\<close>

section \<open>Dialling\<close>

text \<open>\<open>dual\<close> is \<open>DialDual\<close>, used when both transports are QUIC; otherwise the function calls itself with the
  same argument and does not return.\<close>

partial_function (option) dialPeer :: "bool \<Rightarrow> (string \<Rightarrow> bool) \<Rightarrow> string \<Rightarrow> bool option" where
  "dialPeer twoPort dual addr = (if twoPort then Some (dual addr) else dialPeer twoPort dual addr)"

lemma dialPeer_simps [simp]:
  "dialPeer True dual addr = Some (dual addr)"
  "dialPeer False dual addr = None"
proof -
  show "dialPeer True dual addr = Some (dual addr)" by (subst dialPeer.simps) simp
  have two: "twoPort" if "dialPeer twoPort dual addr = Some r" for twoPort r
    by (rule dialPeer.raw_induct [OF _ that, of "\<lambda>t d a r. t"]) (auto split: if_splits)
  show "dialPeer False dual addr = None" using two by (metis option.exhaust)
qed

section \<open>Connections\<close>

definition OnPeer :: "net_env \<Rightarrow> int \<Rightarrow> conn \<Rightarrow> 'db server \<Rightarrow> 'db server" where
  "OnPeer env now p sv =
     (let addr = normalizeAddr (NP6 env) (CRemote p)
      in if \<not> COutbound p then
           on_table (cs_BumpSelfGeneration now) (sv\<lparr>SvPeers := AList.update addr p (SvPeers sv)\<rparr>)
         else if (case map_of (SvPeers sv) addr of None \<Rightarrow> False | Some existing \<Rightarrow> COutbound existing) then
           log_event (EClosed p) sv
         else
           (let sv = sv\<lparr>SvPeers := AList.update addr p (SvPeers sv)\<rparr>;
                sv = on_ring (ring_AddNode (NSha env) (normalizeAddr (NP6 env) addr)) sv;
                sv = clearBackoff addr sv;
                sv = log_event (ESpawnAnnounce addr) sv;
                sv = log_if (NHandoff env) (EHints addr) sv;
                sv = log_if (NRebalancer env) (ENodeJoined addr) sv;
                sv = on_table (\<lambda>t. cs_BumpSelfGeneration now (cs_AddNode now addr None t)) sv;
                sv = log_if (NHeartbeat env) (EHeartbeat addr) sv;
                sv = on_db (AddKnownPeer now addr) sv
            in log_event (ESpawnFlush addr) sv))"

text \<open>The goroutine that \<open>OnPeer\<close> starts.\<close>

definition announce_to :: "net_env \<Rightarrow> string \<Rightarrow> 'db server \<Rightarrow> 'db server" where
  "announce_to env addr sv =
     (let sv = snd (sendToAddr env addr (MsgAnnounce (NAddr env)) sv)
      in case NIdentity env of
           None \<Rightarrow> sv
         | Some meta \<Rightarrow> snd (sendToAddr env addr (MsgIdentityMeta (self_address env sv) (Some meta)) sv))"

definition OnPeerDisconnect :: "net_env \<Rightarrow> int \<Rightarrow> conn \<Rightarrow> 'db server \<Rightarrow> 'db server" where
  "OnPeerDisconnect env now p sv =
     (let addr = CRemote p;
          samePtr = (map_of (SvPeers sv) addr = Some p);
          sv = (if samePtr then sv\<lparr>SvPeers := AList.delete addr (SvPeers sv)\<rparr> else sv)
      in if \<not> COutbound p then
           (case find (\<lambda>(canonical, ephemeral). ephemeral = addr \<or> canonical = addr) (SvAnnounced sv) of
              Some (canonical, _) \<Rightarrow>
                if canonical \<noteq> [] then
                  (let sv = sv\<lparr>SvAnnounced := AList.delete canonical (SvAnnounced sv)\<rparr>;
                       sv = on_ring (ring_RemoveNode (normalizeAddr (NP6 env) canonical)) sv
                   in on_table (cs_ForceLocalState now canonical StateDead) sv)
                else on_table (cs_RemoveNode addr) sv
            | None \<Rightarrow> on_table (cs_RemoveNode addr) sv)
         else if \<not> samePtr then sv
         else
           (let sv = on_ring (ring_RemoveNode (normalizeAddr (NP6 env) addr)) sv;
                sv = log_if (NHeartbeat env) (EHeartbeatGone addr) sv
            in on_table (cs_ForceLocalState now addr StateDead) sv))"

section \<open>Announcements\<close>

definition canonical_announced :: "net_env \<Rightarrow> string \<Rightarrow> string \<Rightarrow> string" where
  "canonical_announced env from listen =
     normalizeAddr (NP6 env)
       (if take 1 listen = '':'' then
          (case SplitHostPort from of
             None \<Rightarrow> listen
           | Some (host, _) \<Rightarrow> if host \<noteq> [] then JoinHostPort host (drop 1 listen) else listen)
        else listen)"

definition host_of :: "string \<Rightarrow> string" where
  "host_of addr = (case SplitHostPort addr of None \<Rightarrow> [] | Some (h, p) \<Rightarrow> h)"

definition port_of :: "string \<Rightarrow> string" where
  "port_of addr = (case SplitHostPort addr of None \<Rightarrow> [] | Some (h, p) \<Rightarrow> p)"

definition is_self :: "net_env \<Rightarrow> string \<Rightarrow> bool" where
  "is_self env canonical \<longleftrightarrow> port_of canonical = port_of (NAddr env) \<and> isLocalAddr (NIfaces env) (host_of canonical)"

text \<open>Metadata that arrived under the ephemeral address move to the listen address.\<close>

definition migrate_metadata :: "string \<Rightarrow> string \<Rightarrow> cluster_state \<Rightarrow> cluster_state" where
  "migrate_metadata from canonical t =
     (case cs_GetNode from t of
        None \<Rightarrow> t
      | Some old \<Rightarrow>
          (let t = (case Metadata old of
                      None \<Rightarrow> t
                    | Some meta \<Rightarrow> if meta \<noteq> [] then cs_SetMetadata canonical meta t else t)
           in cs_RemoveNode from t))"

definition register_announced :: "net_env \<Rightarrow> int \<Rightarrow> string \<Rightarrow> string \<Rightarrow> 'db server \<Rightarrow> 'db server" where
  "register_announced env now from canonical sv =
     (if ring_HasNode (SvRing sv) (normalizeAddr (NP6 env) canonical) then sv
      else
        (let sv = on_ring (ring_AddNode (NSha env) (normalizeAddr (NP6 env) canonical)) sv;
             sv = on_table (\<lambda>t. (let t = cs_AddNode now canonical None t
                                  in if canonical \<noteq> from then migrate_metadata from canonical t else t)) sv;
             sv = log_if (NHeartbeat env) (EHeartbeat canonical) sv;
             sv = log_if (NHandoff env) (EHints canonical) sv;
             sv = log_if (NRebalancer env) (ENodeJoined canonical) sv
         in log_event (ESpawnFlush canonical) sv))"

definition acknowledge :: "net_env \<Rightarrow> string \<Rightarrow> 'db server \<Rightarrow> 'db server" where
  "acknowledge env canonical sv =
     (case map_of (SvPeers sv) canonical of
        None \<Rightarrow> sv
      | Some p \<Rightarrow>
          (let sv = snd (send_msg env p (MsgAnnounceAck canonical) sv)
           in case NIdentity env of
                None \<Rightarrow> sv
              | Some meta \<Rightarrow> snd (send_msg env p (MsgIdentityMeta (self_address env sv) (Some meta)) sv)))"

text \<open>A connection of a blocklisted peer is closed, and the entry of its ephemeral address removed.\<close>

definition reject_announced :: "string \<Rightarrow> 'db server \<Rightarrow> 'db server" where
  "reject_announced from sv =
     (let sv = (case map_of (SvPeers sv) from of
                  None \<Rightarrow> sv
                | Some p \<Rightarrow> log_event (EClosed p) (sv\<lparr>SvPeers := AList.delete from (SvPeers sv)\<rparr>))
      in on_table (cs_RemoveNode from) sv)"

definition remap_announced :: "string \<Rightarrow> string \<Rightarrow> 'db server \<Rightarrow> 'db server" where
  "remap_announced from canonical sv =
     (case map_of (SvPeers sv) from of
        None \<Rightarrow> sv
      | Some p \<Rightarrow>
          if \<not> COutbound p \<and> canonical \<noteq> from then
            sv\<lparr>SvPeers := AList.update canonical p (AList.delete from (SvPeers sv)),
               SvAnnounced := AList.update canonical from (SvAnnounced sv)\<rparr>
          else sv)"

definition handleAnnounce :: "net_env \<Rightarrow> int \<Rightarrow> string \<Rightarrow> string \<Rightarrow> 'db server \<Rightarrow> 'db server" where
  "handleAnnounce env now from listen sv =
     (if listen = [] then sv
      else
        (let canonical = canonical_announced env from listen
         in if is_self env canonical then sv
            else if db_asks (IsIgnoredPeer canonical) sv then reject_announced from sv
            else if map_of (SvPeers sv) from = None then sv
            else acknowledge env canonical (register_announced env now from canonical (remap_announced from canonical sv))))"

definition handleAnnounceAck :: "net_env \<Rightarrow> int \<Rightarrow> string \<Rightarrow> 'db server \<Rightarrow> 'db server" where
  "handleAnnounceAck env now yourAddr sv =
     (if yourAddr = [] then sv
      else
        (let extAddr = normalizeAddr (NP6 env) yourAddr; selfAddr = normalizeAddr (NP6 env) (NAddr env)
         in if extAddr = selfAddr then sv
            else
              (let alreadySet = (SvExternal sv \<noteq> []); sv = sv\<lparr>SvExternal := extAddr\<rparr>
               in if alreadySet then sv
                  else
                    (let sv = on_ring (\<lambda>r. (if ring_HasNode r extAddr then r else ring_AddNode (NSha env) extAddr r)) sv;
                         sv = on_ring (ring_RemoveNode selfAddr) sv;
                         sv = on_table (\<lambda>t.
                           (let old = cs_GetNode selfAddr t;
                                t = cs_AddNode now extAddr None t;
                                t = (case (case old of None \<Rightarrow> None | Some n \<Rightarrow> Metadata n) of
                                       Some meta \<Rightarrow> cs_SetMetadata extAddr meta t
                                     | None \<Rightarrow> (case NIdentity env of None \<Rightarrow> t | Some meta \<Rightarrow> cs_SetMetadata extAddr meta t))
                            in fst (cs_UpdateState now extAddr StateAlive (cs_NextGeneration extAddr t) t))) sv
                     in sv\<lparr>SvGossipSelf := map_option (\<lambda>a. extAddr) (SvGossipSelf sv)\<rparr>))))"

section \<open>Leaving\<close>

definition leaving_address :: "string \<Rightarrow> 'db server \<Rightarrow> string" where
  "leaving_address addr sv =
     (if map_of (SvPeers sv) addr \<noteq> None then addr
      else case find (\<lambda>(peerAddr, p). port_of peerAddr = port_of addr) (SvPeers sv) of
          None \<Rightarrow> addr
        | Some (peerAddr, _) \<Rightarrow> peerAddr)"

definition leaving_update :: "int \<Rightarrow> string \<Rightarrow> string \<Rightarrow> uint64 \<Rightarrow> cluster_state \<Rightarrow> cluster_state" where
  "leaving_update now addr canonical msgGen t =
     (let (lookup, info) = (case cs_GetNode addr t of
            Some i \<Rightarrow> (addr, Some i)
          | None \<Rightarrow> (case cs_GetNode canonical t of Some i \<Rightarrow> (canonical, Some i) | None \<Rightarrow> (addr, None)));
          gen = msgGen + 1;
          gen = (if gen = 0 \<or> (info = None \<and> msgGen = 0)
                 then (case info of None \<Rightarrow> 1 | Some i \<Rightarrow> Generation i + 1) else gen)
      in fst (cs_UpdateState now lookup StateLeft gen t))"

definition close_peer :: "string \<Rightarrow> 'db server \<Rightarrow> 'db server" where
  "close_peer addr sv =
     (case map_of (SvPeers sv) addr of
        None \<Rightarrow> sv
      | Some p \<Rightarrow> log_event (EClosed p) (sv\<lparr>SvPeers := AList.delete addr (SvPeers sv)\<rparr>))"

definition handleLeaving :: "net_env \<Rightarrow> int \<Rightarrow> string \<Rightarrow> uint64 \<Rightarrow> 'db server \<Rightarrow> 'db server" where
  "handleLeaving env now addr msgGen sv =
     (let canonical = leaving_address addr sv;
          sv = on_ring (ring_RemoveNode (normalizeAddr (NP6 env) addr)) sv;
          sv = on_ring (ring_RemoveNode (normalizeAddr (NP6 env) canonical)) sv;
          sv = on_table (leaving_update now addr canonical msgGen) sv;
          sv = close_peer canonical sv;
          sv = (if canonical \<noteq> addr then close_peer addr sv else sv)
      in sv\<lparr>SvAnnounced := AList.delete canonical (AList.delete addr (SvAnnounced sv))\<rparr>)"

text \<open>The message \<open>GracefulShutdown\<close> broadcasts.\<close>

definition leaving_message :: "net_env \<Rightarrow> 'db server \<Rightarrow> message" where
  "leaving_message env sv =
     (let selfGen = (case SvTable sv of None \<Rightarrow> 0
            | Some t \<Rightarrow> (case cs_GetNode (NAddr env) t of None \<Rightarrow> 0 | Some info \<Rightarrow> Generation info))
      in MsgLeaving (NAddr env) selfGen)"

section \<open>Identity and heartbeats\<close>

definition identity_address :: "net_env \<Rightarrow> string \<Rightarrow> string \<Rightarrow> 'db server \<Rightarrow> string" where
  "identity_address env from msgFrom sv =
     (let addr = (case canonical_of sv from of None \<Rightarrow> [] | Some c \<Rightarrow> c);
          addr = (if addr = [] \<and> map_of (SvPeers sv) from \<noteq> None then from else addr);
          addr = (if addr = [] \<and> msgFrom \<noteq> [] \<and> msgFrom \<noteq> normalizeAddr (NP6 env) (NAddr env) then msgFrom else addr)
      in if addr = [] then from else addr)"

text \<open>\<open>bootstrap\<close> is the set of addresses given with \<open>--peer\<close>.\<close>

definition handleIdentityMeta ::
  "net_env \<Rightarrow> int \<Rightarrow> string set \<Rightarrow> string \<Rightarrow> string \<Rightarrow> (string, string) gomap option \<Rightarrow> 'db server \<Rightarrow> 'db server" where
  "handleIdentityMeta env now bootstrap from msgFrom metadata sv =
     (case metadata of
        None \<Rightarrow> sv
      | Some meta \<Rightarrow>
          if SvTable sv = None then sv
          else
            (let addr = identity_address env from msgFrom sv;
                 fp = go_get [] meta ''fingerprint'';
                 blocked = (fp \<noteq> [] \<and> db_asks (IsIgnoredFingerprint fp) sv);
                 wanted = (addr \<in> bootstrap \<or> from \<in> bootstrap)
             in if blocked \<and> \<not> wanted then close_peer from sv
                else
                  (let sv = (if blocked then on_db (RemoveIgnoredByFingerprint fp) sv else sv)
                   in on_table (\<lambda>t. cs_SetMetadata addr meta (cs_AddNode now addr None t)) sv)))"

definition handleHeartbeat :: "net_env \<Rightarrow> string \<Rightarrow> conn \<Rightarrow> int \<Rightarrow> 'db server \<Rightarrow> 'db server" where
  "handleHeartbeat env from p ts sv =
     (let sv = (if NHeartbeat env then
                  (let sv = log_event (EHeartbeat from) sv
                   in case canonical_of sv from of None \<Rightarrow> sv | Some c \<Rightarrow> log_event (EHeartbeat c) sv)
                else sv)
      in snd (send_msg env p (MsgHeartbeatAck (NAddr env) ts) sv))"

section \<open>Connecting and disconnecting on request\<close>

text \<open>\<open>None\<close> is a dial that does not return.\<close>

definition ConnectPeer ::
  "bool \<Rightarrow> (string \<Rightarrow> bool) \<Rightarrow> int \<Rightarrow> string \<Rightarrow> 'db server \<Rightarrow> (net_error option \<times> 'db server) option" where
  "ConnectPeer twoPort dual now addr sv =
     (let sv = (if db_asks (IsIgnoredPeer addr) sv then on_db (RemoveIgnoredPeer addr) sv else sv)
      in case dialPeer twoPort dual addr of
           None \<Rightarrow> None
         | Some False \<Rightarrow> Some (Some (DialFailed addr), log_event (EDial addr False) sv)
         | Some True \<Rightarrow> Some (None, on_db (AddKnownPeer now addr) (log_event (EDial addr True) sv)))"

definition DisconnectPeer :: "int \<Rightarrow> string \<Rightarrow> 'db server \<Rightarrow> net_error option \<times> 'db server" where
  "DisconnectPeer now addr sv =
     (case map_of (SvPeers sv) addr of
        None \<Rightarrow> (Some (PeerNotFound addr), sv)
      | Some p \<Rightarrow>
          (let sv = sv\<lparr>SvPeers := AList.delete addr (SvPeers sv)\<rparr>;
               (inbound, sv) =
                 (case map_of (SvAnnounced sv) addr of
                    None \<Rightarrow> (None, sv)
                  | Some ephemeral \<Rightarrow>
                      (let ip = map_of (SvPeers sv) ephemeral;
                           sv = sv\<lparr>SvAnnounced := AList.delete addr (SvAnnounced sv)\<rparr>
                       in (ip, if ip = None then sv else sv\<lparr>SvPeers := AList.delete ephemeral (SvPeers sv)\<rparr>)));
               sv = log_event (EClosed p) sv;
               sv = (case inbound of None \<Rightarrow> sv | Some ip \<Rightarrow> log_event (EClosed ip) sv);
               sv = on_ring (ring_RemoveNode addr) sv;
               sv = on_table (cs_ForceLocalState now addr StateDead) sv
           in (None, on_db (RemoveKnownPeer addr) sv)))"

definition DisconnectAndIgnorePeer :: "int \<Rightarrow> string \<Rightarrow> 'db server \<Rightarrow> 'db server" where
  "DisconnectAndIgnorePeer now addr sv =
     (let fp = (case SvTable sv of None \<Rightarrow> []
            | Some t \<Rightarrow> (case cs_GetNode addr t of None \<Rightarrow> []
                | Some node \<Rightarrow> (case Metadata node of None \<Rightarrow> [] | Some m \<Rightarrow> go_get [] m ''fingerprint'')));
          sv = snd (DisconnectPeer now addr sv)
      in on_db (AddIgnoredPeer now \<lparr>IPAddr = addr, IPFingerprint = fp, IPIgnoredAt = now\<rparr>) sv)"

definition UnblockPeer :: "string \<Rightarrow> 'db server \<Rightarrow> net_error option \<times> 'db server" where
  "UnblockPeer addr sv =
     (case SvDb sv of
        None \<Rightarrow> (Some NoStateDB, sv)
      | Some d \<Rightarrow> (case RemoveIgnoredPeer addr d of Inl e \<Rightarrow> (Some (DbFailed e), sv) | Inr d \<Rightarrow> (None, sv\<lparr>SvDb := Some d\<rparr>)))"

section \<open>The connection manager\<close>

text \<open>The known addresses still to look at, and the candidates so far. \<open>dialing\<close> is the dialling set.\<close>

fun reconnect_loop ::
  "net_env \<Rightarrow> int \<Rightarrow> string set \<Rightarrow> nat \<Rightarrow> string list \<Rightarrow> string list \<Rightarrow> 'db server \<Rightarrow> string list \<times> 'db server" where
  "reconnect_loop env now dialing needed [] cands sv = (cands, sv)"
| "reconnect_loop env now dialing needed (known # rest) cands sv =
     (let addr = normalizeAddr (NP6 env) known
      in if addr = normalizeAddr (NP6 env) (NAddr env) \<or> map_of (SvPeers sv) addr \<noteq> None \<or> db_asks (IsIgnoredPeer addr) sv
         then reconnect_loop env now dialing needed rest cands sv
         else
           (let (backed, sv) = isBackedOff now addr sv
            in if backed \<or> addr \<in> dialing then reconnect_loop env now dialing needed rest cands sv
               else if needed \<le> length (cands @ [addr]) then (cands @ [addr], sv)
               else reconnect_loop env now dialing needed rest (cands @ [addr]) sv))"

definition reconnect_candidates ::
  "net_env \<Rightarrow> int \<Rightarrow> nat \<Rightarrow> string set \<Rightarrow> 'db server \<Rightarrow> string list \<times> 'db server" where
  "reconnect_candidates env now maxPeers dialing sv =
     (let active = outboundPeerCount sv
      in if maxPeers \<le> active then ([], sv)
         else case SvDb sv of
             None \<Rightarrow> ([], sv)
           | Some d \<Rightarrow> reconnect_loop env now dialing (maxPeers - active) (ListKnownPeers d) [] sv)"

text \<open>The dials of a pass; a dial that succeeds goes on in \<open>OnPeer\<close>.\<close>

fun dial_candidates :: "(string \<Rightarrow> bool) \<Rightarrow> int \<Rightarrow> string list \<Rightarrow> 'db server \<Rightarrow> 'db server" where
  "dial_candidates dual now [] sv = sv"
| "dial_candidates dual now (addr # rest) sv =
     (let sv = log_event (EDial addr (dual addr)) sv
      in dial_candidates dual now rest (if dual addr then sv else recordDialFailure now addr sv))"

definition reconnectPass ::
  "net_env \<Rightarrow> (string \<Rightarrow> bool) \<Rightarrow> int \<Rightarrow> nat \<Rightarrow> string set \<Rightarrow> 'db server \<Rightarrow> 'db server" where
  "reconnectPass env dual now maxPeers dialing sv =
     (let (cands, sv) = reconnect_candidates env now maxPeers dialing sv in dial_candidates dual now cands sv)"

section \<open>Bootstrap\<close>

fun bootstrap_unblock :: "net_env \<Rightarrow> string list \<Rightarrow> 'db server \<Rightarrow> string list \<times> 'db server" where
  "bootstrap_unblock env [] sv = ([], sv)"
| "bootstrap_unblock env (n # ns) sv =
     (let addr = NormalizeUserAddr (NP6 env) n
      in if addr = [] then bootstrap_unblock env ns sv
         else
           (let sv = (if db_asks (IsIgnoredPeer addr) sv then on_db (RemoveIgnoredPeer addr) sv else sv);
                (addrs, sv) = bootstrap_unblock env ns sv
            in (addr # addrs, sv)))"

fun bootstrap_dial :: "(string \<Rightarrow> bool) \<Rightarrow> int \<Rightarrow> string list \<Rightarrow> 'db server \<Rightarrow> 'db server" where
  "bootstrap_dial dual now [] sv = sv"
| "bootstrap_dial dual now (addr # rest) sv =
     (let sv = log_event (EDial addr (dual addr)) sv
      in bootstrap_dial dual now rest (if dual addr then on_db (AddKnownPeer now addr) sv else sv))"

definition BootstrapNetwork :: "net_env \<Rightarrow> (string \<Rightarrow> bool) \<Rightarrow> int \<Rightarrow> string list \<Rightarrow> 'db server \<Rightarrow> 'db server" where
  "BootstrapNetwork env dual now given sv =
     (let (addrs, sv) = bootstrap_unblock env given sv;
          sv = bootstrap_dial dual now addrs sv
      in case SvDb sv of
           None \<Rightarrow> sv
         | Some d \<Rightarrow>
             fold (\<lambda>addr. log_event (EDial addr (dual addr)))
               (filter (\<lambda>addr. addr \<notin> set given \<and> \<not> IsIgnoredPeer addr d) (ListKnownPeers d)) sv)"

section \<open>Views\<close>

record alias_result =
  ARFingerprint :: string
  ARX25519 :: string
  AREd25519 :: string
  ARNodeAddr :: string

definition alias_of :: "string \<Rightarrow> (string, string) gomap \<Rightarrow> alias_result" where
  "alias_of addr meta =
     \<lparr>ARFingerprint = go_get [] meta ''fingerprint'', ARX25519 = go_get [] meta ''x25519_pub'',
      AREd25519 = go_get [] meta ''ed25519_pub'', ARNodeAddr = addr\<rparr>"

fun alias_scan :: "string \<Rightarrow> string list \<Rightarrow> node_info list \<Rightarrow> alias_result list" where
  "alias_scan name seen [] = []"
| "alias_scan name seen (n # ns) =
     (let meta = (case Metadata n of None \<Rightarrow> [] | Some m \<Rightarrow> m); fp = go_get [] meta ''fingerprint''
      in if go_get [] meta ''alias'' = name \<and> fp \<notin> set seen
         then alias_of (Addr n) meta # alias_scan name (fp # seen) ns
         else alias_scan name seen ns)"

text \<open>The server has a membership table when this is called.\<close>

definition LookupAlias :: "net_env \<Rightarrow> string \<Rightarrow> cluster_state \<Rightarrow> alias_result list" where
  "LookupAlias env name t =
     (let own = (case NIdentity env of
            None \<Rightarrow> []
          | Some m \<Rightarrow> if go_get [] m ''alias'' = name then [alias_of (normalizeAddr (NP6 env) (NAddr env)) m] else [])
      in own @ alias_scan name (map ARFingerprint own) (cs_AllNodes t))"

record health_status =
  HStatus :: string
  HNodeAddr :: string
  HPeerCount :: int
  HRingSize :: int

definition HealthStatus :: "net_env \<Rightarrow> 'db server \<Rightarrow> health_status" where
  "HealthStatus env sv =
     (let ringSize = int (ring_Size (SvRing sv)); peerCount = (if ringSize - 1 < 0 then 0 else ringSize - 1)
      in \<lparr>HStatus = (if peerCount = 0 then ''degraded'' else ''ok''), HNodeAddr = NAddr env, HPeerCount = peerCount,
          HRingSize = ringSize\<rparr>)"

end
