(* ===== verification/PeerLaws.thy ===== *)
theory PeerLaws
  imports Peers
begin

text \<open>
  Properties of the connections: announced peers can be reached, blocked peers stay out of the ring, the
  connection manager dials exactly the addresses it may, and the backoff follows its schedule.
\<close>

section \<open>Announcements\<close>

lemma remap_sel:
  assumes "map_of (SvPeers sv) from = Some p" and "\<not> COutbound p" and "canonical \<noteq> from"
  shows "map_of (SvPeers (remap_announced from canonical sv)) = (map_of (SvPeers sv))(from := None, canonical \<mapsto> p)"
    and "SvAnnounced (remap_announced from canonical sv) = AList.update canonical from (SvAnnounced sv)"
    and "SvRing (remap_announced from canonical sv) = SvRing sv" and "SvTable (remap_announced from canonical sv) = SvTable sv"
  using assms by (auto simp: remap_announced_def fun_eq_iff)

lemma register_sel [simp]:
  "SvPeers (register_announced env now from canonical sv) = SvPeers sv"
  "SvAnnounced (register_announced env now from canonical sv) = SvAnnounced sv"
  "SvDb (register_announced env now from canonical sv) = SvDb sv"
  by (simp_all add: register_announced_def Let_def)

lemma acknowledge_sel [simp]:
  "SvPeers (acknowledge env canonical sv) = SvPeers sv" "SvAnnounced (acknowledge env canonical sv) = SvAnnounced sv"
  "SvRing (acknowledge env canonical sv) = SvRing sv" "SvTable (acknowledge env canonical sv) = SvTable sv"
  "SvDb (acknowledge env canonical sv) = SvDb sv"
  by (simp_all add: acknowledge_def Let_def split: option.splits)

lemma acknowledge_sends:
  "map_of (SvPeers sv) canonical = Some p \<Longrightarrow> \<exists>b. ESent p (MsgAnnounceAck canonical) b \<in> set (SvOut (acknowledge env canonical sv))"
  by (auto simp: acknowledge_def Let_def split: option.splits)

lemma HasNode_Add [simp]: "ring_HasNode (ring_AddNode sha a r) b \<longleftrightarrow> a = b \<or> ring_HasNode r b"
  using ring_AddNode_Members [of sha a r] unfolding ring_HasNode_def ring_Members_def map_of_None_keys by (auto split: if_splits)

lemma HasNode_Remove [simp]: "ring_HasNode (ring_RemoveNode a r) b \<longleftrightarrow> a \<noteq> b \<and> ring_HasNode r b"
  using ring_RemoveNode_Members [of a r] unfolding ring_HasNode_def ring_Members_def map_of_None_keys by auto

lemma register_ring:
  "SvRing (register_announced env now from canonical sv) =
    (if ring_HasNode (SvRing sv) (normalizeAddr (NP6 env) canonical) then SvRing sv
     else ring_AddNode (NSha env) (normalizeAddr (NP6 env) canonical) (SvRing sv))"
  by (simp add: register_announced_def Let_def)

lemma canonical_announced_idem [simp]:
  "normalizeAddr P6 (canonical_announced env from listen) = canonical_announced env from listen" if "NP6 env = P6"
  using that by (simp add: canonical_announced_def)

lemma canonical_of_update:
  assumes "\<forall>c. (c, e) \<notin> set an"
  shows "find (\<lambda>(c, e'). e' = e) (AList.update canonical e an) = Some (canonical, e)"
  using assms by (induction an) (auto simp: split: prod.splits)

text \<open>C26. A peer that connected to us and announces its listen address can be reached under both addresses: the
  same connection now answers to the listen address and to the ephemeral one, also when another connection was
  recorded under the listen address (that one is replaced), the acknowledgement with its external address has been handed to the connection,
  whether or not the send succeeds, the ring has the listen address, and the connections under all other addresses are unchanged, provided the
  announced address is neither our own nor blocked.\<close>

theorem announced_peer_reachable:
  assumes c: "canonical = canonical_announced env from listen" and sv'_def: "sv' = handleAnnounce env now from listen sv"
    and p: "map_of (SvPeers sv) from = Some p" "\<not> COutbound p"
    and ok: "listen \<noteq> []" "\<not> is_self env canonical" "\<not> db_asks (IsIgnoredPeer canonical) sv"
    and an: "map_of (SvAnnounced sv) from = None" "\<forall>c. (c, from) \<notin> set (SvAnnounced sv)" and ne: "canonical \<noteq> from"
  shows "peer_for sv' canonical = Some p \<and> peer_for sv' from = Some p \<and> ring_HasNode (SvRing sv') canonical \<and>
    (\<exists>b. ESent p (MsgAnnounceAck canonical) b \<in> set (SvOut sv')) \<and>
    (\<forall>a. a \<noteq> from \<and> a \<noteq> canonical \<longrightarrow> map_of (SvPeers sv') a = map_of (SvPeers sv) a)"
proof -
  let ?s1 = "remap_announced from canonical sv"
  let ?s2 = "register_announced env now from canonical ?s1"
  have sv': "sv' = acknowledge env canonical ?s2"
    using p ok by (simp add: sv'_def handleAnnounce_def c [symmetric] Let_def)
  note R = remap_sel [OF p ne]
  have peers: "map_of (SvPeers sv') = (map_of (SvPeers sv))(from := None, canonical \<mapsto> p)"
    and ann: "SvAnnounced sv' = AList.update canonical from (SvAnnounced sv)" by (simp_all add: sv' R(1,2))
  have "canonical_of sv' from = Some canonical" using canonical_of_update [OF an(2)] by (simp add: canonical_of_def ann)
  then have "peer_for sv' from = Some p" using an(1) ne by (simp add: peer_for_def peers ann)
  moreover have "normalizeAddr (NP6 env) canonical = canonical" by (simp add: c)
  then have "ring_HasNode (SvRing sv') canonical" by (simp add: sv' register_ring)
  moreover have "\<exists>b. ESent p (MsgAnnounceAck canonical) b \<in> set (SvOut sv')"
    unfolding sv' by (rule acknowledge_sends) (simp add: R(1))
  ultimately show ?thesis by (simp add: peer_for_def peers)
qed

section \<open>Blocked peers\<close>

text \<open>What other nodes and the connection manager can make the server do, apart from connections that the
  user asks for: inbound connections and outbound connections to other addresses, all messages about
  peers, disconnects, and passes of the connection manager. Two messages are left out, because they do undo a
  block: the first announce acknowledgement, when it gives the blocked address as our own external address, which the
  code puts into the ring unchecked (\<open>ack_enrolls_blocked\<close>), and the identity of a peer the user named with
  \<open>--peer\<close>, whose fingerprint is taken off the list on purpose. \<open>boot\<close> is that set of addresses.\<close>

inductive remote_step :: "net_env \<Rightarrow> string set \<Rightarrow> string \<Rightarrow> 'db server \<Rightarrow> 'db server \<Rightarrow> bool" for env boot a where
  step_peer: "\<not> COutbound p \<or> normalizeAddr (NP6 env) (CRemote p) \<noteq> a \<Longrightarrow> remote_step env boot a sv (OnPeer env now p sv)"
| step_announce: "remote_step env boot a sv (handleAnnounce env now from listen sv)"
| step_ack: "normalizeAddr (NP6 env) y \<noteq> a \<or> SvExternal sv \<noteq> [] \<Longrightarrow> remote_step env boot a sv (handleAnnounceAck env now y sv)"
| step_leaving: "remote_step env boot a sv (handleLeaving env now addr gen sv)"
| step_closed: "remote_step env boot a sv (OnPeerDisconnect env now p sv)"
| step_identity: "identity_address env from msgFrom sv \<notin> boot \<Longrightarrow> from \<notin> boot \<Longrightarrow>
    remote_step env boot a sv (handleIdentityMeta env now boot from msgFrom meta sv)"
| step_heartbeat: "remote_step env boot a sv (handleHeartbeat env from p ts sv)"
| step_reconnect: "remote_step env boot a sv (reconnectPass env dual now maxPeers dialing sv)"

definition dialled :: "string \<Rightarrow> 'db server \<Rightarrow> bool list" where
  "dialled a sv = List.map_filter (\<lambda>e. case e of EDial b ok \<Rightarrow> if b = a then Some ok else None | _ \<Rightarrow> None) (SvOut sv)"

lemma map_filter_snoc: "List.map_filter f (xs @ [x]) = List.map_filter f xs @ (case f x of None \<Rightarrow> [] | Some y \<Rightarrow> [y])"
  by (induction xs) (auto simp: map_filter_simps split: option.split)

lemma dialled_log [simp]:
  "dialled a (log_event e sv) = dialled a sv @ (case e of EDial b ok \<Rightarrow> if b = a then [ok] else [] | _ \<Rightarrow> [])"
  by (simp add: dialled_def map_filter_snoc split: net_event.split)

lemma dialled_cong: "SvOut sv = SvOut sv' \<Longrightarrow> dialled a sv = dialled a sv'"
  by (simp add: dialled_def)

lemma dialled_sel [simp]:
  "dialled a (on_table f sv) = dialled a sv" "dialled a (on_ring r sv) = dialled a sv" "dialled a (on_db g sv) = dialled a sv"
  "dialled a (clearBackoff x sv) = dialled a sv" "dialled a (sv\<lparr>SvPeers := ps\<rparr>) = dialled a sv"
  "dialled a (sv\<lparr>SvAnnounced := an\<rparr>) = dialled a sv" "dialled a (sv\<lparr>SvPeers := ps, SvAnnounced := an\<rparr>) = dialled a sv"
  "dialled a (sv\<lparr>SvExternal := x\<rparr>) = dialled a sv" "dialled a (sv\<lparr>SvGossipSelf := g'\<rparr>) = dialled a sv"
  "dialled a (sv\<lparr>SvBackoff := bo\<rparr>) = dialled a sv" "dialled a (sv\<lparr>SvBackoffExp := be\<rparr>) = dialled a sv"
  by (rule dialled_cong, simp add: clearBackoff_def)+

lemma dialled_if [simp]: "dialled a (log_if c e sv) = dialled a sv" if "\<And>b ok. e \<noteq> EDial b ok"
  using that by (cases e) (auto simp: log_if_def)

text \<open>An address that is blocked, out of the ring, and dialled so far with the results \<open>ds\<close>.\<close>

definition blocked :: "string \<Rightarrow> bool list \<Rightarrow> 'db server \<Rightarrow> bool" where
  "blocked a ds sv \<longleftrightarrow> (\<exists>d. SvDb sv = Some d \<and> db_ok d \<and> IsIgnoredPeer a d) \<and> \<not> ring_HasNode (SvRing sv) a \<and> dialled a sv = ds"

lemma blockedD: "blocked a ds sv \<Longrightarrow> db_asks (IsIgnoredPeer a) sv"
  by (auto simp: blocked_def db_asks_def)

lemma blocked_cong:
  "SvDb sv = SvDb sv' \<Longrightarrow> SvRing sv = SvRing sv' \<Longrightarrow> dialled a sv = dialled a sv' \<Longrightarrow> blocked a ds sv \<longleftrightarrow> blocked a ds sv'"
  by (simp add: blocked_def)

lemma blocked_frame [simp]:
  "blocked a ds (on_table f sv) \<longleftrightarrow> blocked a ds sv" "blocked a ds (clearBackoff x sv) \<longleftrightarrow> blocked a ds sv"
  "blocked a ds (sv\<lparr>SvPeers := ps\<rparr>) \<longleftrightarrow> blocked a ds sv" "blocked a ds (sv\<lparr>SvAnnounced := an\<rparr>) \<longleftrightarrow> blocked a ds sv"
  "blocked a ds (sv\<lparr>SvPeers := ps, SvAnnounced := an\<rparr>) \<longleftrightarrow> blocked a ds sv"
  "blocked a ds (sv\<lparr>SvExternal := x\<rparr>) \<longleftrightarrow> blocked a ds sv" "blocked a ds (sv\<lparr>SvGossipSelf := g\<rparr>) \<longleftrightarrow> blocked a ds sv"
  "blocked a ds (sv\<lparr>SvBackoff := bo\<rparr>) \<longleftrightarrow> blocked a ds sv" "blocked a ds (sv\<lparr>SvBackoffExp := be\<rparr>) \<longleftrightarrow> blocked a ds sv"
  by (rule blocked_cong; simp)+

lemma blocked_log [simp]:
  "blocked a ds (log_event e sv) \<longleftrightarrow> blocked a ds sv" if "\<forall>ok. e \<noteq> EDial a ok"
  proof (rule blocked_cong)
  show "dialled a (log_event e sv) = dialled a sv" using that by (cases e) (auto dest: spec [of _ True] spec [of _ False])
qed simp_all

lemma blocked_log_if [simp]: "blocked a ds (log_if c e sv) \<longleftrightarrow> blocked a ds sv" if "\<forall>ok. e \<noteq> EDial a ok"
  using that by (simp add: log_if_def)

lemma blocked_ring:
  "blocked a ds sv \<Longrightarrow> b \<noteq> a \<Longrightarrow> blocked a ds (on_ring (ring_AddNode sha b) sv)"
  "blocked a ds sv \<Longrightarrow> blocked a ds (on_ring (ring_RemoveNode b) sv)"
  by (auto simp: blocked_def)

lemma blocked_known: "blocked a ds sv \<Longrightarrow> blocked a ds (on_db (AddKnownPeer now b) sv)"
proof -
  assume bl: "blocked a ds sv"
  then obtain d where d: "SvDb sv = Some d" "db_ok d" "IsIgnoredPeer a d" by (auto simp: blocked_def)
  have "db_ok d' \<and> IsIgnoredPeer a d'" if "AddKnownPeer now b d = Inr d'" for d'
    using that d by (auto simp: AddKnownPeer_def IsIgnoredPeer_def db_put_get dest: db_put_ok split: option.splits)
  then have "db_ok (keep_old d (AddKnownPeer now b d)) \<and> IsIgnoredPeer a (keep_old d (AddKnownPeer now b d))"
    using d by (auto simp: keep_old_def split: sum.split)
  then show ?thesis using bl d by (simp add: blocked_def)
qed

lemma blocked_close [simp]: "blocked a ds (close_peer b sv) \<longleftrightarrow> blocked a ds sv"
  by (simp add: close_peer_def split: option.split)

lemma blocked_register:
  assumes "blocked a ds sv" and "normalizeAddr (NP6 env) c \<noteq> a"
  shows "blocked a ds (register_announced env now from c sv)"
  using assms by (simp add: register_announced_def Let_def blocked_ring)

lemma blocked_acknowledge: "blocked a ds sv \<Longrightarrow> blocked a ds (acknowledge env c sv)"
  by (simp add: acknowledge_def Let_def split: option.splits)

lemma blocked_announce:
  assumes "blocked a ds sv" shows "blocked a ds (handleAnnounce env now from listen sv)"
proof -
  let ?c = "canonical_announced env from listen"
  have "blocked a ds (reject_announced from sv)" using assms by (simp add: reject_announced_def Let_def split: option.splits)
  moreover have "blocked a ds (acknowledge env ?c (register_announced env now from ?c (remap_announced from ?c sv)))"
    if "\<not> db_asks (IsIgnoredPeer ?c) sv"
  proof -
    have "?c \<noteq> a" using that blockedD [OF assms] by auto
    moreover have "blocked a ds (remap_announced from ?c sv)" using assms by (simp add: remap_announced_def split: option.splits)
    ultimately show ?thesis by (intro blocked_acknowledge blocked_register) simp_all
  qed
  ultimately show ?thesis using assms by (simp add: handleAnnounce_def Let_def)
qed

lemma blocked_leaving:
  assumes "blocked a ds sv" shows "blocked a ds (handleLeaving env now addr gen sv)"
  using blocked_ring(2) [OF blocked_ring(2) [OF assms]] by (simp add: handleLeaving_def Let_def)

lemma blocked_disconnect:
  assumes "blocked a ds sv" shows "blocked a ds (OnPeerDisconnect env now p sv)"
proof -
  have "blocked a ds (sv\<lparr>SvPeers := ps\<rparr>)" "blocked a ds (sv\<lparr>SvPeers := ps, SvAnnounced := an\<rparr>)"
    "blocked a ds (sv\<lparr>SvAnnounced := an\<rparr>)" for ps an using assms by simp_all
  note this [THEN blocked_ring(2)]
  then show ?thesis using assms by (auto simp: OnPeerDisconnect_def Let_def split: option.splits)
qed

lemma blocked_ack:
  assumes "blocked a ds sv" and "normalizeAddr (NP6 env) y \<noteq> a \<or> SvExternal sv \<noteq> []"
  shows "blocked a ds (handleAnnounceAck env now y sv)"
proof -
  have "blocked a ds (sv\<lparr>SvExternal := x\<rparr>)" for x using assms by simp
  note this [THEN blocked_ring(2)] this [THEN blocked_ring(1), THEN blocked_ring(2)]
  then show ?thesis using assms by (auto simp: handleAnnounceAck_def Let_def on_ring_def)
qed

section \<open>The connection manager\<close>

definition backed_off :: "int \<Rightarrow> 'db server \<Rightarrow> string \<Rightarrow> bool" where
  "backed_off now sv addr \<longleftrightarrow> (\<exists>earliest. map_of (SvBackoff sv) addr = Some earliest \<and> now \<le> earliest)"

definition eligible :: "net_env \<Rightarrow> int \<Rightarrow> string set \<Rightarrow> 'db server \<Rightarrow> string \<Rightarrow> bool" where
  "eligible env now dialing sv addr \<longleftrightarrow>
     addr \<noteq> normalizeAddr (NP6 env) (NAddr env) \<and> \<not> IsPeerConnected sv addr \<and> \<not> db_asks (IsIgnoredPeer addr) sv \<and>
     \<not> backed_off now sv addr \<and> addr \<notin> dialing"

lemma isBackedOff_exact: "fst (isBackedOff now addr sv) \<longleftrightarrow> backed_off now sv addr"
  by (auto simp: isBackedOff_def backed_off_def split: option.splits)

lemma isBackedOff_frame [simp]:
  "SvPeers (snd (isBackedOff now addr sv)) = SvPeers sv" "SvDb (snd (isBackedOff now addr sv)) = SvDb sv"
  "SvBackoffExp (snd (isBackedOff now addr sv)) = SvBackoffExp sv" "SvRing (snd (isBackedOff now addr sv)) = SvRing sv"
  "dialled a (snd (isBackedOff now addr sv)) = dialled a sv"
  by (simp_all add: isBackedOff_def split: option.splits)

lemma backed_off_check [simp]: "backed_off now (snd (isBackedOff now addr sv)) = backed_off now sv"
  by (auto simp: isBackedOff_def backed_off_def fun_eq_iff split: option.splits if_splits)

lemma eligible_check [simp]: "eligible env now dialing (snd (isBackedOff now addr sv)) = eligible env now dialing sv"
  by (auto simp: eligible_def fun_eq_iff IsPeerConnected_def db_asks_def)

lemma blocked_check [simp]: "blocked a ds (snd (isBackedOff now addr sv)) \<longleftrightarrow> blocked a ds sv"
  by (rule blocked_cong) simp_all

lemma reconnect_loop_exact:
  assumes "length cands < needed"
  shows "fst (reconnect_loop env now dialing needed ks cands sv) =
    cands @ take (needed - length cands) (filter (eligible env now dialing sv) (map (normalizeAddr (NP6 env)) ks))"
  using assms
proof (induction ks arbitrary: cands sv)
  case (Cons k ks)
  let ?a = "normalizeAddr (NP6 env) k"
  obtain b sv1 where b: "isBackedOff now ?a sv = (b, sv1)" by fastforce
  have "b \<longleftrightarrow> backed_off now sv ?a" "eligible env now dialing sv1 = eligible env now dialing sv"
    using isBackedOff_exact [of now ?a sv] eligible_check [of env now dialing ?a sv] b by simp_all
  moreover obtain n where "needed - length cands = Suc n" "needed - Suc (length cands) = n"
    using Cons.prems by (metis Suc_diff_Suc)
  ultimately show ?case
    using Cons.IH [of cands sv] Cons.IH [of cands sv1] Cons.IH [of "cands @ [?a]" sv1] Cons.prems b
    by (auto simp: Let_def eligible_def IsPeerConnected_def)
qed simp

lemma reconnect_loop_blocked: "blocked a ds (snd (reconnect_loop env now dialing needed ks cands sv)) \<longleftrightarrow> blocked a ds sv"
proof (induction ks arbitrary: cands sv)
  case (Cons k ks)
  obtain b sv1 where b: "isBackedOff now (normalizeAddr (NP6 env) k) sv = (b, sv1)" by fastforce
  have "blocked a ds sv1 \<longleftrightarrow> blocked a ds sv" using blocked_check [of a ds now _ sv] b by (metis snd_conv)
  then show ?case using Cons.IH b by (simp add: Let_def)
qed simp

lemma dial_candidates_blocked:
  "a \<notin> set cs \<Longrightarrow> blocked a ds (dial_candidates dual now cs sv) \<longleftrightarrow> blocked a ds sv"
proof (induction cs arbitrary: sv)
  case (Cons c cs)
  have "blocked a ds (recordDialFailure now c s) \<longleftrightarrow> blocked a ds s" for s :: "'a server"
    by (simp add: recordDialFailure_def Let_def)
  moreover have "blocked a ds (log_event (EDial c b) s) \<longleftrightarrow> blocked a ds s" for b and s :: "'a server"
    using Cons.prems by (intro blocked_log) auto
  ultimately show ?case using Cons by (simp add: Let_def)
qed simp

lemma blocked_reconnect:
  assumes bl: "blocked a ds sv" shows "blocked a ds (reconnectPass env dual now maxPeers dialing sv)"
proof -
  obtain cs sv1 where c: "reconnect_candidates env now maxPeers dialing sv = (cs, sv1)" by fastforce
  obtain d where d: "SvDb sv = Some d" using bl by (auto simp: blocked_def)
  have "blocked a ds sv1 \<and> a \<notin> set cs"
  proof (cases "maxPeers \<le> outboundPeerCount sv")
    case True
    then show ?thesis using c bl by (simp add: reconnect_candidates_def)
  next
    case False
    let ?n = "maxPeers - outboundPeerCount sv"
    have l: "reconnect_loop env now dialing ?n (ListKnownPeers d) [] sv = (cs, sv1)"
      using c d False by (simp add: reconnect_candidates_def Let_def)
    have "cs = take ?n (filter (eligible env now dialing sv) (map (normalizeAddr (NP6 env)) (ListKnownPeers d)))"
      using reconnect_loop_exact [of "[]" ?n env now dialing "ListKnownPeers d" sv] l False by simp
    then have "\<forall>x \<in> set cs. eligible env now dialing sv x" by (auto dest: in_set_takeD)
    then have "a \<notin> set cs" using blockedD [OF bl] by (auto simp: eligible_def)
    then show ?thesis using reconnect_loop_blocked [of a ds env now dialing ?n "ListKnownPeers d" "[]" sv] l bl by simp
  qed
  then show ?thesis using dial_candidates_blocked [of a cs ds dual now sv1] c by (simp add: reconnectPass_def)
qed

lemma blocked_peer:
  assumes bl: "blocked a ds sv" and p: "\<not> COutbound p \<or> normalizeAddr (NP6 env) (CRemote p) \<noteq> a"
  shows "blocked a ds (OnPeer env now p sv)"
proof -
  have "blocked a ds (sv\<lparr>SvPeers := ps\<rparr>)" for ps using bl by simp
  note this [THEN blocked_ring(1), of "normalizeAddr (NP6 env) (CRemote p)"]
  then show ?thesis using assms by (auto simp: OnPeer_def Let_def intro!: blocked_known split: option.splits)
qed

lemma blocked_identity:
  assumes "blocked a ds sv" and "identity_address env from msgFrom sv \<notin> boot" "from \<notin> boot"
  shows "blocked a ds (handleIdentityMeta env now boot from msgFrom meta sv)"
  using assms by (simp add: handleIdentityMeta_def Let_def split: option.splits)

lemma blocked_heartbeat:
  assumes "blocked a ds sv" shows "blocked a ds (handleHeartbeat env from p ts sv)"
  using assms by (simp add: handleHeartbeat_def Let_def split: option.splits)

lemma remote_step_blocked: "remote_step env boot a sv sv' \<Longrightarrow> blocked a ds sv \<Longrightarrow> blocked a ds sv'"
  by (induction rule: remote_step.induct)
    (simp_all add: blocked_peer blocked_announce blocked_ack blocked_leaving blocked_disconnect blocked_identity
      blocked_heartbeat blocked_reconnect)

text \<open>The acknowledgement that is left out: a peer that tells this node its external address is a blocked one gets
  the blocked address into the ring.\<close>

lemma ack_enrolls_blocked:
  assumes "normalizeAddr (NP6 env) y = a" and "y \<noteq> []" and "normalizeAddr (NP6 env) (NAddr env) \<noteq> a" and "SvExternal sv = []"
  shows "ring_HasNode (SvRing (handleAnnounceAck env now y sv)) a"
  using assms by (simp add: handleAnnounceAck_def Let_def)

text \<open>C27. The blocklist holds: while an address is on it, no connection other nodes open or close, no pass of the
  connection manager and no announcement, acknowledgement, leave notice, identity or heartbeat puts the address into the
  hash ring, takes it off the list, or makes this node dial it, in any order and any number. Two messages are excepted: a first announce acknowledgement
  that gives the blocked address as our own (it enters the ring), and the identity of a peer named with \<open>--peer\<close>
  (its fingerprint is unblocked on purpose).\<close>

theorem blocked_peer_stays_out:
  assumes "(remote_step env boot a)\<^sup>*\<^sup>* sv sv'"
    and "SvDb sv = Some d" and "db_ok d" and "IsIgnoredPeer a d" and "\<not> ring_HasNode (SvRing sv) a"
  shows "\<not> ring_HasNode (SvRing sv') a \<and> db_asks (IsIgnoredPeer a) sv' \<and> dialled a sv' = dialled a sv"
proof -
  have "blocked a (dialled a sv) sv" using assms(2-5) by (simp add: blocked_def)
  with assms(1) have "blocked a (dialled a sv) sv'" by (induction rule: rtranclp_induct) (blast intro: remote_step_blocked)+
  then show ?thesis using blockedD by (auto simp: blocked_def)
qed

text \<open>A pass of the connection manager dials exactly the first known addresses that it may dial, as many as
  are missing to the target: in normal form, not its own, not connected, not blocked, not in their
  backoff window and not being dialled already; and none when the target is reached.\<close>

lemma reconnect_candidates_exact:
  assumes "SvDb sv = Some d"
  shows "fst (reconnect_candidates env now maxPeers dialing sv) =
    take (maxPeers - outboundPeerCount sv)
      (filter (eligible env now dialing sv) (map (normalizeAddr (NP6 env)) (ListKnownPeers d)))"
  using assms reconnect_loop_exact [of "[]" "maxPeers - outboundPeerCount sv" env now dialing "ListKnownPeers d" sv]
  by (simp add: reconnect_candidates_def Let_def)

section \<open>Backoff\<close>

text \<open>Dials of \<open>a\<close> that fail at the times \<open>ts\<close>, each after the check of the connection manager.\<close>

definition failed_dials :: "string \<Rightarrow> int list \<Rightarrow> 'db server \<Rightarrow> 'db server" where
  "failed_dials a ts sv = fold (\<lambda>t s. recordDialFailure t a (snd (isBackedOff t a s))) ts sv"

lemma backoff_duration_min [simp]: "backoff_duration (min 2 k) = backoff_duration k"
  by (simp add: backoff_duration_def min_def)

lemma failed_dials_state:
  "go_get 0 (SvBackoffExp (failed_dials a ts (clearBackoff a sv))) a = min 2 (length ts) \<and>
    (ts \<noteq> [] \<longrightarrow> map_of (SvBackoff (failed_dials a ts (clearBackoff a sv))) a = Some (last ts + backoff_duration (length ts - 1)))"
proof (induction ts rule: rev_induct)
  case Nil
  show ?case by (simp add: failed_dials_def clearBackoff_def go_get_def)
next
  case (snoc t ts)
  let ?s = "failed_dials a ts (clearBackoff a sv)"
  have e: "go_get 0 (SvBackoffExp (snd (isBackedOff t a ?s))) a = min 2 (length ts)" using snoc.IH by simp
  have "failed_dials a (ts @ [t]) (clearBackoff a sv) = recordDialFailure t a (snd (isBackedOff t a ?s))"
    by (simp add: failed_dials_def)
  moreover have "backoff_duration (min 2 (length ts)) = backoff_duration (length ts)" by simp
  ultimately show ?case using e by (cases "length ts < 2") (auto simp: recordDialFailure_def Let_def min_def)
qed

lemma failed_dials_other: "b \<noteq> a \<Longrightarrow> map_of (SvBackoff (failed_dials a ts sv)) b = map_of (SvBackoff sv) b"
proof (induction ts arbitrary: sv)
  case (Cons t ts)
  have "map_of (SvBackoff (recordDialFailure t a (snd (isBackedOff t a sv)))) b = map_of (SvBackoff sv) b"
    using Cons.prems by (simp add: recordDialFailure_def isBackedOff_def Let_def split: option.split)
  then show ?case using Cons by (simp add: failed_dials_def)
qed (simp add: failed_dials_def)

text \<open>The backoff schedule: after the last of a series of failed dials an address is left alone for one
  minute when it was the only one, five minutes when there were two, and one hour from the third on,
  counted from that failure; looking at the window in between does not shorten the schedule, other
  addresses are not affected, and a successful outbound connection ends it.\<close>

lemma backoff_schedule:
  assumes "ts \<noteq> []"
  shows "(backed_off now (failed_dials a ts (clearBackoff a sv)) a \<longleftrightarrow>
      now \<le> last ts + (if length ts = 1 then minute else if length ts = 2 then 5 * minute else 60 * minute)) \<and>
    (b \<noteq> a \<longrightarrow> (backed_off now (failed_dials a ts (clearBackoff a sv)) b \<longleftrightarrow> backed_off now sv b)) \<and>
    (COutbound p \<and> map_of (SvPeers sv) (normalizeAddr (NP6 env) (CRemote p)) = None \<longrightarrow>
      \<not> backed_off t (OnPeer env now p sv) (normalizeAddr (NP6 env) (CRemote p)))"
proof (intro conjI impI)
  have "length ts - 1 = 0 \<longleftrightarrow> length ts = 1" "length ts - 1 = 1 \<longleftrightarrow> length ts = 2" using assms by (cases ts; auto)+
  then show "backed_off now (failed_dials a ts (clearBackoff a sv)) a \<longleftrightarrow>
      now \<le> last ts + (if length ts = 1 then minute else if length ts = 2 then 5 * minute else 60 * minute)"
    using failed_dials_state [of a ts sv] assms by (auto simp: backed_off_def backoff_duration_def)
  show "backed_off now (failed_dials a ts (clearBackoff a sv)) b \<longleftrightarrow> backed_off now sv b" if "b \<noteq> a"
    using failed_dials_other [OF that, of ts "clearBackoff a sv"] that by (simp add: backed_off_def clearBackoff_def)
  show "\<not> backed_off t (OnPeer env now p sv) (normalizeAddr (NP6 env) (CRemote p))"
    if "COutbound p \<and> map_of (SvPeers sv) (normalizeAddr (NP6 env) (CRemote p)) = None"
    using that by (simp add: OnPeer_def Let_def backed_off_def) (simp add: clearBackoff_def)
qed

section \<open>Leaving and closing\<close>

lemma close_peer_sel:
  "map_of (SvPeers (close_peer a sv)) = (map_of (SvPeers sv))(a := None)" "SvRing (close_peer a sv) = SvRing sv"
  "SvTable (close_peer a sv) = SvTable sv"
  by (auto simp: close_peer_def fun_eq_iff split: option.splits)

lemma close_peer_closes: "map_of (SvPeers sv) a = Some p \<Longrightarrow> EClosed p \<in> set (SvOut (close_peer a sv))"
  by (simp add: close_peer_def)

text \<open>A node that leaves under the address it is connected with is gone at once: its connection is closed
  and removed, the ring loses this address and nothing else, and the membership table has it as left with
  a generation above the one it announced, so that no digest it sent before can bring it back.\<close>

lemma leaving_exact:
  assumes p: "map_of (SvPeers sv) addr = Some p" and t: "SvTable sv = Some t"
    and g: "cs_view t addr = Some (g, s)" "g \<le> gen" "gen \<noteq> - 1" and sv': "sv' = handleLeaving env now addr gen sv"
  shows "map_of (SvPeers sv') = (map_of (SvPeers sv))(addr := None) \<and> EClosed p \<in> set (SvOut sv') \<and>
    (\<forall>b. ring_HasNode (SvRing sv') b \<longleftrightarrow> ring_HasNode (SvRing sv) b \<and> b \<noteq> normalizeAddr (NP6 env) addr) \<and>
    (\<exists>t'. SvTable sv' = Some t' \<and> cs_view t' = (cs_view t)(addr \<mapsto> (gen + 1, StateLeft)) \<and>
      (\<forall>d. DAddr d = addr \<and> DGeneration d \<le> gen \<longrightarrow> \<not> newer_in (cs_view t') d))"
proof -
  let ?r = "on_ring (ring_RemoveNode (normalizeAddr (NP6 env) addr))"
  let ?s1 = "on_table (leaving_update now addr addr gen) (?r (?r sv))"
  have c: "leaving_address addr sv = addr" using p by (simp add: leaving_address_def)
  have e: "sv' = (close_peer addr ?s1)\<lparr>SvAnnounced := AList.delete addr (AList.delete addr (SvAnnounced (close_peer addr ?s1)))\<rparr>"
    by (simp add: sv' handleLeaving_def c Let_def)
  have gen: "gen + 1 \<noteq> 0" "\<not> gen + 1 \<le> g" using g(2,3) word_less_plus_one [OF g(3)] by (auto simp: add_eq_0_iff2)
  obtain i where i: "cs_GetNode addr t = Some i" "Generation i = g" "State i = s"
    using g(1) by (auto simp: cs_view_def cs_GetNode_def)
  have "cs_view (leaving_update now addr addr gen t) = (cs_view t)(addr \<mapsto> (gen + 1, StateLeft))"
    using gen g(1) i by (simp add: leaving_update_def cs_view_UpdateState view_update_def Let_def)
  moreover have "SvTable sv' = Some (leaving_update now addr addr gen t)" by (simp add: e close_peer_sel t)
  moreover have "EClosed p \<in> set (SvOut sv')" using close_peer_closes [of ?s1 addr p] p by (simp add: e)
  moreover have "\<not> newer_in ((cs_view t)(addr \<mapsto> (gen + 1, StateLeft))) d" if "DAddr d = addr" "DGeneration d \<le> gen" for d
    using that word_less_plus_one [OF g(3)] by (auto simp: newer_in_def)
  ultimately show ?thesis using close_peer_sel [of addr ?s1] by (auto simp: e)
qed

text \<open>A leaving message whose address is not a key of \<open>peers\<close> removes the first connected peer on the same port,
  whichever node that is.\<close>

lemma leaving_removes_any_peer_on_port:
  assumes "map_of (SvPeers sv) addr = None" and "find (\<lambda>(b, p). port_of b = port_of addr) (SvPeers sv) = Some (other, p)"
    and "map_of (SvPeers sv) other = Some p" and sv': "sv' = handleLeaving env now addr gen sv"
  shows "\<not> IsPeerConnected sv' other \<and> \<not> ring_HasNode (SvRing sv') (normalizeAddr (NP6 env) other)"
  using assms(1-3) by (auto simp: sv' handleLeaving_def leaving_address_def Let_def IsPeerConnected_def close_peer_sel)

text \<open>When an inbound connection that was announced closes, its entry under the listen address stays: the node
  counts as connected although it has left the ring, and the connection manager does not dial it.\<close>

lemma closed_inbound_stays_listed:
  assumes "map_of (SvPeers sv) c = Some p" and "\<not> COutbound p" and "c \<noteq> CRemote p" and "c \<noteq> []"
    and "SvAnnounced sv = [(c, CRemote p)]" and sv': "sv' = OnPeerDisconnect env now p sv"
  shows "IsPeerConnected sv' c \<and> \<not> ring_HasNode (SvRing sv') (normalizeAddr (NP6 env) c) \<and> \<not> eligible env t dialing sv' c"
  using assms(1-5) by (auto simp: sv' OnPeerDisconnect_def Let_def IsPeerConnected_def eligible_def)

text \<open>A second acknowledgement changes the address this node gives for itself without entering it into the ring.\<close>

lemma second_ack_not_registered:
  assumes "SvExternal sv \<noteq> []" and "y \<noteq> []" and "normalizeAddr (NP6 env) y \<noteq> normalizeAddr (NP6 env) (NAddr env)"
  shows "SvExternal (handleAnnounceAck env now y sv) = normalizeAddr (NP6 env) y \<and>
    SvRing (handleAnnounceAck env now y sv) = SvRing sv"
  using assms by (simp add: handleAnnounceAck_def Let_def)

section \<open>Instances\<close>

definition demo_net :: net_env where
  "demo_net =
     \<lparr>NSha = (\<lambda>b. replicate 32 0), NP6 = (\<lambda>s. None), NAddr = '':3000'', NOutIP = ''10.0.0.1'', NIfaces = None, NIdentity = None,
      NSends = (\<lambda>p m. True), NHeartbeat = True, NHandoff = True, NRebalancer = True\<rparr>"

definition demo_conn :: conn where
  "demo_conn = \<lparr>CId = 1, CRemote = ''10.0.0.2:47636'', COutbound = False\<rparr>"

definition demo_out :: conn where
  "demo_out = \<lparr>CId = 2, CRemote = ''10.0.0.3:3000'', COutbound = True\<rparr>"

definition demo_server :: "(bucket \<Rightarrow> (string \<times> doc) list) server" where
  "demo_server =
     \<lparr>SvPeers = [(''10.0.0.2:47636'', demo_conn)], SvAnnounced = [], SvData = [], SvRing = ring_New None,
      SvTable = Some (cs_New ''10.0.0.3:3000'' 5), SvDb = Some alist_db, SvBackoff = [], SvBackoffExp = [], SvExternal = [],
      SvGossipSelf = None, SvSeen = [], SvOut = []\<rparr>"

lemma demo_net_sel [simp]: "NP6 demo_net = (\<lambda>s. None)" "NAddr demo_net = '':3000''" "NIfaces demo_net = None"
  by (simp_all add: demo_net_def)

lemma demo_server_sel [simp]:
  "SvPeers demo_server = [(''10.0.0.2:47636'', demo_conn)]" "SvAnnounced demo_server = []" "SvRing demo_server = ring_New None"
  "SvDb demo_server = Some alist_db" "SvBackoff demo_server = []" "SvTable demo_server = Some (cs_New ''10.0.0.3:3000'' 5)"
  by (simp_all add: demo_server_def)

lemma demo_conn_sel [simp]: "CRemote demo_conn = ''10.0.0.2:47636''" "\<not> COutbound demo_conn"
  by (simp_all add: demo_conn_def)

lemma demo_no_node [simp]: "\<not> ring_HasNode (ring_New cfg) a"
  by (simp add: ring_HasNode_def ring_New_def Let_def)

lemma demo_split: "SplitHostPort ''10.0.0.2:47636'' = Some (''10.0.0.2'', ''47636'')"
  "SplitHostPort ''10.0.0.2:3000'' = Some (''10.0.0.2'', ''3000'')" "SplitHostPort ''10.0.0.3:3000'' = Some (''10.0.0.3'', ''3000'')"
  by (simp_all add: SplitHostPort_def Let_def)

lemma demo_normal: "normalizeAddr (\<lambda>s. None) ''10.0.0.2:3000'' = ''10.0.0.2:3000''"
  "normalizeAddr (\<lambda>s. None) ''10.0.0.3:3000'' = ''10.0.0.3:3000''" "normalizeAddr (\<lambda>s. None) '':3000'' = ''127.0.0.1:3000''"
proof -
  have "SplitHostPort '':3000'' = Some ([], ''3000'')" by (simp add: SplitHostPort_def Let_def)
  then show "normalizeAddr (\<lambda>s. None) '':3000'' = ''127.0.0.1:3000''" by (simp add: normalizeAddr_def JoinHostPort_def)
qed (simp_all add: normalizeAddr_def demo_split ParseIP_def parse_ipv4_def octet_def digits_def is_digit_def parse_digits_def digit_val_def)

lemma demo_canonical: "canonical_announced demo_net ''10.0.0.2:47636'' '':3000'' = ''10.0.0.2:3000''"
  by (simp add: canonical_announced_def demo_split JoinHostPort_def demo_normal)

theorem announced_peer_reachable_witness:
  "peer_for (handleAnnounce demo_net 7 ''10.0.0.2:47636'' '':3000'' demo_server) ''10.0.0.2:3000'' = Some demo_conn \<and>
    ring_HasNode (SvRing (handleAnnounce demo_net 7 ''10.0.0.2:47636'' '':3000'' demo_server)) ''10.0.0.2:3000''"
  using announced_peer_reachable [OF demo_canonical [symmetric] refl, of demo_server demo_conn 7]
  by (simp add: is_self_def isLocalAddr_def db_asks_def IsIgnoredPeer_def)

theorem blocked_peer_stays_out_witness:
  "\<exists>d. AddIgnoredPeer 3 \<lparr>IPAddr = ''10.0.0.2:3000'', IPFingerprint = [], IPIgnoredAt = 3\<rparr> alist_db = Inr d \<and>
    \<not> ring_HasNode (SvRing (reconnectPass demo_net (\<lambda>a. True) 9 8 {}
        (handleAnnounce demo_net 7 ''10.0.0.2:47636'' '':3000'' (demo_server\<lparr>SvDb := Some d\<rparr>)))) ''10.0.0.2:3000''"
proof -
  have "\<exists>d. AddIgnoredPeer 3 \<lparr>IPAddr = ''10.0.0.2:3000'', IPFingerprint = [], IPIgnoredAt = 3\<rparr> alist_db = Inr d"
    using db_put_writable [of alist_db] alist_bolt_writable by (simp add: AddIgnoredPeer_def Let_def)
  then obtain d where d: "AddIgnoredPeer 3 \<lparr>IPAddr = ''10.0.0.2:3000'', IPFingerprint = [], IPIgnoredAt = 3\<rparr> alist_db = Inr d" ..
  have ok: "db_ok alist_db" by (simp add: db_ok_def alist_bolt_ok)
  then have "db_ok d" "IsIgnoredPeer ''10.0.0.2:3000'' d"
    using d by (auto simp: AddIgnoredPeer_def Let_def IsIgnoredPeer_def db_put_get dest: db_put_ok)
  moreover have "(remote_step demo_net {} ''10.0.0.2:3000'')\<^sup>*\<^sup>* (demo_server\<lparr>SvDb := Some d\<rparr>)
      (reconnectPass demo_net (\<lambda>a. True) 9 8 {} (handleAnnounce demo_net 7 ''10.0.0.2:47636'' '':3000'' (demo_server\<lparr>SvDb := Some d\<rparr>)))"
    by (meson r_into_rtranclp rtranclp.rtrancl_into_rtrancl step_announce step_reconnect)
  ultimately show ?thesis using blocked_peer_stays_out [where d = d] d by fastforce
qed

theorem reconnect_candidates_exact_witness:
  "\<exists>d. AddKnownPeer 3 ''10.0.0.3:3000'' alist_db = Inr d \<and>
    fst (reconnect_candidates demo_net 9 8 {} (demo_server\<lparr>SvDb := Some d\<rparr>)) = [''10.0.0.3:3000'']"
proof -
  have "\<exists>d. AddKnownPeer 3 ''10.0.0.3:3000'' alist_db = Inr d"
    using db_put_writable [of alist_db] alist_bolt_writable by (simp add: AddKnownPeer_def getKnownPeer_def get_as_def)
  then obtain d where d: "AddKnownPeer 3 ''10.0.0.3:3000'' alist_db = Inr d" ..
  have "ListKnownPeers d = [''10.0.0.3:3000'']" "\<not> IsIgnoredPeer ''10.0.0.3:3000'' d"
    using d by (auto simp: AddKnownPeer_def getKnownPeer_def get_as_def db_put_def alist_db_def alist_bolt_def ListKnownPeers_def
        db_each_def IsIgnoredPeer_def db_get_def split: option.splits)
  moreover have "outboundPeerCount (demo_server\<lparr>SvDb := Some d\<rparr>) = 0" by (simp add: outboundPeerCount_def)
  ultimately show ?thesis
    using reconnect_candidates_exact [of "demo_server\<lparr>SvDb := Some d\<rparr>" d demo_net 9 8 "{}"] d
    by (simp add: demo_normal eligible_def IsPeerConnected_def db_asks_def backed_off_def)
qed

theorem backoff_schedule_witness:
  "backed_off (9 + minute) (failed_dials ''a'' [9] (clearBackoff ''a'' demo_server)) ''a'' \<and>
    \<not> backed_off (11 + 5 * minute) (failed_dials ''a'' [9, 10] (clearBackoff ''a'' demo_server)) ''a'' \<and>
    \<not> backed_off 2 (OnPeer demo_net 1 demo_out demo_server) ''10.0.0.3:3000''"
  using backoff_schedule [of "[9]" "9 + minute" "''a''" demo_server "''b''" demo_out demo_net 2]
    backoff_schedule [of "[9, 10]" "11 + 5 * minute" "''a''" demo_server "''b''" demo_out demo_net 2]
    backoff_schedule [of "[9]" 1 "''a''" demo_server "''b''" demo_out demo_net 2]
  by (simp add: demo_out_def demo_normal)

theorem leaving_exact_witness:
  "IsPeerConnected (handleLeaving demo_net 9 ''10.0.0.3:3000'' 5 (demo_server\<lparr>SvPeers := [(''10.0.0.3:3000'', demo_out)]\<rparr>)) ''10.0.0.3:3000''
    \<longleftrightarrow> False"
  using leaving_exact [of "demo_server\<lparr>SvPeers := [(''10.0.0.3:3000'', demo_out)]\<rparr>" "''10.0.0.3:3000''" demo_out
      "cs_New ''10.0.0.3:3000'' 5" 5 StateAlive 5 _ demo_net 9]
  by (simp add: IsPeerConnected_def cs_view_def cs_New_def)

text \<open>A blocked fingerprint does not close a connection that was already moved to its listen address.\<close>

lemma blocked_fingerprint_stays_connected:
  assumes "map_of (SvPeers sv) from = None" and "SvTable sv \<noteq> None" and "go_get [] meta ''fingerprint'' = fp" and "fp \<noteq> []"
    and "db_asks (IsIgnoredFingerprint fp) sv"
  shows "handleIdentityMeta env now {} from msgFrom (Some meta) sv = sv"
  using assms by (simp add: handleIdentityMeta_def Let_def close_peer_def)

end
