(* ===== verification/Search.thy ===== *)
theory Search
  imports PeerLaws "HOL-Library.Multiset" "HOL-Library.Sublist"
begin

text \<open>
  File search by flooding (Server/server.go): the cache of seen requests, the match of names against a query,
  \<open>SearchFiles\<close> with the collection of answers, and the two handlers; and a network of servers in which the
  requests in flight are handled in any order.

  Names and queries are ASCII, where \<open>strings.ToLower\<close> and \<open>strings.Fields\<close> work byte by byte. A search
  response goes through JSON on its way to the waiting search; here it arrives as it was sent.
\<close>

section \<open>The cache of seen requests\<close>

definition seen_gc :: "int \<Rightarrow> (string, int) gomap \<Rightarrow> (string, int) gomap" where
  "seen_gc now items =
     (if 100 < length items then filter (\<lambda>(k, t). \<not> t < now - 30000000000) items else items)"

definition SeenOrAdd :: "int \<Rightarrow> string \<Rightarrow> (string, int) gomap \<Rightarrow> bool \<times> (string, int) gomap" where
  "SeenOrAdd now rid items =
     (case map_of items rid of
        Some _ \<Rightarrow> (True, items)
      | None \<Rightarrow> (False, seen_gc now (AList.update rid now items)))"

section \<open>Matching\<close>

definition is_space :: "char \<Rightarrow> bool" where
  "is_space c \<longleftrightarrow> (let n = of_char c :: nat in n = 32 \<or> (9 \<le> n \<and> n \<le> 13))"

fun words_of :: "string \<Rightarrow> string \<Rightarrow> string list" where
  "words_of cur [] = (if cur = [] then [] else [rev cur])"
| "words_of cur (c # cs) =
     (if is_space c then (if cur = [] then words_of [] cs else rev cur # words_of [] cs) else words_of (c # cur) cs)"

text \<open>\<open>strings.ToLower\<close> and \<open>strings.Fields\<close> are those of ASCII text; letters and spaces beyond ASCII are left as they are.\<close>

definition matchesQuery :: "string \<Rightarrow> string \<Rightarrow> bool" where
  "matchesQuery name query = list_all (\<lambda>w. sublist w (map ascii_lower name)) (words_of [] (map ascii_lower query))"

definition own_identity :: "net_env \<Rightarrow> string \<Rightarrow> string" where
  "own_identity env field = (case NIdentity env of None \<Rightarrow> [] | Some m \<Rightarrow> go_get [] m field)"

definition search_local :: "net_env \<Rightarrow> string \<Rightarrow> 'db server \<Rightarrow> search_result list" where
  "search_local env query sv =
     (case SvDb sv of
        None \<Rightarrow> []
      | Some d \<Rightarrow>
          (case ListPublicFiles d of
             Inl e \<Rightarrow> []
           | Inr files \<Rightarrow>
               map (\<lambda>f. \<lparr>SRKey = PFKey f, SRName = PFName f, SRSize = PFSize f, SRIsDir = PFIsDir f,
                         SROwnerAlias = own_identity env ''alias'', SROwnerFP = own_identity env ''fingerprint'',
                         SRNodeAddr = self_address env sv\<rparr>)
                 (filter (\<lambda>f. matchesQuery (PFName f) query) files)))"

section \<open>Handlers\<close>

definition handleSearchRequest ::
  "net_env \<Rightarrow> int \<Rightarrow> string \<Rightarrow> string \<Rightarrow> string \<Rightarrow> string \<Rightarrow> int \<Rightarrow> 'db server \<Rightarrow> 'db server" where
  "handleSearchRequest env now from query rid origin ttl sv =
     (let (seen, items) = SeenOrAdd now rid (SvSeen sv); sv = sv\<lparr>SvSeen := items\<rparr>
      in if seen then sv
         else
           (let results = search_local env query sv;
                sv = (if results \<noteq> [] then snd (sendToAddr env origin (MsgSearchResponse rid results (self_address env sv)) sv)
                      else sv)
            in if 1 < ttl then
                 snd (send_all env (MsgSearchRequest query rid origin (ttl - 1)) (filter (\<lambda>(addr, p). addr \<noteq> from) (SvPeers sv)) sv)
               else sv))"

text \<open>The searches that wait for answers, by the key of their channel.\<close>

definition search_key :: "string \<Rightarrow> string \<Rightarrow> string" where
  "search_key self rid = self @ ''#search#'' @ rid"

definition handleSearchResponse ::
  "net_env \<Rightarrow> string \<Rightarrow> search_result list \<Rightarrow> 'db server \<Rightarrow> (string, search_result list list) gomap
    \<Rightarrow> (string, search_result list list) gomap" where
  "handleSearchResponse env rid results sv pending =
     (let k = search_key (self_address env sv) rid
      in case map_of pending k of
           None \<Rightarrow> pending
         | Some ch \<Rightarrow> AList.update k (ch @ [results]) pending)"

text \<open>The start of \<open>SearchFiles\<close>: the results of this node, and the flood.\<close>

definition search_start :: "net_env \<Rightarrow> int \<Rightarrow> string \<Rightarrow> string \<Rightarrow> 'db server \<Rightarrow> search_result list \<times> 'db server" where
  "search_start env now rid query sv =
     (let origin = self_address env sv; own = search_local env query sv;
          sv = sv\<lparr>SvSeen := snd (SeenOrAdd now rid (SvSeen sv))\<rparr>
      in (own, snd (send_all env (MsgSearchRequest query rid origin 5) (SvPeers sv) sv)))"

fun collect_results :: "string list \<Rightarrow> search_result list \<Rightarrow> search_result list" where
  "collect_results seen [] = []"
| "collect_results seen (r # rs) =
     (if SRKey r \<in> set seen then collect_results seen rs else r # collect_results (SRKey r # seen) rs)"

text \<open>\<open>answers\<close> are the responses that arrive before the timeout.\<close>

definition SearchFiles ::
  "net_env \<Rightarrow> int \<Rightarrow> string \<Rightarrow> string \<Rightarrow> search_result list list \<Rightarrow> 'db server \<Rightarrow> search_result list \<times> 'db server" where
  "SearchFiles env now rid query answers sv =
     (let (own, sv) = search_start env now rid query sv
      in (own @ collect_results (map SRKey own) (concat answers), sv))"

section \<open>Requests are handled once\<close>

lemma seen_recent:
  assumes "map_of items rid = Some t" and "now \<le> t + 30000000000" and "go_wf items"
  shows "map_of (snd (SeenOrAdd now k items)) rid = Some t \<and> go_wf (snd (SeenOrAdd now k items))"
proof (cases "map_of items k")
  case None
  then have ne: "k \<noteq> rid" using assms(1) by auto
  let ?u = "AList.update k now items"
  have u: "go_wf ?u" "map_of ?u rid = Some t" using assms ne by simp_all
  have "go_wf (seen_gc now ?u)" using u(1) by (simp add: seen_gc_def distinct_map_filter)
  moreover have "map_of (seen_gc now ?u) rid = Some t"
  proof (cases "100 < length ?u")
    case True
    have "(rid, t) \<in> set (filter (\<lambda>(k, t). \<not> t < now - 30000000000) ?u)" using u(2) assms(2) by (simp add: map_of_SomeD)
    then show ?thesis using True u(1) by (simp add: seen_gc_def map_of_eq_Some_iff distinct_map_filter)
  qed (use ne assms(1) in \<open>simp add: seen_gc_def\<close>)
  ultimately show ?thesis using None by (simp add: SeenOrAdd_def)
qed (use assms in \<open>simp add: SeenOrAdd_def\<close>)

definition seen_run :: "(int \<times> string) list \<Rightarrow> (string, int) gomap \<Rightarrow> (string, int) gomap" where
  "seen_run calls items = fold (\<lambda>(now, k) i. snd (SeenOrAdd now k i)) calls items"

lemma seen_stays:
  assumes "map_of items rid = Some t" and "go_wf items" and "\<forall>(now, k) \<in> set calls. now \<le> t + 30000000000"
  shows "map_of (seen_run calls items) rid = Some t"
  using assms
proof (induction calls arbitrary: items)
  case (Cons c cs)
  then show ?case using seen_recent [of items rid t "fst c" "snd c"] by (auto simp: seen_run_def split: prod.splits)
qed (simp add: seen_run_def)

lemma seen_added:
  assumes "map_of items rid = None" and "go_wf items"
  shows "map_of (snd (SeenOrAdd t rid items)) rid = Some t \<and> go_wf (snd (SeenOrAdd t rid items))"
proof -
  let ?u = "AList.update rid t items"
  have w: "go_wf ?u" using assms(2) by simp
  have "(rid, t) \<in> set (filter (\<lambda>(k, t'). \<not> t' < t - 30000000000) ?u)" using map_of_SomeD [of ?u rid t] by simp
  then have "map_of (seen_gc t ?u) rid = Some t" using w by (simp add: seen_gc_def map_of_eq_Some_iff distinct_map_filter)
  moreover have "go_wf (seen_gc t ?u)" using w by (simp add: seen_gc_def distinct_map_filter)
  ultimately show ?thesis using assms(1) by (simp add: SeenOrAdd_def)
qed

section \<open>The flood\<close>

lemma send_all_out:
  "SvOut (snd (send_all env m ps sv)) = SvOut sv @ map (\<lambda>(a, p). ESent p m (NSends env p m)) ps"
  "SvPeers (snd (send_all env m ps sv)) = SvPeers sv" "SvSeen (snd (send_all env m ps sv)) = SvSeen sv"
proof (induction env m ps sv rule: send_all.induct)
  case (2 env msg addr p ps sv)
  { case 1 show ?case using 2 by (simp add: send_msg_def case_prod_beta) }
  { case 2 show ?case using "2.IH" by (simp add: send_msg_def case_prod_beta) }
  { case 3 show ?case using "2.IH" by (simp add: send_msg_def case_prod_beta) }
qed simp_all

lemma sendToAddr_out:
  "SvOut (snd (sendToAddr env addr m sv)) = SvOut sv @ (case peer_for sv addr of None \<Rightarrow> [] | Some p \<Rightarrow> [ESent p m (NSends env p m)])"
  "SvPeers (snd (sendToAddr env addr m sv)) = SvPeers sv" "SvSeen (snd (sendToAddr env addr m sv)) = SvSeen sv"
  by (simp_all add: sendToAddr_def send_msg_def split: option.split)

definition forwards :: "net_env \<Rightarrow> string \<Rightarrow> message \<Rightarrow> 'db server \<Rightarrow> net_event list" where
  "forwards env from m sv = map (\<lambda>(a, p). ESent p m (NSends env p m)) (filter (\<lambda>(a, p). a \<noteq> from) (SvPeers sv))"

text \<open>What handling a request does: nothing when it was seen, otherwise an answer to the origin if there are
  results, and the forwards.\<close>

lemma search_request_effects:
  fixes sv :: "'db server"
  assumes "sv' = handleSearchRequest env now from query rid origin ttl sv"
  shows "SvPeers sv' = SvPeers sv \<and> SvSeen sv' = snd (SeenOrAdd now rid (SvSeen sv)) \<and>
    SvOut sv' = SvOut sv @
      (if map_of (SvSeen sv) rid \<noteq> None then []
       else (let results = search_local env query sv
             in if results = [] then []
                else case peer_for sv origin of None \<Rightarrow> []
                  | Some p \<Rightarrow> (let m = MsgSearchResponse rid results (self_address env sv) in [ESent p m (NSends env p m)])) @
            (if 1 < ttl then forwards env from (MsgSearchRequest query rid origin (ttl - 1)) sv else []))"
proof -
  let ?s = "sv\<lparr>SvSeen := snd (SeenOrAdd now rid (SvSeen sv))\<rparr>"
  have self: "self_address env ?s = self_address env sv" "canonical_of ?s o' = canonical_of sv o'" for o'
    by (simp_all add: self_address_def canonical_of_def)
  have same: "search_local env query ?s = search_local env query sv" "peer_for ?s origin = peer_for sv origin"
    using self by (simp_all add: search_local_def peer_for_def split: option.split sum.split)
  show ?thesis
  proof (cases "map_of (SvSeen sv) rid")
    case (Some t)
    then show ?thesis by (simp add: assms handleSearchRequest_def SeenOrAdd_def)
  next
    case None
    then have "sv' = (let results = search_local env query ?s;
                s = (if results \<noteq> [] then snd (sendToAddr env origin (MsgSearchResponse rid results (self_address env ?s)) ?s) else ?s)
            in if 1 < ttl then snd (send_all env (MsgSearchRequest query rid origin (ttl - 1)) (filter (\<lambda>(addr, p). addr \<noteq> from) (SvPeers s)) s)
               else s)"
      by (simp add: assms handleSearchRequest_def SeenOrAdd_def Let_def)
    then show ?thesis
      using None by (simp add: same self Let_def send_all_out sendToAddr_out forwards_def split: option.split)
  qed
qed

text \<open>A request in flight: the receiver, the address the receiver has for the sender, and the message. \<open>route\<close>
  gives, for a connection of a node, the node at its other end and the address that node has for the first.\<close>

type_synonym flight = "string \<times> string \<times> string \<times> string \<times> string \<times> int"

fun request_of :: "(conn \<Rightarrow> string \<times> string) \<Rightarrow> net_event \<Rightarrow> flight option" where
  "request_of route (ESent p (MsgSearchRequest q rid o' ttl) True) = Some (fst (route p), snd (route p), q, rid, o', ttl)"
| "request_of route e = None"

definition emitted :: "(conn \<Rightarrow> string \<times> string) \<Rightarrow> 'db server \<Rightarrow> 'db server \<Rightarrow> flight multiset" where
  "emitted route sv sv' = mset (List.map_filter (request_of route) (drop (length (SvOut sv)) (SvOut sv')))"

inductive flood_step ::
  "(string \<Rightarrow> net_env) \<Rightarrow> (string \<Rightarrow> conn \<Rightarrow> string \<times> string) \<Rightarrow> (string \<Rightarrow> 'db server) \<times> flight multiset
    \<Rightarrow> (string \<Rightarrow> 'db server) \<times> flight multiset \<Rightarrow> bool" for envs route where
  deliver: "sv' = handleSearchRequest (envs n) now from q rid o' ttl (srv n) \<Longrightarrow>
    flood_step envs route (srv, add_mset (n, from, q, rid, o', ttl) F) (srv(n := sv'), F + emitted (route n) (srv n) sv')"
| lose: "flood_step envs route (srv, add_mset f F) (srv, F)"

text \<open>The messages a request can still cause in a network whose nodes have at most \<open>D\<close> peers, itself included.\<close>

definition flood_weight :: "nat \<Rightarrow> int \<Rightarrow> nat" where
  "flood_weight D ttl = (\<Sum>i < max 1 (nat ttl). D ^ i)"

fun ttl_of :: "flight \<Rightarrow> int" where
  "ttl_of (n, from, q, rid, o', ttl) = ttl"

definition total_weight :: "nat \<Rightarrow> flight multiset \<Rightarrow> nat" where
  "total_weight D F = (\<Sum>f \<in># F. flood_weight D (ttl_of f))"

lemma flood_weight_step: "1 < ttl \<Longrightarrow> flood_weight D ttl = 1 + D * flood_weight D (ttl - 1)"
proof -
  assume t: "1 < ttl"
  then obtain k where k: "nat ttl = Suc (Suc k)" by (metis Suc_nat_eq_nat_zadd1 add.commute diff_add_cancel int_one_le_iff_zero_less nat_eq_iff2 not_less
    less_le_trans zero_less_one less_imp_le nat_int Suc_pred' zero_less_diff One_nat_def nat_less_eq_zless nat_1)
  then have "max 1 (nat (ttl - 1)) = Suc k" "max 1 (nat ttl) = Suc (Suc k)" by (simp_all add: nat_diff_distrib')
  then show ?thesis unfolding flood_weight_def by (simp only: sum.lessThan_Suc_shift [of _ "Suc k"] sum_distrib_left) simp
qed

lemma flood_weight_pos: "1 \<le> flood_weight D ttl"
proof -
  have "flood_weight D ttl = 1 + (\<Sum>i < max 1 (nat ttl) - 1. D ^ Suc i)"
    unfolding flood_weight_def by (cases "max 1 (nat ttl)") (simp_all only: sum.lessThan_Suc_shift, simp_all)
  then show ?thesis by simp
qed

lemma map_filter_append: "List.map_filter f (xs @ ys) = List.map_filter f xs @ List.map_filter f ys"
  by (simp add: List.map_filter_def)

lemma emitted_weight:
  assumes "sv' = handleSearchRequest env now from q rid o' ttl sv" and "length (SvPeers sv) \<le> D"
  shows "1 + total_weight D (emitted route sv sv') \<le> flood_weight D ttl"
proof -
  let ?m = "MsgSearchRequest q rid o' (ttl - 1)"
  let ?fw = "List.map_filter (request_of route) (forwards env from ?m sv)"
  have none: "List.map_filter (request_of route) (case peer_for sv o' of None \<Rightarrow> []
      | Some p \<Rightarrow> (let m = MsgSearchResponse rid r a in [ESent p m (NSends env p m)])) = []" for r a
    by (simp add: map_filter_simps Let_def split: option.split)
  have em: "emitted route sv sv' = (if map_of (SvSeen sv) rid = None \<and> 1 < ttl then mset ?fw else {#})"
    using search_request_effects [OF assms(1)] none
    by (auto simp: emitted_def map_filter_append Let_def map_filter_simps split: if_splits)
  have "f \<in> set ?fw \<Longrightarrow> ttl_of f = ttl - 1" for f
    by (auto simp: forwards_def map_filter_def elim!: request_of.elims)
  moreover have "length ?fw \<le> D"
  proof -
    have "length ?fw \<le> length (forwards env from ?m sv)" by (simp add: map_filter_def)
    also have "\<dots> \<le> length (SvPeers sv)" by (simp add: forwards_def)
    finally show ?thesis using assms(2) by simp
  qed
  ultimately have "total_weight D (mset ?fw) \<le> D * flood_weight D (ttl - 1)"
  proof -
    assume t: "\<And>f. f \<in> set ?fw \<Longrightarrow> ttl_of f = ttl - 1" and l: "length ?fw \<le> D"
    have "total_weight D (mset ?fw) = sum_list (map (\<lambda>f. flood_weight D (ttl_of f)) ?fw)"
      unfolding total_weight_def mset_map [symmetric] sum_mset_sum_list ..
    also have "\<dots> = sum_list (map (\<lambda>f. flood_weight D (ttl - 1)) ?fw)" using t by (intro arg_cong [where f = sum_list] map_cong) simp_all
    also have "\<dots> = length ?fw * flood_weight D (ttl - 1)" by (simp add: sum_list_triv)
    finally show ?thesis using l by simp
  qed
  note fw = this
  show ?thesis
  proof (cases "map_of (SvSeen sv) rid = None \<and> 1 < ttl")
    case True
    then show ?thesis using fw flood_weight_step [of ttl D] em by simp
  next
    case False
    then have "emitted route sv sv' = {#}" by (subst em) (rule if_not_P)
    then show ?thesis using flood_weight_pos [of D ttl] by (simp add: total_weight_def)
  qed
qed

text \<open>A network never has a node with more than \<open>D\<close> peers; the handlers keep it so.\<close>

definition degree_ok :: "nat \<Rightarrow> (string \<Rightarrow> 'db server) \<Rightarrow> bool" where
  "degree_ok D srv \<longleftrightarrow> (\<forall>n. length (SvPeers (srv n)) \<le> D)"

lemma flood_step_weight:
  assumes "flood_step envs route c c'" and "degree_ok D (fst c)"
  shows "degree_ok D (fst c') \<and> total_weight D (snd c') < total_weight D (snd c)"
  using assms
proof (induction rule: flood_step.induct)
  case (deliver sv' n now "from" q rid o' ttl srv F)
  have "SvPeers sv' = SvPeers (srv n)" using search_request_effects [OF deliver(1)] by blast
  moreover have "1 + total_weight D (emitted (route n) (srv n) sv') \<le> flood_weight D ttl"
    using deliver(2) by (intro emitted_weight [OF deliver(1)]) (simp add: degree_ok_def)
  ultimately show ?case using deliver(2) by (simp add: degree_ok_def total_weight_def)
next
  case (lose srv f F)
  then show ?case using flood_weight_pos [of D "ttl_of f"] by (simp add: total_weight_def)
qed

text \<open>C28. The flood ends: whatever the topology and in whatever order requests are handled or lost, the number of
  steps a network can take is at most the weight of the requests in flight, which for a search with \<open>P\<close>
  first requests in a network of at most \<open>D\<close> peers per node is \<open>P\<close> times \<open>1 + D + D\<^sup>2 + D\<^sup>3 + D\<^sup>4\<close>,
  cycles and duplicates included.\<close>

theorem flood_ends:
  assumes "((flood_step envs route) ^^ k) (srv, F) (srv', F')" and "\<forall>n. length (SvPeers (srv n)) \<le> D"
  shows "k + total_weight D F' \<le> total_weight D F \<and>
    ((\<forall>f \<in># F. ttl_of f = 5) \<longrightarrow> k \<le> size F * (1 + D + D ^ 2 + D ^ 3 + D ^ 4))"
proof -
  have "k + total_weight D (snd c') \<le> total_weight D (snd c)"
    if "((flood_step envs route) ^^ k) c c'" "degree_ok D (fst c)" for k c c'
    using that
  proof (induction k arbitrary: c)
    case (Suc k)
    then obtain d where d: "flood_step envs route c d" "((flood_step envs route) ^^ k) d c'" by (metis relpowp_Suc_D2)
    then show ?case using flood_step_weight [OF d(1) Suc.prems(2)] Suc.IH [OF d(2)] by simp
  qed simp
  then have w: "k + total_weight D F' \<le> total_weight D F" using assms by (fastforce simp: degree_ok_def)
  have "flood_weight D 5 = 1 + D + D ^ 2 + D ^ 3 + D ^ 4" by (simp add: flood_weight_def eval_nat_numeral)
  moreover have "total_weight D F = size F * flood_weight D 5" if "\<forall>f \<in># F. ttl_of f = 5"
  proof -
    have "total_weight D F = (\<Sum>f \<in># F. flood_weight D 5)" unfolding total_weight_def using that by (intro arg_cong [where f = sum_mset] image_mset_cong) simp
    then show ?thesis by simp
  qed
  ultimately show ?thesis using w by auto
qed

text \<open>C29. A node answers a search once: within thirty seconds of the first arrival of a request no copy of it,
  from whichever neighbour and with whatever other requests in between, has any effect; and the answer to
  the first is exactly the public files whose names contain every word of the query, sent to the origin
  if it can be reached.\<close>

theorem request_answered_once:
  fixes sv :: "'db server"
  assumes "map_of (SvSeen sv) rid = None" and "go_wf (SvSeen sv)"
    and "sv' = handleSearchRequest env t from query rid origin ttl sv"
    and "\<forall>(now, k) \<in> set calls. now \<le> t + 30000000000"
    and "sv'' = sv'\<lparr>SvSeen := seen_run calls (SvSeen sv')\<rparr>"
  shows "handleSearchRequest env now from' query' rid origin' ttl' sv'' = sv'' \<and>
    (\<forall>p results. peer_for sv origin = Some p \<and> results = search_local env query sv \<and> results \<noteq> [] \<longrightarrow>
      (\<exists>b. ESent p (MsgSearchResponse rid results (self_address env sv)) b \<in> set (SvOut sv'))) \<and>
    (\<forall>d files. SvDb sv = Some d \<and> ListPublicFiles d = Inr files \<longrightarrow>
      map SRKey (search_local env query sv) =
        map PFKey (filter (\<lambda>f. \<forall>w \<in> set (words_of [] (map ascii_lower query)). sublist w (map ascii_lower (PFName f))) files))"
proof -
  note E = search_request_effects [OF assms(3)]
  have "map_of (SvSeen sv') rid = Some t \<and> go_wf (SvSeen sv')" using E seen_added [OF assms(1,2)] by simp
  then have "map_of (SvSeen sv'') rid = Some t" using seen_stays [of "SvSeen sv'" rid t calls] assms(4,5) by simp
  then have "handleSearchRequest env now from' query' rid origin' ttl' sv'' = sv''"
    by (simp add: handleSearchRequest_def SeenOrAdd_def)
  moreover have "\<exists>b. ESent p (MsgSearchResponse rid results (self_address env sv)) b \<in> set (SvOut sv')"
    if "peer_for sv origin = Some p \<and> results = search_local env query sv \<and> results \<noteq> []" for p results
    using E that assms(1) by (auto simp: Let_def)
  moreover have "map SRKey (search_local env query sv) =
        map PFKey (filter (\<lambda>f. \<forall>w \<in> set (words_of [] (map ascii_lower query)). sublist w (map ascii_lower (PFName f))) files)"
    if "SvDb sv = Some d \<and> ListPublicFiles d = Inr files" for d files
    using that by (simp add: search_local_def comp_def matchesQuery_def list_all_iff)
  ultimately show ?thesis by blast
qed

text \<open>The results of a search have each key once, those of the node itself first.\<close>

lemma collect_results_exact:
  "SRKey ` set (collect_results seen rs) = SRKey ` set rs - set seen \<and> distinct (map SRKey (collect_results seen rs)) \<and>
    set (collect_results seen rs) \<subseteq> set rs"
  by (induction seen rs rule: collect_results.induct) auto

theorem flood_ends_witness:
  "\<exists>srv' F'. ((flood_step (\<lambda>n. demo_net) (\<lambda>n p. (''b'', ''a''))) ^^ 1)
      (\<lambda>n. demo_server, {#(''a'', ''x'', ''report'', ''17'', ''x'', 5)#}) (srv', F') \<and> 1 + total_weight 1 F' \<le> 5"
proof -
  let ?s = "handleSearchRequest demo_net 3 ''x'' ''report'' ''17'' ''x'' 5 demo_server"
  have "flood_step (\<lambda>n. demo_net) (\<lambda>n p. (''b'', ''a'')) (\<lambda>n. demo_server, {#(''a'', ''x'', ''report'', ''17'', ''x'', 5)#})
      ((\<lambda>n. demo_server)(''a'' := ?s), {#} + emitted (\<lambda>p. (''b'', ''a'')) demo_server ?s)"
    by (rule deliver) simp
  then have "((flood_step (\<lambda>n. demo_net) (\<lambda>n p. (''b'', ''a''))) ^^ 1) (\<lambda>n. demo_server, {#(''a'', ''x'', ''report'', ''17'', ''x'', 5)#})
      ((\<lambda>n. demo_server)(''a'' := ?s), {#} + emitted (\<lambda>p. (''b'', ''a'')) demo_server ?s)" by (simp add: relcompp_apply)
  from this flood_ends [OF this, of 1] show ?thesis
    by (intro exI conjI) (assumption, simp add: total_weight_def flood_weight_def eval_nat_numeral)
qed

theorem request_answered_once_witness:
  "handleSearchRequest demo_net 20 ''z'' ''report'' ''17'' ''x'' 4
     (handleSearchRequest demo_net 3 ''y'' ''report'' ''17'' ''x'' 5 (demo_server\<lparr>SvSeen := []\<rparr>)) =
   handleSearchRequest demo_net 3 ''y'' ''report'' ''17'' ''x'' 5 (demo_server\<lparr>SvSeen := []\<rparr>)"
  using request_answered_once [of "demo_server\<lparr>SvSeen := []\<rparr>" "''17''" _ demo_net 3 "''y''" "''report''" "''x''" 5 "[]"
      "handleSearchRequest demo_net 3 ''y'' ''report'' ''17'' ''x'' 5 (demo_server\<lparr>SvSeen := []\<rparr>)" 20 "''z''" "''report''" "''x''" 4]
  by (simp add: seen_run_def)

end
