(* ===== verification/Sharing.thy ===== *)
theory Sharing
  imports Search ReadBack
begin

text \<open>
  Sharing in Server/server.go: direct shares with the outbox of undelivered notifications and the inbox of the
  receiver, the exchange of public catalogs, deletion with its broadcast and tombstones, and the grant of
  access to a stored file or directory, with the replication of its manifest.

  A handler is a function of the state it uses: the server of theory Network, the metadata store and the file
  system. The JSON codecs are parameters, as is \<open>getmeta\<close>, the answer of the network to a request for metadata.
\<close>

section \<open>Direct shares\<close>

definition share_message :: "net_env \<Rightarrow> string \<Rightarrow> string \<Rightarrow> int \<Rightarrow> bool \<Rightarrow> message" where
  "share_message env key name sz isDir =
     MsgDirectShare key name sz isDir (own_identity env ''alias'') (own_identity env ''fingerprint'')"

definition SendDirectShare ::
  "net_env \<Rightarrow> string \<Rightarrow> string \<Rightarrow> string \<Rightarrow> int \<Rightarrow> bool \<Rightarrow> 'db server \<Rightarrow> net_error option \<times> 'db server" where
  "SendDirectShare env peerAddr key name sz isDir sv = sendToAddr env peerAddr (share_message env key name sz isDir) sv"

text \<open>A call of the state database whose error is returned.\<close>

definition db_call :: "('db state_db \<Rightarrow> state_error + 'db state_db) \<Rightarrow> 'db server \<Rightarrow> net_error option \<times> 'db server" where
  "db_call f sv =
     (case SvDb sv of
        None \<Rightarrow> (Some NoStateDB, sv)
      | Some d \<Rightarrow> (case f d of Inl e \<Rightarrow> (Some (DbFailed e), sv) | Inr d' \<Rightarrow> (None, sv\<lparr>SvDb := Some d'\<rparr>)))"

definition fmt_int :: "int \<Rightarrow> string" where
  "fmt_int n = (if n < 0 then ''-'' else []) @ itoa (nat \<bar>n\<bar>)"

text \<open>\<open>now\<close> and \<open>now'\<close> are the two readings of the clock, for the identifier and for the entry.\<close>

definition outbox_entry_for ::
  "int \<Rightarrow> string \<Rightarrow> string \<Rightarrow> string \<Rightarrow> string \<Rightarrow> int \<Rightarrow> bool \<Rightarrow> outbox_entry" where
  "outbox_entry_for now recipientFP hint key name sz isDir =
     \<lparr>OBID = recipientFP @ ''/'' @ key @ ''/'' @ fmt_int now, OBRecipientFP = recipientFP, OBRecipientHint = hint,
      OBFileKey = key, OBFileName = name, OBFileSize = sz, OBIsDir = isDir, OBCreatedAt = 0\<rparr>"

definition QueueOutbox ::
  "int \<Rightarrow> int \<Rightarrow> string \<Rightarrow> string \<Rightarrow> string \<Rightarrow> string \<Rightarrow> int \<Rightarrow> bool \<Rightarrow> 'db server \<Rightarrow> net_error option \<times> 'db server" where
  "QueueOutbox now now' recipientFP hint key name sz isDir sv =
     db_call (AddOutboxEntry now' (outbox_entry_for now recipientFP hint key name sz isDir)) sv"

datatype share_error = ShareNotSent net_error | ShareNotQueued net_error net_error

definition SendOrQueueDirectShare ::
  "net_env \<Rightarrow> int \<Rightarrow> int \<Rightarrow> string \<Rightarrow> string \<Rightarrow> string \<Rightarrow> string \<Rightarrow> int \<Rightarrow> bool \<Rightarrow> 'db server
    \<Rightarrow> (share_error + bool) \<times> 'db server" where
  "SendOrQueueDirectShare env now now' peerAddr recipientFP key name sz isDir sv =
     (case SendDirectShare env peerAddr key name sz isDir sv of
        (None, sv) \<Rightarrow> (Inr False, sv)
      | (Some e, sv) \<Rightarrow>
          if SvDb sv = None then (Inl (ShareNotSent e), sv)
          else if recipientFP = [] then (Inl (ShareNotSent e), sv)
          else (case QueueOutbox now now' recipientFP peerAddr key name sz isDir sv of
              (Some qe, sv) \<Rightarrow> (Inl (ShareNotQueued e qe), sv)
            | (None, sv) \<Rightarrow> (Inr True, sv)))"

definition peer_fingerprint :: "'db server \<Rightarrow> string \<Rightarrow> string" where
  "peer_fingerprint sv addr =
     (case SvTable sv of
        None \<Rightarrow> []
      | Some cs \<Rightarrow>
          (case cs_GetNode addr cs of
             None \<Rightarrow> []
           | Some node \<Rightarrow> (case node_info.Metadata node of None \<Rightarrow> [] | Some m \<Rightarrow> go_get [] m ''fingerprint'')))"

fun flush_entries :: "net_env \<Rightarrow> string \<Rightarrow> outbox_entry list \<Rightarrow> 'db server \<Rightarrow> 'db server" where
  "flush_entries env peerAddr [] sv = sv"
| "flush_entries env peerAddr (e # es) sv =
     (case SendDirectShare env peerAddr (OBFileKey e) (OBFileName e) (OBFileSize e) (OBIsDir e) sv of
        (Some err, sv) \<Rightarrow> sv
      | (None, sv) \<Rightarrow> flush_entries env peerAddr es (on_db (RemoveOutboxEntry (OBID e)) sv))"

definition FlushOutbox :: "net_env \<Rightarrow> string \<Rightarrow> 'db server \<Rightarrow> 'db server" where
  "FlushOutbox env peerAddr sv =
     (case SvDb sv of
        None \<Rightarrow> sv
      | Some d \<Rightarrow>
          (let fp = peer_fingerprint sv peerAddr
           in if fp = [] then sv
              else (case ListOutboxForPeer fp d of Inl e \<Rightarrow> sv | Inr entries \<Rightarrow> flush_entries env peerAddr entries sv)))"

fun share_entry :: "message \<Rightarrow> inbox_entry option" where
  "share_entry (MsgDirectShare key name sz isDir senderAlias senderFP) =
     Some \<lparr>IBKey = key, IBName = name, IBSize = sz, IBIsDir = isDir, IBSenderAlias = senderAlias,
           IBSenderFP = senderFP, IBReceivedAt = 0\<rparr>"
| "share_entry _ = None"

definition handleDirectShare :: "int \<Rightarrow> inbox_entry \<Rightarrow> 'db server \<Rightarrow> net_error option \<times> 'db server" where
  "handleDirectShare now entry sv = (if SvDb sv = None then (None, sv) else db_call (AddInboxEntry now entry) sv)"

definition GetInbox :: "'db server \<Rightarrow> state_error + inbox_entry list" where
  "GetInbox sv = (case SvDb sv of None \<Rightarrow> Inr [] | Some d \<Rightarrow> ListInbox d)"

section \<open>Public catalogs\<close>

definition catalog_json :: "public_file_entry list json \<Rightarrow> 'db server \<Rightarrow> byte list" where
  "catalog_json J sv =
     (case SvDb sv of
        None \<Rightarrow> bytes_of ''[]''
      | Some d \<Rightarrow> (case ListPublicFiles d of Inl e \<Rightarrow> bytes_of ''[]'' | Inr files \<Rightarrow> bytes_of (jMarshal J files)))"

definition handleGetPublicCatalog ::
  "net_env \<Rightarrow> public_file_entry list json \<Rightarrow> string \<Rightarrow> 'db server \<Rightarrow> net_error option \<times> 'db server" where
  "handleGetPublicCatalog env J from sv = sendToAddr env from (MsgPublicCatalogResponse (catalog_json J sv)) sv"

datatype catalog_error = CatalogNotSent net_error | CatalogInvalid | CatalogTimeout

text \<open>\<open>answer\<close> is what arrives on the channel before the timeout.\<close>

definition GetPublicCatalog ::
  "net_env \<Rightarrow> public_file_entry list json \<Rightarrow> string \<Rightarrow> byte list option \<Rightarrow> 'db server
    \<Rightarrow> (catalog_error + public_file_entry list) \<times> 'db server" where
  "GetPublicCatalog env J peerAddr answer sv =
     (case sendToAddr env peerAddr MsgGetPublicCatalog sv of
        (Some e, sv) \<Rightarrow> (Inl (CatalogNotSent e), sv)
      | (None, sv) \<Rightarrow>
          ((case answer of
              None \<Rightarrow> Inl CatalogTimeout
            | Some data \<Rightarrow> (case jUnmarshal J (string_of data) of None \<Rightarrow> Inl CatalogInvalid | Some es \<Rightarrow> Inr es)), sv))"

definition UpdatePublicCatalogMetadata :: "net_env \<Rightarrow> 'db server \<Rightarrow> 'db server" where
  "UpdatePublicCatalogMetadata env sv =
     (case SvDb sv of
        None \<Rightarrow> sv
      | Some d \<Rightarrow>
          if SvGossipSelf sv = None then sv
          else (case PublicCatalogSummary (NSha env) d of (cnt, sz, hash) \<Rightarrow>
              on_table (cs_SetMetadata (self_address env sv)
                [(''public_catalog_hash'', hash), (''public_shared_count'', itoa cnt),
                 (''public_shared_size'', fmt_int sz)]) sv))"

section \<open>Deletion\<close>

text \<open>The removal of what the store holds for a key, the steps both sides of a deletion share.\<close>

definition remove_chunks :: "'m chunk_store \<Rightarrow> chunk_info list \<Rightarrow> 'm \<Rightarrow> os \<Rightarrow> os" where
  "remove_chunks st infos m s = fold (\<lambda>ci s. snd (Remove st (ChunkStorageKey (IEncHash ci)) m s)) infos s"

definition remove_stored :: "chunk_manifest json \<Rightarrow> 'm chunk_store \<Rightarrow> string \<Rightarrow> 'm \<Rightarrow> os \<Rightarrow> os" where
  "remove_stored J st key m s =
     (let manifestKey = ManifestStorageKey key;
          s = (case ReadStream st manifestKey m s of
                 Inl e \<Rightarrow> s
               | Inr data \<Rightarrow>
                   (let s = (case jUnmarshal J (string_of data) of None \<Rightarrow> s | Some man \<Rightarrow> remove_chunks st (MChunks man) m s)
                    in snd (Remove st manifestKey m s)))
      in snd (Remove st (''dirmanifest:'' @ key) m s))"

definition record_deletion :: "int \<Rightarrow> string \<Rightarrow> string \<Rightarrow> 'db server \<Rightarrow> 'db server" where
  "record_deletion now key fp sv =
     on_db (AddTombstone now \<lparr>TSKey = key, TSDeletedAt = now, TSFingerprint = fp\<rparr>)
       (on_db (RemovePublicFile key) (on_db (RemoveUpload key) sv))"

datatype delete_error = NoIdentity | NotAuthorized

definition DeleteFile ::
  "net_env \<Rightarrow> chunk_manifest json \<Rightarrow> 'm chunk_store \<Rightarrow> int \<Rightarrow> string \<Rightarrow> 'm \<Rightarrow> 'db server \<times> os
    \<Rightarrow> (delete_error + nat) \<times> 'db server \<times> os" where
  "DeleteFile env J st now key m = (\<lambda>(sv, s).
     let ownFP = own_identity env ''fingerprint''
     in if ownFP = [] then (Inl NoIdentity, sv, s)
        else if \<not> prefix (ownFP @ ''/'') key then (Inl NotAuthorized, sv, s)
        else (let s = remove_stored J st key m s;
                  sv = record_deletion now key ownFP sv;
                  sv = UpdatePublicCatalogMetadata env sv;
                  (failed, sv) = send_all env (MsgDeleteFile key ownFP) (SvPeers sv) sv
              in (Inr (length (SvPeers sv) - length failed), sv, s)))"

definition handleDeleteFile ::
  "chunk_manifest json \<Rightarrow> 'm chunk_store \<Rightarrow> int \<Rightarrow> string \<Rightarrow> string \<Rightarrow> 'm \<Rightarrow> 'db server \<times> os \<Rightarrow> 'db server \<times> os" where
  "handleDeleteFile J st now key fp m = (\<lambda>(sv, s).
     if \<not> prefix (fp @ ''/'') key then (sv, s)
     else if db_asks (IsTombstoned key) sv then (sv, s)
     else (record_deletion now key fp sv, remove_stored J st key m s))"

section \<open>Manifests of other nodes\<close>

text \<open>The sends of \<open>replicateManifest\<close> run in goroutines of their own; here they come in the order of the
  targets. Looking up the ring panics (None) only when the replication factor is negative.\<close>

fun send_manifest :: "net_env \<Rightarrow> string \<Rightarrow> message \<Rightarrow> string list \<Rightarrow> 'db server \<Rightarrow> 'db server" where
  "send_manifest env me msg [] sv = sv"
| "send_manifest env me msg (addr # as) sv =
     (if addr = me then send_manifest env me msg as sv
      else case map_of (SvPeers sv) addr of
          None \<Rightarrow> send_manifest env me msg as sv
        | Some p \<Rightarrow> send_manifest env me msg as (snd (send_msg env p msg sv)))"

definition replicateManifest ::
  "net_env \<Rightarrow> chunk_manifest json \<Rightarrow> string \<Rightarrow> string \<Rightarrow> chunk_manifest \<Rightarrow> 'db server \<Rightarrow> 'db server option" where
  "replicateManifest env J key me man sv =
     (case ring_GetNodes (NSha env) (SvRing sv) key (ring_ReplicationFactor (SvRing sv)) of
        None \<Rightarrow> None
      | Some targets \<Rightarrow> Some (send_manifest env me (MsgStoreManifest key (bytes_of (jMarshal J man))) targets sv))"

definition GetDirectoryManifest ::
  "'m meta_ops \<Rightarrow> directory_manifest json \<Rightarrow> (string \<Rightarrow> (byte list \<times> bool) option) \<Rightarrow> string \<Rightarrow> 'm
    \<Rightarrow> directory_manifest option \<times> 'm" where
  "GetDirectoryManifest ops JD getmeta key m =
     (case MGetDirManifest ops m key of
        Some data \<Rightarrow> (jUnmarshal JD (string_of data), m)
      | None \<Rightarrow>
          (case getmeta key of
             None \<Rightarrow> (None, m)
           | Some (data, isDir) \<Rightarrow>
               if isDir then (jUnmarshal JD (string_of data), snd (MSetDirManifest ops m key data)) else (None, m)))"

definition IsDirectoryManifest :: "'m meta_ops \<Rightarrow> string \<Rightarrow> 'm \<Rightarrow> bool" where
  "IsDirectoryManifest ops key m \<longleftrightarrow> MGetDirManifest ops m key \<noteq> None"

section \<open>Access\<close>

datatype access_error = NoDirManifest string | NoManifest string | SaveDirManifest string | SaveManifest string | RingPanic

definition has_access :: "string \<Rightarrow> access_entry list \<Rightarrow> bool" where
  "has_access pub entries \<longleftrightarrow> (\<exists>e \<in> set entries. RecipientPubKey e = pub)"

definition grant_file :: "access_entry \<Rightarrow> string \<Rightarrow> chunk_manifest \<Rightarrow> chunk_manifest" where
  "grant_file entry sig man = man\<lparr>MAccessList := MAccessList man @ [entry], MSignature := sig\<rparr>"

definition grant_dir :: "access_entry \<Rightarrow> string \<Rightarrow> directory_manifest \<Rightarrow> directory_manifest" where
  "grant_dir entry sig dm = dm\<lparr>DAccessList := DAccessList dm @ [entry], DSignature := sig\<rparr>"

text \<open>The files of a directory; a failure to save one is logged and skipped.\<close>

fun grant_files ::
  "net_env \<Rightarrow> chunk_manifest json \<Rightarrow> 'm meta_ops \<Rightarrow> (string \<Rightarrow> string + chunk_manifest) \<Rightarrow> string \<Rightarrow> access_entry \<Rightarrow> string
    \<Rightarrow> file_entry list \<Rightarrow> 'm \<Rightarrow> 'db server \<Rightarrow> ('m \<times> 'db server) option" where
  "grant_files env J ops getman me entry sig [] m sv = Some (m, sv)"
| "grant_files env J ops getman me entry sig (f # fs) m sv =
     (let (found, m) = InspectManifest ops getman (FManifestKey f) m
      in case found of
           None \<Rightarrow> grant_files env J ops getman me entry sig fs m sv
         | Some man \<Rightarrow>
             if \<not> MEncrypted man then grant_files env J ops getman me entry sig fs m sv
             else (case MSetManifest ops m (FManifestKey f) (grant_file entry sig man) of
                 (Some e, m) \<Rightarrow> grant_files env J ops getman me entry sig fs m sv
               | (None, m) \<Rightarrow>
                   (case replicateManifest env J (FManifestKey f) me (grant_file entry sig man) sv of
                      None \<Rightarrow> None
                    | Some sv \<Rightarrow> grant_files env J ops getman me entry sig fs m sv)))"

text \<open>The result carries \<open>encrypted\<close> with the error, as in the source.\<close>

definition AddAccessEntry ::
  "net_env \<Rightarrow> chunk_manifest json \<Rightarrow> directory_manifest json \<Rightarrow> 'm meta_ops \<Rightarrow> (string \<Rightarrow> string + chunk_manifest)
    \<Rightarrow> (string \<Rightarrow> (byte list \<times> bool) option) \<Rightarrow> string \<Rightarrow> bool \<Rightarrow> access_entry \<Rightarrow> string \<Rightarrow> 'm \<times> 'db server
    \<Rightarrow> (bool \<times> access_error option) \<times> 'm \<times> 'db server" where
  "AddAccessEntry env J JD ops getman getmeta fileKey isDir entry sig = (\<lambda>(m, sv).
     let me = normalizeAddr (NP6 env) (NAddr env)
     in if isDir then
          (case GetDirectoryManifest ops JD getmeta fileKey m of
             (None, m) \<Rightarrow> ((False, Some (NoDirManifest fileKey)), m, sv)
           | (Some dm, m) \<Rightarrow>
               if \<not> DEncrypted dm then ((False, None), m, sv)
               else if has_access (RecipientPubKey entry) (DAccessList dm) then ((True, None), m, sv)
               else (case MSetDirManifest ops m fileKey (bytes_of (jMarshal JD (grant_dir entry sig dm))) of
                   (Some e, m) \<Rightarrow> ((True, Some (SaveDirManifest e)), m, sv)
                 | (None, m) \<Rightarrow>
                     (case grant_files env J ops getman me entry sig (DFiles dm) m sv of
                        None \<Rightarrow> ((True, Some RingPanic), m, sv)
                      | Some (m, sv) \<Rightarrow> ((True, None), m, sv))))
        else
          (case InspectManifest ops getman fileKey m of
             (None, m) \<Rightarrow> ((False, Some (NoManifest fileKey)), m, sv)
           | (Some man, m) \<Rightarrow>
               if \<not> MEncrypted man then ((False, None), m, sv)
               else if has_access (RecipientPubKey entry) (MAccessList man) then ((True, None), m, sv)
               else (case MSetManifest ops m fileKey (grant_file entry sig man) of
                   (Some e, m) \<Rightarrow> ((True, Some (SaveManifest e)), m, sv)
                 | (None, m) \<Rightarrow>
                     (case replicateManifest env J fileKey me (grant_file entry sig man) sv of
                        None \<Rightarrow> ((True, Some RingPanic), m, sv)
                      | Some sv \<Rightarrow> ((True, None), m, sv)))))"

end
