(* ===== verification/ShareLaws.thy ===== *)
theory ShareLaws
  imports Sharing
begin

text \<open>
  What sharing promises: which notifications a flush of the outbox delivers and removes, that a queued share
  reaches the inbox of its recipient, what a deletion leaves on both sides, and what a grant of access changes.
\<close>

section \<open>The outbox\<close>

definition share_of :: "net_env \<Rightarrow> outbox_entry \<Rightarrow> message" where
  "share_of env e = share_message env (OBFileKey e) (OBFileName e) (OBFileSize e) (OBIsDir e)"

text \<open>The entries before the first one that cannot be sent.\<close>

definition flushed :: "net_env \<Rightarrow> conn \<Rightarrow> outbox_entry list \<Rightarrow> outbox_entry list" where
  "flushed env p es = takeWhile (\<lambda>e. NSends env p (share_of env e)) es"

definition flush_events :: "net_env \<Rightarrow> conn \<Rightarrow> outbox_entry list \<Rightarrow> net_event list" where
  "flush_events env p es =
     map (\<lambda>e. ESent p (share_of env e) True) (flushed env p es) @
     map (\<lambda>e. ESent p (share_of env e) False) (take 1 (dropWhile (\<lambda>e. NSends env p (share_of env e)) es))"

lemma flush_all:
  assumes "\<forall>m. NSends env p m"
  shows "flushed env p es = es" "flush_events env p es = map (\<lambda>e. ESent p (share_of env e) True) es"
  using assms by (induction es) (simp_all add: flushed_def flush_events_def)

definition outbox_of :: "string \<Rightarrow> 'db state_db \<Rightarrow> outbox_entry list" where
  "outbox_of fp d = filter (\<lambda>e. OBRecipientFP e = fp) (map (\<lambda>(k, v). the (as_outbox v)) (db_each d Outbox))"

lemma peer_for_cong:
  "SvPeers sv' = SvPeers sv \<Longrightarrow> SvAnnounced sv' = SvAnnounced sv \<Longrightarrow> peer_for sv' addr = peer_for sv addr"
  by (simp add: peer_for_def canonical_of_def cong: option.case_cong)

lemma flush_entries_exact:
  fixes sv :: "'db server"
  assumes "SvDb sv = Some d" and "well_typed d" and "bolt_writable (Ops d)" and "peer_for sv addr = Some p"
  shows "\<exists>d'. flush_entries env addr es sv = sv\<lparr>SvDb := Some d', SvOut := SvOut sv @ flush_events env p es\<rparr> \<and>
    well_typed d' \<and> Ops d' = Ops d \<and>
    (\<forall>b k. db_get d' b k = (if b = Outbox \<and> k \<in> OBID ` set (flushed env p es) then None else db_get d b k))"
  using assms
proof (induction es arbitrary: sv d)
  case Nil
  have "flush_entries env addr [] sv = sv\<lparr>SvDb := Some d, SvOut := SvOut sv @ flush_events env p []\<rparr>"
    using Nil.prems(1) by (cases sv) (simp add: flush_events_def flushed_def)
  then show ?case using Nil.prems by (intro exI [of _ d] conjI) (simp_all add: flushed_def)
next
  case (Cons e es)
  let ?m = "share_of env e"
  show ?case
  proof (cases "NSends env p ?m")
    case False
    then have "flush_entries env addr (e # es) sv = log_event (ESent p ?m False) sv"
      using Cons.prems by (simp add: SendDirectShare_def sendToAddr_def send_msg_def share_of_def)
    then show ?thesis using False Cons.prems
      by (intro exI [of _ d]) (simp add: flush_events_def flushed_def log_event_def)
  next
    case True
    obtain d1 where d1: "RemoveOutboxEntry (OBID e) d = Inr d1"
      using db_delete_writable [OF Cons.prems(3)] unfolding RemoveOutboxEntry_def by blast
    let ?s1 = "on_db (RemoveOutboxEntry (OBID e)) (log_event (ESent p ?m True) sv)"
    have s1: "?s1 = sv\<lparr>SvDb := Some d1, SvOut := SvOut sv @ [ESent p ?m True]\<rparr>"
      using d1 Cons.prems(1) by (simp add: on_db_def log_event_def keep_old_def)
    have ok: "db_ok d" using Cons.prems(2) by (simp add: well_typed_def)
    have g1: "db_get d1 b k = (if b = Outbox \<and> k = OBID e then None else db_get d b k)" for b k
      using db_delete_get [of Outbox "OBID e" d d1, OF _ ok] d1 by (simp add: RemoveOutboxEntry_def)
    have w1: "well_typed d1" using well_typed_delete [OF Cons.prems(2)] d1 by (simp add: RemoveOutboxEntry_def)
    have o1: "Ops d1 = Ops d" using db_delete_ops d1 by (auto simp: RemoveOutboxEntry_def)
    have "\<exists>d'. flush_entries env addr es ?s1 = ?s1\<lparr>SvDb := Some d', SvOut := SvOut ?s1 @ flush_events env p es\<rparr> \<and>
        well_typed d' \<and> Ops d' = Ops d1 \<and>
        (\<forall>b k. db_get d' b k = (if b = Outbox \<and> k \<in> OBID ` set (flushed env p es) then None else db_get d1 b k))"
      using Cons.prems(3,4) w1 o1 peer_for_cong [of ?s1 sv addr] by (intro Cons.IH) (simp_all add: s1)
    then obtain d' where IH: "flush_entries env addr es ?s1 = ?s1\<lparr>SvDb := Some d', SvOut := SvOut ?s1 @ flush_events env p es\<rparr>"
        "well_typed d'" "Ops d' = Ops d1"
        "\<forall>b k. db_get d' b k = (if b = Outbox \<and> k \<in> OBID ` set (flushed env p es) then None else db_get d1 b k)"
      by blast
    have "flush_entries env addr (e # es) sv = flush_entries env addr es ?s1"
      using True Cons.prems by (simp add: SendDirectShare_def sendToAddr_def send_msg_def share_of_def)
    then have "flush_entries env addr (e # es) sv = sv\<lparr>SvDb := Some d', SvOut := SvOut sv @ flush_events env p (e # es)\<rparr>"
      using IH(1) True by (simp add: s1 flush_events_def flushed_def)
    moreover have "db_get d' b k = (if b = Outbox \<and> k \<in> OBID ` set (flushed env p (e # es)) then None else db_get d b k)" for b k
      using IH(4) g1 True by (auto simp: flushed_def)
    ultimately show ?thesis using IH(2,3) o1 by auto
  qed
qed

lemma ListOutboxForPeer_typed: "well_typed d \<Longrightarrow> ListOutboxForPeer fp d = Inr (outbox_of fp d)"
proof -
  assume w: "well_typed d"
  have "list_all_of as_outbox Outbox d = Inr (map (\<lambda>(k, v). the (as_outbox v)) (db_each d Outbox))"
    by (rule list_all_of_typed [OF w]) auto
  then show ?thesis by (simp add: ListOutboxForPeer_def filter_result_def outbox_of_def)
qed

lemma outbox_of_iff:
  assumes "well_typed d"
  shows "e \<in> set (outbox_of fp d) \<longleftrightarrow> db_get d Outbox (OBID e) = Some (DOutbox e) \<and> OBRecipientFP e = fp"
proof -
  have ok: "db_ok d" using assms by (simp add: well_typed_def)
  have typed: "\<exists>e'. v = DOutbox e' \<and> k = OBID e'" if "db_get d Outbox k = Some v" for k v
    using that assms unfolding well_typed_def by (metis doc_ok.simps(10))
  show ?thesis
  proof
    assume "e \<in> set (outbox_of fp d)"
    then obtain k v where "(k, v) \<in> set (db_each d Outbox)" "e = the (as_outbox v)" "OBRecipientFP e = fp"
      by (auto simp: outbox_of_def)
    then show "db_get d Outbox (OBID e) = Some (DOutbox e) \<and> OBRecipientFP e = fp"
      using typed [of k v] db_each_iff [OF ok] by auto
  next
    assume "db_get d Outbox (OBID e) = Some (DOutbox e) \<and> OBRecipientFP e = fp"
    then show "e \<in> set (outbox_of fp d)"
      using db_each_iff [OF ok, of "OBID e" "DOutbox e" Outbox] by (force simp: outbox_of_def)
  qed
qed

text \<open>A flush of the outbox delivers, in the order of their identifiers, the notifications queued for the
  fingerprint of the peer up to the first that cannot be sent; exactly the delivered ones leave the outbox,
  the others stay for the next connection, and nothing else of the server changes.\<close>

lemma outbox_flush_exact:
  fixes sv :: "'db server"
  assumes "SvDb sv = Some d" and "well_typed d" and "bolt_writable (Ops d)"
    and "peer_for sv addr = Some p" and "peer_fingerprint sv addr = fp" and "fp \<noteq> []"
  shows "\<exists>d'. FlushOutbox env addr sv = sv\<lparr>SvDb := Some d', SvOut := SvOut sv @ flush_events env p (outbox_of fp d)\<rparr> \<and>
    well_typed d' \<and>
    (\<forall>b k. db_get d' b k = (if b = Outbox \<and> k \<in> OBID ` set (flushed env p (outbox_of fp d)) then None else db_get d b k)) \<and>
    set (outbox_of fp d') = set (outbox_of fp d) - set (flushed env p (outbox_of fp d))"
proof -
  have "FlushOutbox env addr sv = flush_entries env addr (outbox_of fp d) sv"
    using assms by (simp add: FlushOutbox_def ListOutboxForPeer_typed)
  with flush_entries_exact [OF assms(1-4), of env "outbox_of fp d"]
  obtain d' where d': "FlushOutbox env addr sv = sv\<lparr>SvDb := Some d', SvOut := SvOut sv @ flush_events env p (outbox_of fp d)\<rparr>"
      "well_typed d'"
      "\<forall>b k. db_get d' b k = (if b = Outbox \<and> k \<in> OBID ` set (flushed env p (outbox_of fp d)) then None else db_get d b k)"
    by auto
  have sub: "set (flushed env p (outbox_of fp d)) \<subseteq> set (outbox_of fp d)" unfolding flushed_def using set_takeWhileD by fast
  have "e \<in> set (outbox_of fp d') \<longleftrightarrow> e \<in> set (outbox_of fp d) \<and> e \<notin> set (flushed env p (outbox_of fp d))" for e
  proof -
    have "OBID e \<in> OBID ` set (flushed env p (outbox_of fp d)) \<longleftrightarrow> e \<in> set (flushed env p (outbox_of fp d))"
      if "db_get d Outbox (OBID e) = Some (DOutbox e)"
      using that sub outbox_of_iff [OF assms(2)] by force
    then show ?thesis using d'(3) outbox_of_iff [OF assms(2)] outbox_of_iff [OF d'(2)] by auto
  qed
  then have "set (outbox_of fp d') = set (outbox_of fp d) - set (flushed env p (outbox_of fp d))" by blast
  then show ?thesis using d' by blast
qed

section \<open>From the outbox to the inbox\<close>

text \<open>The receiver handles what was sent, in order.\<close>

definition receive_shares :: "int \<Rightarrow> net_event list \<Rightarrow> 'db server \<Rightarrow> 'db server" where
  "receive_shares now evs rv =
     fold (\<lambda>ev rv. case ev of
         ESent p m True \<Rightarrow> (case share_entry m of None \<Rightarrow> rv | Some e \<Rightarrow> snd (handleDirectShare now e rv))
       | _ \<Rightarrow> rv) evs rv"

definition inbox_of_share :: "net_env \<Rightarrow> int \<Rightarrow> outbox_entry \<Rightarrow> inbox_entry" where
  "inbox_of_share env now e =
     \<lparr>IBKey = OBFileKey e, IBName = OBFileName e, IBSize = OBFileSize e, IBIsDir = OBIsDir e,
      IBSenderAlias = own_identity env ''alias'', IBSenderFP = own_identity env ''fingerprint'', IBReceivedAt = now\<rparr>"

lemma receive_shares_exact:
  fixes rv :: "'db server"
  assumes "SvDb rv = Some d" and "well_typed d" and "bolt_writable (Ops d)"
  shows "\<exists>d'. receive_shares now (map (\<lambda>e. ESent p (share_of env e) True) es) rv = rv\<lparr>SvDb := Some d'\<rparr> \<and>
    well_typed d' \<and> Ops d' = Ops d \<and>
    (\<forall>k. db_get d' Inbox k =
      (case find (\<lambda>e. OBFileKey e = k) (rev es) of
         None \<Rightarrow> db_get d Inbox k
       | Some e \<Rightarrow> Some (DInbox (inbox_of_share env now e))))"
proof (induction es rule: rev_induct)
  case Nil
  have "rv = rv\<lparr>SvDb := Some d\<rparr>" using assms(1) by (cases rv) simp
  then show ?case using assms by (intro exI [of _ d]) (simp add: receive_shares_def)
next
  case (snoc e es)
  then obtain d' where IH: "receive_shares now (map (\<lambda>e. ESent p (share_of env e) True) es) rv = rv\<lparr>SvDb := Some d'\<rparr>"
      "well_typed d'" "Ops d' = Ops d"
      "\<forall>k. db_get d' Inbox k =
        (case find (\<lambda>e. OBFileKey e = k) (rev es) of None \<Rightarrow> db_get d Inbox k | Some e \<Rightarrow> Some (DInbox (inbox_of_share env now e)))"
    by blast
  obtain d2 where d2: "db_put Inbox (OBFileKey e) (DInbox (inbox_of_share env now e)) d' = Inr d2"
    using db_put_writable [of d'] IH(3) assms(3) by metis
  have "AddInboxEntry now (the (share_entry (share_of env e))) d' = Inr d2"
    using d2 by (simp add: AddInboxEntry_def share_of_def share_message_def inbox_of_share_def stamp_def)
  then have "receive_shares now (map (\<lambda>e. ESent p (share_of env e) True) (es @ [e])) rv = rv\<lparr>SvDb := Some d2\<rparr>"
    using IH(1) by (simp add: receive_shares_def handleDirectShare_def db_call_def share_of_def share_message_def)
  moreover have "well_typed d2" using well_typed_put [OF IH(2) _ d2] by (simp add: inbox_of_share_def)
  moreover have "Ops d2 = Ops d" using db_put_ops [OF d2] IH(3) by simp
  moreover have "db_ok d'" using IH(2) by (simp add: well_typed_def)
  ultimately show ?case
    using IH(4) by (intro exI [of _ d2]) (auto simp: db_put_get [OF d2])
qed

lemma inbox_of_iff:
  assumes "well_typed d"
  shows "\<exists>es. ListInbox d = Inr es \<and> (\<forall>e. e \<in> set es \<longleftrightarrow> db_get d Inbox (IBKey e) = Some (DInbox e))"
proof -
  have ok: "db_ok d" using assms by (simp add: well_typed_def)
  have typed: "\<exists>e'. v = DInbox e' \<and> k = IBKey e'" if "db_get d Inbox k = Some v" for k v
    using that assms unfolding well_typed_def by (metis doc_ok.simps(7))
  let ?es = "map (\<lambda>(k, v). the (as_inbox v)) (db_each d Inbox)"
  have "e \<in> set ?es \<longleftrightarrow> db_get d Inbox (IBKey e) = Some (DInbox e)" for e
  proof
    assume "e \<in> set ?es"
    then obtain k v where "(k, v) \<in> set (db_each d Inbox)" "e = the (as_inbox v)" by auto
    then show "db_get d Inbox (IBKey e) = Some (DInbox e)" using typed [of k v] db_each_iff [OF ok] by auto
  next
    assume "db_get d Inbox (IBKey e) = Some (DInbox e)"
    then show "e \<in> set ?es" using db_each_iff [OF ok, of "IBKey e" "DInbox e" Inbox] by force
  qed
  moreover have "ListInbox d = Inr ?es" unfolding ListInbox_def by (rule list_all_of_typed [OF assms]) auto
  ultimately show ?thesis by blast
qed

lemma queue_offline:
  assumes "SvDb sv = Some d" and "well_typed d" and "bolt_writable (Ops d)" and "peer_for sv addr = None" and "fp \<noteq> []"
  shows "\<exists>d' entry. SendOrQueueDirectShare env now now' addr fp key name sz isDir sv = (Inr True, sv\<lparr>SvDb := Some d'\<rparr>) \<and>
    well_typed d' \<and> Ops d' = Ops d \<and> OBFileKey entry = key \<and> OBFileName entry = name \<and> OBFileSize entry = sz \<and>
    OBIsDir entry = isDir \<and> OBID entry = fp @ ''/'' @ key @ ''/'' @ fmt_int now \<and>
    (\<forall>e. e \<in> set (outbox_of fp d') \<longleftrightarrow> e = entry \<or> e \<in> set (outbox_of fp d) \<and> OBID e \<noteq> OBID entry)"
proof -
  define entry where "entry = (outbox_entry_for now fp addr key name sz isDir)\<lparr>OBCreatedAt := now'\<rparr>"
  have sel: "OBFileKey entry = key" "OBFileName entry = name" "OBFileSize entry = sz" "OBIsDir entry = isDir"
    "OBID entry = fp @ ''/'' @ key @ ''/'' @ fmt_int now" "OBRecipientFP entry = fp"
    by (simp_all add: entry_def outbox_entry_for_def)
  obtain d' where d': "db_put Outbox (OBID entry) (DOutbox entry) d = Inr d'" using db_put_writable assms(3) by metis
  have "AddOutboxEntry now' (outbox_entry_for now fp addr key name sz isDir) d = Inr d'"
    using d' by (simp add: AddOutboxEntry_def Let_def entry_def outbox_entry_for_def stamp_def)
  then have run: "SendOrQueueDirectShare env now now' addr fp key name sz isDir sv = (Inr True, sv\<lparr>SvDb := Some d'\<rparr>)"
    using assms by (simp add: SendOrQueueDirectShare_def SendDirectShare_def sendToAddr_def QueueOutbox_def db_call_def)
  have w: "well_typed d'" using well_typed_put [OF assms(2) _ d'] by simp
  have "db_ok d" using assms(2) by (simp add: well_typed_def)
  then have "e \<in> set (outbox_of fp d') \<longleftrightarrow> e = entry \<or> e \<in> set (outbox_of fp d) \<and> OBID e \<noteq> OBID entry" for e
    using outbox_of_iff [OF w] outbox_of_iff [OF assms(2)] sel(6) by (auto simp: db_put_get [OF d'])
  with run w db_put_ops [OF d'] sel show ?thesis by blast
qed

text \<open>C30. A share made while its recipient is offline arrives: once the recipient is connected and known
  by its fingerprint, a flush over a working connection empties the outbox for it, and after it has handled
  what was sent its inbox holds the file under its key with the identity of the sender, and with the name
  and size given, unless another queued share was for the same key.\<close>

theorem queued_share_arrives:
  fixes sv sv' :: "'a server" and rv :: "'b server"
  assumes "SvDb sv = Some d" and "well_typed d" and "bolt_writable (Ops d)" and "peer_for sv addr = None" and "fp \<noteq> []"
    and "SendOrQueueDirectShare env now now' addr fp key name sz isDir sv = (r, sv1)"
    and "SvDb sv2 = SvDb sv1" and "peer_for sv2 addr' = Some p" and "peer_fingerprint sv2 addr' = fp"
    and "\<forall>m. NSends env p m" and "sv3 = FlushOutbox env addr' sv2"
    and "SvDb rv = Some rd" and "well_typed rd" and "bolt_writable (Ops rd)"
    and "rv' = receive_shares t (drop (length (SvOut sv2)) (SvOut sv3)) rv"
  shows "r = Inr True \<and> (\<exists>d3. SvDb sv3 = Some d3 \<and> outbox_of fp d3 = []) \<and>
    (\<exists>inbox e. GetInbox rv' = Inr inbox \<and> e \<in> set inbox \<and> IBKey e = key \<and>
      IBSenderFP e = own_identity env ''fingerprint'' \<and> IBSenderAlias e = own_identity env ''alias'' \<and> IBReceivedAt e = t \<and>
      ((\<forall>e' \<in> set (outbox_of fp d). OBFileKey e' \<noteq> key) \<longrightarrow> IBName e = name \<and> IBSize e = sz \<and> IBIsDir e = isDir))"
proof -
  obtain d1 entry where q: "r = Inr True" "sv1 = sv\<lparr>SvDb := Some d1\<rparr>" "well_typed d1" "Ops d1 = Ops d"
      and en: "OBFileKey entry = key" "OBFileName entry = name" "OBFileSize entry = sz" "OBIsDir entry = isDir"
      and ob: "\<forall>e. e \<in> set (outbox_of fp d1) \<longleftrightarrow> e = entry \<or> e \<in> set (outbox_of fp d) \<and> OBID e \<noteq> OBID entry"
    using queue_offline [OF assms(1-5), of env now now' key name sz isDir] assms(6) by auto
  let ?es = "outbox_of fp d1"
  have all: "flushed env p ?es = ?es" "flush_events env p ?es = map (\<lambda>e. ESent p (share_of env e) True) ?es"
    using flush_all assms(10) by blast+
  have list: "ListOutboxForPeer fp d1 = Inr ?es" by (rule ListOutboxForPeer_typed [OF q(3)])
  have db2: "SvDb sv2 = Some d1" using assms(7) q(2) by simp
  have "sv3 = flush_entries env addr' ?es sv2" using list db2 assms(5,9,11) by (simp add: FlushOutbox_def)
  with flush_entries_exact [OF db2 q(3) _ assms(8), of env ?es] q(4) assms(3)
  obtain d3 where d3: "sv3 = sv2\<lparr>SvDb := Some d3, SvOut := SvOut sv2 @ flush_events env p ?es\<rparr>" "well_typed d3"
      "\<forall>b k. db_get d3 b k = (if b = Outbox \<and> k \<in> OBID ` set ?es then None else db_get d1 b k)"
    by (auto simp: all(1))
  have "e \<notin> set (outbox_of fp d3)" for e
    using d3(3) outbox_of_iff [OF d3(2)] outbox_of_iff [OF q(3)] by (metis imageI option.distinct(1))
  then have empty: "outbox_of fp d3 = []" by (metis list.set_intros(1) neq_Nil_conv)
  obtain rd' where rd': "rv' = rv\<lparr>SvDb := Some rd'\<rparr>" "well_typed rd'"
      "\<forall>k. db_get rd' Inbox k = (case find (\<lambda>e. OBFileKey e = k) (rev ?es) of
         None \<Rightarrow> db_get rd Inbox k | Some e \<Rightarrow> Some (DInbox (inbox_of_share env t e)))"
    using receive_shares_exact [OF assms(12-14), of t p env ?es] assms(15) d3(1) all(2) by auto
  have "find (\<lambda>e. OBFileKey e = key) (rev ?es) \<noteq> None" using ob en(1) by (auto simp: find_None_iff)
  then obtain e1 where e1: "find (\<lambda>e. OBFileKey e = key) (rev ?es) = Some e1" by blast
  then have in1: "OBFileKey e1 = key" "e1 \<in> set ?es" by (auto simp: find_Some_iff in_set_conv_nth)
      (metis (no_types, lifting) length_rev nth_mem set_rev in_set_conv_nth)
  obtain inbox where inbox: "ListInbox rd' = Inr inbox" "\<forall>e. e \<in> set inbox \<longleftrightarrow> db_get rd' Inbox (IBKey e) = Some (DInbox e)"
    using inbox_of_iff [OF rd'(2)] by blast
  have "inbox_of_share env t e1 \<in> set inbox" using inbox(2) rd'(3) e1 in1(1) by (simp add: inbox_of_share_def)
  moreover have "OBFileName e1 = name \<and> OBFileSize e1 = sz \<and> OBIsDir e1 = isDir" if "\<forall>e' \<in> set (outbox_of fp d). OBFileKey e' \<noteq> key"
    using that in1 ob en by metis
  ultimately have "\<exists>e. e \<in> set inbox \<and> IBKey e = key \<and> IBSenderFP e = own_identity env ''fingerprint'' \<and>
      IBSenderAlias e = own_identity env ''alias'' \<and> IBReceivedAt e = t \<and>
      ((\<forall>e' \<in> set (outbox_of fp d). OBFileKey e' \<noteq> key) \<longrightarrow> IBName e = name \<and> IBSize e = sz \<and> IBIsDir e = isDir)"
    using in1(1) by (intro exI [of _ "inbox_of_share env t e1"]) (simp add: inbox_of_share_def)
  moreover have "GetInbox rv' = Inr inbox" using rd'(1) inbox(1) by (simp add: GetInbox_def)
  ultimately show ?thesis using q(1) d3(1) empty by auto
qed

section \<open>Deletion\<close>

text \<open>What a deletion leaves of the database: no upload, no public file, and a tombstone.\<close>

definition deleted :: "string \<Rightarrow> string \<Rightarrow> int \<Rightarrow> 'db state_db \<Rightarrow> 'db state_db \<Rightarrow> bool" where
  "deleted key fp now d d' \<longleftrightarrow> (\<forall>b k. db_get d' b k =
     (if k = key \<and> (b = Uploads \<or> b = PublicFiles) then None
      else if k = key \<and> b = Tombstones then Some (DTombstone \<lparr>TSKey = key, TSDeletedAt = now, TSFingerprint = fp\<rparr>)
      else db_get d b k))"

lemma record_deletion_exact:
  assumes "SvDb sv = Some d" and "well_typed d" and "bolt_writable (Ops d)"
  shows "\<exists>d'. record_deletion now key fp sv = sv\<lparr>SvDb := Some d'\<rparr> \<and> well_typed d' \<and> Ops d' = Ops d \<and> deleted key fp now d d'"
proof -
  let ?t = "\<lparr>TSKey = key, TSDeletedAt = now, TSFingerprint = fp\<rparr>"
  obtain d1 where d1: "db_delete Uploads key d = Inr d1" using db_delete_writable [OF assms(3)] by blast
  have w1: "bolt_writable (Ops d1)" using db_delete_ops [OF d1] assms(3) by simp
  obtain d2 where d2: "db_delete PublicFiles key d1 = Inr d2" using db_delete_writable [OF w1] by blast
  have w2: "bolt_writable (Ops d2)" using db_delete_ops [OF d2] w1 by simp
  obtain d3 where d3: "db_put Tombstones key (DTombstone ?t) d2 = Inr d3" using db_put_writable [OF w2] by blast
  have t1: "well_typed d1" by (rule well_typed_delete [OF assms(2) d1])
  have t2: "well_typed d2" by (rule well_typed_delete [OF t1 d2])
  have ok: "db_ok d" "db_ok d1" "db_ok d2" using assms(2) t1 t2 by (simp_all add: well_typed_def)
  have "record_deletion now key fp sv = sv\<lparr>SvDb := Some d3\<rparr>"
    using d1 d2 d3 assms(1)
    by (simp add: record_deletion_def on_db_def keep_old_def RemoveUpload_def RemovePublicFile_def AddTombstone_def stamp_def)
  moreover have "well_typed d3" using well_typed_put [OF t2 _ d3] by simp
  moreover have "Ops d3 = Ops d" using db_delete_ops [OF d1] db_delete_ops [OF d2] db_put_ops [OF d3] by simp
  moreover have "deleted key fp now d d3"
    by (auto simp: deleted_def db_put_get [OF d3 ok(3)] db_delete_get [OF d2 ok(2)] db_delete_get [OF d1 ok(1)])
  ultimately show ?thesis by blast
qed

lemma deleted_not_listed:
  assumes "deleted key fp now d d'" and "well_typed d" and "well_typed d'"
  shows "\<exists>fs fs'. ListPublicFiles d = Inr fs \<and> ListPublicFiles d' = Inr fs' \<and> set fs' = {f \<in> set fs. PFKey f \<noteq> key} \<and>
    IsTombstoned key d'"
proof -
  have listing: "\<exists>fs. ListPublicFiles e = Inr fs \<and> (\<forall>f. f \<in> set fs \<longleftrightarrow> db_get e PublicFiles (PFKey f) = Some (DPublic f))"
    if w: "well_typed e" for e :: "'a state_db"
  proof -
    have ok: "db_ok e" using w by (simp add: well_typed_def)
    have typed: "\<exists>f. v = DPublic f \<and> k = PFKey f" if "db_get e PublicFiles k = Some v" for k v
      using that w unfolding well_typed_def by (metis doc_ok.simps(3))
    let ?fs = "map (\<lambda>(k, v). the (as_public v)) (db_each e PublicFiles)"
    have "f \<in> set ?fs \<longleftrightarrow> db_get e PublicFiles (PFKey f) = Some (DPublic f)" for f
    proof
      assume "f \<in> set ?fs"
      then obtain k v where "(k, v) \<in> set (db_each e PublicFiles)" "f = the (as_public v)" by auto
      then show "db_get e PublicFiles (PFKey f) = Some (DPublic f)" using typed [of k v] db_each_iff [OF ok] by auto
    next
      assume "db_get e PublicFiles (PFKey f) = Some (DPublic f)"
      then show "f \<in> set ?fs" using db_each_iff [OF ok, of "PFKey f" "DPublic f" PublicFiles] by force
    qed
    moreover have "ListPublicFiles e = Inr ?fs" unfolding ListPublicFiles_def by (rule list_all_of_typed [OF w]) auto
    ultimately show ?thesis by blast
  qed
  obtain fs where fs: "ListPublicFiles d = Inr fs" "\<forall>f. f \<in> set fs \<longleftrightarrow> db_get d PublicFiles (PFKey f) = Some (DPublic f)"
    using listing [OF assms(2)] by blast
  obtain fs' where fs': "ListPublicFiles d' = Inr fs'" "\<forall>f. f \<in> set fs' \<longleftrightarrow> db_get d' PublicFiles (PFKey f) = Some (DPublic f)"
    using listing [OF assms(3)] by blast
  have "db_get d' PublicFiles k = (if k = key then None else db_get d PublicFiles k)" for k
    using assms(1) by (simp add: deleted_def)
  then have "set fs' = {f \<in> set fs. PFKey f \<noteq> key}" using fs(2) fs'(2) by (auto split: if_splits)
  moreover have "IsTombstoned key d'" using assms(1) by (simp add: IsTombstoned_def deleted_def)
  ultimately show ?thesis using fs(1) fs'(1) by blast
qed

lemma send_all_failed:
  "fst (send_all env m ps sv) = map fst (filter (\<lambda>(a, p). \<not> NSends env p m) ps)"
  by (induction ps arbitrary: sv) (auto simp: send_msg_def case_prod_beta)

lemma send_all_db [simp]: "SvDb (snd (send_all env m ps sv)) = SvDb sv"
  by (induction ps arbitrary: sv) (auto simp: case_prod_beta)

lemma catalog_metadata_sel [simp]:
  "SvDb (UpdatePublicCatalogMetadata env sv) = SvDb sv" "SvPeers (UpdatePublicCatalogMetadata env sv) = SvPeers sv"
  "SvOut (UpdatePublicCatalogMetadata env sv) = SvOut sv"
  by (simp_all add: UpdatePublicCatalogMetadata_def split: option.split prod.split)

text \<open>C31. A deletion the user starts is made only for a key with the node's own fingerprint as its prefix, and is
  sent to every connected node. On both sides the file leaves the uploads and the public catalog, nothing else
  leaves them, and a tombstone remains; the number reported is the number of nodes the message was sent to; a node
  that has the tombstone does nothing on a second message. On both sides a key that does not start with the fingerprint is refused
  without any effect, but the receiver compares the key with the fingerprint the message itself gives, so this says nothing
  about who sent it. The node has a fingerprint, the receiver has no tombstone of the key yet, and both databases are well
  typed and accept writes.\<close>

theorem deletion_spreads:
  fixes sv :: "'a server" and rv :: "'b server"
  assumes "SvDb sv = Some d" and "well_typed d" and "bolt_writable (Ops d)"
    and "own_identity env ''fingerprint'' = own" and "own \<noteq> []"
    and "SvDb rv = Some rd" and "well_typed rd" and "bolt_writable (Ops rd)" and "\<not> IsTombstoned key rd"
  shows "if prefix (own @ ''/'') key then
      (\<exists>d'. fst (DeleteFile env J st now key m (sv, s)) =
          Inr (length (filter (\<lambda>(a, p). NSends env p (MsgDeleteFile key own)) (SvPeers sv))) \<and>
        SvDb (fst (snd (DeleteFile env J st now key m (sv, s)))) = Some d' \<and> deleted key own now d d' \<and>
        SvOut (fst (snd (DeleteFile env J st now key m (sv, s)))) =
          SvOut sv @ map (\<lambda>(a, p). ESent p (MsgDeleteFile key own) (NSends env p (MsgDeleteFile key own))) (SvPeers sv) \<and>
        (\<exists>fs fs'. ListPublicFiles d = Inr fs \<and> ListPublicFiles d' = Inr fs' \<and> set fs' = {f \<in> set fs. PFKey f \<noteq> key})) \<and>
      (\<exists>rd'. fst (handleDeleteFile J st' t key own m' (rv, s')) = rv\<lparr>SvDb := Some rd'\<rparr> \<and> deleted key own t rd rd' \<and>
        (\<forall>t' m'' s''. handleDeleteFile J st' t' key own m'' (rv\<lparr>SvDb := Some rd'\<rparr>, s'') = (rv\<lparr>SvDb := Some rd'\<rparr>, s'')))
    else DeleteFile env J st now key m (sv, s) = (Inl NotAuthorized, sv, s) \<and>
      handleDeleteFile J st' t key own m' (rv, s') = (rv, s')"
proof (cases "prefix (own @ ''/'') key")
  case True
  let ?sv1 = "record_deletion now key own sv"
  let ?sv2 = "UpdatePublicCatalogMetadata env ?sv1"
  let ?snd = "send_all env (MsgDeleteFile key own) (SvPeers ?sv2) ?sv2"
  obtain d' where d': "?sv1 = sv\<lparr>SvDb := Some d'\<rparr>" "well_typed d'" "deleted key own now d d'"
    using record_deletion_exact [OF assms(1-3)] by blast
  have run: "DeleteFile env J st now key m (sv, s) =
      (Inr (length (SvPeers ?sv2) - length (fst ?snd)), snd ?snd, remove_stored J st key m s)"
    using True assms(4,5) by (simp add: DeleteFile_def Let_def case_prod_beta send_all_out)
  have "length (SvPeers sv) - length (filter (\<lambda>(a, p). \<not> NSends env p (MsgDeleteFile key own)) (SvPeers sv)) =
      length (filter (\<lambda>(a, p). NSends env p (MsgDeleteFile key own)) (SvPeers sv))"
    using sum_length_filter_compl [of "\<lambda>(a, p). NSends env p (MsgDeleteFile key own)" "SvPeers sv"] by (simp add: case_prod_unfold)
  then have "fst (DeleteFile env J st now key m (sv, s)) =
      Inr (length (filter (\<lambda>(a, p). NSends env p (MsgDeleteFile key own)) (SvPeers sv)))"
    using run d'(1) by (simp add: send_all_failed)
  moreover have "SvDb (fst (snd (DeleteFile env J st now key m (sv, s)))) = Some d'"
    "SvOut (fst (snd (DeleteFile env J st now key m (sv, s)))) =
      SvOut sv @ map (\<lambda>(a, p). ESent p (MsgDeleteFile key own) (NSends env p (MsgDeleteFile key own))) (SvPeers sv)"
    using run d'(1) by (simp_all add: send_all_out)
  moreover obtain rd' where rd': "record_deletion t key own rv = rv\<lparr>SvDb := Some rd'\<rparr>" "deleted key own t rd rd'"
    using record_deletion_exact [OF assms(6-8)] by blast
  moreover have "fst (handleDeleteFile J st' t key own m' (rv, s')) = rv\<lparr>SvDb := Some rd'\<rparr>"
    using True assms(6,9) rd'(1) by (simp add: handleDeleteFile_def db_asks_def)
  moreover have "handleDeleteFile J st' t' key own m'' (rv\<lparr>SvDb := Some rd'\<rparr>, s'') = (rv\<lparr>SvDb := Some rd'\<rparr>, s'')" for t' m'' s''
    using True rd'(2) by (simp add: handleDeleteFile_def db_asks_def IsTombstoned_def deleted_def)
  ultimately show ?thesis using True d'(3) deleted_not_listed [OF d'(3) assms(2) d'(2)] by auto
next
  case False
  then show ?thesis using assms(4,5) by (simp add: DeleteFile_def handleDeleteFile_def)
qed

text \<open>The chunks stay: the manifest is looked up among the stored chunk files, where no operation puts it, and
  when the lookup fails nothing is removed from the file system.\<close>

lemma deletion_keeps_chunks:
  assumes "MGet (Metadata st) m (ManifestStorageKey key) = None" and "MGet (Metadata st) m (''dirmanifest:'' @ key) = None"
  shows "remove_stored J st key m s = s"
  using assms by (simp add: remove_stored_def ReadStream_def Remove_def)

section \<open>Access\<close>

definition manifest_event :: "net_env \<Rightarrow> string \<Rightarrow> message \<Rightarrow> (string, conn) gomap \<Rightarrow> string \<Rightarrow> net_event option" where
  "manifest_event env me msg ps a = (if a = me then None else map_option (\<lambda>p. ESent p msg (NSends env p msg)) (map_of ps a))"

lemma send_manifest_out:
  "send_manifest env me msg as sv = sv\<lparr>SvOut := SvOut sv @ List.map_filter (manifest_event env me msg (SvPeers sv)) as\<rparr>"
proof (induction as arbitrary: sv)
  case (Cons a as)
  show ?case
  proof (cases "a = me \<or> map_of (SvPeers sv) a = None")
    case True
    then have "manifest_event env me msg (SvPeers sv) a = None" by (auto simp: manifest_event_def)
    then show ?thesis using True Cons.IH by (auto simp: List.map_filter_simps)
  next
    case False
    then obtain p where p: "map_of (SvPeers sv) a = Some p" "a \<noteq> me" by blast
    then have "manifest_event env me msg (SvPeers sv) a = Some (ESent p msg (NSends env p msg))" by (simp add: manifest_event_def)
    then show ?thesis using p Cons.IH by (simp add: List.map_filter_simps send_msg_def log_event_def)
  qed
qed (simp add: List.map_filter_simps)

lemma replicateManifest_sends:
  assumes "0 \<le> ring_ReplicationFactor (SvRing sv)"
  shows "\<exists>evs. replicateManifest env J key me man sv = Some (sv\<lparr>SvOut := SvOut sv @ evs\<rparr>)"
proof -
  have "ring_GetNodes (NSha env) (SvRing sv) key (ring_ReplicationFactor (SvRing sv)) \<noteq> None"
    using assms by (simp add: ring_GetNodes_def Let_def)
  then show ?thesis by (auto simp: replicateManifest_def send_manifest_out)
qed

definition granted :: "access_entry \<Rightarrow> string \<Rightarrow> chunk_manifest \<Rightarrow> chunk_manifest" where
  "granted entry sig man = (if MEncrypted man then grant_file entry sig man else man)"

context metadata_store
begin

lemma grant_access_file:
  assumes "inv m" and "MGetManifest ops m key = Some man" and "MEncrypted man"
    and "\<not> has_access (RecipientPubKey entry) (MAccessList man)" and "ok_man m (grant_file entry sig man)"
    and "AddAccessEntry env J JD ops getman getmeta key False entry sig (m, sv) = ((enc, None), m', sv')"
  shows "enc \<and> MGetManifest ops m' key = Some (grant_file entry sig man) \<and>
    (\<forall>k. k \<noteq> key \<longrightarrow> MGetManifest ops m' k = MGetManifest ops m k) \<and>
    replicateManifest env J key (normalizeAddr (NP6 env) (NAddr env)) (grant_file entry sig man) sv = Some sv'"
proof -
  have "MSetManifest ops m key (grant_file entry sig man) = (None, m')"
    and "replicateManifest env J key (normalizeAddr (NP6 env) (NAddr env)) (grant_file entry sig man) sv = Some sv'" and enc
    using assms(2-4,6) by (auto simp: AddAccessEntry_def InspectManifest_def Let_def split: prod.splits option.splits)
  then show ?thesis using man_set_man [OF assms(1) _ assms(5)] man_set_man_other [OF assms(1)] by blast
qed

lemma grant_access_again:
  assumes "MGetManifest ops m key = Some man" and "MEncrypted man" and "has_access (RecipientPubKey entry) (MAccessList man)"
  shows "AddAccessEntry env J JD ops getman getmeta key False entry sig (m, sv) = ((True, None), m, sv)"
  using assms by (simp add: AddAccessEntry_def InspectManifest_def Let_def)

lemma grant_files_exact:
  assumes "inv m" and "distinct (map FManifestKey fs)"
    and "\<And>m f x. inv m \<Longrightarrow> f \<in> set fs \<Longrightarrow> \<exists>m'. MSetManifest ops m (FManifestKey f) x = (None, m')"
    and "\<forall>f \<in> set fs. \<not> reserved (FManifestKey f) \<and>
      (\<exists>man. MGetManifest ops m (FManifestKey f) = Some man \<and> ok_man m (grant_file entry sig man))"
    and "0 \<le> ring_ReplicationFactor (SvRing sv)"
  shows "\<exists>m' evs. grant_files env J ops getman me entry sig fs m sv = Some (m', sv\<lparr>SvOut := SvOut sv @ evs\<rparr>) \<and> inv m' \<and>
    (\<forall>k. MGetManifest ops m' k = (if k \<in> FManifestKey ` set fs then map_option (granted entry sig) (MGetManifest ops m k)
       else MGetManifest ops m k)) \<and>
    (\<forall>k. MGetDirManifest ops m' k = MGetDirManifest ops m k)"
  using assms
proof (induction fs arbitrary: m sv)
  case Nil
  have "sv = sv\<lparr>SvOut := SvOut sv @ []\<rparr>" by simp
  then show ?case using Nil.prems(1) by (intro exI [of _ m] exI [of _ "[]"]) simp
next
  case (Cons f fs)
  let ?k = "FManifestKey f"
  obtain man where man: "MGetManifest ops m ?k = Some man" "ok_man m (grant_file entry sig man)" using Cons.prems(4) by auto
  have rest: "?k \<notin> FManifestKey ` set fs" "distinct (map FManifestKey fs)" using Cons.prems(2) by auto
  show ?case
  proof (cases "MEncrypted man")
    case False
    have "grant_files env J ops getman me entry sig (f # fs) m sv = grant_files env J ops getman me entry sig fs m sv"
      using man(1) False by (simp add: InspectManifest_def)
    moreover have "\<exists>m' evs. grant_files env J ops getman me entry sig fs m sv = Some (m', sv\<lparr>SvOut := SvOut sv @ evs\<rparr>) \<and> inv m' \<and>
        (\<forall>k. MGetManifest ops m' k = (if k \<in> FManifestKey ` set fs then map_option (granted entry sig) (MGetManifest ops m k)
          else MGetManifest ops m k)) \<and> (\<forall>k. MGetDirManifest ops m' k = MGetDirManifest ops m k)"
      using Cons.prems rest by (intro Cons.IH) auto
    ultimately show ?thesis using man(1) False by (auto simp: granted_def)
  next
    case True
    obtain m1 where m1: "MSetManifest ops m ?k (grant_file entry sig man) = (None, m1)"
      using Cons.prems(3) [OF Cons.prems(1), of f] by auto
    obtain evs where evs: "replicateManifest env J ?k me (grant_file entry sig man) sv = Some (sv\<lparr>SvOut := SvOut sv @ evs\<rparr>)"
      using replicateManifest_sends [OF Cons.prems(5)] by blast
    let ?s1 = "sv\<lparr>SvOut := SvOut sv @ evs\<rparr>"
    have inv1: "inv m1" "ok_man m1 = ok_man m" using set_man_inv [OF Cons.prems(1) m1] by auto
    have g1: "MGetManifest ops m1 k = (if k = ?k then Some (grant_file entry sig man) else MGetManifest ops m k)" for k
      using man_set_man [OF Cons.prems(1) m1 man(2)] man_set_man_other [OF Cons.prems(1) m1] by simp
    have "grant_files env J ops getman me entry sig (f # fs) m sv = grant_files env J ops getman me entry sig fs m1 ?s1"
      using man(1) True m1 evs by (simp add: InspectManifest_def)
    moreover have "\<exists>m' evs'. grant_files env J ops getman me entry sig fs m1 ?s1 = Some (m', ?s1\<lparr>SvOut := SvOut ?s1 @ evs'\<rparr>) \<and>
        inv m' \<and>
        (\<forall>k. MGetManifest ops m' k = (if k \<in> FManifestKey ` set fs then map_option (granted entry sig) (MGetManifest ops m1 k)
          else MGetManifest ops m1 k)) \<and> (\<forall>k. MGetDirManifest ops m' k = MGetDirManifest ops m1 k)"
      using Cons.prems inv1 rest g1 by (intro Cons.IH) (auto simp: rev_image_eqI)
    ultimately show ?thesis
      using man(1) True g1 rest(1) dir_set_man [OF Cons.prems(1) m1] Cons.prems(4) by (fastforce simp: granted_def)
  qed
qed

lemma grant_access_directory:
  assumes "inv m" and "MGetDirManifest ops m key = Some data" and "jUnmarshal JD (string_of data) = Some dm"
    and "DEncrypted dm" and "\<not> has_access (RecipientPubKey entry) (DAccessList dm)"
    and "json_ok JD (grant_dir entry sig dm)" and "jMarshal JD (grant_dir entry sig dm) \<noteq> []"
    and "MSetDirManifest ops m key (bytes_of (jMarshal JD (grant_dir entry sig dm))) = (None, m1)"
    and "distinct (map FManifestKey (DFiles dm))"
    and "\<And>m f x. inv m \<Longrightarrow> f \<in> set (DFiles dm) \<Longrightarrow> \<exists>m'. MSetManifest ops m (FManifestKey f) x = (None, m')"
    and "\<forall>f \<in> set (DFiles dm). \<not> reserved (FManifestKey f) \<and>
      (\<exists>man. MGetManifest ops m (FManifestKey f) = Some man \<and> ok_man m (grant_file entry sig man))"
    and "0 \<le> ring_ReplicationFactor (SvRing sv)"
  shows "\<exists>m' evs. AddAccessEntry env J JD ops getman getmeta key True entry sig (m, sv) =
      ((True, None), m', sv\<lparr>SvOut := SvOut sv @ evs\<rparr>) \<and>
    fst (GetDirectoryManifest ops JD getmeta key m') = Some (grant_dir entry sig dm) \<and>
    (\<forall>f \<in> set (DFiles dm). MGetManifest ops m' (FManifestKey f) =
       map_option (granted entry sig) (MGetManifest ops m (FManifestKey f))) \<and>
    (\<forall>k. \<not> reserved k \<longrightarrow> k \<notin> FManifestKey ` set (DFiles dm) \<longrightarrow> MGetManifest ops m' k = MGetManifest ops m k) \<and>
    (\<forall>sig'. AddAccessEntry env J JD ops getman getmeta key True entry sig' (m', sv\<lparr>SvOut := SvOut sv @ evs\<rparr>) =
       ((True, None), m', sv\<lparr>SvOut := SvOut sv @ evs\<rparr>))"
proof -
  let ?dm = "grant_dir entry sig dm"
  have inv1: "inv m1" "ok_man m1 = ok_man m" using set_dir_inv [OF assms(1,8)] by auto
  have man1: "MGetManifest ops m1 k = MGetManifest ops m k" if "\<not> reserved k" for k using man_set_dir [OF assms(1,8)] that by blast
  have dir1: "MGetDirManifest ops m1 key = Some (bytes_of (jMarshal JD ?dm))"
    using dir_set_dir [OF assms(1,8)] assms(7) by (simp add: bytes_of_def)
  have files1: "\<forall>f \<in> set (DFiles dm). \<not> reserved (FManifestKey f) \<and>
      (\<exists>man. MGetManifest ops m1 (FManifestKey f) = Some man \<and> ok_man m1 (grant_file entry sig man))"
    using assms(11) man1 inv1(2) by simp
  obtain m' evs where run: "grant_files env J ops getman (normalizeAddr (NP6 env) (NAddr env)) entry sig (DFiles dm) m1 sv =
        Some (m', sv\<lparr>SvOut := SvOut sv @ evs\<rparr>)"
      and man': "\<forall>k. MGetManifest ops m' k = (if k \<in> FManifestKey ` set (DFiles dm)
        then map_option (granted entry sig) (MGetManifest ops m1 k) else MGetManifest ops m1 k)"
      and dir': "\<forall>k. MGetDirManifest ops m' k = MGetDirManifest ops m1 k"
    using grant_files_exact [OF inv1(1) assms(9,10) files1 assms(12)] by blast
  have got: "fst (GetDirectoryManifest ops JD getmeta key m') = Some ?dm" "snd (GetDirectoryManifest ops JD getmeta key m') = m'"
    using dir' dir1 assms(6) by (simp_all add: GetDirectoryManifest_def json_ok_def)
  have "AddAccessEntry env J JD ops getman getmeta key True entry sig (m, sv) = ((True, None), m', sv\<lparr>SvOut := SvOut sv @ evs\<rparr>)"
    using assms(2-5,8) run by (simp add: AddAccessEntry_def GetDirectoryManifest_def Let_def)
  moreover have "AddAccessEntry env J JD ops getman getmeta key True entry sig' (m', sv\<lparr>SvOut := SvOut sv @ evs\<rparr>) =
      ((True, None), m', sv\<lparr>SvOut := SvOut sv @ evs\<rparr>)" for sig'
  proof -
    have "GetDirectoryManifest ops JD getmeta key m' = (Some ?dm, m')" using got by (metis prod.collapse)
    moreover have "DEncrypted ?dm" "has_access (RecipientPubKey entry) (DAccessList ?dm)"
      using assms(4) by (simp_all add: grant_dir_def has_access_def)
    ultimately show ?thesis by (simp add: AddAccessEntry_def Let_def)
  qed
  moreover have "MGetManifest ops m' (FManifestKey f) = map_option (granted entry sig) (MGetManifest ops m (FManifestKey f))"
    if "f \<in> set (DFiles dm)" for f
    using that man' man1 assms(11) by simp
  moreover have "MGetManifest ops m' k = MGetManifest ops m k" if "\<not> reserved k" "k \<notin> FManifestKey ` set (DFiles dm)" for k
    using that man' man1 by simp
  ultimately show ?thesis using got(1) by (intro exI [of _ m'] exI [of _ evs] conjI) simp_all
qed

end

interpretation bolt_at: metadata_store "bm_ops :: 'db bolt_meta meta_ops" "\<lambda>b. BMOps b = K \<and> kv_ok K"
    "\<lambda>b. json_ok (BMMeta b)" "\<lambda>b. json_ok (BMManifest b)"
  for K :: "'db kv"
  by unfold_locales
    (auto simp: bm_defs dest!: bm_update_ok dest: not_reserved_neq split: if_splits option.splits)


section \<open>Instances\<close>

definition demo_sharer :: "(bucket \<Rightarrow> (string \<times> doc) list) server" where
  "demo_sharer = demo_server\<lparr>SvPeers := [(''b'', demo_conn)],
     SvTable := Some (cs_AddNode 1 ''b'' (Some [(''fingerprint'', ''F'')]) (cs_New ''a'' 0))\<rparr>"

definition demo_owner :: net_env where
  "demo_owner = demo_net\<lparr>NIdentity := Some [(''fingerprint'', ''me'')]\<rparr>"

lemma demo_sharer_sel [simp]:
  "SvDb demo_sharer = Some alist_db" "peer_for demo_sharer ''b'' = Some demo_conn" "peer_fingerprint demo_sharer ''b'' = ''F''"
  "SvOut demo_sharer = SvOut demo_server" "SvPeers demo_sharer = [(''b'', demo_conn)]"
  by (simp_all add: demo_sharer_def peer_for_def peer_fingerprint_def cs_GetNode_def cs_AddNode_def cs_New_def set_node_def fireChange_def go_get_def Let_def)

lemma alist_db_typed: "well_typed alist_db" "bolt_writable (Ops alist_db)"
  using fresh_well_typed [OF fresh_alist_db] alist_bolt_writable by simp_all

lemma demo_sends [simp]: "NSends demo_net p m" "NSends demo_owner p m"
  by (simp_all add: demo_net_def demo_owner_def)

theorem outbox_flush_exact_witness:
  "\<exists>d d'. AddOutboxEntry 3 (outbox_entry_for 2 ''F'' ''b'' ''F/k'' ''n'' 1 False) alist_db = Inr d \<and>
     SvDb (FlushOutbox demo_net ''b'' (demo_sharer\<lparr>SvDb := Some d\<rparr>)) = Some d' \<and> outbox_of ''F'' d' = []"
proof -
  obtain d where d: "AddOutboxEntry 3 (outbox_entry_for 2 ''F'' ''b'' ''F/k'' ''n'' 1 False) alist_db = Inr d"
    using db_put_writable [OF alist_db_typed(2)] unfolding AddOutboxEntry_def Let_def by blast
  have w: "well_typed d" by (rule well_typed_put [OF alist_db_typed(1) _ d [unfolded AddOutboxEntry_def Let_def]]) simp
  have o: "bolt_writable (Ops d)" using d db_put_ops alist_db_typed(2) by (fastforce simp: AddOutboxEntry_def Let_def)
  have p: "peer_for (demo_sharer\<lparr>SvDb := Some d\<rparr>) ''b'' = Some demo_conn" "peer_fingerprint (demo_sharer\<lparr>SvDb := Some d\<rparr>) ''b'' = ''F''"
    using demo_sharer_sel(2,3) peer_for_cong [of "demo_sharer\<lparr>SvDb := Some d\<rparr>" demo_sharer] by (simp_all add: peer_fingerprint_def)
  obtain d' where "SvDb (FlushOutbox demo_net ''b'' (demo_sharer\<lparr>SvDb := Some d\<rparr>)) = Some d'"
      "set (outbox_of ''F'' d') = set (outbox_of ''F'' d) - set (flushed demo_net demo_conn (outbox_of ''F'' d))"
    using outbox_flush_exact [OF _ w o p, of demo_net] by auto
  then show ?thesis using d by (auto simp: flush_all(1))
qed

theorem queued_share_arrives_witness:
  "\<exists>sv1 sv3 inbox e. SendOrQueueDirectShare demo_net 2 3 ''x'' ''F'' ''F/k'' ''n'' 1 False demo_sharer = (Inr True, sv1) \<and>
     sv3 = FlushOutbox demo_net ''b'' sv1 \<and>
     GetInbox (receive_shares 9 (drop (length (SvOut sv1)) (SvOut sv3)) demo_server) = Inr inbox \<and> e \<in> set inbox \<and> IBKey e = ''F/k''"
proof -
  obtain r sv1 where r: "SendOrQueueDirectShare demo_net 2 3 ''x'' ''F'' ''F/k'' ''n'' 1 False demo_sharer = (r, sv1)" by fastforce
  have off: "peer_for demo_sharer ''x'' = None" by (simp add: demo_sharer_def peer_for_def canonical_of_def)
  then have sv1: "\<exists>d. sv1 = demo_sharer\<lparr>SvDb := Some d\<rparr>"
    using queue_offline [OF _ alist_db_typed off, of "''F''" demo_net 2 3 "''F/k''" "''n''" 1 False] r by auto
  then have p: "peer_for sv1 ''b'' = Some demo_conn" "peer_fingerprint sv1 ''b'' = ''F''"
    using demo_sharer_sel(2,3) peer_for_cong [of sv1 demo_sharer] by (auto simp: peer_fingerprint_def)
  show ?thesis
    using queued_share_arrives [OF _ alist_db_typed off _ r refl p _ refl _ alist_db_typed refl, of demo_server 9] r by fastforce
qed

theorem deletion_spreads_witness:
  "fst (DeleteFile demo_owner (demo_json undefined) demo_store 4 ''me/f'' demo_meta_store (demo_sharer, no_files)) = Inr 1"
proof -
  have id: "own_identity demo_owner ''fingerprint'' = ''me''" by (simp add: own_identity_def demo_owner_def go_get_def)
  have db: "SvDb demo_server = Some alist_db" "\<not> IsTombstoned ''me/f'' alist_db" by (simp_all add: IsTombstoned_def)
  have "prefix (''me'' @ ''/'') ''me/f''" by simp
  with deletion_spreads [OF demo_sharer_sel(1) alist_db_typed id _ db(1) alist_db_typed db(2), of
      "demo_json undefined" demo_store 4 demo_meta_store no_files demo_store 5 demo_meta_store no_files]
  show ?thesis by fastforce
qed

definition demo_grant :: access_entry where
  "demo_grant = \<lparr>RecipientPubKey = ''r'', WrappedDEK = ''w''\<rparr>"

definition demo_dir :: directory_manifest where
  "demo_dir = \<lparr>DStorageKey = ''d'', DTotalSize = 1, DFileCount = 1,
     DFiles = [\<lparr>FRelativePath = ''f'', FSize = 1, FMode = 0, FManifestKey = ''d/f'', FFileHash = []\<rparr>], DMerkleRoot = [],
     DCreatedAt = 0, DIsDirectory = True, DEncrypted = True, DOwnerPubKey = [], DOwnerEdPubKey = [], DAccessList = [],
     DSignature = []\<rparr>"

definition demo_dir_json :: "directory_manifest json" where
  "demo_dir_json = \<lparr>jMarshal = (\<lambda>x. if DAccessList x = [] then ''a'' else ''b''),
     jUnmarshal = (\<lambda>s. Some (if s = ''a'' then demo_dir else grant_dir demo_grant ''s'' demo_dir))\<rparr>"

definition demo_dir_store :: "((meta_bucket \<times> string) \<times> byte list) list bolt_meta" where
  "demo_dir_store = demo_meta_store\<lparr>BMData := [((ManifestsBucket, DirManifestKey ''d''), bytes_of ''a''),
     ((ManifestsBucket, ''d/f''), bytes_of (jMarshal lossless_json (demo_manifest\<lparr>MEncrypted := True\<rparr>)))]\<rparr>"


end
