(* ===== verification/Seeding.thy ===== *)
theory Seeding
  imports Sharing Wire
begin

text \<open>
  Seeding in place and the swarm protocol of Server/server.go: \<open>SeedInPlace\<close> with the registration of the
  node as a provider, the provider directory kept by the nodes of the ring, the two handlers that serve a
  chunk from the store or from the original file, and the two requests that fetch it.

  \<open>env\<close> carries the store, the hash, the cipher and the codec of theory Upload, \<open>net\<close> the surroundings of
  theory Network; key agreement, the private key and the text of wrapped errors are parameters. A goroutine
  that serves a chunk is one step; the limit on how many run at once is not modelled.
\<close>

section \<open>Providers\<close>

definition same_address :: "net_env \<Rightarrow> string \<Rightarrow> string \<Rightarrow> bool" where
  "same_address net a b \<longleftrightarrow> normalizeAddr (NP6 net) a = normalizeAddr (NP6 net) b"

fun register_at :: "net_env \<Rightarrow> string \<Rightarrow> provider_record \<Rightarrow> string list \<Rightarrow> 'db server \<Rightarrow> 'db server" where
  "register_at net fileKey r [] sv = sv"
| "register_at net fileKey r (addr # as) sv =
     (if same_address net addr (PAddr r) then register_at net fileKey r as (on_db (AddProvider fileKey r) sv)
      else register_at net fileKey r as
        (snd (sendToAddr net addr (MsgRegisterProvider fileKey (PAddr r) (PChunkCount r) (PTotalChunks r)) sv)))"

text \<open>None is the panic of the ring for a negative replication factor.\<close>

definition registerProvider :: "net_env \<Rightarrow> int \<Rightarrow> string \<Rightarrow> int \<Rightarrow> int \<Rightarrow> 'db server \<Rightarrow> 'db server option" where
  "registerProvider net now fileKey chunkCount totalChunks sv =
     (case ring_GetNodes (NSha net) (SvRing sv) fileKey (ring_ReplicationFactor (SvRing sv)) of
        None \<Rightarrow> None
      | Some targets \<Rightarrow>
          Some (register_at net fileKey \<lparr>PAddr = self_address net sv, PChunkCount = chunkCount, PTotalChunks = totalChunks,
            PRegisteredAt = now\<rparr> targets sv))"

definition deregisterProvider :: "net_env \<Rightarrow> string \<Rightarrow> 'db server \<Rightarrow> 'db server" where
  "deregisterProvider net fileKey sv = on_db (RemoveProvider fileKey (self_address net sv)) sv"

definition handleRegisterProvider :: "int \<Rightarrow> string \<Rightarrow> string \<Rightarrow> int \<Rightarrow> int \<Rightarrow> 'db server \<Rightarrow> net_error option \<times> 'db server" where
  "handleRegisterProvider now fileKey provider chunkCount totalChunks sv =
     (if SvDb sv = None then (None, sv)
      else db_call (AddProvider fileKey
        \<lparr>PAddr = provider, PChunkCount = chunkCount, PTotalChunks = totalChunks, PRegisteredAt = now\<rparr>) sv)"

definition provider_infos :: "string \<Rightarrow> 'db server \<Rightarrow> provider_info list" where
  "provider_infos fileKey sv =
     (case SvDb sv of
        None \<Rightarrow> []
      | Some d \<Rightarrow> map (\<lambda>p. \<lparr>PIAddr = PAddr p, PIChunkCount = PChunkCount p, PITotalChunks = PTotalChunks p\<rparr>) (GetProviders fileKey d))"

definition handleGetProviders :: "net_env \<Rightarrow> conn \<Rightarrow> string \<Rightarrow> 'db server \<Rightarrow> bool \<times> 'db server" where
  "handleGetProviders net p fileKey sv = send_msg net p (MsgProvidersResponse fileKey (provider_infos fileKey sv)) sv"

fun ask_providers :: "net_env \<Rightarrow> message \<Rightarrow> string \<Rightarrow> string list \<Rightarrow> 'db server \<Rightarrow> nat \<times> 'db server" where
  "ask_providers net msg self [] sv = (0, sv)"
| "ask_providers net msg self (addr # as) sv =
     (if same_address net addr self then ask_providers net msg self as sv
      else case map_of (SvPeers sv) addr of
          None \<Rightarrow> ask_providers net msg self as sv
        | Some p \<Rightarrow>
            (let (ok, sv) = send_msg net p msg sv; (n, sv) = ask_providers net msg self as sv in (if ok then Suc n else n, sv)))"

text \<open>\<open>answer\<close> is the first response before the timeout, as the JSON text decodes; None of the result is the
  panic of the ring.\<close>

definition getProviders ::
  "net_env \<Rightarrow> string \<Rightarrow> provider_info list option \<Rightarrow> 'db server \<Rightarrow> (provider_record list \<times> 'db server) option" where
  "getProviders net fileKey answer sv =
     (let local_recs = (case SvDb sv of None \<Rightarrow> [] | Some d \<Rightarrow> GetProviders fileKey d)
      in if local_recs \<noteq> [] then Some (local_recs, sv)
         else case ring_GetNodes (NSha net) (SvRing sv) fileKey (ring_ReplicationFactor (SvRing sv)) of
             None \<Rightarrow> None
           | Some targets \<Rightarrow>
               (let (sent, sv) = ask_providers net (MsgGetProviders fileKey) (self_address net sv) targets sv
                in if sent = 0 then Some ([], sv)
                   else case answer of
                       None \<Rightarrow> Some ([], sv)
                     | Some infos \<Rightarrow>
                         Some (map (\<lambda>p. \<lparr>PAddr = PIAddr p, PChunkCount = PIChunkCount p, PTotalChunks = PITotalChunks p,
                           PRegisteredAt = 0\<rparr>) infos, sv)))"

section \<open>Seeding\<close>

text \<open>The chunks are read, compressed, encrypted and hashed, but not stored; \<open>ctx n\<close> says that the context is
  cancelled before chunk \<open>n\<close>.\<close>

fun index_chunks ::
  "'m upload_env \<Rightarrow> (nat \<Rightarrow> bool) \<Rightarrow> encryption_meta option \<Rightarrow> bool \<Rightarrow> int \<Rightarrow> nat \<Rightarrow> chunk list
    \<Rightarrow> (upload_error + chunk_info list) \<times> up_effect list" where
  "index_chunks env ctx enc progress tot n [] = (Inr [], [])"
| "index_chunks env ctx enc progress tot n (c # cs) =
     (if ctx n then (Inl UploadCancelled, [])
      else case process_chunk env enc c of
          Inl e \<Rightarrow> (Inl e, [])
        | Inr pc \<Rightarrow>
            (let (r, eff) = index_chunks env ctx enc progress tot (n + 1) cs
             in (case r of Inl e \<Rightarrow> Inl e | Inr infos \<Rightarrow> Inr (PCInfo pc # infos),
                 (if progress then [UpProgress (int n + 1) tot] else []) @ eff)))"

definition seed_manifest ::
  "'m upload_env \<Rightarrow> encryption_meta option \<Rightarrow> string \<Rightarrow> string \<Rightarrow> chunk_info list \<Rightarrow> int \<Rightarrow> chunk_manifest" where
  "seed_manifest env enc seeder key infos created =
     (upload_manifest env enc key infos created)\<lparr>MSeedMode := True, MOriginalSeeder := seeder\<rparr>"

datatype seed_result = Seeded | SeedFailed upload_error | SeedPanic

text \<open>\<open>UNow env\<close> gives the readings of the clock: 0 for the manifest, 1 for the file, 2 for the registration.\<close>

definition SeedInPlace ::
  "'m upload_env \<Rightarrow> net_env \<Rightarrow> chunk_manifest json \<Rightarrow> (nat \<Rightarrow> bool) \<Rightarrow> string \<Rightarrow> string \<Rightarrow> bool \<Rightarrow> encryption_meta option \<Rightarrow> int
    \<Rightarrow> bool \<Rightarrow> 'm \<Rightarrow> 'db server \<Rightarrow> os \<Rightarrow> seed_result \<times> up_effect list \<times> 'm \<times> 'db server" where
  "SeedInPlace env net J ctx key filePath fails enc fileSize progress m sv s =
     (let me = normalizeAddr (NP6 net) (NAddr net)
      in case os_ReadFile filePath s of
           Inl e \<Rightarrow> (SeedFailed (OpenSource e), [], m, sv)
         | Inr content \<Rightarrow>
             (let fileSize = (if fileSize \<le> 0 then int (length content) else fileSize);
                  (chunks, rerr) = ChunkReader (USha env) DefaultChunkSize content fails;
                  (r, eff) = index_chunks env ctx enc progress (chunk_estimate fileSize) 0 chunks
              in case r of
                   Inl e \<Rightarrow> (SeedFailed e, eff, m, sv)
                 | Inr infos \<Rightarrow>
                     if rerr then (SeedFailed ReadSource, eff, m, sv)
                     else
                       (let ops = Metadata (UStore env);
                            man = seed_manifest env enc (self_address net sv) key infos (UNow env 0)
                        in case MSetManifest ops m key man of
                             (Some e, m) \<Rightarrow> (SeedFailed (StoreManifest e), eff, m, sv)
                           | (None, m) \<Rightarrow>
                               (case MSet ops m key (top_meta ops m key me (UNow env 1)) of
                                  (Some e, m) \<Rightarrow> (SeedFailed (UpdateFileMeta e), eff, m, sv)
                                | (None, m) \<Rightarrow>
                                    (case replicateManifest net J key me man sv of
                                       None \<Rightarrow> (SeedPanic, eff, m, sv)
                                     | Some sv \<Rightarrow>
                                         (let n = int (length infos);
                                              sv = on_db (StateDB.SetSeedSource key
                                                \<lparr>OriginalPath = filePath, CASBacked = False, SChunkSize = DefaultChunkSize,
                                                 STotalChunks = n, SBitfield = (case NewFullBitfield n of None \<Rightarrow> [] | Some b \<Rightarrow> b)\<rparr>) sv
                                          in case registerProvider net (UNow env 2) key n n sv of
                                               None \<Rightarrow> (SeedPanic, eff, m, sv)
                                             | Some sv \<Rightarrow> (Seeded, eff, m, sv)))))))"

section \<open>The data encryption key of a seeded file\<close>

datatype dek_error = NoPrivateKey | NoPublicKey | UnwrapFailed crypto_error | NotInAccessList string

definition getDEK ::
  "kdf \<Rightarrow> aead \<Rightarrow> byte list \<Rightarrow> net_env \<Rightarrow> string \<Rightarrow> chunk_manifest \<Rightarrow> (string, byte list) gomap
    \<Rightarrow> (dek_error + byte list) \<times> (string, byte list) gomap" where
  "getDEK K A priv net fileKey man cached =
     (case map_of cached fileKey of
        Some dek \<Rightarrow> (Inr dek, cached)
      | None \<Rightarrow>
          if priv = [] then (Inl NoPrivateKey, cached)
          else
            (let selfPubHex = own_identity net ''x25519_pub''
             in if selfPubHex = [] then (Inl NoPublicKey, cached)
                else case find (\<lambda>e. RecipientPubKey e = selfPubHex) (MAccessList man) of
                    None \<Rightarrow> (Inl (NotInAccessList fileKey), cached)
                  | Some e \<Rightarrow>
                      (case UnwrapDEK K A priv (MOwnerPubKey man) (WrappedDEK e) of
                         Inl err \<Rightarrow> (Inl (UnwrapFailed err), cached)
                       | Inr dek \<Rightarrow> (Inr dek, AList.update fileKey dek cached))))"

section \<open>Serving a chunk\<close>

datatype serve_error =
    NoDb
  | NoSeed string
  | NoOriginalPath string
  | IndexRange int int
  | NoSeedManifest string
  | BeyondManifest int nat
  | OriginalGone os_error
  | SeekFailed
  | ReadShort int
  | CompressFailed int
  | DekFailed dek_error
  | EncryptChunk int crypto_error
  | ServePanic
  | StoreRead store_error

record serve_keys =
  VKdf :: kdf
  VPriv :: "byte list"

text \<open>Cutting a chunk out of the original file and processing it as the manifest says.\<close>

definition read_chunk :: "byte list \<Rightarrow> int \<Rightarrow> int \<Rightarrow> chunk_info \<Rightarrow> serve_error + byte list" where
  "read_chunk content chunkSize idx ci =
     (let off = i64 (idx * chunkSize)
      in if off < 0 then Inl SeekFailed
         else if ISize ci < 0 then Inl ServePanic
         else case read_full (nat (ISize ci)) (drop (nat off) content) of
             Inl e \<Rightarrow> Inl (ReadShort idx)
           | Inr (raw, rest) \<Rightarrow> Inr raw)"

definition recompress :: "codec \<Rightarrow> int \<Rightarrow> bool \<Rightarrow> byte list \<Rightarrow> serve_error + byte list" where
  "recompress Z idx compressed raw =
     (if \<not> compressed then Inr raw
      else case CompressChunkWithPool Z (Some []) raw LevelFastest of
          (c, wc, err) \<Rightarrow> if err then Inl (CompressFailed idx) else Inr (if wc then c else raw))"

definition reencrypt ::
  "'m upload_env \<Rightarrow> net_env \<Rightarrow> serve_keys \<Rightarrow> string \<Rightarrow> int \<Rightarrow> chunk_manifest \<Rightarrow> byte list \<Rightarrow> (string, byte list) gomap
    \<Rightarrow> (serve_error + byte list) \<times> (string, byte list) gomap" where
  "reencrypt env net V fileKey idx man processed cached =
     (if \<not> MEncrypted man then (Inr processed, cached)
      else case getDEK (VKdf V) (UAead env) (VPriv V) net fileKey man cached of
          (Inl e, cached) \<Rightarrow> (Inl (DekFailed e), cached)
        | (Inr dek, cached) \<Rightarrow>
            (case EncryptStreamWithDEKPool (UAead env) (Some []) processed False dek (word_of_int idx) of
               (Some err, out) \<Rightarrow> (Inl (EncryptChunk idx err), cached)
             | (None, out) \<Rightarrow> (Inr out, cached)))"

text \<open>The path from the original file, which both handlers share. A hash that differs from the one asked for
  is only logged.\<close>

definition serve_original ::
  "'m upload_env \<Rightarrow> net_env \<Rightarrow> serve_keys \<Rightarrow> string \<Rightarrow> int \<Rightarrow> 'm \<Rightarrow> os \<Rightarrow> 'db server \<times> (string, byte list) gomap
    \<Rightarrow> (serve_error + byte list) \<times> 'db server \<times> (string, byte list) gomap" where
  "serve_original env net V fileKey idx m s = (\<lambda>(sv, cached).
     case SvDb sv of
       None \<Rightarrow> (Inl NoDb, sv, cached)
     | Some d \<Rightarrow>
         (case GetSeedSource fileKey d of
            None \<Rightarrow> (Inl (NoSeed fileKey), sv, cached)
          | Some src \<Rightarrow>
              if OriginalPath src = [] then (Inl (NoOriginalPath fileKey), sv, cached)
              else if idx < 0 \<or> STotalChunks src \<le> idx then (Inl (IndexRange idx (STotalChunks src)), sv, cached)
              else case MGetManifest (Metadata (UStore env)) m fileKey of
                  None \<Rightarrow> (Inl (NoSeedManifest fileKey), sv, cached)
                | Some man \<Rightarrow>
                    if int (length (MChunks man)) \<le> idx then (Inl (BeyondManifest idx (length (MChunks man))), sv, cached)
                    else
                      (let ci = MChunks man ! nat idx
                       in case os_ReadFile (OriginalPath src) s of
                            Inl e \<Rightarrow>
                              (Inl (OriginalGone e), deregisterProvider net fileKey (on_db (RemoveSeedSource fileKey) sv), cached)
                          | Inr content \<Rightarrow>
                              (case read_chunk content (SChunkSize src) idx ci of
                                 Inl e \<Rightarrow> (Inl e, sv, cached)
                               | Inr raw \<Rightarrow>
                                   (case recompress (UCodec env) idx (ICompressed ci) raw of
                                      Inl e \<Rightarrow> (Inl e, sv, cached)
                                    | Inr processed \<Rightarrow>
                                        (case reencrypt env net V fileKey idx man processed cached of
                                           (r, cached) \<Rightarrow> (r, sv, cached)))))))"

text \<open>\<open>handleGetMessage\<close> and \<open>handleGetChunkSwarm\<close>: what is sent on the stream, the message and the data after
  it.\<close>

definition handleGetMessage ::
  "'m chunk_store \<Rightarrow> string \<Rightarrow> 'm \<Rightarrow> os \<Rightarrow> serve_error + message \<times> byte list" where
  "handleGetMessage st key m s =
     (case ReadStream st key m s of
        Inl e \<Rightarrow> Inl (StoreRead e)
      | Inr data \<Rightarrow> Inr (MsgLocalFile key (int (length data)), data))"

definition handleGetChunkSwarm ::
  "'m upload_env \<Rightarrow> net_env \<Rightarrow> serve_keys \<Rightarrow> string \<Rightarrow> int \<Rightarrow> string \<Rightarrow> 'm \<Rightarrow> os \<Rightarrow> 'db server \<times> (string, byte list) gomap
    \<Rightarrow> (serve_error + message \<times> byte list) \<times> 'db server \<times> (string, byte list) gomap" where
  "handleGetChunkSwarm env net V fileKey idx encHash m s st =
     (let storageKey = ChunkStorageKey encHash
      in if Has (UStore env) storageKey m s then (handleGetMessage (UStore env) storageKey m s, st)
         else case serve_original env net V fileKey idx m s st of
             (Inl e, st) \<Rightarrow> (Inl e, st)
           | (Inr processed, st) \<Rightarrow> (Inr (MsgLocalFile storageKey (int (length processed)), processed), st))"

text \<open>The bidirectional call answers with a frame. \<open>etext\<close> is the text of an error of the libraries.\<close>

fun serve_text :: "(serve_error \<Rightarrow> string) \<Rightarrow> serve_error \<Rightarrow> string" where
  "serve_text etext NoDb = ''no StateDB''"
| "serve_text etext (NoSeed k) = ''no seed source for '' @ k"
| "serve_text etext (NoOriginalPath k) = ''no original path (CAS-only seeder with missing CAS data)''"
| "serve_text etext (IndexRange i n) = ''chunk index '' @ fmt_int i @ '' out of range [0, '' @ fmt_int n @ '')''"
| "serve_text etext (NoSeedManifest k) = ''manifest not found for '' @ k"
| "serve_text etext (BeyondManifest i n) = ''chunk index '' @ fmt_int i @ '' beyond manifest ('' @ itoa n @ '' chunks)''"
| "serve_text etext e = etext e"

definition rpc_frame :: "byte \<Rightarrow> byte list \<Rightarrow> byte list" where
  "rpc_frame status data = status # be_bytes 4 (length data) @ data"

definition handleGetChunkSwarmBidi ::
  "(serve_error \<Rightarrow> string) \<Rightarrow> 'm upload_env \<Rightarrow> net_env \<Rightarrow> serve_keys \<Rightarrow> bool \<Rightarrow> string \<Rightarrow> int \<Rightarrow> string \<Rightarrow> 'm \<Rightarrow> os
    \<Rightarrow> 'db server \<times> (string, byte list) gomap \<Rightarrow> byte list \<times> 'db server \<times> (string, byte list) gomap" where
  "handleGetChunkSwarmBidi etext env net V busy fileKey idx encHash m s st =
     (if busy then (rpc_frame 1 (bytes_of ''server busy''), st)
      else
        (let storageKey = ChunkStorageKey encHash
         in case (if Has (UStore env) storageKey m s then ReadStream (UStore env) storageKey m s else Inl NoMeta) of
              Inr data \<Rightarrow> (rpc_frame 0 data, st)
            | Inl e \<Rightarrow>
                (case serve_original env net V fileKey idx m s st of
                   (Inl e, st) \<Rightarrow> (rpc_frame 1 (bytes_of (serve_text etext e)), st)
                 | (Inr processed, st) \<Rightarrow> (rpc_frame 0 processed, st))))"

section \<open>Fetching a chunk\<close>

datatype swarm_error =
    SwarmNotConnected string
  | SwarmNotSent
  | SwarmNoData
  | SwarmTimeout
  | OpenStream string
  | ReadHeader
  | RemoteError "byte list"
  | ReadData

text \<open>The reading of the answer. An error text that is cut short is padded with zero bytes, as the buffer was
  allocated for the announced size.\<close>

definition parse_rpc :: "byte list \<Rightarrow> swarm_error + byte list" where
  "parse_rpc stream =
     (case read_full 5 stream of
        Inl e \<Rightarrow> Inl ReadHeader
      | Inr (hdr, rest) \<Rightarrow>
          (let sz = be_nat (drop 1 hdr)
           in if hdr ! 0 \<noteq> 0 then Inl (RemoteError (take sz rest @ replicate (sz - length rest) 0))
              else case read_full sz rest of Inl e \<Rightarrow> Inl ReadData | Inr (data, rest) \<Rightarrow> Inr data))"

text \<open>\<open>pending\<close> says that another call waits for the chunk; \<open>answer\<close> is what arrives on the channel before the
  context ends, with None inside for nil.\<close>

definition fetchChunkSwarm ::
  "net_env \<Rightarrow> bool \<Rightarrow> byte list option option \<Rightarrow> string \<Rightarrow> int \<Rightarrow> string \<Rightarrow> string \<Rightarrow> 'db server
    \<Rightarrow> (swarm_error + byte list) \<times> 'db server" where
  "fetchChunkSwarm net pending answer fileKey idx encHash peerAddr sv =
     (let result = (case answer of None \<Rightarrow> Inl SwarmTimeout | Some None \<Rightarrow> Inl SwarmNoData | Some (Some data) \<Rightarrow> Inr data)
      in if pending then (result, sv)
         else case getDataPeer sv peerAddr of
             None \<Rightarrow> (Inl (SwarmNotConnected peerAddr), sv)
           | Some p \<Rightarrow>
               (let (ok, sv) = send_msg net p (MsgGetChunkSwarm fileKey idx encHash) sv
                in if ok then (result, sv) else (Inl SwarmNotSent, sv)))"

text \<open>\<open>open_rpc\<close> is \<open>OpenBidiRPC\<close> of a connection that has it, with the bytes its stream delivers; \<open>late\<close> says
  that the context ends first.\<close>

definition fetchChunkSwarmBidi ::
  "net_env \<Rightarrow> (conn \<Rightarrow> (message \<Rightarrow> string + byte list) option) \<Rightarrow> bool \<Rightarrow> bool \<Rightarrow> byte list option option \<Rightarrow> string \<Rightarrow> int
    \<Rightarrow> string \<Rightarrow> string \<Rightarrow> 'db server \<Rightarrow> (swarm_error + byte list) \<times> 'db server" where
  "fetchChunkSwarmBidi net open_rpc late pending answer fileKey idx encHash peerAddr sv =
     (case getDataPeer sv peerAddr of
        None \<Rightarrow> (Inl (SwarmNotConnected peerAddr), sv)
      | Some p \<Rightarrow>
          (case open_rpc p of
             None \<Rightarrow> fetchChunkSwarm net pending answer fileKey idx encHash peerAddr sv
           | Some rpc \<Rightarrow>
               if late then (Inl SwarmTimeout, sv)
               else case rpc (MsgGetChunkSwarm fileKey idx encHash) of
                   Inl e \<Rightarrow> (Inl (OpenStream e), sv)
                 | Inr stream \<Rightarrow> (parse_rpc stream, sv)))"

end
