(* ===== verification/SeedLaws.thy ===== *)
theory SeedLaws
  imports Seeding ShareLaws
begin

text \<open>
  What seeding promises: a node that seeded a file in place serves, from the original file, exactly the chunks
  its manifest lists; and the provider directory keeps one record per node.
\<close>

section \<open>The size of an answer\<close>

lemma length_frames:
  assumes "aead_ok A" and "key_ok k" and "\<forall>p \<in> set ps. fits_frame p"
  shows "length (frames A k i ps) = length (concat ps) + 32 * length ps"
  using assms
proof (induction ps arbitrary: i)
  case (Cons p ps)
  have "length (frame A k i p) = length p + 32"
    using frame_layout [OF assms(1,2)] Cons.prems(3) aead_okD(1) [OF assms(1,2) length_nonce_of] by (simp add: NonceSize_def)
  then show ?case using Cons by simp
qed simp

lemma length_stream_pieces: "length (stream_pieces rest) * ChunkSize \<le> length rest + ChunkSize"
proof (induction rest rule: stream_pieces.induct)
  case (1 rest)
  then show ?case by (cases "ChunkSize \<le> length rest") (auto simp: stream_pieces.simps [of rest])
qed

lemma process_data_short:
  assumes "aead_ok A" and "process_data A Z enc i data = Inr (p, was)" and "length data \<le> 4194304"
  shows "length p < 2 ^ 32"
proof -
  obtain q w where q: "compress_stage Z data = (q, w)" by fastforce
  have "length q \<le> length data"
    using q by (auto simp: compress_stage_def CompressChunkWithPool_def Let_def split: if_splits)
  then have lq: "length q \<le> 4194304" using assms(3) by simp
  show ?thesis
  proof (cases enc)
    case None
    then show ?thesis using assms(2) q lq by (simp add: process_data_def)
  next
    case (Some e)
    then have "key_ok (EDEK e)" and p: "p = frames A (EDEK e) (word_of_int i) (stream_pieces q)"
      using assms(2) q
      by (auto simp: process_data_def EncryptStreamWithDEKPool_eq EncryptStreamWithDEK_def encrypt_frames split: if_splits)
    then have "length p = length q + 32 * length (stream_pieces q)"
      using length_frames [OF assms(1) _ stream_pieces_fit] stream_pieces_props [of q] by simp
    moreover have "length (stream_pieces q) \<le> length q + 1"
      using length_stream_pieces [of q] by (simp add: ChunkSize_def)
    ultimately show ?thesis using lq by simp
  qed
qed

lemma parse_rpc_frame: "length data < 2 ^ 32 \<Longrightarrow> parse_rpc (rpc_frame 0 data) = Inr data"
  by (simp add: parse_rpc_def rpc_frame_def read_full_def Let_def)

section \<open>The same bytes again\<close>

lemma recompress_same:
  assumes "compress_stage Z data = (q, w)"
  shows "recompress Z i w data = Inr q"
  using assms
  by (auto simp: compress_stage_def recompress_def CompressChunkWithPool_def Let_def split: if_splits)

lemma index_chunks_ok:
  assumes "index_chunks env ctx enc progress tot n cs = (Inr infos, eff)"
  shows "\<exists>pcs. infos = map PCInfo pcs \<and> list_all2 (\<lambda>c pc. process_chunk env enc c = Inr pc) cs pcs"
  using assms
proof (induction cs arbitrary: n infos eff)
  case (Cons c cs)
  then obtain pc infos' eff' where pc: "process_chunk env enc c = Inr pc" and
      r: "index_chunks env ctx enc progress tot (n + 1) cs = (Inr infos', eff')" "infos = PCInfo pc # infos'"
    by (auto simp: Let_def split: if_splits sum.splits prod.splits)
  from Cons.IH [OF r(1)] obtain pcs where "infos' = map PCInfo pcs" "list_all2 (\<lambda>c pc. process_chunk env enc c = Inr pc) cs pcs"
    by blast
  then show ?case using pc r(2) by (intro exI [of _ "pc # pcs"]) simp
qed simp

lemma read_chunk_piece:
  assumes "i * N < length content" and "int (length content) < 2 ^ 63" and "ISize ci = int (length (piece N content i))"
  shows "read_chunk content (int N) (int i) ci = Inr (piece N content i)"
proof -
  have "int (i * N) < 2 ^ 63" using assms(1,2) by linarith
  moreover have "0 \<le> int (i * N)" by (rule of_nat_0_le_iff)
  ultimately have "in_i64 (int (i * N))" unfolding in_i64_def by linarith
  then have "i64 (int i * int N) = int (i * N)" by simp
  moreover have "length (piece N content i) \<le> length (drop (i * N) content)" "take (length (piece N content i)) (drop (i * N) content) = piece N content i"
    by (simp_all add: piece_def min_def)
  ultimately show ?thesis using assms(3) by (simp add: read_chunk_def read_full_def Let_def del: of_nat_mult)
qed

section \<open>The seed source stays\<close>

definition seeds :: "string \<Rightarrow> seed_source \<Rightarrow> 'db server \<Rightarrow> bool" where
  "seeds key src sv \<longleftrightarrow> (\<exists>d. SvDb sv = Some d \<and> db_ok d \<and> GetSeedSource key d = Some src)"

lemma sendToAddr_db [simp]: "SvDb (snd (sendToAddr env addr m sv)) = SvDb sv"
  by (simp add: sendToAddr_def send_msg_def split: option.split)

lemma seeds_register_at: "seeds key src sv \<Longrightarrow> seeds key src (register_at net k r as sv)"
proof (induction as arbitrary: sv)
  case (Cons a as)
  have "seeds key src (snd (sendToAddr net a m sv))" for m using Cons.prems by (simp add: seeds_def)
  moreover have "seeds key src (on_db (AddProvider k r) sv)"
  proof -
    obtain d where d: "SvDb sv = Some d" "db_ok d" "GetSeedSource key d = Some src" using Cons.prems by (auto simp: seeds_def)
    then show ?thesis
      by (auto simp: seeds_def keep_old_def AddProvider_def GetSeedSource_def get_as_def db_put_get db_put_ok split: sum.split)
  qed
  ultimately show ?case using Cons.IH by simp
qed simp

section \<open>Serving what was seeded\<close>

lemma reencrypt_same:
  assumes "process_data A Z enc idx data = Inr (p, was)" and "compress_stage Z data = (q, was)" and "A = UAead env"
    and "MEncrypted man \<longleftrightarrow> enc \<noteq> None"
    and "\<And>e. enc = Some e \<Longrightarrow> fst (getDEK (VKdf V) A (VPriv V) net key man cached) = Inr (EDEK e)"
  shows "fst (reencrypt env net V key idx man q cached) = Inr p"
proof (cases enc)
  case None
  then show ?thesis using assms by (simp add: process_data_def reencrypt_def)
next
  case (Some e)
  then obtain c where c: "getDEK (VKdf V) A (VPriv V) net key man cached = (Inr (EDEK e), c)"
    using assms(5) by (metis prod.collapse)
  have "EncryptStreamWithDEKPool A (Some []) q False (EDEK e) (word_of_int idx) = (None, p)"
    using assms(1,2) Some by (auto simp: process_data_def split: prod.splits option.splits)
  then show ?thesis using Some c assms(3,4) by (simp add: reencrypt_def)
qed

lemma process_data_was:
  assumes "process_data A Z enc idx data = Inr (p, was)"
  shows "\<exists>q. compress_stage Z data = (q, was)"
  using assms by (auto simp: process_data_def split: prod.splits option.splits)

lemma serve_original_chunk:
  assumes "seeds key src sv" and "OriginalPath src = path" and "path \<noteq> []" and "SChunkSize src = DefaultChunkSize"
    and "STotalChunks src = int (length (MChunks man))" and "MGetManifest (Metadata (UStore env)) m key = Some man"
    and "os_ReadFile path s = Inr content" and "int (length content) < 2 ^ 63" and "i < length (MChunks man)"
    and "process_chunk env enc c = Inr pc" and "MChunks man ! i = PCInfo pc"
    and "CIndex c = int i" and "CData c = piece (nat DefaultChunkSize) content i" and "CSize c = int (length (CData c))"
    and "i * nat DefaultChunkSize < length content"
    and "MEncrypted man \<longleftrightarrow> enc \<noteq> None"
    and "\<And>e. enc = Some e \<Longrightarrow> fst (getDEK (VKdf V) (UAead env) (VPriv V) net key man cached) = Inr (EDEK e)"
  shows "fst (serve_original env net V key (int i) m s (sv, cached)) = Inr (PCData pc)"
proof -
  obtain d where d: "SvDb sv = Some d" "GetSeedSource key d = Some src" using assms(1) by (auto simp: seeds_def)
  note P = process_chunk_props [OF assms(10)]
  have pd: "process_data (UAead env) (UCodec env) enc (int i) (CData c) = Inr (PCData pc, ICompressed (PCInfo pc))"
    using P(6) assms(12) by simp
  from process_data_was [OF this] obtain q where q: "compress_stage (UCodec env) (CData c) = (q, ICompressed (PCInfo pc))" by blast
  have "read_chunk content (SChunkSize src) (int i) (PCInfo pc) = Inr (CData c)"
    using read_chunk_piece [of i "nat DefaultChunkSize" content "PCInfo pc"] assms(4,8,13-15) P(3)
    by (simp add: DefaultChunkSize_def)
  moreover have "recompress (UCodec env) (int i) (ICompressed (PCInfo pc)) (CData c) = Inr q" by (rule recompress_same [OF q])
  moreover obtain c' where "reencrypt env net V key (int i) man q cached = (Inr (PCData pc), c')"
    using reencrypt_same [OF pd q refl assms(16,17)] by (metis prod.collapse)
  ultimately show ?thesis
    using d assms(2,3,5-7,9,11) by (simp add: serve_original_def)
qed

lemma chunk_facts:
  assumes "ChunkReader sha256 DefaultChunkSize content fails = (cs, err)"
  shows "(i < length cs \<longleftrightarrow> i * nat DefaultChunkSize < length content)"
    and "i < length cs \<Longrightarrow> CIndex (cs ! i) = int i \<and> CData (cs ! i) = piece (nat DefaultChunkSize) content i \<and>
      CSize (cs ! i) = int (length (CData (cs ! i))) \<and> VerifyChunk sha256 (cs ! i) \<and> length (CData (cs ! i)) \<le> 4194304"
proof -
  have N: "0 < nat DefaultChunkSize" by (simp add: DefaultChunkSize_def)
  have l: "chunk_loop sha256 (nat DefaultChunkSize) fails 0 content = (cs, err)"
    using assms by (simp add: ChunkReader_def DefaultChunkSize_def)
  note P = chunk_loop_props [OF N l] and Q = chunk_loop_pieces [OF N l]
  show "i < length cs \<longleftrightarrow> i * nat DefaultChunkSize < length content" using Q by blast
  show "CIndex (cs ! i) = int i \<and> CData (cs ! i) = piece (nat DefaultChunkSize) content i \<and>
      CSize (cs ! i) = int (length (CData (cs ! i))) \<and> VerifyChunk sha256 (cs ! i) \<and> length (CData (cs ! i)) \<le> 4194304"
    if i: "i < length cs"
  proof -
    have "map CIndex cs = map (\<lambda>i. 0 + int i) [0..<length cs]" "map CData cs = map (piece (nat DefaultChunkSize) content) [0..<length cs]"
      using P Q by blast+
    from this [THEN arg_cong [where f = "\<lambda>xs. xs ! i"]] have "CIndex (cs ! i) = int i" "CData (cs ! i) = piece (nat DefaultChunkSize) content i"
      using i by simp_all
    moreover have "cs ! i \<in> set cs" using i by simp
    then have "CSize (cs ! i) = int (length (CData (cs ! i)))" "VerifyChunk sha256 (cs ! i)" "length (CData (cs ! i)) \<le> nat DefaultChunkSize"
      using P by blast+
    ultimately show ?thesis by (simp add: DefaultChunkSize_def)
  qed
qed

lemma seed_manifest_sel [simp]:
  "MChunks (seed_manifest env enc seeder key infos t) = infos"
  "MEncrypted (seed_manifest env enc seeder key infos t) \<longleftrightarrow> enc \<noteq> None"
  "MSeedMode (seed_manifest env enc seeder key infos t)"
  "describes sha256 content N (seed_manifest env enc seeder key infos t) \<longleftrightarrow> describes sha256 content N (upload_manifest env enc key infos t)"
  by (cases enc; simp add: seed_manifest_def describes_def upload_manifest_def BuildManifest_def Let_def)+

text \<open>What a successful \<open>SeedInPlace\<close> leaves.\<close>

lemma seeded_state:
  fixes m :: "'db bolt_meta" and sv :: "'b server"
  assumes "SeedInPlace env net J ctx key path False enc fileSize progress m sv s = (Seeded, eff, m', sv')"
    and "Metadata (UStore env) = bm_ops" and "kv_ok (BMOps m)" and "\<not> reserved key"
    and "\<forall>infos. (\<forall>i \<in> set infos. hex_info i) \<longrightarrow> json_ok (BMManifest m) (seed_manifest env enc (self_address net sv) key infos (UNow env 0))"
    and "SvDb sv = Some d" and "db_ok d" and "bolt_writable (Ops d)"
  shows "\<exists>content cs pcs man src. os_ReadFile path s = Inr content \<and>
    ChunkReader (USha env) DefaultChunkSize content False = (cs, False) \<and>
    list_all2 (\<lambda>c pc. process_chunk env enc c = Inr pc) cs pcs \<and>
    man = seed_manifest env enc (self_address net sv) key (map PCInfo pcs) (UNow env 0) \<and>
    bm_GetManifest m' key = Some man \<and> seeds key src sv' \<and> OriginalPath src = path \<and> SChunkSize src = DefaultChunkSize \<and>
    STotalChunks src = int (length pcs)"
proof -
  obtain content where content: "os_ReadFile path s = Inr content" using assms(1) by (auto simp: SeedInPlace_def Let_def split: sum.splits)
  obtain cs rerr where cs: "ChunkReader (USha env) DefaultChunkSize content False = (cs, rerr)" by fastforce
  obtain r eff' where r: "index_chunks env ctx enc progress (chunk_estimate (if fileSize \<le> 0 then int (length content) else fileSize)) 0 cs = (r, eff')"
    by fastforce
  obtain infos where infos: "r = Inr infos" "\<not> rerr"
    using assms(1) content cs r by (cases r) (auto simp: SeedInPlace_def Let_def split: if_splits)
  obtain pcs where pcs: "infos = map PCInfo pcs" "list_all2 (\<lambda>c pc. process_chunk env enc c = Inr pc) cs pcs"
    using index_chunks_ok r infos(1) by blast
  let ?man = "seed_manifest env enc (self_address net sv) key infos (UNow env 0)"
  let ?src = "\<lparr>OriginalPath = path, CASBacked = False, SChunkSize = DefaultChunkSize, STotalChunks = int (length infos),
    SBitfield = (case NewFullBitfield (int (length infos)) of None \<Rightarrow> [] | Some b \<Rightarrow> b)\<rparr>"
  let ?me = "normalizeAddr (NP6 net) (NAddr net)"
  obtain m1 sv1 where m1: "MSetManifest bm_ops m key ?man = (None, m1)"
      and m': "MSet bm_ops m1 key (top_meta bm_ops m1 key ?me (UNow env 1)) = (None, m')"
      and sv1: "replicateManifest net J key ?me ?man sv = Some sv1"
      and sv': "registerProvider net (UNow env 2) key (int (length infos)) (int (length infos))
        (on_db (StateDB.SetSeedSource key ?src) sv1) = Some sv'"
    using assms(1,2) content cs r infos
    by (auto simp: SeedInPlace_def Let_def split: prod.splits option.splits if_splits)
  have inv1: "kv_ok (BMOps m1)" and got1: "MGetManifest bm_ops m1 key = Some ?man"
    using bolt_store.set_man_inv [OF assms(3) m1] bolt_store.man_set_man [OF assms(3) m1] assms(5) processed_hex [OF pcs(2)] pcs(1)
    by blast+
  have "MGetManifest bm_ops m' key = Some ?man" using bolt_store.man_set [OF inv1 m' assms(4)] got1 by simp
  then have man: "bm_GetManifest m' key = Some ?man" by (simp add: bm_ops_def)
  have db1: "SvDb sv1 = Some d"
    using sv1 assms(6) by (auto simp: replicateManifest_def send_manifest_out split: option.splits)
  obtain d2 where d2: "db_put SeedSources key (DSeed ?src) d = Inr d2" using db_put_writable [OF assms(8)] by blast
  have "seeds key ?src (on_db (StateDB.SetSeedSource key ?src) sv1)"
    using d2 db1 assms(7) db_put_ok [OF d2] db_put_get [OF d2]
    by (simp add: seeds_def StateDB.SetSeedSource_def keep_old_def GetSeedSource_def get_as_def)
  then have "seeds key ?src sv'" using sv' seeds_register_at by (auto simp: registerProvider_def split: option.splits)
  then show ?thesis using content cs infos(2) pcs man by (intro exI [of _ content] exI [of _ cs] exI [of _ pcs] exI [of _ ?man] exI [of _ ?src]) simp
qed

text \<open>C33. A file seeded in place is served without having been stored: while the original file is unchanged, a
  request for any chunk of the manifest, named by its hash, is answered with a frame that the requesting side
  parses to bytes of exactly that hash, and opening them gives the piece of the file at that place, whether
  the file is compressed, encrypted or neither; the pieces together are the file. Two hypotheses on the node: it holds no chunk in
  its local store, so every chunk is made from the file, and \<open>getDEK\<close> returns the key of this upload for the manifest, which holds of
  a node whose cache of keys has none for the file from an earlier seeding (the cache is never invalidated).\<close>

theorem seeded_chunks_served:
  fixes m :: "'db bolt_meta" and sv :: "'b server"
  assumes "SeedInPlace env net J ctx key path False enc fileSize progress m sv s = (Seeded, eff, m', sv')"
    and "Metadata (UStore env) = bm_ops" and "kv_ok (BMOps m)" and "\<not> reserved key"
    and "\<forall>infos. (\<forall>i \<in> set infos. hex_info i) \<longrightarrow> json_ok (BMManifest m) (seed_manifest env enc (self_address net sv) key infos (UNow env 0))"
    and "SvDb sv = Some d" and "db_ok d" and "bolt_writable (Ops d)"
    and "os_ReadFile path s = Inr content" and "path \<noteq> []" and "int (length content) < 2 ^ 63"
    and "aead_ok (UAead env)" and "codec_ok (UCodec env)"
    and "SDecrypt rd = server_decrypt (UAead env)" and "SDecompress rd = server_decompress (UCodec env)"
    and "\<forall>h. \<not> Has (UStore env) (ChunkStorageKey h) m' s"
    and "\<forall>e man. enc = Some e \<and> MOwnerPubKey man = EOwnerPubKey e \<and> MAccessList man = EAccessList e \<longrightarrow>
      fst (getDEK (VKdf V) (UAead env) (VPriv V) net key man cached) = Inr (EDEK e)"
  shows "\<exists>man. bm_GetManifest m' key = Some man \<and> describes (USha env) content (nat DefaultChunkSize) man \<and>
    (\<forall>i < length (MChunks man). \<exists>data.
       parse_rpc (fst (handleGetChunkSwarmBidi etext env net V False key (int i) (IEncHash (MChunks man ! i)) m' s (sv', cached))) =
         Inr data \<and>
       hex_encode (USha env data) = IEncHash (MChunks man ! i) \<and>
       open_stored (USha env) rd man (dek_of enc) i data = Inr (piece (nat DefaultChunkSize) content i)) \<and>
    concat (map (piece (nat DefaultChunkSize) content) [0..<length (MChunks man)]) = content"
proof -
  obtain cs pcs man src where cs: "ChunkReader (USha env) DefaultChunkSize content False = (cs, False)"
      and pcs: "list_all2 (\<lambda>c pc. process_chunk env enc c = Inr pc) cs pcs"
      and man: "man = seed_manifest env enc (self_address net sv) key (map PCInfo pcs) (UNow env 0)"
      and got: "bm_GetManifest m' key = Some man"
      and src: "seeds key src sv'" "OriginalPath src = path" "SChunkSize src = DefaultChunkSize" "STotalChunks src = int (length pcs)"
    using seeded_state [OF assms(1-8)] assms(9) by auto
  have chunks: "MChunks man = map PCInfo pcs" "MEncrypted man \<longleftrightarrow> enc \<noteq> None" by (simp_all add: man)
  have "describes (USha env) content (nat DefaultChunkSize) (upload_manifest env enc key (map PCInfo pcs) (UNow env 0))"
    using uploaded_manifest_describes [of content env enc pcs] assms(11) pcs cs by simp
  then have des: "describes (USha env) content (nat DefaultChunkSize) man" by (simp add: man)
  have served: "\<exists>data. parse_rpc (fst (handleGetChunkSwarmBidi etext env net V False key (int i) (IEncHash (MChunks man ! i)) m' s (sv', cached))) =
         Inr data \<and>
       hex_encode (USha env data) = IEncHash (MChunks man ! i) \<and>
       open_stored (USha env) rd man (dek_of enc) i data = Inr (piece (nat DefaultChunkSize) content i)"
    if i: "i < length (MChunks man)" for i
  proof -
    let ?c = "cs ! i" let ?pc = "pcs ! i"
    have l: "i < length cs" "i < length pcs" using i pcs chunks(1) by (simp_all add: list_all2_lengthD)
    have pc: "process_chunk env enc ?c = Inr ?pc" using pcs l by (simp add: list_all2_conv_all_nth)
    have at: "MChunks man ! i = PCInfo ?pc" using l chunks(1) by simp
    note F = chunk_facts(2) [OF cs l(1)]
    have dek: "fst (getDEK (VKdf V) (UAead env) (VPriv V) net key man cached) = Inr (EDEK e)" if "enc = Some e" for e
      using assms(17) that by (simp add: man seed_manifest_def upload_manifest_def)
    have "fst (serve_original env net V key (int i) m' s (sv', cached)) = Inr (PCData ?pc)"
      using serve_original_chunk [OF src(1,2) assms(10) src(3) _ _ assms(9,11) i pc at] F chunks src(4) got assms(2) l(1) dek
        chunk_facts(1) [OF cs] by (simp add: bm_ops_def)
    then obtain st where "serve_original env net V key (int i) m' s (sv', cached) = (Inr (PCData ?pc), st)" by (metis prod.collapse)
    then have "fst (handleGetChunkSwarmBidi etext env net V False key (int i) (IEncHash (MChunks man ! i)) m' s (sv', cached)) =
        rpc_frame 0 (PCData ?pc)"
      using assms(16) by (simp add: handleGetChunkSwarmBidi_def Let_def)
    moreover have "length (PCData ?pc) < 2 ^ 32"
      by (rule process_data_short [OF assms(12) process_chunk_props(6) [OF pc]]) (use F in blast)
    moreover have "open_stored (USha env) rd man (dek_of enc) i (PCData ?pc) = Inr (CData ?c)"
      by (rule listed_chunk_opens [OF assms(12,13) pc _ at assms(14,15)]) (use F in blast)
    moreover have "hex_encode (USha env (PCData ?pc)) = IEncHash (MChunks man ! i)" using process_chunk_props(4) [OF pc] at by simp
    ultimately show ?thesis using F parse_rpc_frame by auto
  qed
  show ?thesis using got des served pieces_concat [OF des] by blast
qed

section \<open>Instances\<close>

definition demo_disk :: os where
  "demo_disk = no_files\<lparr>Files := [''p'' \<mapsto> [1, 2, 3]]\<rparr>"

definition demo_opener :: "((meta_bucket \<times> string) \<times> byte list) list bolt_meta serial_env" where
  "demo_opener = \<lparr>SStore = demo_store, SMd5 = demo_md5, SRnd = (\<lambda>n. ''1''), SFetch = (\<lambda>n k. Inl []),
     SDecrypt = server_decrypt demo_aead, SDecompress = server_decompress demo_codec, SCancelled = (\<lambda>n. False),
     SWrites = (\<lambda>i. True)\<rparr>"

lemma demo_ring [simp]: "ring_GetNodes sha256 (ring_New None) key n = Some []"
  by (simp add: ring_GetNodes_def ring_New_def Let_def)

lemma demo_seeded:
  assumes pc: "process_chunk demo_upload (Some demo_enc) (demo_chunk_of [1, 2, 3]) = Inr pc"
  shows "\<exists>eff m sv. SeedInPlace demo_upload demo_net lossless_json (\<lambda>n. False) ''f'' ''p'' False (Some demo_enc) 3 False
      demo_meta_store demo_server demo_disk = (Seeded, eff, m, sv) \<and> (\<forall>h. \<not> Has demo_store (ChunkStorageKey h) m demo_disk)"
proof -
  let ?man = "seed_manifest demo_upload (Some demo_enc) (self_address demo_net demo_server) ''f'' [PCInfo pc] 0"
  let ?me = "normalizeAddr (\<lambda>s. None) '':3000''"
  have kv: "BMOps demo_meta_store = alist_kv" "kv_ok (BMOps demo_meta_store)" by (simp_all add: demo_meta_store_def alist_kv_ok)
  obtain m1 where m1: "bm_SetManifest demo_meta_store ''f'' ?man = (None, m1)" "BMOps m1 = alist_kv" using alist_set(2) [OF kv(1)] by blast
  obtain m2 where m2: "bm_Set m1 ''f'' (top_meta bm_ops m1 ''f'' ?me 0) = (None, m2)" using alist_set(1) [OF m1(2)] by blast
  have "MGet bm_ops m2 (ChunkStorageKey h) = None" for h
  proof -
    have "MGet bm_ops m2 (ChunkStorageKey h) = MGet bm_ops m1 (ChunkStorageKey h)"
      using bolt_store.get_set_other [of m1 "''f''" "top_meta bm_ops m1 ''f'' ?me 0" None m2 "ChunkStorageKey h"] m2 m1(2) alist_kv_ok
      by (simp add: bm_ops_def ChunkStorageKey_def)
    also have "\<dots> = MGet bm_ops demo_meta_store (ChunkStorageKey h)"
      using bolt_store.get_set_man [OF kv(2), of "''f''" ?man None m1] m1(1) by (simp add: bm_ops_def ChunkStorageKey_def reserved_def)
    finally show ?thesis by (simp add: bm_ops_def)
  qed
  then have "\<not> Has demo_store (ChunkStorageKey h) m2 demo_disk" for h by (simp add: Has_def)
  moreover have "os_ReadFile ''p'' demo_disk = Inr [1, 2, 3]"
    by (simp add: demo_disk_def os_ReadFile_def no_files_def refuses_def NUL_def)
  ultimately show ?thesis
    using pc m1(1) m2 demo_reader
    by (simp add: SeedInPlace_def Let_def replicateManifest_def registerProvider_def demo_chunk_of_def bm_ops_def)
qed

theorem seeded_chunks_served_witness:
  "\<exists>eff m' sv' man data. SeedInPlace demo_upload demo_net lossless_json (\<lambda>n. False) ''f'' ''p'' False (Some demo_enc) 3 False
      demo_meta_store demo_server demo_disk = (Seeded, eff, m', sv') \<and>
    bm_GetManifest m' ''f'' = Some man \<and> 0 < length (MChunks man) \<and>
    parse_rpc (fst (handleGetChunkSwarmBidi (\<lambda>e. []) demo_upload demo_net \<lparr>VKdf = undefined, VPriv = []\<rparr> False ''f'' 0
      (IEncHash (MChunks man ! 0)) m' demo_disk (sv', [(''f'', EDEK demo_enc)]))) = Inr data \<and>
    hex_encode (demo_sha data) = IEncHash (MChunks man ! 0)"
proof -
  obtain pc where pc: "process_chunk demo_upload (Some demo_enc) (demo_chunk_of [1, 2, 3]) = Inr pc" using demo_process by blast
  obtain eff m' sv' where up: "SeedInPlace demo_upload demo_net lossless_json (\<lambda>n. False) ''f'' ''p'' False (Some demo_enc) 3 False
      demo_meta_store demo_server demo_disk = (Seeded, eff, m', sv')" and has: "\<forall>h. \<not> Has demo_store (ChunkStorageKey h) m' demo_disk"
    using demo_seeded [OF pc] by blast
  have sel: "Metadata (UStore demo_upload) = bm_ops" "kv_ok (BMOps demo_meta_store)" "\<not> reserved ''f''" "SvDb demo_server = Some alist_db"
      "db_ok alist_db" "bolt_writable (Ops alist_db)" "os_ReadFile ''p'' demo_disk = Inr [1, 2, 3]" "BMManifest demo_meta_store = lossless_json"
    by (simp_all add: demo_meta_store_def alist_kv_ok reserved_def db_ok_def alist_bolt_ok alist_bolt_writable demo_disk_def
        os_ReadFile_def no_files_def refuses_def NUL_def)
  have ok: "aead_ok (UAead demo_upload)" "codec_ok (UCodec demo_upload)" using demo_aead_ok by (simp_all add: codec_ok_def demo_codec_def)
  have rd: "SDecrypt demo_opener = server_decrypt (UAead demo_upload)" "SDecompress demo_opener = server_decompress (UCodec demo_upload)"
    by (simp_all add: demo_opener_def)
  have dek: "\<forall>e man. Some demo_enc = Some e \<and> MOwnerPubKey man = EOwnerPubKey e \<and> MAccessList man = EAccessList e \<longrightarrow>
      fst (getDEK (VKdf \<lparr>VKdf = undefined, VPriv = []\<rparr>) (UAead demo_upload) (VPriv \<lparr>VKdf = undefined, VPriv = []\<rparr>) demo_net ''f'' man
        [(''f'', EDEK demo_enc)]) = Inr (EDEK e)"
    by (simp add: getDEK_def)
  have js: "\<forall>infos. (\<forall>i \<in> set infos. hex_info i) \<longrightarrow> json_ok (BMManifest demo_meta_store)
      (seed_manifest demo_upload (Some demo_enc) (self_address demo_net demo_server) ''f'' infos (UNow demo_upload 0))"
    by (simp add: sel(8))
  have path: "''p'' \<noteq> []" "int (length [1 :: byte, 2, 3]) < 2 ^ 63" by simp_all
  have none: "\<forall>h. \<not> Has (UStore demo_upload) (ChunkStorageKey h) m' demo_disk" using has by simp
  from seeded_chunks_served [OF up sel(1-3) js sel(4-7) path ok rd none dek, of "\<lambda>e. []"]
  obtain man where man: "bm_GetManifest m' ''f'' = Some man" "describes (USha demo_upload) [1, 2, 3] (nat DefaultChunkSize) man"
      "\<forall>i < length (MChunks man). \<exists>data.
       parse_rpc (fst (handleGetChunkSwarmBidi (\<lambda>e. []) demo_upload demo_net \<lparr>VKdf = undefined, VPriv = []\<rparr> False ''f'' (int i)
         (IEncHash (MChunks man ! i)) m' demo_disk (sv', [(''f'', EDEK demo_enc)]))) = Inr data \<and>
       hex_encode (USha demo_upload data) = IEncHash (MChunks man ! i)"
    by blast
  have "0 < length (MChunks man)" using describes_chunks(1) [OF man(2), of 0] by simp
  then show ?thesis using up man(1,3) by fastforce
qed

end
