(* ===== verification/Node.thy ===== *)
theory Node
  imports Seeding Quorum Gossip Merkle Handoff
begin

text \<open>
  A whole node: the state of Server/server.go with its services, the handlers of stored data, chunks,
  manifests and quorum messages, and the dispatch of \<open>handleMessage\<close> and \<open>dataLoop\<close> over all of them.

  A handler that the dispatch starts as a goroutine becomes a task, which \<open>run_task\<close> runs later; so messages
  and tasks interleave in any order. A channel is its capacity and the values in it; \<open>can_send\<close> is the rule of Go by which a
  send on a buffered channel proceeds, so the bound on a channel is not a guard of the program. A send on a full channel
  waits: then the dispatch has no result and the message stays.

  One step is one handler, and it takes no time. In the code a handler can also wait for a lock, for the disk or
  for a connection that does not take its bytes (\<open>peer.SendMsg\<close> of a quorum write, a manifest, a chunk offer or an
  announcement), and the loop stands still meanwhile; these waits are not values of the model. Where two goroutines of the code share
  memory within one handler, the other one's effect is a parameter: \<open>EvCopied\<close> is what the pooled buffer of a chunk holds when
  \<open>handleLocalMessage\<close> copies it after the worker has received it.

  The bytes that follow a message on its stream
  come with it; \<open>NdStreams\<close> collects the messages sent with such bytes, when the send succeeds. \<open>pendingOffer\<close> never gets an entry, so the
  channel of a \<open>MessageChunkNeed\<close> is never found. The text of library errors is a parameter.
\<close>

section \<open>State\<close>

record chan =
  ChCap :: nat
  ChData :: "byte list list"

definition can_send :: "chan \<Rightarrow> bool" where
  "can_send ch \<longleftrightarrow> length (ChData ch) < ChCap ch"

definition chan_put :: "byte list \<Rightarrow> chan \<Rightarrow> chan" where
  "chan_put d ch = ch\<lparr>ChData := ChData ch @ [d]\<rparr>"

text \<open>\<open>select { case ch <- d: default: }\<close> on the channel of a key, if there is one.\<close>

definition offer :: "string \<Rightarrow> byte list \<Rightarrow> (string, chan) gomap \<Rightarrow> (string, chan) gomap" where
  "offer key d chans =
     (case map_of chans key of
        None \<Rightarrow> chans
      | Some ch \<Rightarrow> if can_send ch then AList.update key (chan_put d ch) chans else chans)"

text \<open>\<open>if ok { ch <- d }\<close>: None while the channel is full.\<close>

definition deliver_on :: "string \<Rightarrow> byte list \<Rightarrow> (string, chan) gomap \<Rightarrow> (string, chan) gomap option" where
  "deliver_on key d chans =
     (case map_of chans key of
        None \<Rightarrow> Some chans
      | Some ch \<Rightarrow> if can_send ch then Some (AList.update key (chan_put d ch) chans) else None)"

text \<open>What a started goroutine still has to do: handle a message and the bytes that follow it, or dial.\<close>

datatype task =
    HandleTask string conn message "byte list"
  | DialTask string

record ('db, 'm) node =
  NdServer :: "'db server"
  NdMeta :: 'm
  NdOs :: os
  NdDeks :: "(string, byte list) gomap"
  NdPending :: "(string, chan) gomap"
  NdSearch :: "(string, search_result list list) gomap"
  NdQuorum :: "coordinator option"
  NdReads :: "(string, nat \<times> read_response list) gomap"
  NdAnti :: "anti_entropy option"
  NdHints :: "hint_store option"
  NdCas :: "(string \<times> byte list) list"
  NdTasks :: "task list"
  NdStreams :: "(conn \<times> message \<times> byte list) list"
  NdUploads :: int
  NdDialing :: "string set"

record 'm node_env =
  EvNet :: net_env
  EvUp :: "'m upload_env"
  EvKeys :: serve_keys
  EvGossip :: "gossip_service option"
  EvManifest :: "chunk_manifest json"
  EvPublic :: "public_file_entry list json"
  EvInfos :: "provider_info list json"
  EvStoreText :: "store_error \<Rightarrow> string"
  EvServeText :: "serve_error \<Rightarrow> string"
  EvHintWrites :: writes
  EvBootstrap :: "string set"
  EvKeysOf :: "'m \<Rightarrow> string list"
  EvCopied :: "string \<Rightarrow> byte list \<Rightarrow> byte list"

definition on_server :: "('db server \<Rightarrow> 'db server) \<Rightarrow> ('db, 'm) node \<Rightarrow> ('db, 'm) node" where
  "on_server f nd = nd\<lparr>NdServer := f (NdServer nd)\<rparr>"

definition send_stream ::
  "'m node_env \<Rightarrow> conn \<Rightarrow> message \<Rightarrow> byte list \<Rightarrow> ('db, 'm) node \<Rightarrow> bool \<times> ('db, 'm) node" where
  "send_stream ev p msg data nd =
     (let (ok, sv) = send_msg (EvNet ev) p msg (NdServer nd)
      in (ok, nd\<lparr>NdServer := sv, NdStreams := (if ok then NdStreams nd @ [(p, msg, data)] else NdStreams nd)\<rparr>))"

definition ev_store :: "'m node_env \<Rightarrow> 'm chunk_store" where
  "ev_store ev = UStore (EvUp ev)"

definition ev_ops :: "'m node_env \<Rightarrow> 'm meta_ops" where
  "ev_ops ev = Metadata (UStore (EvUp ev))"

datatype node_error =
    NodeNet net_error
  | BadManifest
  | NotSaved string
  | NodeServe serve_error
  | NodeStore store_error
  | StreamCut
  | StreamPanic
  | NotSentTo conn
  | FetchFailed string

section \<open>Stored data\<close>

definition write_store ::
  "'m node_env \<Rightarrow> string \<Rightarrow> string \<Rightarrow> byte list \<Rightarrow> ('db, 'm) node \<Rightarrow> (store_error + nat) \<times> ('db, 'm) node" where
  "write_store ev rnd key data nd =
     (case WriteStream (UMd5 (EvUp ev)) rnd (ev_store ev) key (Some data) (NdMeta nd) (NdOs nd) of
        (r, m, s) \<Rightarrow> (r, nd\<lparr>NdMeta := m, NdOs := s\<rparr>))"

definition readFile :: "'m node_env \<Rightarrow> string \<Rightarrow> ('db, 'm) node \<Rightarrow> store_error + byte list" where
  "readFile ev key nd = ReadStream (ev_store ev) key (NdMeta nd) (NdOs nd)"

definition isSwarmCacheKey :: "string \<Rightarrow> bool" where
  "isSwarmCacheKey key \<longleftrightarrow> prefix ''chunk:'' key"

definition storeHint :: "'m node_env \<Rightarrow> int \<Rightarrow> string \<Rightarrow> string \<Rightarrow> int \<Rightarrow> ('db, 'm) node \<Rightarrow> ('db, 'm) node" where
  "storeHint ev now targetAddr key dataSize nd =
     nd\<lparr>NdHints := map_option
       (StoreHint (EvHintWrites ev)
          \<lparr>HKey = key, HTarget = targetAddr, HSize = dataSize, HCreated = now, HAttempts = 0\<rparr>) (NdHints nd)\<rparr>"

definition handleStoreMessage ::
  "'m node_env \<Rightarrow> string \<Rightarrow> string \<Rightarrow> int \<Rightarrow> byte list \<Rightarrow> ('db, 'm) node \<Rightarrow> node_error option \<times> ('db, 'm) node" where
  "handleStoreMessage ev rnd key sz stream nd =
     (case write_store ev rnd key (take (nat sz) stream) nd of
        (Inl e, nd) \<Rightarrow> (Some (NodeStore e), nd)
      | (Inr n, nd) \<Rightarrow> (None, nd))"

definition handleChunkOffer ::
  "'m node_env \<Rightarrow> conn \<Rightarrow> string list \<Rightarrow> ('db, 'm) node \<Rightarrow> node_error option \<times> ('db, 'm) node" where
  "handleChunkOffer ev p hashes nd =
     (let missing = filter (\<lambda>h. \<not> Has (ev_store ev) (ChunkStorageKey h) (NdMeta nd) (NdOs nd)) hashes;
          (ok, sv) = send_msg (EvNet ev) p (MsgChunkNeed missing) (NdServer nd)
      in (if ok then None else Some (NotSentTo p), nd\<lparr>NdServer := sv\<rparr>))"

text \<open>The queue of the background writer has 32 places; what does not fit is dropped.\<close>

definition queue_cas :: "string \<Rightarrow> byte list \<Rightarrow> ('db, 'm) node \<Rightarrow> ('db, 'm) node" where
  "queue_cas key data nd = (if length (NdCas nd) < 32 then nd\<lparr>NdCas := NdCas nd @ [(key, data)]\<rparr> else nd)"

text \<open>The buffer goes to the waiting worker first and is copied for the background writer afterwards. The worker returns it
  to the pool when it is done with it, and the next message reads its bytes into it: so the copy can hold other
  bytes than those delivered. A buffer that nobody took is not shared.\<close>

definition taken :: "string \<Rightarrow> (string, chan) gomap \<Rightarrow> bool" where
  "taken key chans \<longleftrightarrow> (case map_of chans key of None \<Rightarrow> False | Some ch \<Rightarrow> can_send ch)"

definition handleLocalMessage ::
  "'m node_env \<Rightarrow> string \<Rightarrow> int \<Rightarrow> byte list \<Rightarrow> ('db, 'm) node \<Rightarrow> node_error option \<times> ('db, 'm) node" where
  "handleLocalMessage ev key sz stream nd =
     (if sz < 0 then (Some StreamPanic, nd)
      else case read_full (nat sz) stream of
          Inl e \<Rightarrow> (Some StreamCut, nd)
        | Inr (data, rest) \<Rightarrow>
            (let copy = (if taken key (NdPending nd) then EvCopied ev key data else data)
             in (None, queue_cas key copy (nd\<lparr>NdPending := offer key data (NdPending nd)\<rparr>))))"

text \<open>One round of \<open>casWriteLoop\<close>.\<close>

definition cas_write_step :: "'m node_env \<Rightarrow> string \<Rightarrow> ('db, 'm) node \<Rightarrow> ('db, 'm) node" where
  "cas_write_step ev rnd nd =
     (case NdCas nd of
        [] \<Rightarrow> nd
      | (key, data) # rest \<Rightarrow> snd (write_store ev rnd key data (nd\<lparr>NdCas := rest\<rparr>)))"

section \<open>Quorum messages\<close>

text \<open>The local side of a quorum write, which the handler and the coordinator's own write share up to what
  they do with the errors.\<close>

definition stamp_write ::
  "'m node_env \<Rightarrow> int \<Rightarrow> string \<Rightarrow> (string, uint64) gomap \<Rightarrow> ('db, 'm) node \<Rightarrow> string option \<times> ('db, 'm) node" where
  "stamp_write ev now key clock nd =
     (let fm = meta_or_zero (ev_ops ev) (NdMeta nd) key
      in case MSet (ev_ops ev) (NdMeta nd) key (fm\<lparr>MVClock := clock, MTimestamp := now\<rparr>) of (e, m) \<Rightarrow> (e, nd\<lparr>NdMeta := m\<rparr>))"

definition quorum_ack :: "'m node_env \<Rightarrow> string \<Rightarrow> store_error + nat \<Rightarrow> message" where
  "quorum_ack ev key r =
     MsgQuorumWriteAck key (NAddr (EvNet ev)) (case r of Inl e \<Rightarrow> False | Inr n \<Rightarrow> True)
       (case r of Inl e \<Rightarrow> EvStoreText ev e | Inr n \<Rightarrow> [])"

definition handleQuorumWrite ::
  "'m node_env \<Rightarrow> int \<Rightarrow> string \<Rightarrow> conn \<Rightarrow> string \<Rightarrow> byte list \<Rightarrow> (string, uint64) gomap \<Rightarrow> ('db, 'm) node \<Rightarrow> ('db, 'm) node" where
  "handleQuorumWrite ev now rnd p key data clock nd =
     (case write_store ev rnd key data nd of
        (r, nd) \<Rightarrow>
          (let nd = (case r of Inl e \<Rightarrow> nd | Inr n \<Rightarrow> snd (stamp_write ev now key clock nd))
           in on_server (\<lambda>sv. snd (send_msg (EvNet ev) p (quorum_ack ev key r) sv)) nd))"

definition handleQuorumRead :: "'m node_env \<Rightarrow> conn \<Rightarrow> string \<Rightarrow> ('db, 'm) node \<Rightarrow> ('db, 'm) node" where
  "handleQuorumRead ev p key nd =
     (let found = MGet (ev_ops ev) (NdMeta nd) key; fm = meta_or_zero (ev_ops ev) (NdMeta nd) key
      in on_server (\<lambda>sv. snd (send_msg (EvNet ev) p
           (MsgQuorumReadResponse key (NAddr (EvNet ev)) (found \<noteq> None) (MVClock fm) (MTimestamp fm)) sv)) nd)"

definition quorum_local_write ::
  "'m node_env \<Rightarrow> int \<Rightarrow> string \<Rightarrow> string \<Rightarrow> byte list \<Rightarrow> (string, uint64) gomap \<Rightarrow> ('db, 'm) node
    \<Rightarrow> node_error option \<times> ('db, 'm) node" where
  "quorum_local_write ev now rnd key data clock nd =
     (case write_store ev rnd key data nd of
        (Inl e, nd) \<Rightarrow> (Some (NodeStore e), nd)
      | (Inr n, nd) \<Rightarrow>
          (case stamp_write ev now key clock nd of (None, nd) \<Rightarrow> (None, nd) | (Some e, nd) \<Rightarrow> (Some (NotSaved e), nd)))"

definition quorum_local_read ::
  "'m node_env \<Rightarrow> string \<Rightarrow> ('db, 'm) node \<Rightarrow> ((string, uint64) gomap \<times> int) option" where
  "quorum_local_read ev key nd = map_option (\<lambda>fm. (MVClock fm, MTimestamp fm)) (MGet (ev_ops ev) (NdMeta nd) key)"

text \<open>The response of a read goes to the channel of the waiting call, unless that is full.\<close>

definition HandleReadResponse ::
  "read_response \<Rightarrow> (string, nat \<times> read_response list) gomap \<Rightarrow> (string, nat \<times> read_response list) gomap" where
  "HandleReadResponse resp reads =
     (case map_of reads (RKey resp) of
        None \<Rightarrow> reads
      | Some (cap, rs) \<Rightarrow> if length rs < cap then AList.update (RKey resp) (cap, rs @ [resp]) reads else reads)"

section \<open>Manifests\<close>

definition handleStoreManifest ::
  "'m node_env \<Rightarrow> string \<Rightarrow> byte list \<Rightarrow> ('db, 'm) node \<Rightarrow> node_error option \<times> ('db, 'm) node" where
  "handleStoreManifest ev key json nd =
     (case jUnmarshal (EvManifest ev) (string_of json) of
        None \<Rightarrow> (Some BadManifest, nd)
      | Some man \<Rightarrow>
          (case MSetManifest (ev_ops ev) (NdMeta nd) key man of
             (Some e, m) \<Rightarrow> (Some (NotSaved e), nd\<lparr>NdMeta := m\<rparr>)
           | (None, m) \<Rightarrow>
               (None, nd\<lparr>NdMeta := snd (MSet (ev_ops ev) m key ((meta_or_zero (ev_ops ev) m key)\<lparr>MChunked := True\<rparr>))\<rparr>)))"

definition manifest_response :: "'m node_env \<Rightarrow> string \<Rightarrow> 'm \<Rightarrow> message" where
  "manifest_response ev key m =
     (case MGetDirManifest (ev_ops ev) m key of
        Some data \<Rightarrow> MsgManifestResponse key data True
      | None \<Rightarrow>
          (case MGetManifest (ev_ops ev) m key of
             Some man \<Rightarrow> MsgManifestResponse key (bytes_of (jMarshal (EvManifest ev) man)) False
           | None \<Rightarrow> MsgManifestResponse key [] False))"

definition manifest_channel :: "string \<Rightarrow> string" where
  "manifest_channel key = ''__manifest__'' @ key"

definition handleManifestResponse ::
  "string \<Rightarrow> byte list \<Rightarrow> bool \<Rightarrow> ('db, 'm) node \<Rightarrow> ('db, 'm) node option" where
  "handleManifestResponse key json isDir nd =
     (if json = [] then Some nd
      else map_option (\<lambda>chans. nd\<lparr>NdPending := chans\<rparr>)
        (deliver_on (manifest_channel key) ((if isDir then 1 else 0) # json) (NdPending nd)))"

definition handleProvidersResponse ::
  "'m node_env \<Rightarrow> string \<Rightarrow> provider_info list \<Rightarrow> ('db, 'm) node \<Rightarrow> ('db, 'm) node" where
  "handleProvidersResponse ev key infos nd =
     nd\<lparr>NdPending := offer (''__providers__'' @ key) (bytes_of (jMarshal (EvInfos ev) infos)) (NdPending nd)\<rparr>"

text \<open>The catalog goes to the channel of the address it came from, or of the listen address that this was
  remapped to.\<close>

definition catalog_channel :: "string \<Rightarrow> ('db, 'm) node \<Rightarrow> string" where
  "catalog_channel from nd =
     (if map_of (NdPending nd) (from @ ''#catalog'') \<noteq> None then from @ ''#catalog''
      else case canonical_of (NdServer nd) from of None \<Rightarrow> from @ ''#catalog'' | Some c \<Rightarrow> c @ ''#catalog'')"

definition handlePublicCatalogResponse ::
  "string \<Rightarrow> byte list \<Rightarrow> ('db, 'm) node \<Rightarrow> ('db, 'm) node option" where
  "handlePublicCatalogResponse from json nd =
     map_option (\<lambda>chans. nd\<lparr>NdPending := chans\<rparr>) (deliver_on (catalog_channel from nd) json (NdPending nd))"

section \<open>Replication\<close>

definition writeQuorum :: "nat \<Rightarrow> nat" where
  "writeQuorum n = (if n \<le> 2 then n else n div 2 + 1)"

text \<open>The sends of \<open>replicateChunk\<close> run in goroutines; each either succeeds or leaves a hint, whether or not the
  function still waits.\<close>

fun replicate_to ::
  "'m node_env \<Rightarrow> int \<Rightarrow> string \<Rightarrow> string \<Rightarrow> byte list \<Rightarrow> string list \<Rightarrow> ('db, 'm) node \<Rightarrow> bool list \<times> ('db, 'm) node" where
  "replicate_to ev now me key data [] nd = ([], nd)"
| "replicate_to ev now me key data (addr # as) nd =
     (if addr = me then replicate_to ev now me key data as nd
      else case getDataPeer (NdServer nd) addr of
          None \<Rightarrow> replicate_to ev now me key data as (storeHint ev now addr key (int (length data)) nd)
        | Some p \<Rightarrow>
            (let (ok, nd) = send_stream ev p (MsgStoreFile key (int (length data))) data nd;
                 nd = (if ok then nd else storeHint ev now addr key (int (length data)) nd);
                 (oks, nd) = replicate_to ev now me key data as nd
             in (ok # oks, nd)))"

text \<open>How many results the wait of \<open>replicateChunk\<close> takes, for the order in which they come.\<close>

fun await_quorum :: "nat \<Rightarrow> nat \<Rightarrow> bool list \<Rightarrow> nat" where
  "await_quorum w got [] = 0"
| "await_quorum w got (ok # oks) =
     (if ok \<and> w \<le> got + 1 then 1 else 1 + await_quorum w (if ok then got + 1 else got) oks)"

definition replicateChunk ::
  "'m node_env \<Rightarrow> int \<Rightarrow> string \<Rightarrow> string \<Rightarrow> byte list \<Rightarrow> string list \<Rightarrow> ('db, 'm) node \<Rightarrow> nat \<times> ('db, 'm) node" where
  "replicateChunk ev now me key data targets nd =
     (case replicate_to ev now me key data targets nd of
        (oks, nd) \<Rightarrow> (await_quorum (writeQuorum (length oks)) 0 oks, nd))"

text \<open>A probe of \<open>readRepair\<close> answers when something arrives on its own channel within two seconds
  (\<open>probed\<close>); without an answer a hint is left for the replica.\<close>

fun repair_replicas ::
  "'m node_env \<Rightarrow> int \<Rightarrow> (string \<Rightarrow> bool) \<Rightarrow> string \<Rightarrow> string list \<Rightarrow> ('db, 'm) node \<Rightarrow> ('db, 'm) node" where
  "repair_replicas ev now probed key [] nd = nd"
| "repair_replicas ev now probed key (addr # as) nd =
     (if addr = NAddr (EvNet ev) \<or> map_of (SvPeers (NdServer nd)) addr = None then repair_replicas ev now probed key as nd
      else case sendToAddr (EvNet ev) addr (MsgGetFile key) (NdServer nd) of
          (Some e, sv) \<Rightarrow> repair_replicas ev now probed key as (nd\<lparr>NdServer := sv\<rparr>)
        | (None, sv) \<Rightarrow>
            (let nd = nd\<lparr>NdServer := sv\<rparr>
             in if probed addr then repair_replicas ev now probed key as nd
                else case readFile ev key nd of
                    Inl e \<Rightarrow> repair_replicas ev now probed key as nd
                  | Inr data \<Rightarrow> repair_replicas ev now probed key as (storeHint ev now addr key (int (length data)) nd)))"

definition readRepair :: "'m node_env \<Rightarrow> int \<Rightarrow> (string \<Rightarrow> bool) \<Rightarrow> string \<Rightarrow> ('db, 'm) node \<Rightarrow> ('db, 'm) node option" where
  "readRepair ev now probed key nd =
     (if isSwarmCacheKey key then Some nd
      else if (case MGetManifest (ev_ops ev) (NdMeta nd) key of None \<Rightarrow> False | Some man \<Rightarrow> MSeedMode man) then Some nd
      else if \<not> Has (ev_store ev) key (NdMeta nd) (NdOs nd) then Some nd
      else (let ring = SvRing (NdServer nd)
            in case ring_GetNodes (NSha (EvNet ev)) ring key (ring_ReplicationFactor ring) of
                 None \<Rightarrow> None
               | Some targets \<Rightarrow> Some (repair_replicas ev now probed key targets nd)))"

section \<open>Fetching\<close>

fun ask_nodes :: "net_env \<Rightarrow> message \<Rightarrow> string list \<Rightarrow> 'db server \<Rightarrow> nat \<times> 'db server" where
  "ask_nodes net msg [] sv = (0, sv)"
| "ask_nodes net msg (addr # as) sv =
     (if addr = NAddr net then ask_nodes net msg as sv
      else case map_of (SvPeers sv) addr of
          None \<Rightarrow> ask_nodes net msg as sv
        | Some p \<Rightarrow> (let (ok, sv) = send_msg net p msg sv; (n, sv) = ask_nodes net msg as sv in (if ok then Suc n else n, sv)))"

text \<open>What the wait for a channel gives: \<open>answer\<close> is the first value before the context ends.\<close>

definition awaited :: "string \<Rightarrow> byte list option \<Rightarrow> node_error + byte list" where
  "awaited key answer = (case answer of None \<Rightarrow> Inl (FetchFailed key) | Some data \<Rightarrow> Inr data)"

text \<open>\<open>shared\<close> says that another call already waits for the key, whose channel is used then.\<close>

definition fetchChunkFromPeers ::
  "net_env \<Rightarrow> bool \<Rightarrow> byte list option \<Rightarrow> string \<Rightarrow> 'db server \<Rightarrow> (node_error + byte list) \<times> 'db server" where
  "fetchChunkFromPeers net shared answer key sv =
     (if shared then (awaited key answer, sv)
      else case ring_GetNodes (NSha net) (SvRing sv) key (ring_ReplicationFactor (SvRing sv)) of
          None \<Rightarrow> (Inl StreamPanic, sv)
        | Some targets \<Rightarrow>
            (let (sent, sv) = ask_nodes net (MsgGetFile key) targets sv
             in if sent = 0 then (Inl (FetchFailed key), sv) else (awaited key answer, sv)))"

definition fetchChunkFromPeer ::
  "'m node_env \<Rightarrow> bool \<Rightarrow> byte list option \<Rightarrow> string \<Rightarrow> string \<Rightarrow> ('db, 'm) node \<Rightarrow> (node_error + byte list) \<times> ('db, 'm) node" where
  "fetchChunkFromPeer ev shared answer key peerAddr nd =
     (if Has (ev_store ev) key (NdMeta nd) (NdOs nd) then
        ((case readFile ev key nd of Inl e \<Rightarrow> Inl (NodeStore e) | Inr data \<Rightarrow> Inr data), nd)
      else if shared then (awaited key answer, nd)
      else case map_of (SvPeers (NdServer nd)) peerAddr of
          None \<Rightarrow> (Inl (NodeNet (NotConnected peerAddr)), nd)
        | Some p \<Rightarrow>
            (let (ok, sv) = send_msg (EvNet ev) p (MsgGetFile key) (NdServer nd); nd = nd\<lparr>NdServer := sv\<rparr>
             in if ok then (awaited key answer, nd) else (Inl (NotSentTo p), nd)))"

definition fetchMetadataFromPeers ::
  "net_env \<Rightarrow> byte list option \<Rightarrow> string \<Rightarrow> 'db server \<Rightarrow> (node_error + byte list \<times> bool) \<times> 'db server" where
  "fetchMetadataFromPeers net answer key sv =
     (case ring_GetNodes (NSha net) (SvRing sv) key (ring_ReplicationFactor (SvRing sv)) of
        None \<Rightarrow> (Inl StreamPanic, sv)
      | Some targets \<Rightarrow>
          (let (sent, sv) = ask_nodes net (MsgGetManifest key) targets sv
           in if sent = 0 then (Inl (FetchFailed key), sv)
              else case answer of
                  None \<Rightarrow> (Inl (FetchFailed key), sv)
                | Some [] \<Rightarrow> (Inl (FetchFailed key), sv)
                | Some (flag # data) \<Rightarrow> (Inr (data, flag = 1), sv)))"

definition fetchManifestFromPeers ::
  "'m node_env \<Rightarrow> byte list option \<Rightarrow> string \<Rightarrow> 'db server \<Rightarrow> (node_error + chunk_manifest) \<times> 'db server" where
  "fetchManifestFromPeers ev answer key sv =
     (case fetchMetadataFromPeers (EvNet ev) answer key sv of
        (Inl e, sv) \<Rightarrow> (Inl e, sv)
      | (Inr (data, isDir), sv) \<Rightarrow>
          if isDir then (Inl (FetchFailed key), sv)
          else ((case jUnmarshal (EvManifest ev) (string_of data) of None \<Rightarrow> Inl BadManifest | Some man \<Rightarrow> Inr man), sv))"

section \<open>The closures the services are given\<close>

text \<open>Handoff and rebalancing send a stored file the same way; both wait while an upload runs (None).\<close>

definition send_stored ::
  "'m node_env \<Rightarrow> string \<Rightarrow> string \<Rightarrow> byte list \<Rightarrow> ('db, 'm) node \<Rightarrow> node_error option \<times> ('db, 'm) node" where
  "send_stored ev targetAddr key data nd =
     (case getDataPeer (NdServer nd) targetAddr of
        None \<Rightarrow> (Some (NodeNet (NotConnected targetAddr)), nd)
      | Some p \<Rightarrow>
          (let (ok, nd) = send_stream ev p (MsgStoreFile key (int (length data))) data nd
           in (if ok then None else Some (NotSentTo p), nd)))"

definition handoff_deliver ::
  "'m node_env \<Rightarrow> hint \<Rightarrow> ('db, 'm) node \<Rightarrow> (node_error option \<times> ('db, 'm) node) option" where
  "handoff_deliver ev h nd =
     (if 0 < NdUploads nd then None
      else case readFile ev (HKey h) nd of
          Inl e \<Rightarrow> Some (Some (NodeStore e), nd)
        | Inr data \<Rightarrow> Some (send_stored ev (HTarget h) (HKey h) data nd))"

definition rebalance_send ::
  "'m node_env \<Rightarrow> string \<Rightarrow> string \<Rightarrow> byte list \<Rightarrow> ('db, 'm) node \<Rightarrow> (node_error option \<times> ('db, 'm) node) option" where
  "rebalance_send ev targetAddr key data nd =
     (if 0 < NdUploads nd then None else Some (send_stored ev targetAddr key data nd))"

definition rebalance_manifest :: "'m node_env \<Rightarrow> string \<Rightarrow> 'm \<Rightarrow> byte list option" where
  "rebalance_manifest ev key m =
     map_option (\<lambda>man. bytes_of (jMarshal (EvManifest ev) man)) (MGetManifest (ev_ops ev) m key)"

definition entropy_keys :: "'m node_env \<Rightarrow> ('db, 'm) node \<Rightarrow> string list" where
  "entropy_keys ev nd = filter (\<lambda>k. \<not> isSwarmCacheKey k) (EvKeysOf ev (NdMeta nd))"

definition entropy_need :: "'m node_env \<Rightarrow> string \<Rightarrow> string \<Rightarrow> ('db, 'm) node \<Rightarrow> ('db, 'm) node" where
  "entropy_need ev addr key nd =
     (if isSwarmCacheKey key \<or> 0 < NdUploads nd then nd
      else on_server (\<lambda>sv. snd (sendToAddr (EvNet ev) addr (MsgGetFile key) sv)) nd)"

definition entropy_send :: "'m node_env \<Rightarrow> int \<Rightarrow> string \<Rightarrow> string \<Rightarrow> ('db, 'm) node \<Rightarrow> ('db, 'm) node" where
  "entropy_send ev now addr key nd =
     (if isSwarmCacheKey key \<or> 0 < NdUploads nd then nd
      else case readFile ev key nd of Inl e \<Rightarrow> nd | Inr data \<Rightarrow> storeHint ev now addr key (int (length data)) nd)"

definition evict_file :: "'m node_env \<Rightarrow> string \<Rightarrow> ('db, 'm) node \<Rightarrow> nat \<times> ('db, 'm) node" where
  "evict_file ev key nd =
     (case MGetManifest (ev_ops ev) (NdMeta nd) key of
        None \<Rightarrow> (0, nd)
      | Some man \<Rightarrow>
          (let (errs, s) = fold (\<lambda>ci (errs, s).
                  let sk = ChunkStorageKey (IEncHash ci)
                  in if Has (ev_store ev) sk (NdMeta nd) s then
                       (case Remove (ev_store ev) sk (NdMeta nd) s of (None, s) \<Rightarrow> (errs, s) | (Some e, s) \<Rightarrow> (Suc errs, s))
                     else (errs, s)) (MChunks man) (0, NdOs nd)
           in (errs, nd\<lparr>NdOs := s\<rparr>)))"

fun register_sources :: "net_env \<Rightarrow> int \<Rightarrow> (string \<times> seed_source) list \<Rightarrow> 'db server \<Rightarrow> 'db server option" where
  "register_sources net now [] sv = Some sv"
| "register_sources net now ((key, src) # srcs) sv =
     (case registerProvider net now key (CountBits (SBitfield src)) (STotalChunks src) sv of
        None \<Rightarrow> None
      | Some sv \<Rightarrow> register_sources net now srcs sv)"

definition reregister_tick :: "net_env \<Rightarrow> int \<Rightarrow> 'db server \<Rightarrow> 'db server option" where
  "reregister_tick net now sv =
     (case SvDb sv of
        None \<Rightarrow> Some sv
      | Some d \<Rightarrow> (case AllSeedSources d of Inl e \<Rightarrow> Some sv | Inr sources \<Rightarrow> register_sources net now sources sv))"

text \<open>The guards before a node learnt from gossip is dialled, and the dial.\<close>

definition ignored_by_fingerprint :: "'db server \<Rightarrow> string \<Rightarrow> bool" where
  "ignored_by_fingerprint sv addr =
     (let fp = peer_fingerprint sv addr in fp \<noteq> [] \<and> db_asks (IsIgnoredFingerprint fp) sv)"

definition may_dial :: "'m node_env \<Rightarrow> string \<Rightarrow> ('db, 'm) node \<Rightarrow> bool" where
  "may_dial ev addr nd \<longleftrightarrow>
     (let sv = NdServer nd
      in \<not> is_self (EvNet ev) addr \<and>
         \<not> (db_asks (IsIgnoredPeer addr) sv \<and> addr \<notin> EvBootstrap ev) \<and>
         \<not> (ignored_by_fingerprint sv addr \<and> addr \<notin> EvBootstrap ev) \<and>
         map_of (SvPeers sv) addr = None \<and> addr \<notin> NdDialing nd)"

definition onNewPeer :: "'m node_env \<Rightarrow> (string \<Rightarrow> bool) \<Rightarrow> string \<Rightarrow> ('db, 'm) node \<Rightarrow> ('db, 'm) node" where
  "onNewPeer ev dial addr nd = (if may_dial ev addr nd then on_server (log_event (EDial addr (dial addr))) nd else nd)"

text \<open>The three closures of the downloader.\<close>

definition download_fetch ::
  "'m node_env \<Rightarrow> (conn \<Rightarrow> (message \<Rightarrow> string + byte list) option) \<Rightarrow> bool \<Rightarrow> bool \<Rightarrow> byte list option \<Rightarrow> string \<Rightarrow> nat
    \<Rightarrow> string \<Rightarrow> string \<Rightarrow> ('db, 'm) node \<Rightarrow> ((swarm_error + node_error) + byte list) \<times> ('db, 'm) node" where
  "download_fetch ev open_rpc late shared answer fileKey idx storageKey peerAddr nd =
     (case (if Has (ev_store ev) storageKey (NdMeta nd) (NdOs nd) then readFile ev storageKey nd else Inl NoMeta) of
        Inr data \<Rightarrow> (Inr data, nd)
      | Inl e \<Rightarrow>
          (case (if fileKey = [] then None else MGetManifest (ev_ops ev) (NdMeta nd) fileKey) of
             Some man \<Rightarrow>
               if MSeedMode man \<and> idx < length (MChunks man) then
                 (case fetchChunkSwarmBidi (EvNet ev) open_rpc late shared (map_option Some answer) fileKey (int idx)
                         (IEncHash (MChunks man ! idx)) peerAddr (NdServer nd) of
                    (Inl e, sv) \<Rightarrow> (Inl (Inl e), nd\<lparr>NdServer := sv\<rparr>)
                  | (Inr data, sv) \<Rightarrow> (Inr data, queue_cas storageKey data (nd\<lparr>NdServer := sv\<rparr>)))
               else (case fetchChunkFromPeer ev shared answer storageKey peerAddr nd of
                   (Inl e, nd) \<Rightarrow> (Inl (Inr e), nd) | (Inr data, nd) \<Rightarrow> (Inr data, nd))
           | None \<Rightarrow>
               (case fetchChunkFromPeer ev shared answer storageKey peerAddr nd of
                  (Inl e, nd) \<Rightarrow> (Inl (Inr e), nd) | (Inr data, nd) \<Rightarrow> (Inr data, nd))))"

definition download_peers ::
  "'m node_env \<Rightarrow> provider_info list option \<Rightarrow> string \<Rightarrow> string \<Rightarrow> ('db, 'm) node \<Rightarrow> (string list \<times> ('db, 'm) node) option" where
  "download_peers ev answer fileKey storageKey nd =
     (let from_ring = (\<lambda>nd. map_option (\<lambda>as. (as, nd))
            (ring_GetNodes (NSha (EvNet ev)) (SvRing (NdServer nd)) storageKey (ring_ReplicationFactor (SvRing (NdServer nd)))))
      in if fileKey = [] then from_ring nd
         else case getProviders (EvNet ev) fileKey answer (NdServer nd) of
             None \<Rightarrow> None
           | Some (recs, sv) \<Rightarrow>
               (let nd = nd\<lparr>NdServer := sv\<rparr>
                in if recs \<noteq> [] then Some (map PAddr recs, nd)
                   else case MGetManifest (ev_ops ev) (NdMeta nd) fileKey of
                       Some man \<Rightarrow> if MOriginalSeeder man \<noteq> [] then Some ([MOriginalSeeder man], nd) else from_ring nd
                     | None \<Rightarrow> from_ring nd))"

section \<open>Tasks\<close>

definition spawn :: "task \<Rightarrow> ('db, 'm) node \<Rightarrow> ('db, 'm) node" where
  "spawn t nd = nd\<lparr>NdTasks := NdTasks nd @ [t]\<rparr>"

definition send_served ::
  "'m node_env \<Rightarrow> conn \<Rightarrow> serve_error + message \<times> byte list \<Rightarrow> ('db, 'm) node \<Rightarrow> node_error option \<times> ('db, 'm) node" where
  "send_served ev p r nd =
     (case r of
        Inl e \<Rightarrow> (Some (NodeServe e), nd)
      | Inr (msg, data) \<Rightarrow> (let (ok, nd) = send_stream ev p msg data nd in (if ok then None else Some (NotSentTo p), nd)))"

definition run_get_file :: "'m node_env \<Rightarrow> conn \<Rightarrow> string \<Rightarrow> ('db, 'm) node \<Rightarrow> node_error option \<times> ('db, 'm) node" where
  "run_get_file ev p key nd = send_served ev p (handleGetMessage (ev_store ev) key (NdMeta nd) (NdOs nd)) nd"

definition run_get_chunk ::
  "'m node_env \<Rightarrow> conn \<Rightarrow> string \<Rightarrow> int \<Rightarrow> string \<Rightarrow> ('db, 'm) node \<Rightarrow> node_error option \<times> ('db, 'm) node" where
  "run_get_chunk ev p fileKey idx encHash nd =
     (case handleGetChunkSwarm (EvUp ev) (EvNet ev) (EvKeys ev) fileKey idx encHash (NdMeta nd) (NdOs nd)
             (NdServer nd, NdDeks nd) of
        (r, sv, deks) \<Rightarrow> send_served ev p r (nd\<lparr>NdServer := sv, NdDeks := deks\<rparr>))"

text \<open>The two-way form writes the answer to the stream the request came on.\<close>

definition run_get_chunk_bidi ::
  "'m node_env \<Rightarrow> bool \<Rightarrow> string \<Rightarrow> int \<Rightarrow> string \<Rightarrow> ('db, 'm) node \<Rightarrow> byte list \<times> ('db, 'm) node" where
  "run_get_chunk_bidi ev busy fileKey idx encHash nd =
     (case handleGetChunkSwarmBidi (EvServeText ev) (EvUp ev) (EvNet ev) (EvKeys ev) busy fileKey idx encHash (NdMeta nd)
             (NdOs nd) (NdServer nd, NdDeks nd) of
        (out, sv, deks) \<Rightarrow> (out, nd\<lparr>NdServer := sv, NdDeks := deks\<rparr>))"

text \<open>The gossip service as \<open>SetSelfAddr\<close> left it, and the peers it is given.\<close>

definition gossip_of :: "'m node_env \<Rightarrow> 'db server \<Rightarrow> gossip_service option" where
  "gossip_of ev sv =
     map_option (\<lambda>gs. case SvGossipSelf sv of None \<Rightarrow> gs | Some a \<Rightarrow> gs_SetSelfAddr a gs) (EvGossip ev)"

definition record_beat :: "net_env \<Rightarrow> string \<Rightarrow> 'db server \<Rightarrow> 'db server" where
  "record_beat net from sv = log_if (NHeartbeat net) (EHeartbeat from) sv"

definition spawn_dials :: "string list \<Rightarrow> ('db, 'm) node \<Rightarrow> ('db, 'm) node" where
  "spawn_dials addrs nd = fold (\<lambda>a. spawn (DialTask a)) addrs nd"

definition run_digest ::
  "'m node_env \<Rightarrow> int \<Rightarrow> string \<Rightarrow> conn \<Rightarrow> gossip_digest_msg \<Rightarrow> ('db, 'm) node \<Rightarrow> ('db, 'm) node" where
  "run_digest ev now from p msg nd =
     (let nd = on_server (record_beat (EvNet ev) from) nd; sv = NdServer nd
      in case (gossip_of ev sv, SvTable sv) of
           (Some gs, Some t) \<Rightarrow>
             (case HandleDigest now gs (ring_Members (SvRing sv)) msg t of
                (t, dials, resp) \<Rightarrow>
                  spawn_dials dials (on_server (\<lambda>sv. snd (send_msg (EvNet ev) p
                    (MsgGossipResponse (RFrom resp) (RFull resp) (RMyDigest resp)) (sv\<lparr>SvTable := Some t\<rparr>))) nd))
         | _ \<Rightarrow> nd)"

definition run_response ::
  "'m node_env \<Rightarrow> int \<Rightarrow> string \<Rightarrow> gossip_response_msg \<Rightarrow> ('db, 'm) node \<Rightarrow> ('db, 'm) node" where
  "run_response ev now from msg nd =
     (let nd = on_server (record_beat (EvNet ev) from) nd; sv = NdServer nd
      in case (gossip_of ev sv, SvTable sv) of
           (Some gs, Some t) \<Rightarrow>
             (case HandleResponse now gs msg t of
                (t, dials) \<Rightarrow> spawn_dials dials (on_server (\<lambda>sv. sv\<lparr>SvTable := Some t\<rparr>) nd))
         | _ \<Rightarrow> nd)"

text \<open>A task reports its error only to the log.\<close>

definition run_task ::
  "'m node_env \<Rightarrow> int \<Rightarrow> string \<Rightarrow> (string \<Rightarrow> bool) \<Rightarrow> task \<Rightarrow> ('db, 'm) node \<Rightarrow> ('db, 'm) node" where
  "run_task ev now rnd dial t nd =
     (case t of
        DialTask addr \<Rightarrow> onNewPeer ev dial addr nd
      | HandleTask from p msg stream \<Rightarrow>
          (case msg of
             MsgStoreFile key sz \<Rightarrow> snd (handleStoreMessage ev rnd key sz stream nd)
           | MsgGetFile key \<Rightarrow> snd (run_get_file ev p key nd)
           | MsgLocalFile key sz \<Rightarrow> snd (handleLocalMessage ev key sz stream nd)
           | MsgHeartbeat a ts \<Rightarrow> on_server (handleHeartbeat (EvNet ev) from p ts) nd
           | MsgGossipDigest f ds \<Rightarrow> run_digest ev now from p \<lparr>GFrom = f, GDigests = ds\<rparr> nd
           | MsgGossipResponse f full ds \<Rightarrow> run_response ev now from \<lparr>RFrom = f, RFull = full, RMyDigest = ds\<rparr> nd
           | MsgGetChunkSwarm fileKey idx encHash \<Rightarrow> snd (run_get_chunk ev p fileKey idx encHash nd)
           | _ \<Rightarrow> nd))"

section \<open>The dispatch\<close>

definition plain :: "net_error option \<times> 'db server \<Rightarrow> ('db, 'm) node \<Rightarrow> (node_error option \<times> ('db, 'm) node) option" where
  "plain r nd = Some (map_option NodeNet (fst r), nd\<lparr>NdServer := snd r\<rparr>)"

definition quiet :: "('db, 'm) node \<Rightarrow> (node_error option \<times> ('db, 'm) node) option" where
  "quiet nd = Some (None, nd)"

definition handleMerkleSync :: "'m node_env \<Rightarrow> string \<Rightarrow> sync_msg \<Rightarrow> ('db, 'm) node \<Rightarrow> ('db, 'm) node" where
  "handleMerkleSync ev from msg nd =
     (case NdAnti nd of
        None \<Rightarrow> nd
      | Some ae \<Rightarrow>
          (case HandleSync (NSha (EvNet ev)) (entropy_keys ev nd) ae msg of
             None \<Rightarrow> nd
           | Some resp \<Rightarrow> on_server (\<lambda>sv. snd (sendToAddr (EvNet ev) from (MsgMerkleDiffResponse (DFrom resp) (AllKeys resp)) sv)) nd))"

definition do_repair :: "'m node_env \<Rightarrow> int \<Rightarrow> repair_action \<Rightarrow> ('db, 'm) node \<Rightarrow> ('db, 'm) node" where
  "do_repair ev now act nd =
     (case act of NeedKey addr key \<Rightarrow> entropy_need ev addr key nd | SendKey addr key \<Rightarrow> entropy_send ev now addr key nd)"

definition handleMerkleDiff :: "'m node_env \<Rightarrow> int \<Rightarrow> string \<Rightarrow> diff_response \<Rightarrow> ('db, 'm) node \<Rightarrow> ('db, 'm) node" where
  "handleMerkleDiff ev now from msg nd =
     (case NdAnti nd of
        None \<Rightarrow> nd
      | Some ae \<Rightarrow>
          (case HandleDiffResponse (NSha (EvNet ev)) (entropy_keys ev nd) from msg ae of
             (ae, acts) \<Rightarrow> fold (do_repair ev now) acts (nd\<lparr>NdAnti := Some ae\<rparr>)))"

text \<open>The channel of a search holds 64 answers.\<close>

definition deliver_search :: "net_env \<Rightarrow> string \<Rightarrow> search_result list \<Rightarrow> ('db, 'm) node \<Rightarrow> ('db, 'm) node option" where
  "deliver_search net rid results nd =
     (case map_of (NdSearch nd) (search_key (self_address net (NdServer nd)) rid) of
        Some ch \<Rightarrow>
          if length ch < 64 then Some (nd\<lparr>NdSearch := handleSearchResponse net rid results (NdServer nd) (NdSearch nd)\<rparr>) else None
      | None \<Rightarrow> Some nd)"

text \<open>The result of the handler, the error going to the log; None while a channel it sends on is full.\<close>

definition handleMessage ::
  "'m node_env \<Rightarrow> int \<Rightarrow> string \<Rightarrow> string \<Rightarrow> conn \<Rightarrow> message \<Rightarrow> byte list \<Rightarrow> ('db, 'm) node
    \<Rightarrow> (node_error option \<times> ('db, 'm) node) option" where
  "handleMessage ev now rnd from p msg stream nd =
     (let net = EvNet ev; sv = NdServer nd
      in case msg of
           MsgStoreFile key sz \<Rightarrow> quiet (spawn (HandleTask from p msg stream) nd)
         | MsgGetFile key \<Rightarrow> quiet (spawn (HandleTask from p msg stream) nd)
         | MsgLocalFile key sz \<Rightarrow> quiet (spawn (HandleTask from p msg stream) nd)
         | MsgHeartbeat a ts \<Rightarrow> quiet (spawn (HandleTask from p msg stream) nd)
         | MsgHeartbeatAck a ts \<Rightarrow> quiet (on_server (record_beat net from) nd)
         | MsgAnnounce listen \<Rightarrow> quiet (on_server (handleAnnounce net now from listen) nd)
         | MsgAnnounceAck yourAddr \<Rightarrow> quiet (on_server (handleAnnounceAck net now yourAddr) nd)
         | MsgGossipDigest f ds \<Rightarrow> quiet (spawn (HandleTask from p msg stream) nd)
         | MsgGossipResponse f full ds \<Rightarrow> quiet (spawn (HandleTask from p msg stream) nd)
         | MsgQuorumWrite key data clock \<Rightarrow> quiet (handleQuorumWrite ev now rnd p key data clock nd)
         | MsgQuorumWriteAck key f success err \<Rightarrow>
             quiet (nd\<lparr>NdQuorum := map_option (HandleWriteAck \<lparr>ANode = f, AKey = key, ASuccess = success\<rparr>) (NdQuorum nd)\<rparr>)
         | MsgQuorumRead key \<Rightarrow> quiet (handleQuorumRead ev p key nd)
         | MsgQuorumReadResponse key f found clock ts \<Rightarrow>
             quiet (if NdQuorum nd = None then nd
                    else nd\<lparr>NdReads := HandleReadResponse
                      \<lparr>RNode = f, RKey = key, RFound = found, RClock = clock, RTimestamp = ts\<rparr> (NdReads nd)\<rparr>)
         | MsgMerkleSync f rootHash \<Rightarrow> quiet (handleMerkleSync ev from \<lparr>SFrom = f, SRootHash = rootHash\<rparr> nd)
         | MsgMerkleDiffResponse f keys \<Rightarrow> quiet (handleMerkleDiff ev now from \<lparr>DFrom = f, AllKeys = keys\<rparr> nd)
         | MsgLeaving f gen \<Rightarrow> quiet (on_server (handleLeaving net now f gen) nd)
         | MsgStoreManifest key json \<Rightarrow> Some (handleStoreManifest ev key json nd)
         | MsgGetManifest key \<Rightarrow>
             quiet (on_server (\<lambda>sv. snd (send_msg net p (manifest_response ev key (NdMeta nd)) sv)) nd)
         | MsgManifestResponse key json isDir \<Rightarrow> Option.bind (handleManifestResponse key json isDir nd) quiet
         | MsgChunkOffer hashes \<Rightarrow> Some (handleChunkOffer ev p hashes nd)
         | MsgChunkNeed missing \<Rightarrow> quiet nd
         | MsgIdentityMeta f meta \<Rightarrow> quiet (on_server (handleIdentityMeta net now (EvBootstrap ev) from f meta) nd)
         | MsgGetPublicCatalog \<Rightarrow> plain (handleGetPublicCatalog net (EvPublic ev) from sv) nd
         | MsgPublicCatalogResponse json \<Rightarrow> Option.bind (handlePublicCatalogResponse from json nd) quiet
         | MsgDirectShare key name sz isDir al fp \<Rightarrow>
             plain (handleDirectShare now \<lparr>IBKey = key, IBName = name, IBSize = sz, IBIsDir = isDir, IBSenderAlias = al,
                      IBSenderFP = fp, IBReceivedAt = 0\<rparr> sv) nd
         | MsgDeleteFile key fp \<Rightarrow>
             (case handleDeleteFile (EvManifest ev) (ev_store ev) now key fp (NdMeta nd) (sv, NdOs nd) of
                (sv, s) \<Rightarrow> quiet (nd\<lparr>NdServer := sv, NdOs := s\<rparr>))
         | MsgSearchRequest query rid origin ttl \<Rightarrow> quiet (on_server (handleSearchRequest net now from query rid origin ttl) nd)
         | MsgSearchResponse rid results f \<Rightarrow> Option.bind (deliver_search net rid results nd) quiet
         | MsgGetChunkSwarm fileKey idx encHash \<Rightarrow> quiet (spawn (HandleTask from p msg stream) nd)
         | MsgRegisterProvider fileKey provider n tot \<Rightarrow> plain (handleRegisterProvider now fileKey provider n tot sv) nd
         | MsgGetProviders fileKey \<Rightarrow>
             (case handleGetProviders net p fileKey sv of
                (ok, sv) \<Rightarrow> Some ((if ok then None else Some (NotSentTo p)), nd\<lparr>NdServer := sv\<rparr>))
         | MsgProvidersResponse fileKey infos \<Rightarrow> quiet (handleProvidersResponse ev fileKey infos nd))"

text \<open>The loop of the data transport knows four messages. A request for a chunk on a two-way stream (\<open>bidi\<close>) is
  answered on it by \<open>run_get_chunk_bidi\<close> in place of the task.\<close>

definition dataLoop :: "bool \<Rightarrow> string \<Rightarrow> conn \<Rightarrow> message \<Rightarrow> byte list \<Rightarrow> ('db, 'm) node \<Rightarrow> ('db, 'm) node" where
  "dataLoop bidi from p msg stream nd =
     (case msg of
        MsgStoreFile key sz \<Rightarrow> spawn (HandleTask from p msg stream) nd
      | MsgGetFile key \<Rightarrow> spawn (HandleTask from p msg stream) nd
      | MsgLocalFile key sz \<Rightarrow> spawn (HandleTask from p msg stream) nd
      | MsgGetChunkSwarm fileKey idx encHash \<Rightarrow> if bidi then nd else spawn (HandleTask from p msg stream) nd
      | _ \<Rightarrow> nd)"

section \<open>Runs\<close>

text \<open>What can happen next at a node: its loops take a message, a started goroutine runs, the background writer
  stores a chunk, or a caller opens a channel, takes from it or closes it.\<close>

inductive node_step :: "'m node_env \<Rightarrow> ('db, 'm) node \<Rightarrow> ('db, 'm) node \<Rightarrow> bool" for ev where
  step_control: "handleMessage ev now rnd from p msg stream nd = Some (e, nd') \<Longrightarrow> node_step ev nd nd'"
| step_data: "node_step ev nd (dataLoop bidi from p msg stream nd)"
| step_task: "NdTasks nd = ts @ t # us \<Longrightarrow> node_step ev nd (run_task ev now rnd dial t (nd\<lparr>NdTasks := ts @ us\<rparr>))"
| step_cas: "node_step ev nd (cas_write_step ev rnd nd)"
| step_open: "node_step ev nd (nd\<lparr>NdPending := AList.update key \<lparr>ChCap = cap, ChData = []\<rparr> (NdPending nd)\<rparr>)"
| step_take: "map_of (NdPending nd) key = Some ch \<Longrightarrow> ChData ch = d # ds \<Longrightarrow>
    node_step ev nd (nd\<lparr>NdPending := AList.update key (ch\<lparr>ChData := ds\<rparr>) (NdPending nd)\<rparr>)"
| step_close: "node_step ev nd (nd\<lparr>NdPending := AList.delete key (NdPending nd)\<rparr>)"

end
