(* ===== verification/NodeLaws.thy ===== *)
theory NodeLaws
  imports Node SeedLaws
begin

text \<open>
  What a node promises: on which channels its message loop waits, that no queue outgrows its bound in any run, that
  metadata asked for over the network comes back as it was stored, that an acknowledged write is held, and
  what becomes of a chunk fetched from a peer. The last two rest on the contract of the local
  store (\<open>cas_store\<close>).
\<close>

section \<open>Queues\<close>

text \<open>The parts of a node that hold what waits to be read.\<close>

definition queues :: "('db, 'm) node \<Rightarrow>
  (string, chan) gomap \<times> (string \<times> byte list) list \<times> (string, search_result list list) gomap \<times> (string, nat \<times> read_response list) gomap" where
  "queues nd = (NdPending nd, NdCas nd, NdSearch nd, NdReads nd)"

definition queues_ok :: "('db, 'm) node \<Rightarrow> bool" where
  "queues_ok nd \<longleftrightarrow>
     (\<forall>k ch. map_of (NdPending nd) k = Some ch \<longrightarrow> length (ChData ch) \<le> ChCap ch) \<and>
     length (NdCas nd) \<le> 32 \<and>
     (\<forall>k ch. map_of (NdSearch nd) k = Some ch \<longrightarrow> length ch \<le> 64) \<and>
     (\<forall>k cap rs. map_of (NdReads nd) k = Some (cap, rs) \<longrightarrow> length rs \<le> cap)"

lemma queues_ok_cong: "queues nd' = queues nd \<Longrightarrow> queues_ok nd \<Longrightarrow> queues_ok nd'"
  by (simp add: queues_def queues_ok_def)

named_theorems keeps_queues "operations that leave the queues of a node alone"

lemma queues_update [simp]:
  "queues (nd\<lparr>NdServer := sv\<rparr>) = queues nd" "queues (nd\<lparr>NdMeta := m\<rparr>) = queues nd" "queues (nd\<lparr>NdOs := s\<rparr>) = queues nd"
  "queues (nd\<lparr>NdDeks := ds\<rparr>) = queues nd" "queues (nd\<lparr>NdQuorum := q\<rparr>) = queues nd" "queues (nd\<lparr>NdAnti := ae\<rparr>) = queues nd"
  "queues (nd\<lparr>NdHints := hs\<rparr>) = queues nd" "queues (nd\<lparr>NdTasks := ts\<rparr>) = queues nd" "queues (nd\<lparr>NdStreams := ss\<rparr>) = queues nd"
  by (simp_all add: queues_def)

lemma queues_on_server [keeps_queues]: "queues (on_server f nd) = queues nd"
  by (simp add: on_server_def)

lemma queues_spawn [keeps_queues]: "queues (spawn t nd) = queues nd"
  by (simp add: spawn_def)

lemma queues_spawn_dials [keeps_queues]: "queues (spawn_dials as nd) = queues nd"
  unfolding spawn_dials_def by (induction as arbitrary: nd) (simp_all add: keeps_queues)

lemma queues_storeHint [keeps_queues]: "queues (storeHint ev now a k n nd) = queues nd"
  by (simp add: storeHint_def)

lemma queues_write_store [keeps_queues]: "write_store ev rnd key data nd = (r, nd') \<Longrightarrow> queues nd' = queues nd"
  by (auto simp: write_store_def split: prod.splits)

lemma queues_written [keeps_queues]: "queues (snd (write_store ev rnd key data nd)) = queues nd"
  by (auto simp: write_store_def split: prod.splits)

lemma queues_stamp_write [keeps_queues]: "queues (snd (stamp_write ev now key clock nd)) = queues nd"
  by (simp add: stamp_write_def Let_def split: prod.splits)

lemma queues_send_stream [keeps_queues]: "queues (snd (send_stream ev p msg data nd)) = queues nd"
  by (simp add: send_stream_def Let_def split: prod.splits)

lemma queues_send_served [keeps_queues]: "queues (snd (send_served ev p r nd)) = queues nd"
  by (auto simp: send_served_def send_stream_def Let_def split: sum.splits prod.splits)

lemma queues_run_get_file [keeps_queues]: "queues (snd (run_get_file ev p key nd)) = queues nd"
  by (simp add: run_get_file_def keeps_queues)

lemma queues_run_get_chunk [keeps_queues]: "queues (snd (run_get_chunk ev p fk i h nd)) = queues nd"
  by (simp add: run_get_chunk_def keeps_queues split: prod.splits)

lemma queues_handleStoreMessage [keeps_queues]: "queues (snd (handleStoreMessage ev rnd key sz stream nd)) = queues nd"
  by (auto simp: handleStoreMessage_def keeps_queues split: prod.splits sum.splits)

lemma queues_run_digest [keeps_queues]: "queues (run_digest ev now from p msg nd) = queues nd"
  by (simp add: run_digest_def Let_def keeps_queues split: prod.splits option.splits)

lemma queues_run_response [keeps_queues]: "queues (run_response ev now from msg nd) = queues nd"
  by (simp add: run_response_def Let_def keeps_queues split: prod.splits option.splits)

lemma queues_onNewPeer [keeps_queues]: "queues (onNewPeer ev dial a nd) = queues nd"
  by (simp add: onNewPeer_def keeps_queues)

lemma queues_handleQuorumWrite [keeps_queues]: "queues (handleQuorumWrite ev now rnd p key data clock nd) = queues nd"
  by (auto simp: handleQuorumWrite_def Let_def keeps_queues split: prod.splits sum.splits)

lemma queues_handleQuorumRead [keeps_queues]: "queues (handleQuorumRead ev p key nd) = queues nd"
  by (simp add: handleQuorumRead_def Let_def keeps_queues)

lemma queues_handleStoreManifest [keeps_queues]: "queues (snd (handleStoreManifest ev key json nd)) = queues nd"
  by (simp add: handleStoreManifest_def split: option.splits prod.splits)

lemma queues_handleChunkOffer [keeps_queues]: "queues (snd (handleChunkOffer ev p hs nd)) = queues nd"
  by (simp add: handleChunkOffer_def Let_def split: prod.splits)

lemma queues_handleMerkleSync [keeps_queues]: "queues (handleMerkleSync ev from msg nd) = queues nd"
  by (simp add: handleMerkleSync_def keeps_queues split: option.splits)

lemma queues_do_repair [keeps_queues]: "queues (do_repair ev now act nd) = queues nd"
  by (simp add: do_repair_def entropy_need_def entropy_send_def keeps_queues split: repair_action.splits sum.splits)

lemma queues_repairs [keeps_queues]: "queues (fold (do_repair ev now) acts nd) = queues nd"
  by (induction acts arbitrary: nd) (simp_all add: keeps_queues)

lemma queues_handleMerkleDiff [keeps_queues]: "queues (handleMerkleDiff ev now from msg nd) = queues nd"
  by (simp add: handleMerkleDiff_def keeps_queues split: option.splits prod.splits)

text \<open>The operations that use the queues keep their bounds.\<close>

lemma queues_ok_offer:
  assumes "queues_ok nd" shows "queues_ok (nd\<lparr>NdPending := offer key d (NdPending nd)\<rparr>)"
  using assms by (auto simp: queues_ok_def offer_def can_send_def chan_put_def update_conv' split: option.splits)

lemma queues_ok_deliver:
  assumes "queues_ok nd" and "deliver_on key d (NdPending nd) = Some chans" shows "queues_ok (nd\<lparr>NdPending := chans\<rparr>)"
  using assms by (auto simp: queues_ok_def deliver_on_def can_send_def chan_put_def update_conv' split: option.splits if_splits)

lemma queues_ok_cas: "queues_ok nd \<Longrightarrow> queues_ok (queue_cas key d nd)"
  by (simp add: queues_ok_def queue_cas_def)

lemma queues_ok_local: "queues_ok nd \<Longrightarrow> queues_ok (snd (handleLocalMessage ev key sz stream nd))"
  by (auto simp: handleLocalMessage_def intro!: queues_ok_cas queues_ok_offer split: sum.splits prod.splits)

lemma queues_ok_run_task:
  assumes "queues_ok nd" shows "queues_ok (run_task ev now rnd dial t nd)"
proof (cases t)
  case (DialTask a)
  then show ?thesis using queues_ok_cong [OF queues_onNewPeer assms] by (simp add: run_task_def)
next
  case (HandleTask frm p msg stream)
  have "queues (run_task ev now rnd dial t nd) = queues nd \<or> (\<exists>key sz. msg = MsgLocalFile key sz)"
    unfolding HandleTask by (cases msg) (simp_all add: run_task_def keeps_queues)
  then show ?thesis
    using queues_ok_cong [OF _ assms] queues_ok_local [OF assms] HandleTask by (auto simp: run_task_def)
qed

lemma queues_ok_search:
  assumes "queues_ok nd" and "deliver_search net rid results nd = Some nd'" shows "queues_ok nd'"
  using assms by (auto simp: queues_ok_def deliver_search_def handleSearchResponse_def Let_def update_conv' split: option.splits if_splits)

lemma queues_ok_read: "queues_ok nd \<Longrightarrow> queues_ok (nd\<lparr>NdReads := HandleReadResponse r (NdReads nd)\<rparr>)"
  by (auto simp: queues_ok_def HandleReadResponse_def update_conv' split: option.splits prod.splits if_splits)

lemma bind_quiet [simp]: "Option.bind r quiet = Some (e, nd) \<longleftrightarrow> e = None \<and> r = Some nd"
  by (cases r) (auto simp: quiet_def)

lemma quiet_Some [simp]: "quiet nd = Some (e, nd') \<longleftrightarrow> e = None \<and> nd' = nd"
  by (auto simp: quiet_def)

lemma plain_Some [simp]: "plain r nd = Some (e, nd') \<longleftrightarrow> e = map_option NodeNet (fst r) \<and> nd' = nd\<lparr>NdServer := snd r\<rparr>"
  by (auto simp: plain_def)

lemma queues_ok_message:
  assumes ok: "queues_ok nd" and h: "handleMessage ev now rnd from p msg stream nd = Some (e, nd')"
  shows "queues_ok nd'"
proof -
  have eqs: "handleStoreManifest ev key json nd = (e, nd') \<Longrightarrow> queues nd' = queues nd"
      "handleChunkOffer ev p hs nd = (e, nd') \<Longrightarrow> queues nd' = queues nd" for key json hs
    using queues_handleStoreManifest queues_handleChunkOffer by (metis snd_conv)+
  consider (kept) "queues nd' = queues nd"
    | (manifest) key json isDir where "msg = MsgManifestResponse key json isDir"
    | (catalog) json where "msg = MsgPublicCatalogResponse json"
    | (answers) rid results f where "msg = MsgSearchResponse rid results f"
    | (reads) key f found clock ts where "msg = MsgQuorumReadResponse key f found clock ts"
    | (infos) key ps where "msg = MsgProvidersResponse key ps"
    using h eqs
    by (cases msg) (auto simp: handleMessage_def Let_def keeps_queues split: prod.splits)
  then show ?thesis
  proof cases
    case kept
    then show ?thesis by (rule queues_ok_cong [OF _ ok])
  next
    case manifest
    then show ?thesis
      using h ok by (auto simp: handleMessage_def Let_def handleManifestResponse_def intro: queues_ok_deliver split: if_splits)
  next
    case catalog
    then show ?thesis
      using h ok by (auto simp: handleMessage_def Let_def handlePublicCatalogResponse_def intro: queues_ok_deliver)
  next
    case answers
    then show ?thesis using h ok by (auto simp: handleMessage_def Let_def intro: queues_ok_search)
  next
    case reads
    then show ?thesis using h ok by (auto simp: handleMessage_def Let_def intro: queues_ok_read)
  next
    case infos
    then show ?thesis
      using h ok by (auto simp: handleMessage_def Let_def handleProvidersResponse_def intro: queues_ok_offer)
  qed
qed

lemma queues_ok_step:
  assumes "node_step ev nd nd'" and ok: "queues_ok nd" shows "queues_ok nd'"
  using assms(1)
proof cases
  case step_control
  then show ?thesis using queues_ok_message [OF ok] by blast
next
  case step_data
  then show ?thesis using queues_ok_cong [OF queues_spawn ok] ok by (auto simp: dataLoop_def split: message.splits)
next
  case (step_task ts t us)
  have "queues_ok (nd\<lparr>NdTasks := ts @ us\<rparr>)" by (rule queues_ok_cong [OF _ ok]) simp
  then show ?thesis unfolding step_task(1) by (rule queues_ok_run_task)
next
  case (step_cas rnd)
  have "queues_ok (nd\<lparr>NdCas := tl (NdCas nd)\<rparr>)" using ok by (auto simp: queues_ok_def)
  then have "queues_ok (snd (write_store ev rnd key data (nd\<lparr>NdCas := tl (NdCas nd)\<rparr>)))" for key data
    by (rule queues_ok_cong [OF queues_written])
  then show ?thesis unfolding step_cas using ok by (auto simp: cas_write_step_def split: list.splits)
next
  case (step_take key ch d ds)
  have "length (ChData ch) \<le> ChCap ch" using ok step_take(2) unfolding queues_ok_def by blast
  then show ?thesis unfolding step_take(1) using ok step_take(3) by (auto simp: queues_ok_def update_conv')
qed (use ok in \<open>auto simp: queues_ok_def update_conv' delete_conv' split: if_splits\<close>)

text \<open>In every run of a node, whatever messages arrive, whichever goroutines run and in whatever order,
  no channel of a waiting caller holds more than its capacity, the background writer never has more than 32
  chunks in memory, a search no more than 64 answers, and a quorum read no more responses than it asked for.\<close>

lemma queues_stay_bounded:
  assumes "(node_step ev)\<^sup>*\<^sup>* nd nd'" and "queues_ok nd"
  shows "queues_ok nd'"
  using assms by (induction) (auto intro: queues_ok_step)

section \<open>Waiting\<close>

definition full_channel :: "string \<Rightarrow> ('db, 'm) node \<Rightarrow> bool" where
  "full_channel key nd \<longleftrightarrow> (\<exists>ch. map_of (NdPending nd) key = Some ch \<and> ChCap ch \<le> length (ChData ch))"

lemma deliver_on_None: "deliver_on key d (NdPending nd) = None \<longleftrightarrow> full_channel key nd"
  by (auto simp: deliver_on_def full_channel_def can_send_def split: option.splits)

text \<open>The channels the message loop waits on: a message has no result exactly when it is metadata, a catalog or search
  results for a caller whose channel is full.\<close>

lemma loop_waits_exactly:
  "handleMessage ev now rnd from p msg stream nd = None \<longleftrightarrow>
     (\<exists>key json isDir. msg = MsgManifestResponse key json isDir \<and> json \<noteq> [] \<and> full_channel (manifest_channel key) nd) \<or>
     (\<exists>json. msg = MsgPublicCatalogResponse json \<and> full_channel (catalog_channel from nd) nd) \<or>
     (\<exists>rid results f ch. msg = MsgSearchResponse rid results f \<and>
        map_of (NdSearch nd) (search_key (self_address (EvNet ev) (NdServer nd)) rid) = Some ch \<and> 64 \<le> length ch)"
  by (cases msg)
    (auto simp: handleMessage_def quiet_def plain_def Let_def handleManifestResponse_def handlePublicCatalogResponse_def
      deliver_on_None deliver_search_def bind_eq_None_conv split: prod.splits option.splits if_splits)

text \<open>A caller of \<open>GetPublicCatalog\<close> takes one answer from its channel of one place and removes the entry. When a
  peer answers more often than it was asked, the loop waits for a reader that never comes.\<close>

lemma catalog_answered_twice_blocks:
  assumes "map_of (NdPending nd) (from @ ''#catalog'') = Some \<lparr>ChCap = 1, ChData = []\<rparr>"
    and "handleMessage ev now rnd from p (MsgPublicCatalogResponse json) stream nd = Some (e, nd')"
  shows "handleMessage ev now' rnd' from p (MsgPublicCatalogResponse json') stream' nd' = None"
  using assms
  by (auto simp: handleMessage_def Let_def handlePublicCatalogResponse_def catalog_channel_def deliver_on_def can_send_def
      chan_put_def bind_eq_None_conv)

section \<open>Metadata over the network\<close>

lemma map_of_deliver:
  assumes "map_of (NdPending b) key = Some \<lparr>ChCap = c, ChData = []\<rparr>" and "0 < c"
  shows "\<exists>chans. deliver_on key d (NdPending b) = Some chans \<and> map_of chans key = Some \<lparr>ChCap = c, ChData = [d]\<rparr>"
  using assms by (simp add: deliver_on_def can_send_def chan_put_def)

text \<open>C34. Metadata asked for over the network. A node that is asked for a key answers with one message. When the
  asking node handles this answer, its waiting caller gets exactly the directory manifest the other node holds,
  or else the file manifest it holds, decoded to the same record, and is told which of the two it is; for a key
  without either it gets nothing and goes on waiting.\<close>

theorem metadata_fetch_exact:
  assumes codec: "\<And>man. json_ok (EvManifest ev) man \<and> jMarshal (EvManifest ev) man \<noteq> []"
    and dirs: "MGetDirManifest (ev_ops ev) (NdMeta a) key \<noteq> Some []"
    and serve: "handleMessage ev now rnd from p (MsgGetManifest key) stream a = Some (e, a')"
    and chan: "map_of (NdPending b) (manifest_channel key) = Some \<lparr>ChCap = c, ChData = []\<rparr>" "0 < c"
    and asked: "ring_GetNodes (NSha (EvNet eb)) (SvRing sv) key (ring_ReplicationFactor (SvRing sv)) = Some targets"
      "ask_nodes (EvNet eb) (MsgGetManifest key) targets sv = (Suc n, sv')"
    and same: "EvManifest eb = EvManifest ev"
  shows "\<exists>resp ok b' data. SvOut (NdServer a') = SvOut (NdServer a) @ [ESent p resp ok] \<and>
    handleMessage eb now' rnd' from' q resp stream' b = Some (None, b') \<and>
    map_of (NdPending b') (manifest_channel key) = Some \<lparr>ChCap = c, ChData = data\<rparr> \<and>
    (case MGetDirManifest (ev_ops ev) (NdMeta a) key of
       Some d \<Rightarrow> \<exists>x. data = [x] \<and> fetchMetadataFromPeers (EvNet eb) (Some x) key sv = (Inr (d, True), sv')
     | None \<Rightarrow>
         (case MGetManifest (ev_ops ev) (NdMeta a) key of
            Some man \<Rightarrow> \<exists>x. data = [x] \<and> fetchManifestFromPeers eb (Some x) key sv = (Inr man, sv')
          | None \<Rightarrow> data = []))"
proof -
  let ?resp = "manifest_response ev key (NdMeta a)"
  have out: "SvOut (NdServer a') = SvOut (NdServer a) @ [ESent p ?resp (NSends (EvNet ev) p ?resp)]"
    using serve by (auto simp: handleMessage_def Let_def on_server_def log_event_def)
  obtain data b' where b: "handleMessage eb now' rnd' from' q ?resp stream' b = Some (None, b')"
    "map_of (NdPending b') (manifest_channel key) = Some \<lparr>ChCap = c, ChData = data\<rparr>"
    "case ?resp of MsgManifestResponse k json isDir \<Rightarrow> data = (if json = [] then [] else [(if isDir then 1 else 0) # json])"
  proof -
    have "\<exists>json isDir. ?resp = MsgManifestResponse key json isDir" by (auto simp: manifest_response_def split: option.splits)
    then obtain json isDir where r: "?resp = MsgManifestResponse key json isDir" by blast
    from map_of_deliver [OF chan, of "(if isDir then 1 else 0) # json"] that chan show thesis
      unfolding r by (cases "json = []") (auto simp: handleMessage_def Let_def handleManifestResponse_def)
  qed
  have "case MGetDirManifest (ev_ops ev) (NdMeta a) key of
       Some d \<Rightarrow> \<exists>x. data = [x] \<and> fetchMetadataFromPeers (EvNet eb) (Some x) key sv = (Inr (d, True), sv')
     | None \<Rightarrow>
         (case MGetManifest (ev_ops ev) (NdMeta a) key of
            Some man \<Rightarrow> \<exists>x. data = [x] \<and> fetchManifestFromPeers eb (Some x) key sv = (Inr man, sv')
          | None \<Rightarrow> data = [])"
    using b(3) codec dirs asked same
    by (auto simp: manifest_response_def fetchManifestFromPeers_def fetchMetadataFromPeers_def json_ok_def bytes_of_def
        string_of_bytes_of [unfolded bytes_of_def] split: option.splits)
  with out b show ?thesis by blast
qed

section \<open>The local store of a node\<close>

definition node_content :: "'m node_env \<Rightarrow> ('db, 'm) node \<Rightarrow> string \<Rightarrow> byte list option" where
  "node_content ev nd = stored_content (ev_store ev) (NdMeta nd) (NdOs nd)"

lemma readFile_content: "readFile ev key nd = Inr data \<longleftrightarrow> node_content ev nd key = Some data"
  by (auto simp: readFile_def node_content_def stored_content_def split: sum.splits)

lemma write_store_result:
  assumes "write_store ev rnd key data nd = (r, nd')"
  shows "WriteStream (UMd5 (EvUp ev)) rnd (ev_store ev) key (Some data) (NdMeta nd) (NdOs nd) = (r, NdMeta nd', NdOs nd')"
    and "nd' = nd\<lparr>NdMeta := NdMeta nd', NdOs := NdOs nd'\<rparr>"
  using assms by (auto simp: write_store_def split: prod.splits)

text \<open>Stamping the entry of a stored key moves no content, whether or not it succeeds.\<close>

lemma set_stamp:
  assumes kv: "kv_ok (BMOps m)" and json: "\<And>x. json_ok (BMMeta m) x" and old: "bm_Get m key = Some fm"
    and set: "bm_Set m key (fm\<lparr>MVClock := clock, MTimestamp := now\<rparr>) = (err, m')"
  shows "(\<exists>fm'. bm_Get m' key = Some fm' \<and> MPath fm' = MPath fm \<and>
      (MVClock fm', MTimestamp fm') \<in> {(clock, now), (MVClock fm, MTimestamp fm)}) \<and>
    (\<forall>k. k \<noteq> key \<longrightarrow> bm_Get m' k = bm_Get m k)"
proof (cases err)
  case None
  have "bm_Get m' key = Some (fm\<lparr>MVClock := clock, MTimestamp := now\<rparr>)"
    using bolt_store.get_set [OF kv _ json] set None by simp
  then show ?thesis using bolt_store.get_set_other [OF kv, of key] set by auto
next
  case Some
  have "BMOps m' = BMOps m \<and> BMMeta m' = BMMeta m \<and> KGet (BMOps m) (BMData m') = KGet (BMOps m) (BMData m)"
    using bm_update_ok [OF _ kv] set Some by (auto simp: bm_Set_def)
  then have "bm_Get m' k = bm_Get m k" for k by (simp add: bm_Get_def cong: option.case_cong)
  then show ?thesis using old by auto
qed

lemma stored_content_paths:
  assumes "\<And>k. map_option MPath (MGet (Metadata st) m' k) = map_option MPath (MGet (Metadata st) m k)"
  shows "stored_content st m' s = stored_content st m s"
proof
  fix k show "stored_content st m' s k = stored_content st m s k"
    using assms [of k] by (auto simp: stored_content_def ReadStream_def split: option.splits)
qed

text \<open>C35. An acknowledged quorum write is held: when the node answers a write request with success, the bytes
  of the request can be read under its key, no other stored content has changed, and a later read request is
  answered with the found entry and the clock of the write, or, when only the second write of the metadata
  failed, whose error is dropped, with the clock the key had before.\<close>

theorem acked_write_is_held:
  fixes ev :: "'k bolt_meta node_env"
  assumes ready: "cas_ready sha256 (UMd5 (EvUp ev)) keys V (ev_store ev) (NdMeta nd) (NdOs nd)" and key: "key \<in> keys"
    and rnd: "rnd_ok rnd" and json: "\<And>x. json_ok (BMMeta (NdMeta nd)) x"
    and w: "handleMessage ev now rnd from p (MsgQuorumWrite key data clock) stream nd = Some (e, nd')"
    and ack: "SvOut (NdServer nd') = SvOut (NdServer nd) @ [ESent p (MsgQuorumWriteAck key me True err) ok]"
  shows "node_content ev nd' = (node_content ev nd)(key \<mapsto> data) \<and>
    (\<exists>nd2 c t ok2. handleMessage ev now2 rnd2 from2 q (MsgQuorumRead key) stream2 nd' = Some (None, nd2) \<and>
       SvOut (NdServer nd2) = SvOut (NdServer nd') @ [ESent q (MsgQuorumReadResponse key (NAddr (EvNet ev)) True c t) ok2] \<and>
       (let fm = meta_or_zero bm_ops (NdMeta nd) key in (c, t) \<in> {(clock, now), (MVClock fm, MTimestamp fm)}))"
proof -
  note G = cas_readyD [OF ready]
  have ops: "ev_ops ev = bm_ops" using G(1) by (simp add: ev_ops_def ev_store_def)
  obtain r nd1 where r: "write_store ev rnd key data nd = (r, nd1)" by fastforce
  have "nd' = on_server (\<lambda>sv. snd (send_msg (EvNet ev) p (quorum_ack ev key r) sv))
      (case r of Inl e \<Rightarrow> nd1 | Inr n \<Rightarrow> snd (stamp_write ev now key clock nd1))"
    using w r by (auto simp: handleMessage_def handleQuorumWrite_def Let_def)
  moreover have sv1: "NdServer (snd (stamp_write ev now key clock nd1)) = NdServer nd1" "NdServer nd1 = NdServer nd"
    using r by (auto simp: stamp_write_def write_store_def Let_def split: prod.splits)
  ultimately obtain n where n: "r = Inr n" and nd': "NdMeta nd' = NdMeta (snd (stamp_write ev now key clock nd1))"
      "NdOs nd' = NdOs nd1"
    using ack by (cases r) (auto simp: on_server_def log_event_def quorum_ack_def stamp_write_def Let_def split: prod.splits)
  have ws: "WriteStream (UMd5 (EvUp ev)) rnd (ev_store ev) key (Some data) (NdMeta nd) (NdOs nd) = (Inr n, NdMeta nd1, NdOs nd1)"
    using write_store_result(1) [OF r] n by simp
  note put = bolt_put [OF ready key rnd ws]
  note G1 = cas_readyD [OF conjunct1 [OF put]]
  have tf: "temp_path (ev_store ev) key rnd \<noteq> stream_path (UMd5 (EvUp ev)) (ev_store ev) key data"
    unfolding stream_path_cas by (rule temp_not_cas [OF G(3) rnd G(6)])
  let ?fm = "(meta_or_zero bm_ops (NdMeta nd) key)\<lparr>MPath := stream_path (UMd5 (EvUp ev)) (ev_store ev) key data\<rparr>"
  have set1: "MSet bm_ops (NdMeta nd) key ?fm = (None, NdMeta nd1)" using WriteStream_steps(1) [OF ws tf G(15) [OF rnd]] G(1) by simp
  have get1: "bm_Get (NdMeta nd1) key = Some ?fm" using bolt_store.get_set [OF G(7) set1 json] by simp
  have json1: "json_ok (BMMeta (NdMeta nd1)) x" for x using bolt_store.set_inv [OF G(7) set1] json by metis
  obtain err2 where set2: "bm_Set (NdMeta nd1) key (?fm\<lparr>MVClock := clock, MTimestamp := now\<rparr>) = (err2, NdMeta nd')"
    using nd'(1) get1 by (auto simp: stamp_write_def ops meta_or_zero_def split: prod.splits)
  obtain fm2 where fm2: "bm_Get (NdMeta nd') key = Some fm2" "MPath fm2 = MPath ?fm"
      "(MVClock fm2, MTimestamp fm2) \<in> {(clock, now), (MVClock ?fm, MTimestamp ?fm)}"
      "\<forall>k. k \<noteq> key \<longrightarrow> bm_Get (NdMeta nd') k = bm_Get (NdMeta nd1) k"
    using set_stamp [OF G1(7) json1 get1 set2] by blast
  have "stored_content (ev_store ev) (NdMeta nd') (NdOs nd1) = stored_content (ev_store ev) (NdMeta nd1) (NdOs nd1)"
  proof (rule stored_content_paths)
    fix k show "map_option MPath (MGet (Metadata (ev_store ev)) (NdMeta nd') k) =
        map_option MPath (MGet (Metadata (ev_store ev)) (NdMeta nd1) k)"
      using fm2 get1 G(1) by (cases "k = key") simp_all
  qed
  then have "node_content ev nd' = (node_content ev nd)(key \<mapsto> data)"
    using put nd'(2) by (simp add: node_content_def)
  moreover have "meta_or_zero (ev_ops ev) (NdMeta nd') key = fm2" "MGet (ev_ops ev) (NdMeta nd') key \<noteq> None"
    using fm2(1) ops by (simp_all add: meta_or_zero_def)
  ultimately show ?thesis
    using fm2(3) by (auto simp: handleMessage_def Let_def handleQuorumRead_def on_server_def log_event_def quiet_def)
qed

section \<open>Chunks pass on\<close>

context cas_store
begin

text \<open>The background writer makes the chunk it takes readable and changes no other content.\<close>

lemma cas_write_step_content:
  assumes "ev_store ev = st" and "UMd5 (EvUp ev) = md5" and "good (NdMeta nd) (NdOs nd)" and "NdCas nd = (key, data) # rest"
    and "key \<in> keys" and "rnd_ok rnd" and "fst (write_store ev rnd key data (nd\<lparr>NdCas := rest\<rparr>)) = Inr n"
  shows "node_content ev (cas_write_step ev rnd nd) = (node_content ev nd)(key \<mapsto> data) \<and>
    good (NdMeta (cas_write_step ev rnd nd)) (NdOs (cas_write_step ev rnd nd))"
proof -
  obtain nd1 where w: "write_store ev rnd key data (nd\<lparr>NdCas := rest\<rparr>) = (Inr n, nd1)"
    using assms(7) by (metis prod.collapse)
  from put [OF assms(3,5,6), of data n "NdMeta nd1" "NdOs nd1"] write_store_result(1) [OF w] assms(1,2)
  show ?thesis by (simp add: cas_write_step_def assms(4) w node_content_def)
qed

end

definition sent_chunk :: "'m node_env \<Rightarrow> conn \<Rightarrow> string \<Rightarrow> byte list \<Rightarrow> (conn \<times> message \<times> byte list) list" where
  "sent_chunk ev p key data =
     (let msg = MsgLocalFile key (int (length data)) in if NSends (EvNet ev) p msg then [(p, msg, data)] else [])"

lemma served_file:
  assumes "node_content ev nd key = Some data"
  shows "NdStreams (run_task ev now rnd dial (HandleTask from p (MsgGetFile key) stream) nd) =
    NdStreams nd @ sent_chunk ev p key data"
  using assms
  by (auto simp: run_task_def run_get_file_def handleGetMessage_def send_served_def send_stream_def node_content_def
      stored_content_def send_msg_def sent_chunk_def Let_def split: sum.splits)

text \<open>A chunk passes from node to node. Node \<open>a\<close> holds the bytes and runs the request for them; if its send
  succeeds, it sends one message with these bytes after it. When this reaches node \<open>b\<close> over the data transport and its task
  runs, the waiting caller gets exactly the bytes of \<open>a\<close>. What the background writer then stores is the copy of the buffer:
  the bytes of \<open>a\<close> unless the caller has recycled it in between, and \<open>b\<close> serves a third node with what it stored. Node \<open>b\<close> has no
  other task and no other chunk to write.\<close>

lemma chunk_passes_on:
  fixes eb :: "'k bolt_meta node_env"
  assumes have_a: "node_content ea a key = Some data"
    and a': "a' = run_task ea now r0 dial (HandleTask fromA p (MsgGetFile key) []) a"
    and ready: "cas_ready sha256 (UMd5 (EvUp eb)) keys V (ev_store eb) (NdMeta b) (NdOs b)" "key \<in> keys" "rnd_ok rnd"
    and waiting: "map_of (NdPending b) key = Some ch" "can_send ch" and idle: "NdCas b = []" "NdTasks b = []"
    and b1: "b1 = dataLoop bidi fromB q (MsgLocalFile key (int (length data))) (data @ tail) b"
    and b2: "b2 = run_task eb now1 r1 dial1 (hd (NdTasks b1)) (b1\<lparr>NdTasks := []\<rparr>)"
    and copy: "copied = EvCopied eb key data"
    and stored: "fst (write_store eb rnd key copied (b2\<lparr>NdCas := []\<rparr>)) = Inr n"
    and b3: "b3 = cas_write_step eb rnd b2"
  shows "NdStreams a' = NdStreams a @ sent_chunk ea p key data \<and>
    map_of (NdPending b2) key = Some (chan_put data ch) \<and>
    node_content eb b3 = (node_content eb b)(key \<mapsto> copied) \<and>
    NdStreams (run_task eb now2 r2 dial2 (HandleTask fromC p2 (MsgGetFile key) []) b3) =
      NdStreams b3 @ sent_chunk eb p2 key copied"
proof -
  have b1': "b1 = b\<lparr>NdTasks := [HandleTask fromB q (MsgLocalFile key (int (length data))) (data @ tail)]\<rparr>"
    using b1 idle by (simp add: dataLoop_def spawn_def)
  have "read_full (length data) (data @ tail) = Inr (data, tail)" by (simp add: read_full_def)
  then have b2': "b2 = b\<lparr>NdPending := AList.update key (chan_put data ch) (NdPending b), NdCas := [(key, copied)], NdTasks := []\<rparr>"
    using b2 b1' waiting idle by (simp add: run_task_def handleLocalMessage_def offer_def queue_cas_def taken_def copy)
  have "node_content eb b3 = (node_content eb b2)(key \<mapsto> copied)"
    unfolding b3
    by (rule conjunct1 [OF bolt_cas.cas_write_step_content [OF refl refl _ _ ready(2,3) stored]]) (use b2' ready in simp_all)
  moreover have "node_content eb b2 = node_content eb b" by (simp add: b2' node_content_def)
  moreover have "map_of (NdPending b2) key = Some (chan_put data ch)" by (simp add: b2')
  ultimately show ?thesis using served_file [OF have_a] a' by (simp add: served_file)
qed

section \<open>Read repair\<close>

text \<open>The probe of \<open>readRepair\<close> waits on a channel of its own name, while an answer is offered on the channel of the
  key: the answer never reaches the probe.\<close>

lemma probe_gets_no_answer:
  "map_of (NdPending (snd (handleLocalMessage ev key sz stream nd))) (''__probe__'' @ key) =
    map_of (NdPending nd) (''__probe__'' @ key)"
proof -
  have "''__probe__'' @ key \<noteq> key" by simp
  then show ?thesis
    by (auto simp: handleLocalMessage_def queue_cas_def offer_def split: sum.splits prod.splits option.splits)
qed

section \<open>Instances\<close>

definition demo_up :: "((meta_bucket \<times> string) \<times> byte list) list bolt_meta node_env" where
  "demo_up = \<lparr>EvNet = demo_net, EvUp = demo_upload, EvKeys = \<lparr>VKdf = undefined, VPriv = []\<rparr>, EvGossip = None,
     EvManifest = \<lparr>jMarshal = (\<lambda>x. CHR ''m'' # jMarshal lossless_json x), jUnmarshal = (\<lambda>t. jUnmarshal lossless_json (tl t))\<rparr>,
     EvPublic = demo_json undefined, EvInfos = demo_json undefined, EvStoreText = (\<lambda>e. []), EvServeText = (\<lambda>e. []),
     EvHintWrites = (\<lambda>k. WriteOk), EvBootstrap = {}, EvKeysOf = (\<lambda>m. []), EvCopied = (\<lambda>k d. d)\<rparr>"

definition demo_node :: "(bucket \<Rightarrow> (string \<times> doc) list, ((meta_bucket \<times> string) \<times> byte list) list bolt_meta) node" where
  "demo_node = \<lparr>NdServer = demo_server, NdMeta = demo_meta_store, NdOs = no_files, NdDeks = [], NdPending = [], NdSearch = [],
     NdQuorum = None, NdReads = [], NdAnti = None, NdHints = None, NdCas = [], NdTasks = [], NdStreams = [], NdUploads = 0,
     NdDialing = {}\<rparr>"

lemma demo_up_sel [simp]:
  "EvNet demo_up = demo_net" "EvUp demo_up = demo_upload" "ev_store demo_up = demo_store" "ev_ops demo_up = bm_ops"
  by (simp_all add: demo_up_def ev_store_def ev_ops_def)

lemma demo_node_sel [simp]:
  "NdServer demo_node = demo_server" "NdMeta demo_node = demo_meta_store" "NdOs demo_node = no_files" "NdPending demo_node = []"
  "NdCas demo_node = []" "NdTasks demo_node = []" "NdSearch demo_node = []" "NdReads demo_node = []"
  by (simp_all add: demo_node_def)

lemma demo_ready: "cas_ready demo_sha demo_md5 {''f''} UNIV demo_store demo_meta_store no_files" "rnd_ok ''1''"
proof -
  have "\<not> reserved ''f''" by (simp add: reserved_def)
  then show "cas_ready demo_sha demo_md5 {''f''} UNIV demo_store demo_meta_store no_files"
    by (simp add: cas_ready_def demo_sha_def demo_md5_def meta_closed_def placed_def NUL_def no_files_def)
      (auto simp: demo_meta_store_def alist_kv_ok)
  show "rnd_ok ''1''" by (simp add: rnd_ok_def digits_def is_digit_def)
qed

lemma demo_json_up: "json_ok (EvManifest demo_up) x \<and> jMarshal (EvManifest demo_up) x \<noteq> []"
  using lossless_ok [of x] by (simp add: demo_up_def json_ok_def)

definition demo_holder :: "(bucket \<Rightarrow> (string \<times> doc) list, ((meta_bucket \<times> string) \<times> byte list) list bolt_meta) node" where
  "demo_holder = demo_node\<lparr>NdMeta := demo_meta_store\<lparr>BMData := [((ManifestsBucket, DirManifestKey ''f''), [5])]\<rparr>\<rparr>"

definition demo_asker :: "(bucket \<Rightarrow> (string \<times> doc) list) server" where
  "demo_asker = demo_server\<lparr>SvRing := \<lparr>sortedHashes = [0], hashToNode = [(0, ''10.0.0.2:47636'')],
     nodeToHashes = [(''10.0.0.2:47636'', [0])], virtualNodes = 1, replFactor = 1\<rparr>\<rparr>"

lemma demo_asks:
  "ring_GetNodes (NSha demo_net) (SvRing demo_asker) ''f'' (ring_ReplicationFactor (SvRing demo_asker)) = Some [''10.0.0.2:47636'']"
  "\<exists>sv'. ask_nodes demo_net msg [''10.0.0.2:47636''] demo_asker = (Suc 0, sv')"
  by (simp_all add: demo_asker_def ring_GetNodes_def ring_search_def sort_search_def sort_search_loop.simps owner_def go_get_def
      ring_ReplicationFactor_def send_msg_def Let_def)

theorem metadata_fetch_exact_witness:
  "\<exists>resp ok b' x sv'. SvOut (NdServer (snd (the (handleMessage demo_up 1 [] ''b'' demo_conn (MsgGetManifest ''f'') [] demo_holder)))) =
      SvOut (NdServer demo_holder) @ [ESent demo_conn resp ok] \<and>
    handleMessage demo_up 2 [] ''a'' demo_conn resp [] (demo_node\<lparr>NdPending := [(manifest_channel ''f'', \<lparr>ChCap = 1, ChData = []\<rparr>)]\<rparr>) =
      Some (None, b') \<and>
    map_of (NdPending b') (manifest_channel ''f'') = Some \<lparr>ChCap = 1, ChData = [x]\<rparr> \<and>
    fetchMetadataFromPeers demo_net (Some x) ''f'' demo_asker = (Inr ([5], True), sv')"
proof -
  let ?b = "demo_node\<lparr>NdPending := [(manifest_channel ''f'', \<lparr>ChCap = 1, ChData = []\<rparr>)]\<rparr>"
  obtain sv' where sv': "ask_nodes demo_net (MsgGetManifest ''f'') [''10.0.0.2:47636''] demo_asker = (Suc 0, sv')"
    using demo_asks(2) by blast
  obtain a' where a': "handleMessage demo_up 1 [] ''b'' demo_conn (MsgGetManifest ''f'') [] demo_holder = Some (None, a')"
    by (simp add: handleMessage_def quiet_def Let_def)
  have dir: "MGetDirManifest (ev_ops demo_up) (NdMeta demo_holder) ''f'' = Some [5]"
    by (simp add: demo_holder_def bm_ops_def bm_GetDirManifest_def demo_meta_store_def alist_kv_def)
  have chan: "map_of (NdPending ?b) (manifest_channel ''f'') = Some \<lparr>ChCap = 1, ChData = []\<rparr>" "0 < (1::nat)" by simp_all
  have ring: "ring_GetNodes (NSha (EvNet demo_up)) (SvRing demo_asker) ''f'' (ring_ReplicationFactor (SvRing demo_asker)) =
      Some [''10.0.0.2:47636'']" "ask_nodes (EvNet demo_up) (MsgGetManifest ''f'') [''10.0.0.2:47636''] demo_asker = (Suc 0, sv')"
    using demo_asks(1) sv' by simp_all
  from metadata_fetch_exact [OF demo_json_up _ a' chan ring refl, of 2 "[]" "''a''" demo_conn "[]"] dir
  show ?thesis by (fastforce simp: a')
qed

theorem acked_write_is_held_witness:
  "\<exists>nd'. handleMessage demo_up 3 ''1'' ''b'' demo_conn (MsgQuorumWrite ''f'' [7, 8] [(''n'', 2)]) [] demo_node = Some (None, nd') \<and>
    node_content demo_up nd' ''f'' = Some [7, 8]"
proof -
  obtain m s where w: "WriteStream demo_md5 ''1'' demo_store ''f'' (Some [7, 8]) demo_meta_store no_files = (Inr (length [7, 8 :: byte]), m, s)"
    using demo_write [of "''f''" "[7, 8]"] by blast
  obtain nd' where nd': "handleMessage demo_up 3 ''1'' ''b'' demo_conn (MsgQuorumWrite ''f'' [7, 8] [(''n'', 2)]) [] demo_node = Some (None, nd')"
    by (simp add: handleMessage_def quiet_def Let_def)
  have sv: "NdServer (snd (stamp_write demo_up 3 ''f'' [(''n'', 2)] nd)) = NdServer nd"
    for nd :: "(bucket \<Rightarrow> (string \<times> doc) list, ((meta_bucket \<times> string) \<times> byte list) list bolt_meta) node"
    by (simp add: stamp_write_def Let_def split: prod.split)
  have out: "SvOut (NdServer nd') = SvOut (NdServer demo_node) @ [ESent demo_conn (MsgQuorumWriteAck ''f'' '':3000'' True []) True]"
    using nd' w by (auto simp: handleMessage_def handleQuorumWrite_def write_store_def quorum_ack_def on_server_def log_event_def
        sv Let_def)
  have ready: "cas_ready demo_sha (UMd5 (EvUp demo_up)) {''f''} UNIV (ev_store demo_up) (NdMeta demo_node) (NdOs demo_node)"
    using demo_ready(1) by simp
  have "json_ok (BMMeta (NdMeta demo_node)) x" for x by (simp add: demo_meta_store_def)
  from acked_write_is_held [OF ready _ demo_ready(2) this nd' out] nd' show ?thesis by simp
qed

end
