(* ===== verification/DirTransfer.thy ===== *)
theory DirTransfer
  imports Sharing DirDownload DirManifest
begin

text \<open>
  Whole directories in Server/server.go: \<open>StoreDirectory\<close> uploads the files of a walk and commits the metadata
  of all of them in one batch; \<open>GetDirectory\<close> with \<open>prepareDirectoryDownload\<close> looks for what is already on disk,
  opens a \<open>.part\<close> file and a resume sidecar for every other file and hands them to the directory downloader.

  The tree is what the walk sees; the files are read from the file system. \<open>env i\<close> holds the clock and the fresh
  names for file \<open>i\<close>. \<open>stop i\<close> says that the context is cancelled before file \<open>i\<close>. The writes of the downloader into the
  open \<open>.part\<close> files appear in the file system when it returns. \<open>wb\<close> is \<open>WithBatch\<close> of the metadata store, and
  \<open>mkdirs p\<close> says that the directory of \<open>p\<close> can be made. The paths of the files of a directory differ.
\<close>

section \<open>Storing\<close>

datatype dir_error =
    DirWalk walk_error
  | DirEmpty
  | DirCancelled
  | DirOpen string os_error
  | DirUpload string upload_error
  | DirPanic
  | DirBatch string

text \<open>The progress of a file as progress of the directory.\<close>

definition file_effects :: "bool \<Rightarrow> int \<Rightarrow> int \<Rightarrow> up_effect list \<Rightarrow> up_effect list" where
  "file_effects progress idx tot eff =
     concat (map (\<lambda>e. case e of UpProgress a b \<Rightarrow> if progress then [UpDirProgress idx tot a b] else [] | _ \<Rightarrow> [e]) eff)"

definition file_key :: "string \<Rightarrow> file_entry \<Rightarrow> string" where
  "file_key key e = key @ ''/'' @ file_entry.FRelativePath e"

definition stored_entry :: "string \<Rightarrow> file_entry \<Rightarrow> stored_file_result \<Rightarrow> file_entry" where
  "stored_entry key e r = e\<lparr>FFileHash := MMerkleRoot (SManifest r), FManifestKey := file_key key e\<rparr>"

fun store_files ::
  "(nat \<Rightarrow> 'm upload_env) \<Rightarrow> (nat \<Rightarrow> bool) \<Rightarrow> (nat \<Rightarrow> nat \<Rightarrow> bool) \<Rightarrow> string \<Rightarrow> string \<Rightarrow> encryption_meta option \<Rightarrow> bool
    \<Rightarrow> int \<Rightarrow> nat \<Rightarrow> file_entry list \<Rightarrow> 'm \<Rightarrow> os
    \<Rightarrow> (dir_error + (file_entry \<times> stored_file_result) list) \<times> up_effect list \<times> 'm \<times> os" where
  "store_files env stop ctx key dirPath enc progress tot i [] m s = (Inr [], [], m, s)"
| "store_files env stop ctx key dirPath enc progress tot i (e # es) m s =
     (if stop i then (Inl DirCancelled, [], m, s)
      else case os_ReadFile (path_Join dirPath (file_entry.FRelativePath e)) s of
          Inl err \<Rightarrow> (Inl (DirOpen (file_entry.FRelativePath e) err), [], m, s)
        | Inr content \<Rightarrow>
            (case StoreDataCollectMeta (env i) (ctx i) (file_key key e) content False enc (int (length content)) True m s of
               (Inl err, eff, m, s) \<Rightarrow>
                 (Inl (DirUpload (file_entry.FRelativePath e) err), file_effects progress (int i + 1) tot eff, m, s)
             | (Inr None, eff, m, s) \<Rightarrow> (Inl DirPanic, file_effects progress (int i + 1) tot eff, m, s)
             | (Inr (Some r), eff, m, s) \<Rightarrow>
                 (case store_files env stop ctx key dirPath enc progress tot (i + 1) es m s of
                    (Inl err, effs, m, s) \<Rightarrow> (Inl err, file_effects progress (int i + 1) tot eff @ effs, m, s)
                  | (Inr rs, effs, m, s) \<Rightarrow>
                      (Inr ((stored_entry key e r, r) # rs), file_effects progress (int i + 1) tot eff @ effs, m, s))))"

definition directory_of ::
  "(byte list \<Rightarrow> byte list) \<Rightarrow> string \<Rightarrow> encryption_meta option \<Rightarrow> int \<Rightarrow> file_entry list \<Rightarrow> directory_manifest" where
  "directory_of sha256 key enc created entries =
     (let dm = \<lparr>DStorageKey = key, DTotalSize = i64 (sum_list (map FSize entries)), DFileCount = int (length entries),
                DFiles = entries, DMerkleRoot = dir_MerkleRoot sha256 entries, DCreatedAt = created, DIsDirectory = True,
                DEncrypted = False, DOwnerPubKey = [], DOwnerEdPubKey = [], DAccessList = [], DSignature = []\<rparr>
      in case enc of
           None \<Rightarrow> dm
         | Some e \<Rightarrow> dm\<lparr>DEncrypted := True, DOwnerPubKey := EOwnerPubKey e, DOwnerEdPubKey := EOwnerEdPubKey e,
                       DAccessList := EAccessList e, DSignature := ESignature e\<rparr>)"

text \<open>The calls of the batch, in order.\<close>

definition file_batch :: "stored_file_result \<Rightarrow> batch_op list" where
  "file_batch r =
     map (\<lambda>(k, fm). BatchSet k fm) (SChunkMetas r) @ [BatchSetManifest (SFileKey r) (SManifest r), BatchSet (SFileKey r) (SFileMeta r)]"

definition dir_batch :: "stored_file_result list \<Rightarrow> string \<Rightarrow> byte list \<Rightarrow> file_meta \<Rightarrow> batch_op list" where
  "dir_batch rs key data topFm = concat (map file_batch rs) @ [BatchSetDirManifest key data, BatchSet key topFm]"

definition StoreDirectory ::
  "(nat \<Rightarrow> 'm upload_env) \<Rightarrow> (nat \<Rightarrow> bool) \<Rightarrow> (nat \<Rightarrow> nat \<Rightarrow> bool) \<Rightarrow> directory_manifest json
    \<Rightarrow> ('m \<Rightarrow> batch_op list \<Rightarrow> string option \<Rightarrow> string option \<times> 'm) \<Rightarrow> fs_node option \<Rightarrow> string \<Rightarrow> string
    \<Rightarrow> encryption_meta option \<Rightarrow> bool \<Rightarrow> int \<Rightarrow> int \<Rightarrow> 'm \<Rightarrow> os \<Rightarrow> dir_error option \<times> up_effect list \<times> 'm \<times> os" where
  "StoreDirectory env stop ctx JD wb tree key dirPath enc progress created now m s =
     (case Walk tree of
        Inl e \<Rightarrow> (Some (DirWalk e), [], m, s)
      | Inr entries \<Rightarrow>
          if entries = [] then (Some DirEmpty, [], m, s)
          else case store_files env stop ctx key dirPath enc progress (int (length entries)) 0 entries m s of
              (Inl e, eff, m, s) \<Rightarrow> (Some e, eff, m, s)
            | (Inr rs, eff, m, s) \<Rightarrow>
                (let dm = directory_of (USha (env 0)) key enc created (map fst rs);
                     topFm = top_meta (Metadata (UStore (env 0))) m key (USelf (env 0)) now
                 in case wb m (dir_batch (map snd rs) key (bytes_of (jMarshal JD dm)) topFm) None of
                      (Some e, m) \<Rightarrow> (Some (DirBatch e), eff, m, s)
                    | (None, m) \<Rightarrow> (None, eff, m, s)))"

section \<open>Preparing a download\<close>

text \<open>What is kept for an opened file besides its context. A sidecar that was closed before the Merkle check
  failed is used closed: its records are lost.\<close>

record dir_plan =
  PlOut :: string
  PlMan :: chunk_manifest
  PlSidecar :: resume_sidecar
  PlOpen :: bool

datatype prepared_entry = Skipped | Complete | Fetching file_context dir_plan

definition file_context_of :: "file_entry \<Rightarrow> chunk_manifest \<Rightarrow> byte list \<Rightarrow> nat list \<Rightarrow> file_context" where
  "file_context_of e man f skip =
     \<lparr>FFileKey = FManifestKey e, file_context.FRelativePath = file_entry.FRelativePath e, FChunkSize = MChunkSize man,
      FChunks = MChunks man, FWriter = f, FSkipSet = map int skip, FTotalChunks = int (length (MChunks man)),
      FRemaining = int (length (MChunks man)) - int (length skip), FErrors = replicate (length (MChunks man)) None,
      FFinalizeOnce = False, FFinalizeErr = False, FRecorded = []\<rparr>"

text \<open>A file of the right size is taken for complete.\<close>

definition already_there :: "string \<Rightarrow> int \<Rightarrow> os \<Rightarrow> os option" where
  "already_there out sz s =
     (case Files s out of
        None \<Rightarrow> None
      | Some f \<Rightarrow>
          if NUL \<in> set out \<or> int (length f) \<noteq> sz then None
          else Some (if os_exists (PartPath out) s then snd (resume_Cleanup out (snd (os_Remove (PartPath out) s))) else s))"

text \<open>The sidecar and the \<open>.part\<close> file of a file that needs chunks.\<close>

definition open_entry ::
  "resume_header json \<Rightarrow> int \<Rightarrow> file_entry \<Rightarrow> string \<Rightarrow> chunk_manifest \<Rightarrow> (resume_sidecar \<times> bool) option \<Rightarrow> nat list \<Rightarrow> os
    \<Rightarrow> prepared_entry \<times> os" where
  "open_entry J now e out man sidecar skip s =
     (case (case sidecar of
              Some (sc, live) \<Rightarrow> (Inr (sc, live), s)
            | None \<Rightarrow>
                (case resume_Create J now out (FManifestKey e) (MMerkleRoot man) (int (length (MChunks man)))
                        (MTotalSize man) (MChunkSize man) s of
                   (Inl err, s) \<Rightarrow> (Inl err, s)
                 | (Inr sc, s) \<Rightarrow> (Inr (sc, True), s))) of
        (Inl err, s) \<Rightarrow> (Skipped, s)
      | (Inr (sc, live), s) \<Rightarrow>
          (case os_open_create (PartPath out) s of
             (Some err, s) \<Rightarrow> (Skipped, s)
           | (None, s) \<Rightarrow>
               (case os_truncate (PartPath out) (MTotalSize man) s of
                  (Some err, s) \<Rightarrow> (Skipped, s)
                | (None, s) \<Rightarrow>
                    (Fetching (file_context_of e man (case Files s (PartPath out) of None \<Rightarrow> [] | Some f \<Rightarrow> f) skip)
                       \<lparr>PlOut = out, PlMan = man, PlSidecar = sc, PlOpen = live\<rparr>, s))))"

text \<open>When the sidecar claims every chunk, the file is finished here; the error of the rename is dropped.\<close>

definition finish_or_open ::
  "resume_header json \<Rightarrow> (byte list \<Rightarrow> byte list) \<Rightarrow> int \<Rightarrow> file_entry \<Rightarrow> string \<Rightarrow> chunk_manifest
    \<Rightarrow> (resume_sidecar \<times> nat list) option \<Rightarrow> os \<Rightarrow> prepared_entry \<times> os" where
  "finish_or_open J sha256 now e out man boot s =
     (let skip = (case boot of None \<Rightarrow> [] | Some (sc, v) \<Rightarrow> v)
      in if length skip = length (MChunks man) then
           (if VerifyMerkleRoot sha256 (MChunks man) (MMerkleRoot man) then
              (Complete, snd (SafeRename (PartPath out) out (snd (resume_Cleanup out s))))
            else open_entry J now e out man (map_option (\<lambda>(sc, v). (sc, False)) boot) [] (snd (os_Remove (PartPath out) s)))
         else open_entry J now e out man (map_option (\<lambda>(sc, v). (sc, True)) boot) skip s)"

text \<open>None is the panic of \<open>fastVerifyChunks\<close>. \<open>mkdirs\<close> says whether \<open>os.MkdirAll\<close> succeeds; the file system of the model has
  files only, so the directories it makes are not part of the state.\<close>

definition prepare_entry ::
  "resume_header json \<Rightarrow> (byte list \<Rightarrow> byte list) \<Rightarrow> 'm meta_ops \<Rightarrow> (string \<Rightarrow> string + chunk_manifest) \<Rightarrow> int \<Rightarrow> string
    \<Rightarrow> (string \<Rightarrow> bool) \<Rightarrow> string \<Rightarrow> file_entry \<Rightarrow> 'm \<Rightarrow> os \<Rightarrow> (prepared_entry \<times> 'm \<times> os) option" where
  "prepare_entry J sha256 ops getman now cwd mkdirs outputDir e m s =
     (case SafeOutputPath cwd outputDir (file_entry.FRelativePath e) of
        Inl err \<Rightarrow> Some (Skipped, m, s)
      | Inr out \<Rightarrow>
          if \<not> mkdirs out then Some (Skipped, m, s)
          else case already_there out (FSize e) s of
              Some s \<Rightarrow> Some (Complete, m, s)
            | None \<Rightarrow>
                (case EnsureManifest ops getman now (FManifestKey e) m of
                   (Inl err, m) \<Rightarrow> Some (Skipped, m, s)
                 | (Inr man, m) \<Rightarrow>
                     (case resume_boot J sha256 (FManifestKey e) out man s of
                        None \<Rightarrow> None
                      | Some (boot, s) \<Rightarrow>
                          (case finish_or_open J sha256 now e out man boot s of (r, s) \<Rightarrow> Some (r, m, s)))))"

text \<open>The opened files, the number of complete files and whether the context was cancelled.\<close>

fun prepareDirectoryDownload ::
  "resume_header json \<Rightarrow> (byte list \<Rightarrow> byte list) \<Rightarrow> 'm meta_ops \<Rightarrow> (string \<Rightarrow> string + chunk_manifest) \<Rightarrow> (nat \<Rightarrow> int)
    \<Rightarrow> (nat \<Rightarrow> bool) \<Rightarrow> string \<Rightarrow> (string \<Rightarrow> bool) \<Rightarrow> string \<Rightarrow> nat \<Rightarrow> file_entry list \<Rightarrow> 'm \<Rightarrow> os
    \<Rightarrow> ((file_context \<times> dir_plan) list \<times> nat \<times> bool \<times> 'm \<times> os) option" where
  "prepareDirectoryDownload J sha256 ops getman now stop cwd mkdirs outputDir i [] m s = Some ([], 0, False, m, s)"
| "prepareDirectoryDownload J sha256 ops getman now stop cwd mkdirs outputDir i (e # es) m s =
     (if stop i then Some ([], 0, True, m, s)
      else case prepare_entry J sha256 ops getman (now i) cwd mkdirs outputDir e m s of
          None \<Rightarrow> None
        | Some (r, m, s) \<Rightarrow>
            (case prepareDirectoryDownload J sha256 ops getman now stop cwd mkdirs outputDir (i + 1) es m s of
               None \<Rightarrow> None
             | Some (fps, n, c, m, s) \<Rightarrow>
                 Some (case r of
                     Skipped \<Rightarrow> (fps, n, c, m, s)
                   | Complete \<Rightarrow> (fps, n + 1, c, m, s)
                   | Fetching fc pl \<Rightarrow> ((fc, pl) # fps, n, c, m, s))))"

section \<open>Downloading\<close>

text \<open>\<open>OnFinalize\<close> of an opened file succeeds.\<close>

definition finalizes :: "(byte list \<Rightarrow> byte list) \<Rightarrow> dir_plan \<Rightarrow> os \<Rightarrow> bool" where
  "finalizes sha256 pl s \<longleftrightarrow>
     VerifyMerkleRoot sha256 (MChunks (PlMan pl)) (MMerkleRoot (PlMan pl)) \<and>
     fst (SafeRename (PartPath (PlOut pl)) (PlOut pl) (snd (resume_Cleanup (PlOut pl) s))) = None"

text \<open>What the downloader has left of an opened file.\<close>

definition settle_file :: "(byte list \<Rightarrow> byte list) \<Rightarrow> file_context \<times> dir_plan \<Rightarrow> os \<Rightarrow> os" where
  "settle_file sha256 = (\<lambda>(fc, pl) s.
     (let s = set_file (PartPath (PlOut pl)) (FWriter fc) s;
          s = (if PlOpen pl then fold (\<lambda>(idx, h). resume_RecordChunk (PlSidecar pl) idx) (FRecorded fc) s else s)
      in if FFinalizeOnce fc \<and> VerifyMerkleRoot sha256 (MChunks (PlMan pl)) (MMerkleRoot (PlMan pl)) then
           snd (SafeRename (PartPath (PlOut pl)) (PlOut pl) (snd (resume_Cleanup (PlOut pl) s)))
         else s))"

record download_report =
  RepSucceeded :: nat
  RepFailed :: nat
  RepFailedFiles :: "string list"

datatype get_dir_error = NoDirectory | GetDirCancelled

text \<open>The surroundings of a directory download, as the directory downloader takes them.\<close>

record dir_env =
  DeCfg :: config
  DeMeet :: "nat \<Rightarrow> nat \<Rightarrow> chunk_info \<Rightarrow> dl_env \<times> selector"
  DeWrites :: "nat \<Rightarrow> nat \<Rightarrow> chunk_info \<Rightarrow> bool"
  DeCancelled :: "nat \<Rightarrow> bool"
  DeOrder :: "nat \<Rightarrow> chunk_task list \<Rightarrow> chunk_task list"

definition GetDirectory ::
  "resume_header json \<Rightarrow> (byte list \<Rightarrow> byte list) \<Rightarrow> 'm meta_ops \<Rightarrow> directory_manifest json \<Rightarrow> (string \<Rightarrow> (byte list \<times> bool) option)
    \<Rightarrow> (string \<Rightarrow> string + chunk_manifest) \<Rightarrow> (nat \<Rightarrow> int) \<Rightarrow> (nat \<Rightarrow> bool) \<Rightarrow> string \<Rightarrow> (string \<Rightarrow> bool) \<Rightarrow> dir_env \<Rightarrow> string \<Rightarrow> string
    \<Rightarrow> byte list option \<Rightarrow> 'm \<Rightarrow> os \<Rightarrow> ((get_dir_error + download_report) \<times> 'm \<times> os) option" where
  "GetDirectory J sha256 ops JD getmeta getman now stop cwd mkdirs de key outputDir dek m s =
     (case GetDirectoryManifest ops JD getmeta key m of
        (None, m) \<Rightarrow> Some (Inl NoDirectory, m, s)
      | (Some dm, m) \<Rightarrow>
          (case prepareDirectoryDownload J sha256 ops getman now stop cwd mkdirs outputDir 0 (DFiles dm) m s of
             None \<Rightarrow> None
           | Some (fps, n, True, m, s) \<Rightarrow> Some (Inl GetDirCancelled, m, s)
           | Some (fps, n, False, m, s) \<Rightarrow>
               if fps = [] then Some (Inr \<lparr>RepSucceeded = n, RepFailed = 0, RepFailedFiles = []\<rparr>, m, s)
               else (case DownloadDirectory (DeCfg de) sha256 (DeMeet de) (DeWrites de)
                            (\<lambda>i. finalizes sha256 (snd (fps ! i)) s) (DeCancelled de) (DeOrder de) (map fst fps) dek of
                   (res, st) \<Rightarrow>
                     Some (Inr \<lparr>RepSucceeded = n + Succeeded res, RepFailed = FailedCount res, RepFailedFiles = FailedFiles res\<rparr>,
                       m, fold (settle_file sha256) (zip (files st) (map snd fps)) s))))"

end
