(* ===== verification/DirLaws.thy ===== *)
theory DirLaws
  imports DirTransfer SeedLaws
begin

text \<open>
  What the operations on whole directories promise: after \<open>StoreDirectory\<close> the directory manifest lists every
  file of the walk with the hash of the manifest stored under its key, and \<open>GetDirectory\<close> changes no file outside
  the output directory. Lemmas record where the code falls short.
\<close>

section \<open>A batch of writes\<close>

lemma put_all_Cons: "put_all (p # ps) f = put_all ps (put_all [p] f)"
  by (simp add: put_all_def)

lemma put_all_absent: "(\<forall>v. (b, k, v) \<notin> set puts) \<Longrightarrow> put_all puts f b k = f b k"
proof (induction puts arbitrary: f)
  case (Cons p puts)
  obtain b' k' v' where p: "p = (b', k', v')" by (cases p)
  then show ?case using Cons.IH [of "put_all [p] f"] Cons.prems put_all_Cons [of p puts f] by (auto simp: fun_upd_def)
qed (simp add: put_all_def)

lemma put_all_present:
  assumes "(b, k, v) \<in> set puts" and "\<And>v'. (b, k, v') \<in> set puts \<Longrightarrow> v' = v"
  shows "put_all puts f b k = Some v"
  using assms
proof (induction puts arbitrary: f)
  case (Cons p puts)
  show ?case
  proof (cases "\<exists>v'. (b, k, v') \<in> set puts")
    case True
    then have "(b, k, v) \<in> set puts" using Cons.prems(2) by auto
    from Cons.IH [OF this] Cons.prems(2) show ?thesis unfolding put_all_Cons [of p puts] by auto
  next
    case False
    then have "p = (b, k, v)" using Cons.prems(1) by auto
    then show ?thesis using put_all_absent [of b k puts "put_all [p] f"] False unfolding put_all_Cons [of p puts] by simp
  qed
qed simp

section \<open>Keys of files\<close>

lemma slash_in_front:
  assumes "CHR ''/'' \<notin> set w" and "length w = n" and "take n (key @ CHR ''/'' # rel) = w"
  shows "take n key = w"
proof (rule ccontr)
  assume "take n key \<noteq> w"
  then have lt: "length key < n" using assms(3) by (cases "n \<le> length key") auto
  then have "take n (key @ CHR ''/'' # rel) ! length key = CHR ''/''" by (simp only: nth_take nth_append_length)
  then have "w ! length key = CHR ''/''" using assms(3) by simp
  then show False using assms(1,2) lt nth_mem [of "length key" w] by simp
qed

lemma file_key_not_reserved:
  assumes "\<not> reserved key" shows "\<not> reserved (file_key key e)"
proof -
  have "take 9 (file_key key e) = ''manifest:'' \<Longrightarrow> take 9 key = ''manifest:''"
    unfolding file_key_def append.simps by (rule slash_in_front) simp_all
  moreover have "take 12 (file_key key e) = ''dirmanifest:'' \<Longrightarrow> take 12 key = ''dirmanifest:''"
    unfolding file_key_def append.simps by (rule slash_in_front) simp_all
  ultimately show ?thesis using assms unfolding reserved_def by blast
qed

lemma file_key_inject [simp]: "file_key key e = file_key key e' \<longleftrightarrow> file_entry.FRelativePath e = file_entry.FRelativePath e'"
  by (simp add: file_key_def)

section \<open>What the files leave in the metadata store\<close>

context metadata_store
begin

definition kept :: "'m \<Rightarrow> 'm \<Rightarrow> bool" where
  "kept m m' \<longleftrightarrow> inv m' \<and> ok_meta m' = ok_meta m \<and> ok_man m' = ok_man m"

lemma kept_set: "kept m0 m \<Longrightarrow> MSet ops m k v = (e, m') \<Longrightarrow> kept m0 m'"
  using set_inv by (auto simp: kept_def)

lemma kept_write:
  assumes "Metadata st = ops" and "kept m0 m" and "WriteStream md5 rnd st key reader m s = (r, m', s')"
  shows "kept m0 m'"
  using WriteStream_meta [OF assms(3)] kept_set [OF assms(2)] assms(1,2) by blast

lemma kept_chunk:
  assumes "Metadata (UStore env) = ops" and "kept m0 (UMeta a)" and "store_chunk env df n pc a = (r, b)"
  shows "kept m0 (UMeta b)"
proof (cases "Has (UStore env) (PCKey pc) (UMeta a) (UOs a)")
  case True
  then show ?thesis using assms by (simp add: store_chunk_def Let_def)
next
  case False
  obtain w m s where w: "WriteStream (UMd5 env) (URnd env n) (UStore env) (PCKey pc) (Some (PCData pc)) (UMeta a) (UOs a) = (w, m, s)"
    by (metis prod_cases3)
  have k: "kept m0 m" by (rule kept_write [OF assms(1,2) w])
  show ?thesis
    using assms(1,3) False k kept_set [OF k]
    by (auto simp: store_chunk_def Let_def w split: if_splits prod.splits sum.splits option.splits)
qed

lemma finish_stored_meta: "UMeta (finish_stored env sidecar progress est pc st) = UMeta st"
  by (simp add: finish_stored_def Let_def split: option.split)

lemma kept_stage2:
  assumes "Metadata (UStore env) = ops" and "kept m0 (UMeta a)" and "stage2 env ctx df sidecar progress est n pcs a = (r, b)"
  shows "kept m0 (UMeta b)"
  using assms(2,3)
proof (induction pcs arbitrary: a n)
  case (Cons pc pcs)
  obtain e v where v: "store_chunk env df n pc a = (e, v)" by fastforce
  have "kept m0 (UMeta (finish_stored env sidecar progress est pc v))"
    using kept_chunk [OF assms(1) Cons.prems(1) v] by (simp add: finish_stored_meta)
  then show ?case
    using Cons.IH Cons.prems v kept_chunk [OF assms(1) Cons.prems(1) v] by (auto split: if_splits option.splits)
qed simp

text \<open>An upload whose metadata is collected.\<close>

lemma collected:
  assumes "Metadata (UStore env) = ops" and "kept m0 m"
    and "StoreDataCollectMeta env ctx key content fails enc fileSize progress m s = (r, eff, m', s')"
  shows "kept m0 m'" and "\<And>x. r = Inr (Some x) \<Longrightarrow> SFileKey x = key"
proof -
  obtain b s1 where b: "begin_pending env key (fileSize = 0 \<or> DefaultChunkSize < fileSize) s = (b, s1)" by fastforce
  have "kept m0 m' \<and> (\<forall>x. r = Inr (Some x) \<longrightarrow> SFileKey x = key)"
  proof (cases b)
    case (Inl e)
    then show ?thesis using assms(2,3) b by (auto simp: StoreDataCollectMeta_def storeDataInternal_def)
  next
    case (Inr t)
    obtain skip resumed sidecar where t: "t = (skip, resumed, sidecar)" by (cases t)
    obtain chs rerr where ch: "ChunkReader (USha env) DefaultChunkSize content fails = (chs, rerr)" by fastforce
    let ?est = "if 0 < fileSize then chunk_estimate fileSize else 0"
    obtain pcs serr where st1: "stage1 env enc skip rerr chs = (pcs, serr)" by fastforce
    define a where "a = \<lparr>UMeta = m, UOs = s1, UInfos = resumed, UCompleted = int (length resumed), UMetas = [],
        UEffects = (if progress \<and> 0 < int (length resumed) then [UpProgress (int (length resumed)) ?est] else [])\<rparr>"
    obtain e2 st where st2: "stage2 env ctx True sidecar progress ?est 0 pcs a = (e2, st)" by fastforce
    have k: "kept m0 (UMeta st)" by (rule kept_stage2 [OF assms(1) _ st2]) (simp add: a_def assms(2))
    have "(r, eff, m', s') = (case e2 of
        Some e \<Rightarrow> (Inl e, UEffects st, UMeta st, UOs st)
      | None \<Rightarrow> (case serr of
           Some e \<Rightarrow> (Inl e, UEffects st, UMeta st, UOs st)
         | None \<Rightarrow> finish_upload env key enc True sidecar (length pcs) st))"
      using assms(3) st2 unfolding a_def
      by (cases e2; cases serr) (simp_all add: StoreDataCollectMeta_def storeDataInternal_def b Inr t ch st1 Let_def)
    then show ?thesis using k by (auto simp: finish_upload_def Let_def split: option.splits)
  qed
  then show "kept m0 m'" and "\<And>x. r = Inr (Some x) \<Longrightarrow> SFileKey x = key" by blast+
qed

lemma store_files_exact:
  assumes "\<And>i. Metadata (UStore (env i)) = ops" and "kept m0 m"
    and "store_files env stop ctx key dirPath enc progress tot i es m s = (Inr rs, eff, m', s')"
  shows "kept m0 m' \<and> list_all2 (\<lambda>e x. fst x = stored_entry key e (snd x) \<and> SFileKey (snd x) = file_key key e) es rs"
  using assms(2,3)
proof (induction es arbitrary: i m s rs eff)
  case (Cons e es)
  obtain content where c: "os_ReadFile (path_Join dirPath (file_entry.FRelativePath e)) s = Inr content" and ns: "\<not> stop i"
    using Cons.prems(2) by (auto split: if_splits sum.splits)
  obtain r eff1 m1 s1 where up: "StoreDataCollectMeta (env i) (ctx i) (file_key key e) content False enc (int (length content)) True m s =
      (r, eff1, m1, s1)" by (metis prod_cases4)
  then obtain x where x: "r = Inr (Some x)" using Cons.prems(2) c ns by (auto split: sum.splits option.splits)
  obtain rest eff2 m2 s2 where rest: "store_files env stop ctx key dirPath enc progress tot (i + 1) es m1 s1 = (rest, eff2, m2, s2)"
    by (metis prod_cases4)
  then obtain rs' where rs': "rest = Inr rs'" using Cons.prems(2) c ns up x by (auto split: sum.splits)
  have eqs: "rs = (stored_entry key e x, x) # rs'" "m' = m2" "s' = s2" using Cons.prems(2) c ns up x rest rs' by simp_all
  note col = collected [OF assms(1) Cons.prems(1) up]
  have "kept m0 m' \<and> list_all2 (\<lambda>e x. fst x = stored_entry key e (snd x) \<and> SFileKey (snd x) = file_key key e) es rs'"
    by (rule Cons.IH [OF col(1)]) (use rest rs' eqs in simp)
  then show ?case using col(2) [OF x] eqs(1) by simp
qed simp

end
section \<open>A stored directory\<close>

lemma list_all2_set2: "list_all2 P xs ys \<Longrightarrow> y \<in> set ys \<Longrightarrow> \<exists>x \<in> set xs. P x y"
  by (induction rule: list_all2_induct) auto

lemma directory_of_sel [simp]:
  "DFiles (directory_of sha256 key enc t es) = es" "DFileCount (directory_of sha256 key enc t es) = int (length es)"
  "DMerkleRoot (directory_of sha256 key enc t es) = dir_MerkleRoot sha256 es" "DStorageKey (directory_of sha256 key enc t es) = key"
  "DEncrypted (directory_of sha256 key enc t es) = (enc \<noteq> None)"
  by (simp_all add: directory_of_def Let_def split: option.splits)

lemma file_batch_manifests:
  "BatchSetManifest k x \<in> set (file_batch r) \<longleftrightarrow> k = SFileKey r \<and> x = SManifest r"
  "BatchSetDirManifest k d \<notin> set (file_batch r)"
  by (auto simp: file_batch_def)

lemma batch_put_manifests:
  "(ManifestsBucket, k, v) \<in> batch_put b ` set cs \<longleftrightarrow>
    (\<exists>x. BatchSetManifest k x \<in> set cs \<and> v = bytes_of (jMarshal (BMManifest b) x)) \<or>
    (\<exists>k' d. BatchSetDirManifest k' d \<in> set cs \<and> k = DirManifestKey k' \<and> v = d)"
proof -
  have "(ManifestsBucket, k, v) = batch_put b c \<longleftrightarrow>
      (\<exists>x. c = BatchSetManifest k x \<and> v = bytes_of (jMarshal (BMManifest b) x)) \<or>
      (\<exists>k' d. c = BatchSetDirManifest k' d \<and> k = DirManifestKey k' \<and> v = d)" for c
    by (cases c) (auto simp: put_meta_def put_manifest_def put_dir_def)
  then show ?thesis by (auto simp: image_iff)
qed

lemma dir_batch_manifests:
  "BatchSetManifest k x \<in> set (dir_batch rs key data fm) \<longleftrightarrow> (\<exists>r \<in> set rs. k = SFileKey r \<and> x = SManifest r)"
  "BatchSetDirManifest k d \<in> set (dir_batch rs key data fm) \<longleftrightarrow> k = key \<and> d = data"
  using file_batch_manifests by (auto simp: dir_batch_def)

text \<open>After the batch of a directory every manifest in it can be read.\<close>

lemma dir_batch_committed:
  assumes upd: "bm_update b (map (batch_put b) (dir_batch rs key data fm)) = (None, b')" and kv: "kv_ok (BMOps b)"
    and json: "\<And>r. r \<in> set rs \<Longrightarrow> json_ok (BMManifest b) (SManifest r)" and dkey: "\<And>r k. r \<in> set rs \<Longrightarrow> SFileKey r \<noteq> DirManifestKey k"
    and one: "\<And>r r'. r \<in> set rs \<Longrightarrow> r' \<in> set rs \<Longrightarrow> SFileKey r = SFileKey r' \<Longrightarrow> r = r'"
  shows "bm_GetDirManifest b' key = Some data" and "\<And>r. r \<in> set rs \<Longrightarrow> bm_GetManifest b' (SFileKey r) = Some (SManifest r)"
proof -
  let ?ps = "map (batch_put b) (dir_batch rs key data fm)"
  note up = bm_update_ok [OF upd kv]
  then have get: "KGet (BMOps b) (BMData b') = put_all ?ps (KGet (BMOps b) (BMData b))" by simp
  have "put_all ?ps (KGet (BMOps b) (BMData b)) ManifestsBucket (DirManifestKey key) = Some data"
  proof (rule put_all_present)
    show "(ManifestsBucket, DirManifestKey key, data) \<in> set ?ps"
      unfolding set_map batch_put_manifests dir_batch_manifests by blast
    show "v = data" if "(ManifestsBucket, DirManifestKey key, v) \<in> set ?ps" for v
      using that not_sym [OF dkey] unfolding set_map batch_put_manifests dir_batch_manifests by auto
  qed
  then show "bm_GetDirManifest b' key = Some data" using get up by (simp add: bm_GetDirManifest_def)
  show "bm_GetManifest b' (SFileKey r) = Some (SManifest r)" if r: "r \<in> set rs" for r
  proof -
    let ?v = "bytes_of (jMarshal (BMManifest b) (SManifest r))"
    have "put_all ?ps (KGet (BMOps b) (BMData b)) ManifestsBucket (SFileKey r) = Some ?v"
    proof (rule put_all_present)
      show "(ManifestsBucket, SFileKey r, ?v) \<in> set ?ps"
        unfolding set_map batch_put_manifests dir_batch_manifests using r by auto
      show "v = ?v" if "(ManifestsBucket, SFileKey r, v) \<in> set ?ps" for v
        using that dkey [OF r] one [OF r] unfolding set_map batch_put_manifests dir_batch_manifests by auto
    qed
    then show ?thesis using get up json [OF r] by (simp add: bm_GetManifest_def json_ok_def)
  qed
qed

text \<open>C36. A stored directory is listed as it was walked: after \<open>StoreDirectory\<close> succeeds, the directory manifest
  of the key can be read, it lists the files of the walk in order under the keys of this directory, with their
  number and the Merkle root over them, and for every file the manifest stored under its key is the one whose
  root the list names. The hypotheses: the key is not that of another kind of record (\<open>reserved\<close>), no path is walked
  twice, and JSON keeps the manifests that this call writes. \<open>encoding/json\<close> keeps them when the names are valid
  UTF-8; a name with another byte is changed in the list, and then the key that is listed has no manifest.\<close>

theorem directory_stored_exact:
  fixes m :: "'k bolt_meta"
  assumes store: "\<And>i. Metadata (UStore (env i)) = bm_ops" and kv: "kv_ok (BMOps m)" and key: "\<not> reserved key"
    and json: "\<And>rs eff1 m1 s1.
      store_files env stop ctx key dirPath enc progress (int (length entries)) 0 entries m s = (Inr rs, eff1, m1, s1) \<Longrightarrow>
      json_ok JD (directory_of (USha (env 0)) key enc created (map fst rs)) \<and>
      (\<forall>x \<in> set rs. json_ok (BMManifest m) (SManifest (snd x)))"
    and walk: "Walk tree = Inr entries" "distinct (map file_entry.FRelativePath entries)"
    and ok: "StoreDirectory env stop ctx JD bm_WithBatch tree key dirPath enc progress created now m s = (None, eff, m', s')"
  shows "\<exists>dm. GetDirectoryManifest bm_ops JD getmeta key m' = (Some dm, m') \<and>
    map file_entry.FRelativePath (DFiles dm) = map file_entry.FRelativePath entries \<and>
    map FSize (DFiles dm) = map FSize entries \<and>
    DFileCount dm = int (length entries) \<and> DMerkleRoot dm = dir_MerkleRoot (USha (env 0)) (DFiles dm) \<and>
    DEncrypted dm = (enc \<noteq> None) \<and>
    (\<forall>f \<in> set (DFiles dm). FManifestKey f = file_key key f \<and>
       (\<exists>man. bm_GetManifest m' (FManifestKey f) = Some man \<and> MMerkleRoot man = FFileHash f))"
proof -
  obtain rs eff1 m1 s1 where rs: "store_files env stop ctx key dirPath enc progress (int (length entries)) 0 entries m s = (Inr rs, eff1, m1, s1)"
    using ok walk(1) by (auto simp: StoreDirectory_def split: if_splits sum.splits prod.splits)
  let ?dm = "directory_of (USha (env 0)) key enc created (map fst rs)" and ?data = "\<lambda>dm. bytes_of (jMarshal JD dm)"
  let ?cs = "dir_batch (map snd rs) key (?data ?dm) (top_meta bm_ops m1 key (USelf (env 0)) now)"
  have upd: "bm_update m1 (map (batch_put m1) ?cs) = (None, m')"
    using ok walk(1) rs store by (auto simp: StoreDirectory_def bm_WithBatch_def Let_def split: if_splits prod.splits option.splits)
  have k0: "bolt_store.kept m m" using kv by (simp add: bolt_store.kept_def)
  have ex: "list_all2 (\<lambda>e x. fst x = stored_entry key e (snd x) \<and> SFileKey (snd x) = file_key key e) entries rs"
    and k1: "kv_ok (BMOps m1)" and same: "json_ok (BMManifest m1) = json_ok (BMManifest m)"
    using bolt_store.store_files_exact [OF store k0 rs] by (auto simp: bolt_store.kept_def)
  have jman: "json_ok (BMManifest m1) (SManifest r)" if "r \<in> set (map snd rs)" for r using json [OF rs] that by (auto simp: same)
  have dkey: "SFileKey r \<noteq> DirManifestKey k" if r: "r \<in> set (map snd rs)" for r k
  proof -
    obtain x where x: "x \<in> set rs" "r = snd x" using r by auto
    obtain e where "SFileKey r = file_key key e" using list_all2_set2 [OF ex x(1)] x(2) by blast
    then show ?thesis using file_key_not_reserved [OF key, of e] reserved_keys(2) [of k] by auto
  qed
  have one: "r = r'" if r: "r \<in> set (map snd rs)" "r' \<in> set (map snd rs)" "SFileKey r = SFileKey r'" for r r'
  proof -
    obtain i j where ij: "i < length rs" "snd (rs ! i) = r" "j < length rs" "snd (rs ! j) = r'"
      using r(1,2) by (auto simp: in_set_conv_nth)
    note n = list_all2_nthD2 [OF ex]
    have "file_entry.FRelativePath (entries ! i) = file_entry.FRelativePath (entries ! j)"
      using n [OF ij(1)] n [OF ij(3)] ij r(3) by simp
    then have "i = j" using walk(2) ij list_all2_lengthD [OF ex] by (simp add: distinct_conv_nth) (metis nth_map)
    then show ?thesis using ij by simp
  qed
  note committed = dir_batch_committed [OF upd k1 jman dkey one]
  have dir: "bm_GetDirManifest m' key = Some (?data ?dm)" by (rule committed(1))
  have names: "map (file_entry.FRelativePath \<circ> fst) rs = map file_entry.FRelativePath entries" "map (FSize \<circ> fst) rs = map FSize entries"
    using ex by (induction rule: list_all2_induct) (simp_all add: stored_entry_def)
  have files: "FManifestKey f = file_key key f \<and> (\<exists>man. bm_GetManifest m' (FManifestKey f) = Some man \<and> MMerkleRoot man = FFileHash f)"
    if f: "f \<in> fst ` set rs" for f
  proof -
    obtain x where x: "x \<in> set rs" "f = fst x" using f by blast
    obtain e where e: "fst x = stored_entry key e (snd x)" "SFileKey (snd x) = file_key key e"
      using list_all2_set2 [OF ex x(1)] by blast
    have "bm_GetManifest m' (file_key key e) = Some (SManifest (snd x))"
      unfolding e(2) [symmetric] by (rule committed(2)) (use x(1) in auto)
    then show ?thesis unfolding x(2) e(1) by (simp add: stored_entry_def file_key_def)
  qed
  have dm: "GetDirectoryManifest bm_ops JD getmeta key m' = (Some ?dm, m')"
    using dir conjunct1 [OF json [OF rs]] by (simp add: GetDirectoryManifest_def json_ok_def bm_ops_def)
  have listed: "\<forall>f \<in> set (DFiles ?dm). FManifestKey f = file_key key f \<and>
      (\<exists>man. bm_GetManifest m' (FManifestKey f) = Some man \<and> MMerkleRoot man = FFileHash f)"
    unfolding directory_of_sel set_map using files by blast
  show ?thesis
    by (intro exI [of _ ?dm] conjI dm listed) (use names list_all2_lengthD [OF ex] in simp_all)
qed

instance file_entry_ext :: (countable) countable
  by (rule countable_classI [of "\<lambda>x. to_nat (file_entry.FRelativePath x, FSize x, FMode x, FManifestKey x, FFileHash x, file_entry.more x)"])
    simp

instance directory_manifest_ext :: (countable) countable
  by (rule countable_classI [of "\<lambda>x. to_nat (DStorageKey x, DTotalSize x, DFileCount x, DFiles x, DMerkleRoot x, DCreatedAt x,
      DIsDirectory x, DEncrypted x, DOwnerPubKey x, DOwnerEdPubKey x, DAccessList x, DSignature x, directory_manifest.more x)"]) simp

definition demo_tree :: fs_node where
  "demo_tree = NDir [(''a'', NFile 3 0)]"

definition demo_tree_disk :: os where
  "demo_tree_disk = no_files\<lparr>Files := [''d/a'' \<mapsto> [1, 2, 3]]\<rparr>"

definition demo_entry :: file_entry where
  "demo_entry = \<lparr>file_entry.FRelativePath = ''a'', FSize = 3, FMode = 0, FManifestKey = [], FFileHash = []\<rparr>"

lemma demo_walk: "Walk (Some demo_tree) = Inr [demo_entry]"
  by (simp add: Walk_def demo_tree_def demo_entry_def)

lemma demo_tree_free: "refuses demo_tree_disk op p \<longleftrightarrow> NUL \<in> set p"
  by (simp add: demo_tree_disk_def no_files_def refuses_def)

lemma demo_tree_read: "os_ReadFile (path_Join ''d'' ''a'') demo_tree_disk = Inr [1, 2, 3]"
  by (simp add: demo_tree_disk_def os_ReadFile_def no_files_def refuses_def NUL_def path_Join_def path_Clean_def path_IsAbs_def Let_def)

lemma demo_tree_write:
  assumes "k \<noteq> []"
  shows "\<exists>m s. WriteStream demo_md5 ''1'' demo_store k (Some d) demo_meta_store demo_tree_disk = (Inr (length d), m, s) \<and> BMOps m = alist_kv"
proof -
  obtain s where s: "SafeRename ''R/00000/00000/00000/00000/00000/00000/00000/00000/00000/00000/00000/00000/temp-1''
      (stream_path demo_md5 demo_store k d)
      (set_file ''R/00000/00000/00000/00000/00000/00000/00000/00000/00000/00000/00000/00000/temp-1'' d demo_tree_disk) = (None, s)"
    unfolding demo_stream_path by (simp add: SafeRename_def os_exists_def demo_tree_disk_def no_files_def os_Rename_def refuses_def NUL_def)
  have "BMOps demo_meta_store = alist_kv" by (simp add: demo_meta_store_def)
  from alist_set(1) [OF this assms, of "zero_meta\<lparr>MPath := stream_path demo_md5 demo_store k d\<rparr>"]
  obtain m where "bm_Set demo_meta_store k (zero_meta\<lparr>MPath := stream_path demo_md5 demo_store k d\<rparr>) = (None, m)" "BMOps m = alist_kv"
    by blast
  then show ?thesis using s by (simp add: WriteStream_def demo_key_path [of k] demo_paths(2,3) demo_tree_free NUL_def Let_def)
qed

lemma alist_batch:
  assumes "BMOps m = alist_kv" and "\<forall>(b, k, v) \<in> set (map (batch_put m) calls). k \<noteq> []"
  shows "\<exists>m'. bm_WithBatch m calls None = (None, m')"
  using assms by (auto simp: bm_WithBatch_def bm_update_def alist_kv_def split_def)

lemma demo_tree_stored:
  assumes pc: "process_chunk demo_upload (Some demo_enc) (demo_chunk_of [1, 2, 3]) = Inr pc"
  shows "\<exists>eff m s. StoreDirectory (\<lambda>i. demo_upload) (\<lambda>i. False) (\<lambda>i n. False) lossless_json bm_WithBatch (Some demo_tree) ''k'' ''d''
      (Some demo_enc) False 0 0 demo_meta_store demo_tree_disk = (None, eff, m, s)"
proof -
  have k: "PCKey pc \<noteq> []" using process_chunk_props(5) [OF pc] by (simp add: ChunkStorageKey_def)
  obtain m s where w: "WriteStream demo_md5 ''1'' demo_store (PCKey pc) (Some (PCData pc)) demo_meta_store demo_tree_disk =
      (Inr (length (PCData pc)), m, s)" and m: "BMOps m = alist_kv" using demo_tree_write [OF k] by blast
  have "\<not> Has demo_store (PCKey pc) demo_meta_store demo_tree_disk" "\<not> DefaultChunkSize < 3" by (simp_all add: Has_def DefaultChunkSize_def)
  then obtain eff r where up: "StoreDataCollectMeta demo_upload (\<lambda>n. False) ''k/a'' [1, 2, 3] False (Some demo_enc) 3 True
      demo_meta_store demo_tree_disk = (Inr (Some r), eff, m, s)"
    and r: "SFileKey r = ''k/a''" "\<forall>(c, fm) \<in> set (SChunkMetas r). c \<noteq> []"
    using pc w k
    by (simp add: StoreDataCollectMeta_def storeDataInternal_def begin_pending_def demo_reader demo_chunk_of_def store_chunk_def
        finish_stored_def finish_upload_def finalize_pending_def Let_def)
  have "\<forall>(b, q, v) \<in> set (map (batch_put m) (dir_batch [r] ''k'' data fm)). q \<noteq> []" for data fm
    using r by (auto simp: dir_batch_def file_batch_def put_meta_def put_manifest_def put_dir_def DirManifestKey_def)
  then have "\<exists>m'. bm_WithBatch m (dir_batch [r] ''k'' data fm) None = (None, m')" for data fm by (intro alist_batch m)
  then show ?thesis
    using up demo_tree_read
    by (simp add: StoreDirectory_def demo_walk demo_entry_def file_key_def Let_def split: prod.split option.split) (metis option.distinct(1) prod.inject)
qed

theorem directory_stored_exact_witness:
  "\<exists>eff m s dm. StoreDirectory (\<lambda>i. demo_upload) (\<lambda>i. False) (\<lambda>i n. False) lossless_json bm_WithBatch (Some demo_tree) ''k'' ''d''
      (Some demo_enc) False 0 0 demo_meta_store demo_tree_disk = (None, eff, m, s) \<and>
    GetDirectoryManifest bm_ops lossless_json (\<lambda>k. None) ''k'' m = (Some dm, m) \<and>
    map file_entry.FRelativePath (DFiles dm) = [''a''] \<and> DFileCount dm = 1 \<and> DEncrypted dm \<and>
    (\<forall>f \<in> set (DFiles dm). FManifestKey f = ''k/a'' \<and> (\<exists>man. bm_GetManifest m ''k/a'' = Some man \<and> MMerkleRoot man = FFileHash f))"
proof -
  obtain pc where pc: "process_chunk demo_upload (Some demo_enc) (demo_chunk_of [1, 2, 3]) = Inr pc" using demo_process by blast
  obtain eff m s where up: "StoreDirectory (\<lambda>i. demo_upload) (\<lambda>i. False) (\<lambda>i n. False) lossless_json bm_WithBatch (Some demo_tree) ''k'' ''d''
      (Some demo_enc) False 0 0 demo_meta_store demo_tree_disk = (None, eff, m, s)" using demo_tree_stored [OF pc] by blast
  have h: "Metadata (UStore ((\<lambda>i. demo_upload) j)) = bm_ops" "kv_ok (BMOps demo_meta_store)" "\<not> reserved ''k''"
    "json_ok lossless_json y \<and> (\<forall>x \<in> set rs. json_ok (BMManifest demo_meta_store) (SManifest (snd x)))"
    for j and y :: directory_manifest and rs :: "(file_entry \<times> stored_file_result) list"
    by (simp_all add: demo_meta_store_def alist_kv_ok reserved_def)
  have d: "distinct (map file_entry.FRelativePath [demo_entry])" by simp
  from directory_stored_exact [OF h demo_walk d up, of "\<lambda>k. None"] obtain dm where
    dm: "GetDirectoryManifest bm_ops lossless_json (\<lambda>k. None) ''k'' m = (Some dm, m)"
      "map file_entry.FRelativePath (DFiles dm) = [''a'']" "DFileCount dm = 1" "DEncrypted dm"
      "\<forall>f \<in> set (DFiles dm). FManifestKey f = file_key ''k'' f \<and>
        (\<exists>man. bm_GetManifest m (FManifestKey f) = Some man \<and> MMerkleRoot man = FFileHash f)"
    by (auto simp: demo_entry_def)
  have "FManifestKey f = ''k/a''" if "f \<in> set (DFiles dm)" for f
    using that dm(2,5) by (cases "DFiles dm") (auto simp: file_key_def)
  then show ?thesis using up dm by metis
qed

section \<open>What a directory download may change\<close>

text \<open>The files that belong to an output path.\<close>

definition belongs :: "string \<Rightarrow> string \<Rightarrow> bool" where
  "belongs p out \<longleftrightarrow> p = out \<or> p = PartPath out \<or> p = SidecarPath out"

lemma belongs_neq: "\<not> belongs p out \<Longrightarrow> p \<noteq> out \<and> p \<noteq> PartPath out \<and> p \<noteq> SidecarPath out"
  by (simp add: belongs_def)

lemmas untouched = resume_Cleanup_files(1) os_Remove_other

lemma SafeRename_untouched: "\<not> belongs p out \<Longrightarrow> Files (snd (SafeRename (PartPath out) out s)) p = Files s p"
  using SafeRename_other [of p "PartPath out" out s] by (cases "SafeRename (PartPath out) out s") (simp add: belongs_def)

lemma already_there_untouched: "\<not> belongs p out \<Longrightarrow> already_there out sz s = Some s' \<Longrightarrow> Files s' p = Files s p"
  by (auto simp: already_there_def untouched dest!: belongs_neq split: option.splits if_splits)

lemma resume_boot_untouched:
  assumes "\<not> belongs p out" and "resume_boot J sha256 key out man s = Some (boot, s')"
  shows "Files s' p = Files s p"
  using assms by (auto simp: resume_boot_def untouched dest!: belongs_neq split: sum.splits option.splits if_splits)

lemma open_entry_untouched:
  assumes p: "\<not> belongs p out" and r: "open_entry J now e out man sidecar skip s = (r, s')"
    and sc: "\<And>sc live. sidecar = Some (sc, live) \<Longrightarrow> ROutputPath sc = out"
  shows "Files s' p = Files s p" and "\<And>fc pl. r = Fetching fc pl \<Longrightarrow> PlOut pl = out \<and> ROutputPath (PlSidecar pl) = out"
proof -
  let ?open = "case sidecar of
      Some (sc, live) \<Rightarrow> (Inr (sc, live), s)
    | None \<Rightarrow>
        (case resume_Create J now out (FManifestKey e) (MMerkleRoot man) (int (length (MChunks man))) (MTotalSize man) (MChunkSize man) s of
           (Inl err, s) \<Rightarrow> (Inl err, s)
         | (Inr sc, s) \<Rightarrow> (Inr (sc, True), s))"
  obtain q s1 where q: "?open = (q, s1)" by fastforce
  have s1: "Files s1 p = Files s p \<and> (\<forall>sc live. q = Inr (sc, live) \<longrightarrow> ROutputPath sc = out)"
  proof (cases sidecar)
    case None
    obtain q0 where c: "resume_Create J now out (FManifestKey e) (MMerkleRoot man) (int (length (MChunks man))) (MTotalSize man)
        (MChunkSize man) s = (q0, s1)" using q None by (auto split: prod.splits sum.splits)
    show ?thesis using q None c resume_Create_files [OF c] belongs_neq [OF p] by (auto split: sum.splits)
  qed (use q sc in auto)
  have "Files s' p = Files s p \<and> (\<forall>fc pl. r = Fetching fc pl \<longrightarrow> PlOut pl = out \<and> ROutputPath (PlSidecar pl) = out)"
    using r [unfolded open_entry_def q] s1 belongs_neq [OF p]
    by (auto simp: os_open_create_def os_truncate_def split: sum.splits prod.splits option.splits if_splits)
  then show "Files s' p = Files s p" and "\<And>fc pl. r = Fetching fc pl \<Longrightarrow> PlOut pl = out \<and> ROutputPath (PlSidecar pl) = out"
    by blast+
qed

lemma finish_or_open_cases:
  fixes boot :: "(resume_sidecar \<times> nat list) option"
  defines "side \<equiv> \<lambda>b :: bool. map_option (\<lambda>(sc, v). (sc, b)) boot"
    and "skip \<equiv> case boot of None \<Rightarrow> [] | Some (sc, v) \<Rightarrow> v"
  shows "finish_or_open J sha256 now e out man boot s =
      (Complete, snd (SafeRename (PartPath out) out (snd (resume_Cleanup out s)))) \<or>
    finish_or_open J sha256 now e out man boot s = open_entry J now e out man (side False) [] (snd (os_Remove (PartPath out) s)) \<or>
    finish_or_open J sha256 now e out man boot s = open_entry J now e out man (side True) skip s"
  unfolding finish_or_open_def Let_def skip_def side_def
  by (cases "length (case boot of None \<Rightarrow> [] | Some (sc, v) \<Rightarrow> v) = length (MChunks man)";
      cases "VerifyMerkleRoot sha256 (MChunks man) (MMerkleRoot man)"; simp only: if_True if_False simp_thms)

lemma finish_or_open_untouched:
  assumes p: "\<not> belongs p out" and r: "finish_or_open J sha256 now e out man boot s = (r, s')"
    and sc: "\<And>sc v. boot = Some (sc, v) \<Longrightarrow> ROutputPath sc = out"
  shows "Files s' p = Files s p" and "\<And>fc pl. r = Fetching fc pl \<Longrightarrow> PlOut pl = out \<and> ROutputPath (PlSidecar pl) = out"
proof -
  let ?skip = "case boot of None \<Rightarrow> [] | Some (sc, v) \<Rightarrow> v" and ?side = "\<lambda>b. map_option (\<lambda>(sc, v :: nat list). (sc, b :: bool)) boot"
  have side: "?side b = Some (sc, live) \<Longrightarrow> ROutputPath sc = out" for b sc live
    using sc by (auto split: prod.splits)
  consider (complete) "r = Complete" "s' = snd (SafeRename (PartPath out) out (snd (resume_Cleanup out s)))"
    | (again) "open_entry J now e out man (?side False) [] (snd (os_Remove (PartPath out) s)) = (r, s')"
    | (rest) "open_entry J now e out man (?side True) ?skip s = (r, s')"
    using finish_or_open_cases [of J sha256 now e out man boot s] unfolding r prod.inject by (elim disjE conjE) (blast dest: sym)+
  then have "Files s' p = Files s p \<and> (\<forall>fc pl. r = Fetching fc pl \<longrightarrow> PlOut pl = out \<and> ROutputPath (PlSidecar pl) = out)"
  proof cases
    case complete
    then show ?thesis using SafeRename_untouched [OF p] untouched belongs_neq [OF p] by simp
  next
    case again
    show ?thesis using open_entry_untouched [OF p again side] untouched belongs_neq [OF p] by simp
  next
    case rest
    show ?thesis using open_entry_untouched [OF p rest side] by simp
  qed
  then show "Files s' p = Files s p" and "\<And>fc pl. r = Fetching fc pl \<Longrightarrow> PlOut pl = out \<and> ROutputPath (PlSidecar pl) = out"
    by blast+
qed

lemma prepare_entry_untouched:
  assumes p: "\<And>out. SafeOutputPath cwd outputDir (file_entry.FRelativePath e) = Inr out \<Longrightarrow> \<not> belongs p out"
    and r: "prepare_entry J sha256 ops getman now cwd mkdirs outputDir e m s = Some (r, m', s')"
  shows "Files s' p = Files s p \<and> (\<forall>fc pl. r = Fetching fc pl \<longrightarrow>
    SafeOutputPath cwd outputDir (file_entry.FRelativePath e) = Inr (PlOut pl) \<and> ROutputPath (PlSidecar pl) = PlOut pl)"
proof (cases "SafeOutputPath cwd outputDir (file_entry.FRelativePath e)")
  case (Inl err)
  then show ?thesis using r by (auto simp: prepare_entry_def)
next
  case (Inr out)
  note np = p [OF Inr]
  show ?thesis
  proof (cases "\<not> mkdirs out \<or> already_there out (FSize e) s \<noteq> None")
    case True
    then show ?thesis using r Inr already_there_untouched [OF np] by (auto simp: prepare_entry_def split: if_splits)
  next
    case False
    obtain q m1 where q: "EnsureManifest ops getman now (FManifestKey e) m = (q, m1)" by fastforce
    show ?thesis
    proof (cases q)
      case (Inl err)
      then show ?thesis using r Inr False q by (auto simp: prepare_entry_def)
    next
      case (Inr man)
      obtain boot s1 where b: "resume_boot J sha256 (FManifestKey e) out man s = Some (boot, s1)"
        using r \<open>SafeOutputPath _ _ _ = _\<close> False q Inr by (auto simp: prepare_entry_def split: option.splits)
      obtain r1 s2 where f: "finish_or_open J sha256 now e out man boot s1 = (r1, s2)" by fastforce
      have eqs: "r = r1" "s' = s2" using r \<open>SafeOutputPath _ _ _ = _\<close> False q Inr b f by (auto simp: prepare_entry_def)
      have sc: "boot = Some (sc, v) \<Longrightarrow> ROutputPath sc = out" for sc v using resume_boot_files [OF b] by blast
      show ?thesis
        using finish_or_open_untouched [OF np f sc] resume_boot_untouched [OF np b] \<open>SafeOutputPath _ _ _ = _\<close> eqs by auto
    qed
  qed
qed

text \<open>A directory download never leaves the output paths of its files.\<close>

definition spares :: "string \<Rightarrow> string \<Rightarrow> string \<Rightarrow> file_entry list \<Rightarrow> bool" where
  "spares p cwd outputDir es \<longleftrightarrow>
     (\<forall>e \<in> set es. \<forall>out. SafeOutputPath cwd outputDir (file_entry.FRelativePath e) = Inr out \<longrightarrow> \<not> belongs p out)"

definition safe_plan :: "string \<Rightarrow> dir_plan \<Rightarrow> bool" where
  "safe_plan p pl \<longleftrightarrow> \<not> belongs p (PlOut pl) \<and> ROutputPath (PlSidecar pl) = PlOut pl"

lemma prepare_entry_spares:
  assumes "spares p cwd outputDir (e # es)" and "prepare_entry J sha256 ops getman now cwd mkdirs outputDir e m s = Some (r, m', s')"
  shows "Files s' p = Files s p" and "r = Fetching fc pl \<Longrightarrow> safe_plan p pl"
  using prepare_entry_untouched [OF _ assms(2), of p] assms(1) by (auto simp: spares_def safe_plan_def)

lemma prepare_spares:
  assumes "spares p cwd outputDir es"
    and "prepareDirectoryDownload J sha256 ops getman now stop cwd mkdirs outputDir i es m s = Some (fps, n, c, m', s')"
  shows "Files s' p = Files s p \<and> (\<forall>fp \<in> set fps. safe_plan p (snd fp))"
  using assms
proof (induction es arbitrary: i m s fps n c)
  case (Cons e es)
  show ?case
  proof (cases "stop i")
    case False
    obtain r m1 s1 where r: "prepare_entry J sha256 ops getman (now i) cwd mkdirs outputDir e m s = Some (r, m1, s1)"
      using Cons.prems(2) False by (auto split: option.splits)
    obtain fps' n' c' where rest:
        "prepareDirectoryDownload J sha256 ops getman now stop cwd mkdirs outputDir (i + 1) es m1 s1 = Some (fps', n', c', m', s')"
        "set fps \<subseteq> set fps' \<union> {(fc, pl). r = Fetching fc pl}"
      using Cons.prems(2) False r by (auto split: option.splits prod.splits prepared_entry.splits)
    have "spares p cwd outputDir es" using Cons.prems(1) by (simp add: spares_def)
    from Cons.IH [OF this rest(1)] show ?thesis using prepare_entry_spares [OF Cons.prems(1) r] rest(2) by fastforce
  qed (use Cons.prems in simp)
qed simp

lemma fold_untouched: "(\<And>x s. x \<in> set xs \<Longrightarrow> Files (f x s) p = Files s p) \<Longrightarrow> Files (fold f xs s) p = Files s p"
  by (induction xs arbitrary: s) simp_all

lemma settle_file_spares:
  assumes "safe_plan p pl"
  shows "Files (settle_file sha256 (fc, pl) s) p = Files s p"
proof -
  have p: "\<not> belongs p (PlOut pl)" and out: "ROutputPath (PlSidecar pl) = PlOut pl" using assms by (auto simp: safe_plan_def)
  note ne = belongs_neq [OF p]
  have rec: "Files (fold (\<lambda>(idx, h). resume_RecordChunk (PlSidecar pl) idx) cs t) p = Files t p" for cs t
    by (rule fold_untouched) (use ne out in auto)
  show ?thesis by (simp add: settle_file_def Let_def SafeRename_untouched [OF p] untouched ne rec)
qed

lemma settle_spares: "\<forall>x \<in> set fps. safe_plan p (snd x) \<Longrightarrow> Files (fold (settle_file sha256) (zip fs (map snd fps)) s) p = Files s p"
  by (rule fold_untouched) (fastforce dest!: set_zip_rightD intro!: settle_file_spares)

lemma GetDirectory_spares:
  assumes get: "GetDirectory J sha256 ops JD getmeta getman now stop cwd mkdirs de key outputDir dek m s = Some (res, m', s')"
    and p: "\<And>dm m1. GetDirectoryManifest ops JD getmeta key m = (Some dm, m1) \<Longrightarrow> spares p cwd outputDir (DFiles dm)"
  shows "Files s' p = Files s p"
proof -
  obtain q m1 where q: "GetDirectoryManifest ops JD getmeta key m = (q, m1)" by fastforce
  show ?thesis
  proof (cases q)
    case None
    then show ?thesis using get q by (simp add: GetDirectory_def)
  next
    case (Some dm)
    obtain fps n c m2 s2 where prep: "prepareDirectoryDownload J sha256 ops getman now stop cwd mkdirs outputDir 0 (DFiles dm) m1 s
        = Some (fps, n, c, m2, s2)" using get q Some by (auto simp: GetDirectory_def split: option.splits)
    note ok = prepare_spares [OF p [OF q [unfolded Some]] prep]
    have "s' = s2 \<or> (\<exists>fs. s' = fold (settle_file sha256) (zip fs (map snd fps)) s2)"
      using get q Some prep by (auto simp: GetDirectory_def split: bool.splits if_splits prod.splits)
    then show ?thesis using ok settle_spares [of fps p] by auto
  qed
qed

text \<open>A suffix after a path inside the output directory is a suffix of its last name.\<close>

lemma join_path_suffix: "join_path (ps @ [p]) @ sfx = join_path (ps @ [p @ sfx])"
  by (induction ps rule: join_path.induct) simp_all

lemma plain_path:
  assumes "ps \<noteq> []" and "\<forall>x \<in> set ps. plain_name x"
  shows "\<not> path_IsAbs (join_path ps)" and "clean_parts r [] (split_at_char (CHR ''/'') (join_path ps)) = ps"
    and "path_Clean (join_path ps) = join_path ps"
proof -
  have sp: "split_at_char (CHR ''/'') (join_path ps) = ps" using assms split_join_path [of ps] by (simp add: plain_name_def)
  have cl: "clean_parts r [] ps = ps" for r using clean_parts_append_plain [OF assms(2), of r "[]" "[]"] by simp
  obtain q qs where q: "ps = q # qs" using assms(1) by (cases ps) auto
  have ne: "q \<noteq> []" and no: "CHR ''/'' \<notin> set q" using assms(2) by (simp_all add: plain_name_def q)
  then have "hd q \<noteq> CHR ''/''" using hd_in_set [OF ne] by metis
  then show rel: "\<not> path_IsAbs (join_path ps)" using ne by (cases qs) (auto simp: q path_IsAbs_def)
  show "clean_parts r [] (split_at_char (CHR ''/'') (join_path ps)) = ps" by (simp only: sp cl)
  show "path_Clean (join_path ps) = join_path ps"
    using rel assms(1) by (simp add: path_Clean_def path_IsAbs_def sp cl Let_def)
qed

lemma path_Join_suffix:
  assumes "\<forall>x \<in> set ns. plain_name x" and "plain_name n" and "plain_name (n @ sfx)"
  shows "path_Join a (join_path (ns @ [n])) @ sfx = path_Join a (join_path (ns @ [n @ sfx]))"
proof (cases "a = []")
  case True
  have "path_Join a (join_path ps) = join_path ps" if "ps \<noteq> []" "\<forall>x \<in> set ps. plain_name x" for ps
  proof -
    have "join_path ps \<noteq> []" using that by (cases ps rule: join_path.cases) (auto simp: plain_name_def)
    then show ?thesis using plain_path(3) [OF that] True by (simp add: path_Join_def)
  qed
  then show ?thesis using assms by (simp add: join_path_suffix)
next
  case False
  then show ?thesis using assms join_path_suffix [of "dir_parts a @ ns" n sfx]
    by (simp add: path_Join_names)
qed

lemma plain_suffixed:
  assumes "plain_name q" and "sfx = [] \<or> 2 < length sfx \<and> CHR ''/'' \<notin> set sfx"
  shows "plain_name (q @ sfx)"
proof (cases "sfx = []")
  case False
  then have l: "2 < length (q @ sfx)" and no: "CHR ''/'' \<notin> set (q @ sfx)" using assms by (auto simp: plain_name_def)
  have "q @ sfx \<noteq> ''.''" "q @ sfx \<noteq> ''..''" using l by fastforce+
  then show ?thesis using l no by (auto simp: plain_name_def)
qed (use assms in simp)

lemma suffixed_inside:
  assumes cwd: "path_IsAbs cwd" and full: "SafeOutputPath cwd outputDir rel = Inr full"
    and sfx: "sfx = [] \<or> 2 < length sfx \<and> CHR ''/'' \<notin> set sfx"
  shows "(\<exists>ns. ns \<noteq> [] \<and> (\<forall>n \<in> set ns. plain_name n) \<and>
      dir_parts (path_Abs cwd (full @ sfx)) = dir_parts (path_Abs cwd outputDir) @ ns) \<or>
    path_Clean rel = ''.'' \<and> full = path_Join outputDir ''.''"
proof -
  have c: "\<not> path_IsAbs rel" "take 2 (path_Clean rel) \<noteq> ''..''"
    using full by (auto simp: SafeOutputPath_def Let_def split: if_splits)
  have f: "full = path_Join outputDir (path_Clean rel)" using full SafeOutputPath_form(1) [OF cwd c] by (auto split: if_splits)
  define ns where "ns = clean_parts False [] (split_at_char (CHR ''/'') rel)"
  have C: "path_Clean rel = (if ns = [] then ''.'' else join_path ns)"
    using c(1) by (auto simp: path_Clean_def path_IsAbs_def ns_def Let_def)
  have plain: "\<forall>n \<in> set ns. plain_name n" unfolding ns_def by (rule clean_relative_plain [OF c])
  show ?thesis
  proof (cases "ns = []")
    case True
    then show ?thesis using C f by simp
  next
    case False
    then obtain qs q where q: "ns = qs @ [q]" by (cases ns rule: rev_cases) auto
    have pq: "plain_name (q @ sfx)" using plain_suffixed sfx plain q by simp
    let ?ns = "qs @ [q @ sfx]"
    have plain': "\<forall>n \<in> set ?ns. plain_name n" using plain pq q by simp
    have full': "full @ sfx = path_Join outputDir (join_path ?ns)"
      using path_Join_suffix [OF _ _ pq, of qs outputDir] plain by (simp add: f C q)
    note P = plain_path [OF _ plain']
    have "abs_parts cwd (full @ sfx) = abs_parts cwd outputDir @ ?ns"
      using abs_parts_Join [OF P(2) plain' P(1), of cwd outputDir] P(3) by (simp add: full')
    then show ?thesis using plain' dir_parts_Abs [OF cwd] by (intro disjI1 exI [of _ ?ns]) simp
  qed
qed

text \<open>C37. A directory download writes inside the output directory, whatever relative paths the directory
  manifest names, with one exception: if a file of the file system differs after \<open>GetDirectory\<close>, it is the file of an
  entry of the manifest, its \<open>.part\<close> file or its resume sidecar, and it lies, part by part, below the output
  directory; or the path of the entry is one \<open>filepath.Clean\<close> makes \<open>.\<close>, whose file is the output
  directory itself, and whose \<open>.part\<close> file and sidecar lie beside it.\<close>

theorem directory_download_confined:
  assumes "path_IsAbs cwd"
    and "GetDirectory J sha256 ops JD getmeta getman now stop cwd mkdirs de key outputDir dek m s = Some (res, m', s')"
    and "Files s' p \<noteq> Files s p"
  shows "\<exists>dm m1. GetDirectoryManifest ops JD getmeta key m = (Some dm, m1) \<and>
    (\<exists>e \<in> set (DFiles dm). \<exists>out. SafeOutputPath cwd outputDir (file_entry.FRelativePath e) = Inr out \<and>
       (p = out \<or> p = PartPath out \<or> p = SidecarPath out) \<and>
       ((\<exists>ns. ns \<noteq> [] \<and> (\<forall>n \<in> set ns. plain_name n) \<and>
           dir_parts (path_Abs cwd p) = dir_parts (path_Abs cwd outputDir) @ ns) \<or>
        path_Clean (file_entry.FRelativePath e) = ''.'' \<and> out = path_Join outputDir ''.''))"
proof -
  obtain dm m1 where dm: "GetDirectoryManifest ops JD getmeta key m = (Some dm, m1)" and "\<not> spares p cwd outputDir (DFiles dm)"
    using GetDirectory_spares [OF assms(2), of p] assms(3) by blast
  then obtain e out where e: "e \<in> set (DFiles dm)" "SafeOutputPath cwd outputDir (file_entry.FRelativePath e) = Inr out"
    and p: "belongs p out" by (auto simp: spares_def)
  have which: "p = out \<or> p = PartPath out \<or> p = SidecarPath out" using p by (simp add: belongs_def)
  have "\<exists>sfx. p = out @ sfx \<and> (sfx = [] \<or> 2 < length sfx \<and> CHR ''/'' \<notin> set sfx)"
    using which by (auto simp: PartPath_def SidecarPath_def)
  then obtain sfx where "p = out @ sfx" "sfx = [] \<or> 2 < length sfx \<and> CHR ''/'' \<notin> set sfx" by blast
  then have inside: "(\<exists>ns. ns \<noteq> [] \<and> (\<forall>n \<in> set ns. plain_name n) \<and>
        dir_parts (path_Abs cwd p) = dir_parts (path_Abs cwd outputDir) @ ns) \<or>
      path_Clean (file_entry.FRelativePath e) = ''.'' \<and> out = path_Join outputDir ''.''"
    using suffixed_inside [OF assms(1) e(2), of sfx] by simp
  show ?thesis
    by (rule exI [of _ dm], rule exI [of _ m1], rule conjI [OF dm], rule bexI [OF _ e(1)], rule exI [of _ out])
      (intro conjI e(2) which inside)
qed

section \<open>Gaps of directory transfers\<close>

text \<open>The first frame of a chunk is sealed under the key of the directory with the index of the chunk within its file
  as nonce. The indices of every file start at 0, so chunks of different files share key and nonce.\<close>

lemma chunk_nonce_is_index:
  assumes "process_chunk env (Some enc) c = Inr pc"
  shows "\<exists>q. PCData pc = frames (UAead env) (EDEK enc) (word_of_int (CIndex c)) (stream_pieces q)"
  using process_chunk_props(6) [OF assms]
  by (auto simp: process_data_def EncryptStreamWithDEKPool_eq EncryptStreamWithDEK_def encrypt_frames Let_def
      split: prod.splits option.splits if_splits intro: sym)

text \<open>An empty file that is missing is counted as complete and not created: the rename of the missing \<open>.part\<close> file
  fails and its error is dropped.\<close>

lemma empty_file_not_created:
  assumes "MChunks man = []" and "VerifyMerkleRoot sha256 [] (MMerkleRoot man)" and "Files s out = None" "Files s (PartPath out) = None"
    and "finish_or_open J sha256 now e out man None s = (r, s')"
  shows "r = Complete" and "Files s' out = None"
proof -
  have ne: "out \<noteq> SidecarPath out" "PartPath out \<noteq> SidecarPath out" by (simp_all add: SidecarPath_def PartPath_def)
  let ?t = "snd (resume_Cleanup out s)"
  have t: "Files ?t out = None" "Files ?t (PartPath out) = None" using assms(3,4) ne untouched by simp_all
  have f: "r = Complete" "s' = snd (SafeRename (PartPath out) out ?t)"
    using assms(1,2,5) by (auto simp: finish_or_open_def)
  then show "r = Complete" and "Files s' out = None"
    using t by (simp_all add: SafeRename_def os_exists_def os_Rename_def)
qed

text \<open>A file whose path is refused is neither a success nor a failure of the report.\<close>

lemma prepare_refused:
  assumes "\<forall>e \<in> set es. \<exists>err. SafeOutputPath cwd outputDir (file_entry.FRelativePath e) = Inl err" and "\<forall>i. \<not> stop i"
  shows "prepareDirectoryDownload J sha256 ops getman now stop cwd mkdirs outputDir i es m s = Some ([], 0, False, m, s)"
  using assms(1)
proof (induction es arbitrary: i)
  case (Cons e es)
  then obtain err where "SafeOutputPath cwd outputDir (file_entry.FRelativePath e) = Inl err" by auto
  then show ?case using Cons assms(2) by (simp add: prepare_entry_def)
qed simp

lemma refused_files_not_reported:
  assumes "GetDirectoryManifest ops JD getmeta key m = (Some dm, m1)"
    and "\<forall>e \<in> set (DFiles dm). \<exists>err. SafeOutputPath cwd outputDir (file_entry.FRelativePath e) = Inl err" and "\<forall>i. \<not> stop i"
  shows "GetDirectory J sha256 ops JD getmeta getman now stop cwd mkdirs de key outputDir dek m s =
    Some (Inr \<lparr>RepSucceeded = 0, RepFailed = 0, RepFailedFiles = []\<rparr>, m1, s)"
  using assms(1) prepare_refused [OF assms(2,3), of J sha256 ops getman now mkdirs 0 m1 s] by (simp add: GetDirectory_def)

definition demo_part_disk :: os where
  "demo_part_disk = no_files\<lparr>Files := [''o/f'' \<mapsto> [1], ''o/f.part'' \<mapsto> [2]]\<rparr>"

lemma demo_dir_manifest:
  "GetDirectoryManifest bm_ops demo_dir_json (\<lambda>k. None) ''d'' demo_dir_store = (Some demo_dir, demo_dir_store)"
  by (simp add: GetDirectoryManifest_def bm_ops_def bm_GetDirManifest_def demo_dir_store_def demo_meta_store_def alist_kv_def
      DirManifestKey_def demo_dir_json_def)

lemma demo_directory_taken:
  "\<exists>s'. GetDirectory J sha256 bm_ops demo_dir_json (\<lambda>k. None) getman now (\<lambda>i. False) ''/w'' (\<lambda>p. True) de ''d'' ''o'' dek
      demo_dir_store demo_part_disk = Some (Inr \<lparr>RepSucceeded = 1, RepFailed = 0, RepFailedFiles = []\<rparr>, demo_dir_store, s') \<and>
    Files s' ''o/f.part'' = None"
proof -
  have out: "SafeOutputPath ''/w'' ''o'' ''f'' = Inr ''o/f''"
    by (simp add: SafeOutputPath_def path_IsAbs_def path_Clean_def path_Join_def path_Abs_def Let_def)
  have there: "\<exists>s'. already_there ''o/f'' 1 demo_part_disk = Some s' \<and> Files s' ''o/f.part'' = None"
    by (simp add: already_there_def demo_part_disk_def no_files_def NUL_def PartPath_def os_exists_def os_Remove_def refuses_def
        resume_Cleanup_def SidecarPath_def)
  then show ?thesis using demo_dir_manifest out by (auto simp: GetDirectory_def demo_dir_def prepare_entry_def)
qed

theorem directory_download_confined_witness:
  "\<exists>s' ns. GetDirectory (demo_json undefined) demo_sha bm_ops demo_dir_json (\<lambda>k. None) (\<lambda>k. Inl []) (\<lambda>i. 0) (\<lambda>i. False) ''/w'' (\<lambda>p. True)
      undefined ''d'' ''o'' None demo_dir_store demo_part_disk
      = Some (Inr \<lparr>RepSucceeded = 1, RepFailed = 0, RepFailedFiles = []\<rparr>, demo_dir_store, s') \<and>
    Files s' ''o/f.part'' \<noteq> Files demo_part_disk ''o/f.part'' \<and>
    ns \<noteq> [] \<and> dir_parts (path_Abs ''/w'' ''o/f.part'') = dir_parts (path_Abs ''/w'' ''o'') @ ns"
proof -
  obtain s' where s': "GetDirectory (demo_json undefined) demo_sha bm_ops demo_dir_json (\<lambda>k. None) (\<lambda>k. Inl []) (\<lambda>i. 0) (\<lambda>i. False) ''/w''
      (\<lambda>p. True) undefined ''d'' ''o'' None demo_dir_store demo_part_disk
      = Some (Inr \<lparr>RepSucceeded = 1, RepFailed = 0, RepFailedFiles = []\<rparr>, demo_dir_store, s')"
    and gone: "Files s' ''o/f.part'' = None" using demo_directory_taken by metis
  have abs: "path_IsAbs ''/w''" by (simp add: path_IsAbs_def)
  have diff: "Files s' ''o/f.part'' \<noteq> Files demo_part_disk ''o/f.part''" using gone by (simp add: demo_part_disk_def)
  have only: "file_entry.FRelativePath e = ''f''" if "e \<in> set (DFiles dm)"
      "GetDirectoryManifest bm_ops demo_dir_json (\<lambda>k. None) ''d'' demo_dir_store = (Some dm, m1)" for e dm m1
    using that demo_dir_manifest by (auto simp: demo_dir_def)
  have "path_Clean ''f'' \<noteq> ''.''" by (simp add: path_Clean_def path_IsAbs_def Let_def)
  then show ?thesis using directory_download_confined [OF abs s' diff] only s' diff by metis
qed

end
