(* ===== verification/Daemon.thy ===== *)
theory Daemon
  imports Ipc Transfers Sharing DirTransfer
begin

text \<open>
  The daemon's side of the local protocol (cmd/handle_client.go, cmd/handle_peers.go): the requests that start a
  transfer, with the registry of transfers and the state database they keep; pausing, cancelling and resuming;
  the listings; and the requests that concern peers.

  The operations of the server a transfer runs (storing, seeding, fetching) are the models of other theories; here
  an operation is what it reports while it runs and how it ends, in any way, so a statement covers every operation.
  Texts of errors and quoted names are the parameters \<open>texts\<close>. A session is a step where it starts, one for each
  progress report and one where it ends, so pauses and other sessions come in between.
\<close>

section \<open>What is recorded\<close>

definition extractName :: "string \<Rightarrow> string" where
  "extractName key = (if CHR ''/'' \<in> set key then tl (dropWhile (\<lambda>c. c \<noteq> CHR ''/'') key) else key)"

text \<open>\<open>now\<close> and \<open>now'\<close> are the two readings of the clock. Errors of the database are only logged.\<close>

definition recordUploadState ::
  "net_env \<Rightarrow> int \<Rightarrow> int \<Rightarrow> string \<Rightarrow> string \<Rightarrow> int \<Rightarrow> bool \<Rightarrow> bool \<Rightarrow> bool \<Rightarrow> 'db server \<Rightarrow> 'db server" where
  "recordUploadState net now now' key path sz encrypted public isDir sv =
     (if SvDb sv = None then sv
      else (let name = extractName key;
                sv = on_db (RecordUpload now \<lparr>UEKey = key, UEName = name, UEPath = path, UESize = sz, UEEncrypted = encrypted,
                  UEPublic = public, UEIsDir = isDir, UETimestamp = now\<rparr>) sv
            in if public then
                 UpdatePublicCatalogMetadata net
                   (on_db (AddPublicFile \<lparr>PFKey = key, PFName = name, PFSize = sz, PFIsDir = isDir, PFTimestamp = now'\<rparr>) sv)
               else sv))"

definition recordDownloadState ::
  "int \<Rightarrow> string \<Rightarrow> string \<Rightarrow> int \<Rightarrow> bool \<Rightarrow> bool \<Rightarrow> 'db server \<Rightarrow> 'db server" where
  "recordDownloadState now key outputPath sz encrypted isDir =
     on_db (RecordDownload now \<lparr>DEKey = key, DEName = extractName key, DEOutputPath = outputPath, DESize = sz,
       DEEncrypted = encrypted, DEIsDir = isDir, DETimestamp = now\<rparr>)"

primrec direction_code :: "Direction \<Rightarrow> int" where
  "direction_code Direction.Upload = 0"
| "direction_code Direction.Download = 1"

primrec status_code :: "Status \<Rightarrow> int" where
  "status_code Status.Queued = 0"
| "status_code Status.Active = 1"
| "status_code Status.Paused = 2"
| "status_code Status.Completed = 3"
| "status_code Status.Failed = 4"

definition history_of :: "int \<Rightarrow> transfer_info \<Rightarrow> transfer_history_entry" where
  "history_of now i =
     \<lparr>HID = TID i, HDirection = direction_code (TDirection i), HKey = TKey i, HName = TName i, HSize = TSize i,
      HIsDir = TIsDir i, HEncrypted = TEncrypted i, HPublic = TPublic i, HSpeed = Speed i, HStartedAt = StartedAt i,
      HDoneAt = now, HStatus = (if status_code (TStatus i) = 4 then 4 else 3), HError = TError i\<rparr>"

definition completeAndRecordTransfer :: "int \<Rightarrow> string \<Rightarrow> 'db server \<times> manager \<Rightarrow> 'db server \<times> manager" where
  "completeAndRecordTransfer now tid = (\<lambda>(sv, m).
     case Get tid m of
       None \<Rightarrow> (sv, Transfers.Complete tid m)
     | Some info \<Rightarrow> (on_db (RecordTransfer now (history_of now info)) sv, Transfers.Complete tid m))"

section \<open>Requests that start a transfer\<close>

record job =
  JDir :: Direction
  JKey :: string
  JPath :: string
  JSize :: int
  JIsDir :: bool
  JEncrypted :: bool
  JPublic :: bool
  JOut :: "string option"
  JDek :: "byte list option"

text \<open>What each handler passes to \<open>Register\<close>, \<open>SetOutputDir\<close> and \<open>SetDEK\<close>; \<open>cl\<close> is \<open>ContentLength\<close> of the server.\<close>

fun job_of :: "(string \<Rightarrow> int) \<Rightarrow> ipc_request \<Rightarrow> job option" where
  "job_of cl (ipc_request.Upload key sz public) = Some
     \<lparr>JDir = Direction.Upload, JKey = key, JPath = [], JSize = sz, JIsDir = False, JEncrypted = False, JPublic = public,
      JOut = None, JDek = None\<rparr>"
| "job_of cl (ipc_request.ECDHUpload r) = Some
     \<lparr>JDir = Direction.Upload, JKey = UStorageKey r, JPath = [], JSize = UFileSize r, JIsDir = False, JEncrypted = True,
      JPublic = UPublic r, JOut = None, JDek = None\<rparr>"
| "job_of cl (ipc_request.DownloadToFile key path) = Some
     \<lparr>JDir = Direction.Download, JKey = key, JPath = path, JSize = cl key, JIsDir = False, JEncrypted = False, JPublic = False,
      JOut = None, JDek = None\<rparr>"
| "job_of cl (ipc_request.ECDHDownloadToFile key path dek) = Some
     \<lparr>JDir = Direction.Download, JKey = key, JPath = path, JSize = cl key, JIsDir = False, JEncrypted = True, JPublic = False,
      JOut = None, JDek = None\<rparr>"
| "job_of cl (ipc_request.DirUpload key path public) = Some
     \<lparr>JDir = Direction.Upload, JKey = key, JPath = path, JSize = 0, JIsDir = True, JEncrypted = False, JPublic = public,
      JOut = None, JDek = None\<rparr>"
| "job_of cl (ipc_request.DirDownload key out) = Some
     \<lparr>JDir = Direction.Download, JKey = key, JPath = [], JSize = 0, JIsDir = True, JEncrypted = False, JPublic = False,
      JOut = Some out, JDek = None\<rparr>"
| "job_of cl (ipc_request.ECDHDirUpload r) = Some
     \<lparr>JDir = Direction.Upload, JKey = ecdh_dir_upload_request.DStorageKey r, JPath = DDirPath r, JSize = 0, JIsDir = True, JEncrypted = True,
      JPublic = ecdh_dir_upload_request.DPublic r, JOut = None, JDek = None\<rparr>"
| "job_of cl (ipc_request.ECDHDirDownload key out dek) = Some
     \<lparr>JDir = Direction.Download, JKey = key, JPath = [], JSize = 0, JIsDir = True, JEncrypted = True, JPublic = False,
      JOut = Some out, JDek = Some dek\<rparr>"
| "job_of cl (ipc_request.SeedUpload key path sz public) = Some
     \<lparr>JDir = Direction.Upload, JKey = key, JPath = path, JSize = sz, JIsDir = False, JEncrypted = False, JPublic = public,
      JOut = None, JDek = None\<rparr>"
| "job_of cl (ipc_request.SeedECDHUpload r) = Some
     \<lparr>JDir = Direction.Upload, JKey = SKey r, JPath = SFilePath r, JSize = SFileSize r, JIsDir = False, JEncrypted = True,
      JPublic = SPublic r, JOut = None, JDek = None\<rparr>"
| "job_of cl _ = None"

text \<open>The call of the server a transfer makes.\<close>

datatype op_call =
    CallStore string "encryption_meta option" int
  | CallSeed string string "encryption_meta option" int
  | CallStoreDir string string "encryption_meta option"
  | CallGetFile string string "byte list option"
  | CallGetDir string string "byte list option"

fun op_of :: "ipc_request \<Rightarrow> op_call option" where
  "op_of (ipc_request.Upload key sz public) = Some (CallStore key None sz)"
| "op_of (ipc_request.ECDHUpload r) = Some (CallStore (UStorageKey r)
     (Some \<lparr>EDEK = UDEK r, EOwnerPubKey = UOwnerPubKey r, EOwnerEdPubKey = UOwnerEdPubKey r, EAccessList = UAccessList r,
       ESignature = USignature r\<rparr>) (UFileSize r))"
| "op_of (ipc_request.DownloadToFile key path) = Some (CallGetFile key path None)"
| "op_of (ipc_request.ECDHDownloadToFile key path dek) = Some (CallGetFile key path (Some dek))"
| "op_of (ipc_request.DirUpload key path public) = Some (CallStoreDir key path None)"
| "op_of (ipc_request.DirDownload key out) = Some (CallGetDir key out None)"
| "op_of (ipc_request.ECDHDirUpload r) = Some (CallStoreDir (ecdh_dir_upload_request.DStorageKey r) (DDirPath r)
     (Some \<lparr>EDEK = DDEK r, EOwnerPubKey = ecdh_dir_upload_request.DOwnerPubKey r,
       EOwnerEdPubKey = ecdh_dir_upload_request.DOwnerEdPubKey r, EAccessList = ecdh_dir_upload_request.DAccessList r,
       ESignature = ecdh_dir_upload_request.DSignature r\<rparr>))"
| "op_of (ipc_request.ECDHDirDownload key out dek) = Some (CallGetDir key out (Some dek))"
| "op_of (ipc_request.SeedUpload key path sz public) = Some (CallSeed key path None sz)"
| "op_of (ipc_request.SeedECDHUpload r) = Some (CallSeed (SKey r) (SFilePath r)
     (Some \<lparr>EDEK = SDEK r, EOwnerPubKey = SOwnerPubKey r, EOwnerEdPubKey = SOwnerEdPubKey r, EAccessList = SAccessList r,
       ESignature = SSignature r\<rparr>) (SFileSize r))"
| "op_of _ = None"

text \<open>How a call ends: with the text of an error, or done, a directory download with its report.\<close>

datatype op_result = OpError string | OpDone | OpReport download_report

datatype op_progress = FileProgress int int | DirectoryProgress int int int int

record texts =
  TxRead :: "rd_error \<Rightarrow> string"
  TxTransfer :: "transfer_error \<Rightarrow> string"
  TxNet :: "net_error \<Rightarrow> string"
  TxState :: "state_error \<Rightarrow> string"
  TxDelete :: "delete_error \<Rightarrow> string"
  TxCatalog :: "catalog_error \<Rightarrow> string"
  TxShare :: "share_error \<Rightarrow> string"
  TxAccess :: "access_error \<Rightarrow> string"
  TxCrypto :: "crypto_error \<Rightarrow> string"
  TxQuote :: "string \<Rightarrow> string"

definition progress_bytes :: "op_progress \<Rightarrow> byte list" where
  "progress_bytes p =
     (case p of
        FileProgress c t \<Rightarrow> WriteProgressUpdate c t
      | DirectoryProgress fi ft ci ct \<Rightarrow> WriteDirProgressUpdate fi ft ci ct)"

definition track_progress :: "int \<Rightarrow> string \<Rightarrow> op_progress \<Rightarrow> manager \<Rightarrow> manager" where
  "track_progress now tid p =
     (case p of
        FileProgress c t \<Rightarrow> UpdateProgress now tid c t (i64 (c * 4 * 2 ^ 20))
      | DirectoryProgress fi ft ci ct \<Rightarrow> UpdateProgress now tid fi ft 0)"

section \<open>A transfer session\<close>

text \<open>Before the operation: the entry, its id, its context and the message with the id.\<close>

definition begin_transfer :: "int \<Rightarrow> job \<Rightarrow> manager \<Rightarrow> string \<times> nat \<times> manager" where
  "begin_transfer now j m =
     (let (tid, ctx, m) = Register now (JDir j) (JKey j) (extractName (JKey j)) (JPath j) (JSize j) (JIsDir j) (JEncrypted j)
            (JPublic j) m;
          m = SetStatus tid Status.Active [] m;
          m = (case JOut j of None \<Rightarrow> m | Some out \<Rightarrow> SetOutputDir tid out m);
          m = (case JDek j of None \<Rightarrow> m | Some dek \<Rightarrow> SetDEK tid dek m)
      in (tid, ctx, m))"

fun spaced :: "string list \<Rightarrow> string" where
  "spaced [] = []"
| "spaced [x] = x"
| "spaced (x # y # ys) = x @ '' '' @ spaced (y # ys)"

definition failed_report :: "download_report \<Rightarrow> string" where
  "failed_report r =
     ''downloaded '' @ itoa (RepSucceeded r) @ ''/'' @ itoa (RepSucceeded r + RepFailed r) @ '' files. '' @ itoa (RepFailed r) @
     '' failed: ['' @ spaced (RepFailedFiles r) @ '']''"

fun done_text :: "texts \<Rightarrow> ipc_request \<Rightarrow> string" where
  "done_text T (ipc_request.Upload key sz public) = ''stored '' @ fmt_int sz @ '' bytes under key '' @ TxQuote T key"
| "done_text T (ipc_request.ECDHUpload r) =
     ''stored '' @ fmt_int (UFileSize r) @ '' bytes (encrypted) under key '' @ TxQuote T (UStorageKey r)"
| "done_text T (ipc_request.DownloadToFile key path) = ''downloaded to '' @ path"
| "done_text T (ipc_request.ECDHDownloadToFile key path dek) = ''downloaded to '' @ path"
| "done_text T (ipc_request.DirUpload key path public) = ''stored directory under key '' @ TxQuote T key"
| "done_text T (ipc_request.DirDownload key out) = ''downloaded directory to '' @ out"
| "done_text T (ipc_request.ECDHDirUpload r) = ''stored encrypted directory under key '' @ TxQuote T (ecdh_dir_upload_request.DStorageKey r)"
| "done_text T (ipc_request.ECDHDirDownload key out dek) = ''downloaded encrypted directory to '' @ out"
| "done_text T (ipc_request.SeedUpload key path sz public) =
     ''seeded '' @ TxQuote T key @ '' (zero-copy, '' @ fmt_int sz @ '' bytes indexed)''"
| "done_text T (ipc_request.SeedECDHUpload r) =
     ''seeded (ECDH) '' @ TxQuote T (SKey r) @ '' (zero-copy, '' @ fmt_int (SFileSize r) @ '' bytes indexed)''"
| "done_text T _ = []"

text \<open>The size a finished transfer gets: a directory is asked for its manifest (\<open>gd\<close>), a downloaded file for its
  length (\<open>cl\<close>); an upload of a file keeps the size of the request.\<close>

definition final_size :: "(string \<Rightarrow> int) \<Rightarrow> (string \<Rightarrow> directory_manifest option) \<Rightarrow> job \<Rightarrow> int" where
  "final_size cl gd j =
     (if JIsDir j then (case gd (JKey j) of None \<Rightarrow> 0 | Some dm \<Rightarrow> DTotalSize dm)
      else case JDir j of Direction.Upload \<Rightarrow> JSize j | Direction.Download \<Rightarrow> cl (JKey j))"

text \<open>What a handler does when its operation has succeeded.\<close>

definition record_success :: "net_env \<Rightarrow> (nat \<Rightarrow> int) \<Rightarrow> job \<Rightarrow> string \<Rightarrow> int \<Rightarrow> 'db server \<times> manager \<Rightarrow> 'db server \<times> manager" where
  "record_success net clock j tid sz = (\<lambda>(sv, m).
     ((case JDir j of
         Direction.Upload \<Rightarrow>
           recordUploadState net (clock 0) (clock 1) (JKey j) (JPath j) sz (JEncrypted j) (JPublic j) (JIsDir j) sv
       | Direction.Download \<Rightarrow>
           recordDownloadState (clock 0) (JKey j) (case JOut j of None \<Rightarrow> JPath j | Some out \<Rightarrow> out) sz (JEncrypted j) (JIsDir j) sv),
      if JIsDir j \<or> JDir j = Direction.Download then SetSize tid sz m else m))"

definition final_status :: "texts \<Rightarrow> ipc_request \<Rightarrow> op_result \<Rightarrow> bool \<times> string" where
  "final_status T req res =
     (case res of
        OpError e \<Rightarrow> (False, e)
      | OpDone \<Rightarrow> (True, done_text T req)
      | OpReport r \<Rightarrow> if RepFailed r > 0 then (False, failed_report r) else (True, done_text T req))"

text \<open>After the operation, with the deferred calls in their order.\<close>

definition end_transfer ::
  "net_env \<Rightarrow> (nat \<Rightarrow> int) \<Rightarrow> (string \<Rightarrow> int) \<Rightarrow> (string \<Rightarrow> directory_manifest option) \<Rightarrow> job \<Rightarrow> string \<Rightarrow> nat \<Rightarrow> op_result
    \<Rightarrow> 'db server \<times> manager \<Rightarrow> 'db server \<times> manager" where
  "end_transfer net clock cl gd j tid ctx res st =
     (let st = (case res of OpError e \<Rightarrow> st | _ \<Rightarrow> record_success net clock j tid (final_size cl gd j) st);
          (sv, m) = completeAndRecordTransfer (clock 2) tid st
      in (sv, fire ctx m))"

text \<open>A whole session that nothing interrupts: the reports \<open>ps\<close> come at the times \<open>tick\<close>. The second component
  is what the client reads.\<close>

fun track_all :: "(nat \<Rightarrow> int) \<Rightarrow> string \<Rightarrow> nat \<Rightarrow> op_progress list \<Rightarrow> manager \<Rightarrow> manager" where
  "track_all tick tid n [] m = m"
| "track_all tick tid n (p # ps) m = track_all tick tid (n + 1) ps (track_progress (tick n) tid p m)"

definition session_bytes :: "string \<Rightarrow> op_progress list \<Rightarrow> bool \<times> string \<Rightarrow> byte list" where
  "session_bytes tid ps fin =
     WriteTransferID tid @ concat (map progress_bytes ps) @ WriteStatus (if fst fin then StatusOK else StatusError) (snd fin)"

definition handle_transfer ::
  "texts \<Rightarrow> net_env \<Rightarrow> int \<Rightarrow> (nat \<Rightarrow> int) \<Rightarrow> (nat \<Rightarrow> int) \<Rightarrow> (string \<Rightarrow> int) \<Rightarrow> ('w \<Rightarrow> string \<Rightarrow> int)
    \<Rightarrow> ('w \<Rightarrow> string \<Rightarrow> directory_manifest option)
    \<Rightarrow> (op_call \<Rightarrow> 'db server \<times> 'w \<Rightarrow> op_result \<times> op_progress list \<times> 'db server \<times> 'w)
    \<Rightarrow> ipc_request \<Rightarrow> 'db server \<times> manager \<times> 'w \<Rightarrow> (byte list \<times> 'db server \<times> manager \<times> 'w) option" where
  "handle_transfer T net now tick clock cl cl' gd op req = (\<lambda>(sv, m, w).
     case (job_of cl req, op_of req) of
       (Some j, Some call) \<Rightarrow>
         (let (tid, ctx, m) = begin_transfer now j m;
              (res, ps, sv, w) = op call (sv, w);
              m = track_all tick tid 0 ps m;
              (sv, m) = end_transfer net clock (cl' w) (gd w) j tid ctx res (sv, m)
          in Some (session_bytes tid ps (final_status T req res), sv, m, w))
     | _ \<Rightarrow> None)"

section \<open>Controlling transfers\<close>

definition handleCancelTransfer :: "texts \<Rightarrow> string \<Rightarrow> manager \<Rightarrow> (bool \<times> string) \<times> manager" where
  "handleCancelTransfer T tid m =
     (case Cancel tid m of
        (Inl e, m) \<Rightarrow> ((False, TxTransfer T e), m)
      | (Inr u, m) \<Rightarrow> ((True, ''cancelled transfer '' @ tid), m))"

definition handlePauseTransfer :: "texts \<Rightarrow> string \<Rightarrow> manager \<Rightarrow> (bool \<times> string) \<times> manager" where
  "handlePauseTransfer T tid m =
     (case Pause tid m of
        (Inl e, m) \<Rightarrow> ((False, TxTransfer T e), m)
      | (Inr u, m) \<Rightarrow> ((True, ''paused transfer '' @ tid), m))"

text \<open>The call of the goroutine that resumes a transfer; there is none for the upload of a file.\<close>

definition resume_call :: "transfer_info \<Rightarrow> op_call option" where
  "resume_call i =
     (case TDirection i of
        Direction.Upload \<Rightarrow> if TIsDir i then Some (CallStoreDir (TKey i) (FilePath i) None) else None
      | Direction.Download \<Rightarrow>
          (let dek = (if DEK i = [] then None else Some (DEK i))
           in if TIsDir i then Some (CallGetDir (TKey i) (OutputDir i) dek)
              else Some (CallGetFile (TKey i) (FilePath i) dek)))"

text \<open>The info is read before \<open>Resume\<close>; the second component is what the goroutine runs.\<close>

definition handleResumeTransfer ::
  "texts \<Rightarrow> string \<Rightarrow> manager \<Rightarrow> (bool \<times> string) \<times> op_call option option \<times> manager" where
  "handleResumeTransfer T tid m =
     (case Get tid m of
        None \<Rightarrow> ((False, ''transfer '' @ TxQuote T tid @ '' not found''), None, m)
      | Some info \<Rightarrow>
          (case Resume tid m of
             (Inl e, m) \<Rightarrow> ((False, TxTransfer T e), None, m)
           | (Inr ctx, m) \<Rightarrow> ((True, ''resumed transfer '' @ tid), Some (resume_call info), m)))"

definition resume_error :: "op_result \<Rightarrow> string option" where
  "resume_error res =
     (case res of
        OpError e \<Rightarrow> Some e
      | OpDone \<Rightarrow> None
      | OpReport r \<Rightarrow> if RepFailed r > 0 then
            Some (''downloaded '' @ itoa (RepSucceeded r) @ ''/'' @ itoa (RepSucceeded r + RepFailed r) @ '' files, '' @
              itoa (RepFailed r) @ '' failed'')
          else None)"

text \<open>The end of that goroutine.\<close>

definition end_resumed :: "int \<Rightarrow> string \<Rightarrow> op_result \<Rightarrow> 'db server \<times> manager \<Rightarrow> 'db server \<times> manager" where
  "end_resumed now tid res = (\<lambda>(sv, m).
     completeAndRecordTransfer now tid
       (sv, case resume_error res of None \<Rightarrow> m | Some e \<Rightarrow> SetStatus tid Status.Failed e m))"

section \<open>The listing of transfers\<close>

record transfer_row =
  XID :: string
  XDirection :: int
  XStatus :: int
  XKey :: string
  XName :: string
  XSize :: int
  XIsDir :: bool
  XEncrypted :: bool
  XPublic :: bool
  XCompleted :: int
  XTotal :: int
  XBytesDone :: int
  XSpeed :: real
  XStartedAt :: int
  XError :: string
  XFilePath :: string
  XOutputDir :: string

definition active_row :: "transfer_info \<Rightarrow> transfer_row" where
  "active_row t =
     \<lparr>XID = TID t, XDirection = direction_code (TDirection t), XStatus = status_code (TStatus t), XKey = TKey t, XName = TName t,
      XSize = TSize t, XIsDir = TIsDir t, XEncrypted = TEncrypted t, XPublic = TPublic t, XCompleted = TCompleted t,
      XTotal = TTotal t, XBytesDone = BytesDone t, XSpeed = Speed t, XStartedAt = StartedAt t, XError = TError t,
      XFilePath = FilePath t, XOutputDir = OutputDir t\<rparr>"

definition history_row :: "transfer_history_entry \<Rightarrow> transfer_row" where
  "history_row h =
     \<lparr>XID = HID h, XDirection = HDirection h, XStatus = transfer_history_entry.HStatus h, XKey = HKey h, XName = HName h, XSize = HSize h,
      XIsDir = HIsDir h, XEncrypted = HEncrypted h, XPublic = HPublic h, XCompleted = 1, XTotal = 1, XBytesDone = HSize h,
      XSpeed = HSpeed h, XStartedAt = HStartedAt h, XError = HError h, XFilePath = [], XOutputDir = []\<rparr>"

text \<open>The comparison of the sort, and the stable insertion sort it determines.\<close>

definition row_done :: "transfer_row \<Rightarrow> bool" where
  "row_done r \<longleftrightarrow> XStatus r = 3 \<or> XStatus r = 4"

definition row_less :: "transfer_row \<Rightarrow> transfer_row \<Rightarrow> bool" where
  "row_less a b =
     (if row_done a \<noteq> row_done b then \<not> row_done a
      else if row_done a \<and> row_done b then XStartedAt a > XStartedAt b
      else False)"

fun insert_row :: "transfer_row \<Rightarrow> transfer_row list \<Rightarrow> transfer_row list" where
  "insert_row x [] = [x]"
| "insert_row x (y # ys) = (if row_less y x then y # insert_row x ys else x # y # ys)"

definition sort_rows :: "transfer_row list \<Rightarrow> transfer_row list" where
  "sort_rows rows = foldr insert_row rows []"

definition handleListTransfers :: "'db server \<times> manager \<Rightarrow> transfer_row list" where
  "handleListTransfers = (\<lambda>(sv, m).
     let rows = map active_row (Transfers.List m);
         ids = map XID rows;
         hist = (case SvDb sv of
             None \<Rightarrow> []
           | Some d \<Rightarrow> (case ListTransferHistory d of
               Inl e \<Rightarrow> []
             | Inr hs \<Rightarrow> map history_row (filter (\<lambda>h. HID h \<notin> set ids) hs)))
     in sort_rows (rows @ hist))"

section \<open>Runs of the daemon\<close>

text \<open>The sessions and the goroutines of resumed transfers that have not ended.\<close>

datatype worker = Session job nat | Resumed

record 'db daemon =
  DmServer :: "'db server"
  DmMgr :: manager
  DmLive :: "(string \<times> worker) list"

text \<open>The step \<open>elsewhere\<close> is any other change of the server.\<close>

inductive daemon_step :: "texts \<Rightarrow> net_env \<Rightarrow> 'db daemon \<Rightarrow> 'db daemon \<Rightarrow> bool" for T net where
  started: "job_of cl req = Some j \<Longrightarrow> begin_transfer now j (DmMgr d) = (tid, ctx, m) \<Longrightarrow>
    daemon_step T net d (d\<lparr>DmMgr := m, DmLive := (tid, Session j ctx) # DmLive d\<rparr>)"
| reported: "(tid, w) \<in> set (DmLive d) \<Longrightarrow> daemon_step T net d (d\<lparr>DmMgr := track_progress now tid p (DmMgr d)\<rparr>)"
| ended: "DmLive d = as @ (tid, Session j ctx) # bs \<Longrightarrow>
    end_transfer net clock cl gd j tid ctx res (DmServer d, DmMgr d) = (sv, m) \<Longrightarrow>
    daemon_step T net d (d\<lparr>DmServer := sv, DmMgr := m, DmLive := as @ bs\<rparr>)"
| cancelled: "handleCancelTransfer T tid (DmMgr d) = (reply, m) \<Longrightarrow> daemon_step T net d (d\<lparr>DmMgr := m\<rparr>)"
| paused: "handlePauseTransfer T tid (DmMgr d) = (reply, m) \<Longrightarrow> daemon_step T net d (d\<lparr>DmMgr := m\<rparr>)"
| resumed: "handleResumeTransfer T tid (DmMgr d) = (reply, run, m) \<Longrightarrow>
    daemon_step T net d (d\<lparr>DmMgr := m, DmLive := (if run = None then [] else [(tid, Resumed)]) @ DmLive d\<rparr>)"
| resumed_ends: "DmLive d = as @ (tid, Resumed) # bs \<Longrightarrow> end_resumed now tid res (DmServer d, DmMgr d) = (sv, m) \<Longrightarrow>
    daemon_step T net d (d\<lparr>DmServer := sv, DmMgr := m, DmLive := as @ bs\<rparr>)"
| elsewhere: "daemon_step T net d (d\<lparr>DmServer := sv\<rparr>)"

section \<open>Peers\<close>

record peer_row =
  PrAddr :: string
  PrState :: string
  PrFingerprint :: string
  PrAlias :: string
  PrPublicCount :: string

definition fingerprint_of :: "node_info \<Rightarrow> string" where
  "fingerprint_of n = (case node_info.Metadata n of None \<Rightarrow> [] | Some m \<Rightarrow> go_get [] m ''fingerprint'')"

definition peer_row_of :: "node_info \<Rightarrow> peer_row" where
  "peer_row_of n =
     (let m = (case node_info.Metadata n of None \<Rightarrow> [] | Some m \<Rightarrow> m)
      in \<lparr>PrAddr = Addr n, PrState = state_String (State n), PrFingerprint = go_get [] m ''fingerprint'',
          PrAlias = go_get [] m ''alias'', PrPublicCount = go_get [] m ''public_shared_count''\<rparr>)"

text \<open>The nodes the loop passes over: this node, the dead and the left, suspects without a connection, and nodes
  whose identity is not known yet.\<close>

definition peer_skipped :: "net_env \<Rightarrow> 'db server \<Rightarrow> node_info \<Rightarrow> bool" where
  "peer_skipped net sv n \<longleftrightarrow>
     Addr n = self_address net sv \<or>
     (own_identity net ''fingerprint'' \<noteq> [] \<and> node_info.Metadata n \<noteq> None \<and> fingerprint_of n = own_identity net ''fingerprint'') \<or>
     State n = StateDead \<or> State n = StateLeft \<or>
     (State n = StateSuspect \<and> \<not> IsPeerConnected sv (Addr n)) \<or>
     node_info.Metadata n = None \<or> fingerprint_of n = []"

text \<open>\<open>seen\<close> maps a fingerprint to the index of its row.\<close>

fun peer_rows :: "net_env \<Rightarrow> 'db server \<Rightarrow> (string, nat) gomap \<Rightarrow> peer_row list \<Rightarrow> node_info list \<Rightarrow> peer_row list" where
  "peer_rows net sv seen rows [] = rows"
| "peer_rows net sv seen rows (n # ns) =
     (if peer_skipped net sv n then peer_rows net sv seen rows ns
      else (let p = peer_row_of n
            in case map_of seen (PrFingerprint p) of
                 Some idx \<Rightarrow>
                   peer_rows net sv seen (if length (PrAddr p) < length (PrAddr (rows ! idx)) then rows[idx := p] else rows) ns
               | None \<Rightarrow> peer_rows net sv (AList.update (PrFingerprint p) (length rows) seen) (rows @ [p]) ns))"

definition handleListPeers :: "net_env \<Rightarrow> 'db server \<Rightarrow> peer_row list" where
  "handleListPeers net sv = (case SvTable sv of None \<Rightarrow> [] | Some t \<Rightarrow> peer_rows net sv [] [] (cs_AllNodes t))"

text \<open>An address, or else an alias. Without a table a lookup of an alias panics.\<close>

definition resolveAddr :: "texts \<Rightarrow> net_env \<Rightarrow> string \<Rightarrow> 'db server \<Rightarrow> (string + string) option" where
  "resolveAddr T net input sv =
     (let normalized = NormalizeUserAddr (NP6 net) input
      in if normalized \<noteq> input \<or> CHR '':'' \<in> set input then Some (Inr normalized)
         else case SvTable sv of
             None \<Rightarrow> None
           | Some t \<Rightarrow> (case LookupAlias net input t of
               [] \<Rightarrow> Some (Inl (''unknown peer '' @ TxQuote T input @ '' (no alias match)''))
             | r # rs \<Rightarrow> Some (Inr (ARNodeAddr r))))"

definition handleConnectPeer ::
  "texts \<Rightarrow> net_env \<Rightarrow> bool \<Rightarrow> (string \<Rightarrow> bool) \<Rightarrow> int \<Rightarrow> string \<Rightarrow> 'db server \<Rightarrow> ((bool \<times> string) \<times> 'db server) option" where
  "handleConnectPeer T net twoPort dual now input sv =
     (case resolveAddr T net input sv of
        None \<Rightarrow> None
      | Some (Inl e) \<Rightarrow> Some ((False, e), sv)
      | Some (Inr addr) \<Rightarrow>
          (case Peers.ConnectPeer twoPort dual now addr sv of
             None \<Rightarrow> None
           | Some (Some e, sv) \<Rightarrow> Some ((False, TxNet T e), sv)
           | Some (None, sv) \<Rightarrow> Some ((True, ''connected to '' @ addr), sv)))"

definition handleDisconnectPeer ::
  "texts \<Rightarrow> net_env \<Rightarrow> int \<Rightarrow> string \<Rightarrow> 'db server \<Rightarrow> ((bool \<times> string) \<times> 'db server) option" where
  "handleDisconnectPeer T net now input sv =
     (case resolveAddr T net input sv of
        None \<Rightarrow> None
      | Some (Inl e) \<Rightarrow> Some ((False, e), sv)
      | Some (Inr addr) \<Rightarrow>
          Some ((True, ''disconnected from '' @ addr @ '' (blocklisted)''), DisconnectAndIgnorePeer now addr sv))"

definition handleUnblockPeer :: "texts \<Rightarrow> net_env \<Rightarrow> string \<Rightarrow> 'db server \<Rightarrow> ((bool \<times> string) \<times> 'db server) option" where
  "handleUnblockPeer T net input sv =
     (case resolveAddr T net input sv of
        None \<Rightarrow> None
      | Some (Inl e) \<Rightarrow> Some ((False, e), sv)
      | Some (Inr addr) \<Rightarrow>
          (case Peers.UnblockPeer addr sv of
             (Some e, sv) \<Rightarrow> Some ((False, TxNet T e), sv)
           | (None, sv) \<Rightarrow> Some ((True, ''unblocked '' @ addr), sv)))"

record browse_row =
  BwKey :: string
  BwName :: string
  BwSize :: int
  BwIsDir :: bool
  BwOwnerAlias :: string
  BwOwnerFP :: string
  BwLabel :: string
  BwTimestamp :: int

definition public_row :: "public_file_entry \<Rightarrow> browse_row" where
  "public_row f =
     \<lparr>BwKey = PFKey f, BwName = PFName f, BwSize = PFSize f, BwIsDir = PFIsDir f, BwOwnerAlias = [], BwOwnerFP = [],
      BwLabel = ''public'', BwTimestamp = PFTimestamp f\<rparr>"

definition shared_row :: "inbox_entry \<Rightarrow> browse_row" where
  "shared_row f =
     \<lparr>BwKey = IBKey f, BwName = IBName f, BwSize = IBSize f, BwIsDir = IBIsDir f, BwOwnerAlias = IBSenderAlias f,
      BwOwnerFP = IBSenderFP f, BwLabel = ''shared'', BwTimestamp = IBReceivedAt f\<rparr>"

text \<open>The inbox entries of the browsed peer; without a known fingerprint all of them.\<close>

definition browse_rows :: "string \<Rightarrow> 'db server \<Rightarrow> public_file_entry list \<Rightarrow> browse_row list" where
  "browse_rows peerAddr sv catalog =
     map public_row catalog @
     (case SvDb sv of
        None \<Rightarrow> []
      | Some d \<Rightarrow>
          (let peerFP = peer_fingerprint sv peerAddr
           in case StateDB.ListInbox d of
                Inl e \<Rightarrow> []
              | Inr inbox \<Rightarrow> map shared_row (filter (\<lambda>f. peerFP = [] \<or> IBSenderFP f = peerFP) inbox)))"

definition handleFullBrowse ::
  "texts \<Rightarrow> net_env \<Rightarrow> public_file_entry list json \<Rightarrow> byte list option \<Rightarrow> string \<Rightarrow> 'db server
    \<Rightarrow> ((string + browse_row list) \<times> 'db server) option" where
  "handleFullBrowse T net JC answer input sv =
     (case resolveAddr T net input sv of
        None \<Rightarrow> None
      | Some (Inl e) \<Rightarrow> Some (Inl e, sv)
      | Some (Inr addr) \<Rightarrow>
          (case GetPublicCatalog net JC addr answer sv of
             (Inl e, sv) \<Rightarrow> Some (Inl (TxCatalog T e), sv)
           | (Inr catalog, sv) \<Rightarrow>
               if SvDb sv \<noteq> None \<and> SvTable sv = None then None else Some (Inr (browse_rows addr sv catalog), sv)))"

section \<open>Sending a share\<close>

text \<open>The identity file of the user, without the keys nothing here uses.\<close>

record identity =
  IdFingerprint :: string
  IdX25519Priv :: "byte list"
  IdX25519Pub :: "byte list"
  IdEd25519Priv :: "byte list"

record keys_env =
  KeIdentity :: "identity option"
  KeKdf :: kdf
  KeAead :: aead
  KeSigner :: signer
  KeNonce :: "byte list option"

definition envelope_entry :: "access_entry \<Rightarrow> access_key" where
  "envelope_entry e = \<lparr>KRecipientPubKey = RecipientPubKey e, KWrappedDEK = WrappedDEK e\<rparr>"

text \<open>The owner and the access list of a manifest, if it is encrypted.\<close>

definition access_of ::
  "texts \<Rightarrow> 'm meta_ops \<Rightarrow> directory_manifest json \<Rightarrow> (string \<Rightarrow> string + chunk_manifest) \<Rightarrow> (string \<Rightarrow> (byte list \<times> bool) option)
    \<Rightarrow> string \<Rightarrow> bool \<Rightarrow> 'm \<Rightarrow> (string + (string \<times> access_entry list) option) \<times> 'm" where
  "access_of T ops JD getman getmeta fileKey isDir m =
     (if isDir then
        (case GetDirectoryManifest ops JD getmeta fileKey m of
           (None, m) \<Rightarrow> (Inl (''get dir manifest: '' @ TxAccess T (NoDirManifest fileKey)), m)
         | (Some dm, m) \<Rightarrow>
             (Inr (if directory_manifest.DEncrypted dm then Some (directory_manifest.DOwnerPubKey dm, directory_manifest.DAccessList dm)
                   else None), m))
      else
        (case InspectManifest ops getman fileKey m of
           (None, m) \<Rightarrow> (Inl (''manifest not found for '' @ TxQuote T fileKey), m)
         | (Some man, m) \<Rightarrow> (Inr (if MEncrypted man then Some (MOwnerPubKey man, MAccessList man) else None), m)))"

text \<open>The new entry and the new signature; \<open>find\<close> stops at the first entry of the owner, and an entry with an empty
  wrapped key counts as none.\<close>

definition grant_entry :: "texts \<Rightarrow> keys_env \<Rightarrow> identity \<Rightarrow> string \<Rightarrow> string \<Rightarrow> access_entry list \<Rightarrow> string \<Rightarrow> string + access_entry \<times> string" where
  "grant_entry T ke me fileKey ownerPub entries recipient =
     (case find (\<lambda>e. RecipientPubKey e = hex_encode (IdX25519Pub me)) entries of
        None \<Rightarrow> Inl ''owner key not found in access list''
      | Some mine \<Rightarrow>
          if WrappedDEK mine = [] then Inl ''owner key not found in access list''
          else (case UnwrapDEK (KeKdf ke) (KeAead ke) (IdX25519Priv me) ownerPub (WrappedDEK mine) of
              Inl e \<Rightarrow> Inl (''unwrap DEK: '' @ TxCrypto T e)
            | Inr dek \<Rightarrow>
                (case WrapDEKForRecipient (KeKdf ke) (KeAead ke) (KeNonce ke) (IdX25519Priv me) recipient dek of
                   Inl e \<Rightarrow> Inl (''wrap DEK for recipient: '' @ TxCrypto T e)
                 | Inr k \<Rightarrow>
                     (let entry = \<lparr>RecipientPubKey = KRecipientPubKey k, WrappedDEK = KWrappedDEK k\<rparr>
                      in Inr (entry, SignManifest (KeSigner ke) (IdEd25519Priv me)
                           \<lparr>PAccessList = map envelope_entry (entries @ [entry]), PEncrypted = True, PFileKey = fileKey,
                            POwnerPubKey = ownerPub\<rparr>)))))"

definition grantAccessToRecipient ::
  "texts \<Rightarrow> keys_env \<Rightarrow> net_env \<Rightarrow> chunk_manifest json \<Rightarrow> directory_manifest json \<Rightarrow> 'm meta_ops \<Rightarrow> (string \<Rightarrow> string + chunk_manifest)
    \<Rightarrow> (string \<Rightarrow> (byte list \<times> bool) option) \<Rightarrow> string \<Rightarrow> bool \<Rightarrow> string \<Rightarrow> 'm \<times> 'db server \<Rightarrow> string option \<times> 'm \<times> 'db server" where
  "grantAccessToRecipient T ke net J JD ops getman getmeta fileKey isDir recipient = (\<lambda>(m, sv).
     case KeIdentity ke of
       None \<Rightarrow> (None, m, sv)
     | Some me \<Rightarrow>
         if \<not> prefix (IdFingerprint me @ ''/'') fileKey then (None, m, sv)
         else (case access_of T ops JD getman getmeta fileKey isDir m of
             (Inl e, m) \<Rightarrow> (Some e, m, sv)
           | (Inr None, m) \<Rightarrow> (None, m, sv)
           | (Inr (Some (ownerPub, entries)), m) \<Rightarrow>
               if has_access recipient entries then (None, m, sv)
               else (case grant_entry T ke me fileKey ownerPub entries recipient of
                   Inl e \<Rightarrow> (Some e, m, sv)
                 | Inr (entry, sig) \<Rightarrow>
                     (case AddAccessEntry net J JD ops getman getmeta fileKey isDir entry sig (m, sv) of
                        ((enc, Some e), m, sv) \<Rightarrow> (Some (''add access entry: '' @ TxAccess T e), m, sv)
                      | ((enc, None), m, sv) \<Rightarrow> (None, m, sv)))))"

text \<open>The fingerprint and the key of the recipient, from the table, or by alias when the table has no fingerprint.
  \<open>None\<close> is the lookup of an alias without a table.\<close>

definition recipient_of :: "net_env \<Rightarrow> string \<Rightarrow> string \<Rightarrow> 'db server \<Rightarrow> (string \<times> string) option" where
  "recipient_of net peerInput peerAddr sv =
     (case SvTable sv of
        None \<Rightarrow> if CHR '':'' \<in> set peerInput then Some ([], []) else None
      | Some t \<Rightarrow>
          (let (fp, key) = (case cs_GetNode peerAddr t of
                 None \<Rightarrow> ([], [])
               | Some n \<Rightarrow> (case node_info.Metadata n of
                     None \<Rightarrow> ([], [])
                   | Some md \<Rightarrow> (go_get [] md ''fingerprint'', go_get [] md ''x25519_pub'')))
           in Some (if fp = [] \<and> CHR '':'' \<notin> set peerInput then
                (case LookupAlias net peerInput t of [] \<Rightarrow> (fp, key) | r # rs \<Rightarrow> (ARFingerprint r, ARX25519 r))
              else (fp, key))))"

definition handleSendToPeer ::
  "texts \<Rightarrow> keys_env \<Rightarrow> net_env \<Rightarrow> chunk_manifest json \<Rightarrow> directory_manifest json \<Rightarrow> 'm meta_ops \<Rightarrow> (string \<Rightarrow> string + chunk_manifest)
    \<Rightarrow> (string \<Rightarrow> (byte list \<times> bool) option) \<Rightarrow> int \<Rightarrow> int \<Rightarrow> string \<Rightarrow> string \<Rightarrow> 'm \<times> 'db server
    \<Rightarrow> ((bool \<times> string) \<times> 'm \<times> 'db server) option" where
  "handleSendToPeer T ke net J JD ops getman getmeta now now' fileKey peerInput = (\<lambda>(m, sv).
     case resolveAddr T net peerInput sv of
       None \<Rightarrow> None
     | Some (Inl e) \<Rightarrow> Some ((False, e), m, sv)
     | Some (Inr peerAddr) \<Rightarrow>
         (case SvDb sv of
            None \<Rightarrow> Some ((False, ''state database not available''), m, sv)
          | Some d \<Rightarrow>
              (case StateDB.ListUploads d of
                 Inl e \<Rightarrow> Some ((False, ''failed to list uploads: '' @ TxState T e), m, sv)
               | Inr ups \<Rightarrow>
                   (case find (\<lambda>u. UEKey u = fileKey) ups of
                      None \<Rightarrow> Some ((False, ''file not found in uploads: '' @ fileKey), m, sv)
                    | Some u \<Rightarrow>
                        (case recipient_of net peerInput peerAddr sv of
                           None \<Rightarrow> None
                         | Some (fp, key) \<Rightarrow>
                        (let (err, m, sv) = (if key = [] then (None, m, sv)
                               else grantAccessToRecipient T ke net J JD ops getman getmeta fileKey (UEIsDir u) key (m, sv))
                         in case err of
                              Some e \<Rightarrow> Some ((False, ''grant access failed: '' @ e), m, sv)
                            | None \<Rightarrow>
                                (case SendOrQueueDirectShare net now now' peerAddr fp fileKey (UEName u) (UESize u) (UEIsDir u) sv of
                                   (Inl e, sv) \<Rightarrow> Some ((False, TxShare T e), m, sv)
                                 | (Inr queued, sv) \<Rightarrow>
                                     Some ((True, if queued then ''queued '' @ TxQuote T (UEName u) @ '' for '' @ peerAddr @ '' (offline)''
                                       else ''sent '' @ TxQuote T (UEName u) @ '' to '' @ peerAddr), m, sv))))))))"

text \<open>The client's side of access (\<open>unwrapDEK\<close> of cmd/handle_download.go).\<close>

definition unwrapDEK :: "kdf \<Rightarrow> aead \<Rightarrow> identity \<Rightarrow> manifest_info_response \<Rightarrow> crypto_error option + byte list" where
  "unwrapDEK K A me resp =
     (case find (\<lambda>e. RecipientPubKey e = hex_encode (IdX25519Pub me)) (RAccessList resp) of
        None \<Rightarrow> Inl None
      | Some e \<Rightarrow>
          (case UnwrapDEK K A (IdX25519Priv me) (ROwnerPub resp) (WrappedDEK e) of Inl err \<Rightarrow> Inl (Some err) | Inr dek \<Rightarrow> Inr dek))"

section \<open>The dispatch\<close>

record node_row =
  NrAddr :: string
  NrStatus :: string
  NrPeerCount :: int
  NrUploads :: nat
  NrDownloads :: nat

text \<open>The text of the uptime is left out.\<close>

definition handleNodeStatus :: "net_env \<Rightarrow> 'db server \<Rightarrow> node_row" where
  "handleNodeStatus net sv =
     (let hs = HealthStatus net sv
      in \<lparr>NrAddr = HNodeAddr hs, NrStatus = health_status.HStatus hs, NrPeerCount = HPeerCount hs,
          NrUploads = (case SvDb sv of None \<Rightarrow> 0 | Some d \<Rightarrow>
            (case StateDB.ListUploads d of Inl e \<Rightarrow> 0 | Inr us \<Rightarrow> length us)),
          NrDownloads = (case SvDb sv of None \<Rightarrow> 0 | Some d \<Rightarrow>
            (case StateDB.ListDownloads d of Inl e \<Rightarrow> 0 | Inr ds \<Rightarrow> length ds))\<rparr>)"

definition handleGetManifestInfo ::
  "texts \<Rightarrow> 'm meta_ops \<Rightarrow> directory_manifest json \<Rightarrow> (string \<Rightarrow> string + chunk_manifest) \<Rightarrow> (string \<Rightarrow> (byte list \<times> bool) option)
    \<Rightarrow> string \<Rightarrow> 'm \<Rightarrow> byte list \<times> 'm" where
  "handleGetManifestInfo T ops JD getman getmeta name m =
     (case GetDirectoryManifest ops JD getmeta name m of
        (Some dm, m) \<Rightarrow>
          (writeManifestInfoResponse (synth_manifest (directory_manifest.DEncrypted dm) (directory_manifest.DOwnerPubKey dm)
             (directory_manifest.DAccessList dm)) True, m)
      | (None, m) \<Rightarrow>
          (case InspectManifest ops getman name m of
             (None, m) \<Rightarrow> (WriteDownloadError (''no manifest found for '' @ TxQuote T name), m)
           | (Some man, m) \<Rightarrow> (writeManifestInfoResponse man False, m)))"

definition handleResolveAlias :: "net_env \<Rightarrow> string \<Rightarrow> 'db server \<Rightarrow> byte list option" where
  "handleResolveAlias net name sv =
     (case SvTable sv of
        None \<Rightarrow> None
      | Some t \<Rightarrow> Some (writeResolveAliasResponse
          (map (\<lambda>r. \<lparr>AFingerprint = ARFingerprint r, AX25519PubHex = ARX25519 r, AEd25519PubHex = AREd25519 r,
                      ANodeAddr = ARNodeAddr r\<rparr>) (LookupAlias net name t))))"

text \<open>The two streaming downloads: \<open>got\<close> is what \<open>GetData\<close> returns, the bytes its reader delivers. An error in the
  middle is only logged.\<close>

definition handleDownload ::
  "texts \<Rightarrow> (nat \<Rightarrow> int) \<Rightarrow> (string \<Rightarrow> int) \<Rightarrow> bool \<Rightarrow> string \<Rightarrow> string + byte list \<Rightarrow> 'db server \<Rightarrow> byte list \<times> 'db server" where
  "handleDownload T clock cl encrypted key got sv =
     (case got of
        Inl e \<Rightarrow> (WriteDownloadError e, sv)
      | Inr data \<Rightarrow> (WriteDownloadResponse (cl key) @ data, recordDownloadState (clock 0) key [] (cl key) encrypted False sv))"

definition status_bytes :: "bool \<times> string \<Rightarrow> byte list" where
  "status_bytes r = WriteStatus (if fst r then StatusOK else StatusError) (snd r)"

text \<open>The printers of \<open>encoding/json\<close>, one per type of answer.\<close>

record printers =
  PrUploads :: "upload_entry list \<Rightarrow> byte list"
  PrDownloads :: "download_entry list \<Rightarrow> byte list"
  PrCatalog :: "public_file_entry list \<Rightarrow> byte list"
  PrPeers :: "peer_row list \<Rightarrow> byte list"
  PrNode :: "node_row \<Rightarrow> byte list"
  PrTransfers :: "transfer_row list \<Rightarrow> byte list"
  PrResults :: "search_result list \<Rightarrow> byte list"
  PrBrowse :: "browse_row list \<Rightarrow> byte list"
  PrInbox :: "inbox_entry list \<Rightarrow> byte list"

definition json_bytes :: "byte list \<Rightarrow> byte list" where
  "json_bytes data = WriteJSONResponse (Inr data)"

text \<open>A listing of the state database: empty without one, and the error as a status.\<close>

definition list_bytes :: "texts \<Rightarrow> ('a list \<Rightarrow> byte list) \<Rightarrow> ('db state_db \<Rightarrow> state_error + 'a list) \<Rightarrow> 'db server \<Rightarrow> byte list" where
  "list_bytes T pr f sv =
     (case SvDb sv of
        None \<Rightarrow> json_bytes (pr [])
      | Some d \<Rightarrow> (case f d of Inl e \<Rightarrow> status_bytes (False, TxState T e) | Inr xs \<Rightarrow> json_bytes (pr xs)))"

text \<open>The listing of the inbox answers an error with an empty list.\<close>

definition handleListInbox :: "(inbox_entry list \<Rightarrow> byte list) \<Rightarrow> 'db server \<Rightarrow> byte list" where
  "handleListInbox pr sv =
     (case SvDb sv of
        None \<Rightarrow> json_bytes (pr [])
      | Some d \<Rightarrow> (case StateDB.ListInbox d of Inl e \<Rightarrow> json_bytes (pr []) | Inr xs \<Rightarrow> json_bytes (pr xs)))"

definition handleRemoveFile ::
  "texts \<Rightarrow> net_env \<Rightarrow> chunk_manifest json \<Rightarrow> 'm chunk_store \<Rightarrow> int \<Rightarrow> string \<Rightarrow> 'm \<Rightarrow> 'db server \<times> os
    \<Rightarrow> (bool \<times> string) \<times> 'db server \<times> os" where
  "handleRemoveFile T net J st now key m w =
     (case DeleteFile net J st now key m w of
        (Inl e, w) \<Rightarrow> ((False, TxDelete T e), w)
      | (Inr n, w) \<Rightarrow>
          ((True, ''Removed: '' @ extractName key @ '' (tombstone propagated to '' @ itoa n @ '' peers)''), w))"

text \<open>The answer to a request that cannot be read.\<close>

definition bad_request :: "texts \<Rightarrow> byte \<Rightarrow> rd_error \<Rightarrow> byte list" where
  "bad_request T opcode e =
     (if opcode \<in> {OpDownload, OpECDHDownload, OpGetManifest} then WriteDownloadError (''bad request: '' @ TxRead T e)
      else WriteStatus StatusError (''bad request: '' @ TxRead T e))"

text \<open>What the handlers use besides the state. \<open>CeOp\<close> runs an operation of the server, \<open>CeGet\<close> is \<open>GetData\<close>, and the
  clock readings are those of one request.\<close>

record ('db, 'm) client_env =
  CeTexts :: texts
  CeNet :: net_env
  CeKeys :: keys_env
  CePrint :: printers
  CeManifests :: "chunk_manifest json"
  CeDirs :: "directory_manifest json"
  CeCatalogs :: "public_file_entry list json"
  CeStore :: "'m chunk_store"
  CeGetManifest :: "string \<Rightarrow> string + chunk_manifest"
  CeGetMeta :: "string \<Rightarrow> (byte list \<times> bool) option"
  CeOp :: "byte list \<Rightarrow> op_call \<Rightarrow> 'db server \<times> 'm \<times> os \<Rightarrow> op_result \<times> op_progress list \<times> 'db server \<times> 'm \<times> os"
  CeGet :: "string \<Rightarrow> byte list option \<Rightarrow> 'm \<times> os \<Rightarrow> (string + byte list) \<times> 'm \<times> os"
  CeSearch :: "string \<Rightarrow> 'db server \<Rightarrow> search_result list \<times> 'db server"
  CeTwoPort :: bool
  CeDual :: "string \<Rightarrow> bool"
  CeAnswer :: "byte list option"
  CeLan :: "byte list"
  CeTick :: "nat \<Rightarrow> int"
  CeClock :: "nat \<Rightarrow> int"

record ('db, 'm) client_state =
  CsServer :: "'db server"
  CsMgr :: manager
  CsWorld :: "'m \<times> os"
  CsSpawned :: "(string \<times> op_call option) list"

abbreviation CeOps :: "('db, 'm) client_env \<Rightarrow> 'm meta_ops" where
  "CeOps E \<equiv> chunk_store.Metadata (CeStore E)"

text \<open>The bytes a listing or query answers. \<open>None\<close> is a panic.\<close>

fun answer :: "('db, 'm) client_env \<Rightarrow> ipc_request \<Rightarrow> ('db, 'm) client_state \<Rightarrow> (byte list \<times> ('db, 'm) client_state) option" where
  "answer E (ipc_request.Download key) s =
     (let (got, w) = CeGet E key None (CsWorld s);
          (bs, sv) = handleDownload (CeTexts E) (CeClock E) (ContentLength (CeOps E) (fst w)) False key got (CsServer s)
      in Some (bs, s\<lparr>CsServer := sv, CsWorld := w\<rparr>))"
| "answer E (ipc_request.ECDHDownload key dek) s =
     (let (got, w) = CeGet E key (Some dek) (CsWorld s);
          (bs, sv) = handleDownload (CeTexts E) (CeClock E) (ContentLength (CeOps E) (fst w)) True key got (CsServer s)
      in Some (bs, s\<lparr>CsServer := sv, CsWorld := w\<rparr>))"
| "answer E (ipc_request.GetManifest name) s =
     (let (bs, m) = handleGetManifestInfo (CeTexts E) (CeOps E) (CeDirs E) (CeGetManifest E) (CeGetMeta E) name (fst (CsWorld s))
      in Some (bs, s\<lparr>CsWorld := (m, snd (CsWorld s))\<rparr>))"
| "answer E (ipc_request.ResolveAlias name) s = map_option (\<lambda>bs. (bs, s)) (handleResolveAlias (CeNet E) name (CsServer s))"
| "answer E ipc_request.ListUploads s =
     Some (list_bytes (CeTexts E) (PrUploads (CePrint E)) StateDB.ListUploads (CsServer s), s)"
| "answer E ipc_request.ListDownloads s =
     Some (list_bytes (CeTexts E) (PrDownloads (CePrint E)) StateDB.ListDownloads (CsServer s), s)"
| "answer E (ipc_request.BrowsePeer addr) s =
     (case GetPublicCatalog (CeNet E) (CeCatalogs E) addr (CeAnswer E) (CsServer s) of
        (Inl e, sv) \<Rightarrow> Some (status_bytes (False, TxCatalog (CeTexts E) e), s\<lparr>CsServer := sv\<rparr>)
      | (Inr es, sv) \<Rightarrow> Some (json_bytes (PrCatalog (CePrint E) es), s\<lparr>CsServer := sv\<rparr>))"
| "answer E ipc_request.ListPeers s = Some (json_bytes (PrPeers (CePrint E) (handleListPeers (CeNet E) (CsServer s))), s)"
| "answer E ipc_request.NodeStatus s = Some (json_bytes (PrNode (CePrint E) (handleNodeStatus (CeNet E) (CsServer s))), s)"
| "answer E ipc_request.ListTransfers s =
     Some (json_bytes (PrTransfers (CePrint E) (handleListTransfers (CsServer s, CsMgr s))), s)"
| "answer E (ipc_request.CancelTransfer tid) s =
     (let (r, m) = handleCancelTransfer (CeTexts E) tid (CsMgr s) in Some (status_bytes r, s\<lparr>CsMgr := m\<rparr>))"
| "answer E (ipc_request.PauseTransfer tid) s =
     (let (r, m) = handlePauseTransfer (CeTexts E) tid (CsMgr s) in Some (status_bytes r, s\<lparr>CsMgr := m\<rparr>))"
| "answer E (ipc_request.ResumeTransfer tid) s =
     (let (r, run, m) = handleResumeTransfer (CeTexts E) tid (CsMgr s)
      in Some (status_bytes r, s\<lparr>CsMgr := m, CsSpawned := (case run of None \<Rightarrow> [] | Some c \<Rightarrow> [(tid, c)]) @ CsSpawned s\<rparr>))"
| "answer E (ipc_request.RemoveFile key) s =
     (let (r, sv, os) = handleRemoveFile (CeTexts E) (CeNet E) (CeManifests E) (CeStore E) (CeClock E 0) key (fst (CsWorld s))
            (CsServer s, snd (CsWorld s))
      in Some (status_bytes r, s\<lparr>CsServer := sv, CsWorld := (fst (CsWorld s), os)\<rparr>))"
| "answer E (ipc_request.SearchFiles q) s =
     (let (rs, sv) = CeSearch E q (CsServer s) in Some (json_bytes (PrResults (CePrint E) rs), s\<lparr>CsServer := sv\<rparr>))"
| "answer E (ipc_request.ConnectPeer input) s =
     map_option (\<lambda>(r, sv). (status_bytes r, s\<lparr>CsServer := sv\<rparr>))
       (handleConnectPeer (CeTexts E) (CeNet E) (CeTwoPort E) (CeDual E) (CeClock E 0) input (CsServer s))"
| "answer E (ipc_request.DisconnectPeer input) s =
     map_option (\<lambda>(r, sv). (status_bytes r, s\<lparr>CsServer := sv\<rparr>))
       (handleDisconnectPeer (CeTexts E) (CeNet E) (CeClock E 0) input (CsServer s))"
| "answer E (ipc_request.UnblockPeer input) s =
     map_option (\<lambda>(r, sv). (status_bytes r, s\<lparr>CsServer := sv\<rparr>)) (handleUnblockPeer (CeTexts E) (CeNet E) input (CsServer s))"
| "answer E (ipc_request.FullBrowse input) s =
     map_option (\<lambda>(r, sv). (case r of
         Inl e \<Rightarrow> status_bytes (False, e)
       | Inr rows \<Rightarrow> json_bytes (PrBrowse (CePrint E) rows), s\<lparr>CsServer := sv\<rparr>))
       (handleFullBrowse (CeTexts E) (CeNet E) (CeCatalogs E) (CeAnswer E) input (CsServer s))"
| "answer E (ipc_request.SendToPeer key peer) s =
     map_option (\<lambda>(r, m, sv). (status_bytes r, s\<lparr>CsServer := sv, CsWorld := (m, snd (CsWorld s))\<rparr>))
       (handleSendToPeer (CeTexts E) (CeKeys E) (CeNet E) (CeManifests E) (CeDirs E) (CeOps E) (CeGetManifest E) (CeGetMeta E)
         (CeClock E 0) (CeClock E 1) key peer (fst (CsWorld s), CsServer s))"
| "answer E ipc_request.ListInbox s = Some (handleListInbox (PrInbox (CePrint E)) (CsServer s), s)"
| "answer E ipc_request.ScanLAN s = Some (json_bytes (CeLan E), s)"
| "answer E ipc_request.Shutdown s = Some (status_bytes (True, ''shutting down''), s)"
| "answer E req s = None"

text \<open>What an upload over the connection reads of it.\<close>

fun upload_body :: "ipc_request \<Rightarrow> byte list \<Rightarrow> byte list" where
  "upload_body (ipc_request.Upload key sz public) body = (if sz > 0 then take (nat sz) body else body)"
| "upload_body (ipc_request.ECDHUpload r) body = (if UFileSize r > 0 then take (nat (UFileSize r)) body else body)"
| "upload_body req body = []"

text \<open>One connection: the opcode, the rest of the request, its handler. Nothing is answered when the opcode is cut
  off or unknown.\<close>

definition handle_request ::
  "('db, 'm) client_env \<Rightarrow> ipc_request \<Rightarrow> byte list \<Rightarrow> ('db, 'm) client_state \<Rightarrow> (byte list \<times> ('db, 'm) client_state) option" where
  "handle_request E req body s =
     (if job_of (\<lambda>k. 0) req \<noteq> None then
        (case handle_transfer (CeTexts E) (CeNet E) (CeClock E 3) (CeTick E) (CeClock E)
                (ContentLength (CeOps E) (fst (CsWorld s))) (\<lambda>w. ContentLength (CeOps E) (fst w))
                (\<lambda>w key. fst (GetDirectoryManifest (CeOps E) (CeDirs E) (CeGetMeta E) key (fst w)))
                (CeOp E (upload_body req body)) req (CsServer s, CsMgr s, CsWorld s) of
           None \<Rightarrow> None
         | Some (bs, sv, m, w) \<Rightarrow> Some (bs, s\<lparr>CsServer := sv, CsMgr := m, CsWorld := w\<rparr>))
      else answer E req s)"

definition HandleClient ::
  "('db, 'm) client_env \<Rightarrow> byte list \<Rightarrow> ('db, 'm) client_state \<Rightarrow> (byte list \<times> ('db, 'm) client_state) option" where
  "HandleClient E input s =
     (case input of
        [] \<Rightarrow> Some ([], s)
      | opcode # rest \<Rightarrow>
          (case read_body opcode of
             None \<Rightarrow> Some ([], s)
           | Some m \<Rightarrow>
               (case m rest of
                  Inl e \<Rightarrow> Some (bad_request (CeTexts E) opcode e, s)
                | Inr (req, body) \<Rightarrow> handle_request E req body s)))"

section \<open>The client of a transfer\<close>

lemma read_byte_shorter: "read_byte bs = Inr (x, rest) \<Longrightarrow> length rest < length bs"
  by (cases bs) (auto simp: read_byte_def read_full_def rbind_def rret_def split: sum.splits if_splits)

lemma read_full_shorter: "read_full n bs = Inr (x, rest) \<Longrightarrow> length rest \<le> length bs"
  by (auto simp: read_full_def split: if_splits)

lemma read_be_shorter: "read_be n bs = Inr (x, rest) \<Longrightarrow> length rest \<le> length bs"
  using read_full_shorter by (auto simp: read_be_def rbind_def rret_def split: sum.splits)

lemma read_frame_shorter:
  "ReadProgressOrStatus bs = Inr (x, rest) \<Longrightarrow> length rest < length bs"
  "ReadDirProgressOrStatus bs = Inr (y, rest) \<Longrightarrow> length rest < length bs"
  by (auto simp: ReadProgressOrStatus_def ReadDirProgressOrStatus_def rbind_def rret_def split: sum.splits if_splits
      dest!: read_byte_shorter read_full_shorter read_be_shorter)

text \<open>The loops of \<open>UploadFile\<close>, \<open>downloadToFile\<close> and \<open>downloadDirectoryInner\<close>: the reports and the final status.\<close>

function read_file_frames :: "(op_progress list \<times> bool \<times> string) reader" where
  "read_file_frames bs =
     (case ReadProgressOrStatus bs of
        Inl e \<Rightarrow> Inl e
      | Inr (FinalStatus ok msg, rest) \<Rightarrow> Inr (([], ok, msg), rest)
      | Inr (Progress c t, rest) \<Rightarrow>
          (case read_file_frames rest of
             Inl e \<Rightarrow> Inl e
           | Inr ((ps, fin), rest) \<Rightarrow> Inr ((FileProgress (int c) (int t) # ps, fin), rest)))"
  by pat_completeness auto
termination by (relation "measure length") (auto dest: read_frame_shorter)

declare read_file_frames.simps [simp del]

function read_dir_frames :: "(op_progress list \<times> bool \<times> string) reader" where
  "read_dir_frames bs =
     (case ReadDirProgressOrStatus bs of
        Inl e \<Rightarrow> Inl e
      | Inr (DirFinalStatus ok msg, rest) \<Rightarrow> Inr (([], ok, msg), rest)
      | Inr (DirProgress fi ft ci ct, rest) \<Rightarrow>
          (case read_dir_frames rest of
             Inl e \<Rightarrow> Inl e
           | Inr ((ps, fin), rest) \<Rightarrow> Inr ((DirectoryProgress (int fi) (int ft) (int ci) (int ct) # ps, fin), rest)))"
  by pat_completeness auto
termination by (relation "measure length") (auto dest: read_frame_shorter)

declare read_dir_frames.simps [simp del]

definition client_reads :: "bool \<Rightarrow> (string \<times> op_progress list \<times> bool \<times> string) reader" where
  "client_reads isDir =
     rbind ReadTransferID (\<lambda>tid. rbind (if isDir then read_dir_frames else read_file_frames) (\<lambda>r. rret (tid, r)))"

end
