(* ===== verification/DaemonLaws.thy ===== *)
theory DaemonLaws
  imports Daemon ShareLaws
begin

text \<open>
  What the daemon promises its clients: no transfer is left active without a session or goroutine that works on it,
  a finished transfer is in the registry, the history and the listing of its kind, the client reads the frames of a
  session as they were sent, the listings are exact, and a share of an encrypted file gives its recipient the key.
\<close>

section \<open>The entries of the registry\<close>

lemma Get_with_info [simp]:
  "Get t (with_info tid f m) = (if t = tid then map_option f (Get tid m) else Get t m)"
  by (auto simp: Get_def with_info_def with_entry_def split: option.splits)

lemma Get_calls [simp]:
  "Get t (SetStatus tid s e m) = (if t = tid then map_option (\<lambda>i. i\<lparr>TStatus := s, TError := e\<rparr>) (Get tid m) else Get t m)"
  "Get t (SetOutputDir tid d m) = (if t = tid then map_option (\<lambda>i. i\<lparr>OutputDir := d\<rparr>) (Get tid m) else Get t m)"
  "Get t (SetSize tid z m) = (if t = tid then map_option (\<lambda>i. i\<lparr>TSize := z\<rparr>) (Get tid m) else Get t m)"
  "Get t (SetDEK tid k m) = (if t = tid then map_option (\<lambda>i. i\<lparr>DEK := k\<rparr>) (Get tid m) else Get t m)"
  "Get t (Transfers.Complete tid m) = (if t = tid then map_option (\<lambda>i. i\<lparr>TStatus := Status.Completed\<rparr>) (Get tid m) else Get t m)"
  "Get t (fire ctx m) = Get t m"
  by (simp_all add: SetStatus_def SetOutputDir_def SetSize_def SetDEK_def Transfers.Complete_def)
    (simp add: Get_def fire_def)

definition fresh_info :: "int \<Rightarrow> job \<Rightarrow> string \<Rightarrow> transfer_info" where
  "fresh_info now j tid =
     \<lparr>TID = tid, TDirection = JDir j, TStatus = Status.Active, TKey = JKey j, TName = extractName (JKey j), TSize = JSize j,
      TIsDir = JIsDir j, TEncrypted = JEncrypted j, TPublic = JPublic j, TCompleted = 0, TTotal = 0, BytesDone = 0, Speed = 0,
      StartedAt = now, TError = [], FilePath = JPath j, OutputDir = (case JOut j of None \<Rightarrow> [] | Some out \<Rightarrow> out),
      DEK = (case JDek j of None \<Rightarrow> [] | Some dek \<Rightarrow> dek)\<rparr>"

lemma begin_transfer_entry:
  assumes "begin_transfer now j m = (tid, ctx, m')"
  shows "tid = format_id (counter m + 1)" and "Get t m' = (if t = tid then Some (fresh_info now j tid) else Get t m)"
    and "counter m' = counter m + 1"
proof -
  have reg: "Get t (snd (snd (Register now d k nm p z i e pub m))) = (if t = format_id (counter m + 1) then Some
      \<lparr>TID = t, TDirection = d, TStatus = Queued, TKey = k, TName = nm, TSize = z, TIsDir = i, TEncrypted = e, TPublic = pub,
       TCompleted = 0, TTotal = 0, BytesDone = 0, Speed = 0, StartedAt = now, TError = [], FilePath = p, OutputDir = [], DEK = []\<rparr>
      else Get t m)" for d k nm p z i e pub t
    by (simp add: Register_eq Get_def)
  have info: "counter (with_info x f q) = counter q" for x f q
    by (simp add: with_info_def with_entry_def split: option.split)
  obtain tid0 ctx0 m0 where R: "Register now (JDir j) (JKey j) (extractName (JKey j)) (JPath j) (JSize j) (JIsDir j) (JEncrypted j)
      (JPublic j) m = (tid0, ctx0, m0)" by (metis prod_cases3)
  have tid0: "tid0 = format_id (counter m + 1)" and c0: "counter m0 = counter m + 1" using R by (auto simp: Register_eq)
  note m0 = reg [of _ "JDir j" "JKey j" "extractName (JKey j)" "JPath j" "JSize j" "JIsDir j" "JEncrypted j" "JPublic j", unfolded R snd_conv]
  have eqs: "tid = tid0" "m' = (case JDek j of None \<Rightarrow> id | Some dek \<Rightarrow> SetDEK tid0 dek)
      ((case JOut j of None \<Rightarrow> id | Some out \<Rightarrow> SetOutputDir tid0 out) (SetStatus tid0 Status.Active [] m0))"
    using assms unfolding begin_transfer_def R by (auto simp: Let_def split: option.splits)
  show "tid = format_id (counter m + 1)" using eqs tid0 by simp
  show "Get t m' = (if t = tid then Some (fresh_info now j tid) else Get t m)"
    unfolding eqs using tid0 by (auto simp: m0 fresh_info_def split: option.split)
  show "counter m' = counter m + 1"
    unfolding eqs using c0 by (auto simp: SetStatus_def SetOutputDir_def SetDEK_def info split: option.split)
qed

lemma track_progress_info:
  "\<exists>f. track_progress now tid p m = with_entry tid f m \<and> (\<forall>t. TStatus (Info (f t)) = TStatus (Info t) \<and> TKey (Info (f t)) = TKey (Info t) \<and>
     TID (Info (f t)) = TID (Info t) \<and> TSize (Info (f t)) = TSize (Info t))"
proof -
  have keep: "TStatus (Info (set_progress now c tt b t)) = TStatus (Info t)" "TKey (Info (set_progress now c tt b t)) = TKey (Info t)"
    "TID (Info (set_progress now c tt b t)) = TID (Info t)" "TSize (Info (set_progress now c tt b t)) = TSize (Info t)" for c tt b t
    by (simp_all add: set_progress_def update_speed_def Let_def split: option.split)
  show ?thesis by (cases p) (auto simp: track_progress_def UpdateProgress_def keep intro!: exI)
qed

text \<open>What progress reports leave alone.\<close>

definition same_entry :: "transfer_info option \<Rightarrow> transfer_info option \<Rightarrow> bool" where
  "same_entry x y \<longleftrightarrow> map_option TStatus x = map_option TStatus y \<and> map_option TKey x = map_option TKey y \<and>
     map_option TID x = map_option TID y \<and> map_option TSize x = map_option TSize y"

lemma same_entry_refl [simp]: "same_entry x x"
  by (simp add: same_entry_def)

lemma track_progress_same: "same_entry (Get t (track_progress now tid p m)) (Get t m)"
proof -
  obtain f where f: "track_progress now tid p m = with_entry tid f m" "\<And>t. TStatus (Info (f t)) = TStatus (Info t)"
    "\<And>t. TKey (Info (f t)) = TKey (Info t)" "\<And>t. TID (Info (f t)) = TID (Info t)" "\<And>t. TSize (Info (f t)) = TSize (Info t)"
    using track_progress_info by blast
  show ?thesis unfolding f(1) by (simp add: Get_def with_entry_def same_entry_def f(2-) split: option.split)
qed

lemma track_all_same: "same_entry (Get t (track_all tick tid n ps m)) (Get t m)"
proof (induction ps arbitrary: n m)
  case (Cons p ps)
  then show ?case using track_progress_same [of t "tick n" tid p m]
    by (simp add: same_entry_def)
qed simp

lemma completed_entry:
  "completeAndRecordTransfer now tid (sv, m) = (sv', m') \<Longrightarrow>
    Get t m' = (if t = tid then map_option (\<lambda>i. i\<lparr>TStatus := Status.Completed\<rparr>) (Get tid m) else Get t m)"
  by (auto simp: completeAndRecordTransfer_def split: option.splits)

lemma end_transfer_info:
  assumes "end_transfer net clock cl gd j tid ctx res (sv, m) = (sv', m')"
  shows "\<exists>z. Get t m' = (if t = tid then map_option (\<lambda>i. i\<lparr>TSize := z i, TStatus := Status.Completed\<rparr>) (Get tid m) else Get t m)"
proof -
  obtain sv1 m1 where 1: "(case res of OpError e \<Rightarrow> (sv, m) | _ \<Rightarrow> record_success net clock j tid (final_size cl gd j) (sv, m)) = (sv1, m1)"
    by fastforce
  have "m1 = m \<or> m1 = SetSize tid (final_size cl gd j) m"
    using 1 by (auto simp: record_success_def split: op_result.splits if_splits)
  then obtain z where z: "\<And>t. Get t m1 = (if t = tid then map_option (\<lambda>i. i\<lparr>TSize := z i\<rparr>) (Get tid m) else Get t m)"
  proof
    assume "m1 = m"
    then show ?thesis by (intro that [of TSize]) (simp add: option.map_ident)
  next
    assume "m1 = SetSize tid (final_size cl gd j) m"
    then show ?thesis by (intro that [of "\<lambda>i. final_size cl gd j"]) simp
  qed
  obtain sv2 m2 where 2: "completeAndRecordTransfer (clock 2) tid (sv1, m1) = (sv2, m2)" by fastforce
  have m': "m' = fire ctx m2" using assms unfolding end_transfer_def 1 2 Let_def by simp
  show ?thesis unfolding m' by (rule exI [of _ z]) (simp add: completed_entry [OF 2] z option.map_comp comp_def)
qed

lemma end_transfer_entry:
  assumes "end_transfer net clock cl gd j tid ctx res (sv, m) = (sv', m')"
  shows "map_option TStatus (Get t m') = (if t = tid then map_option (\<lambda>i. Status.Completed) (Get tid m) else map_option TStatus (Get t m))"
  using end_transfer_info [OF assms, of t] by (auto simp: option.map_comp comp_def)

lemma end_resumed_entry:
  assumes "end_resumed now tid res (sv, m) = (sv', m')"
  shows "map_option TStatus (Get t m') = (if t = tid then map_option (\<lambda>i. Status.Completed) (Get tid m) else map_option TStatus (Get t m))"
  using assms [unfolded end_resumed_def prod.case, THEN completed_entry, of t]
  by (auto simp: option.map_comp comp_def split: option.splits)

section \<open>No transfer hangs\<close>

definition settled :: "Status \<Rightarrow> bool" where
  "settled s \<longleftrightarrow> s = Status.Completed \<or> s = Status.Paused"

definition all_attended :: "'db daemon \<Rightarrow> bool" where
  "all_attended d \<longleftrightarrow> (\<forall>tid s. map_option TStatus (Get tid (DmMgr d)) = Some s \<and> \<not> settled s \<longrightarrow> tid \<in> fst ` set (DmLive d))"

lemma all_attendedD: "all_attended d \<Longrightarrow> map_option TStatus (Get tid (DmMgr d)) = Some s \<Longrightarrow> \<not> settled s \<Longrightarrow> tid \<in> fst ` set (DmLive d)"
  unfolding all_attended_def by blast

lemma all_attended_kept:
  assumes "all_attended d" and "\<And>t. t \<noteq> tid \<Longrightarrow> map_option TStatus (Get t m) = map_option TStatus (Get t (DmMgr d))"
    and "\<And>s. map_option TStatus (Get tid m) = Some s \<Longrightarrow> settled s \<or> tid \<in> fst ` set live"
    and "fst ` set (DmLive d) \<subseteq> insert tid (fst ` set live)"
  shows "all_attended (d\<lparr>DmServer := sv, DmMgr := m, DmLive := live\<rparr>)"
  unfolding all_attended_def
proof (intro allI impI)
  fix t s
  assume a: "map_option TStatus (Get t (DmMgr (d\<lparr>DmServer := sv, DmMgr := m, DmLive := live\<rparr>))) = Some s \<and> \<not> settled s"
  then have "map_option TStatus (Get t m) = Some s" "\<not> settled s" by simp_all
  then show "t \<in> fst ` set (DmLive (d\<lparr>DmServer := sv, DmMgr := m, DmLive := live\<rparr>))" using assms(2) [of t] assms(3) [of s] all_attendedD [OF assms(1), of t s] assms(4) by (cases "t = tid") auto
qed

lemma Cancel_entry: "Cancel tid m = (r, m') \<Longrightarrow> Get t m' = (if t = tid then None else Get t m)"
  by (auto simp: Cancel_def Get_def fire_def split: option.splits)

lemma Pause_entry:
  "Pause tid m = (r, m') \<Longrightarrow> Get t m' = (if t = tid then map_option (\<lambda>i. i\<lparr>TStatus := Status.Paused\<rparr>) (Get tid m) else Get t m)"
  by (auto simp: Pause_def Get_def fire_def split: option.splits)

lemma Resume_entry:
  "Resume tid m = (Inr ctx, m') \<Longrightarrow>
    Get t m' = (if t = tid then map_option (\<lambda>i. i\<lparr>TStatus := Status.Active, TError := []\<rparr>) (Get tid m) else Get t m)"
  "Resume tid m = (Inl e, m') \<Longrightarrow> m' = m"
  by (auto simp: Resume_def Get_def WithCancel_def Let_def split: option.splits if_splits)

lemma all_attended_step:
  assumes "daemon_step T net d d'" and "all_attended d"
  shows "all_attended d'"
  using assms(1)
proof cases
  case (started cl req j now tid ctx m)
  note e = begin_transfer_entry(2) [OF started(3)]
  show ?thesis using all_attended_kept [OF assms(2), of tid m "(tid, Session j ctx) # DmLive d" "DmServer d"] e
    unfolding started(1) by auto
next
  case (reported tid w now p)
  have "map_option TStatus (Get t (track_progress now tid p (DmMgr d))) = map_option TStatus (Get t (DmMgr d))" for t
    using track_progress_same [of t now tid p "DmMgr d"] by (simp add: same_entry_def)
  then show ?thesis unfolding reported(1) using assms(2) by (simp add: all_attended_def)
next
  case (ended as tid j ctx bs clock cl gd res sv m)
  note e = end_transfer_entry [OF ended(3)]
  show ?thesis using all_attended_kept [OF assms(2), of tid m "as @ bs" sv] e ended(2)
    unfolding ended(1) by (auto simp: settled_def)
next
  case (cancelled tid reply m)
  obtain r where c: "Cancel tid (DmMgr d) = (r, m)" using cancelled(2) by (auto simp: handleCancelTransfer_def split: prod.splits sum.splits)
  show ?thesis using all_attended_kept [OF assms(2), of tid m "DmLive d" "DmServer d"] Cancel_entry [OF c]
    unfolding cancelled(1) by auto
next
  case (paused tid reply m)
  obtain r where c: "Pause tid (DmMgr d) = (r, m)" using paused(2) by (auto simp: handlePauseTransfer_def split: prod.splits sum.splits)
  show ?thesis using all_attended_kept [OF assms(2), of tid m "DmLive d" "DmServer d"] Pause_entry [OF c]
    unfolding paused(1) by (cases "Get tid (DmMgr d)") (auto simp: settled_def)
next
  case (resumed tid reply run m)
  show ?thesis
  proof (cases run)
    case None
    then have "m = DmMgr d" using resumed(2) Resume_entry(2) by (auto simp: handleResumeTransfer_def split: option.splits prod.splits sum.splits)
    then show ?thesis using None assms(2) unfolding resumed(1) by (simp add: all_attended_def)
  next
    case (Some c)
    then obtain ctx where "Resume tid (DmMgr d) = (Inr ctx, m)"
      using resumed(2) by (auto simp: handleResumeTransfer_def split: option.splits prod.splits sum.splits)
    note e = Resume_entry(1) [OF this]
    show ?thesis using all_attended_kept [OF assms(2), of tid m "(tid, Resumed) # DmLive d" "DmServer d"] e Some
      unfolding resumed(1) by auto
  qed
next
  case (resumed_ends as tid bs now res sv m)
  note e = end_resumed_entry [OF resumed_ends(3)]
  show ?thesis using all_attended_kept [OF assms(2), of tid m "as @ bs" sv] e resumed_ends(2)
    unfolding resumed_ends(1) by (auto simp: settled_def)
next
  case (elsewhere sv)
  then show ?thesis using assms(2) by (simp add: all_attended_def)
qed

text \<open>In every run of the daemon, with sessions, progress reports, pauses, resumptions and
  cancellations in any order and operations that end in any way, a transfer that is neither completed nor paused has a
  session or a resumed goroutine that still works on it; and when the last of them ends, the transfer is completed
  unless it was cancelled.\<close>

lemma no_transfer_hangs:
  assumes "(daemon_step T net)\<^sup>*\<^sup>* d0 d" and "DmMgr d0 = NewManager"
  shows "(\<forall>tid i. Get tid (DmMgr d) = Some i \<and> TStatus i \<noteq> Status.Completed \<and> TStatus i \<noteq> Status.Paused \<longrightarrow>
      (\<exists>w. (tid, w) \<in> set (DmLive d))) \<and>
    (\<forall>tid j ctx net clock cl gd res sv m i. end_transfer net clock cl gd j tid ctx res (DmServer d, DmMgr d) = (sv, m) \<and>
      Get tid m = Some i \<longrightarrow> TStatus i = Status.Completed)"
proof -
  have "all_attended d0" using assms(2) by (simp add: all_attended_def NewManager_def Get_def)
  with assms(1) have ok: "all_attended d" by (induction rule: rtranclp_induct) (auto intro: all_attended_step)
  have "\<exists>w. (tid, w) \<in> set (DmLive d)"
    if "Get tid (DmMgr d) = Some i" "TStatus i \<noteq> Status.Completed" "TStatus i \<noteq> Status.Paused" for tid i
    using all_attendedD [OF ok, of tid "TStatus i"] that by (auto simp: settled_def)
  moreover have "TStatus i = Status.Completed"
    if "end_transfer net clock cl gd j tid ctx res (DmServer d, DmMgr d) = (sv, m)" "Get tid m = Some i"
    for tid j ctx net clock cl gd res sv m i
    using end_transfer_entry [OF that(1), of tid] that(2) by (cases "Get tid (DmMgr d)") auto
  ultimately show ?thesis by blast
qed

section \<open>What the client reads\<close>

text \<open>A report of the right kind whose counters fit their four bytes.\<close>

fun report_ok :: "bool \<Rightarrow> op_progress \<Rightarrow> bool" where
  "report_ok isDir (FileProgress c t) \<longleftrightarrow> \<not> isDir \<and> 0 \<le> c \<and> c < 2 ^ 32 \<and> 0 \<le> t \<and> t < 2 ^ 32"
| "report_ok isDir (DirectoryProgress fi ft ci ct) \<longleftrightarrow>
     isDir \<and> 0 \<le> fi \<and> fi < 2 ^ 32 \<and> 0 \<le> ft \<and> ft < 2 ^ 32 \<and> 0 \<le> ci \<and> ci < 2 ^ 32 \<and> 0 \<le> ct \<and> ct < 2 ^ 32"

lemma read_file_frames_all:
  assumes "\<forall>p \<in> set ps. report_ok False p" and "fits32 (snd fin)"
  shows "read_file_frames (concat (map progress_bytes ps) @ status_bytes fin @ rest) = Inr ((ps, fin), rest)"
  using assms
proof (induction ps)
  case Nil
  have "ReadProgressOrStatus (status_bytes fin @ rest) = Inr (FinalStatus (fst fin) (snd fin), rest)"
    using read_progress [of "FinalStatus (fst fin) (snd fin)" rest] Nil.prems(2) by (simp add: status_bytes_def)
  then show ?case by (simp add: read_file_frames.simps)
next
  case (Cons p ps)
  then obtain c t where p: "p = FileProgress c t" "0 \<le> c" "c < 2 ^ 32" "0 \<le> t" "t < 2 ^ 32" by (cases p) auto
  then have "ReadProgressOrStatus (progress_bytes p @ concat (map progress_bytes ps) @ status_bytes fin @ rest) =
      Inr (Progress (nat c) (nat t), concat (map progress_bytes ps) @ status_bytes fin @ rest)"
    using read_progress [of "Progress (nat c) (nat t)"] by (simp add: progress_bytes_def nat_less_iff)
  then show ?case using Cons p unfolding list.map concat.simps append_assoc by (subst read_file_frames.simps) simp
qed

lemma read_dir_frames_all:
  assumes "\<forall>p \<in> set ps. report_ok True p" and "fits32 (snd fin)"
  shows "read_dir_frames (concat (map progress_bytes ps) @ status_bytes fin @ rest) = Inr ((ps, fin), rest)"
  using assms
proof (induction ps)
  case Nil
  have "ReadDirProgressOrStatus (status_bytes fin @ rest) = Inr (DirFinalStatus (fst fin) (snd fin), rest)"
    using read_dir_progress [of "DirFinalStatus (fst fin) (snd fin)" rest] Nil.prems(2) by (simp add: status_bytes_def)
  then show ?case by (simp add: read_dir_frames.simps)
next
  case (Cons p ps)
  then obtain a b c d where p: "p = DirectoryProgress a b c d" "0 \<le> a" "a < 2 ^ 32" "0 \<le> b" "b < 2 ^ 32" "0 \<le> c" "c < 2 ^ 32"
    "0 \<le> d" "d < 2 ^ 32" by (cases p) auto
  then have "ReadDirProgressOrStatus (progress_bytes p @ concat (map progress_bytes ps) @ status_bytes fin @ rest) =
      Inr (DirProgress (nat a) (nat b) (nat c) (nat d), concat (map progress_bytes ps) @ status_bytes fin @ rest)"
    using read_dir_progress [of "DirProgress (nat a) (nat b) (nat c) (nat d)"] by (simp add: progress_bytes_def nat_less_iff)
  then show ?case using Cons p unfolding list.map concat.simps append_assoc by (subst read_dir_frames.simps) simp
qed

lemma session_read:
  assumes "\<forall>p \<in> set ps. report_ok isDir p" and "fits32 (snd fin)"
  shows "client_reads isDir (session_bytes (format_id n) ps fin @ rest) = Inr ((format_id n, ps, fin), rest)"
proof -
  have "short (format_id n)" by (simp add: short_def format_id_def)
  then have "ReadTransferID (WriteTransferID (format_id n) @ q) = Inr (format_id n, q)" for q
    by (simp add: ReadTransferID_def WriteTransferID_def wire_reads)
  then show ?thesis
    using read_file_frames_all [of ps fin rest] read_dir_frames_all [of ps fin rest] assms
    by (cases isDir) (simp_all add: client_reads_def session_bytes_def rbind_def rret_def status_bytes_def)
qed

text \<open>A request that was written without an error reaches its handler, with the bytes after it.\<close>

lemma HandleClient_request:
  assumes "sendable r"
  shows "HandleClient E (request_bytes r @ body) s = handle_request E r body s"
proof -
  have read: "read_request (request_bytes r @ body) = Inr (r, body)"
    using request_roundtrip_bytes [OF sendable_bytes [OF assms]] assms by (simp add: sendable_def)
  then obtain opcode rest where b: "request_bytes r @ body = opcode # rest"
    by (cases "request_bytes r @ body") (auto simp: read_request_def read_byte_def read_full_def rbind_def)
  obtain m where m: "read_body opcode = Some m"
    using read by (cases "read_body opcode") (auto simp: b read_request_def read_byte_def read_full_def rbind_def rret_def rfail_def)
  from read_request_body [OF m, of rest] read have "m rest = Inr (r, body)" by (simp add: b)
  then show ?thesis by (simp add: HandleClient_def b m)
qed

lemma job_any_length: "job_of cl r = Some j \<Longrightarrow> job_of cl' r \<noteq> None"
  by (cases r) auto

lemma job_call: "job_of cl r = Some j \<Longrightarrow> \<exists>call. op_of r = Some call"
  by (cases r) auto

text \<open>A session over one connection, from its parts.\<close>

lemma handle_transfer_parts:
  assumes "job_of cl r = Some j" and "op_of r = Some call" and "op call (sv, w) = (res, ps, sv1, w1)"
    and "begin_transfer now j m = (tid, ctx, m1)" and "track_all tick tid 0 ps m1 = m2"
    and "end_transfer net clock (cl' w1) (gd w1) j tid ctx res (sv1, m2) = (sv3, m3)"
  shows "handle_transfer T net now tick clock cl cl' gd op r (sv, m, w) =
    Some (session_bytes tid ps (final_status T r res), sv3, m3, w1)"
  using assms by (simp add: handle_transfer_def Let_def)


section \<open>What is recorded\<close>

lemma put_kept:
  assumes "well_typed d" and "bolt_writable (Ops d)" and "doc_ok b k v"
  defines "d' \<equiv> keep_old d (db_put b k v d)"
  shows "well_typed d'" and "bolt_writable (Ops d')" and "db_get d' b' k' = (if b' = b \<and> k' = k then Some v else db_get d b' k')"
proof -
  obtain e where e: "db_put b k v d = Inr e" using db_put_writable [OF assms(2)] by blast
  then have d': "d' = e" by (simp add: d'_def keep_old_def)
  have "db_ok d" using assms(1) by (simp add: well_typed_def)
  then show "well_typed d'" and "bolt_writable (Ops d')" and "db_get d' b' k' = (if b' = b \<and> k' = k then Some v else db_get d b' k')"
    using d' e assms(1-3) well_typed_put [OF _ _ e] db_put_get [OF e] db_put_ops [OF e] by auto
qed

lemma in_listing:
  assumes "well_typed d"
  shows "db_get d Uploads k = Some (DUpload u) \<Longrightarrow> \<exists>es. StateDB.ListUploads d = Inr es \<and> u \<in> set es"
    and "db_get d Downloads k = Some (DDownload dl) \<Longrightarrow> \<exists>es. StateDB.ListDownloads d = Inr es \<and> dl \<in> set es"
    and "db_get d PublicFiles k = Some (doc.DPublic p) \<Longrightarrow> \<exists>es. ListPublicFiles d = Inr es \<and> p \<in> set es"
    and "db_get d TransferHistory k = Some (DHistory h) \<Longrightarrow> \<exists>es. ListTransferHistory d = Inr es \<and> h \<in> set es"
proof -
  have ok: "db_ok d" using assms by (simp add: well_typed_def)
  have mem: "\<exists>es. r = Inr es \<and> x \<in> set es" if l: "lists_bucket con b d r" and g: "db_get d b k = Some (con x)" and inj: "inj con" for con b r x
  proof -
    obtain es where es: "r = Inr es" "map con es = map snd (db_each d b)" using l by (auto simp: lists_bucket_def)
    have "con x \<in> set (map con es)" using g es(2) db_each_iff [OF ok, of k "con x" b] by (force simp: image_iff)
    then show ?thesis using es(1) inj by (auto dest: injD)
  qed
  have li: "lists_bucket DUpload Uploads d (StateDB.ListUploads d)" "lists_bucket DDownload Downloads d (StateDB.ListDownloads d)"
    "lists_bucket doc.DPublic PublicFiles d (ListPublicFiles d)" "lists_bucket DHistory TransferHistory d (ListTransferHistory d)"
    unfolding StateDB.ListUploads_def StateDB.ListDownloads_def ListPublicFiles_def ListTransferHistory_def
    by (rule lists_bucketI [OF assms]; auto)+
  show "db_get d Uploads k = Some (DUpload u) \<Longrightarrow> \<exists>es. StateDB.ListUploads d = Inr es \<and> u \<in> set es"
    and "db_get d Downloads k = Some (DDownload dl) \<Longrightarrow> \<exists>es. StateDB.ListDownloads d = Inr es \<and> dl \<in> set es"
    and "db_get d PublicFiles k = Some (doc.DPublic p) \<Longrightarrow> \<exists>es. ListPublicFiles d = Inr es \<and> p \<in> set es"
    and "db_get d TransferHistory k = Some (DHistory h) \<Longrightarrow> \<exists>es. ListTransferHistory d = Inr es \<and> h \<in> set es"
    using mem [OF li(1)] mem [OF li(2)] mem [OF li(3)] mem [OF li(4)] by (auto simp: inj_def)
qed

lemma listed:
  assumes "well_typed d"
  shows "\<exists>us ds ps hs. StateDB.ListUploads d = Inr us \<and> StateDB.ListDownloads d = Inr ds \<and> ListPublicFiles d = Inr ps \<and>
    ListTransferHistory d = Inr hs"
proof -
  have "lists_bucket DUpload Uploads d (StateDB.ListUploads d)" "lists_bucket DDownload Downloads d (StateDB.ListDownloads d)"
    "lists_bucket doc.DPublic PublicFiles d (ListPublicFiles d)" "lists_bucket DHistory TransferHistory d (ListTransferHistory d)"
    unfolding StateDB.ListUploads_def StateDB.ListDownloads_def ListPublicFiles_def ListTransferHistory_def
    by (rule lists_bucketI [OF assms]; auto)+
  then show ?thesis by (auto simp: lists_bucket_def)
qed

lemma on_db_some: "SvDb sv = Some d \<Longrightarrow> SvDb (on_db f sv) = Some (keep_old d (f d))"
  by simp

lemma put_kept_ok:
  assumes "well_typed d" and "bolt_writable (Ops d)" and "doc_ok b k v"
  obtains e where "keep_old d (db_put b k v d) = e" "well_typed e" "bolt_writable (Ops e)"
    "\<And>b' k'. db_get e b' k' = (if b' = b \<and> k' = k then Some v else db_get d b' k')"
  using put_kept [OF assms] by blast

text \<open>The entries a finished transfer leaves in the state database.\<close>

definition upload_of :: "int \<Rightarrow> int \<Rightarrow> job \<Rightarrow> upload_entry" where
  "upload_of now sz j = \<lparr>UEKey = JKey j, UEName = extractName (JKey j), UEPath = JPath j, UESize = sz, UEEncrypted = JEncrypted j,
     UEPublic = JPublic j, UEIsDir = JIsDir j, UETimestamp = now\<rparr>"

definition public_of :: "int \<Rightarrow> int \<Rightarrow> job \<Rightarrow> public_file_entry" where
  "public_of now sz j = \<lparr>PFKey = JKey j, PFName = extractName (JKey j), PFSize = sz, PFIsDir = JIsDir j, PFTimestamp = now\<rparr>"

definition download_of :: "int \<Rightarrow> int \<Rightarrow> job \<Rightarrow> download_entry" where
  "download_of now sz j = \<lparr>DEKey = JKey j, DEName = extractName (JKey j),
     DEOutputPath = (case JOut j of None \<Rightarrow> JPath j | Some out \<Rightarrow> out), DESize = sz, DEEncrypted = JEncrypted j,
     DEIsDir = JIsDir j, DETimestamp = now\<rparr>"

text \<open>The buckets a finished transfer writes its entry to.\<close>

definition recorded_in :: "job \<Rightarrow> bucket set" where
  "recorded_in j = (case JDir j of
     Direction.Upload \<Rightarrow> {Uploads} \<union> (if JPublic j then {PublicFiles} else {}) | Direction.Download \<Rightarrow> {Downloads})"

lemma record_success_db:
  assumes "SvDb sv = Some d" and "well_typed d" and "bolt_writable (Ops d)" and "clock 0 \<noteq> 0"
    and "record_success net clock j tid sz (sv, m) = (sv', m')"
  obtains d' where "SvDb sv' = Some d'" "well_typed d'" "bolt_writable (Ops d')"
    "\<And>b k. k \<noteq> JKey j \<or> b \<notin> recorded_in j \<Longrightarrow> db_get d' b k = db_get d b k"
    "JDir j = Direction.Download \<Longrightarrow> db_get d' Downloads (JKey j) = Some (DDownload (download_of (clock 0) sz j))"
    "JDir j = Direction.Upload \<Longrightarrow> db_get d' Uploads (JKey j) = Some (DUpload (upload_of (clock 0) sz j))"
    "JDir j = Direction.Upload \<and> JPublic j \<Longrightarrow> db_get d' PublicFiles (JKey j) = Some (doc.DPublic (public_of (clock 1) sz j))"
proof (cases "JDir j")
  case Download
  obtain e where e: "keep_old d (db_put Downloads (JKey j) (DDownload (download_of (clock 0) sz j)) d) = e" "well_typed e" "bolt_writable (Ops e)"
    "\<And>b' k'. db_get e b' k' = (if b' = Downloads \<and> k' = JKey j then Some (DDownload (download_of (clock 0) sz j)) else db_get d b' k')"
    by (rule put_kept_ok [OF assms(2,3), of Downloads "JKey j" "DDownload (download_of (clock 0) sz j)"])
      (auto simp: download_of_def assms(4))
  have "sv' = on_db (RecordDownload (clock 0) (download_of (clock 0) sz j)) sv"
    using assms(5) Download by (simp add: record_success_def recordDownloadState_def download_of_def)
  then have "SvDb sv' = Some e" using assms(1) e(1) by (simp add: on_db_def RecordDownload_def Let_def download_of_def stamp_def assms(4))
  then show ?thesis by (rule that [OF _ e(2,3)]) (auto simp: e(4) Download recorded_in_def)
next
  case Upload
  obtain e where e: "keep_old d (db_put Uploads (JKey j) (DUpload (upload_of (clock 0) sz j)) d) = e" "well_typed e" "bolt_writable (Ops e)"
    "\<And>b' k'. db_get e b' k' = (if b' = Uploads \<and> k' = JKey j then Some (DUpload (upload_of (clock 0) sz j)) else db_get d b' k')"
    by (rule put_kept_ok [OF assms(2,3), of Uploads "JKey j" "DUpload (upload_of (clock 0) sz j)"])
      (auto simp: upload_of_def assms(4))
  obtain f where f: "keep_old e (db_put PublicFiles (JKey j) (doc.DPublic (public_of (clock 1) sz j)) e) = f" "well_typed f" "bolt_writable (Ops f)"
    "\<And>b' k'. db_get f b' k' = (if b' = PublicFiles \<and> k' = JKey j then Some (doc.DPublic (public_of (clock 1) sz j)) else db_get e b' k')"
    by (rule put_kept_ok [OF e(2,3), of PublicFiles "JKey j" "doc.DPublic (public_of (clock 1) sz j)"])
      (auto simp: public_of_def)
  let ?sv = "on_db (RecordUpload (clock 0) (upload_of (clock 0) sz j)) sv"
  have 1: "SvDb ?sv = Some e" using assms(1) e(1) by (simp add: on_db_def RecordUpload_def Let_def upload_of_def stamp_def assms(4))
  note sv' = assms(5) [unfolded record_success_def prod.case Upload Direction.case recordUploadState_def, folded upload_of_def public_of_def]
  have "sv' = (if JPublic j then UpdatePublicCatalogMetadata net (on_db (AddPublicFile (public_of (clock 1) sz j)) ?sv) else ?sv)"
    using sv' assms(1) by (cases "JPublic j") (simp_all add: Let_def upload_of_def public_of_def)
  moreover have "SvDb (on_db (AddPublicFile (public_of (clock 1) sz j)) ?sv) = Some f"
    using on_db_some [OF 1, of "AddPublicFile (public_of (clock 1) sz j)"] f(1) by (simp add: AddPublicFile_def public_of_def)
  ultimately have "SvDb sv' = Some (if JPublic j then f else e)" using 1 by simp
  then show ?thesis by (rule that) (auto simp: e f Upload recorded_in_def)
qed

lemma completeAndRecordTransfer_db:
  assumes "Get tid m = Some i" and "SvDb sv = Some d" and "well_typed d" and "bolt_writable (Ops d)" and "now \<noteq> 0"
    and "completeAndRecordTransfer now tid (sv, m) = (sv', m')"
  obtains d' where "SvDb sv' = Some d'" "well_typed d'" "db_get d' TransferHistory (history_key (history_of now i)) = Some (DHistory (history_of now i))"
    "\<And>b k. (b, k) \<noteq> (TransferHistory, history_key (history_of now i)) \<Longrightarrow> db_get d' b k = db_get d b k"
proof -
  have dn: "stamp now (HDoneAt (history_of now i)) = HDoneAt (history_of now i)" "HDoneAt (history_of now i) = now"
    using assms(5) by (simp_all add: history_of_def stamp_def)
  then have same: "(history_of now i)\<lparr>HDoneAt := stamp now (HDoneAt (history_of now i))\<rparr> = history_of now i" by simp
  obtain e where e: "keep_old d (db_put TransferHistory (history_key (history_of now i)) (DHistory (history_of now i)) d) = e" "well_typed e"
    "\<And>b' k'. db_get e b' k' = (if b' = TransferHistory \<and> k' = history_key (history_of now i) then Some (DHistory (history_of now i)) else db_get d b' k')"
    by (rule put_kept_ok [OF assms(3,4), of TransferHistory "history_key (history_of now i)" "DHistory (history_of now i)"])
      (auto simp: dn(2) assms(5))
  have "SvDb sv' = Some e"
    using assms(1,2,6) e(1) by (auto simp: completeAndRecordTransfer_def on_db_def RecordTransfer_def Let_def same)
  then show ?thesis by (rule that [OF _ e(2)]) (auto simp: e(3))
qed

text \<open>C39. What a session leaves behind when it ends, whatever happened in between, unless its transfer was cancelled; the
  node has a state database whose writes succeed and whose documents have the type of their bucket, and no reading of
  the clock is the zero time. The transfer is then completed in the registry and the history lists it with its final
  size. Nothing else in the database changes when the operation failed; when it succeeded, only the entries of its key
  in the listing of its direction and, for a public upload, in the public catalog, which hold exactly what the
  request and the operation say.\<close>

theorem finished_transfer_recorded:
  fixes sv :: "'db server"
  defines "failed \<equiv> \<lambda>res. \<exists>e. res = OpError e"
  assumes "Get tid m = Some i" and "SvDb sv = Some d" and "well_typed d" and "bolt_writable (Ops d)" and "\<And>n. clock n \<noteq> 0"
    and "end_transfer net clock cl gd j tid ctx res (sv, m) = (sv', m')"
  shows "map_option TStatus (Get tid m') = Some Status.Completed \<and>
    (\<exists>d' hs us ds ps. SvDb sv' = Some d' \<and> ListTransferHistory d' = Inr hs \<and> StateDB.ListUploads d' = Inr us \<and>
      StateDB.ListDownloads d' = Inr ds \<and> ListPublicFiles d' = Inr ps \<and>
      history_of (clock 2) (if failed res \<or> \<not> JIsDir j \<and> JDir j = Direction.Upload then i else i\<lparr>TSize := final_size cl gd j\<rparr>) \<in> set hs \<and>
      (\<forall>b k. (b, k) \<noteq> (TransferHistory, history_key (history_of (clock 2) i)) \<and> (failed res \<or> k \<noteq> JKey j \<or> b \<notin> recorded_in j) \<longrightarrow>
        db_get d' b k = db_get d b k) \<and>
      (\<not> failed res \<longrightarrow>
        (Uploads \<in> recorded_in j \<longrightarrow> upload_of (clock 0) (final_size cl gd j) j \<in> set us) \<and>
        (Downloads \<in> recorded_in j \<longrightarrow> download_of (clock 0) (final_size cl gd j) j \<in> set ds) \<and>
        (PublicFiles \<in> recorded_in j \<longrightarrow> public_of (clock 1) (final_size cl gd j) j \<in> set ps)))"
proof -
  let ?sz = "final_size cl gd j"
  define i' where "i' = (if failed res \<or> \<not> JIsDir j \<and> JDir j = Direction.Upload then i else i\<lparr>TSize := ?sz\<rparr>)"
  obtain sv1 m1 where 1: "(case res of OpError e \<Rightarrow> (sv, m) | _ \<Rightarrow> record_success net clock j tid ?sz (sv, m)) = (sv1, m1)"
    by fastforce
  obtain sv2 m2 where 2: "completeAndRecordTransfer (clock 2) tid (sv1, m1) = (sv2, m2)" by fastforce
  have sv': "sv' = sv2" using assms(7) unfolding end_transfer_def 1 2 Let_def by simp
  have info: "Get tid m1 = Some i'"
    using 1 assms(2) by (cases "JDir j") (auto simp: record_success_def i'_def failed_def split: op_result.splits if_splits)
  have run: "failed res \<or> record_success net clock j tid ?sz (sv, m) = (sv1, m1)" and stay: "failed res \<Longrightarrow> sv1 = sv"
    using 1 by (auto simp: failed_def split: op_result.splits)
  obtain d1 where d1: "SvDb sv1 = Some d1" "well_typed d1" "bolt_writable (Ops d1)"
    "\<And>b k. failed res \<or> k \<noteq> JKey j \<or> b \<notin> recorded_in j \<Longrightarrow> db_get d1 b k = db_get d b k"
    "\<not> failed res \<and> Downloads \<in> recorded_in j \<Longrightarrow> db_get d1 Downloads (JKey j) = Some (DDownload (download_of (clock 0) ?sz j))"
    "\<not> failed res \<and> Uploads \<in> recorded_in j \<Longrightarrow> db_get d1 Uploads (JKey j) = Some (DUpload (upload_of (clock 0) ?sz j))"
    "\<not> failed res \<and> PublicFiles \<in> recorded_in j \<Longrightarrow> db_get d1 PublicFiles (JKey j) = Some (doc.DPublic (public_of (clock 1) ?sz j))"
  proof (cases "failed res")
    case True
    then show ?thesis using stay assms(3-5) by (intro that [of d]) auto
  next
    case False
    then have r: "record_success net clock j tid ?sz (sv, m) = (sv1, m1)" using run by simp
    show ?thesis
      by (rule record_success_db [OF assms(3-5) assms(6) r], rule that)
        (auto simp: False recorded_in_def split: Direction.splits if_splits)
  qed
  obtain d2 where d2: "SvDb sv2 = Some d2" "well_typed d2"
    "db_get d2 TransferHistory (history_key (history_of (clock 2) i')) = Some (DHistory (history_of (clock 2) i'))"
    "\<And>b k. (b, k) \<noteq> (TransferHistory, history_key (history_of (clock 2) i')) \<Longrightarrow> db_get d2 b k = db_get d1 b k"
    using completeAndRecordTransfer_db [OF info d1(1-3) assms(6) 2] by blast
  obtain us ds ps hs where l: "StateDB.ListUploads d2 = Inr us" "StateDB.ListDownloads d2 = Inr ds" "ListPublicFiles d2 = Inr ps"
    "ListTransferHistory d2 = Inr hs" using listed [OF d2(2)] by blast
  have dn: "map_option TStatus (Get tid m') = Some Status.Completed"
    using end_transfer_entry [OF assms(7), of tid] assms(2) by simp
  have h: "history_of (clock 2) i' \<in> set hs" using in_listing(4) [OF d2(2) d2(3)] l(4) by simp
  have "history_key (history_of (clock 2) i') = history_key (history_of (clock 2) i)"
    by (simp add: history_key_def history_of_def i'_def)
  then have frame: "(b, k) \<noteq> (TransferHistory, history_key (history_of (clock 2) i)) \<and> (failed res \<or> k \<noteq> JKey j \<or> b \<notin> recorded_in j) \<longrightarrow>
      db_get d2 b k = db_get d b k" for b k
    using d1(4) [of k b] d2(4) by auto
  have u: "upload_of (clock 0) ?sz j \<in> set us" if "\<not> failed res" "Uploads \<in> recorded_in j"
    using in_listing(1) [OF d2(2)] d1(6) that l(1) d2(4) by fastforce
  have dl: "download_of (clock 0) ?sz j \<in> set ds" if "\<not> failed res" "Downloads \<in> recorded_in j"
    using in_listing(2) [OF d2(2)] d1(5) that l(2) d2(4) by fastforce
  have p: "public_of (clock 1) ?sz j \<in> set ps" if "\<not> failed res" "PublicFiles \<in> recorded_in j"
    using in_listing(3) [OF d2(2)] d1(7) that l(3) d2(4) by fastforce
  show ?thesis unfolding i'_def [symmetric] sv' using dn d2(1) l h frame u dl p by blast
qed

section \<open>What pausing and failing come to\<close>

text \<open>The session of a paused transfer marks it completed when it ends, so it cannot be resumed.\<close>

lemma pause_undone:
  assumes "Pause tid m = (Inr (), m1)" and "end_transfer net clock cl gd j tid ctx res (sv, m1) = (sv', m')"
  shows "handleResumeTransfer T tid m' = ((False, TxTransfer T (NotPaused tid (Status_String Status.Completed))), None, m')"
proof -
  have "Get tid m1 \<noteq> None" using assms(1) by (auto simp: Pause_def Get_def fire_def split: option.splits)
  then obtain i where i: "Get tid m' = Some i" "TStatus i = Status.Completed"
    using end_transfer_entry [OF assms(2), of tid] by auto
  then have "Resume tid m' = (Inl (NotPaused tid (Status_String Status.Completed)), m')"
    by (auto simp: Resume_def Get_def split: option.splits)
  then show ?thesis using i(1) by (simp add: handleResumeTransfer_def)
qed

text \<open>A resumed upload of an encrypted directory is stored without encryption, and a resumed download of an encrypted file
  has no key.\<close>

lemma resumed_without_key:
  assumes "begin_transfer now j m = (tid, ctx, m1)" and "Get tid m1 = Some i"
  shows "job_of cl (ipc_request.ECDHDirUpload r) = Some j \<Longrightarrow>
      op_of (ipc_request.ECDHDirUpload r) \<noteq> resume_call i \<and>
      resume_call i = Some (CallStoreDir (ecdh_dir_upload_request.DStorageKey r) (DDirPath r) None)"
    and "job_of cl (ipc_request.ECDHDownloadToFile key path dek) = Some j \<Longrightarrow> resume_call i = Some (CallGetFile key path None)"
  using begin_transfer_entry(2) [OF assms(1), of tid] assms(2) by (auto simp: resume_call_def fresh_info_def)

text \<open>The history records a transfer whose operation failed as completed.\<close>

lemma failure_recorded_as_done:
  assumes "begin_transfer now j m = (tid, ctx, m1)" and "Get tid m1 = Some i"
  shows "transfer_history_entry.HStatus (history_of now' i) = 3 \<and> HError (history_of now' i) = []"
  using begin_transfer_entry(2) [OF assms(1), of tid] assms(2) by (auto simp: history_of_def fresh_info_def)

section \<open>The listings\<close>

definition listed_before :: "transfer_row \<Rightarrow> transfer_row \<Rightarrow> bool" where
  "listed_before a b \<longleftrightarrow> (row_done a \<longrightarrow> row_done b \<and> XStartedAt b \<le> XStartedAt a)"

lemma mset_insert_row [simp]: "mset (insert_row x ys) = add_mset x (mset ys)"
  by (induction ys) auto

lemma set_insert_row [simp]: "set (insert_row x ys) = insert x (set ys)"
  by (metis mset_insert_row set_mset_add_mset_insert set_mset_mset)

lemma insert_row_sorted: "sorted_wrt listed_before ys \<Longrightarrow> sorted_wrt listed_before (insert_row x ys)"
proof (induction ys)
  case (Cons y ys)
  then show ?case by (cases "row_less y x") (auto simp: listed_before_def row_less_def split: if_splits)
qed simp

lemma sort_rows_props: "mset (sort_rows rows) = mset rows \<and> sorted_wrt listed_before (sort_rows rows)"
  by (induction rows) (simp_all add: sort_rows_def insert_row_sorted)

text \<open>Every registered transfer and every older one is listed once, those at work first, then the newest.\<close>

lemma transfer_listing_exact:
  assumes "SvDb sv = Some d" and "well_typed d"
  shows "\<exists>hs. ListTransferHistory d = Inr hs \<and>
    mset (handleListTransfers (sv, m)) = mset (map active_row (Transfers.List m)) +
      mset (map history_row (filter (\<lambda>h. HID h \<notin> TID ` set (Transfers.List m)) hs)) \<and>
    sorted_wrt listed_before (handleListTransfers (sv, m))"
proof -
  obtain hs where hs: "ListTransferHistory d = Inr hs" using listed [OF assms(2)] by blast
  have ids: "set (map XID (map active_row (Transfers.List m))) = TID ` set (Transfers.List m)"
    by (auto simp: active_row_def image_comp)
  have "handleListTransfers (sv, m) = sort_rows (map active_row (Transfers.List m) @
      map history_row (filter (\<lambda>h. HID h \<notin> TID ` set (Transfers.List m)) hs))"
    unfolding handleListTransfers_def prod.case Let_def ids by (simp add: assms(1) hs)
  then show ?thesis using hs sort_rows_props by (metis mset_append)
qed

text \<open>The list of peers has one row for each fingerprint of a node that is not passed over, and no other row.\<close>

lemma peer_row_fingerprint: "PrFingerprint (peer_row_of n) = fingerprint_of n"
  by (simp add: peer_row_of_def fingerprint_of_def go_get_def Let_def split: option.split)

definition indexes :: "(string, nat) gomap \<Rightarrow> peer_row list \<Rightarrow> bool" where
  "indexes seen rows \<longleftrightarrow> (\<forall>fp. case map_of seen fp of
     None \<Rightarrow> fp \<notin> PrFingerprint ` set rows | Some idx \<Rightarrow> idx < length rows \<and> PrFingerprint (rows ! idx) = fp)"

lemma indexes_new:
  assumes "indexes seen rows" and "map_of seen (PrFingerprint p) = None"
  shows "indexes (AList.update (PrFingerprint p) (length rows) seen) (rows @ [p])"
  unfolding indexes_def
proof
  fix fp
  show "case map_of (AList.update (PrFingerprint p) (length rows) seen) fp of
      None \<Rightarrow> fp \<notin> PrFingerprint ` set (rows @ [p]) | Some idx \<Rightarrow> idx < length (rows @ [p]) \<and> PrFingerprint ((rows @ [p]) ! idx) = fp"
    using assms(1) [unfolded indexes_def, rule_format, of fp] assms(2)
    by (cases "fp = PrFingerprint p") (auto simp: update_conv' nth_append split: option.splits)
qed

lemma peer_rows_exact:
  assumes "distinct (map PrFingerprint rows)" and "indexes seen rows"
  shows "distinct (map PrFingerprint (peer_rows net sv seen rows ns)) \<and>
    PrFingerprint ` set (peer_rows net sv seen rows ns) =
      PrFingerprint ` set rows \<union> fingerprint_of ` {n \<in> set ns. \<not> peer_skipped net sv n} \<and>
    set (peer_rows net sv seen rows ns) \<subseteq> set rows \<union> peer_row_of ` {n \<in> set ns. \<not> peer_skipped net sv n}"
  using assms
proof (induction ns arbitrary: seen rows)
  case (Cons n ns)
  show ?case
  proof (cases "peer_skipped net sv n")
    case True
    then have "{x \<in> set (n # ns). \<not> peer_skipped net sv x} = {x \<in> set ns. \<not> peer_skipped net sv x}" by auto
    then show ?thesis using Cons.IH [OF Cons.prems] True by simp
  next
    case False
    let ?p = "peer_row_of n"
    have ns: "{x \<in> set (n # ns). \<not> peer_skipped net sv x} = insert n {x \<in> set ns. \<not> peer_skipped net sv x}" using False by auto
    show ?thesis
    proof (cases "map_of seen (PrFingerprint ?p)")
      case None
      then have new: "PrFingerprint ?p \<notin> PrFingerprint ` set rows"
        using Cons.prems(2) [unfolded indexes_def, rule_format, of "PrFingerprint ?p"] by simp
      then have "distinct (map PrFingerprint (rows @ [?p]))" using Cons.prems(1) by simp
      from Cons.IH [OF this indexes_new [OF Cons.prems(2) None]] show ?thesis
        using False None unfolding ns by (auto simp: Let_def peer_row_fingerprint)
    next
      case (Some idx)
      let ?rows = "if length (PrAddr ?p) < length (PrAddr (rows ! idx)) then rows[idx := ?p] else rows"
      have idx: "idx < length rows" "PrFingerprint (rows ! idx) = PrFingerprint ?p"
        using Cons.prems(2) [unfolded indexes_def, rule_format, of "PrFingerprint ?p"] Some by simp_all
      have same: "map PrFingerprint ?rows = map PrFingerprint rows"
        using idx by (simp add: map_update) (metis length_map list_update_id nth_map)
      have "indexes seen ?rows"
        using Cons.prems(2) same unfolding indexes_def by (metis (no_types, lifting) image_set length_map nth_map option.case_eq_if)
      moreover have "set ?rows \<subseteq> insert ?p (set rows)" using set_update_subset_insert [of rows idx ?p] by auto
      moreover have "PrFingerprint ` set ?rows = PrFingerprint ` set rows" using same by (metis image_set)
      moreover have "PrFingerprint ?p \<in> PrFingerprint ` set rows" using idx by (metis imageI nth_mem)
      ultimately show ?thesis
        using Cons.IH [of ?rows seen] Cons.prems(1) same False Some unfolding ns by (auto simp: Let_def peer_row_fingerprint)
    qed
  qed
qed auto

lemma peer_listing_exact:
  assumes "SvTable sv = Some t"
  shows "distinct (map PrFingerprint (handleListPeers net sv)) \<and>
    PrFingerprint ` set (handleListPeers net sv) = fingerprint_of ` {n \<in> set (cs_AllNodes t). \<not> peer_skipped net sv n} \<and>
    set (handleListPeers net sv) \<subseteq> peer_row_of ` {n \<in> set (cs_AllNodes t). \<not> peer_skipped net sv n}"
  using peer_rows_exact [of "[]" "[]" net sv "cs_AllNodes t"] assms by (simp add: handleListPeers_def indexes_def)

section \<open>A share gives its recipient the key\<close>

lemma find_append: "find P xs = None \<Longrightarrow> find P (xs @ ys) = find P ys"
  by (induction xs) (auto split: if_splits)

lemma find_append_Some: "find P xs = Some x \<Longrightarrow> find P (xs @ ys) = Some x"
  by (induction xs) (auto split: if_splits)

lemma no_access_find: "\<not> has_access pub es \<longleftrightarrow> find (\<lambda>e. RecipientPubKey e = pub) es = None"
  by (auto simp: has_access_def find_None_iff)

lemma UnwrapDEK_nonempty: "UnwrapDEK K A a pub [] \<noteq> Inr dek"
  by (auto simp: UnwrapDEK_def NonceSize_def split: option.splits sum.splits)

text \<open>The entry the owner makes: the recipient unwraps the key from it.\<close>

lemma grant_entry_exact:
  assumes "aead_ok (KeAead ke)" and "kdf_ok (KeKdf ke) (IdX25519Priv me) (IdX25519Pub me) b pubB"
    and "KeNonce ke = Some nonce" and "length nonce = NonceSize"
    and "find (\<lambda>e. RecipientPubKey e = hex_encode (IdX25519Pub me)) entries = Some mine"
    and "UnwrapDEK (KeKdf ke) (KeAead ke) (IdX25519Priv me) (hex_encode (IdX25519Pub me)) (WrappedDEK mine) = Inr dek"
  obtains entry w where "entry = \<lparr>RecipientPubKey = hex_encode pubB, WrappedDEK = hex_encode w\<rparr>"
    "UnwrapDEK (KeKdf ke) (KeAead ke) b (hex_encode (IdX25519Pub me)) (WrappedDEK entry) = Inr dek"
    "grant_entry T ke me key (hex_encode (IdX25519Pub me)) entries (hex_encode pubB) = Inr (entry,
       SignManifest (KeSigner ke) (IdEd25519Priv me) \<lparr>PAccessList = map envelope_entry (entries @ [entry]), PEncrypted = True,
         PFileKey = key, POwnerPubKey = hex_encode (IdX25519Pub me)\<rparr>)"
proof -
  obtain e where e: "WrapDEKForRecipient (KeKdf ke) (KeAead ke) (Some nonce) (IdX25519Priv me) (hex_encode pubB) dek = Inr e"
    "KRecipientPubKey e = hex_encode pubB" "UnwrapDEK (KeKdf ke) (KeAead ke) b (hex_encode (IdX25519Pub me)) (KWrappedDEK e) = Inr dek"
    using wrapped_key_exact [OF assms(1,2,4), of dek "[]" dek] by blast
  obtain w where w: "KWrappedDEK e = hex_encode w"
    using e(1) by (auto simp: WrapDEKForRecipient_def Let_def split: option.splits sum.splits if_splits)
  have "WrappedDEK mine \<noteq> []" using assms(6) UnwrapDEK_nonempty by metis
  then show ?thesis
    by (intro that [of "\<lparr>RecipientPubKey = KRecipientPubKey e, WrappedDEK = KWrappedDEK e\<rparr>" w])
      (simp_all add: grant_entry_def assms e(1,2) e(3) [unfolded w] w Let_def)
qed

text \<open>A manifest with one more entry; the writer of these texts is \<open>hex.EncodeToString\<close>.\<close>

definition granted :: "identity \<Rightarrow> chunk_manifest \<Rightarrow> byte list \<Rightarrow> byte list \<Rightarrow> chunk_manifest" where
  "granted you man wrapped sig =
     grant_file \<lparr>RecipientPubKey = hex_encode (IdX25519Pub you), WrappedDEK = hex_encode wrapped\<rparr> (hex_encode sig) man"

text \<open>C40. Sharing an encrypted file gives its recipient the key. The user's identity is at hand, the key of the file has its
  fingerprint as prefix and is no reserved key, the manifest of the file is in the local store, is encrypted, belongs
  to this identity, and its owner can unwrap the data encryption key; the recipient is not on the access list yet.
  The ciphers, the key agreement and the signature scheme obey their laws, random bytes are available, and the
  extended manifest can be written and survives its JSON. Then \<open>grantAccessToRecipient\<close> succeeds and adds exactly one
  entry; from the manifest the daemon hands out afterwards, the client of the recipient unwraps the key of the file,
  the owner still does, and the new signature verifies under the owner's key over the new access list. The manifests
  of other files stay as they were, the rest of the server only sends, and a second grant changes nothing.\<close>

theorem granted_share_readable:
  fixes m :: "'db bolt_meta"
  defines "info \<equiv> \<lambda>man. manifest_info man False"
  assumes "KeIdentity ke = Some me" and "prefix (IdFingerprint me @ ''/'') key" and "\<not> reserved key"
    and "aead_ok (KeAead ke)" and "kdf_ok (KeKdf ke) (IdX25519Priv me) (IdX25519Pub me) (IdX25519Priv you) (IdX25519Pub you)"
    and "KeNonce ke = Some nonce" and "length nonce = NonceSize"
    and "length edPub = 32"
    and "\<forall>msg. length (ed_Sign (KeSigner ke) (IdEd25519Priv me) msg) = 64 \<and>
      ed_Verify (KeSigner ke) edPub msg (ed_Sign (KeSigner ke) (IdEd25519Priv me) msg)"
    and "kv_ok (BMOps m)"
    and "\<forall>wrapped sig. \<exists>m'. MSetManifest bm_ops m key (granted you man wrapped sig) = (None, m')"
    and "\<forall>wrapped sig. json_ok (BMManifest m) (granted you man wrapped sig)"
    and "bm_GetManifest m key = Some man" and "MEncrypted man" and "MOwnerPubKey man = hex_encode (IdX25519Pub me)"
    and "unwrapDEK (KeKdf ke) (KeAead ke) me (info man) = Inr dek"
    and "\<not> has_access (hex_encode (IdX25519Pub you)) (MAccessList man)"
    and "0 \<le> ring_ReplicationFactor (SvRing sv)"
  shows "\<exists>m' evs man' entry. grantAccessToRecipient T ke net J JD bm_ops getman getmeta key False (hex_encode (IdX25519Pub you)) (m, sv) =
      (None, m', sv\<lparr>SvOut := SvOut sv @ evs\<rparr>) \<and>
    bm_GetManifest m' key = Some man' \<and> MAccessList man' = MAccessList man @ [entry] \<and>
    unwrapDEK (KeKdf ke) (KeAead ke) you (info man') = Inr dek \<and> unwrapDEK (KeKdf ke) (KeAead ke) me (info man') = Inr dek \<and>
    VerifyManifest (KeSigner ke) (hex_encode edPub) \<lparr>PAccessList = map envelope_entry (MAccessList man'), PEncrypted = True,
      PFileKey = key, POwnerPubKey = MOwnerPubKey man'\<rparr> (MSignature man') = Inr True \<and>
    (\<forall>k. k \<noteq> key \<longrightarrow> bm_GetManifest m' k = bm_GetManifest m k) \<and>
    (\<forall>sv'. grantAccessToRecipient T ke net J JD bm_ops getman getmeta key False (hex_encode (IdX25519Pub you)) (m', sv') =
       (None, m', sv'))"
proof -
  let ?pub = "hex_encode (IdX25519Pub you)" and ?own = "hex_encode (IdX25519Pub me)"
  obtain mine where mine: "find (\<lambda>e. RecipientPubKey e = ?own) (MAccessList man) = Some mine"
    "UnwrapDEK (KeKdf ke) (KeAead ke) (IdX25519Priv me) ?own (WrappedDEK mine) = Inr dek"
    using assms(15,16,17) by (auto simp: unwrapDEK_def info_def manifest_info_def split: option.splits sum.splits)
  obtain entry w where entry: "entry = \<lparr>RecipientPubKey = ?pub, WrappedDEK = hex_encode w\<rparr>" "UnwrapDEK (KeKdf ke) (KeAead ke) (IdX25519Priv you) ?own (WrappedDEK entry) = Inr dek"
    "grant_entry T ke me key ?own (MAccessList man) ?pub = Inr (entry,
       SignManifest (KeSigner ke) (IdEd25519Priv me) \<lparr>PAccessList = map envelope_entry (MAccessList man @ [entry]), PEncrypted = True,
         PFileKey = key, POwnerPubKey = ?own\<rparr>)" (is "_ = Inr (_, ?sig)")
    using grant_entry_exact [OF assms(5,6,7,8) mine] by blast
  let ?man = "grant_file entry ?sig man"
  have sel: "MGetManifest bm_ops = bm_GetManifest" by (simp add: bm_ops_def)
  define sg where "sg = ed_Sign (KeSigner ke) (IdEd25519Priv me) (sha (KeSigner ke) (bytes_of (payload_json (KeSigner ke)
      \<lparr>PAccessList = map envelope_entry (MAccessList man @ [entry]), PEncrypted = True, PFileKey = key, POwnerPubKey = ?own\<rparr>)))"
  have man: "?man = granted you man w sg" by (simp add: granted_def sg_def SignManifest_def entry(1))
  obtain m' where m': "MSetManifest bm_ops m key ?man = (None, m')" using assms(12) unfolding man by blast
  obtain evs where evs: "replicateManifest net J key (normalizeAddr (NP6 net) (NAddr net)) ?man sv = Some (sv\<lparr>SvOut := SvOut sv @ evs\<rparr>)"
    using replicateManifest_sends [OF assms(19)] by blast
  have added: "AddAccessEntry net J JD bm_ops getman getmeta key False entry ?sig (m, sv) = ((True, None), m', sv\<lparr>SvOut := SvOut sv @ evs\<rparr>)"
    using assms(14,15,18) m' evs entry(1) by (simp add: AddAccessEntry_def InspectManifest_def sel Let_def)
  have inv: "BMOps m = BMOps m \<and> kv_ok (BMOps m)" using assms(11) by simp
  have after: "bm_GetManifest m' key = Some ?man" "\<forall>k. k \<noteq> key \<longrightarrow> bm_GetManifest m' k = bm_GetManifest m k"
    using bolt_at.grant_access_file [OF inv _ assms(15) _ _ added] assms(13) [folded man] assms(14,18) entry(1) man by (simp_all add: sel)
  have "grantAccessToRecipient T ke net J JD bm_ops getman getmeta key False ?pub (m, sv) = (None, m', sv\<lparr>SvOut := SvOut sv @ evs\<rparr>)"
    using assms(2,3,14,15,16,18) entry(3) added
    by (simp add: grantAccessToRecipient_def access_of_def InspectManifest_def sel)
  moreover have "unwrapDEK (KeKdf ke) (KeAead ke) you (info ?man) = Inr dek"
    using assms(15,16,18) entry(1,2) by (simp add: unwrapDEK_def info_def manifest_info_def grant_file_def no_access_find find_append)
  moreover have "unwrapDEK (KeKdf ke) (KeAead ke) me (info ?man) = Inr dek"
    using assms(15,16) mine by (simp add: unwrapDEK_def info_def manifest_info_def grant_file_def find_append_Some)
  moreover have "VerifyManifest (KeSigner ke) (hex_encode edPub) \<lparr>PAccessList = map envelope_entry (MAccessList ?man), PEncrypted = True,
      PFileKey = key, POwnerPubKey = MOwnerPubKey ?man\<rparr> (MSignature ?man) = Inr True"
    using SignManifest_verifies [OF assms(9,10)] assms(16) by (simp add: grant_file_def)
  moreover have "grantAccessToRecipient T ke net J JD bm_ops getman getmeta key False ?pub (m', sv') = (None, m', sv')" for sv'
    using assms(2,3,15) after(1) entry(1)
    by (simp add: grantAccessToRecipient_def access_of_def InspectManifest_def sel grant_file_def has_access_def)
  moreover have "MAccessList ?man = MAccessList man @ [entry]" by (simp add: grant_file_def)
  ultimately show ?thesis using after by blast
qed

section \<open>Instances\<close>

definition demo_texts :: texts where
  "demo_texts = \<lparr>TxRead = (\<lambda>e. []), TxTransfer = (\<lambda>e. []), TxNet = (\<lambda>e. []), TxState = (\<lambda>e. []), TxDelete = (\<lambda>e. []), TxCatalog = (\<lambda>e. []),
     TxShare = (\<lambda>e. []), TxAccess = (\<lambda>e. []), TxCrypto = (\<lambda>e. []), TxQuote = (\<lambda>s. s)\<rparr>"

definition demo_job :: job where
  "demo_job = \<lparr>JDir = Direction.Upload, JKey = ''me/d'', JPath = ''p'', JSize = 0, JIsDir = True, JEncrypted = False, JPublic = True,
     JOut = None, JDek = None\<rparr>"

definition demo_client :: "((bucket \<Rightarrow> (string \<times> doc) list), ((meta_bucket \<times> string) \<times> byte list) list bolt_meta) client_env" where
  "demo_client =
     \<lparr>CeTexts = demo_texts, CeNet = demo_net,
      CeKeys = \<lparr>KeIdentity = None, KeKdf = demo_kdf, KeAead = demo_aead, KeSigner = \<lparr>payload_json = (\<lambda>p. []), sha = id, ed_Sign = (\<lambda>k m. []), ed_Verify = (\<lambda>k m s. True)\<rparr>, KeNonce = None\<rparr>,
      CePrint = \<lparr>PrUploads = (\<lambda>x. []), PrDownloads = (\<lambda>x. []), PrCatalog = (\<lambda>x. []), PrPeers = (\<lambda>x. []), PrNode = (\<lambda>x. []),
        PrTransfers = (\<lambda>x. []), PrResults = (\<lambda>x. []), PrBrowse = (\<lambda>x. []), PrInbox = (\<lambda>x. [])\<rparr>,
      CeManifests = lossless_json, CeDirs = demo_dir_json, CeCatalogs = demo_json [], CeStore = demo_store,
      CeGetManifest = (\<lambda>k. Inl []), CeGetMeta = (\<lambda>k. None),
      CeOp = (\<lambda>body call st. (OpDone, [DirectoryProgress 1 2 3 4], st)), CeGet = (\<lambda>k dek w. (Inl [], w)),
      CeSearch = (\<lambda>q sv. ([], sv)), CeTwoPort = False, CeDual = (\<lambda>a. False), CeAnswer = None, CeLan = [],
      CeTick = int, CeClock = int\<rparr>"

definition demo_state :: "((bucket \<Rightarrow> (string \<times> doc) list), ((meta_bucket \<times> string) \<times> byte list) list bolt_meta) client_state" where
  "demo_state = \<lparr>CsServer = demo_server, CsMgr = NewManager, CsWorld = (demo_meta_store, no_files), CsSpawned = []\<rparr>"



theorem finished_transfer_recorded_witness:
  "\<exists>sv m d us ps. end_transfer demo_net (\<lambda>n. 5 + int n) (\<lambda>k. 0) (\<lambda>k. None) demo_job (format_id 1) 0 OpDone
       (demo_server, snd (snd (begin_transfer 5 demo_job NewManager))) = (sv, m) \<and> SvDb sv = Some d \<and>
     StateDB.ListUploads d = Inr us \<and> upload_of 5 0 demo_job \<in> set us \<and> ListPublicFiles d = Inr ps \<and> public_of 6 0 demo_job \<in> set ps"
proof -
  obtain tid ctx m where b: "begin_transfer 5 demo_job NewManager = (tid, ctx, m)" by (metis prod_cases3)
  have tid: "tid = format_id 1" using begin_transfer_entry(1) [OF b] by (simp add: NewManager_def)
  have i: "Get (format_id 1) m = Some (fresh_info 5 demo_job (format_id 1))" using begin_transfer_entry(2) [OF b, of tid] tid by simp
  obtain sv' m' where e: "end_transfer demo_net (\<lambda>n. 5 + int n) (\<lambda>k. 0) (\<lambda>k. None) demo_job (format_id 1) 0 OpDone (demo_server, m) = (sv', m')"
    by fastforce
  have clock: "5 + int n \<noteq> 0" for n by simp
  have j: "Uploads \<in> recorded_in demo_job" "PublicFiles \<in> recorded_in demo_job" "final_size (\<lambda>k. 0) (\<lambda>k. None) demo_job = 0"
    by (simp_all add: recorded_in_def demo_job_def final_size_def)
  show ?thesis
    using finished_transfer_recorded [OF i demo_server_sel(4) alist_db_typed clock e] e unfolding b j(3) using j(1,2) by auto
qed

definition demo_signer :: signer where
  "demo_signer = \<lparr>payload_json = (\<lambda>p. []), sha = id, ed_Sign = (\<lambda>k m. replicate 64 0), ed_Verify = (\<lambda>k m s. True)\<rparr>"

definition demo_me :: identity where
  "demo_me = \<lparr>IdFingerprint = ''me'', IdX25519Priv = replicate 32 3, IdX25519Pub = replicate 32 3, IdEd25519Priv = []\<rparr>"

definition demo_you :: identity where
  "demo_you = \<lparr>IdFingerprint = ''you'', IdX25519Priv = replicate 32 4, IdX25519Pub = replicate 32 4, IdEd25519Priv = []\<rparr>"

definition demo_keys :: keys_env where
  "demo_keys = \<lparr>KeIdentity = Some demo_me, KeKdf = demo_kdf, KeAead = demo_aead, KeSigner = demo_signer, KeNonce = Some (replicate 12 1)\<rparr>"

definition demo_secret :: "access_key \<Rightarrow> chunk_manifest" where
  "demo_secret e = demo_manifest\<lparr>MEncrypted := True, MOwnerPubKey := hex_encode (replicate 32 3),
     MAccessList := [\<lparr>RecipientPubKey = KRecipientPubKey e, WrappedDEK = KWrappedDEK e\<rparr>]\<rparr>"

definition demo_secret_store :: "access_key \<Rightarrow> ((meta_bucket \<times> string) \<times> byte list) list bolt_meta" where
  "demo_secret_store e = demo_meta_store\<lparr>BMData := [((ManifestsBucket, ''me/f''), bytes_of (jMarshal lossless_json (demo_secret e)))]\<rparr>"

lemma demo_kdf_ok: "kdf_ok demo_kdf (replicate 32 3) (replicate 32 3) (replicate 32 n) (replicate 32 n)"
  by (auto simp: kdf_ok_def demo_kdf_def)

theorem granted_share_readable_witness:
  "\<exists>e m' sv' man'. WrapDEKForRecipient demo_kdf demo_aead (Some (replicate 12 1)) (replicate 32 3) (hex_encode (replicate 32 3)) [5, 6] = Inr e \<and>
     grantAccessToRecipient demo_texts demo_keys demo_net lossless_json demo_dir_json bm_ops (\<lambda>k. Inl []) (\<lambda>k. None) ''me/f'' False
       (hex_encode (replicate 32 4)) (demo_secret_store e, demo_server) = (None, m', sv') \<and>
     bm_GetManifest m' ''me/f'' = Some man' \<and> unwrapDEK demo_kdf demo_aead demo_you (manifest_info man' False) = Inr [5, 6]"
proof -
  obtain e where e: "WrapDEKForRecipient demo_kdf demo_aead (Some (replicate 12 1)) (replicate 32 3) (hex_encode (replicate 32 3)) [5, 6] = Inr e"
    "KRecipientPubKey e = hex_encode (replicate 32 3)"
    "UnwrapDEK demo_kdf demo_aead (replicate 32 3) (hex_encode (replicate 32 3)) (KWrappedDEK e) = Inr [5, 6]"
    using wrapped_key_exact [OF demo_aead_ok demo_kdf_ok [of 3], of "replicate 12 1" "[5, 6]"] unfolding NonceSize_def length_replicate by blast
  have keys: "KeIdentity demo_keys = Some demo_me" "prefix (IdFingerprint demo_me @ ''/'') ''me/f''" "\<not> reserved ''me/f''"
    "aead_ok (KeAead demo_keys)"
    "kdf_ok (KeKdf demo_keys) (IdX25519Priv demo_me) (IdX25519Pub demo_me) (IdX25519Priv demo_you) (IdX25519Pub demo_you)"
    "KeNonce demo_keys = Some (replicate 12 1)" "length (replicate 12 (1 :: byte)) = NonceSize" "length (replicate 32 (0 :: byte)) = 32"
    "\<forall>msg. length (ed_Sign (KeSigner demo_keys) (IdEd25519Priv demo_me) msg) = 64 \<and>
      ed_Verify (KeSigner demo_keys) (replicate 32 0) msg (ed_Sign (KeSigner demo_keys) (IdEd25519Priv demo_me) msg)"
    by (simp_all add: demo_keys_def demo_me_def demo_you_def demo_signer_def demo_aead_ok demo_kdf_ok NonceSize_def reserved_def)
  have ops: "BMOps (demo_secret_store e) = alist_kv" "BMManifest (demo_secret_store e) = lossless_json"
    by (simp_all add: demo_secret_store_def demo_meta_store_def)
  have kv: "kv_ok (BMOps (demo_secret_store e))" by (simp add: ops alist_kv_ok)
  have writes: "\<forall>wrapped sig. \<exists>m'. MSetManifest bm_ops (demo_secret_store e) ''me/f'' (granted demo_you (demo_secret e) wrapped sig) = (None, m')"
    by (auto simp: bm_ops_def bm_SetManifest_def bm_update_def put_manifest_def ops alist_kv_def split: prod.splits)
  have json: "\<forall>wrapped sig. json_ok (BMManifest (demo_secret_store e)) (granted demo_you (demo_secret e) wrapped sig)" by (simp add: ops)
  have got: "bm_GetManifest (demo_secret_store e) ''me/f'' = Some (demo_secret e)"
    using lossless_ok [of "demo_secret e"]
    by (simp add: bm_GetManifest_def demo_secret_store_def demo_meta_store_def alist_kv_def json_ok_def)
  have man: "MEncrypted (demo_secret e)" "MOwnerPubKey (demo_secret e) = hex_encode (IdX25519Pub demo_me)"
    "unwrapDEK (KeKdf demo_keys) (KeAead demo_keys) demo_me (manifest_info (demo_secret e) False) = Inr [5, 6]"
    using e(2,3) by (simp_all add: demo_secret_def demo_me_def unwrapDEK_def manifest_info_def demo_keys_def)
  have "hex_decode (hex_encode (replicate 32 (3 :: byte))) \<noteq> hex_decode (hex_encode (replicate 32 4))" by simp
  then have new: "\<not> has_access (hex_encode (IdX25519Pub demo_you)) (MAccessList (demo_secret e))"
    using e(2) by (auto simp: demo_secret_def demo_you_def has_access_def)
  have ring: "0 \<le> ring_ReplicationFactor (SvRing demo_server)"
    by (simp add: ring_ReplicationFactor_def ring_New_def DefaultReplicationFactor_def Let_def)
  have k: "KeKdf demo_keys = demo_kdf" "KeAead demo_keys = demo_aead" "IdX25519Pub demo_you = replicate 32 4"
    by (simp_all add: demo_keys_def demo_you_def)
  show ?thesis
    using e(1) granted_share_readable [OF keys kv writes json got man new ring, of demo_texts demo_net lossless_json demo_dir_json
        "\<lambda>k. Inl []" "\<lambda>k. None"] unfolding k by fastforce
qed

end
