(* ===== verification/Spec2Isabelle.thy ===== *)
theory Spec2Isabelle
  imports StreamBack Quorum Rebalance Gossip Failure Handoff Merkle Selector Chunker Swarm Transfers StreamDownload DirDownload Ipc StateLaws CacheManager Recovery Crypto DirManifest Compression Addr ReadBack PeerLaws Search ShareLaws SeedLaws NodeLaws DirLaws DaemonLaws
begin

text \<open>
  A verification development of DFS-Go, a peer-to-peer file store written in Go. Every node runs one server; a
  command line and a terminal interface talk to it over a local socket. Files are split into chunks, compressed
  and optionally encrypted, stored under the hash of the stored bytes, and placed on the nodes a consistent hash
  ring names. Nodes know each other through gossip and announcements, watch each other with a failure detector
  and repair their stores with hinted handoff, Merkle trees, rebalancing and read repair.

  Each component of the program has a theory (two when its theorems are long, the second named \<open>...Laws\<close>), with
  the types, functions and names of the source. Definitions come in the order of the code; lemmas follow; a
  property stands after a text block that states it, and its witness applies it to a concrete input.

  \<^bold>\<open>Shared theories.\<close> \<open>Prelude\<close> has the Go values (maps as association lists whose order is the iteration order,
  64-bit wrap-around, byte and hex text, binary search); \<open>Files\<close> has files by path, line scanning and number
  formats, and Storage/rename.go.

  \<^bold>\<open>Cluster/\<close>. \<open>VClock\<close> (vclock/vclock.go): clocks with 64-bit counters, \<open>Compare\<close> decides the pointwise order, \<open>Merge\<close>
  is its least upper bound. \<open>Conflict\<close> (conflict/conflict.go): last writer wins, over the locale \<open>causal_clock\<close>.
  \<open>HashRing\<close> (hashring/hashring.go): the representation invariant \<open>ring_ok\<close>, replica sets, minimal disruption; its
  locale \<open>replica_placement\<close> carries \<open>Rebalance\<close> (rebalance/rebalance.go). \<open>Membership\<close> (membership/membership.go): the
  table as a record, its listeners as a log; the locale \<open>membership_table\<close> carries \<open>Gossip\<close> (gossip/gossip.go).
  \<open>Failure\<close> (failure/detector.go): phi accrual and the reaper, also split into its atomic steps. \<open>Handoff\<close>
  (handoff/handoff.go), \<open>Merkle\<close> (merkle/merkle.go), \<open>Quorum\<close> (quorum/quorum.go, a machine over events in any order)
  and \<open>Selector\<close> (selector/selector.go).

  \<^bold>\<open>Storage/, Crypto/ and State/\<close>. \<open>Chunker\<close>, \<open>Compression\<close>, \<open>DirManifest\<close>, \<open>Sidecars\<close> (resume and pending logs), \<open>Swarm\<close>,
  \<open>CacheManager\<close>, \<open>ChunkStore\<close> with \<open>StoreLaws\<close> (storage.go: chunk files and the two metadata stores behind the locale
  \<open>metadata_store\<close>), \<open>Crypto\<close> (streaming encryption and envelopes), \<open>StateDB\<close> with \<open>StateLaws\<close> (state.go).

  \<^bold>\<open>ipc/ and cmd/\<close>. \<open>Wire\<close> and \<open>Ipc\<close>: every frame and message of the local protocol, as writers of bytes and readers of
  the bytes that still come, behind the locale \<open>codec\<close>. \<open>Daemon\<close> and \<open>DaemonLaws\<close> (cmd/handle_client.go, cmd/handle_peers.go): the
  daemon's handler of each request, with the registry of transfers and the state database it keeps, sessions and resumed
  goroutines as a step relation, and of the client the loops that read a session and \<open>unwrapDEK\<close>.

  \<^bold>\<open>Server/\<close>. \<open>Transfers\<close> (transfer/transfer.go); \<open>Downloader\<close>, \<open>FileDownload\<close>, \<open>StreamDownload\<close>, \<open>DirDownload\<close>
  (downloader/downloader.go). The remaining theories model server.go: \<open>Addr\<close> (addresses), \<open>Upload\<close>, \<open>ChunkCas\<close> and
  \<open>ReadBack\<close> (storing and reading files, over the locale \<open>cas_store\<close>), \<open>StreamBack\<close> (reading through the downloader
  \<open>MakeServer\<close> installs), \<open>Recovery\<close> (resumed downloads), \<open>DirTransfer\<close> and
  \<open>DirLaws\<close> (directories), \<open>Network\<close>, \<open>Peers\<close> and \<open>PeerLaws\<close> (connections, announcements, the blocklist), \<open>Search\<close>
  (flooding), \<open>Sharing\<close> and \<open>ShareLaws\<close> (direct shares, catalogs, deletion, access), \<open>Seeding\<close> and \<open>SeedLaws\<close> (seeding in
  place and the swarm protocol), \<open>Node\<close> and \<open>NodeLaws\<close> (the whole server: the dispatch of every message, its
  goroutines as tasks that run in any order, and the closures \<open>MakeServer\<close> hands to the other components).

  \<^bold>\<open>How components are joined.\<close> An operation takes the state it reads and returns the state it changed, so the Go
  call graph is function application: an upload threads the metadata store and the file system of \<open>ChunkStore\<close> through
  the chunks of \<open>Chunker\<close>, \<open>Compression\<close> and \<open>Crypto\<close>; a server handler threads the record \<open>server\<close> of \<open>Network\<close>, which
  contains the ring, the membership table and the state database. A Go error is a value of an error datatype, a panic
  or an endless wait is \<open>None\<close>. A mutex makes its operation one step; what runs concurrently is a list of events, an
  order of completion or an inductive step relation, and the theorems hold for every such order. A handler of the
  message loop is one step: how long a blocked send, a lock or an fsync takes is not modelled. Where a handler shares a
  buffer with another goroutine, the bytes it reads later are a parameter (\<open>EvCopied\<close> of \<open>Node\<close>).

  \<^bold>\<open>Parameters.\<close> Third-party code and the outside world are arguments: SHA-256, MD5, AES-GCM, X25519, Ed25519, zstd,
  bbolt, the JSON codecs, clocks, random names, sockets (which sends succeed) and the operating system's answers. The
  laws the code relies on are named predicates (\<open>aead_ok\<close>, \<open>codec_ok\<close>, \<open>kv_ok\<close>, \<open>bolt_ok\<close>, \<open>json_ok\<close>); each is shown
  to hold of a concrete instance, on which the witnesses run. \<open>float64\<close> values are real numbers.

  \<^bold>\<open>Loops.\<close> Loops are structural recursion or carry a measure: ring walks count the positions left, chunk loops the
  bytes left, retry loops the attempts left, hence every such operation returns. The message loop, the reaper and
  the flood of a search have no fuel: they are step relations, and their theorems quantify over all runs.

  \<^bold>\<open>What the groups of lemmas show.\<close> Type and representation invariants for every stateful component; functional
  behaviour on each branch; refinement of an abstract map by the local store, of the causal order by vector clocks
  and of state joins by gossip; round trips for encryption, the local protocol and its sessions, sidecars, uploads,
  directories, metadata requests between nodes and keys shared with a peer; safety of the reaper, of quorums, of output paths, of the
  blocklist and of acknowledged writes; liveness of stream downloads, of the flood and of queued shares. Lemmas named
  in the manifest's findings show where the code does less than its comments say.

  \<^bold>\<open>Not modelled.\<close> Sockets and TLS (Peer2Peer/, Crypto/tls.go), key files (Crypto/identity), NAT and mDNS, metrics, logs
  and health endpoints (Observability/), flag parsing, prompts and screen output (the rest of cmd/, and tui/), and starting and stopping:
  they call libraries or the operating system and keep no state the program's logic reads. Buffer pools only recycle
  memory. gob encoding is taken not to fail.
\<close>

end
